(* ===== verification/Ov_Prelude.thy ===== *)
theory Ov_Prelude
  imports Main "HOL-Library.Sublist" "HOL-Library.Product_Lexorder"
begin

text \<open>
  The prelude of the development. It models the few operations of the Rust standard library
  on \<open>str\<close> and byte slices that the sources use (\<open>split\<close>, \<open>split_once\<close>, \<open>strip_prefix\<close>,
  \<open>strip_suffix\<close>, \<open>find\<close>, \<open>sort_by_key\<close>, \<open>max_by_key\<close>, the ASCII case functions), fixes
  the names the component theories share, and collects their generic lemmas.

  A Rust \<open>&str\<close> or \<open>&[u8]\<close> is a \<open>string\<close> whose characters are bytes, so \<open>length\<close> is
  the byte length. A \<open>Result<T>\<close> is \<open>'e + 'a\<close> with the error on the left.
\<close>

named_theorems strops \<open>characterisations of the string operations of the standard library\<close>
named_theorems segops \<open>facts on slash-separated paths as segment lists\<close>

section \<open>Prefixes and suffixes\<close>

fun strip_prefix :: "string \<Rightarrow> string \<Rightarrow> string option" where
  "strip_prefix [] s = Some s"
| "strip_prefix (p # ps) [] = None"
| "strip_prefix (p # ps) (c # cs) = (if p = c then strip_prefix ps cs else None)"

definition strip_suffix :: "string \<Rightarrow> string \<Rightarrow> string option" where
  "strip_suffix p s = map_option rev (strip_prefix (rev p) (rev s))"

definition starts_with :: "string \<Rightarrow> string \<Rightarrow> bool" where
  "starts_with p s \<longleftrightarrow> strip_prefix p s \<noteq> None"

definition ends_with :: "string \<Rightarrow> string \<Rightarrow> bool" where
  "ends_with p s \<longleftrightarrow> strip_suffix p s \<noteq> None"

lemma strip_prefix_Some [strops]: "strip_prefix p s = Some r \<longleftrightarrow> s = p @ r"
  by (induction p s rule: strip_prefix.induct) auto

lemma strip_prefix_append [simp]: "strip_prefix p (p @ r) = Some r"
  by (simp add: strip_prefix_Some)

lemma strip_suffix_Some [strops]: "strip_suffix p s = Some r \<longleftrightarrow> s = r @ p"
  unfolding strip_suffix_def by (auto simp: strip_prefix_Some) (metis rev_append rev_rev_ident)+

lemma starts_with_iff [strops]: "starts_with p s \<longleftrightarrow> prefix p s"
  by (auto simp: starts_with_def prefix_def strip_prefix_Some)

lemma ends_with_iff [strops]: "ends_with p s \<longleftrightarrow> suffix p s"
  by (auto simp: ends_with_def suffix_def strip_suffix_Some)

lemma strip_prefix_None [strops]: "strip_prefix p s = None \<longleftrightarrow> \<not> prefix p s"
  by (metis not_None_eq starts_with_def starts_with_iff)

lemma strip_suffix_None [strops]: "strip_suffix p s = None \<longleftrightarrow> \<not> suffix p s"
  by (metis not_None_eq ends_with_def ends_with_iff)

lemma ends_with_single [simp]: "ends_with [c] s \<longleftrightarrow> s \<noteq> [] \<and> last s = c"
  unfolding ends_with_iff suffix_def by (cases s rule: rev_cases) auto

lemma starts_with_Nil [simp]: "starts_with [] s"
  by (simp add: starts_with_def)

lemma starts_with_Cons [simp]:
  "starts_with (p # ps) [] = False"
  "starts_with (p # ps) (c # cs) \<longleftrightarrow> p = c \<and> starts_with ps cs"
  by (auto simp: starts_with_def)

lemma starts_with_single [simp]: "starts_with [c] s \<longleftrightarrow> s \<noteq> [] \<and> hd s = c"
  unfolding starts_with_iff by (cases s) auto

section \<open>Splitting\<close>

text \<open>
  \<open>split_on d s\<close> is \<open>s.split(d)\<close>: the pieces between the occurrences of \<open>d\<close>, never an
  empty list. \<open>split_once d s\<close> cuts at the first occurrence. \<open>break_at P s\<close> is the pair of
  the text before and from the first character satisfying \<open>P\<close>, which is how the sources use
  \<open>find\<close> with a set of delimiters.
\<close>

fun split_on :: "char \<Rightarrow> string \<Rightarrow> string list" where
  "split_on d [] = [[]]"
| "split_on d (c # cs) =
     (if c = d then [] # split_on d cs
      else case split_on d cs of [] \<Rightarrow> [[c]] | p # ps \<Rightarrow> (c # p) # ps)"

fun split_once :: "char \<Rightarrow> string \<Rightarrow> (string \<times> string) option" where
  "split_once d [] = None"
| "split_once d (c # cs) =
     (if c = d then Some ([], cs)
      else map_option (\<lambda>(a, b). (c # a, b)) (split_once d cs))"

definition rsplit_once :: "char \<Rightarrow> string \<Rightarrow> (string \<times> string) option" where
  "rsplit_once d s = map_option (\<lambda>(a, b). (rev b, rev a)) (split_once d (rev s))"

definition break_at :: "(char \<Rightarrow> bool) \<Rightarrow> string \<Rightarrow> string \<times> string" where
  "break_at P s = (takeWhile (\<lambda>c. \<not> P c) s, dropWhile (\<lambda>c. \<not> P c) s)"

fun join_with :: "char \<Rightarrow> string list \<Rightarrow> string" where
  "join_with d [] = []"
| "join_with d [p] = p"
| "join_with d (p # q # ps) = p @ d # join_with d (q # ps)"

lemma split_on_not_Nil [simp]: "split_on d s \<noteq> []"
  by (induction s) (auto split: list.splits)

lemma split_on_no_delim [segops]: "p \<in> set (split_on d s) \<Longrightarrow> d \<notin> set p"
  by (induction s arbitrary: p) (auto split: if_splits list.splits)

lemma split_on_append_delim [simp]:
  "split_on d (xs @ d # ys) = split_on d xs @ split_on d ys"
  by (induction xs) (auto split: list.splits simp: neq_Nil_conv)

lemma split_on_idle [simp]: "d \<notin> set s \<Longrightarrow> split_on d s = [s]"
  by (induction s) auto

lemma join_with_Cons_char [simp]: "join_with d ((c # p) # ps) = c # join_with d (p # ps)"
  by (cases ps) auto

lemma join_with_Cons_Nil: "ps \<noteq> [] \<Longrightarrow> join_with d ([] # ps) = d # join_with d ps"
  by (cases ps) auto

lemma join_split [simp]: "join_with d (split_on d s) = s"
proof (induction s)
  case (Cons c cs)
  then show ?case by (cases "split_on d cs") (auto simp: join_with_Cons_Nil)
qed simp

lemma split_join:
  "ps \<noteq> [] \<Longrightarrow> \<forall>p \<in> set ps. d \<notin> set p \<Longrightarrow> split_on d (join_with d ps) = ps"
  by (induction d ps rule: join_with.induct) auto

lemma split_on_inj: "split_on d s = split_on d t \<Longrightarrow> s = t"
  by (metis join_split)

lemma split_on_append_nodelim:
  "d \<notin> set ys \<Longrightarrow> split_on d (xs @ ys) = butlast (split_on d xs) @ [last (split_on d xs) @ ys]"
proof (induction xs)
  case (Cons c cs)
  then show ?case
    by (cases "split_on d cs") (auto split: list.splits simp: neq_Nil_conv)
qed simp

lemma split_once_Some [strops]:
  "split_once d s = Some (a, b) \<longleftrightarrow> s = a @ d # b \<and> d \<notin> set a"
proof (induction s arbitrary: a)
  case (Cons c cs)
  then show ?case by (cases a) auto
qed simp

lemma split_once_None [strops]: "split_once d s = None \<longleftrightarrow> d \<notin> set s"
  by (induction s) auto

lemma rsplit_once_Some [strops]:
  "rsplit_once d s = Some (a, b) \<longleftrightarrow> s = a @ d # b \<and> d \<notin> set b"
proof -
  have "rsplit_once d s = Some (a, b) \<longleftrightarrow> split_once d (rev s) = Some (rev b, rev a)"
    unfolding rsplit_once_def by (auto split: prod.splits)
  also have "\<dots> \<longleftrightarrow> s = a @ d # b \<and> d \<notin> set b"
    by (auto simp: split_once_Some rev_swap)
  finally show ?thesis .
qed

section \<open>Substring search\<close>

text \<open>
  \<open>after_first p s\<close> is the text that follows the first occurrence of \<open>p\<close> in \<open>s\<close>, that is
  \<open>&s[s.find(p)? + p.len()..]\<close>; \<open>None\<close> when \<open>p\<close> does not occur.
\<close>

fun after_first :: "string \<Rightarrow> string \<Rightarrow> string option" where
  "after_first p [] = (if p = [] then Some [] else None)"
| "after_first p (c # cs) =
     (case strip_prefix p (c # cs) of Some r \<Rightarrow> Some r | None \<Rightarrow> after_first p cs)"

definition contains_str :: "string \<Rightarrow> string \<Rightarrow> bool" where
  "contains_str p s \<longleftrightarrow> after_first p s \<noteq> None"

lemma after_first_Some: "after_first p s = Some r \<Longrightarrow> \<exists>u. s = u @ p @ r"
proof (induction p s rule: after_first.induct)
  case (2 p c cs)
  show ?case
  proof (cases "strip_prefix p (c # cs)")
    case None
    with 2 obtain u where "cs = u @ p @ r" by auto
    then show ?thesis by (intro exI[of _ "c # u"]) simp
  next
    case (Some r')
    with 2 show ?thesis by (intro exI[of _ "[]"]) (auto simp: strip_prefix_Some)
  qed
qed (auto split: if_splits)

text \<open>The first occurrence leaves the longest remainder.\<close>

lemma after_first_longest:
  "s = u @ p @ r \<Longrightarrow> \<exists>r'. after_first p s = Some r' \<and> suffix r r'"
proof (induction s arbitrary: u)
  case (Cons c cs)
  show ?case
  proof (cases "strip_prefix p (c # cs)")
    case (Some r')
    then have "c # cs = p @ r'" by (simp add: strip_prefix_Some)
    with Cons.prems have eq: "p @ r' = u @ p @ r" by simp
    from arg_cong[OF this, of length] have "length r \<le> length r'" by simp
    moreover have "suffix r' (p @ r')" by (simp add: suffixI)
    moreover have "suffix r (p @ r')" by (metis append.assoc eq suffixI)
    ultimately have "suffix r r'" by (metis suffix_length_suffix)
    with Some show ?thesis by simp
  next
    case None
    with Cons.prems have "u \<noteq> []" by (cases u) (auto simp: strip_prefix_None)
    then obtain u' where "u = c # u'" using Cons.prems by (cases u) auto
    with Cons.prems have "cs = u' @ p @ r" by simp
    from Cons.IH[OF this] None show ?thesis by simp
  qed
qed simp

lemma contains_str_iff [strops]: "contains_str p s \<longleftrightarrow> sublist p s"
  unfolding contains_str_def sublist_def
  using after_first_Some after_first_longest by fastforce

section \<open>ASCII\<close>

definition is_upper :: "char \<Rightarrow> bool" where
  "is_upper c \<longleftrightarrow> 65 \<le> (of_char c :: nat) \<and> (of_char c :: nat) \<le> 90"

definition ascii_lower :: "char \<Rightarrow> char" where
  "ascii_lower c = (if is_upper c then char_of ((of_char c :: nat) + 32) else c)"

abbreviation to_ascii_lowercase :: "string \<Rightarrow> string" where
  "to_ascii_lowercase \<equiv> map ascii_lower"

definition eq_ignore_ascii_case :: "string \<Rightarrow> string \<Rightarrow> bool" where
  "eq_ignore_ascii_case a b \<longleftrightarrow> to_ascii_lowercase a = to_ascii_lowercase b"

definition is_ascii_alphabetic :: "char \<Rightarrow> bool" where
  "is_ascii_alphabetic c \<longleftrightarrow> is_upper c \<or> (97 \<le> (of_char c :: nat) \<and> (of_char c :: nat) \<le> 122)"

lemma ascii_lower_idem [simp]: "ascii_lower (ascii_lower c) = ascii_lower c"
proof (cases "is_upper c")
  case True
  then have "(of_char c :: nat) + 32 < 256" and "90 < (of_char c :: nat) + 32"
    by (auto simp: is_upper_def)
  with True show ?thesis
    by (simp add: ascii_lower_def is_upper_def)
qed (simp add: ascii_lower_def)

lemma to_ascii_lowercase_idem [simp]:
  "to_ascii_lowercase (to_ascii_lowercase s) = to_ascii_lowercase s"
  by (simp add: comp_def)

section \<open>Ordered selection\<close>

text \<open>
  \<open>sort_desc f\<close> is \<open>sort_by_key(|x| Reverse(f(x)))\<close>: stable, largest key first.
  \<open>max_by_key f\<close> is the iterator method: the last of the elements with the largest key.
\<close>

definition sort_desc :: "('a \<Rightarrow> 'k::linorder) \<Rightarrow> 'a list \<Rightarrow> 'a list" where
  "sort_desc f xs = rev (sort_key f (rev xs))"

fun max_by_key :: "('a \<Rightarrow> 'k::linorder) \<Rightarrow> 'a list \<Rightarrow> 'a option" where
  "max_by_key f [] = None"
| "max_by_key f (x # xs) =
     (case max_by_key f xs of
        None \<Rightarrow> Some x
      | Some y \<Rightarrow> if f x \<le> f y then Some y else Some x)"

lemma set_sort_desc [simp]: "set (sort_desc f xs) = set xs"
  by (simp add: sort_desc_def)

lemma sort_desc_sorted: "sorted_wrt (\<lambda>x y. f y \<le> f x) (sort_desc f xs)"
proof -
  have "sorted_wrt (\<lambda>x y. f x \<le> f y) (sort_key f (rev xs))"
    using sorted_sort_key[of f "rev xs"] by (simp add: sorted_wrt_map)
  then show ?thesis by (simp add: sort_desc_def sorted_wrt_rev)
qed

lemma sort_desc_stable: "filter (\<lambda>x. f x = k) (sort_desc f xs) = filter (\<lambda>x. f x = k) xs"
  by (simp add: sort_desc_def rev_filter[symmetric] sort_key_stable)

lemma max_by_key_None [simp]: "max_by_key f xs = None \<longleftrightarrow> xs = []"
  by (cases xs) (auto split: option.splits)

lemma max_by_key_in: "max_by_key f xs = Some m \<Longrightarrow> m \<in> set xs"
  by (induction xs arbitrary: m) (auto split: option.splits if_splits)

lemma max_by_key_max: "max_by_key f xs = Some m \<Longrightarrow> x \<in> set xs \<Longrightarrow> f x \<le> f m"
proof (induction xs arbitrary: m)
  case (Cons y ys)
  then show ?case
    by (cases "max_by_key f ys") (fastforce split: if_splits simp: not_le)+
qed simp

text \<open>When the keys are pairwise different the result is the unique maximum.\<close>

lemma max_by_key_unique:
  assumes "m \<in> set xs" and "\<And>x. x \<in> set xs \<Longrightarrow> x \<noteq> m \<Longrightarrow> f x < f m"
  shows "max_by_key f xs = Some m"
proof -
  obtain m' where m': "max_by_key f xs = Some m'"
    using assms(1) by (cases "max_by_key f xs") auto
  with assms show ?thesis
    using max_by_key_in[OF m'] max_by_key_max[OF m' assms(1)] by (metis not_less)
qed

text \<open>The first element of a descending stable sort that satisfies a predicate.\<close>

lemma find_sort_desc_max:
  assumes "find P (sort_desc f xs) = Some x" and "y \<in> set xs" and "P y"
  shows "f y \<le> f x"
proof -
  let ?s = "sort_desc f xs"
  from assms(1) obtain i where i: "i < length ?s" "P (?s ! i)" "x = ?s ! i" "\<forall>j<i. \<not> P (?s ! j)"
    by (auto simp: find_Some_iff)
  from assms(2) obtain j where j: "j < length ?s" "?s ! j = y"
    by (metis in_set_conv_nth set_sort_desc)
  with i assms(3) have "i \<le> j" by (meson not_less)
  then show ?thesis
    using sorted_wrt_nth_less[OF sort_desc_sorted[of f xs], of i j] i j by (cases "i = j") auto
qed

text \<open>
  \<open>chosen P f xs r\<close>: \<open>r\<close> is the earliest of the elements satisfying \<open>P\<close> whose key is largest,
  or nothing when none satisfies it.
\<close>

definition chosen :: "('a \<Rightarrow> bool) \<Rightarrow> ('a \<Rightarrow> 'k::linorder) \<Rightarrow> 'a list \<Rightarrow> 'a option \<Rightarrow> bool" where
  "chosen P f xs r =
     (case r of
        None \<Rightarrow> \<forall>x \<in> set xs. \<not> P x
      | Some x \<Rightarrow> \<exists>ys zs. xs = ys @ x # zs \<and> P x \<and>
          (\<forall>y \<in> set ys. P y \<longrightarrow> f y < f x) \<and> (\<forall>z \<in> set zs. P z \<longrightarrow> f z \<le> f x))"

lemma filter_eq_ConsE:
  assumes "filter P xs = x # r"
  obtains ys zs where "xs = ys @ x # zs" "\<forall>y \<in> set ys. \<not> P y" "P x"
  using assms by (auto simp: filter_eq_Cons_iff)

lemma find_filter: "find P xs = (case filter P xs of [] \<Rightarrow> None | x # _ \<Rightarrow> Some x)"
  by (induction xs) auto

lemma find_sort_desc_chosen: "chosen P f xs (find P (sort_desc f xs))"
proof (cases "find P (sort_desc f xs)")
  case None
  then have "\<forall>x \<in> set xs. \<not> P x" by (simp add: find_None_iff)
  then show ?thesis unfolding None by (simp add: chosen_def)
next
  case (Some x)
  have Px: "P x" using Some by (auto simp: find_Some_iff)
  have top: "f y \<le> f x" if "y \<in> set xs" "P y" for y
    using find_sort_desc_max[OF Some that] .
  have "find (\<lambda>y. P y \<and> f y = f x) (sort_desc f xs) = Some x"
    using Some Px unfolding find_Some_iff by auto
  moreover have "filter (\<lambda>y. P y \<and> f y = f x) (sort_desc f xs) = filter (\<lambda>y. P y \<and> f y = f x) xs"
    using arg_cong[OF sort_desc_stable[of f "f x" xs], of "filter P"] by (simp add: conj_commute)
  ultimately obtain r where "filter (\<lambda>y. P y \<and> f y = f x) xs = x # r"
    by (auto simp: find_filter split: list.splits)
  then obtain ys zs where split: "xs = ys @ x # zs" "\<forall>y \<in> set ys. \<not> (P y \<and> f y = f x)"
    by (rule filter_eq_ConsE)
  then have "\<forall>y \<in> set ys. P y \<longrightarrow> f y < f x" "\<forall>z \<in> set zs. P z \<longrightarrow> f z \<le> f x"
    using top by (auto simp: less_le)
  then show ?thesis using Some Px split(1) unfolding chosen_def by auto
qed

lemma chosen_unique:
  assumes "chosen P f xs (Some x)" "chosen P f xs r"
  shows "r = Some x"
proof -
  from assms(1) obtain ys zs where x: "xs = ys @ x # zs" "P x" "\<forall>y \<in> set ys. P y \<longrightarrow> f y < f x"
    "\<forall>z \<in> set zs. P z \<longrightarrow> f z \<le> f x" by (auto simp: chosen_def)
  with assms(2) obtain x' where r: "r = Some x'" by (cases r) (auto simp: chosen_def)
  with assms(2) obtain ys' zs' where x': "xs = ys' @ x' # zs'" "P x'" "\<forall>y \<in> set ys'. P y \<longrightarrow> f y < f x'"
    "\<forall>z \<in> set zs'. P z \<longrightarrow> f z \<le> f x'" by (auto simp: chosen_def)
  have "f x' = f x"
    using x x' by (metis Un_iff antisym in_set_conv_decomp list.set_intros(1) order.strict_implies_order order_refl set_ConsD set_append)
  have "length ys = length ys'"
  proof (rule linorder_cases[of "length ys" "length ys'"])
    assume "length ys < length ys'"
    then have "x \<in> set ys'" using x(1) x'(1) by (metis nth_append_length nth_append nth_mem)
    then show ?thesis using x'(3) x(2) \<open>f x' = f x\<close> by auto
  next
    assume "length ys' < length ys"
    then have "x' \<in> set ys" using x(1) x'(1) by (metis nth_append_length nth_append nth_mem)
    then show ?thesis using x(3) x'(2) \<open>f x' = f x\<close> by auto
  qed simp
  with x(1) x'(1) r show ?thesis by simp
qed

lemma chosen_cong: "(\<And>x. x \<in> set xs \<Longrightarrow> P x = Q x) \<Longrightarrow> chosen P f xs r = chosen Q f xs r"
proof -
  have imp: "chosen P f xs r \<Longrightarrow> chosen Q f xs r" if "\<And>x. x \<in> set xs \<Longrightarrow> P x = Q x" for P Q
    using that by (cases r) (simp_all add: chosen_def, metis in_set_conv_decomp Un_iff list.set_intros(2) set_append)
  assume "\<And>x. x \<in> set xs \<Longrightarrow> P x = Q x"
  then show ?thesis using imp[of P Q] imp[of Q P] by blast
qed

end
