(* ===== verification/Ov_Errors.thy ===== *)
theory Ov_Errors
  imports Ov_Prelude
begin

text \<open>
  The error taxonomy of \<open>ovstorage-layer/src/errors.rs\<close>: the closed set of error codes, the
  nine coarse buckets, and the derived retryability that the retry loops and the wrappers
  consult.

  Where the development returns a \<open>Result<T>\<close> the error value is its code. The message text
  of an \<open>Error\<close> is a diagnostic that no modelled operation branches on.
\<close>

section \<open>Codes and buckets\<close>

datatype error_code =
    Err_NotFound
  | Err_AlreadyExists
  | Err_PermissionDenied
  | Err_PreconditionFailed
  | Err_Conflict
  | Err_DirectoryNotEmpty
  | Err_Unsupported
  | Err_InvalidArgument
  | Err_IncompatibleType
  | Err_Locked
  | Err_Cancelled
  | Err_DeadlineExceeded
  | Err_Transient
  | Err_ResourceExhausted
  | Err_IntegrityFailure
  | Err_Internal
  | Err_BrokerUnavailable
  | Err_BrokerRequired
  | Err_RedirectExpired
  | Err_PolicyEpochStale
  | Err_AuthorizationLeaseExpired
  | Err_CacheCorrupt
  | Err_StagingExpired
  | Err_CommitAmbiguous
  | Err_CacheLockContention
  | Err_StateRootUnavailable
  | Err_NetworkFilesystemRefused
  | Err_ObjectModified
  | Err_NoRoute
  | Err_RouteConflict
  | Err_NotConfigured
  | Err_AliasChainTooLong
  | Err_CredentialExpired
  | Err_CredentialUnavailable
  | Err_AuthRequired
  | Err_AuthCancelled
  | Err_AuthExpired
  | Err_ContentMismatch
  | Err_ContentChecksumMismatch
  | Err_PluginRejected
  | Err_PartialCompletion

datatype error_bucket =
    Bucket_NotFound
  | Bucket_Permission
  | Bucket_Precondition
  | Bucket_Invalid
  | Bucket_Transient
  | Bucket_ResourceExhausted
  | Bucket_Unsupported
  | Bucket_Cancelled
  | Bucket_Internal

type_synonym 'a result = "error_code + 'a"

fun bucket_as_str :: "error_bucket \<Rightarrow> string" where
  "bucket_as_str Bucket_NotFound = ''not_found''"
| "bucket_as_str Bucket_Permission = ''permission''"
| "bucket_as_str Bucket_Precondition = ''precondition''"
| "bucket_as_str Bucket_Invalid = ''invalid''"
| "bucket_as_str Bucket_Transient = ''transient''"
| "bucket_as_str Bucket_ResourceExhausted = ''resource_exhausted''"
| "bucket_as_str Bucket_Unsupported = ''unsupported''"
| "bucket_as_str Bucket_Cancelled = ''cancelled''"
| "bucket_as_str Bucket_Internal = ''internal''"

fun bucket_retryable :: "error_bucket \<Rightarrow> bool" where
  "bucket_retryable Bucket_Transient = True"
| "bucket_retryable Bucket_ResourceExhausted = True"
| "bucket_retryable _ = False"

definition KNOWN :: "error_code list" where
  "KNOWN =
    [Err_NotFound,
     Err_AlreadyExists,
     Err_PermissionDenied,
     Err_PreconditionFailed,
     Err_Conflict,
     Err_DirectoryNotEmpty,
     Err_Unsupported,
     Err_InvalidArgument,
     Err_IncompatibleType,
     Err_Locked,
     Err_Cancelled,
     Err_DeadlineExceeded,
     Err_Transient,
     Err_ResourceExhausted,
     Err_IntegrityFailure,
     Err_Internal,
     Err_BrokerUnavailable,
     Err_BrokerRequired,
     Err_RedirectExpired,
     Err_PolicyEpochStale,
     Err_AuthorizationLeaseExpired,
     Err_CacheCorrupt,
     Err_StagingExpired,
     Err_CommitAmbiguous,
     Err_CacheLockContention,
     Err_StateRootUnavailable,
     Err_NetworkFilesystemRefused,
     Err_ObjectModified,
     Err_NoRoute,
     Err_RouteConflict,
     Err_NotConfigured,
     Err_AliasChainTooLong,
     Err_CredentialExpired,
     Err_CredentialUnavailable,
     Err_AuthRequired,
     Err_AuthCancelled,
     Err_AuthExpired,
     Err_ContentMismatch,
     Err_ContentChecksumMismatch,
     Err_PluginRejected,
     Err_PartialCompletion]"

fun code_as_str :: "error_code \<Rightarrow> string" where
  "code_as_str Err_NotFound = ''NotFound''"
| "code_as_str Err_AlreadyExists = ''AlreadyExists''"
| "code_as_str Err_PermissionDenied = ''PermissionDenied''"
| "code_as_str Err_PreconditionFailed = ''PreconditionFailed''"
| "code_as_str Err_Conflict = ''Conflict''"
| "code_as_str Err_DirectoryNotEmpty = ''DirectoryNotEmpty''"
| "code_as_str Err_Unsupported = ''Unsupported''"
| "code_as_str Err_InvalidArgument = ''InvalidArgument''"
| "code_as_str Err_IncompatibleType = ''IncompatibleType''"
| "code_as_str Err_Locked = ''Locked''"
| "code_as_str Err_Cancelled = ''Cancelled''"
| "code_as_str Err_DeadlineExceeded = ''DeadlineExceeded''"
| "code_as_str Err_Transient = ''Transient''"
| "code_as_str Err_ResourceExhausted = ''ResourceExhausted''"
| "code_as_str Err_IntegrityFailure = ''IntegrityFailure''"
| "code_as_str Err_Internal = ''Internal''"
| "code_as_str Err_BrokerUnavailable = ''BrokerUnavailable''"
| "code_as_str Err_BrokerRequired = ''BrokerRequired''"
| "code_as_str Err_RedirectExpired = ''RedirectExpired''"
| "code_as_str Err_PolicyEpochStale = ''PolicyEpochStale''"
| "code_as_str Err_AuthorizationLeaseExpired = ''AuthorizationLeaseExpired''"
| "code_as_str Err_CacheCorrupt = ''CacheCorrupt''"
| "code_as_str Err_StagingExpired = ''StagingExpired''"
| "code_as_str Err_CommitAmbiguous = ''CommitAmbiguous''"
| "code_as_str Err_CacheLockContention = ''CacheLockContention''"
| "code_as_str Err_StateRootUnavailable = ''StateRootUnavailable''"
| "code_as_str Err_NetworkFilesystemRefused = ''NetworkFilesystemRefused''"
| "code_as_str Err_ObjectModified = ''ObjectModified''"
| "code_as_str Err_NoRoute = ''NoRoute''"
| "code_as_str Err_RouteConflict = ''RouteConflict''"
| "code_as_str Err_NotConfigured = ''NotConfigured''"
| "code_as_str Err_AliasChainTooLong = ''AliasChainTooLong''"
| "code_as_str Err_CredentialExpired = ''CredentialExpired''"
| "code_as_str Err_CredentialUnavailable = ''CredentialUnavailable''"
| "code_as_str Err_AuthRequired = ''AuthRequired''"
| "code_as_str Err_AuthCancelled = ''AuthCancelled''"
| "code_as_str Err_AuthExpired = ''AuthExpired''"
| "code_as_str Err_ContentMismatch = ''ContentMismatch''"
| "code_as_str Err_ContentChecksumMismatch = ''ContentChecksumMismatch''"
| "code_as_str Err_PluginRejected = ''PluginRejected''"
| "code_as_str Err_PartialCompletion = ''PartialCompletion''"

fun bucket :: "error_code \<Rightarrow> error_bucket" where
  "bucket Err_NotFound = Bucket_NotFound"
| "bucket Err_NoRoute = Bucket_NotFound"
| "bucket Err_NotConfigured = Bucket_NotFound"
| "bucket Err_PermissionDenied = Bucket_Permission"
| "bucket Err_PluginRejected = Bucket_Permission"
| "bucket Err_CredentialExpired = Bucket_Permission"
| "bucket Err_CredentialUnavailable = Bucket_Permission"
| "bucket Err_AuthRequired = Bucket_Permission"
| "bucket Err_AuthCancelled = Bucket_Permission"
| "bucket Err_AuthExpired = Bucket_Permission"
| "bucket Err_PreconditionFailed = Bucket_Precondition"
| "bucket Err_ObjectModified = Bucket_Precondition"
| "bucket Err_AlreadyExists = Bucket_Precondition"
| "bucket Err_Conflict = Bucket_Precondition"
| "bucket Err_DirectoryNotEmpty = Bucket_Precondition"
| "bucket Err_IncompatibleType = Bucket_Precondition"
| "bucket Err_Locked = Bucket_Precondition"
| "bucket Err_RouteConflict = Bucket_Precondition"
| "bucket Err_PolicyEpochStale = Bucket_Precondition"
| "bucket Err_RedirectExpired = Bucket_Precondition"
| "bucket Err_StagingExpired = Bucket_Precondition"
| "bucket Err_BrokerRequired = Bucket_Precondition"
| "bucket Err_StateRootUnavailable = Bucket_Precondition"
| "bucket Err_ContentMismatch = Bucket_Precondition"
| "bucket Err_ContentChecksumMismatch = Bucket_Precondition"
| "bucket Err_InvalidArgument = Bucket_Invalid"
| "bucket Err_AliasChainTooLong = Bucket_Invalid"
| "bucket Err_Unsupported = Bucket_Unsupported"
| "bucket Err_Transient = Bucket_Transient"
| "bucket Err_BrokerUnavailable = Bucket_Transient"
| "bucket Err_DeadlineExceeded = Bucket_Transient"
| "bucket Err_CacheLockContention = Bucket_Transient"
| "bucket Err_AuthorizationLeaseExpired = Bucket_Transient"
| "bucket Err_ResourceExhausted = Bucket_ResourceExhausted"
| "bucket Err_Cancelled = Bucket_Cancelled"
| "bucket Err_Internal = Bucket_Internal"
| "bucket Err_IntegrityFailure = Bucket_Internal"
| "bucket Err_CacheCorrupt = Bucket_Internal"
| "bucket Err_CommitAmbiguous = Bucket_Internal"
| "bucket Err_PartialCompletion = Bucket_Internal"
| "bucket Err_NetworkFilesystemRefused = Bucket_Internal"

definition retryable :: "error_code \<Rightarrow> bool" where
  "retryable c = bucket_retryable (bucket c)"

section \<open>The taxonomy is complete and its names are distinct\<close>

lemma KNOWN_all: "c \<in> set KNOWN"
  by (cases c) (simp_all add: KNOWN_def)

lemma KNOWN_distinct: "distinct KNOWN"
  by (simp add: KNOWN_def)

lemma distinct_code_names: "distinct (map code_as_str KNOWN)"
  by code_simp

lemma code_as_str_inj: "code_as_str c = code_as_str d \<Longrightarrow> c = d"
  using distinct_code_names KNOWN_all by (meson distinct_map inj_onD)

lemma bucket_as_str_inj: "bucket_as_str b = bucket_as_str b' \<Longrightarrow> b = b'"
  by (cases b; cases b') simp_all

lemma retryable_iff:
  "retryable c \<longleftrightarrow>
     c \<in> {Err_Transient, Err_BrokerUnavailable, Err_ResourceExhausted, Err_DeadlineExceeded,
          Err_CacheLockContention, Err_AuthorizationLeaseExpired}"
  by (cases c) (simp_all add: retryable_def)

section \<open>Properties\<close>

text \<open>The taxonomy is closed: \<open>KNOWN\<close> lists every code once, codes and buckets have
  pairwise different names, and the codes a blind retry may clear are exactly the six the
  documentation of \<open>ErrorCode::retryable\<close> lists.\<close>

theorem error_taxonomy:
  "set KNOWN = UNIV \<and> distinct KNOWN \<and>
   (code_as_str c = code_as_str d \<longleftrightarrow> c = d) \<and>
   (bucket_as_str b = bucket_as_str b' \<longleftrightarrow> b = b') \<and>
   {e. retryable e} =
     {Err_Transient, Err_BrokerUnavailable, Err_ResourceExhausted, Err_DeadlineExceeded,
      Err_CacheLockContention, Err_AuthorizationLeaseExpired}"
  using KNOWN_all KNOWN_distinct code_as_str_inj bucket_as_str_inj retryable_iff by blast

end
