(* ===== verification/Ov_Url.thy ===== *)
theory Ov_Url
  imports Ov_Prelude Ov_Errors
begin

text \<open>
  Addresses are values of the \<open>url\<close> crate's type \<open>Url\<close>. The record \<open>url\<close> holds what the
  accessors of a \<open>Url\<close> return. The crates \<open>url\<close> and \<open>percent-encoding\<close> are not part of the
  repository: their parser, serializer, setters and percent codec are the fields of the
  parameter record \<open>url_crate\<close>, and what the sources rely on is stated as the predicates
  \<open>setters_ok\<close> and \<open>percent_ok\<close>. The instance \<open>ref_crate\<close> shows that the predicates can
  hold together; it is used in witnesses only.

  \<open>percent_decode\<close> and \<open>hex_digit\<close> are the repository's own decoder
  (\<open>ovstorage-plugin/src/address.rs\<close>).
\<close>

section \<open>Urls and the crates that build them\<close>

record url =
  url_scheme :: string
  url_username :: string
  url_password :: "string option"
  url_host :: "string option"
  url_port :: "nat option"
  url_path :: string
  url_query :: "string option"
  url_fragment :: "string option"
  url_cannot_be_a_base :: bool
  url_has_authority :: bool

record url_crate =
  crate_parse :: "string \<Rightarrow> url option"
  crate_as_str :: "url \<Rightarrow> string"
  crate_set_path :: "string \<Rightarrow> url \<Rightarrow> url"
  crate_set_query :: "string option \<Rightarrow> url \<Rightarrow> url"
  crate_set_fragment :: "string option \<Rightarrow> url \<Rightarrow> url"
  crate_set_host :: "string option \<Rightarrow> url \<Rightarrow> url option"
  crate_set_username :: "string \<Rightarrow> url \<Rightarrow> url option"
  crate_set_password :: "string option \<Rightarrow> url \<Rightarrow> url option"
  crate_query_pairs :: "url \<Rightarrow> (string \<times> string) list"
  crate_append_pair :: "string \<Rightarrow> string \<Rightarrow> url \<Rightarrow> url"
  crate_percent_decode :: "string \<Rightarrow> string"
  crate_percent_encode :: "(char \<Rightarrow> bool) \<Rightarrow> string \<Rightarrow> string"

text \<open>
  The idiom \<open>let _ = url.set_x(v)\<close>: a setter that fails leaves the value as it was.
\<close>

definition or_keep :: "(url \<Rightarrow> url option) \<Rightarrow> url \<Rightarrow> url" where
  "or_keep f u = (case f u of Some v \<Rightarrow> v | None \<Rightarrow> u)"

section \<open>Percent decoding\<close>

abbreviation byte :: "char \<Rightarrow> nat" where
  "byte c \<equiv> of_char c"

definition hex_digit :: "char \<Rightarrow> nat option" where
  "hex_digit b =
     (if 48 \<le> byte b \<and> byte b \<le> 57 then Some (byte b - 48)
      else if 97 \<le> byte b \<and> byte b \<le> 102 then Some (byte b - 97 + 10)
      else if 65 \<le> byte b \<and> byte b \<le> 70 then Some (byte b - 65 + 10)
      else None)"

fun percent_decode :: "string \<Rightarrow> string" where
  "percent_decode [] = []"
| "percent_decode (b # rest) =
     (case rest of
        x # y # zs \<Rightarrow>
          (if b = CHR ''%'' then
             (case (hex_digit x, hex_digit y) of
                (Some h, Some l) \<Rightarrow> char_of (h * 16 + l) # percent_decode zs
              | _ \<Rightarrow> b # percent_decode rest)
           else b # percent_decode rest)
      | _ \<Rightarrow> b # percent_decode rest)"

text \<open>The documented behaviour of \<open>percent_encode\<close>: the bytes of the set and every non-ASCII
  byte become an upper-case escape, every other byte is itself.\<close>

definition hex_upper :: "nat \<Rightarrow> char" where
  "hex_upper n = (if n < 10 then char_of (48 + n) else char_of (55 + n))"

definition escape_byte :: "(char \<Rightarrow> bool) \<Rightarrow> char \<Rightarrow> string" where
  "escape_byte S b =
     (if S b \<or> 128 \<le> byte b then [CHR ''%'', hex_upper (byte b div 16), hex_upper (byte b mod 16)]
      else [b])"

definition percent_encoded :: "(char \<Rightarrow> bool) \<Rightarrow> string \<Rightarrow> string" where
  "percent_encoded S bs = concat (map (escape_byte S) bs)"

section \<open>UTF-8\<close>

text \<open>\<open>std::str::from_utf8\<close>: the well-formed byte sequences of the Unicode standard.\<close>

definition utf8_tail :: "char \<Rightarrow> bool" where
  "utf8_tail c \<longleftrightarrow> 128 \<le> byte c \<and> byte c \<le> 191"

definition utf8_lead3 :: "nat \<Rightarrow> nat \<Rightarrow> bool" where
  "utf8_lead3 a b \<longleftrightarrow>
     (a = 224 \<and> 160 \<le> b \<and> b \<le> 191) \<or> (225 \<le> a \<and> a \<le> 236 \<and> 128 \<le> b \<and> b \<le> 191) \<or>
     (a = 237 \<and> 128 \<le> b \<and> b \<le> 159) \<or> (238 \<le> a \<and> a \<le> 239 \<and> 128 \<le> b \<and> b \<le> 191)"

definition utf8_lead4 :: "nat \<Rightarrow> nat \<Rightarrow> bool" where
  "utf8_lead4 a b \<longleftrightarrow>
     (a = 240 \<and> 144 \<le> b \<and> b \<le> 191) \<or> (241 \<le> a \<and> a \<le> 243 \<and> 128 \<le> b \<and> b \<le> 191) \<or>
     (a = 244 \<and> 128 \<le> b \<and> b \<le> 143)"

function utf8_valid :: "string \<Rightarrow> bool" where
  "utf8_valid s =
     (case s of
        [] \<Rightarrow> True
      | a # r \<Rightarrow>
          if byte a < 128 then utf8_valid r
          else if 194 \<le> byte a \<and> byte a \<le> 223 then
            (case r of b # r' \<Rightarrow> utf8_tail b \<and> utf8_valid r' | _ \<Rightarrow> False)
          else if 224 \<le> byte a \<and> byte a \<le> 239 then
            (case r of b # c # r' \<Rightarrow> utf8_lead3 (byte a) (byte b) \<and> utf8_tail c \<and> utf8_valid r'
             | _ \<Rightarrow> False)
          else if 240 \<le> byte a \<and> byte a \<le> 244 then
            (case r of b # c # d # r' \<Rightarrow>
               utf8_lead4 (byte a) (byte b) \<and> utf8_tail c \<and> utf8_tail d \<and> utf8_valid r'
             | _ \<Rightarrow> False)
          else False)"
  by pat_completeness auto
termination by (relation "measure length") auto

declare utf8_valid.simps [simp del]

section \<open>White space\<close>

text \<open>\<open>str::trim\<close> removes the characters with the Unicode property \<open>White_Space\<close>; \<open>is_blank\<close>
  recognizes the UTF-8 strings that consist of such characters only.\<close>

fun is_blank :: "string \<Rightarrow> bool" where
  "is_blank [] = True"
| "is_blank (a # r) =
     (if (9 \<le> byte a \<and> byte a \<le> 13) \<or> byte a = 32 then is_blank r
      else if byte a = 194 then
        (case r of b # r' \<Rightarrow> (byte b = 133 \<or> byte b = 160) \<and> is_blank r' | _ \<Rightarrow> False)
      else
        (case r of
           b # c # r' \<Rightarrow>
             ((byte a = 225 \<and> byte b = 154 \<and> byte c = 128) \<or>
              (byte a = 226 \<and> byte b = 128 \<and>
                 ((128 \<le> byte c \<and> byte c \<le> 138) \<or> byte c = 168 \<or> byte c = 169 \<or> byte c = 175)) \<or>
              (byte a = 226 \<and> byte b = 129 \<and> byte c = 159) \<or>
              (byte a = 227 \<and> byte b = 128 \<and> byte c = 128)) \<and> is_blank r'
         | _ \<Rightarrow> False))"

text \<open>\<open>str::trim\<close>: the leading and trailing characters with property \<open>White_Space\<close> removed.\<close>

definition ws_char :: "string \<Rightarrow> bool" where
  "ws_char cs \<longleftrightarrow> cs \<noteq> [] \<and> is_blank cs"

function trim_start :: "string \<Rightarrow> string" where
  "trim_start s =
     (if s \<noteq> [] \<and> ws_char (take 1 s) then trim_start (drop 1 s)
      else if 2 \<le> length s \<and> ws_char (take 2 s) then trim_start (drop 2 s)
      else if 3 \<le> length s \<and> ws_char (take 3 s) then trim_start (drop 3 s)
      else s)"
  by pat_completeness auto
termination by (relation "measure length") auto

function trim_end :: "string \<Rightarrow> string" where
  "trim_end s =
     (let n = length s in
      if s \<noteq> [] \<and> ws_char (drop (n - 1) s) then trim_end (take (n - 1) s)
      else if 2 \<le> n \<and> ws_char (drop (n - 2) s) then trim_end (take (n - 2) s)
      else if 3 \<le> n \<and> ws_char (drop (n - 3) s) then trim_end (take (n - 3) s)
      else s)"
  by pat_completeness auto
termination by (relation "measure length") (auto simp: Let_def)

declare trim_start.simps [simp del] trim_end.simps [simp del]

definition str_trim :: "string \<Rightarrow> string" where
  "str_trim s = trim_end (trim_start s)"

lemma is_blank_ascii: "32 < byte a \<Longrightarrow> byte a < 128 \<Longrightarrow> \<not> is_blank (a # r)"
  by (auto split: list.splits)

lemma ws_char_ascii: "cs \<noteq> [] \<Longrightarrow> \<forall>c \<in> set cs. 32 < byte c \<and> byte c < 128 \<Longrightarrow> \<not> ws_char cs"
  using is_blank_ascii by (cases cs) (auto simp: ws_char_def simp del: is_blank.simps)

lemma str_trim_ascii:
  assumes "\<forall>c \<in> set s. 32 < byte c \<and> byte c < 128"
  shows "str_trim s = s"
proof -
  have t: "\<not> (0 < n \<and> n \<le> length s \<and> ws_char (take n s))" for n
  proof
    assume n: "0 < n \<and> n \<le> length s \<and> ws_char (take n s)"
    moreover have "take n s \<noteq> []" using n by (cases s) auto
    ultimately show False
      using ws_char_ascii[of "take n s"] assms set_take_subset[of n s] by blast
  qed
  have d: "\<not> (0 < n \<and> n \<le> length s \<and> ws_char (drop (length s - n) s))" for n
  proof
    assume n: "0 < n \<and> n \<le> length s \<and> ws_char (drop (length s - n) s)"
    moreover have "drop (length s - n) s \<noteq> []" using n by (simp only: drop_eq_Nil not_le) linarith
    ultimately show False
      using ws_char_ascii[of "drop (length s - n) s"] assms set_drop_subset[of "length s - n" s] by blast
  qed
  have "trim_start s = s"
    using t[of 1] t[of 2] t[of 3] by (subst trim_start.simps) (auto simp: Suc_le_eq)
  moreover have "trim_end s = s"
    using d[of 1] d[of 2] d[of 3] by (subst trim_end.simps) (auto simp: Suc_le_eq Let_def)
  ultimately show ?thesis by (simp add: str_trim_def)
qed

section \<open>Decoding inverts encoding\<close>

lemma hex_digit_upper: "n < 16 \<Longrightarrow> hex_digit (hex_upper n) = Some n"
  by (auto simp: hex_digit_def hex_upper_def)

lemma hex_digit_slash [simp]: "hex_digit (CHR ''/'') = None"
  by (simp add: hex_digit_def)

lemma percent_decode_plain:
  "b \<noteq> CHR ''%'' \<Longrightarrow> percent_decode (b # rest) = b # percent_decode rest"
  by (auto split: list.splits)

lemma percent_decode_escape:
  "hex_digit x = Some h \<Longrightarrow> hex_digit y = Some l \<Longrightarrow>
     percent_decode (CHR ''%'' # x # y # zs) = char_of (h * 16 + l) # percent_decode zs"
  by simp

lemma percent_decode_not_escape:
  "hex_digit x = None \<or> hex_digit y = None \<Longrightarrow>
     percent_decode (b # x # y # zs) = b # percent_decode (x # y # zs)"
  by (auto split: option.splits)

lemma percent_decode_short:
  "percent_decode [b] = [b]" "percent_decode [b, x] = [b, x]"
  by simp_all

declare percent_decode.simps(2) [simp del]

lemma percent_decode_escape_byte:
  assumes "S (CHR ''%'')"
  shows "percent_decode (escape_byte S b @ rest) = b # percent_decode rest"
proof (cases "S b \<or> 128 \<le> byte b")
  case True
  have "byte b < 16 * 16" by simp
  then have "hex_digit (hex_upper (byte b div 16)) = Some (byte b div 16)"
    "hex_digit (hex_upper (byte b mod 16)) = Some (byte b mod 16)"
    using less_mult_imp_div_less[of "byte b" 16 16] by (auto intro!: hex_digit_upper)
  with True show ?thesis
    by (simp add: escape_byte_def percent_decode_escape)
next
  case False
  with assms have "b \<noteq> CHR ''%''" by auto
  with False show ?thesis by (simp add: escape_byte_def percent_decode_plain)
qed

lemma percent_decode_encoded_append:
  "S (CHR ''%'') \<Longrightarrow> percent_decode (percent_encoded S bs @ rest) = bs @ percent_decode rest"
  by (induction bs) (simp_all add: percent_encoded_def percent_decode_escape_byte)

lemma percent_decode_encoded:
  "S (CHR ''%'') \<Longrightarrow> percent_decode (percent_encoded S bs) = bs"
  using percent_decode_encoded_append[of S bs "[]"] by simp

text \<open>A slash is neither an escape introducer nor a hexadecimal digit, so decoding
  distributes over it.\<close>

lemma percent_decode_slash:
  "percent_decode (a @ CHR ''/'' # b) = percent_decode a @ CHR ''/'' # percent_decode b"
proof (induction a rule: length_induct)
  case (1 a)
  show ?case
  proof (cases a)
    case Nil
    then show ?thesis by (simp add: percent_decode_plain)
  next
    case (Cons c r)
    have r: "percent_decode (r @ CHR ''/'' # b) = percent_decode r @ CHR ''/'' # percent_decode b"
      using 1 Cons by simp
    consider "c \<noteq> CHR ''%''" | "r = []" | x where "r = [x]"
      | x y m where "r = x # y # m" "hex_digit x = None \<or> hex_digit y = None"
      | x y m h l where "c = CHR ''%''" "r = x # y # m" "hex_digit x = Some h" "hex_digit y = Some l"
      by (cases r; cases "tl r"; cases "hex_digit (hd r)"; cases "hex_digit (hd (tl r))") auto
    then show ?thesis
    proof cases
      case 1
      with Cons r show ?thesis by (simp add: percent_decode_plain)
    next
      case 2
      show ?thesis
      proof (cases b)
        case Nil
        with 2 Cons show ?thesis by (simp add: percent_decode_short)
      next
        case (Cons z zs)
        with 2 \<open>a = c # r\<close> show ?thesis
          by (simp add: percent_decode_not_escape percent_decode_plain percent_decode_short)
      qed
    next
      case (3 x)
      with Cons r show ?thesis by (simp add: percent_decode_not_escape percent_decode_short)
    next
      case (4 x y m)
      with Cons r show ?thesis by (simp add: percent_decode_not_escape)
    next
      case (5 x y m h l)
      with 1 Cons show ?thesis by (simp add: percent_decode_escape)
    qed
  qed
qed

lemma percent_decode_Nil_iff [simp]: "percent_decode s = [] \<longleftrightarrow> s = []"
  by (cases s) (auto simp: percent_decode.simps(2) split: list.splits option.splits)

lemma percent_decode_slash_Cons [simp]:
  "percent_decode (CHR ''/'' # s) = CHR ''/'' # percent_decode s"
  using percent_decode_slash[of "[]" s] by simp

section \<open>What the sources rely on\<close>

definition percent_ok :: "url_crate \<Rightarrow> bool" where
  "percent_ok C \<longleftrightarrow>
     (\<forall>s. crate_percent_decode C s = percent_decode s) \<and>
     (\<forall>S bs. crate_percent_encode C S bs = percent_encoded S bs)"

text \<open>
  \<open>settable\<close> is given with each use: the path strings that the path setter stores verbatim,
  because they are already in the form the crate would rewrite them to. Whatever string the
  path setter is given, it changes the path only.
\<close>

definition setters_ok :: "(url \<Rightarrow> string \<Rightarrow> bool) \<Rightarrow> url_crate \<Rightarrow> bool" where
  "setters_ok settable C \<longleftrightarrow>
     (\<forall>u p. settable u p \<longrightarrow> crate_set_path C p u = u\<lparr>url_path := p\<rparr>) \<and>
     (\<forall>u p. \<exists>p'. crate_set_path C p u = u\<lparr>url_path := p'\<rparr>) \<and>
     (\<forall>u q. crate_set_query C q u = u\<lparr>url_query := q\<rparr>) \<and>
     (\<forall>u f. crate_set_fragment C f u = u\<lparr>url_fragment := f\<rparr>) \<and>
     (\<forall>u h. url_host u = Some h \<longrightarrow>
        crate_set_host C (Some (to_ascii_lowercase h)) u =
          Some (u\<lparr>url_host := Some (to_ascii_lowercase h)\<rparr>)) \<and>
     (\<forall>u. url_host u \<noteq> None \<longrightarrow>
        crate_set_username C [] u = Some (u\<lparr>url_username := []\<rparr>) \<and>
        crate_set_password C None u = Some (u\<lparr>url_password := None\<rparr>))"

text \<open>The serialization of the crate's documentation.\<close>

definition userinfo_str :: "url \<Rightarrow> string" where
  "userinfo_str u =
     (if url_username u = [] \<and> url_password u = None then []
      else url_username u @
        (case url_password u of Some p \<Rightarrow> CHR '':'' # p | None \<Rightarrow> []) @ ''@'')"

fun digits :: "nat \<Rightarrow> string" where
  "digits n = (if n < 10 then [char_of (48 + n)] else digits (n div 10) @ [char_of (48 + n mod 10)])"

declare digits.simps [simp del]

text \<open>
  \<open>str::parse\<close> for an unsigned integer of maximum \<open>mx\<close>: an optional plus sign and decimal
  digits, at least one, not above \<open>mx\<close>.
\<close>

definition is_digit :: "char \<Rightarrow> bool" where
  "is_digit c \<longleftrightarrow> 48 \<le> byte c \<and> byte c \<le> 57"

definition digits_value :: "string \<Rightarrow> nat" where
  "digits_value s = foldl (\<lambda>n c. n * 10 + (byte c - 48)) 0 s"

definition parse_unsigned :: "nat \<Rightarrow> string \<Rightarrow> nat option" where
  "parse_unsigned mx s =
     (let t = (case strip_prefix ''+'' s of Some r \<Rightarrow> r | None \<Rightarrow> s) in
      if t \<noteq> [] \<and> list_all is_digit t \<and> digits_value t \<le> mx then Some (digits_value t) else None)"

lemma digits_value_snoc [simp]: "digits_value (s @ [c]) = digits_value s * 10 + (byte c - 48)"
  by (simp add: digits_value_def)

lemma digits_correct: "digits n \<noteq> [] \<and> list_all is_digit (digits n) \<and> digits_value (digits n) = n"
proof (induction n rule: digits.induct)
  case (1 n)
  have b: "byte (char_of (48 + d)) = 48 + d" if "d < 10" for d :: nat using that by simp
  show ?case
  proof (cases "n < 10")
    case True
    then show ?thesis
      using b[of n] by (subst (1 2 3) digits.simps) (simp add: is_digit_def digits_value_def)
  next
    case False
    then have "digits n = digits (n div 10) @ [char_of (48 + n mod 10)]"
      by (subst digits.simps) simp
    then show ?thesis using 1[OF False] b[of "n mod 10"] by (simp add: is_digit_def)
  qed
qed

lemma parse_digits: "n \<le> mx \<Longrightarrow> parse_unsigned mx (digits n) = Some n"
proof -
  assume "n \<le> mx"
  obtain c t where d: "digits n = c # t" "is_digit c"
    using digits_correct[of n] by (cases "digits n") auto
  then have "strip_prefix ''+'' (digits n) = None" by (auto simp: is_digit_def)
  with \<open>n \<le> mx\<close> show ?thesis using digits_correct[of n] by (simp add: parse_unsigned_def)
qed

definition authority_str :: "url \<Rightarrow> string" where
  "authority_str u =
     (if url_has_authority u then
        ''//'' @ userinfo_str u @ (case url_host u of Some h \<Rightarrow> h | None \<Rightarrow> []) @
        (case url_port u of Some p \<Rightarrow> CHR '':'' # digits p | None \<Rightarrow> [])
      else [])"

definition tail_str :: "url \<Rightarrow> string" where
  "tail_str u =
     (case url_query u of Some q \<Rightarrow> CHR ''?'' # q | None \<Rightarrow> []) @
     (case url_fragment u of Some f \<Rightarrow> CHR ''#'' # f | None \<Rightarrow> [])"

definition serialized :: "url \<Rightarrow> string" where
  "serialized u = url_scheme u @ CHR '':'' # authority_str u @ url_path u @ tail_str u"

section \<open>A reference instance\<close>

definition base_url :: "string \<Rightarrow> string option \<Rightarrow> string \<Rightarrow> url" where
  "base_url sch h p =
     \<lparr>url_scheme = sch, url_username = [], url_password = None, url_host = h, url_port = None,
      url_path = p, url_query = None, url_fragment = None, url_cannot_be_a_base = False,
      url_has_authority = True\<rparr>"

text \<open>The parser of the reference instance reads \<open>scheme://host/path?query#fragment\<close>.\<close>

definition ref_parse :: "string \<Rightarrow> url option" where
  "ref_parse s =
     (case split_once (CHR '':'') s of
        None \<Rightarrow> None
      | Some (sch, r) \<Rightarrow>
          (case strip_prefix ''//'' r of
             None \<Rightarrow> None
           | Some a \<Rightarrow>
               (let (auth, r1) = break_at (\<lambda>c. c \<in> set ''/?#'') a;
                    (pth, r2) = break_at (\<lambda>c. c \<in> set ''?#'') r1;
                    (qry, r3) = (case r2 of
                       c # r \<Rightarrow> if c = CHR ''?''
                                then (let (x, y) = break_at (\<lambda>c. c = CHR ''#'') r in (Some x, y))
                                else (None, r2)
                     | [] \<Rightarrow> (None, []));
                    frg = (case r3 of [] \<Rightarrow> None | _ # r \<Rightarrow> Some r)
                in Some ((base_url sch (if auth = [] then None else Some auth) pth)
                     \<lparr>url_query := qry, url_fragment := frg\<rparr>))))"

definition ref_crate :: url_crate where
  "ref_crate =
     \<lparr>crate_parse = ref_parse,
      crate_as_str = serialized,
      crate_set_path = (\<lambda>p u. u\<lparr>url_path := p\<rparr>),
      crate_set_query = (\<lambda>q u. u\<lparr>url_query := q\<rparr>),
      crate_set_fragment = (\<lambda>f u. u\<lparr>url_fragment := f\<rparr>),
      crate_set_host = (\<lambda>h u. Some (u\<lparr>url_host := h\<rparr>)),
      crate_set_username = (\<lambda>n u. Some (u\<lparr>url_username := n\<rparr>)),
      crate_set_password = (\<lambda>p u. Some (u\<lparr>url_password := p\<rparr>)),
      crate_query_pairs = (\<lambda>u. []),
      crate_append_pair = (\<lambda>k v u. u\<lparr>url_query := Some (k @ CHR ''='' # v)\<rparr>),
      crate_percent_decode = percent_decode,
      crate_percent_encode = percent_encoded\<rparr>"

lemma ref_crate_percent_ok [simp]: "percent_ok ref_crate"
  by (simp add: percent_ok_def ref_crate_def)

lemma ref_crate_setters_ok [simp]: "setters_ok settable ref_crate"
  by (auto simp: setters_ok_def ref_crate_def)

end
