(* ===== verification/Ov_Credential.thy ===== *)
theory Ov_Credential
  imports Ov_Url "HOL-Library.Word"
begin

text \<open>
  \<open>ovstorage-authz-context/src/lib.rs\<close>: the auth credential that a listener captures and the
  auth layer reads, with its length-prefixed little-endian wire format. A \<open>u32\<close> or \<open>i32\<close> field
  is a \<open>32 word\<close> (an \<open>i32\<close> read through \<open>sint\<close>), so the truncation of \<open>len() as u32\<close> is part
  of the model.
\<close>

section \<open>Credentials\<close>

type_synonym u32 = "32 word"

datatype transport =
    Tcp string "string option"
  | Uds u32 u32 u32
  | NamedPipe string u32

record forwarded_headers =
  fwd_values :: "(string \<times> string) list"

record auth_credential =
  cred_bearer :: "string option"
  cred_transport :: transport
  cred_forwarded :: "forwarded_headers option"

datatype decode_error = UnsupportedVersion | Truncated | BadTag | Utf8 | TrailingData

definition credential_new :: "string option \<Rightarrow> transport \<Rightarrow> auth_credential" where
  "credential_new bearer t =
     \<lparr>cred_bearer = bearer, cred_transport = t, cred_forwarded = None\<rparr>"

definition AUTH_CREDENTIAL_WIRE_VERSION :: nat where "AUTH_CREDENTIAL_WIRE_VERSION = 2"
definition LEGACY_AUTH_CREDENTIAL_WIRE_VERSION :: nat where "LEGACY_AUTH_CREDENTIAL_WIRE_VERSION = 1"
definition TAG_TCP :: nat where "TAG_TCP = 0"
definition TAG_UDS :: nat where "TAG_UDS = 1"
definition TAG_NAMED_PIPE :: nat where "TAG_NAMED_PIPE = 2"

definition ANONYMOUS_PRINCIPAL_ID :: string where "ANONYMOUS_PRINCIPAL_ID = ''anonymous''"

section \<open>Encoding\<close>

definition to_le_bytes :: "u32 \<Rightarrow> string" where
  "to_le_bytes w =
     (let n = unat w in
      [char_of (n mod 256), char_of (n div 256 mod 256), char_of (n div 65536 mod 256),
       char_of (n div 16777216 mod 256)])"

definition put_bytes :: "string \<Rightarrow> string" where
  "put_bytes bytes = to_le_bytes (word_of_nat (length bytes)) @ bytes"

definition put_opt_bytes :: "string option \<Rightarrow> string" where
  "put_opt_bytes bytes = put_bytes (case bytes of Some b \<Rightarrow> b | None \<Rightarrow> [])"

fun encode_transport :: "transport \<Rightarrow> string" where
  "encode_transport (Tcp peer_addr tls_client_cert) =
     char_of TAG_TCP # put_bytes peer_addr @ put_opt_bytes tls_client_cert"
| "encode_transport (Uds uid gid pid) =
     char_of TAG_UDS # to_le_bytes uid @ to_le_bytes gid @ to_le_bytes pid"
| "encode_transport (NamedPipe sid pid) =
     char_of TAG_NAMED_PIPE # put_bytes sid @ to_le_bytes pid"

definition encode_forwarded :: "forwarded_headers option \<Rightarrow> string" where
  "encode_forwarded f =
     (case f of
        Some fwd \<Rightarrow>
          to_le_bytes (word_of_nat (length (fwd_values fwd))) @
          concat (map (\<lambda>(k, v). put_bytes k @ put_bytes v) (fwd_values fwd))
      | None \<Rightarrow> to_le_bytes 0)"

definition credential_encode :: "auth_credential \<Rightarrow> string" where
  "credential_encode c =
     char_of AUTH_CREDENTIAL_WIRE_VERSION # put_opt_bytes (cred_bearer c) @
     encode_transport (cred_transport c) @ encode_forwarded (cred_forwarded c)"

section \<open>Decoding\<close>

text \<open>A cursor is the unread part of the buffer; every read returns its value and the rest.\<close>

type_synonym 'a reader = "string \<Rightarrow> decode_error + 'a \<times> string"

definition cur_take :: "nat \<Rightarrow> string reader" where
  "cur_take n buf = (if n \<le> length buf then Inr (take n buf, drop n buf) else Inl Truncated)"

definition cur_u8 :: "nat reader" where
  "cur_u8 buf = (case cur_take 1 buf of Inl e \<Rightarrow> Inl e | Inr (b, rest) \<Rightarrow> Inr (byte (hd b), rest))"

definition from_le_bytes :: "string \<Rightarrow> u32" where
  "from_le_bytes b =
     word_of_nat (byte (b ! 0) + 256 * byte (b ! 1) + 65536 * byte (b ! 2) + 16777216 * byte (b ! 3))"

definition cur_u32 :: "u32 reader" where
  "cur_u32 buf =
     (case cur_take 4 buf of Inl e \<Rightarrow> Inl e | Inr (b, rest) \<Rightarrow> Inr (from_le_bytes b, rest))"

definition cur_bytes :: "string reader" where
  "cur_bytes buf = (case cur_u32 buf of Inl e \<Rightarrow> Inl e | Inr (len, rest) \<Rightarrow> cur_take (unat len) rest)"

definition cur_opt_bytes :: "string option reader" where
  "cur_opt_bytes buf =
     (case cur_bytes buf of
        Inl e \<Rightarrow> Inl e
      | Inr (b, rest) \<Rightarrow> Inr (if b = [] then None else Some b, rest))"

definition cur_string :: "string reader" where
  "cur_string buf =
     (case cur_bytes buf of
        Inl e \<Rightarrow> Inl e
      | Inr (b, rest) \<Rightarrow> if utf8_valid b then Inr (b, rest) else Inl Utf8)"

definition decode_transport :: "transport reader" where
  "decode_transport buf =
     (case cur_u8 buf of
        Inl e \<Rightarrow> Inl e
      | Inr (tag, r0) \<Rightarrow>
          (if tag = TAG_TCP then
             (case cur_string r0 of
                Inl e \<Rightarrow> Inl e
              | Inr (peer_addr, r1) \<Rightarrow>
                  (case cur_opt_bytes r1 of
                     Inl e \<Rightarrow> Inl e
                   | Inr (cert, r2) \<Rightarrow> Inr (Tcp peer_addr cert, r2)))
           else if tag = TAG_UDS then
             (case cur_u32 r0 of
                Inl e \<Rightarrow> Inl e
              | Inr (uid, r1) \<Rightarrow>
                  (case cur_u32 r1 of
                     Inl e \<Rightarrow> Inl e
                   | Inr (gid, r2) \<Rightarrow>
                       (case cur_u32 r2 of
                          Inl e \<Rightarrow> Inl e
                        | Inr (pid, r3) \<Rightarrow> Inr (Uds uid gid pid, r3))))
           else if tag = TAG_NAMED_PIPE then
             (case cur_string r0 of
                Inl e \<Rightarrow> Inl e
              | Inr (sid, r1) \<Rightarrow>
                  (case cur_u32 r1 of
                     Inl e \<Rightarrow> Inl e
                   | Inr (pid, r2) \<Rightarrow> Inr (NamedPipe sid pid, r2)))
           else Inl BadTag))"

fun decode_values :: "nat \<Rightarrow> (string \<times> string) list reader" where
  "decode_values 0 buf = Inr ([], buf)"
| "decode_values (Suc n) buf =
     (case cur_string buf of
        Inl e \<Rightarrow> Inl e
      | Inr (k, r1) \<Rightarrow>
          (case cur_string r1 of
             Inl e \<Rightarrow> Inl e
           | Inr (v, r2) \<Rightarrow>
               (case decode_values n r2 of
                  Inl e \<Rightarrow> Inl e
                | Inr (kvs, r3) \<Rightarrow> Inr ((k, v) # kvs, r3))))"

definition decode_forwarded :: "nat \<Rightarrow> forwarded_headers option reader" where
  "decode_forwarded version buf =
     (if version = AUTH_CREDENTIAL_WIRE_VERSION then
        (case cur_u32 buf of
           Inl e \<Rightarrow> Inl e
         | Inr (value_count, r1) \<Rightarrow>
             (case decode_values (unat value_count) r1 of
                Inl e \<Rightarrow> Inl e
              | Inr (kvs, r2) \<Rightarrow> Inr (if kvs \<noteq> [] then Some \<lparr>fwd_values = kvs\<rparr> else None, r2)))
      else Inr (None, buf))"

definition credential_decode :: "string \<Rightarrow> decode_error + auth_credential" where
  "credential_decode bytes =
     (case cur_u8 bytes of
        Inl e \<Rightarrow> Inl e
      | Inr (version, r0) \<Rightarrow>
          (if version \<noteq> LEGACY_AUTH_CREDENTIAL_WIRE_VERSION \<and> version \<noteq> AUTH_CREDENTIAL_WIRE_VERSION
           then Inl UnsupportedVersion
           else
             (case cur_opt_bytes r0 of
                Inl e \<Rightarrow> Inl e
              | Inr (bearer, r1) \<Rightarrow>
                  (case decode_transport r1 of
                     Inl e \<Rightarrow> Inl e
                   | Inr (t, r2) \<Rightarrow>
                       (case decode_forwarded version r2 of
                          Inl e \<Rightarrow> Inl e
                        | Inr (fwd, r3) \<Rightarrow>
                            (if r3 \<noteq> [] then Inl TrailingData
                             else Inr \<lparr>cred_bearer = bearer, cred_transport = t,
                                        cred_forwarded = fwd\<rparr>))))))"

section \<open>Reads invert writes\<close>

abbreviation fits :: "'a list \<Rightarrow> bool" where
  "fits xs \<equiv> length xs < 2 ^ 32"

lemma le_bytes_value:
  "n mod 256 + 256 * (n div 256 mod 256) + 65536 * (n div 65536 mod 256)
    + 16777216 * (n div 16777216) = (n :: nat)"
proof -
  define a b c where "a = n div 256" and "b = a div 256" and "c = b div 256"
  have parts: "n div 65536 = b" "n div 16777216 = c"
    by (simp_all add: a_def b_def c_def div_mult2_eq[symmetric])
  have "n = n mod 256 + 256 * a" "a = a mod 256 + 256 * b" "b = b mod 256 + 256 * c"
    by (simp_all add: a_def b_def c_def)
  then show ?thesis unfolding parts a_def[symmetric] by linarith
qed

lemma unat32_less: "unat (w :: u32) < 2 ^ 32"
  using unsigned_less[of w] by simp

lemma unat_word_of_nat: "n < 2 ^ 32 \<Longrightarrow> unat (word_of_nat n :: u32) = n"
  by (simp add: unsigned_of_nat take_bit_nat_eq_self)

lemma from_to_le_bytes: "from_le_bytes (to_le_bytes w) = w"
proof -
  have "byte (to_le_bytes w ! 0) + 256 * byte (to_le_bytes w ! 1) + 65536 * byte (to_le_bytes w ! 2)
      + 16777216 * byte (to_le_bytes w ! 3) = unat w"
    using le_bytes_value[of "unat w"] unat32_less[of w]
    by (simp add: to_le_bytes_def Let_def less_mult_imp_div_less)
  then have "from_le_bytes (to_le_bytes w) = word_of_nat (unat w)"
    unfolding from_le_bytes_def by (simp only:)
  then show ?thesis by simp
qed

lemma length_to_le_bytes [simp]: "length (to_le_bytes w) = 4"
  by (simp add: to_le_bytes_def Let_def)

lemma cur_u32_put [simp]: "cur_u32 (to_le_bytes w @ rest) = Inr (w, rest)"
  by (simp add: cur_u32_def cur_take_def from_to_le_bytes)

lemma cur_u8_put [simp]: "n < 256 \<Longrightarrow> cur_u8 (char_of n # rest) = Inr (n, rest)"
  by (simp add: cur_u8_def cur_take_def)

lemma cur_bytes_put [simp]: "fits b \<Longrightarrow> cur_bytes (put_bytes b @ rest) = Inr (b, rest)"
  by (simp add: cur_bytes_def put_bytes_def cur_take_def unat_word_of_nat)

lemma cur_opt_bytes_put [simp]:
  "b \<noteq> Some [] \<Longrightarrow> (case b of Some x \<Rightarrow> fits x | None \<Rightarrow> True) \<Longrightarrow>
     cur_opt_bytes (put_opt_bytes b @ rest) = Inr (b, rest)"
  by (auto simp: cur_opt_bytes_def put_opt_bytes_def split: option.splits)

lemma cur_string_put [simp]:
  "fits s \<Longrightarrow> utf8_valid s \<Longrightarrow> cur_string (put_bytes s @ rest) = Inr (s, rest)"
  by (simp add: cur_string_def)

definition wf_transport :: "transport \<Rightarrow> bool" where
  "wf_transport t =
     (case t of
        Tcp peer cert \<Rightarrow> fits peer \<and> utf8_valid peer \<and> cert \<noteq> Some [] \<and>
          (case cert of Some x \<Rightarrow> fits x | None \<Rightarrow> True)
      | Uds _ _ _ \<Rightarrow> True
      | NamedPipe sid _ \<Rightarrow> fits sid \<and> utf8_valid sid)"

definition wf_forwarded :: "forwarded_headers option \<Rightarrow> bool" where
  "wf_forwarded f =
     (case f of
        None \<Rightarrow> True
      | Some fwd \<Rightarrow> fwd_values fwd \<noteq> [] \<and> fits (fwd_values fwd) \<and>
          list_all (\<lambda>(k, v). fits k \<and> utf8_valid k \<and> fits v \<and> utf8_valid v) (fwd_values fwd))"

definition wf_credential :: "auth_credential \<Rightarrow> bool" where
  "wf_credential c \<longleftrightarrow>
     cred_bearer c \<noteq> Some [] \<and> (case cred_bearer c of Some b \<Rightarrow> fits b | None \<Rightarrow> True) \<and>
     wf_transport (cred_transport c) \<and> wf_forwarded (cred_forwarded c)"

lemma decode_encode_transport:
  "wf_transport t \<Longrightarrow> decode_transport (encode_transport t @ rest) = Inr (t, rest)"
  by (cases t)
    (simp_all add: decode_transport_def wf_transport_def TAG_TCP_def TAG_UDS_def TAG_NAMED_PIPE_def)

lemma decode_values_put:
  "list_all (\<lambda>(k, v). fits k \<and> utf8_valid k \<and> fits v \<and> utf8_valid v) kvs \<Longrightarrow>
   decode_values (length kvs) (concat (map (\<lambda>(k, v). put_bytes k @ put_bytes v) kvs) @ rest) = Inr (kvs, rest)"
  by (induction kvs) auto

lemma decode_encode_forwarded:
  assumes "wf_forwarded f"
  shows "decode_forwarded AUTH_CREDENTIAL_WIRE_VERSION (encode_forwarded f @ rest) = Inr (f, rest)"
proof (cases f)
  case (Some fwd)
  with assms have w: "fwd_values fwd \<noteq> []" "fits (fwd_values fwd)"
    "list_all (\<lambda>(k, v). fits k \<and> utf8_valid k \<and> fits v \<and> utf8_valid v) (fwd_values fwd)"
    by (simp_all add: wf_forwarded_def)
  show ?thesis
    using decode_values_put[OF w(3), of rest] w(1,2) Some
    by (simp add: decode_forwarded_def encode_forwarded_def unat_word_of_nat)
qed (simp add: decode_forwarded_def encode_forwarded_def)

lemma decode_encode:
  assumes "wf_credential c"
  shows "credential_decode (credential_encode c) = Inr c"
proof -
  have v: "AUTH_CREDENTIAL_WIRE_VERSION < 256" by (simp add: AUTH_CREDENTIAL_WIRE_VERSION_def)
  have "decode_forwarded AUTH_CREDENTIAL_WIRE_VERSION (encode_forwarded (cred_forwarded c)) =
      Inr (cred_forwarded c, [])"
    using decode_encode_forwarded[of "cred_forwarded c" "[]"] assms by (simp add: wf_credential_def)
  then show ?thesis
    using assms v by (simp add: credential_decode_def credential_encode_def wf_credential_def
        decode_encode_transport)
qed

text \<open>A decoded credential re-encodes, so the decoder accepts no credential the encoder could
  not have meant.\<close>

lemma cur_take_inv: "cur_take n buf = Inr (b, rest) \<Longrightarrow> buf = b @ rest \<and> length b = n"
  by (auto simp: cur_take_def split: if_splits)

lemma cur_bytes_fits: "cur_bytes buf = Inr (b, rest) \<Longrightarrow> fits b"
  using unat32_less
  by (auto simp: cur_bytes_def split: sum.splits dest!: cur_take_inv) 

lemma cur_string_wf: "cur_string buf = Inr (s, rest) \<Longrightarrow> fits s \<and> utf8_valid s"
  by (auto simp: cur_string_def split: sum.splits if_splits dest: cur_bytes_fits)

lemma cur_opt_bytes_wf:
  "cur_opt_bytes buf = Inr (b, rest) \<Longrightarrow> b \<noteq> Some [] \<and> (case b of Some x \<Rightarrow> fits x | None \<Rightarrow> True)"
  by (auto simp: cur_opt_bytes_def split: sum.splits if_splits dest: cur_bytes_fits)

lemma decode_values_wf:
  "decode_values n buf = Inr (kvs, rest) \<Longrightarrow>
     length kvs = n \<and> list_all (\<lambda>(k, v). fits k \<and> utf8_valid k \<and> fits v \<and> utf8_valid v) kvs"
  by (induction n arbitrary: buf kvs) (fastforce split: sum.splits dest!: cur_string_wf)+

lemma decode_transport_wf: "decode_transport buf = Inr (t, rest) \<Longrightarrow> wf_transport t"
  by (auto simp: decode_transport_def wf_transport_def split: sum.splits if_splits
      dest!: cur_string_wf cur_opt_bytes_wf)

lemma decode_forwarded_wf: "decode_forwarded v buf = Inr (f, rest) \<Longrightarrow> wf_forwarded f"
  using unat32_less
  by (auto simp: decode_forwarded_def wf_forwarded_def split: sum.splits if_splits dest!: decode_values_wf)

lemma credential_decode_wf: "credential_decode bytes = Inr c \<Longrightarrow> wf_credential c"
  by (auto simp: credential_decode_def wf_credential_def split: sum.splits if_splits
      dest!: cur_opt_bytes_wf decode_transport_wf decode_forwarded_wf)

section \<open>Properties\<close>

text \<open>C33. The credential wire format round trips: a credential whose fields fit their length
  prefixes (and whose optional fields are absent rather than empty) decodes from its encoding
  to itself, every credential the decoder produces is such a credential, and two of them have
  the same encoding only if they are equal.\<close>

theorem credential_roundtrip:
  assumes "wf_credential c"
  shows "credential_decode (credential_encode c) = Inr c \<and>
    (\<forall>bytes d. credential_decode bytes = Inr d \<longrightarrow> wf_credential d) \<and>
    (\<forall>d. wf_credential d \<and> credential_encode d = credential_encode c \<longrightarrow> d = c)"
  using decode_encode[OF assms] credential_decode_wf decode_encode by (metis sum.inject(2))

definition sample_credential :: auth_credential where
  "sample_credential =
     \<lparr>cred_bearer = Some ''tok'', cred_transport = Tcp ''1.2.3.4:443'' None,
      cred_forwarded = Some \<lparr>fwd_values = [(''x-user'', ''ann'')]\<rparr>\<rparr>"

theorem credential_roundtrip_witness:
  "credential_decode (credential_encode sample_credential) = Inr sample_credential"
proof -
  have "wf_credential sample_credential"
    by (simp add: sample_credential_def wf_credential_def wf_transport_def wf_forwarded_def utf8_valid.simps)
  then show ?thesis using credential_roundtrip by blast
qed

end
