(* ===== verification/Ov_Path.thy ===== *)
theory Ov_Path
  imports Ov_Prelude
begin

text \<open>
  The path pipeline of \<open>ovstorage-layer/src/address.rs\<close>: \<open>collapse_empty_segments\<close>,
  \<open>remove_dot_segments\<close> (RFC 3986 section 5.2.4, the byte loop) and their composition
  \<open>normalize_path_bytes\<close>. The abstract view of a path is its list of segments; the loop is
  shown to run a stack of segments, and the pipeline to compute the reference resolver
  \<open>path_spec\<close>, in which an empty segment can never absorb a \<open>..\<close>.
\<close>

section \<open>The byte loops\<close>

definition truncate_last_segment :: "string \<Rightarrow> string" where
  "truncate_last_segment out =
     (case rsplit_once (CHR ''/'') out of Some (before, _) \<Rightarrow> before | None \<Rightarrow> [])"

function remove_dot_segments_loop :: "string \<Rightarrow> string \<Rightarrow> string" where
  "remove_dot_segments_loop out rest =
    (if rest = [] then out
     else if starts_with ''../'' rest then remove_dot_segments_loop out (drop 3 rest)
     else if starts_with ''./'' rest \<or> starts_with ''/./'' rest then
       remove_dot_segments_loop out (drop 2 rest)
     else if rest = ''/.'' then remove_dot_segments_loop out (take 1 rest)
     else if starts_with ''/../'' rest then
       remove_dot_segments_loop (truncate_last_segment out) (drop 3 rest)
     else if rest = ''/..'' then
       remove_dot_segments_loop (truncate_last_segment out) (take 1 rest)
     else if rest = ''.'' \<or> rest = ''..'' then remove_dot_segments_loop out []
     else
       (let after_leading_slash = (if hd rest = CHR ''/'' then 1 else 0);
            tail = drop after_leading_slash rest;
            end = after_leading_slash + length (takeWhile (\<lambda>b. b \<noteq> CHR ''/'') tail)
        in remove_dot_segments_loop (out @ take end rest) (drop end rest)))"
  by pat_completeness auto
termination
proof (relation "measure (\<lambda>(out, rest). length rest)", goal_cases)
  case (8 out rest after_leading_slash tail "end")
  then have "0 < end" by (cases rest) auto
  with 8(1) show ?case by auto
qed (auto simp: starts_with_iff prefix_def)

declare remove_dot_segments_loop.simps [simp del]

definition remove_dot_segments :: "string \<Rightarrow> string" where
  "remove_dot_segments input = remove_dot_segments_loop [] input"

fun collapse_loop :: "bool \<Rightarrow> string \<Rightarrow> string" where
  "collapse_loop previous_was_slash [] = []"
| "collapse_loop previous_was_slash (b # bs) =
     (let is_slash = (b = CHR ''/'') in
      if is_slash \<and> previous_was_slash then collapse_loop is_slash bs
      else b # collapse_loop is_slash bs)"

definition collapse_empty_segments :: "string \<Rightarrow> string" where
  "collapse_empty_segments path = collapse_loop False path"

definition normalize_path_bytes :: "string \<Rightarrow> string" where
  "normalize_path_bytes decoded = remove_dot_segments (collapse_empty_segments decoded)"

definition normalize_decoded_path :: "string \<Rightarrow> string" where
  "normalize_decoded_path decoded = normalize_path_bytes decoded"

section \<open>The abstract view: a stack of segments\<close>

abbreviation segs :: "string \<Rightarrow> string list" where
  "segs \<equiv> split_on (CHR ''/'')"

abbreviation path_of :: "string list \<Rightarrow> string" where
  "path_of \<equiv> join_with (CHR ''/'')"

abbreviation slashfree :: "string list \<Rightarrow> bool" where
  "slashfree ps \<equiv> \<forall>p \<in> set ps. CHR ''/'' \<notin> set p"

definition is_dot :: "string \<Rightarrow> bool" where
  "is_dot s \<longleftrightarrow> s = ''.'' \<or> s = ''..''"

text \<open>The stack always has a bottom element: the text before the first slash.\<close>

definition pop :: "string list \<Rightarrow> string list" where
  "pop acc = (if length acc \<le> 1 then [[]] else butlast acc)"

fun run_segs :: "string list \<Rightarrow> string list \<Rightarrow> string list" where
  "run_segs acc [] = acc"
| "run_segs acc (s # ss) =
     (let acc' = (if s = ''.'' then acc else if s = ''..'' then pop acc else acc @ [s]) in
      if ss = [] \<and> is_dot s then acc' @ [[]] else run_segs acc' ss)"

text \<open>The reference resolver for an absolute path, given what follows its leading slash.\<close>

definition resolve_step :: "string list \<Rightarrow> string \<Rightarrow> string list" where
  "resolve_step st s =
     (if s = [] \<or> s = ''.'' then st else if s = ''..'' then butlast st else st @ [s])"

definition resolve_segments :: "string list \<Rightarrow> string list" where
  "resolve_segments ss = foldl resolve_step [] ss"

definition names_directory :: "string list \<Rightarrow> bool" where
  "names_directory ss \<longleftrightarrow> last ss = [] \<or> is_dot (last ss)"

definition path_spec :: "string \<Rightarrow> string" where
  "path_spec q =
     CHR ''/'' # path_of (resolve_segments (segs q) @ (if names_directory (segs q) then [[]] else []))"

section \<open>The loop runs the stack\<close>

lemma pop_not_Nil [simp]: "pop acc \<noteq> []"
  by (cases acc rule: rev_cases) (auto simp: pop_def)

lemma pop_slashfree: "slashfree acc \<Longrightarrow> slashfree (pop acc)"
  by (auto simp: pop_def dest: in_set_butlastD)

lemma path_of_snoc: "acc \<noteq> [] \<Longrightarrow> path_of (acc @ [s]) = path_of acc @ CHR ''/'' # s"
  by (induction "CHR ''/''" acc rule: join_with.induct) auto

lemma truncate_path_of:
  assumes "acc \<noteq> []" "slashfree acc"
  shows "truncate_last_segment (path_of acc) = path_of (pop acc)"
proof (cases acc rule: rev_cases)
  case (snoc ini s)
  show ?thesis
  proof (cases "ini = []")
    case True
    with snoc assms show ?thesis
      by (auto simp: truncate_last_segment_def pop_def rsplit_once_Some split: option.splits)
  next
    case False
    with snoc assms have "rsplit_once (CHR ''/'') (path_of acc) = Some (path_of ini, s)"
      by (simp add: rsplit_once_Some path_of_snoc)
    with snoc False show ?thesis by (cases ini) (auto simp: truncate_last_segment_def pop_def)
  qed
qed (use assms in simp)

lemma loop_slash: "remove_dot_segments_loop out ''/'' = out @ ''/''"
  by (simp add: remove_dot_segments_loop.simps starts_with_def)

lemma loop_Nil [simp]: "remove_dot_segments_loop out [] = out"
  by (simp add: remove_dot_segments_loop.simps)

lemma starts_with_seg:
  assumes "CHR ''/'' \<notin> set s"
  shows "starts_with ''./'' (s @ CHR ''/'' # t) \<longleftrightarrow> s = ''.''"
    and "starts_with ''../'' (s @ CHR ''/'' # t) \<longleftrightarrow> s = ''..''"
  using assms by (cases s; cases "tl s"; cases "tl (tl s)"; auto)+

lemma loop_inner:
  assumes "CHR ''/'' \<notin> set s"
  shows "remove_dot_segments_loop out (CHR ''/'' # s @ CHR ''/'' # t) =
    (if s = ''.'' then remove_dot_segments_loop out (CHR ''/'' # t)
     else if s = ''..'' then remove_dot_segments_loop (truncate_last_segment out) (CHR ''/'' # t)
     else remove_dot_segments_loop (out @ CHR ''/'' # s) (CHR ''/'' # t))"
proof -
  have "set (s @ CHR ''/'' # t) \<noteq> set ''.''" "set (s @ CHR ''/'' # t) \<noteq> set ''..''" by auto
  then have ne: "s @ CHR ''/'' # t \<noteq> ''.''" "s @ CHR ''/'' # t \<noteq> ''..''" by metis+
  have tw: "takeWhile (\<lambda>b. b \<noteq> CHR ''/'') (s @ CHR ''/'' # t) = s"
    using assms by (induction s) auto
  show ?thesis
    by (subst remove_dot_segments_loop.simps) (simp add: starts_with_seg[OF assms] ne tw)
qed

lemma loop_last:
  assumes "CHR ''/'' \<notin> set s"
  shows "remove_dot_segments_loop out (CHR ''/'' # s) =
    (if s = ''.'' then out @ ''/''
     else if s = ''..'' then truncate_last_segment out @ ''/''
     else out @ CHR ''/'' # s)"
proof -
  have q: "\<not> starts_with ''./'' s" "\<not> starts_with ''../'' s"
    using assms by (auto simp: starts_with_iff prefix_def)
  have tw: "takeWhile (\<lambda>b. b \<noteq> CHR ''/'') s = s"
    using assms by (induction s) auto
  show ?thesis
    by (subst remove_dot_segments_loop.simps) (simp add: q tw loop_slash)
qed

lemma loop_eq_run:
  assumes "acc \<noteq> []" "slashfree acc" "ss \<noteq> []" "slashfree ss"
  shows "remove_dot_segments_loop (path_of acc) (CHR ''/'' # path_of ss) = path_of (run_segs acc ss)"
  using assms
proof (induction ss arbitrary: acc)
  case (Cons s ss)
  show ?case
  proof (cases ss)
    case Nil
    with Cons.prems show ?thesis
      by (auto simp: loop_last truncate_path_of path_of_snoc is_dot_def)
  next
    case (Cons s' ss')
    define acc' where "acc' = (if s = ''.'' then acc else if s = ''..'' then pop acc else acc @ [s])"
    have "remove_dot_segments_loop (path_of acc) (CHR ''/'' # path_of (s # ss))
      = remove_dot_segments_loop (path_of acc') (CHR ''/'' # path_of ss)"
      using Cons Cons.prems by (auto simp: loop_inner truncate_path_of path_of_snoc acc'_def)
    also have "\<dots> = path_of (run_segs acc' ss)"
      using Cons.prems Cons pop_slashfree by (intro Cons.IH) (auto simp: acc'_def)
    finally show ?thesis using Cons by (simp add: acc'_def)
  qed
qed simp

section \<open>Collapsing keeps the non-empty segments\<close>

fun clean :: "string list \<Rightarrow> string list" where
  "clean [] = []"
| "clean [s] = [s]"
| "clean (s # s' # ss) = (if s = [] then clean (s' # ss) else s # clean (s' # ss))"

definition clean_tail :: "string list \<Rightarrow> string list" where
  "clean_tail ss = hd ss # clean (tl ss)"

lemma clean_not_Nil [simp]: "clean ss = [] \<longleftrightarrow> ss = []"
  by (induction ss rule: clean.induct) auto

lemma set_clean: "set (clean ss) \<subseteq> set ss"
  by (induction ss rule: clean.induct) auto

lemma clean_interior: "s \<in> set (butlast (clean ss)) \<Longrightarrow> s \<noteq> []"
  by (induction ss rule: clean.induct) (auto split: if_splits)

lemma clean_id: "\<forall>s \<in> set (butlast ss). s \<noteq> [] \<Longrightarrow> clean ss = ss"
  by (induction ss rule: clean.induct) auto

lemma clean_Cons_ne: "s \<noteq> [] \<Longrightarrow> clean (s # ss) = s # clean ss"
  by (cases ss) auto

lemma collapse_segs:
  "collapse_loop True q = path_of (clean (segs q))"
  "collapse_loop False q = path_of (clean_tail (segs q))"
proof (induction q)
  case (Cons c cs)
  obtain p ps where ps: "segs cs = p # ps" by (cases "segs cs") auto
  { case 1
    show ?case using Cons ps by (auto simp: clean_Cons_ne clean_tail_def) }
  { case 2
    show ?case using Cons ps by (auto simp: clean_tail_def join_with_Cons_Nil) }
qed (auto simp: clean_tail_def)

lemma slashfree_segs: "slashfree (segs q)"
  by (auto dest: split_on_no_delim)

lemma slashfree_clean: "slashfree (clean (segs q))"
  using set_clean[of "segs q"] slashfree_segs[of q] by blast

lemma collapse_absolute:
  "collapse_empty_segments (CHR ''/'' # q) = CHR ''/'' # path_of (clean (segs q))"
  by (simp add: collapse_empty_segments_def collapse_segs)

section \<open>The pipeline computes the reference resolver\<close>

lemma run_clean:
  "ss \<noteq> [] \<Longrightarrow> run_segs ([] # st) (clean ss) =
     [] # foldl resolve_step st ss @ (if names_directory ss then [[]] else [])"
proof (induction ss arbitrary: st rule: clean.induct)
  case (2 s)
  then show ?case
    by (auto simp: resolve_step_def names_directory_def is_dot_def pop_def)
next
  case (3 s s' ss)
  have nd: "names_directory (s # s' # ss) = names_directory (s' # ss)"
    by (simp add: names_directory_def)
  have "run_segs ([] # st) (clean (s # s' # ss)) = run_segs ([] # resolve_step st s) (clean (s' # ss))"
    by (auto simp: resolve_step_def is_dot_def pop_def)
  also have "\<dots> = [] # foldl resolve_step (resolve_step st s) (s' # ss)
      @ (if names_directory (s' # ss) then [[]] else [])"
    using 3 by (cases "s = []") auto
  finally show ?case using nd by simp
qed simp

lemma resolved_or_directory:
  "ss \<noteq> [] \<Longrightarrow> \<not> names_directory ss \<Longrightarrow> resolve_segments ss \<noteq> []"
  by (cases ss rule: rev_cases)
    (auto simp: resolve_segments_def names_directory_def resolve_step_def is_dot_def)

lemma normalize_absolute: "normalize_path_bytes (CHR ''/'' # q) = path_spec q"
proof -
  have "normalize_path_bytes (CHR ''/'' # q) = path_of (run_segs [[]] (clean (segs q)))"
    using loop_eq_run[of "[[]]" "clean (segs q)"] slashfree_clean[of q]
    by (simp add: normalize_path_bytes_def remove_dot_segments_def collapse_absolute)
  also have "\<dots> = path_spec q"
    using resolved_or_directory[of "segs q"]
    by (auto simp: run_clean path_spec_def join_with_Cons_Nil resolve_segments_def)
  finally show ?thesis .
qed

lemma resolve_step_elem:
  "s \<in> set (resolve_step st x) \<Longrightarrow> s \<in> set st \<or> s = x \<and> s \<noteq> [] \<and> \<not> is_dot s"
  by (auto simp: resolve_step_def is_dot_def split: if_splits dest: in_set_butlastD)

lemma resolve_foldl_clean:
  "s \<in> set (foldl resolve_step st ss) \<Longrightarrow> s \<in> set st \<or> s \<in> set ss \<and> s \<noteq> [] \<and> \<not> is_dot s"
proof (induction ss arbitrary: st)
  case (Cons x xs)
  then show ?case using resolve_step_elem[of s st x] by auto
qed simp

lemma resolve_segments_clean:
  "s \<in> set (resolve_segments ss) \<Longrightarrow> s \<in> set ss \<and> s \<noteq> [] \<and> \<not> is_dot s"
  using resolve_foldl_clean[of s "[]" ss] by (auto simp: resolve_segments_def)

lemma segs_path_spec:
  "segs (path_spec q) =
     [] # resolve_segments (segs q) @ (if names_directory (segs q) then [[]] else [])"
proof -
  let ?r = "resolve_segments (segs q) @ (if names_directory (segs q) then [[]] else [])"
  have "slashfree ?r"
    by (auto dest!: resolve_segments_clean dest: split_on_no_delim)
  moreover have "?r \<noteq> []" using resolved_or_directory[of "segs q"] by auto
  ultimately have "segs (path_of ?r) = ?r" by (intro split_join)
  then show ?thesis unfolding path_spec_def by simp
qed

section \<open>Normal forms\<close>

text \<open>
  A path is in normal form when no segment is \<open>.\<close> or \<open>..\<close> and no segment but the first and
  the last is empty. Normal forms are exactly the values of the pipeline.
\<close>

definition norm_segs :: "string list \<Rightarrow> bool" where
  "norm_segs ss \<longleftrightarrow> (\<forall>s \<in> set ss. \<not> is_dot s) \<and> (\<forall>s \<in> set (butlast (tl ss)). s \<noteq> [])"

lemma run_segs_plain: "\<forall>s \<in> set ss. \<not> is_dot s \<Longrightarrow> run_segs acc ss = acc @ ss"
  by (induction ss arbitrary: acc) (auto simp: is_dot_def)

lemma run_segs_slashfree:
  "slashfree acc \<Longrightarrow> slashfree ss \<Longrightarrow> slashfree (run_segs acc ss)"
proof (induction ss arbitrary: acc)
  case (Cons s ss)
  define acc' where "acc' = (if s = ''.'' then acc else if s = ''..'' then pop acc else acc @ [s])"
  have "slashfree acc'" using Cons.prems pop_slashfree by (auto simp: acc'_def)
  with Cons show ?case by (auto simp: acc'_def[symmetric])
qed simp

lemma run_segs_norm:
  assumes "acc \<noteq> []" "\<forall>s \<in> set acc. \<not> is_dot s" "\<forall>s \<in> set (tl acc). s \<noteq> []"
    and "\<forall>s \<in> set (butlast ss). s \<noteq> []"
  shows "norm_segs (run_segs acc ss)"
  using assms
proof (induction ss arbitrary: acc)
  case Nil
  then show ?case by (auto simp: norm_segs_def dest: in_set_butlastD)
next
  case (Cons s ss)
  define acc' where "acc' = (if s = ''.'' then acc else if s = ''..'' then pop acc else acc @ [s])"
  have ne: "acc' \<noteq> []" using Cons.prems by (auto simp: acc'_def)
  have dots: "\<forall>s \<in> set acc'. \<not> is_dot s"
    using Cons.prems by (auto simp: acc'_def pop_def is_dot_def dest: in_set_butlastD)
  have pop_tl: "\<forall>s \<in> set (tl (pop acc)). s \<noteq> []"
    using Cons.prems(3) by (auto simp: pop_def butlast_tl[symmetric] dest: in_set_butlastD)
  show ?case
  proof (cases "ss = []")
    case True
    show ?thesis
    proof (cases "is_dot s")
      case True
      then have "\<forall>s \<in> set (tl acc'). s \<noteq> []" using Cons.prems(3) pop_tl by (auto simp: acc'_def is_dot_def)
      then show ?thesis
        using True \<open>ss = []\<close> ne dots
        by (auto simp: acc'_def[symmetric] norm_segs_def is_dot_def butlast_append tl_append split: list.splits)
    next
      case False
      then show ?thesis using \<open>ss = []\<close> Cons.prems
        by (auto simp: norm_segs_def is_dot_def butlast_append tl_append split: list.splits)
    qed
  next
    case False
    then have "\<forall>s \<in> set (tl acc'). s \<noteq> []"
      using Cons.prems pop_tl by (auto simp: acc'_def tl_append split: list.splits)
    then have "norm_segs (run_segs acc' ss)"
      using Cons.IH[of acc'] ne dots Cons.prems False by auto
    then show ?thesis using False by (simp add: acc'_def)
  qed
qed

lemma loop_first:
  assumes "CHR ''/'' \<notin> set s" "s \<noteq> []" "\<not> is_dot s" "r = [] \<or> hd r = CHR ''/''"
  shows "remove_dot_segments_loop [] (s @ r) = remove_dot_segments_loop s r"
proof -
  have hd: "hd (s @ r) \<noteq> CHR ''/''" using assms by (cases s) auto
  have sw: "\<not> starts_with ''../'' (s @ r)" "\<not> starts_with ''./'' (s @ r)"
    "\<not> starts_with (CHR ''/'' # x) (s @ r)" for x
    using assms by (cases s; cases "tl s"; cases "tl (tl s)"; cases r; auto simp: is_dot_def)+
  have ne: "s @ r \<noteq> ''.''" "s @ r \<noteq> ''..''" "s @ r \<noteq> CHR ''/'' # x" for x
    using assms by (cases s; cases "tl s"; cases "tl (tl s)"; cases r; auto simp: is_dot_def)+
  have tw: "takeWhile (\<lambda>b. b \<noteq> CHR ''/'') (s @ r) = s"
    using assms by (cases r) (auto simp: takeWhile_append)
  show ?thesis
    by (subst remove_dot_segments_loop.simps) (use assms(2) hd sw ne tw in simp)
qed

lemma loop_relative:
  assumes "CHR ''/'' \<notin> set s" "s \<noteq> []" "\<not> is_dot s" "slashfree ss"
  shows "remove_dot_segments_loop [] (path_of (s # ss)) = path_of (run_segs [s] ss)"
proof (cases ss)
  case Nil
  with loop_first[OF assms(1-3), of "[]"] show ?thesis by simp
next
  case (Cons x xs)
  with loop_first[OF assms(1-3), of "CHR ''/'' # path_of ss"] loop_eq_run[of "[s]" ss] assms
  show ?thesis by simp
qed

lemma loop_leading_dot:
  "is_dot s \<Longrightarrow> remove_dot_segments_loop [] (s @ CHR ''/'' # r) = remove_dot_segments_loop [] r"
  "is_dot s \<Longrightarrow> remove_dot_segments_loop [] s = []"
proof -
  show "remove_dot_segments_loop [] (s @ CHR ''/'' # r) = remove_dot_segments_loop [] r" if "is_dot s"
    by (subst remove_dot_segments_loop.simps) (use that in \<open>auto simp: is_dot_def numeral_eq_Suc\<close>)
  show "remove_dot_segments_loop [] s = []" if "is_dot s"
    by (subst remove_dot_segments_loop.simps) (use that in \<open>auto simp: is_dot_def\<close>)
qed

lemma segs_path_of_run:
  "slashfree acc \<Longrightarrow> slashfree ss \<Longrightarrow> run_segs acc ss \<noteq> [] \<Longrightarrow>
     segs (path_of (run_segs acc ss)) = run_segs acc ss"
  by (intro split_join run_segs_slashfree) auto

lemma run_segs_not_Nil: "acc \<noteq> [] \<Longrightarrow> run_segs acc ss \<noteq> []"
proof (induction ss arbitrary: acc)
  case (Cons s ss)
  define acc' where "acc' = (if s = ''.'' then acc else if s = ''..'' then pop acc else acc @ [s])"
  have "acc' \<noteq> []" using Cons.prems by (simp add: acc'_def)
  with Cons.IH[of acc'] show ?case by (simp add: acc'_def[symmetric])
qed simp

lemma loop_norm:
  assumes "ss \<noteq> []" "slashfree ss" "\<forall>s \<in> set (butlast (tl ss)). s \<noteq> []"
  shows "norm_segs (segs (remove_dot_segments_loop [] (path_of ss)))"
  using assms
proof (induction ss)
  case (Cons s ss)
  note runs = segs_path_of_run run_segs_not_Nil run_segs_norm
  consider "s = []" "ss = []" | "s = []" "ss \<noteq> []" | "is_dot s" "ss = []" | "is_dot s" "ss \<noteq> []"
    | "s \<noteq> []" "\<not> is_dot s" by auto
  then show ?case
  proof cases
    case 2
    then have "remove_dot_segments_loop [] (path_of (s # ss)) = path_of (run_segs [[]] ss)"
      using loop_eq_run[of "[[]]" ss] Cons.prems by (simp add: join_with_Cons_Nil)
    then show ?thesis using Cons.prems runs[of "[[]]" ss] by (auto simp: is_dot_def)
  next
    case 4
    then have "remove_dot_segments_loop [] (path_of (s # ss)) = remove_dot_segments_loop [] (path_of ss)"
      by (cases ss) (auto simp: loop_leading_dot)
    moreover have "\<forall>s \<in> set (butlast (tl ss)). s \<noteq> []"
      using Cons.prems(3) by (auto simp: butlast_tl dest: list.set_sel(2)[rotated])
        (metis butlast.simps(1) list.sel(2) list.set_sel(2) butlast_tl)
    ultimately show ?thesis using Cons.IH 4 Cons.prems by simp
  next
    case 5
    then show ?thesis using loop_relative[of s ss] runs[of "[s]" ss] Cons.prems by auto
  qed (auto simp: norm_segs_def is_dot_def loop_leading_dot)
qed simp

lemma normalize_norm: "norm_segs (segs (normalize_path_bytes p))"
proof -
  have "slashfree (clean_tail (segs p))"
    using set_clean[of "tl (segs p)"] slashfree_segs[of p]
    by (cases "segs p") (auto simp: clean_tail_def)
  moreover have "\<forall>s \<in> set (butlast (tl (clean_tail (segs p)))). s \<noteq> []"
    by (auto simp: clean_tail_def dest: clean_interior)
  ultimately show ?thesis
    unfolding normalize_path_bytes_def remove_dot_segments_def collapse_empty_segments_def collapse_segs
    by (intro loop_norm) (simp_all add: clean_tail_def)
qed

lemma normalize_fixed:
  assumes "norm_segs (segs p)"
  shows "normalize_path_bytes p = p"
proof -
  obtain s ss where ss: "segs p = s # ss" by (cases "segs p") auto
  have sf: "CHR ''/'' \<notin> set s" "slashfree ss" using slashfree_segs[of p] ss by auto
  have nf: "\<not> is_dot s" "\<forall>s \<in> set ss. \<not> is_dot s" "clean ss = ss"
    using assms ss by (auto simp: norm_segs_def clean_id)
  have p: "p = path_of (s # ss)" using join_split[of "CHR ''/''" p] ss by simp
  have c: "collapse_empty_segments p = p"
    using ss nf p by (simp add: collapse_empty_segments_def collapse_segs clean_tail_def)
  have "remove_dot_segments_loop [] (path_of (s # ss)) = path_of (s # ss)"
  proof (cases "s = []")
    case True
    then show ?thesis using loop_eq_run[of "[[]]" ss] sf nf run_segs_plain[of ss "[[]]"]
      by (cases "ss = []") (auto simp: join_with_Cons_Nil)
  next
    case False
    then show ?thesis using loop_relative[of s ss] sf nf run_segs_plain[of ss "[s]"] by simp
  qed
  then show ?thesis
    unfolding normalize_path_bytes_def remove_dot_segments_def c by (simp add: p)
qed

lemma normalize_idem: "normalize_path_bytes (normalize_path_bytes p) = normalize_path_bytes p"
  by (rule normalize_fixed[OF normalize_norm])

section \<open>Properties\<close>

text \<open>C17. On an absolute path the byte loops of the pipeline compute the segment-stack
  resolution: empty and \<open>.\<close> segments are dropped, \<open>..\<close> removes the last real segment and
  stops at the root, and a trailing slash is kept exactly when the last segment is empty or a
  dot segment. The segments of the result are those of the resolution.\<close>

theorem normalize_resolves:
  "normalize_path_bytes (CHR ''/'' # q) = path_spec q \<and>
   segs (normalize_path_bytes (CHR ''/'' # q)) =
     [] # resolve_segments (segs q) @ (if names_directory (segs q) then [[]] else [])"
  by (simp add: normalize_absolute segs_path_spec)

text \<open>For every byte path the result of the pipeline has no dot segment and no empty
  segment in its interior, such paths are exactly its fixed points, and the pipeline is
  idempotent.\<close>

theorem normalize_normal_form:
  "norm_segs (segs (normalize_path_bytes p)) \<and>
   (normalize_path_bytes p = p \<longleftrightarrow> norm_segs (segs p)) \<and>
   normalize_path_bytes (normalize_path_bytes p) = normalize_path_bytes p"
  using normalize_norm[of p] normalize_fixed[of p] normalize_idem[of p] by metis

end
