(* ===== verification/Ov_Address.thy ===== *)
theory Ov_Address
  imports Ov_Path Ov_Url
begin

text \<open>
  \<open>ovstorage-layer/src/address.rs\<close> on \<open>Url\<close> values: the canonical escape sets, the
  canonicalizer that every address passes through, the predicates that refuse a raw spelling
  the parser would silently move, and the comparison form of a node (\<open>node_key\<close>,
  \<open>node_rank\<close>). The crate is the argument \<open>C\<close>.
\<close>

section \<open>Escape sets\<close>

type_synonym ascii_set = "char \<Rightarrow> bool"

text \<open>The crate's \<open>CONTROLS\<close>: the C0 controls and DEL.\<close>

definition CONTROLS :: ascii_set where
  "CONTROLS c \<longleftrightarrow> byte c \<le> 31 \<or> byte c = 127"

definition CANONICAL_PATH :: ascii_set where
  "CANONICAL_PATH c \<longleftrightarrow> CONTROLS c \<or>
     c \<in> {CHR '' '', CHR 0x22, CHR ''<'', CHR ''>'', CHR 0x60, CHR ''#'', CHR ''?'', CHR ''{'',
          CHR ''}'', CHR ''%'', CHR 0x5C}"

definition CANONICAL_FILE_PATH :: ascii_set where
  "CANONICAL_FILE_PATH c \<longleftrightarrow> CANONICAL_PATH c \<or> c = CHR ''|''"

definition CANONICAL_FILE_SHARE_PATH :: ascii_set where
  "CANONICAL_FILE_SHARE_PATH c \<longleftrightarrow> CANONICAL_FILE_PATH c \<or> c = CHR '':''"

definition canonical_path_set :: "url \<Rightarrow> ascii_set" where
  "canonical_path_set u =
     (if url_scheme u = ''file'' \<and> url_host u \<noteq> None then CANONICAL_FILE_SHARE_PATH
      else if url_scheme u = ''file'' \<and> url_host u = None then CANONICAL_FILE_PATH
      else CANONICAL_PATH)"

definition encode_canonical_path :: "url_crate \<Rightarrow> url \<Rightarrow> string \<Rightarrow> string" where
  "encode_canonical_path C base bytes = crate_percent_encode C (canonical_path_set base) bytes"

section \<open>The canonicalizer\<close>

definition canonicalize_preserves_node :: "url_crate \<Rightarrow> url \<Rightarrow> bool" where
  "canonicalize_preserves_node C u \<longleftrightarrow>
     (if url_cannot_be_a_base u then True
      else (let decoded = crate_percent_decode C (url_path u)
            in normalize_path_bytes decoded = decoded))"

definition canonicalize_host :: "url_crate \<Rightarrow> url \<Rightarrow> url" where
  "canonicalize_host C u =
     (case url_host u of
        Some h \<Rightarrow>
          (let lower = to_ascii_lowercase h in
           if lower \<noteq> h then or_keep (crate_set_host C (Some lower)) u else u)
      | None \<Rightarrow> u)"

definition canonicalize :: "url_crate \<Rightarrow> url \<Rightarrow> url" where
  "canonicalize C u =
     (if url_cannot_be_a_base u then u
      else
        (let u1 = canonicalize_host C u;
             u2 = crate_set_fragment C None u1;
             u3 = (if url_has_authority u2 \<and> url_path u2 = [] then crate_set_path C ''/'' u2 else u2);
             encode_set = canonical_path_set u3;
             decoded = crate_percent_decode C (url_path u3);
             resolved = normalize_path_bytes decoded;
             encoded = crate_percent_encode C encode_set resolved
         in crate_set_path C encoded u3))"

section \<open>Spellings the parser would move\<close>

text \<open>Clauses shared by the two predicates: a byte that the parser deletes or trims.\<close>

definition parser_deletes :: "string \<Rightarrow> bool" where
  "parser_deletes raw \<longleftrightarrow>
     (\<exists>b \<in> set raw. byte b \<in> {9, 10, 13}) \<or>
     (raw \<noteq> [] \<and> byte (hd raw) \<le> 32) \<or>
     (raw \<noteq> [] \<and> byte (last raw) \<le> 32)"

definition scheme_folds_backslash :: "string \<Rightarrow> bool" where
  "scheme_folds_backslash sch \<longleftrightarrow>
     list_ex (eq_ignore_ascii_case sch) [''ftp'', ''file'', ''http'', ''https'', ''ws'', ''wss'']"

abbreviation backslash :: char where
  "backslash \<equiv> CHR 0x5C"

definition is_separator :: "char \<Rightarrow> bool" where
  "is_separator c \<longleftrightarrow> c = CHR ''/'' \<or> c = backslash"

definition is_tail_delim :: "char \<Rightarrow> bool" where
  "is_tail_delim c \<longleftrightarrow> c = CHR ''?'' \<or> c = CHR ''#''"

definition is_authority_end :: "char \<Rightarrow> bool" where
  "is_authority_end c \<longleftrightarrow> c = CHR ''/'' \<or> is_tail_delim c"

definition backslash_decides_authority :: "string \<Rightarrow> bool" where
  "backslash_decides_authority rest =
     (case rest of
        x # y # after_separators \<Rightarrow>
          (if \<not> is_separator x \<or> \<not> is_separator y then False
           else if x = backslash \<or> y = backslash then True
           else (case snd (break_at (\<lambda>c. c = backslash \<or> is_authority_end c) after_separators) of
                   [] \<Rightarrow> False
                 | c # _ \<Rightarrow> c = backslash))
      | _ \<Rightarrow> False)"

definition raw_authority :: "string \<Rightarrow> string option" where
  "raw_authority raw =
     (case split_once (CHR '':'') raw of
        None \<Rightarrow> None
      | Some (_, rest) \<Rightarrow>
          (case strip_prefix ''//'' rest of
             None \<Rightarrow> None
           | Some after_slashes \<Rightarrow> Some (fst (break_at is_authority_end after_slashes))))"

datatype raw_path_result = RawPath_Path string | RawPath_Empty | RawPath_Unlocatable

definition raw_path :: "string \<Rightarrow> raw_path_result" where
  "raw_path raw =
     (case split_once (CHR '':'') raw of
        None \<Rightarrow> RawPath_Unlocatable
      | Some (_, rest) \<Rightarrow>
          (case strip_prefix ''//'' rest of
             None \<Rightarrow> RawPath_Unlocatable
           | Some after_slashes \<Rightarrow>
               (let tail = snd (break_at is_authority_end after_slashes) in
                if tail \<noteq> [] \<and> hd tail = CHR ''/''
                then RawPath_Path (fst (break_at is_tail_delim tail))
                else RawPath_Empty)))"

definition parsing_preserves_authority :: "url_crate \<Rightarrow> string \<Rightarrow> bool" where
  "parsing_preserves_authority C raw =
     (if parser_deletes raw then False
      else if (case split_once (CHR '':'') raw of
                 Some (sch, rest) \<Rightarrow> scheme_folds_backslash sch \<and> backslash_decides_authority rest
               | None \<Rightarrow> False) then False
      else
        (case raw_authority raw of
           None \<Rightarrow>
             (case crate_parse C raw of Some parsed \<Rightarrow> url_host parsed = None | None \<Rightarrow> True)
         | Some authority \<Rightarrow>
             (case crate_parse C raw of
                None \<Rightarrow> True
              | Some parsed \<Rightarrow>
                  (if authority = [] then url_host parsed = None
                   else if url_host parsed \<noteq> None then True
                   else eq_ignore_ascii_case (crate_percent_decode C authority) ''localhost''))))"

definition before_query :: "string \<Rightarrow> string" where
  "before_query raw = fst (break_at is_tail_delim raw)"

definition host_port :: "string \<Rightarrow> string" where
  "host_port authority =
     (case rsplit_once (CHR ''@'') authority of Some (_, hp) \<Rightarrow> hp | None \<Rightarrow> authority)"

definition parsing_preserves_node :: "url_crate \<Rightarrow> string \<Rightarrow> bool" where
  "parsing_preserves_node C raw =
     (if parser_deletes raw then False
      else if (case split_once (CHR '':'') raw of
                 Some (sch, _) \<Rightarrow> scheme_folds_backslash sch \<and> backslash \<in> set (before_query raw)
               | None \<Rightarrow> False) then False
      else if (case raw_authority raw of
                 Some authority \<Rightarrow> backslash \<in> set (host_port authority)
               | None \<Rightarrow> False) then False
      else if \<not> parsing_preserves_authority C raw then False
      else
        (case raw_path raw of
           RawPath_Path p \<Rightarrow>
             \<not> list_ex (\<lambda>segment. let decoded = crate_percent_decode C segment
                                in decoded = ''.'' \<or> decoded = ''..'') (segs p)
         | RawPath_Empty \<Rightarrow> True
         | RawPath_Unlocatable \<Rightarrow>
             (case crate_parse C raw of Some u \<Rightarrow> crate_as_str C u = raw | None \<Rightarrow> False)))"

section \<open>Nodes\<close>

definition node_path :: "url \<Rightarrow> string" where
  "node_path u =
     (let p = url_path u in
      if 1 < length p then (case strip_suffix ''/'' p of Some q \<Rightarrow> q | None \<Rightarrow> p) else ''/'')"

type_synonym node_key = "string \<times> string option \<times> nat option \<times> string \<times> string option"

definition node_key :: "url \<Rightarrow> node_key" where
  "node_key u = (url_scheme u, url_host u, url_port u, node_path u, url_query u)"

definition node_segment_count :: "url \<Rightarrow> nat" where
  "node_segment_count u = length (filter (\<lambda>s. s \<noteq> []) (segs (node_path u)))"

definition node_rank :: "url \<Rightarrow> nat \<times> bool" where
  "node_rank u = (node_segment_count u, url_query u \<noteq> None)"

definition node_address_url :: "url_crate \<Rightarrow> url \<Rightarrow> url" where
  "node_address_url C u =
     (let bare = (if url_username u \<noteq> [] \<or> url_password u \<noteq> None
                  then or_keep (crate_set_username C []) (or_keep (crate_set_password C None) u)
                  else u)
      in if url_host bare = None then or_keep (crate_set_host C (Some [])) bare else bare)"

definition node_address :: "url_crate \<Rightarrow> url \<Rightarrow> string" where
  "node_address C u = crate_as_str C (node_address_url C u)"

definition node_spellings :: "url_crate \<Rightarrow> url \<Rightarrow> string \<times> string" where
  "node_spellings C u =
     (let p = node_path u;
          bare0 = (case crate_parse C (node_address C u) of Some b \<Rightarrow> b | None \<Rightarrow> u);
          bare = crate_set_path C p bare0
      in if p = ''/'' then (crate_as_str C bare, crate_as_str C bare)
         else (crate_as_str C bare, crate_as_str C (crate_set_path C (p @ ''/'') bare)))"

section \<open>What canonicalization does\<close>

text \<open>A parsed hierarchical address has an absolute path, or an authority and no path.\<close>

definition url_wf :: "url \<Rightarrow> bool" where
  "url_wf u \<longleftrightarrow> url_cannot_be_a_base u \<or>
     (url_path u = [] \<and> url_has_authority u) \<or> (\<exists>q. url_path u = CHR ''/'' # q)"

text \<open>
  The strings that the path setter stores verbatim: a slash, or the canonical encoding of an
  absolute path in normal form. The escape sets are chosen so that the crate has nothing left
  to rewrite in such a string.
\<close>

definition settable :: "url \<Rightarrow> string \<Rightarrow> bool" where
  "settable u p \<longleftrightarrow>
     p = ''/'' \<or> (\<exists>q. p = percent_encoded (canonical_path_set u) (CHR ''/'' # q) \<and>
                   norm_segs (segs (CHR ''/'' # q)))"

abbreviation crate_ok :: "url_crate \<Rightarrow> bool" where
  "crate_ok C \<equiv> percent_ok C \<and> setters_ok settable C"

definition node_bytes :: "url \<Rightarrow> string" where
  "node_bytes u = (if url_path u = [] then ''/'' else percent_decode (url_path u))"

definition canonical_of :: "url \<Rightarrow> url" where
  "canonical_of u =
     u\<lparr>url_host := map_option to_ascii_lowercase (url_host u),
       url_fragment := None,
       url_path := percent_encoded (canonical_path_set u) (normalize_path_bytes (node_bytes u))\<rparr>"

lemma canonical_path_set_percent [simp]: "canonical_path_set u (CHR ''%'')"
  by (simp add: canonical_path_set_def CANONICAL_FILE_SHARE_PATH_def CANONICAL_FILE_PATH_def
      CANONICAL_PATH_def)

lemma canonical_path_set_slash [simp]: "\<not> canonical_path_set u (CHR ''/'')"
  by (simp add: canonical_path_set_def CANONICAL_FILE_SHARE_PATH_def CANONICAL_FILE_PATH_def
      CANONICAL_PATH_def CONTROLS_def)

lemma canonical_path_set_upd [simp]:
  "canonical_path_set (u\<lparr>url_path := p\<rparr>) = canonical_path_set u"
  "canonical_path_set (u\<lparr>url_fragment := f\<rparr>) = canonical_path_set u"
  "canonical_path_set (u\<lparr>url_query := qq\<rparr>) = canonical_path_set u"
  "canonical_path_set (u\<lparr>url_host := map_option g (url_host u)\<rparr>) = canonical_path_set u"
  by (cases "url_host u"; simp add: canonical_path_set_def)+

lemma percent_encoded_slash:
  "\<not> S (CHR ''/'') \<Longrightarrow> percent_encoded S (CHR ''/'' # q) = CHR ''/'' # percent_encoded S q"
  by (simp add: percent_encoded_def escape_byte_def)

lemma normalize_absolute_Cons:
  "\<exists>r. normalize_path_bytes (CHR ''/'' # q) = CHR ''/'' # r"
  by (simp add: normalize_absolute path_spec_def)

lemma normalize_root:
  "normalize_path_bytes [] = []" "normalize_path_bytes ''/'' = ''/''"
  by (rule normalize_fixed, simp add: norm_segs_def is_dot_def)+

lemma node_bytes_absolute:
  "url_wf u \<Longrightarrow> \<not> url_cannot_be_a_base u \<Longrightarrow> \<exists>q. node_bytes u = CHR ''/'' # q"
  by (auto simp: url_wf_def node_bytes_def)

lemma canonicalize_host_ok:
  assumes "setters_ok S C"
  shows "canonicalize_host C u = u\<lparr>url_host := map_option to_ascii_lowercase (url_host u)\<rparr>"
  using assms
  by (cases "url_host u") (auto simp: canonicalize_host_def setters_ok_def or_keep_def Let_def)

lemma settable_canonical:
  assumes "b = CHR ''/'' # q"
  shows "settable u (percent_encoded (canonical_path_set u) (normalize_path_bytes b))"
proof -
  obtain r where "normalize_path_bytes b = CHR ''/'' # r"
    using normalize_absolute_Cons assms by blast
  then show ?thesis unfolding settable_def using normalize_norm[of b] by metis
qed

lemma canonicalize_eq:
  assumes "crate_ok C" "url_wf u" "\<not> url_cannot_be_a_base u"
  shows "canonicalize C u = canonical_of u"
proof -
  define v where "v = u\<lparr>url_host := map_option to_ascii_lowercase (url_host u), url_fragment := None\<rparr>"
  define w where "w = (if url_has_authority v \<and> url_path v = [] then crate_set_path C ''/'' v else v)"
  have setp: "settable x p \<Longrightarrow> crate_set_path C p x = x\<lparr>url_path := p\<rparr>" for x p
    using assms(1) by (simp add: setters_ok_def)
  have w: "w = v\<lparr>url_path := (if url_path u = [] then ''/'' else url_path u)\<rparr>"
    using assms(2,3) setp[of v "''/''"] by (auto simp: w_def v_def url_wf_def settable_def)
  have dec: "percent_decode (url_path w) = node_bytes u"
    by (simp add: w node_bytes_def)
  obtain q where q: "node_bytes u = CHR ''/'' # q"
    using node_bytes_absolute assms by blast
  have "crate_set_fragment C None (canonicalize_host C u) = v"
    using assms(1) by (auto simp: canonicalize_host_ok setters_ok_def v_def)
  then have "canonicalize C u = crate_set_path C
      (crate_percent_encode C (canonical_path_set w)
        (normalize_path_bytes (crate_percent_decode C (url_path w)))) w"
    using assms(3) unfolding canonicalize_def Let_def w_def by simp
  also have "\<dots> =
      crate_set_path C (percent_encoded (canonical_path_set w) (normalize_path_bytes (node_bytes u))) w"
    using assms(1) dec by (simp add: percent_ok_def)
  also have "\<dots> = w\<lparr>url_path := percent_encoded (canonical_path_set w) (normalize_path_bytes (node_bytes u))\<rparr>"
    by (intro setp settable_canonical[OF q])
  also have "\<dots> = canonical_of u"
    by (simp add: w v_def canonical_of_def canonical_path_set_def)
  finally show ?thesis .
qed

lemma node_bytes_canonical:
  assumes "url_wf u" "\<not> url_cannot_be_a_base u"
  shows "node_bytes (canonical_of u) = normalize_path_bytes (node_bytes u)"
    and "percent_decode (url_path (canonical_of u)) = normalize_path_bytes (node_bytes u)"
    and "\<exists>q. url_path (canonical_of u) = CHR ''/'' # q"
proof -
  obtain q where "node_bytes u = CHR ''/'' # q" using node_bytes_absolute assms by blast
  then obtain r where r: "normalize_path_bytes (node_bytes u) = CHR ''/'' # r"
    using normalize_absolute_Cons by metis
  then show "\<exists>q. url_path (canonical_of u) = CHR ''/'' # q"
    by (simp add: canonical_of_def percent_encoded_slash)
  show d: "percent_decode (url_path (canonical_of u)) = normalize_path_bytes (node_bytes u)"
    by (simp add: canonical_of_def percent_decode_encoded)
  with r show "node_bytes (canonical_of u) = normalize_path_bytes (node_bytes u)"
    by (auto simp: node_bytes_def)
qed

lemma canonical_of_wf:
  assumes "url_wf u" "\<not> url_cannot_be_a_base u"
  shows "url_wf (canonical_of u)" "\<not> url_cannot_be_a_base (canonical_of u)"
  using node_bytes_canonical(3)[OF assms] assms by (simp_all add: url_wf_def canonical_of_def)

lemma canonical_of_idem:
  assumes "url_wf u" "\<not> url_cannot_be_a_base u"
  shows "canonical_of (canonical_of u) = canonical_of u"
  unfolding canonical_of_def[of "canonical_of u"] node_bytes_canonical(1)[OF assms] normalize_idem
  by (cases "url_host u") (simp_all add: canonical_of_def canonical_path_set_def comp_def)

lemma canonical_of_injective:
  assumes "url_wf u" "\<not> url_cannot_be_a_base u" "url_wf v" "\<not> url_cannot_be_a_base v"
  shows "canonical_of u = canonical_of v \<longleftrightarrow>
     url_scheme u = url_scheme v \<and> url_username u = url_username v \<and>
     url_password u = url_password v \<and> url_port u = url_port v \<and> url_query u = url_query v \<and>
     url_has_authority u = url_has_authority v \<and>
     map_option to_ascii_lowercase (url_host u) = map_option to_ascii_lowercase (url_host v) \<and>
     normalize_path_bytes (node_bytes u) = normalize_path_bytes (node_bytes v)" (is "?l \<longleftrightarrow> ?r")
proof
  assume ?l
  then have "normalize_path_bytes (node_bytes u) = normalize_path_bytes (node_bytes v)"
    using node_bytes_canonical(2)[OF assms(1,2)] node_bytes_canonical(2)[OF assms(3,4)] by metis
  with \<open>?l\<close> show ?r unfolding canonical_of_def by (cases u; cases v) simp
next
  assume ?r
  moreover from this have "canonical_path_set u = canonical_path_set v"
    unfolding canonical_path_set_def by (cases "url_host u"; cases "url_host v") auto
  ultimately show ?l using assms(2,4) unfolding canonical_of_def by (cases u; cases v) simp
qed

section \<open>A serialized address is never refused\<close>

text \<open>
  What the crate guarantees of the components of a parsed, authority-bearing \<open>Url\<close>: no control
  byte or space, the delimiters of each region are escaped inside it, a folding scheme has no
  raw backslash before the query, and the path has no dot segment.
\<close>

definition authority_region :: "url \<Rightarrow> string" where
  "authority_region u = userinfo_str u @ (case url_host u of Some h \<Rightarrow> h | None \<Rightarrow> []) @
     (case url_port u of Some p \<Rightarrow> CHR '':'' # digits p | None \<Rightarrow> [])"

definition serializable :: "url \<Rightarrow> bool" where
  "serializable u \<longleftrightarrow>
     url_has_authority u \<and> (\<forall>b \<in> set (serialized u). 32 < byte b) \<and>
     CHR '':'' \<notin> set (url_scheme u) \<and>
     (\<forall>c \<in> set (url_scheme u). \<not> is_tail_delim c) \<and>
     (\<forall>c \<in> set (authority_region u). \<not> is_authority_end c) \<and>
     (\<forall>c \<in> set (url_path u). \<not> is_tail_delim c) \<and>
     (url_path u = [] \<or> hd (url_path u) = CHR ''/'') \<and>
     (scheme_folds_backslash (url_scheme u) \<longrightarrow>
        backslash \<notin> set (url_scheme u @ authority_region u @ url_path u)) \<and>
     backslash \<notin> set (host_port (authority_region u)) \<and>
     (url_host u = None \<longleftrightarrow> authority_region u = []) \<and>
     list_all (\<lambda>s. \<not> is_dot (percent_decode s)) (segs (url_path u))"

lemma break_at_append:
  "(\<forall>c \<in> set a. \<not> P c) \<Longrightarrow> r = [] \<or> P (hd r) \<Longrightarrow> break_at P (a @ r) = (a, r)"
  by (cases r) (auto simp: break_at_def takeWhile_append dropWhile_append)

lemma serialized_region:
  "url_has_authority u \<Longrightarrow>
     serialized u = url_scheme u @ CHR '':'' # ''//'' @ authority_region u @ url_path u @ tail_str u"
  by (simp add: serialized_def authority_str_def authority_region_def)

lemma delims [simp]:
  "is_authority_end (CHR ''/'')" "\<not> is_tail_delim (CHR ''/'')" "\<not> is_tail_delim (CHR '':'')"
  "\<not> is_tail_delim backslash" "is_tail_delim c \<Longrightarrow> is_authority_end c"
  by (auto simp: is_authority_end_def is_tail_delim_def)

lemma tail_str_hd: "tail_str u = [] \<or> is_tail_delim (hd (tail_str u))"
  by (auto simp: tail_str_def is_tail_delim_def split: option.splits)

lemma split_serialized:
  assumes "serializable u"
  shows "split_once (CHR '':'') (serialized u) =
    Some (url_scheme u, ''//'' @ authority_region u @ url_path u @ tail_str u)"
  using assms by (simp add: serializable_def serialized_region split_once_Some)

lemma break_after_slashes:
  assumes "serializable u"
  shows "break_at is_authority_end (authority_region u @ url_path u @ tail_str u) =
    (authority_region u, url_path u @ tail_str u)"
proof (rule break_at_append)
  show "\<forall>c \<in> set (authority_region u). \<not> is_authority_end c"
    using assms by (simp add: serializable_def)
  show "url_path u @ tail_str u = [] \<or> is_authority_end (hd (url_path u @ tail_str u))"
    using assms tail_str_hd[of u] by (cases "url_path u") (auto simp: serializable_def)
qed

lemma raw_authority_serialized:
  assumes "serializable u"
  shows "raw_authority (serialized u) = Some (authority_region u)"
  using break_after_slashes[OF assms] by (simp add: raw_authority_def split_serialized[OF assms])

lemma raw_path_serialized:
  assumes "serializable u"
  shows "raw_path (serialized u) =
    (if url_path u = [] then RawPath_Empty else RawPath_Path (url_path u))"
proof -
  have "break_at is_tail_delim (url_path u @ tail_str u) = (url_path u, tail_str u)"
    using assms tail_str_hd[of u] by (intro break_at_append) (auto simp: serializable_def)
  then show ?thesis
    using break_after_slashes[OF assms] tail_str_hd[of u] assms
    by (cases "url_path u"; cases "tail_str u")
      (auto simp: raw_path_def split_serialized[OF assms] Let_def serializable_def)
qed

lemma before_query_serialized:
  assumes "serializable u"
  shows "set (before_query (serialized u)) \<subseteq>
    set (url_scheme u @ authority_region u @ url_path u) \<union> {CHR '':'', CHR ''/''}"
proof -
  let ?h = "url_scheme u @ CHR '':'' # ''//'' @ authority_region u @ url_path u"
  have "\<forall>c \<in> set ?h. \<not> is_tail_delim c"
    using assms delims(5) by (auto simp: serializable_def)
  then have "break_at is_tail_delim (?h @ tail_str u) = (?h, tail_str u)"
    using tail_str_hd[of u] by (rule break_at_append)
  moreover have "serialized u = ?h @ tail_str u"
    using assms by (simp add: serialized_region serializable_def)
  ultimately have "before_query (serialized u) = ?h" by (simp add: before_query_def)
  then show ?thesis by auto
qed

lemma serialized_not_deleted: "serializable u \<Longrightarrow> \<not> parser_deletes (serialized u)"
proof -
  assume "serializable u"
  then have big: "\<forall>b \<in> set (serialized u). 32 < byte b" by (simp add: serializable_def)
  have ne: "serialized u \<noteq> []" by (simp add: serialized_def)
  have "32 < byte (hd (serialized u))" "32 < byte (last (serialized u))"
    using big ne by (meson hd_in_set last_in_set)+
  moreover have "byte b \<notin> {9, 10, 13}" if "b \<in> set (serialized u)" for b
    using bspec[OF big that] by auto
  ultimately show ?thesis by (auto simp: parser_deletes_def)
qed

lemma folding_authority_ok:
  assumes "serializable u" "scheme_folds_backslash (url_scheme u)"
  shows "\<not> backslash_decides_authority (''//'' @ authority_region u @ url_path u @ tail_str u)"
proof -
  have "break_at (\<lambda>c. c = backslash \<or> is_authority_end c)
      (authority_region u @ url_path u @ tail_str u) = (authority_region u, url_path u @ tail_str u)"
    using assms tail_str_hd[of u]
    by (intro break_at_append) (auto simp: serializable_def hd_append)
  then show ?thesis
    using assms tail_str_hd[of u]
    by (cases "url_path u"; cases "tail_str u")
      (auto simp: backslash_decides_authority_def is_separator_def serializable_def)
qed

lemma serialized_accepted:
  assumes "serializable u" "percent_ok C" "crate_parse C (serialized u) = Some u"
  shows "parsing_preserves_authority C (serialized u)" "parsing_preserves_node C (serialized u)"
proof -
  show auth: "parsing_preserves_authority C (serialized u)"
    using assms serialized_not_deleted[OF assms(1)] folding_authority_ok[OF assms(1)]
    by (auto simp: parsing_preserves_authority_def split_serialized raw_authority_serialized
        serializable_def)
  have bq: "scheme_folds_backslash (url_scheme u) \<Longrightarrow> backslash \<notin> set (before_query (serialized u))"
    using before_query_serialized[OF assms(1)] assms(1) by (auto simp: serializable_def)
  have hp: "backslash \<notin> set (host_port (authority_region u))"
    and dots: "list_all (\<lambda>s. \<not> is_dot (percent_decode s)) (segs (url_path u))"
    using assms(1) by (auto simp: serializable_def)
  then have "\<not> list_ex (\<lambda>s. let d = crate_percent_decode C s in d = ''.'' \<or> d = ''..'') (segs (url_path u))"
    using assms(2) by (auto simp: percent_ok_def list_ex_iff list_all_iff is_dot_def)
  then show "parsing_preserves_node C (serialized u)"
    using serialized_not_deleted[OF assms(1)] bq hp auth
    by (simp add: parsing_preserves_node_def split_serialized[OF assms(1)]
        raw_authority_serialized[OF assms(1)] raw_path_serialized[OF assms(1)])
qed

section \<open>Properties\<close>

text \<open>C9. Canonicalizing an address that has a hierarchical path is idempotent, yields an address
  that names the node the decoded and normalized path of the input names, passes the check for
  returned addresses, has a lower-case host and no fragment, and keeps scheme, userinfo, port
  and query.\<close>

theorem canonicalize_canonical:
  assumes "crate_ok C" "url_wf u" "\<not> url_cannot_be_a_base u"
  shows "canonicalize C (canonicalize C u) = canonicalize C u \<and>
    percent_decode (url_path (canonicalize C u)) = normalize_path_bytes (node_bytes u) \<and>
    canonicalize_preserves_node C (canonicalize C u) \<and>
    url_host (canonicalize C u) = map_option to_ascii_lowercase (url_host u) \<and>
    url_fragment (canonicalize C u) = None \<and>
    url_scheme (canonicalize C u) = url_scheme u \<and>
    url_username (canonicalize C u) = url_username u \<and>
    url_password (canonicalize C u) = url_password u \<and>
    url_port (canonicalize C u) = url_port u \<and> url_query (canonicalize C u) = url_query u"
proof -
  have eq: "canonicalize C u = canonical_of u" using canonicalize_eq[OF assms] .
  have idem: "canonicalize C (canonical_of u) = canonical_of u"
    using canonicalize_eq[OF assms(1) canonical_of_wf[OF assms(2,3)]] canonical_of_idem[OF assms(2,3)]
    by simp
  have pres: "canonicalize_preserves_node C (canonical_of u)"
    using node_bytes_canonical(2)[OF assms(2,3)] assms(1)
    by (simp add: canonicalize_preserves_node_def percent_ok_def normalize_idem)
  show ?thesis
    unfolding eq using idem pres node_bytes_canonical(2)[OF assms(2,3)]
    by (simp add: canonical_of_def)
qed

theorem canonicalize_canonical_witness:
  "canonicalize ref_crate (base_url ''s3'' (Some ''Bucket'') ''/a%2F..//b'') =
     base_url ''s3'' (Some ''bucket'') ''/b'' \<and>
   canonicalize_preserves_node ref_crate
     (canonicalize ref_crate (base_url ''s3'' (Some ''Bucket'') ''/a%2F..//b''))"
proof -
  have "url_wf (base_url ''s3'' (Some ''Bucket'') ''/a%2F..//b'')"
    "\<not> url_cannot_be_a_base (base_url ''s3'' (Some ''Bucket'') ''/a%2F..//b'')"
    by (simp_all add: url_wf_def base_url_def)
  moreover have "canonicalize ref_crate (base_url ''s3'' (Some ''Bucket'') ''/a%2F..//b'') =
      base_url ''s3'' (Some ''bucket'') ''/b''"
    by code_simp
  ultimately show ?thesis
    using canonicalize_canonical[of ref_crate "base_url ''s3'' (Some ''Bucket'') ''/a%2F..//b''"]
    by simp
qed

text \<open>Two addresses have the same canonical form exactly when they agree on scheme, userinfo,
  port, query and authority presence, their hosts are equal up to ASCII case, and their decoded
  paths normalize to the same bytes: one spelling per node, and never one spelling for two.\<close>

theorem canonicalize_separates_nodes:
  assumes "crate_ok C"
    and "url_wf u" "\<not> url_cannot_be_a_base u" "url_wf v" "\<not> url_cannot_be_a_base v"
  shows "canonicalize C u = canonicalize C v \<longleftrightarrow>
     url_scheme u = url_scheme v \<and> url_username u = url_username v \<and>
     url_password u = url_password v \<and> url_port u = url_port v \<and> url_query u = url_query v \<and>
     url_has_authority u = url_has_authority v \<and>
     map_option to_ascii_lowercase (url_host u) = map_option to_ascii_lowercase (url_host v) \<and>
     normalize_path_bytes (node_bytes u) = normalize_path_bytes (node_bytes v)"
  using canonicalize_eq[OF assms(1-3)] canonicalize_eq[OF assms(1,4,5)]
    canonical_of_injective[OF assms(2-5)] by simp

theorem canonicalize_separates_nodes_witness:
  "canonicalize ref_crate (base_url ''s3'' (Some ''b'') ''/x%FF'') \<noteq>
   canonicalize ref_crate (base_url ''s3'' (Some ''b'') ''/x%FE'')"
proof -
  let ?u = "base_url ''s3'' (Some ''b'') ''/x%FF''" and ?v = "base_url ''s3'' (Some ''b'') ''/x%FE''"
  have "url_wf ?u" "url_wf ?v" "\<not> url_cannot_be_a_base ?u" "\<not> url_cannot_be_a_base ?v"
    by (simp_all add: url_wf_def base_url_def)
  moreover have "normalize_path_bytes (node_bytes ?u) \<noteq> normalize_path_bytes (node_bytes ?v)"
    by code_simp
  ultimately show ?thesis
    using canonicalize_separates_nodes[of ref_crate ?u ?v] by simp
qed

text \<open>The check for returned addresses accepts exactly the addresses that canonicalization
  leaves naming the same node.\<close>

theorem preserves_node_iff:
  assumes "crate_ok C" "url_wf u" "\<not> url_cannot_be_a_base u"
  shows "canonicalize_preserves_node C u \<longleftrightarrow> node_bytes (canonicalize C u) = node_bytes u"
  unfolding canonicalize_eq[OF assms] node_bytes_canonical(1)[OF assms(2,3)]
  using assms by (simp add: canonicalize_preserves_node_def percent_ok_def node_bytes_def normalize_root Let_def)

theorem preserves_node_iff_witness:
  "\<not> canonicalize_preserves_node ref_crate (base_url ''s3'' (Some ''b'') ''/a//b'') \<and>
   node_bytes (canonicalize ref_crate (base_url ''s3'' (Some ''b'') ''/a//b'')) \<noteq>
   node_bytes (base_url ''s3'' (Some ''b'') ''/a//b'')"
proof -
  let ?u = "base_url ''s3'' (Some ''b'') ''/a//b''"
  have "url_wf ?u" "\<not> url_cannot_be_a_base ?u" by (simp_all add: url_wf_def base_url_def)
  moreover have "\<not> canonicalize_preserves_node ref_crate ?u" by code_simp
  ultimately show ?thesis using preserves_node_iff[of ref_crate ?u] by simp
qed

text \<open>The serialization of an address is never refused as a returned spelling: the raw
  scanners locate the authority and the path of the serialization exactly, and both spelling
  predicates accept it.\<close>

theorem serialization_never_refused:
  assumes "serializable u" "percent_ok C" "crate_parse C (serialized u) = Some u"
  shows "raw_authority (serialized u) = Some (authority_region u) \<and>
    raw_path (serialized u) =
      (if url_path u = [] then RawPath_Empty else RawPath_Path (url_path u)) \<and>
    parsing_preserves_authority C (serialized u) \<and> parsing_preserves_node C (serialized u)"
  using raw_authority_serialized[OF assms(1)] raw_path_serialized[OF assms(1)]
    serialized_accepted[OF assms] by simp

theorem serialization_never_refused_witness:
  "parsing_preserves_node ref_crate ''https://h/a?x=%2E%2E''"
proof -
  let ?u = "(base_url ''https'' (Some ''h'') ''/a'')\<lparr>url_query := Some ''x=%2E%2E''\<rparr>"
  have s: "serialized ?u = ''https://h/a?x=%2E%2E''" by code_simp
  have "serializable ?u" by code_simp
  moreover have "crate_parse ref_crate (serialized ?u) = Some ?u" by code_simp
  ultimately show ?thesis
    using serialization_never_refused[of ?u ref_crate] by (simp add: s)
qed

end
