(* ===== verification/Ov_Scopes.thy ===== *)
theory Ov_Scopes
  imports Ov_Prelude
begin

text \<open>
  The interface that routing and authorization share: scopes that cover addresses, ranked by
  specificity. The law is that two well-formed scopes of equal rank that cover one address name
  the same scope. A client then gets the most specific covering scope from either selection
  the sources use, a stable descending sort followed by the first match, or \<open>max_by_key\<close>
  over the matches, and the two selections agree.
\<close>

locale nested_scopes =
  fixes ok :: "'s \<Rightarrow> bool"
    and okaddr :: "'a \<Rightarrow> bool"
    and covers :: "'s \<Rightarrow> 'a \<Rightarrow> bool"
    and rank :: "'s \<Rightarrow> 'k::linorder"
    and same :: "'s \<Rightarrow> 's \<Rightarrow> bool"
  assumes tie: "ok p \<Longrightarrow> ok q \<Longrightarrow> okaddr a \<Longrightarrow> covers p a \<Longrightarrow> covers q a \<Longrightarrow> rank p = rank q \<Longrightarrow> same p q"
begin

definition first_match :: "'s list \<Rightarrow> 'a \<Rightarrow> 's option" where
  "first_match ss a = find (\<lambda>s. covers s a) (sort_desc rank ss)"

definition last_max :: "'s list \<Rightarrow> 'a \<Rightarrow> 's option" where
  "last_max ss a = max_by_key rank (filter (\<lambda>s. covers s a) ss)"

lemma first_match_covers: "first_match ss a = Some s \<Longrightarrow> s \<in> set ss \<and> covers s a"
  unfolding first_match_def using set_sort_desc[of rank ss]
  by (metis find_Some_iff nth_mem)

lemma first_match_most_specific:
  "first_match ss a = Some s \<Longrightarrow> t \<in> set ss \<Longrightarrow> covers t a \<Longrightarrow> rank t \<le> rank s"
  unfolding first_match_def by (rule find_sort_desc_max)

lemma first_match_None: "first_match ss a = None \<longleftrightarrow> (\<forall>s \<in> set ss. \<not> covers s a)"
  by (auto simp: first_match_def find_None_iff)

lemma last_max_covers: "last_max ss a = Some s \<Longrightarrow> s \<in> set ss \<and> covers s a"
  unfolding last_max_def by (auto dest: max_by_key_in)

lemma last_max_most_specific:
  "last_max ss a = Some s \<Longrightarrow> t \<in> set ss \<Longrightarrow> covers t a \<Longrightarrow> rank t \<le> rank s"
  unfolding last_max_def by (auto dest: max_by_key_max)

lemma last_max_None: "last_max ss a = None \<longleftrightarrow> (\<forall>s \<in> set ss. \<not> covers s a)"
  by (auto simp: last_max_def filter_empty_conv)

lemma selection_unique:
  assumes "\<forall>s \<in> set ss. ok s" "okaddr a" "first_match ss a = Some s"
    and "t \<in> set ss" "covers t a" "rank s \<le> rank t"
  shows "same s t"
proof (rule tie)
  show "rank s = rank t"
    using assms(6) first_match_most_specific[OF assms(3-5)] by simp
qed (use assms first_match_covers in auto)

lemma selections_agree:
  assumes "\<forall>s \<in> set ss. ok s" "okaddr a" "first_match ss a = Some s" "last_max ss a = Some t"
  shows "same s t"
  using selection_unique[OF assms(1-3)] last_max_covers[OF assms(4)]
    last_max_most_specific[OF assms(4)] first_match_covers[OF assms(3)] by blast

end

end
