(* ===== verification/Ov_Plugin_Address.thy ===== *)
theory Ov_Plugin_Address
  imports Ov_Address Ov_Scopes
begin

text \<open>
  \<open>ovstorage-plugin/src/address.rs\<close>: the normalizing parser, the predicates that configuration
  loaders refuse on, backend keys, node identity and containment, and the two operations that
  build addresses from other addresses, \<open>replace_prefix\<close> (an alias or route projection) and
  \<open>join_relative\<close> (a backend key under a root).
\<close>

section \<open>Parsing and configuration checks\<close>

definition parse :: "url_crate \<Rightarrow> string \<Rightarrow> url result" where
  "parse C value =
     (case crate_parse C value of
        None \<Rightarrow> Inl Err_InvalidArgument
      | Some u \<Rightarrow>
          (if url_cannot_be_a_base u then Inl Err_InvalidArgument else Inr (canonicalize C u)))"

datatype config_component = Component_Query | Component_Fragment

fun config_component_name :: "config_component \<Rightarrow> string" where
  "config_component_name Component_Query = ''query''"
| "config_component_name Component_Fragment = ''fragment''"

fun refused_config_component :: "string \<Rightarrow> config_component option" where
  "refused_config_component [] = None"
| "refused_config_component (b # bs) =
     (if b = CHR ''?'' then Some Component_Query
      else if b = CHR ''#'' then Some Component_Fragment
      else refused_config_component bs)"

definition config_prefix_carries_credentials :: "url \<Rightarrow> bool" where
  "config_prefix_carries_credentials u \<longleftrightarrow> url_username u \<noteq> [] \<or> url_password u \<noteq> None"

definition wire_address :: "url_crate \<Rightarrow> url \<Rightarrow> url" where
  "wire_address C u = or_keep (crate_set_password C None) (or_keep (crate_set_username C []) u)"

section \<open>Keys\<close>

definition key :: "url \<Rightarrow> string" where
  "key u =
     (let p = url_path u;
          q = (case strip_prefix ''/'' p of Some r \<Rightarrow> r | None \<Rightarrow> p)
      in percent_decode q)"

definition key_utf8 :: "url \<Rightarrow> string result" where
  "key_utf8 u = (if utf8_valid (key u) then Inr (key u) else Inl Err_InvalidArgument)"

definition decode_segment :: "string \<Rightarrow> string" where
  "decode_segment segment = percent_decode segment"

definition preserves_node :: "url_crate \<Rightarrow> url \<Rightarrow> bool" where
  "preserves_node C u = canonicalize_preserves_node C u"

definition directory_key :: "string \<Rightarrow> string" where
  "directory_key k = (if k = [] \<or> ends_with ''/'' k then k else k @ ''/'')"

definition is_directory :: "url \<Rightarrow> bool" where
  "is_directory u \<longleftrightarrow> ends_with ''/'' (url_path u)"

definition to_directory :: "url_crate \<Rightarrow> url \<Rightarrow> url result" where
  "to_directory C u =
     (if is_directory u then Inr u else Inr (crate_set_path C (url_path u @ ''/'') u))"

definition parent_and_name :: "url_crate \<Rightarrow> url \<Rightarrow> (url \<times> string) option" where
  "parent_and_name C u =
     (if is_directory u \<or> url_fragment u \<noteq> None then None
      else
        (case rsplit_once (CHR ''/'') (url_path u) of
           None \<Rightarrow> None
         | Some (before, name) \<Rightarrow>
             (if name = [] then None
              else Some
                (crate_set_fragment C None (crate_set_query C None (crate_set_path C (before @ ''/'') u)),
                 percent_decode name))))"

section \<open>Identity and containment\<close>

definition same_node :: "url \<Rightarrow> url \<Rightarrow> bool" where
  "same_node a b \<longleftrightarrow> node_key a = node_key b"

definition path_contains :: "string \<Rightarrow> string \<Rightarrow> bool" where
  "path_contains prefx pth =
     (if prefx = pth then True
      else
        (case strip_prefix prefx pth of
           Some rest \<Rightarrow> ends_with ''/'' prefx \<or> starts_with ''/'' rest
         | None \<Rightarrow> False))"

definition is_ancestor_or_self :: "url \<Rightarrow> url \<Rightarrow> bool" where
  "is_ancestor_or_self prefx addr =
     (if url_scheme prefx \<noteq> url_scheme addr \<or> url_host prefx \<noteq> url_host addr \<or>
         url_port prefx \<noteq> url_port addr then False
      else if \<not> path_contains (node_path prefx) (node_path addr) then False
      else (case url_query prefx of None \<Rightarrow> True | Some pinned \<Rightarrow> url_query addr = Some pinned))"

definition relative_suffix :: "url_crate \<Rightarrow> url \<Rightarrow> url \<Rightarrow> string option" where
  "relative_suffix C addr prefx =
     (if \<not> is_ancestor_or_self prefx addr then None
      else
        (let srl = crate_as_str C addr in
         case strip_prefix (crate_as_str C prefx) srl of
           Some sfx \<Rightarrow> Some sfx
         | None \<Rightarrow>
             (let bare = crate_set_fragment C None (crate_set_query C None addr);
                  head = crate_set_path C (url_path prefx) bare
              in case strip_prefix (crate_as_str C head) srl of
                   Some sfx \<Rightarrow> Some sfx
                 | None \<Rightarrow>
                     strip_prefix (crate_as_str C (crate_set_path C (node_path prefx) head)) srl)))"

definition replaced_path :: "url \<Rightarrow> string \<Rightarrow> url \<Rightarrow> string" where
  "replaced_path u suffix_path replacement =
     (if suffix_path = [] then
        (let base = node_path replacement in
         if base = ''/'' \<or> \<not> ends_with ''/'' (url_path u) then base else base @ ''/'')
      else
        (let base = (case strip_suffix ''/'' (url_path replacement) of
                       Some b \<Rightarrow> b | None \<Rightarrow> url_path replacement);
             tail = (case strip_prefix ''/'' suffix_path of Some t \<Rightarrow> t | None \<Rightarrow> suffix_path)
         in base @ ''/'' @ tail))"

definition replace_prefix :: "url_crate \<Rightarrow> url \<Rightarrow> url \<Rightarrow> url \<Rightarrow> url result" where
  "replace_prefix C u prefx replacement =
     (case relative_suffix C u prefx of
        None \<Rightarrow> Inl Err_NoRoute
      | Some sfx \<Rightarrow>
          (let rest = (case split_once (CHR ''#'') sfx of Some (r, _) \<Rightarrow> r | None \<Rightarrow> sfx);
               suffix_path = (case split_once (CHR ''?'') rest of Some (p, _) \<Rightarrow> p | None \<Rightarrow> rest);
               out = crate_set_path C (replaced_path u suffix_path replacement) replacement;
               out1 = (if url_query u \<noteq> None then crate_set_query C (url_query u) out else out);
               out2 = crate_set_fragment C None out1
           in parse C (crate_as_str C out2)))"

definition with_query_pair :: "url_crate \<Rightarrow> url \<Rightarrow> string \<Rightarrow> string \<Rightarrow> url result" where
  "with_query_pair C u k v =
     (if k = [] then Inl Err_InvalidArgument
      else
        (let preserved = filter (\<lambda>(k', _). k' \<noteq> k) (crate_query_pairs C u);
             cleared = crate_set_query C None u;
             refilled = fold (\<lambda>(k', v'). crate_append_pair C k' v') preserved cleared
         in Inr (crate_append_pair C k v refilled)))"

definition join_relative_bytes :: "url_crate \<Rightarrow> url \<Rightarrow> string \<Rightarrow> url result" where
  "join_relative_bytes C u relative_path =
     (if starts_with ''/'' relative_path then Inl Err_InvalidArgument
      else if relative_path = [] then Inr u
      else
        (let encoded = encode_canonical_path C u relative_path;
             new_path = (if ends_with ''/'' (url_path u) then url_path u @ encoded
                         else url_path u @ ''/'' @ encoded);
             base = crate_set_path C new_path u
         in if url_path base \<noteq> new_path \<or> \<not> canonicalize_preserves_node C base
            then Inl Err_InvalidArgument
            else Inr base))"

definition join_relative :: "url_crate \<Rightarrow> url \<Rightarrow> string \<Rightarrow> url result" where
  "join_relative C u relative_path = join_relative_bytes C u relative_path"

section \<open>Paths as segment lists\<close>

text \<open>
  An absolute path without empty interior segments is \<open>dir_path xs d\<close> for its segments \<open>xs\<close>
  and the presence \<open>d\<close> of a trailing slash.
\<close>

definition good_segs :: "string list \<Rightarrow> bool" where
  "good_segs xs \<longleftrightarrow> [] \<notin> set xs \<and> slashfree xs"

definition dir_path :: "string list \<Rightarrow> bool \<Rightarrow> string" where
  "dir_path xs d = CHR ''/'' # path_of xs @ (if d \<and> xs \<noteq> [] then ''/'' else [])"

definition plain_path :: "string \<Rightarrow> bool" where
  "plain_path p \<longleftrightarrow> (\<exists>xs d. good_segs xs \<and> p = dir_path xs d)"

definition node_segs :: "url \<Rightarrow> string list" where
  "node_segs u = filter (\<lambda>s. s \<noteq> []) (segs (node_path u))"

lemma node_segment_count_segs: "node_segment_count u = length (node_segs u)"
  by (simp add: node_segment_count_def node_segs_def)

lemma good_segs_append [simp]: "good_segs (xs @ ys) \<longleftrightarrow> good_segs xs \<and> good_segs ys"
  by (auto simp: good_segs_def)

lemma path_of_append:
  "xs \<noteq> [] \<Longrightarrow> ys \<noteq> [] \<Longrightarrow> path_of (xs @ ys) = path_of xs @ CHR ''/'' # path_of ys"
  by (induction "CHR ''/''" xs rule: join_with.induct) (auto simp: neq_Nil_conv)

lemma segs_path_of: "xs \<noteq> [] \<Longrightarrow> slashfree xs \<Longrightarrow> segs (path_of xs) = xs"
  by (rule split_join)

lemma good_last: "good_segs xs \<Longrightarrow> xs \<noteq> [] \<Longrightarrow> path_of xs \<noteq> [] \<and> last (path_of xs) \<noteq> CHR ''/''"
proof (cases xs rule: rev_cases)
  case (snoc ys y)
  assume "good_segs xs"
  with snoc have "y \<noteq> []" "CHR ''/'' \<notin> set y" by (auto simp: good_segs_def)
  moreover from this have "last y \<noteq> CHR ''/''" using last_in_set by metis
  ultimately show ?thesis
    using snoc by (cases "ys = []") (auto simp: path_of_snoc)
qed simp

lemma path_of_Nil_iff: "good_segs xs \<Longrightarrow> path_of xs = [] \<longleftrightarrow> xs = []"
  using good_last[of xs] by auto

lemma path_of_inj:
  "good_segs xs \<Longrightarrow> good_segs ys \<Longrightarrow> path_of xs = path_of ys \<longleftrightarrow> xs = ys"
  by (metis good_segs_def path_of_Nil_iff segs_path_of)

lemma dir_path_node:
  assumes "good_segs xs" "url_path u = dir_path xs d"
  shows "node_path u = CHR ''/'' # path_of xs" "node_segs u = xs"
    "ends_with ''/'' (url_path u) \<longleftrightarrow> d \<or> xs = []"
proof -
  have ss: "strip_suffix ''/'' (p @ ''/'') = Some p" for p by (simp add: strip_suffix_Some)
  have sn: "p \<noteq> [] \<Longrightarrow> last p \<noteq> CHR ''/'' \<Longrightarrow> strip_suffix ''/'' p = None" for p
    by (auto simp: strip_suffix_None suffix_def)
  show np: "node_path u = CHR ''/'' # path_of xs"
  proof (cases "xs = []")
    case False
    with assms(1) good_last[of xs] show ?thesis
      using ss[of "CHR ''/'' # path_of xs"] sn[of "CHR ''/'' # path_of xs"]
      by (auto simp: node_path_def assms(2) dir_path_def Let_def)
  qed (simp add: node_path_def assms(2) dir_path_def)
  show "node_segs u = xs"
    using assms(1) segs_path_of[of xs] by (cases "xs = []") (auto simp: node_segs_def np good_segs_def intro!: filter_True)
  show "ends_with ''/'' (url_path u) \<longleftrightarrow> d \<or> xs = []"
    using assms(1) good_last[of xs] by (auto simp: assms(2) dir_path_def)
qed

lemma path_contains_prefix:
  assumes "good_segs xs" "good_segs ys"
  shows "path_contains (CHR ''/'' # path_of xs) (CHR ''/'' # path_of ys) \<longleftrightarrow> prefix xs ys"
proof
  assume "prefix xs ys"
  then obtain zs where ys: "ys = xs @ zs" by (auto simp: prefix_def)
  show "path_contains (CHR ''/'' # path_of xs) (CHR ''/'' # path_of ys)"
  proof (cases "xs = [] \<or> zs = []")
    case True
    then show ?thesis by (auto simp: path_contains_def ys split: option.splits)
  next
    case False
    then have "path_of ys = path_of xs @ CHR ''/'' # path_of zs"
      unfolding ys by (simp add: path_of_append)
    then show ?thesis by (simp add: path_contains_def)
  qed
next
  assume c: "path_contains (CHR ''/'' # path_of xs) (CHR ''/'' # path_of ys)"
  show "prefix xs ys"
  proof (cases "xs = [] \<or> path_of xs = path_of ys")
    case True
    then show ?thesis using path_of_inj[OF assms] by auto
  next
    case False
    with c obtain rest where rest: "path_of ys = path_of xs @ rest"
      "last (CHR ''/'' # path_of xs) = CHR ''/'' \<or> (rest \<noteq> [] \<and> hd rest = CHR ''/'')"
      by (auto simp: path_contains_def strip_prefix_Some split: option.splits if_splits)
    then obtain r where r: "rest = CHR ''/'' # r"
      using good_last[OF assms(1)] False by (cases rest) auto
    have "ys \<noteq> []" using rest r by auto
    then have "ys = segs (path_of xs @ CHR ''/'' # r)"
      using segs_path_of[of ys] assms(2) rest(1) r by (simp add: good_segs_def)
    also have "\<dots> = xs @ segs r"
      using segs_path_of[of xs] assms(1) False by (simp add: good_segs_def)
    finally show ?thesis by simp
  qed
qed

lemma ancestor_iff:
  assumes "plain_path (url_path p)" "plain_path (url_path a)"
  shows "is_ancestor_or_self p a \<longleftrightarrow>
    url_scheme p = url_scheme a \<and> url_host p = url_host a \<and> url_port p = url_port a \<and>
    prefix (node_segs p) (node_segs a) \<and> (url_query p = None \<or> url_query p = url_query a)"
proof -
  from assms obtain xs d ys e where *: "good_segs xs" "url_path p = dir_path xs d"
    "good_segs ys" "url_path a = dir_path ys e" by (auto simp: plain_path_def)
  show ?thesis
    using path_contains_prefix[OF *(1,3)] dir_path_node[OF *(1,2)] dir_path_node[OF *(3,4)]
    by (auto simp: is_ancestor_or_self_def split: option.splits)
qed

lemma same_node_iff:
  assumes "plain_path (url_path p)" "plain_path (url_path a)"
  shows "same_node p a \<longleftrightarrow>
    url_scheme p = url_scheme a \<and> url_host p = url_host a \<and> url_port p = url_port a \<and>
    node_segs p = node_segs a \<and> url_query p = url_query a"
proof -
  from assms obtain xs d ys e where *: "good_segs xs" "url_path p = dir_path xs d"
    "good_segs ys" "url_path a = dir_path ys e" by (auto simp: plain_path_def)
  show ?thesis
    using path_of_inj[OF *(1,3)] dir_path_node[OF *(1,2)] dir_path_node[OF *(3,4)]
    by (auto simp: same_node_def node_key_def)
qed

lemma ancestor_refl: "is_ancestor_or_self u u"
  by (auto simp: is_ancestor_or_self_def path_contains_def split: option.splits)

lemma scope_tie:
  assumes "plain_path (url_path p)" "plain_path (url_path q)" "plain_path (url_path a)"
    and "is_ancestor_or_self p a" "is_ancestor_or_self q a" "node_rank p = node_rank q"
  shows "same_node p q"
proof -
  have "prefix (node_segs p) (node_segs a)" "prefix (node_segs q) (node_segs a)"
    "length (node_segs p) = length (node_segs q)" "(url_query p \<noteq> None) = (url_query q \<noteq> None)"
    using assms by (auto simp: ancestor_iff node_rank_def node_segment_count_segs)
  then have "node_segs p = node_segs q"
    by (metis append_eq_append_conv prefix_def)
  with assms show ?thesis
    by (auto simp: ancestor_iff same_node_iff node_rank_def)
qed

text \<open>The addresses of a routing table are scopes, ranked by \<open>node_rank\<close>.\<close>

interpretation route_scopes: nested_scopes
  "\<lambda>u. plain_path (url_path u)" "\<lambda>u. plain_path (url_path u)" is_ancestor_or_self node_rank same_node
  by unfold_locales (rule scope_tie)

section \<open>Canonical addresses have plain paths\<close>

lemma segs_prepend:
  "CHR ''/'' \<notin> set e \<Longrightarrow> segs (e @ t) = (e @ hd (segs t)) # tl (segs t)"
proof (induction e)
  case Nil
  then show ?case by (simp add: hd_Cons_tl[OF split_on_not_Nil])
qed auto

lemma hex_upper_not_slash: "n < 16 \<Longrightarrow> hex_upper n \<noteq> CHR ''/''"
  by (metis hex_digit_slash hex_digit_upper option.distinct(1))

lemma escape_byte_slashfree: "b \<noteq> CHR ''/'' \<Longrightarrow> CHR ''/'' \<notin> set (escape_byte S b)"
proof -
  have "byte b < 16 * 16" by simp
  then have "byte b div 16 < 16" by (rule less_mult_imp_div_less)
  then have "CHR ''/'' \<noteq> hex_upper (byte b div 16)" "CHR ''/'' \<noteq> hex_upper (byte b mod 16)"
    using hex_upper_not_slash by (metis mod_less_divisor zero_less_numeral)+
  then show "b \<noteq> CHR ''/'' \<Longrightarrow> ?thesis" by (simp add: escape_byte_def)
qed

lemma percent_encoded_Nil [simp]: "percent_encoded S [] = []"
  by (simp add: percent_encoded_def)

lemma percent_encoded_Cons: "percent_encoded S (b # bs) = escape_byte S b @ percent_encoded S bs"
  by (simp add: percent_encoded_def)

lemma percent_encoded_append:
  "percent_encoded S (xs @ ys) = percent_encoded S xs @ percent_encoded S ys"
  by (simp add: percent_encoded_def)

lemma percent_encoded_Nil_iff [simp]: "percent_encoded S s = [] \<longleftrightarrow> s = []"
  by (cases s) (auto simp: percent_encoded_def escape_byte_def)

lemma segs_encoded:
  "\<not> S (CHR ''/'') \<Longrightarrow> segs (percent_encoded S s) = map (percent_encoded S) (segs s)"
proof (induction s)
  case (Cons c cs)
  show ?case
  proof (cases "c = CHR ''/''")
    case True
    with Cons show ?thesis by (simp add: percent_encoded_slash)
  next
    case False
    then have "segs (percent_encoded S (c # cs)) =
        (escape_byte S c @ hd (segs (percent_encoded S cs))) # tl (segs (percent_encoded S cs))"
      by (simp add: percent_encoded_Cons segs_prepend escape_byte_slashfree)
    with Cons False show ?thesis
      by (cases "segs cs") (auto simp: percent_encoded_Cons)
  qed
qed (simp add: percent_encoded_def)

lemma norm_plain_path:
  assumes "\<forall>s \<in> set (butlast (segs q)). s \<noteq> []"
  shows "plain_path (CHR ''/'' # q)"
proof -
  obtain bs l where bl: "segs q = bs @ [l]" by (cases "segs q" rule: rev_cases) auto
  have sf: "slashfree (bs @ [l])" using slashfree_segs[of q] bl by simp
  have q: "q = path_of (bs @ [l])" using join_split[of "CHR ''/''" q] bl by simp
  show ?thesis
  proof (cases "l = []")
    case True
    then have "CHR ''/'' # q = dir_path bs True" "good_segs bs"
      using sf assms bl by (auto simp: q dir_path_def good_segs_def path_of_snoc)
    then show ?thesis unfolding plain_path_def by blast
  next
    case False
    then have "CHR ''/'' # q = dir_path (bs @ [l]) False" "good_segs (bs @ [l])"
      using sf assms bl by (auto simp: q dir_path_def good_segs_def)
    then show ?thesis unfolding plain_path_def by blast
  qed
qed

definition canonical_url :: "url \<Rightarrow> bool" where
  "canonical_url u \<longleftrightarrow> url_wf u \<and> \<not> url_cannot_be_a_base u \<and> canonical_of u = u"

lemma canonical_of_canonical:
  "url_wf u \<Longrightarrow> \<not> url_cannot_be_a_base u \<Longrightarrow> canonical_url (canonical_of u)"
  by (simp add: canonical_url_def canonical_of_idem canonical_of_wf)

text \<open>The bytes below the root that a canonical address names, and their spelling.\<close>

lemma canonical_urlE:
  assumes "canonical_url u"
  obtains "url_path u = percent_encoded (canonical_path_set u) (CHR ''/'' # key u)"
    "norm_segs (segs (CHR ''/'' # key u))"
proof -
  from assms have wf: "url_wf u" "\<not> url_cannot_be_a_base u" and c: "canonical_of u = u"
    by (auto simp: canonical_url_def)
  obtain q where "node_bytes u = CHR ''/'' # q" using node_bytes_absolute[OF wf] by blast
  then obtain r where r: "normalize_path_bytes (node_bytes u) = CHR ''/'' # r"
    using normalize_absolute_Cons by metis
  have p: "url_path u = percent_encoded (canonical_path_set u) (CHR ''/'' # r)"
    using arg_cong[OF c, of url_path] r by (simp add: canonical_of_def)
  then have "key u = r"
    by (simp add: key_def percent_encoded_slash percent_decode_encoded)
  with p r that show ?thesis using normalize_norm[of "node_bytes u"] by simp
qed

lemma encoded_plain:
  assumes "norm_segs (segs (CHR ''/'' # k))" "\<not> S (CHR ''/'')"
  shows "plain_path (percent_encoded S (CHR ''/'' # k))"
proof -
  have "\<forall>s \<in> set (butlast (segs k)). s \<noteq> []" using assms(1) by (simp add: norm_segs_def)
  then have "plain_path (CHR ''/'' # percent_encoded S k)"
    using assms(2) by (intro norm_plain_path) (auto simp: segs_encoded map_butlast[symmetric])
  with assms(2) show ?thesis by (simp add: percent_encoded_slash)
qed

lemma canonical_plain: "canonical_url u \<Longrightarrow> plain_path (url_path u)"
  by (elim canonical_urlE) (metis encoded_plain canonical_path_set_slash)

section \<open>A backend key under a root\<close>

lemma encoded_ends_slash:
  "\<not> S (CHR ''/'') \<Longrightarrow> ends_with ''/'' (percent_encoded S s) \<longleftrightarrow> ends_with ''/'' s"
proof (cases s rule: rev_cases)
  case (snoc t c)
  assume S: "\<not> S (CHR ''/'')"
  have "c \<noteq> CHR ''/'' \<Longrightarrow> escape_byte S c \<noteq> [] \<and> last (escape_byte S c) \<noteq> CHR ''/''"
    using escape_byte_slashfree[of c S] by (metis escape_byte_def last_in_set list.distinct(1))
  with snoc S show ?thesis
    by (cases "c = CHR ''/''") (auto simp: percent_encoded_append percent_encoded_Cons escape_byte_def)
qed (simp add: percent_encoded_def)

lemma joined_path:
  assumes "canonical_url u" "percent_ok C"
  shows "(if ends_with ''/'' (url_path u) then url_path u @ encode_canonical_path C u rel
          else url_path u @ ''/'' @ encode_canonical_path C u rel) =
    percent_encoded (canonical_path_set u) (CHR ''/'' # directory_key (key u) @ rel)"
proof (rule canonical_urlE[OF assms(1)])
  assume p: "url_path u = percent_encoded (canonical_path_set u) (CHR ''/'' # key u)"
  have "ends_with ''/'' (url_path u) \<longleftrightarrow> ends_with ''/'' (CHR ''/'' # key u)"
    unfolding p by (rule encoded_ends_slash) simp
  then have "ends_with ''/'' (url_path u) \<longleftrightarrow> key u = [] \<or> ends_with ''/'' (key u)" by simp
  moreover have "encode_canonical_path C u rel = percent_encoded (canonical_path_set u) rel"
    using assms(2) by (simp add: encode_canonical_path_def percent_ok_def)
  ultimately show ?thesis
    unfolding p directory_key_def by (simp add: percent_encoded_append percent_encoded_slash)
qed

lemma join_relative_cases:
  assumes "canonical_url u" "crate_ok C" "rel \<noteq> []" "\<not> starts_with ''/'' rel"
  shows "join_relative_bytes C u rel =
    (let k = CHR ''/'' # directory_key (key u) @ rel in
     if norm_segs (segs k) then Inr (u\<lparr>url_path := percent_encoded (canonical_path_set u) k\<rparr>)
     else Inl Err_InvalidArgument)"
proof -
  define k where "k = CHR ''/'' # directory_key (key u) @ rel"
  define np where "np = percent_encoded (canonical_path_set u) k"
  define base where "base = crate_set_path C np u"
  have jr: "join_relative_bytes C u rel =
      (if url_path base \<noteq> np \<or> \<not> canonicalize_preserves_node C base
       then Inl Err_InvalidArgument else Inr base)"
    using assms joined_path[OF assms(1), of C rel] unfolding join_relative_bytes_def Let_def
    by (simp add: base_def np_def k_def)
  obtain p' where base: "base = u\<lparr>url_path := p'\<rparr>"
    using assms(2) unfolding base_def setters_ok_def by blast
  have dec: "percent_decode np = k" by (simp add: np_def percent_decode_encoded)
  have pres: "url_path base = np \<Longrightarrow> canonicalize_preserves_node C base \<longleftrightarrow> norm_segs (segs k)"
    using assms(1,2) dec normalize_fixed[of k] normalize_norm[of k]
    by (auto simp: base canonical_url_def canonicalize_preserves_node_def percent_ok_def Let_def)
  show ?thesis
  proof (cases "norm_segs (segs k)")
    case True
    then have "settable u np" unfolding settable_def np_def k_def by blast
    then have "base = u\<lparr>url_path := np\<rparr>"
      using assms(2) by (simp add: base_def setters_ok_def)
    with True pres jr show ?thesis by (simp add: k_def[symmetric] np_def)
  next
    case False
    with pres jr show ?thesis by (auto simp: k_def[symmetric])
  qed
qed

abbreviation real_segs :: "string \<Rightarrow> string list" where
  "real_segs s \<equiv> filter (\<lambda>x. x \<noteq> []) (segs s)"

lemma segs_dir_path:
  "good_segs xs \<Longrightarrow> real_segs (dir_path xs d) = xs"
proof (cases "xs = []")
  case False
  assume g: "good_segs xs"
  then have "segs (path_of xs) = xs" "filter (\<lambda>x. x \<noteq> []) xs = xs"
    using False by (auto simp: good_segs_def intro!: segs_path_of filter_True)
  then show ?thesis by (simp add: dir_path_def)
qed (simp add: dir_path_def)

lemma canonical_node_segs:
  assumes "canonical_url u"
  shows "node_segs u = map (percent_encoded (canonical_path_set u)) (real_segs (key u))"
proof (rule canonical_urlE[OF assms])
  assume p: "url_path u = percent_encoded (canonical_path_set u) (CHR ''/'' # key u)"
  obtain xs d where x: "good_segs xs" "url_path u = dir_path xs d"
    using canonical_plain[OF assms] by (auto simp: plain_path_def)
  then have "node_segs u = real_segs (url_path u)"
    using dir_path_node(2) segs_dir_path by simp
  also have "\<dots> = map (percent_encoded (canonical_path_set u)) (real_segs (key u))"
    unfolding p by (simp add: segs_encoded filter_map comp_def)
  finally show ?thesis .
qed

lemma real_segs_directory_key: "real_segs (directory_key k @ rel) = real_segs k @ real_segs rel"
proof (cases "k = [] \<or> \<not> ends_with ''/'' k")
  case False
  then obtain j where "k = j @ ''/''" by (cases k rule: rev_cases) auto
  then show ?thesis by (simp add: directory_key_def)
qed (auto simp: directory_key_def)

lemma joined_key:
  assumes "canonical_url u" "norm_segs (segs (CHR ''/'' # directory_key (key u) @ rel))"
  defines "v \<equiv> u\<lparr>url_path := percent_encoded (canonical_path_set u) (CHR ''/'' # directory_key (key u) @ rel)\<rparr>"
  shows "key v = directory_key (key u) @ rel" "canonical_url v" "is_ancestor_or_self u v"
proof -
  let ?k = "directory_key (key u) @ rel"
  have v: "url_path v = CHR ''/'' # percent_encoded (canonical_path_set u) ?k" "canonical_path_set v = canonical_path_set u"
    by (simp_all add: v_def percent_encoded_slash)
  show kv: "key v = ?k" by (simp add: key_def v percent_decode_encoded)
  have nb: "node_bytes v = CHR ''/'' # ?k" by (simp add: node_bytes_def v percent_decode_encoded)
  have "url_host u = map_option to_ascii_lowercase (url_host u)" "url_fragment u = None"
    using assms(1) unfolding canonical_url_def canonical_of_def
    by (metis url.select_convs url.surjective url.update_convs)+
  then have "canonical_of v = v"
    unfolding canonical_of_def nb normalize_fixed[OF assms(2)] v(2) by (simp add: v_def)
  moreover have "url_wf v" "\<not> url_cannot_be_a_base v"
    using assms(1) by (simp_all add: url_wf_def v canonical_url_def) (simp add: v_def)
  ultimately show cv: "canonical_url v" by (simp add: canonical_url_def)
  show "is_ancestor_or_self u v"
  proof (rule iffD2[OF ancestor_iff[OF canonical_plain[OF assms(1)] canonical_plain[OF cv]]])
    have "prefix (node_segs u) (node_segs v)"
      unfolding canonical_node_segs[OF assms(1)] canonical_node_segs[OF cv] kv v(2)
        real_segs_directory_key by simp
    then show "url_scheme u = url_scheme v \<and> url_host u = url_host v \<and> url_port u = url_port v \<and>
      prefix (node_segs u) (node_segs v) \<and> (url_query u = None \<or> url_query u = url_query v)"
      by (simp add: v_def)
  qed
qed

section \<open>Properties\<close>

text \<open>On canonical addresses containment is a partial order on nodes: it is reflexive and
  transitive, and two addresses that contain each other are the same node, whatever trailing
  slash or userinfo they spell.\<close>

theorem containment_partial_order:
  assumes "canonical_url u" "canonical_url v" "canonical_url w"
  shows "is_ancestor_or_self u u \<and>
    (is_ancestor_or_self u v \<and> is_ancestor_or_self v w \<longrightarrow> is_ancestor_or_self u w) \<and>
    (is_ancestor_or_self u v \<and> is_ancestor_or_self v u \<longleftrightarrow> same_node u v)"
proof -
  note pl = canonical_plain[OF assms(1)] canonical_plain[OF assms(2)] canonical_plain[OF assms(3)]
  have trans: "is_ancestor_or_self u v \<Longrightarrow> is_ancestor_or_self v w \<Longrightarrow> is_ancestor_or_self u w"
    using pl by (auto simp: ancestor_iff intro: prefix_order.trans)
  have "is_ancestor_or_self u v \<and> is_ancestor_or_self v u \<longleftrightarrow> same_node u v"
    using pl by (auto simp: ancestor_iff same_node_iff intro: prefix_order.antisym)
  with trans ancestor_refl show ?thesis by blast
qed

theorem containment_partial_order_witness:
  "same_node (base_url ''s3'' (Some ''b'') ''/root/'') (base_url ''s3'' (Some ''b'') ''/root'') \<and>
   is_ancestor_or_self (base_url ''s3'' (Some ''b'') ''/root/'') (base_url ''s3'' (Some ''b'') ''/root'') \<and>
   \<not> is_ancestor_or_self (base_url ''s3'' (Some ''b'') ''/foo'') (base_url ''s3'' (Some ''b'') ''/foobar'')"
proof -
  let ?u = "base_url ''s3'' (Some ''b'') ''/root/''" and ?v = "base_url ''s3'' (Some ''b'') ''/root''"
  have "canonical_of ?u = ?u" "canonical_of ?v = ?v" by code_simp+
  then have c: "canonical_url ?u" "canonical_url ?v"
    by (simp_all add: canonical_url_def url_wf_def) (simp_all add: base_url_def)
  have "same_node ?u ?v"
    "\<not> is_ancestor_or_self (base_url ''s3'' (Some ''b'') ''/foo'') (base_url ''s3'' (Some ''b'') ''/foobar'')"
    by code_simp+
  then show ?thesis using containment_partial_order[OF c c(1)] by simp
qed

text \<open>Selecting a scope is unambiguous: for canonical scopes and a canonical address, the
  stable descending sort with first match and the last maximum over the matches (the two
  selections the sources use) both fail exactly when no scope covers the address; otherwise
  both return covering scopes of maximal \<open>node_rank\<close>, and the two are one node.\<close>

theorem scope_selection_unambiguous:
  assumes "\<forall>s \<in> set ss. canonical_url s" "canonical_url a"
  shows "(case (find (\<lambda>s. is_ancestor_or_self s a) (sort_desc node_rank ss),
                max_by_key node_rank (filter (\<lambda>s. is_ancestor_or_self s a) ss)) of
       (Some s, Some t) \<Rightarrow> same_node s t \<and> s \<in> set ss \<and> is_ancestor_or_self s a \<and>
         (\<forall>r \<in> set ss. is_ancestor_or_self r a \<longrightarrow> node_rank r \<le> node_rank s)
     | (None, None) \<Rightarrow> \<forall>s \<in> set ss. \<not> is_ancestor_or_self s a
     | _ \<Rightarrow> False)"
proof -
  have pl: "\<forall>s \<in> set ss. plain_path (url_path s)" "plain_path (url_path a)"
    using assms canonical_plain by auto
  let ?f = "route_scopes.first_match ss a" and ?m = "route_scopes.last_max ss a"
  have "(case (?f, ?m) of
       (Some s, Some t) \<Rightarrow> same_node s t \<and> s \<in> set ss \<and> is_ancestor_or_self s a \<and>
         (\<forall>r \<in> set ss. is_ancestor_or_self r a \<longrightarrow> node_rank r \<le> node_rank s)
     | (None, None) \<Rightarrow> \<forall>s \<in> set ss. \<not> is_ancestor_or_self s a | _ \<Rightarrow> False)"
    using route_scopes.selections_agree[OF pl] route_scopes.first_match_covers[of ss a]
      route_scopes.first_match_most_specific[of ss a] route_scopes.first_match_None[of ss a]
      route_scopes.last_max_None[of ss a]
    by (auto split: option.splits)
  then show ?thesis
    unfolding route_scopes.first_match_def route_scopes.last_max_def .
qed

theorem scope_selection_unambiguous_witness:
  "find (\<lambda>s. is_ancestor_or_self s (base_url ''s3'' (Some ''b'') ''/a/b/c''))
     (sort_desc node_rank [base_url ''s3'' (Some ''b'') ''/a'', base_url ''s3'' (Some ''b'') ''/a/b/''])
   = Some (base_url ''s3'' (Some ''b'') ''/a/b/'') \<and>
   node_rank (base_url ''s3'' (Some ''b'') ''/a'') \<le> node_rank (base_url ''s3'' (Some ''b'') ''/a/b/'')"
proof -
  let ?s = "base_url ''s3'' (Some ''b'') ''/a''" and ?t = "base_url ''s3'' (Some ''b'') ''/a/b/''"
    and ?a = "base_url ''s3'' (Some ''b'') ''/a/b/c''"
  have "canonical_of ?s = ?s" "canonical_of ?t = ?t" "canonical_of ?a = ?a" by code_simp+
  then have c: "\<forall>s \<in> set [?s, ?t]. canonical_url s" "canonical_url ?a"
    by (simp_all add: canonical_url_def url_wf_def) (simp_all add: base_url_def)
  have e: "find (\<lambda>s. is_ancestor_or_self s ?a) (sort_desc node_rank [?s, ?t]) = Some ?t"
    "max_by_key node_rank (filter (\<lambda>s. is_ancestor_or_self s ?a) [?s, ?t]) = Some ?t"
    "is_ancestor_or_self ?s ?a" by code_simp+
  show ?thesis
    using scope_selection_unambiguous[OF c] unfolding e by (simp add: e(3))
qed

end
