(* ===== verification/Ov_Glob.thy ===== *)
theory Ov_Glob
  imports Ov_Prelude
begin

text \<open>
  The principal patterns of the authorization policy (\<open>ovstorage-authz-policy/src/rules.rs\<close>):
  \<open>glob_match\<close>, a greedy matcher that never backtracks, and \<open>principals_intersect\<close>, the
  conservative overlap test of the load-time check. The reference is the usual recursive
  semantics of a wildcard, \<open>wild\<close>.
\<close>

section \<open>The matcher\<close>

fun glob_middle :: "string list \<Rightarrow> string \<Rightarrow> string option" where
  "glob_middle [] remainder = Some remainder"
| "glob_middle (part # parts) remainder =
     (if part = [] then glob_middle parts remainder
      else (case after_first part remainder of
              None \<Rightarrow> None
            | Some rest \<Rightarrow> glob_middle parts rest))"

definition glob_match :: "string \<Rightarrow> string \<Rightarrow> bool" where
  "glob_match pattern val =
     (if pattern = ''*'' then True
      else
        (let parts = split_on (CHR ''*'') pattern in
         if length parts = 1 then pattern = val
         else
           (case (if hd parts \<noteq> [] then strip_prefix (hd parts) val else Some val) of
              None \<Rightarrow> False
            | Some remainder \<Rightarrow>
                (case glob_middle (take (length parts - 2) (drop 1 parts)) remainder of
                   None \<Rightarrow> False
                 | Some rest \<Rightarrow> last parts = [] \<or> ends_with (last parts) rest))))"

definition trailing_star_literal :: "string \<Rightarrow> string option" where
  "trailing_star_literal pattern =
     (case strip_suffix ''*'' pattern of
        None \<Rightarrow> None
      | Some literal \<Rightarrow>
          (if literal \<noteq> [] \<and> CHR ''*'' \<notin> set literal then Some literal else None))"

definition principals_intersect :: "string \<Rightarrow> string \<Rightarrow> bool" where
  "principals_intersect a b =
     (if a = b \<or> glob_match a b \<or> glob_match b a then True
      else
        (case (trailing_star_literal a, trailing_star_literal b) of
           (Some la, Some lb) \<Rightarrow> starts_with lb la \<or> starts_with la lb
         | _ \<Rightarrow> CHR ''*'' \<in> set a \<and> CHR ''*'' \<in> set b))"

section \<open>The reference semantics\<close>

fun wild :: "string \<Rightarrow> string \<Rightarrow> bool" where
  "wild [] v = (v = [])"
| "wild (c # cs) [] = (c = CHR ''*'' \<and> wild cs [])"
| "wild (c # cs) (x # xs) =
     (if c = CHR ''*'' then wild cs (x # xs) \<or> wild (c # cs) xs else c = x \<and> wild cs xs)"

fun wild_parts :: "string list \<Rightarrow> string \<Rightarrow> bool" where
  "wild_parts [] v = False"
| "wild_parts [p] v = (v = p)"
| "wild_parts (p # q # ps) v = (\<exists>g r. v = p @ g @ r \<and> wild_parts (q # ps) r)"

lemma wild_star: "wild (CHR ''*'' # cs) v \<longleftrightarrow> (\<exists>g r. v = g @ r \<and> wild cs r)"
proof (induction v)
  case (Cons x xs)
  have "(\<exists>g r. x # xs = g @ r \<and> wild cs r) \<longleftrightarrow> wild cs (x # xs) \<or> (\<exists>g r. xs = g @ r \<and> wild cs r)"
    by (auto simp: Cons_eq_append_conv)
  with Cons show ?case by simp
qed simp

lemma wild_eq_parts: "wild p v \<longleftrightarrow> wild_parts (split_on (CHR ''*'') p) v"
proof (induction p arbitrary: v)
  case (Cons c cs)
  obtain q qs where q: "split_on (CHR ''*'') cs = q # qs" by (cases "split_on (CHR ''*'') cs") auto
  show ?case
  proof (cases "c = CHR ''*''")
    case True
    then show ?thesis using Cons.IH by (simp add: wild_star q)
  next
    case False
    then have "wild (c # cs) v \<longleftrightarrow> (\<exists>w. v = c # w \<and> wild cs w)" by (cases v) auto
    also have "\<dots> \<longleftrightarrow> wild_parts ((c # q) # qs) v"
      using Cons.IH q by (cases qs) auto
    finally show ?thesis using False q by simp
  qed
qed simp

text \<open>The greedy tail of the matcher accepts as soon as any placement of the parts does.\<close>

definition glob_tail :: "string list \<Rightarrow> string \<Rightarrow> bool" where
  "glob_tail ps rem =
     (case glob_middle (butlast ps) rem of
        None \<Rightarrow> False | Some rest \<Rightarrow> last ps = [] \<or> ends_with (last ps) rest)"

lemma glob_tail_single: "glob_tail [l] rem \<longleftrightarrow> (\<exists>g. rem = g @ l)"
  by (auto simp: glob_tail_def ends_with_iff suffix_def)

lemma glob_tail_Cons:
  "ps \<noteq> [] \<Longrightarrow> glob_tail (p # ps) rem =
     (case (if p = [] then Some rem else after_first p rem) of
        None \<Rightarrow> False | Some r \<Rightarrow> glob_tail ps r)"
  by (auto simp: glob_tail_def split: option.splits)

lemma glob_tail_eq:
  "ps \<noteq> [] \<Longrightarrow> glob_tail ps rem \<longleftrightarrow> (\<exists>g r. rem = g @ r \<and> wild_parts ps r)"
proof (induction ps arbitrary: rem)
  case (Cons p ps')
  show ?case
  proof (cases ps')
    case Nil
    then show ?thesis by (simp add: glob_tail_single)
  next
    case (Cons q ps)
    have IH: "glob_tail (q # ps) r \<longleftrightarrow> (\<exists>g s. r = g @ s \<and> wild_parts (q # ps) s)" for r
      using Cons.IH Cons by blast
    have mono: "glob_tail (q # ps) r \<Longrightarrow> suffix r r' \<Longrightarrow> glob_tail (q # ps) r'" for r r'
      unfolding IH suffix_def by (metis append.assoc)
    have "(\<exists>g r. rem = g @ r \<and> wild_parts (p # q # ps) r) \<longleftrightarrow>
        (\<exists>u r. rem = u @ p @ r \<and> glob_tail (q # ps) r)"
      unfolding IH by auto
    also have "\<dots> \<longleftrightarrow> (\<exists>r. (if p = [] then Some rem else after_first p rem) = Some r \<and> glob_tail (q # ps) r)"
    proof (cases "p = []")
      case True
      have "(\<exists>u r. rem = u @ r \<and> glob_tail (q # ps) r) \<longleftrightarrow> glob_tail (q # ps) rem"
        using mono suffixI by (metis append_Nil)
      with True show ?thesis by simp
    next
      case False
      have "(\<exists>u r. rem = u @ p @ r \<and> glob_tail (q # ps) r) \<longleftrightarrow>
          (\<exists>r. after_first p rem = Some r \<and> glob_tail (q # ps) r)"
        using after_first_Some[of p rem] after_first_longest[of rem _ p] mono by metis
      with False show ?thesis by simp
    qed
    also have "\<dots> \<longleftrightarrow> glob_tail (p # q # ps) rem"
      by (simp add: glob_tail_Cons split: option.splits)
    finally show ?thesis using Cons by simp
  qed
qed simp

lemma glob_match_eq: "glob_match pattern val \<longleftrightarrow> wild pattern val"
proof -
  obtain p ps where ps: "split_on (CHR ''*'') pattern = p # ps"
    by (cases "split_on (CHR ''*'') pattern") auto
  show ?thesis
  proof (cases "ps = []")
    case True
    then have "pattern = p" using join_split[of "CHR ''*''" pattern] ps by simp
    moreover from this True ps have "pattern \<noteq> ''*''" by auto
    ultimately show ?thesis using True ps by (auto simp: glob_match_def wild_eq_parts)
  next
    case False
    have star: "pattern = ''*'' \<Longrightarrow> wild pattern val" by (auto simp: wild_star)
    have "pattern \<noteq> ''*'' \<Longrightarrow> glob_match pattern val \<longleftrightarrow>
        (case (if p \<noteq> [] then strip_prefix p val else Some val) of
           None \<Rightarrow> False | Some rem \<Rightarrow> glob_tail ps rem)"
      using False ps by (simp add: glob_match_def glob_tail_def Let_def butlast_conv_take numeral_2_eq_2
          split: option.splits)
    also have "\<dots> \<longleftrightarrow> (\<exists>rem. val = p @ rem \<and> glob_tail ps rem)"
      by (cases "p = []") (auto simp: strip_prefix_Some split: option.splits)
    also have "\<dots> \<longleftrightarrow> wild pattern val"
      using glob_tail_eq[OF False] False by (cases ps) (auto simp: wild_eq_parts ps)
    finally show ?thesis using star by (cases "pattern = ''*''") (auto simp: glob_match_def)
  qed
qed

section \<open>Overlap of patterns\<close>

lemma wild_literal: "CHR ''*'' \<notin> set p \<Longrightarrow> wild p v \<longleftrightarrow> v = p"
  by (simp add: wild_eq_parts)

lemma wild_refl: "wild p p"
  by (induction p) (auto simp: wild_star intro: exI[of _ "''*''"])

lemma wild_trailing: "CHR ''*'' \<notin> set l \<Longrightarrow> wild (l @ ''*'') v \<longleftrightarrow> prefix l v"
  by (auto simp: wild_eq_parts prefix_def)

lemma trailing_star_literal_Some:
  "trailing_star_literal p = Some l \<longleftrightarrow> p = l @ ''*'' \<and> l \<noteq> [] \<and> CHR ''*'' \<notin> set l"
  by (auto simp: trailing_star_literal_def strip_suffix_Some split: option.splits if_splits)
    (metis strip_suffix_Some option.distinct(1) option.inject)+

lemma principals_intersect_complete:
  assumes "glob_match a v" "glob_match b v"
  shows "principals_intersect a b"
proof -
  have star: "CHR ''*'' \<in> set a \<and> CHR ''*'' \<in> set b" if "\<not> glob_match a b" "\<not> glob_match b a"
    using assms that wild_literal unfolding glob_match_eq by metis
  have lits: "starts_with lb la \<or> starts_with la lb"
    if "trailing_star_literal a = Some la" "trailing_star_literal b = Some lb" for la lb
    using assms that unfolding trailing_star_literal_Some glob_match_eq starts_with_iff
    by (metis prefix_same_cases wild_trailing)
  show ?thesis
    unfolding principals_intersect_def using star lits by (auto split: option.splits)
qed

lemma principals_intersect_exact:
  assumes "principals_intersect a b"
    and "CHR ''*'' \<notin> set a \<or> CHR ''*'' \<notin> set b \<or>
      (trailing_star_literal a \<noteq> None \<and> trailing_star_literal b \<noteq> None)"
  shows "\<exists>v. glob_match a v \<and> glob_match b v"
proof (cases "a = b \<or> glob_match a b \<or> glob_match b a")
  case True
  then show ?thesis using wild_refl unfolding glob_match_eq by blast
next
  case False
  with assms obtain la lb where l: "trailing_star_literal a = Some la" "trailing_star_literal b = Some lb"
    "starts_with lb la \<or> starts_with la lb"
    by (auto simp: principals_intersect_def split: option.splits if_splits)
  then have "wild a (if starts_with lb la then la else lb) \<and> wild b (if starts_with lb la then la else lb)"
    by (auto simp: trailing_star_literal_Some starts_with_iff wild_trailing)
  then show ?thesis unfolding glob_match_eq by blast
qed

section \<open>Properties\<close>

text \<open>The greedy matcher decides exactly the wildcard semantics: taking the first
  occurrence of each middle part never loses a match.\<close>

theorem glob_match_correct: "glob_match pattern val = wild pattern val"
  by (rule glob_match_eq)

text \<open>The overlap test never calls two patterns disjoint when some principal matches both,
  and it is exact unless both patterns carry a wildcard that is not a single trailing one.\<close>

theorem principals_intersect_sound:
  "(\<forall>v. glob_match a v \<and> glob_match b v \<longrightarrow> principals_intersect a b) \<and>
   (CHR ''*'' \<notin> set a \<or> CHR ''*'' \<notin> set b \<or>
      (trailing_star_literal a \<noteq> None \<and> trailing_star_literal b \<noteq> None) \<longrightarrow>
    (principals_intersect a b \<longleftrightarrow> (\<exists>v. glob_match a v \<and> glob_match b v)))"
  using principals_intersect_complete principals_intersect_exact by blast

theorem principals_intersect_sound_witness:
  "principals_intersect ''team-*'' ''*-ops'' \<and> \<not> principals_intersect ''alice*'' ''bob*'' \<and>
   \<not> (\<exists>v. glob_match ''alice*'' v \<and> glob_match ''bob*'' v)"
proof -
  have "glob_match ''team-*'' ''team-ops''" "glob_match ''*-ops'' ''team-ops''"
    "trailing_star_literal ''alice*'' \<noteq> None" "trailing_star_literal ''bob*'' \<noteq> None"
    "\<not> principals_intersect ''alice*'' ''bob*''" by code_simp+
  then show ?thesis
    using principals_intersect_sound[of "''team-*''" "''*-ops''"]
      principals_intersect_sound[of "''alice*''" "''bob*''"] by blast
qed

end
