(* ===== verification/Ov_Policy.thy ===== *)
theory Ov_Policy
  imports Ov_Plugin_Address Ov_Glob
begin

text \<open>
  The authorization policy, \<open>ovstorage-authz-policy/src/{lib,rules}.rs\<close>: operations, rules, the
  loader with its load-time rejections, and the matcher. \<open>C\<close> is the url crate; the record
  \<open>host\<close> holds what depends on the platform: whether \<open>file:\<close> paths are folded
  (\<open>cfg!(windows)\<close>) and the standard library's lossy Unicode lower-casing of a byte segment.
\<close>

section \<open>Operations\<close>

datatype operation =
    Op_Stat
  | Op_Read
  | Op_Write
  | Op_Delete
  | Op_List
  | Op_ListVersions
  | Op_WatchDirectory
  | Op_CreateDirectory
  | Op_DeleteDirectory
  | Op_UpdateMetadata
  | Op_CheckAccess
  | Op_ListAddressRoots
  | Op_ListBackendKinds
  | Op_AddConnection
  | Op_RemoveConnection
  | Op_UpdateConnectionCredentials
  | Op_ListConnections
  | Op_AddAlias
  | Op_RemoveAlias
  | Op_ListAliases
  | Op_SetAddressVisibility

fun operation_name :: "operation \<Rightarrow> string" where
  "operation_name Op_Stat = ''stat''"
| "operation_name Op_Read = ''read''"
| "operation_name Op_Write = ''write''"
| "operation_name Op_Delete = ''delete''"
| "operation_name Op_List = ''list''"
| "operation_name Op_ListVersions = ''list_versions''"
| "operation_name Op_WatchDirectory = ''watch_directory''"
| "operation_name Op_CreateDirectory = ''create_directory''"
| "operation_name Op_DeleteDirectory = ''delete_directory''"
| "operation_name Op_UpdateMetadata = ''update_metadata''"
| "operation_name Op_CheckAccess = ''check_access''"
| "operation_name Op_ListAddressRoots = ''list_address_roots''"
| "operation_name Op_ListBackendKinds = ''list_backend_kinds''"
| "operation_name Op_AddConnection = ''add_connection''"
| "operation_name Op_RemoveConnection = ''remove_connection''"
| "operation_name Op_UpdateConnectionCredentials = ''update_connection_credentials''"
| "operation_name Op_ListConnections = ''list_connections''"
| "operation_name Op_AddAlias = ''add_alias''"
| "operation_name Op_RemoveAlias = ''remove_alias''"
| "operation_name Op_ListAliases = ''list_aliases''"
| "operation_name Op_SetAddressVisibility = ''set_address_visibility''"

definition operation_from_name :: "string \<Rightarrow> operation option" where
  "operation_from_name name =
    (if name = ''stat'' then Some Op_Stat
     else if name = ''read'' then Some Op_Read
     else if name = ''write'' then Some Op_Write
     else if name = ''delete'' then Some Op_Delete
     else if name = ''list'' then Some Op_List
     else if name = ''list_versions'' then Some Op_ListVersions
     else if name = ''watch_directory'' then Some Op_WatchDirectory
     else if name = ''create_directory'' then Some Op_CreateDirectory
     else if name = ''delete_directory'' then Some Op_DeleteDirectory
     else if name = ''update_metadata'' then Some Op_UpdateMetadata
     else if name = ''check_access'' then Some Op_CheckAccess
     else if name = ''list_address_roots'' then Some Op_ListAddressRoots
     else if name = ''list_backend_kinds'' then Some Op_ListBackendKinds
     else if name = ''add_connection'' then Some Op_AddConnection
     else if name = ''remove_connection'' then Some Op_RemoveConnection
     else if name = ''update_connection_credentials'' then Some Op_UpdateConnectionCredentials
     else if name = ''list_connections'' then Some Op_ListConnections
     else if name = ''add_alias'' then Some Op_AddAlias
     else if name = ''remove_alias'' then Some Op_RemoveAlias
     else if name = ''list_aliases'' then Some Op_ListAliases
     else if name = ''set_address_visibility'' then Some Op_SetAddressVisibility
     else None)"

section \<open>Decisions, configuration and rules\<close>

datatype effect = Allow | Deny

record decision =
  dec_allow :: bool
  dec_reason :: "string option"
  dec_explanation :: "string option"

definition allow_with_explanation :: "string \<Rightarrow> decision" where
  "allow_with_explanation explanation =
     \<lparr>dec_allow = True, dec_reason = None, dec_explanation = Some explanation\<rparr>"

definition deny_decision :: "string \<Rightarrow> decision" where
  "deny_decision reason =
     \<lparr>dec_allow = False, dec_reason = Some reason, dec_explanation = None\<rparr>"

definition deny_with_explanation :: "string \<Rightarrow> string \<Rightarrow> decision" where
  "deny_with_explanation reason explanation =
     \<lparr>dec_allow = False, dec_reason = Some reason, dec_explanation = Some explanation\<rparr>"

definition is_allow :: "decision \<Rightarrow> bool" where
  "is_allow d = dec_allow d"

record toml_policy_rule =
  toml_id :: "string option"
  toml_effect :: effect
  toml_principal :: string
  toml_operations :: "string list"
  toml_prefix :: string

record toml_policy_config =
  toml_plugin :: string
  toml_decision_ttl_max_seconds :: "nat option"
  toml_prefix_escapes_are_decoded :: bool
  toml_policy :: "toml_policy_rule list"

record rule =
  rule_id :: string
  rule_effect :: effect
  rule_principal :: string
  rule_operations :: "operation list option"
  rule_prefix :: "url option"
  rule_prefix_written :: "string option"
  rule_order :: nat

record policy =
  policy_rules :: "rule list"
  policy_decision_ttl :: "nat option"

record host =
  host_folds_file_paths :: bool
  host_lossy_lower :: "string \<Rightarrow> string"

definition AUTHZ_POLICY_KIND_TOML :: string where
  "AUTHZ_POLICY_KIND_TOML = ''ovstorage-authz-toml''"

definition default_plugin_name :: string where
  "default_plugin_name = AUTHZ_POLICY_KIND_TOML"

definition default_toml_policy_config :: toml_policy_config where
  "default_toml_policy_config =
     \<lparr>toml_plugin = default_plugin_name, toml_decision_ttl_max_seconds = None,
      toml_prefix_escapes_are_decoded = False, toml_policy = []\<rparr>"

section \<open>Segments of a scope\<close>

text \<open>\<open>Url::path_segments\<close>: the path split on slashes after its leading one, \<open>None\<close> when the
  path has no leading slash.\<close>

definition path_segments :: "url \<Rightarrow> string list option" where
  "path_segments u = map_option segs (strip_prefix ''/'' (url_path u))"

definition strip_slash :: "string \<Rightarrow> string" where
  "strip_slash p = (case strip_prefix ''/'' p of Some r \<Rightarrow> r | None \<Rightarrow> p)"

definition is_drive_segment :: "string \<Rightarrow> bool" where
  "is_drive_segment s =
     (case s of [letter, c] \<Rightarrow> c = CHR '':'' \<and> is_ascii_alphabetic letter | _ \<Rightarrow> False)"

definition fold_backslashes :: "string \<Rightarrow> string" where
  "fold_backslashes p = map (\<lambda>b. if b = backslash then CHR ''/'' else b) p"

definition fold_file_path :: "string \<Rightarrow> string" where
  "fold_file_path p =
     (let path_from_root = strip_slash (fold_backslashes p);
          (head, after) = break_at (\<lambda>b. b = CHR ''/'') path_from_root;
          (drive, rest) = (if is_drive_segment head then (head, after) else ([], path_from_root));
          absolute = (if starts_with ''/'' rest then rest else CHR ''/'' # rest)
      in drive @ normalize_decoded_path absolute)"

definition segments_with_host_semantics_widened ::
    "host \<Rightarrow> url \<Rightarrow> bool \<Rightarrow> bool \<Rightarrow> string list option" where
  "segments_with_host_semantics_widened H u fld widen =
     (let fold_this = (fld \<and> url_scheme u = ''file'') in
      case path_segments u of
        None \<Rightarrow> None
      | Some ss \<Rightarrow>
          (let path0 = path_of (map decode_segment ss);
               path1 = (if fold_this then fold_file_path path0 else path0);
               segments = map (\<lambda>s. if fold_this \<and> widen then host_lossy_lower H s else s)
                            (segs (strip_slash path1))
           in Some (if segments \<noteq> [] \<and> last segments = [] then butlast segments else segments)))"

definition segments_with_host_semantics :: "host \<Rightarrow> url \<Rightarrow> bool \<Rightarrow> string list option" where
  "segments_with_host_semantics H u fld = segments_with_host_semantics_widened H u fld False"

definition scope_segments :: "host \<Rightarrow> url \<Rightarrow> string list option" where
  "scope_segments H u = segments_with_host_semantics H u (host_folds_file_paths H)"

definition covers_with_host_semantics :: "host \<Rightarrow> url \<Rightarrow> url \<Rightarrow> bool \<Rightarrow> effect \<Rightarrow> bool" where
  "covers_with_host_semantics H prefx address fld eff =
     (let widen = (eff = Deny) in
      case (segments_with_host_semantics_widened H prefx fld widen,
            segments_with_host_semantics_widened H address fld widen) of
        (Some scope, Some target) \<Rightarrow>
          length scope \<le> length target \<and> list_all (\<lambda>(a, b). a = b) (zip scope target)
      | _ \<Rightarrow> False)"

definition scope_covers :: "host \<Rightarrow> url \<Rightarrow> url \<Rightarrow> effect \<Rightarrow> bool" where
  "scope_covers H prefx address eff =
     (if url_scheme prefx \<noteq> url_scheme address \<or> url_host prefx \<noteq> url_host address \<or>
         url_port prefx \<noteq> url_port address then False
      else covers_with_host_semantics H prefx address (host_folds_file_paths H) eff)"

section \<open>Matching and evaluation\<close>

definition rule_matches :: "host \<Rightarrow> rule \<Rightarrow> string \<Rightarrow> operation \<Rightarrow> url option \<Rightarrow> bool" where
  "rule_matches H r principal_id operation address =
     (if \<not> glob_match (rule_principal r) principal_id then False
      else if (case rule_operations r of Some ops \<Rightarrow> operation \<notin> set ops | None \<Rightarrow> False) then False
      else
        (case (rule_prefix r, address) of
           (None, _) \<Rightarrow> True
         | (Some prefx, Some addr) \<Rightarrow> scope_covers H prefx addr (rule_effect r)
         | (Some _, None) \<Rightarrow> False))"

definition prefix_segments :: "host \<Rightarrow> rule \<Rightarrow> nat" where
  "prefix_segments H r =
     (case rule_prefix r of
        None \<Rightarrow> 0
      | Some prefx \<Rightarrow> (case scope_segments H prefx of None \<Rightarrow> 0 | Some ss \<Rightarrow> length ss))"

definition rule_rank :: "host \<Rightarrow> rule \<Rightarrow> bool \<times> nat \<times> nat" where
  "rule_rank H r = (rule_prefix r \<noteq> None, prefix_segments H r, rule_order r)"

definition matching_rule ::
    "url_crate \<Rightarrow> host \<Rightarrow> policy \<Rightarrow> string \<Rightarrow> operation \<Rightarrow> url option \<Rightarrow> rule option" where
  "matching_rule C H P principal_id operation address =
     (let canonical = map_option (canonicalize C) address in
      max_by_key (rule_rank H)
        (filter (\<lambda>r. rule_matches H r principal_id operation canonical) (policy_rules P)))"

definition evaluate ::
    "url_crate \<Rightarrow> host \<Rightarrow> policy \<Rightarrow> string \<Rightarrow> operation \<Rightarrow> url option \<Rightarrow> decision" where
  "evaluate C H P principal_id operation address =
     (case matching_rule C H P principal_id operation address of
        None \<Rightarrow> deny_decision ''no matching authz policy rule''
      | Some r \<Rightarrow>
          (case rule_effect r of
             Allow \<Rightarrow> allow_with_explanation (rule_id r)
           | Deny \<Rightarrow>
               deny_with_explanation
                 (''authorization denied by policy '' @ CHR 0x27 # rule_id r @ [CHR 0x27])
                 (rule_id r)))"

definition is_allowed ::
    "url_crate \<Rightarrow> host \<Rightarrow> policy \<Rightarrow> string \<Rightarrow> operation \<Rightarrow> url option \<Rightarrow> bool" where
  "is_allowed C H P principal_id operation address =
     is_allow (evaluate C H P principal_id operation address)"

section \<open>Loading\<close>

fun parse_operation_list :: "string list \<Rightarrow> operation list result" where
  "parse_operation_list [] = Inr []"
| "parse_operation_list (name # names) =
     (case operation_from_name name of
        None \<Rightarrow> Inl Err_InvalidArgument
      | Some op \<Rightarrow>
          (case parse_operation_list names of
             Inl e \<Rightarrow> Inl e
           | Inr ops \<Rightarrow> Inr (op # ops)))"

definition parse_operations :: "string list \<Rightarrow> operation list option result" where
  "parse_operations operations =
     (if ''*'' \<in> set operations then
        (if length operations \<noteq> 1 then Inl Err_InvalidArgument else Inr None)
      else
        (case parse_operation_list operations of Inl e \<Rightarrow> Inl e | Inr ops \<Rightarrow> Inr (Some ops)))"

definition raw_prefix_path :: "string \<Rightarrow> string option" where
  "raw_prefix_path prefx =
     (case split_once (CHR '':'') prefx of
        None \<Rightarrow> None
      | Some (_, rest) \<Rightarrow>
          (case strip_prefix ''//'' rest of
             Some after_slashes \<Rightarrow>
               (let tail = snd (break_at is_authority_end after_slashes) in
                if tail \<noteq> [] \<and> hd tail = CHR ''/''
                then Some (fst (break_at is_tail_delim tail)) else None)
           | None \<Rightarrow> Some (fst (break_at is_tail_delim rest))))"

fun first_resolving :: "nat \<Rightarrow> nat \<Rightarrow> string list \<Rightarrow> string option" where
  "first_resolving index n [] = None"
| "first_resolving index n (s # ss) =
     (if s = ''.'' then Some ''.''
      else if s = ''..'' then Some ''..''
      else if s = [] \<and> 0 < index \<and> index + 1 < n then Some ''empty''
      else first_resolving (index + 1) n ss)"

definition resolving_prefix_segment :: "string \<Rightarrow> string option" where
  "resolving_prefix_segment prefx =
     (case (split_once (CHR '':'') prefx, raw_prefix_path prefx) of
        (Some (sch, _), Some p) \<Rightarrow>
          (let decoded = decode_segment p;
               folded = (if eq_ignore_ascii_case sch ''file'' then fold_backslashes decoded else decoded);
               segments = segs folded
           in first_resolving 0 (length segments) segments)
      | _ \<Rightarrow> None)"

definition prefix_backslash_refused :: "string \<Rightarrow> url \<Rightarrow> bool" where
  "prefix_backslash_refused prefx u \<longleftrightarrow>
     (scheme_folds_backslash (url_scheme u) \<and> backslash \<in> set prefx) \<or>
     (case raw_authority prefx of
        Some authority \<Rightarrow> backslash \<in> set (host_port authority)
      | None \<Rightarrow> False)"

definition prefix_boundary_refused :: "url_crate \<Rightarrow> string \<Rightarrow> bool" where
  "prefix_boundary_refused C prefx =
     (case crate_parse C prefx of
        None \<Rightarrow> False
      | Some unresolved \<Rightarrow>
          raw_prefix_path prefx = None \<and> dropWhile (\<lambda>c. c = CHR ''/'') (url_path unresolved) \<noteq> [])"

definition prefix_escape_refused :: "string \<Rightarrow> url \<Rightarrow> bool" where
  "prefix_escape_refused prefx u =
     (let escaped = (if eq_ignore_ascii_case (url_scheme u) ''file'' then [''%2f'', ''%5c''] else [''%2f'']);
          p = to_ascii_lowercase (case raw_prefix_path prefx of Some q \<Rightarrow> q | None \<Rightarrow> [])
      in list_ex (\<lambda>needle. contains_str needle p) escaped)"

definition parse_prefix :: "url_crate \<Rightarrow> string \<Rightarrow> url option result" where
  "parse_prefix C prefx =
     (if prefx = ''*'' then Inr None
      else if prefx = [] then Inl Err_InvalidArgument
      else if parser_deletes prefx then Inl Err_InvalidArgument
      else
        (case parse C prefx of
           Inl _ \<Rightarrow> Inl Err_InvalidArgument
         | Inr u \<Rightarrow>
             (if refused_config_component prefx \<noteq> None then Inl Err_InvalidArgument
              else if prefix_backslash_refused prefx u then Inl Err_InvalidArgument
              else if prefix_boundary_refused C prefx then Inl Err_InvalidArgument
              else if resolving_prefix_segment prefx \<noteq> None then Inl Err_InvalidArgument
              else if prefix_escape_refused prefx u then Inl Err_InvalidArgument
              else Inr (Some u))))"

fun contains_percent_escape :: "string \<Rightarrow> bool" where
  "contains_percent_escape [] = False"
| "contains_percent_escape (b # bs) =
     ((b = CHR ''%'' \<and>
       (case bs of x # y # _ \<Rightarrow> hex_digit x \<noteq> None \<and> hex_digit y \<noteq> None | _ \<Rightarrow> False)) \<or>
      contains_percent_escape bs)"

definition reject_unacknowledged_escaped_prefixes ::
    "url_crate \<Rightarrow> (string \<times> string) list \<Rightarrow> bool \<Rightarrow> unit result" where
  "reject_unacknowledged_escaped_prefixes C rules acknowledged =
     (if acknowledged then Inr ()
      else
        (let affected =
               filter (\<lambda>(_, prefx). case crate_parse C prefx of
                          None \<Rightarrow> False
                        | Some plain \<Rightarrow> contains_percent_escape (url_path plain)) rules
         in if affected = [] then Inr () else Inl Err_InvalidArgument))"

definition operations_intersect :: "operation list option \<Rightarrow> operation list option \<Rightarrow> bool" where
  "operations_intersect a b =
     (case (a, b) of
        (Some as, Some bs) \<Rightarrow> list_ex (\<lambda>op. op \<in> set bs) as
      | _ \<Rightarrow> True)"

definition co_matching_equal_scopes :: "host \<Rightarrow> bool \<Rightarrow> rule \<Rightarrow> rule \<Rightarrow> bool" where
  "co_matching_equal_scopes H fld r other =
     (case (rule_prefix r, rule_prefix other) of
        (Some prefx, Some other_prefix) \<Rightarrow>
          (let same_spelling =
                 (case (rule_prefix_written r, rule_prefix_written other) of
                    (Some written, Some other_written) \<Rightarrow> written = other_written
                  | _ \<Rightarrow> False)
           in if same_spelling then False
              else if \<not> principals_intersect (rule_principal r) (rule_principal other) \<or>
                      \<not> operations_intersect (rule_operations r) (rule_operations other) then False
              else
                (let widen = (rule_effect r = Deny \<or> rule_effect other = Deny) in
                 case (segments_with_host_semantics_widened H prefx fld widen,
                       segments_with_host_semantics_widened H other_prefix fld widen) of
                   (Some scope, Some other_scope) \<Rightarrow>
                     \<not> (scope \<noteq> other_scope \<or> url_scheme prefx \<noteq> url_scheme other_prefix \<or>
                        url_host prefx \<noteq> url_host other_prefix \<or> url_port prefx \<noteq> url_port other_prefix)
                 | _ \<Rightarrow> False))
      | _ \<Rightarrow> False)"

fun reject_co_matching_equal_scopes :: "host \<Rightarrow> bool \<Rightarrow> rule list \<Rightarrow> unit result" where
  "reject_co_matching_equal_scopes H fld [] = Inr ()"
| "reject_co_matching_equal_scopes H fld (r # rs) =
     (if list_ex (co_matching_equal_scopes H fld r) rs then Inl Err_InvalidArgument
      else reject_co_matching_equal_scopes H fld rs)"

definition rule_id_or_default :: "nat \<Rightarrow> toml_policy_rule \<Rightarrow> string" where
  "rule_id_or_default index r =
     (case toml_id r of Some i \<Rightarrow> i | None \<Rightarrow> ''rule-'' @ digits (index + 1))"

definition load_rule :: "url_crate \<Rightarrow> nat \<Rightarrow> toml_policy_rule \<Rightarrow> rule result" where
  "load_rule C index p =
     (let i = rule_id_or_default index p in
      if is_blank i then Inl Err_InvalidArgument
      else if toml_principal p = [] then Inl Err_InvalidArgument
      else if toml_operations p = [] then Inl Err_InvalidArgument
      else
        (case parse_operations (toml_operations p) of
           Inl e \<Rightarrow> Inl e
         | Inr operations \<Rightarrow>
             (case parse_prefix C (toml_prefix p) of
                Inl e \<Rightarrow> Inl e
              | Inr prefx \<Rightarrow>
                  (if toml_effect p = Allow \<and>
                      (case prefx of
                         Some u \<Rightarrow> url_username u \<noteq> [] \<or> url_password u \<noteq> None
                       | None \<Rightarrow> False)
                   then Inl Err_InvalidArgument
                   else Inr
                     \<lparr>rule_id = i, rule_effect = toml_effect p, rule_principal = toml_principal p,
                      rule_operations = operations, rule_prefix = prefx,
                      rule_prefix_written = (if prefx \<noteq> None then Some (toml_prefix p) else None),
                      rule_order = index\<rparr>))))"

fun load_rules :: "url_crate \<Rightarrow> nat \<Rightarrow> toml_policy_rule list \<Rightarrow> rule list result" where
  "load_rules C index [] = Inr []"
| "load_rules C index (p # ps) =
     (case load_rule C index p of
        Inl e \<Rightarrow> Inl e
      | Inr r \<Rightarrow>
          (case load_rules C (index + 1) ps of Inl e \<Rightarrow> Inl e | Inr rs \<Rightarrow> Inr (r # rs)))"

fun escape_gate :: "nat \<Rightarrow> toml_policy_rule list \<Rightarrow> (string \<times> string) list" where
  "escape_gate index [] = []"
| "escape_gate index (p # ps) = (rule_id_or_default index p, toml_prefix p) # escape_gate (index + 1) ps"

definition from_config :: "url_crate \<Rightarrow> host \<Rightarrow> toml_policy_config \<Rightarrow> policy result" where
  "from_config C H config =
     (if toml_plugin config \<noteq> AUTHZ_POLICY_KIND_TOML then Inl Err_Unsupported
      else
        (case load_rules C 0 (toml_policy config) of
           Inl e \<Rightarrow> Inl e
         | Inr rules \<Rightarrow>
             (case reject_unacknowledged_escaped_prefixes C (escape_gate 0 (toml_policy config))
                     (toml_prefix_escapes_are_decoded config) of
                Inl e \<Rightarrow> Inl e
              | Inr _ \<Rightarrow>
                  (case reject_co_matching_equal_scopes H (host_folds_file_paths H) rules of
                     Inl e \<Rightarrow> Inl e
                   | Inr _ \<Rightarrow>
                       Inr \<lparr>policy_rules = rules,
                            policy_decision_ttl = toml_decision_ttl_max_seconds config\<rparr>))))"

definition from_toml ::
    "url_crate \<Rightarrow> host \<Rightarrow> (string \<Rightarrow> toml_policy_config option) \<Rightarrow> string \<Rightarrow> policy result" where
  "from_toml C H toml_from_str toml_str =
     (case toml_from_str toml_str of
        None \<Rightarrow> Inl Err_InvalidArgument
      | Some config \<Rightarrow> from_config C H config)"

end
