(* ===== verification/Ov_Authn.thy ===== *)
theory Ov_Authn
  imports Ov_Credential Ov_Policy
begin

unbundle bit_operations_syntax

text \<open>
  Authentication in the built-in auth layer (\<open>ovstorage-authz-layer/src/lib.rs\<close> and
  \<open>authn/peer.rs\<close>): from a decoded credential to a principal, by the peer of a local socket,
  a bearer token, trusted forwarded headers or a client certificate, and the CIDR allowlist of
  trusted proxies at its machine widths.

  The token verifiers, SHA-256, the address parsers of the standard library and the process
  environment are the fields of \<open>authn_env\<close>.
\<close>

section \<open>Principals\<close>

record resolved_principal =
  prin_id :: string
  prin_display_name :: "string option"
  prin_attributes :: "string \<rightharpoonup> string"

definition anonymous_principal :: resolved_principal where
  "anonymous_principal =
     \<lparr>prin_id = ANONYMOUS_PRINCIPAL_ID, prin_display_name = None, prin_attributes = Map.empty\<rparr>"

section \<open>CIDR constraints\<close>

datatype ip_addr = V4 "32 word" | V6 "128 word"

record cidr_constraint =
  cidr_base :: ip_addr
  cidr_prefix_len :: nat

definition parse_u8 :: "string \<Rightarrow> nat option" where
  "parse_u8 s = parse_unsigned 255 s"

definition is_ipv4 :: "ip_addr \<Rightarrow> bool" where
  "is_ipv4 a = (case a of V4 _ \<Rightarrow> True | V6 _ \<Rightarrow> False)"

definition cidr_parse :: "(string \<Rightarrow> ip_addr option) \<Rightarrow> string \<Rightarrow> cidr_constraint result" where
  "cidr_parse parse_ip v =
     (case split_once (CHR ''/'') v of
        None \<Rightarrow> Inl Err_InvalidArgument
      | Some (address, prefx) \<Rightarrow>
          (case parse_ip address of
             None \<Rightarrow> Inl Err_InvalidArgument
           | Some base \<Rightarrow>
               (case parse_u8 prefx of
                  None \<Rightarrow> Inl Err_InvalidArgument
                | Some prefix_len \<Rightarrow>
                    (let m = (if is_ipv4 base then 32 else 128) in
                     if m < prefix_len then Inl Err_InvalidArgument
                     else Inr \<lparr>cidr_base = base, cidr_prefix_len = prefix_len\<rparr>))))"

text \<open>\<open>MAX.checked_shl(shift).unwrap_or(0)\<close>: a shift by the full width gives no mask.\<close>

definition shl_mask :: "nat \<Rightarrow> 'a::len word" where
  "shl_mask shift = (if shift < LENGTH('a) then push_bit shift (- 1) else 0)"

definition to_ipv4_mapped :: "128 word \<Rightarrow> 32 word option" where
  "to_ipv4_mapped w = (if drop_bit 32 w = 0xffff then Some (ucast w) else None)"

definition v4_contains :: "32 word \<Rightarrow> nat \<Rightarrow> 32 word \<Rightarrow> bool" where
  "v4_contains base prefix_len peer \<longleftrightarrow>
     (let mask = shl_mask (32 - prefix_len) in base AND mask = peer AND mask)"

definition cidr_contains :: "cidr_constraint \<Rightarrow> ip_addr \<Rightarrow> bool" where
  "cidr_contains c peer =
     (case (cidr_base c, peer) of
        (V4 base, V4 p) \<Rightarrow> v4_contains base (cidr_prefix_len c) p
      | (V6 base, V6 p) \<Rightarrow>
          (let mask = shl_mask (128 - cidr_prefix_len c) in base AND mask = p AND mask)
      | (V4 base, V6 p) \<Rightarrow>
          (case to_ipv4_mapped p of
             Some q \<Rightarrow> v4_contains base (cidr_prefix_len c) q
           | None \<Rightarrow> False)
      | _ \<Rightarrow> False)"

section \<open>Resolving a principal\<close>

record forwarded_header_config =
  fwd_identity_header :: string
  fwd_claim_headers :: "(string \<times> string) list"

datatype ('j, 'c) tcp_authn_mode =
    Authn_Anonymous
  | Authn_JwtVerify 'j
  | Authn_TrustedUnsignedJwt "cidr_constraint list" 'c
  | Authn_TrustedForwardedHeaders "cidr_constraint list" forwarded_header_config
  | Authn_Mtls

record peer_config =
  peer_dev_current_user :: bool

record ('j, 'c) builtin_authn =
  authn_tcp :: "('j, 'c) tcp_authn_mode"
  authn_peer :: peer_config

record ('j, 'c) authn_env =
  env_resolve_jwt :: "string \<Rightarrow> 'j \<Rightarrow> resolved_principal result"
  env_resolve_unsigned_jwt :: "string \<Rightarrow> 'c \<Rightarrow> resolved_principal result"
  env_sha256 :: "string \<Rightarrow> string"
  env_parse_socket_ip :: "string \<Rightarrow> ip_addr option"
  env_current_principal :: string

definition signed_digits :: "32 word \<Rightarrow> string" where
  "signed_digits w = (let i = sint w in if i < 0 then CHR ''-'' # digits (nat (- i)) else digits (nat i))"

definition uds_principal :: "u32 \<Rightarrow> u32 \<Rightarrow> u32 \<Rightarrow> resolved_principal" where
  "uds_principal uid gid pid =
     \<lparr>prin_id = ''uid:'' @ digits (unat uid), prin_display_name = None,
      prin_attributes = [''uid'' \<mapsto> digits (unat uid), ''gid'' \<mapsto> digits (unat gid),
                         ''pid'' \<mapsto> signed_digits pid]\<rparr>"

definition named_pipe_principal :: "string \<Rightarrow> u32 \<Rightarrow> resolved_principal result" where
  "named_pipe_principal sid pid =
     (if is_blank sid then Inr anonymous_principal
      else Inr \<lparr>prin_id = ''sid:'' @ sid, prin_display_name = None,
                prin_attributes = [''sid'' \<mapsto> sid, ''pid'' \<mapsto> digits (unat pid)]\<rparr>)"

definition resolve_peer ::
    "('j, 'c) authn_env \<Rightarrow> transport \<Rightarrow> peer_config \<Rightarrow> resolved_principal result" where
  "resolve_peer E t cfg =
     (if peer_dev_current_user cfg then
        Inr \<lparr>prin_id = env_current_principal E, prin_display_name = None, prin_attributes = Map.empty\<rparr>
      else
        (case t of
           Uds uid gid pid \<Rightarrow>
             (if uid = - 1 then Inr anonymous_principal else Inr (uds_principal uid gid pid))
         | NamedPipe sid pid \<Rightarrow> named_pipe_principal sid pid
         | Tcp _ _ \<Rightarrow> Inr anonymous_principal))"

definition is_ascii_whitespace :: "char \<Rightarrow> bool" where
  "is_ascii_whitespace c \<longleftrightarrow> byte c \<in> {9, 10, 12, 13, 32}"

definition bearer_is_blank :: "string \<Rightarrow> bool" where
  "bearer_is_blank bearer = list_all is_ascii_whitespace bearer"

definition required_bearer :: "auth_credential \<Rightarrow> string result" where
  "required_bearer c =
     (case cred_bearer c of
        Some b \<Rightarrow> (if bearer_is_blank b then Inl Err_AuthRequired else Inr b)
      | None \<Rightarrow> Inl Err_AuthRequired)"

definition enforce_trusted_peer ::
    "('j, 'c) authn_env \<Rightarrow> string \<Rightarrow> cidr_constraint list \<Rightarrow> unit result" where
  "enforce_trusted_peer E peer_addr trusted_peers =
     (case env_parse_socket_ip E peer_addr of
        None \<Rightarrow> Inl Err_AuthRequired
      | Some ip \<Rightarrow>
          (if list_ex (\<lambda>c. cidr_contains c ip) trusted_peers then Inr () else Inl Err_AuthRequired))"

definition required_value :: "forwarded_headers \<Rightarrow> string \<Rightarrow> string option result" where
  "required_value f header =
     (case map snd (filter (\<lambda>(name, _). name = header) (fwd_values f)) of
        [] \<Rightarrow> Inr None
      | [v] \<Rightarrow> Inr (Some v)
      | _ \<Rightarrow> Inl Err_AuthRequired)"

text \<open>The keys of \<open>claim_headers\<close> are those of a map, so the order of the entries is immaterial.\<close>

fun claim_attributes ::
    "forwarded_headers \<Rightarrow> (string \<times> string) list \<Rightarrow> (string \<rightharpoonup> string) result" where
  "claim_attributes f [] = Inr Map.empty"
| "claim_attributes f ((claim, header) # cs) =
     (case required_value f header of
        Inl e \<Rightarrow> Inl e
      | Inr v \<Rightarrow>
          (case claim_attributes f cs of
             Inl e \<Rightarrow> Inl e
           | Inr attrs \<Rightarrow>
               Inr (case v of Some x \<Rightarrow> attrs(claim \<mapsto> x) | None \<Rightarrow> attrs)))"

definition resolve_forwarded_headers ::
    "forwarded_headers option \<Rightarrow> forwarded_header_config \<Rightarrow> resolved_principal result" where
  "resolve_forwarded_headers forwarded config =
     (case forwarded of
        None \<Rightarrow> Inl Err_AuthRequired
      | Some f \<Rightarrow>
          (case required_value f (fwd_identity_header config) of
             Inl e \<Rightarrow> Inl e
           | Inr None \<Rightarrow> Inl Err_AuthRequired
           | Inr (Some v) \<Rightarrow>
               (let i = str_trim v in
                if i = [] then Inl Err_AuthRequired
                else
                  (case claim_attributes f (fwd_claim_headers config) of
                     Inl e \<Rightarrow> Inl e
                   | Inr attrs \<Rightarrow>
                       Inr \<lparr>prin_id = i, prin_display_name = None, prin_attributes = attrs\<rparr>))))"

definition hex_lower :: "nat \<Rightarrow> char" where
  "hex_lower n = (if n < 10 then char_of (48 + n) else char_of (87 + n))"

definition hex_string :: "string \<Rightarrow> string" where
  "hex_string bs = concat (map (\<lambda>b. [hex_lower (byte b div 16), hex_lower (byte b mod 16)]) bs)"

definition resolve_mtls :: "('j, 'c) authn_env \<Rightarrow> string option \<Rightarrow> resolved_principal result" where
  "resolve_mtls E cert =
     (case cert of
        None \<Rightarrow> Inl Err_AuthRequired
      | Some c \<Rightarrow>
          (if c = [] then Inl Err_AuthRequired
           else Inr \<lparr>prin_id = ''mtls:sha256:'' @ hex_string (env_sha256 E c),
                     prin_display_name = None, prin_attributes = Map.empty\<rparr>))"

definition authn_resolve ::
    "('j, 'c) authn_env \<Rightarrow> ('j, 'c) builtin_authn \<Rightarrow> auth_credential option \<Rightarrow> resolved_principal result" where
  "authn_resolve E A credential =
     (case credential of
        None \<Rightarrow> Inr anonymous_principal
      | Some c \<Rightarrow>
          (case cred_transport c of
             Uds _ _ _ \<Rightarrow> resolve_peer E (cred_transport c) (authn_peer A)
           | NamedPipe _ _ \<Rightarrow> resolve_peer E (cred_transport c) (authn_peer A)
           | Tcp peer_addr tls_client_cert \<Rightarrow>
               (case authn_tcp A of
                  Authn_Anonymous \<Rightarrow> Inr anonymous_principal
                | Authn_JwtVerify cfg \<Rightarrow>
                    (case required_bearer c of
                       Inl e \<Rightarrow> Inl e | Inr b \<Rightarrow> env_resolve_jwt E b cfg)
                | Authn_TrustedUnsignedJwt trusted_peers claims \<Rightarrow>
                    (case enforce_trusted_peer E peer_addr trusted_peers of
                       Inl e \<Rightarrow> Inl e
                     | Inr _ \<Rightarrow>
                         (case required_bearer c of
                            Inl e \<Rightarrow> Inl e | Inr b \<Rightarrow> env_resolve_unsigned_jwt E b claims))
                | Authn_TrustedForwardedHeaders trusted_peers headers \<Rightarrow>
                    (case enforce_trusted_peer E peer_addr trusted_peers of
                       Inl e \<Rightarrow> Inl e
                     | Inr _ \<Rightarrow> resolve_forwarded_headers (cred_forwarded c) headers)
                | Authn_Mtls \<Rightarrow> resolve_mtls E tls_client_cert)))"

section \<open>What a CIDR constraint admits\<close>

lemma and_shl_mask:
  fixes a b :: "'a::len word"
  shows "a AND shl_mask s = b AND shl_mask s \<longleftrightarrow> drop_bit s a = drop_bit s b"
proof -
  have bits: "bit (x AND shl_mask s) n \<longleftrightarrow> bit x n \<and> s \<le> n" for x :: "'a word" and n
    by (auto simp: shl_mask_def bit_simps dest: bit_imp_le_length)
  have "a AND shl_mask s = b AND shl_mask s \<longleftrightarrow> (\<forall>n \<ge> s. bit a n = bit b n)"
    unfolding bit_eq_iff bits by (auto dest: bit_imp_le_length)
  also have "\<dots> \<longleftrightarrow> (\<forall>n. bit (drop_bit s a) n = bit (drop_bit s b) n)"
    unfolding bit_drop_bit_eq comp_def by (metis le_add1 le_add_diff_inverse)
  also have "\<dots> \<longleftrightarrow> drop_bit s a = drop_bit s b"
    by (auto intro: bit_eqI)
  finally show ?thesis .
qed

definition wf_cidr :: "cidr_constraint \<Rightarrow> bool" where
  "wf_cidr c \<longleftrightarrow> cidr_prefix_len c \<le> (if is_ipv4 (cidr_base c) then 32 else 128)"

lemma cidr_parse_wf: "cidr_parse parse_ip v = Inr c \<Longrightarrow> wf_cidr c"
  by (auto simp: cidr_parse_def wf_cidr_def Let_def split: option.splits if_splits)

text \<open>The leading bits of an address, the length of the constraint.\<close>

definition network :: "nat \<Rightarrow> ip_addr \<Rightarrow> ip_addr" where
  "network n a = (case a of V4 w \<Rightarrow> V4 (drop_bit (32 - n) w) | V6 w \<Rightarrow> V6 (drop_bit (128 - n) w))"

definition unmapped :: "ip_addr \<Rightarrow> ip_addr" where
  "unmapped a = (case a of V4 w \<Rightarrow> V4 w
     | V6 w \<Rightarrow> (case to_ipv4_mapped w of Some v \<Rightarrow> V4 v | None \<Rightarrow> V6 w))"

lemma cidr_contains_iff:
  "cidr_contains c peer \<longleftrightarrow>
     network (cidr_prefix_len c) (cidr_base c) =
     network (cidr_prefix_len c) (if is_ipv4 (cidr_base c) then unmapped peer else peer)"
  by (cases "cidr_base c"; cases peer)
    (auto simp: cidr_contains_def v4_contains_def network_def unmapped_def is_ipv4_def Let_def
      and_shl_mask split: option.splits)

section \<open>Properties\<close>

text \<open>The values a header carries, in wire order, and the peers a list of constraints admits.\<close>

definition header_values :: "forwarded_headers \<Rightarrow> string \<Rightarrow> string list" where
  "header_values f h = map snd (filter (\<lambda>(name, _). name = h) (fwd_values f))"

definition admitted :: "('j, 'c) authn_env \<Rightarrow> string \<Rightarrow> cidr_constraint list \<Rightarrow> bool" where
  "admitted E addr peers \<longleftrightarrow>
     (\<exists>ip c. env_parse_socket_ip E addr = Some ip \<and> c \<in> set peers \<and>
        network (cidr_prefix_len c) (cidr_base c) =
        network (cidr_prefix_len c) (if is_ipv4 (cidr_base c) then unmapped ip else ip))"

lemma enforce_trusted_peer_iff:
  "enforce_trusted_peer E addr peers = (if admitted E addr peers then Inr () else Inl Err_AuthRequired)"
  by (auto simp: enforce_trusted_peer_def admitted_def list_ex_iff cidr_contains_iff split: option.splits)

definition single_value :: "forwarded_headers \<Rightarrow> string \<Rightarrow> string option" where
  "single_value f h = (case header_values f h of [v] \<Rightarrow> Some v | _ \<Rightarrow> None)"

definition claims_of :: "forwarded_headers \<Rightarrow> (string \<times> string) list \<Rightarrow> string \<rightharpoonup> string" where
  "claims_of f cs = (\<lambda>k. Option.bind (map_of cs k) (single_value f))"

lemma required_value_eq:
  "required_value f h =
     (if length (header_values f h) \<le> 1 then Inr (single_value f h) else Inl Err_AuthRequired)"
  by (auto simp: required_value_def header_values_def single_value_def split: list.splits)

lemma claims_of_Cons:
  "claim \<notin> fst ` set cs \<Longrightarrow>
     claims_of f ((claim, header) # cs) =
       (case single_value f header of Some x \<Rightarrow> (claims_of f cs)(claim \<mapsto> x) | None \<Rightarrow> claims_of f cs)"
proof
  fix k assume "claim \<notin> fst ` set cs"
  then have "map_of cs claim = None" by (simp add: map_of_eq_None_iff)
  then show "claims_of f ((claim, header) # cs) k =
      (case single_value f header of Some x \<Rightarrow> (claims_of f cs)(claim \<mapsto> x) | None \<Rightarrow> claims_of f cs) k"
    by (auto simp: claims_of_def split: option.splits)
qed

lemma claim_attributes_eq:
  "distinct (map fst cs) \<Longrightarrow>
   claim_attributes f cs =
     (if list_all (\<lambda>(_, h). length (header_values f h) \<le> 1) cs then Inr (claims_of f cs)
      else Inl Err_AuthRequired)"
proof (induction f cs rule: claim_attributes.induct)
  case (2 f claim header cs)
  then show ?case
    by (auto simp: required_value_eq claims_of_Cons split: option.splits)
qed (auto simp: claims_of_def)

text \<open>The modes that trust an upstream proxy (unsigned bearer tokens, forwarded identity
  headers) believe what the credential carries only when the transport peer's address has the
  leading bits of one of the configured networks, an IPv4-mapped IPv6 peer being compared as the
  IPv4 address it carries; for every other peer the outcome is \<open>AuthRequired\<close>, whatever the
  credential says.\<close>

theorem trusted_proxy_gate:
  assumes "cred_transport c = Tcp addr cert"
    and "authn_tcp A = Authn_TrustedForwardedHeaders peers headers \<or>
         authn_tcp A = Authn_TrustedUnsignedJwt peers claims"
  shows "authn_resolve E A (Some c) =
           (if \<not> admitted E addr peers then Inl Err_AuthRequired
            else if authn_tcp A = Authn_TrustedForwardedHeaders peers headers
            then resolve_forwarded_headers (cred_forwarded c) headers
            else (case required_bearer c of
                    Inl e \<Rightarrow> Inl e | Inr b \<Rightarrow> env_resolve_unsigned_jwt E b claims))"
  using assms by (auto simp: authn_resolve_def enforce_trusted_peer_iff)

text \<open>A principal is resolved from forwarded headers exactly when the identity header occurs
  once and is not blank, and no header of a claim occurs twice; the principal is then the trimmed
  identity, and its attributes are exactly the configured claims whose header is present.\<close>

theorem forwarded_identity_exact:
  assumes "distinct (map fst (fwd_claim_headers cfg))"
  shows "resolve_forwarded_headers (Some f) cfg = Inr p \<longleftrightarrow>
           (\<exists>v. header_values f (fwd_identity_header cfg) = [v] \<and> str_trim v \<noteq> [] \<and>
              list_all (\<lambda>(_, h). length (header_values f h) \<le> 1) (fwd_claim_headers cfg) \<and>
              p = \<lparr>prin_id = str_trim v, prin_display_name = None,
                   prin_attributes = claims_of f (fwd_claim_headers cfg)\<rparr>)"
  by (auto simp: resolve_forwarded_headers_def required_value_eq claim_attributes_eq[OF assms]
      single_value_def Let_def split: list.splits option.splits if_splits)

definition sample_env :: "(unit, unit) authn_env" where
  "sample_env =
     \<lparr>env_resolve_jwt = (\<lambda>_ _. Inl Err_AuthRequired),
      env_resolve_unsigned_jwt = (\<lambda>_ _. Inl Err_AuthRequired),
      env_sha256 = (\<lambda>s. s),
      env_parse_socket_ip = (\<lambda>s. if s = ''[::ffff:10.0.0.7]:80'' then Some (V6 0xffff0a000007) else None),
      env_current_principal = ''me''\<rparr>"

definition sample_authn :: "(unit, unit) builtin_authn" where
  "sample_authn =
     \<lparr>authn_tcp = Authn_TrustedForwardedHeaders [\<lparr>cidr_base = V4 0x0a000000, cidr_prefix_len = 8\<rparr>]
        \<lparr>fwd_identity_header = ''x-user'', fwd_claim_headers = [(''group'', ''x-group'')]\<rparr>,
      authn_peer = \<lparr>peer_dev_current_user = False\<rparr>\<rparr>"

definition sample_forwarded :: auth_credential where
  "sample_forwarded =
     \<lparr>cred_bearer = None, cred_transport = Tcp ''[::ffff:10.0.0.7]:80'' None,
      cred_forwarded = Some \<lparr>fwd_values = [(''x-user'', '' alice ''), (''x-group'', ''art'')]\<rparr>\<rparr>"

theorem trusted_proxy_gate_witness:
  "authn_resolve sample_env sample_authn (Some sample_forwarded) =
     Inr \<lparr>prin_id = ''alice'', prin_display_name = None, prin_attributes = [''group'' \<mapsto> ''art'']\<rparr>"
proof -
  have "admitted sample_env ''[::ffff:10.0.0.7]:80'' [\<lparr>cidr_base = V4 0x0a000000, cidr_prefix_len = 8\<rparr>]"
    by (simp add: admitted_def sample_env_def network_def unmapped_def to_ipv4_mapped_def is_ipv4_def)
  moreover have "str_trim '' alice '' = ''alice''" by code_simp
  then have "resolve_forwarded_headers (cred_forwarded sample_forwarded)
      \<lparr>fwd_identity_header = ''x-user'', fwd_claim_headers = [(''group'', ''x-group'')]\<rparr> =
      Inr \<lparr>prin_id = ''alice'', prin_display_name = None, prin_attributes = [''group'' \<mapsto> ''art'']\<rparr>"
    by (simp add: resolve_forwarded_headers_def sample_forwarded_def required_value_def)
  ultimately show ?thesis
    using trusted_proxy_gate[of sample_forwarded "''[::ffff:10.0.0.7]:80''" None sample_authn
        "[\<lparr>cidr_base = V4 0x0a000000, cidr_prefix_len = 8\<rparr>]"
        "\<lparr>fwd_identity_header = ''x-user'', fwd_claim_headers = [(''group'', ''x-group'')]\<rparr>" "()" sample_env]
    by (simp add: sample_forwarded_def sample_authn_def)
qed

theorem forwarded_identity_exact_witness:
  "resolve_forwarded_headers (Some \<lparr>fwd_values = [(''x-user'', ''a''), (''x-user'', ''b'')]\<rparr>)
     \<lparr>fwd_identity_header = ''x-user'', fwd_claim_headers = [(''group'', ''x-group'')]\<rparr> \<noteq>
     Inr anonymous_principal"
  using forwarded_identity_exact[of
      "\<lparr>fwd_identity_header = ''x-user'', fwd_claim_headers = [(''group'', ''x-group'')]\<rparr>"
      "\<lparr>fwd_values = [(''x-user'', ''a''), (''x-user'', ''b'')]\<rparr>" anonymous_principal]
  by (simp add: header_values_def)

end
