(* ===== verification/Ov_Ext.thy ===== *)
theory Ov_Ext
  imports Ov_Credential Ov_Errors
begin

text \<open>
  The request extensions (\<open>ovstorage-layer/src/ext.rs\<close>): the bag of named byte strings that
  travels with a request, the keys the auth layer reads and stamps, the upstream-auth address and
  the reference to a resolved OAuth credential with its wire format. \<open>usize\<close> is 64 bits wide, so
  the checked additions of the decoder never overflow on two 32-bit lengths.
\<close>

type_synonym extensions = "string \<rightharpoonup> string"

definition PRINCIPAL_ID :: string where "PRINCIPAL_ID = ''org.omniverse.ovstorage/principal@1''"
definition PRINCIPAL_DISPLAY_NAME :: string where
  "PRINCIPAL_DISPLAY_NAME = ''org.omniverse.ovstorage/principal-display-name@1''"
definition AUTH_CREDENTIAL :: string where
  "AUTH_CREDENTIAL = ''org.omniverse.ovstorage/auth-credential@1''"
definition UPSTREAM_AUTH_ADDRESS :: string where
  "UPSTREAM_AUTH_ADDRESS = ''org.omniverse.ovstorage/upstream-auth-address@1''"
definition RESOLVED_OAUTH_CREDENTIAL :: string where
  "RESOLVED_OAUTH_CREDENTIAL = ''org.omniverse.ovstorage/resolved-oauth-credential@1''"

definition insert_upstream_auth_address :: "url_crate \<Rightarrow> extensions \<Rightarrow> url \<Rightarrow> extensions" where
  "insert_upstream_auth_address C ext addr = ext(UPSTREAM_AUTH_ADDRESS \<mapsto> crate_as_str C addr)"

definition upstream_auth_address :: "url_crate \<Rightarrow> extensions \<Rightarrow> url option result" where
  "upstream_auth_address C ext =
     (case ext UPSTREAM_AUTH_ADDRESS of
        None \<Rightarrow> Inr None
      | Some raw \<Rightarrow>
          if \<not> utf8_valid raw then Inl Err_InvalidArgument
          else (case crate_parse C raw of Some u \<Rightarrow> Inr (Some u) | None \<Rightarrow> Inl Err_InvalidArgument))"

section \<open>The reference to a resolved OAuth credential\<close>

record oauth_ref =
  oauth_backend_kind :: string
  oauth_keyring_handle :: string

definition RESOLVED_OAUTH_CREDENTIAL_VERSION :: nat where "RESOLVED_OAUTH_CREDENTIAL_VERSION = 1"

definition to_be_bytes :: "u32 \<Rightarrow> string" where "to_be_bytes w = rev (to_le_bytes w)"
definition from_be_bytes :: "string \<Rightarrow> u32" where "from_be_bytes b = from_le_bytes (rev b)"

definition insert_resolved_oauth_credential :: "extensions \<Rightarrow> oauth_ref \<Rightarrow> extensions result" where
  "insert_resolved_oauth_credential ext c =
     (if oauth_backend_kind c = [] \<or> oauth_keyring_handle c = [] then Inl Err_InvalidArgument
      else if \<not> length (oauth_backend_kind c) < 2 ^ 32 then Inl Err_InvalidArgument
      else if \<not> length (oauth_keyring_handle c) < 2 ^ 32 then Inl Err_InvalidArgument
      else
        Inr (ext(RESOLVED_OAUTH_CREDENTIAL \<mapsto>
               char_of RESOLVED_OAUTH_CREDENTIAL_VERSION #
               to_be_bytes (word_of_nat (length (oauth_backend_kind c))) @
               to_be_bytes (word_of_nat (length (oauth_keyring_handle c))) @
               oauth_backend_kind c @ oauth_keyring_handle c)))"

definition take_resolved_oauth_credential :: "extensions \<Rightarrow> oauth_ref option result \<times> extensions" where
  "take_resolved_oauth_credential ext =
     (case ext RESOLVED_OAUTH_CREDENTIAL of
        None \<Rightarrow> (Inr None, ext)
      | Some encoded \<Rightarrow>
          (let ext' = ext(RESOLVED_OAUTH_CREDENTIAL := None) in
           if length encoded < 9 \<or> byte (encoded ! 0) \<noteq> RESOLVED_OAUTH_CREDENTIAL_VERSION
           then (Inl Err_InvalidArgument, ext')
           else
             (let backend_len = unat (from_be_bytes (take 4 (drop 1 encoded)));
                  handle_len = unat (from_be_bytes (take 4 (drop 5 encoded)))
              in
              if length encoded \<noteq> 9 + backend_len + handle_len \<or> backend_len = 0 \<or> handle_len = 0
              then (Inl Err_InvalidArgument, ext')
              else
                (let backend_kind = take backend_len (drop 9 encoded);
                     keyring_handle = drop (9 + backend_len) encoded
                 in
                 if \<not> utf8_valid backend_kind then (Inl Err_InvalidArgument, ext')
                 else if \<not> utf8_valid keyring_handle then (Inl Err_InvalidArgument, ext')
                 else (Inr (Some \<lparr>oauth_backend_kind = backend_kind,
                                 oauth_keyring_handle = keyring_handle\<rparr>), ext')))))"

lemma from_to_be_bytes: "from_be_bytes (to_be_bytes w) = w"
  by (simp add: from_be_bytes_def to_be_bytes_def from_to_le_bytes)

lemma length_to_be_bytes [simp]: "length (to_be_bytes w) = 4"
  by (simp add: to_be_bytes_def)

definition wf_oauth_ref :: "oauth_ref \<Rightarrow> bool" where
  "wf_oauth_ref c \<longleftrightarrow>
     oauth_backend_kind c \<noteq> [] \<and> oauth_keyring_handle c \<noteq> [] \<and>
     length (oauth_backend_kind c) < 2 ^ 32 \<and> length (oauth_keyring_handle c) < 2 ^ 32 \<and>
     utf8_valid (oauth_backend_kind c) \<and> utf8_valid (oauth_keyring_handle c)"

lemma take_oauth_wire:
  assumes "wf_oauth_ref c" and e: "ext RESOLVED_OAUTH_CREDENTIAL = Some
     (char_of RESOLVED_OAUTH_CREDENTIAL_VERSION #
      to_be_bytes (word_of_nat (length (oauth_backend_kind c))) @
      to_be_bytes (word_of_nat (length (oauth_keyring_handle c))) @
      oauth_backend_kind c @ oauth_keyring_handle c)"
  shows "take_resolved_oauth_credential ext = (Inr (Some c), ext(RESOLVED_OAUTH_CREDENTIAL := None))"
proof -
  let ?b = "to_be_bytes (word_of_nat (length (oauth_backend_kind c)))"
    and ?h = "to_be_bytes (word_of_nat (length (oauth_keyring_handle c)))"
  have n: "unat (word_of_nat (length (oauth_backend_kind c)) :: u32) = length (oauth_backend_kind c)"
    "unat (word_of_nat (length (oauth_keyring_handle c)) :: u32) = length (oauth_keyring_handle c)"
    using assms(1) by (auto simp: wf_oauth_ref_def intro!: unat_word_of_nat)
  have d: "drop 5 (v # ?b @ r) = r" "take 4 (drop 1 (v # ?b @ r)) = ?b" for v r by simp_all
  have d9: "drop 9 (v # ?b @ ?h @ r) = r" "take 4 (?h @ r) = ?h" for v r by simp_all
  have dk: "drop (9 + k) xs = drop k (drop 9 xs)" for k and xs :: string
    by (simp add: add.commute)
  show ?thesis
    unfolding take_resolved_oauth_credential_def e option.case Let_def d dk d9 from_to_be_bytes n
    using assms(1) by (simp add: wf_oauth_ref_def RESOLVED_OAUTH_CREDENTIAL_VERSION_def)
qed

text \<open>A reference to a resolved OAuth credential survives the extension bag: what was inserted
  is what is taken, once, the entry is gone afterwards and no other extension is touched. A
  reference with an empty or oversized field is refused on insertion.\<close>

theorem oauth_reference_roundtrip:
  assumes "utf8_valid (oauth_backend_kind c)" "utf8_valid (oauth_keyring_handle c)"
  shows "case insert_resolved_oauth_credential ext c of
      Inr ext' \<Rightarrow> take_resolved_oauth_credential ext' = (Inr (Some c), ext(RESOLVED_OAUTH_CREDENTIAL := None)) \<and>
        take_resolved_oauth_credential (ext(RESOLVED_OAUTH_CREDENTIAL := None)) =
          (Inr None, ext(RESOLVED_OAUTH_CREDENTIAL := None))
    | Inl e \<Rightarrow> e = Err_InvalidArgument \<and> \<not> wf_oauth_ref c"
proof (cases "wf_oauth_ref c")
  case True
  then show ?thesis
    using take_oauth_wire[OF True]
    by (auto simp: insert_resolved_oauth_credential_def wf_oauth_ref_def)
      (simp add: take_resolved_oauth_credential_def)
next
  case False
  then show ?thesis
    using assms by (auto simp: insert_resolved_oauth_credential_def wf_oauth_ref_def)
qed

theorem oauth_reference_roundtrip_witness:
  "case insert_resolved_oauth_credential Map.empty \<lparr>oauth_backend_kind = ''s3'', oauth_keyring_handle = ''tok''\<rparr> of
     Inr ext' \<Rightarrow> fst (take_resolved_oauth_credential ext') =
       Inr (Some \<lparr>oauth_backend_kind = ''s3'', oauth_keyring_handle = ''tok''\<rparr>)
   | Inl e \<Rightarrow> False"
proof -
  let ?c = "\<lparr>oauth_backend_kind = ''s3'', oauth_keyring_handle = ''tok''\<rparr>"
  have u: "utf8_valid (oauth_backend_kind ?c)" "utf8_valid (oauth_keyring_handle ?c)" by code_simp+
  then have "wf_oauth_ref ?c" by (simp add: wf_oauth_ref_def)
  then show ?thesis using oauth_reference_roundtrip[OF u, of Map.empty] by (auto split: sum.splits)
qed

end
