(* ===== verification/Ov_Types.thy ===== *)
theory Ov_Types
  imports Ov_Url
begin

text \<open>
  The shared data types of \<open>ovstorage-layer/src/types.rs\<close> that the modelled components exchange:
  object and root descriptions, capabilities, listing pages, access decisions and change events.
  Times and durations are natural numbers; the open-ended metadata maps are association lists.
\<close>

section \<open>Objects\<close>

datatype object_kind = Kind_File | Kind_Directory | Kind_DirectoryMarker | Kind_DirectoryInferred

datatype etag_strength = Etag_Unspecified | Etag_Strong | Etag_Weak

record object_info =
  oi_address :: url
  oi_kind :: object_kind
  oi_etag :: "string option"
  oi_etag_strength :: etag_strength
  oi_version :: "string option"
  oi_size :: "nat option"
  oi_mtime :: "nat option"
  oi_checksums :: "(string \<times> string) list"
  oi_effective_permissions :: "nat option"
  oi_system_metadata :: "(string \<times> string) list option"
  oi_user_metadata :: "(string \<times> string) list option"
  oi_modified_by :: "string option"
  oi_versioned_address :: "url option"

record list_page =
  page_items :: "object_info list"
  page_next_token :: "string option"

section \<open>Capabilities and roots\<close>

datatype version_list_order_kind = Order_Newest | Order_Oldest | Order_Unordered

record change_kind_set =
  ck_created :: bool
  ck_modified :: bool
  ck_deleted :: bool
  ck_metadata_changed :: bool

definition change_kind_set_empty :: change_kind_set where
  "change_kind_set_empty =
     \<lparr>ck_created = False, ck_modified = False, ck_deleted = False, ck_metadata_changed = False\<rparr>"

record capabilities =
  supports_if_match_write :: bool
  supports_no_overwrite_write :: bool
  supports_native_metadata_patch :: bool
  supports_metadata_rewrite_emulation :: bool
  writes_are_atomic :: bool
  supports_copy :: bool
  supports_rename :: bool
  supports_server_side_copy :: bool
  supports_server_side_rename :: bool
  supports_atomic_rename :: bool
  has_real_directories :: bool
  supports_write :: bool
  supports_write_stream :: bool
  supports_write_redirect :: bool
  supports_delete :: bool
  supports_list :: bool
  supports_list_stream :: bool
  wants_list_backed_stat :: bool
  supports_recursive_list :: bool
  populates_subdirectory_metadata :: bool
  supports_create_directory :: bool
  supports_delete_directory :: bool
  supports_version_listing :: bool
  version_list_order :: "version_list_order_kind option"
  populates_effective_permissions_on_stat :: bool
  supports_access_check :: bool
  supports_watch_directory :: bool
  watch_directory_kinds :: change_kind_set
  watch_directory_resumable :: bool
  watch_directory_max_lag :: "nat option"
  redirect_size_threshold :: "nat option"

definition capabilities_empty :: capabilities where
  "capabilities_empty = \<lparr>
     supports_if_match_write = False,
     supports_no_overwrite_write = False,
     supports_native_metadata_patch = False,
     supports_metadata_rewrite_emulation = False,
     writes_are_atomic = False,
     supports_copy = False,
     supports_rename = False,
     supports_server_side_copy = False,
     supports_server_side_rename = False,
     supports_atomic_rename = False,
     has_real_directories = False,
     supports_write = False,
     supports_write_stream = False,
     supports_write_redirect = False,
     supports_delete = False,
     supports_list = False,
     supports_list_stream = False,
     wants_list_backed_stat = False,
     supports_recursive_list = False,
     populates_subdirectory_metadata = False,
     supports_create_directory = False,
     supports_delete_directory = False,
     supports_version_listing = False,
     version_list_order = None,
     populates_effective_permissions_on_stat = False,
     supports_access_check = False,
     supports_watch_directory = False,
     watch_directory_kinds = change_kind_set_empty,
     watch_directory_resumable = False,
     watch_directory_max_lag = None,
     redirect_size_threshold = None\<rparr>"

datatype range_read_strategy = Range_Native | Range_CachedReadThrough | Range_MaterializeOnly | Range_Unsupported

datatype address_visibility = Vis_Visible | Vis_Hidden | Vis_Suppressed

datatype config_layer = Layer_Programmatic | Layer_Env | Layer_Project | Layer_User | Layer_Machine

text \<open>The reason of \<open>ChainTooLong\<close> is the message of the error, so it is that error here.\<close>

datatype alias_state = Alias_Live | Alias_Dangling | Alias_ChainTooLong error_code

datatype alias_source = Alias_Static config_layer | Alias_Runtime bool | Alias_BrokerDelivered string

datatype route_source =
    Source_Static config_layer
  | Source_ConnectionContributed string
  | Source_BrokerDelivered string string
  | Source_Alias url alias_source

record root_info =
  ri_root :: url
  ri_display_name :: "string option"
  ri_layer_kind :: string
  ri_connection_id :: "string option"
  ri_owning_target :: "string option"
  ri_capabilities :: capabilities
  ri_range_read_strategy :: range_read_strategy
  ri_source :: route_source
  ri_visible :: bool
  ri_visibility :: address_visibility
  ri_alias_state :: "alias_state option"
  ri_icon :: "string option"
  ri_user_metadata :: "string \<rightharpoonup> string"

record root_info_snapshot =
  snap_roots :: "root_info list"
  snap_updates :: bool

datatype root_info_change =
    Change_Snapshot "root_info list"
  | Change_Added "root_info list"
  | Change_Removed "root_info list"
  | Change_Updated "root_info list"

section \<open>Access checks and change events\<close>

record access_ops =
  ops_read :: bool
  ops_write :: bool
  ops_delete :: bool
  ops_update_metadata :: bool

record access_decision =
  ad_allowed :: bool
  ad_denied_ops :: access_ops
  ad_reason :: "string option"

text \<open>A change event names an object, or reports a lapse; the rest of its fields is opaque here.\<close>

datatype 'e change_event = Event_Object url 'e | Event_Lapsed 'e

section \<open>Configuration\<close>

datatype config_value = Config_String string | Config_Int int | Config_Bool bool | Config_Toml string

type_synonym layer_config = "string \<rightharpoonup> config_value"

end
