(* ===== verification/Ov_Auth_Layer.thy ===== *)
theory Ov_Auth_Layer
  imports Ov_Authn Ov_Ext Ov_Types
begin

text \<open>
  The built-in auth layer (\<open>ovstorage-authz-layer/src/lib.rs\<close>) and the decision helpers of
  \<open>ovstorage-authz-policy/src/decision.rs\<close>: every gated verb resolves a principal, evaluates one
  snapshot of the policy on the canonical address, stamps the principal and delegates; listings,
  watches and root introspection are filtered afterwards with the same snapshot.

  The wrapped layer is a parameter: for each verb a function from the request and its own state
  to a result and its next state. The state of the gate is that state with the three counters of
  \<open>ovstorage_auth_decisions_total\<close>. Streams are the lists of the items they deliver, and the
  cancellation token, which the gate only passes on, is left out.
\<close>

section \<open>Decision helpers\<close>

definition filter_list_batch ::
    "url_crate \<Rightarrow> host \<Rightarrow> policy \<Rightarrow> string \<Rightarrow> operation \<Rightarrow> url list \<Rightarrow> bool list" where
  "filter_list_batch C H P principal_id operation addresses =
     map (\<lambda>a. is_allowed C H P principal_id operation (Some a)) addresses"

definition is_root_visible :: "url_crate \<Rightarrow> host \<Rightarrow> policy \<Rightarrow> string \<Rightarrow> url \<Rightarrow> bool" where
  "is_root_visible C H P principal_id a \<longleftrightarrow>
     is_allowed C H P principal_id Op_Read (Some a) \<or> is_allowed C H P principal_id Op_List (Some a)"

definition apply_authz_access_decision ::
    "url_crate \<Rightarrow> host \<Rightarrow> policy \<Rightarrow> string \<Rightarrow> url \<Rightarrow> access_ops \<Rightarrow> access_decision \<Rightarrow> string \<Rightarrow> access_decision" where
  "apply_authz_access_decision C H P principal_id a operations decision deny_reason =
     (let denied = (\<lambda>op. \<not> is_allowed C H P principal_id op (Some a));
          deny_read = (ops_read operations \<and> denied Op_Read);
          deny_write = (ops_write operations \<and> denied Op_Write);
          deny_delete = (ops_delete operations \<and> denied Op_Delete);
          deny_update = (ops_update_metadata operations \<and> denied Op_UpdateMetadata);
          ops = ad_denied_ops decision;
          d1 = decision\<lparr>ad_denied_ops :=
                 \<lparr>ops_read = ops_read ops \<or> deny_read, ops_write = ops_write ops \<or> deny_write,
                  ops_delete = ops_delete ops \<or> deny_delete,
                  ops_update_metadata = ops_update_metadata ops \<or> deny_update\<rparr>\<rparr>
      in if deny_read \<or> deny_write \<or> deny_delete \<or> deny_update
         then d1\<lparr>ad_allowed := False,
                 ad_reason := (case ad_reason decision of None \<Rightarrow> Some deny_reason | Some r \<Rightarrow> Some r)\<rparr>
         else d1)"

section \<open>The layer and its state\<close>

record ('j, 'c) world =
  w_crate :: url_crate
  w_host :: host
  w_authn :: "('j, 'c) authn_env"
  w_toml :: "string \<Rightarrow> toml_policy_config option"

record ('j, 'c) auth_layer =
  al_authn :: "('j, 'c) builtin_authn"
  al_policy :: policy

record 's gate_state =
  gs_inner :: 's
  gs_allow :: nat
  gs_deny :: nat
  gs_error :: nat

type_synonym ('s, 'a) action = "'s gate_state \<Rightarrow> 'a result \<times> 's gate_state"

text \<open>The \<open>?\<close> of the source: an error ends the verb, a value goes on.\<close>

definition andthen :: "('s, 'a) action \<Rightarrow> ('a \<Rightarrow> ('s, 'b) action) \<Rightarrow> ('s, 'b) action" where
  "andthen m f st = (case m st of (Inl e, st') \<Rightarrow> (Inl e, st') | (Inr a, st') \<Rightarrow> f a st')"

definition succeed :: "'a \<Rightarrow> ('s, 'a) action" where
  "succeed a st = (Inr a, st)"

definition call_inner :: "('x \<Rightarrow> 's \<Rightarrow> 'r result \<times> 's) \<Rightarrow> 'x \<Rightarrow> ('s, 'r) action" where
  "call_inner inner req st = (let (r, s') = inner req (gs_inner st) in (r, st\<lparr>gs_inner := s'\<rparr>))"

record 'x request =
  rq_address :: url
  rq_input :: 'x
  rq_extensions :: extensions

record 'x pair_request =
  pr_source :: url
  pr_destination :: url
  pr_input :: 'x
  pr_extensions :: extensions

record 'x plain_request =
  plain_input :: 'x
  plain_extensions :: extensions

section \<open>The gate\<close>

definition canonicalize_delegated :: "('j, 'c) world \<Rightarrow> url \<Rightarrow> url" where
  "canonicalize_delegated W a = canonicalize (w_crate W) a"

definition resolve_principal ::
    "('j, 'c) world \<Rightarrow> ('j, 'c) auth_layer \<Rightarrow> extensions \<Rightarrow> resolved_principal result" where
  "resolve_principal W L cx =
     (case cx AUTH_CREDENTIAL of
        None \<Rightarrow> authn_resolve (w_authn W) (al_authn L) None
      | Some bytes \<Rightarrow>
          (case credential_decode bytes of
             Inl e \<Rightarrow> Inl Err_AuthRequired
           | Inr c \<Rightarrow> authn_resolve (w_authn W) (al_authn L) (Some c)))"

definition gate_check ::
    "('j, 'c) world \<Rightarrow> policy \<Rightarrow> string \<Rightarrow> operation \<Rightarrow> url option \<Rightarrow> unit result" where
  "gate_check W P principal_id operation address =
     (if is_allow (evaluate (w_crate W) (w_host W) P principal_id operation address) then Inr ()
      else Inl Err_PermissionDenied)"

definition resolve_principal_metered ::
    "('j, 'c) world \<Rightarrow> ('j, 'c) auth_layer \<Rightarrow> extensions \<Rightarrow> ('s, resolved_principal) action" where
  "resolve_principal_metered W L cx st =
     (case resolve_principal W L cx of
        Inl e \<Rightarrow> (Inl e, st\<lparr>gs_error := gs_error st + 1\<rparr>)
      | Inr p \<Rightarrow> (Inr p, st))"

definition check_metered ::
    "('j, 'c) world \<Rightarrow> policy \<Rightarrow> string \<Rightarrow> operation \<Rightarrow> url option \<Rightarrow> ('s, unit) action" where
  "check_metered W P principal_id operation address st =
     (case gate_check W P principal_id operation address of
        Inr u \<Rightarrow> (Inr u, st\<lparr>gs_allow := gs_allow st + 1\<rparr>)
      | Inl e \<Rightarrow> (Inl e, st\<lparr>gs_deny := gs_deny st + 1\<rparr>))"

text \<open>The address the caller holds afterwards is the canonical one, returned as third component.\<close>

definition authorize ::
    "('j, 'c) world \<Rightarrow> ('j, 'c) auth_layer \<Rightarrow> extensions \<Rightarrow> operation \<Rightarrow> url option \<Rightarrow>
     ('s, resolved_principal \<times> policy \<times> url option) action" where
  "authorize W L cx operation address =
     andthen (resolve_principal_metered W L cx) (\<lambda>principal.
       let P = al_policy L;
           address = map_option (canonicalize_delegated W) address
       in andthen (check_metered W P (prin_id principal) operation address) (\<lambda>_.
            succeed (principal, P, address)))"

definition stamp :: "resolved_principal \<Rightarrow> extensions \<Rightarrow> extensions" where
  "stamp who cx =
     (let cx = cx(AUTH_CREDENTIAL := None);
          cx = cx(PRINCIPAL_ID \<mapsto> prin_id who)
      in case prin_display_name who of
           Some n \<Rightarrow> cx(PRINCIPAL_DISPLAY_NAME \<mapsto> n)
         | None \<Rightarrow> cx)"

definition authorize_and_stamp_credential_slot ::
    "('j, 'c) world \<Rightarrow> ('j, 'c) auth_layer \<Rightarrow> extensions \<Rightarrow> ('s, extensions) action" where
  "authorize_and_stamp_credential_slot W L cx st =
     (case upstream_auth_address (w_crate W) cx of
        Inl e \<Rightarrow> (Inl e, st)
      | Inr address \<Rightarrow>
          andthen (authorize W L cx Op_UpdateConnectionCredentials address)
            (\<lambda>(principal, _, _). succeed (stamp principal cx)) st)"

definition reload ::
    "('j, 'c) world \<Rightarrow> string \<Rightarrow> ('j, 'c) auth_layer \<Rightarrow> unit result \<times> ('j, 'c) auth_layer" where
  "reload W policy_toml L =
     (case from_toml (w_crate W) (w_host W) (w_toml W) policy_toml of
        Inl e \<Rightarrow> (Inl e, L)
      | Inr new_policy \<Rightarrow> (Inr (), L\<lparr>al_policy := new_policy\<rparr>))"

definition authorize_list_backend_kinds ::
    "('j, 'c) world \<Rightarrow> ('j, 'c) auth_layer \<Rightarrow> extensions \<Rightarrow> ('s, unit) action" where
  "authorize_list_backend_kinds W L cx =
     andthen (authorize W L cx Op_ListBackendKinds None) (\<lambda>_. succeed ())"

definition authorize_write_preflight ::
    "('j, 'c) world \<Rightarrow> ('j, 'c) auth_layer \<Rightarrow> extensions \<Rightarrow> url \<Rightarrow> unit result" where
  "authorize_write_preflight W L cx address =
     (case resolve_principal W L cx of
        Inl e \<Rightarrow> Inl e
      | Inr who \<Rightarrow> gate_check W (al_policy L) (prin_id who) Op_Write (Some address))"

section \<open>Verbs on one address\<close>

text \<open>The body the single-address verbs share, up to the operation that is authorized.\<close>

definition gated ::
    "('j, 'c) world \<Rightarrow> ('j, 'c) auth_layer \<Rightarrow> operation \<Rightarrow>
     ('x request \<Rightarrow> 's \<Rightarrow> 'r result \<times> 's) \<Rightarrow> 'x request \<Rightarrow> ('s, 'r) action" where
  "gated W L operation inner request =
     andthen (authorize W L (rq_extensions request) operation (Some (rq_address request)))
       (\<lambda>(principal, _, address).
          call_inner inner
            (request\<lparr>rq_address := the address,
                     rq_extensions := stamp principal (rq_extensions request)\<rparr>))"

definition auth_stat where "auth_stat W L = gated W L Op_Stat"
definition auth_read where "auth_read W L = gated W L Op_Read"
definition auth_materialize where "auth_materialize W L = gated W L Op_Read"
definition auth_write where "auth_write W L = gated W L Op_Write"
definition auth_write_stream where "auth_write_stream W L = gated W L Op_Write"
definition auth_write_redirect where "auth_write_redirect W L = gated W L Op_Write"
definition auth_continue_write where "auth_continue_write W L = gated W L Op_Write"
definition auth_delete where "auth_delete W L = gated W L Op_Delete"
definition auth_update_metadata where "auth_update_metadata W L = gated W L Op_UpdateMetadata"
definition auth_list_versions where "auth_list_versions W L = gated W L Op_ListVersions"
definition auth_get_latest_version where "auth_get_latest_version W L = gated W L Op_ListVersions"
definition auth_create_directory where "auth_create_directory W L = gated W L Op_CreateDirectory"
definition auth_delete_directory where "auth_delete_directory W L = gated W L Op_DeleteDirectory"

section \<open>Verbs on two addresses\<close>

definition delegated_pair :: "('j, 'c) world \<Rightarrow> 'x pair_request \<Rightarrow> 'x pair_request" where
  "delegated_pair W request =
     request\<lparr>pr_source := canonicalize_delegated W (pr_source request),
             pr_destination := canonicalize_delegated W (pr_destination request)\<rparr>"

definition auth_copy ::
    "('j, 'c) world \<Rightarrow> ('j, 'c) auth_layer \<Rightarrow>
     ('x pair_request \<Rightarrow> 's \<Rightarrow> 'r result \<times> 's) \<Rightarrow> 'x pair_request \<Rightarrow> ('s, 'r) action" where
  "auth_copy W L inner request =
     andthen (resolve_principal_metered W L (pr_extensions request)) (\<lambda>principal.
       let P = al_policy L; request = delegated_pair W request in
       andthen (check_metered W P (prin_id principal) Op_Read (Some (pr_source request))) (\<lambda>_.
       andthen (check_metered W P (prin_id principal) Op_Write (Some (pr_destination request))) (\<lambda>_.
         call_inner inner (request\<lparr>pr_extensions := stamp principal (pr_extensions request)\<rparr>))))"

definition auth_rename ::
    "('j, 'c) world \<Rightarrow> ('j, 'c) auth_layer \<Rightarrow>
     ('x pair_request \<Rightarrow> 's \<Rightarrow> 'r result \<times> 's) \<Rightarrow> 'x pair_request \<Rightarrow> ('s, 'r) action" where
  "auth_rename W L inner request =
     andthen (resolve_principal_metered W L (pr_extensions request)) (\<lambda>principal.
       let P = al_policy L; request = delegated_pair W request in
       andthen (check_metered W P (prin_id principal) Op_Read (Some (pr_source request))) (\<lambda>_.
       andthen (check_metered W P (prin_id principal) Op_Delete (Some (pr_source request))) (\<lambda>_.
       andthen (check_metered W P (prin_id principal) Op_Write (Some (pr_destination request))) (\<lambda>_.
         call_inner inner (request\<lparr>pr_extensions := stamp principal (pr_extensions request)\<rparr>)))))"

section \<open>Verbs with a filter on the result\<close>

definition auth_list ::
    "('j, 'c) world \<Rightarrow> ('j, 'c) auth_layer \<Rightarrow>
     ('x request \<Rightarrow> 's \<Rightarrow> list_page result \<times> 's) \<Rightarrow> 'x request \<Rightarrow> ('s, list_page) action" where
  "auth_list W L inner request =
     andthen (authorize W L (rq_extensions request) Op_List (Some (rq_address request)))
       (\<lambda>(principal, P, address).
          andthen
            (call_inner inner
               (request\<lparr>rq_address := the address,
                        rq_extensions := stamp principal (rq_extensions request)\<rparr>))
            (\<lambda>page.
               let addresses = map oi_address (page_items page);
                   decisions = filter_list_batch (w_crate W) (w_host W) P (prin_id principal) Op_Stat addresses
               in succeed (page\<lparr>page_items := map fst (filter snd (zip (page_items page) decisions))\<rparr>)))"

definition auth_list_stream ::
    "('j, 'c) world \<Rightarrow> ('j, 'c) auth_layer \<Rightarrow>
     ('x request \<Rightarrow> 's \<Rightarrow> object_info result list result \<times> 's) \<Rightarrow> 'x request \<Rightarrow>
     ('s, object_info result list) action" where
  "auth_list_stream W L inner request =
     andthen (authorize W L (rq_extensions request) Op_List (Some (rq_address request)))
       (\<lambda>(principal, P, address).
          andthen
            (call_inner inner
               (request\<lparr>rq_address := the address,
                        rq_extensions := stamp principal (rq_extensions request)\<rparr>))
            (\<lambda>stream. succeed
               (List.map_filter (\<lambda>entry.
                  case entry of
                    Inr e \<Rightarrow>
                      (if is_allowed (w_crate W) (w_host W) P (prin_id principal) Op_Stat (Some (oi_address e))
                       then Some (Inr e) else None)
                  | Inl error \<Rightarrow> Some (Inl error)) stream)))"

definition auth_watch_directory ::
    "('j, 'c) world \<Rightarrow> ('j, 'c) auth_layer \<Rightarrow>
     ('x request \<Rightarrow> 's \<Rightarrow> 'e change_event result list result \<times> 's) \<Rightarrow> 'x request \<Rightarrow>
     ('s, 'e change_event result list) action" where
  "auth_watch_directory W L inner request =
     andthen (authorize W L (rq_extensions request) Op_WatchDirectory (Some (rq_address request)))
       (\<lambda>(principal, P, address).
          andthen
            (call_inner inner
               (request\<lparr>rq_address := the address,
                        rq_extensions := stamp principal (rq_extensions request)\<rparr>))
            (\<lambda>stream. succeed
               (List.map_filter (\<lambda>event.
                  case event of
                    Inl error \<Rightarrow> Some (Inl error)
                  | Inr (Event_Lapsed x) \<Rightarrow> Some (Inr (Event_Lapsed x))
                  | Inr (Event_Object a x) \<Rightarrow>
                      (if is_allowed (w_crate W) (w_host W) P (prin_id principal) Op_Read (Some a)
                       then Some (Inr (Event_Object a x)) else None)) stream)))"

definition auth_check_access ::
    "('j, 'c) world \<Rightarrow> ('j, 'c) auth_layer \<Rightarrow>
     (access_ops request \<Rightarrow> 's \<Rightarrow> access_decision result \<times> 's) \<Rightarrow> access_ops request \<Rightarrow>
     ('s, access_decision) action" where
  "auth_check_access W L inner request =
     andthen (authorize W L (rq_extensions request) Op_CheckAccess (Some (rq_address request)))
       (\<lambda>(principal, P, address).
          andthen
            (call_inner inner
               (request\<lparr>rq_address := the address,
                        rq_extensions := stamp principal (rq_extensions request)\<rparr>))
            (\<lambda>decision. succeed
               (apply_authz_access_decision (w_crate W) (w_host W) P (prin_id principal) (the address)
                  (rq_input request) decision ''denied by authz policy'')))"

section \<open>Introspection and credentials\<close>

definition auth_root_info_for ::
    "('j, 'c) world \<Rightarrow> ('j, 'c) auth_layer \<Rightarrow>
     (url \<times> extensions \<Rightarrow> 's \<Rightarrow> root_info result \<times> 's) \<Rightarrow> url \<Rightarrow> extensions \<Rightarrow> ('s, root_info) action" where
  "auth_root_info_for W L inner u cx =
     andthen (resolve_principal_metered W L cx) (\<lambda>principal st.
       let P = al_policy L; u = canonicalize_delegated W u in
       if \<not> is_root_visible (w_crate W) (w_host W) P (prin_id principal) u
       then (Inl Err_NoRoute, st\<lparr>gs_deny := gs_deny st + 1\<rparr>)
       else call_inner inner (u, stamp principal cx) (st\<lparr>gs_allow := gs_allow st + 1\<rparr>))"

definition filter_root_change ::
    "('j, 'c) world \<Rightarrow> root_info_change \<Rightarrow> string \<Rightarrow> policy \<Rightarrow> root_info_change option" where
  "filter_root_change W change principal_id P =
     (let visible = filter (\<lambda>r. is_root_visible (w_crate W) (w_host W) P principal_id (ri_root r)) in
      case change of
        Change_Snapshot roots \<Rightarrow> Some (Change_Snapshot (visible roots))
      | Change_Added roots \<Rightarrow>
          (let roots = visible roots in if roots = [] then None else Some (Change_Added roots))
      | Change_Updated roots \<Rightarrow>
          (let roots = visible roots in if roots = [] then None else Some (Change_Updated roots))
      | Change_Removed roots \<Rightarrow>
          (let roots = visible roots in if roots = [] then None else Some (Change_Removed roots)))"

definition filter_root_update_stream ::
    "('j, 'c) world \<Rightarrow> root_info_change result list \<Rightarrow> string \<Rightarrow> policy \<Rightarrow> root_info_change result list" where
  "filter_root_update_stream W stream principal_id P =
     List.map_filter (\<lambda>item.
       case item of
         Inr change \<Rightarrow> map_option Inr (filter_root_change W change principal_id P)
       | Inl error \<Rightarrow> Some (Inl error)) stream"

definition auth_list_address_roots ::
    "('j, 'c) world \<Rightarrow> ('j, 'c) auth_layer \<Rightarrow>
     (extensions \<Rightarrow> 's \<Rightarrow> (root_info_snapshot \<times> root_info_change result list option) result \<times> 's) \<Rightarrow>
     extensions \<Rightarrow> ('s, root_info_snapshot \<times> root_info_change result list option) action" where
  "auth_list_address_roots W L inner cx =
     andthen (authorize W L cx Op_ListAddressRoots None) (\<lambda>(principal, P, _).
       andthen (call_inner inner (stamp principal cx)) (\<lambda>(snapshot, updates).
         succeed
           (snapshot\<lparr>snap_roots :=
              filter (\<lambda>r. is_root_visible (w_crate W) (w_host W) P (prin_id principal) (ri_root r))
                (snap_roots snapshot)\<rparr>,
            map_option (\<lambda>stream. filter_root_update_stream W stream (prin_id principal) P) updates)))"

definition auth_list_connections ::
    "('j, 'c) world \<Rightarrow> ('j, 'c) auth_layer \<Rightarrow>
     (extensions \<Rightarrow> 's \<Rightarrow> 'r result \<times> 's) \<Rightarrow> extensions \<Rightarrow> ('s, 'r) action" where
  "auth_list_connections W L inner cx =
     andthen (authorize W L cx Op_ListConnections None) (\<lambda>(principal, _, _).
       call_inner inner (stamp principal cx))"

definition auth_update_connection_credentials ::
    "('j, 'c) world \<Rightarrow> ('j, 'c) auth_layer \<Rightarrow>
     ('x plain_request \<Rightarrow> 's \<Rightarrow> 'r result \<times> 's) \<Rightarrow> 'x plain_request \<Rightarrow> ('s, 'r) action" where
  "auth_update_connection_credentials W L inner request =
     andthen (authorize_and_stamp_credential_slot W L (plain_extensions request)) (\<lambda>cx.
       call_inner inner (request\<lparr>plain_extensions := cx\<rparr>))"

definition auth_authenticate_connection ::
    "('j, 'c) world \<Rightarrow> ('j, 'c) auth_layer \<Rightarrow>
     ('x plain_request \<Rightarrow> 's \<Rightarrow> 'r result \<times> 's) \<Rightarrow> 'x plain_request \<Rightarrow> ('s, 'r) action" where
  "auth_authenticate_connection W L inner request =
     andthen (authorize_and_stamp_credential_slot W L (plain_extensions request)) (\<lambda>cx.
       call_inner inner (request\<lparr>plain_extensions := cx\<rparr>))"

section \<open>Sequences of calls and reloads\<close>

datatype data_verb =
    Verb_stat | Verb_read | Verb_materialize | Verb_write | Verb_write_stream | Verb_write_redirect
  | Verb_continue_write | Verb_delete | Verb_update_metadata | Verb_list_versions
  | Verb_get_latest_version | Verb_create_directory | Verb_delete_directory

text \<open>The layer trait as one function: the verb picks the method.\<close>

fun auth_dispatch ::
    "('j, 'c) world \<Rightarrow> ('j, 'c) auth_layer \<Rightarrow> data_verb \<Rightarrow>
     (data_verb \<Rightarrow> 'x request \<Rightarrow> 's \<Rightarrow> 'r result \<times> 's) \<Rightarrow> 'x request \<Rightarrow> ('s, 'r) action" where
  "auth_dispatch W L Verb_stat inner = auth_stat W L (inner Verb_stat)"
| "auth_dispatch W L Verb_read inner = auth_read W L (inner Verb_read)"
| "auth_dispatch W L Verb_materialize inner = auth_materialize W L (inner Verb_materialize)"
| "auth_dispatch W L Verb_write inner = auth_write W L (inner Verb_write)"
| "auth_dispatch W L Verb_write_stream inner = auth_write_stream W L (inner Verb_write_stream)"
| "auth_dispatch W L Verb_write_redirect inner = auth_write_redirect W L (inner Verb_write_redirect)"
| "auth_dispatch W L Verb_continue_write inner = auth_continue_write W L (inner Verb_continue_write)"
| "auth_dispatch W L Verb_delete inner = auth_delete W L (inner Verb_delete)"
| "auth_dispatch W L Verb_update_metadata inner = auth_update_metadata W L (inner Verb_update_metadata)"
| "auth_dispatch W L Verb_list_versions inner = auth_list_versions W L (inner Verb_list_versions)"
| "auth_dispatch W L Verb_get_latest_version inner = auth_get_latest_version W L (inner Verb_get_latest_version)"
| "auth_dispatch W L Verb_create_directory inner = auth_create_directory W L (inner Verb_create_directory)"
| "auth_dispatch W L Verb_delete_directory inner = auth_delete_directory W L (inner Verb_delete_directory)"

text \<open>The right each verb must hold on its address.\<close>

fun required_right :: "data_verb \<Rightarrow> operation" where
  "required_right Verb_stat = Op_Stat"
| "required_right Verb_read = Op_Read"
| "required_right Verb_materialize = Op_Read"
| "required_right Verb_write = Op_Write"
| "required_right Verb_write_stream = Op_Write"
| "required_right Verb_write_redirect = Op_Write"
| "required_right Verb_continue_write = Op_Write"
| "required_right Verb_delete = Op_Delete"
| "required_right Verb_update_metadata = Op_UpdateMetadata"
| "required_right Verb_list_versions = Op_ListVersions"
| "required_right Verb_get_latest_version = Op_ListVersions"
| "required_right Verb_create_directory = Op_CreateDirectory"
| "required_right Verb_delete_directory = Op_DeleteDirectory"

text \<open>An inner layer that answers as it likes and records the calls that reach it.\<close>

type_synonym 'x call_log = "(data_verb \<times> 'x request) list"

definition recording ::
    "(data_verb \<Rightarrow> 'x request \<Rightarrow> 'x call_log \<Rightarrow> 'r result) \<Rightarrow>
     data_verb \<Rightarrow> 'x request \<Rightarrow> 'x call_log \<Rightarrow> 'r result \<times> 'x call_log" where
  "recording answer v req calls = (answer v req calls, calls @ [(v, req)])"

text \<open>What happens to the gate, in order: a call arrives, or a policy text is loaded. A call reads the
  policy once, so it stands at the instant at which it does.\<close>

datatype 'x gate_event = Gate_Call data_verb "'x request" | Gate_Reload string

inductive gate_step ::
    "('j, 'c) world \<Rightarrow> (data_verb \<Rightarrow> 'x request \<Rightarrow> 'x call_log \<Rightarrow> 'r result) \<Rightarrow>
     ('j, 'c) auth_layer \<times> 'x call_log gate_state \<Rightarrow> 'x gate_event \<Rightarrow>
     ('j, 'c) auth_layer \<times> 'x call_log gate_state \<Rightarrow> bool"
  for W answer where
  call: "auth_dispatch W L v (recording answer) req st = (r, st') \<Longrightarrow>
    gate_step W answer (L, st) (Gate_Call v req) (L, st')"
| reload: "reload W toml L = (r, L') \<Longrightarrow> gate_step W answer (L, st) (Gate_Reload toml) (L', st)"

inductive_cases gate_callE: "gate_step W answer (L, st) (Gate_Call v req) (L', st')"
inductive_cases gate_reloadE: "gate_step W answer (L, st) (Gate_Reload toml) (L', st')"

inductive gate_trace ::
    "('j, 'c) world \<Rightarrow> (data_verb \<Rightarrow> 'x request \<Rightarrow> 'x call_log \<Rightarrow> 'r result) \<Rightarrow>
     ('j, 'c) auth_layer \<times> 'x call_log gate_state \<Rightarrow> 'x gate_event list \<Rightarrow>
     ('j, 'c) auth_layer \<times> 'x call_log gate_state \<Rightarrow> bool"
  for W answer x where
  start: "gate_trace W answer x [] x"
| event: "gate_trace W answer x evs y \<Longrightarrow> gate_step W answer y ev z \<Longrightarrow> gate_trace W answer x (evs @ [ev]) z"

section \<open>Lemmas\<close>

lemma canonicalize_idem:
  assumes "crate_ok C" "url_wf u"
  shows "canonicalize C (canonicalize C u) = canonicalize C u"
proof (cases "url_cannot_be_a_base u")
  case True
  then show ?thesis by (simp add: canonicalize_def)
next
  case False
  then show ?thesis
    using canonicalize_eq[OF assms False] canonical_of_idem[OF assms(2) False]
      canonicalize_eq[OF assms(1) canonical_of_wf[OF assms(2) False]] by simp
qed

lemma is_allowed_canonicalize:
  "crate_ok C \<Longrightarrow> url_wf u \<Longrightarrow>
     is_allowed C H P i op (Some (canonicalize C u)) = is_allowed C H P i op (Some u)"
  by (simp add: is_allowed_def evaluate_def matching_rule_def canonicalize_idem)

lemma check_metered_eq:
  "check_metered W P i op a st =
     (if is_allowed (w_crate W) (w_host W) P i op a then (Inr (), st\<lparr>gs_allow := gs_allow st + 1\<rparr>)
      else (Inl Err_PermissionDenied, st\<lparr>gs_deny := gs_deny st + 1\<rparr>))"
  by (simp add: check_metered_def gate_check_def is_allowed_def)

lemma authorize_eq:
  "authorize W L cx op a st =
     (case resolve_principal W L cx of
        Inl e \<Rightarrow> (Inl e, st\<lparr>gs_error := gs_error st + 1\<rparr>)
      | Inr p \<Rightarrow>
          (if is_allowed (w_crate W) (w_host W) (al_policy L) (prin_id p) op (map_option (canonicalize (w_crate W)) a)
           then (Inr (p, al_policy L, map_option (canonicalize (w_crate W)) a), st\<lparr>gs_allow := gs_allow st + 1\<rparr>)
           else (Inl Err_PermissionDenied, st\<lparr>gs_deny := gs_deny st + 1\<rparr>)))"
  by (simp add: authorize_def andthen_def resolve_principal_metered_def check_metered_eq Let_def
      succeed_def canonicalize_delegated_def[abs_def] split: sum.splits)

lemma dispatch_gated: "auth_dispatch W L v inner = gated W L (required_right v) (inner v)"
  by (cases v) (simp_all add: auth_stat_def auth_read_def auth_materialize_def auth_write_def
      auth_write_stream_def auth_write_redirect_def auth_continue_write_def auth_delete_def
      auth_update_metadata_def auth_list_versions_def auth_get_latest_version_def
      auth_create_directory_def auth_delete_directory_def)

lemma stamp_apply:
  "stamp who cx AUTH_CREDENTIAL = None" "stamp who cx PRINCIPAL_ID = Some (prin_id who)"
  "k \<notin> {AUTH_CREDENTIAL, PRINCIPAL_ID, PRINCIPAL_DISPLAY_NAME} \<Longrightarrow> stamp who cx k = cx k"
  by (simp_all add: stamp_def Let_def AUTH_CREDENTIAL_def PRINCIPAL_ID_def PRINCIPAL_DISPLAY_NAME_def
      split: option.split)

lemma map_filter_if: "List.map_filter (\<lambda>x. if P x then Some x else None) xs = filter P xs"
  by (induction xs) (simp_all add: List.map_filter_def)

lemma zip_filter: "map fst (filter snd (zip xs (map f xs))) = filter f xs"
  by (induction xs) simp_all

text \<open>The request the wrapped layer receives, and what a caller may do under the live policy.\<close>

definition delegated :: "('j, 'c) world \<Rightarrow> resolved_principal \<Rightarrow> 'x request \<Rightarrow> 'x request" where
  "delegated W p req =
     req\<lparr>rq_address := canonicalize (w_crate W) (rq_address req),
         rq_extensions := stamp p (rq_extensions req)\<rparr>"

definition may :: "('j, 'c) world \<Rightarrow> ('j, 'c) auth_layer \<Rightarrow> resolved_principal \<Rightarrow> operation \<Rightarrow> url \<Rightarrow> bool" where
  "may W L p op a \<longleftrightarrow> is_allowed (w_crate W) (w_host W) (al_policy L) (prin_id p) op (Some a)"

definition counted_allow :: "'s gate_state \<Rightarrow> 's gate_state" where
  "counted_allow st = st\<lparr>gs_allow := gs_allow st + 1\<rparr>"
definition counted_deny :: "'s gate_state \<Rightarrow> 's gate_state" where
  "counted_deny st = st\<lparr>gs_deny := gs_deny st + 1\<rparr>"
definition counted_error :: "'s gate_state \<Rightarrow> 's gate_state" where
  "counted_error st = st\<lparr>gs_error := gs_error st + 1\<rparr>"

lemmas counted_defs = counted_allow_def counted_deny_def counted_error_def

lemma authorize_on:
  assumes "crate_ok (w_crate W)" "url_wf a"
  shows "authorize W L cx op (Some a) st =
     (case resolve_principal W L cx of
        Inl e \<Rightarrow> (Inl e, counted_error st)
      | Inr p \<Rightarrow>
          (if may W L p op a
           then (Inr (p, al_policy L, Some (canonicalize (w_crate W) a)), counted_allow st)
           else (Inl Err_PermissionDenied, counted_deny st)))"
  by (simp add: authorize_eq may_def counted_defs is_allowed_canonicalize[OF assms] split: sum.split)

lemma gated_eq:
  assumes "crate_ok (w_crate W)" "url_wf (rq_address req)"
  shows "gated W L op inner req st =
     (case resolve_principal W L (rq_extensions req) of
        Inl e \<Rightarrow> (Inl e, counted_error st)
      | Inr p \<Rightarrow>
          (if may W L p op (rq_address req) then call_inner inner (delegated W p req) (counted_allow st)
           else (Inl Err_PermissionDenied, counted_deny st)))"
  by (simp add: gated_def andthen_def authorize_on[OF assms] delegated_def split: sum.split)

lemma call_inner_gs [simp]:
  "call_inner inner req st = (fst (inner req (gs_inner st)), st\<lparr>gs_inner := snd (inner req (gs_inner st))\<rparr>)"
  by (simp add: call_inner_def case_prod_beta)

lemma counted_inner [simp]:
  "gs_inner (counted_allow st) = gs_inner st" "gs_inner (counted_deny st) = gs_inner st"
  "gs_inner (counted_error st) = gs_inner st"
  by (simp_all add: counted_defs)

section \<open>Properties\<close>

text \<open>C1. The gate of the single-address verbs: the wrapped layer is called exactly when the
  principal resolved from the request holds the verb's right on the request's address, with the
  canonical address and the stamped extensions, and its answer is returned unchanged. Otherwise
  the caller gets the authentication error, or \<open>PermissionDenied\<close>, and the wrapped layer keeps
  its state. Each request counts one decision: error, deny or allow.\<close>

theorem gate_decides:
  assumes "crate_ok (w_crate W)" "url_wf (rq_address req)"
  shows "auth_dispatch W L v inner req st =
     (case resolve_principal W L (rq_extensions req) of
        Inl e \<Rightarrow> (Inl e, counted_error st)
      | Inr p \<Rightarrow>
          (if may W L p (required_right v) (rq_address req)
           then (fst (inner v (delegated W p req) (gs_inner st)),
                 (counted_allow st)\<lparr>gs_inner := snd (inner v (delegated W p req) (gs_inner st))\<rparr>)
           else (Inl Err_PermissionDenied, counted_deny st)))"
  by (simp add: dispatch_gated gated_eq[OF assms] split: sum.split)

text \<open>C20. Copying needs \<open>Read\<close> on the source and \<open>Write\<close> on the destination, renaming needs
  \<open>Delete\<close> on the source as well, all judged for one principal against one policy on the
  canonical addresses that are delegated; with any right missing the wrapped layer keeps its state
  and the caller gets \<open>PermissionDenied\<close>.\<close>

theorem copy_rename_rights:
  assumes C: "crate_ok (w_crate W)" "url_wf (pr_source req)" "url_wf (pr_destination req)"
    and p: "resolve_principal W L (pr_extensions req) = Inr p"
  defines "down \<equiv> (delegated_pair W req)\<lparr>pr_extensions := stamp p (pr_extensions req)\<rparr>"
    and "src \<equiv> pr_source req" and "dst \<equiv> pr_destination req"
  shows "(let (r, st') = auth_copy W L inner req st in
            if may W L p Op_Read src \<and> may W L p Op_Write dst
            then r = fst (inner down (gs_inner st)) \<and> gs_inner st' = snd (inner down (gs_inner st))
            else r = Inl Err_PermissionDenied \<and> gs_inner st' = gs_inner st) \<and>
         (let (r, st') = auth_rename W L inner req st in
            if may W L p Op_Read src \<and> may W L p Op_Delete src \<and> may W L p Op_Write dst
            then r = fst (inner down (gs_inner st)) \<and> gs_inner st' = snd (inner down (gs_inner st))
            else r = Inl Err_PermissionDenied \<and> gs_inner st' = gs_inner st)"
proof -
  have a: "is_allowed (w_crate W) (w_host W) (al_policy L) (prin_id p) op (Some (pr_source (delegated_pair W req))) =
      may W L p op src"
    "is_allowed (w_crate W) (w_host W) (al_policy L) (prin_id p) op (Some (pr_destination (delegated_pair W req))) =
      may W L p op dst" for op
    by (simp_all add: delegated_pair_def canonicalize_delegated_def may_def is_allowed_canonicalize C src_def dst_def)
  have x: "pr_extensions (delegated_pair W req) = pr_extensions req" by (simp add: delegated_pair_def)
  show ?thesis
    by (simp add: auth_copy_def auth_rename_def andthen_def resolve_principal_metered_def p check_metered_eq
        Let_def a x down_def)
qed

text \<open>A listing shows exactly the items the caller may stat: on an authorized request the page
  keeps, in order, those items of the wrapped layer's page on which the policy grants \<open>Stat\<close>, and
  its page token; the streaming form delivers the same items and every error of the wrapped
  stream.\<close>

theorem listing_filter_exact:
  assumes C: "crate_ok (w_crate W)" "url_wf (rq_address req)"
    and p: "resolve_principal W L (rq_extensions req) = Inr p" "may W L p Op_List (rq_address req)"
  shows "(inner (delegated W p req) (gs_inner st) = (Inr page, s') \<longrightarrow>
            auth_list W L inner req st =
              (Inr (page\<lparr>page_items := filter (\<lambda>i. may W L p Op_Stat (oi_address i)) (page_items page)\<rparr>),
               (counted_allow st)\<lparr>gs_inner := s'\<rparr>)) \<and>
         (sinner (delegated W p req) (gs_inner st) = (Inr stream, s') \<longrightarrow>
            auth_list_stream W L sinner req st =
              (Inr (filter (case_sum (\<lambda>_. True) (\<lambda>i. may W L p Op_Stat (oi_address i))) stream),
               (counted_allow st)\<lparr>gs_inner := s'\<rparr>))"
proof (intro conjI impI)
  have d: "req\<lparr>rq_address := canonicalize (w_crate W) (rq_address req),
      rq_extensions := stamp p (rq_extensions req)\<rparr> = delegated W p req" by (simp add: delegated_def)
  have f: "map fst (filter snd (zip xs
      (filter_list_batch (w_crate W) (w_host W) (al_policy L) (prin_id p) Op_Stat (map oi_address xs)))) =
      filter (\<lambda>i. may W L p Op_Stat (oi_address i)) xs" for xs
    unfolding filter_list_batch_def map_map comp_def zip_filter may_def ..
  show "auth_list W L inner req st = (Inr (page\<lparr>page_items := filter (\<lambda>i. may W L p Op_Stat (oi_address i)) (page_items page)\<rparr>),
      (counted_allow st)\<lparr>gs_inner := s'\<rparr>)" if "inner (delegated W p req) (gs_inner st) = (Inr page, s')"
    using that by (simp add: auth_list_def andthen_def authorize_on[OF C] p d f succeed_def Let_def)
  have g: "(\<lambda>entry. case entry of
      Inr e \<Rightarrow> if is_allowed (w_crate W) (w_host W) (al_policy L) (prin_id p) Op_Stat (Some (oi_address e))
        then Some (Inr e) else None
      | Inl error \<Rightarrow> Some (Inl error)) =
    (\<lambda>x. if case_sum (\<lambda>_. True) (\<lambda>i. may W L p Op_Stat (oi_address i)) x then Some x else None)"
    by (auto simp: may_def split: sum.split)
  show "auth_list_stream W L sinner req st =
      (Inr (filter (case_sum (\<lambda>_. True) (\<lambda>i. may W L p Op_Stat (oi_address i))) stream),
       (counted_allow st)\<lparr>gs_inner := s'\<rparr>)" if "sinner (delegated W p req) (gs_inner st) = (Inr stream, s')"
    using that unfolding auth_list_stream_def
    by (simp add: andthen_def authorize_on[OF C] p d succeed_def g map_filter_if)
qed

text \<open>A watch delivers exactly the object events whose address the caller may read, together
  with every lapse and every error, in the order of the wrapped stream.\<close>

theorem watch_filter_exact:
  assumes C: "crate_ok (w_crate W)" "url_wf (rq_address req)"
    and p: "resolve_principal W L (rq_extensions req) = Inr p" "may W L p Op_WatchDirectory (rq_address req)"
    and i: "inner (delegated W p req) (gs_inner st) = (Inr stream, s')"
  shows "auth_watch_directory W L inner req st =
     (Inr (filter (case_sum (\<lambda>_. True) (case_change_event (\<lambda>a _. may W L p Op_Read a) (\<lambda>_. True))) stream),
      (counted_allow st)\<lparr>gs_inner := s'\<rparr>)"
proof -
  have d: "req\<lparr>rq_address := canonicalize (w_crate W) (rq_address req),
      rq_extensions := stamp p (rq_extensions req)\<rparr> = delegated W p req" by (simp add: delegated_def)
  have g: "(\<lambda>event. case event of
      Inl error \<Rightarrow> Some (Inl error)
    | Inr (Event_Lapsed x) \<Rightarrow> Some (Inr (Event_Lapsed x))
    | Inr (Event_Object a x) \<Rightarrow>
        (if is_allowed (w_crate W) (w_host W) (al_policy L) (prin_id p) Op_Read (Some a)
         then Some (Inr (Event_Object a x)) else None)) =
    (\<lambda>x. if case_sum (\<lambda>_. True) (case_change_event (\<lambda>a _. may W L p Op_Read a) (\<lambda>_. True)) x
         then Some x else None)"
    by (auto simp: may_def fun_eq_iff split: sum.split change_event.split)
  show ?thesis
    using i unfolding auth_watch_directory_def
    by (simp add: andthen_def authorize_on[OF C] p d succeed_def g map_filter_if)
qed

text \<open>The roots a change names, and those visible to a caller.\<close>

fun change_roots :: "root_info_change \<Rightarrow> root_info list" where
  "change_roots (Change_Snapshot rs) = rs"
| "change_roots (Change_Added rs) = rs"
| "change_roots (Change_Removed rs) = rs"
| "change_roots (Change_Updated rs) = rs"

fun is_snapshot :: "root_info_change result \<Rightarrow> bool" where
  "is_snapshot (Inr (Change_Snapshot rs)) = True"
| "is_snapshot _ = False"

definition sees :: "('j, 'c) world \<Rightarrow> ('j, 'c) auth_layer \<Rightarrow> resolved_principal \<Rightarrow> root_info \<Rightarrow> bool" where
  "sees W L p r \<longleftrightarrow> may W L p Op_Read (ri_root r) \<or> may W L p Op_List (ri_root r)"

lemma is_root_visible_sees:
  "is_root_visible (w_crate W) (w_host W) (al_policy L) (prin_id p) (ri_root r) = sees W L p r"
  by (simp add: is_root_visible_def sees_def may_def)

lemma filter_root_change_roots:
  "filter_root_change W change (prin_id p) (al_policy L) = Some change' \<Longrightarrow>
     change_roots change' = filter (sees W L p) (change_roots change)"
  by (auto simp: filter_root_change_def is_root_visible_sees Let_def split: root_info_change.splits if_splits)

lemma filter_root_change_None:
  "filter_root_change W change (prin_id p) (al_policy L) = None \<longleftrightarrow>
     \<not> is_snapshot (Inr change) \<and> filter (sees W L p) (change_roots change) = []"
  by (cases change) (auto simp: filter_root_change_def is_root_visible_sees Let_def)

lemma filter_root_change_snapshot:
  "filter_root_change W change (prin_id p) (al_policy L) = Some change' \<Longrightarrow>
     is_snapshot (Inr change') = is_snapshot (Inr change)"
  by (auto simp: filter_root_change_def Let_def split: root_info_change.splits if_splits)

definition streamed_roots :: "root_info_change result list \<Rightarrow> root_info list" where
  "streamed_roots stream = concat (map (case_sum (\<lambda>_. []) change_roots) stream)"

lemma update_stream_roots:
  "streamed_roots (filter_root_update_stream W stream (prin_id p) (al_policy L)) =
     filter (sees W L p) (streamed_roots stream) \<and>
   length (filter is_snapshot (filter_root_update_stream W stream (prin_id p) (al_policy L))) =
     length (filter is_snapshot stream)"
proof (induction stream)
  case (Cons item stream)
  have step: "filter_root_update_stream W (item # stream) i P =
      (case (case item of Inr change \<Rightarrow> map_option Inr (filter_root_change W change i P)
             | Inl error \<Rightarrow> Some (Inl error)) of
         None \<Rightarrow> filter_root_update_stream W stream i P
       | Some x \<Rightarrow> x # filter_root_update_stream W stream i P)" for i P
    by (simp only: filter_root_update_stream_def List.map_filter_simps)
  show ?case
  proof (cases item)
    case (Inl e)
    then show ?thesis using Cons unfolding step by (simp add: streamed_roots_def)
  next
    case (Inr change)
    show ?thesis
    proof (cases "filter_root_change W change (prin_id p) (al_policy L)")
      case None
      then show ?thesis
        using Cons Inr filter_root_change_None[of W change p L]
        unfolding step by (simp add: streamed_roots_def)
    next
      case (Some c)
      then show ?thesis
        using Cons Inr filter_root_change_roots[OF Some] filter_root_change_snapshot[OF Some]
        unfolding step by (simp add: streamed_roots_def)
    qed
  qed
qed (simp add: filter_root_update_stream_def streamed_roots_def List.map_filter_simps)

text \<open>C32. Root introspection leaks nothing: for an authorized caller the initial snapshot holds
  exactly the roots of the wrapped layer on which the caller may read or list, and so do the
  changes of the live stream, in order, with every full-state snapshot kept even when nothing in
  it is visible. Asking for one hidden address gives the \<open>NoRoute\<close> of an absent one without
  consulting the wrapped layer.\<close>

theorem hidden_roots_never_leak:
  assumes p: "resolve_principal W L cx = Inr p"
    and C: "crate_ok (w_crate W)" "url_wf u"
  shows "(is_allowed (w_crate W) (w_host W) (al_policy L) (prin_id p) Op_ListAddressRoots None \<longrightarrow>
          inner (stamp p cx) (gs_inner st) = (Inr (snap, Some stream), s') \<longrightarrow>
          (\<exists>stream'. auth_list_address_roots W L inner cx st =
             (Inr (snap\<lparr>snap_roots := filter (sees W L p) (snap_roots snap)\<rparr>, Some stream'),
              (counted_allow st)\<lparr>gs_inner := s'\<rparr>) \<and>
             streamed_roots stream' = filter (sees W L p) (streamed_roots stream) \<and>
             length (filter is_snapshot stream') = length (filter is_snapshot stream))) \<and>
         (\<not> (may W L p Op_Read u \<or> may W L p Op_List u) \<longrightarrow>
          auth_root_info_for W L rinner u cx st = (Inl Err_NoRoute, counted_deny st))"
proof (intro conjI impI)
  assume a: "is_allowed (w_crate W) (w_host W) (al_policy L) (prin_id p) Op_ListAddressRoots None"
    and i: "inner (stamp p cx) (gs_inner st) = (Inr (snap, Some stream), s')"
  have "auth_list_address_roots W L inner cx st =
      (Inr (snap\<lparr>snap_roots := filter (sees W L p) (snap_roots snap)\<rparr>,
            Some (filter_root_update_stream W stream (prin_id p) (al_policy L))),
       (counted_allow st)\<lparr>gs_inner := s'\<rparr>)"
    using a i by (simp add: auth_list_address_roots_def andthen_def authorize_eq p succeed_def
        counted_allow_def is_root_visible_sees)
  then show "\<exists>stream'. auth_list_address_roots W L inner cx st =
             (Inr (snap\<lparr>snap_roots := filter (sees W L p) (snap_roots snap)\<rparr>, Some stream'),
              (counted_allow st)\<lparr>gs_inner := s'\<rparr>) \<and>
             streamed_roots stream' = filter (sees W L p) (streamed_roots stream) \<and>
             length (filter is_snapshot stream') = length (filter is_snapshot stream)"
    using update_stream_roots by blast
next
  assume "\<not> (may W L p Op_Read u \<or> may W L p Op_List u)"
  then show "auth_root_info_for W L rinner u cx st = (Inl Err_NoRoute, counted_deny st)"
    by (simp add: auth_root_info_for_def andthen_def resolve_principal_metered_def p Let_def
        canonicalize_delegated_def is_root_visible_def may_def is_allowed_canonicalize[OF C] counted_deny_def)
qed

text \<open>An access check never widens: the answer allows only what the wrapped layer allows and
  the policy grants for every operation asked about, and an operation is reported denied exactly
  when the wrapped layer denies it or the caller asked about it and the policy denies it.\<close>

theorem check_access_never_widens:
  fixes decision :: access_decision
  assumes C: "crate_ok (w_crate W)" "url_wf (rq_address req)"
    and p: "resolve_principal W L (rq_extensions req) = Inr p" "may W L p Op_CheckAccess (rq_address req)"
    and i: "inner (delegated W p req) (gs_inner st) = (Inr decision, s')"
  shows "\<exists>d. auth_check_access W L inner req st = (Inr d, (counted_allow st)\<lparr>gs_inner := s'\<rparr>) \<and>
    (let asked = rq_input req; granted = (\<lambda>op. may W L p op (rq_address req));
         down = ad_denied_ops decision; up = ad_denied_ops d in
     (ad_allowed d \<longleftrightarrow> ad_allowed decision \<and>
        (ops_read asked \<longrightarrow> granted Op_Read) \<and> (ops_write asked \<longrightarrow> granted Op_Write) \<and>
        (ops_delete asked \<longrightarrow> granted Op_Delete) \<and>
        (ops_update_metadata asked \<longrightarrow> granted Op_UpdateMetadata)) \<and>
     (ops_read up \<longleftrightarrow> ops_read down \<or> ops_read asked \<and> \<not> granted Op_Read) \<and>
     (ops_write up \<longleftrightarrow> ops_write down \<or> ops_write asked \<and> \<not> granted Op_Write) \<and>
     (ops_delete up \<longleftrightarrow> ops_delete down \<or> ops_delete asked \<and> \<not> granted Op_Delete) \<and>
     (ops_update_metadata up \<longleftrightarrow>
        ops_update_metadata down \<or> ops_update_metadata asked \<and> \<not> granted Op_UpdateMetadata))"
proof -
  define d where "d = apply_authz_access_decision (w_crate W) (w_host W) (al_policy L) (prin_id p)
    (canonicalize (w_crate W) (rq_address req)) (rq_input req) decision ''denied by authz policy''"
  have "req\<lparr>rq_address := canonicalize (w_crate W) (rq_address req),
      rq_extensions := stamp p (rq_extensions req)\<rparr> = delegated W p req" by (simp add: delegated_def)
  then have "auth_check_access W L inner req st = (Inr d, (counted_allow st)\<lparr>gs_inner := s'\<rparr>)"
    using i by (simp add: auth_check_access_def andthen_def authorize_on[OF C] p succeed_def d_def)
  moreover have m: "is_allowed (w_crate W) (w_host W) (al_policy L) (prin_id p) op
      (Some (canonicalize (w_crate W) (rq_address req))) = may W L p op (rq_address req)" for op
    by (simp add: may_def is_allowed_canonicalize[OF C])
  ultimately show ?thesis
    by (intro exI[of _ d] conjI) (auto simp: d_def apply_authz_access_decision_def m Let_def)
qed

text \<open>The policy in force after a sequence of events: the one loaded by the last reload that succeeded.\<close>

fun loaded :: "('j, 'c) world \<Rightarrow> 'x gate_event \<Rightarrow> policy option" where
  "loaded W (Gate_Reload toml) =
     (case from_toml (w_crate W) (w_host W) (w_toml W) toml of Inr P \<Rightarrow> Some P | Inl _ \<Rightarrow> None)"
| "loaded W (Gate_Call v req) = None"

definition in_force :: "('j, 'c) world \<Rightarrow> policy \<Rightarrow> 'x gate_event list \<Rightarrow> policy" where
  "in_force W P0 evs = last (P0 # List.map_filter (loaded W) evs)"

text \<open>What the event at a position sends to the wrapped layer.\<close>

definition granted_call ::
    "('j, 'c) world \<Rightarrow> ('j, 'c) auth_layer \<Rightarrow> 'x gate_event list \<Rightarrow> nat \<Rightarrow> (data_verb \<times> 'x request) option" where
  "granted_call W L0 evs i =
     (case evs ! i of
        Gate_Reload _ \<Rightarrow> None
      | Gate_Call v req \<Rightarrow>
          (case resolve_principal W L0 (rq_extensions req) of
             Inl _ \<Rightarrow> None
           | Inr p \<Rightarrow>
               if is_allowed (w_crate W) (w_host W) (in_force W (al_policy L0) (take i evs)) (prin_id p)
                    (required_right v) (Some (canonicalize (w_crate W) (rq_address req)))
               then Some (v, delegated W p req) else None))"

lemma in_force_snoc:
  "in_force W P0 (evs @ [ev]) = (case loaded W ev of Some P \<Rightarrow> P | None \<Rightarrow> in_force W P0 evs)"
  by (simp add: in_force_def List.map_filter_def split: option.splits)

lemma granted_call_append: "i < length evs \<Longrightarrow> granted_call W L0 (evs @ [ev]) i = granted_call W L0 evs i"
proof -
  assume i: "i < length evs"
  then have "(evs @ [ev]) ! i = evs ! i" "take i (evs @ [ev]) = take i evs" by (simp_all add: nth_append)
  then show ?thesis unfolding granted_call_def by (simp only:)
qed

lemma map_filter_restrict:
  "(\<And>x. x \<in> set xs \<Longrightarrow> f x = g x) \<Longrightarrow> List.map_filter f xs = List.map_filter g xs"
  by (induction xs) (simp_all add: List.map_filter_def)

lemma map_filter_snoc:
  "List.map_filter f (xs @ [x]) = List.map_filter f xs @ (case f x of Some y \<Rightarrow> [y] | None \<Rightarrow> [])"
  by (simp add: List.map_filter_def split: option.splits)

lemma granted_calls_snoc:
  "List.map_filter (granted_call W L0 (evs @ [ev])) [0..<length (evs @ [ev])] =
     List.map_filter (granted_call W L0 evs) [0..<length evs] @
     (case granted_call W L0 (evs @ [ev]) (length evs) of Some c \<Rightarrow> [c] | None \<Rightarrow> [])"
proof -
  have "List.map_filter (granted_call W L0 (evs @ [ev])) [0..<length evs] =
      List.map_filter (granted_call W L0 evs) [0..<length evs]"
    by (rule map_filter_restrict) (simp add: granted_call_append)
  then show ?thesis by (simp add: map_filter_snoc)
qed

lemma resolve_principal_policy [simp]: "resolve_principal W (L\<lparr>al_policy := P\<rparr>) = resolve_principal W L"
proof -
  have "al_authn (L\<lparr>al_policy := P\<rparr>) = al_authn L" by simp
  then show ?thesis unfolding resolve_principal_def fun_eq_iff by (simp only: simp_thms)
qed

lemma dispatch_recording:
  "auth_dispatch W L v (recording answer) req st = (r, st') \<Longrightarrow>
     (gs_inner st', gs_allow st') =
     (case resolve_principal W L (rq_extensions req) of
        Inl _ \<Rightarrow> (gs_inner st, gs_allow st)
      | Inr p \<Rightarrow>
          if is_allowed (w_crate W) (w_host W) (al_policy L) (prin_id p) (required_right v)
               (Some (canonicalize (w_crate W) (rq_address req)))
          then (gs_inner st @ [(v, delegated W p req)], gs_allow st + 1) else (gs_inner st, gs_allow st))"
  by (auto simp: dispatch_gated gated_def andthen_def authorize_eq delegated_def recording_def
      split: sum.splits if_splits)

text \<open>C2. Over any sequence of calls and policy reloads, the calls that reached the wrapped layer are
  exactly those whose principal held the right by the policy in force when the call was made: the one
  loaded by the last reload before it that succeeded, or the initial one. They arrive in order, with the
  address canonical, without the credential and with the principal stamped, and they are exactly the
  decisions counted as allowed; the layer ends with the last policy loaded.\<close>

theorem delegated_calls_were_granted:
  assumes "gate_trace W answer (L0, st0) evs (L, st)"
  shows "gs_inner st = gs_inner st0 @ List.map_filter (granted_call W L0 evs) [0..<length evs] \<and>
    gs_allow st = gs_allow st0 + length (List.map_filter (granted_call W L0 evs) [0..<length evs]) \<and>
    al_policy L = in_force W (al_policy L0) evs \<and>
    list_all (\<lambda>(v, req). rq_extensions req AUTH_CREDENTIAL = None \<and> rq_extensions req PRINCIPAL_ID \<noteq> None)
      (List.map_filter (granted_call W L0 evs) [0..<length evs])"
proof -
  have "(\<exists>P. L = L0\<lparr>al_policy := P\<rparr>) \<and> al_policy L = in_force W (al_policy L0) evs \<and>
      gs_inner st = gs_inner st0 @ List.map_filter (granted_call W L0 evs) [0..<length evs] \<and>
      gs_allow st = gs_allow st0 + length (List.map_filter (granted_call W L0 evs) [0..<length evs])"
    using assms
  proof (induction evs "(L, st)" arbitrary: L st rule: gate_trace.induct)
    case start
    have "L0 = L0\<lparr>al_policy := al_policy L0\<rparr>" by (cases L0) simp
    then have "\<exists>P. L0 = L0\<lparr>al_policy := P\<rparr>" ..
    then show ?case by (simp add: in_force_def List.map_filter_def)
  next
    case (event evs y ev)
    obtain L1 st1 where y: "y = (L1, st1)" by (cases y)
    note IH = event(2)[OF y]
    show ?case
    proof (cases ev)
      case (Gate_Call v req)
      then obtain r where "L = L1" "auth_dispatch W L1 v (recording answer) req st1 = (r, st)"
        using event(3) y by (auto elim: gate_callE)
      then show ?thesis
        using IH Gate_Call dispatch_recording[of W L1 v answer req st1 r st]
        unfolding in_force_snoc granted_calls_snoc
        by (auto simp: granted_call_def nth_append split: sum.splits if_splits)
    next
      case (Gate_Reload toml)
      then obtain r where "st = st1" "reload W toml L1 = (r, L)" using event(3) y by (auto elim: gate_reloadE)
      then show ?thesis
        using IH Gate_Reload unfolding in_force_snoc granted_calls_snoc
        by (auto simp: granted_call_def nth_append reload_def split: sum.splits)
    qed
  qed
  moreover have "rq_extensions req AUTH_CREDENTIAL = None \<and> rq_extensions req PRINCIPAL_ID \<noteq> None"
    if "granted_call W L0 evs i = Some (v, req)" for i v req
    using that by (auto simp: granted_call_def delegated_def stamp_apply split: gate_event.splits sum.splits if_splits)
  ultimately show ?thesis by (auto simp: list_all_iff List.map_filter_def)
qed

section \<open>Witnesses\<close>

text \<open>A policy that lets everybody read, write and stat below one prefix, list and watch it, with
  one hidden subtree; callers are anonymous.\<close>

definition sample_rule :: "effect \<Rightarrow> operation list option \<Rightarrow> string \<Rightarrow> nat \<Rightarrow> rule" where
  "sample_rule eff ops p n =
     \<lparr>rule_id = ''r'', rule_effect = eff, rule_principal = ''*'', rule_operations = ops,
      rule_prefix = Some (base_url ''s3'' (Some ''b'') p), rule_prefix_written = Some p, rule_order = n\<rparr>"

definition sample_world :: "(unit, unit) world" where
  "sample_world =
     \<lparr>w_crate = ref_crate, w_host = \<lparr>host_folds_file_paths = False, host_lossy_lower = to_ascii_lowercase\<rparr>,
      w_authn = sample_env, w_toml = (\<lambda>_. None)\<rparr>"

definition sample_layer :: "(unit, unit) auth_layer" where
  "sample_layer =
     \<lparr>al_authn = \<lparr>authn_tcp = Authn_Anonymous, authn_peer = \<lparr>peer_dev_current_user = False\<rparr>\<rparr>,
      al_policy =
        \<lparr>policy_rules =
           [sample_rule Allow (Some [Op_Stat, Op_Read, Op_Write, Op_List, Op_WatchDirectory, Op_CheckAccess]) ''/pub/'' 0,
            sample_rule Deny None ''/pub/private/'' 1],
         policy_decision_ttl = None\<rparr>\<rparr>"

definition sample_request :: "'x \<Rightarrow> string \<Rightarrow> 'x request" where
  "sample_request x p = \<lparr>rq_address = base_url ''s3'' (Some ''b'') p, rq_input = x, rq_extensions = Map.empty\<rparr>"

definition sample_state :: "'s \<Rightarrow> 's gate_state" where
  "sample_state s = \<lparr>gs_inner = s, gs_allow = 0, gs_deny = 0, gs_error = 0\<rparr>"

lemma sample_crate_ok: "crate_ok (w_crate sample_world)"
  by (simp add: sample_world_def)

lemma base_url_wf: "url_wf (base_url sch h (CHR ''/'' # p))"
  by (simp add: url_wf_def base_url_def)

lemma sample_resolve: "resolve_principal sample_world sample_layer Map.empty = Inr anonymous_principal"
  by (simp add: resolve_principal_def authn_resolve_def)

lemma sample_may:
  "may sample_world sample_layer anonymous_principal Op_Read (base_url ''s3'' (Some ''b'') ''/pub/x'')"
  "may sample_world sample_layer anonymous_principal Op_Stat (base_url ''s3'' (Some ''b'') ''/pub/x'')"
  "\<not> may sample_world sample_layer anonymous_principal Op_Delete (base_url ''s3'' (Some ''b'') ''/pub/x'')"
  "may sample_world sample_layer anonymous_principal Op_Write (base_url ''s3'' (Some ''b'') ''/pub/y'')"
  "may sample_world sample_layer anonymous_principal Op_List (base_url ''s3'' (Some ''b'') ''/pub/'')"
  "may sample_world sample_layer anonymous_principal Op_WatchDirectory (base_url ''s3'' (Some ''b'') ''/pub/'')"
  "may sample_world sample_layer anonymous_principal Op_CheckAccess (base_url ''s3'' (Some ''b'') ''/pub/x'')"
  "\<not> may sample_world sample_layer anonymous_principal Op_Stat (base_url ''s3'' (Some ''b'') ''/pub/private/k'')"
  "\<not> may sample_world sample_layer anonymous_principal Op_Read (base_url ''s3'' (Some ''b'') ''/pub/private/k'')"
  "\<not> may sample_world sample_layer anonymous_principal Op_List (base_url ''s3'' (Some ''b'') ''/pub/private/k'')"
  by code_simp+

definition sample_inner :: "data_verb \<Rightarrow> unit request \<Rightarrow> nat \<Rightarrow> url result \<times> nat" where
  "sample_inner v r s = (Inr (rq_address r), s + 1)"

theorem gate_decides_witness:
  "auth_dispatch sample_world sample_layer Verb_read sample_inner (sample_request () ''/pub/x'') (sample_state 0) =
     (Inr (canonicalize ref_crate (base_url ''s3'' (Some ''b'') ''/pub/x'')),
      (counted_allow (sample_state 0))\<lparr>gs_inner := 1\<rparr>) \<and>
   auth_dispatch sample_world sample_layer Verb_delete sample_inner (sample_request () ''/pub/x'') (sample_state 0) =
     (Inl Err_PermissionDenied, counted_deny (sample_state 0))"
proof -
  have wf: "url_wf (rq_address (sample_request () ''/pub/x''))"
    by (simp add: sample_request_def base_url_wf)
  have r: "resolve_principal sample_world sample_layer (rq_extensions (sample_request () ''/pub/x'')) =
      Inr anonymous_principal" by (simp add: sample_request_def sample_resolve)
  have m: "may sample_world sample_layer anonymous_principal (required_right Verb_read)
      (rq_address (sample_request () ''/pub/x''))"
    "\<not> may sample_world sample_layer anonymous_principal (required_right Verb_delete)
      (rq_address (sample_request () ''/pub/x''))"
    using sample_may(1,3) by (simp_all add: sample_request_def)
  have i: "sample_inner v (delegated sample_world anonymous_principal (sample_request () ''/pub/x'')) (gs_inner (sample_state 0)) =
      (Inr (canonicalize ref_crate (base_url ''s3'' (Some ''b'') ''/pub/x'')), 1)" for v
    by (simp add: sample_inner_def delegated_def sample_request_def sample_state_def sample_world_def)
  show ?thesis
    unfolding gate_decides[OF sample_crate_ok wf] r using m by (simp add: i)
qed

definition sample_pair :: "unit pair_request" where
  "sample_pair =
     \<lparr>pr_source = base_url ''s3'' (Some ''b'') ''/pub/x'', pr_destination = base_url ''s3'' (Some ''b'') ''/pub/y'',
      pr_input = (), pr_extensions = Map.empty\<rparr>"

definition sample_pair_inner :: "unit pair_request \<Rightarrow> nat \<Rightarrow> unit result \<times> nat" where
  "sample_pair_inner r s = (Inr (), s + 1)"

theorem copy_rename_rights_witness:
  "gs_inner (snd (auth_copy sample_world sample_layer sample_pair_inner sample_pair (sample_state 0))) = 1 \<and>
   fst (auth_rename sample_world sample_layer sample_pair_inner sample_pair (sample_state 0)) = Inl Err_PermissionDenied"
proof -
  have r: "url_wf (pr_source sample_pair)" "url_wf (pr_destination sample_pair)"
    "resolve_principal sample_world sample_layer (pr_extensions sample_pair) = Inr anonymous_principal"
    by (simp_all add: sample_pair_def base_url_wf sample_resolve)
  have m: "may sample_world sample_layer anonymous_principal Op_Read (pr_source sample_pair)"
    "\<not> may sample_world sample_layer anonymous_principal Op_Delete (pr_source sample_pair)"
    "may sample_world sample_layer anonymous_principal Op_Write (pr_destination sample_pair)"
    using sample_may(1,3,4) by (simp_all add: sample_pair_def)
  show ?thesis
    using copy_rename_rights[OF sample_crate_ok r, of sample_pair_inner "sample_state 0"] m
    by (simp add: case_prod_beta sample_pair_inner_def sample_state_def)
qed

definition sample_page :: list_page where
  "sample_page = \<lparr>page_items = map (\<lambda>p.
       \<lparr>oi_address = base_url ''s3'' (Some ''b'') p, oi_kind = Kind_File, oi_etag = None,
        oi_etag_strength = Etag_Unspecified, oi_version = None, oi_size = None, oi_mtime = None,
        oi_checksums = [], oi_effective_permissions = None, oi_system_metadata = None,
        oi_user_metadata = None, oi_modified_by = None, oi_versioned_address = None\<rparr>)
       [''/pub/x'', ''/pub/private/k''], page_next_token = Some ''2''\<rparr>"

lemma sample_list_request:
  "url_wf (rq_address (sample_request () ''/pub/''))"
  "resolve_principal sample_world sample_layer (rq_extensions (sample_request () ''/pub/'')) = Inr anonymous_principal"
  "may sample_world sample_layer anonymous_principal Op_List (rq_address (sample_request () ''/pub/''))"
  "may sample_world sample_layer anonymous_principal Op_WatchDirectory (rq_address (sample_request () ''/pub/''))"
  using sample_may(5,6) by (simp_all add: sample_request_def base_url_wf sample_resolve)

theorem listing_filter_exact_witness:
  "map_sum id (map oi_address \<circ> page_items)
     (fst (auth_list sample_world sample_layer (\<lambda>_ s. (Inr sample_page, s)) (sample_request () ''/pub/'') (sample_state ()))) =
   Inr [base_url ''s3'' (Some ''b'') ''/pub/x'']"
proof -
  have "auth_list sample_world sample_layer (\<lambda>_ s. (Inr sample_page, s)) (sample_request () ''/pub/'') (sample_state ()) =
      (Inr (sample_page\<lparr>page_items := filter (\<lambda>i. may sample_world sample_layer anonymous_principal Op_Stat (oi_address i))
         (page_items sample_page)\<rparr>), (counted_allow (sample_state ()))\<lparr>gs_inner := ()\<rparr>)"
    using listing_filter_exact[OF sample_crate_ok sample_list_request(1-3),
        where inner = "\<lambda>_ s. (Inr sample_page, s)" and st = "sample_state ()" and page = sample_page
          and s' = "()"] by (simp add: sample_state_def)
  then show ?thesis using sample_may(2,8) by (simp add: sample_page_def)
qed

theorem watch_filter_exact_witness:
  "fst (auth_watch_directory sample_world sample_layer
      (\<lambda>_ s. (Inr [Inr (Event_Object (base_url ''s3'' (Some ''b'') ''/pub/private/k'') 1),
                   Inr (Event_Lapsed (2::nat)),
                   Inr (Event_Object (base_url ''s3'' (Some ''b'') ''/pub/x'') 3)], s))
      (sample_request () ''/pub/'') (sample_state ())) =
   Inr [Inr (Event_Lapsed 2), Inr (Event_Object (base_url ''s3'' (Some ''b'') ''/pub/x'') 3)]"
proof -
  let ?stream = "[Inr (Event_Object (base_url ''s3'' (Some ''b'') ''/pub/private/k'') 1),
    Inr (Event_Lapsed (2::nat)), Inr (Event_Object (base_url ''s3'' (Some ''b'') ''/pub/x'') 3)]"
  show ?thesis
    using watch_filter_exact[where inner = "\<lambda>_ s. (Inr ?stream, s)" and st = "sample_state ()"
        and stream = ?stream and s' = "()", OF sample_crate_ok sample_list_request(1,2,4)] sample_may(1,9)
    by simp
qed

theorem hidden_roots_never_leak_witness:
  "auth_root_info_for sample_world sample_layer (\<lambda>_ s. (Inl Err_Internal, s + 1))
     (base_url ''s3'' (Some ''b'') ''/pub/private/k'') Map.empty (sample_state (0::nat)) =
   (Inl Err_NoRoute, counted_deny (sample_state 0))"
  using hidden_roots_never_leak[OF sample_resolve sample_crate_ok,
      where u = "base_url ''s3'' (Some ''b'') ''/pub/private/k''" and st = "sample_state (0::nat)"
        and rinner = "\<lambda>_ s. (Inl Err_Internal, s + 1)"]
    sample_may(9,10) by (simp add: base_url_wf)

theorem check_access_never_widens_witness:
  "\<exists>d. fst (auth_check_access sample_world sample_layer
        (\<lambda>_ s. (Inr \<lparr>ad_allowed = True,
                    ad_denied_ops = \<lparr>ops_read = False, ops_write = False, ops_delete = False, ops_update_metadata = False\<rparr>,
                    ad_reason = None\<rparr>, s))
        (sample_request \<lparr>ops_read = True, ops_write = False, ops_delete = True, ops_update_metadata = False\<rparr> ''/pub/x'')
        (sample_state ())) = Inr d \<and> \<not> ad_allowed d \<and> ops_delete (ad_denied_ops d) \<and> \<not> ops_read (ad_denied_ops d)"
proof -
  let ?asked = "\<lparr>ops_read = True, ops_write = False, ops_delete = True, ops_update_metadata = False\<rparr>"
  let ?down = "\<lparr>ad_allowed = True,
    ad_denied_ops = \<lparr>ops_read = False, ops_write = False, ops_delete = False, ops_update_metadata = False\<rparr>,
    ad_reason = None\<rparr>"
  let ?req = "sample_request ?asked ''/pub/x''"
  have r: "url_wf (rq_address ?req)"
    "resolve_principal sample_world sample_layer (rq_extensions ?req) = Inr anonymous_principal"
    "may sample_world sample_layer anonymous_principal Op_CheckAccess (rq_address ?req)"
    using sample_may(7) by (simp_all add: sample_request_def base_url_wf sample_resolve)
  from check_access_never_widens[where inner = "\<lambda>_ s. (Inr ?down, s)" and st = "sample_state ()"
      and decision = ?down and s' = "()", OF sample_crate_ok r] obtain d where
    "fst (auth_check_access sample_world sample_layer (\<lambda>_ s. (Inr ?down, s)) ?req (sample_state ())) = Inr d"
    "\<not> ad_allowed d" "ops_delete (ad_denied_ops d)" "\<not> ops_read (ad_denied_ops d)"
    using sample_may(1,3) by (auto simp: sample_request_def Let_def)
  then show ?thesis by blast
qed

definition closing_world :: "(unit, unit) world" where
  "closing_world = sample_world\<lparr>w_toml := (\<lambda>_. Some \<lparr>toml_plugin = AUTHZ_POLICY_KIND_TOML,
     toml_decision_ttl_max_seconds = None, toml_prefix_escapes_are_decoded = True, toml_policy = []\<rparr>)\<rparr>"

lemma closing_world_resolve: "resolve_principal closing_world sample_layer Map.empty = Inr anonymous_principal"
  by (simp add: closing_world_def resolve_principal_def authn_resolve_def)

lemma closing_world_loads:
  "from_toml (w_crate closing_world) (w_host closing_world) (w_toml closing_world) toml =
     Inr \<lparr>policy_rules = [], policy_decision_ttl = None\<rparr>"
  by (simp add: from_toml_def closing_world_def, code_simp)

lemma closing_world_decides:
  "is_allowed (w_crate closing_world) (w_host closing_world) (al_policy sample_layer) (prin_id anonymous_principal) Op_Read
     (Some (canonicalize (w_crate closing_world) (base_url ''s3'' (Some ''b'') ''/pub/x'')))"
  "\<not> is_allowed (w_crate closing_world) (w_host closing_world) \<lparr>policy_rules = [], policy_decision_ttl = None\<rparr>
     (prin_id anonymous_principal) Op_Read (Some (canonicalize (w_crate closing_world) (base_url ''s3'' (Some ''b'') ''/pub/x'')))"
  by code_simp+

lemmas closing_world_facts = closing_world_resolve closing_world_loads closing_world_decides

theorem delegated_calls_were_granted_witness:
  "\<exists>L st. gate_trace closing_world
       (\<lambda>v (r :: unit request) (calls :: unit call_log). (Inr (rq_address r) :: url result)) (sample_layer, sample_state [])
       [Gate_Call Verb_read (sample_request () ''/pub/x''), Gate_Reload [], Gate_Call Verb_read (sample_request () ''/pub/x'')] (L, st) \<and>
     gs_inner st = [(Verb_read, delegated closing_world anonymous_principal (sample_request () ''/pub/x''))] \<and> gs_allow st = 1 \<and>
     policy_rules (al_policy L) = []"
proof -
  let ?answer = "\<lambda>v (r :: unit request) (calls :: unit call_log). (Inr (rq_address r) :: url result)"
  let ?req = "sample_request () ''/pub/x''"
  let ?call = "\<lambda>L. snd \<circ> auth_dispatch closing_world L Verb_read (recording ?answer) ?req"
  define L where "L = snd (reload closing_world [] sample_layer)"
  define st where "st = ?call L (?call sample_layer (sample_state []))"
  have step: "gate_step closing_world ?answer (L, x) (Gate_Call Verb_read ?req) (L, ?call L x)" for L x
    unfolding comp_def by (rule gate_step.call) (rule surjective_pairing)
  have re: "gate_step closing_world ?answer (sample_layer, x) (Gate_Reload []) (L, x)" for x
    unfolding L_def by (rule gate_step.reload) (rule surjective_pairing)
  have run: "gate_trace closing_world ?answer (sample_layer, sample_state [])
      [Gate_Call Verb_read ?req, Gate_Reload [], Gate_Call Verb_read ?req] (L, st)"
    using gate_trace.event[OF gate_trace.event[OF gate_trace.event[OF gate_trace.start step] re] step]
    unfolding st_def by simp
  have calls: "List.map_filter (granted_call closing_world sample_layer
        [Gate_Call Verb_read ?req, Gate_Reload [], Gate_Call Verb_read ?req]) [0..<3] =
      [(Verb_read, delegated closing_world anonymous_principal ?req)]"
    by (simp add: List.map_filter_def granted_call_def in_force_def closing_world_facts sample_request_def upt_rec)
  have "length [Gate_Call Verb_read ?req, Gate_Reload [], Gate_Call Verb_read ?req] = 3" by simp
  note final = delegated_calls_were_granted[OF run, unfolded this calls]
  moreover have "in_force closing_world (al_policy sample_layer)
      [Gate_Call Verb_read ?req, Gate_Reload [], Gate_Call Verb_read ?req] =
      \<lparr>policy_rules = [], policy_decision_ttl = None\<rparr>"
    by (simp add: in_force_def List.map_filter_def closing_world_facts)
  ultimately show ?thesis using run
    by (intro exI[of _ L] exI[of _ st]) (simp add: sample_state_def)
qed

end
