(* ===== verification/Ov_Policy_Laws.thy ===== *)
theory Ov_Policy_Laws
  imports Ov_Policy
begin

text \<open>
  What the authorization policy guarantees: the selected rule is the unique most specific
  matching rule, a loaded policy never resolves a tie between two differently spelled scopes,
  accepted prefixes spell the scope they cover, and on platforms that do not fold \<open>file:\<close>
  paths the matcher covers exactly what the router's containment covers.
\<close>

section \<open>Operations\<close>

lemma operation_from_name_name: "operation_from_name (operation_name op) = Some op"
  by (cases op) (simp_all add: operation_from_name_def)

lemma operation_from_name_Some: "operation_from_name s = Some op \<Longrightarrow> operation_name op = s"
  unfolding operation_from_name_def by (simp split: if_splits)

section \<open>Segments\<close>

definition lower_ok :: "host \<Rightarrow> bool" where
  "lower_ok H \<longleftrightarrow> (\<forall>s. host_lossy_lower H s = [] \<longleftrightarrow> s = [])"

definition widening :: "host \<Rightarrow> url \<Rightarrow> bool \<Rightarrow> bool \<Rightarrow> string \<Rightarrow> string" where
  "widening H u fld widen s =
     (if fld \<and> url_scheme u = ''file'' \<and> widen then host_lossy_lower H s else s)"

definition trim_segs :: "string list \<Rightarrow> string list" where
  "trim_segs xs = (if xs \<noteq> [] \<and> last xs = [] then butlast xs else xs)"

definition host_path :: "url \<Rightarrow> bool \<Rightarrow> string option" where
  "host_path u fld =
     map_option (\<lambda>ss. let p = path_of (map decode_segment ss) in
        strip_slash (if fld \<and> url_scheme u = ''file'' then fold_file_path p else p)) (path_segments u)"

lemma segments_host_path:
  "segments_with_host_semantics_widened H u fld widen =
     map_option (\<lambda>p. trim_segs (map (widening H u fld widen) (segs p))) (host_path u fld)"
proof -
  have w: "widening H u fld widen =
      (\<lambda>s. if (fld \<and> url_scheme u = ''file'') \<and> widen then host_lossy_lower H s else s)"
    by (auto simp: widening_def)
  show ?thesis
    unfolding segments_with_host_semantics_widened_def host_path_def trim_segs_def Let_def w
    by (cases "path_segments u") simp_all
qed

lemma segments_widened:
  assumes "lower_ok H"
  shows "segments_with_host_semantics_widened H u fld widen =
    map_option (map (widening H u fld widen)) (segments_with_host_semantics H u fld)"
proof -
  let ?f = "widening H u fld widen"
  have f: "?f s = [] \<longleftrightarrow> s = []" for s
    using assms by (simp add: widening_def lower_ok_def)
  have "trim_segs (map ?f xs) = map ?f (trim_segs xs)" for xs
    by (cases "xs = []") (simp_all add: trim_segs_def last_map f map_butlast)
  moreover have "map (widening H u fld False) xs = xs" for xs
    by (simp add: widening_def map_idI)
  ultimately show ?thesis
    unfolding segments_with_host_semantics_def segments_host_path
    by (cases "host_path u fld") simp_all
qed

lemma zip_prefix:
  "length a \<le> length b \<and> list_all (\<lambda>(x, y). x = y) (zip a b) \<longleftrightarrow> prefix a b"
proof (induction a arbitrary: b)
  case (Cons x xs)
  then show ?case by (cases b) auto
qed simp

lemma scope_covers_iff:
  assumes "lower_ok H"
  shows "scope_covers H p a eff \<longleftrightarrow>
    url_scheme p = url_scheme a \<and> url_host p = url_host a \<and> url_port p = url_port a \<and>
    (\<exists>ss ts. scope_segments H p = Some ss \<and> scope_segments H a = Some ts \<and>
       prefix (map (widening H p (host_folds_file_paths H) (eff = Deny)) ss)
              (map (widening H p (host_folds_file_paths H) (eff = Deny)) ts))"
proof -
  have "url_scheme p = url_scheme a \<Longrightarrow> widening H a = widening H p"
    by (intro ext) (simp add: widening_def)
  then show ?thesis
    unfolding scope_covers_def covers_with_host_semantics_def segments_widened[OF assms]
      scope_segments_def Let_def zip_prefix
    by (auto split: option.splits)
qed

section \<open>The selected rule\<close>

lemma load_rules_nth:
  "load_rules C k ps = Inr rs \<Longrightarrow> i < length rs \<Longrightarrow>
     rule_order (rs ! i) = k + i \<and> (rule_prefix (rs ! i) = None \<longleftrightarrow> rule_prefix_written (rs ! i) = None)"
proof (induction ps arbitrary: k rs i)
  case (Cons p ps)
  then obtain r rs' where r: "load_rule C k p = Inr r" "load_rules C (k + 1) ps = Inr rs'" "rs = r # rs'"
    by (auto split: sum.splits)
  have "rule_order r = k \<and> (rule_prefix r = None \<longleftrightarrow> rule_prefix_written r = None)"
    using r(1) by (auto simp: load_rule_def Let_def split: sum.splits if_splits)
  with Cons.IH[OF r(2)] Cons.prems(2) r(3) show ?case by (cases i) auto
qed simp

lemma from_config_rules:
  assumes "from_config C H cfg = Inr P"
  shows "load_rules C 0 (toml_policy cfg) = Inr (policy_rules P)"
    "reject_co_matching_equal_scopes H (host_folds_file_paths H) (policy_rules P) = Inr ()"
  using assms by (auto simp: from_config_def split: if_splits sum.splits)

lemma policy_rules_distinct_order:
  assumes "from_config C H cfg = Inr P" "r \<in> set (policy_rules P)" "s \<in> set (policy_rules P)"
    "rule_order r = rule_order s"
  shows "r = s"
  using load_rules_nth[OF from_config_rules(1)[OF assms(1)]] assms(2-4)
  by (metis add_left_cancel in_set_conv_nth)

lemma reject_none:
  assumes "reject_co_matching_equal_scopes H fld rs = Inr ()" "i < j" "j < length rs"
  shows "\<not> co_matching_equal_scopes H fld (rs ! i) (rs ! j)"
  using assms
proof (induction rs arbitrary: i j)
  case (Cons r rs)
  then have h: "\<not> list_ex (co_matching_equal_scopes H fld r) rs"
    "reject_co_matching_equal_scopes H fld rs = Inr ()" by (auto split: if_splits)
  show ?case
  proof (cases i)
    case 0
    then show ?thesis using h Cons.prems by (auto simp: list_ex_iff nth_Cons split: nat.splits)
  next
    case (Suc i')
    then obtain j' where "j = Suc j'" using Cons.prems by (cases j) auto
    with Suc Cons.IH[OF h(2), of i' j'] Cons.prems show ?thesis by simp
  qed
qed simp

lemma matches_operations:
  assumes "rule_matches H r pr op a" "rule_matches H s pr op a"
  shows "principals_intersect (rule_principal r) (rule_principal s)"
    "operations_intersect (rule_operations r) (rule_operations s)"
  using assms principals_intersect_complete
  by (auto simp: rule_matches_def operations_intersect_def list_ex_iff split: option.splits if_splits)

lemma prefix_take: "prefix a b \<Longrightarrow> a = take (length a) b"
  by (auto simp: prefix_def)

text \<open>Two covering scopes of equal depth are equal once both are read with the wider comparison.\<close>

lemma equal_depth_scopes:
  assumes "lower_ok H" "scope_covers H p a e" "scope_covers H q a f"
    and "map_option length (scope_segments H p) = map_option length (scope_segments H q)"
  shows "segments_with_host_semantics_widened H p (host_folds_file_paths H) (e = Deny \<or> f = Deny) =
         segments_with_host_semantics_widened H q (host_folds_file_paths H) (e = Deny \<or> f = Deny)"
    and "segments_with_host_semantics_widened H p (host_folds_file_paths H) (e = Deny \<or> f = Deny) \<noteq> None"
proof -
  let ?F = "host_folds_file_paths H"
  let ?w = "\<lambda>b. widening H p ?F b"
  from assms(2) obtain ss ts where s: "scope_segments H p = Some ss" "scope_segments H a = Some ts"
    "prefix (map (?w (e = Deny)) ss) (map (?w (e = Deny)) ts)" and sch: "url_scheme p = url_scheme a"
    unfolding scope_covers_iff[OF assms(1)] by blast
  from assms(3) obtain us where u: "scope_segments H q = Some us"
    "prefix (map (widening H q ?F (f = Deny)) us) (map (widening H q ?F (f = Deny)) ts)"
    and sch': "url_scheme q = url_scheme a"
    unfolding scope_covers_iff[OF assms(1)] using s(2) by auto
  have wq: "widening H q = widening H p" using sch sch' by (intro ext) (simp add: widening_def)
  have len: "length ss = length us" using assms(4) s(1) u(1) by simp
  have take_eq: "map (?w (e = Deny)) ss = take (length ss) (map (?w (e = Deny)) ts)"
    "map (?w (f = Deny)) us = take (length ss) (map (?w (f = Deny)) ts)"
    using prefix_take[OF s(3)] prefix_take[OF u(2)] len unfolding wq by simp_all
  have "map (?w (e = Deny \<or> f = Deny)) ss = map (?w (e = Deny \<or> f = Deny)) us"
  proof (cases "(e = Deny) = (f = Deny)")
    case True
    then have w: "(e = Deny \<or> f = Deny) = (e = Deny)" and fe: "(f = Deny) = (e = Deny)" by auto
    show ?thesis unfolding w using take_eq(1) take_eq(2)[unfolded fe] by (rule trans[OF _ sym])
  next
    case False
    have id: "map (?w False) xs = xs" for xs by (simp add: widening_def map_idI)
    from False consider "e = Deny" "f \<noteq> Deny" | "e \<noteq> Deny" "f = Deny" by auto
    then show ?thesis
    proof cases
      case 1
      then have "us = take (length ss) ts" "map (?w True) ss = map (?w True) (take (length ss) ts)"
        using take_eq id by (auto simp: take_map)
      with 1 show ?thesis by simp
    next
      case 2
      then have "ss = take (length ss) ts" "map (?w True) us = map (?w True) (take (length ss) ts)"
        using take_eq id by (auto simp: take_map)
      with 2 show ?thesis by simp
    qed
  qed
  with s(1) u(1) show "segments_with_host_semantics_widened H p ?F (e = Deny \<or> f = Deny) =
         segments_with_host_semantics_widened H q ?F (e = Deny \<or> f = Deny)"
    unfolding segments_widened[OF assms(1)] by (simp add: scope_segments_def wq)
  show "segments_with_host_semantics_widened H p ?F (e = Deny \<or> f = Deny) \<noteq> None"
    using s(1) unfolding segments_widened[OF assms(1)] by (simp add: scope_segments_def)
qed

definition same_scope :: "host \<Rightarrow> url \<times> effect \<Rightarrow> url \<times> effect \<Rightarrow> bool" where
  "same_scope H = (\<lambda>(p, e) (q, f).
     (let widen = (e = Deny \<or> f = Deny); fld = host_folds_file_paths H in
      segments_with_host_semantics_widened H p fld widen \<noteq> None \<and>
      segments_with_host_semantics_widened H p fld widen =
        segments_with_host_semantics_widened H q fld widen \<and>
      url_scheme p = url_scheme q \<and> url_host p = url_host q \<and> url_port p = url_port q))"

definition scope_depth :: "host \<Rightarrow> url \<Rightarrow> nat" where
  "scope_depth H p = (case scope_segments H p of None \<Rightarrow> 0 | Some ss \<Rightarrow> length ss)"

text \<open>The prefixes of a policy are scopes too: ranked by depth, with the platform carried along.\<close>

interpretation policy_scopes: nested_scopes
  "\<lambda>(H, p, e). lower_ok H" "\<lambda>_. True" "\<lambda>(H, p, e) (H', a). H = H' \<and> scope_covers H p a e"
  "\<lambda>(H, p, e). scope_depth H p" "\<lambda>(H, s) (H', t). H = H' \<and> same_scope H s t"
proof (unfold_locales, clarsimp)
  fix H p e q f a
  assume *: "lower_ok H" "scope_covers H p a e" "scope_covers H q a f" "scope_depth H p = scope_depth H q"
  then obtain ss ts where "scope_segments H p = Some ss" "scope_segments H q = Some ts"
    unfolding scope_covers_iff[OF *(1)] by blast
  with *(4) have "map_option length (scope_segments H p) = map_option length (scope_segments H q)"
    by (simp add: scope_depth_def)
  from equal_depth_scopes[OF *(1-3) this] *(2,3) show "same_scope H (p, e) (q, f)"
    unfolding scope_covers_iff[OF *(1)] same_scope_def by (simp add: Let_def)
qed

lemma tie_same_spelling:
  assumes "from_config C H cfg = Inr P" "lower_ok H" "i < j" "j < length (policy_rules P)"
    and "rule_matches H (policy_rules P ! i) pr op (Some a)"
    and "rule_matches H (policy_rules P ! j) pr op (Some a)"
    and "rule_prefix (policy_rules P ! i) \<noteq> None" "rule_prefix (policy_rules P ! j) \<noteq> None"
    and "prefix_segments H (policy_rules P ! i) = prefix_segments H (policy_rules P ! j)"
  shows "rule_prefix_written (policy_rules P ! i) = rule_prefix_written (policy_rules P ! j)"
proof -
  let ?r = "policy_rules P ! i" and ?s = "policy_rules P ! j"
  obtain p q where pq: "rule_prefix ?r = Some p" "rule_prefix ?s = Some q" using assms(7,8) by auto
  have cov: "scope_covers H p a (rule_effect ?r)" "scope_covers H q a (rule_effect ?s)"
    using assms(5,6) pq by (auto simp: rule_matches_def split: if_splits)
  moreover have "scope_depth H p = scope_depth H q"
    using assms(9) pq by (simp add: prefix_segments_def scope_depth_def)
  ultimately have same: "same_scope H (p, rule_effect ?r) (q, rule_effect ?s)"
    using policy_scopes.tie[of "(H, p, rule_effect ?r)" "(H, q, rule_effect ?s)" "(H, a)"] assms(2) by simp
  have "\<not> co_matching_equal_scopes H (host_folds_file_paths H) ?r ?s"
    using reject_none[OF from_config_rules(2)[OF assms(1)] assms(3,4)] .
  then have "case (rule_prefix_written ?r, rule_prefix_written ?s) of
      (Some w, Some w') \<Rightarrow> w = w' | _ \<Rightarrow> False"
    using matches_operations[OF assms(5,6)] pq same
    by (auto simp: co_matching_equal_scopes_def same_scope_def Let_def split: option.splits if_splits)
  then show ?thesis by (auto split: option.splits)
qed

lemma matching_rule_max:
  assumes "from_config C H cfg = Inr P" "matching_rule C H P pr op a = Some r"
    and "s \<in> set (policy_rules P)" "rule_matches H s pr op (map_option (canonicalize C) a)" "s \<noteq> r"
  shows "rule_rank H s < rule_rank H r"
proof -
  have r: "r \<in> set (policy_rules P)"
    using assms(2) by (auto simp: matching_rule_def dest: max_by_key_in)
  have "rule_rank H s \<le> rule_rank H r"
    using assms(2-4) by (auto simp: matching_rule_def Let_def intro: max_by_key_max)
  moreover have "rule_rank H s \<noteq> rule_rank H r"
    using policy_rules_distinct_order[OF assms(1,3) r] assms(5) by (auto simp: rule_rank_def)
  ultimately show ?thesis by simp
qed

section \<open>Agreement with routing\<close>

lemma canonical_host_path:
  assumes "canonical_url u"
  shows "host_path u False = Some (key u)" "trim_segs (segs (key u)) = real_segs (key u)"
proof -
  from assms obtain p: "url_path u = percent_encoded (canonical_path_set u) (CHR ''/'' # key u)"
    and n: "norm_segs (segs (CHR ''/'' # key u))" by (rule canonical_urlE)
  have inner: "\<forall>s \<in> set (butlast (segs (key u))). s \<noteq> []" using n by (simp add: norm_segs_def)
  have "path_segments u = Some (map (percent_encoded (canonical_path_set u)) (segs (key u)))"
    by (simp add: path_segments_def p percent_encoded_slash segs_encoded)
  moreover have "map decode_segment (map (percent_encoded (canonical_path_set u)) ss) = ss" for ss
    by (simp add: decode_segment_def percent_decode_encoded comp_def map_idI)
  moreover have "strip_slash (key u) = key u"
    using inner by (auto simp: strip_slash_def strip_prefix_Some split: option.splits)
  ultimately show "host_path u False = Some (key u)" by (simp add: host_path_def)
  obtain bs l where bl: "segs (key u) = bs @ [l]" by (cases "segs (key u)" rule: rev_cases) auto
  with inner show "trim_segs (segs (key u)) = real_segs (key u)"
    by (auto simp: trim_segs_def filter_id_conv)
qed

lemma canonical_scope_segments:
  assumes "canonical_url u" "\<not> host_folds_file_paths H"
  shows "scope_segments H u = Some (real_segs (key u))"
proof -
  have "map (widening H u False False) xs = xs" for xs by (simp add: widening_def map_idI)
  then show ?thesis
    using canonical_host_path[OF assms(1)] assms(2)
    by (simp add: scope_segments_def segments_with_host_semantics_def segments_host_path)
qed

lemma prefix_map_inj: "(\<And>x y. f x = f y \<longleftrightarrow> x = y) \<Longrightarrow> prefix (map f xs) (map f ys) \<longleftrightarrow> prefix xs ys"
proof (induction xs arbitrary: ys)
  case (Cons x xs)
  then show ?case by (cases ys) auto
qed simp

lemma percent_encoded_inj:
  "S (CHR ''%'') \<Longrightarrow> percent_encoded S x = percent_encoded S y \<longleftrightarrow> x = y"
  by (metis percent_decode_encoded)

lemma scope_covers_ancestor:
  assumes "canonical_url p" "canonical_url a" "url_query p = None" "\<not> host_folds_file_paths H" "lower_ok H"
  shows "scope_covers H p a eff \<longleftrightarrow> is_ancestor_or_self p a"
proof (cases "url_scheme p = url_scheme a \<and> url_host p = url_host a")
  case True
  then have S: "canonical_path_set a = canonical_path_set p"
    unfolding canonical_path_set_def by (elim conjE) (simp only:)
  have id: "map (widening H p False w) xs = xs" for w xs by (simp add: widening_def map_idI)
  have "is_ancestor_or_self p a \<longleftrightarrow> url_port p = url_port a \<and> prefix (real_segs (key p)) (real_segs (key a))"
    using True assms(3)
    by (simp add: ancestor_iff[OF canonical_plain[OF assms(1)] canonical_plain[OF assms(2)]]
        canonical_node_segs[OF assms(1)] canonical_node_segs[OF assms(2)] S prefix_map_inj
        percent_encoded_inj)
  then show ?thesis
    using True assms(4) unfolding scope_covers_iff[OF assms(5)]
    by (simp add: canonical_scope_segments assms id)
next
  case False
  then show ?thesis by (auto simp: scope_covers_def is_ancestor_or_self_def)
qed

lemma prefix_segments_rank:
  assumes "rule_prefix r = Some p" "canonical_url p" "\<not> host_folds_file_paths H"
  shows "prefix_segments H r = node_segment_count p"
  using assms by (simp add: prefix_segments_def canonical_scope_segments node_segment_count_segs
      canonical_node_segs)

section \<open>Accepted prefixes\<close>

lemma first_resolving_tail:
  "0 < i \<Longrightarrow> i + length ss = n \<Longrightarrow> first_resolving i n ss = None \<longleftrightarrow>
     (\<forall>s \<in> set ss. \<not> is_dot s) \<and> (\<forall>s \<in> set (butlast ss). s \<noteq> [])"
proof (induction ss arbitrary: i)
  case (Cons s ss)
  have "i + 1 < n \<longleftrightarrow> ss \<noteq> []" using Cons.prems by (cases ss) auto
  with Cons.IH[of "i + 1"] Cons.prems show ?case by (auto simp: is_dot_def)
qed simp

lemma first_resolving_norm: "ss \<noteq> [] \<Longrightarrow> first_resolving 0 (length ss) ss = None \<longleftrightarrow> norm_segs ss"
  using first_resolving_tail[of 1 "tl ss" "length ss"]
  by (cases ss) (auto simp: norm_segs_def is_dot_def)

lemma hex_pair_slash:
  assumes "hex_digit x = Some h" "hex_digit y = Some l" "char_of (h * 16 + l) = CHR ''/''"
  shows "to_ascii_lowercase [CHR ''%'', x, y] = ''%2f''"
proof -
  have bounds: "h < 16" "l < 16"
    using assms(1,2) by (auto simp: hex_digit_def split: if_splits)
  then have "h * 16 + l = 47"
    using arg_cong[OF assms(3), of "of_char :: char \<Rightarrow> nat"] by simp
  with bounds have "h = 2" "l = 15" by presburger+
  then have "byte x = 50" "byte y = 102 \<or> byte y = 70"
    using assms(1,2) by (auto simp: hex_digit_def split: if_splits)
  moreover have "char_of (50 :: nat) = CHR ''2''" "char_of (102 :: nat) = CHR ''f''"
    "char_of (70 :: nat) = CHR ''F''" by code_simp+
  ultimately have "x = CHR ''2''" "y = CHR ''f'' \<or> y = CHR ''F''"
    by (metis char_of_char)+
  moreover have "ascii_lower (CHR ''2'') = CHR ''2''" "ascii_lower (CHR ''f'') = CHR ''f''"
    "ascii_lower (CHR ''F'') = CHR ''f''" "ascii_lower (CHR ''%'') = CHR ''%''" by code_simp+
  ultimately show ?thesis by auto
qed

definition escape_at :: "char \<Rightarrow> string \<Rightarrow> bool" where
  "escape_at c r \<longleftrightarrow> c = CHR ''%'' \<and>
     (case r of x # y # _ \<Rightarrow> hex_digit x \<noteq> None \<and> hex_digit y \<noteq> None | _ \<Rightarrow> False)"

lemma percent_decode_no_escape: "\<not> escape_at c r \<Longrightarrow> percent_decode (c # r) = c # percent_decode r"
  by (subst percent_decode.simps(2)) (auto simp: escape_at_def split: list.splits option.splits)

lemma hd_segs: "hd (segs r) = takeWhile (\<lambda>c. c \<noteq> CHR ''/'') r"
  by (induction r) (auto split: list.splits simp: neq_Nil_conv)

lemma segs_Cons: "c \<noteq> CHR ''/'' \<Longrightarrow> segs (c # r) = (c # hd (segs r)) # tl (segs r)"
  using segs_prepend[of "[c]" r] by simp

lemma escape_at_takeWhile:
  "escape_at c (takeWhile P r) \<Longrightarrow> escape_at c r"
  by (cases r; cases "tl r"; auto simp: escape_at_def split: if_splits)

lemma map_hd_tl: "xs \<noteq> [] \<Longrightarrow> map f xs = f (hd xs) # map f (tl xs)"
  by (cases xs) auto

lemma segs_decode:
  "\<not> sublist ''%2f'' (to_ascii_lowercase p) \<Longrightarrow> segs (percent_decode p) = map percent_decode (segs p)"
proof (induction p rule: length_induct)
  case (1 p)
  have sub: "\<not> sublist ''%2f'' (to_ascii_lowercase z)" if "p = w @ z" for w z
    using 1(2) that by (auto simp: sublist_append)
  show ?case
  proof (cases p)
    case (Cons c r)
    have IH: "segs (percent_decode r) = map percent_decode (segs r)"
      using 1(1) sub[of "[c]" r] Cons by simp
    show ?thesis
    proof (cases "escape_at c r")
      case True
      then obtain x y z h l where e: "c = CHR ''%''" "r = x # y # z" "hex_digit x = Some h" "hex_digit y = Some l"
        by (auto simp: escape_at_def split: list.splits)
      have "char_of (h * 16 + l) \<noteq> CHR ''/''"
      proof
        assume "char_of (h * 16 + l) = CHR ''/''"
        then have "to_ascii_lowercase p = ''%2f'' @ to_ascii_lowercase z"
          using hex_pair_slash[OF e(3,4)] Cons e by simp
        with 1(2) show False by (simp add: sublist_appendI[of _ "[]", simplified])
      qed
      moreover have "x \<noteq> CHR ''/''" "y \<noteq> CHR ''/''" using e by auto
      moreover have "segs (percent_decode z) = map percent_decode (segs z)"
        using 1(1) sub[of "[c, x, y]" z] Cons e by simp
      ultimately show ?thesis
        using Cons e by (simp add: percent_decode_escape segs_Cons map_hd_tl del: split_on.simps)
    next
      case False
      note d = percent_decode_no_escape[OF False]
      show ?thesis
      proof (cases "c = CHR ''/''")
        case True
        with Cons d IH show ?thesis by simp
      next
        case no: False
        have "\<not> escape_at c (hd (segs r))" using False escape_at_takeWhile unfolding hd_segs by blast
        with Cons d IH no show ?thesis
          by (simp add: segs_Cons map_hd_tl percent_decode_no_escape del: split_on.simps)
      qed
    qed
  qed simp
qed

lemma accepted_prefix:
  assumes "parse_prefix C s = Inr (Some u)" "raw_prefix_path s = Some p"
  shows "parse C s = Inr u" "refused_config_component s = None"
    "norm_segs (segs (if eq_ignore_ascii_case (fst (the (split_once (CHR '':'') s))) ''file''
       then fold_backslashes (percent_decode p) else percent_decode p))"
    "segs (percent_decode p) = map percent_decode (segs p)"
proof -
  have g: "parse C s = Inr u" "refused_config_component s = None"
    "resolving_prefix_segment s = None" "\<not> prefix_escape_refused s u"
    using assms(1) by (auto simp: parse_prefix_def split: if_splits sum.splits)
  show "parse C s = Inr u" "refused_config_component s = None" using g by auto
  obtain sch rest where sp: "split_once (CHR '':'') s = Some (sch, rest)"
    using assms(2) by (auto simp: raw_prefix_path_def split: option.splits)
  show "norm_segs (segs (if eq_ignore_ascii_case (fst (the (split_once (CHR '':'') s))) ''file''
      then fold_backslashes (percent_decode p) else percent_decode p))"
    using g(3) assms(2)
    by (auto simp: resolving_prefix_segment_def sp Let_def first_resolving_norm decode_segment_def split: if_splits)
  have "\<not> contains_str ''%2f'' (to_ascii_lowercase p)"
    using g(4) assms(2) by (auto simp: prefix_escape_refused_def Let_def split: if_splits)
  then show "segs (percent_decode p) = map percent_decode (segs p)"
    by (intro segs_decode) (simp add: contains_str_iff)
qed

section \<open>A reference platform and a small policy\<close>

definition ref_host :: "bool \<Rightarrow> host" where
  "ref_host fld = \<lparr>host_folds_file_paths = fld, host_lossy_lower = to_ascii_lowercase\<rparr>"

lemma ref_host_lower_ok [simp]: "lower_ok (ref_host fld)"
  by (simp add: lower_ok_def ref_host_def)

definition toml_rule :: "effect \<Rightarrow> string \<Rightarrow> string list \<Rightarrow> string \<Rightarrow> toml_policy_rule" where
  "toml_rule e pr ops prefx =
     \<lparr>toml_id = None, toml_effect = e, toml_principal = pr, toml_operations = ops, toml_prefix = prefx\<rparr>"

definition sample_config :: toml_policy_config where
  "sample_config = default_toml_policy_config
     \<lparr>toml_policy :=
        [toml_rule Allow ''*'' [''read'', ''stat''] ''s3://b/pub/'',
         toml_rule Deny ''*'' [''*''] ''s3://b/pub/secret'',
         toml_rule Allow ''al*'' [''read''] ''s3://b/pub/secret'']\<rparr>"

definition loaded :: "policy result \<Rightarrow> policy" where
  "loaded r = (case r of Inr P \<Rightarrow> P | Inl _ \<Rightarrow> \<lparr>policy_rules = [], policy_decision_ttl = None\<rparr>)"

definition sample_policy :: policy where
  "sample_policy = loaded (from_config ref_crate (ref_host False) sample_config)"

lemma sample_loaded: "from_config ref_crate (ref_host False) sample_config = Inr sample_policy"
  by code_simp

section \<open>Properties\<close>

text \<open>C3. A decision is made by one rule: when no rule of a loaded policy matches the request
  the answer is the default denial; otherwise the deciding rule matches, strictly outranks every
  other matching rule (a rule with a prefix over one without, then the deeper scope, then the
  later declaration), and the request is allowed exactly when that rule is an allow.\<close>

theorem evaluate_most_specific:
  assumes "from_config C H cfg = Inr P"
  shows "(case matching_rule C H P pr op a of
       None \<Rightarrow>
         (\<forall>r \<in> set (policy_rules P). \<not> rule_matches H r pr op (map_option (canonicalize C) a)) \<and>
         evaluate C H P pr op a = deny_decision ''no matching authz policy rule'' \<and>
         \<not> is_allowed C H P pr op a
     | Some r \<Rightarrow>
         r \<in> set (policy_rules P) \<and> rule_matches H r pr op (map_option (canonicalize C) a) \<and>
         (\<forall>s \<in> set (policy_rules P).
            s \<noteq> r \<and> rule_matches H s pr op (map_option (canonicalize C) a) \<longrightarrow> rule_rank H s < rule_rank H r) \<and>
         (is_allowed C H P pr op a \<longleftrightarrow> rule_effect r = Allow))"
proof (cases "matching_rule C H P pr op a")
  case None
  then show ?thesis
    by (auto simp: evaluate_def is_allowed_def is_allow_def deny_decision_def matching_rule_def Let_def
        filter_empty_conv)
next
  case (Some r)
  then have "r \<in> set (policy_rules P) \<and> rule_matches H r pr op (map_option (canonicalize C) a)"
    by (auto simp: matching_rule_def Let_def dest: max_by_key_in)
  moreover have "is_allowed C H P pr op a \<longleftrightarrow> rule_effect r = Allow"
    using Some by (simp add: evaluate_def is_allowed_def is_allow_def allow_with_explanation_def
        deny_with_explanation_def split: effect.splits)
  ultimately show ?thesis using Some matching_rule_max[OF assms Some] by simp
qed

theorem evaluate_most_specific_witness:
  "is_allowed ref_crate (ref_host False) sample_policy ''alice'' Op_Read
     (Some (base_url ''s3'' (Some ''b'') ''/pub/secret/x'')) \<and>
   \<not> is_allowed ref_crate (ref_host False) sample_policy ''bob'' Op_Read
     (Some (base_url ''s3'' (Some ''b'') ''/pub/secret/x'')) \<and>
   \<not> is_allowed ref_crate (ref_host False) sample_policy ''bob'' Op_Read
     (Some (base_url ''s3'' (Some ''b'') ''/other''))"
proof -
  let ?m = "matching_rule ref_crate (ref_host False) sample_policy"
  have m: "map_option rule_effect (?m ''alice'' Op_Read (Some (base_url ''s3'' (Some ''b'') ''/pub/secret/x''))) = Some Allow"
    "map_option rule_effect (?m ''bob'' Op_Read (Some (base_url ''s3'' (Some ''b'') ''/pub/secret/x''))) = Some Deny"
    "?m ''bob'' Op_Read (Some (base_url ''s3'' (Some ''b'') ''/other'')) = None" by code_simp+
  show ?thesis
    using m evaluate_most_specific[OF sample_loaded, of "''alice''" Op_Read "Some (base_url ''s3'' (Some ''b'') ''/pub/secret/x'')"]
      evaluate_most_specific[OF sample_loaded, of "''bob''" Op_Read "Some (base_url ''s3'' (Some ''b'') ''/pub/secret/x'')"]
      evaluate_most_specific[OF sample_loaded, of "''bob''" Op_Read "Some (base_url ''s3'' (Some ''b'') ''/other'')"]
    by (auto split: option.splits)
qed

text \<open>A loaded policy has no accidental tie, on either kind of platform: two rules that both
  match one request and whose prefixes have equal depth were written with the same prefix text,
  so only a deliberate override is ever resolved by declaration order.\<close>

theorem loaded_policy_no_accidental_tie:
  assumes "from_config C H cfg = Inr P" "lower_ok H"
    and "i < length (policy_rules P)" "j < length (policy_rules P)" "i \<noteq> j"
    and "rule_matches H (policy_rules P ! i) pr op (Some a)"
    and "rule_matches H (policy_rules P ! j) pr op (Some a)"
    and "rule_prefix (policy_rules P ! i) \<noteq> None" "rule_prefix (policy_rules P ! j) \<noteq> None"
    and "prefix_segments H (policy_rules P ! i) = prefix_segments H (policy_rules P ! j)"
  shows "rule_prefix_written (policy_rules P ! i) = rule_prefix_written (policy_rules P ! j)"
  using tie_same_spelling[OF assms(1,2) _ assms(4,6-10)]
    tie_same_spelling[OF assms(1,2) _ assms(3,7,6,9,8) assms(10)[symmetric]] assms(5)
  by (metis linorder_neqE_nat)

theorem loaded_policy_no_accidental_tie_witness:
  "rule_prefix_written (policy_rules sample_policy ! 1) = rule_prefix_written (policy_rules sample_policy ! 2) \<and>
   from_config ref_crate (ref_host True) (sample_config\<lparr>toml_policy :=
     [toml_rule Allow ''*'' [''read''] ''file:///C:/Data'', toml_rule Deny ''*'' [''read''] ''file:///C:/data/'']\<rparr>)
   = Inl Err_InvalidArgument"
proof -
  let ?a = "base_url ''s3'' (Some ''b'') ''/pub/secret/x''"
  have "rule_matches (ref_host False) (policy_rules sample_policy ! 1) ''alice'' Op_Read (Some ?a)"
    "rule_matches (ref_host False) (policy_rules sample_policy ! 2) ''alice'' Op_Read (Some ?a)"
    "1 < length (policy_rules sample_policy)" "2 < length (policy_rules sample_policy)"
    "rule_prefix (policy_rules sample_policy ! 1) \<noteq> None" "rule_prefix (policy_rules sample_policy ! 2) \<noteq> None"
    "prefix_segments (ref_host False) (policy_rules sample_policy ! 1) =
     prefix_segments (ref_host False) (policy_rules sample_policy ! 2)" by code_simp+
  moreover have "from_config ref_crate (ref_host True) (sample_config\<lparr>toml_policy :=
     [toml_rule Allow ''*'' [''read''] ''file:///C:/Data'', toml_rule Deny ''*'' [''read''] ''file:///C:/data/'']\<rparr>)
   = Inl Err_InvalidArgument" by code_simp
  ultimately show ?thesis
    using loaded_policy_no_accidental_tie[OF sample_loaded ref_host_lower_ok, of 1 2 "''alice''" Op_Read ?a]
    by simp
qed

text \<open>Where \<open>file:\<close> paths are not folded, the authorization matcher and the router agree: on
  canonical addresses a query-free policy prefix covers an address, for allows and denies alike,
  exactly when it is an ancestor-or-self in the routing sense, and a rule's depth is the routing
  segment count.\<close>

theorem policy_scope_is_routing_scope:
  assumes "canonical_url p" "canonical_url a" "url_query p = None"
    and "\<not> host_folds_file_paths H" "lower_ok H" "rule_prefix r = Some p"
  shows "(scope_covers H p a eff \<longleftrightarrow> is_ancestor_or_self p a) \<and>
    prefix_segments H r = node_segment_count p"
  using scope_covers_ancestor[OF assms(1-5)] prefix_segments_rank[OF assms(6,1,4)] by simp

theorem policy_scope_is_routing_scope_witness:
  "scope_covers (ref_host False) (base_url ''s3'' (Some ''b'') ''/pub/'') (base_url ''s3'' (Some ''b'') ''/pub'') Deny \<and>
   prefix_segments (ref_host False) (policy_rules sample_policy ! 0) = 1"
proof -
  let ?p = "base_url ''s3'' (Some ''b'') ''/pub/''" and ?a = "base_url ''s3'' (Some ''b'') ''/pub''"
  have "canonical_of ?p = ?p" "canonical_of ?a = ?a" by code_simp+
  then have c: "canonical_url ?p" "canonical_url ?a"
    by (simp_all add: canonical_url_def url_wf_def) (simp_all add: base_url_def)
  have "url_query ?p = None" "\<not> host_folds_file_paths (ref_host False)"
    "rule_prefix (policy_rules sample_policy ! 0) = Some ?p" "is_ancestor_or_self ?p ?a"
    "node_segment_count ?p = 1" by code_simp+
  then show ?thesis
    using policy_scope_is_routing_scope[OF c, of "ref_host False" "policy_rules sample_policy ! 0" Deny] by simp
qed

text \<open>A prefix the loader accepts spells the scope it covers: it carries no query or fragment
  delimiter, decoding its path does not create a separator, so the decoded path has the decoded
  segments of the written one, and that path (with backslashes folded for \<open>file:\<close>) is already
  a normal form, so no later resolution can move the scope.\<close>

theorem accepted_prefix_spells_its_scope:
  assumes "parse_prefix C s = Inr (Some u)" "split_once (CHR '':'') s = Some (sch, rest)"
    and "raw_prefix_path s = Some p"
  shows "parse C s = Inr u \<and> CHR ''?'' \<notin> set s \<and> CHR ''#'' \<notin> set s \<and>
    segs (percent_decode p) = map percent_decode (segs p) \<and>
    (let d = (if eq_ignore_ascii_case sch ''file'' then fold_backslashes (percent_decode p)
              else percent_decode p)
     in norm_segs (segs d) \<and> normalize_path_bytes d = d)"
proof -
  have "refused_config_component x = None \<longleftrightarrow> CHR ''?'' \<notin> set x \<and> CHR ''#'' \<notin> set x" for x
    by (induction x) auto
  then show ?thesis
    using accepted_prefix[OF assms(1,3)] assms(2) normalize_fixed by (simp add: Let_def)
qed

theorem accepted_prefix_spells_its_scope_witness:
  "normalize_path_bytes (percent_decode ''/a%20b/c'') = percent_decode ''/a%20b/c''"
proof -
  have "parse_prefix ref_crate ''s3://h/a%20b/c'' = Inr (Some (base_url ''s3'' (Some ''h'') ''/a%20b/c''))"
    "split_once (CHR '':'') ''s3://h/a%20b/c'' = Some (''s3'', ''//h/a%20b/c'')"
    "raw_prefix_path ''s3://h/a%20b/c'' = Some ''/a%20b/c''" "\<not> eq_ignore_ascii_case ''s3'' ''file''"
    by code_simp+
  then show ?thesis
    using accepted_prefix_spells_its_scope[of ref_crate "''s3://h/a%20b/c''"
        "base_url ''s3'' (Some ''h'') ''/a%20b/c''" "''s3''" "''//h/a%20b/c''" "''/a%20b/c''"]
    by (simp add: Let_def)
qed

text \<open>Operation names round trip: every operation is named, and a name is accepted exactly
  when it is the name of the operation it is read as.\<close>

theorem operation_names_roundtrip:
  "operation_from_name (operation_name op) = Some op \<and>
   (operation_from_name s = Some op \<longleftrightarrow> s = operation_name op)"
  using operation_from_name_name operation_from_name_Some by metis

end
