(* ===== verification/Ov_Projection.thy ===== *)
theory Ov_Projection
  imports Ov_Plugin_Address
begin

text \<open>
  The projection of an address from one prefix onto another, \<open>replace_prefix\<close>. The code works
  on serialized strings; this theory shows what it computes on segment lists: the segments of
  the replacement followed by the segments of the address below the prefix, with the trailing
  slash of the address.
\<close>

definition as_str_ok :: "url_crate \<Rightarrow> bool" where
  "as_str_ok C \<longleftrightarrow> (\<forall>u. crate_as_str C u = serialized u)"

section \<open>Stripping a serialized prefix\<close>

lemma strip_prefix_same_head [simp]: "strip_prefix (a @ p) (a @ q) = strip_prefix p q"
  by (induction a) auto

lemma strip_prefix_authority:
  assumes "CHR ''/'' \<notin> set a" "CHR ''/'' \<notin> set b"
  shows "strip_prefix (a @ CHR ''/'' # p) (b @ CHR ''/'' # q) =
    (if a = b then strip_prefix p q else None)"
proof (cases "a = b")
  case False
  have "\<not> prefix (a @ CHR ''/'' # p) (b @ CHR ''/'' # q)"
  proof
    assume "prefix (a @ CHR ''/'' # p) (b @ CHR ''/'' # q)"
    then obtain r where "b @ CHR ''/'' # q = a @ CHR ''/'' # p @ r" by (auto simp: prefix_def)
    then have "split_once (CHR ''/'') (b @ CHR ''/'' # q) = Some (a, p @ r)"
      "split_once (CHR ''/'') (b @ CHR ''/'' # q) = Some (b, q)"
      using assms by (simp_all add: split_once_Some)
    with False show False by simp
  qed
  with False show ?thesis by (simp add: strip_prefix_None)
qed simp

lemma serialized_no_fragment:
  "url_has_authority u \<Longrightarrow> url_fragment u = None \<Longrightarrow>
     serialized u = (url_scheme u @ CHR '':'' # ''//'') @ authority_region u @ url_path u @
       (case url_query u of Some q \<Rightarrow> CHR ''?'' # q | None \<Rightarrow> [])"
  by (simp add: serialized_region tail_str_def)

abbreviation query_str :: "url \<Rightarrow> string" where
  "query_str u \<equiv> (case url_query u of Some q \<Rightarrow> CHR ''?'' # q | None \<Rightarrow> [])"

lemma canonical_fragment: "canonical_url u \<Longrightarrow> url_fragment u = None"
  unfolding canonical_url_def canonical_of_def by (metis url.select_convs(8) url.surjective url.update_convs(8) url.update_convs(6))

lemma authority_region_upd [simp]:
  "authority_region (u\<lparr>url_path := p\<rparr>) = authority_region u"
  "authority_region (u\<lparr>url_query := q\<rparr>) = authority_region u"
  "authority_region (u\<lparr>url_fragment := f\<rparr>) = authority_region u"
  by (simp_all add: authority_region_def userinfo_str_def)

lemma canonical_path_Cons: "canonical_url u \<Longrightarrow> \<exists>q. url_path u = CHR ''/'' # q"
  by (elim canonical_urlE) (simp add: percent_encoded_slash)

lemma norm_segs_snoc_slash:
  "norm_segs (segs (CHR ''/'' # k @ ''/'')) \<Longrightarrow> norm_segs (segs (CHR ''/'' # k))"
  by (auto simp: norm_segs_def dest: in_set_butlastD)

lemma settable_node_path:
  assumes "canonical_url u"
  shows "settable u (url_path u)" "settable u (node_path u)"
proof -
  from assms obtain p: "url_path u = percent_encoded (canonical_path_set u) (CHR ''/'' # key u)"
    and n: "norm_segs (segs (CHR ''/'' # key u))" by (rule canonical_urlE)
  then show s: "settable u (url_path u)" unfolding settable_def by blast
  show "settable u (node_path u)"
  proof (cases "1 < length (url_path u) \<and> ends_with ''/'' (url_path u)")
    case False
    then have "node_path u = url_path u \<or> node_path u = ''/''"
      by (auto simp: node_path_def Let_def strip_suffix_None ends_with_iff split: option.splits
          simp: strip_suffix_Some)
    with s show ?thesis by (auto simp: settable_def)
  next
    case True
    have "ends_with ''/'' (CHR ''/'' # key u)"
      using True encoded_ends_slash[of "canonical_path_set u" "CHR ''/'' # key u"] unfolding p by simp
    moreover have "key u \<noteq> []"
      using True by (auto simp: p percent_encoded_slash)
    ultimately obtain k where k: "key u = k @ ''/''"
      by (cases "key u" rule: rev_cases) auto
    then have "url_path u = percent_encoded (canonical_path_set u) (CHR ''/'' # k) @ ''/''"
      unfolding p by (simp add: percent_encoded_append percent_encoded_slash)
    then have "strip_suffix ''/'' (url_path u) = Some (percent_encoded (canonical_path_set u) (CHR ''/'' # k))"
      by (simp add: strip_suffix_Some)
    with True have "node_path u = percent_encoded (canonical_path_set u) (CHR ''/'' # k)"
      by (simp add: node_path_def)
    then show ?thesis using n unfolding settable_def k by (metis norm_segs_snoc_slash)
  qed
qed

lemma settable_cong:
  "url_scheme u = url_scheme v \<Longrightarrow> url_host u = url_host v \<Longrightarrow> settable u p = settable v p"
  unfolding settable_def canonical_path_set_def by (simp only:)

text \<open>What the string surgery of \<open>relative_suffix\<close> computes, whatever the userinfo.\<close>

lemma relative_suffix_eq:
  assumes ok: "crate_ok C" "as_str_ok C" and can: "canonical_url u" "canonical_url p"
    and auth: "url_has_authority u" "url_has_authority p"
      "CHR ''/'' \<notin> set (authority_region u)" "CHR ''/'' \<notin> set (authority_region p)"
    and anc: "is_ancestor_or_self p u" and q: "url_query p = None"
  shows "relative_suffix C u p =
    (case strip_prefix (url_path p) (url_path u @ query_str u) of
       Some s \<Rightarrow> Some s
     | None \<Rightarrow> strip_prefix (node_path p) (url_path u @ query_str u))"
proof -
  have same: "url_scheme p = url_scheme u" "url_host p = url_host u"
    using anc by (auto simp: is_ancestor_or_self_def split: if_splits)
  note frag = canonical_fragment[OF can(1)] canonical_fragment[OF can(2)]
  obtain up pp where paths: "url_path u = CHR ''/'' # up" "url_path p = CHR ''/'' # pp"
    using canonical_path_Cons can by blast
  have setp: "crate_set_path C x (u\<lparr>url_query := None\<rparr>) = u\<lparr>url_query := None, url_path := x\<rparr>"
    if "settable p x" for x
    using that ok(1) settable_cong[of p "u\<lparr>url_query := None\<rparr>"] same by (simp add: setters_ok_def)
  have setp2: "crate_set_path C (node_path p) (u\<lparr>url_query := None, url_path := x\<rparr>) =
      u\<lparr>url_query := None, url_path := node_path p\<rparr>" for x
    using ok(1) settable_cong[of p "u\<lparr>url_query := None, url_path := x\<rparr>"] same
      settable_node_path[OF can(2)] by (simp add: setters_ok_def)
  have bare: "crate_set_fragment C None (crate_set_query C None u) = u\<lparr>url_query := None\<rparr>"
    using ok(1) frag(1) by (simp add: setters_ok_def)
  have su: "serialized u = (url_scheme u @ CHR '':'' # ''//'') @ authority_region u @ url_path u @ query_str u"
    using serialized_no_fragment[OF auth(1) frag(1)] .
  have sp: "serialized p = (url_scheme u @ CHR '':'' # ''//'') @ authority_region p @ url_path p"
    using serialized_no_fragment[OF auth(2) frag(2)] q same by simp
  have head: "serialized (u\<lparr>url_query := None, url_path := x\<rparr>) =
      (url_scheme u @ CHR '':'' # ''//'') @ authority_region u @ x" for x
    using serialized_no_fragment[of "u\<lparr>url_query := None, url_path := x\<rparr>"] auth(1) frag(1) by simp
  have heads: "strip_prefix (serialized (u\<lparr>url_query := None, url_path := x\<rparr>)) (serialized u) =
      strip_prefix x (url_path u @ query_str u)" for x
    unfolding su head strip_prefix_same_head ..
  have first: "strip_prefix (serialized p) (serialized u) =
      (if authority_region p = authority_region u
       then strip_prefix (url_path p) (url_path u @ query_str u) else None)"
    unfolding su sp strip_prefix_same_head
    using strip_prefix_authority[OF auth(4,3), of pp "up @ query_str u"] by (simp add: paths)
  show ?thesis
    using anc ok(2) unfolding relative_suffix_def Let_def bare setp[OF settable_node_path(1)[OF can(2)]] setp2
    by (simp add: as_str_ok_def first heads split: option.splits)
qed

lemma node_path_prefix: "url_path u = CHR ''/'' # q \<Longrightarrow> prefix (node_path u) (url_path u)"
  by (auto simp: node_path_def Let_def strip_suffix_Some prefix_def split: option.splits)

lemma relative_suffix_some_iff:
  assumes ok: "crate_ok C" "as_str_ok C" and can: "canonical_url u" "canonical_url p"
    and auth: "url_has_authority u"
  shows "relative_suffix C u p \<noteq> None \<longleftrightarrow> is_ancestor_or_self p u"
proof
  assume anc: "is_ancestor_or_self p u"
  have same: "url_scheme p = url_scheme u" "url_host p = url_host u"
    using anc by (auto simp: is_ancestor_or_self_def split: if_splits)
  have bare: "crate_set_fragment C None (crate_set_query C None u) = u\<lparr>url_query := None\<rparr>"
    using ok(1) canonical_fragment[OF can(1)] by (simp add: setters_ok_def)
  have set1: "crate_set_path C (url_path p) (u\<lparr>url_query := None\<rparr>) = u\<lparr>url_query := None, url_path := url_path p\<rparr>"
    using settable_node_path(1)[OF can(2)] ok(1) settable_cong[of p "u\<lparr>url_query := None\<rparr>"] same
    by (simp add: setters_ok_def)
  have set2: "crate_set_path C (node_path p) (u\<lparr>url_query := None, url_path := x\<rparr>) =
      u\<lparr>url_query := None, url_path := node_path p\<rparr>" for x
    using ok(1) settable_cong[of p "u\<lparr>url_query := None, url_path := x\<rparr>"] same
      settable_node_path(2)[OF can(2)] by (simp add: setters_ok_def)
  have "path_contains (node_path p) (node_path u)"
    using anc by (auto simp: is_ancestor_or_self_def split: if_splits)
  then have "prefix (node_path p) (node_path u)"
    by (auto simp: path_contains_def strip_prefix_Some prefix_def split: option.splits if_splits)
  moreover have "prefix (node_path u) (url_path u)"
    using node_path_prefix canonical_path_Cons[OF can(1)] by blast
  ultimately have pre: "prefix (node_path p) (url_path u @ query_str u)"
    by (meson prefix_order.trans prefixI prefix_prefix)
  have "strip_prefix (serialized (u\<lparr>url_query := None, url_path := node_path p\<rparr>)) (serialized u) =
      strip_prefix (node_path p) (url_path u @ query_str u)"
    using serialized_no_fragment[OF auth canonical_fragment[OF can(1)]] auth canonical_fragment[OF can(1)]
      serialized_no_fragment[of "u\<lparr>url_query := None, url_path := node_path p\<rparr>"]
      strip_prefix_same_head by simp
  with pre have "strip_prefix (serialized (u\<lparr>url_query := None, url_path := node_path p\<rparr>)) (serialized u) \<noteq> None"
    by (simp add: strip_prefix_None)
  then show "relative_suffix C u p \<noteq> None"
    using anc ok(2) unfolding relative_suffix_def Let_def bare set1 set2
    by (auto simp: as_str_ok_def split: option.splits)
qed (auto simp: relative_suffix_def split: if_splits)

section \<open>The projected path\<close>

lemma good_hd: "good_segs zs \<Longrightarrow> zs \<noteq> [] \<Longrightarrow> strip_prefix ''/'' (path_of zs @ s) = None"
proof (cases zs)
  case (Cons z r)
  assume "good_segs zs"
  with Cons obtain c w where "z = c # w" "c \<noteq> CHR ''/''"
    by (cases z) (auto simp: good_segs_def)
  with Cons show ?thesis by simp
qed simp

lemma strip_suffix_dir_path:
  assumes "good_segs rs"
  shows "(case strip_suffix ''/'' (dir_path rs f) of Some b \<Rightarrow> b | None \<Rightarrow> dir_path rs f) =
    (if rs = [] then [] else CHR ''/'' # path_of rs)"
proof (cases "rs = [] \<or> f")
  case True
  then obtain b where b: "dir_path rs f = b @ ''/''" "b = (if rs = [] then [] else CHR ''/'' # path_of rs)"
    by (cases "rs = []") (auto simp: dir_path_def)
  then have "strip_suffix ''/'' (dir_path rs f) = Some b" by (simp add: strip_suffix_Some)
  with b show ?thesis by simp
next
  case False
  then have "\<not> ends_with ''/'' (dir_path rs f)"
    using good_last[OF assms] by (simp add: dir_path_def)
  then have "strip_suffix ''/'' (dir_path rs f) = None" by (simp add: ends_with_def)
  with False show ?thesis by (simp add: dir_path_def)
qed

lemma strip_suffix_url:
  assumes "good_segs rs" "url_path r = dir_path rs f"
  shows "(case strip_suffix ''/'' (url_path r) of Some b \<Rightarrow> b | None \<Rightarrow> url_path r) =
    (if rs = [] then [] else CHR ''/'' # path_of rs)"
  unfolding assms(2) by (rule strip_suffix_dir_path[OF assms(1)])

lemma dir_path_append:
  "zs \<noteq> [] \<Longrightarrow> dir_path (rs @ zs) e =
     (if rs = [] then [] else CHR ''/'' # path_of rs) @ CHR ''/'' # path_of zs @ (if e then ''/'' else [])"
  by (auto simp: dir_path_def path_of_append)

lemma replaced_below:
  assumes "good_segs zs" "zs \<noteq> []" "good_segs rs" "url_path r = dir_path rs f"
    and "sp = path_of zs @ sl \<or> sp = CHR ''/'' # path_of zs @ sl" "sl = (if e then ''/'' else [])"
  shows "replaced_path u sp r = dir_path (rs @ zs) e"
proof -
  have "sp \<noteq> []" using assms(5) path_of_Nil_iff[OF assms(1)] assms(2) by auto
  moreover have "(case strip_prefix ''/'' sp of Some t \<Rightarrow> t | None \<Rightarrow> sp) = path_of zs @ sl"
    using assms(5) good_hd[OF assms(1,2), of sl] by auto
  ultimately show ?thesis
    by (simp add: replaced_path_def assms(6) strip_suffix_url[OF assms(3,4)] dir_path_append[OF assms(2)])
qed

lemma replaced_self:
  assumes "good_segs rs" "url_path r = dir_path rs f" "sp = [] \<or> (sp = ''/'' \<and> is_directory u)"
  shows "replaced_path u sp r = dir_path rs (is_directory u)"
  using assms(3)
proof
  assume "sp = []"
  then show ?thesis
    using dir_path_node(1)[OF assms(1,2)] path_of_Nil_iff[OF assms(1)]
    by (auto simp: replaced_path_def is_directory_def dir_path_def)
next
  assume sp: "sp = ''/'' \<and> is_directory u"
  then show ?thesis
    by (simp add: replaced_path_def strip_suffix_url[OF assms(1,2)] dir_path_def)
qed

lemma stripped_suffix:
  assumes good: "good_segs xs" "good_segs zs"
    and paths: "url_path p = dir_path xs d" "url_path u = dir_path (xs @ zs) e"
    and q: "q = [] \<or> hd q = CHR ''?''"
  defines "sl \<equiv> (if e then ''/'' else [])"
  shows "\<exists>sp. (case strip_prefix (url_path p) (url_path u @ q) of
       Some s \<Rightarrow> Some s | None \<Rightarrow> strip_prefix (node_path p) (url_path u @ q)) = Some (sp @ q) \<and>
     (if zs \<noteq> [] then sp = path_of zs @ sl \<or> sp = CHR ''/'' # path_of zs @ sl
      else sp = [] \<or> sp = ''/'' \<and> is_directory u)"
proof -
  have np: "node_path p = CHR ''/'' # path_of xs" using dir_path_node(1)[OF good(1) paths(1)] .
  have dir: "is_directory u \<longleftrightarrow> e \<or> xs @ zs = []"
    unfolding is_directory_def using dir_path_node(3)[of "xs @ zs" u e] good paths(2) by simp
  consider (root) "xs = []" | (below) "xs \<noteq> []" "zs \<noteq> []" | (self_open) "xs \<noteq> []" "zs = []" "\<not> d"
    | (self_both) "xs \<noteq> []" "zs = []" "d" "e" | (self_mixed) "xs \<noteq> []" "zs = []" "d" "\<not> e" by auto
  then show ?thesis
  proof cases
    case root
    then show ?thesis unfolding paths np by (auto simp: dir_path_def sl_def)
  next
    case below
    then show ?thesis unfolding paths np sl_def
      by (cases d) (auto simp: dir_path_def path_of_append)
  next
    case self_open
    then show ?thesis unfolding paths np using dir by (cases e) (auto simp: dir_path_def)
  next
    case self_both
    then show ?thesis unfolding paths np by (auto simp: dir_path_def)
  next
    case self_mixed
    then have "strip_prefix (url_path p) (url_path u @ q) = strip_prefix ''/'' q"
      unfolding paths by (simp add: dir_path_def)
    moreover have "strip_prefix ''/'' q = None" using q by (cases q) auto
    ultimately show ?thesis using self_mixed unfolding paths np by (auto simp: dir_path_def)
  qed
qed

section \<open>The projection\<close>

definition projected_path :: "url \<Rightarrow> url \<Rightarrow> url \<Rightarrow> string" where
  "projected_path u p r =
     dir_path (node_segs r @ drop (length (node_segs p)) (node_segs u)) (is_directory u)"

definition projected :: "url \<Rightarrow> url \<Rightarrow> url \<Rightarrow> url" where
  "projected u p r =
     r\<lparr>url_path := projected_path u p r,
       url_query := (if url_query u \<noteq> None then url_query u else url_query r),
       url_fragment := None\<rparr>"

lemma encoded_excludes:
  assumes "S c" "c \<noteq> CHR ''%''" "hex_digit c = None"
  shows "c \<notin> set (percent_encoded S s)"
proof -
  have hex: "n < 16 \<Longrightarrow> hex_upper n \<noteq> c" for n
    using assms(3) hex_digit_upper[of n] by auto
  have "c \<notin> set (escape_byte S b)" for b
  proof -
    have "byte b < 16 * 16" by simp
    then have "byte b div 16 < 16" by (rule less_mult_imp_div_less)
    with assms(1,2) hex[of "byte b div 16"] hex[of "byte b mod 16"] show ?thesis
      by (auto simp: escape_byte_def)
  qed
  then show ?thesis by (auto simp: percent_encoded_def)
qed

lemma canonical_path_clean:
  assumes "canonical_url u"
  shows "CHR ''?'' \<notin> set (url_path u)" "CHR ''#'' \<notin> set (url_path u)"
proof -
  have "canonical_path_set u (CHR ''?'')" "canonical_path_set u (CHR ''#'')"
    by (simp_all add: canonical_path_set_def CANONICAL_FILE_SHARE_PATH_def CANONICAL_FILE_PATH_def
        CANONICAL_PATH_def)
  moreover have "hex_digit (CHR ''?'') = None" "hex_digit (CHR ''#'') = None"
    by (simp_all add: hex_digit_def)
  ultimately show "CHR ''?'' \<notin> set (url_path u)" "CHR ''#'' \<notin> set (url_path u)"
    using assms encoded_excludes by (auto elim!: canonical_urlE)
qed

lemma suffix_path_of:
  assumes "CHR ''?'' \<notin> set sp" "CHR ''#'' \<notin> set sp" "q = [] \<or> hd q = CHR ''?''"
  shows "(let rest = (case split_once (CHR ''#'') (sp @ q) of Some (r, _) \<Rightarrow> r | None \<Rightarrow> sp @ q)
          in case split_once (CHR ''?'') rest of Some (p, _) \<Rightarrow> p | None \<Rightarrow> rest) = sp"
proof (cases q)
  case Nil
  with assms have "split_once (CHR ''#'') (sp @ q) = None" "split_once (CHR ''?'') sp = None"
    by (simp_all add: split_once_None)
  with Nil show ?thesis by simp
next
  case (Cons c w)
  then have c: "q = CHR ''?'' # w" using assms(3) by simp
  show ?thesis
  proof (cases "split_once (CHR ''#'') (sp @ q)")
    case None
    have "split_once (CHR ''?'') (sp @ q) = Some (sp, w)" using assms(1) c by (simp add: split_once_Some)
    with None show ?thesis by simp
  next
    case (Some ab)
    obtain a b where ab: "ab = (a, b)" by (cases ab)
    with Some have eq: "sp @ CHR ''?'' # w = a @ CHR ''#'' # b" "CHR ''#'' \<notin> set a"
      by (simp_all add: split_once_Some c)
    then obtain w' where "a = sp @ CHR ''?'' # w'"
      using assms(2) by (auto simp: append_eq_append_conv2 append_eq_Cons_conv Cons_eq_append_conv)
    then have "split_once (CHR ''?'') a = Some (sp, w')" using assms(1) by (simp add: split_once_Some)
    with Some ab show ?thesis by simp
  qed
qed

lemma projected_fixed:
  assumes "canonical_url r" "settable r (projected_path u p r)"
  shows "canonical_url (projected u p r)"
proof -
  let ?o = "projected u p r"
  from assms(1) have r: "url_wf r" "\<not> url_cannot_be_a_base r" "canonical_of r = r"
    by (auto simp: canonical_url_def)
  have set_r: "canonical_path_set ?o = canonical_path_set r"
    by (simp add: projected_def)
  obtain q where q: "url_path ?o = percent_encoded (canonical_path_set r) (CHR ''/'' # q)"
    "norm_segs (segs (CHR ''/'' # q))"
  proof -
    have "norm_segs (segs ''/'')" "''/'' = percent_encoded (canonical_path_set r) ''/''"
      by (simp_all add: norm_segs_def is_dot_def percent_encoded_slash)
    then show ?thesis using assms(2) that by (auto simp: settable_def projected_def)
  qed
  then have nb: "node_bytes ?o = CHR ''/'' # q"
    by (simp add: node_bytes_def percent_encoded_slash percent_decode_encoded)
  have "canonical_of ?o = ?o"
    unfolding canonical_of_def nb normalize_fixed[OF q(2)] set_r
    using q(1) arg_cong[OF r(3), of url_host] by (simp add: canonical_of_def projected_def)
  moreover have "url_wf ?o" "\<not> url_cannot_be_a_base ?o"
    using q(1) r(2) by (simp_all add: url_wf_def projected_def percent_encoded_slash)
  ultimately show ?thesis by (simp add: canonical_url_def)
qed

lemma projection_suffix:
  assumes can: "canonical_url u" "canonical_url p" "canonical_url r"
    and anc: "is_ancestor_or_self p u"
  shows "\<exists>sp. (case strip_prefix (url_path p) (url_path u @ query_str u) of
        Some s \<Rightarrow> Some s | None \<Rightarrow> strip_prefix (node_path p) (url_path u @ query_str u)) =
      Some (sp @ query_str u) \<and> set sp \<subseteq> set (url_path u) \<and>
    replaced_path u sp r = projected_path u p r"
proof -
  obtain xs d ys e rs f where
    xs: "good_segs xs" "url_path p = dir_path xs d" and ys: "good_segs ys" "url_path u = dir_path ys e"
    and rs: "good_segs rs" "url_path r = dir_path rs f"
    using canonical_plain can unfolding plain_path_def by metis
  have n: "node_segs p = xs" "node_segs u = ys" "node_segs r = rs"
    using dir_path_node(2) xs ys rs by blast+
  have "prefix xs ys" using anc ancestor_iff[of p u] canonical_plain can n by simp
  then obtain zs where zs: "ys = xs @ zs" by (auto simp: prefix_def)
  then have gz: "good_segs zs" and pu: "url_path u = dir_path (xs @ zs) e" using ys by auto
  have q: "query_str u = [] \<or> hd (query_str u) = CHR ''?''" by (simp split: option.splits)
  obtain sp where sp: "(case strip_prefix (url_path p) (url_path u @ query_str u) of
        Some s \<Rightarrow> Some s | None \<Rightarrow> strip_prefix (node_path p) (url_path u @ query_str u)) =
      Some (sp @ query_str u)"
    "if zs \<noteq> [] then sp = path_of zs @ (if e then ''/'' else []) \<or>
       sp = CHR ''/'' # path_of zs @ (if e then ''/'' else []) else sp = [] \<or> sp = ''/'' \<and> is_directory u"
    using stripped_suffix[OF xs(1) gz xs(2) pu q] by blast
  have dir: "is_directory u \<longleftrightarrow> e \<or> xs @ zs = []"
    unfolding is_directory_def using dir_path_node(3)[of "xs @ zs" u e] ys zs by simp
  have "replaced_path u sp r = projected_path u p r"
  proof (cases "zs = []")
    case True
    then show ?thesis
      using replaced_self[OF rs, of sp u] sp(2) n zs by (simp add: projected_path_def)
  next
    case False
    then show ?thesis
      using replaced_below[OF gz False rs, of sp "if e then ''/'' else []" e u] sp(2) n zs dir
      by (simp add: projected_path_def)
  qed
  moreover have "set sp \<subseteq> set (url_path u)"
    using sp(2) by (cases "xs = []"; cases "zs = []")
      (auto simp: pu dir_path_def path_of_append split: if_splits)
  ultimately show ?thesis using sp(1) by blast
qed

lemma replace_prefix_eq:
  assumes ok: "crate_ok C" "as_str_ok C"
    and can: "canonical_url u" "canonical_url p" "canonical_url r"
    and auth: "url_has_authority u" "url_has_authority p"
      "CHR ''/'' \<notin> set (authority_region u)" "CHR ''/'' \<notin> set (authority_region p)"
    and anc: "is_ancestor_or_self p u" and q: "url_query p = None"
    and stored: "settable r (projected_path u p r)"
  shows "replace_prefix C u p r = parse C (serialized (projected u p r))"
proof -
  obtain sp where sp: "relative_suffix C u p = Some (sp @ query_str u)"
    "set sp \<subseteq> set (url_path u)" "replaced_path u sp r = projected_path u p r"
    using projection_suffix[OF can anc] relative_suffix_eq[OF ok can(1,2) auth anc q] by auto
  define sfx where "sfx = sp @ query_str u"
  have sfx: "relative_suffix C u p = Some sfx" using sp(1) by (simp add: sfx_def)
  have "(let rest = (case split_once (CHR ''#'') sfx of Some (r, _) \<Rightarrow> r | None \<Rightarrow> sfx)
         in case split_once (CHR ''?'') rest of Some (p, _) \<Rightarrow> p | None \<Rightarrow> rest) = sp"
    unfolding sfx_def using sp(2) canonical_path_clean[OF can(1)]
    by (intro suffix_path_of) (auto split: option.splits)
  moreover have "crate_set_path C (projected_path u p r) r = r\<lparr>url_path := projected_path u p r\<rparr>"
    using ok(1) stored by (simp add: setters_ok_def)
  ultimately show ?thesis
    using ok sp(3) unfolding replace_prefix_def Let_def sfx
    by (simp add: setters_ok_def as_str_ok_def projected_def)
qed

section \<open>Properties\<close>

text \<open>Projecting a canonical address from a covering, query-free prefix onto a canonical
  replacement succeeds with the address whose segments are those of the replacement followed by
  those of the address below the prefix, whose trailing slash is the address's own, and whose
  query is the address's own when it has one, whatever userinfo either side spells. An address
  that the prefix does not cover is refused with \<open>NoRoute\<close>.\<close>

theorem replace_prefix_projects:
  assumes "crate_ok C" "as_str_ok C"
    and "canonical_url u" "canonical_url p" "canonical_url r"
    and "url_has_authority u" "url_has_authority p"
      "CHR ''/'' \<notin> set (authority_region u)" "CHR ''/'' \<notin> set (authority_region p)"
    and "url_query p = None" "settable r (projected_path u p r)"
    and "crate_parse C (serialized (projected u p r)) = Some (projected u p r)"
  shows "replace_prefix C u p r =
      (if is_ancestor_or_self p u then Inr (projected u p r) else Inl Err_NoRoute) \<and>
    node_segs (projected u p r) = node_segs r @ drop (length (node_segs p)) (node_segs u) \<and>
    (is_directory (projected u p r) \<longleftrightarrow> is_directory u \<or> node_segs (projected u p r) = [])"
proof -
  let ?o = "projected u p r"
  have c: "canonical_url ?o" using projected_fixed assms by blast
  then have "parse C (serialized ?o) = Inr ?o"
    using assms(1,12) canonicalize_eq[of C ?o] by (simp add: parse_def canonical_url_def)
  moreover have "\<not> is_ancestor_or_self p u \<Longrightarrow> replace_prefix C u p r = Inl Err_NoRoute"
    by (simp add: replace_prefix_def relative_suffix_def)
  moreover have "good_segs (node_segs r @ drop (length (node_segs p)) (node_segs u))"
  proof -
    have "good_segs (node_segs u)" "good_segs (node_segs r)"
      using canonical_plain[OF assms(3)] canonical_plain[OF assms(5)] dir_path_node(2)
      unfolding plain_path_def by metis+
    then show ?thesis by (auto simp: good_segs_def dest: in_set_dropD)
  qed
  then have "node_segs ?o = node_segs r @ drop (length (node_segs p)) (node_segs u)"
    "ends_with ''/'' (url_path ?o) \<longleftrightarrow>
       is_directory u \<or> node_segs r @ drop (length (node_segs p)) (node_segs u) = []"
    using dir_path_node(2,3)[of "node_segs r @ drop (length (node_segs p)) (node_segs u)" ?o "is_directory u"]
    by (simp_all add: projected_def projected_path_def)
  ultimately show ?thesis
    using replace_prefix_eq[OF assms(1-9) _ assms(10,11)] by (simp add: is_directory_def)
qed

theorem replace_prefix_projects_witness:
  "replace_prefix ref_crate (base_url ''alias'' (Some ''h'') ''/a/b/'') (base_url ''alias'' (Some ''h'') ''/a'')
     (base_url ''s3'' (Some ''m'') ''/z/'') = Inr (base_url ''s3'' (Some ''m'') ''/z/b/'')"
proof -
  let ?u = "base_url ''alias'' (Some ''h'') ''/a/b/''" and ?p = "base_url ''alias'' (Some ''h'') ''/a''"
    and ?r = "base_url ''s3'' (Some ''m'') ''/z/''"
  have o: "projected ?u ?p ?r = base_url ''s3'' (Some ''m'') ''/z/b/''"
    "projected_path ?u ?p ?r = ''/z/b/''" by code_simp+
  have "canonical_of ?u = ?u" "canonical_of ?p = ?p" "canonical_of ?r = ?r" by code_simp+
  then have "canonical_url ?u" "canonical_url ?p" "canonical_url ?r"
    by (simp_all add: canonical_url_def url_wf_def) (simp_all add: base_url_def)
  moreover have "settable ?r (projected_path ?u ?p ?r)"
    unfolding settable_def o by (intro disjI2 exI[of _ "''z/b/''"]) code_simp
  moreover have "url_has_authority ?u" "url_has_authority ?p" "url_query ?p = None"
    "CHR ''/'' \<notin> set (authority_region ?u)" "CHR ''/'' \<notin> set (authority_region ?p)"
    "crate_parse ref_crate (serialized (projected ?u ?p ?r)) = Some (projected ?u ?p ?r)"
    "is_ancestor_or_self ?p ?u" by code_simp+
  moreover have "as_str_ok ref_crate" by (simp add: as_str_ok_def ref_crate_def)
  ultimately show ?thesis
    using replace_prefix_projects[of ref_crate ?u ?p ?r] by (simp add: o)
qed

text \<open>Appending a backend key to a canonical address either yields the address whose key is
  the directory key of the base followed by exactly that key, an address the base covers, or
  refuses: it refuses when the key starts with a slash and when the joined path has a dot
  segment or an empty interior segment, so no key climbs out of its root.\<close>

theorem join_relative_roundtrip:
  assumes "canonical_url u" "crate_ok C" "rel \<noteq> []"
  shows "(case join_relative C u rel of
       Inr v \<Rightarrow> key v = directory_key (key u) @ rel \<and> canonical_url v \<and> is_ancestor_or_self u v \<and>
         \<not> starts_with ''/'' rel
     | Inl e \<Rightarrow> e = Err_InvalidArgument \<and>
         (starts_with ''/'' rel \<or>
          \<not> norm_segs (segs (CHR ''/'' # directory_key (key u) @ rel))))"
proof (cases "starts_with ''/'' rel")
  case True
  then show ?thesis by (simp add: join_relative_def join_relative_bytes_def)
next
  case False
  let ?k = "directory_key (key u) @ rel"
  let ?v = "u\<lparr>url_path := percent_encoded (canonical_path_set u) (CHR ''/'' # ?k)\<rparr>"
  note jr = join_relative_cases[OF assms False]
  show ?thesis
  proof (cases "norm_segs (segs (CHR ''/'' # ?k))")
    case True
    then have "key ?v = ?k" "canonical_url ?v" "is_ancestor_or_self u ?v"
      using joined_key[OF assms(1)] by blast+
    with True False jr show ?thesis by (simp add: join_relative_def)
  next
    case no: False
    with False jr show ?thesis by (simp add: join_relative_def)
  qed
qed

theorem join_relative_roundtrip_witness:
  "join_relative ref_crate (base_url ''s3'' (Some ''b'') ''/p'') ''a%2Fb'' =
     Inr (base_url ''s3'' (Some ''b'') ''/p/a%252Fb'') \<and>
   key (base_url ''s3'' (Some ''b'') ''/p/a%252Fb'') = ''p/a%2Fb'' \<and>
   join_relative ref_crate (base_url ''s3'' (Some ''b'') ''/p'') ''../../etc'' = Inl Err_InvalidArgument"
proof -
  let ?u = "base_url ''s3'' (Some ''b'') ''/p''"
  have "canonical_of ?u = ?u" by code_simp
  then have c: "canonical_url ?u"
    by (simp add: canonical_url_def url_wf_def) (simp add: base_url_def)
  have j: "join_relative ref_crate ?u ''a%2Fb'' = Inr (base_url ''s3'' (Some ''b'') ''/p/a%252Fb'')"
    "directory_key (key ?u) @ ''a%2Fb'' = ''p/a%2Fb''"
    "join_relative ref_crate ?u ''../../etc'' = Inl Err_InvalidArgument" by code_simp+
  then show ?thesis
    using join_relative_roundtrip[OF c, of ref_crate "''a%2Fb''"] by simp
qed

end
