(* ===== verification/Ov_Fallback.thy ===== *)
theory Ov_Fallback
  imports Ov_Types Ov_Address
begin

text \<open>
  Anonymous scheme fallbacks (\<open>ovstorage-layer/src/fallback.rs\<close>) and the address spellings a
  generated rule may answer (\<open>ovstorage-layer/src/spellings.rs\<close>): which schemes and kinds may
  fall back, the marked catch-all root of a scheme, its read-only capabilities, and the refusal
  of mutations.
\<close>

section \<open>Schemes\<close>

definition ANONYMOUS_FALLBACK_KEY :: string where "ANONYMOUS_FALLBACK_KEY = ''anonymous_fallback''"
definition ANONYMOUS_FALLBACK_KEY_PREFIX :: string where
  "ANONYMOUS_FALLBACK_KEY_PREFIX = ''anonymous_fallback_''"
definition ANONYMOUS_FALLBACK_SCHEMES :: "string list" where
  "ANONYMOUS_FALLBACK_SCHEMES = [''s3'', ''gs'', ''azure'', ''http'', ''https'']"
definition ANONYMOUS_FALLBACK_AVAILABLE_SCHEMES :: "string list" where
  "ANONYMOUS_FALLBACK_AVAILABLE_SCHEMES = [''s3'', ''gs'', ''azure'']"
definition ANONYMOUS_FALLBACK_KINDS :: "(string \<times> string list) list" where
  "ANONYMOUS_FALLBACK_KINDS =
     [(''s3'', [''s3'']), (''gcs'', [''gs'']), (''azure'', [''azure'']), (''http'', [''http'', ''https''])]"
definition SCHEME_FALLBACK_METADATA_KEY :: string where
  "SCHEME_FALLBACK_METADATA_KEY = ''org.omniverse.ovstorage/scheme-fallback''"
definition SCHEME_FALLBACK_ANONYMOUS :: string where "SCHEME_FALLBACK_ANONYMOUS = ''anonymous''"
definition SCHEME_FALLBACK_PLACEHOLDER_HOST :: string where
  "SCHEME_FALLBACK_PLACEHOLDER_HOST = ''anonymous-fallback.invalid''"

definition schemes_for_kind :: "string \<Rightarrow> string list" where
  "schemes_for_kind kind =
     (case find (\<lambda>(owner, _). owner = kind) ANONYMOUS_FALLBACK_KINDS of
        Some (_, schemes) \<Rightarrow> schemes | None \<Rightarrow> [])"

definition is_anonymous_fallback_key :: "string \<Rightarrow> bool" where
  "is_anonymous_fallback_key k \<longleftrightarrow>
     k = ANONYMOUS_FALLBACK_KEY \<or> starts_with ANONYMOUS_FALLBACK_KEY_PREFIX k"

section \<open>Configuration\<close>

fun check_schemes :: "string list \<Rightarrow> string set result" where
  "check_schemes [] = Inr {}"
| "check_schemes (s # ss) =
     (if s \<notin> set ANONYMOUS_FALLBACK_SCHEMES then Inl Err_InvalidArgument
      else (case check_schemes ss of Inl e \<Rightarrow> Inl e | Inr r \<Rightarrow> Inr (insert s r)))"

text \<open>\<open>toml_grant\<close> is the TOML decoder applied to the grant table.\<close>

definition decode_anonymous_fallback ::
    "(string \<Rightarrow> string list option) \<Rightarrow> layer_config \<Rightarrow> string set result" where
  "decode_anonymous_fallback toml_grant config =
     (case config ANONYMOUS_FALLBACK_KEY of
        None \<Rightarrow> Inr {}
      | Some (Config_Toml text) \<Rightarrow>
          (case toml_grant text of
             None \<Rightarrow> Inl Err_InvalidArgument
           | Some schemes \<Rightarrow> check_schemes schemes)
      | Some _ \<Rightarrow> Inl Err_InvalidArgument)"

definition split_anonymous_fallback_keys :: "layer_config \<Rightarrow> layer_config \<times> layer_config" where
  "split_anonymous_fallback_keys config =
     ((\<lambda>k. if is_anonymous_fallback_key k then config k else None),
      (\<lambda>k. if is_anonymous_fallback_key k then None else config k))"

section \<open>The fallback root of a scheme\<close>

definition scheme_fallback_root_url :: "url_crate \<Rightarrow> string \<Rightarrow> url result" where
  "scheme_fallback_root_url C sch =
     (if sch \<notin> set ANONYMOUS_FALLBACK_SCHEMES then Inl Err_InvalidArgument
      else
        (case crate_parse C (sch @ ''://'') of
           Some hostless \<Rightarrow> Inr (canonicalize C hostless)
         | None \<Rightarrow>
             (case crate_parse C (sch @ ''://'' @ SCHEME_FALLBACK_PLACEHOLDER_HOST @ ''/'') of
                Some u \<Rightarrow> Inr (canonicalize C u)
              | None \<Rightarrow> Inl Err_Internal)))"

definition read_only_capabilities :: "capabilities \<Rightarrow> capabilities" where
  "read_only_capabilities caps = \<lparr>
     supports_if_match_write = False,
     supports_no_overwrite_write = False,
     supports_native_metadata_patch = False,
     supports_metadata_rewrite_emulation = False,
     writes_are_atomic = False,
     supports_copy = False,
     supports_rename = False,
     supports_server_side_copy = False,
     supports_server_side_rename = False,
     supports_atomic_rename = False,
     has_real_directories = has_real_directories caps,
     supports_write = False,
     supports_write_stream = False,
     supports_write_redirect = False,
     supports_delete = False,
     supports_list = supports_list caps,
     supports_list_stream = supports_list_stream caps,
     wants_list_backed_stat = wants_list_backed_stat caps,
     supports_recursive_list = supports_recursive_list caps,
     populates_subdirectory_metadata = populates_subdirectory_metadata caps,
     supports_create_directory = False,
     supports_delete_directory = False,
     supports_version_listing = supports_version_listing caps,
     version_list_order = version_list_order caps,
     populates_effective_permissions_on_stat = populates_effective_permissions_on_stat caps,
     supports_access_check = supports_access_check caps,
     supports_watch_directory = False,
     watch_directory_kinds = change_kind_set_empty,
     watch_directory_resumable = False,
     watch_directory_max_lag = None,
     redirect_size_threshold = None\<rparr>"

definition scheme_fallback_root ::
    "url_crate \<Rightarrow> string \<Rightarrow> string \<Rightarrow> capabilities \<Rightarrow> string option \<Rightarrow> root_info result" where
  "scheme_fallback_root C sch layer_kind caps icon =
     (case scheme_fallback_root_url C sch of
        Inl e \<Rightarrow> Inl e
      | Inr root \<Rightarrow>
          Inr \<lparr>ri_root = root, ri_display_name = Some (''anonymous '' @ sch @ '':// fallback''),
               ri_layer_kind = layer_kind, ri_connection_id = None, ri_owning_target = None,
               ri_capabilities = read_only_capabilities caps,
               ri_range_read_strategy = Range_Unsupported,
               ri_source = Source_Static Layer_Programmatic, ri_visible = False,
               ri_visibility = Vis_Hidden, ri_alias_state = None, ri_icon = icon,
               ri_user_metadata = [SCHEME_FALLBACK_METADATA_KEY \<mapsto> SCHEME_FALLBACK_ANONYMOUS]\<rparr>)"

definition is_scheme_fallback_root :: "root_info \<Rightarrow> bool" where
  "is_scheme_fallback_root root =
     (if ri_user_metadata root SCHEME_FALLBACK_METADATA_KEY \<noteq> Some SCHEME_FALLBACK_ANONYMOUS then False
      else
        (let u = ri_root root;
             hostless_or_placeholder =
               (case url_host u of
                  None \<Rightarrow> True
                | Some h \<Rightarrow> h = [] \<or> h = SCHEME_FALLBACK_PLACEHOLDER_HOST)
         in hostless_or_placeholder \<and> url_path u = ''/'' \<and> url_query u = None))"

definition fallback_mutation_refused :: error_code where
  "fallback_mutation_refused = Err_Unsupported"

section \<open>Spellings\<close>

definition CARRIED_QUERY_KEYS :: "string list" where
  "CARRIED_QUERY_KEYS = [''versionId'', ''versionid'', ''generation'', ''revision'']"

definition query_piece_key :: "string \<Rightarrow> string" where
  "query_piece_key piece = (case split_once (CHR ''='') piece of Some (k, _) \<Rightarrow> k | None \<Rightarrow> piece)"

definition generated_rule_may_answer :: "url \<Rightarrow> bool" where
  "generated_rule_may_answer addr =
     (case url_query addr of
        None \<Rightarrow> True
      | Some q \<Rightarrow>
          list_all (\<lambda>piece. query_piece_key piece \<in> set CARRIED_QUERY_KEYS)
            (filter (\<lambda>piece. piece \<noteq> []) (split_on (CHR ''&'') q)))"

definition encode_url_spellings :: "url_crate \<Rightarrow> url list \<Rightarrow> string" where
  "encode_url_spellings C urls = join_with (CHR 0x0A) (map (crate_as_str C) urls)"

text \<open>\<open>str::lines\<close> also drops the carriage return of a line ending; the empty last line it drops
  is removed here with the other empty entries.\<close>

definition strip_cr :: "string \<Rightarrow> string" where
  "strip_cr l = (case strip_suffix [CHR 0x0D] l of Some r \<Rightarrow> r | None \<Rightarrow> l)"

definition decode_url_spellings :: "string \<Rightarrow> string list" where
  "decode_url_spellings v =
     filter (\<lambda>e. e \<noteq> []) (map str_trim (map strip_cr (split_on (CHR 0x0A) v)))"

section \<open>Lemmas\<close>

lemma check_schemes_sound:
  "check_schemes ss = Inr r \<Longrightarrow> r = set ss \<and> set ss \<subseteq> set ANONYMOUS_FALLBACK_SCHEMES"
  by (induction ss arbitrary: r) (auto split: if_splits sum.splits)

lemma read_only_idem: "read_only_capabilities (read_only_capabilities c) = read_only_capabilities c"
  by (simp add: read_only_capabilities_def)

lemma strip_cr_ascii: "\<forall>c \<in> set s. 32 < byte c \<Longrightarrow> strip_cr s = s"
proof -
  assume a: "\<forall>c \<in> set s. 32 < byte c"
  have "strip_suffix [CHR 0x0D] s = None"
  proof (rule ccontr)
    assume "strip_suffix [CHR 0x0D] s \<noteq> None"
    then obtain r where "s = r @ [CHR 0x0D]" by (auto simp: strip_suffix_Some)
    with a have "32 < byte (CHR 0x0D)" by auto
    then show False by simp
  qed
  then show ?thesis by (simp add: strip_cr_def)
qed

lemma spellings_decode_encode:
  assumes "\<forall>u \<in> set urls. crate_as_str C u \<noteq> [] \<and> (\<forall>c \<in> set (crate_as_str C u). 32 < byte c \<and> byte c < 128)"
  shows "decode_url_spellings (encode_url_spellings C urls) = map (crate_as_str C) urls"
proof (cases "urls = []")
  case True
  then show ?thesis
    by (simp add: decode_url_spellings_def encode_url_spellings_def strip_cr_ascii str_trim_ascii)
next
  case False
  let ?ls = "map (crate_as_str C) urls"
  have ascii: "\<forall>l \<in> set ?ls. l \<noteq> [] \<and> (\<forall>c \<in> set l. 32 < byte c \<and> byte c < 128)" using assms by auto
  have nl: "\<forall>l \<in> set ?ls. CHR 0x0A \<notin> set l"
  proof
    fix l assume "l \<in> set ?ls"
    then have "c \<in> set l \<Longrightarrow> 32 < byte c" for c using ascii by blast
    from this[of "CHR 0x0A"] show "CHR 0x0A \<notin> set l" by auto
  qed
  have "split_on (CHR 0x0A) (encode_url_spellings C urls) = ?ls"
    unfolding encode_url_spellings_def using False nl by (intro split_join) auto
  moreover have "map strip_cr ?ls = ?ls" "map str_trim ?ls = ?ls" "filter (\<lambda>e. e \<noteq> []) ?ls = ?ls"
    using ascii strip_cr_ascii str_trim_ascii by (auto intro!: map_idI filter_True)
  ultimately show ?thesis by (simp only: decode_url_spellings_def)
qed

section \<open>Properties\<close>

text \<open>
  What is relied on of the \<open>url\<close> crate here: a fallback scheme parses either with an empty
  authority to a URL with no host and an empty path, or, when it refuses that, with the reserved
  host.
\<close>

definition plain_root :: "string \<Rightarrow> url \<Rightarrow> bool" where
  "plain_root sch u \<longleftrightarrow>
     url_scheme u = sch \<and> \<not> url_cannot_be_a_base u \<and> url_has_authority u \<and>
     url_path u \<in> {[], ''/''} \<and> url_query u = None"

definition fallback_parse_ok :: "url_crate \<Rightarrow> bool" where
  "fallback_parse_ok C \<longleftrightarrow>
     list_all (\<lambda>sch.
       (case crate_parse C (sch @ ''://'') of
          Some u \<Rightarrow> plain_root sch u \<and> url_host u \<in> {None, Some []}
        | None \<Rightarrow>
            (case crate_parse C (sch @ ''://'' @ SCHEME_FALLBACK_PLACEHOLDER_HOST @ ''/'') of
               Some u \<Rightarrow> plain_root sch u \<and> url_host u = Some SCHEME_FALLBACK_PLACEHOLDER_HOST
             | None \<Rightarrow> False)))
       ANONYMOUS_FALLBACK_SCHEMES"

definition advertises_mutation :: "capabilities \<Rightarrow> bool" where
  "advertises_mutation c \<longleftrightarrow>
     supports_write c \<or> supports_write_stream c \<or> supports_write_redirect c \<or> supports_delete c \<or>
     supports_copy c \<or> supports_rename c \<or> supports_server_side_copy c \<or>
     supports_server_side_rename c \<or> supports_atomic_rename c \<or> supports_create_directory c \<or>
     supports_delete_directory c \<or> supports_native_metadata_patch c \<or>
     supports_metadata_rewrite_emulation c \<or> supports_if_match_write c \<or>
     supports_no_overwrite_write c \<or> supports_watch_directory c"

lemma read_only_no_mutation: "\<not> advertises_mutation (read_only_capabilities c)"
  by (simp add: advertises_mutation_def read_only_capabilities_def)

lemma canonical_of_plain_root:
  assumes "plain_root sch u"
  shows "url_path (canonical_of u) = ''/''" "url_scheme (canonical_of u) = sch"
    "url_query (canonical_of u) = None"
proof -
  have d: "percent_decode ''/'' = ''/''" by simp
  have "node_bytes u = ''/''" using assms d by (auto simp: plain_root_def node_bytes_def)
  moreover have "normalize_path_bytes ''/'' = ''/''" by code_simp
  moreover have "percent_encoded (canonical_path_set u) ''/'' = ''/''"
    by (simp add: percent_encoded_slash) (simp add: percent_encoded_def)
  ultimately show "url_path (canonical_of u) = ''/''" by (simp add: canonical_of_def)
qed (use assms in \<open>simp_all add: canonical_of_def plain_root_def\<close>)

lemma fallback_root_url:
  assumes "crate_ok C" "fallback_parse_ok C" "sch \<in> set ANONYMOUS_FALLBACK_SCHEMES"
  shows "\<exists>u. scheme_fallback_root_url C sch = Inr u \<and> url_scheme u = sch \<and> url_path u = ''/'' \<and>
     url_query u = None \<and> url_host u \<in> {None, Some [], Some SCHEME_FALLBACK_PLACEHOLDER_HOST}"
proof -
  obtain p where p: "plain_root sch p" "scheme_fallback_root_url C sch = Inr (canonicalize C p)"
      "url_host p \<in> {None, Some [], Some SCHEME_FALLBACK_PLACEHOLDER_HOST}"
  proof -
    have law: "case crate_parse C (sch @ ''://'') of
          Some u \<Rightarrow> plain_root sch u \<and> url_host u \<in> {None, Some []}
        | None \<Rightarrow>
            (case crate_parse C (sch @ ''://'' @ SCHEME_FALLBACK_PLACEHOLDER_HOST @ ''/'') of
               Some u \<Rightarrow> plain_root sch u \<and> url_host u = Some SCHEME_FALLBACK_PLACEHOLDER_HOST
             | None \<Rightarrow> False)"
      using assms(2,3) unfolding fallback_parse_ok_def list_all_iff by blast
    show ?thesis
      using law that assms(3) unfolding scheme_fallback_root_url_def
      by (cases "crate_parse C (sch @ ''://'')";
          cases "crate_parse C (sch @ ''://'' @ SCHEME_FALLBACK_PLACEHOLDER_HOST @ ''/'')") auto
  qed
  have "canonicalize C p = canonical_of p"
    by (rule canonicalize_eq[OF assms(1)]) (use p(1) in \<open>auto simp: plain_root_def url_wf_def\<close>)
  moreover have "to_ascii_lowercase SCHEME_FALLBACK_PLACEHOLDER_HOST = SCHEME_FALLBACK_PLACEHOLDER_HOST"
    by code_simp
  then have "url_host (canonical_of p) \<in> {None, Some [], Some SCHEME_FALLBACK_PLACEHOLDER_HOST}"
    using p(3) by (auto simp: canonical_of_def)
  ultimately show ?thesis using canonical_of_plain_root[OF p(1)] p(2) by auto
qed

text \<open>The fallback root a backend publishes for a scheme exists exactly for the accepted
  schemes. It is recognised as a fallback root, is the root of its own scheme, is hidden, belongs
  to no connection and, whatever capabilities the backend passes, advertises no mutation and no
  watch while keeping every read capability.\<close>

theorem fallback_root_contained:
  assumes "crate_ok C" "fallback_parse_ok C"
  shows "if sch \<in> set ANONYMOUS_FALLBACK_SCHEMES
         then \<exists>r. scheme_fallback_root C sch kind caps icon = Inr r \<and> is_scheme_fallback_root r \<and>
                url_scheme (ri_root r) = sch \<and> \<not> ri_visible r \<and> ri_visibility r = Vis_Hidden \<and>
                ri_connection_id r = None \<and> \<not> advertises_mutation (ri_capabilities r) \<and>
                supports_list (ri_capabilities r) = supports_list caps \<and>
                supports_list_stream (ri_capabilities r) = supports_list_stream caps \<and>
                supports_version_listing (ri_capabilities r) = supports_version_listing caps \<and>
                supports_access_check (ri_capabilities r) = supports_access_check caps
         else scheme_fallback_root C sch kind caps icon = Inl Err_InvalidArgument"
proof (cases "sch \<in> set ANONYMOUS_FALLBACK_SCHEMES")
  case True
  from fallback_root_url[OF assms this] obtain u where
    u: "scheme_fallback_root_url C sch = Inr u" "url_scheme u = sch" "url_path u = ''/''"
      "url_query u = None" "url_host u \<in> {None, Some [], Some SCHEME_FALLBACK_PLACEHOLDER_HOST}"
    by blast
  define r where "r = (case scheme_fallback_root C sch kind caps icon of Inr r \<Rightarrow> r)"
  have r: "scheme_fallback_root C sch kind caps icon = Inr r"
    "ri_root r = u" "ri_capabilities r = read_only_capabilities caps" "\<not> ri_visible r"
    "ri_visibility r = Vis_Hidden" "ri_connection_id r = None"
    "ri_user_metadata r SCHEME_FALLBACK_METADATA_KEY = Some SCHEME_FALLBACK_ANONYMOUS"
    by (simp_all add: r_def scheme_fallback_root_def u(1))
  have "is_scheme_fallback_root r"
    using u r by (auto simp: is_scheme_fallback_root_def Let_def)
  moreover have "supports_list (read_only_capabilities caps) = supports_list caps"
    "supports_list_stream (read_only_capabilities caps) = supports_list_stream caps"
    "supports_version_listing (read_only_capabilities caps) = supports_version_listing caps"
    "supports_access_check (read_only_capabilities caps) = supports_access_check caps"
    by (simp_all add: read_only_capabilities_def)
  ultimately show ?thesis using True u r read_only_no_mutation by auto
next
  case False
  then show ?thesis by (simp add: scheme_fallback_root_def scheme_fallback_root_url_def)
qed

lemma ref_fallback_parse_ok: "fallback_parse_ok ref_crate"
  by code_simp

theorem fallback_root_contained_witness:
  "\<exists>r. scheme_fallback_root ref_crate ''s3'' ''s3'' capabilities_empty None = Inr r \<and>
     is_scheme_fallback_root r \<and> \<not> advertises_mutation (ri_capabilities r)"
  using fallback_root_contained[of ref_crate "''s3''" "''s3''" capabilities_empty None]
  by (auto simp: ref_fallback_parse_ok ANONYMOUS_FALLBACK_SCHEMES_def)

text \<open>The accepted spellings of a root survive their transport as one metadata value: what is
  decoded is the list of serializations that was encoded, in order, provided the serializations
  are what the URL standard makes them, non-empty and graphic ASCII.\<close>

theorem url_spellings_roundtrip:
  assumes "\<forall>u \<in> set urls. crate_as_str C u \<noteq> [] \<and>
             (\<forall>c \<in> set (crate_as_str C u). 32 < byte c \<and> byte c < 128)"
  shows "decode_url_spellings (encode_url_spellings C urls) = map (crate_as_str C) urls"
  using assms by (rule spellings_decode_encode)

theorem url_spellings_roundtrip_witness:
  "decode_url_spellings (encode_url_spellings ref_crate
      [base_url ''s3'' (Some ''b'') ''/k'', base_url ''https'' (Some ''h'') ''/''])
     = [''s3://b/k'', ''https://h/'']"
proof -
  let ?us = "[base_url ''s3'' (Some ''b'') ''/k'', base_url ''https'' (Some ''h'') ''/'']"
  have m: "map (crate_as_str ref_crate) ?us = [''s3://b/k'', ''https://h/'']" by code_simp
  have "list_all (\<lambda>u. crate_as_str ref_crate u \<noteq> [] \<and>
      list_all (\<lambda>c. 32 < byte c \<and> byte c < 128) (crate_as_str ref_crate u)) ?us" by code_simp
  then show ?thesis
    using url_spellings_roundtrip[of ?us ref_crate] m by (simp only: list_all_iff)
qed

end
