(* ===== verification/Ov_Routing.thy ===== *)
theory Ov_Routing
  imports Ov_Projection Ov_Fallback "HOL-Library.AList"
begin

text \<open>
  Address routing and listing folds (\<open>ovstorage-plugin/src/routing.rs\<close>): the longest-prefix
  route table with its scheme-fallback tier, the pagination of a materialized listing, and the
  folding of directory markers into listings of flat stores. The log messages are left out.
  A hash map whose iteration order the code reads is an association list.
\<close>

section \<open>The route table\<close>

type_synonym 't route_entry = "root_info \<times> 't"

record 't route_table =
  rt_entries :: "'t route_entry list"
  rt_scheme_fallbacks :: "string \<rightharpoonup> nat"

definition entry_url :: "'t route_entry \<Rightarrow> url" where
  "entry_url e = ri_root (fst e)"

definition route_table_empty :: "'t route_table" where
  "route_table_empty = \<lparr>rt_entries = [], rt_scheme_fallbacks = Map.empty\<rparr>"

fun index_scheme_fallbacks ::
    "nat \<Rightarrow> 't route_entry list \<Rightarrow> (string \<rightharpoonup> nat) \<Rightarrow> (string \<rightharpoonup> nat)" where
  "index_scheme_fallbacks index [] fallbacks = fallbacks"
| "index_scheme_fallbacks index (e # es) fallbacks =
     index_scheme_fallbacks (Suc index) es
       (if is_scheme_fallback_root (fst e) then
          (case fallbacks (url_scheme (entry_url e)) of
             Some _ \<Rightarrow> fallbacks
           | None \<Rightarrow> fallbacks(url_scheme (entry_url e) \<mapsto> index))
        else fallbacks)"

definition route_table_build :: "'t route_entry list \<Rightarrow> 't route_table" where
  "route_table_build items =
     (let entries = sort_desc (\<lambda>e. node_rank (entry_url e)) items in
      \<lparr>rt_entries = entries,
       rt_scheme_fallbacks = index_scheme_fallbacks 0 entries Map.empty\<rparr>)"

definition lookup_prefix :: "url_crate \<Rightarrow> 't route_table \<Rightarrow> url \<Rightarrow> 't route_entry option" where
  "lookup_prefix C table u =
     find (\<lambda>e. relative_suffix C u (entry_url e) \<noteq> None) (rt_entries table)"

definition route_lookup :: "url_crate \<Rightarrow> 't route_table \<Rightarrow> url \<Rightarrow> 't route_entry option" where
  "route_lookup C table u =
     (case lookup_prefix C table u of
        Some e \<Rightarrow> Some e
      | None \<Rightarrow>
          (if \<not> generated_rule_may_answer u then None
           else
             (case rt_scheme_fallbacks table (url_scheme u) of
                None \<Rightarrow> None
              | Some index \<Rightarrow> Some (rt_entries table ! index))))"

definition route_roots :: "'t route_table \<Rightarrow> root_info list" where
  "route_roots table = map fst (rt_entries table)"

section \<open>Pagination\<close>

definition usize_max :: nat where "usize_max = 2 ^ 64 - 1"

text \<open>\<open>max_results\<close> is a \<open>u32\<close>; widening it to \<open>usize\<close> keeps its value.\<close>

definition paginate_list_items ::
    "object_info list \<Rightarrow> nat option \<Rightarrow> string option \<Rightarrow> list_page result" where
  "paginate_list_items items max_results page_token =
     (case (case page_token of Some token \<Rightarrow> parse_unsigned usize_max token | None \<Rightarrow> Some 0) of
        None \<Rightarrow> Inl Err_InvalidArgument
      | Some start \<Rightarrow>
          if length items < start then Inl Err_InvalidArgument
          else if max_results = Some 0 then Inl Err_InvalidArgument
          else
            (let page_len = (case max_results of Some v \<Rightarrow> v | None \<Rightarrow> length items - start);
                 stop = min (min (start + page_len) usize_max) (length items)
             in Inr \<lparr>page_items = take (stop - start) (drop start items),
                     page_next_token = (if stop < length items then Some (digits stop) else None)\<rparr>))"

section \<open>Folding directory markers\<close>

definition is_directory_like :: "object_kind \<Rightarrow> bool" where
  "is_directory_like k \<longleftrightarrow> k \<in> {Kind_Directory, Kind_DirectoryMarker, Kind_DirectoryInferred}"

definition is_flat_marker_entry :: "object_info \<Rightarrow> bool" where
  "is_flat_marker_entry item \<longleftrightarrow>
     oi_kind item = Kind_DirectoryMarker \<or>
     (oi_kind item = Kind_File \<and> ends_with ''/'' (url_path (oi_address item)) \<and>
      (case oi_size item of Some n \<Rightarrow> n | None \<Rightarrow> 0) = 0)"

definition inferred_directory_info :: "url \<Rightarrow> object_info" where
  "inferred_directory_info a =
     \<lparr>oi_address = a, oi_kind = Kind_DirectoryInferred, oi_etag = None,
      oi_etag_strength = Etag_Unspecified, oi_version = None, oi_size = None, oi_mtime = None,
      oi_checksums = [], oi_effective_permissions = None, oi_system_metadata = None,
      oi_user_metadata = None, oi_modified_by = None, oi_versioned_address = None\<rparr>"

definition normalize_directory_address :: "url_crate \<Rightarrow> object_info \<Rightarrow> object_info" where
  "normalize_directory_address C item =
     (if is_directory_like (oi_kind item) \<and> \<not> ends_with ''/'' (url_path (oi_address item))
      then item\<lparr>oi_address := crate_set_path C (url_path (oi_address item) @ ''/'') (oi_address item)\<rparr>
      else item)"

definition normalize_directory_addresses :: "url_crate \<Rightarrow> object_info list \<Rightarrow> object_info list" where
  "normalize_directory_addresses C items = map (normalize_directory_address C) items"

definition oi_key :: "url_crate \<Rightarrow> object_info \<Rightarrow> string" where
  "oi_key C item = crate_as_str C (oi_address item)"

definition is_concrete_dir :: "object_info \<Rightarrow> bool" where
  "is_concrete_dir item \<longleftrightarrow> oi_kind item \<in> {Kind_Directory, Kind_DirectoryMarker}"

definition fold_concrete_over_inferred :: "url_crate \<Rightarrow> object_info list \<Rightarrow> object_info list" where
  "fold_concrete_over_inferred C items =
     (let concrete_addresses = set (map (oi_key C) (filter is_concrete_dir items)) in
      filter (\<lambda>item. oi_kind item \<noteq> Kind_DirectoryInferred \<or> oi_key C item \<notin> concrete_addresses) items)"

text \<open>The slash-terminated prefixes of a path, shortest first: \<open>match_indices('/')\<close> cut inclusively.\<close>

definition slash_prefixes :: "string \<Rightarrow> string list" where
  "slash_prefixes p =
     map (\<lambda>i. take (Suc i) p) (filter (\<lambda>i. p ! i = CHR ''/'') [0 ..< length p])"

definition ancestor_addresses :: "url_crate \<Rightarrow> url \<Rightarrow> url \<Rightarrow> url list" where
  "ancestor_addresses C listed_prefix a =
     (let floor_len = length (node_path listed_prefix);
          ceiling_len = length (node_path a)
      in map (\<lambda>candidate.
                crate_set_path C candidate
                  (crate_set_fragment C None (crate_set_query C (url_query listed_prefix) a)))
           (filter (\<lambda>candidate.
                let n = max (length (case strip_suffix ''/'' candidate of Some q \<Rightarrow> q | None \<Rightarrow> candidate)) 1
                in floor_len < n \<and> n < ceiling_len)
              (slash_prefixes (url_path a))))"

fun push_ancestors ::
    "url_crate \<Rightarrow> url list \<Rightarrow> string set \<Rightarrow> object_info list \<times> string set" where
  "push_ancestors C [] known = ([], known)"
| "push_ancestors C (a # as) known =
     (if crate_as_str C a \<in> known then push_ancestors C as known
      else (let (out, known') = push_ancestors C as (insert (crate_as_str C a) known)
            in (inferred_directory_info a # out, known')))"

fun synthesize_loop ::
    "url_crate \<Rightarrow> url \<Rightarrow> object_info list \<Rightarrow> string set \<Rightarrow> object_info list" where
  "synthesize_loop C listed_prefix [] known = []"
| "synthesize_loop C listed_prefix (item # items) known =
     (let (fresh, known') =
            (if relative_suffix C (oi_address item) listed_prefix \<noteq> None
             then push_ancestors C (ancestor_addresses C listed_prefix (oi_address item)) known
             else ([], known))
      in fresh @ item # synthesize_loop C listed_prefix items known')"

definition synthesize_missing_inferred_ancestors ::
    "url_crate \<Rightarrow> url \<Rightarrow> object_info list \<Rightarrow> object_info list" where
  "synthesize_missing_inferred_ancestors C listed_prefix items =
     synthesize_loop C listed_prefix items (set (map (oi_key C) items))"

definition as_marker :: "object_info \<Rightarrow> object_info" where
  "as_marker item = item\<lparr>oi_kind := Kind_DirectoryMarker, oi_size := None\<rparr>"

type_synonym marker_map = "(string \<times> object_info) list"

fun collect_markers :: "url_crate \<Rightarrow> object_info list \<Rightarrow> marker_map \<Rightarrow> marker_map" where
  "collect_markers C [] m = m"
| "collect_markers C (item # items) m =
     collect_markers C items
       (if is_flat_marker_entry item then AList.update (oi_key C (as_marker item)) (as_marker item) m else m)"

text \<open>The pass over the items: what is pushed, and the markers left over.\<close>

fun fold_loop ::
    "url_crate \<Rightarrow> object_info list \<Rightarrow> marker_map \<Rightarrow> string set \<Rightarrow> object_info list \<times> marker_map" where
  "fold_loop C [] m emitted = ([], m)"
| "fold_loop C (item # items) m emitted =
     (let k = oi_key C item;
          push = (\<lambda>o' m' e'. let (out, m'') = fold_loop C items m' e' in (o' # out, m''))
      in
      if is_flat_marker_entry item then
        (if k \<notin> emitted then
           (case map_of m k of
              Some marker \<Rightarrow> push marker (AList.delete k m) (insert k emitted)
            | None \<Rightarrow> fold_loop C items m (insert k emitted))
         else fold_loop C items m emitted)
      else if is_directory_like (oi_kind item) then
        (if k \<in> emitted then fold_loop C items m emitted
         else
           (case map_of m k of
              Some marker \<Rightarrow> push marker (AList.delete k m) (insert k emitted)
            | None \<Rightarrow>
                push (if oi_kind item = Kind_Directory then item\<lparr>oi_kind := Kind_DirectoryInferred\<rparr> else item)
                  m emitted))
      else push item m emitted)"

definition fold_markers_and_infer_subdir_kinds ::
    "url_crate \<Rightarrow> url \<Rightarrow> object_info list \<Rightarrow> bool \<Rightarrow> bool \<Rightarrow> object_info list" where
  "fold_markers_and_infer_subdir_kinds C listed_prefix items0 real_directories recursive =
     (let items = normalize_directory_addresses C items0 in
      if real_directories then fold_concrete_over_inferred C items
      else
        (let (out, leftover) = fold_loop C items (collect_markers C items []) {};
             out = out @ map (\<lambda>(_, marker). marker\<lparr>oi_kind := Kind_DirectoryMarker\<rparr>) leftover;
             out = (if recursive then synthesize_missing_inferred_ancestors C listed_prefix out else out)
         in fold_concrete_over_inferred C out))"

section \<open>Lemmas: the table\<close>

lemma index_scheme_fallbacks_find:
  "(case index_scheme_fallbacks index es m s of
      None \<Rightarrow> m s = None \<and> find (\<lambda>e. is_scheme_fallback_root (fst e) \<and> url_scheme (entry_url e) = s) es = None
    | Some k \<Rightarrow> m s = Some k \<or>
        (m s = None \<and> index \<le> k \<and>
         find (\<lambda>e. is_scheme_fallback_root (fst e) \<and> url_scheme (entry_url e) = s) es = Some (es ! (k - index))))"
proof (induction index es m rule: index_scheme_fallbacks.induct)
  case (1 index m)
  then show ?case by (simp split: option.split)
next
  case (2 index e es m)
  define m' where "m' = (if is_scheme_fallback_root (fst e) then
          (case m (url_scheme (entry_url e)) of
             Some _ \<Rightarrow> m | None \<Rightarrow> m(url_scheme (entry_url e) \<mapsto> index)) else m)"
  have step: "index_scheme_fallbacks index (e # es) m s = index_scheme_fallbacks (Suc index) es m' s"
    by (simp add: m'_def)
  note IH = 2[folded m'_def]
  have nth: "(e # es) ! (k - index) = es ! (k - Suc index)" if "Suc index \<le> k" for k
    using that by (cases "k - index") (auto simp: diff_Suc)
  show ?case
  proof (cases "is_scheme_fallback_root (fst e) \<and> url_scheme (entry_url e) = s")
    case True
    then have "m' s = (case m s of Some k \<Rightarrow> Some k | None \<Rightarrow> Some index)"
      by (auto simp: m'_def split: option.split)
    then show ?thesis
      unfolding step using IH True by (auto split: option.splits)
  next
    case False
    then have "m' s = m s" by (auto simp: m'_def split: option.split)
    then show ?thesis
      unfolding step using IH False nth by (auto split: option.splits)
  qed
qed

lemma find_mem: "find P xs = Some x \<Longrightarrow> x \<in> set xs \<and> P x"
  by (auto simp: find_Some_iff)

text \<open>Both tiers in terms of the entries the table was built from.\<close>

lemma lookup_prefix_chosen:
  "chosen (\<lambda>e. relative_suffix C u (entry_url e) \<noteq> None) (\<lambda>e. node_rank (entry_url e)) items
     (lookup_prefix C (route_table_build items) u)"
  unfolding lookup_prefix_def route_table_build_def Let_def route_table.simps
  by (rule find_sort_desc_chosen)

definition fallback_of :: "'t route_entry list \<Rightarrow> string \<Rightarrow> 't route_entry option" where
  "fallback_of items s =
     find (\<lambda>e. is_scheme_fallback_root (fst e) \<and> url_scheme (entry_url e) = s)
       (sort_desc (\<lambda>e. node_rank (entry_url e)) items)"

lemma route_lookup_tiers:
  "route_lookup C (route_table_build items) u =
     (case lookup_prefix C (route_table_build items) u of
        Some e \<Rightarrow> Some e
      | None \<Rightarrow> if generated_rule_may_answer u then fallback_of items (url_scheme u) else None)"
proof -
  let ?es = "sort_desc (\<lambda>e. node_rank (entry_url e)) items"
  have "(case index_scheme_fallbacks 0 ?es Map.empty (url_scheme u) of
      None \<Rightarrow> None | Some i \<Rightarrow> Some (?es ! i)) = fallback_of items (url_scheme u)"
    using index_scheme_fallbacks_find[where index = 0 and es = ?es and m = Map.empty and s = "url_scheme u"]
    by (auto simp: fallback_of_def split: option.splits)
  then show ?thesis
    by (auto simp: route_lookup_def route_table_build_def Let_def split: option.splits)
qed

section \<open>Lemmas: pagination\<close>

lemma paginate_step:
  assumes "m > 0" "length items \<le> usize_max" "start \<le> length items"
    and tok: "tok = None \<and> start = 0 \<or> tok = Some (digits start)"
  shows "paginate_list_items items (Some m) tok =
     Inr \<lparr>page_items = take m (drop start items),
          page_next_token = (if start + m < length items then Some (digits (start + m)) else None)\<rparr>"
proof -
  have p: "(case tok of Some token \<Rightarrow> parse_unsigned usize_max token | None \<Rightarrow> Some 0) = Some start"
    using tok assms(2,3) parse_digits[of start usize_max] by auto
  have stop: "min (min (start + m) usize_max) (length items) = min (start + m) (length items)"
    using assms(2) by linarith
  have tk: "take (min (start + m) (length items) - start) (drop start items) = take m (drop start items)"
    by (cases "start + m \<le> length items") (auto simp: min_def)
  show ?thesis
    unfolding paginate_list_items_def p using assms(1,3)
    by (simp add: stop tk Let_def)
qed

text \<open>A client that follows the page tokens, with a bound on the pages it asks for.\<close>

fun fetch_all ::
    "nat \<Rightarrow> object_info list \<Rightarrow> nat option \<Rightarrow> string option \<Rightarrow> object_info list option" where
  "fetch_all 0 items max_results tok = None"
| "fetch_all (Suc fuel) items max_results tok =
     (case paginate_list_items items max_results tok of
        Inl e \<Rightarrow> None
      | Inr page \<Rightarrow>
          (case page_next_token page of
             None \<Rightarrow> Some (page_items page)
           | Some t \<Rightarrow> map_option ((@) (page_items page)) (fetch_all fuel items max_results (Some t))))"

lemma fetch_from:
  assumes "m > 0" "length items \<le> usize_max"
  shows "start \<le> length items \<Longrightarrow> tok = None \<and> start = 0 \<or> tok = Some (digits start) \<Longrightarrow>
    length items - start < fuel \<Longrightarrow> fetch_all fuel items (Some m) tok = Some (drop start items)"
proof (induction fuel arbitrary: start tok)
  case (Suc fuel)
  note step = paginate_step[OF assms Suc.prems(1,2)]
  show ?case
  proof (cases "start + m < length items")
    case True
    then have "fetch_all fuel items (Some m) (Some (digits (start + m))) = Some (drop (start + m) items)"
      using Suc.IH[of "start + m" "Some (digits (start + m))"] Suc.prems assms(1) by simp
    then show ?thesis using True step
      by (simp) (metis add.commute append_take_drop_id drop_drop)
  next
    case False
    then show ?thesis using step by simp
  qed
qed simp

section \<open>Lemmas: folding\<close>

definition is_marker :: "object_info \<Rightarrow> bool" where
  "is_marker item \<longleftrightarrow> oi_kind item = Kind_DirectoryMarker"

lemma as_marker_simps [simp]:
  "oi_key C (as_marker x) = oi_key C x" "is_marker (as_marker x)"
  "oi_kind (as_marker x) = Kind_DirectoryMarker"
  by (simp_all add: as_marker_def oi_key_def is_marker_def)

definition marker_map_ok :: "url_crate \<Rightarrow> marker_map \<Rightarrow> bool" where
  "marker_map_ok C m \<longleftrightarrow> (\<forall>k v. map_of m k = Some v \<longrightarrow> oi_key C v = k \<and> is_marker v)"

lemma marker_map_ok_delete: "marker_map_ok C m \<Longrightarrow> marker_map_ok C (AList.delete k m)"
  by (simp add: marker_map_ok_def AList.delete_conv)

lemma collect_markers_map:
  "marker_map_ok C m \<Longrightarrow> marker_map_ok C (collect_markers C items m) \<and>
     dom (map_of (collect_markers C items m)) =
       dom (map_of m) \<union> {k. \<exists>x \<in> set items. is_flat_marker_entry x \<and> oi_key C x = k}"
proof (induction C items m rule: collect_markers.induct)
  case (2 C item items m)
  let ?m = "if is_flat_marker_entry item
    then AList.update (oi_key C (as_marker item)) (as_marker item) m else m"
  have "marker_map_ok C ?m" using 2(2) by (auto simp: marker_map_ok_def AList.update_conv)
  moreover have "dom (map_of ?m) = dom (map_of m) \<union> (if is_flat_marker_entry item then {oi_key C item} else {})"
    by (simp add: AList.update_conv')
  ultimately show ?case using 2(1) by (auto split: if_splits)
qed auto

definition absorbs :: "object_info \<Rightarrow> bool" where
  "absorbs x \<longleftrightarrow> is_flat_marker_entry x \<or> is_directory_like (oi_kind x)"

definition inferred_kind :: "object_info \<Rightarrow> object_info" where
  "inferred_kind item =
     (if oi_kind item = Kind_Directory then item\<lparr>oi_kind := Kind_DirectoryInferred\<rparr> else item)"

text \<open>One pass of the loop body: a peer of an emitted marker is dropped, the first peer of a
  pending marker is replaced by it, and everything else is kept.\<close>

lemma push_simps:
  "snd (let (out, m') = p in (x # out, m')) = snd p"
  "fst (let (out, m') = p in (x # out, m')) = x # fst p"
  by (simp_all add: Let_def split: prod.splits)

lemma fold_loop_step:
  obtains (dropped) "absorbs item" "oi_key C item \<in> emitted"
      "fold_loop C (item # items) m emitted = fold_loop C items m emitted"
  | (merged) v where "absorbs item" "oi_key C item \<notin> emitted" "map_of m (oi_key C item) = Some v"
      "fold_loop C (item # items) m emitted =
         (let (out, m') = fold_loop C items (AList.delete (oi_key C item) m) (insert (oi_key C item) emitted)
          in (v # out, m'))"
  | (lost) "is_flat_marker_entry item" "oi_key C item \<notin> emitted" "map_of m (oi_key C item) = None"
      "fold_loop C (item # items) m emitted = fold_loop C items m (insert (oi_key C item) emitted)"
  | (inferred) "\<not> is_flat_marker_entry item" "is_directory_like (oi_kind item)"
      "oi_key C item \<notin> emitted" "map_of m (oi_key C item) = None"
      "fold_loop C (item # items) m emitted =
         (let (out, m') = fold_loop C items m emitted in (inferred_kind item # out, m'))"
  | (kept) "\<not> absorbs item"
      "fold_loop C (item # items) m emitted = (let (out, m') = fold_loop C items m emitted in (item # out, m'))"
proof (cases "absorbs item")
  case False
  then show thesis by (intro kept) (auto simp: absorbs_def Let_def)
next
  case abs: True
  show thesis
  proof (cases "oi_key C item \<in> emitted")
    case True
    then show thesis by (intro dropped[OF abs]) (use abs in \<open>auto simp: absorbs_def Let_def\<close>)
  next
    case new: False
    show thesis
    proof (cases "map_of m (oi_key C item)")
      case (Some v)
      then show thesis by (intro merged[OF abs new]) (use abs new in \<open>auto simp: absorbs_def Let_def\<close>)
    next
      case None
      then show thesis
        using abs new lost inferred
        by (cases "is_flat_marker_entry item") (auto simp: absorbs_def inferred_kind_def Let_def)
    qed
  qed
qed

declare fold_loop.simps(2) [simp del]

definition flat_keys :: "url_crate \<Rightarrow> object_info list \<Rightarrow> string set" where
  "flat_keys C items = oi_key C ` {x \<in> set items. is_flat_marker_entry x}"

lemma flat_keys_Cons [simp]:
  "flat_keys C (x # xs) = (if is_flat_marker_entry x then insert (oi_key C x) (flat_keys C xs) else flat_keys C xs)"
  by (auto simp: flat_keys_def)

text \<open>Every pending marker of a listed marker is emitted, so nothing is left over.\<close>

lemma fold_loop_leftover:
  "\<forall>k \<in> emitted. map_of m k = None \<Longrightarrow>
     dom (map_of (snd (fold_loop C items m emitted))) \<subseteq> dom (map_of m) - flat_keys C items"
proof (induction items arbitrary: m emitted)
  case (Cons item items)
  show ?case
  proof (cases rule: fold_loop_step[of item C emitted items m])
    case dropped
    then have "oi_key C item \<notin> dom (map_of m)" using Cons.prems by (simp add: domIff)
    then show ?thesis using Cons.IH[OF Cons.prems] unfolding dropped(3) by auto
  next
    case (merged v)
    let ?k = "oi_key C item"
    have "dom (map_of (snd (fold_loop C items (AList.delete ?k m) (insert ?k emitted)))) \<subseteq>
        dom (map_of (AList.delete ?k m)) - flat_keys C items"
      using Cons.prems by (intro Cons.IH) (auto simp: AList.delete_conv)
    then have "dom (map_of (snd (fold_loop C (item # items) m emitted))) \<subseteq>
        dom (map_of m) - {?k} - flat_keys C items"
      unfolding merged(4) push_simps by (simp add: AList.delete_conv')
    then show ?thesis by auto
  next
    case lost
    have "dom (map_of (snd (fold_loop C items m (insert (oi_key C item) emitted)))) \<subseteq>
        dom (map_of m) - flat_keys C items"
      using Cons.prems lost by (intro Cons.IH) auto
    then show ?thesis unfolding lost(4) using lost(3) by auto
  next
    case inferred
    then show ?thesis using Cons.IH[OF Cons.prems] unfolding inferred(5) push_simps by simp
  next
    case kept
    then show ?thesis using Cons.IH[OF Cons.prems] unfolding kept(2) push_simps by (simp add: absorbs_def)
  qed
qed (simp add: flat_keys_def)

text \<open>The markers of the output: one for each pending marker some item makes due.\<close>

lemma fold_loop_markers:
  "marker_map_ok C m \<Longrightarrow> \<forall>k \<in> emitted. map_of m k = None \<Longrightarrow>
     distinct (map (oi_key C) (filter is_marker (fst (fold_loop C items m emitted)))) \<and>
     oi_key C ` set (filter is_marker (fst (fold_loop C items m emitted))) =
       dom (map_of m) \<inter> oi_key C ` {x \<in> set items. absorbs x}"
proof (induction items arbitrary: m emitted)
  case (Cons item items)
  show ?case
  proof (cases rule: fold_loop_step[of item C emitted items m])
    case dropped
    then have "oi_key C item \<notin> dom (map_of m)" using Cons.prems(2) by (simp add: domIff)
    then show ?thesis using Cons.IH[OF Cons.prems] unfolding dropped(3) by auto
  next
    case (merged v)
    let ?k = "oi_key C item" and ?m = "AList.delete (oi_key C item) m"
    have v: "oi_key C v = ?k" "is_marker v"
      using Cons.prems(1) merged(3) by (auto simp: marker_map_ok_def)
    let ?out = "filter is_marker (fst (fold_loop C items ?m (insert ?k emitted)))"
    have "distinct (map (oi_key C) ?out) \<and>
        oi_key C ` set ?out = dom (map_of ?m) \<inter> oi_key C ` {x \<in> set items. absorbs x}"
      using Cons.prems by (intro Cons.IH) (auto simp: AList.delete_conv marker_map_ok_delete)
    then have d: "distinct (map (oi_key C) ?out)"
      and k: "oi_key C ` set ?out = (dom (map_of m) - {?k}) \<inter> oi_key C ` {x \<in> set items. absorbs x}"
      by (auto simp: AList.delete_conv')
    have "filter is_marker (fst (fold_loop C (item # items) m emitted)) = v # ?out"
      unfolding merged(4) push_simps using v(2) by simp
    then show ?thesis using d k v merged(1,3) by auto
  next
    case lost
    have "\<forall>k \<in> insert (oi_key C item) emitted. map_of m k = None" using lost(3) Cons.prems(2) by auto
    then show ?thesis unfolding lost(4) using Cons.IH[OF Cons.prems(1)] lost(3) by auto
  next
    case inferred
    then have "\<not> is_marker (inferred_kind item)"
      by (auto simp: inferred_kind_def is_marker_def is_flat_marker_entry_def)
    then have "filter is_marker (fst (fold_loop C (item # items) m emitted)) =
        filter is_marker (fst (fold_loop C items m emitted))"
      unfolding inferred(5) push_simps by simp
    then show ?thesis using Cons inferred(4) by auto
  next
    case kept
    then have "filter is_marker (fst (fold_loop C (item # items) m emitted)) =
        filter is_marker (fst (fold_loop C items m emitted))"
      unfolding kept(2) push_simps by (auto simp: absorbs_def is_marker_def is_directory_like_def)
    then show ?thesis using Cons kept(1) by auto
  qed
qed simp

definition is_file :: "object_info \<Rightarrow> bool" where
  "is_file item \<longleftrightarrow> oi_kind item = Kind_File"

text \<open>Files pass through in order, and no \<open>Directory\<close> kind survives on a flat store.\<close>

lemma fold_loop_files:
  "marker_map_ok C m \<Longrightarrow>
     filter is_file (fst (fold_loop C items m emitted)) =
       filter (\<lambda>x. is_file x \<and> \<not> is_flat_marker_entry x) items \<and>
     (\<forall>x \<in> set (fst (fold_loop C items m emitted)). oi_kind x \<noteq> Kind_Directory)"
proof (induction items arbitrary: m emitted)
  case (Cons item items)
  have dirs: "is_directory_like (oi_kind item) \<Longrightarrow> \<not> is_file item"
    by (auto simp: is_file_def is_directory_like_def)
  show ?case
  proof (cases rule: fold_loop_step[of item C emitted items m])
    case dropped
    then show ?thesis using Cons.IH[OF Cons.prems] dirs unfolding dropped(3) by (auto simp: absorbs_def)
  next
    case (merged v)
    have v: "\<not> is_file v" "oi_kind v \<noteq> Kind_Directory"
      using Cons.prems merged(3) by (auto simp: marker_map_ok_def is_marker_def is_file_def)
    then show ?thesis
      using Cons.IH[OF marker_map_ok_delete[OF Cons.prems]] merged(1) dirs
      unfolding merged(4) push_simps by (auto simp: absorbs_def)
  next
    case lost
    then show ?thesis using Cons.IH[OF Cons.prems] unfolding lost(4) by auto
  next
    case inferred
    then have "\<not> is_file (inferred_kind item)" "oi_kind (inferred_kind item) \<noteq> Kind_Directory"
      using dirs by (auto simp: inferred_kind_def is_file_def)
    then show ?thesis using Cons.IH[OF Cons.prems] inferred(2) dirs unfolding inferred(5) push_simps by auto
  next
    case kept
    then show ?thesis using Cons.IH[OF Cons.prems] unfolding kept(2) push_simps
      by (auto simp: absorbs_def is_directory_like_def)
  qed
qed simp

lemma push_ancestors_inferred:
  "\<forall>x \<in> set (fst (push_ancestors C as known)). oi_kind x = Kind_DirectoryInferred"
  by (induction C as known rule: push_ancestors.induct)
    (auto simp: Let_def inferred_directory_info_def split: prod.splits)

lemma push_ancestors_snd: "snd (push_ancestors C as known) = known \<union> crate_as_str C ` set as"
  by (induction C as known rule: push_ancestors.induct) (simp_all add: Let_def case_prod_beta insert_absorb)

lemma inferred_key [simp]: "oi_key C (inferred_directory_info a) = crate_as_str C a"
  by (simp add: oi_key_def inferred_directory_info_def)

lemma push_ancestors_fst:
  "known \<union> oi_key C ` set (fst (push_ancestors C as known)) = known \<union> crate_as_str C ` set as"
proof (induction C as known rule: push_ancestors.induct)
  case (2 C a as known)
  show ?case
  proof (cases "crate_as_str C a \<in> known")
    case True
    then show ?thesis using 2(1) by (simp add: insert_absorb)
  next
    case False
    then show ?thesis using 2(2)[OF False] by (simp add: Let_def case_prod_beta)
  qed
qed simp

lemma synthesize_loop_Cons:
  "synthesize_loop C lp (item # items) known =
     (let as = (if relative_suffix C (oi_address item) lp \<noteq> None
                then ancestor_addresses C lp (oi_address item) else [])
      in fst (push_ancestors C as known) @ item #
         synthesize_loop C lp items (known \<union> crate_as_str C ` set as))"
  by (simp add: Let_def case_prod_beta push_ancestors_snd)

declare synthesize_loop.simps(2) [simp del]

lemma synthesize_loop_filter:
  assumes "\<And>x. P x \<Longrightarrow> oi_kind x \<noteq> Kind_DirectoryInferred"
  shows "filter P (synthesize_loop C lp items known) = filter P items"
proof (induction items arbitrary: known)
  case (Cons item items)
  have "filter P (fst (push_ancestors C as kn)) = []" for as kn
    using push_ancestors_inferred[of C as kn] assms by (auto simp: filter_empty_conv)
  then show ?case using Cons by (simp add: synthesize_loop_Cons Let_def)
qed simp

text \<open>Every ancestor of an item is known at the end, and whatever is known is in the output.\<close>

lemma synthesize_loop_closed:
  "item \<in> set items \<Longrightarrow> relative_suffix C (oi_address item) lp \<noteq> None \<Longrightarrow>
     a \<in> set (ancestor_addresses C lp (oi_address item)) \<Longrightarrow>
     crate_as_str C a \<in> known \<union> oi_key C ` set (synthesize_loop C lp items known)"
proof (induction items arbitrary: known)
  case (Cons x items)
  define as where "as = (if relative_suffix C (oi_address x) lp \<noteq> None
    then ancestor_addresses C lp (oi_address x) else [])"
  let ?kn = "known \<union> crate_as_str C ` set as"
  have loop: "synthesize_loop C lp (x # items) known =
      fst (push_ancestors C as known) @ x # synthesize_loop C lp items ?kn"
    unfolding synthesize_loop_Cons as_def Let_def ..
  have pushed: "?kn \<subseteq> known \<union> oi_key C ` set (synthesize_loop C lp (x # items) known)"
    unfolding loop push_ancestors_fst[symmetric] by auto
  show ?case
  proof (cases "item = x")
    case True
    then have "a \<in> set as" using Cons.prems by (simp add: as_def)
    then show ?thesis using pushed by blast
  next
    case False
    then have "crate_as_str C a \<in> ?kn \<union> oi_key C ` set (synthesize_loop C lp items ?kn)"
      using Cons.IH[of ?kn] Cons.prems by auto
    then show ?thesis using pushed unfolding loop by auto
  qed
qed simp

lemma synthesize_loop_superset: "set items \<subseteq> set (synthesize_loop C lp items known)"
proof (induction items arbitrary: known)
  case (Cons x items)
  then show ?case by (auto simp: synthesize_loop_Cons Let_def)
qed simp

lemma fold_concrete_filter:
  assumes "\<And>x. P x \<Longrightarrow> oi_kind x \<noteq> Kind_DirectoryInferred"
  shows "filter P (fold_concrete_over_inferred C items) = filter P items"
  using assms by (auto simp: fold_concrete_over_inferred_def Let_def intro!: filter_cong)

lemma fold_concrete_keys:
  "oi_key C ` set (fold_concrete_over_inferred C items) = oi_key C ` set items"
proof
  show "oi_key C ` set items \<subseteq> oi_key C ` set (fold_concrete_over_inferred C items)"
  proof
    fix k assume "k \<in> oi_key C ` set items"
    then obtain x where x: "x \<in> set items" "oi_key C x = k" by blast
    show "k \<in> oi_key C ` set (fold_concrete_over_inferred C items)"
    proof (cases "\<exists>y \<in> set items. is_concrete_dir y \<and> oi_key C y = k")
      case True
      then obtain y where "y \<in> set items" "is_concrete_dir y" "oi_key C y = k" by blast
      then have "y \<in> set (fold_concrete_over_inferred C items)"
        by (auto simp: fold_concrete_over_inferred_def is_concrete_dir_def Let_def)
      with \<open>oi_key C y = k\<close> show ?thesis by blast
    next
      case False
      then have "x \<in> set (fold_concrete_over_inferred C items)"
        using x by (auto simp: fold_concrete_over_inferred_def Let_def)
      with x(2) show ?thesis by blast
    qed
  qed
qed (auto simp: fold_concrete_over_inferred_def Let_def)

lemma fold_concrete_no_shadow:
  "x \<in> set (fold_concrete_over_inferred C items) \<Longrightarrow> y \<in> set (fold_concrete_over_inferred C items) \<Longrightarrow>
     oi_kind x = Kind_DirectoryInferred \<Longrightarrow> is_concrete_dir y \<Longrightarrow> oi_key C x \<noteq> oi_key C y"
  by (auto simp: fold_concrete_over_inferred_def Let_def)

lemma normalize_files:
  "filter (\<lambda>x. is_file x \<and> \<not> is_flat_marker_entry x) (normalize_directory_addresses C items) =
     filter (\<lambda>x. is_file x \<and> \<not> is_flat_marker_entry x) items"
proof -
  have "is_file (normalize_directory_address C x) = is_file x"
    "is_file x \<Longrightarrow> normalize_directory_address C x = x" for x
    by (auto simp: normalize_directory_address_def is_file_def is_directory_like_def)
  then show ?thesis unfolding normalize_directory_addresses_def by (induction items) auto
qed

text \<open>The listing before the last two steps, which leave files and markers alone.\<close>

definition folded :: "url_crate \<Rightarrow> object_info list \<Rightarrow> object_info list" where
  "folded C items = fst (fold_loop C items (collect_markers C items []) {})"

lemma fold_flat_eq:
  "fold_markers_and_infer_subdir_kinds C lp items0 False recursive =
     fold_concrete_over_inferred C
       ((if recursive then synthesize_missing_inferred_ancestors C lp else id)
          (folded C (normalize_directory_addresses C items0)))"
proof -
  let ?items = "normalize_directory_addresses C items0"
  have "marker_map_ok C []" by (simp add: marker_map_ok_def)
  from collect_markers_map[OF this, of ?items]
  have "dom (map_of (collect_markers C ?items [])) = flat_keys C ?items"
    by (auto simp: flat_keys_def)
  then have "dom (map_of (snd (fold_loop C ?items (collect_markers C ?items []) {}))) = {}"
    using fold_loop_leftover[where emitted = "{}" and m = "collect_markers C ?items []"
        and C = C and items = ?items] by simp
  then have "snd (fold_loop C ?items (collect_markers C ?items []) {}) = []"
    by (metis dom_map_of_conv_image_fst image_is_empty set_empty)
  then show ?thesis
    by (simp add: fold_markers_and_infer_subdir_kinds_def folded_def Let_def case_prod_beta)
qed

lemma folded_markers:
  "distinct (map (oi_key C) (filter is_marker (folded C items)))"
  "oi_key C ` set (filter is_marker (folded C items)) = flat_keys C items"
proof -
  have "marker_map_ok C []" by (simp add: marker_map_ok_def)
  from collect_markers_map[OF this, of items]
  have m: "marker_map_ok C (collect_markers C items [])"
    "dom (map_of (collect_markers C items [])) = flat_keys C items"
    by (auto simp: flat_keys_def)
  have "flat_keys C items \<inter> oi_key C ` {x \<in> set items. absorbs x} = flat_keys C items"
    by (auto simp: flat_keys_def absorbs_def)
  then show "distinct (map (oi_key C) (filter is_marker (folded C items)))"
    "oi_key C ` set (filter is_marker (folded C items)) = flat_keys C items"
    using fold_loop_markers[OF m(1), of "{}" items] m(2) by (simp_all add: folded_def)
qed

lemma folded_files:
  "filter is_file (folded C items) = filter (\<lambda>x. is_file x \<and> \<not> is_flat_marker_entry x) items"
  "filter (\<lambda>x. oi_kind x = Kind_Directory) (folded C items) = []"
proof -
  have "marker_map_ok C (collect_markers C items [])"
    using collect_markers_map[of C "[]" items] by (simp add: marker_map_ok_def)
  from fold_loop_files[OF this, of items "{}"]
  show "filter is_file (folded C items) = filter (\<lambda>x. is_file x \<and> \<not> is_flat_marker_entry x) items"
    "filter (\<lambda>x. oi_kind x = Kind_Directory) (folded C items) = []"
    by (simp_all add: folded_def filter_empty_conv)
qed

lemma fold_flat_filter:
  assumes "\<And>x. P x \<Longrightarrow> oi_kind x \<noteq> Kind_DirectoryInferred"
  shows "filter P (fold_markers_and_infer_subdir_kinds C lp items False recursive) =
     filter P (folded C (normalize_directory_addresses C items))"
  using fold_concrete_filter[of P C, OF assms] synthesize_loop_filter[of P C lp, OF assms]
  by (simp add: fold_flat_eq synthesize_missing_inferred_ancestors_def)

section \<open>Properties\<close>

text \<open>C4. Routing selects the most specific root: for canonical addresses the table answers with
  the entry of largest \<open>node_rank\<close> among those whose root contains the address, the earliest
  supplied among equals. Only when no root contains it, and its query carries nothing but version
  selectors, the marked fallback root of the address's scheme answers; otherwise nothing does.\<close>

theorem route_lookup_most_specific:
  assumes "crate_ok C" "as_str_ok C" "canonical_url u" "url_has_authority u"
    and roots: "\<forall>e \<in> set items. canonical_url (entry_url e)"
  shows "\<exists>p fb. chosen (\<lambda>e. is_ancestor_or_self (entry_url e) u) (\<lambda>e. node_rank (entry_url e)) items p \<and>
     chosen (\<lambda>e. is_scheme_fallback_root (fst e) \<and> url_scheme (entry_url e) = url_scheme u)
       (\<lambda>e. node_rank (entry_url e)) items fb \<and>
     route_lookup C (route_table_build items) u =
       (case p of Some e \<Rightarrow> Some e | None \<Rightarrow> if generated_rule_may_answer u then fb else None)"
proof -
  have "chosen (\<lambda>e. is_ancestor_or_self (entry_url e) u) (\<lambda>e. node_rank (entry_url e)) items
      (lookup_prefix C (route_table_build items) u)"
    using lookup_prefix_chosen relative_suffix_some_iff[OF assms(1-3) _ assms(4)] roots
    by (subst chosen_cong[where Q = "\<lambda>e. relative_suffix C u (entry_url e) \<noteq> None"]) auto
  moreover have "chosen (\<lambda>e. is_scheme_fallback_root (fst e) \<and> url_scheme (entry_url e) = url_scheme u)
      (\<lambda>e. node_rank (entry_url e)) items (fallback_of items (url_scheme u))"
    unfolding fallback_of_def by (rule find_sort_desc_chosen)
  ultimately show ?thesis using route_lookup_tiers[of C items u] by blast
qed

text \<open>A client that follows the page tokens of a listing gets every item once, in order, for
  every page size but zero, which is refused; no page exceeds the size that was asked for. One
  request more than the listing has items is enough.\<close>

theorem pagination_complete:
  assumes "m > 0" "length items \<le> usize_max"
  shows "fetch_all (Suc (length items)) items (Some m) None = Some items \<and>
     (\<forall>tok. paginate_list_items items (Some 0) tok = Inl Err_InvalidArgument) \<and>
     (\<forall>tok page. paginate_list_items items (Some m) tok = Inr page \<longrightarrow> length (page_items page) \<le> m)"
proof (intro conjI allI impI)
  show "fetch_all (Suc (length items)) items (Some m) None = Some items"
    using fetch_from[OF assms, of 0 None "Suc (length items)"] by simp
  show "paginate_list_items items (Some 0) tok = Inl Err_InvalidArgument" for tok
    by (simp add: paginate_list_items_def split: option.split)
  show "length (page_items page) \<le> m" if "paginate_list_items items (Some m) tok = Inr page" for tok page
    using that by (auto simp: paginate_list_items_def Let_def split: option.splits if_splits)
qed

text \<open>Folding a listing of a flat store leaves one entry per directory marker: the markers of
  the result have distinct addresses, which are exactly those at which the backend listed a
  marker or an empty slash-terminated file; no plain \<open>Directory\<close> remains, no inferred
  directory shares its address with a marker, and every other file is kept, in order.\<close>

theorem flat_listing_folds_markers:
  "let out = fold_markers_and_infer_subdir_kinds C lp items False recursive in
     distinct (map (oi_key C) (filter is_marker out)) \<and>
     oi_key C ` set (filter is_marker out) = flat_keys C (normalize_directory_addresses C items) \<and>
     filter (\<lambda>x. oi_kind x = Kind_Directory) out = [] \<and>
     oi_key C ` set (filter is_marker out) \<inter>
       oi_key C ` set (filter (\<lambda>x. oi_kind x = Kind_DirectoryInferred) out) = {} \<and>
     filter is_file out = filter (\<lambda>x. is_file x \<and> \<not> is_flat_marker_entry x) items"
proof -
  let ?out = "fold_markers_and_infer_subdir_kinds C lp items False recursive"
  have "oi_key C ` set (filter is_marker ?out) \<inter>
      oi_key C ` set (filter (\<lambda>x. oi_kind x = Kind_DirectoryInferred) ?out) = {}"
    using fold_concrete_no_shadow unfolding fold_flat_eq
    by (fastforce simp: is_marker_def is_concrete_dir_def)
  moreover have "filter is_marker ?out = filter is_marker (folded C (normalize_directory_addresses C items))"
    "filter is_file ?out = filter is_file (folded C (normalize_directory_addresses C items))"
    "filter (\<lambda>x. oi_kind x = Kind_Directory) ?out =
       filter (\<lambda>x. oi_kind x = Kind_Directory) (folded C (normalize_directory_addresses C items))"
    by (intro fold_flat_filter; simp add: is_marker_def is_file_def)+
  ultimately show ?thesis
    unfolding Let_def
    using folded_markers[of C "normalize_directory_addresses C items"]
      folded_files[of C "normalize_directory_addresses C items"] normalize_files[of C items]
    by (simp only: simp_thms)
qed

text \<open>A recursive listing of a flat store is closed under ancestors: for every file or marker
  it returns below the listed prefix, each directory address strictly between the two is the
  address of an entry of the same listing.\<close>

theorem recursive_listing_closed:
  assumes "x \<in> set (fold_markers_and_infer_subdir_kinds C lp items False True)"
    and "oi_kind x \<noteq> Kind_DirectoryInferred" "relative_suffix C (oi_address x) lp \<noteq> None"
    and "a \<in> set (ancestor_addresses C lp (oi_address x))"
  shows "crate_as_str C a \<in> oi_key C ` set (fold_markers_and_infer_subdir_kinds C lp items False True)"
proof -
  let ?f = "folded C (normalize_directory_addresses C items)"
  have "x \<in> set (filter (\<lambda>x. oi_kind x \<noteq> Kind_DirectoryInferred)
      (fold_markers_and_infer_subdir_kinds C lp items False True))"
    using assms(1,2) by simp
  then have "x \<in> set ?f" by (subst (asm) fold_flat_filter) auto
  then have "crate_as_str C a \<in> oi_key C ` set ?f \<union>
      oi_key C ` set (synthesize_missing_inferred_ancestors C lp ?f)"
    using synthesize_loop_closed[OF _ assms(3,4)] by (simp add: synthesize_missing_inferred_ancestors_def)
  then have "crate_as_str C a \<in> oi_key C ` set (synthesize_missing_inferred_ancestors C lp ?f)"
    using synthesize_loop_superset by (fastforce simp: synthesize_missing_inferred_ancestors_def)
  then show ?thesis unfolding fold_flat_eq by (simp add: fold_concrete_keys)
qed

section \<open>Witnesses\<close>

definition sample_root :: "string \<Rightarrow> root_info" where
  "sample_root p =
     \<lparr>ri_root = base_url ''s3'' (Some ''b'') p, ri_display_name = None, ri_layer_kind = ''s3'',
      ri_connection_id = None, ri_owning_target = None, ri_capabilities = capabilities_empty,
      ri_range_read_strategy = Range_Native, ri_source = Source_Static Layer_User, ri_visible = True,
      ri_visibility = Vis_Visible, ri_alias_state = None, ri_icon = None, ri_user_metadata = Map.empty\<rparr>"

definition sample_file :: "string \<Rightarrow> object_info" where
  "sample_file p = (inferred_directory_info (base_url ''s3'' (Some ''b'') p))\<lparr>oi_kind := Kind_File, oi_size := Some 5\<rparr>"

theorem route_lookup_most_specific_witness:
  "route_lookup ref_crate (route_table_build [(sample_root ''/'', 1::nat), (sample_root ''/a/'', 2)])
     (base_url ''s3'' (Some ''b'') ''/a/x'') = Some (sample_root ''/a/'', 2)"
proof -
  let ?u = "base_url ''s3'' (Some ''b'') ''/a/x''" and ?r = "base_url ''s3'' (Some ''b'') ''/''"
    and ?s = "base_url ''s3'' (Some ''b'') ''/a/''"
  let ?items = "[(sample_root ''/'', 1::nat), (sample_root ''/a/'', 2)]"
  let ?P = "\<lambda>e::nat route_entry. is_ancestor_or_self (entry_url e) ?u"
    and ?k = "\<lambda>e::nat route_entry. node_rank (entry_url e)"
  have "canonical_of ?u = ?u" "canonical_of ?r = ?r" "canonical_of ?s = ?s" by code_simp+
  then have c: "canonical_url ?u" "canonical_url ?r" "canonical_url ?s"
    by (simp_all add: canonical_url_def url_wf_def) (simp_all add: base_url_def)
  have e: "\<forall>e \<in> set ?items. canonical_url (entry_url e)"
    using c by (simp add: entry_url_def sample_root_def)
  have a: "as_str_ok ref_crate" "url_has_authority ?u"
    by (simp_all add: as_str_ok_def ref_crate_def base_url_def)
  have k: "crate_ok ref_crate" by simp
  obtain p fb where pf: "chosen ?P ?k ?items p"
    "route_lookup ref_crate (route_table_build ?items) ?u =
       (case p of Some e \<Rightarrow> Some e | None \<Rightarrow> if generated_rule_may_answer ?u then fb else None)"
    using route_lookup_most_specific[OF k a(1) c(1) a(2) e] by blast
  have "?P (sample_root ''/a/'', 2)" "?k (sample_root ''/'', 1) < ?k (sample_root ''/a/'', 2)"
    by code_simp+
  then have "chosen ?P ?k ?items (Some (sample_root ''/a/'', 2))"
    unfolding chosen_def option.case
    by (intro exI[of _ "[(sample_root ''/'', 1)]"] exI[of _ "[]"]) simp
  from chosen_unique[OF this pf(1)] pf(2) show ?thesis by simp
qed

theorem pagination_complete_witness:
  "fetch_all 4 [sample_file ''/a'', sample_file ''/b'', sample_file ''/c''] (Some 2) None =
     Some [sample_file ''/a'', sample_file ''/b'', sample_file ''/c'']"
proof -
  let ?items = "[sample_file ''/a'', sample_file ''/b'', sample_file ''/c'']"
  have "length ?items \<le> usize_max" "Suc (length ?items) = 4" "0 < (2::nat)" by (simp_all add: usize_max_def)
  then show ?thesis using pagination_complete[of 2 ?items] by metis
qed

theorem recursive_listing_closed_witness:
  "''s3://b/a/'' \<in> oi_key ref_crate `
     set (fold_markers_and_infer_subdir_kinds ref_crate (base_url ''s3'' (Some ''b'') ''/'')
            [sample_file ''/a/b.txt''] False True)"
proof -
  let ?lp = "base_url ''s3'' (Some ''b'') ''/''" and ?x = "sample_file ''/a/b.txt''"
    and ?a = "base_url ''s3'' (Some ''b'') ''/a/''"
  have "?x \<in> set (fold_markers_and_infer_subdir_kinds ref_crate ?lp [?x] False True)"
    "oi_kind ?x \<noteq> Kind_DirectoryInferred" "relative_suffix ref_crate (oi_address ?x) ?lp \<noteq> None"
    "?a \<in> set (ancestor_addresses ref_crate ?lp (oi_address ?x))"
    "crate_as_str ref_crate ?a = ''s3://b/a/''" by code_simp+
  then show ?thesis using recursive_listing_closed[of ?x ref_crate ?lp "[?x]" ?a] by simp
qed

end
