(* ===== verification/Ov_Retry.thy ===== *)
theory Ov_Retry
  imports Ov_Types Ov_Errors "HOL-Library.Word"
begin

text \<open>
  Retrying (\<open>ovstorage-retry/src/lib.rs\<close>) and the retry wrapper layer
  (\<open>ovstorage-plugin-core/src/retry.rs\<close>): the two retry loops with exponential backoff and
  jitter, the configuration with its bounds, the replayable verbs and the two-phase streaming
  list. Attempts are 32-bit words with saturating increment, so the loops terminate on every
  configuration; delays are milliseconds and sleeps nanoseconds.

  An operation is a function on the state of the wrapped layer. The random numbers are the
  argument \<open>draw\<close>, indexed by the attempt. A loop returns the result, the state and the sleeps it
  took; log records and metrics are left out.
\<close>

type_synonym attempts = "32 word"

section \<open>Configuration\<close>

record retry_config =
  initial_delay_ms :: nat
  max_delay_ms :: nat
  max_attempts :: attempts

definition default_retry_config :: retry_config where
  "default_retry_config = \<lparr>initial_delay_ms = 100, max_delay_ms = 30000, max_attempts = 5\<rparr>"

definition retry_none :: retry_config where
  "retry_none = \<lparr>initial_delay_ms = 0, max_delay_ms = 0, max_attempts = 1\<rparr>"

definition validate :: "retry_config \<Rightarrow> unit result" where
  "validate c =
     (if max_attempts c = 0 then Inl Err_InvalidArgument
      else if max_delay_ms c < initial_delay_ms c \<and> 1 < max_attempts c then Inl Err_InvalidArgument
      else Inr ())"

definition config_u64 :: "config_value \<Rightarrow> nat result" where
  "config_u64 v = (case v of Config_Int i \<Rightarrow> if 0 \<le> i then Inr (nat i) else Inl Err_InvalidArgument
     | _ \<Rightarrow> Inl Err_InvalidArgument)"

definition config_u32 :: "config_value \<Rightarrow> attempts result" where
  "config_u32 v =
     (case config_u64 v of
        Inl e \<Rightarrow> Inl e
      | Inr n \<Rightarrow> if n < 2 ^ 32 then Inr (word_of_nat n) else Inl Err_InvalidArgument)"

text \<open>An absent key keeps the default; a present one is decoded or refuses the configuration.\<close>

definition optional_key :: "layer_config \<Rightarrow> string \<Rightarrow> (config_value \<Rightarrow> 'a result) \<Rightarrow> 'a \<Rightarrow> 'a result" where
  "optional_key config k dec d = (case config k of None \<Rightarrow> Inr d | Some v \<Rightarrow> dec v)"

definition retry_config_from :: "layer_config \<Rightarrow> retry_config result" where
  "retry_config_from config =
     (let d = default_retry_config in
      case optional_key config ''initial_delay_ms'' config_u64 (initial_delay_ms d) of
        Inl e \<Rightarrow> Inl e
      | Inr i \<Rightarrow>
          (case optional_key config ''max_delay_ms'' config_u64 (max_delay_ms d) of
             Inl e \<Rightarrow> Inl e
           | Inr m \<Rightarrow>
               (case optional_key config ''max_attempts'' config_u32 (max_attempts d) of
                  Inl e \<Rightarrow> Inl e
                | Inr a \<Rightarrow>
                    (let c = \<lparr>initial_delay_ms = i, max_delay_ms = m, max_attempts = a\<rparr> in
                     case validate c of Inl e \<Rightarrow> Inl e | Inr _ \<Rightarrow> Inr c))))"

section \<open>The loops\<close>

definition is_retryable :: "error_code \<Rightarrow> bool" where
  "is_retryable code = retryable code"

definition saturating_inc :: "attempts \<Rightarrow> attempts" where
  "saturating_inc a = (if a = - 1 then a else a + 1)"

text \<open>\<open>as_nanos() as u64\<close> keeps the low 64 bits.\<close>

definition jittered :: "nat \<Rightarrow> nat \<Rightarrow> nat" where
  "jittered random cap_ms =
     (let cap_nanos = (cap_ms * 1000000) mod 2 ^ 64 in if cap_nanos = 0 then 0 else random mod cap_nanos)"

lemma saturating_inc_unat:
  assumes "saturating_inc a < cap"
  shows "unat (saturating_inc a) = unat a + 1" "unat a + 1 < unat cap"
proof -
  have "a \<noteq> - 1" using assms word_order.extremum_strict[of cap] by (auto simp: saturating_inc_def)
  then have "unat (a + 1) = unat a + 1" by (metis Suc_eq_plus1 add.commute add_eq_0_iff unatSuc)
  with \<open>a \<noteq> - 1\<close> assms show "unat (saturating_inc a) = unat a + 1" "unat a + 1 < unat cap"
    by (simp_all add: saturating_inc_def word_less_nat_alt)
qed

function (sequential) retry_loop ::
    "(attempts \<Rightarrow> nat) \<Rightarrow> nat \<Rightarrow> attempts \<Rightarrow> ('s \<Rightarrow> 'a result \<times> 's) \<Rightarrow> attempts \<Rightarrow> nat \<Rightarrow> 's \<Rightarrow>
     'a result \<times> 's \<times> nat list" where
  "retry_loop draw max_delay cap op attempt next_delay s =
     (case op s of
        (Inr v, s') \<Rightarrow> (Inr v, s', [])
      | (Inl e, s') \<Rightarrow>
          (let attempt' = saturating_inc attempt in
           if \<not> is_retryable e \<or> cap \<le> attempt' then (Inl e, s', [])
           else
             (let (r, s'', sleeps) =
                    retry_loop draw max_delay cap op attempt' (min (next_delay * 2) max_delay) s'
              in (r, s'', jittered (draw attempt') next_delay # sleeps))))"
  by pat_completeness auto
termination
proof (relation "measure (\<lambda>(_, _, cap, _, attempt, _, _). unat cap - unat attempt)", goal_cases)
  case (2 draw max_delay cap op attempt next_delay s x1 x2 e a')
  then have "a' = saturating_inc attempt" "a' < cap" by auto
  with saturating_inc_unat[of attempt cap] show ?case by simp
qed simp

declare retry_loop.simps [simp del]

definition attempt_cap :: "retry_config \<Rightarrow> attempts" where
  "attempt_cap c = max (max_attempts c) 1"

definition with_retry ::
    "(attempts \<Rightarrow> nat) \<Rightarrow> retry_config \<Rightarrow> ('s \<Rightarrow> 'a result \<times> 's) \<Rightarrow> 's \<Rightarrow> 'a result \<times> 's \<times> nat list" where
  "with_retry draw config op s =
     retry_loop draw (max_delay_ms config) (attempt_cap config) op 0 (initial_delay_ms config) s"

datatype 'a retry_step = Step_Done 'a | Step_Failed error_code | Step_RetryAfter error_code "nat option"

text \<open>The loop for HTTP calls: the step decides, and a server hint (in nanoseconds) replaces the
  jittered delay, clamped to the maximum.\<close>

function (sequential) http_retry_loop ::
    "(attempts \<Rightarrow> nat) \<Rightarrow> nat \<Rightarrow> attempts \<Rightarrow> (attempts \<Rightarrow> 's \<Rightarrow> 'a retry_step \<times> 's) \<Rightarrow> attempts \<Rightarrow> nat \<Rightarrow> 's \<Rightarrow>
     'a result \<times> 's \<times> nat list" where
  "http_retry_loop draw max_delay cap op attempt next_delay s =
     (let attempt' = saturating_inc attempt in
      case op attempt s of
        (Step_Done v, s') \<Rightarrow> (Inr v, s', [])
      | (Step_Failed e, s') \<Rightarrow> (Inl e, s', [])
      | (Step_RetryAfter e hint, s') \<Rightarrow>
          (if cap \<le> attempt' then (Inl e, s', [])
           else
             (let (r, s'', sleeps) =
                    http_retry_loop draw max_delay cap op attempt' (min (next_delay * 2) max_delay) s'
              in (r, s'',
                  (case hint of Some h \<Rightarrow> min h (max_delay * 1000000) | None \<Rightarrow> jittered (draw attempt') next_delay)
                  # sleeps))))"
  by pat_completeness auto
termination
proof (relation "measure (\<lambda>(_, _, cap, _, attempt, _, _). unat cap - unat attempt)", goal_cases)
  case (2 draw max_delay cap op attempt next_delay s a' x1 x2 e h)
  then have "a' = saturating_inc attempt" "a' < cap" by auto
  with saturating_inc_unat[of attempt cap] show ?case by simp
qed simp

declare http_retry_loop.simps [simp del]

definition with_http_retry ::
    "(attempts \<Rightarrow> nat) \<Rightarrow> retry_config \<Rightarrow> (attempts \<Rightarrow> 's \<Rightarrow> 'a retry_step \<times> 's) \<Rightarrow> 's \<Rightarrow>
     'a result \<times> 's \<times> nat list" where
  "with_http_retry draw config op s =
     http_retry_loop draw (max_delay_ms config) (attempt_cap config) op 0 (initial_delay_ms config) s"

section \<open>The wrapper\<close>

text \<open>The macro \<open>retried!\<close>: every attempt sends a copy of the same request.\<close>

definition retried ::
    "(attempts \<Rightarrow> nat) \<Rightarrow> retry_config \<Rightarrow> ('q \<Rightarrow> 's \<Rightarrow> 'a result \<times> 's) \<Rightarrow> 'q \<Rightarrow> 's \<Rightarrow>
     'a result \<times> 's \<times> nat list" where
  "retried draw retry inner request s = with_retry draw retry (inner request) s"

definition retry_stat where "retry_stat = retried"
definition retry_read where "retry_read = retried"
definition retry_delete where "retry_delete = retried"
definition retry_copy where "retry_copy = retried"
definition retry_rename where "retry_rename = retried"
definition retry_update_metadata where "retry_update_metadata = retried"
definition retry_check_access where "retry_check_access = retried"
definition retry_materialize where "retry_materialize = retried"
definition retry_list where "retry_list = retried"
definition retry_list_versions where "retry_list_versions = retried"
definition retry_get_latest_version where "retry_get_latest_version = retried"
definition retry_watch_directory where "retry_watch_directory = retried"
definition retry_create_directory where "retry_create_directory = retried"
definition retry_delete_directory where "retry_delete_directory = retried"

datatype 'b body = Body_Bytes string | Body_LocalFile string | Body_Stream 'b

record 'b write_request =
  wr_address :: url
  wr_body :: "'b body"
  wr_options :: string

definition retry_write ::
    "(attempts \<Rightarrow> nat) \<Rightarrow> retry_config \<Rightarrow> ('b write_request \<Rightarrow> 's \<Rightarrow> 'a result \<times> 's) \<Rightarrow>
     'b write_request \<Rightarrow> 's \<Rightarrow> 'a result \<times> 's \<times> nat list" where
  "retry_write draw retry inner request s =
     (case wr_body request of
        Body_Bytes bytes \<Rightarrow> with_retry draw retry (inner request) s
      | _ \<Rightarrow> (let (r, s') = inner request s in (r, s', [])))"

record list_request =
  lr_prefix :: url
  lr_max_results :: "nat option"
  lr_page_token :: "string option"

type_synonym 'i stream = "'i result list"

text \<open>Opening is retried at once; the first item is retried when the consumer asks for it.\<close>

definition retry_list_stream ::
    "(attempts \<Rightarrow> nat) \<Rightarrow> retry_config \<Rightarrow> (list_request \<Rightarrow> 's \<Rightarrow> 'i stream result \<times> 's) \<Rightarrow>
     list_request \<Rightarrow> 's \<Rightarrow> 'i stream result \<times> 's \<times> nat list" where
  "retry_list_stream draw retry inner request s =
     (if lr_max_results request \<noteq> None \<or> lr_page_token request \<noteq> None
      then (Inl Err_InvalidArgument, s, [])
      else retried draw retry inner request s)"

definition first_item_attempt ::
    "('s \<Rightarrow> 'i stream result \<times> 's) \<Rightarrow> 'i stream option \<times> 's \<Rightarrow> 'i stream result \<times> ('i stream option \<times> 's)" where
  "first_item_attempt reopen st =
     (let (opened, s') = (case fst st of Some stream \<Rightarrow> (Inr stream, snd st) | None \<Rightarrow> reopen (snd st)) in
      (case opened of
         Inl e \<Rightarrow> Inl e
       | Inr [] \<Rightarrow> Inr []
       | Inr (Inr first # rest) \<Rightarrow> Inr (Inr first # rest)
       | Inr (Inl e # rest) \<Rightarrow> Inl e, (None, s')))"

definition poll_list_stream ::
    "(attempts \<Rightarrow> nat) \<Rightarrow> retry_config \<Rightarrow> (list_request \<Rightarrow> 's \<Rightarrow> 'i stream result \<times> 's) \<Rightarrow>
     list_request \<Rightarrow> 'i stream \<Rightarrow> 's \<Rightarrow> 'i stream \<times> 's \<times> nat list" where
  "poll_list_stream draw retry inner request initial_stream s =
     (let (r, (_, s'), sleeps) =
            with_retry draw retry (first_item_attempt (inner request)) (Some initial_stream, s)
      in (case r of Inr stream \<Rightarrow> stream | Inl e \<Rightarrow> [Inl e], s', sleeps))"

section \<open>What a loop computes\<close>

text \<open>The result and state of the \<open>n\<close>-th call, when every call starts where the last one ended.\<close>

fun nth_call :: "('s \<Rightarrow> 'o \<times> 's) \<Rightarrow> nat \<Rightarrow> 's \<Rightarrow> 'o \<times> 's" where
  "nth_call op 0 s = op s"
| "nth_call op (Suc n) s = nth_call op n (snd (op s))"

definition retries :: "'a result \<Rightarrow> bool" where
  "retries r = (case r of Inl e \<Rightarrow> is_retryable e | Inr _ \<Rightarrow> False)"

fun delay_at :: "nat \<Rightarrow> nat \<Rightarrow> nat \<Rightarrow> nat" where
  "delay_at mx d 0 = d"
| "delay_at mx d (Suc i) = delay_at mx (min (d * 2) mx) i"

lemma jittered_le: "jittered r ms \<le> ms * 1000000"
proof (cases "(ms * 1000000) mod 2 ^ 64 = 0")
  case False
  then have "r mod ((ms * 1000000) mod 2 ^ 64) \<le> (ms * 1000000) mod 2 ^ 64" by (simp add: less_imp_le)
  also have "\<dots> \<le> ms * 1000000" by (rule mod_less_eq_dividend)
  finally show ?thesis using False by (simp add: jittered_def Let_def)
qed (simp add: jittered_def Let_def)

lemma delay_at_bound: "d \<le> mx \<Longrightarrow> delay_at mx d i \<le> min (d * 2 ^ i) mx"
proof (induction i arbitrary: d)
  case (Suc i)
  have "delay_at mx (min (d * 2) mx) i \<le> min (min (d * 2) mx * 2 ^ i) mx" by (rule Suc.IH) simp
  also have "\<dots> \<le> min (d * 2 ^ Suc i) mx"
    by (intro min.mono) (auto simp: min_le_iff_disj mult.assoc intro: mult_le_mono1)
  finally show ?case by simp
qed simp

text \<open>
  What the two loops share: one call per round, at most one more round per attempt left, a sleep
  between two rounds, the delay doubled up to the maximum. \<open>again\<close> tells the outcomes that ask for
  another round, \<open>answer\<close> what the caller gets for the last one, and \<open>slept\<close> which sleeps a delay
  admits.
\<close>

fun nth_attempt :: "(attempts \<Rightarrow> 's \<Rightarrow> 'o \<times> 's) \<Rightarrow> nat \<Rightarrow> attempts \<Rightarrow> 's \<Rightarrow> 'o \<times> 's" where
  "nth_attempt call 0 a s = call a s"
| "nth_attempt call (Suc n) a s = nth_attempt call n (saturating_inc a) (snd (call a s))"

locale attempt_loop =
  fixes again :: "'o \<Rightarrow> bool"
    and answer :: "'o \<Rightarrow> 'r"
    and slept :: "nat \<Rightarrow> nat \<Rightarrow> bool"
    and mx :: nat
    and call :: "attempts \<Rightarrow> 's \<Rightarrow> 'o \<times> 's"
    and loop :: "attempts \<Rightarrow> attempts \<Rightarrow> nat \<Rightarrow> 's \<Rightarrow> 'r \<times> 's \<times> nat list"
  assumes stop: "call a s = (out, s') \<Longrightarrow> \<not> again out \<or> cap \<le> saturating_inc a \<Longrightarrow>
      loop cap a d s = (answer out, s', [])"
    and go_on: "call a s = (out, s') \<Longrightarrow> again out \<Longrightarrow> saturating_inc a < cap \<Longrightarrow>
      \<exists>x. slept d x \<and> loop cap a d s =
        (let (r, s'', sleeps) = loop cap (saturating_inc a) (min (d * 2) mx) s' in (r, s'', x # sleeps))"
begin

lemma stops_within:
  assumes "unat a < unat cap" "cap \<le> saturating_inc a"
  shows "unat a + 1 = unat cap"
proof -
  have "unat cap \<le> unat (saturating_inc a)" using assms(2) by (simp add: word_le_nat_alt)
  also have "\<dots> \<le> unat a + 1"
    by (auto simp: saturating_inc_def unat_word_ariths(1) intro: mod_less_eq_dividend)
  finally show ?thesis using assms(1) by simp
qed

lemma loop_spec:
  "unat a < unat cap \<Longrightarrow> loop cap a d s = (r, s', sleeps) \<Longrightarrow>
     (\<exists>out. nth_attempt call (length sleeps) a s = (out, s') \<and> r = answer out \<and>
        (again out \<longrightarrow> unat a + length sleeps + 1 = unat cap)) \<and>
     (\<forall>i < length sleeps. again (fst (nth_attempt call i a s)) \<and> slept (delay_at mx d i) (sleeps ! i)) \<and>
     unat a + length sleeps < unat cap"
proof (induction sleeps arbitrary: a d s)
  case Nil
  obtain out s0 where c: "call a s = (out, s0)" by fastforce
  show ?case
  proof (cases "\<not> again out \<or> cap \<le> saturating_inc a")
    case True
    from stop[OF c this] Nil(2) have "r = answer out" "s' = s0" by auto
    then show ?thesis using c True stops_within[OF Nil(1)] Nil(1) by auto
  next
    case False
    then obtain x where "loop cap a d s =
        (let (r, s'', sleeps) = loop cap (saturating_inc a) (min (d * 2) mx) s0 in (r, s'', x # sleeps))"
      using go_on[OF c] by force
    with Nil(2) show ?thesis by (simp add: Let_def split: prod.splits)
  qed
next
  case (Cons x sleeps)
  obtain out s0 where c: "call a s = (out, s0)" by fastforce
  have go: "again out" "saturating_inc a < cap"
    using stop[OF c, of cap d] Cons.prems(2) by (auto simp: not_le[symmetric])
  then obtain y where y: "slept d y" "loop cap a d s =
      (let (r, s'', sleeps) = loop cap (saturating_inc a) (min (d * 2) mx) s0 in (r, s'', y # sleeps))"
    using go_on[OF c] by blast
  then have rest: "loop cap (saturating_inc a) (min (d * 2) mx) s0 = (r, s', sleeps)" and x: "x = y"
    using Cons.prems(2) by (auto simp: Let_def split: prod.splits)
  note inc = saturating_inc_unat[OF go(2)]
  note IH = Cons.IH[OF _ rest, unfolded inc(1)]
  have s0: "snd (call a s) = s0" "again (fst (call a s))" using c go by simp_all
  have "again (fst (nth_attempt call i a s)) \<and> slept (delay_at mx d i) ((x # sleeps) ! i)"
    if "i < length (x # sleeps)" for i
    using that IH inc s0 y(1) x by (cases i) simp_all
  then show ?case using IH inc s0(1) by auto
qed

end

lemma retry_loop_stop:
  "op s = (out, s') \<Longrightarrow> \<not> retries out \<or> cap \<le> saturating_inc a \<Longrightarrow>
     retry_loop draw mx cap op a d s = (id out, s', [])"
  by (cases out) (auto simp: retry_loop.simps[of draw mx cap op a d s] retries_def Let_def)

lemma retry_loop_go_on:
  "op s = (out, s') \<Longrightarrow> retries out \<Longrightarrow> saturating_inc a < cap \<Longrightarrow>
     retry_loop draw mx cap op a d s =
       (let (r, s'', sleeps) = retry_loop draw mx cap op (saturating_inc a) (min (d * 2) mx) s'
        in (r, s'', jittered (draw (saturating_inc a)) d # sleeps))"
  by (cases out) (auto simp: retry_loop.simps[of draw mx cap op a d s] retries_def Let_def)

interpretation plain_retry: attempt_loop retries id "\<lambda>d x. x \<le> d * 1000000" mx "\<lambda>_. op"
    "\<lambda>cap a d s. retry_loop draw mx cap op a d s" for mx op draw
proof unfold_locales
  show "\<exists>x. x \<le> d * 1000000 \<and> retry_loop draw mx cap op a d s =
      (let (r, s'', sleeps) = retry_loop draw mx cap op (saturating_inc a) (min (d * 2) mx) s' in (r, s'', x # sleeps))"
    if "op s = (out, s')" "retries out" "saturating_inc a < cap" for a s out s' cap d
    using retry_loop_go_on[where op = op and draw = draw and mx = mx and d = d, OF that] jittered_le by blast
qed (rule retry_loop_stop)

text \<open>For HTTP calls the step asks for another round, and a hint is a sleep of its own.\<close>

fun asks_again :: "'a retry_step \<Rightarrow> bool" where
  "asks_again (Step_RetryAfter e h) = True"
| "asks_again _ = False"

fun step_answer :: "'a retry_step \<Rightarrow> 'a result" where
  "step_answer (Step_Done v) = Inr v"
| "step_answer (Step_Failed e) = Inl e"
| "step_answer (Step_RetryAfter e h) = Inl e"

interpretation http_retry: attempt_loop asks_again step_answer
    "\<lambda>d x. x \<le> max d mx * 1000000" mx op "\<lambda>cap a d s. http_retry_loop draw mx cap op a d s" for mx op draw
proof unfold_locales
  show "http_retry_loop draw mx cap op a d s = (step_answer out, s', [])"
    if "op a s = (out, s')" "\<not> asks_again out \<or> cap \<le> saturating_inc a" for a s out s' cap d
    using that by (cases out) (auto simp: http_retry_loop.simps[of draw mx cap op a d s] Let_def)
  show "\<exists>x. x \<le> max d mx * 1000000 \<and> http_retry_loop draw mx cap op a d s =
      (let (r, s'', sleeps) = http_retry_loop draw mx cap op (saturating_inc a) (min (d * 2) mx) s' in (r, s'', x # sleeps))"
    if c: "op a s = (out, s')" and again: "asks_again out" "saturating_inc a < cap" for a s out s' cap d
  proof -
    obtain e h where out: "out = Step_RetryAfter e h" using again(1) by (cases out) auto
    let ?x = "case h of Some h \<Rightarrow> min h (mx * 1000000) | None \<Rightarrow> jittered (draw (saturating_inc a)) d"
    have "?x \<le> max d mx * 1000000"
      using jittered_le[of "draw (saturating_inc a)" d] by (auto split: option.split)
    moreover have "http_retry_loop draw mx cap op a d s =
        (let (r, s'', sleeps) = http_retry_loop draw mx cap op (saturating_inc a) (min (d * 2) mx) s' in (r, s'', ?x # sleeps))"
      using c again(2) by (simp add: http_retry_loop.simps[of draw mx cap op a d s] Let_def out not_le[symmetric])
    ultimately show ?thesis by blast
  qed
qed

lemma nth_attempt_const: "nth_attempt (\<lambda>_. op) n a s = nth_call op n s"
  by (induction n arbitrary: a s) simp_all

lemma retry_loop_spec:
  assumes "unat attempt < unat cap" "retry_loop draw mx cap op attempt d s = (r, s', sleeps)"
  shows "nth_call op (length sleeps) s = (r, s') \<and>
     (\<forall>i < length sleeps. retries (fst (nth_call op i s)) \<and> sleeps ! i \<le> delay_at mx d i * 1000000) \<and>
     unat attempt + length sleeps < unat cap \<and>
     (retries r \<longrightarrow> unat attempt + length sleeps + 1 = unat cap)"
  using plain_retry.loop_spec[OF assms] by (auto simp: nth_attempt_const)

lemma attempt_cap_unat: "unat (attempt_cap c) = max (unat (max_attempts c)) 1"
  by (simp add: attempt_cap_def max_def word_le_nat_alt)

lemma attempt_cap_pos: "unat (0 :: attempts) < unat (attempt_cap c)"
  by (simp add: attempt_cap_unat)

lemma validated_delays: "validate c = Inr () \<Longrightarrow> unat (max_attempts c) = 1 \<or> initial_delay_ms c \<le> max_delay_ms c"
  by (auto simp: validate_def word_less_nat_alt split: if_splits)
    (metis One_nat_def Suc_lessI neq0_conv unat_eq_0)

section \<open>Properties\<close>

text \<open>Retrying is bounded and transparent, for every configuration: the operation is called
  \<open>length sleeps + 1\<close> times, never more than the configured attempts (at least once), each call
  but the last failed with a retryable error, and what the caller gets is the answer of the last
  call, which is a retryable error only when the attempts are used up. With a validated
  configuration the sleep before call \<open>i + 1\<close> is at most the doubled initial delay and never
  above the maximum.\<close>

theorem retry_bounded_transparent:
  assumes "with_retry draw c op s = (r, s', sleeps)"
  shows "length sleeps + 1 \<le> max (unat (max_attempts c)) 1 \<and>
     nth_call op (length sleeps) s = (r, s') \<and>
     (\<forall>i < length sleeps. retries (fst (nth_call op i s))) \<and>
     (retries r \<longrightarrow> length sleeps + 1 = max (unat (max_attempts c)) 1) \<and>
     (validate c = Inr () \<longrightarrow> (\<forall>i < length sleeps.
        sleeps ! i \<le> min (initial_delay_ms c * 2 ^ i) (max_delay_ms c) * 1000000))"
proof -
  note spec = retry_loop_spec[OF attempt_cap_pos assms[unfolded with_retry_def], unfolded attempt_cap_unat]
  have "sleeps ! i \<le> min (initial_delay_ms c * 2 ^ i) (max_delay_ms c) * 1000000"
    if "validate c = Inr ()" "i < length sleeps" for i
  proof -
    have "initial_delay_ms c \<le> max_delay_ms c"
      using validated_delays[OF that(1)] that(2) spec by auto
    from delay_at_bound[OF this, of i] show ?thesis
      using spec that(2) by (meson le_trans mult_le_mono1)
  qed
  then show ?thesis using spec by auto
qed

theorem retry_bounded_transparent_witness:
  "with_retry (\<lambda>_. 7) \<lparr>initial_delay_ms = 1, max_delay_ms = 2, max_attempts = 2\<rparr>
     (\<lambda>n. (Inl Err_Transient :: nat result, n + 1)) (0::nat) = (Inl Err_Transient, 2, [7]) \<and>
   length [7::nat] + 1 \<le> max (unat (2 :: attempts)) 1"
proof -
  have t: "is_retryable Err_Transient" by code_simp
  have "with_retry (\<lambda>_. 7) \<lparr>initial_delay_ms = 1, max_delay_ms = 2, max_attempts = 2\<rparr>
     (\<lambda>n. (Inl Err_Transient :: nat result, n + 1)) (0::nat) = (Inl Err_Transient, 2, [7])"
    unfolding with_retry_def
    by (subst retry_loop.simps, simp add: t attempt_cap_def saturating_inc_def jittered_def max_def
          word_le_nat_alt, subst retry_loop.simps, simp add: t saturating_inc_def)
  with retry_bounded_transparent[OF this] show ?thesis by simp
qed

text \<open>The HTTP loop is bounded in the same way: it makes at most the configured attempts, each
  call but the last asked for a retry, the caller gets the answer of the last call, a request to
  retry is passed on as an error only when the attempts are used up, and with a validated
  configuration no sleep exceeds the maximum delay, whatever the server's hint asks for.\<close>

theorem http_retry_bounded:
  assumes "with_http_retry draw c op s = (r, s', sleeps)"
  shows "length sleeps + 1 \<le> max (unat (max_attempts c)) 1 \<and>
     (\<exists>out. nth_attempt op (length sleeps) 0 s = (out, s') \<and> r = step_answer out \<and>
        (asks_again out \<longrightarrow> length sleeps + 1 = max (unat (max_attempts c)) 1)) \<and>
     (\<forall>i < length sleeps. asks_again (fst (nth_attempt op i 0 s))) \<and>
     (validate c = Inr () \<longrightarrow> (\<forall>x \<in> set sleeps. x \<le> max_delay_ms c * 1000000))"
proof -
  note spec = http_retry.loop_spec[OF attempt_cap_pos assms[unfolded with_http_retry_def], unfolded attempt_cap_unat]
  have "sleeps ! i \<le> max_delay_ms c * 1000000" if "validate c = Inr ()" "i < length sleeps" for i
  proof -
    have "initial_delay_ms c \<le> max_delay_ms c"
      using validated_delays[OF that(1)] that(2) spec by auto
    from delay_at_bound[OF this, of i]
    have "max (delay_at (max_delay_ms c) (initial_delay_ms c) i) (max_delay_ms c) = max_delay_ms c" by simp
    then show ?thesis using spec that(2) by metis
  qed
  then have "validate c = Inr () \<longrightarrow> (\<forall>x \<in> set sleeps. x \<le> max_delay_ms c * 1000000)"
    by (auto simp: in_set_conv_nth)
  then show ?thesis using spec by auto
qed

theorem http_retry_bounded_witness:
  "with_http_retry (\<lambda>_. 7) \<lparr>initial_delay_ms = 1, max_delay_ms = 2, max_attempts = 2\<rparr>
     (\<lambda>a n. (Step_RetryAfter Err_Transient (Some 5000000) :: nat retry_step, n + 1)) (0::nat) =
     (Inl Err_Transient, 2, [2000000]) \<and> length [2000000::nat] + 1 \<le> max (unat (2 :: attempts)) 1"
proof -
  have "with_http_retry (\<lambda>_. 7) \<lparr>initial_delay_ms = 1, max_delay_ms = 2, max_attempts = 2\<rparr>
     (\<lambda>a n. (Step_RetryAfter Err_Transient (Some 5000000) :: nat retry_step, n + 1)) (0::nat) =
     (Inl Err_Transient, 2, [2000000])"
    unfolding with_http_retry_def
    by (subst http_retry_loop.simps, simp add: attempt_cap_def saturating_inc_def max_def
          word_le_nat_alt, subst http_retry_loop.simps, simp add: saturating_inc_def)
  with http_retry_bounded[OF this] show ?thesis by simp
qed

section \<open>The streaming list\<close>

text \<open>An inner layer with a counter of the streams it opened.\<close>

definition counting :: "('q \<Rightarrow> 's \<Rightarrow> 'a \<times> 's) \<Rightarrow> 'q \<Rightarrow> nat \<times> 's \<Rightarrow> 'a \<times> (nat \<times> 's)" where
  "counting inner q st = (let (r, s') = inner q (snd st) in (r, (fst st + 1, s')))"

lemma counting_fst [simp]: "fst (snd (counting inner q st)) = fst st + 1"
  by (simp add: counting_def case_prod_beta Let_def)

lemma nth_call_counting: "fst (snd (nth_call (counting inner q) n st)) = fst st + n + 1"
  by (induction n arbitrary: st) simp_all

lemma first_item_opens:
  "snd (first_item_attempt reopen (init, s)) =
     (None, if init = None then snd (reopen s) else s)"
  by (auto simp: first_item_attempt_def case_prod_beta Let_def split: option.splits)

lemma nth_first_item_counting:
  "fst (snd (snd (nth_call (first_item_attempt (counting inner q)) n (init, st)))) =
     fst st + n + (if init = None then 1 else 0)"
proof (induction n arbitrary: init st)
  case (Suc n)
  have "nth_call (first_item_attempt (counting inner q)) (Suc n) (init, st) =
      nth_call (first_item_attempt (counting inner q)) n (None, if init = None then snd (counting inner q st) else st)"
    by (simp add: first_item_opens)
  then show ?case using Suc.IH by (cases init) simp_all
qed (simp add: first_item_opens)

lemma first_item_result:
  "fst (first_item_attempt reopen (init, s)) = Inr y \<Longrightarrow>
     (init = Some y \<or> init = None \<and> fst (reopen s) = Inr y) \<and> (y = [] \<or> (\<exists>f t. y = Inr f # t))"
  by (auto simp: first_item_attempt_def case_prod_beta Let_def split: sum.splits list.splits option.splits)

lemma nth_first_item_result:
  "fst (nth_call (first_item_attempt reopen) n (init, s)) = Inr y \<Longrightarrow>
     (init = Some y \<or> (\<exists>t. fst (reopen t) = Inr y)) \<and> (y = [] \<or> (\<exists>f t. y = Inr f # t))"
proof (induction n arbitrary: init s)
  case 0
  then show ?case using first_item_result by fastforce
next
  case (Suc n)
  have "nth_call (first_item_attempt reopen) (Suc n) (init, s) =
      nth_call (first_item_attempt reopen) n (None, if init = None then snd (reopen s) else s)"
    by (simp add: first_item_opens)
  then show ?case using Suc by auto
qed

lemma counting_result: "fst (counting inner q t) = fst (inner q (snd t))"
  by (simp add: counting_def case_prod_beta Let_def)

text \<open>A streaming list opens the wrapped stream at most \<open>2 * attempts - 1\<close> times over both
  phases, and paging options are refused before anything is opened. What the consumer reads is
  one error, or a stream the wrapped layer opened whose first item is not an error, unchanged:
  once an item was delivered nothing is replayed.\<close>

theorem list_stream_opens_bounded:
  assumes "retry_list_stream draw c (counting inner) req (0, s) = (Inr initial, st, sleeps)"
    and "poll_list_stream draw c (counting inner) req initial st = (stream, (opens, s'), sleeps')"
  shows "opens \<le> 2 * max (unat (max_attempts c)) 1 - 1 \<and>
     lr_max_results req = None \<and> lr_page_token req = None \<and>
     ((\<exists>e. stream = [Inl e]) \<or>
      (stream = initial \<or> (\<exists>t. fst (inner req t) = Inr stream)) \<and>
      (stream = [] \<or> (\<exists>first rest. stream = Inr first # rest)))"
proof -
  have paging: "lr_max_results req = None" "lr_page_token req = None"
    and opened: "with_retry draw c (counting inner req) (0, s) = (Inr initial, st, sleeps)"
    using assms(1) by (auto simp: retry_list_stream_def retried_def split: if_splits)
  note one = retry_bounded_transparent[OF opened]
  have st: "fst st = length sleeps + 1"
    using one nth_call_counting[of inner req "length sleeps" "(0, s)"] by simp
  obtain r init where polled: "with_retry draw c (first_item_attempt (counting inner req)) (Some initial, st) =
      (r, (init, (opens, s')), sleeps')" and stream: "stream = (case r of Inr x \<Rightarrow> x | Inl e \<Rightarrow> [Inl e])"
    using assms(2) by (auto simp: poll_list_stream_def Let_def split: prod.splits)
  note two = retry_bounded_transparent[OF polled]
  have "opens = fst st + length sleeps'"
    using two nth_first_item_counting[of inner req "length sleeps'" "Some initial" st] by simp
  then have bound: "opens \<le> 2 * max (unat (max_attempts c)) 1 - 1" using one two st by linarith
  have last: "fst (nth_call (first_item_attempt (counting inner req)) (length sleeps') (Some initial, st)) = r"
    using two by simp
  show ?thesis
  proof (cases r)
    case (Inl e)
    then show ?thesis using bound paging stream by simp
  next
    case (Inr y)
    from nth_first_item_result[OF last[unfolded Inr]] show ?thesis
      using bound paging stream Inr by (auto simp: counting_result)
  qed
qed

definition sample_listing_request :: list_request where
  "sample_listing_request = \<lparr>lr_prefix = base_url ''s3'' (Some ''b'') ''/'', lr_max_results = None, lr_page_token = None\<rparr>"

theorem list_stream_opens_bounded_witness:
  "\<exists>stream opens s' sl. poll_list_stream (\<lambda>_. 0) retry_none
       (counting (\<lambda>q (s::unit). (Inr [Inr (1::nat), Inl Err_Transient], s)))
       sample_listing_request [Inr 1, Inl Err_Transient] (1, ()) = (stream, (opens, s'), sl) \<and> opens \<le> 1"
proof -
  let ?inner = "\<lambda>q (s::unit). (Inr [Inr (1::nat), Inl Err_Transient] :: nat stream result, s)"
  let ?initial = "[Inr 1, Inl Err_Transient] :: nat stream"
  have a: "retry_list_stream (\<lambda>_. 0) retry_none (counting ?inner) sample_listing_request (0, ()) =
      (Inr ?initial, (1, ()), [])"
    by (simp add: retry_list_stream_def retried_def with_retry_def retry_loop.simps sample_listing_request_def
        counting_def)
  obtain stream opens s' sl where b: "poll_list_stream (\<lambda>_. 0) retry_none (counting ?inner) sample_listing_request
      ?initial (1, ()) = (stream, (opens, s'), sl)"
    by (metis surj_pair)
  from list_stream_opens_bounded[OF a b] have "opens \<le> 1" by (simp add: retry_none_def)
  with b show ?thesis by blast
qed

end
