(* ===== verification/Ov_Ordered.thy ===== *)
theory Ov_Ordered
  imports Main
begin

text \<open>
  Commit-ordered notification (\<open>ordered.rs\<close>). A \<open>Sequenced\<close> value guards a state with one
  write lock and reports its commits on two channels: the primary one inside the guard, the
  deferred one in a later turn whose order is fixed by a ticket stamped inside the guard.

  The file has the ticket order (\<open>TicketOrder\<close>: the counter, the published frontier, the
  tickets retired out of order, the closed flag), the guarded value with its primary channel,
  and the interleaving of all handles as a step relation: every atomic access of the waiting
  loop, of the drop of a handle, of the publication of a batch and of the drop of the owner is
  a step of its own, and any handle may move next.

  A \<open>u64\<close> is a natural number with the wrap-around written out. The \<open>watch\<close> channel of tokio
  is its value together with the version it counts up on every notification; a receiver keeps
  the version it has seen, and \<open>changed()\<close> returns once the two differ.
\<close>

section \<open>The ticket order\<close>

definition u64_succ :: "nat \<Rightarrow> nat" where
  "u64_succ n = (n + 1) mod 2 ^ 64"

definition u64_checked_succ :: "nat \<Rightarrow> nat option" where
  "u64_checked_succ n = (if n + 1 < 2 ^ 64 then Some (n + 1) else None)"

record ticket_order =
  order_next :: nat
  order_frontier :: nat
  order_version :: nat
  order_pending :: "nat list"
  order_closed :: bool

definition order_new :: ticket_order where
  "order_new = \<lparr>order_next = 0, order_frontier = 0, order_version = 0, order_pending = [], order_closed = False\<rparr>"

text \<open>\<open>fetch_add\<close> wraps and returns the old value; the checked increment of that value panics
  at the end of the range, which is the result None.\<close>

definition order_stamp :: "ticket_order \<Rightarrow> ticket_order \<times> nat option" where
  "order_stamp ord = (ord\<lparr>order_next := u64_succ (order_next ord)\<rparr>, u64_checked_succ (order_next ord))"

function absorb :: "nat list \<Rightarrow> nat \<Rightarrow> nat list \<times> nat" where
  "absorb pending reached =
     (if u64_succ reached \<in> set pending then absorb (removeAll (u64_succ reached) pending) (u64_succ reached)
      else (pending, reached))"
  by auto
termination
  by (relation "measure (\<lambda>(p, r). length p)") (auto simp: length_removeAll_less)

declare absorb.simps [simp del]

definition order_retire :: "nat \<Rightarrow> ticket_order \<Rightarrow> ticket_order" where
  "order_retire ticket ord =
     (if ticket \<noteq> u64_succ (order_frontier ord) then ord\<lparr>order_pending := List.insert ticket (order_pending ord)\<rparr>
      else let (pending, reached) = absorb (order_pending ord) ticket in
        ord\<lparr>order_pending := pending, order_frontier := reached, order_version := order_version ord + 1\<rparr>)"

definition retire_assertion :: "nat \<Rightarrow> ticket_order \<Rightarrow> bool" where
  "retire_assertion ticket ord \<longleftrightarrow> order_frontier ord < ticket"

text \<open>\<open>close\<close> is two accesses, the store of the flag and the notification.\<close>

definition close_store :: "ticket_order \<Rightarrow> ticket_order" where
  "close_store ord = ord\<lparr>order_closed := True\<rparr>"

definition close_notify :: "ticket_order \<Rightarrow> ticket_order" where
  "close_notify ord = ord\<lparr>order_version := order_version ord + 1\<rparr>"

section \<open>Handles\<close>

text \<open>
  What a ticket's handle is about to do. \<open>Armed\<close> is a \<open>Deferred\<close> that nobody polled;
  \<open>Check_Closed\<close>, \<open>Sample_Frontier\<close>, \<open>Recheck_Closed\<close> and \<open>Await_Changed\<close> are the
  four accesses of the loop in \<open>wait_for\<close>, the last two with the version seen; \<open>Holding\<close> is a
  \<open>Turn\<close>; \<open>Sending\<close> a turn inside \<open>send_all\<close> with the events left; \<open>Dropping\<close> an armed
  handle whose destructor is about to run; \<open>Discharged\<close> one that has retired.
\<close>

datatype 'e handle =
    Unstamped
  | Armed
  | Check_Closed
  | Sample_Frontier
  | Recheck_Closed nat
  | Await_Changed nat
  | Holding
  | Sending "'e list"
  | Dropping
  | Discharged

fun wait_for_step :: "ticket_order \<Rightarrow> nat \<Rightarrow> 'e handle \<Rightarrow> 'e handle option" where
  "wait_for_step ord ticket Check_Closed = Some (if order_closed ord then Dropping else Sample_Frontier)"
| "wait_for_step ord ticket Sample_Frontier =
     Some (if ticket - 1 \<le> order_frontier ord then Holding else Recheck_Closed (order_version ord))"
| "wait_for_step ord ticket (Recheck_Closed seen) =
     Some (if order_closed ord then Dropping else Await_Changed seen)"
| "wait_for_step ord ticket (Await_Changed seen) =
     (if order_version ord \<noteq> seen then Some Check_Closed else None)"
| "wait_for_step ord ticket h = None"

definition is_turn :: "'e handle \<Rightarrow> bool" where
  "is_turn h \<longleftrightarrow> (case h of Holding \<Rightarrow> True | Sending es \<Rightarrow> True | _ \<Rightarrow> False)"

definition is_live :: "'e handle \<Rightarrow> bool" where
  "is_live h \<longleftrightarrow> (case h of Unstamped \<Rightarrow> False | Discharged \<Rightarrow> False | _ \<Rightarrow> True)"

section \<open>The guarded value and its owner\<close>

record ('v, 'p) ordered =
  ordered_value :: 'v
  ordered_sent :: "'p list"

definition ordered_commit :: "('v \<Rightarrow> 'v \<times> 'p list) \<Rightarrow> ('v, 'p) ordered \<Rightarrow> ('v, 'p) ordered" where
  "ordered_commit f s =
     (let (value, events) = f (ordered_value s) in
      s\<lparr>ordered_value := value, ordered_sent := ordered_sent s @ events\<rparr>)"

datatype owner = Owned | Closing | Closed | Gone

record ('v, 'p, 'e) sequenced =
  seq_inner :: "('v, 'p) ordered"
  seq_order :: ticket_order
  seq_owner :: owner
  seq_senders :: nat
  seq_handles :: "nat \<Rightarrow> 'e handle"
  seq_deferred :: "(nat \<times> 'e) list"

definition sequenced_new :: "'v \<Rightarrow> ('v, 'p, 'e) sequenced" where
  "sequenced_new value =
     \<lparr>seq_inner = \<lparr>ordered_value = value, ordered_sent = []\<rparr>, seq_order = order_new, seq_owner = Owned,
      seq_senders = 1, seq_handles = (\<lambda>_. Unstamped), seq_deferred = []\<rparr>"

definition put_handle :: "nat \<Rightarrow> 'e handle \<Rightarrow> ('v, 'p, 'e) sequenced \<Rightarrow> ('v, 'p, 'e) sequenced" where
  "put_handle ticket h s = s\<lparr>seq_handles := (seq_handles s)(ticket := h)\<rparr>"

text \<open>A commit runs the closure under the guard; one that calls \<open>defer\<close> also stamps a ticket
  there. None is the panic of the ticket counter.\<close>

definition sequenced_commit ::
  "('v \<Rightarrow> 'v \<times> 'p list) \<Rightarrow> bool \<Rightarrow> ('v, 'p, 'e) sequenced \<Rightarrow> ('v, 'p, 'e) sequenced option" where
  "sequenced_commit f defers s =
     (let s1 = s\<lparr>seq_inner := ordered_commit f (seq_inner s)\<rparr> in
      if \<not> defers then Some s1
      else case order_stamp (seq_order s1) of
             (ord, Some ticket) \<Rightarrow> Some (put_handle ticket Armed (s1\<lparr>seq_order := ord\<rparr>))
           | (ord, None) \<Rightarrow> None)"

text \<open>\<open>send_all\<close> upgrades once: with no strong sender left nothing is sent and the turn drops.\<close>

definition turn_send_all :: "nat \<Rightarrow> 'e list \<Rightarrow> ('v, 'p, 'e) sequenced \<Rightarrow> ('v, 'p, 'e) sequenced" where
  "turn_send_all ticket events s =
     (if seq_senders s = 0 then put_handle ticket Dropping s
      else put_handle ticket (Sending events) (s\<lparr>seq_senders := seq_senders s + 1\<rparr>))"

definition drop_armed :: "nat \<Rightarrow> ('v, 'p, 'e) sequenced \<Rightarrow> ('v, 'p, 'e) sequenced" where
  "drop_armed ticket s = put_handle ticket Discharged (s\<lparr>seq_order := order_retire ticket (seq_order s)\<rparr>)"

inductive seq_step :: "('v, 'p, 'e) sequenced \<Rightarrow> ('v, 'p, 'e) sequenced \<Rightarrow> bool" where
  commit: "seq_owner s = Owned \<Longrightarrow> sequenced_commit f defers s = Some s' \<Longrightarrow> seq_step s s'"
| take: "seq_handles s t = Armed \<Longrightarrow> seq_step s (put_handle t Check_Closed s)"
| wait: "wait_for_step (seq_order s) t (seq_handles s t) = Some h \<Longrightarrow> seq_step s (put_handle t h s)"
| cancel_armed: "seq_handles s t = Armed \<Longrightarrow> seq_step s (put_handle t Dropping s)"
| cancel_wait: "seq_handles s t = Await_Changed v \<Longrightarrow> seq_step s (put_handle t Dropping s)"
| cancel_turn: "seq_handles s t = Holding \<Longrightarrow> seq_step s (put_handle t Dropping s)"
| send_all: "seq_handles s t = Holding \<Longrightarrow> seq_step s (turn_send_all t events s)"
| emit: "seq_handles s t = Sending (e # es) \<Longrightarrow>
    seq_step s (put_handle t (Sending es) (s\<lparr>seq_deferred := seq_deferred s @ [(t, e)]\<rparr>))"
| sent: "seq_handles s t = Sending [] \<Longrightarrow>
    seq_step s (put_handle t Dropping (s\<lparr>seq_senders := seq_senders s - 1\<rparr>))"
| retire: "seq_handles s t = Dropping \<Longrightarrow> seq_step s (drop_armed t s)"
| close: "seq_owner s = Owned \<Longrightarrow> seq_step s (s\<lparr>seq_owner := Closing, seq_order := close_store (seq_order s)\<rparr>)"
| notify: "seq_owner s = Closing \<Longrightarrow> seq_step s (s\<lparr>seq_owner := Closed, seq_order := close_notify (seq_order s)\<rparr>)"
| drop_senders: "seq_owner s = Closed \<Longrightarrow> seq_step s (s\<lparr>seq_owner := Gone, seq_senders := seq_senders s - 1\<rparr>)"

inductive seq_reachable :: "'v \<Rightarrow> ('v, 'p, 'e) sequenced \<Rightarrow> bool" for v0 where
  start: "seq_reachable v0 (sequenced_new v0)"
| move: "seq_reachable v0 s \<Longrightarrow> seq_step s s' \<Longrightarrow> seq_reachable v0 s'"

section \<open>Retirement refines a growing set\<close>

text \<open>
  The contract of the order is a set of retired tickets. The frontier and the pending tickets
  represent it: all tickets up to the frontier and the pending ones, where the pending ones lie
  beyond the first gap.
\<close>

definition retired_tickets :: "ticket_order \<Rightarrow> nat set" where
  "retired_tickets ord = {1..order_frontier ord} \<union> set (order_pending ord)"

definition order_ok :: "ticket_order \<Rightarrow> bool" where
  "order_ok ord \<longleftrightarrow> order_next ord < 2 ^ 64 \<and> order_frontier ord \<le> order_next ord \<and>
     (\<forall>t \<in> set (order_pending ord). order_frontier ord + 1 < t \<and> t \<le> order_next ord)"

lemma u64_succ_small: "n + 1 < 2 ^ 64 \<Longrightarrow> u64_succ n = n + 1"
  by (simp add: u64_succ_def)

lemma absorb_spec:
  assumes "absorb pending reached = (p', r')" "reached \<le> m" "m < 2 ^ 64"
    "\<forall>t \<in> set pending. reached < t \<and> t \<le> m"
  shows "{..r'} \<union> set p' = {..reached} \<union> set pending \<and> reached \<le> r' \<and> r' \<le> m \<and>
    (\<forall>t \<in> set p'. r' + 1 < t \<and> t \<le> m)"
  using assms
proof (induction pending reached rule: absorb.induct)
  case (1 pending reached)
  show ?case
  proof (cases "u64_succ reached \<in> set pending")
    case True
    have s: "u64_succ reached = reached + 1"
    proof (rule u64_succ_small, rule ccontr)
      assume "\<not> reached + 1 < 2 ^ 64"
      with 1(3,4) have "reached = 2 ^ 64 - 1" by simp
      then have "u64_succ reached = 0" by (simp add: u64_succ_def)
      with True 1(5) show False by fastforce
    qed
    have "absorb (removeAll (reached + 1) pending) (reached + 1) = (p', r')"
      using 1(2) True s by (simp add: absorb.simps[of pending])
    moreover have "reached + 1 \<le> m" using True 1(5) s by auto
    moreover have "\<forall>t \<in> set (removeAll (reached + 1) pending). reached + 1 < t \<and> t \<le> m"
      using 1(5) by fastforce
    ultimately have "{..r'} \<union> set p' = {..reached + 1} \<union> set (removeAll (reached + 1) pending) \<and>
        reached + 1 \<le> r' \<and> r' \<le> m \<and> (\<forall>t \<in> set p'. r' + 1 < t \<and> t \<le> m)"
      using 1(1)[OF True] 1(4) s by simp
    moreover have "{..reached + 1} \<union> set (removeAll (reached + 1) pending) = {..reached} \<union> set pending"
      using True s by (auto simp: atMost_Suc)
    ultimately show ?thesis by simp
  next
    case False
    have "\<forall>t \<in> set pending. reached + 1 < t"
    proof
      fix t assume t: "t \<in> set pending"
      with 1(4,5) have "reached < t" "reached + 1 < 2 ^ 64" by force+
      with False t show "reached + 1 < t" by (metis Suc_eq_plus1 Suc_lessI u64_succ_small)
    qed
    with False 1(2-5) show ?thesis by (auto simp: absorb.simps[of pending])
  qed
qed

lemma order_retire_spec:
  assumes "order_ok ord" "t \<notin> retired_tickets ord" "1 \<le> t" "t \<le> order_next ord"
  shows "retire_assertion t ord" "order_ok (order_retire t ord)"
    "retired_tickets (order_retire t ord) = insert t (retired_tickets ord)"
    "order_frontier ord \<le> order_frontier (order_retire t ord)"
    "order_frontier ord + 1 \<noteq> t \<Longrightarrow> order_frontier (order_retire t ord) = order_frontier ord"
    "order_frontier ord + 1 = t \<Longrightarrow> order_version (order_retire t ord) = order_version ord + 1"
    "order_version ord \<le> order_version (order_retire t ord)"
    "order_next (order_retire t ord) = order_next ord" "order_closed (order_retire t ord) = order_closed ord"
proof -
  note ok = assms(1)[unfolded order_ok_def]
  have above: "order_frontier ord < t" using assms(2,3) by (auto simp: retired_tickets_def)
  then show "retire_assertion t ord" by (simp add: retire_assertion_def)
  have s: "u64_succ (order_frontier ord) = order_frontier ord + 1"
    using above assms(4) ok by (intro u64_succ_small) simp
  have one: "{1..n} = {..n} - {0}" for n :: nat by auto
  have all: "order_ok (order_retire t ord) \<and> retired_tickets (order_retire t ord) = insert t (retired_tickets ord) \<and>
    order_frontier ord \<le> order_frontier (order_retire t ord) \<and>
    (order_frontier ord + 1 \<noteq> t \<longrightarrow> order_frontier (order_retire t ord) = order_frontier ord) \<and>
    (order_frontier ord + 1 = t \<longrightarrow> order_version (order_retire t ord) = order_version ord + 1) \<and>
    order_version ord \<le> order_version (order_retire t ord) \<and>
    order_next (order_retire t ord) = order_next ord \<and> order_closed (order_retire t ord) = order_closed ord"
  proof (cases "t = order_frontier ord + 1")
    case False
    then show ?thesis using s above ok assms(4)
      by (auto simp: order_retire_def order_ok_def retired_tickets_def)
  next
    case True
    obtain p' r' where a: "absorb (order_pending ord) t = (p', r')" by fastforce
    have spec: "{..r'} \<union> set p' = {..t} \<union> set (order_pending ord) \<and> t \<le> r' \<and> r' \<le> order_next ord \<and>
        (\<forall>u \<in> set p'. r' + 1 < u \<and> u \<le> order_next ord)"
      using a assms(4) ok True by (intro absorb_spec) auto
    have zero: "0 \<notin> set p'" "0 \<notin> set (order_pending ord)" using spec ok by fastforce+
    have "{1..r'} \<union> set p' = ({..r'} \<union> set p') - {0}" using zero(1) by (auto simp: one)
    also have "\<dots> = ({..t} \<union> set (order_pending ord)) - {0}" using spec by simp
    also have "\<dots> = {1..t} \<union> set (order_pending ord)" using zero(2) by (auto simp: one)
    finally have "{1..r'} \<union> set p' = {1..t} \<union> set (order_pending ord)" .
    moreover have "{1..t} = insert t {1..order_frontier ord}" using True by auto
    ultimately show ?thesis using True s a spec ok
      by (simp add: order_retire_def order_ok_def retired_tickets_def)
  qed
  then show "order_ok (order_retire t ord)" "retired_tickets (order_retire t ord) = insert t (retired_tickets ord)"
    "order_frontier ord \<le> order_frontier (order_retire t ord)"
    "order_frontier ord + 1 \<noteq> t \<Longrightarrow> order_frontier (order_retire t ord) = order_frontier ord"
    "order_frontier ord + 1 = t \<Longrightarrow> order_version (order_retire t ord) = order_version ord + 1"
    "order_version ord \<le> order_version (order_retire t ord)"
    "order_next (order_retire t ord) = order_next ord" "order_closed (order_retire t ord) = order_closed ord"
    by blast+
qed

section \<open>The invariant of every interleaving\<close>

definition handles_ok :: "ticket_order \<Rightarrow> (nat \<Rightarrow> 'e handle) \<Rightarrow> bool" where
  "handles_ok ord hs \<longleftrightarrow>
     (\<forall>t. hs t = Unstamped \<longleftrightarrow> t = 0 \<or> order_next ord < t) \<and>
     (\<forall>t. hs t = Discharged \<longleftrightarrow> t \<in> retired_tickets ord) \<and>
     (\<forall>t. is_turn (hs t) \<longrightarrow> t = order_frontier ord + 1)"

definition wakeups_ok :: "ticket_order \<Rightarrow> owner \<Rightarrow> (nat \<Rightarrow> 'e handle) \<Rightarrow> bool" where
  "wakeups_ok ord owner hs \<longleftrightarrow> (order_closed ord \<longleftrightarrow> owner \<noteq> Owned) \<and>
     (\<forall>t v. hs t = Recheck_Closed v \<or> hs t = Await_Changed v \<longrightarrow>
        v \<le> order_version ord \<and> (t - 1 \<le> order_frontier ord \<longrightarrow> v < order_version ord)) \<and>
     (\<forall>t v. hs t = Await_Changed v \<longrightarrow> owner = Closed \<or> owner = Gone \<longrightarrow> v < order_version ord)"

definition published_ok :: "ticket_order \<Rightarrow> (nat \<times> 'e) list \<Rightarrow> bool" where
  "published_ok ord log \<longleftrightarrow> sorted (map fst log) \<and> (\<forall>t \<in> set (map fst log). t \<le> order_frontier ord + 1)"

definition seq_inv :: "('v, 'p, 'e) sequenced \<Rightarrow> bool" where
  "seq_inv s \<longleftrightarrow> order_ok (seq_order s) \<and> handles_ok (seq_order s) (seq_handles s) \<and>
     wakeups_ok (seq_order s) (seq_owner s) (seq_handles s) \<and> published_ok (seq_order s) (seq_deferred s)"

lemma put_handle_simps [simp]:
  "seq_order (put_handle t h s) = seq_order s" "seq_owner (put_handle t h s) = seq_owner s"
  "seq_handles (put_handle t h s) = (seq_handles s)(t := h)" "seq_deferred (put_handle t h s) = seq_deferred s"
  "seq_senders (put_handle t h s) = seq_senders s" "seq_inner (put_handle t h s) = seq_inner s"
  by (simp_all add: put_handle_def)

lemma is_turn_simps [simp]:
  "is_turn Holding" "is_turn (Sending es)" "\<not> is_turn Unstamped" "\<not> is_turn Armed" "\<not> is_turn Check_Closed"
  "\<not> is_turn Sample_Frontier" "\<not> is_turn (Recheck_Closed v)" "\<not> is_turn (Await_Changed v)"
  "\<not> is_turn Dropping" "\<not> is_turn Discharged"
  by (simp_all add: is_turn_def)

lemma is_live_simps [simp]:
  "is_live Holding" "is_live (Sending es)" "\<not> is_live Unstamped" "is_live Armed" "is_live Check_Closed"
  "is_live Sample_Frontier" "is_live (Recheck_Closed v)" "is_live (Await_Changed v)"
  "is_live Dropping" "\<not> is_live Discharged"
  by (simp_all add: is_live_def)

lemma is_live_iff: "is_live h \<longleftrightarrow> h \<noteq> Unstamped \<and> h \<noteq> Discharged"
  by (cases h) simp_all

lemma live_ticket:
  assumes "seq_inv s" "is_live (seq_handles s t)"
  shows "1 \<le> t" "t \<le> order_next (seq_order s)" "t \<notin> retired_tickets (seq_order s)"
    "order_frontier (seq_order s) < t"
proof -
  have h: "handles_ok (seq_order s) (seq_handles s)" using assms(1) by (simp add: seq_inv_def)
  from assms(2) have "seq_handles s t \<noteq> Unstamped" "seq_handles s t \<noteq> Discharged" by (auto simp: is_live_iff)
  with h show "1 \<le> t" "t \<le> order_next (seq_order s)" and r: "t \<notin> retired_tickets (seq_order s)"
    unfolding handles_ok_def by (metis less_one not_le, metis not_le, metis)
  from r \<open>1 \<le> t\<close> show "order_frontier (seq_order s) < t" by (auto simp: retired_tickets_def)
qed

text \<open>A move of one handle that leaves the order alone keeps the invariant when the new state of
  the handle may stand at its ticket.\<close>

definition may_stand :: "ticket_order \<Rightarrow> owner \<Rightarrow> nat \<Rightarrow> 'e handle \<Rightarrow> bool" where
  "may_stand ord owner t h \<longleftrightarrow> is_live h \<and> (is_turn h \<longrightarrow> t = order_frontier ord + 1) \<and>
     (\<forall>v. h = Recheck_Closed v \<or> h = Await_Changed v \<longrightarrow>
        v \<le> order_version ord \<and> (t - 1 \<le> order_frontier ord \<longrightarrow> v < order_version ord)) \<and>
     (\<forall>v. h = Await_Changed v \<longrightarrow> owner = Closed \<or> owner = Gone \<longrightarrow> v < order_version ord)"

lemma may_stand_other [simp]:
  "may_stand ord own t Armed" "may_stand ord own t Check_Closed" "may_stand ord own t Sample_Frontier"
  "may_stand ord own t Dropping"
  by (simp_all add: may_stand_def)

lemma handle_move_inv:
  assumes "seq_inv s" "is_live (seq_handles s t)" "may_stand (seq_order s) (seq_owner s) t h"
  shows "handles_ok (seq_order s) ((seq_handles s)(t := h)) \<and>
    wakeups_ok (seq_order s) (seq_owner s) ((seq_handles s)(t := h))"
  using assms live_ticket[OF assms(1,2)]
  by (auto simp: seq_inv_def handles_ok_def wakeups_ok_def may_stand_def is_live_iff)

lemma put_handle_inv:
  "seq_inv s \<Longrightarrow> is_live (seq_handles s t) \<Longrightarrow> may_stand (seq_order s) (seq_owner s) t h \<Longrightarrow> seq_inv (put_handle t h s)"
  using handle_move_inv[of s t h] by (simp add: seq_inv_def)

lemma turn_at_frontier:
  "seq_inv s \<Longrightarrow> is_turn (seq_handles s t) \<Longrightarrow> t = order_frontier (seq_order s) + 1"
  by (simp add: seq_inv_def handles_ok_def)

lemma wait_step_live: "wait_for_step ord t h = Some h' \<Longrightarrow> is_live h"
  by (cases h) simp_all

lemma wait_step_stands:
  assumes "seq_inv s" "wait_for_step (seq_order s) t (seq_handles s t) = Some h"
  shows "may_stand (seq_order s) (seq_owner s) t h"
proof -
  have above: "order_frontier (seq_order s) < t"
    using live_ticket(4)[OF assms(1) wait_step_live[OF assms(2)]] .
  have w: "wakeups_ok (seq_order s) (seq_owner s) (seq_handles s)" using assms(1) by (simp add: seq_inv_def)
  show ?thesis
    using assms(2) above w by (cases "seq_handles s t") (auto simp: may_stand_def wakeups_ok_def split: if_splits)
qed

lemma wakeups_mono:
  assumes "wakeups_ok ord own hs" "order_closed ord' = order_closed ord" "order_version ord \<le> order_version ord'"
    "order_frontier ord' = order_frontier ord \<or> order_version ord < order_version ord'"
  shows "wakeups_ok ord' own (hs(t := Discharged))"
proof -
  have "v \<le> order_version ord' \<and> (u - 1 \<le> order_frontier ord' \<longrightarrow> v < order_version ord')"
    if "hs u = Recheck_Closed v \<or> hs u = Await_Changed v" for u v
  proof -
    from that assms(1) have "v \<le> order_version ord" "u - 1 \<le> order_frontier ord \<longrightarrow> v < order_version ord"
      unfolding wakeups_ok_def by blast+
    with assms(3,4) show ?thesis by auto
  qed
  moreover have "v < order_version ord'" if "hs u = Await_Changed v" "own = Closed \<or> own = Gone" for u v
    using that assms(1,3) unfolding wakeups_ok_def by (meson less_le_trans)
  moreover have "order_closed ord' \<longleftrightarrow> own \<noteq> Owned" using assms(1,2) by (simp add: wakeups_ok_def)
  ultimately show ?thesis by (auto simp: wakeups_ok_def)
qed

lemma drop_armed_inv:
  assumes inv: "seq_inv s" and h: "seq_handles s t = Dropping"
  shows "seq_inv (drop_armed t s)"
proof -
  let ?o = "seq_order s" and ?o' = "order_retire t (seq_order s)"
  have live: "is_live (seq_handles s t)" using h by simp
  have ok: "order_ok ?o" using inv by (simp add: seq_inv_def)
  note r = order_retire_spec[OF ok live_ticket(3)[OF inv live] live_ticket(1)[OF inv live] live_ticket(2)[OF inv live]]
  have hs: "handles_ok ?o (seq_handles s)" and ws: "wakeups_ok ?o (seq_owner s) (seq_handles s)"
    and ps: "published_ok ?o (seq_deferred s)" using inv by (simp_all add: seq_inv_def)
  have "is_turn (seq_handles s u) \<Longrightarrow> u = order_frontier ?o' + 1" for u
  proof -
    assume u: "is_turn (seq_handles s u)"
    then have "u = order_frontier ?o + 1" "u \<noteq> t" using turn_at_frontier[OF inv u] h by auto
    then show ?thesis using r(5) by simp
  qed
  then have "handles_ok ?o' ((seq_handles s)(t := Discharged))"
    using hs h live_ticket(1,2)[OF inv live] r(3,8) by (auto simp: handles_ok_def)
  moreover have "wakeups_ok ?o' (seq_owner s) ((seq_handles s)(t := Discharged))"
    using ws r(9) r(7) r(5,6) by (intro wakeups_mono[where ord = ?o]) (simp_all, fastforce+)
  moreover have "published_ok ?o' (seq_deferred s)"
    using ps r(4) by (fastforce simp: published_ok_def)
  ultimately show ?thesis using r(2) by (simp add: seq_inv_def drop_armed_def)
qed

lemma commit_inv:
  assumes inv: "seq_inv s" and own: "seq_owner s = Owned" and c: "sequenced_commit f defers s = Some s'"
  shows "seq_inv s'"
proof (cases defers)
  case False
  with c inv show ?thesis by (auto simp: sequenced_commit_def seq_inv_def Let_def)
next
  case True
  let ?n = "order_next (seq_order s)"
  from c True have n: "?n + 1 < 2 ^ 64"
    by (auto simp: sequenced_commit_def order_stamp_def u64_checked_succ_def Let_def split: if_splits)
  with c True have s': "s' = put_handle (?n + 1) Armed
      (s\<lparr>seq_inner := ordered_commit f (seq_inner s), seq_order := (seq_order s)\<lparr>order_next := ?n + 1\<rparr>\<rparr>)"
    by (simp add: sequenced_commit_def order_stamp_def u64_checked_succ_def u64_succ_small Let_def)
  have ok: "order_ok (seq_order s)" and hs: "handles_ok (seq_order s) (seq_handles s)" using inv by (simp_all add: seq_inv_def)
  have new: "?n + 1 \<notin> retired_tickets (seq_order s)"
    using ok by (fastforce simp: order_ok_def retired_tickets_def)
  have "order_ok ((seq_order s)\<lparr>order_next := ?n + 1\<rparr>)" using ok n by (fastforce simp: order_ok_def)
  moreover have "handles_ok ((seq_order s)\<lparr>order_next := ?n + 1\<rparr>) ((seq_handles s)(?n + 1 := Armed))"
    using hs new by (auto simp: handles_ok_def retired_tickets_def)
  ultimately show ?thesis using inv by (simp add: s' seq_inv_def wakeups_ok_def published_ok_def)
qed

lemma owner_steps_inv:
  "seq_inv s \<Longrightarrow> seq_owner s = Owned \<Longrightarrow> seq_inv (s\<lparr>seq_owner := Closing, seq_order := close_store (seq_order s)\<rparr>)"
  "seq_inv s \<Longrightarrow> seq_owner s = Closing \<Longrightarrow> seq_inv (s\<lparr>seq_owner := Closed, seq_order := close_notify (seq_order s)\<rparr>)"
  "seq_inv s \<Longrightarrow> seq_owner s = Closed \<Longrightarrow> seq_inv (s\<lparr>seq_owner := Gone, seq_senders := n\<rparr>)"
  by (auto simp: seq_inv_def order_ok_def handles_ok_def wakeups_ok_def published_ok_def retired_tickets_def
      close_store_def close_notify_def less_Suc_eq_le le_SucI)

lemma seq_step_inv: "seq_step s s' \<Longrightarrow> seq_inv s \<Longrightarrow> seq_inv s'"
proof (induction rule: seq_step.induct)
  case (commit s f defers s')
  then show ?case by (blast intro: commit_inv)
next
  case (wait s t h)
  then show ?case by (blast intro: put_handle_inv wait_step_live wait_step_stands)
next
  case (send_all s t events)
  have "seq_inv (s\<lparr>seq_senders := n\<rparr>)" for n using send_all(2) by (simp add: seq_inv_def)
  then show ?case using send_all turn_at_frontier[OF send_all(2), of t]
    by (auto simp: turn_send_all_def may_stand_def intro!: put_handle_inv)
next
  case (emit s t e es)
  let ?s = "s\<lparr>seq_deferred := seq_deferred s @ [(t, e)]\<rparr>"
  have "t = order_frontier (seq_order s) + 1" using emit turn_at_frontier by fastforce
  with emit(2) have "seq_inv ?s" by (auto simp: seq_inv_def published_ok_def sorted_append)
  then show ?case using emit(1) \<open>t = _\<close> by (intro put_handle_inv) (simp_all add: may_stand_def)
next
  case (sent s t)
  have "seq_inv (s\<lparr>seq_senders := n\<rparr>)" for n using sent(2) by (simp add: seq_inv_def)
  then show ?case using sent(1) by (intro put_handle_inv) simp_all
next
  case (retire s t)
  then show ?case by (blast intro: drop_armed_inv)
qed (simp_all add: put_handle_inv owner_steps_inv)

lemma seq_reachable_inv: "seq_reachable v0 s \<Longrightarrow> seq_inv s"
proof (induction rule: seq_reachable.induct)
  case start
  show ?case
    by (auto simp: sequenced_new_def order_new_def seq_inv_def order_ok_def handles_ok_def wakeups_ok_def
        published_ok_def retired_tickets_def)
next
  case (move s s')
  then show ?case by (blast intro: seq_step_inv)
qed

section \<open>The head of the line is never stuck\<close>

text \<open>The next action of one handle on its own, as a task that owns it would run it: it takes the
  turn, publishes the batch \<open>events\<close> and drops. None is a handle with nothing to do now.\<close>

definition handle_move :: "'e list \<Rightarrow> nat \<Rightarrow> ('v, 'p, 'e) sequenced \<Rightarrow> ('v, 'p, 'e) sequenced option" where
  "handle_move events t s =
     (case seq_handles s t of
        Unstamped \<Rightarrow> None
      | Discharged \<Rightarrow> None
      | Armed \<Rightarrow> Some (put_handle t Check_Closed s)
      | Holding \<Rightarrow> Some (turn_send_all t events s)
      | Sending [] \<Rightarrow> Some (put_handle t Dropping (s\<lparr>seq_senders := seq_senders s - 1\<rparr>))
      | Sending (e # es) \<Rightarrow> Some (put_handle t (Sending es) (s\<lparr>seq_deferred := seq_deferred s @ [(t, e)]\<rparr>))
      | Dropping \<Rightarrow> Some (drop_armed t s)
      | h \<Rightarrow> map_option (\<lambda>h'. put_handle t h' s) (wait_for_step (seq_order s) t h))"

fun run_handle :: "nat \<Rightarrow> 'e list \<Rightarrow> nat \<Rightarrow> ('v, 'p, 'e) sequenced \<Rightarrow> ('v, 'p, 'e) sequenced" where
  "run_handle 0 events t s = s"
| "run_handle (Suc n) events t s =
     (case handle_move events t s of None \<Rightarrow> s | Some s' \<Rightarrow> run_handle n events t s')"

lemma handle_move_step:
  assumes m: "handle_move events t s = Some s'"
  shows "seq_step s s'"
proof -
  have wait: "seq_step s s'" if "map_option (\<lambda>h'. put_handle t h' s) (wait_for_step (seq_order s) t (seq_handles s t)) = Some s'"
    using that by (auto intro: seq_step.wait)
  show ?thesis
  proof (cases "seq_handles s t")
    case (Sending es)
    then show ?thesis using m by (cases es) (auto simp: handle_move_def intro: seq_step.sent[simplified] seq_step.emit)
  next
    case Armed
    then show ?thesis using m by (auto simp: handle_move_def intro: seq_step.take)
  next
    case Holding
    then show ?thesis using m by (auto simp: handle_move_def intro: seq_step.send_all)
  next
    case Dropping
    then show ?thesis using m by (auto simp: handle_move_def intro: seq_step.retire)
  qed (use m wait in \<open>simp_all add: handle_move_def\<close>)
qed

lemma run_handle_steps: "seq_step\<^sup>*\<^sup>* s (run_handle n events t s)"
  by (induction n arbitrary: s)
     (auto split: option.splits dest: handle_move_step intro: converse_rtranclp_into_rtranclp)

primrec moves_left :: "nat \<Rightarrow> 'e handle \<Rightarrow> nat" where
  "moves_left k Discharged = 0"
| "moves_left k Unstamped = 0"
| "moves_left k Dropping = 1"
| "moves_left k (Sending es) = 2 + length es"
| "moves_left k Holding = 3 + k"
| "moves_left k Sample_Frontier = 4 + k"
| "moves_left k Check_Closed = 5 + k"
| "moves_left k (Await_Changed v) = 6 + k"
| "moves_left k (Recheck_Closed v) = 7 + k"
| "moves_left k Armed = 6 + k"

lemma moves_left_0: "moves_left k h = 0 \<longleftrightarrow> \<not> is_live h"
  by (cases h) simp_all

text \<open>What a handle at the head still publishes: the rest of its batch once it is sending, nothing once it
  is dropping, and otherwise the whole batch, unless it finds the order closed before its turn or no strong
  sender left in it.\<close>

definition batch_due :: "'e list \<Rightarrow> ('v, 'p, 'e) sequenced \<Rightarrow> 'e handle \<Rightarrow> 'e list" where
  "batch_due events s h =
     (case h of
        Sending es \<Rightarrow> es
      | Holding \<Rightarrow> if seq_senders s = 0 then [] else events
      | Sample_Frontier \<Rightarrow> if seq_senders s = 0 then [] else events
      | Unstamped \<Rightarrow> []
      | Dropping \<Rightarrow> []
      | Discharged \<Rightarrow> []
      | _ \<Rightarrow> if order_closed (seq_order s) \<or> seq_senders s = 0 then [] else events)"

lemma head_move:
  assumes inv: "seq_inv s" and t: "t = order_frontier (seq_order s) + 1" and live: "is_live (seq_handles s t)"
  shows "\<exists>s'. handle_move events t s = Some s' \<and>
    moves_left (length events) (seq_handles s' t) < moves_left (length events) (seq_handles s t) \<and>
    (is_live (seq_handles s' t) \<longrightarrow> order_frontier (seq_order s') = order_frontier (seq_order s)) \<and>
    (is_live (seq_handles s' t) \<or> seq_handles s' t = Discharged) \<and>
    (\<forall>u. u \<noteq> t \<longrightarrow> seq_handles s' u = seq_handles s u) \<and>
    seq_deferred s' @ map (Pair t) (batch_due events s' (seq_handles s' t)) =
      seq_deferred s @ map (Pair t) (batch_due events s (seq_handles s t))"
proof -
  have w: "seq_handles s t = Await_Changed v \<Longrightarrow> v < order_version (seq_order s)" for v
    using inv t by (simp add: seq_inv_def wakeups_ok_def)
  show ?thesis
    using live t w by (cases "seq_handles s t")
      (auto simp: handle_move_def turn_send_all_def drop_armed_def batch_due_def split: list.splits)
qed

lemma head_is_live:
  assumes inv: "seq_inv s" and live: "is_live (seq_handles s u)"
  shows "is_live (seq_handles s (order_frontier (seq_order s) + 1))"
proof -
  let ?t = "order_frontier (seq_order s) + 1"
  have "?t \<le> order_next (seq_order s)" using live_ticket(2,4)[OF inv live] by simp
  moreover have "?t \<notin> retired_tickets (seq_order s)"
    using inv by (auto simp: seq_inv_def order_ok_def retired_tickets_def)
  ultimately show ?thesis using inv by (auto simp: is_live_iff seq_inv_def handles_ok_def)
qed

lemma run_head:
  assumes "seq_inv s" "t = order_frontier (seq_order s) + 1" "is_live (seq_handles s t)"
    "moves_left (length events) (seq_handles s t) \<le> n"
  shows "seq_inv (run_handle n events t s) \<and> seq_handles (run_handle n events t s) t = Discharged \<and>
    (\<forall>u. u \<noteq> t \<longrightarrow> seq_handles (run_handle n events t s) u = seq_handles s u) \<and>
    seq_deferred (run_handle n events t s) = seq_deferred s @ map (Pair t) (batch_due events s (seq_handles s t))"
  using assms
proof (induction n arbitrary: s)
  case 0
  then show ?case by (simp add: moves_left_0)
next
  case (Suc n)
  from head_move[OF Suc.prems(1-3), of events] obtain s' where s':
    "handle_move events t s = Some s'"
    "moves_left (length events) (seq_handles s' t) < moves_left (length events) (seq_handles s t)"
    "is_live (seq_handles s' t) \<longrightarrow> order_frontier (seq_order s') = order_frontier (seq_order s)"
    "is_live (seq_handles s' t) \<or> seq_handles s' t = Discharged"
    "\<forall>u. u \<noteq> t \<longrightarrow> seq_handles s' u = seq_handles s u"
    "seq_deferred s' @ map (Pair t) (batch_due events s' (seq_handles s' t)) =
      seq_deferred s @ map (Pair t) (batch_due events s (seq_handles s t))" by blast
  have inv: "seq_inv s'" using seq_step_inv[OF handle_move_step[OF s'(1)] Suc.prems(1)] .
  have run: "run_handle (Suc n) events t s = run_handle n events t s'" using s'(1) by simp
  show ?case
  proof (cases "is_live (seq_handles s' t)")
    case True
    have "t = order_frontier (seq_order s') + 1" using s'(3) True Suc.prems(2) by simp
    moreover have "moves_left (length events) (seq_handles s' t) \<le> n" using s'(2) Suc.prems(4) by simp
    ultimately show ?thesis using Suc.IH[OF inv _ True] s'(5,6) unfolding run by simp
  next
    case False
    then have d: "seq_handles s' t = Discharged" using s'(4) by simp
    then have "run_handle n events t s' = s'" by (cases n) (simp_all add: handle_move_def)
    with d inv s'(5,6) show ?thesis unfolding run by (simp add: batch_due_def)
  qed
qed

text \<open>The strong senders of the deferred channel: the owner's until it is gone, and the upgrade of the turn
  that is sending.\<close>

definition is_sending :: "'e handle \<Rightarrow> bool" where
  "is_sending h \<longleftrightarrow> (case h of Sending es \<Rightarrow> True | _ \<Rightarrow> False)"

definition sending :: "(nat \<Rightarrow> 'e handle) \<Rightarrow> bool" where
  "sending hs \<longleftrightarrow> (\<exists>t. is_sending (hs t))"

definition senders_ok :: "('v, 'p, 'e) sequenced \<Rightarrow> bool" where
  "senders_ok s \<longleftrightarrow>
     seq_senders s = (if seq_owner s = Gone then 0 else 1) + (if sending (seq_handles s) then 1 else 0)"

lemma is_sending_simps [simp]:
  "is_sending (Sending es)" "\<not> is_sending Unstamped" "\<not> is_sending Armed" "\<not> is_sending Check_Closed"
  "\<not> is_sending Sample_Frontier" "\<not> is_sending (Recheck_Closed v)" "\<not> is_sending (Await_Changed v)"
  "\<not> is_sending Holding" "\<not> is_sending Dropping" "\<not> is_sending Discharged"
  by (simp_all add: is_sending_def)

lemma sending_turn: "is_sending h \<Longrightarrow> is_turn h"
  by (cases h) simp_all

lemma sending_upd: "\<not> is_sending (hs t) \<Longrightarrow> \<not> is_sending h \<Longrightarrow> sending (hs(t := h)) = sending hs"
  unfolding sending_def by (metis fun_upd_apply)

lemma sending_here: "is_sending h \<Longrightarrow> sending (hs(t := h))"
  unfolding sending_def by (rule exI[of _ t]) simp

lemma sole_sender:
  assumes "seq_inv s" "is_turn (seq_handles s t)" "\<not> is_sending h"
  shows "\<not> sending ((seq_handles s)(t := h))"
  using assms turn_at_frontier[OF assms(1)] sending_turn by (metis fun_upd_apply sending_def)

lemma senders_kept:
  "senders_ok s \<Longrightarrow> \<not> is_sending (seq_handles s t) \<Longrightarrow> \<not> is_sending h \<Longrightarrow> senders_ok (put_handle t h s)"
  by (simp add: senders_ok_def sending_upd)

lemma wait_step_not_sending: "wait_for_step ord t h = Some h' \<Longrightarrow> \<not> is_sending h \<and> \<not> is_sending h'"
  by (cases h) (auto split: if_splits)

lemma seq_step_senders: "seq_step s s' \<Longrightarrow> seq_inv s \<Longrightarrow> senders_ok s \<Longrightarrow> senders_ok s'"
proof (induction rule: seq_step.induct)
  case (commit s f defers s')
  have "seq_handles s (order_next (seq_order s) + 1) = Unstamped"
    using commit(3) by (simp add: seq_inv_def handles_ok_def)
  then show ?case using commit(2,4)
    by (auto simp: sequenced_commit_def order_stamp_def u64_checked_succ_def Let_def senders_ok_def sending_upd
        split: if_splits)
next
  case (wait s t h)
  then show ?case using wait_step_not_sending[OF wait(1)] by (blast intro: senders_kept)
next
  case (send_all s t events)
  have "\<not> sending ((seq_handles s)(t := Holding))" using send_all by (intro sole_sender) simp_all
  then have "\<not> sending (seq_handles s)" using send_all(1) by (metis fun_upd_triv)
  then show ?case using send_all(1,3)
    by (auto simp: turn_send_all_def senders_ok_def sending_here sending_upd)
next
  case (emit s t e es)
  have "sending (seq_handles s)" using emit(1) by (metis is_sending_simps(1) sending_def)
  then show ?case using emit(3) by (simp add: senders_ok_def sending_here)
next
  case (sent s t)
  have "sending (seq_handles s)" using sent(1) by (metis is_sending_simps(1) sending_def)
  moreover have "\<not> sending ((seq_handles s)(t := Dropping))" using sent by (intro sole_sender) simp_all
  ultimately show ?case using sent(3) by (simp add: senders_ok_def)
next
  case (retire s t)
  then show ?case by (simp add: drop_armed_def senders_ok_def sending_upd)
qed (simp_all add: senders_ok_def sending_upd)

lemma seq_reachable_senders: "seq_reachable v0 s \<Longrightarrow> senders_ok s"
proof (induction rule: seq_reachable.induct)
  case start
  show ?case by (simp add: senders_ok_def sending_def sequenced_new_def)
next
  case (move s s')
  then show ?case by (blast intro: seq_step_senders seq_reachable_inv)
qed

lemma owned_batch_due:
  assumes "seq_reachable v0 s" "seq_owner s = Owned" "is_live h" "h \<noteq> Dropping" "\<forall>es. h \<noteq> Sending es"
  shows "batch_due events s h = events"
proof -
  have "seq_senders s \<noteq> 0" using seq_reachable_senders[OF assms(1)] assms(2) by (simp add: senders_ok_def)
  moreover have "\<not> order_closed (seq_order s)"
    using seq_reachable_inv[OF assms(1)] assms(2) by (simp add: seq_inv_def wakeups_ok_def)
  ultimately show ?thesis using assms(3-5) by (cases h) (simp_all add: batch_due_def)
qed

section \<open>Properties\<close>

text \<open>Retiring a ticket refines adding it to the set of retired tickets: on a well-formed
  order and a stamped ticket that is still outstanding the assertion of \<open>retire\<close> holds, the
  represented set grows by exactly that ticket, the order stays well formed (so the pending
  list never keeps a ticket the frontier has passed), and the published frontier is the last
  ticket before the first outstanding one.\<close>

theorem retire_refines_set:
  assumes "order_ok ord" "t \<notin> retired_tickets ord" "1 \<le> t" "t \<le> order_next ord"
  shows "retire_assertion t ord \<and>
    retired_tickets (order_retire t ord) = insert t (retired_tickets ord) \<and>
    order_ok (order_retire t ord) \<and>
    {1..order_frontier (order_retire t ord)} \<subseteq> insert t (retired_tickets ord) \<and>
    order_frontier (order_retire t ord) + 1 \<notin> insert t (retired_tickets ord)"
proof (intro conjI)
  note r = order_retire_spec[OF assms]
  show "retire_assertion t ord" "order_ok (order_retire t ord)"
    "retired_tickets (order_retire t ord) = insert t (retired_tickets ord)" by (fact r)+
  show "{1..order_frontier (order_retire t ord)} \<subseteq> insert t (retired_tickets ord)"
    unfolding r(3)[symmetric] by (simp add: retired_tickets_def)
  show "order_frontier (order_retire t ord) + 1 \<notin> insert t (retired_tickets ord)"
    unfolding r(3)[symmetric] using r(2) by (auto simp: retired_tickets_def order_ok_def)
qed

definition example_order :: ticket_order where
  "example_order = \<lparr>order_next = 4, order_frontier = 1, order_version = 1, order_pending = [3], order_closed = False\<rparr>"

theorem retire_refines_set_witness:
  "retired_tickets (order_retire 2 example_order) = {1, 2, 3}"
proof -
  have e: "retired_tickets example_order = {1, 3}" by (auto simp: retired_tickets_def example_order_def)
  have "retired_tickets (order_retire 2 example_order) = insert 2 (retired_tickets example_order)"
    by (rule retire_refines_set[THEN conjunct2, THEN conjunct1]) (simp_all only: e, simp_all add: order_ok_def example_order_def)
  then show ?thesis using e by auto
qed

text \<open>C7. In every interleaving of commits, handles and the drop of the owner: at most one turn
  exists, all tickets before it have retired, and the events on the deferred channel stand in
  the order of the tickets, which is the order of the commits; so no batch is split by another.
  A handle about to retire is never at or below the frontier.\<close>

theorem deferred_events_in_commit_order:
  assumes "seq_reachable v0 s"
  shows "sorted (map fst (seq_deferred s)) \<and>
    (\<forall>t u. is_turn (seq_handles s t) \<longrightarrow> is_turn (seq_handles s u) \<longrightarrow> t = u) \<and>
    (\<forall>t u. is_turn (seq_handles s t) \<longrightarrow> 1 \<le> u \<longrightarrow> u < t \<longrightarrow> seq_handles s u = Discharged) \<and>
    (\<forall>t. seq_handles s t = Dropping \<longrightarrow> retire_assertion t (seq_order s))"
proof (intro conjI allI impI)
  fix t u
  have inv: "seq_inv s" using assms by (rule seq_reachable_inv)
  show "sorted (map fst (seq_deferred s))" using inv by (simp add: seq_inv_def published_ok_def)
  show "is_turn (seq_handles s t) \<Longrightarrow> is_turn (seq_handles s u) \<Longrightarrow> t = u"
    using turn_at_frontier[OF inv] by metis
  show "seq_handles s u = Discharged" if "is_turn (seq_handles s t)" "1 \<le> u" "u < t"
    using turn_at_frontier[OF inv that(1)] that(2,3) inv by (simp add: seq_inv_def handles_ok_def retired_tickets_def)
  show "seq_handles s t = Dropping \<Longrightarrow> retire_assertion t (seq_order s)"
    using live_ticket(4)[OF inv, of t] by (simp add: retire_assertion_def)
qed

definition bump :: "(nat, nat, nat) sequenced \<Rightarrow> (nat, nat, nat) sequenced" where
  "bump s = the (sequenced_commit (\<lambda>v. (v + 1, [v])) True s)"

definition example_seq :: "(nat, nat, nat) sequenced" where
  "example_seq = bump (bump (sequenced_new 0))"

lemma bump_reachable:
  assumes "seq_reachable v0 s" "seq_owner s = Owned" "order_next (seq_order s) + 1 < 2 ^ 64"
  shows "seq_reachable v0 (bump s)"
proof -
  have "sequenced_commit (\<lambda>v. (v + 1, [v])) True s = Some (bump s)"
    using assms(3) by (simp add: bump_def sequenced_commit_def order_stamp_def u64_checked_succ_def Let_def)
  with assms(1,2) show ?thesis by (blast intro: seq_reachable.move seq_step.commit)
qed

lemma example_seq_reachable: "seq_reachable 0 example_seq"
  unfolding example_seq_def
  by (intro bump_reachable seq_reachable.start)
     (simp_all add: bump_def sequenced_commit_def order_stamp_def u64_checked_succ_def u64_succ_def Let_def
        sequenced_new_def order_new_def)

lemma example_seq_eq:
  "example_seq = \<lparr>seq_inner = \<lparr>ordered_value = 2, ordered_sent = [0, 1]\<rparr>,
     seq_order = \<lparr>order_next = 2, order_frontier = 0, order_version = 0, order_pending = [], order_closed = False\<rparr>,
     seq_owner = Owned, seq_senders = 1, seq_handles = (\<lambda>_. Unstamped)(1 := Armed, 2 := Armed), seq_deferred = []\<rparr>"
  by (simp add: example_seq_def bump_def sequenced_commit_def order_stamp_def u64_checked_succ_def u64_succ_def
      Let_def sequenced_new_def order_new_def ordered_commit_def put_handle_def)
     (simp add: numeral_2_eq_2)

lemma run_handle_numeral:
  "run_handle (numeral k) events t s =
     (case handle_move events t s of None \<Rightarrow> s | Some s' \<Rightarrow> run_handle (pred_numeral k) events t s')"
  by (simp add: numeral_eq_Suc)

lemmas run_defs = run_handle_numeral handle_move_def put_handle_def turn_send_all_def drop_armed_def order_retire_def
  absorb.simps u64_succ_def

lemma seq_reachable_run: "seq_reachable v0 s \<Longrightarrow> seq_reachable v0 (run_handle n events t s)"
  using run_handle_steps[of s n events t]
  by (induction rule: rtranclp_induct) (auto intro: seq_reachable.move)

theorem deferred_events_in_commit_order_witness:
  "sorted (map fst (seq_deferred (run_handle 20 [10, 11] 1 example_seq))) \<and>
   seq_deferred (run_handle 20 [10, 11] 1 example_seq) = [(1, 10), (1, 11)]"
proof
  show "sorted (map fst (seq_deferred (run_handle 20 [10, 11] 1 example_seq)))"
    by (rule deferred_events_in_commit_order[OF seq_reachable_run[OF example_seq_reachable], THEN conjunct1])
  show "seq_deferred (run_handle 20 [10, 11] 1 example_seq) = [(1, 10), (1, 11)]"
    by (simp add: example_seq_eq run_defs)
qed

text \<open>C19. No wake-up is lost and the line always moves. When a ticket is outstanding, the first
  outstanding one is the one after the frontier, and its handle, run on its own, publishes and retires within
  \<open>moves_left\<close> accesses, at most seven and the length of the batch: it is never parked behind a predecessor
  that has gone. What it appends to the deferred channel is exactly the batch it still owes (\<open>batch_due\<close>): all
  of its events, in order, while the owner lives and the handle is neither dropped nor already sending; the
  frontier then covers the ticket and no other handle has moved. A handle parked in \<open>changed()\<close> is woken once
  the owner has closed the order.\<close>

theorem line_never_stalls:
  fixes s :: "('v, 'p, 'e) sequenced" and u :: nat and events :: "'e list"
  assumes "seq_reachable v0 s" "is_live (seq_handles s u)"
  defines "t \<equiv> order_frontier (seq_order s) + 1"
  defines "s' \<equiv> run_handle (moves_left (length events) (seq_handles s t)) events t s"
  shows "is_live (seq_handles s t) \<and> t \<le> u \<and>
    seq_handles s' t = Discharged \<and> t \<le> order_frontier (seq_order s') \<and>
    (\<forall>w. w \<noteq> t \<longrightarrow> seq_handles s' w = seq_handles s w) \<and>
    seq_deferred s' = seq_deferred s @ map (Pair t) (batch_due events s (seq_handles s t)) \<and>
    (seq_owner s = Owned \<longrightarrow> seq_handles s t \<noteq> Dropping \<longrightarrow> (\<forall>es. seq_handles s t \<noteq> Sending es) \<longrightarrow>
      seq_deferred s' = seq_deferred s @ map (Pair t) events) \<and>
    (\<forall>v. seq_handles s u = Await_Changed v \<longrightarrow> seq_owner s = Closed \<or> seq_owner s = Gone \<longrightarrow>
      wait_for_step (seq_order s) u (seq_handles s u) = Some Check_Closed)"
proof (intro conjI allI impI)
  have inv: "seq_inv s" using assms(1) by (rule seq_reachable_inv)
  show live: "is_live (seq_handles s t)" unfolding t_def using inv assms(2) by (rule head_is_live)
  show "t \<le> u" unfolding t_def using live_ticket(4)[OF inv assms(2)] by simp
  note run = run_head[OF inv t_def[THEN meta_eq_to_obj_eq] live order_refl, of events, folded s'_def]
  show "seq_handles s' t = Discharged" using run by blast
  show "seq_handles s' w = seq_handles s w" if "w \<noteq> t" for w using run that by blast
  show "t \<le> order_frontier (seq_order s')"
  proof (rule ccontr)
    let ?u = "order_frontier (seq_order s') + 1"
    assume below: "\<not> t \<le> order_frontier (seq_order s')"
    have "seq_handles s' ?u = Discharged"
    proof (cases "?u = t")
      case True
      then show ?thesis using run by simp
    next
      case False
      with below have "?u \<in> {1..order_frontier (seq_order s)}" by (simp add: t_def)
      then have "seq_handles s ?u = Discharged" using inv by (simp add: seq_inv_def handles_ok_def retired_tickets_def)
      then show ?thesis using run False by simp
    qed
    moreover have "?u \<notin> retired_tickets (seq_order s')"
      using run by (auto simp: seq_inv_def order_ok_def retired_tickets_def)
    ultimately show False using run by (simp add: seq_inv_def handles_ok_def)
  qed
  show sent: "seq_deferred s' = seq_deferred s @ map (Pair t) (batch_due events s (seq_handles s t))"
    using run by blast
  show "seq_deferred s' = seq_deferred s @ map (Pair t) events"
    if "seq_owner s = Owned" "seq_handles s t \<noteq> Dropping" "\<forall>es. seq_handles s t \<noteq> Sending es"
    unfolding sent using owned_batch_due[OF assms(1) that(1) live] that(2,3) by simp
  show "wait_for_step (seq_order s) u (seq_handles s u) = Some Check_Closed"
    if "seq_handles s u = Await_Changed v" "seq_owner s = Closed \<or> seq_owner s = Gone" for v
    using that inv by (auto simp: seq_inv_def wakeups_ok_def)
qed

theorem line_never_stalls_witness:
  "seq_handles (run_handle (moves_left 2 Armed) [10, 11] 1 example_seq) 1 = Discharged \<and>
   seq_deferred (run_handle (moves_left 2 Armed) [10, 11] 1 example_seq) = [(1, 10), (1, 11)] \<and>
   is_live (seq_handles example_seq 2)"
proof -
  have live: "is_live (seq_handles example_seq 2)" by (simp add: example_seq_eq)
  have "order_frontier (seq_order example_seq) + 1 = 1" "seq_handles example_seq 1 = Armed"
    "seq_owner example_seq = Owned" "seq_deferred example_seq = []"
    by (simp_all add: example_seq_eq)
  moreover from this have "batch_due [10, 11] example_seq Armed = [10, 11]"
    by (intro owned_batch_due[OF example_seq_reachable]) simp_all
  ultimately show ?thesis
    using line_never_stalls[OF example_seq_reachable live, where events = "[10, 11]"] live by simp
qed

end
