(* ===== verification/Ov_Transfer.thy ===== *)
theory Ov_Transfer
  imports Ov_Retry Ov_Ext
begin

text \<open>
  The copy and rename fallback (\<open>ovstorage-plugin-core/src/copy_rename_fallback.rs\<close>): a wrapper
  that asks the layer below for a copy or a rename and, when that layer declines, reads the
  source and writes the destination, and for a rename deletes the source at the end.

  The layer below is a parameter, a record with one function per verb the wrapper calls, from
  the request and the state of that layer to a result and the next state. The local file system
  is a parameter too. Streams are the lists of the items they deliver. The event log of the
  wrapper and the cancellation token are left out, except where a cancellation ends the bridge
  between a source stream and a destination body.
\<close>

section \<open>Requests\<close>

datatype if_dest_exists = Dest_Overwrite | Dest_Fail | Dest_MatchEtag string

record read_options =
  ro_if_match :: "string option"
  ro_range :: "(nat \<times> nat option) option"
  ro_max_bytes :: "nat option"

record read_request =
  rd_address :: url
  rd_options :: read_options
  rd_extensions :: extensions

record local_delegate =
  ld_path :: string
  ld_info :: object_info

datatype read_result =
    Read_Bytes string object_info
  | Read_Stream "string stream" object_info
  | Read_LocalDelegate local_delegate
  | Read_Redirect string

record write_options =
  wo_if_dest :: if_dest_exists
  wo_size_hint :: "nat option"
  wo_user_metadata :: "(string \<times> string) list option"
  wo_message :: "string option"

definition write_options_default :: write_options where
  "write_options_default =
     \<lparr>wo_if_dest = Dest_Overwrite, wo_size_hint = None, wo_user_metadata = None, wo_message = None\<rparr>"

record put_request =
  put_address :: url
  put_body :: "string stream body"
  put_options :: write_options
  put_extensions :: extensions

record write_result =
  res_info :: object_info

datatype write_step = Write_Done write_result | Write_Redirects "string list"

record copy_options =
  co_if_source :: "string option"
  co_if_dest :: if_dest_exists
  co_message :: "string option"

record copy_request =
  cr_source :: url
  cr_destination :: url
  cr_options :: copy_options
  cr_extensions :: extensions

record delete_request =
  dr_address :: url
  dr_if_match :: "string option"
  dr_extensions :: extensions

record 's lower_layer =
  lower_root_info_for :: "url \<Rightarrow> extensions \<Rightarrow> 's \<Rightarrow> root_info result \<times> 's"
  lower_list_address_roots ::
    "extensions \<Rightarrow> 's \<Rightarrow> (root_info_snapshot \<times> root_info_change stream option) result \<times> 's"
  lower_read :: "read_request \<Rightarrow> 's \<Rightarrow> read_result result \<times> 's"
  lower_write :: "put_request \<Rightarrow> 's \<Rightarrow> write_result result \<times> 's"
  lower_write_stream :: "put_request \<Rightarrow> 's \<Rightarrow> write_result result \<times> 's"
  lower_copy :: "copy_request \<Rightarrow> 's \<Rightarrow> write_step result \<times> 's"
  lower_rename :: "copy_request \<Rightarrow> 's \<Rightarrow> unit result \<times> 's"
  lower_delete :: "delete_request \<Rightarrow> 's \<Rightarrow> unit result \<times> 's"

text \<open>A rename request has the fields of a copy request, so both use one record.\<close>

section \<open>Local files\<close>

datatype io_error_kind = Io_NotFound | Io_PermissionDenied | Io_Other

record filesystem =
  fs_metadata_len :: "string \<Rightarrow> io_error_kind + nat"
  fs_read :: "string \<Rightarrow> io_error_kind + string"
  fs_open :: "string \<Rightarrow> io_error_kind + (io_error_kind + string) list"

definition io_error :: "io_error_kind \<Rightarrow> error_code" where
  "io_error k = (case k of Io_NotFound \<Rightarrow> Err_NotFound | Io_PermissionDenied \<Rightarrow> Err_PermissionDenied
     | Io_Other \<Rightarrow> Err_Transient)"

text \<open>An open file is the outcomes of its successive reads; an empty read is the end of file.\<close>

fun file_chunks :: "(io_error_kind + string) list \<Rightarrow> string stream" where
  "file_chunks [] = []"
| "file_chunks (Inr [] # reads) = []"
| "file_chunks (Inr (b # bs) # reads) = Inr (b # bs) # file_chunks reads"
| "file_chunks (Inl k # reads) = Inl (io_error k) # file_chunks reads"

definition body_stream_from_file :: "filesystem \<Rightarrow> string \<Rightarrow> string stream result" where
  "body_stream_from_file FS path =
     (case fs_open FS path of Inl k \<Rightarrow> Inl (io_error k) | Inr reads \<Rightarrow> Inr (file_chunks reads))"

section \<open>The bridge from a source stream to a destination body\<close>

datatype bridge_item = Bridge_Chunk string | Bridge_End | Bridge_Failed error_code

text \<open>
  What the drain task sends: the chunks up to the first error or the end, each followed by its
  marker. \<open>cancelled\<close> is the number of items after which the token fires, \<open>dies\<close> the number of
  items after which the task is gone without a word (the runtime shut down).
\<close>

fun bridge_send :: "nat option \<Rightarrow> nat option \<Rightarrow> string stream \<Rightarrow> bridge_item list" where
  "bridge_send cancelled dies items =
     (if dies = Some 0 then []
      else if cancelled = Some 0 then [Bridge_Failed Err_Cancelled]
      else case items of
             [] \<Rightarrow> [Bridge_End]
           | Inl e # rest \<Rightarrow> [Bridge_Failed e]
           | Inr chunk # rest \<Rightarrow>
               Bridge_Chunk chunk #
                 bridge_send (map_option (\<lambda>n. n - 1) cancelled) (map_option (\<lambda>n. n - 1) dies) rest)"

declare bridge_send.simps [simp del]

fun bridge_recv :: "bridge_item list \<Rightarrow> string stream" where
  "bridge_recv [] = [Inl Err_Internal]"
| "bridge_recv (Bridge_Chunk chunk # items) = Inr chunk # bridge_recv items"
| "bridge_recv (Bridge_End # items) = []"
| "bridge_recv (Bridge_Failed e # items) = [Inl e]"

definition body_stream_from_read_stream :: "nat option \<Rightarrow> nat option \<Rightarrow> string stream \<Rightarrow> string stream" where
  "body_stream_from_read_stream cancelled dies items = bridge_recv (bridge_send cancelled dies items)"

section \<open>The wrapper\<close>

record transfer_env =
  te_fs :: filesystem
  te_cancelled :: "nat option"
  te_dies :: "nat option"
  te_max_buffered_bytes :: "nat option"

definition max_buffered_bytes_from :: "layer_config \<Rightarrow> nat option result" where
  "max_buffered_bytes_from config =
     (case config ''max_buffered_transfer_bytes'' of
        None \<Rightarrow> Inr None
      | Some v \<Rightarrow> (case config_u64 v of Inl e \<Rightarrow> Inl e | Inr n \<Rightarrow> Inr (Some n)))"

definition same_object_error :: error_code where "same_object_error = Err_InvalidArgument"

definition as_pre_write_precondition :: "error_code \<Rightarrow> bool \<Rightarrow> error_code" where
  "as_pre_write_precondition e had_if_source =
     (if \<not> had_if_source \<or> e \<noteq> Err_ObjectModified then e else Err_PreconditionFailed)"

definition names_same_object :: "url \<Rightarrow> url \<Rightarrow> bool" where
  "names_same_object source destination \<longleftrightarrow> source = destination"

definition emulated_rename_available :: "capabilities \<Rightarrow> bool" where
  "emulated_rename_available caps = supports_delete caps"

definition raise_availability :: "capabilities \<Rightarrow> capabilities" where
  "raise_availability caps =
     (let caps = (if \<not> supports_rename caps
                  then caps\<lparr>supports_atomic_rename := False, supports_server_side_rename := False\<rparr> else caps);
          caps = (if \<not> supports_copy caps then caps\<lparr>supports_server_side_copy := False\<rparr> else caps);
          caps = caps\<lparr>supports_copy := True\<rparr>
      in caps\<lparr>supports_rename := supports_rename caps \<or> emulated_rename_available caps\<rparr>)"

definition raise_root :: "root_info \<Rightarrow> root_info" where
  "raise_root root = root\<lparr>ri_capabilities := raise_availability (ri_capabilities root)\<rparr>"

definition raise_all :: "root_info list \<Rightarrow> root_info list" where
  "raise_all roots = map raise_root roots"

definition source_read_request :: "url \<Rightarrow> string option \<Rightarrow> extensions \<Rightarrow> nat option \<Rightarrow> read_request" where
  "source_read_request address if_match extensions max_bytes =
     \<lparr>rd_address = address,
      rd_options = \<lparr>ro_if_match = if_match, ro_range = None, ro_max_bytes = max_bytes\<rparr>,
      rd_extensions = extensions\<rparr>"

definition buffered_transfer_cap_error :: error_code where
  "buffered_transfer_cap_error = Err_ResourceExhausted"

definition unfollowed_redirect_error :: error_code where
  "unfollowed_redirect_error = Err_Unsupported"

definition ensure_within_cap :: "nat \<Rightarrow> nat option \<Rightarrow> unit result" where
  "ensure_within_cap resident max_bytes =
     (case max_bytes of
        Some cap \<Rightarrow> if resident > cap then Inl buffered_transfer_cap_error else Inr ()
      | None \<Rightarrow> Inr ())"

definition refuse_known_size_over_cap :: "nat option \<Rightarrow> nat option \<Rightarrow> unit result" where
  "refuse_known_size_over_cap known max_bytes =
     (case (max_bytes, known) of
        (Some cap, Some n) \<Rightarrow> if n > cap then Inl buffered_transfer_cap_error else Inr ()
      | _ \<Rightarrow> Inr ())"

definition u64_saturating_add :: "nat \<Rightarrow> nat \<Rightarrow> nat" where
  "u64_saturating_add a b = min (a + b) (2 ^ 64 - 1)"

text \<open>The loop that fills the buffer.\<close>

fun drain_to_bytes :: "nat option \<Rightarrow> bool \<Rightarrow> bool \<Rightarrow> string \<Rightarrow> string stream \<Rightarrow> string result" where
  "drain_to_bytes max_bytes had_if_source moved out [] = Inr out"
| "drain_to_bytes max_bytes had_if_source moved out (Inl e # items) =
     Inl (as_pre_write_precondition e (had_if_source \<and> \<not> moved))"
| "drain_to_bytes max_bytes had_if_source moved out (Inr chunk # items) =
     (case ensure_within_cap (u64_saturating_add (length out) (length chunk)) max_bytes of
        Inl e \<Rightarrow> Inl e
      | Inr _ \<Rightarrow> drain_to_bytes max_bytes had_if_source (moved \<or> chunk \<noteq> []) (out @ chunk) items)"

definition delegate_size :: "filesystem \<Rightarrow> local_delegate \<Rightarrow> nat option \<Rightarrow> nat option result" where
  "delegate_size FS delegate max_bytes =
     (case (oi_size (ld_info delegate), max_bytes) of
        (Some n, _) \<Rightarrow> Inr (Some n)
      | (None, Some _) \<Rightarrow>
          (case fs_metadata_len FS (ld_path delegate) of Inl k \<Rightarrow> Inl Err_Internal | Inr n \<Rightarrow> Inr (Some n))
      | (None, None) \<Rightarrow> Inr None)"

definition result_to_bytes :: "filesystem \<Rightarrow> nat option \<Rightarrow> bool \<Rightarrow> read_result \<Rightarrow> string result" where
  "result_to_bytes FS max_bytes had_if_source result =
     (case result of
        Read_Bytes bytes info \<Rightarrow>
          (case ensure_within_cap (length bytes) max_bytes of Inl e \<Rightarrow> Inl e | Inr _ \<Rightarrow> Inr bytes)
      | Read_Stream items info \<Rightarrow>
          (case refuse_known_size_over_cap (oi_size info) max_bytes of
             Inl e \<Rightarrow> Inl e
           | Inr _ \<Rightarrow> drain_to_bytes max_bytes had_if_source False [] items)
      | Read_LocalDelegate delegate \<Rightarrow>
          (case delegate_size FS delegate max_bytes of
             Inl e \<Rightarrow> Inl e
           | Inr known \<Rightarrow>
               (case refuse_known_size_over_cap known max_bytes of
                  Inl e \<Rightarrow> Inl e
                | Inr _ \<Rightarrow> (case fs_read FS (ld_path delegate) of Inl k \<Rightarrow> Inl Err_Internal | Inr bytes \<Rightarrow> Inr bytes)))
      | Read_Redirect r \<Rightarrow> Inl unfollowed_redirect_error)"

definition read_to_bytes ::
    "transfer_env \<Rightarrow> 's lower_layer \<Rightarrow> url \<Rightarrow> string option \<Rightarrow> extensions \<Rightarrow> nat option \<Rightarrow> 's \<Rightarrow> string result \<times> 's" where
  "read_to_bytes T I address if_match extensions max_bytes s =
     (let had_if_source = (if_match \<noteq> None) in
      case lower_read I (source_read_request address if_match extensions max_bytes) s of
        (Inl e, s') \<Rightarrow> (Inl (as_pre_write_precondition e had_if_source), s')
      | (Inr result, s') \<Rightarrow> (result_to_bytes (te_fs T) max_bytes had_if_source result, s'))"

definition result_to_body :: "transfer_env \<Rightarrow> read_result \<Rightarrow> (string stream body \<times> nat option) result" where
  "result_to_body T result =
     (case result of
        Read_Bytes bytes info \<Rightarrow> Inr (Body_Stream [Inr bytes], oi_size info)
      | Read_Stream items info \<Rightarrow>
          Inr (Body_Stream (body_stream_from_read_stream (te_cancelled T) (te_dies T) items), oi_size info)
      | Read_LocalDelegate delegate \<Rightarrow>
          (case body_stream_from_file (te_fs T) (ld_path delegate) of
             Inl e \<Rightarrow> Inl e
           | Inr items \<Rightarrow> Inr (Body_Stream items, oi_size (ld_info delegate)))
      | Read_Redirect r \<Rightarrow> Inl unfollowed_redirect_error)"

definition read_to_body ::
    "transfer_env \<Rightarrow> 's lower_layer \<Rightarrow> url \<Rightarrow> string option \<Rightarrow> extensions \<Rightarrow> 's \<Rightarrow>
     (string stream body \<times> nat option) result \<times> 's" where
  "read_to_body T I address if_match extensions s =
     (let had_if_source = (if_match \<noteq> None) in
      case lower_read I (source_read_request address if_match extensions None) s of
        (Inl e, s') \<Rightarrow> (Inl (as_pre_write_precondition e had_if_source), s')
      | (Inr result, s') \<Rightarrow> (result_to_body T result, s'))"

text \<open>\<open>map(..).unwrap_or(true)\<close> on a probe of the root.\<close>

definition probe :: "'s lower_layer \<Rightarrow> (capabilities \<Rightarrow> bool) \<Rightarrow> url \<Rightarrow> extensions \<Rightarrow> 's \<Rightarrow> bool \<times> 's" where
  "probe I flag address extensions s =
     (case lower_root_info_for I address extensions s of
        (Inr info, s') \<Rightarrow> (flag (ri_capabilities info), s')
      | (Inl e, s') \<Rightarrow> (True, s'))"

definition transfer_fallback ::
    "transfer_env \<Rightarrow> 's lower_layer \<Rightarrow> url \<Rightarrow> url \<Rightarrow> string option \<Rightarrow> write_options \<Rightarrow> extensions \<Rightarrow> 's \<Rightarrow>
     write_result result \<times> 's" where
  "transfer_fallback T I source destination if_source options extensions s =
     (let (stream_capable, s1) = probe I supports_write_stream destination extensions s in
      if \<not> stream_capable then
        (case read_to_bytes T I source if_source extensions (te_max_buffered_bytes T) s1 of
           (Inl e, s2) \<Rightarrow> (Inl e, s2)
         | (Inr bytes, s2) \<Rightarrow>
             lower_write I \<lparr>put_address = destination, put_body = Body_Bytes bytes, put_options = options,
                            put_extensions = extensions\<rparr> s2)
      else
        (case read_to_body T I source if_source extensions s1 of
           (Inl e, s2) \<Rightarrow> (Inl e, s2)
         | (Inr (body, size_hint), s2) \<Rightarrow>
             lower_write_stream I \<lparr>put_address = destination, put_body = body,
                                   put_options = options\<lparr>wo_size_hint := size_hint\<rparr>,
                                   put_extensions = extensions\<rparr> s2))"

definition emulated_copy :: "transfer_env \<Rightarrow> 's lower_layer \<Rightarrow> copy_request \<Rightarrow> 's \<Rightarrow> write_step result \<times> 's" where
  "emulated_copy T I request s =
     (if names_same_object (cr_source request) (cr_destination request) then (Inl same_object_error, s)
      else case transfer_fallback T I (cr_source request) (cr_destination request)
                  (co_if_source (cr_options request))
                  (write_options_default\<lparr>wo_if_dest := co_if_dest (cr_options request),
                                         wo_message := co_message (cr_options request)\<rparr>)
                  (cr_extensions request) s of
             (Inl e, s') \<Rightarrow> (Inl e, s')
           | (Inr result, s') \<Rightarrow>
               (Inr (Write_Done (result\<lparr>res_info := (res_info result)\<lparr>oi_address := cr_destination request\<rparr>\<rparr>)), s'))"

definition fallback_copy :: "transfer_env \<Rightarrow> 's lower_layer \<Rightarrow> copy_request \<Rightarrow> 's \<Rightarrow> write_step result \<times> 's" where
  "fallback_copy T I request s =
     (let (attempt_inner, s1) = probe I supports_copy (cr_source request) (cr_extensions request) s in
      if attempt_inner then
        (case lower_copy I request s1 of
           (Inr step, s2) \<Rightarrow> (Inr step, s2)
         | (Inl e, s2) \<Rightarrow> if e = Err_Unsupported then emulated_copy T I request s2 else (Inl e, s2))
      else emulated_copy T I request s1)"

definition emulated_rename :: "transfer_env \<Rightarrow> 's lower_layer \<Rightarrow> copy_request \<Rightarrow> 's \<Rightarrow> unit result \<times> 's" where
  "emulated_rename T I request s =
     (if names_same_object (cr_source request) (cr_destination request) then (Inl same_object_error, s)
      else
        (let (can_delete, s1) = probe I emulated_rename_available (cr_source request) (cr_extensions request) s in
         if \<not> can_delete then (Inl Err_Unsupported, s1)
         else
           (case fallback_copy T I request s1 of
              (Inl e, s2) \<Rightarrow> (Inl e, s2)
            | (Inr (Write_Redirects rs), s2) \<Rightarrow> (Inl Err_Unsupported, s2)
            | (Inr (Write_Done result), s2) \<Rightarrow>
                (case lower_delete I \<lparr>dr_address = cr_source request,
                                      dr_if_match = co_if_source (cr_options request),
                                      dr_extensions = cr_extensions request\<rparr> s2 of
                   (Inr u, s3) \<Rightarrow> (Inr (), s3)
                 | (Inl e, s3) \<Rightarrow> if e = Err_NotFound then (Inr (), s3) else (Inl Err_CommitAmbiguous, s3)))))"

definition fallback_rename :: "transfer_env \<Rightarrow> 's lower_layer \<Rightarrow> copy_request \<Rightarrow> 's \<Rightarrow> unit result \<times> 's" where
  "fallback_rename T I request s =
     (let (attempt_inner, s1) = probe I supports_rename (cr_source request) (cr_extensions request) s in
      if attempt_inner then
        (case lower_rename I request s1 of
           (Inr u, s2) \<Rightarrow> (Inr (), s2)
         | (Inl e, s2) \<Rightarrow> if e = Err_Unsupported then emulated_rename T I request s2 else (Inl e, s2))
      else emulated_rename T I request s1)"

definition fallback_root_info_for :: "'s lower_layer \<Rightarrow> url \<Rightarrow> extensions \<Rightarrow> 's \<Rightarrow> root_info result \<times> 's" where
  "fallback_root_info_for I address extensions s =
     (case lower_root_info_for I address extensions s of
        (Inl e, s') \<Rightarrow> (Inl e, s')
      | (Inr info, s') \<Rightarrow> (Inr (raise_root info), s'))"

definition raise_change :: "root_info_change \<Rightarrow> root_info_change" where
  "raise_change change =
     (case change of
        Change_Snapshot roots \<Rightarrow> Change_Snapshot (raise_all roots)
      | Change_Added roots \<Rightarrow> Change_Added (raise_all roots)
      | Change_Removed roots \<Rightarrow> Change_Removed (raise_all roots)
      | Change_Updated roots \<Rightarrow> Change_Updated (raise_all roots))"

definition fallback_list_address_roots ::
    "'s lower_layer \<Rightarrow> extensions \<Rightarrow> 's \<Rightarrow> (root_info_snapshot \<times> root_info_change stream option) result \<times> 's" where
  "fallback_list_address_roots I cx s =
     (case lower_list_address_roots I cx s of
        (Inl e, s') \<Rightarrow> (Inl e, s')
      | (Inr (snapshot, updates), s') \<Rightarrow>
          (Inr (snapshot\<lparr>snap_roots := map raise_root (snap_roots snapshot)\<rparr>,
                map_option (map (map_sum id raise_change)) updates), s'))"

section \<open>What the layer below promises\<close>

text \<open>
  The content of the layer below is a \<open>view\<close> of its state, the bytes at each address. The contract
  is what the interface of a layer documents: probing and reading change nothing, a stream that
  ends without an error has delivered the object, a write that succeeds has stored the whole body
  and one that fails touches its own address at most (a body with an error item is never
  committed), \<open>Unsupported\<close> from a rename means that nothing was done, and a delete removes its own
  address or reports why not.
\<close>

definition clean :: "'i stream \<Rightarrow> bool" where
  "clean items \<longleftrightarrow> list_all (case_sum (\<lambda>e. False) (\<lambda>c. True)) items"

definition chunks_of :: "string stream \<Rightarrow> string" where
  "chunks_of items = concat (map (case_sum (\<lambda>e. []) id) items)"

definition body_data :: "string stream body \<Rightarrow> string option" where
  "body_data body =
     (case body of Body_Bytes bytes \<Rightarrow> Some bytes
      | Body_Stream items \<Rightarrow> if clean items then Some (chunks_of items) else None
      | Body_LocalFile path \<Rightarrow> None)"

definition delivers :: "filesystem \<Rightarrow> read_result \<Rightarrow> string \<Rightarrow> bool" where
  "delivers FS result d \<longleftrightarrow>
     (case result of
        Read_Bytes bytes info \<Rightarrow> bytes = d
      | Read_Stream items info \<Rightarrow> clean items \<longrightarrow> chunks_of items = d
      | Read_LocalDelegate delegate \<Rightarrow>
          (\<forall>bytes. fs_read FS (ld_path delegate) = Inr bytes \<longrightarrow> bytes = d) \<and>
          (\<forall>items. body_stream_from_file FS (ld_path delegate) = Inr items \<longrightarrow> clean items \<longrightarrow> chunks_of items = d)
      | Read_Redirect r \<Rightarrow> True)"

definition stores :: "('s \<Rightarrow> url \<Rightarrow> string option) \<Rightarrow> (put_request \<Rightarrow> 's \<Rightarrow> write_result result \<times> 's) \<Rightarrow> bool" where
  "stores view put \<longleftrightarrow> (\<forall>q s r s'. put q s = (r, s') \<longrightarrow>
     (\<forall>a. a \<noteq> put_address q \<longrightarrow> view s' a = view s a) \<and>
     (\<forall>w. r = Inr w \<longrightarrow> (\<exists>d. body_data (put_body q) = Some d \<and> view s' (put_address q) = Some d)))"

definition reads :: "filesystem \<Rightarrow> ('s \<Rightarrow> url \<Rightarrow> string option) \<Rightarrow> 's lower_layer \<Rightarrow> bool" where
  "reads FS view I \<longleftrightarrow> (\<forall>a x s. view (snd (lower_root_info_for I a x s)) = view s) \<and>
     (\<forall>q s r s'. lower_read I q s = (r, s') \<longrightarrow> view s' = view s \<and>
        (\<forall>result. r = Inr result \<longrightarrow> ro_range (rd_options q) = None \<longrightarrow>
           (\<exists>d. view s (rd_address q) = Some d \<and> delivers FS result d)))"

definition copies :: "('s \<Rightarrow> url \<Rightarrow> string option) \<Rightarrow> 's lower_layer \<Rightarrow> bool" where
  "copies view I \<longleftrightarrow> (\<forall>q s r s'. lower_copy I q s = (r, s') \<longrightarrow>
     (\<forall>a. a \<noteq> cr_destination q \<longrightarrow> view s' a = view s a) \<and>
     (r = Inl Err_Unsupported \<longrightarrow> view s' = view s) \<and>
     (\<forall>w. r = Inr (Write_Done w) \<longrightarrow> view s' (cr_destination q) = view s (cr_source q)))"

definition removes :: "('s \<Rightarrow> url \<Rightarrow> string option) \<Rightarrow> 's lower_layer \<Rightarrow> bool" where
  "removes view I \<longleftrightarrow> (\<forall>q s r s'. lower_delete I q s = (r, s') \<longrightarrow>
     (\<forall>a. a \<noteq> dr_address q \<longrightarrow> view s' a = view s a) \<and>
     (r = Inr () \<or> r = Inl Err_NotFound \<longrightarrow> view s' (dr_address q) = None)) \<and>
     (\<forall>q s s'. lower_rename I q s = (Inl Err_Unsupported, s') \<longrightarrow> view s' = view s)"

definition store_contract :: "filesystem \<Rightarrow> ('s \<Rightarrow> url \<Rightarrow> string option) \<Rightarrow> 's lower_layer \<Rightarrow> bool" where
  "store_contract FS view I \<longleftrightarrow> reads FS view I \<and> stores view (lower_write I) \<and>
     stores view (lower_write_stream I) \<and> copies view I \<and> removes view I"

section \<open>Nothing is truncated\<close>

lemma clean_simps [simp]:
  "clean []" "clean (Inr c # items) \<longleftrightarrow> clean items" "\<not> clean (Inl e # items)"
  by (simp_all add: clean_def)

lemma chunks_of_simps [simp]:
  "chunks_of [] = []" "chunks_of (Inr c # items) = c @ chunks_of items" "chunks_of (Inl e # items) = chunks_of items"
  by (simp_all add: chunks_of_def)

lemma bridge_whole_or_failed:
  "clean (body_stream_from_read_stream cancelled dies items) \<Longrightarrow>
   clean items \<and> chunks_of (body_stream_from_read_stream cancelled dies items) = chunks_of items"
proof (induction items arbitrary: cancelled dies)
  case Nil
  then show ?case
    by (auto simp: body_stream_from_read_stream_def bridge_send.simps[of _ _ "[]"] split: if_splits)
next
  case (Cons item items)
  then show ?case
    by (cases item)
       (auto simp: body_stream_from_read_stream_def bridge_send.simps[of _ _ "_ # _"] split: if_splits)
qed

lemma bridge_undisturbed:
  "clean items \<Longrightarrow> body_stream_from_read_stream None None items = items"
proof (induction items)
  case Nil
  then show ?case by (simp add: body_stream_from_read_stream_def bridge_send.simps)
next
  case (Cons item items)
  then show ?case
    by (cases item) (simp_all add: body_stream_from_read_stream_def bridge_send.simps[of _ _ "_ # _"])
qed

lemma drain_whole:
  "drain_to_bytes max_bytes had moved out items = Inr bytes \<Longrightarrow> clean items \<and> bytes = out @ chunks_of items"
  by (induction max_bytes had moved out items rule: drain_to_bytes.induct) (auto split: sum.splits)

lemma result_to_bytes_whole:
  "result_to_bytes FS max_bytes had result = Inr bytes \<Longrightarrow> delivers FS result d \<Longrightarrow> bytes = d"
  by (auto simp: result_to_bytes_def delivers_def dest: drain_whole split: read_result.splits sum.splits)

lemma result_to_body_whole:
  "result_to_body T result = Inr (body, hint) \<Longrightarrow> delivers (te_fs T) result d \<Longrightarrow> body_data body = Some d' \<Longrightarrow> d' = d"
  by (auto simp: result_to_body_def delivers_def body_data_def split: read_result.splits sum.splits if_splits
      dest: bridge_whole_or_failed)

lemma probe_view: "reads FS view I \<Longrightarrow> probe I flag a x s = (b, s') \<Longrightarrow> view s' = view s"
  by (auto simp: probe_def reads_def split: prod.splits sum.splits) (metis snd_conv)+

lemma read_to_bytes_whole:
  assumes c: "reads (te_fs T) view I" and r: "read_to_bytes T I a if_match x max_bytes s = (res, s')"
  shows "view s' = view s" and "res = Inr bytes \<Longrightarrow> view s a = Some bytes"
proof -
  obtain r0 s0 where l: "lower_read I (source_read_request a if_match x max_bytes) s = (r0, s0)" by fastforce
  have "s0 = s'" using r l by (auto simp: read_to_bytes_def Let_def split: sum.splits)
  have g: "view s0 = view s" "\<And>rr. r0 = Inr rr \<Longrightarrow> \<exists>d. view s a = Some d \<and> delivers (te_fs T) rr d"
    using c l unfolding reads_def by (fastforce simp: source_read_request_def)+
  show "view s' = view s" using g(1) \<open>s0 = s'\<close> by simp
  show "view s a = Some bytes" if "res = Inr bytes"
    using r l that g(2) by (auto simp: read_to_bytes_def Let_def dest: result_to_bytes_whole split: sum.splits)
qed

lemma read_to_body_whole:
  assumes c: "reads (te_fs T) view I" and r: "read_to_body T I a if_match x s = (res, s')"
  shows "view s' = view s" and "res = Inr (body, hint) \<Longrightarrow> body_data body = Some d \<Longrightarrow> view s a = Some d"
proof -
  obtain r0 s0 where l: "lower_read I (source_read_request a if_match x None) s = (r0, s0)" by fastforce
  have "s0 = s'" using r l by (auto simp: read_to_body_def Let_def split: sum.splits)
  have g: "view s0 = view s" "\<And>rr. r0 = Inr rr \<Longrightarrow> \<exists>d. view s a = Some d \<and> delivers (te_fs T) rr d"
    using c l unfolding reads_def by (fastforce simp: source_read_request_def)+
  show "view s' = view s" using g(1) \<open>s0 = s'\<close> by simp
  show "view s a = Some d" if "res = Inr (body, hint)" "body_data body = Some d"
    using r l that g(2) by (auto simp: read_to_body_def Let_def dest: result_to_body_whole split: sum.splits)
qed

lemma stores_only: "stores view put \<Longrightarrow> put q s = (r, s') \<Longrightarrow> a \<noteq> put_address q \<Longrightarrow> view s' a = view s a"
  unfolding stores_def by blast

lemma stores_whole:
  "stores view put \<Longrightarrow> put q s = (Inr w, s') \<Longrightarrow> \<exists>d. body_data (put_body q) = Some d \<and> view s' (put_address q) = Some d"
  unfolding stores_def by blast

lemma transfer_fallback_whole:
  assumes c: "store_contract (te_fs T) view I"
    and t: "transfer_fallback T I src dst if_source opts x s = (r, s')"
  shows "a \<noteq> dst \<Longrightarrow> view s' a = view s a"
    and "r = Inr w \<Longrightarrow> view s src \<noteq> None \<and> view s' dst = view s src"
proof -
  have cr: "reads (te_fs T) view I" and cw: "stores view (lower_write I)" "stores view (lower_write_stream I)"
    using c by (simp_all add: store_contract_def)
  obtain b s1 where p: "probe I supports_write_stream dst x s = (b, s1)" by fastforce
  have v1: "view s1 = view s" using probe_view[OF cr p] .
  have all: "(a \<noteq> dst \<longrightarrow> view s' a = view s a) \<and> (r = Inr w \<longrightarrow> view s src \<noteq> None \<and> view s' dst = view s src)"
  proof (cases b)
    case False
    obtain r2 s2 where q: "read_to_bytes T I src if_source x (te_max_buffered_bytes T) s1 = (r2, s2)" by fastforce
    note w = read_to_bytes_whole[OF cr q]
    show ?thesis
    proof (cases r2)
      case (Inl e)
      then show ?thesis using t p False q w(1) v1 by (auto simp: transfer_fallback_def)
    next
      case (Inr bytes)
      let ?q = "\<lparr>put_address = dst, put_body = Body_Bytes bytes, put_options = opts, put_extensions = x\<rparr>"
      have l: "lower_write I ?q s2 = (r, s')" using t p False q Inr by (simp add: transfer_fallback_def)
      show ?thesis
        using stores_only[OF cw(1) l] stores_whole[OF cw(1), of ?q s2 _ s'] l w(1) w(2)[OF Inr] v1
        by (auto simp: body_data_def)
    qed
  next
    case True
    obtain r2 s2 where q: "read_to_body T I src if_source x s1 = (r2, s2)" by fastforce
    note w = read_to_body_whole[OF cr q]
    show ?thesis
    proof (cases r2)
      case (Inl e)
      then show ?thesis using t p True q w(1) v1 by (auto simp: transfer_fallback_def)
    next
      case (Inr bh)
      obtain body hint where bh: "bh = (body, hint)" by fastforce
      let ?q = "\<lparr>put_address = dst, put_body = body, put_options = opts\<lparr>wo_size_hint := hint\<rparr>, put_extensions = x\<rparr>"
      have l: "lower_write_stream I ?q s2 = (r, s')" using t p True q Inr bh by (simp add: transfer_fallback_def)
      show ?thesis
        using stores_only[OF cw(2) l] stores_whole[OF cw(2), of ?q s2 _ s'] l w(1) w(2)[OF Inr[unfolded bh]] v1
        by auto
    qed
  qed
  show "a \<noteq> dst \<Longrightarrow> view s' a = view s a" using all by blast
  show "r = Inr w \<Longrightarrow> view s src \<noteq> None \<and> view s' dst = view s src" using all by blast
qed

lemma emulated_copy_whole:
  assumes c: "store_contract (te_fs T) view I" and t: "emulated_copy T I q s = (r, s')"
  shows "(\<forall>a. a \<noteq> cr_destination q \<longrightarrow> view s' a = view s a) \<and>
    (\<forall>step. r = Inr step \<longrightarrow> view s' (cr_destination q) = view s (cr_source q))"
proof (cases "cr_source q = cr_destination q")
  case True
  then show ?thesis using t by (auto simp: emulated_copy_def names_same_object_def)
next
  case False
  obtain r0 s0 where f: "transfer_fallback T I (cr_source q) (cr_destination q) (co_if_source (cr_options q))
      (write_options_default\<lparr>wo_if_dest := co_if_dest (cr_options q), wo_message := co_message (cr_options q)\<rparr>)
      (cr_extensions q) s = (r0, s0)" by fastforce
  have "s' = s0" "\<And>step. r = Inr step \<Longrightarrow> \<exists>w. r0 = Inr w"
    using t f False by (auto simp: emulated_copy_def names_same_object_def split: sum.splits)
  then show ?thesis using transfer_fallback_whole[OF c f] by metis
qed

lemma fallback_copy_whole:
  assumes c: "store_contract (te_fs T) view I" and t: "fallback_copy T I q s = (r, s')"
  shows "(\<forall>a. a \<noteq> cr_destination q \<longrightarrow> view s' a = view s a) \<and>
    (\<forall>w. r = Inr (Write_Done w) \<longrightarrow> view s' (cr_destination q) = view s (cr_source q))"
proof -
  have cr: "reads (te_fs T) view I" and cc: "copies view I" using c by (simp_all add: store_contract_def)
  obtain b s1 where p: "probe I supports_copy (cr_source q) (cr_extensions q) s = (b, s1)" by fastforce
  have v1: "view s1 = view s" using probe_view[OF cr p] .
  obtain r2 s2 where l: "lower_copy I q s1 = (r2, s2)" by fastforce
  have native: "(\<forall>a. a \<noteq> cr_destination q \<longrightarrow> view s2 a = view s1 a) \<and>
     (r2 = Inl Err_Unsupported \<longrightarrow> view s2 = view s1) \<and>
     (\<forall>w. r2 = Inr (Write_Done w) \<longrightarrow> view s2 (cr_destination q) = view s1 (cr_source q))"
    using cc l unfolding copies_def by blast
  consider "b" "r2 = Inl Err_Unsupported" "emulated_copy T I q s2 = (r, s')"
    | "b" "r2 \<noteq> Inl Err_Unsupported" "r = r2" "s' = s2" | "\<not> b" "emulated_copy T I q s1 = (r, s')"
    using t p l by (cases r2) (auto simp: fallback_copy_def split: if_splits)
  then show ?thesis
  proof cases
    case 1
    with native v1 emulated_copy_whole[OF c 1(3)] show ?thesis by simp
  next
    case 2
    with native v1 show ?thesis by simp
  next
    case 3
    with v1 emulated_copy_whole[OF c 3(2)] show ?thesis by simp
  qed
qed

text \<open>The rename is not done by the layer below: it is not asked, or it answers \<open>Unsupported\<close>.\<close>

definition declines_rename :: "'s lower_layer \<Rightarrow> copy_request \<Rightarrow> 's \<Rightarrow> bool" where
  "declines_rename I q s \<longleftrightarrow>
     (let (attempt, s1) = probe I supports_rename (cr_source q) (cr_extensions q) s
      in attempt \<longrightarrow> fst (lower_rename I q s1) = Inl Err_Unsupported)"

lemma fallback_rename_declined:
  assumes c: "store_contract (te_fs T) view I" and d: "declines_rename I q s"
  shows "\<exists>s1. view s1 = view s \<and> fallback_rename T I q s = emulated_rename T I q s1"
proof -
  have cr: "reads (te_fs T) view I" and cd: "removes view I" using c by (simp_all add: store_contract_def)
  obtain b s1 where p: "probe I supports_rename (cr_source q) (cr_extensions q) s = (b, s1)" by fastforce
  have v1: "view s1 = view s" using probe_view[OF cr p] .
  obtain r2 s2 where l: "lower_rename I q s1 = (r2, s2)" by fastforce
  show ?thesis
  proof (cases b)
    case True
    with d p l have "r2 = Inl Err_Unsupported" by (simp add: declines_rename_def)
    moreover from this l cd have "view s2 = view s1" unfolding removes_def by blast
    ultimately show ?thesis using True p l v1 by (auto simp: fallback_rename_def)
  qed (use p v1 in \<open>auto simp: fallback_rename_def\<close>)
qed

lemma emulated_rename_outcome:
  assumes c: "store_contract (te_fs T) view I" and t: "emulated_rename T I q s = (r, s')"
    and ne: "cr_source q \<noteq> cr_destination q"
  shows "(r = Inr () \<and> view s' (cr_source q) = None \<and> view s' (cr_destination q) = view s (cr_source q) \<or>
     (\<exists>e. r = Inl e \<and> view s' (cr_source q) = view s (cr_source q)) \<or>
     r = Inl Err_CommitAmbiguous \<and> view s' (cr_destination q) = view s (cr_source q)) \<and>
    (\<forall>a. a \<noteq> cr_source q \<longrightarrow> a \<noteq> cr_destination q \<longrightarrow> view s' a = view s a)"
proof -
  have cr: "reads (te_fs T) view I" and cd: "removes view I" using c by (simp_all add: store_contract_def)
  obtain b s1 where p: "probe I emulated_rename_available (cr_source q) (cr_extensions q) s = (b, s1)" by fastforce
  have v1: "view s1 = view s" using probe_view[OF cr p] .
  obtain r2 s2 where l: "fallback_copy T I q s1 = (r2, s2)" by fastforce
  note w = fallback_copy_whole[OF c l]
  let ?d = "\<lparr>dr_address = cr_source q, dr_if_match = co_if_source (cr_options q), dr_extensions = cr_extensions q\<rparr>"
  obtain r3 s3 where d: "lower_delete I ?d s2 = (r3, s3)" by fastforce
  have del: "(\<forall>a. a \<noteq> cr_source q \<longrightarrow> view s3 a = view s2 a) \<and>
     (r3 = Inr () \<or> r3 = Inl Err_NotFound \<longrightarrow> view s3 (cr_source q) = None)"
    using cd d unfolding removes_def by fastforce
  consider "\<not> b" "r = Inl Err_Unsupported" "s' = s1"
    | e where "b" "r = Inl e" "s' = s2"
    | wr where "b" "r2 = Inr (Write_Done wr)" "r = Inr ()" "r3 = Inr () \<or> r3 = Inl Err_NotFound" "s' = s3"
    | wr where "b" "r2 = Inr (Write_Done wr)" "r = Inl Err_CommitAmbiguous" "s' = s3"
    using t p l d ne
    by (auto simp: emulated_rename_def names_same_object_def split: if_splits sum.splits write_step.splits)
  then show ?thesis
  proof cases
    case 1
    then show ?thesis using v1 by simp
  next
    case 2
    then show ?thesis using v1 w ne by simp
  next
    case 3
    then show ?thesis using v1 w ne del by simp
  next
    case 4
    then show ?thesis using v1 w ne del by simp
  qed
qed

section \<open>Properties\<close>

text \<open>C6. An emulated rename never loses the object. When the layer below does not perform the
  rename itself, then on success the destination holds exactly the source's content and the
  source is gone; on an error the source is untouched, or the error is \<open>CommitAmbiguous\<close> and
  the destination holds the content; no other address changes; and a rename of an object onto
  itself is refused with the store unchanged.\<close>

theorem rename_never_loses_data:
  assumes "store_contract (te_fs T) view I" "declines_rename I q s" "fallback_rename T I q s = (r, s')"
  shows "if cr_source q = cr_destination q then r = Inl Err_InvalidArgument \<and> view s' = view s
    else (case r of
        Inr _ \<Rightarrow> view s' (cr_source q) = None \<and> view s' (cr_destination q) = view s (cr_source q)
      | Inl e \<Rightarrow> view s' (cr_source q) = view s (cr_source q) \<or>
          e = Err_CommitAmbiguous \<and> view s' (cr_destination q) = view s (cr_source q)) \<and>
      (\<forall>a. a \<noteq> cr_source q \<longrightarrow> a \<noteq> cr_destination q \<longrightarrow> view s' a = view s a)"
proof -
  obtain s1 where s1: "view s1 = view s" "emulated_rename T I q s1 = (r, s')"
    using fallback_rename_declined[OF assms(1,2)] assms(3) by metis
  note o = emulated_rename_outcome[OF assms(1) s1(2)]
  have same: "cr_source q = cr_destination q \<Longrightarrow> r = Inl Err_InvalidArgument \<and> view s' = view s"
    using s1 by (simp add: emulated_rename_def names_same_object_def same_object_error_def)
  show ?thesis using o same s1(1) by (auto split: sum.split)
qed

text \<open>A store in memory that declines copies and renames, to run the wrapper on.\<close>

definition mem_info :: "url \<Rightarrow> string \<Rightarrow> object_info" where
  "mem_info a d =
     \<lparr>oi_address = a, oi_kind = Kind_File, oi_etag = None, oi_etag_strength = Etag_Unspecified, oi_version = None,
      oi_size = Some (length d), oi_mtime = None, oi_checksums = [], oi_effective_permissions = None,
      oi_system_metadata = None, oi_user_metadata = None, oi_modified_by = None, oi_versioned_address = None\<rparr>"

type_synonym mem = "(url \<times> string) list"

definition mem_read :: "read_request \<Rightarrow> mem \<Rightarrow> read_result result \<times> mem" where
  "mem_read q m =
     (case map_of m (rd_address q) of
        None \<Rightarrow> (Inl Err_NotFound, m)
      | Some d \<Rightarrow> (Inr (Read_Stream [Inr (take 2 d), Inr (drop 2 d)] (mem_info (rd_address q) d)), m))"

definition mem_write :: "put_request \<Rightarrow> mem \<Rightarrow> write_result result \<times> mem" where
  "mem_write q m =
     (case body_data (put_body q) of
        None \<Rightarrow> (Inl Err_Internal, m)
      | Some d \<Rightarrow> (Inr \<lparr>res_info = mem_info (put_address q) d\<rparr>, (put_address q, d) # m))"

definition mem_delete :: "delete_request \<Rightarrow> mem \<Rightarrow> unit result \<times> mem" where
  "mem_delete q m = (Inr (), filter (\<lambda>(a, d). a \<noteq> dr_address q) m)"

definition mem_layer :: "mem lower_layer" where
  "mem_layer =
     \<lparr>lower_root_info_for = (\<lambda>a x m. (Inl Err_NoRoute, m)),
      lower_list_address_roots = (\<lambda>x m. (Inl Err_Unsupported, m)),
      lower_read = mem_read, lower_write = mem_write, lower_write_stream = mem_write,
      lower_copy = (\<lambda>q m. (Inl Err_Unsupported, m)), lower_rename = (\<lambda>q m. (Inl Err_Unsupported, m)),
      lower_delete = mem_delete\<rparr>"

definition no_fs :: filesystem where
  "no_fs = \<lparr>fs_metadata_len = (\<lambda>_. Inl Io_NotFound), fs_read = (\<lambda>_. Inl Io_NotFound), fs_open = (\<lambda>_. Inl Io_NotFound)\<rparr>"

definition mem_env :: transfer_env where
  "mem_env = \<lparr>te_fs = no_fs, te_cancelled = None, te_dies = None, te_max_buffered_bytes = None\<rparr>"

lemma map_of_filter_neq: "map_of (filter (\<lambda>(x, d). x \<noteq> b) m) a = (if a = b then None else map_of m a)"
  by (induction m) auto

lemma mem_layer_contract: "store_contract FS map_of mem_layer"
proof -
  have "reads FS map_of mem_layer"
    by (auto simp: reads_def mem_layer_def mem_read_def delivers_def split: option.splits)
  moreover have "stores map_of mem_write"
    by (auto simp: stores_def mem_write_def split: option.splits)
  moreover have "copies map_of mem_layer" "removes map_of mem_layer"
    by (auto simp: copies_def removes_def mem_layer_def mem_delete_def map_of_filter_neq)
  ultimately show ?thesis by (simp add: store_contract_def) (simp add: mem_layer_def)
qed

definition mem_request :: copy_request where
  "mem_request =
     \<lparr>cr_source = base_url ''s3'' (Some ''b'') ''/a'', cr_destination = base_url ''s3'' (Some ''b'') ''/z'',
      cr_options = \<lparr>co_if_source = None, co_if_dest = Dest_Overwrite, co_message = None\<rparr>,
      cr_extensions = (\<lambda>_. None)\<rparr>"

definition mem_start :: mem where
  "mem_start = [(base_url ''s3'' (Some ''b'') ''/a'', ''data'')]"

theorem rename_never_loses_data_witness:
  "fst (fallback_rename mem_env mem_layer mem_request mem_start) = Inr () \<and>
   map_of (snd (fallback_rename mem_env mem_layer mem_request mem_start)) (cr_destination mem_request) = Some ''data''"
proof -
  have r: "fst (fallback_rename mem_env mem_layer mem_request mem_start) = Inr ()" by code_simp
  have d: "declines_rename mem_layer mem_request mem_start" by code_simp
  have ne: "cr_source mem_request \<noteq> cr_destination mem_request" by code_simp
  have "map_of mem_start (cr_source mem_request) = Some ''data''" by code_simp
  with rename_never_loses_data[OF mem_layer_contract d surjective_pairing, of mem_env] ne r show ?thesis by simp
qed

text \<open>A copy that succeeds has put exactly the source's content at the destination, whether
  the layer below did it or the wrapper streamed or buffered it; a copy changes no other
  address, whatever happens. A source that fails in the middle, a cancellation and a drain
  task that dies never leave a truncated destination behind a success.\<close>

theorem copy_transfers_whole_object:
  assumes "store_contract (te_fs T) view I" "fallback_copy T I q s = (r, s')"
  shows "(\<forall>w. r = Inr (Write_Done w) \<longrightarrow> view s' (cr_destination q) = view s (cr_source q)) \<and>
    (\<forall>a. a \<noteq> cr_destination q \<longrightarrow> view s' a = view s a)"
  using fallback_copy_whole[OF assms] by blast

theorem copy_transfers_whole_object_witness:
  "map_of (snd (fallback_copy mem_env mem_layer mem_request mem_start)) (cr_destination mem_request) = Some ''data''"
proof -
  have "(case fst (fallback_copy mem_env mem_layer mem_request mem_start) of Inr (Write_Done w) \<Rightarrow> True | _ \<Rightarrow> False)"
    by code_simp
  then obtain w where w: "fst (fallback_copy mem_env mem_layer mem_request mem_start) = Inr (Write_Done w)"
    by (auto split: sum.splits write_step.splits)
  have "map_of mem_start (cr_source mem_request) = Some ''data''" by code_simp
  with copy_transfers_whole_object[OF mem_layer_contract surjective_pairing, of mem_env mem_request mem_start] w show ?thesis by simp
qed

lemma drain_bounded:
  "drain_to_bytes (Some cap) had moved out items = Inr bytes \<Longrightarrow> cap < 2 ^ 63 \<Longrightarrow> length out \<le> cap \<Longrightarrow>
   length bytes \<le> cap"
  by (induction "Some cap" had moved out items rule: drain_to_bytes.induct)
     (auto simp: ensure_within_cap_def u64_saturating_add_def split: sum.splits if_splits)

lemma drain_over_cap:
  "clean items \<Longrightarrow> cap < length out + length (chunks_of items) \<Longrightarrow> length out \<le> cap \<Longrightarrow> cap < 2 ^ 63 \<Longrightarrow>
   drain_to_bytes (Some cap) had moved out items = Inl Err_ResourceExhausted"
proof (induction items arbitrary: out moved)
  case (Cons item items)
  then show ?case
    by (cases item) (auto simp: ensure_within_cap_def u64_saturating_add_def buffered_transfer_cap_error_def)
qed simp

lemma drain_error:
  "drain_to_bytes None had moved out (map Inr chunks @ Inl e # rest) =
     Inl (as_pre_write_precondition e (had \<and> \<not> moved \<and> concat chunks = []))"
  by (induction chunks arbitrary: out moved) (auto simp: ensure_within_cap_def)

text \<open>A buffered transfer holds at most the configured cap: on a source the layer below gives
  as bytes or as a stream, a result of \<open>read_to_bytes\<close> is no longer than the cap, and a stream
  longer than it ends in \<open>ResourceExhausted\<close>.\<close>

theorem buffered_transfer_bounded:
  assumes "cap < 2 ^ 63"
    and "lower_read I (source_read_request address if_match x (Some cap)) s = (Inr result, s')"
  shows "((result = Read_Bytes b info \<or> result = Read_Stream items info) \<and>
        read_to_bytes T I address if_match x (Some cap) s = (Inr bytes, s'') \<longrightarrow> length bytes \<le> cap) \<and>
    (result = Read_Stream items info \<and> clean items \<and> cap < length (chunks_of items) \<longrightarrow>
        read_to_bytes T I address if_match x (Some cap) s = (Inl Err_ResourceExhausted, s'))"
proof (intro conjI impI; elim conjE)
  show "length bytes \<le> cap" if "result = Read_Bytes b info \<or> result = Read_Stream items info"
    "read_to_bytes T I address if_match x (Some cap) s = (Inr bytes, s'')"
    using that assms drain_bounded[of cap "if_match \<noteq> None" False "[]" items bytes]
    by (auto simp: read_to_bytes_def result_to_bytes_def Let_def ensure_within_cap_def split: sum.splits if_splits)
  show "read_to_bytes T I address if_match x (Some cap) s = (Inl Err_ResourceExhausted, s')"
    if "result = Read_Stream items info" "clean items" "cap < length (chunks_of items)"
    using that assms drain_over_cap[of items cap "[]" "if_match \<noteq> None" False]
    by (auto simp: read_to_bytes_def result_to_bytes_def Let_def refuse_known_size_over_cap_def
        buffered_transfer_cap_error_def split: sum.splits option.splits)
qed

theorem buffered_transfer_bounded_witness:
  "read_to_bytes mem_env mem_layer (cr_source mem_request) None (\<lambda>_. None) (Some 3) mem_start =
     (Inl Err_ResourceExhausted, mem_start)"
proof (rule buffered_transfer_bounded[where items = "[Inr ''da'', Inr ''ta'']", THEN conjunct2, THEN mp])
  show "lower_read mem_layer (source_read_request (cr_source mem_request) None (\<lambda>_. None) (Some 3)) mem_start =
      (Inr (Read_Stream [Inr ''da'', Inr ''ta''] (mem_info (cr_source mem_request) ''data'')), mem_start)"
    by (simp add: mem_layer_def mem_read_def source_read_request_def mem_start_def mem_request_def)
qed simp_all

text \<open>A failed conditional copy reports alike whether the layer below or the wrapper does it:
  a source that reports \<open>ObjectModified\<close> before any byte has moved ends in
  \<open>PreconditionFailed\<close> when the caller gave \<open>if_source\<close>, even if the source checks as late as the
  first items of its stream; once a byte has moved, or without the precondition, it stays
  \<open>ObjectModified\<close>.\<close>

theorem conditional_copy_error_exact:
  assumes "lower_read I (source_read_request address if_match x None) s =
      (Inr (Read_Stream (map Inr chunks @ Inl Err_ObjectModified # rest) info), s')"
  shows "read_to_bytes T I address if_match x None s =
    (Inl (if if_match \<noteq> None \<and> concat chunks = [] then Err_PreconditionFailed else Err_ObjectModified), s')"
  using assms
  by (auto simp: read_to_bytes_def result_to_bytes_def refuse_known_size_over_cap_def drain_error
      as_pre_write_precondition_def)

definition modified_layer :: "mem lower_layer" where
  "modified_layer = mem_layer\<lparr>lower_read :=
     (\<lambda>q m. (Inr (Read_Stream [Inr [], Inl Err_ObjectModified] (mem_info (rd_address q) [])), m))\<rparr>"

theorem conditional_copy_error_exact_witness:
  "read_to_bytes mem_env modified_layer (cr_source mem_request) (Some ''v1'') (\<lambda>_. None) None mem_start =
     (Inl Err_PreconditionFailed, mem_start)"
  using conditional_copy_error_exact[where I = modified_layer and chunks = "[[]]" and rest = "[]"
      and address = "cr_source mem_request" and if_match = "Some ''v1''" and x = "\<lambda>_. None" and s = mem_start
      and s' = mem_start and info = "mem_info (cr_source mem_request) []" and T = mem_env]
  by (simp add: modified_layer_def source_read_request_def)

end
