(* ===== verification/Ov_Alias.thy ===== *)
theory Ov_Alias
  imports Ov_Projection Ov_Fallback Ov_Transfer
begin

text \<open>
  The alias layer (\<open>ovstorage-plugin-core/src/alias.rs\<close>): rules that rewrite an address prefix
  onto another, followed in a bounded chain, the projection of results back to the caller's
  spelling, address visibility, and the roots a stack with aliases advertises.

  The layer below is a parameter: its \<open>root_info_for\<close>, which the walk asks at every hop, and the
  verb that is called with the rewritten address. The TOML decoder is a parameter too. A rule set
  is a value here, as a reader of the code sees it; \<open>Ov_Alias_Rules\<close> has the operations that change it.
\<close>

section \<open>Rules and their configuration\<close>

type_synonym alias_pair = "url \<times> url"
type_synonym visibility_pair = "url \<times> address_visibility"

definition parse_url :: "url_crate \<Rightarrow> string \<Rightarrow> url result" where
  "parse_url C txt =
     (if refused_config_component txt \<noteq> None then Inl Err_InvalidArgument
      else case parse C txt of Inl e \<Rightarrow> Inl Err_InvalidArgument | Inr u \<Rightarrow> Inr u)"

fun collect_results :: "('a \<Rightarrow> 'b result) \<Rightarrow> 'a list \<Rightarrow> 'b list result" where
  "collect_results f [] = Inr []"
| "collect_results f (x # xs) =
     (case f x of
        Inl e \<Rightarrow> Inl e
      | Inr y \<Rightarrow> (case collect_results f xs of Inl e \<Rightarrow> Inl e | Inr ys \<Rightarrow> Inr (y # ys)))"

definition parse_prefix_pair :: "url_crate \<Rightarrow> string \<times> string \<Rightarrow> alias_pair result" where
  "parse_prefix_pair C rule =
     (case parse_url C (fst rule) of
        Inl e \<Rightarrow> Inl e
      | Inr from \<Rightarrow> (case parse_url C (snd rule) of Inl e \<Rightarrow> Inl e | Inr to \<Rightarrow> Inr (from, to)))"

definition parse_prefix_rules ::
    "url_crate \<Rightarrow> (string \<Rightarrow> (string \<times> string) list option) \<Rightarrow> layer_config \<Rightarrow> string \<Rightarrow> alias_pair list result" where
  "parse_prefix_rules C toml config k =
     (case config k of
        None \<Rightarrow> Inr []
      | Some (Config_Toml txt) \<Rightarrow>
          (case toml txt of None \<Rightarrow> Inl Err_InvalidArgument | Some rules \<Rightarrow> collect_results (parse_prefix_pair C) rules)
      | Some _ \<Rightarrow> Inl Err_InvalidArgument)"

definition parse_visibility_rules ::
    "url_crate \<Rightarrow> (string \<Rightarrow> (string \<times> address_visibility) list option) \<Rightarrow> layer_config \<Rightarrow> string \<Rightarrow>
     visibility_pair list result" where
  "parse_visibility_rules C toml config k =
     (case config k of
        None \<Rightarrow> Inr []
      | Some (Config_Toml txt) \<Rightarrow>
          (case toml txt of
             None \<Rightarrow> Inl Err_InvalidArgument
           | Some entries \<Rightarrow>
               collect_results (\<lambda>(a, v). case parse_url C a of Inl e \<Rightarrow> Inl e | Inr u \<Rightarrow> Inr (u, v)) entries)
      | Some _ \<Rightarrow> Inl Err_InvalidArgument)"

record alias_rule =
  ar_id :: string
  ar_from :: url
  ar_to :: url
  ar_source :: alias_source
  ar_display_name :: "string option"
  ar_user_metadata :: "string \<rightharpoonup> string"
  ar_visibility :: "address_visibility option"
  ar_derived_from :: "(string \<times> string) option"

record visibility_override =
  vo_id :: string
  vo_address :: url
  vo_visibility :: address_visibility
  vo_source :: alias_source
  vo_display_name :: "string option"
  vo_user_metadata :: "string \<rightharpoonup> string"

record rule_set =
  rs_aliases :: "alias_rule list"
  rs_visibility :: "visibility_override list"

definition alias_pairs :: "rule_set \<Rightarrow> alias_pair list" where
  "alias_pairs R = map (\<lambda>r. (ar_from r, ar_to r)) (rs_aliases R)"

definition alias_pairs_for :: "rule_set \<Rightarrow> url \<Rightarrow> alias_pair list" where
  "alias_pairs_for R addr =
     (if generated_rule_may_answer addr then alias_pairs R
      else map (\<lambda>r. (ar_from r, ar_to r)) (filter (\<lambda>r. ar_derived_from r = None) (rs_aliases R)))"

definition contains_id :: "rule_set \<Rightarrow> string \<Rightarrow> bool" where
  "contains_id R i \<longleftrightarrow> list_ex (\<lambda>r. ar_id r = i) (rs_aliases R) \<or> list_ex (\<lambda>r. vo_id r = i) (rs_visibility R)"

section \<open>Chains\<close>

definition MAX_ALIAS_HOPS :: nat where "MAX_ALIAS_HOPS = 8"

type_synonym specificity = "nat \<times> bool"

definition specificity_of :: "url \<Rightarrow> specificity" where
  "specificity_of u = node_rank u"

definition longest_matching_rule :: "alias_pair list \<Rightarrow> url \<Rightarrow> alias_pair option" where
  "longest_matching_rule rules addr =
     max_by_key (\<lambda>(from, to). specificity_of from) (filter (\<lambda>(from, to). is_ancestor_or_self from addr) rules)"

record resolved_address =
  res_address :: url
  res_hops :: "alias_pair list"
  res_first_hop_source :: "alias_source option"
  res_visibility :: "visibility_pair list"

text \<open>
  The loop of \<open>walk_chain\<close>. \<open>left\<close> is \<open>MAX_ALIAS_HOPS - hops.len()\<close>, so the cap is hit at 0;
  \<open>seen\<close> holds the serialized addresses visited.
\<close>

fun walk_loop ::
    "url_crate \<Rightarrow> alias_pair list \<Rightarrow> (url \<Rightarrow> specificity option) \<Rightarrow> nat \<Rightarrow> url \<Rightarrow> alias_pair list \<Rightarrow> string list \<Rightarrow>
     (url \<times> alias_pair list) result" where
  "walk_loop C rules root_rank_for left current hops seen =
     (case longest_matching_rule rules current of
        None \<Rightarrow> Inr (current, hops)
      | Some (from, to) \<Rightarrow>
          (if (case root_rank_for current of Some rank \<Rightarrow> specificity_of from \<le> rank | None \<Rightarrow> False)
           then Inr (current, hops)
           else case left of
                  0 \<Rightarrow> Inl Err_AliasChainTooLong
                | Suc n \<Rightarrow>
                    (if crate_as_str C current \<in> set seen then Inl Err_AliasChainTooLong
                     else case replace_prefix C current from to of
                            Inl e \<Rightarrow> Inl e
                          | Inr following \<Rightarrow>
                              walk_loop C rules root_rank_for n following (hops @ [(from, to)])
                                (crate_as_str C current # seen))))"

declare walk_loop.simps [simp del]

definition walk_chain ::
    "url_crate \<Rightarrow> alias_pair list \<Rightarrow> url \<Rightarrow> (url \<Rightarrow> specificity option) \<Rightarrow> resolved_address result" where
  "walk_chain C rules start root_rank_for =
     (case walk_loop C rules root_rank_for MAX_ALIAS_HOPS start [] [] of
        Inl e \<Rightarrow> Inl e
      | Inr (address, hops) \<Rightarrow>
          Inr \<lparr>res_address = address, res_hops = hops, res_first_hop_source = None, res_visibility = []\<rparr>)"

fun validate_alias_loop :: "url_crate \<Rightarrow> alias_pair list \<Rightarrow> node_key list \<Rightarrow> alias_pair list \<Rightarrow> unit result" where
  "validate_alias_loop C rules seen [] = Inr ()"
| "validate_alias_loop C rules seen ((start, to) # rest) =
     (if url_cannot_be_a_base start \<or> url_query start \<noteq> None then Inl Err_InvalidArgument
      else if url_cannot_be_a_base to \<or> url_query to \<noteq> None then Inl Err_InvalidArgument
      else if url_username start \<noteq> [] \<or> url_password start \<noteq> None then Inl Err_InvalidArgument
      else if node_key start \<in> set seen then Inl Err_InvalidArgument
      else case walk_chain C rules start (\<lambda>_. None) of
             Inl e \<Rightarrow> Inl e
           | Inr _ \<Rightarrow> validate_alias_loop C rules (node_key start # seen) rest)"

definition validate_alias_rules :: "url_crate \<Rightarrow> alias_pair list \<Rightarrow> unit result" where
  "validate_alias_rules C rules = validate_alias_loop C rules [] rules"

fun validate_visibility_loop :: "node_key list \<Rightarrow> visibility_pair list \<Rightarrow> unit result" where
  "validate_visibility_loop seen [] = Inr ()"
| "validate_visibility_loop seen ((prefx, v) # rest) =
     (if v = Vis_Visible \<and> (url_username prefx \<noteq> [] \<or> url_password prefx \<noteq> None) then Inl Err_InvalidArgument
      else if url_query prefx \<noteq> None then Inl Err_InvalidArgument
      else if node_key prefx \<in> set seen then Inl Err_InvalidArgument
      else validate_visibility_loop (node_key prefx # seen) rest)"

definition validate_visibility_rules :: "visibility_pair list \<Rightarrow> unit result" where
  "validate_visibility_rules rules = validate_visibility_loop [] rules"

section \<open>Projecting results back\<close>

definition inverse_chain :: "alias_pair list \<Rightarrow> alias_pair list" where
  "inverse_chain hops = map (\<lambda>(from, to). (to, from)) (rev hops)"

fun project_back :: "url_crate \<Rightarrow> alias_pair list \<Rightarrow> url \<Rightarrow> url result" where
  "project_back C [] addr = Inr addr"
| "project_back C ((to, from) # chain) addr =
     (if is_ancestor_or_self to addr then
        (case replace_prefix C addr to from of Inl e \<Rightarrow> Inl e | Inr u \<Rightarrow> project_back C chain u)
      else project_back C chain addr)"

definition project_pin :: "url_crate \<Rightarrow> alias_pair list \<Rightarrow> url option \<Rightarrow> url option result" where
  "project_pin C chain pin =
     (case pin of
        None \<Rightarrow> Inr None
      | Some u \<Rightarrow> (case project_back C chain u of Inl e \<Rightarrow> Inl e | Inr v \<Rightarrow> Inr (Some v)))"

definition project_info :: "url_crate \<Rightarrow> alias_pair list \<Rightarrow> object_info \<Rightarrow> object_info result" where
  "project_info C chain info =
     (case project_back C chain (oi_address info) of
        Inl e \<Rightarrow> Inl e
      | Inr a \<Rightarrow>
          (case project_pin C chain (oi_versioned_address info) of
             Inl e \<Rightarrow> Inl e
           | Inr pin \<Rightarrow> Inr (info\<lparr>oi_address := a, oi_versioned_address := pin\<rparr>)))"

definition project_delegate :: "url_crate \<Rightarrow> alias_pair list \<Rightarrow> local_delegate \<Rightarrow> local_delegate result" where
  "project_delegate C chain delegate =
     (case project_info C chain (ld_info delegate) of
        Inl e \<Rightarrow> Inl e | Inr info \<Rightarrow> Inr (delegate\<lparr>ld_info := info\<rparr>))"

definition project_read_result :: "url_crate \<Rightarrow> alias_pair list \<Rightarrow> read_result \<Rightarrow> read_result result" where
  "project_read_result C chain result =
     (case result of
        Read_Bytes bytes info \<Rightarrow>
          (case project_info C chain info of Inl e \<Rightarrow> Inl e | Inr i \<Rightarrow> Inr (Read_Bytes bytes i))
      | Read_Stream items info \<Rightarrow>
          (case project_info C chain info of Inl e \<Rightarrow> Inl e | Inr i \<Rightarrow> Inr (Read_Stream items i))
      | Read_LocalDelegate delegate \<Rightarrow>
          (case project_delegate C chain delegate of Inl e \<Rightarrow> Inl e | Inr d \<Rightarrow> Inr (Read_LocalDelegate d))
      | Read_Redirect r \<Rightarrow> Inr (Read_Redirect r))"

definition project_write_result :: "url_crate \<Rightarrow> alias_pair list \<Rightarrow> write_result \<Rightarrow> write_result result" where
  "project_write_result C chain result =
     (case project_info C chain (res_info result) of
        Inl e \<Rightarrow> Inl e | Inr info \<Rightarrow> Inr (result\<lparr>res_info := info\<rparr>))"

definition project_write_step :: "url_crate \<Rightarrow> alias_pair list \<Rightarrow> write_step \<Rightarrow> write_step result" where
  "project_write_step C chain step =
     (case step of
        Write_Done result \<Rightarrow>
          (case project_write_result C chain result of Inl e \<Rightarrow> Inl e | Inr r \<Rightarrow> Inr (Write_Done r))
      | Write_Redirects batch \<Rightarrow> Inr (Write_Redirects batch))"

definition project_items :: "url_crate \<Rightarrow> alias_pair list \<Rightarrow> object_info list \<Rightarrow> object_info list result" where
  "project_items C chain items = collect_results (project_info C chain) items"

definition project_page :: "url_crate \<Rightarrow> alias_pair list \<Rightarrow> list_page \<Rightarrow> list_page result" where
  "project_page C chain page =
     (case project_items C chain (page_items page) of
        Inl e \<Rightarrow> Inl e | Inr items \<Rightarrow> Inr (page\<lparr>page_items := items\<rparr>))"

definition and_then_item :: "('a \<Rightarrow> 'b result) \<Rightarrow> 'a result \<Rightarrow> 'b result" where
  "and_then_item f item = (case item of Inl e \<Rightarrow> Inl e | Inr x \<Rightarrow> f x)"

definition project_event :: "url_crate \<Rightarrow> alias_pair list \<Rightarrow> 'e change_event \<Rightarrow> 'e change_event result" where
  "project_event C chain event =
     (case event of
        Event_Object a x \<Rightarrow> (case project_back C chain a of Inl e \<Rightarrow> Inl e | Inr u \<Rightarrow> Inr (Event_Object u x))
      | Event_Lapsed x \<Rightarrow> Inr (Event_Lapsed x))"

definition project_change_stream ::
    "url_crate \<Rightarrow> alias_pair list \<Rightarrow> 'e change_event stream \<Rightarrow> 'e change_event stream" where
  "project_change_stream C chain items = map (and_then_item (project_event C chain)) items"

section \<open>Visibility\<close>

definition visibility_of_in :: "visibility_pair list \<Rightarrow> url \<Rightarrow> address_visibility" where
  "visibility_of_in rules addr =
     (case max_by_key (\<lambda>(p, v). specificity_of p) (filter (\<lambda>(p, v). is_ancestor_or_self p addr) rules) of
        Some (p, v) \<Rightarrow> v
      | None \<Rightarrow> Vis_Visible)"

fun most_restrictive_visibility :: "address_visibility \<Rightarrow> address_visibility \<Rightarrow> address_visibility" where
  "most_restrictive_visibility Vis_Suppressed r = Vis_Suppressed"
| "most_restrictive_visibility l Vis_Suppressed = Vis_Suppressed"
| "most_restrictive_visibility Vis_Hidden r = Vis_Hidden"
| "most_restrictive_visibility l Vis_Hidden = Vis_Hidden"
| "most_restrictive_visibility Vis_Visible Vis_Visible = Vis_Visible"

definition intrinsic :: "alias_rule \<Rightarrow> visibility_pair option" where
  "intrinsic r = map_option (\<lambda>v. (ar_from r, v)) (ar_visibility r)"

definition visibility_pairs :: "rule_set \<Rightarrow> visibility_pair list" where
  "visibility_pairs R =
     (let authored_alias = List.map_filter intrinsic (filter (\<lambda>r. ar_derived_from r = None) (rs_aliases R));
          standalone = map (\<lambda>r. (vo_address r, vo_visibility r)) (rs_visibility R);
          derived = List.map_filter intrinsic (filter (\<lambda>r. ar_derived_from r \<noteq> None) (rs_aliases R));
          ceiling = foldl most_restrictive_visibility Vis_Visible (map snd (authored_alias @ standalone));
          needs_fold = list_ex (\<lambda>r. ar_derived_from r \<noteq> None \<and>
                          (case ar_visibility r of
                             Some v \<Rightarrow> most_restrictive_visibility v ceiling \<noteq> v | None \<Rightarrow> False)) (rs_aliases R);
          authored = authored_alias @ standalone
      in authored_alias @
         (if needs_fold
          then map (\<lambda>(from, v). (from, most_restrictive_visibility v (visibility_of_in authored from))) derived
          else derived) @
         standalone)"

section \<open>Advertised roots\<close>

definition ALIAS_KIND :: string where "ALIAS_KIND = ''alias''"

definition bare_alias_root :: "url \<Rightarrow> root_info" where
  "bare_alias_root from =
     \<lparr>ri_root = from, ri_display_name = None, ri_layer_kind = ALIAS_KIND, ri_connection_id = None,
      ri_owning_target = None, ri_capabilities = capabilities_empty, ri_range_read_strategy = Range_Unsupported,
      ri_source = Source_Static Layer_Programmatic, ri_visible = True, ri_visibility = Vis_Visible,
      ri_alias_state = None, ri_icon = None, ri_user_metadata = Map.empty\<rparr>"

definition covering :: "root_info list \<Rightarrow> url \<Rightarrow> root_info option" where
  "covering roots addr =
     max_by_key (\<lambda>r. specificity_of (ri_root r)) (filter (\<lambda>r. is_ancestor_or_self (ri_root r) addr) roots)"

definition chain_terminal ::
    "url_crate \<Rightarrow> alias_pair list \<Rightarrow> root_info list \<Rightarrow> url \<Rightarrow> root_info option \<times> alias_state" where
  "chain_terminal C rules roots target =
     (case walk_chain C rules target (\<lambda>a. map_option (\<lambda>r. specificity_of (ri_root r)) (covering roots a)) of
        Inr resolved \<Rightarrow>
          (case covering roots (res_address resolved) of
             Some root \<Rightarrow> (Some root, Alias_Live)
           | None \<Rightarrow> (None, Alias_Dangling))
      | Inl e \<Rightarrow> (None, Alias_ChainTooLong e))"

record alias_projection =
  ap_from :: url
  ap_to :: url
  ap_source :: alias_source
  ap_display_name :: "string option"
  ap_user_metadata :: "string \<rightharpoonup> string"

definition alias_projections :: "rule_set \<Rightarrow> alias_projection list" where
  "alias_projections R =
     map (\<lambda>r. \<lparr>ap_from = ar_from r, ap_to = ar_to r, ap_source = ar_source r,
               ap_display_name = ar_display_name r, ap_user_metadata = ar_user_metadata r\<rparr>) (rs_aliases R)"

definition mark_visibility :: "address_visibility \<Rightarrow> root_info \<Rightarrow> root_info" where
  "mark_visibility v root = root\<lparr>ri_visibility := v, ri_visible := (v = Vis_Visible)\<rparr>"

definition synthesize_alias_root ::
    "alias_projection \<Rightarrow> root_info option \<Rightarrow> alias_state \<Rightarrow> address_visibility \<Rightarrow> root_info" where
  "synthesize_alias_root al terminal state v =
     (let root = (case terminal of Some target \<Rightarrow> target | None \<Rightarrow> bare_alias_root (ap_from al)) in
      mark_visibility v
        (root\<lparr>ri_root := ap_from al, ri_source := Source_Alias (ap_to al) (ap_source al),
              ri_owning_target := None, ri_alias_state := Some state,
              ri_display_name := (if ap_display_name al \<noteq> None then ap_display_name al else ri_display_name root),
              ri_user_metadata := ri_user_metadata root ++ ap_user_metadata al\<rparr>))"

definition projection_pairs :: "alias_projection list \<Rightarrow> alias_pair list" where
  "projection_pairs aliases = map (\<lambda>al. (ap_from al, ap_to al)) aliases"

definition advertised_alias ::
    "url_crate \<Rightarrow> alias_pair list \<Rightarrow> visibility_pair list \<Rightarrow> root_info list \<Rightarrow> alias_projection \<Rightarrow> root_info option" where
  "advertised_alias C pairs vis roots al =
     (let v = visibility_of_in vis (ap_from al) in
      if v = Vis_Suppressed then None
      else case chain_terminal C pairs roots (ap_to al) of
             (terminal, state) \<Rightarrow>
               (if state = Alias_Live then Some (synthesize_alias_root al terminal state v) else None))"

definition effective_visibility :: "visibility_pair list \<Rightarrow> root_info \<Rightarrow> address_visibility" where
  "effective_visibility vis root =
     most_restrictive_visibility (ri_visibility root) (visibility_of_in vis (ri_root root))"

definition retained_root :: "visibility_pair list \<Rightarrow> root_info \<Rightarrow> root_info option" where
  "retained_root vis root =
     (let v = effective_visibility vis root in
      if v = Vis_Suppressed then None else Some (mark_visibility v root))"

definition project_advertised_roots ::
    "url_crate \<Rightarrow> alias_projection list \<Rightarrow> visibility_pair list \<Rightarrow> root_info list \<Rightarrow> root_info list" where
  "project_advertised_roots C aliases vis roots =
     List.map_filter (retained_root vis) roots @
     List.map_filter (advertised_alias C (projection_pairs aliases) vis roots) aliases"

definition withdrawn_alias ::
    "url_crate \<Rightarrow> alias_pair list \<Rightarrow> visibility_pair list \<Rightarrow> root_info list \<Rightarrow> alias_projection \<Rightarrow> root_info option" where
  "withdrawn_alias C pairs vis removed al =
     (let v = visibility_of_in vis (ap_from al) in
      if v = Vis_Suppressed then None
      else case chain_terminal C pairs removed (ap_to al) of
             (Some terminal, state) \<Rightarrow> Some (synthesize_alias_root al (Some terminal) state v)
           | (None, state) \<Rightarrow> None)"

definition shielded ::
    "url_crate \<Rightarrow> alias_projection list \<Rightarrow> root_info list \<Rightarrow> root_info \<Rightarrow> bool" where
  "shielded C aliases surviving root \<longleftrightarrow>
     ri_alias_state root \<noteq> None \<and>
     list_ex (\<lambda>al. node_key (ap_from al) = node_key (ri_root root) \<and>
        snd (chain_terminal C (projection_pairs aliases) surviving (ap_to al)) = Alias_Live) aliases"

definition project_removed_roots ::
    "url_crate \<Rightarrow> alias_projection list \<Rightarrow> visibility_pair list \<Rightarrow> root_info list \<Rightarrow> root_info list \<Rightarrow> root_info list" where
  "project_removed_roots C aliases vis removed surviving =
     List.map_filter (withdrawn_alias C (projection_pairs aliases) vis removed) aliases @
     List.map_filter (\<lambda>root.
        let v = effective_visibility vis root in
        if v = Vis_Suppressed then None
        else if shielded C aliases surviving root then None
        else Some (mark_visibility v root)) removed"

fun upsert_inner_root :: "root_info list \<Rightarrow> root_info \<Rightarrow> root_info list" where
  "upsert_inner_root [] root = [root]"
| "upsert_inner_root (item # items) root =
     (if ri_root item = ri_root root then root # items else item # upsert_inner_root items root)"

definition upsert_inner_roots :: "root_info list \<Rightarrow> root_info list \<Rightarrow> root_info list" where
  "upsert_inner_roots current changed = foldl upsert_inner_root current changed"

definition project_root_change ::
    "url_crate \<Rightarrow> alias_projection list \<Rightarrow> visibility_pair list \<Rightarrow> root_info_change \<Rightarrow> root_info list \<Rightarrow>
     root_info_change \<times> root_info list" where
  "project_root_change C aliases vis change inner_roots =
     (case change of
        Change_Snapshot roots \<Rightarrow> (Change_Snapshot (project_advertised_roots C aliases vis roots), roots)
      | Change_Added roots \<Rightarrow>
          (Change_Added (project_advertised_roots C aliases vis roots), upsert_inner_roots inner_roots roots)
      | Change_Updated roots \<Rightarrow>
          (Change_Updated (project_advertised_roots C aliases vis roots), upsert_inner_roots inner_roots roots)
      | Change_Removed roots \<Rightarrow>
          (let surviving = filter (\<lambda>c. \<not> list_ex (\<lambda>r. ri_root r = ri_root c) roots) inner_roots in
           (Change_Removed (project_removed_roots C aliases vis roots surviving), surviving)))"

section \<open>Dispatch\<close>

type_synonym 's root_probe = "url \<Rightarrow> extensions \<Rightarrow> 's \<Rightarrow> root_info result \<times> 's"

text \<open>\<open>Extensions::new()\<close>.\<close>

definition no_extensions :: extensions where "no_extensions = Map.empty"

fun walk_async_loop ::
    "url_crate \<Rightarrow> 's root_probe \<Rightarrow> alias_pair list \<Rightarrow> nat \<Rightarrow> url \<Rightarrow> alias_pair list \<Rightarrow> string list \<Rightarrow> 's \<Rightarrow>
     (url \<times> alias_pair list) result \<times> 's" where
  "walk_async_loop C inner pairs left current hops seen s =
     (case longest_matching_rule pairs current of
        None \<Rightarrow> (Inr (current, hops), s)
      | Some (from, to) \<Rightarrow>
          (let (answer, s1) = inner current no_extensions s;
               covered = (case answer of
                            Inr info \<Rightarrow> is_ancestor_or_self (ri_root info) current \<and>
                                        specificity_of from \<le> specificity_of (ri_root info)
                          | Inl e \<Rightarrow> False)
           in if covered then (Inr (current, hops), s1)
              else case left of
                     0 \<Rightarrow> (Inl Err_AliasChainTooLong, s1)
                   | Suc n \<Rightarrow>
                       (if crate_as_str C current \<in> set seen then (Inl Err_AliasChainTooLong, s1)
                        else case replace_prefix C current from to of
                               Inl e \<Rightarrow> (Inl e, s1)
                             | Inr following \<Rightarrow>
                                 walk_async_loop C inner pairs n following (hops @ [(from, to)])
                                   (crate_as_str C current # seen) s1)))"

declare walk_async_loop.simps [simp del]

definition hop_source :: "rule_set \<Rightarrow> alias_pair list \<Rightarrow> alias_source option" where
  "hop_source R hops =
     (case hops of
        [] \<Rightarrow> None
      | (from, to) # _ \<Rightarrow> map_option ar_source (find (\<lambda>r. ar_from r = from \<and> ar_to r = to) (rs_aliases R)))"

definition walk_chain_async ::
    "url_crate \<Rightarrow> 's root_probe \<Rightarrow> rule_set \<Rightarrow> url \<Rightarrow> 's \<Rightarrow> resolved_address result \<times> 's" where
  "walk_chain_async C inner R addr s =
     (case walk_async_loop C inner (alias_pairs_for R addr) MAX_ALIAS_HOPS addr [] [] s of
        (Inl e, s') \<Rightarrow> (Inl e, s')
      | (Inr (address, hops), s') \<Rightarrow>
          (Inr \<lparr>res_address = address, res_hops = hops, res_first_hop_source = hop_source R hops,
                res_visibility = []\<rparr>, s'))"

definition alias_resolve ::
    "url_crate \<Rightarrow> 's root_probe \<Rightarrow> rule_set \<Rightarrow> url \<Rightarrow> 's \<Rightarrow> resolved_address result \<times> 's" where
  "alias_resolve C inner R addr s =
     (let vis = visibility_pairs R in
      if visibility_of_in vis addr = Vis_Suppressed then (Inl Err_NoRoute, s)
      else case walk_chain_async C inner R addr s of
             (Inl e, s') \<Rightarrow> (Inl e, s')
           | (Inr resolved, s') \<Rightarrow> (Inr (resolved\<lparr>res_visibility := vis\<rparr>), s'))"

text \<open>Every verb on one address: resolve, call below with the rewritten address, project back.\<close>

definition rewritten ::
    "(alias_pair list \<Rightarrow> 'r \<Rightarrow> 'r result) \<Rightarrow> url_crate \<Rightarrow> 's root_probe \<Rightarrow> (url \<Rightarrow> 'x \<Rightarrow> 's \<Rightarrow> 'r result \<times> 's) \<Rightarrow>
     rule_set \<Rightarrow> url \<Rightarrow> 'x \<Rightarrow> 's \<Rightarrow> 'r result \<times> 's" where
  "rewritten project C inner verb R addr x s =
     (case alias_resolve C inner R addr s of
        (Inl e, s1) \<Rightarrow> (Inl e, s1)
      | (Inr resolved, s1) \<Rightarrow>
          (case verb (res_address resolved) x s1 of
             (Inl e, s2) \<Rightarrow> (Inl e, s2)
           | (Inr r, s2) \<Rightarrow> (project (inverse_chain (res_hops resolved)) r, s2)))"

definition unprojected :: "alias_pair list \<Rightarrow> 'r \<Rightarrow> 'r result" where
  "unprojected chain r = Inr r"

record backend_item_info =
  bi_rest :: string
  bi_versioned_address :: "url option"

definition project_item_info :: "url_crate \<Rightarrow> alias_pair list \<Rightarrow> backend_item_info \<Rightarrow> backend_item_info result" where
  "project_item_info C chain info =
     (case project_pin C chain (bi_versioned_address info) of
        Inl e \<Rightarrow> Inl e | Inr pin \<Rightarrow> Inr (info\<lparr>bi_versioned_address := pin\<rparr>))"

definition alias_stat where "alias_stat C = rewritten (project_info C) C"
definition alias_read where "alias_read C = rewritten (project_read_result C) C"
definition alias_write where "alias_write C = rewritten (project_write_result C) C"
definition alias_write_stream where "alias_write_stream C = rewritten (project_write_result C) C"
definition alias_write_redirect where "alias_write_redirect C = rewritten unprojected C"
definition alias_continue_write where "alias_continue_write C = rewritten (project_write_step C) C"
definition alias_delete where "alias_delete C = rewritten unprojected C"
definition alias_update_metadata where "alias_update_metadata C = rewritten (project_item_info C) C"
definition alias_check_access where "alias_check_access C = rewritten unprojected C"
definition alias_materialize where "alias_materialize C = rewritten (project_delegate C) C"
definition alias_list where "alias_list C = rewritten (project_page C) C"
definition alias_list_versions where "alias_list_versions C = rewritten (project_page C) C"
definition alias_get_latest_version where "alias_get_latest_version C = rewritten (project_info C) C"
definition alias_create_directory where "alias_create_directory C = rewritten (project_item_info C) C"
definition alias_delete_directory where "alias_delete_directory C = rewritten unprojected C"
definition alias_watch_directory where
  "alias_watch_directory C = rewritten (\<lambda>chain events. Inr (project_change_stream C chain events)) C"

definition alias_list_stream ::
    "url_crate \<Rightarrow> 's root_probe \<Rightarrow> (url \<Rightarrow> list_request \<Rightarrow> 's \<Rightarrow> object_info stream result \<times> 's) \<Rightarrow>
     rule_set \<Rightarrow> url \<Rightarrow> list_request \<Rightarrow> 's \<Rightarrow> object_info stream result \<times> 's" where
  "alias_list_stream C inner verb R prefx request s =
     (if lr_max_results request \<noteq> None \<or> lr_page_token request \<noteq> None then (Inl Err_InvalidArgument, s)
      else rewritten (\<lambda>chain items. Inr (map (and_then_item (project_info C chain)) items)) C inner verb R prefx request s)"

definition alias_copy ::
    "url_crate \<Rightarrow> 's root_probe \<Rightarrow> (copy_request \<Rightarrow> 's \<Rightarrow> write_step result \<times> 's) \<Rightarrow> rule_set \<Rightarrow> copy_request \<Rightarrow> 's \<Rightarrow>
     write_step result \<times> 's" where
  "alias_copy C inner verb R request s =
     (case alias_resolve C inner R (cr_source request) s of
        (Inl e, s1) \<Rightarrow> (Inl e, s1)
      | (Inr source, s1) \<Rightarrow>
          (case alias_resolve C inner R (cr_destination request) s1 of
             (Inl e, s2) \<Rightarrow> (Inl e, s2)
           | (Inr destination, s2) \<Rightarrow>
               (case verb (request\<lparr>cr_source := res_address source, cr_destination := res_address destination\<rparr>) s2 of
                  (Inl e, s3) \<Rightarrow> (Inl e, s3)
                | (Inr step, s3) \<Rightarrow> (project_write_step C (inverse_chain (res_hops destination)) step, s3))))"

definition alias_rename ::
    "url_crate \<Rightarrow> 's root_probe \<Rightarrow> (copy_request \<Rightarrow> 's \<Rightarrow> unit result \<times> 's) \<Rightarrow> rule_set \<Rightarrow> copy_request \<Rightarrow> 's \<Rightarrow>
     unit result \<times> 's" where
  "alias_rename C inner verb R request s =
     (case alias_resolve C inner R (cr_source request) s of
        (Inl e, s1) \<Rightarrow> (Inl e, s1)
      | (Inr source, s1) \<Rightarrow>
          (case alias_resolve C inner R (cr_destination request) s1 of
             (Inl e, s2) \<Rightarrow> (Inl e, s2)
           | (Inr destination, s2) \<Rightarrow>
               verb (request\<lparr>cr_source := res_address source, cr_destination := res_address destination\<rparr>) s2))"

definition alias_root_info_for ::
    "url_crate \<Rightarrow> 's root_probe \<Rightarrow> rule_set \<Rightarrow> url \<Rightarrow> extensions \<Rightarrow> 's \<Rightarrow> root_info result \<times> 's" where
  "alias_root_info_for C inner R addr cx s =
     (case alias_resolve C inner R addr s of
        (Inl e, s1) \<Rightarrow> (Inl e, s1)
      | (Inr resolved, s1) \<Rightarrow>
          (let (inner_info, s2) = inner (res_address resolved) cx s1 in
           case res_hops resolved of
             [] \<Rightarrow>
               (case inner_info of
                  Inl e \<Rightarrow> (Inl e, s2)
                | Inr info \<Rightarrow> (Inr (mark_visibility (effective_visibility (res_visibility resolved) info) info), s2))
           | (from, to) # _ \<Rightarrow>
               (case (case inner_info of
                        Inr info \<Rightarrow>
                          Inr (info, case ri_alias_state info of
                                       Some st \<Rightarrow> if st \<noteq> Alias_Live then st else Alias_Live
                                     | None \<Rightarrow> Alias_Live)
                      | Inl e \<Rightarrow> if e = Err_NoRoute then Inr (bare_alias_root from, Alias_Dangling) else Inl e) of
                  Inl e \<Rightarrow> (Inl e, s2)
                | Inr (info, state) \<Rightarrow>
                    (Inr (mark_visibility (visibility_of_in (res_visibility resolved) from)
                      (info\<lparr>ri_root := from,
                            ri_source := Source_Alias to
                              (case res_first_hop_source resolved of
                                 Some src \<Rightarrow> src | None \<Rightarrow> Alias_Static Layer_Programmatic),
                            ri_alias_state := Some state\<rparr>)), s2))))"

definition alias_owning_target_for ::
    "url_crate \<Rightarrow> 's root_probe \<Rightarrow> (url \<Rightarrow> extensions \<Rightarrow> 's \<Rightarrow> string option \<times> 's) \<Rightarrow> rule_set \<Rightarrow> url \<Rightarrow> extensions \<Rightarrow>
     's \<Rightarrow> string option \<times> 's" where
  "alias_owning_target_for C inner owner R addr cx s =
     (case walk_chain_async C inner R addr s of
        (Inl e, s1) \<Rightarrow> (None, s1)
      | (Inr resolved, s1) \<Rightarrow> owner (res_address resolved) cx s1)"

text \<open>The projected half of the update stream: each change meets the rules current at that moment.\<close>

fun project_updates ::
    "url_crate \<Rightarrow> root_info list \<Rightarrow> (rule_set \<times> root_info_change result) list \<Rightarrow> root_info_change stream" where
  "project_updates C inner_roots [] = []"
| "project_updates C inner_roots ((R, Inl e) # changes) = Inl e # project_updates C inner_roots changes"
| "project_updates C inner_roots ((R, Inr change) # changes) =
     (let (change', inner_roots') =
            project_root_change C (alias_projections R) (visibility_pairs R) change inner_roots
      in Inr change' # project_updates C inner_roots' changes)"

definition alias_list_address_roots ::
    "url_crate \<Rightarrow> (extensions \<Rightarrow> 's \<Rightarrow> (root_info_snapshot \<times> root_info_change stream option) result \<times> 's) \<Rightarrow>
     rule_set \<Rightarrow> (nat \<Rightarrow> rule_set) \<Rightarrow> extensions \<Rightarrow> 's \<Rightarrow> (root_info_snapshot \<times> root_info_change stream) result \<times> 's" where
  "alias_list_address_roots C roots R rules_at cx s =
     (case roots cx s of
        (Inl e, s') \<Rightarrow> (Inl e, s')
      | (Inr (snapshot, updates), s') \<Rightarrow>
          (Inr (snapshot\<lparr>snap_roots := project_advertised_roots C (alias_projections R) (visibility_pairs R)
                                          (snap_roots snapshot),
                         snap_updates := True\<rparr>,
                (case updates of
                   None \<Rightarrow> []
                 | Some changes \<Rightarrow>
                     project_updates C (snap_roots snapshot)
                       (zip (map rules_at [0..<length changes]) changes))), s'))"

end
