(* ===== verification/Ov_Alias_Laws.thy ===== *)
theory Ov_Alias_Laws
  imports Ov_Alias
begin

text \<open>
  What the alias layer guarantees: chains are bounded and end where no rule applies, the walk of
  dispatch and the walk of advertisement agree, a result projects back onto the address the
  caller used, suppressed addresses are never dispatched or advertised, and generated rules never
  relax an authored visibility.
\<close>

section \<open>Chains\<close>

definition interrupted :: "(url \<Rightarrow> specificity option) \<Rightarrow> url \<Rightarrow> url \<Rightarrow> bool" where
  "interrupted rank u from \<longleftrightarrow> (case rank u of Some r \<Rightarrow> specificity_of from \<le> r | None \<Rightarrow> False)"

fun chain :: "url_crate \<Rightarrow> alias_pair list \<Rightarrow> (url \<Rightarrow> specificity option) \<Rightarrow> url \<Rightarrow> alias_pair list \<Rightarrow> url \<Rightarrow> bool" where
  "chain C rules rank u [] v \<longleftrightarrow> u = v"
| "chain C rules rank u ((from, to) # hops) v \<longleftrightarrow>
     longest_matching_rule rules u = Some (from, to) \<and> \<not> interrupted rank u from \<and>
     (case replace_prefix C u from to of Inr w \<Rightarrow> chain C rules rank w hops v | Inl e \<Rightarrow> False)"

definition chain_ends :: "alias_pair list \<Rightarrow> (url \<Rightarrow> specificity option) \<Rightarrow> url \<Rightarrow> bool" where
  "chain_ends rules rank v \<longleftrightarrow>
     (case longest_matching_rule rules v of None \<Rightarrow> True | Some (from, to) \<Rightarrow> interrupted rank v from)"

lemma walk_loop_ends:
  "chain_ends rules rank u \<Longrightarrow> walk_loop C rules rank left u hops seen = Inr (u, hops)"
  by (subst walk_loop.simps) (auto simp: chain_ends_def interrupted_def split: option.splits)

lemma walk_loop_goes_on:
  assumes "longest_matching_rule rules u = Some (f, t)" "\<not> interrupted rank u f"
  shows "walk_loop C rules rank 0 u hops seen = Inl Err_AliasChainTooLong"
    and "walk_loop C rules rank (Suc n) u hops seen =
      (if crate_as_str C u \<in> set seen then Inl Err_AliasChainTooLong
       else case replace_prefix C u f t of
              Inl e \<Rightarrow> Inl e
            | Inr w \<Rightarrow> walk_loop C rules rank n w (hops @ [(f, t)]) (crate_as_str C u # seen))"
  using assms by (subst walk_loop.simps, simp add: interrupted_def)+

lemma chain_goes_on:
  assumes "\<not> chain_ends rules rank u"
  obtains f t where "longest_matching_rule rules u = Some (f, t)" "\<not> interrupted rank u f" "(f, t) \<in> set rules"
  using assms by (auto simp: chain_ends_def longest_matching_rule_def split: option.splits dest: max_by_key_in)

lemma walk_loop_sound:
  "walk_loop C rules rank left u hops seen = Inr (v, hops') \<Longrightarrow>
   \<exists>hs. hops' = hops @ hs \<and> length hs \<le> left \<and> chain C rules rank u hs v \<and> chain_ends rules rank v"
proof (induction left arbitrary: u hops seen)
  case 0
  then show ?case
    by (cases "chain_ends rules rank u") (auto simp: walk_loop_ends walk_loop_goes_on elim: chain_goes_on)
next
  case (Suc n)
  show ?case
  proof (cases "chain_ends rules rank u")
    case True
    with Suc.prems show ?thesis by (auto simp: walk_loop_ends)
  next
    case False
    then obtain f t where ft: "longest_matching_rule rules u = Some (f, t)" "\<not> interrupted rank u f"
      by (rule chain_goes_on)
    with Suc.prems obtain w where w: "replace_prefix C u f t = Inr w"
      "walk_loop C rules rank n w (hops @ [(f, t)]) (crate_as_str C u # seen) = Inr (v, hops')"
      by (auto simp: walk_loop_goes_on split: if_splits sum.splits)
    from Suc.IH[OF w(2)] obtain hs where
      "hops' = (hops @ [(f, t)]) @ hs" "length hs \<le> n" "chain C rules rank w hs v" "chain_ends rules rank v"
      by blast
    with w(1) ft show ?thesis by (intro exI[of _ "(f, t) # hs"]) simp
  qed
qed

lemma walk_loop_errors:
  "walk_loop C rules rank left u hops seen = Inl e \<Longrightarrow>
   e = Err_AliasChainTooLong \<or> (\<exists>w f t. (f, t) \<in> set rules \<and> replace_prefix C w f t = Inl e)"
proof (induction left arbitrary: u hops seen)
  case 0
  then show ?case
    by (cases "chain_ends rules rank u") (auto simp: walk_loop_ends walk_loop_goes_on elim: chain_goes_on)
next
  case (Suc n)
  show ?case
  proof (cases "chain_ends rules rank u")
    case True
    with Suc.prems show ?thesis by (simp add: walk_loop_ends)
  next
    case False
    then obtain f t where ft: "longest_matching_rule rules u = Some (f, t)" "\<not> interrupted rank u f" "(f, t) \<in> set rules"
      by (rule chain_goes_on)
    with Suc.prems show ?thesis
      by (auto simp: walk_loop_goes_on split: if_splits sum.splits dest: Suc.IH)
  qed
qed

text \<open>The walk of dispatch asks the layer below; with an answer that depends on the address alone it
  is the walk of advertisement and validation.\<close>

definition probed_rank :: "(url \<Rightarrow> root_info result) \<Rightarrow> url \<Rightarrow> specificity option" where
  "probed_rank answer u =
     (case answer u of
        Inr info \<Rightarrow> if is_ancestor_or_self (ri_root info) u then Some (specificity_of (ri_root info)) else None
      | Inl e \<Rightarrow> None)"

lemma walk_async_is_walk:
  assumes "\<And>u. inner u no_extensions s = (answer u, s)"
  shows "walk_async_loop C inner pairs left u hops seen s = (walk_loop C pairs (probed_rank answer) left u hops seen, s)"
proof (induction left arbitrary: u hops seen)
  case 0
  show ?case
    by (subst walk_async_loop.simps, subst walk_loop.simps)
       (auto simp: assms probed_rank_def[of answer u] split: option.splits sum.splits)
next
  case (Suc n)
  show ?case
    by (subst walk_async_loop.simps, subst walk_loop.simps)
       (auto simp: assms probed_rank_def[of answer u] Suc.IH split: option.splits sum.splits)
qed

lemma resolve_suppressed:
  "visibility_of_in (visibility_pairs R) u = Vis_Suppressed \<Longrightarrow> alias_resolve C inner R u s = (Inl Err_NoRoute, s)"
  by (simp add: alias_resolve_def Let_def)

section \<open>Visibility\<close>

lemma restrictive_simps [simp]:
  "most_restrictive_visibility v v = v" "most_restrictive_visibility Vis_Visible v = v"
  "most_restrictive_visibility v Vis_Visible = v" "most_restrictive_visibility v Vis_Suppressed = Vis_Suppressed"
  by (cases v; simp)+

lemma restrictive_assoc:
  "most_restrictive_visibility (most_restrictive_visibility a b) c =
   most_restrictive_visibility a (most_restrictive_visibility b c)"
  by (cases a; cases b; cases c; simp)

lemma restrictive_commute: "most_restrictive_visibility a b = most_restrictive_visibility b a"
  by (cases a; cases b; simp)

lemma ceiling_absorbs:
  "v \<in> set vs \<Longrightarrow> most_restrictive_visibility v (foldl most_restrictive_visibility acc vs) =
     foldl most_restrictive_visibility acc vs"
proof (induction vs arbitrary: acc)
  case (Cons w vs)
  have keep: "most_restrictive_visibility acc' (foldl most_restrictive_visibility acc' vs) =
      foldl most_restrictive_visibility acc' vs" for acc'
  proof (induction vs arbitrary: acc')
    case (Cons x vs)
    from Cons[of "most_restrictive_visibility acc' x"] show ?case
      by (simp add: restrictive_assoc) (metis restrictive_assoc restrictive_simps(1))
  qed simp
  show ?case
  proof (cases "v = w")
    case True
    with keep[of "most_restrictive_visibility acc w"] show ?thesis
      by simp (metis restrictive_assoc restrictive_commute restrictive_simps(1))
  qed (use Cons in auto)
qed simp

lemma visibility_of_in_cases:
  "visibility_of_in rules u = Vis_Visible \<or> visibility_of_in rules u \<in> snd ` set rules"
  unfolding visibility_of_in_def by (force dest: max_by_key_in split: option.splits)

definition authored_pairs :: "rule_set \<Rightarrow> visibility_pair list" where
  "authored_pairs R =
     List.map_filter intrinsic (filter (\<lambda>r. ar_derived_from r = None) (rs_aliases R)) @
     map (\<lambda>r. (vo_address r, vo_visibility r)) (rs_visibility R)"

definition derived_pairs :: "rule_set \<Rightarrow> visibility_pair list" where
  "derived_pairs R = List.map_filter intrinsic (filter (\<lambda>r. ar_derived_from r \<noteq> None) (rs_aliases R))"

text \<open>The reference: every generated rule is folded against the authored answer at its own scope.\<close>

definition fold_derived :: "rule_set \<Rightarrow> visibility_pair \<Rightarrow> visibility_pair" where
  "fold_derived R = (\<lambda>(f, v). (f, most_restrictive_visibility v (visibility_of_in (authored_pairs R) f)))"

definition folded_pairs :: "rule_set \<Rightarrow> visibility_pair list" where
  "folded_pairs R =
     List.map_filter intrinsic (filter (\<lambda>r. ar_derived_from r = None) (rs_aliases R)) @
     map (fold_derived R) (derived_pairs R) @
     map (\<lambda>r. (vo_address r, vo_visibility r)) (rs_visibility R)"

lemma below_ceiling:
  assumes "most_restrictive_visibility v c = v" "most_restrictive_visibility x c = c"
  shows "most_restrictive_visibility v x = v"
  using assms by (cases v; cases x; cases c; simp)

lemma visibility_pairs_folded: "visibility_pairs R = folded_pairs R"
proof -
  let ?c = "foldl most_restrictive_visibility Vis_Visible (map snd (authored_pairs R))"
  let ?needs = "list_ex (\<lambda>r. ar_derived_from r \<noteq> None \<and>
      (case ar_visibility r of Some v \<Rightarrow> most_restrictive_visibility v ?c \<noteq> v | None \<Rightarrow> False)) (rs_aliases R)"
  have "fold_derived R p = p" if "\<not> ?needs" "p \<in> set (derived_pairs R)" for p
  proof -
    obtain f v where p: "p = (f, v)" by fastforce
    from that(2) p obtain r where r: "r \<in> set (rs_aliases R)" "ar_derived_from r \<noteq> None" "ar_visibility r = Some v"
      by (auto simp: derived_pairs_def List.map_filter_def intrinsic_def)
    with that(1) have "most_restrictive_visibility v ?c = v" by (auto simp: list_ex_iff)
    moreover have "most_restrictive_visibility (visibility_of_in (authored_pairs R) f) ?c = ?c"
    proof (cases "visibility_of_in (authored_pairs R) f = Vis_Visible")
      case False
      then have "visibility_of_in (authored_pairs R) f \<in> set (map snd (authored_pairs R))"
        using visibility_of_in_cases[of "authored_pairs R" f] by simp
      then show ?thesis by (rule ceiling_absorbs)
    qed simp
    ultimately have "most_restrictive_visibility v (visibility_of_in (authored_pairs R) f) = v" by (rule below_ceiling)
    then show ?thesis using p by (simp add: fold_derived_def)
  qed
  then have "\<not> ?needs \<Longrightarrow> map (fold_derived R) (derived_pairs R) = derived_pairs R" by (simp add: map_idI)
  then show ?thesis
    unfolding visibility_pairs_def folded_pairs_def Let_def authored_pairs_def[symmetric] derived_pairs_def[symmetric]
      fold_derived_def[symmetric]
    by (auto simp: fold_derived_def)
qed

section \<open>Selection by specificity\<close>

lemma max_by_key_split:
  "max_by_key k xs = Some m \<longleftrightarrow> (\<exists>as bs. xs = as @ m # bs \<and> (\<forall>a \<in> set as. k a \<le> k m) \<and> (\<forall>b \<in> set bs. k b < k m))"
  (is "?l \<longleftrightarrow> ?r")
proof
  show "?l \<Longrightarrow> ?r"
  proof (induction xs arbitrary: m)
    case (Cons x xs)
    show ?case
    proof (cases "max_by_key k xs")
      case None
      with Cons.prems show ?thesis by (intro exI[of _ "[]"] exI[of _ "[]"]) simp
    next
      case (Some m')
      from Cons.IH[OF Some] obtain as bs where s: "xs = as @ m' # bs" "\<forall>a \<in> set as. k a \<le> k m'" "\<forall>b \<in> set bs. k b < k m'"
        by blast
      show ?thesis
      proof (cases "k m' < k x")
        case True
        with Cons.prems Some have "m = x" by (simp add: not_le[symmetric] split: if_splits)
        with True s show ?thesis by (intro exI[of _ "[]"] exI[of _ xs]) force
      next
        case False
        with Cons.prems Some have "m = m'" by (simp add: not_less)
        with False s show ?thesis by (intro exI[of _ "x # as"] exI[of _ bs]) auto
      qed
    qed
  qed simp
  assume ?r
  then obtain as bs where s: "xs = as @ m # bs" "\<forall>a \<in> set as. k a \<le> k m" "\<forall>b \<in> set bs. k b < k m" by blast
  have "max_by_key k (m # bs) = Some m"
    using s(3) by (auto split: option.splits dest!: max_by_key_in)
  then show ?l using s(1,2)
  proof (induction as arbitrary: xs)
    case (Cons a as)
    then have "max_by_key k (as @ m # bs) = Some m" by simp
    with Cons.prems(2,3) show ?case by (auto simp: not_less)
  qed simp
qed

lemma max_by_key_filter_cong:
  assumes m: "max_by_key k (filter P xs) = Some m" and q: "Q m" and qp: "\<And>x. x \<in> set xs \<Longrightarrow> Q x \<Longrightarrow> P x"
  shows "max_by_key k (filter Q xs) = Some m"
proof -
  from m obtain as bs where s: "filter P xs = as @ m # bs" "\<forall>a \<in> set as. k a \<le> k m" "\<forall>b \<in> set bs. k b < k m"
    unfolding max_by_key_split by blast
  have "filter Q xs = filter Q (filter P xs)" using qp by (auto intro: filter_cong)
  also have "\<dots> = filter Q as @ m # filter Q bs" using s(1) q by simp
  finally show ?thesis unfolding max_by_key_split using s(2,3) by (intro exI[of _ "filter Q as"] exI[of _ "filter Q bs"]) auto
qed

definition plain_scope :: "url \<Rightarrow> bool" where
  "plain_scope p \<longleftrightarrow> canonical_url p \<and> url_query p = None"

lemma coarser_scope_covers:
  assumes "plain_scope p" "plain_scope f" "canonical_url u"
    "is_ancestor_or_self p u" "is_ancestor_or_self f u" "specificity_of p \<le> specificity_of f"
  shows "is_ancestor_or_self p f"
proof -
  have pl: "plain_path (url_path p)" "plain_path (url_path f)" "plain_path (url_path u)"
    and q: "url_query p = None" "url_query f = None"
    using assms(1-3) canonical_plain by (auto simp: plain_scope_def)
  note a = assms(4)[unfolded ancestor_iff[OF pl(1,3)]] assms(5)[unfolded ancestor_iff[OF pl(2,3)]]
  have "length (node_segs p) \<le> length (node_segs f)"
    using assms(6) q by (auto simp: specificity_of_def node_rank_def node_segment_count_segs)
  then have "prefix (node_segs p) (node_segs f)" using a prefix_length_prefix by blast
  then show ?thesis using a q by (simp add: ancestor_iff[OF pl(1,2)])
qed

lemma ancestor_trans:
  assumes "plain_scope p" "plain_scope f" "canonical_url u" "is_ancestor_or_self p f" "is_ancestor_or_self f u"
  shows "is_ancestor_or_self p u"
proof -
  have pl: "plain_path (url_path p)" "plain_path (url_path f)" "plain_path (url_path u)" "url_query p = None"
    using assms(1-3) canonical_plain by (auto simp: plain_scope_def)
  show ?thesis using assms(4,5) pl(4) prefix_order.trans
    unfolding ancestor_iff[OF pl(1,2)] ancestor_iff[OF pl(2,3)] ancestor_iff[OF pl(1,3)] by fastforce
qed

text \<open>The answer at a covering scope at least as specific as the winner is the answer at the address.\<close>

lemma visibility_at_finer_scope:
  assumes scopes: "\<forall>(p, v) \<in> set rules. plain_scope p" and f: "plain_scope f" "is_ancestor_or_self f u"
    and u: "canonical_url u"
    and m: "max_by_key (\<lambda>(p, v). specificity_of p) (filter (\<lambda>(p, v). is_ancestor_or_self p u) rules) = Some (p, v)"
    and finer: "specificity_of p \<le> specificity_of f"
  shows "visibility_of_in rules f = v"
proof -
  have p: "(p, v) \<in> set rules" "is_ancestor_or_self p u" using max_by_key_in[OF m] by auto
  then have "plain_scope p" using scopes by auto
  then have "is_ancestor_or_self p f" using coarser_scope_covers[OF _ f(1) u p(2) f(2) finer] by simp
  moreover have "is_ancestor_or_self p' u" if "(p', v') \<in> set rules" "is_ancestor_or_self p' f" for p' v'
    using that scopes ancestor_trans[OF _ f(1) u _ f(2)] by auto
  ultimately have "max_by_key (\<lambda>(p, v). specificity_of p) (filter (\<lambda>(p, v). is_ancestor_or_self p f) rules) = Some (p, v)"
    by (intro max_by_key_filter_cong[OF m]) auto
  then show ?thesis by (simp add: visibility_of_in_def)
qed

lemma map_filter_append: "List.map_filter g (xs @ ys) = List.map_filter g xs @ List.map_filter g ys"
  by (simp add: List.map_filter_def)

definition set_scopes_plain :: "rule_set \<Rightarrow> bool" where
  "set_scopes_plain R \<longleftrightarrow> list_all (\<lambda>r. plain_scope (ar_from r)) (rs_aliases R) \<and>
     list_all (\<lambda>r. plain_scope (vo_address r)) (rs_visibility R)"

lemma set_scopes_plain_pairs:
  assumes "set_scopes_plain R"
  shows "\<forall>(p, v) \<in> set (authored_pairs R). plain_scope p" "\<forall>(p, v) \<in> set (derived_pairs R). plain_scope p"
  using assms
  by (auto simp: set_scopes_plain_def authored_pairs_def derived_pairs_def List.map_filter_def intrinsic_def list_all_iff)

lemma max_by_key_append:
  "max_by_key k (xs @ ys) =
     (case max_by_key k xs of
        None \<Rightarrow> max_by_key k ys
      | Some x \<Rightarrow> (case max_by_key k ys of None \<Rightarrow> Some x | Some y \<Rightarrow> if k x \<le> k y then Some y else Some x))"
  by (induction xs) (auto split: option.splits)

lemma winner_split:
  assumes w: "max_by_key k (filter P (as @ ds @ bs)) = Some m"
  shows "(m \<in> set ds \<and> P m \<and> (\<forall>x \<in> set (as @ bs). P x \<longrightarrow> k x \<le> k m)) \<or> max_by_key k (filter P (as @ bs)) = Some m"
proof (cases "m \<in> set ds")
  case True
  have "P m" using max_by_key_in[OF w] by auto
  then show ?thesis using True max_by_key_max[OF w] by auto
next
  case False
  have nd: "max_by_key k (filter P ds) \<noteq> Some m" using False max_by_key_in by fastforce
  then show ?thesis using w
    by (auto simp: max_by_key_append split: option.splits if_splits)
qed

lemma derived_never_relaxes:
  assumes plain: "set_scopes_plain R" and u: "canonical_url u"
  shows "most_restrictive_visibility (visibility_of_in (visibility_pairs R) u) (visibility_of_in (authored_pairs R) u) =
    visibility_of_in (visibility_pairs R) u"
proof -
  let ?k = "\<lambda>(p, v :: address_visibility). specificity_of p" and ?P = "\<lambda>(p, v :: address_visibility). is_ancestor_or_self p u"
  let ?as = "List.map_filter intrinsic (filter (\<lambda>r. ar_derived_from r = None) (rs_aliases R))"
    and ?ds = "map (fold_derived R) (derived_pairs R)" and ?bs = "map (\<lambda>r. (vo_address r, vo_visibility r)) (rs_visibility R)"
  have A: "authored_pairs R = ?as @ ?bs" by (simp add: authored_pairs_def)
  have V: "visibility_pairs R = ?as @ ?ds @ ?bs" by (simp add: visibility_pairs_folded folded_pairs_def)
  show ?thesis
  proof (cases "max_by_key ?k (filter ?P (visibility_pairs R))")
    case None
    then have none: "filter ?P (visibility_pairs R) = []" by simp
    then have "max_by_key ?k (filter ?P (authored_pairs R)) = None" unfolding V A by simp
    then show ?thesis using None by (simp add: visibility_of_in_def)
  next
    case (Some m)
    obtain f w where m: "m = (f, w)" by fastforce
    from winner_split[OF Some[unfolded V]] show ?thesis
    proof
      assume "max_by_key ?k (filter ?P (?as @ ?bs)) = Some m"
      then show ?thesis using Some m by (simp add: visibility_of_in_def A)
    next
      assume d: "m \<in> set ?ds \<and> ?P m \<and> (\<forall>x \<in> set (?as @ ?bs). ?P x \<longrightarrow> ?k x \<le> ?k m)"
      then obtain v where v: "(f, v) \<in> set (derived_pairs R)"
        "w = most_restrictive_visibility v (visibility_of_in (authored_pairs R) f)"
        using m by (auto simp: fold_derived_def)
      have f: "plain_scope f" "is_ancestor_or_self f u" using set_scopes_plain_pairs(2)[OF plain] v(1) d m by auto
      have "visibility_of_in (authored_pairs R) u = Vis_Visible \<or>
          visibility_of_in (authored_pairs R) f = visibility_of_in (authored_pairs R) u"
      proof (cases "max_by_key ?k (filter ?P (authored_pairs R))")
        case None
        then show ?thesis by (simp add: visibility_of_in_def)
      next
        case win: (Some q)
        obtain p x where q: "q = (p, x)" by fastforce
        have "specificity_of p \<le> specificity_of f" using max_by_key_in[OF win] d m q A by auto
        from visibility_at_finer_scope[OF set_scopes_plain_pairs(1)[OF plain] f u win[unfolded q] this] win q
        show ?thesis by (simp add: visibility_of_in_def)
      qed
      moreover have "visibility_of_in (visibility_pairs R) u = w" using Some m by (simp add: visibility_of_in_def)
      ultimately show ?thesis using v(2) by (auto simp: restrictive_assoc)
    qed
  qed
qed

section \<open>Projection back\<close>

definition hop_ok :: "url_crate \<Rightarrow> url \<Rightarrow> url \<Rightarrow> url \<Rightarrow> bool" where
  "hop_ok C u p r \<longleftrightarrow> canonical_url u \<and> canonical_url p \<and> canonical_url r \<and>
     url_has_authority u \<and> url_has_authority p \<and> url_query p = None \<and>
     CHR ''/'' \<notin> set (authority_region u) \<and> CHR ''/'' \<notin> set (authority_region p) \<and>
     settable r (projected_path u p r) \<and>
     crate_parse C (serialized (projected u p r)) = Some (projected u p r)"

lemma hop_value:
  assumes "crate_ok C" "as_str_ok C" "hop_ok C u p r" "is_ancestor_or_self p u"
  shows "replace_prefix C u p r = Inr (projected u p r)"
proof -
  have h: "canonical_url u" "canonical_url p" "canonical_url r" "url_has_authority u" "url_has_authority p"
    "CHR ''/'' \<notin> set (authority_region u)" "CHR ''/'' \<notin> set (authority_region p)" "url_query p = None"
    "settable r (projected_path u p r)" "crate_parse C (serialized (projected u p r)) = Some (projected u p r)"
    using assms(3) by (simp_all add: hop_ok_def)
  have "canonical_url (projected u p r)" using projected_fixed h by blast
  then have "parse C (serialized (projected u p r)) = Inr (projected u p r)"
    using assms(1) h(10) canonicalize_eq[of C "projected u p r"] by (simp add: parse_def canonical_url_def)
  then show ?thesis using replace_prefix_eq[OF assms(1,2) h(1-7) assms(4) h(8,9)] by simp
qed

lemma canonical_dir_path: "canonical_url u \<Longrightarrow> url_path u = dir_path (node_segs u) (is_directory u) \<and> good_segs (node_segs u)"
proof -
  assume "canonical_url u"
  then obtain xs d where x: "good_segs xs" "url_path u = dir_path xs d"
    using canonical_plain unfolding plain_path_def by blast
  have "node_segs u = xs" "is_directory u \<longleftrightarrow> d \<or> xs = []"
    using dir_path_node(2,3)[OF x] by (simp_all add: is_directory_def)
  with x show ?thesis by (cases d) (auto simp: dir_path_def)
qed

lemma projected_segs:
  assumes "canonical_url u" "canonical_url r"
  shows "node_segs (projected u p r) = node_segs r @ drop (length (node_segs p)) (node_segs u)"
    and "is_directory (projected u p r) \<longleftrightarrow> is_directory u \<or> node_segs r @ drop (length (node_segs p)) (node_segs u) = []"
proof -
  let ?s = "node_segs r @ drop (length (node_segs p)) (node_segs u)"
  have "good_segs ?s" using canonical_dir_path[OF assms(1)] canonical_dir_path[OF assms(2)]
    by (auto simp: good_segs_def dest: in_set_dropD)
  moreover have "url_path (projected u p r) = dir_path ?s (is_directory u)"
    by (simp add: projected_def projected_path_def)
  ultimately show "node_segs (projected u p r) = ?s" "is_directory (projected u p r) \<longleftrightarrow> is_directory u \<or> ?s = []"
    using dir_path_node(2,3) by (simp_all add: is_directory_def)
qed

text \<open>What comes back of an address: the node is the caller's, the credentials are those written in the
  rule that was applied first, and the spelling is a directory's when the caller's was or when the chain
  passed through a bare authority, whose path is always a directory.\<close>

fun passes_authority :: "url \<Rightarrow> alias_pair list \<Rightarrow> bool" where
  "passes_authority u [] \<longleftrightarrow> False"
| "passes_authority u ((f, t) # hops) \<longleftrightarrow> node_segs (projected u f t) = [] \<or> passes_authority (projected u f t) hops"

definition returned :: "url \<Rightarrow> alias_pair list \<Rightarrow> url" where
  "returned u hops =
     (case hops of
        [] \<Rightarrow> u
      | (f, t) # _ \<Rightarrow>
          u\<lparr>url_username := url_username f, url_password := url_password f,
            url_path := dir_path (node_segs u) (is_directory u \<or> passes_authority u hops)\<rparr>)"

lemma returned_Cons:
  "returned u ((f, t) # hops) =
     u\<lparr>url_username := url_username f, url_password := url_password f,
       url_path := dir_path (node_segs u) (is_directory u \<or> passes_authority u ((f, t) # hops))\<rparr>"
  by (simp add: returned_def)

lemma returned_parts:
  assumes "canonical_url u"
  shows "url_scheme (returned u hops) = url_scheme u" "url_host (returned u hops) = url_host u"
    "url_port (returned u hops) = url_port u" "url_query (returned u hops) = url_query u"
    "node_segs (returned u hops) = node_segs u"
    "is_directory (returned u hops) \<longleftrightarrow> is_directory u \<or> passes_authority u hops"
    "plain_path (url_path (returned u hops))"
proof -
  note u = canonical_dir_path[OF assms]
  show "url_scheme (returned u hops) = url_scheme u" "url_host (returned u hops) = url_host u"
    "url_port (returned u hops) = url_port u" "url_query (returned u hops) = url_query u"
    by (auto simp: returned_def split: list.split)
  have path: "url_path (returned u hops) = dir_path (node_segs u) (is_directory u \<or> passes_authority u hops)"
    using u by (auto simp: returned_def split: list.split)
  then show "plain_path (url_path (returned u hops))" using u by (auto simp: plain_path_def)
  note d = dir_path_node(2,3)[OF conjunct2[OF u] path]
  then show "node_segs (returned u hops) = node_segs u" by simp
  have "node_segs u = [] \<Longrightarrow> is_directory u" using dir_path_node(3)[OF conjunct2[OF u] conjunct1[OF u]] by (simp add: is_directory_def)
  then show "is_directory (returned u hops) \<longleftrightarrow> is_directory u \<or> passes_authority u hops"
    using d(2) by (auto simp: is_directory_def)
qed

lemma returned_same_node:
  assumes "canonical_url u"
  shows "same_node (returned u hops) u"
  using returned_parts[OF assms] canonical_plain[OF assms] by (simp add: same_node_iff)

lemma returned_exact:
  assumes "canonical_url u"
  shows "returned u hops = u \<longleftrightarrow>
    (case hops of
       [] \<Rightarrow> True
     | (f, t) # _ \<Rightarrow> url_username u = url_username f \<and> url_password u = url_password f \<and>
         (is_directory u \<or> \<not> passes_authority u hops))"
proof (cases hops)
  case (Cons h rest)
  obtain f t where h: "h = (f, t)" by fastforce
  have dir: "returned u hops = u \<Longrightarrow> is_directory u \<or> \<not> passes_authority u hops"
    using returned_parts(6)[OF assms, of hops] by auto
  have "dir_path (node_segs u) (is_directory u \<or> passes_authority u hops) = url_path u"
    if "is_directory u \<or> \<not> passes_authority u hops"
    using canonical_dir_path[OF assms] that by auto
  moreover have "u\<lparr>url_username := n, url_password := w, url_path := p\<rparr> = u \<longleftrightarrow>
      n = url_username u \<and> w = url_password u \<and> p = url_path u" for n w p
    by (cases u) auto
  then have "returned u hops = u \<longleftrightarrow> url_username f = url_username u \<and> url_password f = url_password u \<and>
      dir_path (node_segs u) (is_directory u \<or> passes_authority u hops) = url_path u"
    unfolding Cons h returned_Cons by simp
  ultimately show ?thesis using dir unfolding Cons h list.case prod.case by (metis (no_types))
qed (simp add: returned_def)

lemma projected_returns:
  assumes can: "canonical_url u" "canonical_url p" "canonical_url r"
    and anc: "is_ancestor_or_self p u" and q: "url_query p = None" "url_query r = None"
    and auth: "url_has_authority u" "url_has_authority p"
    and x: "canonical_url (projected u p r)"
  shows "is_ancestor_or_self r (returned (projected u p r) hops)"
    and "projected (returned (projected u p r) hops) r p = returned u ((p, r) # hops)"
proof -
  let ?x = "projected u p r" and ?y = "returned (projected u p r) hops"
  note segs = projected_segs[OF can(1,3), of p] and y = returned_parts[OF x, of hops]
  have pl: "plain_path (url_path r)" "plain_path (url_path p)" "plain_path (url_path u)"
    using can canonical_plain by blast+
  show "is_ancestor_or_self r ?y"
    unfolding ancestor_iff[OF pl(1) y(7)] using q segs(1) y by (simp add: projected_def)
  have a: "url_scheme p = url_scheme u" "url_host p = url_host u" "url_port p = url_port u" "prefix (node_segs p) (node_segs u)"
    using anc[unfolded ancestor_iff[OF pl(2,3)]] by simp_all
  have "node_segs p @ drop (length (node_segs p)) (node_segs u) = node_segs u" using a(4) by (auto simp: prefix_def)
  then have path: "projected_path ?y r p = dir_path (node_segs u) (is_directory u \<or> passes_authority u ((p, r) # hops))"
    using segs y(5,6) by (auto simp: projected_path_def)
  have "url_fragment (canonical_of u) = url_fragment u" using can(1) by (simp add: canonical_url_def)
  then have frag: "url_fragment u = None" by (simp add: canonical_of_def)
  have base: "\<not> url_cannot_be_a_base u" "\<not> url_cannot_be_a_base p" using can by (simp_all add: canonical_url_def)
  have "url_query ?y = url_query u" using q y(4) by (simp add: projected_def)
  then show "projected ?y r p = returned u ((p, r) # hops)"
    unfolding projected_def[of ?y] path returned_Cons using q a auth base frag by (intro url.equality) simp_all
qed

text \<open>Both directions of each hop can be spelled: the addresses and the rules are canonical and have an
  authority, no rule has a query, and the parser gives back what was serialized.\<close>

fun hops_ok :: "url_crate \<Rightarrow> url \<Rightarrow> alias_pair list \<Rightarrow> bool" where
  "hops_ok C u [] \<longleftrightarrow> True"
| "hops_ok C u ((f, t) # hops) \<longleftrightarrow>
     hop_ok C u f t \<and> url_query t = None \<and> hops_ok C (projected u f t) hops \<and>
     hop_ok C (returned (projected u f t) hops) t f"

lemma project_back_append:
  "project_back C (xs @ ys) a = (case project_back C xs a of Inl e \<Rightarrow> Inl e | Inr b \<Rightarrow> project_back C ys b)"
  by (induction xs arbitrary: a) (auto split: sum.splits)

lemma chain_projects_back:
  assumes ok: "crate_ok C" "as_str_ok C"
  shows "chain C rules rank u hops v \<Longrightarrow> hops_ok C u hops \<Longrightarrow>
    project_back C (inverse_chain hops) v = Inr (returned u hops)"
proof (induction hops arbitrary: u)
  case (Cons h hops)
  obtain f t where h: "h = (f, t)" by fastforce
  let ?x = "projected u f t"
  have hop: "hop_ok C u f t" "url_query t = None" "hops_ok C ?x hops" "hop_ok C (returned ?x hops) t f"
    using Cons.prems(2) h by simp_all
  have parts: "canonical_url u" "canonical_url f" "canonical_url t" "url_query f = None" "url_has_authority u" "url_has_authority f"
    "settable t (projected_path u f t)"
    using hop(1) by (simp_all add: hop_ok_def)
  have anc: "is_ancestor_or_self f u"
    using Cons.prems(1) h by (auto simp: longest_matching_rule_def dest: max_by_key_in)
  note fwd = hop_value[OF ok hop(1) anc]
  have "chain C rules rank ?x hops v" using Cons.prems(1) h fwd by simp
  then have ih: "project_back C (inverse_chain hops) v = Inr (returned ?x hops)" using Cons.IH hop(3) by blast
  note bk = projected_returns[OF parts(1-3) anc parts(4) hop(2) parts(5,6) projected_fixed[OF parts(3,7)], of hops]
  have "inverse_chain (h # hops) = inverse_chain hops @ [(t, f)]" using h by (simp add: inverse_chain_def)
  then show ?case using ih bk hop_value[OF ok hop(4) bk(1)] h by (simp add: project_back_append)
qed (simp add: inverse_chain_def returned_def)

section \<open>Properties\<close>

text \<open>C24. Resolving an alias chain always ends: with an address reached by at most
  \<open>MAX_ALIAS_HOPS\<close> hops, each the most specific rule covering the current address and strictly
  more specific than the real root there, at which no rule applies any more; or with
  \<open>AliasChainTooLong\<close>, or with the error of a projection that cannot be spelled.\<close>

theorem alias_chain_bounded:
  "case walk_chain C rules u rank of
     Inr r \<Rightarrow> length (res_hops r) \<le> MAX_ALIAS_HOPS \<and> chain C rules rank u (res_hops r) (res_address r) \<and>
       chain_ends rules rank (res_address r)
   | Inl e \<Rightarrow> e = Err_AliasChainTooLong \<or> (\<exists>w f t. (f, t) \<in> set rules \<and> replace_prefix C w f t = Inl e)"
  using walk_loop_sound[of C rules rank MAX_ALIAS_HOPS u "[]" "[]"]
    walk_loop_errors[of C rules rank MAX_ALIAS_HOPS u "[]" "[]"]
  by (auto simp: walk_chain_def split: sum.splits)

text \<open>C18. An address projected through a chain of aliases comes back to the caller's node: replaying the
  applied hops in reverse on the resolved address gives the caller's own address, up to two things that the
  rules decide. Its credentials are those written in the first rule applied, and its path has a trailing
  slash also when the chain passed through a bare authority (\<open>alias://h/a\<close> sent to \<open>s3://m/\<close> comes back as
  \<open>alias://h/a/\<close>). So it is exactly the caller's spelling if and only if the credentials agree and the
  caller wrote a directory or no address on the way was a bare authority. The hypothesis \<open>hops_ok\<close> says that
  each hop can be spelled in both directions: addresses and rules are canonical and have an authority, no
  applied rule has a query, and the parser gives back the addresses it is handed.\<close>

theorem alias_address_roundtrip:
  assumes "crate_ok C" "as_str_ok C" "walk_chain C rules u rank = Inr r"
    and "canonical_url u" "hops_ok C u (res_hops r)"
  shows "project_back C (inverse_chain (res_hops r)) (res_address r) = Inr (returned u (res_hops r)) \<and>
    same_node (returned u (res_hops r)) u \<and>
    (returned u (res_hops r) = u \<longleftrightarrow>
      (case res_hops r of
         [] \<Rightarrow> True
       | (f, t) # _ \<Rightarrow> url_username u = url_username f \<and> url_password u = url_password f \<and>
           (is_directory u \<or> \<not> passes_authority u (res_hops r))))"
proof -
  have "chain C rules rank u (res_hops r) (res_address r)"
    using assms(3) walk_loop_sound[of C rules rank MAX_ALIAS_HOPS u "[]" "[]"]
    by (auto simp: walk_chain_def split: sum.splits)
  then show ?thesis
    using chain_projects_back[OF assms(1,2)] assms(5) returned_same_node[OF assms(4)] returned_exact[OF assms(4)] by blast
qed

definition example_from :: url where "example_from = base_url ''alias'' (Some ''h'') ''/a''"
definition example_to :: url where "example_to = base_url ''s3'' (Some ''m'') ''/z/''"
definition example_addr :: url where "example_addr = base_url ''alias'' (Some ''h'') ''/a/b/''"
definition example_there :: url where "example_there = base_url ''s3'' (Some ''m'') ''/z/b/''"

lemmas example_defs = example_from_def example_to_def example_addr_def example_there_def

lemma example_canonical:
  "canonical_url example_addr" "canonical_url example_from" "canonical_url example_to" "canonical_url example_there"
proof -
  have "canonical_of example_addr = example_addr" "canonical_of example_from = example_from"
    "canonical_of example_to = example_to" "canonical_of example_there = example_there" by code_simp+
  then show "canonical_url example_addr" "canonical_url example_from" "canonical_url example_to" "canonical_url example_there"
    by (simp_all add: canonical_url_def url_wf_def) (simp_all add: example_defs base_url_def)
qed

lemma example_hop:
  "projected example_addr example_from example_to = example_there"
  "hop_ok ref_crate example_addr example_from example_to"
  "hop_ok ref_crate example_there example_to example_from"
proof -
  show x: "projected example_addr example_from example_to = example_there" by code_simp
  have s1: "settable example_to (projected_path example_addr example_from example_to)"
    unfolding settable_def by (intro disjI2 exI[of _ "''z/b/''"]) code_simp
  have s2: "settable example_from (projected_path example_there example_to example_from)"
    unfolding settable_def by (intro disjI2 exI[of _ "''a/b/''"]) code_simp
  have "url_has_authority example_addr" "url_has_authority example_from" "url_query example_from = None"
    "CHR ''/'' \<notin> set (authority_region example_addr)" "CHR ''/'' \<notin> set (authority_region example_from)"
    "crate_parse ref_crate (serialized (projected example_addr example_from example_to)) =
      Some (projected example_addr example_from example_to)" by code_simp+
  then show "hop_ok ref_crate example_addr example_from example_to"
    using example_canonical s1 by (simp add: hop_ok_def)
  have "url_has_authority example_there" "url_has_authority example_to" "url_query example_to = None"
    "CHR ''/'' \<notin> set (authority_region example_there)" "CHR ''/'' \<notin> set (authority_region example_to)"
    "crate_parse ref_crate (serialized (projected example_there example_to example_from)) =
      Some (projected example_there example_to example_from)" by code_simp+
  then show "hop_ok ref_crate example_there example_to example_from"
    using example_canonical s2 by (simp add: hop_ok_def)
qed

theorem alias_address_roundtrip_witness:
  "project_back ref_crate [(example_to, example_from)] example_there = Inr example_addr"
proof -
  let ?r = "\<lparr>res_address = example_there, res_hops = [(example_from, example_to)], res_first_hop_source = None,
    res_visibility = []\<rparr>"
  have w: "walk_chain ref_crate [(example_from, example_to)] example_addr (\<lambda>_. None) = Inr ?r" by code_simp
  have q: "url_query example_to = None" "is_directory example_addr"
    "url_username example_addr = url_username example_from" "url_password example_addr = url_password example_from"
    by code_simp+
  then have h: "hops_ok ref_crate example_addr (res_hops ?r)" using example_hop by (simp add: returned_def)
  have c: "crate_ok ref_crate" by simp
  have s: "as_str_ok ref_crate" by (simp add: as_str_ok_def ref_crate_def)
  show ?thesis using alias_address_roundtrip[OF c s w example_canonical(1) h] q by (simp add: inverse_chain_def)
qed

text \<open>The visibility of a rule set computed with the shortcut of the code (fold only when some
  authored rule is more restrictive than a generated one) is the visibility computed by folding
  every generated rule, and it never relaxes what the operator wrote: at every address the
  answer is at least as restrictive as that of the authored rules alone.\<close>

theorem generated_rules_never_relax:
  assumes "set_scopes_plain R" "canonical_url u"
  shows "visibility_pairs R = folded_pairs R \<and>
    most_restrictive_visibility (visibility_of_in (visibility_pairs R) u) (visibility_of_in (authored_pairs R) u) =
      visibility_of_in (visibility_pairs R) u"
  using visibility_pairs_folded derived_never_relaxes[OF assms] by blast

definition example_rule :: "url \<Rightarrow> (string \<times> string) option \<Rightarrow> address_visibility option \<Rightarrow> alias_rule" where
  "example_rule f d v =
     \<lparr>ar_id = ''r'', ar_from = f, ar_to = example_to, ar_source = Alias_Runtime False, ar_display_name = None,
      ar_user_metadata = Map.empty, ar_visibility = v, ar_derived_from = d\<rparr>"

definition example_override :: visibility_override where
  "example_override =
     \<lparr>vo_id = ''v'', vo_address = example_from, vo_visibility = Vis_Suppressed, vo_source = Alias_Runtime False,
      vo_display_name = None, vo_user_metadata = Map.empty\<rparr>"

definition example_rules :: rule_set where
  "example_rules = \<lparr>rs_aliases = [example_rule example_addr (Some (''s3'', ''1'')) (Some Vis_Hidden)],
     rs_visibility = [example_override]\<rparr>"

lemma example_rules_plain: "set_scopes_plain example_rules"
proof -
  have "url_query example_from = None" "url_query example_addr = None" by code_simp+
  then show ?thesis using example_canonical
    by (simp add: set_scopes_plain_def example_rules_def example_rule_def example_override_def plain_scope_def)
qed

theorem generated_rules_never_relax_witness:
  "visibility_of_in (authored_pairs example_rules) example_addr = Vis_Suppressed \<and>
   visibility_of_in (visibility_pairs example_rules) example_addr = Vis_Suppressed"
proof -
  have a: "visibility_of_in (authored_pairs example_rules) example_addr = Vis_Suppressed" by code_simp
  with generated_rules_never_relax[OF example_rules_plain example_canonical(1), THEN conjunct2] show ?thesis by simp
qed

text \<open>C8. An address an operator suppressed is never dispatched, whatever rules were generated. Every verb on
  one address answers \<open>NoRoute\<close> for it, as for an address nobody configured, without a call to the layer
  below; a listing stream that asks for a page window is refused as an invalid argument before that. A copy
  or rename from it answers the same. A copy or rename to it never reaches the verb below either: the source
  is resolved first, which may ask for the roots that cover it, and then the answer is \<open>NoRoute\<close>, unless the
  source already failed.\<close>

theorem suppressed_never_dispatched:
  assumes "set_scopes_plain R" "canonical_url u" "visibility_of_in (authored_pairs R) u = Vis_Suppressed"
  shows "rewritten project C inner verb R u x s = (Inl Err_NoRoute, s) \<and>
    alias_list_stream C inner lverb R u request s =
      (Inl (if lr_max_results request = None \<and> lr_page_token request = None then Err_NoRoute else Err_InvalidArgument), s) \<and>
    alias_root_info_for C inner R u cx s = (Inl Err_NoRoute, s) \<and>
    alias_copy C inner cverb R (q\<lparr>cr_source := u\<rparr>) s = (Inl Err_NoRoute, s) \<and>
    alias_rename C inner rverb R (q\<lparr>cr_source := u\<rparr>) s = (Inl Err_NoRoute, s) \<and>
    (case alias_resolve C inner R (cr_source q) s of
       (Inl e, s1) \<Rightarrow> alias_copy C inner cverb R (q\<lparr>cr_destination := u\<rparr>) s = (Inl e, s1) \<and>
         alias_rename C inner rverb R (q\<lparr>cr_destination := u\<rparr>) s = (Inl e, s1)
     | (Inr source, s1) \<Rightarrow> alias_copy C inner cverb R (q\<lparr>cr_destination := u\<rparr>) s = (Inl Err_NoRoute, s1) \<and>
         alias_rename C inner rverb R (q\<lparr>cr_destination := u\<rparr>) s = (Inl Err_NoRoute, s1))"
proof -
  have "visibility_of_in (visibility_pairs R) u = Vis_Suppressed"
    using derived_never_relaxes[OF assms(1,2)] assms(3) by simp
  note r = resolve_suppressed[OF this]
  show ?thesis
    by (simp add: rewritten_def alias_list_stream_def alias_root_info_for_def alias_copy_def alias_rename_def r
        split: prod.splits sum.splits)
qed

definition example_copy :: copy_request where
  "example_copy = \<lparr>cr_source = example_there, cr_destination = example_addr,
     cr_options = \<lparr>co_if_source = None, co_if_dest = Dest_Overwrite, co_message = None\<rparr>, cr_extensions = Map.empty\<rparr>"

theorem suppressed_never_dispatched_witness:
  "alias_delete ref_crate (\<lambda>a cx s. (Inl Err_NoRoute, s)) (\<lambda>a (x :: unit) s. (Inr (), s)) example_rules example_addr () (0 :: nat) =
     (Inl Err_NoRoute, 0) \<and>
   alias_rename ref_crate (\<lambda>a cx s. (Inl Err_NoRoute, s)) (\<lambda>q s. (Inr (), s + 1)) example_rules example_copy (0 :: nat) =
     (Inl Err_NoRoute, 0)"
proof -
  have a: "visibility_of_in (authored_pairs example_rules) example_addr = Vis_Suppressed" by code_simp
  note p = suppressed_never_dispatched[OF example_rules_plain example_canonical(1) a]
  obtain source where source: "alias_resolve ref_crate (\<lambda>a cx s. (Inl Err_NoRoute, s)) example_rules
      (cr_source example_copy) (0 :: nat) = (Inr source, 0)"
  proof -
    have "longest_matching_rule (alias_pairs_for example_rules example_there) example_there = None"
      "visibility_of_in (visibility_pairs example_rules) example_there \<noteq> Vis_Suppressed" by code_simp+
    then show thesis
      by (intro that) (simp add: alias_resolve_def walk_chain_async_def walk_async_loop.simps example_copy_def Let_def)
  qed
  have copy: "example_copy\<lparr>cr_destination := example_addr\<rparr> = example_copy" by (simp add: example_copy_def)
  have "alias_rename ref_crate (\<lambda>a cx s. (Inl Err_NoRoute, s)) (\<lambda>q s. (Inr (), s + 1)) example_rules example_copy (0 :: nat) =
      (Inl Err_NoRoute, 0)"
    using p[where q = example_copy and C = ref_crate and inner = "\<lambda>a cx s. (Inl Err_NoRoute, s)" and s = "0 :: nat"
        and rverb = "\<lambda>q s. (Inr (), s + 1)", THEN conjunct2, THEN conjunct2, THEN conjunct2, THEN conjunct2, THEN conjunct2]
    unfolding source copy by simp
  then show ?thesis unfolding alias_delete_def by (intro conjI p[THEN conjunct1])
qed

text \<open>What the layer advertises: a root it lists is never suppressed and its flag agrees with its
  visibility; it is either a root of the layer below, with a visibility at least as restrictive
  as that root's own, or the mount of an alias whose chain ends at a present root, with the
  alias rule's visibility and without the owner of the physical root.\<close>

theorem advertised_roots_exact:
  assumes "r \<in> set (project_advertised_roots C aliases vis roots)"
  shows "ri_visibility r \<noteq> Vis_Suppressed \<and> (ri_visible r \<longleftrightarrow> ri_visibility r = Vis_Visible) \<and>
    ((\<exists>root \<in> set roots. ri_root r = ri_root root \<and>
        ri_visibility r = most_restrictive_visibility (ri_visibility root) (visibility_of_in vis (ri_root root))) \<or>
     (\<exists>al \<in> set aliases. ri_root r = ap_from al \<and> ri_owning_target r = None \<and>
        ri_visibility r = visibility_of_in vis (ap_from al) \<and>
        snd (chain_terminal C (projection_pairs aliases) roots (ap_to al)) = Alias_Live))"
proof -
  from assms consider
      root where "root \<in> set roots" "retained_root vis root = Some r"
    | al where "al \<in> set aliases" "advertised_alias C (projection_pairs aliases) vis roots al = Some r"
    by (auto simp: project_advertised_roots_def List.map_filter_def)
  then show ?thesis
  proof cases
    case 1
    then show ?thesis
      by (auto simp: retained_root_def mark_visibility_def effective_visibility_def Let_def split: if_splits)
  next
    case 2
    then show ?thesis
      by (auto simp: advertised_alias_def synthesize_alias_root_def mark_visibility_def Let_def
          split: if_splits prod.splits)
  qed
qed

definition example_root :: root_info where
  "example_root = (bare_alias_root example_to)\<lparr>ri_owning_target := Some ''backend'', ri_visibility := Vis_Hidden, ri_visible := False\<rparr>"

definition example_alias :: alias_projection where
  "example_alias = \<lparr>ap_from = example_from, ap_to = example_to, ap_source = Alias_Runtime False, ap_display_name = None,
     ap_user_metadata = Map.empty\<rparr>"

theorem advertised_roots_exact_witness:
  "let r = synthesize_alias_root example_alias (Some example_root) Alias_Live Vis_Visible in
   ri_visible r \<and> ri_owning_target r = None \<and> ri_visibility r \<noteq> Vis_Suppressed"
proof -
  let ?r = "synthesize_alias_root example_alias (Some example_root) Alias_Live Vis_Visible"
  have "chain_terminal ref_crate [(example_from, example_to)] [example_root] example_to = (Some example_root, Alias_Live)"
  proof -
    have "walk_chain ref_crate [(example_from, example_to)] example_to
        (\<lambda>a. map_option (\<lambda>r. specificity_of (ri_root r)) (covering [example_root] a)) =
      Inr \<lparr>res_address = example_to, res_hops = [], res_first_hop_source = None, res_visibility = []\<rparr>" by code_simp
    moreover have "is_ancestor_or_self (ri_root example_root) example_to" by code_simp
    ultimately show ?thesis by (simp add: chain_terminal_def covering_def)
  qed
  then have "?r \<in> set (project_advertised_roots ref_crate [example_alias] [] [example_root])"
    by (simp add: project_advertised_roots_def List.map_filter_def advertised_alias_def projection_pairs_def
        example_alias_def visibility_of_in_def)
  from advertised_roots_exact[OF this] show ?thesis
    by (simp add: Let_def synthesize_alias_root_def mark_visibility_def)
qed

lemma probed_rank_covering:
  "probed_rank (\<lambda>a. case covering roots a of Some r \<Rightarrow> Inr r | None \<Rightarrow> Inl Err_NoRoute) =
     (\<lambda>a. map_option (\<lambda>r. specificity_of (ri_root r)) (covering roots a))"
  by (rule ext) (auto simp: probed_rank_def covering_def split: option.splits dest!: max_by_key_in)

text \<open>Dispatch and advertisement agree: when the layer below answers \<open>root_info_for\<close> from the
  roots it advertises, the walk that serves a caller's address is the walk that classifies an
  alias from the snapshot of those roots, with the source of the first rule added.\<close>

theorem dispatch_agrees_with_advertisement:
  assumes "\<And>a. inner a no_extensions s = (case covering roots a of Some r \<Rightarrow> Inr r | None \<Rightarrow> Inl Err_NoRoute, s)"
    and "generated_rule_may_answer u"
  shows "walk_chain_async C inner R u s =
    (map_sum id (\<lambda>r. r\<lparr>res_first_hop_source := hop_source R (res_hops r)\<rparr>)
       (walk_chain C (alias_pairs R) u (\<lambda>a. map_option (\<lambda>r. specificity_of (ri_root r)) (covering roots a))), s)"
  using walk_async_is_walk[of inner s, OF assms(1)] assms(2)
  by (auto simp: walk_chain_async_def walk_chain_def alias_pairs_for_def probed_rank_covering split: sum.splits)

theorem dispatch_agrees_with_advertisement_witness:
  "fst (walk_chain_async ref_crate (\<lambda>a cx s. (case covering [example_root] a of Some r \<Rightarrow> Inr r | None \<Rightarrow> Inl Err_NoRoute, s))
     \<lparr>rs_aliases = [example_rule example_from None None], rs_visibility = []\<rparr> example_addr (0 :: nat)) =
   Inr \<lparr>res_address = example_there, res_hops = [(example_from, example_to)],
        res_first_hop_source = Some (Alias_Runtime False), res_visibility = []\<rparr>"
proof -
  let ?R = "\<lparr>rs_aliases = [example_rule example_from None None], rs_visibility = []\<rparr>"
  let ?rank = "\<lambda>a. map_option (\<lambda>r. specificity_of (ri_root r)) (covering [example_root] a)"
  have g: "generated_rule_may_answer example_addr" by code_simp
  have p: "alias_pairs ?R = [(example_from, example_to)]" by (simp add: alias_pairs_def example_rule_def)
  have w: "walk_chain ref_crate [(example_from, example_to)] example_addr ?rank =
    Inr \<lparr>res_address = example_there, res_hops = [(example_from, example_to)], res_first_hop_source = None,
         res_visibility = []\<rparr>" by code_simp
  show ?thesis
    by (subst dispatch_agrees_with_advertisement[where roots = "[example_root]", OF _ g])
       (simp_all only: p w fst_conv, simp_all add: hop_source_def example_rule_def)
qed

section \<open>A rule set that validates and a chain beyond the cap\<close>

definition deep :: "string \<Rightarrow> string \<Rightarrow> url" where
  "deep h p = base_url ''s3'' (Some h) p"

definition deep_rules :: "alias_pair list" where
  "deep_rules =
     [(deep ''a'' ''/'', deep ''b'' ''/''),
      (deep ''b'' ''/'', deep ''c'' ''/''),
      (deep ''c'' ''/'', deep ''d'' ''/''),
      (deep ''d'' ''/'', deep ''e'' ''/''),
      (deep ''e'' ''/'', deep ''f'' ''/''),
      (deep ''f'' ''/'', deep ''g'' ''/''),
      (deep ''g'' ''/'', deep ''h'' ''/''),
      (deep ''h'' ''/'', deep ''i'' ''/''),
      (deep ''i'' ''/0'', deep ''j'' ''/0'')]"

abbreviation deep_walk :: "nat \<Rightarrow> url \<Rightarrow> alias_pair list \<Rightarrow> string list \<Rightarrow> (url \<times> alias_pair list) result" where
  "deep_walk \<equiv> walk_loop ref_crate deep_rules (\<lambda>_. None)"

lemma as_str_deep [simp]: "crate_as_str ref_crate (deep h p) = ''s3://'' @ h @ p"
  by (simp add: ref_crate_def serialized_def deep_def base_url_def authority_str_def userinfo_str_def tail_str_def)

lemma deep_step:
  assumes "longest_matching_rule deep_rules (deep h p) = Some (f, t)" "replace_prefix ref_crate (deep h p) f t = Inr (deep h' p)"
  shows "deep_walk (Suc n) (deep h p) hops seen =
    (if ''s3://'' @ h @ p \<in> set seen then Inl Err_AliasChainTooLong
     else deep_walk n (deep h' p) (hops @ [(f, t)]) ((''s3://'' @ h @ p) # seen))"
  using walk_loop_goes_on(2)[OF assms(1), of "\<lambda>_. None"] assms(2) by (simp add: interrupted_def)

lemma deep_top_a:
  "deep_walk (Suc n) (deep ''a'' ''/'') hops seen =
    (if ''s3://'' @ ''a'' @ ''/'' \<in> set seen then Inl Err_AliasChainTooLong
     else deep_walk n (deep ''b'' ''/'') (hops @ [(deep ''a'' ''/'', deep ''b'' ''/'')]) ((''s3://'' @ ''a'' @ ''/'') # seen))"
  by (rule deep_step; code_simp)

lemma deep_below_a:
  "deep_walk (Suc n) (deep ''a'' ''/0'') hops seen =
    (if ''s3://'' @ ''a'' @ ''/0'' \<in> set seen then Inl Err_AliasChainTooLong
     else deep_walk n (deep ''b'' ''/0'') (hops @ [(deep ''a'' ''/'', deep ''b'' ''/'')]) ((''s3://'' @ ''a'' @ ''/0'') # seen))"
  by (rule deep_step; code_simp)

lemma deep_top_b:
  "deep_walk (Suc n) (deep ''b'' ''/'') hops seen =
    (if ''s3://'' @ ''b'' @ ''/'' \<in> set seen then Inl Err_AliasChainTooLong
     else deep_walk n (deep ''c'' ''/'') (hops @ [(deep ''b'' ''/'', deep ''c'' ''/'')]) ((''s3://'' @ ''b'' @ ''/'') # seen))"
  by (rule deep_step; code_simp)

lemma deep_below_b:
  "deep_walk (Suc n) (deep ''b'' ''/0'') hops seen =
    (if ''s3://'' @ ''b'' @ ''/0'' \<in> set seen then Inl Err_AliasChainTooLong
     else deep_walk n (deep ''c'' ''/0'') (hops @ [(deep ''b'' ''/'', deep ''c'' ''/'')]) ((''s3://'' @ ''b'' @ ''/0'') # seen))"
  by (rule deep_step; code_simp)

lemma deep_top_c:
  "deep_walk (Suc n) (deep ''c'' ''/'') hops seen =
    (if ''s3://'' @ ''c'' @ ''/'' \<in> set seen then Inl Err_AliasChainTooLong
     else deep_walk n (deep ''d'' ''/'') (hops @ [(deep ''c'' ''/'', deep ''d'' ''/'')]) ((''s3://'' @ ''c'' @ ''/'') # seen))"
  by (rule deep_step; code_simp)

lemma deep_below_c:
  "deep_walk (Suc n) (deep ''c'' ''/0'') hops seen =
    (if ''s3://'' @ ''c'' @ ''/0'' \<in> set seen then Inl Err_AliasChainTooLong
     else deep_walk n (deep ''d'' ''/0'') (hops @ [(deep ''c'' ''/'', deep ''d'' ''/'')]) ((''s3://'' @ ''c'' @ ''/0'') # seen))"
  by (rule deep_step; code_simp)

lemma deep_top_d:
  "deep_walk (Suc n) (deep ''d'' ''/'') hops seen =
    (if ''s3://'' @ ''d'' @ ''/'' \<in> set seen then Inl Err_AliasChainTooLong
     else deep_walk n (deep ''e'' ''/'') (hops @ [(deep ''d'' ''/'', deep ''e'' ''/'')]) ((''s3://'' @ ''d'' @ ''/'') # seen))"
  by (rule deep_step; code_simp)

lemma deep_below_d:
  "deep_walk (Suc n) (deep ''d'' ''/0'') hops seen =
    (if ''s3://'' @ ''d'' @ ''/0'' \<in> set seen then Inl Err_AliasChainTooLong
     else deep_walk n (deep ''e'' ''/0'') (hops @ [(deep ''d'' ''/'', deep ''e'' ''/'')]) ((''s3://'' @ ''d'' @ ''/0'') # seen))"
  by (rule deep_step; code_simp)

lemma deep_top_e:
  "deep_walk (Suc n) (deep ''e'' ''/'') hops seen =
    (if ''s3://'' @ ''e'' @ ''/'' \<in> set seen then Inl Err_AliasChainTooLong
     else deep_walk n (deep ''f'' ''/'') (hops @ [(deep ''e'' ''/'', deep ''f'' ''/'')]) ((''s3://'' @ ''e'' @ ''/'') # seen))"
  by (rule deep_step; code_simp)

lemma deep_below_e:
  "deep_walk (Suc n) (deep ''e'' ''/0'') hops seen =
    (if ''s3://'' @ ''e'' @ ''/0'' \<in> set seen then Inl Err_AliasChainTooLong
     else deep_walk n (deep ''f'' ''/0'') (hops @ [(deep ''e'' ''/'', deep ''f'' ''/'')]) ((''s3://'' @ ''e'' @ ''/0'') # seen))"
  by (rule deep_step; code_simp)

lemma deep_top_f:
  "deep_walk (Suc n) (deep ''f'' ''/'') hops seen =
    (if ''s3://'' @ ''f'' @ ''/'' \<in> set seen then Inl Err_AliasChainTooLong
     else deep_walk n (deep ''g'' ''/'') (hops @ [(deep ''f'' ''/'', deep ''g'' ''/'')]) ((''s3://'' @ ''f'' @ ''/'') # seen))"
  by (rule deep_step; code_simp)

lemma deep_below_f:
  "deep_walk (Suc n) (deep ''f'' ''/0'') hops seen =
    (if ''s3://'' @ ''f'' @ ''/0'' \<in> set seen then Inl Err_AliasChainTooLong
     else deep_walk n (deep ''g'' ''/0'') (hops @ [(deep ''f'' ''/'', deep ''g'' ''/'')]) ((''s3://'' @ ''f'' @ ''/0'') # seen))"
  by (rule deep_step; code_simp)

lemma deep_top_g:
  "deep_walk (Suc n) (deep ''g'' ''/'') hops seen =
    (if ''s3://'' @ ''g'' @ ''/'' \<in> set seen then Inl Err_AliasChainTooLong
     else deep_walk n (deep ''h'' ''/'') (hops @ [(deep ''g'' ''/'', deep ''h'' ''/'')]) ((''s3://'' @ ''g'' @ ''/'') # seen))"
  by (rule deep_step; code_simp)

lemma deep_below_g:
  "deep_walk (Suc n) (deep ''g'' ''/0'') hops seen =
    (if ''s3://'' @ ''g'' @ ''/0'' \<in> set seen then Inl Err_AliasChainTooLong
     else deep_walk n (deep ''h'' ''/0'') (hops @ [(deep ''g'' ''/'', deep ''h'' ''/'')]) ((''s3://'' @ ''g'' @ ''/0'') # seen))"
  by (rule deep_step; code_simp)

lemma deep_top_h:
  "deep_walk (Suc n) (deep ''h'' ''/'') hops seen =
    (if ''s3://'' @ ''h'' @ ''/'' \<in> set seen then Inl Err_AliasChainTooLong
     else deep_walk n (deep ''i'' ''/'') (hops @ [(deep ''h'' ''/'', deep ''i'' ''/'')]) ((''s3://'' @ ''h'' @ ''/'') # seen))"
  by (rule deep_step; code_simp)

lemma deep_below_h:
  "deep_walk (Suc n) (deep ''h'' ''/0'') hops seen =
    (if ''s3://'' @ ''h'' @ ''/0'' \<in> set seen then Inl Err_AliasChainTooLong
     else deep_walk n (deep ''i'' ''/0'') (hops @ [(deep ''h'' ''/'', deep ''i'' ''/'')]) ((''s3://'' @ ''h'' @ ''/0'') # seen))"
  by (rule deep_step; code_simp)

lemma deep_last:
  "deep_walk (Suc n) (deep ''i'' ''/0'') hops seen =
    (if ''s3://'' @ ''i'' @ ''/0'' \<in> set seen then Inl Err_AliasChainTooLong
     else deep_walk n (deep ''j'' ''/0'') (hops @ [(deep ''i'' ''/0'', deep ''j'' ''/0'')]) ((''s3://'' @ ''i'' @ ''/0'') # seen))"
  by (rule deep_step; code_simp)

lemma deep_ends:
  "deep_walk n (deep ''i'' ''/'') hops seen = Inr (deep ''i'' ''/'', hops)"
  "deep_walk n (deep ''j'' ''/0'') hops seen = Inr (deep ''j'' ''/0'', hops)"
  by (rule walk_loop_ends, code_simp)+

lemma deep_cap: "deep_walk 0 (deep ''i'' ''/0'') hops seen = Inl Err_AliasChainTooLong"
  by (rule walk_loop_goes_on(1)[where f = "deep ''i'' ''/0''" and t = "deep ''j'' ''/0''"]) (code_simp, simp add: interrupted_def)

lemmas deep_walks = deep_top_a deep_below_a deep_top_b deep_below_b deep_top_c deep_below_c deep_top_d deep_below_d deep_top_e deep_below_e deep_top_f deep_below_f deep_top_g deep_below_g deep_top_h deep_below_h deep_last deep_ends deep_cap

lemma deep_key: "node_key (deep h p) = (''s3'', Some h, None, node_path (deep h p), None)"
  "url_cannot_be_a_base (deep h p) = False" "url_query (deep h p) = None" "url_username (deep h p) = []"
  "url_password (deep h p) = None"
  by (simp_all add: node_key_def deep_def base_url_def)

lemma deep_starts:
  "\<not> isl (walk_chain ref_crate deep_rules (deep ''a'' ''/'') (\<lambda>_. None))"
  "\<not> isl (walk_chain ref_crate deep_rules (deep ''b'' ''/'') (\<lambda>_. None))"
  "\<not> isl (walk_chain ref_crate deep_rules (deep ''c'' ''/'') (\<lambda>_. None))"
  "\<not> isl (walk_chain ref_crate deep_rules (deep ''d'' ''/'') (\<lambda>_. None))"
  "\<not> isl (walk_chain ref_crate deep_rules (deep ''e'' ''/'') (\<lambda>_. None))"
  "\<not> isl (walk_chain ref_crate deep_rules (deep ''f'' ''/'') (\<lambda>_. None))"
  "\<not> isl (walk_chain ref_crate deep_rules (deep ''g'' ''/'') (\<lambda>_. None))"
  "\<not> isl (walk_chain ref_crate deep_rules (deep ''h'' ''/'') (\<lambda>_. None))"
  "\<not> isl (walk_chain ref_crate deep_rules (deep ''i'' ''/0'') (\<lambda>_. None))"
  by (simp_all add: walk_chain_def MAX_ALIAS_HOPS_def eval_nat_numeral deep_walks)

lemma validate_rule:
  assumes "\<not> isl (walk_chain C rules f (\<lambda>_. None))" "\<not> url_cannot_be_a_base f" "\<not> url_cannot_be_a_base t"
    "url_query f = None" "url_query t = None" "url_username f = []" "url_password f = None" "node_key f \<notin> set seen"
  shows "validate_alias_loop C rules seen ((f, t) # rest) = validate_alias_loop C rules (node_key f # seen) rest"
  using assms by (cases "walk_chain C rules f (\<lambda>_. None)") auto

text \<open>The validation of a rule set does not bound the chains of dispatch. Every rule of
  \<open>deep_rules\<close> passes \<open>validate_alias_rules\<close>, which walks from the scopes of the rules alone; an
  address below those scopes can meet a deeper rule, so its chain has a ninth hop and dispatch
  answers \<open>AliasChainTooLong\<close> with no rule changed in between.\<close>

theorem validation_does_not_bound_dispatch:
  "validate_alias_rules ref_crate deep_rules = Inr () \<and>
   walk_chain ref_crate deep_rules (deep ''a'' ''/0'') (\<lambda>_. None) = Inl Err_AliasChainTooLong"
proof
  show "validate_alias_rules ref_crate deep_rules = Inr ()"
    unfolding validate_alias_rules_def
    by (subst (2) deep_rules_def) (simp add: validate_rule deep_starts deep_key del: validate_alias_loop.simps(2))
  show "walk_chain ref_crate deep_rules (deep ''a'' ''/0'') (\<lambda>_. None) = Inl Err_AliasChainTooLong"
    by (simp add: walk_chain_def MAX_ALIAS_HOPS_def eval_nat_numeral deep_walks)
qed

end
