(* ===== verification/Ov_Router.thy ===== *)
theory Ov_Router
  imports Ov_Routing Ov_Transfer "HOL-Library.List_Lexorder" "HOL-Library.Char_ord"
begin

text \<open>
  The router layer (\<open>ovstorage-plugin-core/src/router.rs\<close>): it aggregates the roots of its children
  into a route table, dispatches every verb to the child that serves the address, and keeps
  prefixes exclusive across children when connections are added at run time.

  A child is an arbitrary layer and a parameter: its index stands for the handle, so equality of
  indices is \<open>Arc::ptr_eq\<close>. Every call of a child is awaited, and other tasks run meanwhile; the
  parameter therefore maps the whole graph, the router's state included, to the graph after the
  await. A timer, the add gate, the catch-up slot and the fate of a spawned task are parameters of
  the same kind. A panic is the result \<open>None\<close>. Log records are left out.
\<close>

section \<open>Connections\<close>

datatype connection_source = Conn_Static config_layer | Conn_Runtime bool | Conn_BrokerDelivered string

text \<open>The reason of a missing authentication is opaque.\<close>

datatype connection_auth_state =
    Auth_Authenticated nat "nat option" | Auth_Awaiting string | Auth_Failed error_code nat | Auth_Anonymous

record connection =
  conn_id :: string
  conn_backend_kind :: string
  conn_display_name :: string
  conn_source :: connection_source
  conn_capabilities :: capabilities
  conn_current_addresses :: "url list"
  conn_auth_state :: connection_auth_state
  conn_last_probed :: "nat option"
  conn_user_metadata :: "string \<rightharpoonup> string"
  conn_owning_target :: "string option"

record connection_key =
  key_target :: string
  key_id :: string

record connection_snapshot =
  csnap_connections :: "connection list"
  csnap_updates :: bool

text \<open>The secrets of a successful sign-in are opaque; points in time and durations are numbers.\<close>

datatype auth_event =
    Auth_OpenBrowser string nat | Auth_DeviceCode string string nat nat | Auth_Progress string
  | Auth_Succeeded connection "string option" | Auth_Refused error_code | Auth_Cancelled

text \<open>\<open>ro_target\<close> is the layer a connection operation addresses; the router hands the payload on.\<close>

record layer_connection_request =
  ro_target :: string
  ro_payload :: string
  ro_extensions :: extensions

datatype layer_type = Type_Backend | Type_Wrapper | Type_Router

record layer_kind_descriptor =
  kd_kind :: string
  kd_layer_type :: layer_type
  kd_display_name :: string
  kd_description :: "string option"
  kd_config_schema :: "string list"
  kd_credential_schema :: "string list"
  kd_credential_methods :: "string list"
  kd_icon :: "string option"
  kd_accepts_connections :: bool
  kd_auth_capable :: bool
  kd_supports_user_metadata :: bool

definition ROUTER_KIND :: string where "ROUTER_KIND = ''router''"

definition descriptor :: "string \<Rightarrow> layer_type \<Rightarrow> bool \<Rightarrow> layer_kind_descriptor" where
  "descriptor kind layer_type accepts_connections =
     \<lparr>kd_kind = kind, kd_layer_type = layer_type, kd_display_name = kind, kd_description = None,
      kd_config_schema = [], kd_credential_schema = [], kd_credential_methods = [], kd_icon = None,
      kd_accepts_connections = accepts_connections, kd_auth_capable = False,
      kd_supports_user_metadata = False\<rparr>"

definition sole_owning_target :: "string list \<Rightarrow> string option" where
  "sole_owning_target owned_targets = (case owned_targets of [only] \<Rightarrow> Some only | _ \<Rightarrow> None)"

section \<open>State\<close>

type_synonym child = nat
type_synonym binding = "root_info \<times> child"

record claimed_root =
  cl_node :: url
  cl_child :: child
  cl_generation :: nat

record quarantined =
  qu_child :: child
  qu_target :: string
  qu_connection :: string
  qu_nodes :: "url list"

record cross_child_collision =
  cc_node :: url
  cc_layers :: "string list"

text \<open>\<open>st_root_changes\<close> is what the broadcast channel has carried; \<open>st_children\<close> counts the children.\<close>

record router_state =
  st_children :: nat
  st_routes :: "child route_table"
  st_targets :: "string \<rightharpoonup> child"
  st_next_generation :: nat
  st_applied_generation :: nat
  st_claimed_roots :: "claimed_root list"
  st_reported_collisions :: "cross_child_collision list"
  st_quarantined :: "quarantined list"
  st_root_changes :: "root_info_change list"

record 'w graph =
  gr_router :: router_state
  gr_world :: 'w

definition on_router :: "(router_state \<Rightarrow> router_state) \<Rightarrow> 'w graph \<Rightarrow> 'w graph" where
  "on_router f g = g\<lparr>gr_router := f (gr_router g)\<rparr>"

text \<open>What becomes of a task that was spawned: it runs to its end, or it is dropped at an await.\<close>

datatype task_fate = Fate_Runs | Fate_Deadline | Fate_Dropped | Fate_Panics

text \<open>\<open>ch_schedule\<close> is the order in which the children of a fan-out answer, \<open>ch_elapsed\<close> whether the
  time limit passed between two graphs, \<open>ch_gate\<close> the wait for the add gate (false when the
  caller's token fired first), \<open>ch_slot\<close> the wait of a catch-up until its rebuild starts,
  \<open>ch_caller_left\<close> whether the caller's token fires before the catch-up ends.\<close>

record 'w children =
  ch_name :: "child \<Rightarrow> string"
  ch_owned_targets :: "child \<Rightarrow> 'w graph \<Rightarrow> string list"
  ch_list_kinds :: "child \<Rightarrow> 'w graph \<Rightarrow> layer_kind_descriptor list result"
  ch_list_address_roots :: "child \<Rightarrow> 'w graph \<Rightarrow> root_info list result \<times> 'w graph"
  ch_list_connections :: "child \<Rightarrow> 'w graph \<Rightarrow> connection list result \<times> 'w graph"
  ch_probe :: "child \<Rightarrow> layer_connection_request \<Rightarrow> 'w graph \<Rightarrow> connection result \<times> 'w graph"
  ch_add_connection :: "child \<Rightarrow> layer_connection_request \<Rightarrow> 'w graph \<Rightarrow> connection result \<times> 'w graph"
  ch_remove_connection :: "child \<Rightarrow> connection_key \<Rightarrow> extensions \<Rightarrow> 'w graph \<Rightarrow> unit result \<times> 'w graph"
  ch_update_credentials :: "child \<Rightarrow> layer_connection_request \<Rightarrow> 'w graph \<Rightarrow> connection result \<times> 'w graph"
  ch_update_attributes :: "child \<Rightarrow> layer_connection_request \<Rightarrow> 'w graph \<Rightarrow> connection result \<times> 'w graph"
  ch_authenticate :: "child \<Rightarrow> layer_connection_request \<Rightarrow> 'w graph \<Rightarrow> auth_event result list result \<times> 'w graph"
  ch_schedule :: "'w graph \<Rightarrow> child list"
  ch_elapsed :: "'w graph \<Rightarrow> 'w graph \<Rightarrow> bool"
  ch_gate :: "'w graph \<Rightarrow> bool \<times> 'w graph"
  ch_slot :: "'w graph \<Rightarrow> 'w graph"
  ch_fate :: "'w graph \<Rightarrow> task_fate"
  ch_caller_left :: "'w graph \<Rightarrow> bool"
  ch_gone :: "'w graph \<Rightarrow> bool"

text \<open>A caller's cancellation token: absent, or a test whether it has fired.\<close>

type_synonym 'w token = "('w graph \<Rightarrow> bool) option"

definition bail_if_cancelled :: "'w token \<Rightarrow> 'w graph \<Rightarrow> unit result" where
  "bail_if_cancelled cancel g =
     (case cancel of Some fired \<Rightarrow> if fired g then Inl Err_Cancelled else Inr () | None \<Rightarrow> Inr ())"

definition bounded_child_call ::
    "'w children \<Rightarrow> ('w graph \<Rightarrow> 'a \<times> 'w graph) \<Rightarrow> 'w graph \<Rightarrow> 'a option \<times> 'w graph" where
  "bounded_child_call I call g = (let (r, g') = call g in (if ch_elapsed I g g' then None else Some r, g'))"

definition bounded_child_query ::
    "'w children \<Rightarrow> ('w graph \<Rightarrow> 'a result \<times> 'w graph) \<Rightarrow> 'w graph \<Rightarrow> 'a result \<times> 'w graph" where
  "bounded_child_query I query g =
     (let (r, g') = query g in (if ch_elapsed I g g' then Inl Err_DeadlineExceeded else r, g'))"

section \<open>Generations and claims\<close>

text \<open>The counter is a \<open>u64\<close>; the checked increment of the old value panics at its end.\<close>

definition next_generation :: "router_state \<Rightarrow> (nat \<times> router_state) option" where
  "next_generation st =
     (let old = st_next_generation st in
      if old + 1 = 2 ^ 64 then None else Some (old + 1, st\<lparr>st_next_generation := old + 1\<rparr>))"

definition claim_roots :: "child \<Rightarrow> url list \<Rightarrow> nat \<Rightarrow> router_state \<Rightarrow> router_state" where
  "claim_roots child nodes generation st =
     (if nodes = [] then st
      else if generation \<le> st_applied_generation st then st
      else st\<lparr>st_claimed_roots := st_claimed_roots st @
                map (\<lambda>node. \<lparr>cl_node = node, cl_child = child, cl_generation = generation\<rparr>) nodes\<rparr>)"

definition release_claims_through :: "nat \<Rightarrow> router_state \<Rightarrow> router_state" where
  "release_claims_through applied st =
     st\<lparr>st_claimed_roots := filter (\<lambda>claim. applied < cl_generation claim) (st_claimed_roots st)\<rparr>"

definition discard_claims_at :: "nat \<Rightarrow> router_state \<Rightarrow> router_state" where
  "discard_claims_at generation st =
     st\<lparr>st_claimed_roots := filter (\<lambda>claim. cl_generation claim \<noteq> generation) (st_claimed_roots st)\<rparr>"

section \<open>Quarantine\<close>

definition claims_node :: "quarantined \<Rightarrow> url \<Rightarrow> bool" where
  "claims_node held node = list_ex (\<lambda>claimed. same_node claimed node) (qu_nodes held)"

definition quarantine_key :: "child \<Rightarrow> string \<Rightarrow> string \<Rightarrow> quarantined \<Rightarrow> bool" where
  "quarantine_key child target cid held \<longleftrightarrow>
     qu_child held = child \<and> qu_target held = target \<and> qu_connection held = cid"

definition quarantine :: "child \<Rightarrow> string \<Rightarrow> connection \<Rightarrow> url list \<Rightarrow> router_state \<Rightarrow> router_state" where
  "quarantine child target connection nodes st =
     (if list_ex (quarantine_key child target (conn_id connection)) (st_quarantined st) then st
      else st\<lparr>st_quarantined := st_quarantined st @
                [\<lparr>qu_child = child, qu_target = target, qu_connection = conn_id connection, qu_nodes = nodes\<rparr>]\<rparr>)"

definition lift_quarantine :: "child \<Rightarrow> string \<Rightarrow> string \<Rightarrow> router_state \<Rightarrow> router_state" where
  "lift_quarantine child target cid st =
     st\<lparr>st_quarantined := filter (\<lambda>held. \<not> quarantine_key child target cid held) (st_quarantined st)\<rparr>"

text \<open>\<open>owned\<close> gives the targets a child owns.\<close>

definition withholds :: "(child \<Rightarrow> string list) \<Rightarrow> quarantined \<Rightarrow> binding \<Rightarrow> bool" where
  "withholds owned held b =
     (let root = fst b; id_alone_suffices = length (owned (qu_child held)) \<le> 1 in
      if qu_child held \<noteq> snd b then False
      else
        (case ri_connection_id root of
           Some cid \<Rightarrow>
             (if cid \<noteq> qu_connection held then False
              else
                (case ri_owning_target root of
                   Some owner \<Rightarrow> owner = qu_target held
                 | None \<Rightarrow> if id_alone_suffices then True else claims_node held (ri_root root)))
         | None \<Rightarrow> claims_node held (ri_root root)))"

fun position :: "('a \<Rightarrow> bool) \<Rightarrow> 'a list \<Rightarrow> nat option" where
  "position P [] = None"
| "position P (x # xs) = (if P x then Some 0 else map_option Suc (position P xs))"

text \<open>The bindings that stay, and the entries for which nothing was published.\<close>

definition withhold_quarantined ::
    "(child \<Rightarrow> string list) \<Rightarrow> quarantined list \<Rightarrow> binding list \<Rightarrow> binding list \<times> quarantined list" where
  "withhold_quarantined owned held routes =
     (let hit = (\<lambda>b. position (\<lambda>q. withholds owned q b) held);
          matched = List.map_filter hit routes
      in (filter (\<lambda>b. hit b = None) routes,
          map snd (filter (\<lambda>(index, _). index \<notin> set matched) (enumerate 0 held))))"

fun retire_confirmed_quarantines :: "'w children \<Rightarrow> quarantined list \<Rightarrow> 'w graph \<Rightarrow> 'w graph" where
  "retire_confirmed_quarantines I [] g = g"
| "retire_confirmed_quarantines I (candidate # candidates) g =
     (let (listed, g1) = bounded_child_call I (ch_list_connections I (qu_child candidate)) g in
      retire_confirmed_quarantines I candidates
        (case listed of
           Some (Inr connections) \<Rightarrow>
             (if list_ex (\<lambda>c. conn_id c = qu_connection candidate) connections then g1
              else on_router
                     (lift_quarantine (qu_child candidate) (qu_target candidate) (qu_connection candidate)) g1)
         | _ \<Rightarrow> g1))"

section \<open>Collisions\<close>

definition push_name :: "string \<Rightarrow> string list \<Rightarrow> string list" where
  "push_name name layers = (if name \<in> set layers then layers else layers @ [name])"

fun record_collision ::
    "url \<Rightarrow> string \<Rightarrow> string \<Rightarrow> cross_child_collision list \<Rightarrow> cross_child_collision list" where
  "record_collision node n m [] = [\<lparr>cc_node = node, cc_layers = push_name m (push_name n [])\<rparr>]"
| "record_collision node n m (found # rest) =
     (if same_node (cc_node found) node
      then found\<lparr>cc_layers := push_name m (push_name n (cc_layers found))\<rparr> # rest
      else found # record_collision node n m rest)"

definition collides :: "binding \<Rightarrow> binding \<Rightarrow> bool" where
  "collides a b \<longleftrightarrow> snd a \<noteq> snd b \<and> same_node (ri_root (fst a)) (ri_root (fst b))"

fun collision_scan ::
    "(child \<Rightarrow> string) \<Rightarrow> binding list \<Rightarrow> cross_child_collision list \<Rightarrow> cross_child_collision list" where
  "collision_scan name [] collisions = collisions"
| "collision_scan name (b # bs) collisions =
     collision_scan name bs
       (foldl (\<lambda>found other.
                 if \<not> collides b other then found
                 else record_collision (ri_root (fst b)) (name (snd b)) (name (snd other)) found)
          collisions bs)"

definition cross_child_collisions ::
    "url_crate \<Rightarrow> (child \<Rightarrow> string) \<Rightarrow> binding list \<Rightarrow> cross_child_collision list" where
  "cross_child_collisions C name routes =
     sort_key (\<lambda>c. crate_as_str C (cc_node c))
       (map (\<lambda>c. c\<lparr>cc_layers := sort (cc_layers c)\<rparr>) (collision_scan name routes []))"

definition report_cross_child_collisions ::
    "url_crate \<Rightarrow> (child \<Rightarrow> string) \<Rightarrow> binding list \<Rightarrow> router_state \<Rightarrow> router_state" where
  "report_cross_child_collisions C name routes st =
     (let found = cross_child_collisions C name routes in
      if st_reported_collisions st = found then st else st\<lparr>st_reported_collisions := found\<rparr>)"

section \<open>Rebuilding the table\<close>

definition serving :: "child route_table \<Rightarrow> node_key \<rightharpoonup> child" where
  "serving table = map_of (map (\<lambda>(root, child). (node_key (ri_root root), child)) (rt_entries table))"

definition incumbents_first :: "child route_table \<Rightarrow> binding list \<Rightarrow> binding list" where
  "incumbents_first published routes =
     (let incumbent = (\<lambda>b. serving published (node_key (ri_root (fst b))) = Some (snd b)) in
      if rt_entries published = [] then routes
      else filter incumbent routes @ filter (\<lambda>b. \<not> incumbent b) routes)"

text \<open>The part of a rebuild that runs under the \<open>applied_generation\<close> lock.\<close>

definition publish :: "nat \<Rightarrow> binding list \<Rightarrow> (string \<rightharpoonup> child) \<Rightarrow> router_state \<Rightarrow> router_state" where
  "publish generation routes targets st =
     (if generation \<le> st_applied_generation st
      then release_claims_through (st_applied_generation st) st
      else
        (let table = route_table_build (incumbents_first (st_routes st) routes);
             st1 = st\<lparr>st_applied_generation := generation, st_routes := table, st_targets := targets\<rparr>;
             st2 = release_claims_through generation st1
         in st2\<lparr>st_root_changes := st_root_changes st2 @ [Change_Snapshot (route_roots table)]\<rparr>))"

fun insert_targets :: "child \<Rightarrow> string list \<Rightarrow> (string \<rightharpoonup> child) \<Rightarrow> (string \<rightharpoonup> child) result" where
  "insert_targets child [] targets = Inr targets"
| "insert_targets child (target # rest) targets =
     (if targets target \<noteq> None then Inl Err_InvalidArgument
      else insert_targets child rest (targets(target \<mapsto> child)))"

fun aggregate ::
    "(child \<Rightarrow> string list) \<Rightarrow> (child \<times> root_info list) list \<Rightarrow> binding list \<Rightarrow> (string \<rightharpoonup> child) \<Rightarrow>
     (binding list \<times> (string \<rightharpoonup> child)) result" where
  "aggregate owned [] routes targets = Inr (routes, targets)"
| "aggregate owned ((child, roots) # rest) routes targets =
     (case insert_targets child (owned child) targets of
        Inl e \<Rightarrow> Inl e
      | Inr targets' \<Rightarrow> aggregate owned rest (routes @ map (\<lambda>root. (root, child)) roots) targets')"

text \<open>\<open>try_join_all\<close>: the children are asked at once, answer in any order, and the first error ends
  the fan-out; the answers come back in the order of the children.\<close>

fun fan_out ::
    "'w children \<Rightarrow> child list \<Rightarrow> (child \<rightharpoonup> root_info list) \<Rightarrow> 'w graph \<Rightarrow>
     (child \<rightharpoonup> root_info list) result \<times> 'w graph" where
  "fan_out I [] answers g = (Inr answers, g)"
| "fan_out I (child # rest) answers g =
     (case ch_list_address_roots I child g of
        (Inl e, g') \<Rightarrow> (Inl e, g')
      | (Inr roots, g') \<Rightarrow> fan_out I rest (answers(child \<mapsto> roots)) g')"

definition in_child_order :: "nat \<Rightarrow> (child \<rightharpoonup> root_info list) \<Rightarrow> (child \<times> root_info list) list" where
  "in_child_order n answers =
     map (\<lambda>child. (child, case answers child of Some roots \<Rightarrow> roots | None \<Rightarrow> [])) [0..<n]"

definition rebuild :: "url_crate \<Rightarrow> 'w children \<Rightarrow> nat \<Rightarrow> 'w graph \<Rightarrow> unit result \<times> 'w graph" where
  "rebuild C I generation g =
     (case fan_out I (ch_schedule I g) Map.empty g of
        (Inl e, g1) \<Rightarrow> (Inl e, g1)
      | (Inr answers, g1) \<Rightarrow>
          (let owned = (\<lambda>child. ch_owned_targets I child g1) in
           case aggregate owned (in_child_order (st_children (gr_router g1)) answers) [] Map.empty of
             Inl e \<Rightarrow> (Inl e, g1)
           | Inr (routes, targets) \<Rightarrow>
               (let (kept, unpublished) =
                      withhold_quarantined owned (st_quarantined (gr_router g1)) routes;
                    g2 = retire_confirmed_quarantines I unpublished g1
                in (Inr (),
                    on_router (\<lambda>st. publish generation kept targets
                                      (report_cross_child_collisions C (ch_name I) kept st)) g2))))"

section \<open>Catching up after a mutation\<close>

definition catch_up_detached :: error_code where "catch_up_detached = Err_CommitAmbiguous"
definition catch_up_abandoned :: error_code where "catch_up_abandoned = Err_CommitAmbiguous"

text \<open>The task waits for the catch-up slot and rebuilds, both under one deadline. A task that meets
  its deadline or is cancelled stops at an await, before it publishes.\<close>

definition spawn_route_catch_up ::
    "url_crate \<Rightarrow> 'w children \<Rightarrow> nat \<Rightarrow> 'w graph \<Rightarrow> unit result option \<times> 'w graph" where
  "spawn_route_catch_up C I generation g =
     (case ch_fate I g of
        Fate_Runs \<Rightarrow> (let (r, g') = rebuild C I generation (ch_slot I g) in (Some r, g'))
      | Fate_Deadline \<Rightarrow> (Some (Inl Err_DeadlineExceeded), ch_slot I g)
      | Fate_Dropped \<Rightarrow> (Some (Inl Err_Cancelled), ch_slot I g)
      | Fate_Panics \<Rightarrow> (None, ch_slot I g))"

definition route_catch_up_at ::
    "url_crate \<Rightarrow> 'w children \<Rightarrow> nat \<Rightarrow> 'w token \<Rightarrow> 'w graph \<Rightarrow> unit result \<times> 'w graph" where
  "route_catch_up_at C I generation cancel g =
     (if cancel \<noteq> None \<and> ch_caller_left I g then (Inl catch_up_detached, g)
      else
        (case spawn_route_catch_up C I generation g of
           (Some (Inr u), g') \<Rightarrow> (Inr (), g')
         | (Some (Inl e), g') \<Rightarrow> (Inl catch_up_abandoned, g')
         | (None, g') \<Rightarrow> (Inl catch_up_abandoned, g')))"

definition route_catch_up ::
    "url_crate \<Rightarrow> 'w children \<Rightarrow> 'w token \<Rightarrow> 'w graph \<Rightarrow> (unit result \<times> 'w graph) option" where
  "route_catch_up C I cancel g =
     (case next_generation (gr_router g) of
        None \<Rightarrow> None
      | Some (generation, st) \<Rightarrow> Some (route_catch_up_at C I generation cancel (g\<lparr>gr_router := st\<rparr>)))"

section \<open>Dispatch\<close>

definition router_route :: "url_crate \<Rightarrow> router_state \<Rightarrow> url \<Rightarrow> child result" where
  "router_route C st u =
     (case route_lookup C (st_routes st) u of None \<Rightarrow> Inl Err_NoRoute | Some b \<Rightarrow> Inr (snd b))"

definition route_target :: "router_state \<Rightarrow> string \<Rightarrow> child result" where
  "route_target st target = (case st_targets st target of None \<Rightarrow> Inl Err_NotFound | Some c \<Rightarrow> Inr c)"

text \<open>Every verb on one address goes to the child that serves it.\<close>

definition routed ::
    "url_crate \<Rightarrow> (child \<Rightarrow> url \<Rightarrow> 'x \<Rightarrow> 'w graph \<Rightarrow> 'r result \<times> 'w graph) \<Rightarrow> url \<Rightarrow> 'x \<Rightarrow> 'w graph \<Rightarrow>
     'r result \<times> 'w graph" where
  "routed C verb address x g =
     (case router_route C (gr_router g) address of
        Inl e \<Rightarrow> (Inl e, g)
      | Inr child \<Rightarrow> verb child address x g)"

definition router_root_info_for where "router_root_info_for = routed"
definition router_stat where "router_stat = routed"
definition router_read where "router_read = routed"
definition router_materialize where "router_materialize = routed"
definition router_write where "router_write = routed"
definition router_write_stream where "router_write_stream = routed"
definition router_write_redirect where "router_write_redirect = routed"
definition router_continue_write where "router_continue_write = routed"
definition router_delete where "router_delete = routed"
definition router_list where "router_list = routed"
definition router_list_versions where "router_list_versions = routed"
definition router_get_latest_version where "router_get_latest_version = routed"
definition router_watch_directory where "router_watch_directory = routed"
definition router_create_directory where "router_create_directory = routed"
definition router_delete_directory where "router_delete_directory = routed"
definition router_update_metadata where "router_update_metadata = routed"
definition router_check_access where "router_check_access = routed"

definition router_list_stream ::
    "url_crate \<Rightarrow> (child \<Rightarrow> url \<Rightarrow> list_request \<Rightarrow> 'w graph \<Rightarrow> 'r result \<times> 'w graph) \<Rightarrow> url \<Rightarrow> list_request \<Rightarrow>
     'w graph \<Rightarrow> 'r result \<times> 'w graph" where
  "router_list_stream C verb prefx request g =
     (if lr_max_results request \<noteq> None \<or> lr_page_token request \<noteq> None then (Inl Err_InvalidArgument, g)
      else routed C verb prefx request g)"

definition routed_pair ::
    "url_crate \<Rightarrow> (child \<Rightarrow> copy_request \<Rightarrow> 'w graph \<Rightarrow> 'r result \<times> 'w graph) \<Rightarrow> copy_request \<Rightarrow> 'w graph \<Rightarrow>
     'r result \<times> 'w graph" where
  "routed_pair C verb request g =
     (case router_route C (gr_router g) (cr_source request) of
        Inl e \<Rightarrow> (Inl e, g)
      | Inr src \<Rightarrow>
          (case router_route C (gr_router g) (cr_destination request) of
             Inl e \<Rightarrow> (Inl e, g)
           | Inr dst \<Rightarrow> if src \<noteq> dst then (Inl Err_Unsupported, g) else verb dst request g))"

definition router_copy where "router_copy = routed_pair"
definition router_rename where "router_rename = routed_pair"

definition router_owning_target_for ::
    "url_crate \<Rightarrow> (child \<Rightarrow> url \<Rightarrow> 'w graph \<Rightarrow> string option \<times> 'w graph) \<Rightarrow> url \<Rightarrow> 'w graph \<Rightarrow>
     string option \<times> 'w graph" where
  "router_owning_target_for C verb u g =
     (case router_route C (gr_router g) u of Inl e \<Rightarrow> (None, g) | Inr child \<Rightarrow> verb child u g)"

definition router_owned_targets :: "'w children \<Rightarrow> 'w graph \<Rightarrow> string list" where
  "router_owned_targets I g = concat (map (\<lambda>c. ch_owned_targets I c g) [0..<st_children (gr_router g)])"

fun push_kinds :: "layer_kind_descriptor list \<Rightarrow> layer_kind_descriptor list \<Rightarrow> layer_kind_descriptor list" where
  "push_kinds [] out = out"
| "push_kinds (d # ds) out =
     push_kinds ds (if kd_kind d \<in> kd_kind ` set out then out else out @ [d])"

fun kinds_of_children ::
    "'w children \<Rightarrow> 'w graph \<Rightarrow> child list \<Rightarrow> layer_kind_descriptor list \<Rightarrow> layer_kind_descriptor list result" where
  "kinds_of_children I g [] out = Inr out"
| "kinds_of_children I g (c # cs) out =
     (case ch_list_kinds I c g of Inl e \<Rightarrow> Inl e | Inr ds \<Rightarrow> kinds_of_children I g cs (push_kinds ds out))"

definition router_list_kinds :: "'w children \<Rightarrow> 'w graph \<Rightarrow> layer_kind_descriptor list result" where
  "router_list_kinds I g =
     kinds_of_children I g [0..<st_children (gr_router g)] [descriptor ROUTER_KIND Type_Router False]"

text \<open>The snapshot; the stream carries what is broadcast from here on.\<close>

definition router_list_address_roots :: "router_state \<Rightarrow> root_info_snapshot" where
  "router_list_address_roots st = \<lparr>snap_roots = route_roots (st_routes st), snap_updates = True\<rparr>"

section \<open>Attribution of connections\<close>

definition attribute_row_in :: "router_state \<Rightarrow> child \<Rightarrow> string option \<Rightarrow> connection \<Rightarrow> connection" where
  "attribute_row_in st child candidate connection =
     (case conn_owning_target connection of
        None \<Rightarrow> connection\<lparr>conn_owning_target := candidate\<rparr>
      | Some target \<Rightarrow>
          (case st_targets st target of
             Some target_child \<Rightarrow>
               (if target_child \<noteq> child then connection\<lparr>conn_owning_target := candidate\<rparr> else connection)
           | None \<Rightarrow> connection))"

definition attribute_one :: "'w children \<Rightarrow> child \<Rightarrow> connection \<Rightarrow> 'w graph \<Rightarrow> connection" where
  "attribute_one I child connection g =
     attribute_row_in (gr_router g) child (sole_owning_target (ch_owned_targets I child g)) connection"

section \<open>Exclusive prefixes\<close>

definition taken :: "url_crate \<Rightarrow> router_state \<Rightarrow> child \<Rightarrow> url \<Rightarrow> bool" where
  "taken C st child address \<longleftrightarrow>
     (case lookup_prefix C (st_routes st) address of
        Some (root, server) \<Rightarrow> server \<noteq> child \<and> same_node (ri_root root) address
      | None \<Rightarrow> False) \<or>
     list_ex (\<lambda>claim. cl_child claim \<noteq> child \<and> same_node (cl_node claim) address) (st_claimed_roots st)"

definition cross_child_conflict :: "url_crate \<Rightarrow> router_state \<Rightarrow> child \<Rightarrow> url list \<Rightarrow> url list result" where
  "cross_child_conflict C st child claimable =
     (let routable = filter (\<lambda>a. \<not> taken C st child a) claimable in
      case find (taken C st child) claimable of
        None \<Rightarrow> Inr routable
      | Some collided \<Rightarrow> if routable \<noteq> [] then Inr routable else Inl Err_RouteConflict)"

definition published_claims ::
    "'w children \<Rightarrow> child \<Rightarrow> connection \<Rightarrow> 'w graph \<Rightarrow> url list \<times> 'w graph" where
  "published_claims I child connection g =
     (case bounded_child_call I (ch_list_address_roots I child) g of
        (Some (Inr roots), g') \<Rightarrow>
          (filter (\<lambda>address.
             list_ex (\<lambda>root. same_node (ri_root root) address \<and>
                        (case ri_connection_id root of None \<Rightarrow> True | Some cid \<Rightarrow> cid = conn_id connection)) roots)
             (conn_current_addresses connection), g')
      | (_, g') \<Rightarrow> (conn_current_addresses connection, g'))"

definition reserve_after_ambiguous_commit :: "'w children \<Rightarrow> child \<Rightarrow> 'w graph \<Rightarrow> 'w graph option" where
  "reserve_after_ambiguous_commit I child g =
     (case next_generation (gr_router g) of
        None \<Rightarrow> None
      | Some (generation, st) \<Rightarrow>
          (case bounded_child_call I (ch_list_address_roots I child) (g\<lparr>gr_router := st\<rparr>) of
             (Some (Inr roots), g') \<Rightarrow> Some (on_router (claim_roots child (map ri_root roots) generation) g')
           | (_, g') \<Rightarrow> Some g'))"

text \<open>The removal runs on a task of its own; None is a panic of that task.\<close>

definition spawned_removal ::
    "'w children \<Rightarrow> child \<Rightarrow> connection_key \<Rightarrow> extensions \<Rightarrow> 'w graph \<Rightarrow> unit result option option \<times> 'w graph" where
  "spawned_removal I child k cx g =
     (let (r, g') = bounded_child_call I (ch_remove_connection I child k cx) g in
      (if ch_fate I g = Fate_Panics then None else Some r, g'))"

definition roll_back_conflicting_add ::
    "'w children \<Rightarrow> child \<Rightarrow> string \<Rightarrow> extensions \<Rightarrow> connection \<Rightarrow> error_code \<Rightarrow> 'w graph \<Rightarrow> error_code \<times> 'w graph" where
  "roll_back_conflicting_add I child target cx connection conflict g =
     (let g1 = on_router (quarantine child target connection (conn_current_addresses connection)) g;
          (removed, g2) = spawned_removal I child \<lparr>key_target = target, key_id = conn_id connection\<rparr> cx g1
      in case removed of
           Some (Some (Inr u)) \<Rightarrow> (conflict, on_router (lift_quarantine child target (conn_id connection)) g2)
         | Some (Some (Inl e)) \<Rightarrow> if e = Err_CommitAmbiguous then (conflict, g2) else (Err_CommitAmbiguous, g2)
         | _ \<Rightarrow> (Err_CommitAmbiguous, g2))"

section \<open>Connection operations\<close>

definition acquire_add_gate :: "'w children \<Rightarrow> 'w token \<Rightarrow> 'w graph \<Rightarrow> unit result \<times> 'w graph" where
  "acquire_add_gate I cancel g =
     (case cancel of
        None \<Rightarrow> (Inr (), snd (ch_gate I g))
      | Some fired \<Rightarrow>
          (if fired g then (Inl Err_Cancelled, g)
           else case ch_gate I g of (True, g') \<Rightarrow> (Inr (), g') | (False, g') \<Rightarrow> (Inl Err_Cancelled, g')))"

text \<open>The verdict on an add: the listed addresses first, and when that would drop one of them, the
  addresses the child really publishes.\<close>

definition add_verdict ::
    "url_crate \<Rightarrow> 'w children \<Rightarrow> child \<Rightarrow> connection \<Rightarrow> 'w graph \<Rightarrow> url list result \<times> 'w graph" where
  "add_verdict C I child connection g =
     (let listed = conn_current_addresses connection;
          verdict = cross_child_conflict C (gr_router g) child listed
      in if (case verdict of Inl e \<Rightarrow> True | Inr kept \<Rightarrow> length kept \<noteq> length listed)
         then let (claimable, g') = published_claims I child connection g in
              (cross_child_conflict C (gr_router g') child claimable, g')
         else (verdict, g))"

text \<open>From the moment the child has committed the connection.\<close>

definition add_committed ::
    "url_crate \<Rightarrow> 'w children \<Rightarrow> child \<Rightarrow> string \<Rightarrow> extensions \<Rightarrow> connection \<Rightarrow> 'w token \<Rightarrow> 'w graph \<Rightarrow>
     (connection result \<times> 'w graph) option" where
  "add_committed C I child target cx connection cancel g =
     (case next_generation (lift_quarantine child target (conn_id connection) (gr_router g)) of
        None \<Rightarrow> None
      | Some (provisional, st) \<Rightarrow>
          (case add_verdict C I child connection
                  (g\<lparr>gr_router := claim_roots child (conn_current_addresses connection) provisional st\<rparr>) of
             (Inl conflict, g1) \<Rightarrow>
               (let (e, g2) = roll_back_conflicting_add I child target cx connection conflict
                                (on_router (discard_claims_at provisional) g1)
                in Some (Inl e, g2))
           | (Inr claimed, g1) \<Rightarrow>
               (case next_generation (gr_router g1) of
                  None \<Rightarrow> None
                | Some (generation, st1) \<Rightarrow>
                    (let g2 = g1\<lparr>gr_router := discard_claims_at provisional (claim_roots child claimed generation st1)\<rparr>;
                         row = attribute_one I child connection g2
                     in case route_catch_up_at C I generation cancel g2 of
                          (Inl e, g3) \<Rightarrow> Some (Inl e, g3)
                        | (Inr u, g3) \<Rightarrow> Some (Inr row, g3)))))"

definition router_add_connection ::
    "url_crate \<Rightarrow> 'w children \<Rightarrow> layer_connection_request \<Rightarrow> 'w token \<Rightarrow> 'w graph \<Rightarrow>
     (connection result \<times> 'w graph) option" where
  "router_add_connection C I request cancel g =
     (case route_target (gr_router g) (ro_target request) of
        Inl e \<Rightarrow> Some (Inl e, g)
      | Inr child \<Rightarrow>
          (case acquire_add_gate I cancel g of
             (Inl e, g1) \<Rightarrow> Some (Inl e, g1)
           | (Inr u, g1) \<Rightarrow>
               (case bail_if_cancelled cancel g1 of
                  Inl e \<Rightarrow> Some (Inl e, g1)
                | Inr u' \<Rightarrow>
                    (case ch_add_connection I child request g1 of
                       (Inl e, g2) \<Rightarrow>
                         (if e = Err_CommitAmbiguous
                          then map_option (\<lambda>g3. (Inl e, g3)) (reserve_after_ambiguous_commit I child g2)
                          else Some (Inl e, g2))
                     | (Inr connection, g2) \<Rightarrow>
                         add_committed C I child (ro_target request) (ro_extensions request) connection cancel g2))))"

definition router_remove_connection ::
    "url_crate \<Rightarrow> 'w children \<Rightarrow> connection_key \<Rightarrow> extensions \<Rightarrow> 'w token \<Rightarrow> 'w graph \<Rightarrow>
     (unit result \<times> 'w graph) option" where
  "router_remove_connection C I k cx cancel g =
     (case route_target (gr_router g) (key_target k) of
        Inl e \<Rightarrow> Some (Inl e, g)
      | Inr child \<Rightarrow>
          (case ch_remove_connection I child k cx g of
             (Inl e, g1) \<Rightarrow> Some (Inl e, g1)
           | (Inr u, g1) \<Rightarrow>
               route_catch_up C I cancel (on_router (lift_quarantine child (key_target k) (key_id k)) g1)))"

definition router_probe ::
    "'w children \<Rightarrow> layer_connection_request \<Rightarrow> 'w graph \<Rightarrow> connection result \<times> 'w graph" where
  "router_probe I request g =
     (case route_target (gr_router g) (ro_target request) of
        Inl e \<Rightarrow> (Inl e, g)
      | Inr child \<Rightarrow>
          (case ch_probe I child request g of
             (Inl e, g1) \<Rightarrow> (Inl e, g1)
           | (Inr connection, g1) \<Rightarrow> (Inr (attribute_one I child connection g1), g1)))"

definition router_update_credentials ::
    "'w children \<Rightarrow> layer_connection_request \<Rightarrow> 'w graph \<Rightarrow> connection result \<times> 'w graph" where
  "router_update_credentials I request g =
     (case route_target (gr_router g) (ro_target request) of
        Inl e \<Rightarrow> (Inl e, g)
      | Inr child \<Rightarrow>
          (case ch_update_credentials I child request g of
             (Inl e, g1) \<Rightarrow> (Inl e, g1)
           | (Inr connection, g1) \<Rightarrow> (Inr (attribute_one I child connection g1), g1)))"

definition router_update_attributes ::
    "url_crate \<Rightarrow> 'w children \<Rightarrow> layer_connection_request \<Rightarrow> 'w token \<Rightarrow> 'w graph \<Rightarrow>
     (connection result \<times> 'w graph) option" where
  "router_update_attributes C I request cancel g =
     (case route_target (gr_router g) (ro_target request) of
        Inl e \<Rightarrow> Some (Inl e, g)
      | Inr child \<Rightarrow>
          (case ch_update_attributes I child request g of
             (Inl e, g1) \<Rightarrow> Some (Inl e, g1)
           | (Inr connection, g1) \<Rightarrow>
               map_option (\<lambda>(r, g2). (map_sum id (\<lambda>_. attribute_one I child connection g1) r, g2))
                 (route_catch_up C I cancel g1)))"

fun connections_of_children ::
    "'w children \<Rightarrow> child list \<Rightarrow> connection list \<Rightarrow> 'w graph \<Rightarrow> connection list result \<times> 'w graph" where
  "connections_of_children I [] out g = (Inr out, g)"
| "connections_of_children I (c # cs) out g =
     (let sole_target = sole_owning_target (ch_owned_targets I c g) in
      case ch_list_connections I c g of
        (Inl e, g') \<Rightarrow> (Inl e, g')
      | (Inr rows, g') \<Rightarrow>
          connections_of_children I cs (out @ map (attribute_row_in (gr_router g') c sole_target) rows) g')"

definition router_list_connections ::
    "'w children \<Rightarrow> 'w graph \<Rightarrow> connection_snapshot result \<times> 'w graph" where
  "router_list_connections I g =
     (case connections_of_children I [0..<st_children (gr_router g)] [] g of
        (Inl e, g') \<Rightarrow> (Inl e, g')
      | (Inr rows, g') \<Rightarrow> (Inr \<lparr>csnap_connections = rows, csnap_updates = False\<rparr>, g'))"

text \<open>The caller pulls the events at its own pace; each meets the router's state of that moment.\<close>

definition attribute_event :: "router_state \<Rightarrow> child \<Rightarrow> string option \<Rightarrow> auth_event result \<Rightarrow> auth_event result" where
  "attribute_event st child candidate event =
     (case event of
        Inr (Auth_Succeeded connection credentials) \<Rightarrow>
          Inr (Auth_Succeeded (attribute_row_in st child candidate connection) credentials)
      | other \<Rightarrow> other)"

definition router_authenticate ::
    "'w children \<Rightarrow> layer_connection_request \<Rightarrow> (nat \<Rightarrow> router_state) \<Rightarrow> 'w graph \<Rightarrow>
     auth_event result list result \<times> 'w graph" where
  "router_authenticate I request state_at g =
     (case route_target (gr_router g) (ro_target request) of
        Inl e \<Rightarrow> (Inl e, g)
      | Inr child \<Rightarrow>
          (case ch_authenticate I child request g of
             (Inl e, g1) \<Rightarrow> (Inl e, g1)
           | (Inr events, g1) \<Rightarrow>
               (Inr (map (\<lambda>(i, event). attribute_event (state_at i) child (Some (ro_target request)) event)
                      (enumerate 0 events)), g1)))"

section \<open>Construction and watchers\<close>

definition router_state_new :: "nat \<Rightarrow> router_state" where
  "router_state_new n =
     \<lparr>st_children = n, st_routes = route_table_empty, st_targets = Map.empty, st_next_generation = 0,
      st_applied_generation = 0, st_claimed_roots = [], st_reported_collisions = [], st_quarantined = [],
      st_root_changes = []\<rparr>"

definition stamped_rebuild ::
    "url_crate \<Rightarrow> 'w children \<Rightarrow> 'w graph \<Rightarrow> (unit result \<times> 'w graph) option" where
  "stamped_rebuild C I g =
     (case next_generation (gr_router g) of
        None \<Rightarrow> None
      | Some (generation, st) \<Rightarrow> Some (rebuild C I generation (g\<lparr>gr_router := st\<rparr>)))"

definition router_new :: "url_crate \<Rightarrow> 'w children \<Rightarrow> nat \<Rightarrow> 'w \<Rightarrow> (unit result \<times> 'w graph) option" where
  "router_new C I n w =
     (case next_generation (router_state_new n) of
        None \<Rightarrow> None
      | Some (generation, st) \<Rightarrow>
          Some (bounded_child_query I (rebuild C I generation) \<lparr>gr_router = st, gr_world = w\<rparr>))"

definition create_router :: "url_crate \<Rightarrow> 'w children \<Rightarrow> nat \<Rightarrow> 'w \<Rightarrow> (unit result \<times> 'w graph) option" where
  "create_router C I n w =
     (case router_new C I n w of
        None \<Rightarrow> None
      | Some (Inl e, g) \<Rightarrow> Some (Inl e, g)
      | Some (Inr u, g) \<Rightarrow>
          (case bounded_child_query I (\<lambda>g. fan_out I (ch_schedule I g) Map.empty g) g of
             (Inl e, g1) \<Rightarrow> Some (Inl e, g1)
           | (Inr subscriptions, g1) \<Rightarrow>
               (case next_generation (gr_router g1) of
                  None \<Rightarrow> None
                | Some (generation, st) \<Rightarrow>
                    Some (bounded_child_query I (rebuild C I generation) (g1\<lparr>gr_router := st\<rparr>)))))"

text \<open>Milliseconds; the factor is a power of two with its exponent capped at ten.\<close>

definition err_backoff :: "nat \<Rightarrow> nat" where
  "err_backoff consecutive_errors = min 5000 (50 * 2 ^ min consecutive_errors 10)"

text \<open>The watcher of one child: the items of its update stream, the graph at the end and the times
  slept. The cancellation token is looked at before every item and before every sleep.\<close>

fun root_watcher ::
    "url_crate \<Rightarrow> 'w children \<Rightarrow> root_info_change result list \<Rightarrow> nat \<Rightarrow> 'w graph \<Rightarrow> (nat list \<times> 'w graph) option" where
  "root_watcher C I [] consecutive_errors g = Some ([], g)"
| "root_watcher C I (item # items) consecutive_errors g =
     (if ch_gone I g then Some ([], g)
      else
        (case stamped_rebuild C I g of
           None \<Rightarrow> None
         | Some (_, g1) \<Rightarrow>
             (case item of
                Inr _ \<Rightarrow> root_watcher C I items 0 g1
              | Inl _ \<Rightarrow>
                  (if ch_gone I g1 then Some ([], g1)
                   else map_option (\<lambda>(sleeps, g2). (err_backoff consecutive_errors # sleeps, g2))
                          (root_watcher C I items (min (consecutive_errors + 1) (2 ^ 32 - 1)) g1)))))"

end
