(* ===== verification/Ov_Alias_Rules.thy ===== *)
theory Ov_Alias_Rules
  imports Ov_Alias Ov_Router
begin

text \<open>
  The rules of the alias layer at run time (\<open>ovstorage-plugin-core/src/alias.rs\<close>): adding, removing
  and updating rules as connections, rules derived from the URL spellings a backend connection
  accepts, the notifications of both, and authentication through an alias.

  The layer below is the parameter record \<open>inner_layer\<close>. As in the router, a call of it is awaited
  while other tasks run, so it maps the whole graph, the alias layer's own state included. The
  wait for the \<open>mutations\<close> lock and the timer are parameters of the same kind. A commit closure runs
  under the guard of the rule set and is a function of the state. Log records are left out.
\<close>

section \<open>State\<close>

definition ALIAS_TO_KEY :: string where "ALIAS_TO_KEY = ''org.omniverse.ovstorage/alias-to''"
definition ALIAS_VISIBILITY_KEY :: string where
  "ALIAS_VISIBILITY_KEY = ''org.omniverse.ovstorage/alias-visibility''"
definition ALIAS_DERIVED_FROM_KEY :: string where
  "ALIAS_DERIVED_FROM_KEY = ''org.omniverse.ovstorage/alias-derived-from''"
definition ACCEPTED_URL_SPELLINGS_KEY :: string where
  "ACCEPTED_URL_SPELLINGS_KEY = ''org.omniverse.ovstorage/accepted-url-spellings''"

datatype connection_change =
    Conn_Added connection | Conn_Removed string | Conn_Updated connection | Conn_Snapshot "connection list"

text \<open>The credentials of a request are opaque.\<close>

record connection_request =
  cq_backend_kind :: string
  cq_config :: layer_config
  cq_credentials :: string
  cq_persist :: bool
  cq_display_name :: "string option"

record attribute_patch =
  pt_display_name :: "string option"
  pt_access_mode :: "string option"
  pt_visible :: "bool option"
  pt_user_metadata :: "string \<rightharpoonup> string option"

text \<open>The owner of a derived rule: target and id of a backend connection.\<close>

type_synonym owner = "string \<times> string"

text \<open>\<open>as_changes\<close> is what the channel of connection changes has carried, \<open>as_root_work\<close> the deferred
  notifications of root changes in the order of their tickets, and \<open>as_fresh\<close> the process-wide
  counter of generated ids.\<close>

record wrapper_state =
  as_rules :: rule_set
  as_derivations :: "string \<rightharpoonup> bool"
  as_fresh :: "64 word"
  as_changes :: "connection_change list"
  as_root_work :: "(rule_set \<times> rule_set) list"

record 'w alias_graph =
  ag_state :: wrapper_state
  ag_world :: 'w

definition on_alias :: "(wrapper_state \<Rightarrow> wrapper_state) \<Rightarrow> 'w alias_graph \<Rightarrow> 'w alias_graph" where
  "on_alias f g = g\<lparr>ag_state := f (ag_state g)\<rparr>"

abbreviation current_rules :: "'w alias_graph \<Rightarrow> rule_set" where
  "current_rules g \<equiv> as_rules (ag_state g)"

record 'w inner_layer =
  in_pid :: nat
  in_list_connections :: "extensions \<Rightarrow> 'w alias_graph \<Rightarrow> connection_snapshot result \<times> 'w alias_graph"
  in_list_address_roots :: "'w alias_graph \<Rightarrow> root_info list result \<times> 'w alias_graph"
  in_root_info_for :: "'w alias_graph root_probe"
  in_owning_target_for :: "url \<Rightarrow> extensions \<Rightarrow> 'w alias_graph \<Rightarrow> string option \<times> 'w alias_graph"
  in_probe :: "string \<Rightarrow> connection_request \<Rightarrow> extensions \<Rightarrow> 'w alias_graph \<Rightarrow> connection result \<times> 'w alias_graph"
  in_add_connection :: "string \<Rightarrow> connection_request \<Rightarrow> extensions \<Rightarrow> 'w alias_graph \<Rightarrow> connection result \<times> 'w alias_graph"
  in_remove_connection :: "owner \<Rightarrow> extensions \<Rightarrow> 'w alias_graph \<Rightarrow> unit result \<times> 'w alias_graph"
  in_update_credentials :: "owner \<Rightarrow> string \<Rightarrow> extensions \<Rightarrow> 'w alias_graph \<Rightarrow> connection result \<times> 'w alias_graph"
  in_update_attributes :: "owner \<Rightarrow> attribute_patch \<Rightarrow> extensions \<Rightarrow> 'w alias_graph \<Rightarrow> connection result \<times> 'w alias_graph"
  in_authenticate :: "owner \<Rightarrow> string \<Rightarrow> extensions \<Rightarrow> 'w alias_graph \<Rightarrow> auth_event result list result \<times> 'w alias_graph"
  in_elapsed :: "'w alias_graph \<Rightarrow> 'w alias_graph \<Rightarrow> bool"
  in_mutations :: "'w alias_graph \<Rightarrow> 'w alias_graph"

section \<open>Rules as connections\<close>

fun alias_source_connection :: "alias_source \<Rightarrow> connection_source" where
  "alias_source_connection (Alias_Static layer) = Conn_Static layer"
| "alias_source_connection (Alias_Runtime persisted) = Conn_Runtime persisted"
| "alias_source_connection (Alias_BrokerDelivered broker) = Conn_BrokerDelivered broker"

fun visibility_str :: "address_visibility \<Rightarrow> string" where
  "visibility_str Vis_Visible = ''visible''"
| "visibility_str Vis_Hidden = ''hidden''"
| "visibility_str Vis_Suppressed = ''suppressed''"

definition parse_visibility_str :: "string \<Rightarrow> address_visibility result" where
  "parse_visibility_str txt =
     (if txt = ''visible'' then Inr Vis_Visible
      else if txt = ''hidden'' then Inr Vis_Hidden
      else if txt = ''suppressed'' then Inr Vis_Suppressed
      else Inl Err_InvalidArgument)"

definition derivation_key :: "owner \<Rightarrow> string" where
  "derivation_key ow = fst ow @ ''/'' @ snd ow"

definition alias_connection :: "url_crate \<Rightarrow> string \<Rightarrow> alias_rule \<Rightarrow> connection" where
  "alias_connection C target rule =
     (let m1 = (ar_user_metadata rule)(ALIAS_TO_KEY \<mapsto> crate_as_str C (ar_to rule));
          m2 = (case ar_visibility rule of Some v \<Rightarrow> m1(ALIAS_VISIBILITY_KEY \<mapsto> visibility_str v) | None \<Rightarrow> m1);
          m3 = (case ar_derived_from rule of Some ow \<Rightarrow> m2(ALIAS_DERIVED_FROM_KEY \<mapsto> derivation_key ow) | None \<Rightarrow> m2)
      in \<lparr>conn_id = ar_id rule, conn_backend_kind = ALIAS_KIND,
          conn_display_name = (case ar_display_name rule of Some n \<Rightarrow> n | None \<Rightarrow> crate_as_str C (ar_from rule)),
          conn_source = alias_source_connection (ar_source rule), conn_capabilities = capabilities_empty,
          conn_current_addresses = [ar_from rule], conn_auth_state = Auth_Anonymous, conn_last_probed = None,
          conn_user_metadata = m3, conn_owning_target = Some target\<rparr>)"

definition visibility_connection :: "url_crate \<Rightarrow> string \<Rightarrow> visibility_override \<Rightarrow> connection" where
  "visibility_connection C target rule =
     \<lparr>conn_id = vo_id rule, conn_backend_kind = ALIAS_KIND,
      conn_display_name = (case vo_display_name rule of Some n \<Rightarrow> n | None \<Rightarrow> crate_as_str C (vo_address rule)),
      conn_source = alias_source_connection (vo_source rule), conn_capabilities = capabilities_empty,
      conn_current_addresses = [vo_address rule], conn_auth_state = Auth_Anonymous, conn_last_probed = None,
      conn_user_metadata = (vo_user_metadata rule)(ALIAS_VISIBILITY_KEY \<mapsto> visibility_str (vo_visibility rule)),
      conn_owning_target = Some target\<rparr>"

definition local_rows :: "url_crate \<Rightarrow> string \<Rightarrow> rule_set \<Rightarrow> connection list" where
  "local_rows C name R =
     map (alias_connection C name) (rs_aliases R) @ map (visibility_connection C name) (rs_visibility R)"

definition standalone_visibility_pairs :: "visibility_override list \<Rightarrow> visibility_pair list" where
  "standalone_visibility_pairs rules = map (\<lambda>r. (vo_address r, vo_visibility r)) rules"

section \<open>Generated ids and derived rules\<close>

definition fresh_id :: "nat \<Rightarrow> string \<Rightarrow> wrapper_state \<Rightarrow> string \<times> wrapper_state" where
  "fresh_id pid prefx st =
     (prefx @ ''-'' @ digits pid @ ''-'' @ digits (unat (as_fresh st)), st\<lparr>as_fresh := as_fresh st + 1\<rparr>)"

definition evict_derived_duplicates :: "rule_set \<Rightarrow> url \<Rightarrow> rule_set \<times> string list" where
  "evict_derived_duplicates R from =
     (let evictable = (\<lambda>r. ar_derived_from r \<noteq> None \<and> node_key (ar_from r) = node_key from)
      in (R\<lparr>rs_aliases := filter (\<lambda>r. \<not> evictable r) (rs_aliases R)\<rparr>, map ar_id (filter evictable (rs_aliases R))))"

fun derived_alias_source :: "connection_source \<Rightarrow> alias_source" where
  "derived_alias_source (Conn_Static layer) = Alias_Static layer"
| "derived_alias_source (Conn_Runtime persisted) = Alias_Runtime False"
| "derived_alias_source (Conn_BrokerDelivered broker) = Alias_BrokerDelivered broker"

fun derive_rules ::
    "url_crate \<Rightarrow> nat \<Rightarrow> connection \<Rightarrow> owner \<Rightarrow> url \<Rightarrow> string list \<Rightarrow> wrapper_state \<Rightarrow> alias_rule list \<times> wrapper_state" where
  "derive_rules C pid connection ow to [] st = ([], st)"
| "derive_rules C pid connection ow to (entry # entries) st =
     (case parse_url C entry of
        Inl e \<Rightarrow> derive_rules C pid connection ow to entries st
      | Inr from \<Rightarrow>
          (let (i, st1) = fresh_id pid ''alias'' st;
               (rules, st2) = derive_rules C pid connection ow to entries st1
           in (\<lparr>ar_id = i, ar_from = from, ar_to = to,
                ar_source = derived_alias_source (conn_source connection), ar_display_name = None,
                ar_user_metadata = Map.empty, ar_visibility = Some Vis_Hidden, ar_derived_from = Some ow\<rparr> # rules,
               st2)))"

definition derived_rules_from_connection ::
    "url_crate \<Rightarrow> nat \<Rightarrow> connection \<Rightarrow> owner \<Rightarrow> wrapper_state \<Rightarrow> alias_rule list \<times> wrapper_state" where
  "derived_rules_from_connection C pid connection ow st =
     (case conn_user_metadata connection ACCEPTED_URL_SPELLINGS_KEY of
        None \<Rightarrow> ([], st)
      | Some v \<Rightarrow>
          (case conn_current_addresses connection of
             [] \<Rightarrow> ([], st)
           | to # _ \<Rightarrow> derive_rules C pid connection ow to (decode_url_spellings v) st))"

definition derived_owner :: "connection \<Rightarrow> string \<Rightarrow> owner" where
  "derived_owner connection requested_target =
     (case conn_owning_target connection of Some t \<Rightarrow> t | None \<Rightarrow> requested_target, conn_id connection)"

section \<open>Requests\<close>

definition config_url :: "url_crate \<Rightarrow> connection_request \<Rightarrow> string \<Rightarrow> url result" where
  "config_url C connection k =
     (case cq_config connection k of Some (Config_String txt) \<Rightarrow> parse_url C txt | _ \<Rightarrow> Inl Err_InvalidArgument)"

definition config_visibility :: "connection_request \<Rightarrow> string \<Rightarrow> address_visibility result" where
  "config_visibility connection k =
     (case cq_config connection k of Some (Config_String txt) \<Rightarrow> parse_visibility_str txt | _ \<Rightarrow> Inl Err_InvalidArgument)"

definition request_connection_id :: "nat \<Rightarrow> connection_request \<Rightarrow> wrapper_state \<Rightarrow> string result \<times> wrapper_state" where
  "request_connection_id pid connection st =
     (case cq_config connection ''id'' of
        None \<Rightarrow> (let (i, st') = fresh_id pid ''alias'' st in (Inr i, st'))
      | Some (Config_String txt) \<Rightarrow> (if txt \<noteq> [] then Inr txt else Inl Err_InvalidArgument, st)
      | Some _ \<Rightarrow> (Inl Err_InvalidArgument, st))"

datatype rule_fragment =
    Fragment_Alias url url "address_visibility option" | Fragment_Visibility url address_visibility

definition parse_rule_fragment :: "url_crate \<Rightarrow> connection_request \<Rightarrow> rule_fragment result" where
  "parse_rule_fragment C connection =
     (let has = (\<lambda>k. cq_config connection k \<noteq> None) in
      if has ''from'' \<or> has ''to'' then
        (case config_url C connection ''from'' of
           Inl e \<Rightarrow> Inl e
         | Inr from \<Rightarrow>
             (case config_url C connection ''to'' of
                Inl e \<Rightarrow> Inl e
              | Inr to \<Rightarrow>
                  (if has ''visibility'' then
                     (case config_visibility connection ''visibility'' of
                        Inl e \<Rightarrow> Inl e | Inr v \<Rightarrow> Inr (Fragment_Alias from to (Some v)))
                   else Inr (Fragment_Alias from to None))))
      else if has ''address'' \<or> has ''visibility'' then
        (case config_url C connection ''address'' of
           Inl e \<Rightarrow> Inl e
         | Inr address \<Rightarrow>
             (case config_visibility connection ''visibility'' of
                Inl e \<Rightarrow> Inl e | Inr v \<Rightarrow> Inr (Fragment_Visibility address v)))
      else Inl Err_InvalidArgument)"

definition validate_connection_request :: "connection_request \<Rightarrow> unit result" where
  "validate_connection_request connection =
     (if cq_backend_kind connection \<noteq> ALIAS_KIND then Inl Err_InvalidArgument
      else if cq_persist connection then Inl Err_Unsupported
      else Inr ())"

section \<open>Commits\<close>

text \<open>Swapping in a rule set sends its connection changes and defers one notification of the roots.\<close>

definition swap_rules :: "rule_set \<Rightarrow> connection_change list \<Rightarrow> wrapper_state \<Rightarrow> wrapper_state" where
  "swap_rules new changes st =
     st\<lparr>as_rules := new, as_changes := as_changes st @ changes,
        as_root_work := as_root_work st @ [(as_rules st, new)]\<rparr>"

definition begin_derivation :: "owner \<Rightarrow> wrapper_state \<Rightarrow> wrapper_state" where
  "begin_derivation ow st = st\<lparr>as_derivations := (as_derivations st)(derivation_key ow \<mapsto> False)\<rparr>"

definition drop_derivation :: "owner \<Rightarrow> wrapper_state \<Rightarrow> wrapper_state" where
  "drop_derivation ow st = st\<lparr>as_derivations := (as_derivations st)(derivation_key ow := None)\<rparr>"

fun install_loop ::
    "url_crate \<Rightarrow> alias_rule list \<Rightarrow> rule_set \<Rightarrow> alias_rule list \<Rightarrow> rule_set \<times> alias_rule list" where
  "install_loop C [] candidate installed = (candidate, installed)"
| "install_loop C (rule # rest) candidate installed =
     (if list_ex (\<lambda>existing. node_key (ar_from existing) = node_key (ar_from rule)) (rs_aliases candidate)
      then install_loop C rest candidate installed
      else
        (let candidate' = candidate\<lparr>rs_aliases := rs_aliases candidate @ [rule]\<rparr> in
         case validate_alias_rules C (alias_pairs candidate') of
           Inl e \<Rightarrow> install_loop C rest candidate installed
         | Inr u \<Rightarrow> install_loop C rest candidate' (installed @ [rule])))"

definition install_commit ::
    "url_crate \<Rightarrow> string \<Rightarrow> owner \<Rightarrow> alias_rule list \<Rightarrow> wrapper_state \<Rightarrow> wrapper_state" where
  "install_commit C name ow candidates st =
     (if as_derivations st (derivation_key ow) = Some True then st
      else
        (let (candidate, installed) = install_loop C candidates (as_rules st) [] in
         if installed = [] then st
         else swap_rules candidate (map (\<lambda>rule. Conn_Added (alias_connection C name rule)) installed) st))"

definition withdraw_commit :: "url_crate \<Rightarrow> owner \<Rightarrow> wrapper_state \<Rightarrow> wrapper_state" where
  "withdraw_commit C ow st =
     (let st1 = (if as_derivations st (derivation_key ow) = None then st
                 else st\<lparr>as_derivations := (as_derivations st)(derivation_key ow \<mapsto> True)\<rparr>);
          owned = (\<lambda>rule. ar_derived_from rule = Some ow);
          removed = map ar_id (filter owned (rs_aliases (as_rules st)));
          candidate = (as_rules st)\<lparr>rs_aliases := filter (\<lambda>rule. \<not> owned rule) (rs_aliases (as_rules st))\<rparr>
      in if removed = [] then st1
         else case validate_alias_rules C (alias_pairs candidate) of
                Inl e \<Rightarrow> st1
              | Inr u \<Rightarrow> swap_rules candidate (map Conn_Removed removed) st1)"

definition precheck_alias_candidate :: "url_crate \<Rightarrow> rule_set \<Rightarrow> string \<Rightarrow> url \<Rightarrow> url \<Rightarrow> unit result" where
  "precheck_alias_candidate C R i from to =
     (if contains_id R i then Inl Err_AlreadyExists
      else validate_alias_rules C (alias_pairs (fst (evict_derived_duplicates R from)) @ [(from, to)]))"

definition add_commit ::
    "url_crate \<Rightarrow> string \<Rightarrow> string \<Rightarrow> rule_fragment \<Rightarrow> alias_source \<Rightarrow> string option \<Rightarrow> wrapper_state \<Rightarrow>
     connection result \<times> wrapper_state" where
  "add_commit C name i fragment source display st =
     (if contains_id (as_rules st) i then (Inl Err_AlreadyExists, st)
      else
        (case fragment of
           Fragment_Alias from to visibility \<Rightarrow>
             (let (candidate, evicted) = evict_derived_duplicates (as_rules st) from;
                  rule = \<lparr>ar_id = i, ar_from = from, ar_to = to, ar_source = source, ar_display_name = display,
                          ar_user_metadata = Map.empty, ar_visibility = visibility, ar_derived_from = None\<rparr>;
                  new = candidate\<lparr>rs_aliases := rs_aliases candidate @ [rule]\<rparr>;
                  row = alias_connection C name rule
              in case validate_alias_rules C (alias_pairs new) of
                   Inl e \<Rightarrow> (Inl e, st)
                 | Inr u \<Rightarrow> (Inr row, swap_rules new (map Conn_Removed evicted @ [Conn_Added row]) st))
         | Fragment_Visibility address visibility \<Rightarrow>
             (let rule = \<lparr>vo_id = i, vo_address = address, vo_visibility = visibility, vo_source = source,
                          vo_display_name = display, vo_user_metadata = Map.empty\<rparr>;
                  new = (as_rules st)\<lparr>rs_visibility := rs_visibility (as_rules st) @ [rule]\<rparr>;
                  row = visibility_connection C name rule
              in case validate_visibility_rules (standalone_visibility_pairs (rs_visibility new)) of
                   Inl e \<Rightarrow> (Inl e, st)
                 | Inr u \<Rightarrow> (Inr row, swap_rules new [Conn_Added row] st))))"

fun remove_first :: "('a \<Rightarrow> bool) \<Rightarrow> 'a list \<Rightarrow> 'a list" where
  "remove_first P [] = []"
| "remove_first P (x # xs) = (if P x then xs else x # remove_first P xs)"

definition remove_commit :: "url_crate \<Rightarrow> string \<Rightarrow> wrapper_state \<Rightarrow> unit result \<times> wrapper_state" where
  "remove_commit C i st =
     (let R = as_rules st in
      if list_ex (\<lambda>r. ar_id r = i) (rs_aliases R) then
        (let new = R\<lparr>rs_aliases := remove_first (\<lambda>r. ar_id r = i) (rs_aliases R)\<rparr> in
         case validate_alias_rules C (alias_pairs new) of
           Inl e \<Rightarrow> (Inl e, st)
         | Inr u \<Rightarrow> (Inr (), swap_rules new [Conn_Removed i] st))
      else if list_ex (\<lambda>r. vo_id r = i) (rs_visibility R) then
        (Inr (), swap_rules (R\<lparr>rs_visibility := remove_first (\<lambda>r. vo_id r = i) (rs_visibility R)\<rparr>) [Conn_Removed i] st)
      else (Inl Err_NotFound, st))"

definition patched_visibility :: "address_visibility option \<Rightarrow> bool \<Rightarrow> address_visibility" where
  "patched_visibility current visible =
     (if visible then Vis_Visible
      else if current = Some Vis_Suppressed then Vis_Suppressed
      else Vis_Hidden)"

definition apply_presentation_patch ::
    "string option \<Rightarrow> (string \<rightharpoonup> string) \<Rightarrow> attribute_patch \<Rightarrow> (string option \<times> (string \<rightharpoonup> string)) result" where
  "apply_presentation_patch display metadata patch =
     (if list_ex (\<lambda>k. pt_user_metadata patch k \<noteq> None)
           [ALIAS_TO_KEY, ALIAS_VISIBILITY_KEY, ALIAS_DERIVED_FROM_KEY, SCHEME_FALLBACK_METADATA_KEY]
      then Inl Err_InvalidArgument
      else Inr (case pt_display_name patch of Some n \<Rightarrow> Some n | None \<Rightarrow> display,
                \<lambda>k. case pt_user_metadata patch k of Some v \<Rightarrow> v | None \<Rightarrow> metadata k))"

fun update_first :: "('a \<Rightarrow> bool) \<Rightarrow> 'a \<Rightarrow> 'a list \<Rightarrow> 'a list" where
  "update_first P y [] = []"
| "update_first P y (x # xs) = (if P x then y # xs else x # update_first P y xs)"

definition patch_alias :: "alias_rule \<Rightarrow> attribute_patch \<Rightarrow> alias_rule result" where
  "patch_alias rule patch =
     (case apply_presentation_patch (ar_display_name rule) (ar_user_metadata rule) patch of
        Inl e \<Rightarrow> Inl e
      | Inr (display, metadata) \<Rightarrow>
          Inr (rule\<lparr>ar_display_name := display, ar_user_metadata := metadata,
                    ar_visibility := (case pt_visible patch of
                                        Some visible \<Rightarrow> Some (patched_visibility (ar_visibility rule) visible)
                                      | None \<Rightarrow> ar_visibility rule)\<rparr>))"

definition patch_override :: "visibility_override \<Rightarrow> attribute_patch \<Rightarrow> visibility_override result" where
  "patch_override rule patch =
     (case apply_presentation_patch (vo_display_name rule) (vo_user_metadata rule) patch of
        Inl e \<Rightarrow> Inl e
      | Inr (display, metadata) \<Rightarrow>
          (let rule1 = rule\<lparr>vo_display_name := display, vo_user_metadata := metadata\<rparr> in
           case pt_visible patch of
             None \<Rightarrow> Inr rule1
           | Some visible \<Rightarrow>
               (let v = patched_visibility (Some (vo_visibility rule)) visible in
                case validate_visibility_rules [(vo_address rule, v)] of
                  Inl e \<Rightarrow> Inl e
                | Inr u \<Rightarrow> Inr (rule1\<lparr>vo_visibility := v\<rparr>))))"

definition update_commit ::
    "url_crate \<Rightarrow> string \<Rightarrow> string \<Rightarrow> attribute_patch \<Rightarrow> wrapper_state \<Rightarrow> connection result \<times> wrapper_state" where
  "update_commit C name i patch st =
     (let R = as_rules st in
      case find (\<lambda>r. ar_id r = i) (rs_aliases R) of
        Some rule \<Rightarrow>
          (case patch_alias rule patch of
             Inl e \<Rightarrow> (Inl e, st)
           | Inr rule' \<Rightarrow>
               (let row = alias_connection C name rule' in
                (Inr row,
                 swap_rules (R\<lparr>rs_aliases := update_first (\<lambda>r. ar_id r = i) rule' (rs_aliases R)\<rparr>) [Conn_Updated row] st)))
      | None \<Rightarrow>
          (case find (\<lambda>r. vo_id r = i) (rs_visibility R) of
             Some rule \<Rightarrow>
               (case patch_override rule patch of
                  Inl e \<Rightarrow> (Inl e, st)
                | Inr rule' \<Rightarrow>
                    (let row = visibility_connection C name rule' in
                     (Inr row,
                      swap_rules (R\<lparr>rs_visibility := update_first (\<lambda>r. vo_id r = i) rule' (rs_visibility R)\<rparr>)
                        [Conn_Updated row] st)))
           | None \<Rightarrow> (Inl Err_NotFound, st)))"

section \<open>Notifying root changes\<close>

definition root_delta :: "url_crate \<Rightarrow> rule_set \<Rightarrow> rule_set \<Rightarrow> root_info list \<Rightarrow> root_info_change list" where
  "root_delta C old new inner_roots =
     (let before = project_advertised_roots C (alias_projections old) (visibility_pairs old) inner_roots;
          after = project_advertised_roots C (alias_projections new) (visibility_pairs new) inner_roots;
          added = filter (\<lambda>root. \<not> list_ex (\<lambda>prev. ri_root prev = ri_root root) before) after;
          removed = filter (\<lambda>prev. \<not> list_ex (\<lambda>root. ri_root root = ri_root prev) after) before;
          updated = filter (\<lambda>root. list_ex (\<lambda>prev. ri_root prev = ri_root root \<and> prev \<noteq> root) before) after
      in (if added \<noteq> [] then [Change_Added added] else []) @
         (if removed \<noteq> [] then [Change_Removed removed] else []) @
         (if updated \<noteq> [] then [Change_Updated updated] else []))"

definition broadcast_root_delta ::
    "url_crate \<Rightarrow> 'w inner_layer \<Rightarrow> rule_set \<Rightarrow> rule_set \<Rightarrow> 'w alias_graph \<Rightarrow> root_info_change list \<times> 'w alias_graph" where
  "broadcast_root_delta C I old new g =
     (let (queried, g') = in_list_address_roots I g in
      if in_elapsed I g g' then ([Change_Updated []], g')
      else case queried of
             Inl e \<Rightarrow> ([Change_Updated []], g')
           | Inr inner_roots \<Rightarrow> (root_delta C old new inner_roots, g'))"

section \<open>Calls of the layer below\<close>

type_synonym 'w alias_token = "('w alias_graph \<Rightarrow> bool) option"

definition scan_inner_connections :: "'w inner_layer \<Rightarrow> 'w alias_graph \<Rightarrow> connection list result \<times> 'w alias_graph" where
  "scan_inner_connections I g =
     (let (queried, g') = in_list_connections I no_extensions g in
      if in_elapsed I g g' then (Inl Err_DeadlineExceeded, g')
      else (case queried of Inl e \<Rightarrow> (Inl e, g') | Inr snapshot \<Rightarrow> (Inr (csnap_connections snapshot), g')))"

text \<open>An inner row that is a derived alias on one of the scopes, and its key.\<close>

definition evictable_row :: "url list \<Rightarrow> connection \<Rightarrow> owner option" where
  "evictable_row scopes row =
     (if conn_backend_kind row \<noteq> ALIAS_KIND \<or> conn_user_metadata row ALIAS_DERIVED_FROM_KEY = None then None
      else case conn_current_addresses row of
             [] \<Rightarrow> None
           | rule_from # _ \<Rightarrow>
               (if \<not> list_ex (\<lambda>scope. node_key scope = node_key rule_from) scopes then None
                else map_option (\<lambda>target. (target, conn_id row)) (conn_owning_target row)))"

fun evict_rows :: "'w inner_layer \<Rightarrow> url list \<Rightarrow> connection list \<Rightarrow> nat \<Rightarrow> 'w alias_graph \<Rightarrow> nat \<times> 'w alias_graph" where
  "evict_rows I scopes [] failures g = (failures, g)"
| "evict_rows I scopes (row # rows) failures g =
     (case evictable_row scopes row of
        None \<Rightarrow> evict_rows I scopes rows failures g
      | Some k \<Rightarrow>
          (case in_remove_connection I k no_extensions g of
             (Inl e, g') \<Rightarrow> evict_rows I scopes rows (failures + 1) g'
           | (Inr u, g') \<Rightarrow> evict_rows I scopes rows failures g'))"

definition evict_downstream_derived :: "'w inner_layer \<Rightarrow> url list \<Rightarrow> 'w alias_graph \<Rightarrow> unit result \<times> 'w alias_graph" where
  "evict_downstream_derived I scopes g =
     (if scopes = [] then (Inr (), g)
      else case scan_inner_connections I g of
             (Inl e, g1) \<Rightarrow> (Inr (), g1)
           | (Inr connections, g1) \<Rightarrow>
               (let (failures, g2) = evict_rows I scopes connections 0 g1
                in (if failures > 0 then Inl Err_Internal else Inr (), g2)))"

section \<open>Derived rules\<close>

definition install_candidates ::
    "url_crate \<Rightarrow> 'w inner_layer \<Rightarrow> string \<Rightarrow> alias_rule list \<Rightarrow> owner \<Rightarrow> 'w alias_graph \<Rightarrow> 'w alias_graph" where
  "install_candidates C I name candidates ow g =
     (if candidates = [] then g else on_alias (install_commit C name ow candidates) (in_mutations I g))"

definition withdraw_derived_rules :: "url_crate \<Rightarrow> 'w inner_layer \<Rightarrow> owner \<Rightarrow> 'w alias_graph \<Rightarrow> 'w alias_graph" where
  "withdraw_derived_rules C I ow g = on_alias (withdraw_commit C ow) (in_mutations I g)"

definition explicit_scope :: "rule_set \<Rightarrow> alias_rule \<Rightarrow> bool" where
  "explicit_scope R rule =
     list_ex (\<lambda>existing. ar_derived_from existing = None \<and> node_key (ar_from existing) = node_key (ar_from rule))
       (rs_aliases R)"

definition inner_scope :: "connection list \<Rightarrow> alias_rule \<Rightarrow> bool" where
  "inner_scope rows rule =
     list_ex (\<lambda>row. conn_backend_kind row = ALIAS_KIND \<and>
                (case conn_current_addresses row of
                   [] \<Rightarrow> False | address # _ \<Rightarrow> node_key address = node_key (ar_from rule))) rows"

definition install_derived_rules ::
    "url_crate \<Rightarrow> 'w inner_layer \<Rightarrow> string \<Rightarrow> connection \<Rightarrow> owner \<Rightarrow> connection list \<Rightarrow> 'w alias_graph \<Rightarrow> 'w alias_graph" where
  "install_derived_rules C I name connection ow inner_rows g =
     (let (derived, st) = derived_rules_from_connection C (in_pid I) connection ow (ag_state g);
          g1 = g\<lparr>ag_state := st\<rparr>
      in if derived = [] then g1
         else
           (let local = current_rules g1;
                takeover_scopes = map ar_from (filter (explicit_scope local) derived);
                candidates = filter (\<lambda>rule. \<not> inner_scope inner_rows rule)
                               (filter (\<lambda>rule. \<not> explicit_scope local rule) derived)
            in snd (evict_downstream_derived I takeover_scopes (install_candidates C I name candidates ow g1))))"

text \<open>The in-flight entry of a derivation is opened first and dropped however the derivation ends.\<close>

definition guarded_derivation ::
    "owner \<Rightarrow> ('w alias_graph \<Rightarrow> 'w alias_graph) \<Rightarrow> 'w alias_graph \<Rightarrow> 'w alias_graph" where
  "guarded_derivation ow derive g = on_alias (drop_derivation ow) (derive (on_alias (begin_derivation ow) g))"

fun adopt_rows ::
    "url_crate \<Rightarrow> 'w inner_layer \<Rightarrow> string \<Rightarrow> 'w alias_token \<Rightarrow> connection list \<Rightarrow> connection list \<Rightarrow> 'w alias_graph \<Rightarrow>
     unit result \<times> 'w alias_graph" where
  "adopt_rows C I name cancel inner_rows [] g = (Inr (), g)"
| "adopt_rows C I name cancel inner_rows (connection # rest) g =
     (if conn_user_metadata connection ACCEPTED_URL_SPELLINGS_KEY = None
      then adopt_rows C I name cancel inner_rows rest g
      else
        (case conn_owning_target connection of
           None \<Rightarrow> adopt_rows C I name cancel inner_rows rest g
         | Some target \<Rightarrow>
             (let ow = derived_owner connection target;
                  g1 = on_alias (begin_derivation ow) g;
                  g2 = install_derived_rules C I name connection ow inner_rows g1;
                  g3 = on_alias (drop_derivation ow) g2
              in if (case cancel of Some fired \<Rightarrow> fired g2 | None \<Rightarrow> False) then (Inl Err_Cancelled, g3)
                 else adopt_rows C I name cancel inner_rows rest g3)))"

definition adopt_preexisting_connections ::
    "url_crate \<Rightarrow> 'w inner_layer \<Rightarrow> string \<Rightarrow> 'w alias_token \<Rightarrow> 'w alias_graph \<Rightarrow> unit result \<times> 'w alias_graph" where
  "adopt_preexisting_connections C I name cancel g =
     (case scan_inner_connections I g of
        (Inl e, g1) \<Rightarrow> (if e = Err_Cancelled then Inl e else Inr (), g1)
      | (Inr connections, g1) \<Rightarrow> adopt_rows C I name cancel connections connections g1)"

section \<open>Construction\<close>

fun static_aliases :: "nat \<Rightarrow> alias_pair list \<Rightarrow> wrapper_state \<Rightarrow> alias_rule list \<times> wrapper_state" where
  "static_aliases pid [] st = ([], st)"
| "static_aliases pid ((from, to) # rest) st =
     (let (i, st1) = fresh_id pid ''alias'' st;
          (rules, st2) = static_aliases pid rest st1
      in (\<lparr>ar_id = i, ar_from = from, ar_to = to, ar_source = Alias_Static Layer_Programmatic, ar_display_name = None,
           ar_user_metadata = Map.empty, ar_visibility = None, ar_derived_from = None\<rparr> # rules, st2))"

fun static_overrides :: "nat \<Rightarrow> visibility_pair list \<Rightarrow> wrapper_state \<Rightarrow> visibility_override list \<times> wrapper_state" where
  "static_overrides pid [] st = ([], st)"
| "static_overrides pid ((address, visibility) # rest) st =
     (let (i, st1) = fresh_id pid ''alias'' st;
          (rules, st2) = static_overrides pid rest st1
      in (\<lparr>vo_id = i, vo_address = address, vo_visibility = visibility, vo_source = Alias_Static Layer_Programmatic,
           vo_display_name = None, vo_user_metadata = Map.empty\<rparr> # rules, st2))"

definition wrapper_state_new :: "64 word \<Rightarrow> wrapper_state" where
  "wrapper_state_new counter =
     \<lparr>as_rules = \<lparr>rs_aliases = [], rs_visibility = []\<rparr>, as_derivations = Map.empty, as_fresh = counter,
      as_changes = [], as_root_work = []\<rparr>"

text \<open>The programmatic rules of the factory, canonicalized, or those of the configuration. The decoders
  of the two TOML tables are parameters.\<close>

definition configured_rules ::
    "url_crate \<Rightarrow> (string \<Rightarrow> (string \<times> string) list option) \<Rightarrow> (string \<Rightarrow> (string \<times> address_visibility) list option) \<Rightarrow>
     (alias_pair list \<times> visibility_pair list) option \<Rightarrow> layer_config \<Rightarrow> (alias_pair list \<times> visibility_pair list) result" where
  "configured_rules C toml vtoml rules config =
     (case rules of
        Some (aliases, visibility) \<Rightarrow>
          Inr (map (\<lambda>(from, to). (canonicalize C from, canonicalize C to)) aliases,
               map (\<lambda>(address, v). (canonicalize C address, v)) visibility)
      | None \<Rightarrow>
          (case parse_prefix_rules C toml config ''aliases'' of
             Inl e \<Rightarrow> Inl e
           | Inr aliases \<Rightarrow>
               (case parse_visibility_rules C vtoml config ''visibility'' of
                  Inl e \<Rightarrow> Inl e | Inr visibility \<Rightarrow> Inr (aliases, visibility))))"

definition static_state :: "nat \<Rightarrow> alias_pair list \<Rightarrow> visibility_pair list \<Rightarrow> 64 word \<Rightarrow> wrapper_state" where
  "static_state pid aliases visibility counter =
     (let (rs, st1) = static_aliases pid aliases (wrapper_state_new counter);
          (vs, st2) = static_overrides pid visibility st1
      in st2\<lparr>as_rules := \<lparr>rs_aliases = rs, rs_visibility = vs\<rparr>\<rparr>)"

definition create_alias_wrapper ::
    "url_crate \<Rightarrow> (string \<Rightarrow> (string \<times> string) list option) \<Rightarrow> (string \<Rightarrow> (string \<times> address_visibility) list option) \<Rightarrow>
     'w inner_layer \<Rightarrow> (alias_pair list \<times> visibility_pair list) option \<Rightarrow> string \<Rightarrow> layer_config \<Rightarrow> 'w alias_token \<Rightarrow>
     64 word \<Rightarrow> 'w \<Rightarrow> unit result \<times> 'w alias_graph" where
  "create_alias_wrapper C toml vtoml I rules name config cancel counter w =
     (let g = \<lparr>ag_state = wrapper_state_new counter, ag_world = w\<rparr> in
      case configured_rules C toml vtoml rules config of
        Inl e \<Rightarrow> (Inl e, g)
      | Inr (aliases, visibility) \<Rightarrow>
          (case validate_alias_rules C aliases of
             Inl e \<Rightarrow> (Inl e, g)
           | Inr u \<Rightarrow>
               (case validate_visibility_rules visibility of
                  Inl e \<Rightarrow> (Inl e, g)
                | Inr u' \<Rightarrow>
                    adopt_preexisting_connections C I name cancel
                      (g\<lparr>ag_state := static_state (in_pid I) aliases visibility counter\<rparr>))))"

section \<open>Connection operations\<close>

definition alias_list_connections ::
    "url_crate \<Rightarrow> 'w inner_layer \<Rightarrow> string \<Rightarrow> extensions \<Rightarrow> 'w alias_graph \<Rightarrow> connection_snapshot result \<times> 'w alias_graph" where
  "alias_list_connections C I name cx g =
     (let rows = local_rows C name (current_rules g) in
      case in_list_connections I cx g of
        (Inl e, g') \<Rightarrow> (Inl e, g')
      | (Inr inner, g') \<Rightarrow>
          (Inr \<lparr>csnap_connections = rows @ csnap_connections inner,
                csnap_updates = (rows \<noteq> [] \<or> csnap_updates inner)\<rparr>, g'))"

definition alias_probe ::
    "url_crate \<Rightarrow> 'w inner_layer \<Rightarrow> string \<Rightarrow> string \<Rightarrow> connection_request \<Rightarrow> extensions \<Rightarrow> 'w alias_graph \<Rightarrow>
     connection result \<times> 'w alias_graph" where
  "alias_probe C I name target connection cx g =
     (if target \<noteq> name then in_probe I target connection cx g
      else
        (case validate_connection_request connection of
           Inl e \<Rightarrow> (Inl e, g)
         | Inr u \<Rightarrow>
             (case request_connection_id (in_pid I) connection (ag_state g) of
                (Inl e, st) \<Rightarrow> (Inl e, g\<lparr>ag_state := st\<rparr>)
              | (Inr i, st) \<Rightarrow>
                  (let g1 = g\<lparr>ag_state := st\<rparr> in
                   if contains_id (current_rules g1) i then (Inl Err_AlreadyExists, g1)
                   else
                     (case parse_rule_fragment C connection of
                        Inl e \<Rightarrow> (Inl e, g1)
                      | Inr fragment \<Rightarrow>
                          (fst (add_commit C name i fragment (Alias_Runtime (cq_persist connection))
                                  (cq_display_name connection) st), g1))))))"

definition add_local ::
    "url_crate \<Rightarrow> 'w inner_layer \<Rightarrow> string \<Rightarrow> connection_request \<Rightarrow> 'w alias_graph \<Rightarrow> connection result \<times> 'w alias_graph" where
  "add_local C I name connection g =
     (case validate_connection_request connection of
        Inl e \<Rightarrow> (Inl e, g)
      | Inr u \<Rightarrow>
          (case request_connection_id (in_pid I) connection (ag_state g) of
             (Inl e, st) \<Rightarrow> (Inl e, g\<lparr>ag_state := st\<rparr>)
           | (Inr i, st) \<Rightarrow>
               (let g1 = g\<lparr>ag_state := st\<rparr> in
                case parse_rule_fragment C connection of
                  Inl e \<Rightarrow> (Inl e, g1)
                | Inr fragment \<Rightarrow>
                    (let commit = (\<lambda>g2.
                           let (r, st') = add_commit C name i fragment (Alias_Runtime (cq_persist connection))
                                            (cq_display_name connection) (ag_state g2)
                           in (r, g2\<lparr>ag_state := st'\<rparr>))
                     in case fragment of
                          Fragment_Visibility address visibility \<Rightarrow> commit g1
                        | Fragment_Alias from to visibility \<Rightarrow>
                            (case precheck_alias_candidate C (current_rules g1) i from to of
                               Inl e \<Rightarrow> (Inl e, g1)
                             | Inr u' \<Rightarrow>
                                 (case evict_downstream_derived I [from] g1 of
                                    (Inl e, g2) \<Rightarrow> (Inl e, g2)
                                  | (Inr u'', g2) \<Rightarrow> commit g2))))))"

definition alias_add_connection ::
    "url_crate \<Rightarrow> 'w inner_layer \<Rightarrow> string \<Rightarrow> string \<Rightarrow> connection_request \<Rightarrow> extensions \<Rightarrow> 'w alias_graph \<Rightarrow>
     connection result \<times> 'w alias_graph" where
  "alias_add_connection C I name target connection cx g =
     (if target = name then add_local C I name connection (in_mutations I g)
      else
        (case in_add_connection I target connection cx g of
           (Inl e, g1) \<Rightarrow> (Inl e, g1)
         | (Inr row, g1) \<Rightarrow>
             (if conn_user_metadata row ACCEPTED_URL_SPELLINGS_KEY = None then (Inr row, g1)
              else
                (let ow = derived_owner row target in
                 (Inr row,
                  guarded_derivation ow
                    (\<lambda>g2. case scan_inner_connections I g2 of
                            (Inl e, g3) \<Rightarrow> g3
                          | (Inr inner_rows, g3) \<Rightarrow> install_derived_rules C I name row ow inner_rows g3) g1)))))"

definition alias_remove_connection ::
    "url_crate \<Rightarrow> 'w inner_layer \<Rightarrow> string \<Rightarrow> owner \<Rightarrow> extensions \<Rightarrow> 'w alias_graph \<Rightarrow> unit result \<times> 'w alias_graph" where
  "alias_remove_connection C I name k cx g =
     (if fst k \<noteq> name then
        (case in_remove_connection I k cx g of
           (Inl e, g1) \<Rightarrow> (Inl e, g1)
         | (Inr u, g1) \<Rightarrow> (Inr (), withdraw_derived_rules C I k g1))
      else
        (let g1 = in_mutations I g;
             (r, st) = remove_commit C (snd k) (ag_state g1)
         in (r, g1\<lparr>ag_state := st\<rparr>)))"

definition alias_update_connection_attributes ::
    "url_crate \<Rightarrow> 'w inner_layer \<Rightarrow> string \<Rightarrow> owner \<Rightarrow> attribute_patch \<Rightarrow> extensions \<Rightarrow> 'w alias_graph \<Rightarrow>
     connection result \<times> 'w alias_graph" where
  "alias_update_connection_attributes C I name k patch cx g =
     (if fst k \<noteq> name then in_update_attributes I k patch cx g
      else
        (let g1 = in_mutations I g;
             (r, st) = update_commit C name (snd k) patch (ag_state g1)
         in (r, g1\<lparr>ag_state := st\<rparr>)))"

section \<open>Authentication through an alias\<close>

record auth_delegation =
  ad_rule :: alias_rule
  ad_backend_key :: owner
  ad_hops :: "alias_pair list"

definition resolve_auth_delegation ::
    "url_crate \<Rightarrow> 'w inner_layer \<Rightarrow> owner \<Rightarrow> extensions \<Rightarrow> 'w alias_graph \<Rightarrow> auth_delegation result \<times> 'w alias_graph" where
  "resolve_auth_delegation C I k cx g =
     (let R = current_rules g in
      case find (\<lambda>r. ar_id r = snd k) (rs_aliases R) of
        None \<Rightarrow> (Inl (if list_ex (\<lambda>r. vo_id r = snd k) (rs_visibility R) then Err_Unsupported else Err_NotFound), g)
      | Some rule \<Rightarrow>
          (case walk_chain_async C (in_root_info_for I) R (ar_from rule) g of
             (Inl e, g1) \<Rightarrow> (Inl e, g1)
           | (Inr resolved, g1) \<Rightarrow>
               (case in_root_info_for I (res_address resolved) cx g1 of
                  (Inl e, g2) \<Rightarrow> (Inl e, g2)
                | (Inr info, g2) \<Rightarrow>
                    (case ri_connection_id info of
                       None \<Rightarrow> (Inl Err_PreconditionFailed, g2)
                     | Some connection_id \<Rightarrow>
                         (case ri_owning_target info of
                            Some target \<Rightarrow>
                              (Inr \<lparr>ad_rule = rule, ad_backend_key = (target, connection_id), ad_hops = res_hops resolved\<rparr>, g2)
                          | None \<Rightarrow>
                              (case in_owning_target_for I (res_address resolved) cx g2 of
                                 (None, g3) \<Rightarrow> (Inl Err_PreconditionFailed, g3)
                               | (Some target, g3) \<Rightarrow>
                                   (Inr \<lparr>ad_rule = rule, ad_backend_key = (target, connection_id),
                                         ad_hops = res_hops resolved\<rparr>, g3)))))))"

text \<open>An error keeps its code and gets a message of the alias; messages are opaque, so a reprojected
  error is its code.\<close>

definition reproject_auth_error :: "alias_rule \<Rightarrow> error_code \<Rightarrow> error_code" where
  "reproject_auth_error rule e = e"

definition reproject_auth_state :: "alias_rule \<Rightarrow> connection_auth_state \<Rightarrow> connection_auth_state" where
  "reproject_auth_state rule state =
     (case state of Auth_Failed e attempts \<Rightarrow> Auth_Failed (reproject_auth_error rule e) attempts | _ \<Rightarrow> state)"

definition project_delegated_connection ::
    "url_crate \<Rightarrow> alias_rule \<Rightarrow> alias_pair list \<Rightarrow> connection \<Rightarrow> string \<Rightarrow> connection result" where
  "project_delegated_connection C rule hops backend target =
     (case collect_results (project_back C (inverse_chain hops)) (conn_current_addresses backend) of
        Inl e \<Rightarrow> Inl e
      | Inr mapped \<Rightarrow>
          (let view = alias_connection C target rule;
               addresses = map fst (filter (\<lambda>(m, address). m \<noteq> address) (zip mapped (conn_current_addresses backend)))
           in Inr (view\<lparr>conn_auth_state := reproject_auth_state rule (conn_auth_state backend),
                             conn_capabilities := conn_capabilities backend,
                             conn_last_probed := conn_last_probed backend,
                             conn_current_addresses :=
                               (if addresses \<noteq> [] then addresses else conn_current_addresses view)\<rparr>)))"

definition project_auth_event ::
    "url_crate \<Rightarrow> alias_rule \<Rightarrow> alias_pair list \<Rightarrow> string \<Rightarrow> auth_event result \<Rightarrow> auth_event result" where
  "project_auth_event C rule hops target event =
     (case event of
        Inr (Auth_Succeeded connection credentials) \<Rightarrow>
          (case project_delegated_connection C rule hops connection target of
             Inl e \<Rightarrow> Inl e | Inr view \<Rightarrow> Inr (Auth_Succeeded view None))
      | Inr (Auth_Refused e) \<Rightarrow> Inr (Auth_Refused (reproject_auth_error rule e))
      | Inr other \<Rightarrow> Inr other
      | Inl e \<Rightarrow> Inl (reproject_auth_error rule e))"

definition alias_update_connection_credentials ::
    "url_crate \<Rightarrow> 'w inner_layer \<Rightarrow> string \<Rightarrow> owner \<Rightarrow> string \<Rightarrow> extensions \<Rightarrow> 'w alias_graph \<Rightarrow>
     connection result \<times> 'w alias_graph" where
  "alias_update_connection_credentials C I name k credentials cx g =
     (if fst k \<noteq> name then in_update_credentials I k credentials cx g
      else
        (case resolve_auth_delegation C I k cx g of
           (Inl e, g1) \<Rightarrow> (Inl e, g1)
         | (Inr d, g1) \<Rightarrow>
             (case in_update_credentials I (ad_backend_key d) credentials cx g1 of
                (Inl e, g2) \<Rightarrow> (Inl (reproject_auth_error (ad_rule d) e), g2)
              | (Inr backend, g2) \<Rightarrow> (project_delegated_connection C (ad_rule d) (ad_hops d) backend name, g2))))"

definition alias_authenticate_connection ::
    "url_crate \<Rightarrow> 'w inner_layer \<Rightarrow> string \<Rightarrow> owner \<Rightarrow> string \<Rightarrow> extensions \<Rightarrow> 'w alias_graph \<Rightarrow>
     auth_event result list result \<times> 'w alias_graph" where
  "alias_authenticate_connection C I name k method cx g =
     (if fst k \<noteq> name then in_authenticate I k method cx g
      else
        (case resolve_auth_delegation C I k cx g of
           (Inl e, g1) \<Rightarrow> (Inl e, g1)
         | (Inr d, g1) \<Rightarrow>
             (case in_authenticate I (ad_backend_key d) method cx g1 of
                (Inl e, g2) \<Rightarrow> (Inl (reproject_auth_error (ad_rule d) e), g2)
              | (Inr events, g2) \<Rightarrow> (Inr (map (project_auth_event C (ad_rule d) (ad_hops d) name) events), g2))))"

end
