(* ===== verification/Ov_Alias_Run.thy ===== *)
theory Ov_Alias_Run
  imports Ov_Alias_Rules "HOL-Library.Sublist"
begin

text \<open>
  What the run-time operations of the alias layer keep: every rule set that is swapped in is valid,
  the connection changes that were sent replay to the rows that are listed, and derived rules
  follow their backend connection. Each commit closure meets the contract of the locale
  \<open>rule_commit\<close>; the step relation \<open>al_step\<close> interleaves commits with the derivations and removals
  that span awaits.
\<close>

section \<open>Valid rule sets\<close>

definition rule_ids :: "rule_set \<Rightarrow> string list" where
  "rule_ids R = map ar_id (rs_aliases R) @ map vo_id (rs_visibility R)"

definition rules_ok :: "url_crate \<Rightarrow> rule_set \<Rightarrow> bool" where
  "rules_ok C R \<longleftrightarrow>
     validate_alias_rules C (alias_pairs R) = Inr () \<and>
     validate_visibility_rules (standalone_visibility_pairs (rs_visibility R)) = Inr () \<and>
     distinct (rule_ids R)"

text \<open>The part of it that no id enters.\<close>

definition rules_valid :: "url_crate \<Rightarrow> rule_set \<Rightarrow> bool" where
  "rules_valid C R \<longleftrightarrow>
     validate_alias_rules C (alias_pairs R) = Inr () \<and>
     validate_visibility_rules (standalone_visibility_pairs (rs_visibility R)) = Inr ()"

lemma rules_ok_iff: "rules_ok C R \<longleftrightarrow> rules_valid C R \<and> distinct (rule_ids R)"
  by (auto simp: rules_ok_def rules_valid_def)

definition override_ok :: "visibility_pair \<Rightarrow> bool" where
  "override_ok p \<longleftrightarrow>
     \<not> (snd p = Vis_Visible \<and> (url_username (fst p) \<noteq> [] \<or> url_password (fst p) \<noteq> None)) \<and> url_query (fst p) = None"

lemma validate_visibility_iff:
  "validate_visibility_loop seen ps = Inr () \<longleftrightarrow>
     list_all override_ok ps \<and> distinct (map (node_key \<circ> fst) ps) \<and>
     set (map (node_key \<circ> fst) ps) \<inter> set seen = {}"
  by (induction seen ps rule: validate_visibility_loop.induct) (auto simp: override_ok_def)

lemma unit_result_cases: "(r :: unit result) = Inr () \<or> (\<exists>e. r = Inl e)"
  by (cases r) auto

lemma contains_id_iff: "contains_id R i \<longleftrightarrow> i \<in> set (rule_ids R)"
  by (auto simp: contains_id_def rule_ids_def list_ex_iff)

section \<open>Lists\<close>

lemma remove_first_split:
  "list_ex P xs \<Longrightarrow> \<exists>ys x zs. xs = ys @ x # zs \<and> P x \<and> remove_first P xs = ys @ zs"
proof (induction xs)
  case (Cons a xs)
  show ?case
  proof (cases "P a")
    case True
    then show ?thesis by (intro exI[of _ "[]"]) simp
  next
    case False
    then obtain ys x zs where "xs = ys @ x # zs" "P x" "remove_first P xs = ys @ zs" using Cons by auto
    with False show ?thesis by (intro exI[of _ "a # ys"] exI[of _ x] exI[of _ zs]) simp
  qed
qed simp

lemma update_first_split:
  "find P xs = Some x \<Longrightarrow> \<exists>ys zs. xs = ys @ x # zs \<and> P x \<and> update_first P y xs = ys @ y # zs"
proof (induction xs)
  case (Cons a xs)
  show ?case
  proof (cases "P a")
    case True
    with Cons.prems show ?thesis by (intro exI[of _ "[]"] exI[of _ xs]) simp
  next
    case False
    with Cons obtain ys zs where "xs = ys @ x # zs" "P x" "update_first P y xs = ys @ y # zs" by auto
    with False show ?thesis by (intro exI[of _ "a # ys"] exI[of _ zs]) simp
  qed
qed simp

lemma filter_ids:
  "distinct (map f xs) \<Longrightarrow> set (map f (filter P xs)) = set (map f xs) - set (map f (filter (\<lambda>x. \<not> P x) xs))"
  by (induction xs) auto

section \<open>Replaying connection changes\<close>

text \<open>A consumer keeps the rows by id and applies the changes it receives.\<close>

fun apply_change :: "connection_change \<Rightarrow> (string \<rightharpoonup> connection) \<Rightarrow> (string \<rightharpoonup> connection)" where
  "apply_change (Conn_Added c) m = m(conn_id c \<mapsto> c)"
| "apply_change (Conn_Removed i) m = m(i := None)"
| "apply_change (Conn_Updated c) m = m(conn_id c \<mapsto> c)"
| "apply_change (Conn_Snapshot cs) m = map_of (map (\<lambda>c. (conn_id c, c)) cs)"

definition replay :: "connection_change list \<Rightarrow> (string \<rightharpoonup> connection) \<Rightarrow> (string \<rightharpoonup> connection)" where
  "replay changes m = fold apply_change changes m"

definition listing :: "url_crate \<Rightarrow> string \<Rightarrow> rule_set \<Rightarrow> (string \<rightharpoonup> connection)" where
  "listing C name R = map_of (map (\<lambda>c. (conn_id c, c)) (local_rows C name R))"

lemma replay_simps [simp]:
  "replay [] m = m" "replay (c # cs) m = replay cs (apply_change c m)" "replay (xs @ ys) m = replay ys (replay xs m)"
  by (simp_all add: replay_def)

lemma row_ids [simp]:
  "conn_id (alias_connection C name r) = ar_id r" "conn_id (visibility_connection C name v) = vo_id v"
  by (simp_all add: alias_connection_def visibility_connection_def Let_def)

lemma listing_ids: "map conn_id (local_rows C name R) = rule_ids R"
  by (simp add: local_rows_def rule_ids_def comp_def)

lemma listing_iff:
  assumes "distinct (rule_ids R)"
  shows "listing C name R i = Some c \<longleftrightarrow> c \<in> set (local_rows C name R) \<and> conn_id c = i"
proof -
  have "distinct (map fst (map (\<lambda>c. (conn_id c, c)) (local_rows C name R)))"
    using assms listing_ids[of C name R] by (simp add: comp_def)
  then show ?thesis unfolding listing_def by (auto simp: map_of_eq_Some_iff)
qed

lemma listing_eqI:
  assumes "distinct (rule_ids R)" "\<And>i c. m i = Some c \<longleftrightarrow> c \<in> set (local_rows C name R) \<and> conn_id c = i"
  shows "m = listing C name R"
proof
  fix i
  show "m i = listing C name R i"
    using assms(2)[of i] listing_iff[OF assms(1), of C name i]
    by (cases "m i"; cases "listing C name R i") auto
qed

lemma replay_removed: "replay (map Conn_Removed ids) m i = (if i \<in> set ids then None else m i)"
  by (induction ids arbitrary: m) auto

lemma replay_added:
  "distinct (map conn_id cs) \<Longrightarrow>
     replay (map Conn_Added cs) m i = Some c \<longleftrightarrow>
       c \<in> set cs \<and> conn_id c = i \<or> i \<notin> set (map conn_id cs) \<and> m i = Some c"
  by (induction cs arbitrary: m) (auto split: if_splits)

section \<open>The contract of a commit\<close>

definition commits :: "url_crate \<Rightarrow> string \<Rightarrow> wrapper_state \<Rightarrow> wrapper_state \<Rightarrow> bool" where
  "commits C name st st' \<longleftrightarrow>
     as_rules st' = as_rules st \<and> as_changes st' = as_changes st \<and> as_root_work st' = as_root_work st \<or>
     (\<exists>changes. rules_ok C (as_rules st') \<and> as_changes st' = as_changes st @ changes \<and>
        as_root_work st' = as_root_work st @ [(as_rules st, as_rules st')] \<and>
        replay changes (listing C name (as_rules st)) = listing C name (as_rules st'))"

fun chained :: "rule_set \<Rightarrow> (rule_set \<times> rule_set) list \<Rightarrow> rule_set \<Rightarrow> bool" where
  "chained R [] S \<longleftrightarrow> R = S"
| "chained R ((old, new) # work) S \<longleftrightarrow> old = R \<and> chained new work S"

lemma chained_snoc: "chained R work S \<Longrightarrow> chained R (work @ [(S, T)]) T"
  by (induction R work S rule: chained.induct) auto

text \<open>What a run keeps, starting from the rules \<open>R\<close>: the current rules are valid, the changes sent so
  far turn the first listing into the current one, and the deferred root notifications form a
  chain of valid rule sets from the first to the current one.\<close>

definition run_ok :: "url_crate \<Rightarrow> string \<Rightarrow> rule_set \<Rightarrow> wrapper_state \<Rightarrow> bool" where
  "run_ok C name R st \<longleftrightarrow>
     rules_ok C (as_rules st) \<and> replay (as_changes st) (listing C name R) = listing C name (as_rules st) \<and>
     chained R (as_root_work st) (as_rules st) \<and>
     list_all (\<lambda>(old, new). rules_ok C old \<and> rules_ok C new) (as_root_work st)"

locale rule_commit =
  fixes C :: url_crate and name :: string and may :: "wrapper_state \<Rightarrow> bool" and commit :: "wrapper_state \<Rightarrow> wrapper_state"
  assumes commit_law: "rules_ok C (as_rules st) \<Longrightarrow> may st \<Longrightarrow> commits C name st (commit st)"
begin

lemma keeps_run: "run_ok C name R st \<Longrightarrow> may st \<Longrightarrow> run_ok C name R (commit st)"
  using commit_law[of st] by (auto simp: run_ok_def commits_def chained_snoc)

end

lemma commits_swap:
  assumes "rules_ok C new" "replay changes (listing C name (as_rules st)) = listing C name new"
    "as_rules st1 = as_rules st" "as_changes st1 = as_changes st" "as_root_work st1 = as_root_work st"
  shows "commits C name st (swap_rules new changes st1)"
  using assms by (auto simp: commits_def swap_rules_def)

lemma commits_refl: "as_rules st' = as_rules st \<Longrightarrow> as_changes st' = as_changes st \<Longrightarrow>
    as_root_work st' = as_root_work st \<Longrightarrow> commits C name st st'"
  by (simp add: commits_def)

subsection \<open>Installing derived rules\<close>

definition fresh_candidates :: "alias_rule list \<Rightarrow> wrapper_state \<Rightarrow> bool" where
  "fresh_candidates candidates st \<longleftrightarrow>
     distinct (map ar_id candidates) \<and> list_all (\<lambda>r. \<not> contains_id (as_rules st) (ar_id r)) candidates"

lemma install_loop_result:
  assumes "install_loop C cs R inst = (R', inst')" "validate_alias_rules C (alias_pairs R) = Inr ()"
  shows "\<exists>new. inst' = inst @ new \<and> R' = R\<lparr>rs_aliases := rs_aliases R @ new\<rparr> \<and> subseq new cs \<and>
    validate_alias_rules C (alias_pairs R') = Inr ()"
  using assms
proof (induction C cs R inst rule: install_loop.induct)
  case (1 C R inst)
  then show ?case by (intro exI[of _ "[]"]) auto
next
  case (2 C rule rest R inst)
  let ?R = "R\<lparr>rs_aliases := rs_aliases R @ [rule]\<rparr>"
  let ?dup = "list_ex (\<lambda>e. node_key (ar_from e) = node_key (ar_from rule)) (rs_aliases R)"
  have skip: ?case if "install_loop C rest R inst = (R', inst')"
    "install_loop C rest R inst = (R', inst') \<Longrightarrow> validate_alias_rules C (alias_pairs R) = Inr () \<Longrightarrow>
      \<exists>new. inst' = inst @ new \<and> R' = R\<lparr>rs_aliases := rs_aliases R @ new\<rparr> \<and> subseq new rest \<and>
        validate_alias_rules C (alias_pairs R') = Inr ()"
    using that 2(5) by blast
  show ?case
  proof (cases ?dup)
    case True
    then show ?thesis using 2(4) by (intro skip) (auto intro!: 2(1))
  next
    case False
    show ?thesis
    proof (cases "validate_alias_rules C (alias_pairs ?R)")
      case (Inl e)
      then show ?thesis using False 2(4) by (intro skip) (auto intro!: 2(2))
    next
      case (Inr u)
      then have "install_loop C rest ?R (inst @ [rule]) = (R', inst')" using False 2(4) by simp
      from 2(3)[OF False refl Inr this] Inr obtain new where
        "inst' = (inst @ [rule]) @ new" "R' = ?R\<lparr>rs_aliases := rs_aliases ?R @ new\<rparr>" "subseq new rest"
        "validate_alias_rules C (alias_pairs R') = Inr ()" by auto
      then show ?thesis by (intro exI[of _ "rule # new"]) auto
    qed
  qed
qed

lemma subseq_set: "subseq xs ys \<Longrightarrow> set xs \<subseteq> set ys"
  by (induction rule: list_emb.induct) auto

lemma subseq_distinct: "subseq xs ys \<Longrightarrow> distinct (map f ys) \<Longrightarrow> distinct (map f xs)"
  by (induction rule: list_emb.induct) (auto dest: subseq_set)

lemma install_commits:
  assumes "rules_ok C (as_rules st)" "fresh_candidates cs st"
  shows "commits C name st (install_commit C name ow cs st)"
proof -
  let ?R = "as_rules st"
  obtain R' inst where loop: "install_loop C cs ?R [] = (R', inst)" by fastforce
  from install_loop_result[OF this] assms(1)
  have R': "R' = ?R\<lparr>rs_aliases := rs_aliases ?R @ inst\<rparr>" "subseq inst cs"
    "validate_alias_rules C (alias_pairs R') = Inr ()"
    by (auto simp: rules_ok_def)
  have ids: "distinct (map ar_id inst)" "set (map ar_id inst) \<inter> set (rule_ids ?R) = {}"
    using assms(2) subseq_distinct[OF R'(2), of ar_id] subseq_set[OF R'(2)]
    by (auto simp: fresh_candidates_def list_all_iff contains_id_iff)
  have d: "distinct (rule_ids R')" using ids assms(1) by (auto simp: R'(1) rule_ids_def rules_ok_def)
  have ok: "rules_ok C R'" using R' d assms(1) by (simp add: rules_ok_def)
  let ?rows = "map (alias_connection C name) inst"
  have rows: "set (local_rows C name R') = set (local_rows C name ?R) \<union> set ?rows"
    by (auto simp: local_rows_def R'(1))
  have "replay (map Conn_Added ?rows) (listing C name ?R) = listing C name R'"
  proof (rule listing_eqI[OF d])
    fix i c
    have "c \<in> set (local_rows C name ?R) \<Longrightarrow> conn_id c \<in> set (rule_ids ?R)" for c
      using listing_ids[of C name ?R] by (metis image_eqI set_map)
    then show "replay (map Conn_Added ?rows) (listing C name ?R) i = Some c \<longleftrightarrow>
        c \<in> set (local_rows C name R') \<and> conn_id c = i"
      using replay_added[of ?rows "listing C name ?R" i c] ids assms(1) listing_iff[of ?R C name i c] rows
      by (auto simp: comp_def rules_ok_def)
  qed
  then have swap: "commits C name st (swap_rules R' (map (\<lambda>r. Conn_Added (alias_connection C name r)) inst) st)"
    by (intro commits_swap ok) (simp_all add: comp_def)
  show ?thesis
    using swap by (auto simp: install_commit_def loop commits_refl)
qed

interpretation installing: rule_commit C name "fresh_candidates cs" "install_commit C name ow cs" for C name cs ow
  by unfold_locales (rule install_commits)

subsection \<open>Removing rules\<close>

lemma listing_removed:
  assumes "distinct (rule_ids R)" "distinct (rule_ids R')"
    "set (local_rows C name R') = {c \<in> set (local_rows C name R). conn_id c \<notin> set ids}"
  shows "replay (map Conn_Removed ids) (listing C name R) = listing C name R'"
  using assms by (intro listing_eqI) (auto simp: replay_removed listing_iff)

lemma filtered_rows:
  fixes R :: rule_set and P :: "alias_rule \<Rightarrow> bool"
  assumes "distinct (rule_ids R)"
  defines "R' \<equiv> R\<lparr>rs_aliases := filter P (rs_aliases R)\<rparr>"
    and "ids \<equiv> map ar_id (filter (\<lambda>r. \<not> P r) (rs_aliases R))"
  shows "distinct (rule_ids R')"
    "set (local_rows C name R') = {c \<in> set (local_rows C name R). conn_id c \<notin> set ids}"
proof -
  show "distinct (rule_ids R')"
    using assms(1) by (auto simp: R'_def rule_ids_def distinct_map_filter)
  have inj: "r = r'" if "r \<in> set (rs_aliases R)" "r' \<in> set (rs_aliases R)" "ar_id r = ar_id r'" for r r'
    using that assms(1) by (auto simp: rule_ids_def distinct_map dest: inj_onD)
  have vis: "vo_id v \<noteq> ar_id r" if "v \<in> set (rs_visibility R)" "r \<in> set (rs_aliases R)" for v r
    using that assms(1) by (auto simp: rule_ids_def)
  show "set (local_rows C name R') = {c \<in> set (local_rows C name R). conn_id c \<notin> set ids}"
    using vis by (auto simp: local_rows_def R'_def ids_def dest: inj)
qed

lemma withdraw_commits:
  assumes "rules_ok C (as_rules st)"
  shows "commits C name st (withdraw_commit C ow st)"
proof -
  let ?R = "as_rules st"
  let ?R' = "?R\<lparr>rs_aliases := filter (\<lambda>r. ar_derived_from r \<noteq> Some ow) (rs_aliases ?R)\<rparr>"
  have d: "distinct (rule_ids ?R)" using assms by (simp add: rules_ok_def)
  note rows = filtered_rows[OF d, where P = "\<lambda>r. ar_derived_from r \<noteq> Some ow"]
  have "commits C name st (swap_rules ?R' (map Conn_Removed (map ar_id (filter (\<lambda>r. ar_derived_from r = Some ow) (rs_aliases ?R)))) st1)"
    if "validate_alias_rules C (alias_pairs ?R') = Inr ()" "as_rules st1 = ?R" "as_changes st1 = as_changes st"
      "as_root_work st1 = as_root_work st" for st1
    using that rows assms
    by (intro commits_swap listing_removed[OF d]) (simp_all add: rules_ok_def)
  then show ?thesis
    by (auto simp: withdraw_commit_def Let_def commits_refl comp_def split: sum.splits)
qed

interpretation withdrawing: rule_commit C name "\<lambda>_. True" "withdraw_commit C ow" for C name ow
  by unfold_locales (rule withdraw_commits)

lemma shortened_rules:
  assumes "rules_ok C R" "list_ex (\<lambda>r. vo_id r = i) (rs_visibility R)"
  defines "R' \<equiv> R\<lparr>rs_visibility := remove_first (\<lambda>r. vo_id r = i) (rs_visibility R)\<rparr>"
  shows "rules_ok C R'" "set (local_rows C name R') = {c \<in> set (local_rows C name R). conn_id c \<notin> set [i]}"
proof -
  obtain ys x zs where v: "rs_visibility R = ys @ x # zs" "vo_id x = i" "rs_visibility R' = ys @ zs"
    using remove_first_split[OF assms(2)] by (auto simp: R'_def)
  have a: "rs_aliases R' = rs_aliases R" by (simp add: R'_def)
  show "rules_ok C R'"
    using assms(1) v a
    by (auto simp: rules_ok_def rule_ids_def alias_pairs_def validate_visibility_rules_def validate_visibility_iff
        standalone_visibility_pairs_def)
  have "i \<notin> set (map ar_id (rs_aliases R)) \<union> set (map vo_id (ys @ zs))"
    using assms(1) v(1,2) by (auto simp: rules_ok_def rule_ids_def)
  then show "set (local_rows C name R') = {c \<in> set (local_rows C name R). conn_id c \<notin> set [i]}"
    using v a by (auto simp: local_rows_def image_iff)
qed

lemma shortened_aliases:
  assumes "distinct (rule_ids R)" "list_ex (\<lambda>r. ar_id r = i) (rs_aliases R)"
  defines "R' \<equiv> R\<lparr>rs_aliases := remove_first (\<lambda>r. ar_id r = i) (rs_aliases R)\<rparr>"
  shows "distinct (rule_ids R')" "set (local_rows C name R') = {c \<in> set (local_rows C name R). conn_id c \<notin> set [i]}"
proof -
  obtain ys x zs where v: "rs_aliases R = ys @ x # zs" "ar_id x = i" "rs_aliases R' = ys @ zs"
    using remove_first_split[OF assms(2)] by (auto simp: R'_def)
  have a: "rs_visibility R' = rs_visibility R" by (simp add: R'_def)
  show "distinct (rule_ids R')" using assms(1) v a by (auto simp: rule_ids_def)
  have "i \<notin> set (map vo_id (rs_visibility R)) \<union> set (map ar_id (ys @ zs))"
    using assms(1) v(1,2) by (auto simp: rule_ids_def)
  then show "set (local_rows C name R') = {c \<in> set (local_rows C name R). conn_id c \<notin> set [i]}"
    using v a by (auto simp: local_rows_def image_iff)
qed

lemma remove_commits:
  assumes "rules_ok C (as_rules st)"
  shows "commits C name st (snd (remove_commit C i st))"
proof -
  let ?R = "as_rules st"
  have d: "distinct (rule_ids ?R)" using assms by (simp add: rules_ok_def)
  have al: "commits C name st (swap_rules R' [Conn_Removed i] st)"
    if "list_ex (\<lambda>r. ar_id r = i) (rs_aliases ?R)" "validate_alias_rules C (alias_pairs R') = Inr ()"
      "R' = ?R\<lparr>rs_aliases := remove_first (\<lambda>r. ar_id r = i) (rs_aliases ?R)\<rparr>" for R'
    using listing_removed[OF d, of R' C name "[i]"] shortened_aliases[OF d that(1)] that assms
    by (intro commits_swap) (simp_all add: rules_ok_def)
  have vis: "commits C name st (swap_rules R' [Conn_Removed i] st)"
    if "list_ex (\<lambda>r. vo_id r = i) (rs_visibility ?R)"
      "R' = ?R\<lparr>rs_visibility := remove_first (\<lambda>r. vo_id r = i) (rs_visibility ?R)\<rparr>" for R'
    using listing_removed[OF d, of R' C name "[i]"] shortened_rules[OF assms that(1)] that
    by (intro commits_swap) (simp_all add: rules_ok_def)
  show ?thesis
    using al vis by (auto simp: remove_commit_def Let_def commits_refl split: sum.splits)
qed

interpretation removing: rule_commit C name "\<lambda>_. True" "\<lambda>st. snd (remove_commit C i st)" for C name i
  by unfold_locales (rule remove_commits)

subsection \<open>Adding a rule\<close>

lemma evicted_rules:
  assumes "rules_ok C R" "evict_derived_duplicates R from = (R', evicted)"
  shows "distinct (rule_ids R')" "rs_visibility R' = rs_visibility R" "set (rule_ids R') \<subseteq> set (rule_ids R)"
    "set (local_rows C name R') = {c \<in> set (local_rows C name R). conn_id c \<notin> set evicted}"
proof -
  let ?P = "\<lambda>r. \<not> (ar_derived_from r \<noteq> None \<and> node_key (ar_from r) = node_key from)"
  have e: "R' = R\<lparr>rs_aliases := filter ?P (rs_aliases R)\<rparr>" "evicted = map ar_id (filter (\<lambda>r. \<not> ?P r) (rs_aliases R))"
    using assms(2) by (simp_all add: evict_derived_duplicates_def Let_def)
  have "distinct (rule_ids R)" using assms(1) by (simp add: rules_ok_def)
  note f = filtered_rows[OF this, where P = ?P]
  show "distinct (rule_ids R')" "rs_visibility R' = rs_visibility R" "set (rule_ids R') \<subseteq> set (rule_ids R)"
    "set (local_rows C name R') = {c \<in> set (local_rows C name R). conn_id c \<notin> set evicted}"
    using f unfolding e by (auto simp: rule_ids_def)
qed

lemma listing_extended:
  assumes "distinct (rule_ids R)" "distinct (rule_ids R')"
    "set (local_rows C name R') = {c \<in> set (local_rows C name R). conn_id c \<notin> set ids} \<union> {row}"
    "conn_id row \<notin> set (rule_ids R)"
  shows "replay (map Conn_Removed ids @ [Conn_Added row]) (listing C name R) = listing C name R'"
proof (rule listing_eqI[OF assms(2)])
  fix i c
  have "c \<in> set (local_rows C name R) \<Longrightarrow> conn_id c \<in> set (rule_ids R)" for c
    using listing_ids[of C name R] by (metis image_eqI set_map)
  then show "replay (map Conn_Removed ids @ [Conn_Added row]) (listing C name R) i = Some c \<longleftrightarrow>
      c \<in> set (local_rows C name R') \<and> conn_id c = i"
    using assms(3,4) by (auto simp: replay_removed listing_iff[OF assms(1)]) metis
qed

lemma add_commits:
  assumes "rules_ok C (as_rules st)"
  shows "commits C name st (snd (add_commit C name i fragment source display st))"
proof (cases "contains_id (as_rules st) i")
  case True
  then show ?thesis by (simp add: add_commit_def commits_refl)
next
  case new: False
  let ?R = "as_rules st"
  have d: "distinct (rule_ids ?R)" and i: "i \<notin> set (rule_ids ?R)"
    using assms new by (simp_all add: rules_ok_def contains_id_iff)
  show ?thesis
  proof (cases fragment)
    case (Fragment_Alias f t v)
    obtain R' evicted where e: "evict_derived_duplicates ?R f = (R', evicted)" by fastforce
    note ev = evicted_rules[OF assms e]
    define rule where "rule = \<lparr>ar_id = i, ar_from = f, ar_to = t, ar_source = source, ar_display_name = display,
        ar_user_metadata = Map.empty, ar_visibility = v, ar_derived_from = None\<rparr>"
    define S where "S = R'\<lparr>rs_aliases := rs_aliases R' @ [rule]\<rparr>"
    have dS: "distinct (rule_ids S)" using ev(1,3) i by (auto simp: S_def rule_ids_def rule_def)
    have "replay (map Conn_Removed evicted @ [Conn_Added (alias_connection C name rule)]) (listing C name ?R) =
        listing C name S"
      using ev(4)[of name] i by (intro listing_extended[OF d dS]) (auto simp: S_def local_rows_def rule_def)
    then have "commits C name st (swap_rules S (map Conn_Removed evicted @ [Conn_Added (alias_connection C name rule)]) st)"
      if "validate_alias_rules C (alias_pairs S) = Inr ()"
      using that dS assms ev(2) by (intro commits_swap) (simp_all add: rules_ok_def S_def)
    then show ?thesis
      using new by (auto simp: add_commit_def Fragment_Alias e Let_def S_def rule_def commits_refl split: sum.splits)
  next
    case (Fragment_Visibility address visibility)
    define rule where "rule = \<lparr>vo_id = i, vo_address = address, vo_visibility = visibility, vo_source = source,
        vo_display_name = display, vo_user_metadata = Map.empty\<rparr>"
    define S where "S = ?R\<lparr>rs_visibility := rs_visibility ?R @ [rule]\<rparr>"
    have dS: "distinct (rule_ids S)" using d i by (auto simp: S_def rule_ids_def rule_def)
    have "replay (map Conn_Removed [] @ [Conn_Added (visibility_connection C name rule)]) (listing C name ?R) =
        listing C name S"
      using i by (intro listing_extended[OF d dS]) (auto simp: S_def local_rows_def rule_def)
    then have "commits C name st (swap_rules S [Conn_Added (visibility_connection C name rule)] st)"
      if "validate_visibility_rules (standalone_visibility_pairs (rs_visibility S)) = Inr ()"
      using that dS assms by (intro commits_swap) (simp_all add: rules_ok_def S_def alias_pairs_def)
    then show ?thesis
      using new by (auto simp: add_commit_def Fragment_Visibility Let_def S_def rule_def commits_refl split: sum.splits)
  qed
qed

interpretation adding: rule_commit C name "\<lambda>_. True" "\<lambda>st. snd (add_commit C name i fragment source display st)"
  for C name i fragment source display
  by unfold_locales (rule add_commits)

subsection \<open>Updating a rule\<close>

lemma listing_updated:
  assumes "distinct (rule_ids R)" "rule_ids R' = rule_ids R"
    "set (local_rows C name R') = {c \<in> set (local_rows C name R). conn_id c \<noteq> conn_id row} \<union> {row}"
  shows "replay [Conn_Updated row] (listing C name R) = listing C name R'"
  using assms by (intro listing_eqI) (auto simp: listing_iff)

lemma patch_alias_keeps:
  "patch_alias r patch = Inr r' \<Longrightarrow>
     ar_id r' = ar_id r \<and> ar_from r' = ar_from r \<and> ar_to r' = ar_to r \<and> ar_derived_from r' = ar_derived_from r"
  by (auto simp: patch_alias_def split: sum.splits)

lemma patch_override_keeps:
  assumes "patch_override v patch = Inr v'" "override_ok (vo_address v, vo_visibility v)"
  shows "vo_id v' = vo_id v \<and> vo_address v' = vo_address v \<and> override_ok (vo_address v', vo_visibility v')"
  using assms
  by (auto simp: patch_override_def Let_def override_ok_def validate_visibility_rules_def
      split: sum.splits option.splits if_splits)

lemma patched_aliases:
  assumes "rules_ok C R" "find (\<lambda>r. ar_id r = i) (rs_aliases R) = Some r" "patch_alias r patch = Inr r'"
  defines "R' \<equiv> R\<lparr>rs_aliases := update_first (\<lambda>r. ar_id r = i) r' (rs_aliases R)\<rparr>"
  shows "rules_ok C R'" "replay [Conn_Updated (alias_connection C name r')] (listing C name R) = listing C name R'"
proof -
  obtain ys zs where a: "rs_aliases R = ys @ r # zs" "ar_id r = i" "rs_aliases R' = ys @ r' # zs"
    using update_first_split[OF assms(2), of r'] by (auto simp: R'_def)
  note k = patch_alias_keeps[OF assms(3)]
  have v: "rs_visibility R' = rs_visibility R" by (simp add: R'_def)
  have ids: "rule_ids R' = rule_ids R" "alias_pairs R' = alias_pairs R"
    using a k v by (simp_all add: rule_ids_def alias_pairs_def)
  then show "rules_ok C R'" using assms(1) v by (simp add: rules_ok_def)
  have d: "distinct (rule_ids R)" using assms(1) by (simp add: rules_ok_def)
  have "set (local_rows C name R') =
      {c \<in> set (local_rows C name R). conn_id c \<noteq> conn_id (alias_connection C name r')} \<union> {alias_connection C name r'}"
    using d a k v by (auto simp: local_rows_def rule_ids_def image_iff)
  then show "replay [Conn_Updated (alias_connection C name r')] (listing C name R) = listing C name R'"
    by (rule listing_updated[OF d ids(1)])
qed

lemma patched_overrides:
  assumes "rules_ok C R" "find (\<lambda>r. vo_id r = i) (rs_visibility R) = Some v" "patch_override v patch = Inr v'"
  defines "R' \<equiv> R\<lparr>rs_visibility := update_first (\<lambda>r. vo_id r = i) v' (rs_visibility R)\<rparr>"
  shows "rules_ok C R'" "replay [Conn_Updated (visibility_connection C name v')] (listing C name R) = listing C name R'"
proof -
  obtain ys zs where a: "rs_visibility R = ys @ v # zs" "vo_id v = i" "rs_visibility R' = ys @ v' # zs"
    using update_first_split[OF assms(2), of v'] by (auto simp: R'_def)
  have "override_ok (vo_address v, vo_visibility v)"
    using assms(1) a(1)
    by (auto simp: rules_ok_def validate_visibility_rules_def validate_visibility_iff standalone_visibility_pairs_def)
  note k = patch_override_keeps[OF assms(3) this]
  have al: "rs_aliases R' = rs_aliases R" by (simp add: R'_def)
  have ids: "rule_ids R' = rule_ids R" using a k al by (simp add: rule_ids_def)
  show "rules_ok C R'"
    using assms(1) ids a k al
    by (auto simp: rules_ok_def validate_visibility_rules_def validate_visibility_iff standalone_visibility_pairs_def
        alias_pairs_def)
  have d: "distinct (rule_ids R)" using assms(1) by (simp add: rules_ok_def)
  have "set (local_rows C name R') =
      {c \<in> set (local_rows C name R). conn_id c \<noteq> conn_id (visibility_connection C name v')} \<union>
        {visibility_connection C name v'}"
    using d a k al by (auto simp: local_rows_def rule_ids_def image_iff)
  then show "replay [Conn_Updated (visibility_connection C name v')] (listing C name R) = listing C name R'"
    by (rule listing_updated[OF d ids])
qed

lemma update_commits:
  assumes "rules_ok C (as_rules st)"
  shows "commits C name st (snd (update_commit C name i patch st))"
  using patched_aliases[OF assms] patched_overrides[OF assms]
  by (auto simp: update_commit_def Let_def commits_refl intro!: commits_swap split: option.splits sum.splits)

interpretation updating: rule_commit C name "\<lambda>_. True" "\<lambda>st. snd (update_commit C name i patch st)" for C name i patch
  by unfold_locales (rule update_commits)

section \<open>What a commit owes even where ids collide\<close>

text \<open>Nothing checks that the id of a derived rule is unused, so two rules can come to share one. The
  validations do not depend on ids: every commit puts a valid rule set in force and defers one root
  notification from the old set to the new one.\<close>

definition works :: "url_crate \<Rightarrow> wrapper_state \<Rightarrow> wrapper_state \<Rightarrow> bool" where
  "works C st st' \<longleftrightarrow>
     as_rules st' = as_rules st \<and> as_root_work st' = as_root_work st \<or>
     rules_valid C (as_rules st') \<and> as_root_work st' = as_root_work st @ [(as_rules st, as_rules st')]"

definition work_ok :: "url_crate \<Rightarrow> rule_set \<Rightarrow> wrapper_state \<Rightarrow> bool" where
  "work_ok C R st \<longleftrightarrow>
     rules_valid C (as_rules st) \<and> chained R (as_root_work st) (as_rules st) \<and>
     list_all (\<lambda>(old, new). rules_valid C old \<and> rules_valid C new) (as_root_work st)"

locale valid_commit =
  fixes C :: url_crate and commit :: "wrapper_state \<Rightarrow> wrapper_state"
  assumes commit_valid: "rules_valid C (as_rules st) \<Longrightarrow> works C st (commit st)"
begin

lemma keeps_work: "work_ok C R st \<Longrightarrow> work_ok C R (commit st)"
  using commit_valid[of st] by (auto simp: work_ok_def works_def chained_snoc)

end

lemma works_refl: "as_rules st' = as_rules st \<Longrightarrow> as_root_work st' = as_root_work st \<Longrightarrow> works C st st'"
  by (simp add: works_def)

lemma works_swap:
  "rules_valid C new \<Longrightarrow> as_rules st1 = as_rules st \<Longrightarrow> as_root_work st1 = as_root_work st \<Longrightarrow>
     works C st (swap_rules new changes st1)"
  by (simp add: works_def swap_rules_def)

lemma install_works:
  assumes "rules_valid C (as_rules st)"
  shows "works C st (install_commit C name ow cs st)"
proof -
  obtain R' inst where loop: "install_loop C cs (as_rules st) [] = (R', inst)" by fastforce
  from install_loop_result[OF this] assms have "rules_valid C R'" by (auto simp: rules_valid_def)
  then show ?thesis by (simp add: install_commit_def loop works_refl works_swap)
qed

lemma withdraw_works:
  assumes "rules_valid C (as_rules st)"
  shows "works C st (withdraw_commit C ow st)"
  using assms
  by (auto simp: withdraw_commit_def Let_def rules_valid_def works_def swap_rules_def split: sum.splits)

lemma remove_works:
  assumes "rules_valid C (as_rules st)"
  shows "works C st (snd (remove_commit C i st))"
proof -
  let ?R = "as_rules st"
  have "rules_valid C (?R\<lparr>rs_visibility := remove_first (\<lambda>r. vo_id r = i) (rs_visibility ?R)\<rparr>)"
    if "list_ex (\<lambda>r. vo_id r = i) (rs_visibility ?R)"
    using remove_first_split[OF that] assms
    by (auto simp: rules_valid_def alias_pairs_def validate_visibility_rules_def validate_visibility_iff
        standalone_visibility_pairs_def)
  then show ?thesis
    using assms by (auto simp: remove_commit_def Let_def rules_valid_def works_def swap_rules_def split: sum.splits)
qed

lemma add_works:
  assumes "rules_valid C (as_rules st)"
  shows "works C st (snd (add_commit C name i fragment source display st))"
  using assms
  by (auto simp: add_commit_def Let_def rules_valid_def evict_derived_duplicates_def alias_pairs_def
      works_def swap_rules_def split: sum.splits rule_fragment.splits)

lemma update_works:
  assumes "rules_valid C (as_rules st)"
  shows "works C st (snd (update_commit C name i patch st))"
proof -
  let ?R = "as_rules st"
  have al: "rules_valid C (?R\<lparr>rs_aliases := update_first (\<lambda>r. ar_id r = i) r' (rs_aliases ?R)\<rparr>)"
    if "find (\<lambda>r. ar_id r = i) (rs_aliases ?R) = Some r" "patch_alias r patch = Inr r'" for r r'
    using update_first_split[OF that(1), of r'] patch_alias_keeps[OF that(2)] assms
    by (auto simp: rules_valid_def alias_pairs_def)
  have vis: "rules_valid C (?R\<lparr>rs_visibility := update_first (\<lambda>r. vo_id r = i) v' (rs_visibility ?R)\<rparr>)"
    if v: "find (\<lambda>r. vo_id r = i) (rs_visibility ?R) = Some v" "patch_override v patch = Inr v'" for v v'
  proof -
    obtain ys zs where a: "rs_visibility ?R = ys @ v # zs"
      "update_first (\<lambda>r. vo_id r = i) v' (rs_visibility ?R) = ys @ v' # zs"
      using update_first_split[OF v(1), of v'] by auto
    have "override_ok (vo_address v, vo_visibility v)"
      using assms a(1)
      by (auto simp: rules_valid_def validate_visibility_rules_def validate_visibility_iff standalone_visibility_pairs_def)
    from patch_override_keeps[OF v(2) this] show ?thesis using assms a
      by (auto simp: rules_valid_def validate_visibility_rules_def validate_visibility_iff standalone_visibility_pairs_def
          alias_pairs_def)
  qed
  show ?thesis
    using al vis by (auto simp: update_commit_def Let_def works_refl works_swap split: option.splits sum.splits)
qed

interpretation install_valid: valid_commit C "install_commit C name ow cs" for C name ow cs
  by unfold_locales (rule install_works)

interpretation withdraw_valid: valid_commit C "withdraw_commit C ow" for C ow
  by unfold_locales (rule withdraw_works)

interpretation remove_valid: valid_commit C "\<lambda>st. snd (remove_commit C i st)" for C i
  by unfold_locales (rule remove_works)

interpretation add_valid: valid_commit C "\<lambda>st. snd (add_commit C name i fragment source display st)"
  for C name i fragment source display
  by unfold_locales (rule add_works)

interpretation update_valid: valid_commit C "\<lambda>st. snd (update_commit C name i patch st)" for C name i patch
  by unfold_locales (rule update_works)

section \<open>Interleaved operations\<close>

text \<open>
  An add that is handed to the layer below registers a connection there; the alias layer continues
  with it later, opens the in-flight entry of its derivation, scans, commits the derived rules and
  drops the entry. A removal takes the connection from the layer below and withdraws its derived
  rules afterwards. Everything else may happen in between. \<open>ru_live\<close> are the connections registered
  below, \<open>ru_withdrawing\<close> the removals that have not reached their withdrawal, and \<open>ru_dangling\<close> the
  owners whose rules stayed because the rest would not have been valid. \<open>ru_collided\<close> records that rules
  were derived under an id already in use: the code mints the ids of derived rules without looking, and a
  caller may have chosen one of that form for a rule of its own.
\<close>

datatype derivation_phase = Registered | Deriving | Derived

record alias_run =
  ru_state :: wrapper_state
  ru_live :: "owner set"
  ru_tasks :: "(owner \<times> derivation_phase) list"
  ru_withdrawing :: "owner list"
  ru_dangling :: "owner set"
  ru_collided :: bool

definition derived_owners :: "rule_set \<Rightarrow> owner set" where
  "derived_owners R = {ow. \<exists>r \<in> set (rs_aliases R). ar_derived_from r = Some ow}"

definition pending_key :: "string \<Rightarrow> owner \<times> derivation_phase \<Rightarrow> bool" where
  "pending_key k t \<longleftrightarrow> snd t = Registered \<and> derivation_key (fst t) = k"

definition open_keys :: "(owner \<times> derivation_phase) list \<Rightarrow> string list" where
  "open_keys tasks = map (derivation_key \<circ> fst) (filter (\<lambda>t. snd t \<noteq> Registered) tasks)"

text \<open>With \<open>apart\<close> set, two derivations under one key never overlap, and a withdrawal does not overtake
  an add that has not opened its entry yet; the code enforces neither.\<close>

inductive al_step :: "url_crate \<Rightarrow> string \<Rightarrow> bool \<Rightarrow> alias_run \<Rightarrow> alias_run \<Rightarrow> bool" for C name apart where
  Register: "ow \<notin> ru_live s \<Longrightarrow>
    al_step C name apart s (s\<lparr>ru_live := insert ow (ru_live s), ru_tasks := (ow, Registered) # ru_tasks s\<rparr>)"
| Ignore: "ru_tasks s = xs @ (ow, Registered) # ys \<Longrightarrow> al_step C name apart s (s\<lparr>ru_tasks := xs @ ys\<rparr>)"
| Begin: "ru_tasks s = xs @ (ow, Registered) # ys \<Longrightarrow>
    (apart \<Longrightarrow> derivation_key ow \<notin> set (open_keys (xs @ ys))) \<Longrightarrow>
    al_step C name apart s
      (s\<lparr>ru_tasks := xs @ (ow, Deriving) # ys, ru_state := begin_derivation ow (ru_state s)\<rparr>)"
| Install: "ru_tasks s = xs @ (ow, Deriving) # ys \<Longrightarrow> list_all (\<lambda>r. ar_derived_from r = Some ow) cs \<Longrightarrow>
    al_step C name apart s
      (s\<lparr>ru_tasks := xs @ (ow, Derived) # ys, ru_state := install_commit C name ow cs (ru_state s),
         ru_collided := ru_collided s \<or> \<not> fresh_candidates cs (ru_state s)\<rparr>)"
| Finish: "ru_tasks s = xs @ (ow, phase) # ys \<Longrightarrow> phase \<noteq> Registered \<Longrightarrow>
    al_step C name apart s (s\<lparr>ru_tasks := xs @ ys, ru_state := drop_derivation ow (ru_state s)\<rparr>)"
| Unregister: "ow \<in> ru_live s \<Longrightarrow>
    al_step C name apart s (s\<lparr>ru_live := ru_live s - {ow}, ru_withdrawing := ow # ru_withdrawing s\<rparr>)"
| Withdraw: "ru_withdrawing s = xs @ ow # ys \<Longrightarrow>
    (apart \<Longrightarrow> \<not> list_ex (pending_key (derivation_key ow)) (ru_tasks s)) \<Longrightarrow> st = withdraw_commit C ow (ru_state s) \<Longrightarrow>
    al_step C name apart s
      (s\<lparr>ru_withdrawing := xs @ ys, ru_state := st,
         ru_dangling := ru_dangling s \<union> ({ow} \<inter> derived_owners (as_rules st))\<rparr>)"
| Add: "al_step C name apart s
    (s\<lparr>ru_state := snd (add_commit C name i fragment source display (ru_state s))\<rparr>)"
| Remove: "al_step C name apart s (s\<lparr>ru_state := snd (remove_commit C i (ru_state s))\<rparr>)"
| Update: "al_step C name apart s (s\<lparr>ru_state := snd (update_commit C name i patch (ru_state s))\<rparr>)"

definition al_init :: "wrapper_state \<Rightarrow> alias_run" where
  "al_init st = \<lparr>ru_state = st, ru_live = {}, ru_tasks = [], ru_withdrawing = [], ru_dangling = {},
     ru_collided = False\<rparr>"

inductive al_reachable :: "url_crate \<Rightarrow> string \<Rightarrow> bool \<Rightarrow> wrapper_state \<Rightarrow> alias_run \<Rightarrow> bool" for C name apart st where
  Init: "al_reachable C name apart st (al_init st)"
| Step: "al_reachable C name apart st s \<Longrightarrow> al_step C name apart s s' \<Longrightarrow> al_reachable C name apart st s'"

lemma derivation_frame [simp]:
  "as_rules (begin_derivation ow st) = as_rules st" "as_changes (begin_derivation ow st) = as_changes st"
  "as_root_work (begin_derivation ow st) = as_root_work st"
  "as_rules (drop_derivation ow st) = as_rules st" "as_changes (drop_derivation ow st) = as_changes st"
  "as_root_work (drop_derivation ow st) = as_root_work st"
  by (simp_all add: begin_derivation_def drop_derivation_def)

lemma run_ok_frame:
  "as_rules st' = as_rules st \<Longrightarrow> as_changes st' = as_changes st \<Longrightarrow> as_root_work st' = as_root_work st \<Longrightarrow>
     run_ok C name R st' = run_ok C name R st"
  by (simp add: run_ok_def)

lemma work_ok_frame:
  "as_rules st' = as_rules st \<Longrightarrow> as_root_work st' = as_root_work st \<Longrightarrow> work_ok C R st' = work_ok C R st"
  by (simp add: work_ok_def)

lemma step_keeps_run:
  "al_step C name apart s s' \<Longrightarrow> ru_collided s \<or> run_ok C name R (ru_state s) \<Longrightarrow>
     ru_collided s' \<or> run_ok C name R (ru_state s')"
proof (induction rule: al_step.induct)
  case (Begin s xs ow ys)
  then show ?case by (simp add: run_ok_frame[of "begin_derivation ow (ru_state s)" "ru_state s"])
next
  case (Install s xs ow ys cs)
  then show ?case by (auto simp: installing.keeps_run)
next
  case (Finish s xs ow phase ys)
  then show ?case by (simp add: run_ok_frame[of "drop_derivation ow (ru_state s)" "ru_state s"])
qed (auto simp: withdrawing.keeps_run adding.keeps_run removing.keeps_run updating.keeps_run)

lemma reachable_run:
  assumes "al_reachable C name apart st s" "run_ok C name (as_rules st) st"
  shows "ru_collided s \<or> run_ok C name (as_rules st) (ru_state s)"
  using assms
proof (induction rule: al_reachable.induct)
  case Init
  then show ?case by (simp add: al_init_def)
next
  case (Step s s')
  then show ?case using step_keeps_run by blast
qed

lemma step_keeps_work: "al_step C name apart s s' \<Longrightarrow> work_ok C R (ru_state s) \<Longrightarrow> work_ok C R (ru_state s')"
proof (induction rule: al_step.induct)
  case (Begin s xs ow ys)
  then show ?case by (simp add: work_ok_frame[of "begin_derivation ow (ru_state s)" "ru_state s"])
next
  case (Finish s xs ow phase ys)
  then show ?case by (simp add: work_ok_frame[of "drop_derivation ow (ru_state s)" "ru_state s"])
qed (simp_all add: install_valid.keeps_work withdraw_valid.keeps_work add_valid.keeps_work remove_valid.keeps_work
    update_valid.keeps_work)

lemma reachable_work:
  assumes "al_reachable C name apart st s" "work_ok C (as_rules st) st"
  shows "work_ok C (as_rules st) (ru_state s)"
  using assms by (induction rule: al_reachable.induct) (auto simp: al_init_def intro: step_keeps_work)

lemma run_ok_work: "run_ok C name R st \<Longrightarrow> work_ok C R st"
  by (auto simp: run_ok_def work_ok_def rules_ok_iff list_all_iff)

section \<open>Derived rules and their connections\<close>

lemma swap_rules_frame [simp]:
  "as_rules (swap_rules new changes st) = new" "as_derivations (swap_rules new changes st) = as_derivations st"
  by (simp_all add: swap_rules_def)

lemma derivations_kept [simp]:
  "as_derivations (install_commit C name ow cs st) = as_derivations st"
  "as_derivations (snd (add_commit C name i fragment source display st)) = as_derivations st"
  "as_derivations (snd (remove_commit C i st)) = as_derivations st"
  "as_derivations (snd (update_commit C name i patch st)) = as_derivations st"
  by (simp_all add: install_commit_def add_commit_def remove_commit_def update_commit_def Let_def
      split: prod.splits sum.splits option.splits rule_fragment.splits)

lemma derivations_marked:
  "as_derivations (withdraw_commit C ow st) =
     (if as_derivations st (derivation_key ow) = None then as_derivations st
      else (as_derivations st)(derivation_key ow \<mapsto> True))"
  by (auto simp: withdraw_commit_def Let_def split: sum.splits)

lemma set_remove_first: "set (remove_first P xs) \<subseteq> set xs"
  by (induction xs) auto

lemma install_owners:
  assumes "list_all (\<lambda>r. ar_derived_from r = Some ow) cs" "rules_valid C (as_rules st)"
  shows "derived_owners (as_rules (install_commit C name ow cs st)) \<subseteq>
    derived_owners (as_rules st) \<union> (if as_derivations st (derivation_key ow) = Some True then {} else {ow})"
proof -
  obtain R' inst where loop: "install_loop C cs (as_rules st) [] = (R', inst)" by fastforce
  from install_loop_result[OF this] assms(2)
  have "R' = as_rules st\<lparr>rs_aliases := rs_aliases (as_rules st) @ inst\<rparr>" "subseq inst cs"
    by (auto simp: rules_valid_def)
  with assms(1) subseq_set[of inst cs] have "derived_owners R' \<subseteq> derived_owners (as_rules st) \<union> {ow}"
    by (auto simp: derived_owners_def list_all_iff)
  then show ?thesis by (auto simp: install_commit_def loop)
qed

lemma withdraw_owners: "derived_owners (as_rules (withdraw_commit C ow st)) \<subseteq> derived_owners (as_rules st)"
  by (auto simp: withdraw_commit_def Let_def derived_owners_def split: sum.splits)

lemma add_owners:
  "derived_owners (as_rules (snd (add_commit C name i fragment source display st))) \<subseteq> derived_owners (as_rules st)"
  by (auto simp: add_commit_def Let_def evict_derived_duplicates_def derived_owners_def
      split: sum.splits rule_fragment.splits)

lemma remove_owners: "derived_owners (as_rules (snd (remove_commit C i st))) \<subseteq> derived_owners (as_rules st)"
proof -
  have "derived_owners (R\<lparr>rs_aliases := remove_first P (rs_aliases R)\<rparr>) \<subseteq> derived_owners R" for P and R :: rule_set
    using set_remove_first[of P "rs_aliases R"] by (auto simp: derived_owners_def)
  then show ?thesis by (auto simp: remove_commit_def Let_def derived_owners_def split: sum.splits)
qed

lemma update_owners: "derived_owners (as_rules (snd (update_commit C name i patch st))) \<subseteq> derived_owners (as_rules st)"
proof -
  have "derived_owners (R\<lparr>rs_aliases := update_first P r' (rs_aliases R)\<rparr>) \<subseteq> derived_owners R"
    if "find P (rs_aliases R) = Some r" "patch_alias r patch = Inr r'" for P R r r'
    using patch_alias_keeps[OF that(2)] update_first_split[OF that(1), of r'] by (auto simp: derived_owners_def)
  then show ?thesis
    by (auto simp: update_commit_def Let_def derived_owners_def split: sum.splits option.splits)
qed

definition accounted :: "alias_run \<Rightarrow> owner set" where
  "accounted s = ru_live s \<union> set (ru_withdrawing s)"

definition waiting :: "(owner \<times> derivation_phase) list \<Rightarrow> owner set" where
  "waiting ts = set (map fst (filter (\<lambda>t. snd t = Registered) ts))"

definition opened :: "(owner \<times> derivation_phase) list \<Rightarrow> owner set" where
  "opened ts = set (map fst (filter (\<lambda>t. snd t \<noteq> Registered) ts))"

lemma task_simps [simp]:
  "open_keys [] = []" "open_keys (xs @ ys) = open_keys xs @ open_keys ys"
  "open_keys ((ow, phase) # ts) = (if phase = Registered then open_keys ts else derivation_key ow # open_keys ts)"
  "waiting [] = {}" "waiting (xs @ ys) = waiting xs \<union> waiting ys"
  "waiting ((ow, phase) # ts) = (if phase = Registered then insert ow (waiting ts) else waiting ts)"
  "opened [] = {}" "opened (xs @ ys) = opened xs \<union> opened ys"
  "opened ((ow, phase) # ts) = (if phase = Registered then opened ts else insert ow (opened ts))"
  by (simp_all add: open_keys_def waiting_def opened_def)

lemma open_keys_opened: "set (open_keys ts) = derivation_key ` opened ts"
  by (simp add: open_keys_def opened_def image_comp)

definition marked :: "wrapper_state \<Rightarrow> owner \<Rightarrow> bool" where
  "marked st ow \<longleftrightarrow> as_derivations st (derivation_key ow) = Some True"

definition tracked :: "wrapper_state \<Rightarrow> owner set" where
  "tracked st = {ow. as_derivations st (derivation_key ow) \<noteq> None}"

definition derivation_inv :: "alias_run \<Rightarrow> bool" where
  "derivation_inv s \<longleftrightarrow>
     waiting (ru_tasks s) \<subseteq> accounted s \<and> opened (ru_tasks s) \<subseteq> tracked (ru_state s) \<and>
     {ow \<in> opened (ru_tasks s). \<not> marked (ru_state s) ow} \<subseteq> accounted s \<and>
     distinct (open_keys (ru_tasks s)) \<and>
     derived_owners (as_rules (ru_state s)) \<subseteq> accounted s \<union> ru_dangling s"

lemma step_keeps_derivations:
  assumes "al_step C name True s s'" "rules_valid C (as_rules (ru_state s))" "derivation_inv s"
  shows "derivation_inv s'"
  using assms
proof (induction rule: al_step.induct)
  case (Begin s xs ow ys)
  then have "derivation_key ow \<notin> derivation_key ` (opened xs \<union> opened ys)"
    by (simp add: open_keys_opened image_Un)
  then have "derivation_key o' \<noteq> derivation_key ow" if "o' \<in> opened xs \<union> opened ys" for o'
    using that by (metis image_eqI)
  then have "marked (begin_derivation ow (ru_state s)) o' = marked (ru_state s) o'"
    if "o' \<in> opened xs \<union> opened ys" for o'
    using that by (cases "derivation_key o' = derivation_key ow") (auto simp: marked_def begin_derivation_def)
  with Begin show ?case
    by (auto simp: derivation_inv_def accounted_def tracked_def begin_derivation_def open_keys_opened)
next
  case (Install s xs ow ys cs)
  have "\<not> marked (ru_state s) ow \<Longrightarrow> ow \<in> accounted s" using Install(1,4) by (auto simp: derivation_inv_def)
  with Install install_owners[OF Install(2,3), of name] show ?case
    by (auto simp: derivation_inv_def accounted_def marked_def tracked_def split: if_splits)
next
  case (Finish s xs ow phase ys)
  then have "derivation_key ow \<notin> derivation_key ` (opened xs \<union> opened ys)"
    by (auto simp: derivation_inv_def open_keys_opened)
  then have "derivation_key o' \<noteq> derivation_key ow" if "o' \<in> opened xs \<union> opened ys" for o'
    using that by (metis image_eqI)
  then have "as_derivations (drop_derivation ow (ru_state s)) (derivation_key o') = as_derivations (ru_state s) (derivation_key o')"
    if "o' \<in> opened xs \<union> opened ys" for o'
    using that by (auto simp: drop_derivation_def)
  with Finish show ?case
    by (auto simp: derivation_inv_def accounted_def marked_def tracked_def)
next
  case (Withdraw s xs ow ys st)
  then have "ow \<notin> waiting (ru_tasks s)"
    by (auto simp: pending_key_def list_ex_iff waiting_def)
  moreover have "marked st ow" if "ow \<in> opened (ru_tasks s)"
    using that Withdraw by (auto simp: derivation_inv_def tracked_def marked_def derivations_marked)
  moreover have "tracked st = tracked (ru_state s)"
    by (auto simp: Withdraw(3) tracked_def derivations_marked)
  moreover have "\<not> marked st o' \<Longrightarrow> \<not> marked (ru_state s) o'" for o'
    by (auto simp: Withdraw(3) marked_def derivations_marked split: if_splits)
  ultimately show ?case
    using Withdraw withdraw_owners[of C ow "ru_state s"]
    by (auto simp: derivation_inv_def accounted_def)
next
  case (Add s i fragment source display)
  then show ?case
    using add_owners[of C name i fragment source display "ru_state s"]
    by (auto simp: derivation_inv_def accounted_def marked_def tracked_def)
next
  case (Remove s i)
  then show ?case
    using remove_owners[of C i "ru_state s"] by (auto simp: derivation_inv_def accounted_def marked_def tracked_def)
next
  case (Update s i patch)
  then show ?case
    using update_owners[of C name i patch "ru_state s"]
    by (auto simp: derivation_inv_def accounted_def marked_def tracked_def)
qed (auto simp: derivation_inv_def accounted_def)

lemma reachable_derivations:
  assumes "al_reachable C name True st s" "work_ok C (as_rules st) st" "derived_owners (as_rules st) = {}"
  shows "derivation_inv s"
  using assms
proof (induction rule: al_reachable.induct)
  case Init
  then show ?case by (simp add: al_init_def derivation_inv_def)
next
  case (Step s s')
  then have "rules_valid C (as_rules (ru_state s))" using reachable_work by (auto simp: work_ok_def)
  with Step show ?case using step_keeps_derivations by blast
qed

section \<open>Construction\<close>

lemma digits_inj: "digits m = digits n \<Longrightarrow> m = n"
  using digits_correct by metis

definition generated_id :: "nat \<Rightarrow> 64 word \<Rightarrow> string" where
  "generated_id pid n = ''alias-'' @ digits pid @ ''-'' @ digits (unat n)"

lemma generated_id_inj: "generated_id pid m = generated_id pid n \<Longrightarrow> m = n"
  using digits_inj by (auto simp: generated_id_def simp: word_unat_eq_iff)

lemma static_states:
  "snd (static_aliases pid ps st) = st\<lparr>as_fresh := as_fresh st + of_nat (length ps)\<rparr>"
  "snd (static_overrides pid vs st) = st\<lparr>as_fresh := as_fresh st + of_nat (length vs)\<rparr>"
  by (induction ps arbitrary: st; auto simp: fresh_id_def Let_def split_beta add.assoc)
    (induction vs arbitrary: st; auto simp: fresh_id_def Let_def split_beta add.assoc)

lemma static_aliases_result:
  assumes "static_aliases pid ps st = (rules, st')"
  shows "map ar_id rules = map (\<lambda>k. generated_id pid (as_fresh st + of_nat k)) [0..<length ps]"
    "map (\<lambda>r. (ar_from r, ar_to r)) rules = ps" "list_all (\<lambda>r. ar_derived_from r = None) rules"
  using assms
  by (induction ps arbitrary: st rules st')
    (auto simp: fresh_id_def generated_id_def Let_def upt_conv_Cons map_Suc_upt[symmetric] add.assoc
      simp del: upt_Suc split: prod.splits)

lemma static_overrides_result:
  assumes "static_overrides pid ps st = (rules, st')"
  shows "map vo_id rules = map (\<lambda>k. generated_id pid (as_fresh st + of_nat k)) [0..<length ps]"
    "standalone_visibility_pairs rules = ps"
  using assms
  by (induction ps arbitrary: st rules st')
    (auto simp: fresh_id_def generated_id_def Let_def upt_conv_Cons map_Suc_upt[symmetric] add.assoc
      standalone_visibility_pairs_def simp del: upt_Suc split: prod.splits)

lemma wrapper_state_new_simps [simp]:
  "as_fresh (wrapper_state_new counter) = counter" "as_changes (wrapper_state_new counter) = []"
  "as_root_work (wrapper_state_new counter) = []"
  by (simp_all add: wrapper_state_new_def)

lemma static_ids:
  "rule_ids (as_rules (static_state pid ps vs counter)) =
     map (\<lambda>k. generated_id pid (counter + of_nat k)) [0..<length ps + length vs]"
proof -
  obtain rs st1 where a: "static_aliases pid ps (wrapper_state_new counter) = (rs, st1)" by fastforce
  obtain ovs st2 where v: "static_overrides pid vs st1 = (ovs, st2)" by fastforce
  have f: "as_fresh st1 = counter + of_nat (length ps)"
    using static_states(1)[of pid ps "wrapper_state_new counter"] a by simp
  have shift: "[length ps..<length ps + length vs] = map (\<lambda>k. k + length ps) [0..<length vs]"
    by (simp add: map_add_upt add.commute)
  show ?thesis
    using static_aliases_result(1)[OF a] static_overrides_result(1)[OF v] f
    by (simp add: static_state_def a v rule_ids_def upt_add_eq_append shift comp_def ac_simps)
qed

lemma static_state_ok:
  assumes "validate_alias_rules C ps = Inr ()" "validate_visibility_rules vs = Inr ()" "length ps + length vs < 2 ^ 64"
  shows "run_ok C name (as_rules (static_state pid ps vs counter)) (static_state pid ps vs counter)"
    "derived_owners (as_rules (static_state pid ps vs counter)) = {}"
proof -
  let ?st = "static_state pid ps vs counter"
  obtain rs st1 where a: "static_aliases pid ps (wrapper_state_new counter) = (rs, st1)" by fastforce
  obtain ovs st2 where v: "static_overrides pid vs st1 = (ovs, st2)" by fastforce
  have "as_changes st1 = []" "as_root_work st1 = []"
    using static_states(1)[of pid ps "wrapper_state_new counter"] a by simp_all
  moreover have "st2 = st1\<lparr>as_fresh := as_fresh st1 + of_nat (length vs)\<rparr>"
    using static_states(2)[of pid vs st1] v by simp
  ultimately have st: "as_rules ?st = \<lparr>rs_aliases = rs, rs_visibility = ovs\<rparr>" "as_changes ?st = []" "as_root_work ?st = []"
    by (simp_all add: static_state_def a v)
  have "inj_on (\<lambda>k. generated_id pid (counter + of_nat k)) {0..<length ps + length vs}"
  proof (rule inj_onI)
    fix j k assume jk: "j \<in> {0..<length ps + length vs}" "k \<in> {0..<length ps + length vs}"
      "generated_id pid (counter + of_nat j) = generated_id pid (counter + of_nat k)"
    then have "(of_nat j :: 64 word) = of_nat k" using generated_id_inj by fastforce
    moreover have "j < 2 ^ LENGTH(64)" "k < 2 ^ LENGTH(64)" using jk assms(3) by auto
    ultimately show "j = k" by (metis unat_of_nat mod_less)
  qed
  then have "distinct (rule_ids (as_rules ?st))" by (simp only: static_ids) (simp add: distinct_map)
  with assms(1,2) static_aliases_result[OF a] static_overrides_result[OF v]
  show "run_ok C name (as_rules ?st) ?st" "derived_owners (as_rules ?st) = {}"
    by (auto simp: run_ok_def rules_ok_def st alias_pairs_def derived_owners_def list_all_iff)
qed

lemma validated_scopes: "validate_alias_loop C rules seen ps = Inr () \<Longrightarrow> distinct (map (node_key \<circ> fst) ps)"
proof -
  have "distinct (map (node_key \<circ> fst) ps) \<and> set (map (node_key \<circ> fst) ps) \<inter> set seen = {}"
    if "validate_alias_loop C rules seen ps = Inr ()" for ps
    using that by (induction C rules seen ps rule: validate_alias_loop.induct) (auto split: if_splits sum.splits)
  then show "validate_alias_loop C rules seen ps = Inr () \<Longrightarrow> distinct (map (node_key \<circ> fst) ps)" by blast
qed

lemma rules_valid_scopes: "rules_valid C R \<Longrightarrow> distinct (map (node_key \<circ> ar_from) (rs_aliases R))"
  using validated_scopes[of C "alias_pairs R" "[]" "alias_pairs R"]
  by (simp add: rules_valid_def validate_alias_rules_def alias_pairs_def comp_def)

section \<open>Properties\<close>

text \<open>C25. Every rule set that is ever in force is valid: starting from a validated configuration,
  whatever adds, removals, updates, derivations and withdrawals are interleaved, the aliases pass
  validation, the visibility overrides pass validation, and no two aliases have one scope (so an
  explicit rule never competes with a derived one). No two rules have one id as long as no derivation was
  handed an id in use, which the code does not check: it mints the ids of derived rules, and a caller may
  have chosen an id of that form for a rule of its own.\<close>

theorem rule_sets_stay_valid:
  assumes "validate_alias_rules C ps = Inr ()" "validate_visibility_rules vs = Inr ()" "length ps + length vs < 2 ^ 64"
    "al_reachable C name apart (static_state pid ps vs counter) s"
  shows "let R = as_rules (ru_state s) in
    validate_alias_rules C (alias_pairs R) = Inr () \<and>
    validate_visibility_rules (standalone_visibility_pairs (rs_visibility R)) = Inr () \<and>
    distinct (map (node_key \<circ> ar_from) (rs_aliases R)) \<and> (ru_collided s \<or> distinct (rule_ids R))"
proof -
  note start = static_state_ok(1)[OF assms(1-3)]
  have "rules_valid C (as_rules (ru_state s))"
    using reachable_work[OF assms(4) run_ok_work[OF start]] by (simp add: work_ok_def)
  moreover have "ru_collided s \<or> distinct (rule_ids (as_rules (ru_state s)))"
    using reachable_run[OF assms(4) start] by (auto simp: run_ok_def rules_ok_def)
  ultimately show ?thesis using rules_valid_scopes by (simp add: Let_def rules_valid_def)
qed

text \<open>The connection changes tell the truth in order: a consumer that starts from the rows listed at
  the beginning and applies every change that was sent, in the order it was sent, holds exactly
  the rows that are listed now, in every reachable state in which no two rules came to share an id.\<close>

theorem connection_changes_replay:
  assumes "validate_alias_rules C ps = Inr ()" "validate_visibility_rules vs = Inr ()" "length ps + length vs < 2 ^ 64"
    "al_reachable C name apart (static_state pid ps vs counter) s" "\<not> ru_collided s"
  shows "replay (as_changes (ru_state s)) (listing C name (as_rules (static_state pid ps vs counter))) =
    listing C name (as_rules (ru_state s))"
  using reachable_run[OF assms(4) static_state_ok(1)[OF assms(1-3)]] assms(5) by (simp add: run_ok_def)

text \<open>Derived rules follow their connection. As long as derivations of one key do not overlap and no
  withdrawal overtakes an add that has yet to open its entry, every derived rule belongs to a
  connection that is registered below, or to one whose removal has yet to withdraw, or to one
  whose rules had to stay; a withdrawal leaves rules behind only where the rest is not valid.\<close>

theorem derived_rules_follow_connection:
  assumes "validate_alias_rules C ps = Inr ()" "validate_visibility_rules vs = Inr ()" "length ps + length vs < 2 ^ 64"
    "al_reachable C name True (static_state pid ps vs counter) s"
  shows "derived_owners (as_rules (ru_state s)) \<subseteq> ru_live s \<union> set (ru_withdrawing s) \<union> ru_dangling s \<and>
    (ow \<in> derived_owners (as_rules (withdraw_commit C ow st)) \<longrightarrow>
     (let rest = (as_rules st)\<lparr>rs_aliases := filter (\<lambda>r. ar_derived_from r \<noteq> Some ow) (rs_aliases (as_rules st))\<rparr>
      in \<exists>e. validate_alias_rules C (alias_pairs rest) = Inl e))"
proof
  show "derived_owners (as_rules (ru_state s)) \<subseteq> ru_live s \<union> set (ru_withdrawing s) \<union> ru_dangling s"
    using reachable_derivations[OF assms(4) run_ok_work[OF static_state_ok(1)[OF assms(1-3)]] static_state_ok(2)[OF assms(1-3)]]
    by (simp add: derivation_inv_def accounted_def)
  show "ow \<in> derived_owners (as_rules (withdraw_commit C ow st)) \<longrightarrow>
     (let rest = (as_rules st)\<lparr>rs_aliases := filter (\<lambda>r. ar_derived_from r \<noteq> Some ow) (rs_aliases (as_rules st))\<rparr>
      in \<exists>e. validate_alias_rules C (alias_pairs rest) = Inl e)"
    by (auto simp: withdraw_commit_def Let_def derived_owners_def filter_empty_conv split: sum.splits if_splits)
qed

section \<open>Witnesses\<close>

definition run_owner :: owner where "run_owner = (''s3'', ''c'')"

definition run_rule :: alias_rule where
  "run_rule = \<lparr>ar_id = ''alias-7-0'', ar_from = base_url ''https'' (Some ''h'') ''/'', ar_to = base_url ''s3'' (Some ''b'') ''/'',
     ar_source = Alias_Runtime False, ar_display_name = None, ar_user_metadata = Map.empty,
     ar_visibility = Some Vis_Hidden, ar_derived_from = Some run_owner\<rparr>"

abbreviation run_start :: wrapper_state where
  "run_start \<equiv> static_state 7 [] [] 0"

definition run_installed :: wrapper_state where
  "run_installed = install_commit ref_crate ''a'' run_owner [run_rule] (begin_derivation run_owner run_start)"

lemma run_start_rules:
  "as_rules run_start = \<lparr>rs_aliases = [], rs_visibility = []\<rparr>" "as_derivations run_start = Map.empty" "as_changes run_start = []"
  by (simp_all add: static_state_def wrapper_state_new_def)

lemma run_rule_valid:
  "validate_alias_rules ref_crate [(base_url ''https'' (Some ''h'') ''/'', base_url ''s3'' (Some ''b'') ''/'')] = Inr ()"
  by code_simp

lemma run_fresh: "fresh_candidates [run_rule] (begin_derivation run_owner run_start)"
  by (simp add: fresh_candidates_def contains_id_def run_start_rules)

lemma run_installed_rules: "as_rules run_installed = \<lparr>rs_aliases = [run_rule], rs_visibility = []\<rparr>"
  using run_rule_valid
  by (simp add: run_installed_def install_commit_def begin_derivation_def run_start_rules alias_pairs_def run_rule_def
      Let_def)

definition run_live_state :: alias_run where
  "run_live_state = \<lparr>ru_state = run_installed, ru_live = {run_owner}, ru_tasks = [(run_owner, Derived)],
     ru_withdrawing = [], ru_dangling = {}, ru_collided = False\<rparr>"

lemma run_live_reachable: "al_reachable ref_crate ''a'' True run_start run_live_state"
proof -
  let ?step = "al_step ref_crate ''a'' True"
  define s1 where "s1 = (al_init run_start)\<lparr>ru_live := {run_owner}, ru_tasks := [(run_owner, Registered)]\<rparr>"
  define s2 where "s2 = s1\<lparr>ru_tasks := [(run_owner, Deriving)], ru_state := begin_derivation run_owner run_start\<rparr>"
  have "?step (al_init run_start) s1"
    using al_step.Register[of run_owner "al_init run_start"] by (simp add: s1_def al_init_def)
  moreover have "?step s1 s2"
    using al_step.Begin[of s1 "[]" run_owner "[]"] by (simp add: s1_def s2_def al_init_def)
  moreover have "?step s2 run_live_state"
    using al_step.Install[of s2 "[]" run_owner "[]" "[run_rule]"] run_fresh
    by (simp add: s2_def s1_def al_init_def run_live_state_def run_installed_def) (simp add: run_rule_def)
  ultimately show ?thesis using al_reachable.Init al_reachable.Step by metis
qed

lemma no_rules_valid: "validate_alias_rules C [] = Inr ()" "validate_visibility_rules [] = Inr ()"
  by (simp_all add: validate_alias_rules_def validate_visibility_rules_def)

theorem rule_sets_stay_valid_witness:
  "distinct (map (node_key \<circ> ar_from) (rs_aliases (as_rules (ru_state run_live_state)))) \<and>
   distinct (rule_ids (as_rules (ru_state run_live_state))) \<and> rs_aliases (as_rules (ru_state run_live_state)) = [run_rule]"
  using rule_sets_stay_valid[OF no_rules_valid _ run_live_reachable]
  by (simp add: run_live_state_def run_installed_rules Let_def)

theorem connection_changes_replay_witness:
  "replay (as_changes (ru_state run_live_state)) Map.empty ''alias-7-0'' = Some (alias_connection ref_crate ''a'' run_rule)"
proof -
  have "listing ref_crate ''a'' (as_rules run_start) = Map.empty"
    by (simp add: run_start_rules listing_def local_rows_def)
  moreover have "listing ref_crate ''a'' (as_rules (ru_state run_live_state)) ''alias-7-0'' =
      Some (alias_connection ref_crate ''a'' run_rule)"
    by (simp add: run_live_state_def run_installed_rules listing_def local_rows_def) (simp add: run_rule_def)
  moreover have "\<not> ru_collided run_live_state" by (simp add: run_live_state_def)
  ultimately show ?thesis
    using connection_changes_replay[OF no_rules_valid _ run_live_reachable] by simp
qed

theorem derived_rules_follow_connection_witness:
  "run_owner \<in> derived_owners (as_rules (ru_state run_live_state)) \<and>
   derived_owners (as_rules (ru_state run_live_state)) \<subseteq> {run_owner}"
  using derived_rules_follow_connection[OF no_rules_valid _ run_live_reachable]
  by (simp add: run_live_state_def run_installed_rules) (simp add: derived_owners_def run_rule_def)

text \<open>C35. The in-flight entry does not cover every removal. A removal that is complete before the add has
  opened its entry marks nothing, so the derivation installs its rules for a connection that no
  longer exists, and nothing is left that would ever withdraw them.\<close>

theorem removal_before_derivation_orphans_rules:
  "\<exists>s ow. al_reachable ref_crate ''a'' False (static_state 7 [] [] 0) s \<and> ow \<in> derived_owners (as_rules (ru_state s)) \<and>
     ru_live s = {} \<and> ru_tasks s = [] \<and> ru_withdrawing s = [] \<and> ru_dangling s = {} \<and> \<not> ru_collided s"
proof -
  let ?step = "al_step ref_crate ''a'' False"
  define s1 where "s1 = (al_init run_start)\<lparr>ru_live := {run_owner}, ru_tasks := [(run_owner, Registered)]\<rparr>"
  define s2 where "s2 = s1\<lparr>ru_live := {}, ru_withdrawing := [run_owner]\<rparr>"
  define s3 where "s3 = s2\<lparr>ru_withdrawing := []\<rparr>"
  define s4 where "s4 = s3\<lparr>ru_tasks := [(run_owner, Deriving)], ru_state := begin_derivation run_owner run_start\<rparr>"
  define s5 where "s5 = s4\<lparr>ru_tasks := [(run_owner, Derived)], ru_state := run_installed\<rparr>"
  define s6 where "s6 = s5\<lparr>ru_tasks := [], ru_state := drop_derivation run_owner run_installed\<rparr>"
  note defs = s1_def s2_def s3_def s4_def s5_def s6_def al_init_def
  have w: "withdraw_commit ref_crate run_owner run_start = run_start"
    by (simp add: withdraw_commit_def run_start_rules Let_def)
  have t1: "?step (al_init run_start) s1"
    using al_step.Register[of run_owner "al_init run_start"] by (simp add: defs)
  have t2: "?step s1 s2" using al_step.Unregister[of run_owner s1] by (simp add: defs)
  have "?step s2 (s2\<lparr>ru_withdrawing := [] @ [], ru_state := run_start,
      ru_dangling := ru_dangling s2 \<union> ({run_owner} \<inter> derived_owners (as_rules run_start))\<rparr>)"
    by (rule al_step.Withdraw) (simp_all add: s2_def s1_def al_init_def w)
  then have t3: "?step s2 s3" by (simp add: s3_def s2_def s1_def al_init_def run_start_rules derived_owners_def)
  have t4: "?step s3 s4"
    using al_step.Begin[of s3 "[]" run_owner "[]" False] by (simp add: defs)
  have t5: "?step s4 s5"
    using al_step.Install[of s4 "[]" run_owner "[]" "[run_rule]"] run_fresh
    by (simp add: defs run_installed_def) (simp add: run_rule_def)
  have t6: "?step s5 s6"
    using al_step.Finish[of s5 "[]" run_owner Derived "[]"] by (simp add: defs)
  note step = al_reachable.Step
  have "al_reachable ref_crate ''a'' False run_start s6"
    by (rule step[OF step[OF step[OF step[OF step[OF step[OF al_reachable.Init t1] t2] t3] t4] t5] t6])
  moreover have "run_owner \<in> derived_owners (as_rules (ru_state s6))"
    by (simp add: defs run_installed_rules derived_owners_def) (simp add: run_rule_def)
  ultimately show ?thesis by (intro exI[of _ s6] exI[of _ run_owner]) (simp add: defs)
qed

end
