(* ===== verification/Ov_Alias_Notify.thy ===== *)
theory Ov_Alias_Notify
  imports Ov_Alias_Run
begin

text \<open>
  The root changes of the alias layer as a consumer sees them, the explicit add with its takeover of
  inner derived copies, and authentication through an alias.
\<close>

section \<open>Root deltas\<close>

text \<open>A consumer keeps the roots by address; of several rows with one address the last one stays.\<close>

definition keyed :: "root_info list \<Rightarrow> (url \<rightharpoonup> root_info)" where
  "keyed roots = map_of (rev (map (\<lambda>r. (ri_root r, r)) roots))"

fun apply_root_change :: "root_info_change \<Rightarrow> (url \<rightharpoonup> root_info) \<Rightarrow> (url \<rightharpoonup> root_info)" where
  "apply_root_change (Change_Snapshot roots) m = keyed roots"
| "apply_root_change (Change_Added roots) m = m ++ keyed roots"
| "apply_root_change (Change_Removed roots) m = m |` (- set (map ri_root roots))"
| "apply_root_change (Change_Updated roots) m = m ++ keyed roots"

definition apply_root_changes :: "root_info_change list \<Rightarrow> (url \<rightharpoonup> root_info) \<Rightarrow> (url \<rightharpoonup> root_info)" where
  "apply_root_changes changes m = fold apply_root_change changes m"

definition rows_at :: "url \<Rightarrow> root_info list \<Rightarrow> root_info list" where
  "rows_at u roots = filter (\<lambda>r. ri_root r = u) roots"

lemma keyed_append: "keyed (xs @ ys) = keyed xs ++ keyed ys"
  by (simp add: keyed_def)

lemma keyed_rows: "keyed roots u = (if rows_at u roots = [] then None else Some (last (rows_at u roots)))"
proof (induction roots rule: rev_induct)
  case Nil
  then show ?case by (simp add: keyed_def rows_at_def)
next
  case (snoc r roots)
  have "keyed [r] = [ri_root r \<mapsto> r]" by (simp add: keyed_def)
  then show ?case using snoc by (auto simp: keyed_append rows_at_def)
qed

lemma rows_at_filter: "rows_at u (filter P roots) = filter P (rows_at u roots)"
  by (simp add: rows_at_def conj_commute)

lemma rows_at_Nil: "rows_at u roots = [] \<longleftrightarrow> u \<notin> set (map ri_root roots)"
  by (auto simp: rows_at_def filter_empty_conv)

text \<open>The delta between two lists of rows.\<close>

definition list_delta :: "root_info list \<Rightarrow> root_info list \<Rightarrow> root_info_change list" where
  "list_delta before after =
     (let added = filter (\<lambda>root. \<not> list_ex (\<lambda>prev. ri_root prev = ri_root root) before) after;
          removed = filter (\<lambda>prev. \<not> list_ex (\<lambda>root. ri_root root = ri_root prev) after) before;
          updated = filter (\<lambda>root. list_ex (\<lambda>prev. ri_root prev = ri_root root \<and> prev \<noteq> root) before) after
      in (if added \<noteq> [] then [Change_Added added] else []) @
         (if removed \<noteq> [] then [Change_Removed removed] else []) @
         (if updated \<noteq> [] then [Change_Updated updated] else []))"

text \<open>It is enough where a row of the new list that hides another one does not stand alone, unchanged,
  in the old list.\<close>

definition no_silent_reveal :: "root_info list \<Rightarrow> root_info list \<Rightarrow> bool" where
  "no_silent_reveal before after \<longleftrightarrow>
     (\<forall>u. rows_at u before \<noteq> [] \<longrightarrow> rows_at u after \<noteq> [] \<longrightarrow>
        (\<forall>prev \<in> set (rows_at u before). prev = last (rows_at u after)) \<longrightarrow>
        (\<forall>r \<in> set (rows_at u after). r = last (rows_at u after)))"

lemma last_filter: "xs \<noteq> [] \<Longrightarrow> P (last xs) \<Longrightarrow> last (filter P xs) = last xs"
  by (induction xs rule: rev_induct) auto

lemma restrict_all: "m |` UNIV = m"
  by (simp add: restrict_map_def fun_eq_iff)

lemma keyed_Nil: "keyed [] = Map.empty"
  by (simp add: keyed_def)

lemma apply_list_delta:
  "apply_root_changes (list_delta before after) m =
     (m ++ keyed (filter (\<lambda>root. ri_root root \<notin> set (map ri_root before)) after))
       |` (- (set (map ri_root before) - set (map ri_root after)))
       ++ keyed (filter (\<lambda>root. \<exists>prev \<in> set before. ri_root prev = ri_root root \<and> prev \<noteq> root) after)"
    (is "_ = (m ++ keyed ?added) |` (- ?gone) ++ keyed ?updated")
proof -
  let ?removed = "filter (\<lambda>prev. \<not> list_ex (\<lambda>root. ri_root root = ri_root prev) after) before"
  have gone: "set (map ri_root ?removed) = ?gone" by (force simp: list_ex_iff image_iff)
  have "filter (\<lambda>root. \<not> list_ex (\<lambda>prev. ri_root prev = ri_root root) before) after = ?added"
    by (intro filter_cong refl) (auto simp: list_ex_iff image_iff)
  moreover have "filter (\<lambda>root. list_ex (\<lambda>prev. ri_root prev = ri_root root \<and> prev \<noteq> root) before) after = ?updated"
    by (intro filter_cong refl) (auto simp: list_ex_iff)
  ultimately have delta: "list_delta before after =
      (if ?added \<noteq> [] then [Change_Added ?added] else []) @ (if ?removed \<noteq> [] then [Change_Removed ?removed] else []) @
      (if ?updated \<noteq> [] then [Change_Updated ?updated] else [])"
    by (simp only: list_delta_def Let_def)
  have step: "apply_root_changes (xs @ ys) m = apply_root_changes ys (apply_root_changes xs m)" for xs ys m
    by (simp add: apply_root_changes_def)
  have "apply_root_changes (if ?added \<noteq> [] then [Change_Added ?added] else []) m = m ++ keyed ?added" for m
    by (simp add: apply_root_changes_def keyed_Nil)
  moreover have "apply_root_changes (if ?removed \<noteq> [] then [Change_Removed ?removed] else []) m = m |` (- ?gone)" for m
    unfolding gone[symmetric] by (cases "?removed = []") (simp_all add: apply_root_changes_def restrict_all)
  moreover have "apply_root_changes (if ?updated \<noteq> [] then [Change_Updated ?updated] else []) m = m ++ keyed ?updated" for m
    by (simp add: apply_root_changes_def keyed_Nil)
  ultimately show ?thesis unfolding delta step by simp
qed

lemma delta_lookup:
  "((m ++ f) |` (- S) ++ h) u =
     (case h u of Some x \<Rightarrow> Some x | None \<Rightarrow> if u \<in> S then None else case f u of Some x \<Rightarrow> Some x | None \<Rightarrow> m u)"
  by (simp add: map_add_def restrict_map_def split: option.splits)

lemma list_delta_exact:
  assumes "no_silent_reveal before after"
  shows "apply_root_changes (list_delta before after) (keyed before) = keyed after"
proof
  fix u
  let ?B = "rows_at u before" and ?A = "rows_at u after"
  let ?upd = "\<lambda>root. \<exists>prev \<in> set before. ri_root prev = ri_root root \<and> prev \<noteq> root"
  have at: "ri_root r = u" if "r \<in> set ?A" for r using that by (simp add: rows_at_def)
  have new: "rows_at u (filter (\<lambda>root. ri_root root \<notin> set (map ri_root before)) after) = (if ?B = [] then ?A else [])"
    using at by (auto simp: rows_at_filter rows_at_Nil[of u before] filter_id_conv filter_empty_conv)
  have upd: "filter ?upd ?A = filter (\<lambda>r. \<exists>prev \<in> set ?B. prev \<noteq> r) ?A"
    using at by (intro filter_cong refl) (auto simp: rows_at_def)
  let ?F = "filter (\<lambda>r. \<exists>prev \<in> set ?B. prev \<noteq> r) ?A"
  have added: "keyed (filter (\<lambda>root. ri_root root \<notin> set (map ri_root before)) after) u =
      (if ?B = [] \<and> ?A \<noteq> [] then Some (last ?A) else None)"
    using new by (simp add: keyed_rows)
  have updated: "keyed (filter ?upd after) u = (if ?F = [] then None else Some (last ?F))"
    using upd by (simp add: keyed_rows rows_at_filter)
  have gone: "u \<in> set (map ri_root before) - set (map ri_root after) \<longleftrightarrow> ?B \<noteq> [] \<and> ?A = []"
    using rows_at_Nil[of u before] rows_at_Nil[of u after] by blast
  have "apply_root_changes (list_delta before after) (keyed before) u =
      (if ?F \<noteq> [] then Some (last ?F) else if ?B \<noteq> [] \<and> ?A = [] then None
       else if ?B = [] then (if ?A = [] then None else Some (last ?A)) else Some (last ?B))"
    unfolding apply_list_delta delta_lookup gone added updated keyed_rows[of before] by (cases "?F = []") simp_all
  moreover have "last (filter (\<lambda>r. \<exists>prev \<in> set ?B. prev \<noteq> r) ?A) = last ?A"
    if ne: "filter (\<lambda>r. \<exists>prev \<in> set ?B. prev \<noteq> r) ?A \<noteq> []"
  proof (cases "\<exists>prev \<in> set ?B. prev \<noteq> last ?A")
    case True
    have "?A \<noteq> []" using ne by auto
    then show ?thesis by (rule last_filter) (rule True)
  next
    case False
    obtain r prev where r: "r \<in> set ?A" "prev \<in> set ?B" "prev \<noteq> r" using ne by (auto simp: filter_empty_conv)
    then have "?B \<noteq> []" "?A \<noteq> []" by auto
    then have "\<forall>r \<in> set ?A. r = last ?A" using assms False unfolding no_silent_reveal_def by blast
    then have "r = last ?A" "prev = last ?A" using r False by blast+
    then show ?thesis using r(3) by blast
  qed
  moreover have "last ?B = last ?A" if "filter (\<lambda>r. \<exists>prev \<in> set ?B. prev \<noteq> r) ?A = []" "?A \<noteq> []" "?B \<noteq> []"
    using that last_in_set[of ?A] last_in_set[of ?B] by (auto simp: filter_empty_conv)
  ultimately show "apply_root_changes (list_delta before after) (keyed before) u = keyed after u"
    by (auto simp: keyed_rows)
qed

section \<open>Rows of the alias layer\<close>

lemma restrictive_absorb: "most_restrictive_visibility a (most_restrictive_visibility a b) = most_restrictive_visibility a b"
  by (cases a; cases b) auto

lemma restrictive_suppressed:
  "most_restrictive_visibility a b = Vis_Suppressed \<longleftrightarrow> a = Vis_Suppressed \<or> b = Vis_Suppressed"
  by (cases a; cases b) auto

lemma mark_simps [simp]:
  "ri_root (mark_visibility v r) = ri_root r" "ri_visibility (mark_visibility v r) = v"
  "mark_visibility v (mark_visibility w r) = mark_visibility v r"
  by (simp_all add: mark_visibility_def)

lemma mark_again: "mark_visibility v r = x \<Longrightarrow> mark_visibility (ri_visibility x) r = x"
  by (auto simp: mark_visibility_def)

definition advertised_rows :: "url_crate \<Rightarrow> rule_set \<Rightarrow> root_info list \<Rightarrow> root_info list" where
  "advertised_rows C R roots = project_advertised_roots C (alias_projections R) (visibility_pairs R) roots"

lemma root_delta_list: "root_delta C old new roots = list_delta (advertised_rows C old roots) (advertised_rows C new roots)"
  by (simp only: root_delta_def list_delta_def advertised_rows_def Let_def)

text \<open>The rows at one address: at most one inner root, then at most one alias.\<close>

lemma rows_of_map_filter:
  assumes "\<And>x y. f x = Some y \<Longrightarrow> ri_root y = g x" "distinct (map g xs)"
  shows "rows_at u (List.map_filter f xs) =
    (case find (\<lambda>x. g x = u) xs of None \<Rightarrow> [] | Some x \<Rightarrow> (case f x of None \<Rightarrow> [] | Some y \<Rightarrow> [y]))"
  using assms(2)
proof (induction xs)
  case Nil
  then show ?case by (simp add: rows_at_def map_filter_def)
next
  case (Cons x xs)
  have none: "find (\<lambda>y. g y = u) xs = None" if "g x = u" using Cons.prems that by (simp add: find_None_iff) (metis image_eqI)
  have ih: "rows_at u (List.map_filter f xs) =
      (case find (\<lambda>x. g x = u) xs of None \<Rightarrow> [] | Some x \<Rightarrow> (case f x of None \<Rightarrow> [] | Some y \<Rightarrow> [y]))"
    using Cons by simp
  have "rows_at u (List.map_filter f (x # xs)) =
      (case f x of None \<Rightarrow> [] | Some y \<Rightarrow> if g x = u then [y] else []) @ rows_at u (List.map_filter f xs)"
    using assms(1)[of x] by (cases "f x") (simp_all add: map_filter_def rows_at_def)
  then show ?case
    using ih none by (cases "g x = u"; cases "f x") simp_all
qed

lemma advertised_alias_root: "advertised_alias C pairs vis roots al = Some r \<Longrightarrow>
    ri_root r = ap_from al \<and> ri_visibility r = visibility_of_in vis (ap_from al) \<and>
    visibility_of_in vis (ap_from al) \<noteq> Vis_Suppressed"
  by (auto simp: advertised_alias_def synthesize_alias_root_def Let_def split: if_splits prod.splits)

definition inner_row :: "visibility_pair list \<Rightarrow> root_info list \<Rightarrow> url \<Rightarrow> root_info option" where
  "inner_row vis roots u = Option.bind (find (\<lambda>r. ri_root r = u) roots) (retained_root vis)"

definition alias_row :: "url_crate \<Rightarrow> rule_set \<Rightarrow> root_info list \<Rightarrow> url \<Rightarrow> root_info option" where
  "alias_row C R roots u =
     Option.bind (find (\<lambda>al. ap_from al = u) (alias_projections R))
       (advertised_alias C (projection_pairs (alias_projections R)) (visibility_pairs R) roots)"

definition row_list :: "root_info option \<Rightarrow> root_info list" where
  "row_list r = (case r of None \<Rightarrow> [] | Some x \<Rightarrow> [x])"

lemma advertised_rows_at:
  assumes "distinct (map ri_root roots)" "distinct (map ar_from (rs_aliases R))"
  shows "rows_at u (advertised_rows C R roots) =
    row_list (inner_row (visibility_pairs R) roots u) @ row_list (alias_row C R roots u)"
proof -
  have "distinct (map ap_from (alias_projections R))"
    using assms(2) by (simp add: alias_projections_def comp_def)
  note al = rows_of_map_filter[OF conjunct1[OF advertised_alias_root] this]
  have "retained_root vis r = Some y \<Longrightarrow> ri_root y = ri_root r" for vis r y
    by (auto simp: retained_root_def Let_def split: if_splits)
  note inn = rows_of_map_filter[OF this assms(1)]
  have "rows_at u (xs @ ys) = rows_at u xs @ rows_at u ys" for xs ys by (simp add: rows_at_def)
  then show ?thesis
    by (simp add: advertised_rows_def project_advertised_roots_def al inn inner_row_def alias_row_def row_list_def
        split: option.splits)
qed

lemma inner_row_cases:
  assumes "inner_row vis roots u = Some x"
  shows "\<exists>r. find (\<lambda>r. ri_root r = u) roots = Some r \<and> ri_root r = u \<and> ri_visibility r \<noteq> Vis_Suppressed \<and>
    visibility_of_in vis u \<noteq> Vis_Suppressed \<and>
    x = mark_visibility (most_restrictive_visibility (ri_visibility r) (visibility_of_in vis u)) r"
  using assms
  by (auto simp: inner_row_def retained_root_def effective_visibility_def Let_def bind_eq_Some_conv find_Some_iff
      restrictive_suppressed split: if_splits)

lemma inner_rowI:
  assumes "find (\<lambda>r. ri_root r = u) roots = Some r" "ri_visibility r \<noteq> Vis_Suppressed"
    "visibility_of_in vis u \<noteq> Vis_Suppressed"
  shows "inner_row vis roots u = Some (mark_visibility (most_restrictive_visibility (ri_visibility r) (visibility_of_in vis u)) r)"
proof -
  have "ri_root r = u" using assms(1) by (auto simp: find_Some_iff)
  then show ?thesis
    using assms by (simp add: inner_row_def retained_root_def effective_visibility_def Let_def restrictive_suppressed)
qed

lemma alias_row_visibility:
  "alias_row C R roots u = Some x \<Longrightarrow>
     ri_visibility x = visibility_of_in (visibility_pairs R) u \<and> visibility_of_in (visibility_pairs R) u \<noteq> Vis_Suppressed"
  by (auto simp: alias_row_def bind_eq_Some_conv find_Some_iff dest!: advertised_alias_root)

lemma advertised_no_silent_reveal:
  assumes "distinct (map ri_root roots)" "distinct (map ar_from (rs_aliases old))" "distinct (map ar_from (rs_aliases new))"
  shows "no_silent_reveal (advertised_rows C old roots) (advertised_rows C new roots)"
  unfolding no_silent_reveal_def
proof (intro allI impI ballI)
  fix u r
  let ?bi = "inner_row (visibility_pairs old) roots u" and ?ba = "alias_row C old roots u"
  let ?ai = "inner_row (visibility_pairs new) roots u" and ?aa = "alias_row C new roots u"
  note B = advertised_rows_at[OF assms(1,2), of u C] and A = advertised_rows_at[OF assms(1,3), of u C]
  assume ne: "rows_at u (advertised_rows C old roots) \<noteq> []" "rows_at u (advertised_rows C new roots) \<noteq> []"
    and same: "\<forall>prev \<in> set (rows_at u (advertised_rows C old roots)). prev = last (rows_at u (advertised_rows C new roots))"
    and r: "r \<in> set (rows_at u (advertised_rows C new roots))"
  show "r = last (rows_at u (advertised_rows C new roots))"
  proof (cases "?ai = None \<or> ?aa = None")
    case True
    then show ?thesis using r by (auto simp: A row_list_def split: option.splits)
  next
    case False
    then obtain x y where xy: "?ai = Some x" "?aa = Some y" by auto
    obtain i where i: "find (\<lambda>r. ri_root r = u) roots = Some i" "ri_visibility i \<noteq> Vis_Suppressed"
      "x = mark_visibility (most_restrictive_visibility (ri_visibility i) (visibility_of_in (visibility_pairs new) u)) i"
      using inner_row_cases[OF xy(1)] by blast
    have last: "last (rows_at u (advertised_rows C new roots)) = y" by (simp add: A xy row_list_def)
    have "visibility_of_in (visibility_pairs old) u \<noteq> Vis_Suppressed"
      using ne(1) inner_row_cases[of "visibility_pairs old" roots u] alias_row_visibility[of C old roots u]
      by (auto simp: B row_list_def split: option.splits)
    from inner_rowI[OF i(1,2) this]
    have "mark_visibility (most_restrictive_visibility (ri_visibility i) (visibility_of_in (visibility_pairs old) u)) i = y"
      using same last by (auto simp: B row_list_def)
    moreover have "ri_visibility y = visibility_of_in (visibility_pairs new) u" using alias_row_visibility[OF xy(2)] by simp
    ultimately have "x = y" unfolding i(3) by (metis mark_again mark_simps(2) restrictive_absorb)
    then show ?thesis using r last by (auto simp: A xy row_list_def)
  qed
qed

lemma distinct_froms: "rules_valid C R \<Longrightarrow> distinct (map ar_from (rs_aliases R))"
  using rules_valid_scopes[of C R] by (simp add: distinct_map inj_on_def comp_def)

lemma delta_exact:
  assumes "rules_valid C old" "rules_valid C new" "distinct (map ri_root roots)"
  shows "apply_root_changes (root_delta C old new roots) (keyed (advertised_rows C old roots)) =
    keyed (advertised_rows C new roots)"
  unfolding root_delta_list
  using assms by (intro list_delta_exact advertised_no_silent_reveal distinct_froms)

text \<open>The notifications of a chain of commits, each broadcast in its turn: every one asks the layer below
  for its roots again, in the state the one before it has left, and whatever happens while it waits is part
  of that call.\<close>

fun broadcasts ::
    "url_crate \<Rightarrow> 'w inner_layer \<Rightarrow> (rule_set \<times> rule_set) list \<Rightarrow> 'w alias_graph \<Rightarrow>
     root_info_change list list \<times> 'w alias_graph" where
  "broadcasts C I [] g = ([], g)"
| "broadcasts C I ((old, new) # work) g =
     (let (changes, g1) = broadcast_root_delta C I old new g; (rest, g2) = broadcasts C I work g1
      in (changes # rest, g2))"

definition inner_sample :: "'w inner_layer \<Rightarrow> 'w alias_graph \<Rightarrow> root_info list option" where
  "inner_sample I g =
     (case in_list_address_roots I g of (queried, g') \<Rightarrow>
        if in_elapsed I g g' then None
        else case queried of Inl e \<Rightarrow> None | Inr inner_roots \<Rightarrow> Some inner_roots)"

definition sampled_at :: "'w inner_layer \<Rightarrow> 'w alias_graph \<Rightarrow> nat \<Rightarrow> root_info list option" where
  "sampled_at I g i = inner_sample I (((\<lambda>h. snd (in_list_address_roots I h)) ^^ i) g)"

lemma broadcast_sample:
  "broadcast_root_delta C I old new g =
     (case inner_sample I g of None \<Rightarrow> [Change_Updated []] | Some roots \<Rightarrow> root_delta C old new roots,
      snd (in_list_address_roots I g))"
  by (simp add: broadcast_root_delta_def inner_sample_def split: prod.split sum.split)

lemma sampled_Suc: "sampled_at I g (Suc i) = sampled_at I (snd (in_list_address_roots I g)) i"
  unfolding sampled_at_def funpow_Suc_right comp_def ..

lemma broadcasts_sent:
  "fst (broadcasts C I work g) =
     map (\<lambda>i. case sampled_at I g i of
                None \<Rightarrow> [Change_Updated []]
              | Some roots \<Rightarrow> root_delta C (fst (work ! i)) (snd (work ! i)) roots) [0..<length work]"
proof (induction work arbitrary: g)
  case (Cons w work)
  obtain old new where w: "w = (old, new)" by fastforce
  have "sampled_at I g 0 = inner_sample I g" by (simp add: sampled_at_def)
  then show ?case
    using Cons[of "snd (in_list_address_roots I g)"]
    by (simp add: w broadcast_sample upt_conv_Cons map_Suc_upt[symmetric] comp_def sampled_Suc Let_def split_beta
        del: upt_Suc split: option.split)
qed simp

lemma no_empty_delta: "root_delta C old new roots \<noteq> [Change_Updated []]"
  by (auto simp: root_delta_def Let_def)

lemma replay_chain:
  assumes "chained R work S" "list_all (\<lambda>(old, new). rules_valid C old \<and> rules_valid C new) work" "distinct (map ri_root roots)"
  shows "fold (\<lambda>(old, new). apply_root_changes (root_delta C old new roots)) work (keyed (advertised_rows C R roots)) =
    keyed (advertised_rows C S roots)"
  using assms
proof (induction R work S rule: chained.induct)
  case (2 R old new work S)
  then show ?case by (simp add: delta_exact)
qed simp

lemma replay_same_roots:
  assumes "\<forall>i < length work. sampled_at I g i = Some roots"
  shows "fold apply_root_changes (fst (broadcasts C I work g)) m =
    fold (\<lambda>(old, new). apply_root_changes (root_delta C old new roots)) work m"
  using assms
proof (induction work arbitrary: g m)
  case (Cons w work)
  obtain old new where w: "w = (old, new)" by fastforce
  have "inner_sample I g = Some roots" using Cons.prems by (auto simp: sampled_at_def)
  moreover have "\<forall>i < length work. sampled_at I (snd (in_list_address_roots I g)) i = Some roots"
    using Cons.prems by (auto simp: sampled_Suc[symmetric])
  ultimately show ?case using Cons.IH by (simp add: w broadcast_sample Let_def split_beta)
qed simp

section \<open>Adding an explicit rule\<close>

text \<open>What the \<open>mutations\<close> lock gives: while an add holds it, calls of the layer below leave the rules
  and the notifications of this layer alone.\<close>

definition same_notes :: "'w alias_graph \<Rightarrow> 'w alias_graph \<Rightarrow> bool" where
  "same_notes g g' \<longleftrightarrow>
     as_rules (ag_state g') = as_rules (ag_state g) \<and> as_changes (ag_state g') = as_changes (ag_state g) \<and>
     as_root_work (ag_state g') = as_root_work (ag_state g)"

definition rules_held :: "'w inner_layer \<Rightarrow> bool" where
  "rules_held I \<longleftrightarrow>
     (\<forall>cx g. same_notes g (snd (in_list_connections I cx g))) \<and> (\<forall>k cx g. same_notes g (snd (in_remove_connection I k cx g)))"

lemma same_notes_trans: "same_notes g g' \<Longrightarrow> same_notes g' g'' \<Longrightarrow> same_notes g g''"
  by (simp add: same_notes_def)

lemma evict_rows_held: "rules_held I \<Longrightarrow> evict_rows I scopes rows n g = (m, g') \<Longrightarrow> same_notes g g'"
proof (induction I scopes rows n g arbitrary: m g' rule: evict_rows.induct)
  case (1 I scopes n g)
  then show ?case by (simp add: same_notes_def)
next
  case (2 I scopes row rows n g)
  show ?case
  proof (cases "evictable_row scopes row")
    case None
    then show ?thesis using 2 by simp
  next
    case (Some k)
    obtain r g1 where call: "in_remove_connection I k no_extensions g = (r, g1)" by fastforce
    then have "same_notes g g1" using 2(4) by (metis rules_held_def snd_conv)
    moreover have "same_notes g1 g'"
      using 2(2)[OF Some call[symmetric]] 2(3)[OF Some call[symmetric]] 2(4,5) by (cases r) (auto simp: Some call)
    ultimately show ?thesis by (rule same_notes_trans)
  qed
qed

lemma evict_held:
  assumes "rules_held I" "evict_downstream_derived I scopes g = (r, g')"
  shows "same_notes g g' \<and> (r = Inr () \<or> r = Inl Err_Internal)"
proof (cases "scopes = []")
  case True
  then show ?thesis using assms(2) by (auto simp: evict_downstream_derived_def same_notes_def)
next
  case False
  obtain q g1 where call: "in_list_connections I no_extensions g = (q, g1)" by fastforce
  then have "same_notes g g1" using assms(1) by (metis rules_held_def snd_conv)
  then show ?thesis
    using assms False evict_rows_held[OF assms(1)]
    by (auto simp: evict_downstream_derived_def scan_inner_connections_def call Let_def
        split: if_splits sum.splits prod.splits intro: same_notes_trans)
qed

lemma add_commit_accepts:
  assumes "precheck_alias_candidate C (as_rules st) i f t = Inr ()"
  shows "\<exists>row st'. add_commit C name i (Fragment_Alias f t v) source display st = (Inr row, st')"
  using assms
  by (auto simp: precheck_alias_candidate_def add_commit_def alias_pairs_def Let_def split: prod.splits sum.splits if_splits)

lemma add_commit_refuses:
  "add_commit C name i fragment source display st = (Inl e, st') \<Longrightarrow> st' = st"
  by (auto simp: add_commit_def Let_def split: if_splits prod.splits sum.splits rule_fragment.splits)

lemma add_commit_alias:
  assumes "add_commit C name i (Fragment_Alias f t v) source display st = (Inr row, st')"
    "r \<in> set (rs_aliases (as_rules st'))" "node_key (ar_from r) = node_key f"
    "distinct (map (node_key \<circ> ar_from) (rs_aliases (as_rules st')))"
  shows "ar_derived_from r = None \<and> ar_id r = conn_id row \<and> ar_to r = t"
proof -
  obtain rs rule where st': "rs_aliases (as_rules st') = rs @ [rule]" "ar_from rule = f" "ar_to rule = t" "ar_id rule = i"
    "ar_derived_from rule = None" "conn_id row = i"
    using assms(1) by (auto simp: add_commit_def Let_def split: if_splits prod.splits sum.splits)
  then have "r = rule" using assms(2-4) by (force simp: image_iff)
  with st' show ?thesis by simp
qed

lemma request_id_frame: "request_connection_id pid connection st = (r, st') \<Longrightarrow>
    as_rules st' = as_rules st \<and> as_changes st' = as_changes st \<and> as_root_work st' = as_root_work st"
  by (auto simp: request_connection_id_def fresh_id_def Let_def split: option.splits config_value.splits)

text \<open>The alias case of an add, once the request and its id are accepted.\<close>

lemma add_local_alias:
  assumes held: "rules_held I" and ok: "rules_ok C (as_rules (ag_state g))"
    and add: "add_local C I name connection g = (result, g')"
    and req: "validate_connection_request connection = Inr ()"
    and id: "request_connection_id (in_pid I) connection (ag_state g) = (Inr i, st)"
    and frag: "parse_rule_fragment C connection = Inr (Fragment_Alias f t v)"
  shows "case result of
      Inl e \<Rightarrow> same_notes g g' \<and> (ag_world g' = ag_world g \<or> e = Err_Internal)
    | Inr row \<Rightarrow>
        \<forall>r \<in> set (rs_aliases (as_rules (ag_state g'))).
          node_key (ar_from r) = node_key f \<longrightarrow> ar_derived_from r = None \<and> ar_id r = conn_id row \<and> ar_to r = t"
proof -
  let ?g1 = "g\<lparr>ag_state := st\<rparr>"
  let ?commit = "add_commit C name i (Fragment_Alias f t v) (Alias_Runtime (cq_persist connection)) (cq_display_name connection)"
  have g1: "same_notes g ?g1" "ag_world ?g1 = ag_world g" using request_id_frame[OF id] by (simp_all add: same_notes_def)
  obtain er g2 where ev: "evict_downstream_derived I [f] ?g1 = (er, g2)" by fastforce
  note h = evict_held[OF held ev]
  have rules: "as_rules (ag_state g2) = as_rules st" using h by (simp add: same_notes_def)
  have ok2: "rules_ok C (as_rules (ag_state g2))" using rules g1(1) ok by (simp add: same_notes_def)
  show ?thesis
  proof (cases "precheck_alias_candidate C (as_rules st) i f t = Inr () \<and> er = Inr ()")
    case False
    then show ?thesis
      using add req id g1 frag ev h same_notes_trans[OF g1(1)] unit_result_cases[of "precheck_alias_candidate C (as_rules st) i f t"]
      by (auto simp: add_local_def Let_def)
  next
    case True
    then obtain row st' where c: "?commit (ag_state g2) = (Inr row, st')"
      using add_commit_accepts[of C "ag_state g2" i f t name v "Alias_Runtime (cq_persist connection)" "cq_display_name connection"]
        rules by auto
    then have res: "result = Inr row" "g' = g2\<lparr>ag_state := st'\<rparr>"
      using add req id frag ev True by (auto simp: add_local_def Let_def)
    have "rules_ok C (as_rules st')" using add_commits[OF ok2] c ok2 by (metis commits_def snd_conv)
    then show ?thesis using res add_commit_alias[OF c] rules_valid_scopes by (auto simp: rules_ok_iff)
  qed
qed

section \<open>Properties\<close>

text \<open>C29. The root notifications tell the truth in order. The commits of any run form a chain from the first
  rule set to the one in force, and each is announced once, in the order of the tickets, after the layer
  below was asked for its roots again. A query that fails or does not answer in time sends the empty
  \<open>Updated\<close>, the nudge to read the roots anew, and nothing else sends it. Every other notification turns the
  rows advertised under the old rules and the roots it was given into those advertised under the new rules
  and the same roots, also where an alias stands on the address of an inner root. So while the layer below
  answers with the same roots, a consumer that keeps the rows by address, starts from those advertised at
  first and applies what is sent holds exactly the rows advertised now. Each answer lists an address once;
  what the layer below changes in between comes with its own update stream.\<close>

theorem root_deltas_replay:
  fixes I :: "'w inner_layer" and g :: "'w alias_graph"
  assumes "validate_alias_rules C ps = Inr ()" "validate_visibility_rules vs = Inr ()" "length ps + length vs < 2 ^ 64"
    "al_reachable C name apart (static_state pid ps vs counter) s"
  defines "work \<equiv> as_root_work (ru_state s)" and "first \<equiv> as_rules (static_state pid ps vs counter)"
  defines "sent \<equiv> fst (broadcasts C I work g)"
  shows "chained first work (as_rules (ru_state s)) \<and> length sent = length work \<and>
    (\<forall>i < length work.
       (sent ! i = [Change_Updated []] \<longleftrightarrow> sampled_at I g i = None) \<and>
       (\<forall>roots. sampled_at I g i = Some roots \<longrightarrow> distinct (map ri_root roots) \<longrightarrow>
          apply_root_changes (sent ! i) (keyed (advertised_rows C (fst (work ! i)) roots)) =
            keyed (advertised_rows C (snd (work ! i)) roots))) \<and>
    (\<forall>roots. (\<forall>i < length work. sampled_at I g i = Some roots) \<longrightarrow> distinct (map ri_root roots) \<longrightarrow>
       fold apply_root_changes sent (keyed (advertised_rows C first roots)) =
         keyed (advertised_rows C (as_rules (ru_state s)) roots))"
proof -
  have ok: "work_ok C first (ru_state s)"
    unfolding first_def using reachable_work[OF assms(4) run_ok_work[OF static_state_ok(1)[OF assms(1-3)]]] .
  then have chain: "chained first work (as_rules (ru_state s))"
    and valid: "list_all (\<lambda>(old, new). rules_valid C old \<and> rules_valid C new) work"
    by (simp_all add: work_ok_def work_def)
  have sent: "sent ! i = (case sampled_at I g i of None \<Rightarrow> [Change_Updated []]
      | Some roots \<Rightarrow> root_delta C (fst (work ! i)) (snd (work ! i)) roots)" if "i < length work" for i
    unfolding sent_def broadcasts_sent using that by (simp split: option.split)
  have item: "rules_valid C (fst (work ! i)) \<and> rules_valid C (snd (work ! i))" if "i < length work" for i
    using valid that by (auto simp: list_all_length split_beta)
  have "length sent = length work" unfolding sent_def broadcasts_sent by simp
  moreover have "sent ! i = [Change_Updated []] \<longleftrightarrow> sampled_at I g i = None" if "i < length work" for i
    unfolding sent[OF that] using no_empty_delta by (auto split: option.split)
  moreover have "apply_root_changes (sent ! i) (keyed (advertised_rows C (fst (work ! i)) roots)) =
      keyed (advertised_rows C (snd (work ! i)) roots)"
    if "i < length work" "sampled_at I g i = Some roots" "distinct (map ri_root roots)" for i roots
    unfolding sent[OF that(1)] that(2) option.case using item[OF that(1)] that(3) by (intro delta_exact) blast+
  moreover have "fold apply_root_changes sent (keyed (advertised_rows C first roots)) =
      keyed (advertised_rows C (as_rules (ru_state s)) roots)"
    if "\<forall>i < length work. sampled_at I g i = Some roots" "distinct (map ri_root roots)" for roots
    unfolding sent_def replay_same_roots[OF that(1)] by (rule replay_chain[OF chain valid that(2)])
  ultimately show ?thesis using chain by blast
qed

text \<open>An explicit add takes effect whole or not at all. A refusal changes no rule and announces
  nothing, and where an inner derived copy was evicted before it, the refusal is exactly the
  report that a copy could not be removed; every other refusal comes before the layer below is
  called. On success the announced row is the only rule on its scope, and it is not derived.\<close>

theorem explicit_add_whole_or_nothing:
  assumes "rules_held I" "rules_ok C (as_rules (ag_state g))" "add_local C I name connection g = (result, g')"
  shows "case result of
      Inl e \<Rightarrow> same_notes g g' \<and> (ag_world g' = ag_world g \<or> e = Err_Internal)
    | Inr row \<Rightarrow>
        (case parse_rule_fragment C connection of
           Inr (Fragment_Alias f t v) \<Rightarrow>
             \<forall>r \<in> set (rs_aliases (as_rules (ag_state g'))).
               node_key (ar_from r) = node_key f \<longrightarrow> ar_derived_from r = None \<and> ar_id r = conn_id row \<and> ar_to r = t
         | _ \<Rightarrow> as_changes (ag_state g') = as_changes (ag_state g) @ [Conn_Added row])"
proof -
  obtain ri st where id: "request_connection_id (in_pid I) connection (ag_state g) = (ri, st)" by fastforce
  let ?g1 = "g\<lparr>ag_state := st\<rparr>"
  have g1: "same_notes g ?g1" "ag_world ?g1 = ag_world g" using request_id_frame[OF id] by (simp_all add: same_notes_def)
  show ?thesis
  proof (cases "validate_connection_request connection")
    case (Inl e)
    then show ?thesis using assms(3) by (auto simp: add_local_def same_notes_def)
  next
    case valid: (Inr u)
    show ?thesis
    proof (cases ri)
      case (Inl e)
      then show ?thesis using assms(3) valid id g1 by (auto simp: add_local_def)
    next
      case i: (Inr i)
      let ?commit = "\<lambda>fragment. add_commit C name i fragment (Alias_Runtime (cq_persist connection)) (cq_display_name connection)"
      consider e where "parse_rule_fragment C connection = Inl e"
        | a v where "parse_rule_fragment C connection = Inr (Fragment_Visibility a v)"
        | f t v where "parse_rule_fragment C connection = Inr (Fragment_Alias f t v)"
        by (metis rule_fragment.exhaust sumE)
      then show ?thesis
      proof cases
        case (1 e)
        then show ?thesis using assms(3) valid id i g1 by (auto simp: add_local_def Let_def)
      next
        case (2 a v)
        then have "result = fst (?commit (Fragment_Visibility a v) st)"
          "g' = ?g1\<lparr>ag_state := snd (?commit (Fragment_Visibility a v) st)\<rparr>"
          using assms(3) valid id i by (auto simp: add_local_def Let_def split: prod.splits)
        then show ?thesis
          using 2 g1 request_id_frame[OF id]
          by (auto simp: add_commit_def Let_def same_notes_def swap_rules_def split: if_splits sum.splits)
      next
        case (3 f t v)
        then show ?thesis
          using add_local_alias[OF assms, of i st f t v] valid id i by (simp split: sum.splits)
      qed
    qed
  qed
qed

section \<open>Authentication through an alias\<close>

lemma projected_row:
  assumes "project_delegated_connection C rule hops backend target = Inr view"
  shows "conn_id view = ar_id rule \<and> conn_backend_kind view = ALIAS_KIND \<and> conn_owning_target view = Some target \<and>
    conn_user_metadata view = conn_user_metadata (alias_connection C target rule) \<and>
    (\<forall>a \<in> set (conn_current_addresses view). a = ar_from rule \<or>
       (\<exists>b \<in> set (conn_current_addresses backend). project_back C (inverse_chain hops) b = Inr a \<and> a \<noteq> b))"
proof -
  obtain mapped where m: "collect_results (project_back C (inverse_chain hops)) (conn_current_addresses backend) = Inr mapped"
    using assms by (auto simp: project_delegated_connection_def split: sum.splits)
  have "collect_results h xs = Inr ys \<Longrightarrow> (y, x) \<in> set (zip ys xs) \<Longrightarrow> h x = Inr y \<and> x \<in> set xs" for h :: "url \<Rightarrow> url result" and xs ys y x
    by (induction xs arbitrary: ys) (auto split: sum.splits)
  note this[OF m]
  then show ?thesis
    using assms m
    by (auto simp: project_delegated_connection_def alias_connection_def Let_def split: if_splits)
qed

text \<open>C34. Signing in through an alias shows the alias and not what is behind it. Every successful event
  carries the alias's own row: its id, kind, target and metadata, no secrets, and only addresses
  of the alias or addresses projected back through its chain, never an address as the backend
  spells it.\<close>

theorem delegated_auth_shows_the_alias:
  assumes "alias_authenticate_connection C I name (name, i) how cx g = (Inr events, g')"
    "Inr (Auth_Succeeded row secrets) \<in> set events"
  shows "\<exists>d g1 es g2 backend given.
    resolve_auth_delegation C I (name, i) cx g = (Inr d, g1) \<and> in_authenticate I (ad_backend_key d) how cx g1 = (Inr es, g2) \<and>
    Inr (Auth_Succeeded backend given) \<in> set es \<and>
    ad_rule d \<in> set (rs_aliases (as_rules (ag_state g))) \<and> ar_id (ad_rule d) = i \<and> secrets = None \<and>
    conn_id row = i \<and> conn_backend_kind row = ALIAS_KIND \<and> conn_owning_target row = Some name \<and>
    conn_user_metadata row = conn_user_metadata (alias_connection C name (ad_rule d)) \<and>
    (\<forall>a \<in> set (conn_current_addresses row). a = ar_from (ad_rule d) \<or>
       (\<exists>b \<in> set (conn_current_addresses backend). project_back C (inverse_chain (ad_hops d)) b = Inr a \<and> a \<noteq> b))"
proof -
  obtain d g1 where d: "resolve_auth_delegation C I (name, i) cx g = (Inr d, g1)"
    using assms(1) by (auto simp: alias_authenticate_connection_def split: sum.splits prod.splits)
  have rule: "ad_rule d \<in> set (rs_aliases (as_rules (ag_state g)))" "ar_id (ad_rule d) = i"
    using d by (auto simp: resolve_auth_delegation_def Let_def find_Some_iff split: option.splits sum.splits prod.splits)
  obtain es g2 where es: "in_authenticate I (ad_backend_key d) how cx g1 = (Inr es, g2)"
    "events = map (project_auth_event C (ad_rule d) (ad_hops d) name) es"
    using assms(1) d by (auto simp: alias_authenticate_connection_def split: sum.splits prod.splits)
  then obtain e where e: "e \<in> set es" "project_auth_event C (ad_rule d) (ad_hops d) name e = Inr (Auth_Succeeded row secrets)"
    using assms(2) by (auto simp: image_iff)
  then obtain backend given where b: "e = Inr (Auth_Succeeded backend given)"
    "project_delegated_connection C (ad_rule d) (ad_hops d) backend name = Inr row" "secrets = None"
    by (auto simp: project_auth_event_def split: sum.splits auth_event.splits)
  from projected_row[OF b(2)] show ?thesis using d es(1) e(1) b(1,3) rule by blast
qed

section \<open>Witnesses\<close>

definition run_root_row :: root_info where
  "run_root_row = bare_alias_root (base_url ''s3'' (Some ''b'') ''/'')"

definition run_backend :: connection where
  "run_backend = \<lparr>conn_id = ''c'', conn_backend_kind = ''s3'', conn_display_name = ''c'', conn_source = Conn_Runtime False,
     conn_capabilities = capabilities_empty, conn_current_addresses = [base_url ''s3'' (Some ''b'') ''/''],
     conn_auth_state = Auth_Anonymous, conn_last_probed = None, conn_user_metadata = Map.empty, conn_owning_target = Some ''s3''\<rparr>"

definition run_inner :: "unit inner_layer" where
  "run_inner =
     \<lparr>in_pid = 7, in_list_connections = (\<lambda>cx g. (Inr \<lparr>csnap_connections = [], csnap_updates = False\<rparr>, g)),
      in_list_address_roots = (\<lambda>g. (Inr [run_root_row], g)),
      in_root_info_for = (\<lambda>u cx g.
        (if url_scheme u = ''s3'' then Inr (run_root_row\<lparr>ri_connection_id := Some ''c'', ri_owning_target := Some ''s3''\<rparr>)
         else Inl Err_NoRoute, g)),
      in_owning_target_for = (\<lambda>u cx g. (None, g)), in_probe = (\<lambda>t c cx g. (Inl Err_Unsupported, g)),
      in_add_connection = (\<lambda>t c cx g. (Inl Err_Unsupported, g)), in_remove_connection = (\<lambda>k cx g. (Inr (), g)),
      in_update_credentials = (\<lambda>k c cx g. (Inl Err_Unsupported, g)), in_update_attributes = (\<lambda>k p cx g. (Inl Err_Unsupported, g)),
      in_authenticate = (\<lambda>k how cx g. (Inr [Inr (Auth_Progress ''wait''), Inr (Auth_Succeeded run_backend (Some ''secret''))], g)),
      in_elapsed = (\<lambda>g g'. False), in_mutations = (\<lambda>g. g)\<rparr>"

definition run_idle :: "unit alias_graph" where
  "run_idle = \<lparr>ag_state = ru_state run_live_state, ag_world = ()\<rparr>"

theorem root_deltas_replay_witness:
  "as_root_work (ru_state run_live_state) \<noteq> [] \<and>
   fold apply_root_changes (fst (broadcasts ref_crate run_inner (as_root_work (ru_state run_live_state)) run_idle))
     (keyed (advertised_rows ref_crate (as_rules (static_state 7 [] [] 0)) [run_root_row])) =
   keyed (advertised_rows ref_crate \<lparr>rs_aliases = [run_rule], rs_visibility = []\<rparr> [run_root_row])"
proof -
  have "((\<lambda>h. snd (in_list_address_roots run_inner h)) ^^ i) h = h" for i h
    by (induction i) (simp_all add: run_inner_def)
  then have same: "sampled_at run_inner run_idle i = Some [run_root_row]" for i
    by (simp add: sampled_at_def inner_sample_def) (simp add: run_inner_def)
  have rules: "as_rules (ru_state run_live_state) = \<lparr>rs_aliases = [run_rule], rs_visibility = []\<rparr>"
    by (simp add: run_live_state_def run_installed_rules)
  note p = root_deltas_replay[OF no_rules_valid _ run_live_reachable, where I = run_inner and g = run_idle]
  have "as_root_work (ru_state run_live_state) \<noteq> []"
    using p rules run_start_rules by (cases "as_root_work (ru_state run_live_state)") auto
  moreover have "fold apply_root_changes (fst (broadcasts ref_crate run_inner (as_root_work (ru_state run_live_state)) run_idle))
     (keyed (advertised_rows ref_crate (as_rules (static_state 7 [] [] 0)) [run_root_row])) =
   keyed (advertised_rows ref_crate \<lparr>rs_aliases = [run_rule], rs_visibility = []\<rparr> [run_root_row])"
    using p same rules by simp
  ultimately show ?thesis by blast
qed

definition run_request :: connection_request where
  "run_request = \<lparr>cq_backend_kind = ''alias'',
     cq_config = [''id'' \<mapsto> Config_String ''x'', ''from'' \<mapsto> Config_String ''https://h/'', ''to'' \<mapsto> Config_String ''s3://b/''],
     cq_credentials = [], cq_persist = False, cq_display_name = None\<rparr>"

definition run_graph :: "unit alias_graph" where
  "run_graph = \<lparr>ag_state = run_start, ag_world = ()\<rparr>"

lemma run_fragment: "parse_rule_fragment ref_crate run_request =
    Inr (Fragment_Alias (base_url ''https'' (Some ''h'') ''/'') (base_url ''s3'' (Some ''b'') ''/'') None)"
  by code_simp

lemma run_held: "rules_held run_inner"
  by (simp add: rules_held_def run_inner_def same_notes_def)

lemma run_added: "\<exists>row g'. add_local ref_crate run_inner ''a'' run_request run_graph = (Inr row, g')"
proof -
  let ?f = "base_url ''https'' (Some ''h'') ''/''" and ?t = "base_url ''s3'' (Some ''b'') ''/''"
  have pre: "precheck_alias_candidate ref_crate (as_rules run_start) ''x'' ?f ?t = Inr ()"
    using run_rule_valid
    by (simp add: precheck_alias_candidate_def run_start_rules contains_id_def evict_derived_duplicates_def alias_pairs_def)
  have ev: "evict_downstream_derived run_inner [?f] g = (Inr (), g)" for g
    by (simp add: evict_downstream_derived_def scan_inner_connections_def run_inner_def)
  have id: "request_connection_id (in_pid run_inner) run_request st = (Inr ''x'', st)" for st
    by (simp add: request_connection_id_def run_request_def)
  have valid: "validate_connection_request run_request = Inr ()"
    by (simp add: validate_connection_request_def run_request_def ALIAS_KIND_def)
  show ?thesis
    using add_commit_accepts[OF pre, of "''a''" None "Alias_Runtime (cq_persist run_request)" "cq_display_name run_request"]
    by (auto simp: add_local_def valid id run_fragment run_graph_def pre ev Let_def)
qed

theorem explicit_add_whole_or_nothing_witness:
  "\<exists>row g'. add_local ref_crate run_inner ''a'' run_request run_graph = (Inr row, g') \<and>
     (\<forall>r \<in> set (rs_aliases (as_rules (ag_state g'))). node_key (ar_from r) = node_key (base_url ''https'' (Some ''h'') ''/'') \<longrightarrow>
        ar_derived_from r = None \<and> ar_id r = conn_id row \<and> ar_to r = base_url ''s3'' (Some ''b'') ''/'')"
proof -
  obtain row g' where add: "add_local ref_crate run_inner ''a'' run_request run_graph = (Inr row, g')"
    using run_added by blast
  have "rules_ok ref_crate (as_rules (ag_state run_graph))"
    by (simp add: run_graph_def run_start_rules rules_ok_def alias_pairs_def standalone_visibility_pairs_def
        no_rules_valid rule_ids_def)
  from explicit_add_whole_or_nothing[OF run_held this add] show ?thesis using add by (simp add: run_fragment)
qed

definition run_alias_graph :: "unit alias_graph" where
  "run_alias_graph = \<lparr>ag_state = run_installed, ag_world = ()\<rparr>"

lemma run_walk:
  "walk_chain_async ref_crate (in_root_info_for run_inner) (as_rules run_installed) (ar_from run_rule) g =
     (Inr \<lparr>res_address = ar_to run_rule, res_hops = [(ar_from run_rule, ar_to run_rule)],
           res_first_hop_source = Some (Alias_Runtime False), res_visibility = []\<rparr>, g)"
proof -
  let ?f = "base_url ''https'' (Some ''h'') ''/''" and ?t = "base_url ''s3'' (Some ''b'') ''/''"
  have may: "generated_rule_may_answer ?f" by code_simp
  have hop: "longest_matching_rule [(?f, ?t)] ?f = Some (?f, ?t)" "longest_matching_rule [(?f, ?t)] ?t = None"
    "replace_prefix ref_crate ?f ?f ?t = Inr ?t" by code_simp+
  have probe: "in_root_info_for run_inner ?f no_extensions g = (Inl Err_NoRoute, g)"
    by (simp add: run_inner_def base_url_def)
  have "walk_async_loop ref_crate (in_root_info_for run_inner) [(?f, ?t)] (Suc n) ?f [] [] g = (Inr (?t, [(?f, ?t)]), g)" for n
    by (simp add: walk_async_loop.simps hop probe)
  from this[of 7] show ?thesis
    by (simp add: walk_chain_async_def alias_pairs_for_def alias_pairs_def run_installed_rules run_rule_def may
        MAX_ALIAS_HOPS_def hop_source_def numeral_eq_Suc)
qed

lemma run_events:
  "\<exists>events row g'. alias_authenticate_connection ref_crate run_inner ''a'' (''a'', ''alias-7-0'') ''m'' Map.empty run_alias_graph =
     (Inr events, g') \<and> Inr (Auth_Succeeded row None) \<in> set events"
proof -
  let ?f = "base_url ''https'' (Some ''h'') ''/''" and ?t = "base_url ''s3'' (Some ''b'') ''/''"
  have "resolve_auth_delegation ref_crate run_inner (''a'', ''alias-7-0'') Map.empty run_alias_graph =
      (Inr \<lparr>ad_rule = run_rule, ad_backend_key = (''s3'', ''c''), ad_hops = [(ar_from run_rule, ar_to run_rule)]\<rparr>, run_alias_graph)"
    using run_walk[of run_alias_graph]
    by (simp add: resolve_auth_delegation_def run_alias_graph_def run_installed_rules)
      (simp add: run_inner_def run_rule_def base_url_def)
  moreover have "project_back ref_crate (inverse_chain [(?f, ?t)]) ?t = Inr ?f" by code_simp
  then have "\<exists>view. project_delegated_connection ref_crate run_rule [(ar_from run_rule, ar_to run_rule)] run_backend ''a'' = Inr view"
    by (simp add: project_delegated_connection_def run_backend_def run_rule_def Let_def)
  ultimately show ?thesis
    by (auto simp: alias_authenticate_connection_def run_inner_def project_auth_event_def)
qed

theorem delegated_auth_shows_the_alias_witness:
  "\<exists>events row g'. alias_authenticate_connection ref_crate run_inner ''a'' (''a'', ''alias-7-0'') ''m'' Map.empty run_alias_graph =
     (Inr events, g') \<and> Inr (Auth_Succeeded row None) \<in> set events \<and>
     conn_id row = ''alias-7-0'' \<and> conn_owning_target row = Some ''a'' \<and>
     conn_user_metadata row = conn_user_metadata (alias_connection ref_crate ''a'' run_rule)"
proof -
  obtain events row g' where e: "alias_authenticate_connection ref_crate run_inner ''a'' (''a'', ''alias-7-0'') ''m'' Map.empty
      run_alias_graph = (Inr events, g')" "Inr (Auth_Succeeded row None) \<in> set events"
    using run_events by blast
  from delegated_auth_shows_the_alias[OF e] have "conn_id row = ''alias-7-0'' \<and> conn_owning_target row = Some ''a'' \<and>
      conn_user_metadata row = conn_user_metadata (alias_connection ref_crate ''a'' run_rule)"
    by (auto simp: run_alias_graph_def run_installed_rules)
  then show ?thesis using e by blast
qed

end
