(* ===== verification/Ov_Router_Laws.thy ===== *)
theory Ov_Router_Laws
  imports Ov_Router "HOL-Library.Multiset"
begin

text \<open>
  What the router guarantees of its table: rebuilds may finish in any order and the newest
  request wins, a child that serves an address keeps serving it, a connection that was refused
  does not route, and what is reported to the caller of an add matches what happened.
\<close>

section \<open>Who serves a node\<close>

lemma same_node_ancestor: "same_node p u \<Longrightarrow> is_ancestor_or_self p u"
  by (auto simp: same_node_def node_key_def is_ancestor_or_self_def path_contains_def split: option.splits)

lemma same_node_rank: "same_node p u \<Longrightarrow> node_rank p = node_rank u"
  by (simp add: same_node_def node_key_def node_rank_def node_segment_count_def)

lemma same_node_sym: "same_node a b \<Longrightarrow> same_node b a"
  by (simp add: same_node_def)

lemma same_node_trans: "same_node a b \<Longrightarrow> same_node b c \<Longrightarrow> same_node a c"
  by (simp add: same_node_def)

lemma ancestor_rank:
  assumes "plain_path (url_path p)" "plain_path (url_path u)" "is_ancestor_or_self p u"
  shows "node_rank p \<le> node_rank u"
  using assms by (auto simp: ancestor_iff node_rank_def node_segment_count_segs less_eq_prod_def dest: prefix_length_le)
    (metis not_Some_eq)

definition routable_address :: "url \<Rightarrow> bool" where
  "routable_address u \<longleftrightarrow> canonical_url u \<and> url_has_authority u"

definition canonical_bindings :: "binding list \<Rightarrow> bool" where
  "canonical_bindings bs \<longleftrightarrow> (\<forall>b \<in> set bs. canonical_url (ri_root (fst b)))"

text \<open>A node with a binding is served by the earliest binding of that node, whatever else covers it.\<close>

lemma lookup_node:
  assumes C: "crate_ok C" "as_str_ok C" and u: "routable_address u" and bs: "canonical_bindings items"
    and b0: "b0 \<in> set items" "same_node (ri_root (fst b0)) u"
  obtains ys b zs where "items = ys @ b # zs" "lookup_prefix C (route_table_build items) u = Some b"
    "same_node (ri_root (fst b)) u" "\<forall>y \<in> set ys. \<not> same_node (ri_root (fst y)) u"
proof -
  let ?P = "\<lambda>e. is_ancestor_or_self (entry_url e) u" and ?f = "\<lambda>e :: binding. node_rank (entry_url e)"
  have pl: "plain_path (url_path u)" "\<And>b. b \<in> set items \<Longrightarrow> plain_path (url_path (entry_url b))"
    using u bs by (auto simp: routable_address_def canonical_bindings_def entry_url_def intro: canonical_plain)
  have "chosen ?P ?f items (lookup_prefix C (route_table_build items) u)"
    using lookup_prefix_chosen[of C u items] relative_suffix_some_iff[OF C] u bs
    by (subst chosen_cong[where Q = "\<lambda>e. relative_suffix C u (entry_url e) \<noteq> None"])
      (auto simp: routable_address_def canonical_bindings_def entry_url_def)
  moreover have "?P b0" using same_node_ancestor[OF b0(2)] by (simp add: entry_url_def)
  ultimately obtain b ys zs where b: "lookup_prefix C (route_table_build items) u = Some b"
    "items = ys @ b # zs" "?P b" "\<forall>y \<in> set ys. ?P y \<longrightarrow> ?f y < ?f b" "\<forall>z \<in> set zs. ?P z \<longrightarrow> ?f z \<le> ?f b"
    using b0(1) by (cases "lookup_prefix C (route_table_build items) u") (auto simp: chosen_def)
  have "b0 \<in> set ys \<or> b0 = b \<or> b0 \<in> set zs" using b0(1) b(2) by auto
  then have "?f b0 \<le> ?f b" using b(4,5) \<open>?P b0\<close> by fastforce
  moreover have "?f b0 = node_rank u" using same_node_rank[OF b0(2)] by (simp add: entry_url_def)
  moreover have "?f b \<le> node_rank u" using b(2,3) pl by (intro ancestor_rank) auto
  ultimately have rank: "?f b = node_rank u" by simp
  have same: "same_node (ri_root (fst b)) u"
    using scope_tie[of "entry_url b" u u] pl b(2,3) rank ancestor_refl by (auto simp: entry_url_def)
  have "\<not> same_node (ri_root (fst y)) u" if "y \<in> set ys" for y
    using b(4) that rank same_node_rank[of "entry_url y" u] same_node_ancestor[of "entry_url y" u]
    by (auto simp: entry_url_def)
  then show thesis using that b(1,2) same by blast
qed

section \<open>Publication\<close>

definition canonical_table :: "child route_table \<Rightarrow> bool" where
  "canonical_table table \<longleftrightarrow> canonical_bindings (rt_entries table)"

lemma set_build_entries [simp]: "set (rt_entries (route_table_build items)) = set items"
  by (simp add: route_table_build_def Let_def)

lemma incumbents_first_perm: "mset (incumbents_first table routes) = mset routes"
  unfolding incumbents_first_def Let_def by simp

lemma set_incumbents_first [simp]: "set (incumbents_first table routes) = set routes"
  by (rule mset_eq_setD[OF incumbents_first_perm])

lemma serving_lookup:
  assumes C: "crate_ok C" "as_str_ok C" and u: "routable_address u" and t: "canonical_table table"
    and l: "lookup_prefix C table u = Some (root, c)" "same_node (ri_root root) u"
  shows "serving table (node_key u) = Some c"
proof -
  from l(1) obtain i where i: "i < length (rt_entries table)" "rt_entries table ! i = (root, c)"
    "\<forall>j<i. relative_suffix C u (entry_url (rt_entries table ! j)) = None"
    by (auto simp: lookup_prefix_def find_Some_iff)
  let ?ys = "take i (rt_entries table)"
  have split: "rt_entries table = ?ys @ (root, c) # drop (Suc i) (rt_entries table)"
    using id_take_nth_drop[OF i(1)] i(2) by simp
  have "node_key (ri_root (fst y)) \<noteq> node_key u" if "y \<in> set ?ys" for y
  proof
    assume k: "node_key (ri_root (fst y)) = node_key u"
    from that obtain j where j: "j < i" "j < length (rt_entries table)" "y = rt_entries table ! j"
      by (auto simp: in_set_conv_nth)
    then have "canonical_url (entry_url y)"
      using t by (auto simp: canonical_table_def canonical_bindings_def entry_url_def)
    then have "relative_suffix C u (entry_url y) \<noteq> None"
      using relative_suffix_some_iff[OF C, of u "entry_url y"] u same_node_ancestor[of "entry_url y" u] k
      by (auto simp: routable_address_def same_node_def entry_url_def)
    with i(3) j show False by auto
  qed
  then have "map_of (map (\<lambda>(root, child). (node_key (ri_root root), child)) ?ys) (node_key u) = None"
    by (force simp: map_of_eq_None_iff)
  moreover have "node_key (ri_root root) = node_key u" using l(2) by (simp add: same_node_def)
  ultimately show ?thesis
    unfolding serving_def by (subst split) (simp add: map_add_def del: append_take_drop_id)
qed

lemma prefix_block: "xs @ ws = ys @ b # zs \<Longrightarrow> set xs \<subseteq> set ys \<or> b \<in> set xs"
  by (auto simp: append_eq_append_conv2 append_eq_Cons_conv)

text \<open>The key of incumbency: the server of a node leads the bindings of that node.\<close>

lemma incumbent_leads:
  assumes s: "serving table (node_key u) = Some c" and split: "incumbents_first table routes = ys @ b # zs"
    and b: "same_node (ri_root (fst b)) u" "\<forall>y \<in> set ys. \<not> same_node (ri_root (fst y)) u"
    and i: "(root, c) \<in> set routes" "same_node (ri_root root) u"
  shows "snd b = c"
proof (rule ccontr)
  assume ne: "snd b \<noteq> c"
  let ?I = "\<lambda>b. serving table (node_key (ri_root (fst b))) = Some (snd b)"
  have ne_tab: "rt_entries table \<noteq> []" using s by (auto simp: serving_def)
  have keys: "node_key (ri_root (fst b)) = node_key u" "node_key (ri_root root) = node_key u"
    using b(1) i(2) by (simp_all add: same_node_def)
  have arr: "filter ?I routes @ filter (\<lambda>b. \<not> ?I b) routes = ys @ b # zs"
    using split ne_tab by (simp add: incumbents_first_def Let_def)
  have "(root, c) \<in> set (filter ?I routes)" using i(1) s keys(2) by simp
  moreover have "\<not> ?I b" using s ne keys(1) by simp
  then have "b \<notin> set (filter ?I routes)" by simp
  moreover have "set (filter ?I routes) \<subseteq> set ys \<or> b \<in> set (filter ?I routes)"
    by (rule prefix_block[OF arr])
  ultimately have "(root, c) \<in> set ys" by blast
  with b(2) i(2) show False by auto
qed

lemma publish_newer:
  "st_applied_generation st < g \<Longrightarrow>
     st_applied_generation (publish g routes targets st) = g \<and>
     st_routes (publish g routes targets st) = route_table_build (incumbents_first (st_routes st) routes) \<and>
     st_targets (publish g routes targets st) = targets \<and>
     st_claimed_roots (publish g routes targets st) = filter (\<lambda>c. g < cl_generation c) (st_claimed_roots st) \<and>
     st_root_changes (publish g routes targets st) = st_root_changes st @
       [Change_Snapshot (route_roots (route_table_build (incumbents_first (st_routes st) routes)))]"
  by (simp add: publish_def release_claims_through_def Let_def)

lemma publish_older:
  "g \<le> st_applied_generation st \<Longrightarrow>
     publish g routes targets st = release_claims_through (st_applied_generation st) st"
  by (simp add: publish_def)

text \<open>Every publication in the order in which the rebuilds end.\<close>

definition publish_all :: "(nat \<times> binding list \<times> (string \<rightharpoonup> child)) list \<Rightarrow> router_state \<Rightarrow> router_state" where
  "publish_all ps st = foldl (\<lambda>st (g, routes, targets). publish g routes targets st) st ps"

lemma publish_all_older:
  assumes "\<forall>p \<in> set ps. fst p \<le> st_applied_generation st"
  shows "st_applied_generation (publish_all ps st) = st_applied_generation st \<and>
    st_routes (publish_all ps st) = st_routes st \<and> st_targets (publish_all ps st) = st_targets st \<and>
    st_root_changes (publish_all ps st) = st_root_changes st \<and>
    set (st_claimed_roots (publish_all ps st)) \<subseteq> set (st_claimed_roots st)"
  using assms
proof (induction ps rule: rev_induct)
  case (snoc p ps)
  then show ?case
    by (cases p) (auto simp: publish_all_def publish_older release_claims_through_def)
qed (simp add: publish_all_def)

lemma publish_all_below:
  assumes "\<forall>p \<in> set ps. fst p < m" "st_applied_generation st < m"
  shows "st_applied_generation (publish_all ps st) < m"
  using assms
proof (induction ps rule: rev_induct)
  case (snoc p ps)
  then show ?case
    by (cases p) (auto simp: publish_all_def publish_def release_claims_through_def Let_def)
qed (simp add: publish_all_def)

lemma publish_all_split: "publish_all (xs @ (g, r, t) # ys) st = publish_all ys (publish g r t (publish_all xs st))"
  by (simp add: publish_all_def)

lemma publish_claims:
  assumes "g \<le> m" "st_applied_generation st \<le> m"
  shows "filter (\<lambda>c. m < cl_generation c) (st_claimed_roots (publish g r t st)) =
    filter (\<lambda>c. m < cl_generation c) (st_claimed_roots st) \<and> st_applied_generation (publish g r t st) \<le> m"
proof -
  have "filter (\<lambda>c. m < cl_generation c) (filter (\<lambda>c. a < cl_generation c) cs) =
      filter (\<lambda>c. m < cl_generation c) cs" if "a \<le> m" for a and cs :: "claimed_root list"
    using that by (auto intro!: filter_cong)
  note this[OF assms(1)] this[OF assms(2)]
  then show ?thesis using assms by (simp add: publish_def release_claims_through_def Let_def)
qed

lemma publish_all_claims:
  assumes "\<forall>p \<in> set ps. fst p \<le> m" "st_applied_generation st \<le> m"
  shows "filter (\<lambda>c. m < cl_generation c) (st_claimed_roots (publish_all ps st)) =
    filter (\<lambda>c. m < cl_generation c) (st_claimed_roots st) \<and>
    st_applied_generation (publish_all ps st) \<le> m"
  using assms
proof (induction ps rule: rev_induct)
  case (snoc p ps)
  then show ?case
    using publish_claims[of "fst p" m "publish_all ps st" "fst (snd p)" "snd (snd p)"]
    by (auto simp: publish_all_def split: prod.splits)
qed (simp add: publish_all_def)

section \<open>Quarantine\<close>

lemma position_None: "position P xs = None \<longleftrightarrow> (\<forall>x \<in> set xs. \<not> P x)"
  by (induction xs) auto

lemma withheld_exact:
  "fst (withhold_quarantined owned held routes) =
     filter (\<lambda>b. \<forall>q \<in> set held. \<not> withholds owned q b) routes"
  by (simp add: withhold_quarantined_def Let_def position_None)

text \<open>The child, asked in a given state, answers within its deadline and does not list the refused connection.\<close>

definition confirms_gone :: "'w children \<Rightarrow> quarantined \<Rightarrow> 'w graph \<Rightarrow> bool" where
  "confirms_gone I q h \<longleftrightarrow>
     (case ch_list_connections I (qu_child q) h of
        (Inr connections, h') \<Rightarrow> \<not> ch_elapsed I h h' \<and> qu_connection q \<notin> conn_id ` set connections
      | (Inl e, h') \<Rightarrow> False)"

text \<open>The state in which a rebuild asks about the candidate at a position, and whether its entry leaves the
  quarantine while that call is awaited, by another task.\<close>

definition asked_at :: "'w children \<Rightarrow> quarantined list \<Rightarrow> 'w graph \<Rightarrow> nat \<Rightarrow> 'w graph" where
  "asked_at I qs g i = retire_confirmed_quarantines I (take i qs) g"

definition lifted_meanwhile :: "'w children \<Rightarrow> child \<Rightarrow> quarantined \<Rightarrow> 'w graph \<Rightarrow> bool" where
  "lifted_meanwhile I c q h \<longleftrightarrow>
     q \<in> set (st_quarantined (gr_router h)) \<and>
     q \<notin> set (st_quarantined (gr_router (snd (ch_list_connections I c h))))"

lemma retire_one:
  "retire_confirmed_quarantines I [q] h =
     (if confirms_gone I q h
      then on_router (lift_quarantine (qu_child q) (qu_target q) (qu_connection q)) (snd (ch_list_connections I (qu_child q) h))
      else snd (ch_list_connections I (qu_child q) h))"
proof -
  obtain a h' where call: "ch_list_connections I (qu_child q) h = (a, h')" by fastforce
  show ?thesis
  proof (cases a)
    case (Inr cs)
    have "list_ex (\<lambda>c. conn_id c = qu_connection q) cs \<longleftrightarrow> qu_connection q \<in> conn_id ` set cs"
      by (force simp: list_ex_iff)
    then show ?thesis using call Inr by (auto simp: confirms_gone_def bounded_child_call_def)
  qed (use call in \<open>simp add: confirms_gone_def bounded_child_call_def\<close>)
qed

lemma retire_Cons:
  "retire_confirmed_quarantines I (q # qs) g =
     retire_confirmed_quarantines I qs (retire_confirmed_quarantines I [q] g)"
  by (simp add: Let_def split: prod.split)

lemma retire_append:
  "retire_confirmed_quarantines I (qs @ rs) g =
     retire_confirmed_quarantines I rs (retire_confirmed_quarantines I qs g)"
proof (induction qs arbitrary: g)
  case (Cons q qs)
  then show ?case unfolding append_Cons retire_Cons[of I q qs] retire_Cons[of I q "qs @ rs"] by (simp only:)
qed simp

lemma retired_entry:
  assumes "q \<in> set (st_quarantined (gr_router g))"
    and "q \<notin> set (st_quarantined (gr_router (retire_confirmed_quarantines I qs g)))"
  shows "\<exists>i < length qs. let h = asked_at I qs g i in
    quarantine_key (qu_child (qs ! i)) (qu_target (qs ! i)) (qu_connection (qs ! i)) q \<and> confirms_gone I (qs ! i) h \<or>
    lifted_meanwhile I (qu_child (qs ! i)) q h"
  using assms(2)
proof (induction qs rule: rev_induct)
  case Nil
  with assms(1) show ?case by simp
next
  case (snoc c qs)
  let ?h = "retire_confirmed_quarantines I qs g"
  show ?case
  proof (cases "q \<in> set (st_quarantined (gr_router ?h))")
    case True
    have "quarantine_key (qu_child c) (qu_target c) (qu_connection c) q \<and> confirms_gone I c ?h \<or>
        lifted_meanwhile I (qu_child c) q ?h"
      using snoc.prems True unfolding retire_append retire_one lifted_meanwhile_def
      by (auto simp: on_router_def lift_quarantine_def split: if_splits)
    then show ?thesis by (intro exI[of _ "length qs"]) (simp add: asked_at_def Let_def)
  next
    case False
    then obtain i where "i < length qs" "let h = asked_at I qs g i in
        quarantine_key (qu_child (qs ! i)) (qu_target (qs ! i)) (qu_connection (qs ! i)) q \<and> confirms_gone I (qs ! i) h \<or>
        lifted_meanwhile I (qu_child (qs ! i)) q h" using snoc.IH by blast
    then show ?thesis by (intro exI[of _ i]) (simp add: asked_at_def nth_append)
  qed
qed

section \<open>The outcome of an add\<close>

text \<open>No task turns the generation counter back while a child is asked for its roots.\<close>

definition forward_only :: "'w children \<Rightarrow> bool" where
  "forward_only I \<longleftrightarrow>
     (\<forall>c g. st_next_generation (gr_router g) \<le> st_next_generation (gr_router (snd (ch_list_address_roots I c g))))"

lemma next_generation_Some:
  "next_generation st = Some (n, st') \<longleftrightarrow>
     n = st_next_generation st + 1 \<and> n \<noteq> 2 ^ 64 \<and> st' = st\<lparr>st_next_generation := n\<rparr>"
  by (auto simp: next_generation_def Let_def)

lemma claims_keep_generation [simp]:
  "st_next_generation (claim_roots c nodes n st) = st_next_generation st"
  "st_next_generation (discard_claims_at n st) = st_next_generation st"
  "st_next_generation (lift_quarantine c t i st) = st_next_generation st"
  by (simp_all add: claim_roots_def discard_claims_at_def lift_quarantine_def)

lemma verdict_conflict: "cross_child_conflict C st child claimable = Inl e \<Longrightarrow> e = Err_RouteConflict"
  by (auto simp: cross_child_conflict_def Let_def split: option.splits if_splits)

lemma add_verdict_conflict: "add_verdict C I child connection g = (Inl e, g') \<Longrightarrow> e = Err_RouteConflict"
  by (auto simp: add_verdict_def Let_def dest: verdict_conflict split: if_splits prod.splits)

lemma published_claims_forward:
  assumes "forward_only I" "published_claims I child connection g = (a, g')"
  shows "st_next_generation (gr_router g) \<le> st_next_generation (gr_router g')"
proof -
  have "g' = snd (ch_list_address_roots I child g)"
    using assms(2) by (auto simp: published_claims_def bounded_child_call_def split: prod.splits option.splits sum.splits if_splits)
  then show ?thesis using assms(1) by (simp add: forward_only_def)
qed

lemma add_verdict_forward:
  assumes "forward_only I" "add_verdict C I child connection g = (v, g')"
  shows "st_next_generation (gr_router g) \<le> st_next_generation (gr_router g')"
  using assms published_claims_forward[OF assms(1)]
  by (auto simp: add_verdict_def Let_def split: if_splits prod.splits)

lemma rebuild_applied:
  "rebuild C I generation g = (Inr u, g') \<Longrightarrow> generation \<le> st_applied_generation (gr_router g')"
  by (auto simp: rebuild_def Let_def on_router_def publish_def release_claims_through_def
      split: prod.splits sum.splits if_splits)

lemma catch_up_outcome:
  assumes "route_catch_up_at C I generation cancel g = (r, g')"
  shows "case r of Inr _ \<Rightarrow> generation \<le> st_applied_generation (gr_router g') | Inl e \<Rightarrow> e = Err_CommitAmbiguous"
  using assms rebuild_applied[of C I generation "ch_slot I g"]
  by (auto simp: route_catch_up_at_def spawn_route_catch_up_def catch_up_detached_def catch_up_abandoned_def
      split: if_splits option.splits sum.splits prod.splits task_fate.splits)

lemma rebuild_ends:
  assumes "fan_out I (ch_schedule I g) Map.empty g = (Inr answers, g1)"
    and "aggregate (\<lambda>c. ch_owned_targets I c g1) (in_child_order (st_children (gr_router g1)) answers) [] Map.empty =
      Inr (routes, targets)"
  shows "\<exists>g'. rebuild C I generation g = (Inr (), g')"
  using assms by (simp add: rebuild_def Let_def split: prod.split)

text \<open>The last call was the removal of the connection: it was made with the connection in quarantine and
  answered within its deadline, either confirmed, which lifts the quarantine, or committed with its routes
  not confirmed, which keeps it.\<close>

definition removal_committed :: "'w children \<Rightarrow> child \<Rightarrow> string \<Rightarrow> extensions \<Rightarrow> connection \<Rightarrow> 'w graph \<Rightarrow> bool" where
  "removal_committed I child target cx connection g' \<longleftrightarrow>
     (\<exists>h a h'. ch_remove_connection I child \<lparr>key_target = target, key_id = conn_id connection\<rparr> cx h = (a, h') \<and>
        list_ex (quarantine_key child target (conn_id connection)) (st_quarantined (gr_router h)) \<and>
        \<not> ch_elapsed I h h' \<and>
        (a = Inr () \<and> g' = on_router (lift_quarantine child target (conn_id connection)) h' \<or>
         a = Inl Err_CommitAmbiguous \<and> g' = h'))"

lemma roll_back_outcome:
  assumes "roll_back_conflicting_add I child target cx connection conflict g = (e, g')"
  shows "e = conflict \<and> removal_committed I child target cx connection g' \<or> e = Err_CommitAmbiguous"
proof (cases "e = Err_CommitAmbiguous")
  case False
  let ?k = "\<lparr>key_target = target, key_id = conn_id connection\<rparr>"
  let ?h = "on_router (quarantine child target connection (conn_current_addresses connection)) g"
  obtain a h' where call: "ch_remove_connection I child ?k cx ?h = (a, h')" by fastforce
  have held: "list_ex (quarantine_key child target (conn_id connection)) (st_quarantined (gr_router ?h))"
    by (auto simp: quarantine_def quarantine_key_def on_router_def)
  have "e = conflict" "\<not> ch_elapsed I ?h h'"
    "a = Inr () \<and> g' = on_router (lift_quarantine child target (conn_id connection)) h' \<or> a = Inl Err_CommitAmbiguous \<and> g' = h'"
    using assms call False by (auto simp: roll_back_conflicting_add_def spawned_removal_def bounded_child_call_def Let_def
        split: if_splits sum.splits)
  then show ?thesis using call held unfolding removal_committed_def by blast
qed simp

section \<open>Properties\<close>

text \<open>C23. Rebuilds may finish in any order. Whatever else is published before or after it, once the
  rebuild that was requested last has published, the table holds exactly the bindings and the
  targets of its fan-out, the last snapshot broadcast to subscribers is that table, the claims
  left are exactly those stamped above it, and no older rebuild rolls any of it back.\<close>

theorem rebuilds_converge:
  assumes "ps = xs @ (g, routes, targets) # ys"
    and "\<forall>p \<in> set (xs @ ys). fst p < g" "st_applied_generation st < g"
  shows "let st' = publish_all ps st in
    st_applied_generation st' = g \<and> st_targets st' = targets \<and>
    mset (rt_entries (st_routes st')) = mset routes \<and>
    last (st_root_changes st') = Change_Snapshot (route_roots (st_routes st')) \<and>
    st_claimed_roots st' = filter (\<lambda>c. g < cl_generation c) (st_claimed_roots st)"
proof -
  let ?s = "publish_all xs st" and ?p = "publish g routes targets (publish_all xs st)"
  have "st_applied_generation ?s < g" using assms(2,3) by (intro publish_all_below) auto
  note new = publish_newer[OF this, of routes targets]
  have "\<forall>p \<in> set ys. fst p \<le> st_applied_generation ?p"
    unfolding new[THEN conjunct1] using assms(2) by (auto intro: less_imp_le)
  note rest = publish_all_older[OF this]
  have "\<forall>p \<in> set ps. fst p \<le> g" using assms(1,2) by (auto intro: less_imp_le)
  note claims = publish_all_claims[OF this less_imp_le[OF assms(3)]]
  have "\<forall>c \<in> set (st_claimed_roots (publish_all ps st)). g < cl_generation c"
    using new rest unfolding assms(1) publish_all_split by (auto dest!: subsetD)
  then have "filter (\<lambda>c. g < cl_generation c) (st_claimed_roots (publish_all ps st)) = st_claimed_roots (publish_all ps st)"
    by (rule filter_True)
  with claims have released: "st_claimed_roots (publish_all ps st) = filter (\<lambda>c. g < cl_generation c) (st_claimed_roots st)"
    by simp
  have "mset (rt_entries (route_table_build items)) = mset items" for items :: "binding list"
    by (simp add: route_table_build_def Let_def sort_desc_def)
  then show ?thesis
    using new rest released incumbents_first_perm[of "st_routes ?s" routes]
    by (simp add: Let_def assms(1) publish_all_split)
qed

text \<open>A child that serves an address keeps serving it: if the table answers for a node with a child
  and the next rebuild still finds that child publishing the node, the new table answers with
  the same child, whichever other children publish the node by then and wherever they stand.\<close>

theorem incumbent_keeps_route:
  assumes "crate_ok C" "as_str_ok C" "routable_address u" "canonical_table (st_routes st)"
    and "canonical_bindings routes" "st_applied_generation st < g"
    and "lookup_prefix C (st_routes st) u = Some (root, c)" "same_node (ri_root root) u"
    and "(again, c) \<in> set routes" "same_node (ri_root again) u"
  shows "\<exists>root'. lookup_prefix C (st_routes (publish g routes targets st)) u = Some (root', c) \<and>
    same_node (ri_root root') u"
proof -
  let ?items = "incumbents_first (st_routes st) routes"
  have mem: "(again, c) \<in> set ?items" using assms(9) by simp
  have "canonical_bindings ?items" using assms(5) by (simp add: canonical_bindings_def)
  then obtain ys b zs where b: "?items = ys @ b # zs" "lookup_prefix C (route_table_build ?items) u = Some b"
    "same_node (ri_root (fst b)) u" "\<forall>y \<in> set ys. \<not> same_node (ri_root (fst y)) u"
    using lookup_node[OF assms(1-3) _ mem] assms(10) by (metis fst_conv)
  have "snd b = c"
    using incumbent_leads[OF serving_lookup[OF assms(1-4,7,8)] b(1,3,4) assms(9,10)] .
  then show ?thesis using b(2,3) publish_newer[OF assms(6), of routes targets] by (cases b) auto
qed

text \<open>C22. A connection that was refused and could not be removed does not route. A rebuild that publishes
  installs exactly the bindings its children published that no quarantine entry withholds, with the
  quarantine as it stands when the children have answered; one that was overtaken by a newer rebuild leaves
  the table alone. An entry is given up only on positive evidence: it leaves the quarantine during a rebuild
  only when this rebuild's own call, made about an entry that withheld nothing, was answered within its
  deadline by a listing without the refused connection, or when another task lifted it while such a call was
  awaited. Silence of the child, or a failed or late answer, retires nothing.\<close>

theorem refused_never_routed:
  assumes "rebuild C I generation g = (Inr (), g')"
  shows "\<exists>answers g1 routes targets.
    fan_out I (ch_schedule I g) Map.empty g = (Inr answers, g1) \<and>
    (let owned = (\<lambda>c. ch_owned_targets I c g1);
         held = st_quarantined (gr_router g1);
         quiet = snd (withhold_quarantined owned held routes);
         g2 = retire_confirmed_quarantines I quiet g1 in
     aggregate owned (in_child_order (st_children (gr_router g1)) answers) [] Map.empty = Inr (routes, targets) \<and>
     (if st_applied_generation (gr_router g2) < generation
      then set (rt_entries (st_routes (gr_router g'))) = {b \<in> set routes. \<forall>q \<in> set held. \<not> withholds owned q b}
      else st_routes (gr_router g') = st_routes (gr_router g2)) \<and>
     (\<forall>q \<in> set held. q \<in> set (st_quarantined (gr_router g')) \<or>
        (\<exists>i < length quiet. let h = asked_at I quiet g1 i in
           quarantine_key (qu_child (quiet ! i)) (qu_target (quiet ! i)) (qu_connection (quiet ! i)) q \<and>
             confirms_gone I (quiet ! i) h \<or>
           lifted_meanwhile I (qu_child (quiet ! i)) q h)))"
proof -
  obtain answers g1 where f: "fan_out I (ch_schedule I g) Map.empty g = (Inr answers, g1)"
    using assms by (auto simp: rebuild_def split: prod.splits sum.splits)
  let ?owned = "\<lambda>c. ch_owned_targets I c g1" and ?held = "st_quarantined (gr_router g1)"
  obtain routes targets where a:
    "aggregate ?owned (in_child_order (st_children (gr_router g1)) answers) [] Map.empty = Inr (routes, targets)"
    using assms by (auto simp: rebuild_def f Let_def split: sum.splits)
  let ?w = "withhold_quarantined ?owned ?held routes"
  let ?g2 = "retire_confirmed_quarantines I (snd ?w) g1"
  have g': "gr_router g' = publish generation (fst ?w) targets
      (report_cross_child_collisions C (ch_name I) (fst ?w) (gr_router ?g2))"
    using assms by (auto simp: rebuild_def f a Let_def on_router_def split: prod.splits)
  have rep: "st_applied_generation (report_cross_child_collisions C n b st) = st_applied_generation st"
    "st_quarantined (report_cross_child_collisions C n b st) = st_quarantined st"
    "st_routes (report_cross_child_collisions C n b st) = st_routes st" for n b st
    by (simp_all add: report_cross_child_collisions_def Let_def)
  have "st_quarantined (publish gen b t st) = st_quarantined st" for gen b t st
    by (simp add: publish_def release_claims_through_def Let_def)
  then have kept: "st_quarantined (gr_router g') = st_quarantined (gr_router ?g2)" by (simp add: g' rep)
  have "if st_applied_generation (gr_router ?g2) < generation
      then set (rt_entries (st_routes (gr_router g'))) = {b \<in> set routes. \<forall>q \<in> set ?held. \<not> withholds ?owned q b}
      else st_routes (gr_router g') = st_routes (gr_router ?g2)"
    unfolding g' by (simp add: publish_newer publish_older rep withheld_exact release_claims_through_def not_less)
  then show ?thesis
    using f a retired_entry[of _ g1 I "snd ?w", folded kept] by (intro exI[of _ answers] exI[of _ g1] exI[of _ routes] exI[of _ targets]) (simp add: Let_def, blast)
qed

text \<open>C21. What an add reports after its child has committed is what happened. Success means the route
  table was published by a rebuild requested after the commit, so it reflects the connection. A
  route conflict means the child has taken the connection back, in answer to a removal made in quarantine and
  within its deadline. Every other outcome, a reconcile
  that failed, timed out, was cancelled or panicked, or a removal that was not confirmed, is
  reported as an ambiguous commit, which is not retryable.\<close>

theorem add_reports_the_truth:
  assumes "forward_only I" "add_committed C I child target cx connection cancel g = Some (r, g')"
  shows "(case r of
      Inr row \<Rightarrow> st_next_generation (gr_router g) < st_applied_generation (gr_router g')
    | Inl e \<Rightarrow> e = Err_RouteConflict \<and>
          removal_committed I child target cx connection g' \<or>
        e = Err_CommitAmbiguous) \<and> \<not> is_retryable Err_CommitAmbiguous"
proof -
  let ?st = "lift_quarantine child target (conn_id connection) (gr_router g)"
  obtain p st where p: "next_generation ?st = Some (p, st)"
    using assms(2) by (auto simp: add_committed_def split: option.splits)
  let ?g = "g\<lparr>gr_router := claim_roots child (conn_current_addresses connection) p st\<rparr>"
  obtain v g1 where v: "add_verdict C I child connection ?g = (v, g1)" by fastforce
  have fwd: "st_next_generation (gr_router g) < st_next_generation (gr_router g1)"
    using add_verdict_forward[OF assms(1) v] p by (simp add: next_generation_Some)
  have "case r of
      Inr row \<Rightarrow> st_next_generation (gr_router g) < st_applied_generation (gr_router g')
    | Inl e \<Rightarrow> e = Err_RouteConflict \<and>
          removal_committed I child target cx connection g' \<or>
        e = Err_CommitAmbiguous"
  proof (cases v)
    case (Inl conflict)
    obtain e g2 where e: "roll_back_conflicting_add I child target cx connection conflict
        (on_router (discard_claims_at p) g1) = (e, g2)" by fastforce
    then show ?thesis
      using assms(2) roll_back_outcome[OF e] add_verdict_conflict v p Inl
      by (auto simp: add_committed_def)
  next
    case (Inr claimed)
    obtain n st1 where n: "next_generation (gr_router g1) = Some (n, st1)"
      using assms(2) p v Inr by (auto simp: add_committed_def split: option.splits)
    obtain c g3 where c: "route_catch_up_at C I n cancel
        (g1\<lparr>gr_router := discard_claims_at p (claim_roots child claimed n st1)\<rparr>) = (c, g3)" by fastforce
    then show ?thesis
      using assms(2) catch_up_outcome[OF c] fwd p v Inr n
      by (auto simp: add_committed_def Let_def next_generation_Some split: sum.splits)
  qed
  moreover have "\<not> is_retryable Err_CommitAmbiguous" by code_simp
  ultimately show ?thesis by blast
qed

section \<open>Witnesses\<close>

lemma sample_address: "routable_address (ri_root (sample_root ''/''))" "canonical_url (ri_root (sample_root ''/''))"
proof -
  have "canonical_of (base_url ''s3'' (Some ''b'') ''/'') = base_url ''s3'' (Some ''b'') ''/''" by code_simp
  then have "canonical_url (base_url ''s3'' (Some ''b'') ''/'')"
    by (simp add: canonical_url_def url_wf_def) (simp add: base_url_def)
  then show "routable_address (ri_root (sample_root ''/''))" "canonical_url (ri_root (sample_root ''/''))"
    by (simp_all add: routable_address_def sample_root_def) (simp add: base_url_def)
qed

definition claiming_state :: router_state where
  "claiming_state = (router_state_new 2)\<lparr>st_claimed_roots :=
     [\<lparr>cl_node = ri_root (sample_root ''/''), cl_child = 0, cl_generation = 2\<rparr>,
      \<lparr>cl_node = ri_root (sample_root ''/''), cl_child = 1, cl_generation = 3\<rparr>]\<rparr>"

theorem rebuilds_converge_witness:
  "st_applied_generation (publish_all [(2, [(sample_root ''/'', 1)], Map.empty), (1, [], Map.empty)] claiming_state) = 2 \<and>
   mset (rt_entries (st_routes
     (publish_all [(2, [(sample_root ''/'', 1)], Map.empty), (1, [], Map.empty)] claiming_state))) =
     {#(sample_root ''/'', 1)#} \<and>
   map cl_generation (st_claimed_roots
     (publish_all [(2, [(sample_root ''/'', 1)], Map.empty), (1, [], Map.empty)] claiming_state)) = [3]"
proof -
  have "let st' = publish_all [(2, [(sample_root ''/'', 1)], Map.empty), (1, [], Map.empty)] claiming_state in
      st_applied_generation st' = 2 \<and> st_targets st' = Map.empty \<and>
      mset (rt_entries (st_routes st')) = mset [(sample_root ''/'', 1)] \<and>
      last (st_root_changes st') = Change_Snapshot (route_roots (st_routes st')) \<and>
      st_claimed_roots st' = filter (\<lambda>c. 2 < cl_generation c) (st_claimed_roots claiming_state)"
    by (rule rebuilds_converge[where xs = "[]" and ys = "[(1, [], Map.empty)]"])
      (simp_all add: claiming_state_def router_state_new_def)
  then show ?thesis by (simp add: Let_def claiming_state_def)
qed

definition sample_serving :: router_state where
  "sample_serving = publish 1 [(sample_root ''/'', 1)] Map.empty (router_state_new 2)"

theorem incumbent_keeps_route_witness:
  "\<exists>root. lookup_prefix ref_crate
     (st_routes (publish 2 [(sample_root ''/'', 0), (sample_root ''/'', 1)] Map.empty sample_serving))
     (ri_root (sample_root ''/'')) = Some (root, 1)"
proof -
  have t: "canonical_table (st_routes sample_serving)" "st_applied_generation sample_serving < 2"
    using sample_address(2)
    by (simp_all add: sample_serving_def router_state_new_def publish_newer canonical_table_def
        canonical_bindings_def route_table_empty_def)
  have rel: "relative_suffix ref_crate (ri_root (sample_root ''/'')) (ri_root (sample_root ''/'')) \<noteq> None" by code_simp
  have l: "lookup_prefix ref_crate (st_routes sample_serving) (ri_root (sample_root ''/'')) = Some (sample_root ''/'', 1)"
    using rel by (simp add: sample_serving_def router_state_new_def publish_def release_claims_through_def Let_def
        route_table_empty_def incumbents_first_def lookup_prefix_def route_table_build_def sort_desc_def entry_url_def)
  have r: "canonical_bindings [(sample_root ''/'', 0), (sample_root ''/'', 1)]"
    using sample_address(2) by (simp add: canonical_bindings_def)
  have "as_str_ok ref_crate" by (simp add: as_str_ok_def ref_crate_def)
  from incumbent_keeps_route[OF _ this sample_address(1) t(1) r t(2) l, of "sample_root ''/''" Map.empty]
  show ?thesis by (auto simp: same_node_def)
qed

text \<open>Children that answer at once and do nothing else.\<close>

definition sample_children :: "(child \<Rightarrow> root_info list) \<Rightarrow> (child \<Rightarrow> connection list) \<Rightarrow> unit children" where
  "sample_children roots conns =
     \<lparr>ch_name = (\<lambda>_. ''s3''), ch_owned_targets = (\<lambda>c g. [if c = 0 then ''t'' else ''u'']), ch_list_kinds = (\<lambda>c g. Inr []),
      ch_list_address_roots = (\<lambda>c g. (Inr (roots c), g)), ch_list_connections = (\<lambda>c g. (Inr (conns c), g)),
      ch_probe = (\<lambda>c r g. (Inl Err_NotFound, g)), ch_add_connection = (\<lambda>c r g. (Inl Err_NotFound, g)),
      ch_remove_connection = (\<lambda>c k x g. (Inr (), g)), ch_update_credentials = (\<lambda>c r g. (Inl Err_NotFound, g)),
      ch_update_attributes = (\<lambda>c r g. (Inl Err_NotFound, g)), ch_authenticate = (\<lambda>c r g. (Inl Err_NotFound, g)),
      ch_schedule = (\<lambda>g. [1, 0]), ch_elapsed = (\<lambda>g g'. False), ch_gate = (\<lambda>g. (True, g)), ch_slot = (\<lambda>g. g),
      ch_fate = (\<lambda>g. Fate_Runs), ch_caller_left = (\<lambda>g. False), ch_gone = (\<lambda>g. False)\<rparr>"

definition sample_connection :: connection where
  "sample_connection =
     \<lparr>conn_id = ''x'', conn_backend_kind = ''s3'', conn_display_name = ''x'', conn_source = Conn_Runtime False,
      conn_capabilities = capabilities_empty, conn_current_addresses = [ri_root (sample_root ''/'')],
      conn_auth_state = Auth_Anonymous, conn_last_probed = None, conn_user_metadata = Map.empty,
      conn_owning_target = None\<rparr>"

definition refused_root :: root_info where
  "refused_root = (sample_root ''/'')\<lparr>ri_connection_id := Some ''x''\<rparr>"

definition refused_graph :: "unit graph" where
  "refused_graph = \<lparr>gr_router = quarantine 0 ''t'' sample_connection [ri_root refused_root] (router_state_new 2), gr_world = ()\<rparr>"

theorem refused_never_routed_witness:
  "rt_entries (st_routes (gr_router (snd (rebuild ref_crate
     (sample_children (\<lambda>c. if c = 0 then [refused_root] else []) (\<lambda>c. [sample_connection])) 1 refused_graph)))) = []"
proof -
  let ?I = "sample_children (\<lambda>c. if c = 0 then [refused_root] else []) (\<lambda>c. [sample_connection])"
  let ?ow = "\<lambda>c :: child. [if c = 0 then ''t'' else ''u'']"
  have ow: "(\<lambda>c. ch_owned_targets ?I c h) = ?ow" for h by (simp add: sample_children_def)
  have f: "fan_out ?I (ch_schedule ?I refused_graph) Map.empty refused_graph =
      (Inr (Map.empty(1 \<mapsto> [], 0 \<mapsto> [refused_root])), refused_graph)"
    by (simp add: sample_children_def)
  have a: "aggregate ?ow (in_child_order 2 (Map.empty(1 \<mapsto> [], 0 \<mapsto> [refused_root]))) [] Map.empty =
      Inr ([(refused_root, 0)], Map.empty(''t'' \<mapsto> 0, ''u'' \<mapsto> 1))"
    by (simp add: in_child_order_def upt_rec)
  obtain g' where r: "rebuild ref_crate ?I 1 refused_graph = (Inr (), g')"
    using rebuild_ends[OF f, of "[(refused_root, 0)]" "Map.empty(''t'' \<mapsto> 0, ''u'' \<mapsto> 1)" ref_crate 1] a
    by (auto simp only: ow) (auto simp: refused_graph_def router_state_new_def quarantine_def)
  let ?q = "\<lparr>qu_child = 0, qu_target = ''t'', qu_connection = ''x'', qu_nodes = [ri_root refused_root]\<rparr>"
  have st: "st_applied_generation (gr_router refused_graph) = 0" "st_children (gr_router refused_graph) = 2"
    "st_quarantined (gr_router refused_graph) = [?q]"
    by (simp_all add: refused_graph_def router_state_new_def quarantine_def sample_connection_def)
  have w: "withholds ?ow ?q (refused_root, 0)" by (simp add: withholds_def refused_root_def sample_root_def)
  then have quiet: "snd (withhold_quarantined ?ow [?q] [(refused_root, 0)]) = []"
    by (simp add: withhold_quarantined_def List.map_filter_def)
  from refused_never_routed[OF r, unfolded Let_def] obtain answers g1 routes targets
    where f': "fan_out ?I (ch_schedule ?I refused_graph) Map.empty refused_graph = (Inr answers, g1)"
      and a': "aggregate (\<lambda>c. ch_owned_targets ?I c g1) (in_child_order (st_children (gr_router g1)) answers) [] Map.empty =
         Inr (routes, targets)"
      and n: "if st_applied_generation (gr_router (retire_confirmed_quarantines ?I
           (snd (withhold_quarantined (\<lambda>c. ch_owned_targets ?I c g1) (st_quarantined (gr_router g1)) routes)) g1)) < 1
        then set (rt_entries (st_routes (gr_router g'))) =
          {b \<in> set routes. \<forall>q \<in> set (st_quarantined (gr_router g1)). \<not> withholds (\<lambda>c. ch_owned_targets ?I c g1) q b}
        else st_routes (gr_router g') = st_routes (gr_router (retire_confirmed_quarantines ?I
           (snd (withhold_quarantined (\<lambda>c. ch_owned_targets ?I c g1) (st_quarantined (gr_router g1)) routes)) g1))"
    by (elim exE conjE) (rule that)
  have e: "answers = Map.empty(1 \<mapsto> [], 0 \<mapsto> [refused_root])" "g1 = refused_graph"
    using f' f by (metis Pair_inject sum.inject(2))+
  have routes: "routes = [(refused_root, 0)]" using a' a unfolding e ow st by simp
  have "set (rt_entries (st_routes (gr_router g'))) = {}"
    using n w unfolding e ow st(2,3) routes quiet by (simp add: st)
  then show ?thesis using r by simp
qed

definition free_graph :: "unit graph" where
  "free_graph = \<lparr>gr_router = router_state_new 2, gr_world = ()\<rparr>"

theorem add_reports_the_truth_witness:
  "case add_committed ref_crate (sample_children (\<lambda>c. if c = 0 then [refused_root] else []) (\<lambda>c. [sample_connection]))
          0 ''t'' Map.empty sample_connection None free_graph of
     Some (Inr row, g') \<Rightarrow> 0 < st_applied_generation (gr_router g')
   | _ \<Rightarrow> False"
proof -
  let ?I = "sample_children (\<lambda>c. if c = 0 then [refused_root] else []) (\<lambda>c. [sample_connection])"
  let ?r = "add_committed ref_crate ?I 0 ''t'' Map.empty sample_connection None free_graph"
  let ?g = "free_graph\<lparr>gr_router := (router_state_new 2)\<lparr>st_next_generation := 2, st_claimed_roots :=
      [\<lparr>cl_node = ri_root (sample_root ''/''), cl_child = 0, cl_generation = 2\<rparr>]\<rparr>\<rparr>"
  have "fan_out ?I (ch_schedule ?I ?g) Map.empty ?g = (Inr (Map.empty(1 \<mapsto> [], 0 \<mapsto> [refused_root])), ?g)"
    by (simp add: sample_children_def)
  from rebuild_ends[OF this, of "[(refused_root, 0)]" "Map.empty(''t'' \<mapsto> 0, ''u'' \<mapsto> 1)"]
  obtain g' where "rebuild ref_crate ?I 2 ?g = (Inr (), g')"
    by (auto simp: free_graph_def router_state_new_def sample_children_def in_child_order_def upt_rec)
  then have "route_catch_up_at ref_crate ?I 2 None ?g = (Inr (), g')"
    by (simp add: route_catch_up_at_def spawn_route_catch_up_def sample_children_def)
  then have "\<exists>row. ?r = Some (Inr row, g')"
    by (simp add: add_committed_def next_generation_def Let_def free_graph_def router_state_new_def
        lift_quarantine_def claim_roots_def sample_connection_def add_verdict_def cross_child_conflict_def
        taken_def lookup_prefix_def route_table_empty_def discard_claims_at_def del: One_nat_def)
  then obtain row where r: "?r = Some (Inr row, g')" by blast
  have "forward_only ?I" by (simp add: forward_only_def sample_children_def)
  from add_reports_the_truth[OF this r] show ?thesis by (simp add: r)
qed

end
