(* ===== verification/Ov_Exclusive.thy ===== *)
theory Ov_Exclusive
  imports Ov_Router_Laws
begin

text \<open>
  Prefix exclusivity across the children of a router, with every interleaving: connections are
  added one at a time (the add gate), while removals, rebuilds of the route table, their failures
  and their reorderings happen at any moment. A step is one atomic piece of \<open>add_connection\<close>,
  \<open>remove_connection\<close>, \<open>roll_back_conflicting_add\<close>, \<open>reserve_after_ambiguous_commit\<close> or \<open>rebuild\<close>
  between two awaits, and uses the functions of the router for what that piece does.

  The children are concrete here: a child publishes the roots of the connections registered with
  it, each attributed to its connection and target.
\<close>

section \<open>The system\<close>

record registration =
  reg_target :: string
  reg_connection :: connection
  reg_roots :: "root_info list"

abbreviation reg_id :: "registration \<Rightarrow> string" where
  "reg_id R \<equiv> conn_id (reg_connection R)"

abbreviation listed :: "registration \<Rightarrow> url list" where
  "listed R \<equiv> conn_current_addresses (reg_connection R)"

definition same_key :: "registration \<Rightarrow> registration \<Rightarrow> bool" where
  "same_key R S \<longleftrightarrow> reg_target R = reg_target S \<and> reg_id R = reg_id S"

definition well_attributed :: "registration \<Rightarrow> bool" where
  "well_attributed R \<longleftrightarrow>
     list_all routable_address (listed R) \<and>
     list_all (\<lambda>r. routable_address (ri_root r) \<and> ri_connection_id r = Some (reg_id R) \<and>
                   ri_owning_target r = Some (reg_target R)) (reg_roots R)"

text \<open>A rebuild in flight: its generation, the answers it has, and the bindings it will publish
  once the quarantine was applied.\<close>

record in_flight =
  fl_generation :: nat
  fl_answers :: "(child \<times> root_info list) list"
  fl_kept :: "binding list option"

text \<open>Where the add that holds the gate stands. The generation is that of its provisional claim.\<close>

datatype add_phase =
    Idle
  | Committed child registration
  | Deciding child registration nat
  | Contested child registration nat
  | Rolling child registration
  | Reserving child nat

record accepted =
  acc_child :: child
  acc_reg :: registration
  acc_root :: root_info
  acc_generation :: nat

record exclusive =
  ex_router :: router_state
  ex_registered :: "(child \<times> registration) list"
  ex_add :: add_phase
  ex_flight :: "in_flight list"
  ex_accepted :: "accepted list"

definition published :: "(child \<times> registration) list \<Rightarrow> child \<Rightarrow> root_info list" where
  "published regs c = concat (map (\<lambda>(d, R). if d = c then reg_roots R else []) regs)"

definition unregister :: "child \<Rightarrow> registration \<Rightarrow> (child \<times> registration) list \<Rightarrow> (child \<times> registration) list" where
  "unregister c R regs = filter (\<lambda>(d, S). \<not> (d = c \<and> same_key R S)) regs"

definition free_key :: "child \<Rightarrow> registration \<Rightarrow> (child \<times> registration) list \<Rightarrow> bool" where
  "free_key c R regs \<longleftrightarrow> list_all (\<lambda>(d, S). d \<noteq> c \<or> \<not> same_key R S) regs"

definition fresh_flight :: "nat \<Rightarrow> in_flight" where
  "fresh_flight n = \<lparr>fl_generation = n, fl_answers = [], fl_kept = None\<rparr>"

text \<open>The addresses a contested add may claim: those for which the child publishes a root of this
  connection, or all it lists when the child could not be asked.\<close>

definition claimable :: "bool \<Rightarrow> (child \<times> registration) list \<Rightarrow> child \<Rightarrow> registration \<Rightarrow> url list" where
  "claimable asked regs c R =
     (if asked then
        filter (\<lambda>a. list_ex (\<lambda>r. same_node (ri_root r) a \<and>
                              (case ri_connection_id r of None \<Rightarrow> True | Some i \<Rightarrow> i = reg_id R)) (published regs c))
          (listed R)
      else listed R)"

text \<open>The end of a successful decision: the kept addresses are claimed under a new generation, the
  provisional claim is dropped, and the catch-up of that generation is on its way.\<close>

definition accept :: "child \<Rightarrow> registration \<Rightarrow> nat \<Rightarrow> url list \<Rightarrow> nat \<Rightarrow> router_state \<Rightarrow> exclusive \<Rightarrow> exclusive" where
  "accept c R p kept n st s =
     s\<lparr>ex_router := discard_claims_at p (claim_roots c kept n st),
       ex_add := Idle,
       ex_flight := fresh_flight n # ex_flight s,
       ex_accepted :=
         (if free_key c R (ex_registered s) then []
          else map (\<lambda>r. \<lparr>acc_child = c, acc_reg = R, acc_root = r, acc_generation = n\<rparr>)
                 (filter (\<lambda>r. list_ex (\<lambda>a. same_node a (ri_root r)) kept) (reg_roots R)))
         @ ex_accepted s\<rparr>"

definition bindings_of :: "nat \<Rightarrow> (child \<times> root_info list) list \<Rightarrow> binding list" where
  "bindings_of n answers =
     concat (map (\<lambda>c. map (\<lambda>r. (r, c)) (case map_of answers c of Some rs \<Rightarrow> rs | None \<Rightarrow> [])) [0..<n])"

text \<open>\<open>fine\<close> is a condition on the bindings that are published; the system itself has none.\<close>

inductive ex_step ::
    "url_crate \<Rightarrow> (child \<Rightarrow> string) \<Rightarrow> (child \<Rightarrow> string list) \<Rightarrow> (binding list \<Rightarrow> bool) \<Rightarrow> exclusive \<Rightarrow> exclusive \<Rightarrow> bool"
  for C name owned fine where
  Commit: "ex_add s = Idle \<Longrightarrow> c < st_children (ex_router s) \<Longrightarrow> well_attributed R \<Longrightarrow>
    free_key c R (ex_registered s) \<Longrightarrow>
    ex_step C name owned fine s
      (s\<lparr>ex_registered := (c, R) # ex_registered s, ex_add := Committed c R\<rparr>)"
| Claim: "ex_add s = Committed c R \<Longrightarrow>
    next_generation (lift_quarantine c (reg_target R) (reg_id R) (ex_router s)) = Some (p, st) \<Longrightarrow>
    ex_step C name owned fine s (s\<lparr>ex_router := claim_roots c (listed R) p st, ex_add := Deciding c R p\<rparr>)"
| Clear: "ex_add s = Deciding c R p \<Longrightarrow> cross_child_conflict C (ex_router s) c (listed R) = Inr kept \<Longrightarrow>
    length kept = length (listed R) \<Longrightarrow> next_generation (ex_router s) = Some (n, st) \<Longrightarrow>
    ex_step C name owned fine s (accept c R p kept n st s)"
| Contest: "ex_add s = Deciding c R p \<Longrightarrow>
    (case cross_child_conflict C (ex_router s) c (listed R) of
       Inl e \<Rightarrow> True | Inr kept \<Rightarrow> length kept \<noteq> length (listed R)) \<Longrightarrow>
    ex_step C name owned fine s (s\<lparr>ex_add := Contested c R p\<rparr>)"
| Keep: "ex_add s = Contested c R p \<Longrightarrow>
    cross_child_conflict C (ex_router s) c (claimable asked (ex_registered s) c R) = Inr kept \<Longrightarrow>
    next_generation (ex_router s) = Some (n, st) \<Longrightarrow>
    ex_step C name owned fine s (accept c R p kept n st s)"
| Refuse: "ex_add s = Contested c R p \<Longrightarrow>
    cross_child_conflict C (ex_router s) c (claimable asked (ex_registered s) c R) = Inl e \<Longrightarrow>
    ex_step C name owned fine s
      (s\<lparr>ex_router := quarantine c (reg_target R) (reg_connection R) (listed R)
                        (discard_claims_at p (ex_router s)),
         ex_add := Rolling c R\<rparr>)"
| Roll_Removed: "ex_add s = Rolling c R \<Longrightarrow>
    ex_step C name owned fine s
      (s\<lparr>ex_registered := unregister c R (ex_registered s),
         ex_accepted := filter (\<lambda>a. \<not> (acc_child a = c \<and> same_key R (acc_reg a))) (ex_accepted s),
         ex_add := Idle\<rparr>)"
| Roll_Failed: "ex_add s = Rolling c R \<Longrightarrow> ex_step C name owned fine s (s\<lparr>ex_add := Idle\<rparr>)"
| Ambiguous: "ex_add s = Idle \<Longrightarrow> c < st_children (ex_router s) \<Longrightarrow> well_attributed R \<Longrightarrow>
    free_key c R (ex_registered s) \<Longrightarrow> next_generation (ex_router s) = Some (n, st) \<Longrightarrow>
    ex_step C name owned fine s
      (s\<lparr>ex_registered := (c, R) # ex_registered s, ex_router := st, ex_add := Reserving c n\<rparr>)"
| Reserve: "ex_add s = Reserving c n \<Longrightarrow>
    ex_step C name owned fine s
      (s\<lparr>ex_router := claim_roots c (map ri_root (published (ex_registered s) c)) n (ex_router s),
         ex_add := Idle\<rparr>)"
| Reserve_Failed: "ex_add s = Reserving c n \<Longrightarrow> ex_step C name owned fine s (s\<lparr>ex_add := Idle\<rparr>)"
| Remove: "(c, R) \<in> set (ex_registered s) \<Longrightarrow>
    ex_step C name owned fine s
      (s\<lparr>ex_registered := unregister c R (ex_registered s),
         ex_accepted := filter (\<lambda>a. \<not> (acc_child a = c \<and> same_key R (acc_reg a))) (ex_accepted s)\<rparr>)"
| Lift: "free_key c R (ex_registered s) \<Longrightarrow>
    ex_step C name owned fine s
      (s\<lparr>ex_router := lift_quarantine c (reg_target R) (reg_id R) (ex_router s)\<rparr>)"
| Request: "next_generation (ex_router s) = Some (n, st) \<Longrightarrow>
    ex_step C name owned fine s (s\<lparr>ex_router := st, ex_flight := fresh_flight n # ex_flight s\<rparr>)"
| Query: "ex_flight s = xs @ f # ys \<Longrightarrow> fl_kept f = None \<Longrightarrow> map_of (fl_answers f) c = None \<Longrightarrow>
    ex_step C name owned fine s
      (s\<lparr>ex_flight := xs @ f\<lparr>fl_answers := (c, published (ex_registered s) c) # fl_answers f\<rparr> # ys\<rparr>)"
| Withhold: "ex_flight s = xs @ f # ys \<Longrightarrow> fl_kept f = None \<Longrightarrow>
    (\<forall>c < st_children (ex_router s). map_of (fl_answers f) c \<noteq> None) \<Longrightarrow>
    ex_step C name owned fine s
      (s\<lparr>ex_flight := xs @ f\<lparr>fl_kept := Some (fst (withhold_quarantined owned (st_quarantined (ex_router s))
                                  (bindings_of (st_children (ex_router s)) (fl_answers f))))\<rparr> # ys\<rparr>)"
| Publish: "ex_flight s = xs @ f # ys \<Longrightarrow> fl_kept f = Some bs \<Longrightarrow> fine bs \<Longrightarrow>
    ex_step C name owned fine s
      (s\<lparr>ex_flight := xs @ ys,
         ex_router := publish (fl_generation f) bs targets (report_cross_child_collisions C name bs (ex_router s))\<rparr>)"
| Abandon: "ex_flight s = xs @ f # ys \<Longrightarrow> ex_step C name owned fine s (s\<lparr>ex_flight := xs @ ys\<rparr>)"

definition ex_init :: "nat \<Rightarrow> exclusive" where
  "ex_init n = \<lparr>ex_router = router_state_new n, ex_registered = [], ex_add = Idle, ex_flight = [], ex_accepted = []\<rparr>"

inductive ex_reachable ::
    "url_crate \<Rightarrow> (child \<Rightarrow> string) \<Rightarrow> (child \<Rightarrow> string list) \<Rightarrow> (binding list \<Rightarrow> bool) \<Rightarrow> nat \<Rightarrow> exclusive \<Rightarrow> bool"
  for C name owned fine n where
  Init: "ex_reachable C name owned fine n (ex_init n)"
| Step: "ex_reachable C name owned fine n s \<Longrightarrow> ex_step C name owned fine s s' \<Longrightarrow>
    ex_reachable C name owned fine n s'"

section \<open>What each operation leaves alone\<close>

lemma claim_roots_frame [simp]:
  "st_children (claim_roots c nodes n st) = st_children st"
  "st_routes (claim_roots c nodes n st) = st_routes st"
  "st_applied_generation (claim_roots c nodes n st) = st_applied_generation st"
  "st_quarantined (claim_roots c nodes n st) = st_quarantined st"
  "set (st_claimed_roots (claim_roots c nodes n st)) = set (st_claimed_roots st) \<union>
     (if n \<le> st_applied_generation st then {}
      else (\<lambda>node. \<lparr>cl_node = node, cl_child = c, cl_generation = n\<rparr>) ` set nodes)"
  by (auto simp: claim_roots_def)

lemma discard_claims_frame [simp]:
  "st_children (discard_claims_at p st) = st_children st"
  "st_routes (discard_claims_at p st) = st_routes st"
  "st_applied_generation (discard_claims_at p st) = st_applied_generation st"
  "st_quarantined (discard_claims_at p st) = st_quarantined st"
  "st_claimed_roots (discard_claims_at p st) = filter (\<lambda>cl. cl_generation cl \<noteq> p) (st_claimed_roots st)"
  by (simp_all add: discard_claims_at_def)

lemma lift_quarantine_frame [simp]:
  "st_children (lift_quarantine c t i st) = st_children st"
  "st_routes (lift_quarantine c t i st) = st_routes st"
  "st_applied_generation (lift_quarantine c t i st) = st_applied_generation st"
  "st_claimed_roots (lift_quarantine c t i st) = st_claimed_roots st"
  "st_quarantined (lift_quarantine c t i st) = filter (\<lambda>q. \<not> quarantine_key c t i q) (st_quarantined st)"
  by (simp_all add: lift_quarantine_def)

lemma quarantine_frame [simp]:
  "st_children (quarantine c t k nodes st) = st_children st"
  "st_routes (quarantine c t k nodes st) = st_routes st"
  "st_applied_generation (quarantine c t k nodes st) = st_applied_generation st"
  "st_next_generation (quarantine c t k nodes st) = st_next_generation st"
  "st_claimed_roots (quarantine c t k nodes st) = st_claimed_roots st"
  by (simp_all add: quarantine_def)


lemma report_frame [simp]:
  "st_children (report_cross_child_collisions C name bs st) = st_children st"
  "st_routes (report_cross_child_collisions C name bs st) = st_routes st"
  "st_applied_generation (report_cross_child_collisions C name bs st) = st_applied_generation st"
  "st_next_generation (report_cross_child_collisions C name bs st) = st_next_generation st"
  "st_quarantined (report_cross_child_collisions C name bs st) = st_quarantined st"
  "st_claimed_roots (report_cross_child_collisions C name bs st) = st_claimed_roots st"
  by (simp_all add: report_cross_child_collisions_def Let_def)

lemma publish_frame [simp]:
  "st_children (publish g bs t st) = st_children st"
  "st_next_generation (publish g bs t st) = st_next_generation st"
  "st_quarantined (publish g bs t st) = st_quarantined st"
  "st_applied_generation (publish g bs t st) = max g (st_applied_generation st)"
  "st_routes (publish g bs t st) =
     (if g \<le> st_applied_generation st then st_routes st
      else route_table_build (incumbents_first (st_routes st) bs))"
  "st_claimed_roots (publish g bs t st) =
     filter (\<lambda>cl. max g (st_applied_generation st) < cl_generation cl) (st_claimed_roots st)"
  by (auto simp: publish_def release_claims_through_def Let_def max_def)

section \<open>Collisions\<close>








section \<open>Invariants\<close>








lemma same_key_refl [simp]: "same_key R R"
  by (simp add: same_key_def)




lemma accept_frame [simp]:
  "ex_registered (accept c R p kept n st s) = ex_registered s"
  "ex_add (accept c R p kept n st s) = Idle"
  "ex_flight (accept c R p kept n st s) = fresh_flight n # ex_flight s"
  "ex_router (accept c R p kept n st s) = discard_claims_at p (claim_roots c kept n st)"
  by (simp_all add: accept_def)

lemma fresh_flight_simps [simp]:
  "fl_generation (fresh_flight n) = n" "fl_answers (fresh_flight n) = []" "fl_kept (fresh_flight n) = None"
  by (simp_all add: fresh_flight_def)



























section \<open>Properties\<close>


section \<open>A concrete run\<close>

definition run_root :: "string \<Rightarrow> string \<Rightarrow> root_info" where
  "run_root cid p = (sample_root p)\<lparr>ri_connection_id := Some cid, ri_owning_target := Some ''t''\<rparr>"

definition run_reg :: "string \<Rightarrow> string \<Rightarrow> registration" where
  "run_reg cid p =
     \<lparr>reg_target = ''t'',
      reg_connection =
        \<lparr>conn_id = cid, conn_backend_kind = ''s3'', conn_display_name = cid, conn_source = Conn_Runtime False,
         conn_capabilities = capabilities_empty, conn_current_addresses = [ri_root (run_root cid p)],
         conn_auth_state = Auth_Anonymous, conn_last_probed = None, conn_user_metadata = Map.empty,
         conn_owning_target = Some ''t''\<rparr>,
      reg_roots = [run_root cid p]\<rparr>"

text \<open>One connection is added on child 1.\<close>

definition run1 :: exclusive where
  "run1 = (ex_init 2)\<lparr>ex_registered := [(1, run_reg ''b'' ''/'')], ex_add := Committed 1 (run_reg ''b'' ''/'')\<rparr>"

definition stamp_next :: "router_state \<Rightarrow> router_state" where
  "stamp_next st = st\<lparr>st_next_generation := st_next_generation st + 1\<rparr>"

definition run2 :: exclusive where
  "run2 = run1\<lparr>ex_router := claim_roots 1 (listed (run_reg ''b'' ''/'')) 1
                 (stamp_next (lift_quarantine 1 ''t'' ''b'' (ex_router run1))),
               ex_add := Deciding 1 (run_reg ''b'' ''/'') 1\<rparr>"

definition run3 :: exclusive where
  "run3 = accept 1 (run_reg ''b'' ''/'') 1 (listed (run_reg ''b'' ''/'')) 2 (stamp_next (ex_router run2)) run2"

lemma stamp_next_generation:
  "st_next_generation st + 1 \<noteq> 2 ^ 64 \<Longrightarrow> next_generation st = Some (st_next_generation st + 1, stamp_next st)"
  by (simp add: next_generation_def stamp_next_def Let_def)

lemma run_attributed: "well_attributed (run_reg cid ''/'')"
proof -
  have "canonical_of (base_url ''s3'' (Some ''b'') ''/'') = base_url ''s3'' (Some ''b'') ''/''" by code_simp
  then have "routable_address (base_url ''s3'' (Some ''b'') ''/'')"
    by (simp add: routable_address_def canonical_url_def url_wf_def) (simp add: base_url_def)
  then show ?thesis
    by (simp add: well_attributed_def run_reg_def run_root_def sample_root_def)
qed

lemma run3_reachable: "ex_reachable ref_crate nm ow fine 2 run3"
proof -
  have "ex_step ref_crate nm ow fine (ex_init 2) run1"
    unfolding run1_def
    using ex_step.Commit[of "ex_init 2" 1 "run_reg ''b'' ''/''"] run_attributed
    by (simp add: ex_init_def router_state_new_def free_key_def)
  moreover have "ex_step ref_crate nm ow fine run1 run2"
    unfolding run2_def
    by (rule ex_step.Claim)
      (simp_all add: run1_def ex_init_def router_state_new_def run_reg_def next_generation_def stamp_next_def
        lift_quarantine_def)
  moreover have "ex_step ref_crate nm ow fine run2 run3"
    unfolding run3_def
  proof (rule ex_step.Clear)
    show "ex_add run2 = Deciding 1 (run_reg ''b'' ''/'') 1" by (simp add: run2_def)
    show "cross_child_conflict ref_crate (ex_router run2) 1 (listed (run_reg ''b'' ''/'')) =
        Inr (listed (run_reg ''b'' ''/''))" by code_simp
    show "next_generation (ex_router run2) = Some (2, stamp_next (ex_router run2))"
      by (simp add: run2_def run1_def ex_init_def router_state_new_def next_generation_def stamp_next_def
          lift_quarantine_def claim_roots_def)
  qed simp
  ultimately show ?thesis using ex_reachable.Init ex_reachable.Step by metis
qed


text \<open>The catch-up of that add is still on its way when child 0 commits a connection for the same node.\<close>

definition run4 :: exclusive where
  "run4 = run3\<lparr>ex_registered := (0, run_reg ''a'' ''/'') # ex_registered run3, ex_add := Committed 0 (run_reg ''a'' ''/'')\<rparr>"

definition run_flight :: in_flight where
  "run_flight = \<lparr>fl_generation = 2,
     fl_answers = [(1, [run_root ''b'' ''/'']), (0, [run_root ''a'' ''/''])],
     fl_kept = Some [(run_root ''a'' ''/'', 0), (run_root ''b'' ''/'', 1)]\<rparr>"

definition run5 :: exclusive where
  "run5 = run4\<lparr>ex_flight := [run_flight]\<rparr>"

definition run6 :: exclusive where
  "run6 = run5\<lparr>ex_flight := [],
     ex_router := publish 2 [(run_root ''a'' ''/'', 0), (run_root ''b'' ''/'', 1)] Map.empty
       (report_cross_child_collisions ref_crate (\<lambda>_. ''s3'') [(run_root ''a'' ''/'', 0), (run_root ''b'' ''/'', 1)]
          (ex_router run5))\<rparr>"

definition run7 :: exclusive where
  "run7 = run6\<lparr>ex_router := claim_roots 0 (listed (run_reg ''a'' ''/'')) 3
                 (stamp_next (lift_quarantine 0 ''t'' ''a'' (ex_router run6))),
               ex_add := Deciding 0 (run_reg ''a'' ''/'') 3\<rparr>"

definition run8 :: exclusive where
  "run8 = accept 0 (run_reg ''a'' ''/'') 3 (listed (run_reg ''a'' ''/'')) 4 (stamp_next (ex_router run7)) run7"

lemma run_generations:
  "st_next_generation (ex_router run3) = 2" "st_next_generation (ex_router run6) = 2"
  "st_next_generation (ex_router run7) = 3" "st_children (ex_router run3) = 2" "st_quarantined (ex_router run3) = []"
  by (simp_all add: run7_def run6_def run5_def run4_def run3_def run2_def run1_def ex_init_def router_state_new_def
      stamp_next_def)

lemma run3_state:
  "ex_add run3 = Idle" "ex_registered run3 = [(1, run_reg ''b'' ''/'')]" "ex_flight run3 = [fresh_flight 2]"
  by (simp_all add: run3_def run2_def run1_def ex_init_def)

lemma run5_reachable: "ex_reachable ref_crate nm ow (\<lambda>_. True) 2 run5"
proof -
  let ?step = "ex_step ref_crate nm ow (\<lambda>_. True)"
  let ?f0 = "\<lparr>fl_generation = 2, fl_answers = [(0, [run_root ''a'' ''/''])], fl_kept = None\<rparr>"
  let ?f1 = "\<lparr>fl_generation = 2, fl_answers = [(1, [run_root ''b'' ''/'']), (0, [run_root ''a'' ''/''])], fl_kept = None\<rparr>"
  have "?step run3 run4"
    unfolding run4_def
    by (rule ex_step.Commit) (simp_all add: run3_state run_generations run_attributed free_key_def)
  moreover have "?step run4 (run4\<lparr>ex_flight := [?f0]\<rparr>)"
    using ex_step.Query[of run4 "[]" "fresh_flight 2" "[]" 0]
    by (simp add: run4_def run3_state fresh_flight_def published_def run_reg_def)
  moreover have "?step (run4\<lparr>ex_flight := [?f0]\<rparr>) (run4\<lparr>ex_flight := [?f1]\<rparr>)"
    using ex_step.Query[of "run4\<lparr>ex_flight := [?f0]\<rparr>" "[]" ?f0 "[]" 1]
    by (simp add: run4_def run3_state published_def run_reg_def)
  moreover have "?step (run4\<lparr>ex_flight := [?f1]\<rparr>) run5"
    using ex_step.Withhold[of "run4\<lparr>ex_flight := [?f1]\<rparr>" "[]" ?f1 "[]"]
    by (simp add: run5_def run_flight_def run4_def run_generations withheld_exact bindings_of_def
        upt_rec less_Suc_eq numeral_2_eq_2)
  ultimately show ?thesis using run3_reachable ex_reachable.Step by metis
qed

text \<open>C36. Exclusivity is not unconditional: a catch-up that its caller has left, still running when a
  sibling commits the same node, can publish both bindings before the check of that add. It
  releases the claim of the first connection, and where the newcomer's child comes first the
  check sees only the newcomer's own root. Both connections are then accepted. No root-update
  stream takes part in this.\<close>

theorem detached_catch_up_defeats_exclusivity:
  "\<exists>s a b. ex_reachable ref_crate (\<lambda>_. ''s3'') ow (\<lambda>_. True) 2 s \<and> a \<in> set (ex_accepted s) \<and>
     b \<in> set (ex_accepted s) \<and> same_node (ri_root (acc_root a)) (ri_root (acc_root b)) \<and> acc_child a \<noteq> acc_child b"
proof -
  let ?step = "ex_step ref_crate (\<lambda>_. ''s3'') ow (\<lambda>_. True)"
  have "?step run5 run6"
    using ex_step.Publish[of run5 "[]" run_flight "[]" "[(run_root ''a'' ''/'', 0), (run_root ''b'' ''/'', 1)]"
        "\<lambda>_. True" ref_crate "\<lambda>_. ''s3''" ow Map.empty]
    by (simp add: run6_def run5_def run_flight_def)
  moreover have "?step run6 run7"
    unfolding run7_def
  proof (rule ex_step.Claim)
    show "ex_add run6 = Committed 0 (run_reg ''a'' ''/'')" by (simp add: run6_def run5_def run4_def)
    show "next_generation (lift_quarantine 0 (reg_target (run_reg ''a'' ''/'')) (reg_id (run_reg ''a'' ''/'')) (ex_router run6)) =
        Some (3, stamp_next (lift_quarantine 0 ''t'' ''a'' (ex_router run6)))"
      using stamp_next_generation[of "lift_quarantine 0 ''t'' ''a'' (ex_router run6)"]
      by (simp add: run_generations run_reg_def)
  qed
  moreover have "?step run7 run8"
    unfolding run8_def
  proof (rule ex_step.Clear)
    show "ex_add run7 = Deciding 0 (run_reg ''a'' ''/'') 3" by (simp add: run7_def)
    show "cross_child_conflict ref_crate (ex_router run7) 0 (listed (run_reg ''a'' ''/'')) =
        Inr (listed (run_reg ''a'' ''/''))" by code_simp
    show "next_generation (ex_router run7) = Some (4, stamp_next (ex_router run7))"
      using stamp_next_generation[of "ex_router run7"] by (simp add: run_generations)
  qed simp
  ultimately have "ex_reachable ref_crate (\<lambda>_. ''s3'') ow (\<lambda>_. True) 2 run8"
    using run5_reachable ex_reachable.Step by metis
  moreover have "ex_accepted run8 =
      [\<lparr>acc_child = 0, acc_reg = run_reg ''a'' ''/'', acc_root = run_root ''a'' ''/'', acc_generation = 4\<rparr>,
       \<lparr>acc_child = 1, acc_reg = run_reg ''b'' ''/'', acc_root = run_root ''b'' ''/'', acc_generation = 2\<rparr>]"
    by (simp add: run8_def run7_def run6_def run5_def run4_def run3_def run2_def run1_def ex_init_def accept_def
        free_key_def run_reg_def same_node_def)
  moreover have "same_node (ri_root (run_root ''a'' ''/'')) (ri_root (run_root ''b'' ''/''))"
    by (simp add: run_root_def same_node_def)
  ultimately show ?thesis by force
qed

end
