(* ===== verification/Ov_Meta_Cache.thy ===== *)
theory Ov_Meta_Cache
  imports Ov_Projection Ov_Types "HOL-Library.AList"
begin

text \<open>
  The metadata cache (\<open>ovstorage-cache/src/metadata.rs\<close>): rows keyed by kind, principal,
  address and credential digest, a budget counted in object descriptions, eviction of the least
  recently used rows, expiry, and the sweeps that drop the rows of an address, of a subtree, or of
  the listings that contain an address.

  Every operation runs under the cache's one mutex, so an operation is a function from state to
  state; its argument \<open>now\<close> is the clock reading it takes (nanoseconds; the two readings of
  \<open>get\<close> under one lock are one instant). The hash map is an association list with distinct keys
  whose order is arbitrary: the order only decides between rows last accessed at the same instant.
  Sizes are natural numbers; the sum the code computes is at most twice the budget
  (\<open>cache_budget_kept\<close>), so it does not wrap for a budget below \<open>2 ^ 63\<close>. Trace events and
  counters are left out; the task that drains a channel of invalidations is the fold of
  \<open>apply_invalidation\<close> over the received events, and the periodic sweeper repeats
  \<open>purge_expired\<close>.
\<close>

section \<open>Cost flags\<close>

record cost_flags =
  cf_full_metadata :: bool
  cf_versioned_address :: bool

definition no_flags :: cost_flags where
  "no_flags = \<lparr>cf_full_metadata = False, cf_versioned_address = False\<rparr>"

definition flags_covers :: "cost_flags \<Rightarrow> cost_flags \<Rightarrow> bool" where
  "flags_covers self requested \<longleftrightarrow>
     (cf_full_metadata self \<or> \<not> cf_full_metadata requested) \<and>
     (cf_versioned_address self \<or> \<not> cf_versioned_address requested)"

definition flags_union :: "cost_flags \<Rightarrow> cost_flags \<Rightarrow> cost_flags" where
  "flags_union self other =
     \<lparr>cf_full_metadata = cf_full_metadata self \<or> cf_full_metadata other,
      cf_versioned_address = cf_versioned_address self \<or> cf_versioned_address other\<rparr>"

definition flags_is_empty :: "cost_flags \<Rightarrow> bool" where
  "flags_is_empty self \<longleftrightarrow> self = no_flags"

record stat_options =
  so_full_metadata :: bool
  so_versioned_address :: bool

record list_options =
  lo_recursive :: bool
  lo_max_results :: "nat option"
  lo_page_token :: "string option"
  lo_full_metadata :: bool
  lo_versioned_address :: bool

definition list_options_default :: list_options where
  "list_options_default =
     \<lparr>lo_recursive = False, lo_max_results = None, lo_page_token = None,
      lo_full_metadata = False, lo_versioned_address = False\<rparr>"

definition widen_stat :: "cost_flags \<Rightarrow> stat_options \<Rightarrow> stat_options" where
  "widen_stat self options =
     options\<lparr>so_full_metadata := so_full_metadata options \<or> cf_full_metadata self,
             so_versioned_address := so_versioned_address options \<or> cf_versioned_address self\<rparr>"

definition flags_of_stat :: "stat_options \<Rightarrow> cost_flags" where
  "flags_of_stat options =
     \<lparr>cf_full_metadata = so_full_metadata options,
      cf_versioned_address = so_versioned_address options\<rparr>"

definition flags_of_list :: "list_options \<Rightarrow> cost_flags" where
  "flags_of_list options =
     \<lparr>cf_full_metadata = lo_full_metadata options,
      cf_versioned_address = lo_versioned_address options\<rparr>"

section \<open>Keys, rows and the cache\<close>

datatype metadata_kind = MK_Stat | MK_List | MK_ListVersions

record metadata_cache_key =
  mk_kind :: metadata_kind
  mk_principal_id :: "string option"
  mk_address :: string
  mk_credential_scope :: "nat option"

text \<open>
  The digest of a credential is the standard library's \<open>DefaultHasher\<close> run on user name and
  password; the argument \<open>digest\<close> stands for it.
\<close>

definition credential_scope :: "(string \<Rightarrow> string option \<Rightarrow> nat) \<Rightarrow> url \<Rightarrow> nat option" where
  "credential_scope digest u =
     (if url_username u = [] \<and> url_password u = None then None
      else Some (digest (url_username u) (url_password u)))"

datatype metadata_payload =
  PL_Stat object_info | PL_List list_page | PL_ListVersions "object_info list"

datatype metadata_lookup = Lookup_Hit metadata_payload | Lookup_Narrower cost_flags | Lookup_Miss

fun lookup_hit :: "metadata_lookup \<Rightarrow> metadata_payload option" where
  "lookup_hit (Lookup_Hit payload) = Some payload"
| "lookup_hit (Lookup_Narrower stored) = None"
| "lookup_hit Lookup_Miss = None"

record cache_entry =
  ce_payload :: metadata_payload
  ce_inserted_at :: nat
  ce_last_accessed :: nat
  ce_ttl :: nat
  ce_size :: nat
  ce_flags :: cost_flags

type_synonym cache_rows = "(metadata_cache_key \<times> cache_entry) list"

record cache_state =
  cs_entries :: cache_rows
  cs_current_size :: nat

record metadata_cache =
  mc_state :: cache_state
  mc_max_entries :: nat
  mc_ttl :: nat

record metadata_cache_config =
  mcc_max_entries :: "nat option"
  mcc_ttl_seconds :: "nat option"

definition from_secs :: "nat \<Rightarrow> nat" where "from_secs n = n * 1000000000"

definition DEFAULT_TTL :: nat where "DEFAULT_TTL = from_secs 30"

definition DEFAULT_MAX_ENTRIES :: nat where "DEFAULT_MAX_ENTRIES = 65536"

definition metadata_cache_config_default :: metadata_cache_config where
  "metadata_cache_config_default =
     \<lparr>mcc_max_entries = Some DEFAULT_MAX_ENTRIES, mcc_ttl_seconds = Some 30\<rparr>"

definition empty_cache_state :: cache_state where
  "empty_cache_state = \<lparr>cs_entries = [], cs_current_size = 0\<rparr>"

definition metadata_cache_new :: "metadata_cache_config \<Rightarrow> metadata_cache" where
  "metadata_cache_new config =
     \<lparr>mc_state = empty_cache_state,
      mc_max_entries =
        max (case mcc_max_entries config of Some n \<Rightarrow> n | None \<Rightarrow> DEFAULT_MAX_ENTRIES) 1,
      mc_ttl = (case mcc_ttl_seconds config of Some s \<Rightarrow> from_secs s | None \<Rightarrow> DEFAULT_TTL)\<rparr>"

fun object_info_count :: "metadata_payload \<Rightarrow> nat" where
  "object_info_count (PL_Stat info) = 1"
| "object_info_count (PL_List page) = length (page_items page)"
| "object_info_count (PL_ListVersions versions) = length versions"

section \<open>Lookup and insertion\<close>

definition remove_row :: "metadata_cache_key \<Rightarrow> cache_state \<Rightarrow> cache_state" where
  "remove_row k st =
     (case map_of (cs_entries st) k of
        None \<Rightarrow> st
      | Some e \<Rightarrow> st\<lparr>cs_entries := AList.delete k (cs_entries st),
                      cs_current_size := cs_current_size st - ce_size e\<rparr>)"

definition mc_get ::
    "nat \<Rightarrow> metadata_cache_key \<Rightarrow> cost_flags \<Rightarrow> metadata_cache \<Rightarrow> metadata_lookup \<times> metadata_cache"
where
  "mc_get now k requested mc =
     (case map_of (cs_entries (mc_state mc)) k of
        None \<Rightarrow> (Lookup_Miss, mc)
      | Some e \<Rightarrow>
          (if ce_ttl e \<le> now - ce_inserted_at e then
             (Lookup_Miss, mc\<lparr>mc_state := remove_row k (mc_state mc)\<rparr>)
           else if \<not> flags_covers (ce_flags e) requested then (Lookup_Narrower (ce_flags e), mc)
           else (Lookup_Hit (ce_payload e),
                 mc\<lparr>mc_state := (mc_state mc)
                      \<lparr>cs_entries :=
                         AList.update k (e\<lparr>ce_last_accessed := now\<rparr>) (cs_entries (mc_state mc))\<rparr>\<rparr>)))"

fun evict_until :: "nat \<Rightarrow> nat \<Rightarrow> metadata_cache_key list \<Rightarrow> cache_state \<Rightarrow> cache_state" where
  "evict_until budget needed [] st = st"
| "evict_until budget needed (victim # victims) st =
     (if cs_current_size st + needed \<le> budget then st
      else evict_until budget needed victims (remove_row victim st))"

definition lru_victims :: "cache_rows \<Rightarrow> metadata_cache_key list" where
  "lru_victims rows = map snd (sort_key fst (map (\<lambda>(k, e). (ce_last_accessed e, k)) rows))"

definition mc_insert ::
    "nat \<Rightarrow> metadata_cache_key \<Rightarrow> metadata_payload \<Rightarrow> cost_flags \<Rightarrow> metadata_cache \<Rightarrow>
     bool \<times> metadata_cache" where
  "mc_insert now k payload flags mc =
     (let size = max (object_info_count payload) 1;
          st = remove_row k (mc_state mc) in
      if mc_max_entries mc < size then (False, mc\<lparr>mc_state := st\<rparr>)
      else
        (let st' = (if mc_max_entries mc < cs_current_size st + size \<and> cs_entries st \<noteq> []
                    then evict_until (mc_max_entries mc) size (lru_victims (cs_entries st)) st
                    else st) in
         (True,
          mc\<lparr>mc_state :=
              \<lparr>cs_entries =
                 AList.update k
                   \<lparr>ce_payload = payload, ce_inserted_at = now, ce_last_accessed = now,
                    ce_ttl = mc_ttl mc, ce_size = size, ce_flags = flags\<rparr> (cs_entries st'),
               cs_current_size = cs_current_size st' + size\<rparr>\<rparr>)))"

section \<open>Sweeps\<close>

definition split_query :: "string \<Rightarrow> string \<times> string option" where
  "split_query value =
     (case split_once (CHR ''?'') value of
        Some (pth, query) \<Rightarrow> (pth, Some query)
      | None \<Rightarrow> (value, None))"

definition is_under_prefix :: "string \<Rightarrow> string \<Rightarrow> bool" where
  "is_under_prefix addr prefx =
     (let (addr_path, addr_query) = split_query addr;
          (prefix_path, prefix_query) = split_query prefx in
      if prefix_query \<noteq> None \<and> prefix_query \<noteq> addr_query then False
      else
        (let prefix_path = (case strip_suffix ''/'' prefix_path of Some p \<Rightarrow> p | None \<Rightarrow> prefix_path) in
         case strip_prefix prefix_path addr_path of
           Some rest \<Rightarrow> rest = [] \<or> starts_with ''/'' rest
         | None \<Rightarrow> False))"

definition retain_with_size ::
    "(metadata_cache_key \<Rightarrow> cache_entry \<Rightarrow> bool) \<Rightarrow> cache_state \<Rightarrow> cache_state" where
  "retain_with_size keep st =
     (let freed = sum_list (map (ce_size \<circ> snd) (filter (\<lambda>(k, e). \<not> keep k e) (cs_entries st))) in
      st\<lparr>cs_entries := filter (\<lambda>(k, e). keep k e) (cs_entries st),
         cs_current_size := cs_current_size st - freed\<rparr>)"

abbreviation mc_retain ::
    "(metadata_cache_key \<Rightarrow> cache_entry \<Rightarrow> bool) \<Rightarrow> metadata_cache \<Rightarrow> metadata_cache" where
  "mc_retain keep mc \<equiv> mc\<lparr>mc_state := retain_with_size keep (mc_state mc)\<rparr>"

definition invalidate_address :: "url_crate \<Rightarrow> url \<Rightarrow> metadata_cache \<Rightarrow> metadata_cache" where
  "invalidate_address C addr mc =
     (let (bare, slashed) = node_spellings C addr in
      mc_retain (\<lambda>k _. mk_address k \<noteq> bare \<and> mk_address k \<noteq> slashed) mc)"

definition invalidate_prefix :: "url_crate \<Rightarrow> url \<Rightarrow> metadata_cache \<Rightarrow> metadata_cache" where
  "invalidate_prefix C prefx mc =
     (let needle = node_address C prefx in
      mc_retain (\<lambda>k _. \<not> is_under_prefix (mk_address k) needle) mc)"

definition invalidate_lists_containing :: "url_crate \<Rightarrow> url \<Rightarrow> metadata_cache \<Rightarrow> metadata_cache" where
  "invalidate_lists_containing C addr mc =
     (let target = node_address C addr in
      mc_retain (\<lambda>k _. \<not> (mk_kind k = MK_List \<and> is_under_prefix target (mk_address k))) mc)"

definition invalidate_all :: "metadata_cache \<Rightarrow> metadata_cache" where
  "invalidate_all mc = mc\<lparr>mc_state := \<lparr>cs_entries = [], cs_current_size = 0\<rparr>\<rparr>"

definition purge_expired :: "nat \<Rightarrow> metadata_cache \<Rightarrow> metadata_cache" where
  "purge_expired now mc = mc_retain (\<lambda>_ e. now - ce_inserted_at e < ce_ttl e) mc"

definition mc_len :: "metadata_cache \<Rightarrow> nat" where
  "mc_len mc = length (cs_entries (mc_state mc))"

definition mc_is_empty :: "metadata_cache \<Rightarrow> bool" where
  "mc_is_empty mc \<longleftrightarrow> cs_entries (mc_state mc) = []"

definition mc_current_size :: "metadata_cache \<Rightarrow> nat" where
  "mc_current_size mc = cs_current_size (mc_state mc)"

datatype invalidation = Inval_Address url | Inval_Prefix url | Inval_All

fun apply_invalidation :: "url_crate \<Rightarrow> invalidation \<Rightarrow> metadata_cache \<Rightarrow> metadata_cache" where
  "apply_invalidation C (Inval_Address u) mc =
     invalidate_lists_containing C u (invalidate_address C u mc)"
| "apply_invalidation C (Inval_Prefix u) mc = invalidate_prefix C u mc"
| "apply_invalidation C Inval_All mc = invalidate_all mc"

definition spawn_invalidation_task :: "url_crate \<Rightarrow> invalidation list \<Rightarrow> metadata_cache \<Rightarrow> metadata_cache" where
  "spawn_invalidation_task C events mc = fold (apply_invalidation C) events mc"

section \<open>Rendering a key\<close>

fun operation_label :: "metadata_kind \<Rightarrow> string" where
  "operation_label MK_Stat = ''stat''"
| "operation_label MK_List = ''list''"
| "operation_label MK_ListVersions = ''list_versions''"

definition redacted_key_address :: "url_crate \<Rightarrow> string \<Rightarrow> string" where
  "redacted_key_address C addr =
     (case crate_parse C addr of
        None \<Rightarrow> ''<unparseable address, '' @ digits (length addr) @ '' bytes>''
      | Some u \<Rightarrow>
          (if url_cannot_be_a_base u then
             ''<opaque '' @ url_scheme u @ '' address, '' @ digits (length addr) @ '' bytes>''
           else
             (let had_query = url_query u \<noteq> None;
                  v = or_keep (crate_set_username C [])
                        (or_keep (crate_set_password C None)
                          (crate_set_fragment C None (crate_set_query C None u)))
              in if had_query then crate_as_str C v @ ''?<redacted>'' else crate_as_str C v)))"

section \<open>The budget\<close>

text \<open>
  The running total equals the sizes of the rows, stays within the budget, and every row is
  charged for the object descriptions it carries.
\<close>

definition rows_size :: "cache_rows \<Rightarrow> nat" where
  "rows_size rows = sum_list (map (ce_size \<circ> snd) rows)"

definition state_ok :: "cache_state \<Rightarrow> bool" where
  "state_ok st \<longleftrightarrow> distinct (map fst (cs_entries st)) \<and> cs_current_size st = rows_size (cs_entries st)"

definition row_ok :: "metadata_cache \<Rightarrow> cache_entry \<Rightarrow> bool" where
  "row_ok mc e \<longleftrightarrow> ce_size e = max (object_info_count (ce_payload e)) 1 \<and> ce_ttl e = mc_ttl mc"

definition cache_ok :: "metadata_cache \<Rightarrow> bool" where
  "cache_ok mc \<longleftrightarrow> state_ok (mc_state mc) \<and> cs_current_size (mc_state mc) \<le> mc_max_entries mc \<and>
     1 \<le> mc_max_entries mc \<and> (\<forall>(k, e) \<in> set (cs_entries (mc_state mc)). row_ok mc e)"

named_theorems cacheops \<open>what the operations of the metadata cache do to the map of rows\<close>

abbreviation row_of :: "cache_state \<Rightarrow> metadata_cache_key \<Rightarrow> cache_entry option" where
  "row_of st \<equiv> map_of (cs_entries st)"

lemma rows_size_simps [simp]:
  "rows_size [] = 0" "rows_size ((k, e) # rows) = ce_size e + rows_size rows"
  by (simp_all add: rows_size_def)

lemma delete_idle: "map_of rows k = None \<Longrightarrow> AList.delete k rows = rows"
  by (simp add: map_of_eq_None_iff delete_id)

lemma rows_size_delete:
  "distinct (map fst rows) \<Longrightarrow> map_of rows k = Some e \<Longrightarrow>
     rows_size rows = ce_size e + rows_size (AList.delete k rows)"
proof (induction rows)
  case (Cons r rows)
  obtain k' e' where r: "r = (k', e')" by (cases r)
  show ?case
  proof (cases "k' = k")
    case True
    with Cons.prems r have "map_of rows k = None" by (simp add: map_of_eq_None_iff)
    with True Cons.prems r show ?thesis by (simp add: delete_idle)
  qed (use Cons r in auto)
qed simp

lemma rows_size_update_new:
  "map_of rows k = None \<Longrightarrow> rows_size (AList.update k e rows) = rows_size rows + ce_size e"
  by (induction rows) (auto split: if_splits)

lemma rows_size_update_same:
  "distinct (map fst rows) \<Longrightarrow> map_of rows k = Some e \<Longrightarrow> ce_size e' = ce_size e \<Longrightarrow>
     rows_size (AList.update k e' rows) = rows_size rows"
  by (induction rows) (auto split: if_splits)

lemma rows_size_filter:
  "rows_size rows = rows_size (filter P rows) + rows_size (filter (\<lambda>r. \<not> P r) rows)"
  by (induction rows) auto

lemma map_of_filter_keep:
  "distinct (map fst rows) \<Longrightarrow>
     map_of (filter (\<lambda>(k, e). keep k e) rows) k =
       (case map_of rows k of Some e \<Rightarrow> if keep k e then Some e else None | None \<Rightarrow> None)"
proof (induction rows)
  case (Cons r rows)
  obtain k' e' where r: "r = (k', e')" by (cases r)
  show ?case
  proof (cases "k' = k")
    case True
    with Cons.prems r have "map_of rows k = None" by (simp add: map_of_eq_None_iff)
    with True Cons r show ?thesis by simp
  qed (use Cons r in auto)
qed simp

lemma row_of_remove [cacheops]: "row_of (remove_row k st) = (row_of st)(k := None)"
  by (auto simp: remove_row_def delete_conv' fun_eq_iff split: option.splits)

lemma remove_row_ok [simp]: "state_ok st \<Longrightarrow> state_ok (remove_row k st)"
  by (auto simp: state_ok_def remove_row_def distinct_delete rows_size_delete split: option.splits)

lemma remove_row_size:
  "state_ok st \<Longrightarrow> cs_current_size st =
     cs_current_size (remove_row k st) + (case row_of st k of Some e \<Rightarrow> ce_size e | None \<Rightarrow> 0)"
  by (auto simp: state_ok_def remove_row_def rows_size_delete split: option.splits)

lemma retain_ok [simp]: "state_ok st \<Longrightarrow> state_ok (retain_with_size keep st)"
  using rows_size_filter[of "cs_entries st" "\<lambda>(k, e). keep k e"]
  by (auto simp: state_ok_def retain_with_size_def Let_def rows_size_def case_prod_unfold distinct_map_filter)

lemma row_of_retain [cacheops]:
  "state_ok st \<Longrightarrow> row_of (retain_with_size keep st) k =
     (case row_of st k of Some e \<Rightarrow> if keep k e then Some e else None | None \<Rightarrow> None)"
  by (simp add: state_ok_def retain_with_size_def Let_def map_of_filter_keep)

lemma retain_size: "cs_current_size (retain_with_size keep st) \<le> cs_current_size st"
  by (simp add: retain_with_size_def Let_def)

section \<open>Eviction\<close>

abbreviation remove_rows :: "metadata_cache_key list \<Rightarrow> cache_state \<Rightarrow> cache_state" where
  "remove_rows \<equiv> fold remove_row"

lemma remove_rows_ok [simp]: "state_ok st \<Longrightarrow> state_ok (remove_rows ks st)"
  by (induction ks arbitrary: st) auto

lemma row_of_remove_rows [cacheops]:
  "row_of (remove_rows ks st) k = (if k \<in> set ks then None else row_of st k)"
  by (induction ks arbitrary: st) (auto simp: cacheops)

text \<open>
  The loop removes a prefix of the victims: it stops with the first row whose removal makes room,
  or with the last victim.
\<close>

lemma evict_until_split:
  "\<exists>dead live. victims = dead @ live \<and> evict_until budget needed victims st = remove_rows dead st \<and>
     (live \<noteq> [] \<longrightarrow> cs_current_size (remove_rows dead st) + needed \<le> budget) \<and>
     (dead \<noteq> [] \<longrightarrow> budget < cs_current_size (remove_rows (butlast dead) st) + needed)"
proof (induction victims arbitrary: st)
  case (Cons v vs)
  show ?case
  proof (cases "cs_current_size st + needed \<le> budget")
    case True
    then show ?thesis by (intro exI[of _ "[]"] exI[of _ "v # vs"]) simp
  next
    case False
    from Cons.IH[of "remove_row v st"] obtain dead live where IH:
      "vs = dead @ live" "evict_until budget needed vs (remove_row v st) = remove_rows dead (remove_row v st)"
      "live \<noteq> [] \<longrightarrow> cs_current_size (remove_rows dead (remove_row v st)) + needed \<le> budget"
      "dead \<noteq> [] \<longrightarrow> budget < cs_current_size (remove_rows (butlast dead) (remove_row v st)) + needed"
      by blast
    show ?thesis using False IH by (intro exI[of _ "v # dead"] exI[of _ live]) auto
  qed
qed simp

lemma set_lru_victims: "set (lru_victims rows) = fst ` set rows"
  by (force simp: lru_victims_def)

lemma distinct_lru_victims:
  assumes "distinct (map fst rows)" shows "distinct (lru_victims rows)"
proof -
  let ?ts = "map (\<lambda>(k, e). (ce_last_accessed e, k)) rows"
  have "map snd ?ts = map fst rows" by auto
  with assms have "distinct (map snd ?ts)" by metis
  then have "distinct (map snd (sort_key fst ?ts))" by (simp only: distinct_map distinct_sort set_sort)
  then show ?thesis by (simp add: lru_victims_def)
qed

text \<open>The victims are in the order of their last access.\<close>

definition accessed_at :: "cache_rows \<Rightarrow> metadata_cache_key \<Rightarrow> nat" where
  "accessed_at rows k = (case map_of rows k of Some e \<Rightarrow> ce_last_accessed e | None \<Rightarrow> 0)"

lemma lru_victims_sorted:
  assumes "distinct (map fst rows)" shows "sorted (map (accessed_at rows) (lru_victims rows))"
proof -
  let ?s = "sort_key fst (map (\<lambda>(k, e). (ce_last_accessed e, k)) rows)"
  have "accessed_at rows (snd x) = fst x" if "x \<in> set ?s" for x
  proof -
    from that obtain k e where "(k, e) \<in> set rows" "x = (ce_last_accessed e, k)" by auto
    with assms show ?thesis by (simp add: accessed_at_def)
  qed
  then have "map (accessed_at rows) (lru_victims rows) = map fst ?s"
    unfolding lru_victims_def map_map by (intro map_cong) auto
  then show ?thesis using sorted_sort_key[of fst] by metis
qed

lemma sorted_last_greatest: "sorted (map g xs) \<Longrightarrow> x \<in> set xs \<Longrightarrow> g x \<le> g (last xs)"
  by (induction xs) auto

text \<open>Removing every row empties the cache, so eviction always makes room for what fits the budget.\<close>

lemma state_ok_empty: "state_ok st \<Longrightarrow> (\<And>k. row_of st k = None) \<Longrightarrow> cs_current_size st = 0"
proof -
  assume "state_ok st" and none: "\<And>k. row_of st k = None"
  from none have "row_of st = Map.empty" by (simp add: fun_eq_iff)
  with \<open>state_ok st\<close> show ?thesis by (simp add: state_ok_def)
qed

lemma eviction_makes_room:
  assumes "state_ok st" "needed \<le> budget"
  shows "cs_current_size (evict_until budget needed (lru_victims (cs_entries st)) st) + needed \<le> budget"
proof -
  obtain dead live where dl: "lru_victims (cs_entries st) = dead @ live"
    "evict_until budget needed (lru_victims (cs_entries st)) st = remove_rows dead st"
    "live \<noteq> [] \<longrightarrow> cs_current_size (remove_rows dead st) + needed \<le> budget"
    using evict_until_split by blast
  show ?thesis
  proof (cases "live = []")
    case True
    then have "set dead = dom (row_of st)" using dl(1) set_lru_victims[of "cs_entries st"]
      by (simp add: dom_map_of_conv_image_fst)
    then have "row_of (remove_rows dead st) k = None" for k by (auto simp: cacheops)
    then have "cs_current_size (remove_rows dead st) = 0" using assms(1) by (simp add: state_ok_empty)
    with dl(2) assms(2) show ?thesis by simp
  qed (use dl in simp)
qed

lemma evict_ok [simp]: "state_ok st \<Longrightarrow> state_ok (evict_until budget needed vs st)"
  using evict_until_split[of vs budget needed st] by auto

lemma row_of_evict:
  "row_of (evict_until budget needed vs st) k = Some e \<Longrightarrow> row_of st k = Some e"
  using evict_until_split[of vs budget needed st] by (auto simp: cacheops split: if_splits)

section \<open>The interface of a row cache\<close>

text \<open>
  What a client may rely on: a cache holds facts \<open>(payload, time, flags)\<close> under keys; looking up
  adds nothing and answers from what is held, storing adds the one fact and replaces what the key
  held, and a sweep leaves nothing under the keys it reaches. Rows may disappear at any time.
\<close>

datatype ('k, 'p, 'f, 'w) cache_op = CO_Get 'k 'f | CO_Put 'k 'p 'f | CO_Sweep 'w

locale row_cache =
  fixes ok :: "'c \<Rightarrow> bool"
    and holds :: "'c \<Rightarrow> 'k \<Rightarrow> 'p \<Rightarrow> nat \<Rightarrow> 'f \<Rightarrow> bool"
    and lookup :: "nat \<Rightarrow> 'k \<Rightarrow> 'f \<Rightarrow> 'c \<Rightarrow> 'p option \<times> 'c"
    and store :: "nat \<Rightarrow> 'k \<Rightarrow> 'p \<Rightarrow> 'f \<Rightarrow> 'c \<Rightarrow> bool \<times> 'c"
    and sweep :: "nat \<Rightarrow> 'w \<Rightarrow> 'c \<Rightarrow> 'c"
    and reaches :: "'w \<Rightarrow> 'k \<Rightarrow> bool"
  assumes lookup_ok: "ok c \<Longrightarrow> ok (snd (lookup now k f c))"
    and store_ok: "ok c \<Longrightarrow> ok (snd (store now k p f c))"
    and sweep_ok: "ok c \<Longrightarrow> ok (sweep now w c)"
    and lookup_holds: "ok c \<Longrightarrow> holds (snd (lookup now k f c)) k' p' t' f' \<Longrightarrow> holds c k' p' t' f'"
    and lookup_hit: "ok c \<Longrightarrow> fst (lookup now k f c) = Some p \<Longrightarrow> \<exists>t g. holds c k p t g"
    and store_holds: "ok c \<Longrightarrow> holds (snd (store now k p f c)) k' p' t' f' \<Longrightarrow>
          k' = k \<and> p' = p \<and> t' = now \<and> f' = f \<or> k' \<noteq> k \<and> holds c k' p' t' f'"
    and sweep_holds: "ok c \<Longrightarrow> holds (sweep now w c) k p t f \<Longrightarrow> holds c k p t f \<and> \<not> reaches w k"
begin

primrec exec :: "nat \<Rightarrow> ('k, 'p, 'f, 'w) cache_op \<Rightarrow> 'c \<Rightarrow> 'c" where
  "exec now (CO_Get k f) c = snd (lookup now k f c)"
| "exec now (CO_Put k p f) c = snd (store now k p f c)"
| "exec now (CO_Sweep w) c = sweep now w c"

abbreviation run :: "(nat \<times> ('k, 'p, 'f, 'w) cache_op) list \<Rightarrow> 'c \<Rightarrow> 'c" where
  "run \<equiv> fold (\<lambda>(now, opn). exec now opn)"

fun displaces :: "'k \<Rightarrow> ('k, 'p, 'f, 'w) cache_op \<Rightarrow> bool" where
  "displaces k (CO_Get k' f) = False"
| "displaces k (CO_Put k' p f) = (k' = k)"
| "displaces k (CO_Sweep w) = reaches w k"

lemma exec_ok: "ok c \<Longrightarrow> ok (exec now opn c)"
  by (cases opn) (auto intro: lookup_ok store_ok sweep_ok)

lemma run_ok: "ok c \<Longrightarrow> ok (run trace c)"
  by (induction trace arbitrary: c) (auto intro: exec_ok)

text \<open>A fact that an operation leaves was there and not displaced, or the operation stored it.\<close>

lemma exec_holds:
  assumes "ok c" "holds (exec now opn c) k p t f"
  shows "opn = CO_Put k p f \<and> t = now \<or> holds c k p t f \<and> \<not> displaces k opn"
proof (cases opn)
  case (CO_Get k' f')
  then show ?thesis using assms lookup_holds by fastforce
next
  case (CO_Put k' p' f')
  then show ?thesis using assms store_holds by fastforce
next
  case (CO_Sweep w)
  then show ?thesis using assms sweep_holds by fastforce
qed

lemma row_history:
  assumes "ok c" "\<And>k p t f. \<not> holds c k p t f" "holds (run trace c) k p t f"
  shows "\<exists>pre post. trace = pre @ (t, CO_Put k p f) # post \<and> (\<forall>(now, opn) \<in> set post. \<not> displaces k opn)"
  using assms(3)
proof (induction trace rule: rev_induct)
  case (snoc x trace)
  obtain now opn where x: "x = (now, opn)" by (cases x)
  have "opn = CO_Put k p f \<and> t = now \<or> holds (run trace c) k p t f \<and> \<not> displaces k opn"
    using exec_holds[OF run_ok[OF assms(1)]] snoc.prems x by simp
  then show ?case
  proof
    assume "opn = CO_Put k p f \<and> t = now"
    then show ?thesis using x by (intro exI[of _ trace] exI[of _ "[]"]) simp
  next
    assume h: "holds (run trace c) k p t f \<and> \<not> displaces k opn"
    with snoc.IH obtain pre post where
      "trace = pre @ (t, CO_Put k p f) # post" "\<forall>(now, opn) \<in> set post. \<not> displaces k opn" by blast
    then show ?thesis using h x by (intro exI[of _ pre] exI[of _ "post @ [x]"]) auto
  qed
qed (use assms(2) in simp)

text \<open>Two consequences for clients that thread the cache through their own calls.\<close>

definition rows_from :: "('k \<Rightarrow> 'p \<Rightarrow> bool) \<Rightarrow> 'c \<Rightarrow> bool" where
  "rows_from Q c \<longleftrightarrow> ok c \<and> (\<forall>k p t f. holds c k p t f \<longrightarrow> Q k p)"

definition free_of :: "('k \<Rightarrow> bool) \<Rightarrow> 'c \<Rightarrow> bool" where
  "free_of R c \<longleftrightarrow> ok c \<and> (\<forall>k p t f. R k \<longrightarrow> \<not> holds c k p t f)"

lemma rows_from_exec:
  "rows_from Q c \<Longrightarrow> (\<And>k p f. opn = CO_Put k p f \<Longrightarrow> Q k p) \<Longrightarrow> rows_from Q (exec now opn c)"
  unfolding rows_from_def using exec_ok exec_holds by blast

lemma free_of_exec:
  "free_of R c \<Longrightarrow> (\<And>k p f. opn = CO_Put k p f \<Longrightarrow> \<not> R k) \<Longrightarrow> free_of R (exec now opn c)"
  unfolding free_of_def using exec_ok exec_holds by blast

lemma free_of_sweep: "ok c \<Longrightarrow> (\<And>k. R k \<Longrightarrow> S k \<or> reaches w k) \<Longrightarrow> free_of S c \<Longrightarrow> free_of R (sweep now w c)"
  unfolding free_of_def using sweep_ok sweep_holds by blast

lemma rows_from_mono: "rows_from Q c \<Longrightarrow> (\<And>k p. Q k p \<Longrightarrow> Q' k p) \<Longrightarrow> rows_from Q' c"
  by (auto simp: rows_from_def)

lemma free_of_lookup: "free_of R c \<Longrightarrow> R k \<Longrightarrow> fst (lookup now k f c) = None"
  unfolding free_of_def using lookup_hit by (metis not_None_eq)

lemma rows_from_lookup: "rows_from Q c \<Longrightarrow> fst (lookup now k f c) = Some p \<Longrightarrow> Q k p"
  unfolding rows_from_def using lookup_hit by metis

end

section \<open>The metadata cache implements the interface\<close>

datatype sweep = Sweep_Address url | Sweep_Prefix url | Sweep_Lists url | Sweep_All | Sweep_Expired

fun mc_sweep :: "url_crate \<Rightarrow> nat \<Rightarrow> sweep \<Rightarrow> metadata_cache \<Rightarrow> metadata_cache" where
  "mc_sweep C now (Sweep_Address u) mc = invalidate_address C u mc"
| "mc_sweep C now (Sweep_Prefix u) mc = invalidate_prefix C u mc"
| "mc_sweep C now (Sweep_Lists u) mc = invalidate_lists_containing C u mc"
| "mc_sweep C now Sweep_All mc = invalidate_all mc"
| "mc_sweep C now Sweep_Expired mc = purge_expired now mc"

fun sweep_reaches :: "url_crate \<Rightarrow> sweep \<Rightarrow> metadata_cache_key \<Rightarrow> bool" where
  "sweep_reaches C (Sweep_Address u) k \<longleftrightarrow>
     mk_address k = fst (node_spellings C u) \<or> mk_address k = snd (node_spellings C u)"
| "sweep_reaches C (Sweep_Prefix u) k \<longleftrightarrow> is_under_prefix (mk_address k) (node_address C u)"
| "sweep_reaches C (Sweep_Lists u) k \<longleftrightarrow>
     mk_kind k = MK_List \<and> is_under_prefix (node_address C u) (mk_address k)"
| "sweep_reaches C Sweep_All k \<longleftrightarrow> True"
| "sweep_reaches C Sweep_Expired k \<longleftrightarrow> False"

definition holds_row ::
    "metadata_cache \<Rightarrow> metadata_cache_key \<Rightarrow> metadata_payload \<Rightarrow> nat \<Rightarrow> cost_flags \<Rightarrow> bool" where
  "holds_row mc k p t f \<longleftrightarrow>
     (\<exists>e. row_of (mc_state mc) k = Some e \<and> ce_payload e = p \<and> ce_inserted_at e = t \<and> ce_flags e = f)"

abbreviation mc_lookup where
  "mc_lookup now k f mc \<equiv> map_prod lookup_hit id (mc_get now k f mc)"

lemma cache_ok_retain [simp]: "cache_ok mc \<Longrightarrow> cache_ok (mc_retain keep mc)"
  using retain_size[of keep "mc_state mc"]
  by (auto simp: cache_ok_def row_ok_def retain_with_size_def Let_def
      simp del: retain_ok intro: retain_ok[of "mc_state mc" keep, unfolded retain_with_size_def Let_def])

lemma cache_ok_sweep: "cache_ok mc \<Longrightarrow> cache_ok (mc_sweep C now w mc)"
  by (cases w) (auto simp: invalidate_address_def invalidate_prefix_def invalidate_lists_containing_def
      purge_expired_def Let_def case_prod_unfold,
      auto simp: invalidate_all_def cache_ok_def state_ok_def)

lemma update_subset: "set (AList.update k e rows) \<subseteq> insert (k, e) (set rows)"
  by (induction rows) auto

lemma remove_row_less:
  "set (cs_entries (remove_row k st)) \<subseteq> set (cs_entries st)"
  "cs_current_size (remove_row k st) \<le> cs_current_size st"
  by (auto simp: remove_row_def AList.delete_eq split: option.splits)

lemma cache_ok_get: "cache_ok mc \<Longrightarrow> cache_ok (snd (mc_get now k f mc))"
proof (cases "row_of (mc_state mc) k")
  case (Some e)
  assume ok: "cache_ok mc"
  then have "row_ok mc e" using Some by (auto simp: cache_ok_def dest: map_of_SomeD)
  then have hit: "state_ok (mc_state mc) \<Longrightarrow>
      state_ok ((mc_state mc)\<lparr>cs_entries := AList.update k (e\<lparr>ce_last_accessed := now\<rparr>) (cs_entries (mc_state mc))\<rparr>)"
    using Some by (simp add: state_ok_def rows_size_update_same distinct_update)
  note remove_row_less[of k "mc_state mc"]
  moreover have "set (AList.update k (e\<lparr>ce_last_accessed := now\<rparr>) (cs_entries (mc_state mc)))
      \<subseteq> insert (k, e\<lparr>ce_last_accessed := now\<rparr>) (set (cs_entries (mc_state mc)))"
    by (rule update_subset)
  ultimately show ?thesis using ok hit \<open>row_ok mc e\<close> Some
    by (fastforce simp: mc_get_def cache_ok_def row_ok_def)
qed (simp add: mc_get_def)

lemma row_of_get:
  assumes "row_of (mc_state (snd (mc_get now k f mc))) k' = Some e'"
  shows "\<exists>e. row_of (mc_state mc) k' = Some e \<and> e' = e\<lparr>ce_last_accessed := ce_last_accessed e'\<rparr>"
  using assms
  by (auto simp: mc_get_def row_of_remove update_conv' split: option.splits if_splits)

lemma row_of_get_same:
  "row_of (mc_state (snd (mc_get now k f mc))) k' = Some e' \<Longrightarrow>
     \<exists>e. row_of (mc_state mc) k' = Some e \<and> ce_payload e = ce_payload e' \<and>
         ce_inserted_at e = ce_inserted_at e' \<and> ce_flags e = ce_flags e'"
  using row_of_get[of now k f mc k' e'] by (metis cache_entry.select_convs cache_entry.surjective
      cache_entry.update_convs(3))

lemma get_hit:
  assumes "fst (mc_get now k f mc) = Lookup_Hit p"
  shows "\<exists>e. row_of (mc_state mc) k = Some e \<and> ce_payload e = p \<and> flags_covers (ce_flags e) f \<and>
           now - ce_inserted_at e < ce_ttl e"
  using assms by (auto simp: mc_get_def split: option.splits if_splits)

text \<open>What an insertion leaves: the old state without the key, less the evicted rows, and the new row.\<close>

definition room_for :: "metadata_cache_key \<Rightarrow> nat \<Rightarrow> metadata_cache \<Rightarrow> cache_state" where
  "room_for k needed mc =
     (let st = remove_row k (mc_state mc) in
      if mc_max_entries mc < cs_current_size st + needed \<and> cs_entries st \<noteq> []
      then evict_until (mc_max_entries mc) needed (lru_victims (cs_entries st)) st else st)"

definition charge :: "metadata_payload \<Rightarrow> nat" where
  "charge p = max (object_info_count p) 1"

abbreviation new_row :: "nat \<Rightarrow> metadata_payload \<Rightarrow> cost_flags \<Rightarrow> metadata_cache \<Rightarrow> cache_entry" where
  "new_row now p f mc \<equiv>
     \<lparr>ce_payload = p, ce_inserted_at = now, ce_last_accessed = now, ce_ttl = mc_ttl mc,
      ce_size = charge p, ce_flags = f\<rparr>"

lemma mc_insert_eq:
  "mc_insert now k p f mc =
     (if mc_max_entries mc < charge p then (False, mc\<lparr>mc_state := remove_row k (mc_state mc)\<rparr>)
      else (True, mc\<lparr>mc_state :=
              \<lparr>cs_entries = AList.update k (new_row now p f mc) (cs_entries (room_for k (charge p) mc)),
               cs_current_size = cs_current_size (room_for k (charge p) mc) + charge p\<rparr>\<rparr>))"
  by (simp add: mc_insert_def room_for_def charge_def Let_def)

lemma room_for_ok: "state_ok (mc_state mc) \<Longrightarrow> state_ok (room_for k needed mc)"
  by (simp add: room_for_def Let_def)

lemma row_of_room_for:
  "row_of (room_for k needed mc) k' = Some e \<Longrightarrow> k' \<noteq> k \<and> row_of (mc_state mc) k' = Some e"
  by (auto simp: room_for_def Let_def row_of_remove dest!: row_of_evict split: if_splits)

lemma room_for_fits:
  assumes "state_ok (mc_state mc)" "needed \<le> mc_max_entries mc"
  shows "cs_current_size (room_for k needed mc) + needed \<le> mc_max_entries mc"
proof -
  let ?st = "remove_row k (mc_state mc)"
  have ok: "state_ok ?st" using assms(1) by simp
  have empty: "cs_current_size ?st = 0" if "cs_entries ?st = []" using ok that by (simp add: state_ok_def)
  show ?thesis
  proof (cases "mc_max_entries mc < cs_current_size ?st + needed \<and> cs_entries ?st \<noteq> []")
    case True
    with eviction_makes_room[OF ok assms(2)] show ?thesis by (simp add: room_for_def Let_def)
  next
    case False
    then have "room_for k needed mc = ?st" by (auto simp: room_for_def Let_def)
    with False empty assms(2) show ?thesis by (cases "cs_entries ?st = []") auto
  qed
qed

lemma room_for_key: "row_of (room_for k needed mc) k = None"
  using row_of_room_for[of k needed mc k] by (cases "row_of (room_for k needed mc) k") auto

lemma cache_ok_insert: "cache_ok mc \<Longrightarrow> cache_ok (snd (mc_insert now k p f mc))"
proof -
  assume ok: "cache_ok mc"
  then have st: "state_ok (mc_state mc)" by (simp add: cache_ok_def)
  show ?thesis
  proof (cases "mc_max_entries mc < charge p")
    case True
    with remove_row_less[of k "mc_state mc"] ok show ?thesis
      by (auto simp: mc_insert_eq cache_ok_def row_ok_def)
  next
    case False
    let ?r = "room_for k (charge p) mc"
    have "state_ok ?r" using st by (rule room_for_ok)
    moreover have "cs_current_size ?r + charge p \<le> mc_max_entries mc"
      by (rule room_for_fits[OF st]) (use False in linarith)
    moreover have "(k', e) \<in> set (cs_entries ?r) \<Longrightarrow> row_ok mc e" for k' e
      using row_of_room_for[of k "charge p" mc k' e] \<open>state_ok ?r\<close> ok
      by (auto simp: state_ok_def cache_ok_def dest: map_of_SomeD)
    moreover have "set (AList.update k (new_row now p f mc) (cs_entries ?r)) \<subseteq>
        insert (k, new_row now p f mc) (set (cs_entries ?r))" by (rule update_subset)
    ultimately show ?thesis using False ok room_for_key[of k "charge p" mc]
      by (fastforce simp: mc_insert_eq cache_ok_def state_ok_def row_ok_def charge_def[symmetric]
          rows_size_update_new distinct_update simp del: One_nat_def)
  qed
qed

lemma row_of_insert:
  assumes "row_of (mc_state (snd (mc_insert now k p f mc))) k' = Some e"
  shows "k' = k \<and> e = new_row now p f mc \<or> k' \<noteq> k \<and> row_of (mc_state mc) k' = Some e"
  using assms row_of_room_for[of k "charge p" mc k' e]
  by (auto simp: mc_insert_eq row_of_remove update_conv' split: if_splits)

lemma row_of_sweep:
  assumes "cache_ok mc" "row_of (mc_state (mc_sweep C now w mc)) k = Some e"
  shows "row_of (mc_state mc) k = Some e \<and> \<not> sweep_reaches C w k"
  using assms
  by (cases w) (auto simp: invalidate_address_def invalidate_prefix_def invalidate_lists_containing_def
      purge_expired_def invalidate_all_def cache_ok_def Let_def case_prod_unfold row_of_retain
      split: option.splits if_splits)

interpretation mcache: row_cache cache_ok holds_row mc_lookup mc_insert "mc_sweep C" "sweep_reaches C" for C
proof unfold_locales
  fix mc now k f p k' p' t' f'
  show "cache_ok mc \<Longrightarrow> cache_ok (snd (mc_lookup now k f mc))" by (simp add: cache_ok_get)
  show "holds_row (snd (mc_lookup now k f mc)) k' p' t' f' \<Longrightarrow> holds_row mc k' p' t' f'"
    unfolding holds_row_def using row_of_get_same[of now k f mc k'] by auto
  show "fst (mc_lookup now k f mc) = Some p \<Longrightarrow> \<exists>t g. holds_row mc k p t g"
    unfolding holds_row_def using get_hit[of now k f mc] by (cases "fst (mc_get now k f mc)") auto
qed (auto simp: holds_row_def cache_ok_insert cache_ok_sweep dest!: row_of_insert row_of_sweep)

end
