(* ===== verification/Ov_Meta_Layer.thy ===== *)
theory Ov_Meta_Layer
  imports Ov_Meta_Cache Ov_Ext Ov_Authn
begin

text \<open>
  The metadata-cache layer (\<open>ovstorage-plugin-cache/src/metadata_cache.rs\<close>, with the
  cacheability rules of \<open>lib.rs\<close> and the stream wrapper \<open>GapSweepStream\<close> of
  \<open>notification_drain.rs\<close>): \<open>stat\<close> and \<open>list\<close> over the metadata cache, the list-backed stat, the
  invalidation that every mutation and every change event performs.

  The layer below is the parameter record \<open>meta_inner\<close> over its own state; \<open>mi_now\<close> is the
  clock, which calls to the layer below may advance. A request handler is a function from the
  layer's state to its result and the new state; cache calls with no suspension point between them
  read one instant. The registry of watched directories (\<open>CacheWatchState\<close>) is represented by
  the sequence of addresses handed to its \<open>note_cached\<close>; nothing the handlers return depends on
  it. Cancellation tokens are passed through unread and left out.
\<close>

section \<open>What may be cached\<close>

definition list_options_are_cacheable_for_stat :: "list_options \<Rightarrow> bool" where
  "list_options_are_cacheable_for_stat options \<longleftrightarrow>
     \<not> lo_recursive options \<and> lo_max_results options = None \<and> lo_page_token options = None"

definition stat_is_cacheable :: "url \<Rightarrow> bool" where
  "stat_is_cacheable addr \<longleftrightarrow> \<not> is_directory addr"

definition list_is_cacheable :: "url \<Rightarrow> list_options \<Rightarrow> bool" where
  "list_is_cacheable prefx options \<longleftrightarrow>
     list_options_are_cacheable_for_stat options \<and> url_query prefx = None \<and> url_fragment prefx = None"

section \<open>Configuration\<close>

definition cache_config_u64 :: "config_value \<Rightarrow> nat result" where
  "cache_config_u64 value =
     (case value of
        Config_Int v \<Rightarrow> if 0 \<le> v then Inr (nat v) else Inl Err_InvalidArgument
      | _ \<Rightarrow> Inl Err_InvalidArgument)"

definition parse_watch_invalidation :: "layer_config \<Rightarrow> bool result" where
  "parse_watch_invalidation config =
     (case config ''watch_invalidation'' of
        None \<Rightarrow> Inr False
      | Some (Config_Bool value) \<Rightarrow> Inr value
      | Some _ \<Rightarrow> Inl Err_InvalidArgument)"

definition config_limit :: "layer_config \<Rightarrow> string \<Rightarrow> nat option \<Rightarrow> nat option result" where
  "config_limit config k dflt =
     (case config k of
        None \<Rightarrow> Inr dflt
      | Some value \<Rightarrow> (case cache_config_u64 value of Inl e \<Rightarrow> Inl e | Inr n \<Rightarrow> Inr (Some n)))"

text \<open>The cache and the watch switch of a new wrapper; a host-owned cache is used as it is.\<close>

definition create_wrapper :: "metadata_cache option \<Rightarrow> layer_config \<Rightarrow> (metadata_cache \<times> bool) result" where
  "create_wrapper shared config =
     (let cache =
        (case shared of
           Some c \<Rightarrow> Inr c
         | None \<Rightarrow>
             (case config_limit config ''max_entries'' (mcc_max_entries metadata_cache_config_default) of
                Inl e \<Rightarrow> Inl e
              | Inr entries \<Rightarrow>
                  (case config_limit config ''ttl_seconds'' (mcc_ttl_seconds metadata_cache_config_default) of
                     Inl e \<Rightarrow> Inl e
                   | Inr ttl \<Rightarrow>
                       Inr (metadata_cache_new \<lparr>mcc_max_entries = entries, mcc_ttl_seconds = ttl\<rparr>))))
      in case cache of
           Inl e \<Rightarrow> Inl e
         | Inr c \<Rightarrow> (case parse_watch_invalidation config of Inl e \<Rightarrow> Inl e | Inr w \<Rightarrow> Inr (c, w)))"

section \<open>The layer and the one below\<close>

record 's meta_inner =
  mi_now :: "'s \<Rightarrow> nat"
  mi_stat :: "extensions \<Rightarrow> url \<Rightarrow> stat_options \<Rightarrow> 's \<Rightarrow> object_info result \<times> 's"
  mi_list :: "extensions \<Rightarrow> url \<Rightarrow> list_options \<Rightarrow> 's \<Rightarrow> list_page result \<times> 's"
  mi_root_info_for :: "url \<Rightarrow> extensions \<Rightarrow> 's \<Rightarrow> root_info result \<times> 's"

record 's meta_state =
  ms_cache :: metadata_cache
  ms_noted :: "url list"
  ms_inner :: 's

text \<open>The crates and the hash that the handlers use.\<close>

record meta_env =
  me_crate :: url_crate
  me_digest :: "string \<Rightarrow> string option \<Rightarrow> nat"

type_synonym ('s, 'a) meta_action = "'s meta_state \<Rightarrow> 'a result \<times> 's meta_state"

definition note_cached :: "url \<Rightarrow> 's meta_state \<Rightarrow> 's meta_state" where
  "note_cached addr st = st\<lparr>ms_noted := ms_noted st @ [addr]\<rparr>"

text \<open>A call of the layer below.\<close>

definition call_below :: "('s \<Rightarrow> 'a \<times> 's) \<Rightarrow> 's meta_state \<Rightarrow> 'a \<times> 's meta_state" where
  "call_below f st = (let (r, s) = f (ms_inner st) in (r, st\<lparr>ms_inner := s\<rparr>))"

definition principal_of :: "extensions \<Rightarrow> string option" where
  "principal_of ext =
     map_option (\<lambda>bytes.
       if utf8_valid bytes then ''s:'' @ bytes else ''b:'' @ hex_string bytes)
     (ext PRINCIPAL_ID)"

definition invalidate_for :: "meta_env \<Rightarrow> url \<Rightarrow> 's meta_state \<Rightarrow> 's meta_state" where
  "invalidate_for E addr st =
     st\<lparr>ms_cache := invalidate_lists_containing (me_crate E) addr
                      (invalidate_address (me_crate E) addr (ms_cache st))\<rparr>"

definition invalidate_under :: "meta_env \<Rightarrow> url \<Rightarrow> 's meta_state \<Rightarrow> 's meta_state" where
  "invalidate_under E addr st = st\<lparr>ms_cache := invalidate_prefix (me_crate E) addr (ms_cache st)\<rparr>"

text \<open>The pair of sweeps for a subtree of which nothing is known any more.\<close>

definition sweep_subtree :: "meta_env \<Rightarrow> url \<Rightarrow> 's meta_state \<Rightarrow> 's meta_state" where
  "sweep_subtree E prefx st =
     st\<lparr>ms_cache := invalidate_lists_containing (me_crate E) prefx
                      (invalidate_prefix (me_crate E) prefx (ms_cache st))\<rparr>"

section \<open>Filling from a listing\<close>

definition stat_key :: "meta_env \<Rightarrow> string option \<Rightarrow> url \<Rightarrow> url \<Rightarrow> metadata_cache_key" where
  "stat_key E who addr credential =
     \<lparr>mk_kind = MK_Stat, mk_principal_id = who, mk_address = node_address (me_crate E) addr,
      mk_credential_scope = credential_scope (me_digest E) credential\<rparr>"

definition list_key :: "meta_env \<Rightarrow> string option \<Rightarrow> url \<Rightarrow> metadata_cache_key" where
  "list_key E who prefx =
     \<lparr>mk_kind = MK_List, mk_principal_id = who,
      mk_address = snd (node_spellings (me_crate E) prefx),
      mk_credential_scope = credential_scope (me_digest E) prefx\<rparr>"

fun store_items ::
    "meta_env \<Rightarrow> nat \<Rightarrow> url \<Rightarrow> string option \<Rightarrow> cost_flags \<Rightarrow> object_info list \<Rightarrow>
     bool \<times> metadata_cache \<Rightarrow> bool \<times> metadata_cache" where
  "store_items E now prefx who flags [] (retained, mc) = (retained, mc)"
| "store_items E now prefx who flags (item # items) (retained, mc) =
     (if oi_kind item = Kind_File then
        (let (kept, mc') =
               mc_insert now (stat_key E who (oi_address item) prefx) (PL_Stat item) flags mc in
         store_items E now prefx who flags items (retained \<or> kept, mc'))
      else store_items E now prefx who flags items (retained, mc))"

definition store_list ::
    "meta_env \<Rightarrow> nat \<Rightarrow> url \<Rightarrow> list_options \<Rightarrow> list_page \<Rightarrow> string option \<Rightarrow> 's meta_state \<Rightarrow> 's meta_state"
where
  "store_list E now prefx options page who st =
     (if \<not> list_is_cacheable prefx options then st
      else
        (let flags = \<lparr>cf_full_metadata = False, cf_versioned_address = lo_versioned_address options\<rparr>;
             first = mc_insert now (list_key E who prefx) (PL_List page) flags (ms_cache st);
             (retained, mc) = store_items E now prefx who flags (page_items page) first;
             st' = st\<lparr>ms_cache := mc\<rparr>
         in if retained then note_cached prefx st' else st'))"

section \<open>Stat from a parent listing\<close>

datatype list_backed_stat = LB_Found object_info | LB_NotFound | LB_Unavailable

definition find_in_page :: "url_crate \<Rightarrow> list_page \<Rightarrow> url \<Rightarrow> list_backed_stat" where
  "find_in_page C page addr =
     (case find (\<lambda>item. node_address C (oi_address item) = node_address C addr \<and> oi_kind item = Kind_File)
             (page_items page) of
        Some item \<Rightarrow> LB_Found (item\<lparr>oi_address := addr\<rparr>)
      | None \<Rightarrow>
          (if \<exists>item \<in> set (page_items page).
                oi_kind item \<noteq> Kind_File \<and> node_key (oi_address item) = node_key addr then LB_Unavailable
           else if page_next_token page \<noteq> None then LB_Unavailable
           else LB_NotFound))"

definition stat_from_parent_list ::
    "meta_env \<Rightarrow> 's meta_inner \<Rightarrow> extensions \<Rightarrow> url \<Rightarrow> cost_flags \<Rightarrow> 's meta_state \<Rightarrow>
     list_backed_stat \<times> 's meta_state" where
  "stat_from_parent_list E inner ext addr requested st =
     (if url_query addr \<noteq> None \<or> url_fragment addr \<noteq> None then (LB_Unavailable, st)
      else if is_directory addr then (LB_Unavailable, st)
      else
        (case parent_and_name (me_crate E) addr of
           None \<Rightarrow> (LB_Unavailable, st)
         | Some (parent, _) \<Rightarrow>
             (let who = principal_of ext;
                  (found, mc) = mc_get (mi_now inner (ms_inner st)) (list_key E who parent) requested (ms_cache st);
                  st1 = st\<lparr>ms_cache := mc\<rparr> in
              case found of
                Lookup_Hit (PL_List page) \<Rightarrow> (find_in_page (me_crate E) page addr, st1)
              | _ \<Rightarrow>
                  (if \<not> flags_is_empty requested then (LB_Unavailable, st1)
                   else
                     (let (root, st2) = call_below (mi_root_info_for inner parent Map.empty) st1;
                          opted_in = (case root of
                             Inr info \<Rightarrow> supports_list (ri_capabilities info) \<and>
                                         wants_list_backed_stat (ri_capabilities info)
                           | Inl _ \<Rightarrow> False) in
                      if \<not> opted_in then (LB_Unavailable, st2)
                      else
                        (let (listed, st3) = call_below (mi_list inner ext parent list_options_default) st2 in
                         case listed of
                           Inl _ \<Rightarrow> (LB_Unavailable, st3)
                         | Inr page \<Rightarrow>
                             (find_in_page (me_crate E) page addr,
                              store_list E (mi_now inner (ms_inner st3)) parent list_options_default page
                                who st3)))))))"

section \<open>Stat and list\<close>

definition meta_stat ::
    "meta_env \<Rightarrow> 's meta_inner \<Rightarrow> extensions \<Rightarrow> url \<Rightarrow> stat_options \<Rightarrow> ('s, object_info) meta_action"
where
  "meta_stat E inner ext addr options st =
     (if ext RESOLVED_OAUTH_CREDENTIAL \<noteq> None then call_below (mi_stat inner ext addr options) st
      else
        (let requested = flags_of_stat options;
             cache_key = (if stat_is_cacheable addr then Some (stat_key E (principal_of ext) addr addr) else None);
             (found, st1) =
               (case cache_key of
                  None \<Rightarrow> (Lookup_Miss, st)
                | Some k \<Rightarrow>
                    (let (r, mc) = mc_get (mi_now inner (ms_inner st)) k requested (ms_cache st)
                     in (r, st\<lparr>ms_cache := mc\<rparr>))) in
         case found of
           Lookup_Hit (PL_Stat info) \<Rightarrow> (Inr (info\<lparr>oi_address := addr\<rparr>), note_cached addr st1)
         | _ \<Rightarrow>
             (let upstream = (case found of Lookup_Narrower stored \<Rightarrow> flags_union stored requested | _ \<Rightarrow> requested);
                  (listed, st2) =
                    (if cache_key \<noteq> None then stat_from_parent_list E inner ext addr requested st1
                     else (LB_Unavailable, st1)) in
              case listed of
                LB_Found info \<Rightarrow> (Inr info, note_cached addr st2)
              | LB_NotFound \<Rightarrow> (Inl Err_NotFound, note_cached addr st2)
              | LB_Unavailable \<Rightarrow>
                  (let (answer, st3) = call_below (mi_stat inner ext addr (widen_stat upstream options)) st2 in
                   case answer of
                     Inl e \<Rightarrow> (Inl e, st3)
                   | Inr info \<Rightarrow>
                       (Inr info,
                        (case cache_key of
                           None \<Rightarrow> st3
                         | Some k \<Rightarrow>
                             note_cached addr
                               (st3\<lparr>ms_cache := snd (mc_insert (mi_now inner (ms_inner st3)) k (PL_Stat info)
                                                         upstream (ms_cache st3))\<rparr>)))))))"

definition meta_list ::
    "meta_env \<Rightarrow> 's meta_inner \<Rightarrow> extensions \<Rightarrow> url \<Rightarrow> list_options \<Rightarrow> ('s, list_page) meta_action"
where
  "meta_list E inner ext prefx options st =
     (if ext RESOLVED_OAUTH_CREDENTIAL \<noteq> None then call_below (mi_list inner ext prefx options) st
      else
        (let (listed, st1) = call_below (mi_list inner ext prefx options) st in
         case listed of
           Inl e \<Rightarrow> (Inl e, st1)
         | Inr page \<Rightarrow>
             (Inr page, store_list E (mi_now inner (ms_inner st1)) prefx options page (principal_of ext) st1)))"

definition meta_list_stream :: "('s \<Rightarrow> 'a result \<times> 's) \<Rightarrow> ('s, 'a) meta_action" where
  "meta_list_stream inner_list_stream st = call_below inner_list_stream st"

section \<open>Mutations\<close>

record 'x node_request =
  nr_extensions :: extensions
  nr_address :: url
  nr_rest :: 'x

record 'x meta_pair_request =
  pq_extensions :: extensions
  pq_source :: url
  pq_destination :: url
  pq_rest :: 'x

datatype ('r, 'd) meta_write_step = Step_Done 'd | Step_Redirects 'r

type_synonym ('q, 's, 'a) inner_op = "'q \<Rightarrow> 's \<Rightarrow> 'a result \<times> 's"

definition then_invalidate :: "('a \<Rightarrow> 's meta_state \<Rightarrow> 's meta_state) \<Rightarrow> ('s, 'a) meta_action \<Rightarrow> ('s, 'a) meta_action" where
  "then_invalidate after act st =
     (let (r, st1) = act st in case r of Inl e \<Rightarrow> (Inl e, st1) | Inr v \<Rightarrow> (Inr v, after v st1))"

definition meta_write ::
    "meta_env \<Rightarrow> ('x node_request, 's, 'a) inner_op \<Rightarrow> 'x node_request \<Rightarrow> ('s, 'a) meta_action" where
  "meta_write E inner_write request =
     (let addr = nr_address request in
      then_invalidate (\<lambda>_. invalidate_for E addr) (call_below (inner_write request)))"

definition meta_write_stream ::
    "meta_env \<Rightarrow> ('x node_request, 's, 'a) inner_op \<Rightarrow> 'x node_request \<Rightarrow> ('s, 'a) meta_action" where
  "meta_write_stream E inner_write_stream request =
     (let addr = nr_address request in
      then_invalidate (\<lambda>_. invalidate_for E addr) (call_below (inner_write_stream request)))"

definition meta_delete ::
    "meta_env \<Rightarrow> ('x node_request, 's, unit) inner_op \<Rightarrow> 'x node_request \<Rightarrow> ('s, unit) meta_action" where
  "meta_delete E inner_delete request =
     (let addr = nr_address request in
      then_invalidate (\<lambda>_. invalidate_for E addr) (call_below (inner_delete request)))"

definition meta_copy ::
    "meta_env \<Rightarrow> ('x meta_pair_request, 's, 'a) inner_op \<Rightarrow> 'x meta_pair_request \<Rightarrow> ('s, 'a) meta_action" where
  "meta_copy E inner_copy request =
     (let destination = pq_destination request in
      then_invalidate (\<lambda>_. invalidate_for E destination) (call_below (inner_copy request)))"

definition meta_rename ::
    "meta_env \<Rightarrow> ('x meta_pair_request, 's, unit) inner_op \<Rightarrow> 'x meta_pair_request \<Rightarrow> ('s, unit) meta_action" where
  "meta_rename E inner_rename request =
     (let source = pq_source request; destination = pq_destination request in
      then_invalidate (\<lambda>_ st. invalidate_for E destination (invalidate_for E source st))
        (call_below (inner_rename request)))"

definition meta_update_metadata ::
    "meta_env \<Rightarrow> ('x node_request, 's, 'a) inner_op \<Rightarrow> 'x node_request \<Rightarrow> ('s, 'a) meta_action" where
  "meta_update_metadata E inner_update request =
     (let addr = nr_address request in
      then_invalidate (\<lambda>_. invalidate_for E addr) (call_below (inner_update request)))"

definition meta_create_directory ::
    "meta_env \<Rightarrow> ('x node_request, 's, 'a) inner_op \<Rightarrow> 'x node_request \<Rightarrow> ('s, 'a) meta_action" where
  "meta_create_directory E inner_create request =
     (let addr = nr_address request in
      then_invalidate (\<lambda>_. invalidate_for E addr) (call_below (inner_create request)))"

definition meta_delete_directory ::
    "meta_env \<Rightarrow> ('x node_request, 's, unit) inner_op \<Rightarrow> 'x node_request \<Rightarrow> ('s, unit) meta_action" where
  "meta_delete_directory E inner_delete_directory request =
     (let addr = nr_address request in
      then_invalidate (\<lambda>_ st. invalidate_under E addr (invalidate_for E addr st))
        (call_below (inner_delete_directory request)))"

definition meta_continue_write ::
    "meta_env \<Rightarrow> ('x node_request, 's, ('r, 'd) meta_write_step) inner_op \<Rightarrow> 'x node_request \<Rightarrow>
     ('s, ('r, 'd) meta_write_step) meta_action" where
  "meta_continue_write E inner_continue request =
     (let addr = nr_address request in
      then_invalidate
        (\<lambda>step. case step of Step_Done _ \<Rightarrow> invalidate_for E addr | Step_Redirects _ \<Rightarrow> id)
        (call_below (inner_continue request)))"

definition invalidate_cached_subtree ::
    "meta_env \<Rightarrow> (url \<Rightarrow> 's \<Rightarrow> 's) \<Rightarrow> url \<Rightarrow> 's meta_state \<Rightarrow> 's meta_state" where
  "invalidate_cached_subtree E inner_sweep prefx st =
     (let st1 = sweep_subtree E prefx st in st1\<lparr>ms_inner := inner_sweep prefx (ms_inner st1)\<rparr>)"

section \<open>Change events\<close>

datatype change_kind = CK_Created | CK_Modified | CK_Deleted | CK_MetadataChanged

datatype 'd watch_event = Watch_Object url change_kind 'd | Watch_Lapsed 'd

fun on_watch_event :: "meta_env \<Rightarrow> url \<Rightarrow> 'd watch_event \<Rightarrow> 's meta_state \<Rightarrow> 's meta_state" where
  "on_watch_event E watched (Watch_Object addr kind rest) st =
     (let st1 = invalidate_for E addr st in
      if kind = CK_Deleted then invalidate_under E addr st1 else st1)"
| "on_watch_event E watched (Watch_Lapsed rest) st = sweep_subtree E watched st"

text \<open>
  The stream wrapper. The stream below is the list of the items it still yields; \<open>cancelled\<close> is the
  state of the teardown token when the item is asked for.
\<close>

record 'd gap_sweep_stream =
  gs_inner :: "'d watch_event result list"
  gs_on_gap :: bool
  gs_sweep_on_clean_end :: bool
  gs_done :: bool

definition gap_sweep_new :: "'d watch_event result list \<Rightarrow> bool \<Rightarrow> 'd gap_sweep_stream" where
  "gap_sweep_new inner sweep_on_clean_end =
     \<lparr>gs_inner = inner, gs_on_gap = True, gs_sweep_on_clean_end = sweep_on_clean_end, gs_done = False\<rparr>"

definition gap_sweep ::
    "meta_env \<Rightarrow> url \<Rightarrow> 'd gap_sweep_stream \<times> 's meta_state \<Rightarrow> 'd gap_sweep_stream \<times> 's meta_state" where
  "gap_sweep E watched x =
     (let (g, st) = x in
      if gs_on_gap g then (g\<lparr>gs_on_gap := False\<rparr>, sweep_subtree E watched st) else (g, st))"

definition gap_sweep_next ::
    "meta_env \<Rightarrow> url \<Rightarrow> bool \<Rightarrow> 'd gap_sweep_stream \<times> 's meta_state \<Rightarrow>
     'd watch_event result option \<times> 'd gap_sweep_stream \<times> 's meta_state" where
  "gap_sweep_next E watched cancelled x =
     (let (g, st) = x in
      if gs_done g then (None, g, st)
      else
        (case gs_inner g of
           Inr event # items \<Rightarrow> (Some (Inr event), g\<lparr>gs_inner := items\<rparr>, on_watch_event E watched event st)
         | Inl err # items \<Rightarrow>
             (Some (Inl err), gap_sweep E watched (g\<lparr>gs_inner := items, gs_done := True\<rparr>, st))
         | [] \<Rightarrow>
             (if gs_sweep_on_clean_end g \<and> \<not> cancelled
              then (None, gap_sweep E watched (g\<lparr>gs_done := True\<rparr>, st))
              else (None, g\<lparr>gs_done := True\<rparr>, st))))"

definition MANAGED_NOTIFICATION_DRAIN_EXTENSION :: string where
  "MANAGED_NOTIFICATION_DRAIN_EXTENSION = ''ovstorage.managed_notification_drain''"

definition meta_watch_directory ::
    "extensions \<Rightarrow> ('s \<Rightarrow> 'd watch_event result list result \<times> 's) \<Rightarrow> ('s, 'd gap_sweep_stream) meta_action" where
  "meta_watch_directory ext inner_watch st =
     (let sweep_on_clean_end = (ext MANAGED_NOTIFICATION_DRAIN_EXTENSION = None);
          (r, st1) = call_below inner_watch st in
      case r of
        Inl e \<Rightarrow> (Inl e, st1)
      | Inr stream \<Rightarrow> (Inr (gap_sweep_new stream sweep_on_clean_end), st1))"

end
