(* ===== verification/Ov_Meta_Laws.thy ===== *)
theory Ov_Meta_Laws
  imports Ov_Meta_Cache
begin

text \<open>
  What the metadata cache guarantees: the budget on every sequence of operations, the origin of
  every answer, the order of eviction, and that the string comparison of the sweeps is containment
  of addresses.
\<close>

section \<open>The strings that rows are keyed on\<close>

text \<open>
  An address as the layers pass it on: canonical, with an authority whose host can be told from its
  port (a host with a colon is a bracketed IPv6 address), and with no credential unless it has a
  host. \<open>hostless_ok\<close> is what the crate's \<open>set_host\<close> does to a hostless address that already
  spells its empty authority.
\<close>

definition host_ok :: "string \<Rightarrow> bool" where
  "host_ok h \<longleftrightarrow> h \<noteq> [] \<and> (\<forall>c \<in> set h. \<not> is_authority_end c) \<and>
     (CHR '':'' \<notin> set h \<or> last h = CHR '']'')"

definition cacheable_url :: "url \<Rightarrow> bool" where
  "cacheable_url u \<longleftrightarrow> canonical_url u \<and> url_has_authority u \<and>
     (\<forall>c \<in> set (url_scheme u). c \<noteq> CHR '':'' \<and> \<not> is_authority_end c) \<and>
     (case url_host u of None \<Rightarrow> url_username u = [] \<and> url_password u = None | Some h \<Rightarrow> host_ok h)"

definition hostless_ok :: "url_crate \<Rightarrow> bool" where
  "hostless_ok C \<longleftrightarrow> (\<forall>u. url_host u = None \<longrightarrow> url_has_authority u \<longrightarrow>
     crate_set_host C (Some []) u \<in> {None, Some u, Some (u\<lparr>url_host := Some []\<rparr>)})"

abbreviation cache_crate :: "url_crate \<Rightarrow> bool" where
  "cache_crate C \<equiv> crate_ok C \<and> as_str_ok C \<and> hostless_ok C"

definition host_port_str :: "url \<Rightarrow> string" where
  "host_port_str u = (case url_host u of Some h \<Rightarrow> h | None \<Rightarrow> []) @
     (case url_port u of Some p \<Rightarrow> CHR '':'' # digits p | None \<Rightarrow> [])"

definition origin_str :: "url \<Rightarrow> string" where
  "origin_str u = url_scheme u @ CHR '':'' # ''//'' @ host_port_str u"

lemma cache_crate_ref: "cache_crate ref_crate"
proof -
  have "hostless_ok ref_crate" unfolding hostless_ok_def by (simp add: ref_crate_def)
  moreover have "as_str_ok ref_crate" by (simp add: as_str_ok_def ref_crate_def)
  ultimately show ?thesis by simp
qed

lemma digits_clean: "list_all is_digit (digits n)" "digits n \<noteq> []"
  using digits_correct by blast+

lemma is_digit_not: "is_digit c \<Longrightarrow> c \<noteq> CHR '':'' \<and> c \<noteq> CHR ''/'' \<and> c \<noteq> CHR ''?'' \<and> c \<noteq> CHR '']''"
  by (auto simp: is_digit_def)

lemma digits_no_delim: "CHR '':'' \<notin> set (digits n)" "CHR ''/'' \<notin> set (digits n)" "CHR ''?'' \<notin> set (digits n)"
  using digits_clean(1)[of n] is_digit_not by (auto simp: list_all_iff)

lemma digits_same: "digits m = digits n \<longleftrightarrow> m = n"
  using digits_correct by metis

lemma authority_ends [simp]: "is_authority_end (CHR ''?'')"
  by (simp add: is_authority_end_def is_tail_delim_def)

lemma host_port_clean:
  assumes "cacheable_url u"
  shows "CHR ''/'' \<notin> set (host_port_str u)" "CHR ''?'' \<notin> set (host_port_str u)"
  using assms digits_no_delim delims(1) authority_ends
  by (auto simp: cacheable_url_def host_port_str_def host_ok_def split: option.splits)

lemma host_port_inj:
  assumes "cacheable_url u" "cacheable_url v"
  shows "host_port_str u = host_port_str v \<longleftrightarrow> url_host u = url_host v \<and> url_port u = url_port v"
proof
  have colon_last: "last h = CHR '']''" if "host_ok h" "CHR '':'' \<in> set h" for h
    using that by (simp add: host_ok_def)
  have last_digit: "last (x @ CHR '':'' # digits n) \<noteq> CHR '']''" for x n
    using digits_clean[of n] is_digit_not by (auto simp: list_all_iff last_ConsR)
  have cut: "x = y \<and> m = n" if "x @ CHR '':'' # digits m = y @ CHR '':'' # digits n" for x y m n
  proof -
    from that have "rsplit_once (CHR '':'') (x @ CHR '':'' # digits m) = Some (y, digits n)"
      by (simp add: rsplit_once_Some digits_no_delim)
    moreover have "rsplit_once (CHR '':'') (x @ CHR '':'' # digits m) = Some (x, digits m)"
      by (simp add: rsplit_once_Some digits_no_delim)
    ultimately show ?thesis by (simp add: digits_same)
  qed
  have hosts: "(case url_host w of Some h \<Rightarrow> h | None \<Rightarrow> []) = [] \<or>
      host_ok (case url_host w of Some h \<Rightarrow> h | None \<Rightarrow> [])" if "cacheable_url w" for w
    using that by (auto simp: cacheable_url_def split: option.splits)
  have host_eq: "url_host u = url_host v"
    if "(case url_host u of Some h \<Rightarrow> h | None \<Rightarrow> []) = (case url_host v of Some h \<Rightarrow> h | None \<Rightarrow> [])"
    using that assms by (auto simp: cacheable_url_def host_ok_def split: option.splits)
  have mixed: False if "x @ CHR '':'' # digits n = y" "y = [] \<or> host_ok y" for x y n
    using that colon_last[of y] last_digit[of x n] by auto
  assume eq: "host_port_str u = host_port_str v"
  show "url_host u = url_host v \<and> url_port u = url_port v"
  proof (cases "url_port u")
    case None
    show ?thesis
    proof (cases "url_port v")
      case None
      then show ?thesis using eq \<open>url_port u = None\<close> host_eq by (simp add: host_port_str_def)
    next
      case (Some n)
      then show ?thesis using eq[symmetric] \<open>url_port u = None\<close> mixed[OF _ hosts[OF assms(1)]]
        unfolding host_port_str_def by (metis append_Nil2 option.simps(4,5))
    qed
  next
    case (Some m)
    show ?thesis
    proof (cases "url_port v")
      case None
      then show ?thesis using eq \<open>url_port u = Some m\<close> mixed[OF _ hosts[OF assms(2)]]
        unfolding host_port_str_def by (metis append_Nil2 option.simps(4,5))
    next
      case (Some n)
      have "(case url_host u of Some h \<Rightarrow> h | None \<Rightarrow> []) = (case url_host v of Some h \<Rightarrow> h | None \<Rightarrow> []) \<and> m = n"
        using eq \<open>url_port u = Some m\<close> Some by (intro cut) (simp add: host_port_str_def)
      then show ?thesis using host_eq \<open>url_port u = Some m\<close> Some by simp
    qed
  qed
qed (simp add: host_port_str_def)

lemma origin_inj:
  assumes "cacheable_url u" "cacheable_url v"
  shows "origin_str u = origin_str v \<longleftrightarrow>
    url_scheme u = url_scheme v \<and> url_host u = url_host v \<and> url_port u = url_port v"
proof
  assume o: "origin_str u = origin_str v"
  have c: "CHR '':'' \<notin> set (url_scheme u)" "CHR '':'' \<notin> set (url_scheme v)"
    using assms by (auto simp: cacheable_url_def)
  then have "split_once (CHR '':'') (origin_str u) = Some (url_scheme u, ''//'' @ host_port_str u)"
    "split_once (CHR '':'') (origin_str v) = Some (url_scheme v, ''//'' @ host_port_str v)"
    by (simp_all add: split_once_Some origin_str_def)
  with o show "url_scheme u = url_scheme v \<and> url_host u = url_host v \<and> url_port u = url_port v"
    using host_port_inj[OF assms] by simp
qed (simp add: origin_str_def host_port_str_def)

text \<open>The key of an address: its origin, path and query, whatever credential it carries.\<close>

lemma node_address_eq:
  assumes C: "cache_crate C" and u: "cacheable_url u"
  shows "node_address C u = origin_str u @ url_path u @ query_str u"
proof -
  let ?b = "u\<lparr>url_username := [], url_password := None\<rparr>"
  have frag: "url_fragment u = None" using u canonical_fragment by (simp add: cacheable_url_def)
  have auth: "url_has_authority u" using u by (simp add: cacheable_url_def)
  have ser: "serialized w = origin_str w @ url_path w @ query_str w"
    if "url_has_authority w" "url_username w = []" "url_password w = None" "url_fragment w = None" for w
    using that by (simp add: serialized_def authority_str_def userinfo_str_def origin_str_def
        host_port_str_def tail_str_def)
  have o': "origin_str ?b = origin_str u" by (simp add: origin_str_def host_port_str_def)
  show ?thesis
  proof (cases "url_host u")
    case None
    then have cred: "url_username u = []" "url_password u = None" using u by (simp_all add: cacheable_url_def)
    have "crate_set_host C (Some []) u \<in> {None, Some u, Some (u\<lparr>url_host := Some []\<rparr>)}"
      using C None auth by (simp add: hostless_ok_def)
    then have "node_address_url C u \<in> {u, u\<lparr>url_host := Some []\<rparr>}"
      using cred None by (auto simp: node_address_url_def or_keep_def)
    moreover have "origin_str (u\<lparr>url_host := Some []\<rparr>) = origin_str u"
      using None by (simp add: origin_str_def host_port_str_def)
    ultimately show ?thesis using C ser[of u] ser[of "u\<lparr>url_host := Some []\<rparr>"] auth cred frag
      by (auto simp: node_address_def as_str_ok_def)
  next
    case (Some h)
    have "node_address_url C u = ?b"
      using C Some by (auto simp: node_address_url_def or_keep_def setters_ok_def)
    then show ?thesis using C ser[of ?b] auth frag o' by (simp add: node_address_def as_str_ok_def)
  qed
qed

section \<open>The string rule of the sweeps is containment\<close>

definition below :: "string list \<Rightarrow> string" where
  "below xs = (if xs = [] then [] else CHR ''/'' # path_of xs)"

lemma dir_path_split: "good_segs (xs @ zs) \<Longrightarrow>
  \<exists>rest. dir_path (xs @ zs) e = below xs @ rest \<and> (rest = [] \<or> starts_with ''/'' rest)"
proof (cases "xs = [] \<or> zs = []")
  case True
  then show ?thesis by (auto simp: below_def dir_path_def)
next
  case False
  then show ?thesis by (simp add: below_def dir_path_def path_of_append)
qed

lemma below_prefix:
  assumes xs: "good_segs xs" and ys: "good_segs ys"
    and eq: "dir_path ys e = below xs @ rest" and rest: "rest = [] \<or> starts_with ''/'' rest"
  shows "prefix xs ys"
proof (cases "xs = []")
  case False
  let ?tail = "if e \<and> ys \<noteq> [] then ''/'' else []"
  from eq False have p: "path_of ys @ ?tail = path_of xs @ rest" by (simp add: dir_path_def below_def)
  have "path_of xs \<noteq> []" "last (path_of xs) \<noteq> CHR ''/''" using good_last[OF xs False] by auto
  with p have "ys \<noteq> []" by auto
  then have segs_ys: "segs (path_of ys @ ?tail) = ys @ (if e then [[]] else [])"
    using segs_path_of[of ys] ys by (simp add: good_segs_def)
  show ?thesis
  proof (cases rest)
    case Nil
    with p have "path_of ys @ ?tail = path_of xs" by simp
    moreover have "?tail = []"
      using \<open>last (path_of xs) \<noteq> CHR ''/''\<close> arg_cong[OF \<open>path_of ys @ ?tail = path_of xs\<close>, of last]
      by (cases "e \<and> ys \<noteq> []") auto
    ultimately show ?thesis using path_of_inj[OF xs ys] by simp
  next
    case (Cons c r)
    with rest have "rest = CHR ''/'' # r" by simp
    then have "segs (path_of ys @ ?tail) = xs @ segs r"
      unfolding p using segs_path_of[OF False] xs by (simp add: good_segs_def)
    with segs_ys have "xs @ segs r = ys @ (if e then [[]] else [])" by simp
    then have "prefix xs (ys @ (if e then [[]] else []))" unfolding prefix_def by metis
    moreover have "xs \<noteq> ys @ [[]]" using xs by (auto simp: good_segs_def)
    ultimately show ?thesis by (auto simp: prefix_snoc split: if_splits)
  qed
qed simp

lemma origin_cut:
  assumes "cacheable_url u" "cacheable_url p" "origin_str u @ CHR ''/'' # y = origin_str p @ r"
    and "r = [] \<or> starts_with ''/'' r"
  shows "origin_str u = origin_str p \<and> CHR ''/'' # y = r"
proof -
  have c: "CHR '':'' \<notin> set (url_scheme u)" "CHR '':'' \<notin> set (url_scheme p)"
    using assms by (auto simp: cacheable_url_def)
  have "split_once (CHR '':'') (origin_str u @ CHR ''/'' # y) = Some (url_scheme u, ''//'' @ host_port_str u @ CHR ''/'' # y)"
    "split_once (CHR '':'') (origin_str p @ r) = Some (url_scheme p, ''//'' @ host_port_str p @ r)"
    using c by (simp_all add: split_once_Some origin_str_def)
  with assms(3) have s: "url_scheme u = url_scheme p" "host_port_str u @ CHR ''/'' # y = host_port_str p @ r" by auto
  show ?thesis
  proof (cases r)
    case Nil
    with s(2) have "CHR ''/'' \<in> set (host_port_str p)" by (metis append_Nil2 in_set_conv_decomp)
    then show ?thesis using host_port_clean[OF assms(2)] by simp
  next
    case (Cons c r')
    with assms(4) have r: "r = CHR ''/'' # r'" by simp
    have "split_once (CHR ''/'') (host_port_str u @ CHR ''/'' # y) = Some (host_port_str u, y)"
      "split_once (CHR ''/'') (host_port_str p @ r) = Some (host_port_str p, r')"
      using host_port_clean[OF assms(1)] host_port_clean[OF assms(2)] by (simp_all add: split_once_Some r)
    with s(2) have "host_port_str u = host_port_str p" "y = r'" by auto
    with s(1) show ?thesis by (simp add: origin_str_def r)
  qed
qed

lemma split_query_node:
  assumes "cacheable_url u" and that: "CHR ''?'' \<notin> set p"
  shows "split_query (origin_str u @ p @ query_str u) = (origin_str u @ p, url_query u)"
proof -
  have "CHR ''?'' \<notin> set (url_scheme u)"
  proof
    assume "CHR ''?'' \<in> set (url_scheme u)"
    with assms(1) have "\<not> is_authority_end (CHR ''?'')" unfolding cacheable_url_def by blast
    then show False by simp
  qed
  then have o: "CHR ''?'' \<notin> set (origin_str u)" using host_port_clean(2)[OF assms(1)] by (simp add: origin_str_def)
  then show ?thesis
  proof (cases "url_query u")
    case None
    with o that have "split_once (CHR ''?'') (origin_str u @ p @ query_str u) = None"
      by (simp add: split_once_None)
    with None show ?thesis by (simp add: split_query_def)
  next
    case (Some q)
    with o that have "split_once (CHR ''?'') (origin_str u @ p @ query_str u) = Some (origin_str u @ p, q)"
      by (simp add: split_once_Some)
    with Some show ?thesis by (simp add: split_query_def)
  qed
qed

lemma stripped_prefix:
  assumes "good_segs xs"
  shows "(case strip_suffix ''/'' (a @ dir_path xs d) of Some q \<Rightarrow> q | None \<Rightarrow> a @ dir_path xs d) = a @ below xs"
proof (cases "xs = [] \<or> d")
  case True
  then have "a @ dir_path xs d = (a @ below xs) @ ''/''" by (auto simp: dir_path_def below_def)
  then have "strip_suffix ''/'' (a @ dir_path xs d) = Some (a @ below xs)" by (simp only: strip_suffix_Some)
  then show ?thesis by simp
next
  case False
  then have "a @ dir_path xs d = a @ below xs" by (simp add: dir_path_def below_def)
  moreover have "last (a @ below xs) \<noteq> CHR ''/''"
    using False good_last[OF assms] by (simp add: below_def)
  then have "\<not> suffix ''/'' (a @ below xs)" by (auto simp: suffix_def)
  then have "strip_suffix ''/'' (a @ below xs) = None" using strip_suffix_None by blast
  ultimately show ?thesis by simp
qed

lemma under_prefix_iff:
  assumes u: "cacheable_url u" and p: "cacheable_url p"
  shows "is_under_prefix (origin_str u @ url_path u @ query_str u) (origin_str p @ url_path p @ query_str p) \<longleftrightarrow>
    is_ancestor_or_self p u"
proof -
  have can: "canonical_url u" "canonical_url p" using u p by (auto simp: cacheable_url_def)
  obtain xs d ys e where xs: "good_segs xs" "url_path p = dir_path xs d"
    and ys: "good_segs ys" "url_path u = dir_path ys e"
    using canonical_plain can by (metis plain_path_def)
  have segs: "node_segs p = xs" "node_segs u = ys" using dir_path_node xs ys by auto
  note sq = split_query_node[OF u, OF canonical_path_clean(1)[OF can(1)]]
    split_query_node[OF p, OF canonical_path_clean(1)[OF can(2)]]
  have core: "(case strip_prefix (origin_str p @ below xs) (origin_str u @ dir_path ys e) of
       Some rest \<Rightarrow> rest = [] \<or> starts_with ''/'' rest | None \<Rightarrow> False) \<longleftrightarrow>
     origin_str u = origin_str p \<and> prefix xs ys"  (is "?L \<longleftrightarrow> ?R")
  proof
    assume ?L
    then obtain rest where r: "origin_str u @ dir_path ys e = origin_str p @ below xs @ rest"
      "rest = [] \<or> starts_with ''/'' rest"
      by (auto simp: strip_prefix_Some split: option.splits)
    obtain y where y: "dir_path ys e = CHR ''/'' # y" by (simp add: dir_path_def)
    have "below xs @ rest = [] \<or> starts_with ''/'' (below xs @ rest)" using r(2) by (auto simp: below_def)
    then have "origin_str u = origin_str p \<and> dir_path ys e = below xs @ rest"
      using origin_cut[OF u p] r(1) unfolding y by blast
    then show ?R using below_prefix[OF xs(1) ys(1)] r(2) by blast
  next
    assume R: ?R
    then obtain zs where zs: "ys = xs @ zs" by (auto simp: prefix_def)
    then obtain rest where "dir_path ys e = below xs @ rest" "rest = [] \<or> starts_with ''/'' rest"
      using dir_path_split[of xs zs e] ys(1) by blast
    then show ?L using R by simp
  qed
  have rule: "is_under_prefix (origin_str u @ url_path u @ query_str u) (origin_str p @ url_path p @ query_str p) \<longleftrightarrow>
      (url_query p = None \<or> url_query p = url_query u) \<and>
      (case strip_prefix (origin_str p @ below xs) (origin_str u @ dir_path ys e) of
         Some rest \<Rightarrow> rest = [] \<or> starts_with ''/'' rest | None \<Rightarrow> False)"
    unfolding is_under_prefix_def sq Let_def prod.case
    unfolding xs(2) ys(2) stripped_prefix[OF xs(1), of "origin_str p" d] by simp
  show ?thesis
    unfolding rule core origin_inj[OF u p]
      ancestor_iff[OF canonical_plain[OF can(2)] canonical_plain[OF can(1)]] segs by auto
qed

text \<open>C31. The sweeps compare serialized addresses, cut at the query, instead of parsing every
  cached key. For addresses as the layers pass them on (canonical, with an authority), and whatever
  credentials they carry, that comparison is exactly containment of nodes: \<open>is_under_prefix\<close> on the
  two keys holds if and only if \<open>is_ancestor_or_self\<close> holds on the addresses.\<close>

theorem sweep_rule_is_containment:
  assumes "cache_crate C" "cacheable_url u" "cacheable_url p"
  shows "is_under_prefix (node_address C u) (node_address C p) \<longleftrightarrow> is_ancestor_or_self p u"
  using under_prefix_iff[OF assms(2,3)] assms by (simp add: node_address_eq)

theorem sweep_rule_is_containment_witness:
  "is_under_prefix
     (node_address ref_crate ((base_url ''s3'' (Some ''b'') ''/dir/x'')\<lparr>url_username := ''me'', url_query := Some ''versionId=1''\<rparr>))
     (node_address ref_crate (base_url ''s3'' (Some ''b'') ''/dir/'')) \<and>
   \<not> is_under_prefix (node_address ref_crate (base_url ''s3'' (Some ''b'') ''/dirs/x''))
     (node_address ref_crate (base_url ''s3'' (Some ''b'') ''/dir/''))"
proof -
  let ?u = "(base_url ''s3'' (Some ''b'') ''/dir/x'')\<lparr>url_username := ''me'', url_query := Some ''versionId=1''\<rparr>"
  let ?p = "base_url ''s3'' (Some ''b'') ''/dir/''" and ?v = "base_url ''s3'' (Some ''b'') ''/dirs/x''"
  have fixed: "canonical_of ?u = ?u" "canonical_of ?v = ?v" "canonical_of ?p = ?p" by code_simp+
  then have "canonical_url ?u" "canonical_url ?v" "canonical_url ?p"
    by (simp_all add: canonical_url_def url_wf_def base_url_def)
  then have "cacheable_url ?u" "cacheable_url ?v" "cacheable_url ?p"
    by (simp_all add: cacheable_url_def base_url_def host_ok_def is_authority_end_def is_tail_delim_def)
  moreover have "is_ancestor_or_self ?p ?u" "\<not> is_ancestor_or_self ?p ?v" by code_simp+
  ultimately show ?thesis
    using sweep_rule_is_containment[OF cache_crate_ref, of ?u ?p]
      sweep_rule_is_containment[OF cache_crate_ref, of ?v ?p] by blast
qed

section \<open>Sequences of operations\<close>

type_synonym metadata_op = "(metadata_cache_key, metadata_payload, cost_flags, sweep) cache_op"

fun cache_exec :: "url_crate \<Rightarrow> nat \<times> metadata_op \<Rightarrow> metadata_cache \<Rightarrow> metadata_cache" where
  "cache_exec C (now, CO_Get k f) mc = snd (mc_get now k f mc)"
| "cache_exec C (now, CO_Put k p f) mc = snd (mc_insert now k p f mc)"
| "cache_exec C (now, CO_Sweep w) mc = mc_sweep C now w mc"

definition cache_run ::
    "url_crate \<Rightarrow> metadata_cache_config \<Rightarrow> (nat \<times> metadata_op) list \<Rightarrow> metadata_cache" where
  "cache_run C config trace = fold (cache_exec C) trace (metadata_cache_new config)"

fun displaces_row :: "url_crate \<Rightarrow> metadata_cache_key \<Rightarrow> metadata_op \<Rightarrow> bool" where
  "displaces_row C k (CO_Get k' f) \<longleftrightarrow> False"
| "displaces_row C k (CO_Put k' p f) \<longleftrightarrow> k' = k"
| "displaces_row C k (CO_Sweep w) \<longleftrightarrow> sweep_reaches C w k"

lemma cache_exec_eq: "cache_exec C x = (case x of (now, opn) \<Rightarrow> mcache.exec C now opn)"
  by (cases x; cases "snd x") auto

lemma displaces_row_eq: "displaces_row C k opn = mcache.displaces C k opn"
  by (cases opn) auto

lemma cache_run_eq: "cache_run C config trace = mcache.run C trace (metadata_cache_new config)"
  unfolding cache_run_def cache_exec_eq ..

lemma new_ok: "cache_ok (metadata_cache_new config)" "\<not> holds_row (metadata_cache_new config) k p t f"
  by (auto simp: cache_ok_def metadata_cache_new_def empty_cache_state_def state_ok_def holds_row_def)

lemma cache_run_ok: "cache_ok (cache_run C config trace)"
  unfolding cache_run_eq by (rule mcache.run_ok[OF new_ok(1)])

lemma limits_kept:
  "mc_max_entries (cache_exec C x mc) = mc_max_entries mc \<and> mc_ttl (cache_exec C x mc) = mc_ttl mc"
proof -
  obtain now opn where x: "x = (now, opn)" by (cases x)
  show ?thesis
  proof (cases opn)
    case (CO_Sweep w)
    then show ?thesis unfolding x
      by (cases w) (simp_all add: invalidate_address_def invalidate_prefix_def
          invalidate_lists_containing_def invalidate_all_def purge_expired_def Let_def case_prod_unfold)
  qed (auto simp: x mc_get_def mc_insert_def Let_def split: option.splits)
qed

lemma cache_run_limits:
  "mc_max_entries (cache_run C config trace) = mc_max_entries (metadata_cache_new config) \<and>
   mc_ttl (cache_run C config trace) = mc_ttl (metadata_cache_new config)"
  unfolding cache_run_def by (induction trace rule: rev_induct) (simp_all add: limits_kept)

text \<open>Whatever lookups, insertions and sweeps a metadata cache has served, in any order and
  at any times, each key has at most one row, the running total is the sum over the rows of the
  object descriptions they carry (at least one each), and the total is within the configured budget.
  So the sum computed when a payload that fits the budget is inserted is at most twice the budget.\<close>

theorem cache_budget_kept:
  "let mc = cache_run C config trace; rows = cs_entries (mc_state mc);
       budget = max (case mcc_max_entries config of Some n \<Rightarrow> n | None \<Rightarrow> 65536) 1
   in distinct (map fst rows) \<and>
      mc_current_size mc = (\<Sum>(k, e) \<leftarrow> rows. max (object_info_count (ce_payload e)) 1) \<and>
      mc_current_size mc \<le> budget \<and> mc_len mc \<le> budget"
proof -
  let ?mc = "cache_run C config trace"
  let ?rows = "cs_entries (mc_state ?mc)"
  have ok: "cache_ok ?mc" by (rule cache_run_ok)
  have lim: "mc_max_entries ?mc = max (case mcc_max_entries config of Some n \<Rightarrow> n | None \<Rightarrow> 65536) 1"
    using cache_run_limits[of C config trace] 
    by (simp add: metadata_cache_new_def DEFAULT_MAX_ENTRIES_def split: option.splits)
  have sz: "rows_size ?rows = (\<Sum>(k, e) \<leftarrow> ?rows. max (object_info_count (ce_payload e)) 1)"
    using ok unfolding rows_size_def by (intro arg_cong[of _ _ sum_list] map_cong)
      (auto simp: cache_ok_def row_ok_def)
  have "length r \<le> (\<Sum>(k, e) \<leftarrow> r. max (object_info_count (ce_payload e)) 1)" for r :: cache_rows
  proof (induction r)
    case (Cons x r)
    have "1 \<le> max (object_info_count (ce_payload (snd x))) 1" by simp
    with Cons show ?case by (simp add: case_prod_unfold del: One_nat_def)
  qed simp
  from this[of ?rows] show ?thesis
    using ok lim sz unfolding Let_def mc_current_size_def mc_len_def
    by (simp add: cache_ok_def state_ok_def del: One_nat_def)
qed

text \<open>C30. A hit is the last word on its key: after any sequence of operations, when a lookup
  answers with a payload, the sequence contains an insertion of exactly this payload under exactly
  this key (kind, principal, address and credential digest), fetched under flags that cover the
  request and younger than the time to live, and no later operation of the sequence stored anything
  under the key or swept a region that contains it.\<close>

theorem hit_is_last_store:
  assumes "fst (mc_get now k requested (cache_run C config trace)) = Lookup_Hit p"
  shows "\<exists>before t flags after.
     trace = before @ (t, CO_Put k p flags) # after \<and> flags_covers flags requested \<and>
     now - t < (case mcc_ttl_seconds config of Some s \<Rightarrow> s * 1000000000 | None \<Rightarrow> 30000000000) \<and>
     (\<forall>(t', opn) \<in> set after. \<not> displaces_row C k opn)"
proof -
  let ?mc = "cache_run C config trace"
  obtain e where e: "row_of (mc_state ?mc) k = Some e" "ce_payload e = p" "flags_covers (ce_flags e) requested"
    "now - ce_inserted_at e < ce_ttl e" using get_hit[OF assms] by blast
  have "row_ok ?mc e" using cache_run_ok[of C config trace] e(1)
    by (auto simp: cache_ok_def dest: map_of_SomeD)
  then have ttl: "ce_ttl e = (case mcc_ttl_seconds config of Some s \<Rightarrow> s * 1000000000 | None \<Rightarrow> 30000000000)"
    using cache_run_limits[of C config trace]
    by (simp add: row_ok_def metadata_cache_new_def from_secs_def DEFAULT_TTL_def split: option.splits)
  have "holds_row ?mc k p (ce_inserted_at e) (ce_flags e)" using e by (auto simp: holds_row_def)
  from mcache.row_history[OF new_ok this[unfolded cache_run_eq]] obtain before after where
    "trace = before @ (ce_inserted_at e, CO_Put k p (ce_flags e)) # after"
    "\<forall>(t', opn) \<in> set after. \<not> displaces_row C k opn" unfolding displaces_row_eq by blast
  with e(3,4) ttl show ?thesis by metis
qed

definition sample_info :: "string \<Rightarrow> object_info" where
  "sample_info p =
     \<lparr>oi_address = base_url ''s3'' (Some ''b'') p, oi_kind = Kind_File, oi_etag = None,
      oi_etag_strength = Etag_Unspecified, oi_version = None, oi_size = Some 3, oi_mtime = None,
      oi_checksums = [], oi_effective_permissions = None, oi_system_metadata = None,
      oi_user_metadata = None, oi_modified_by = None, oi_versioned_address = None\<rparr>"

definition sample_key :: "string \<Rightarrow> metadata_cache_key" where
  "sample_key p = \<lparr>mk_kind = MK_Stat, mk_principal_id = None, mk_address = ''s3://b'' @ p, mk_credential_scope = None\<rparr>"

abbreviation sample_put :: "nat \<Rightarrow> string \<Rightarrow> nat \<times> metadata_op" where
  "sample_put t p \<equiv> (t, CO_Put (sample_key p) (PL_Stat (sample_info p)) no_flags)"

definition sample_trace :: "(nat \<times> metadata_op) list" where
  "sample_trace = [sample_put 5 ''/x'', sample_put 6 ''/y'', (7, CO_Get (sample_key ''/x'') no_flags)]"

definition small_config :: metadata_cache_config where
  "small_config = \<lparr>mcc_max_entries = Some 2, mcc_ttl_seconds = Some 1\<rparr>"

theorem hit_is_last_store_witness:
  "\<exists>before t flags after.
     sample_trace = before @ (t, CO_Put (sample_key ''/x'') (PL_Stat (sample_info ''/x'')) flags) # after \<and>
     flags_covers flags no_flags \<and> 9 - t < 1000000000 \<and>
     (\<forall>(t', opn) \<in> set after. \<not> displaces_row ref_crate (sample_key ''/x'') opn)"
proof -
  have "fst (mc_get 9 (sample_key ''/x'') no_flags (cache_run ref_crate small_config sample_trace)) =
      Lookup_Hit (PL_Stat (sample_info ''/x''))"
    by (simp add: cache_run_def sample_trace_def small_config_def metadata_cache_new_def mc_insert_def
        mc_get_def remove_row_def empty_cache_state_def sample_key_def flags_covers_def no_flags_def
        from_secs_def Let_def)
  from hit_is_last_store[OF this] show ?thesis by (simp add: small_config_def)
qed

section \<open>Eviction\<close>

text \<open>The rows that an insertion evicts, over the key's own.\<close>

lemma room_for_split:
  assumes "state_ok (mc_state mc)"
  shows "\<exists>dead live. lru_victims (cs_entries (remove_row k (mc_state mc))) = dead @ live \<and>
     room_for k needed mc = remove_rows dead (remove_row k (mc_state mc)) \<and>
     (dead \<noteq> [] \<longrightarrow> mc_max_entries mc < cs_current_size (remove_rows (butlast dead) (remove_row k (mc_state mc))) + needed)"
proof (cases "room_for k needed mc = remove_row k (mc_state mc)")
  case False
  then have "room_for k needed mc = evict_until (mc_max_entries mc) needed
      (lru_victims (cs_entries (remove_row k (mc_state mc)))) (remove_row k (mc_state mc))"
    by (auto simp: room_for_def Let_def split: if_splits)
  then show ?thesis
    using evict_until_split[of "lru_victims (cs_entries (remove_row k (mc_state mc)))"] by metis
qed (rule exI[of _ "[]"], simp)

lemma last_victim_size:
  assumes "state_ok st" "lru_victims (cs_entries st) = dead @ live" "dead \<noteq> []" "row_of st (last dead) = Some e"
  shows "cs_current_size (remove_rows (butlast dead) st) = cs_current_size (remove_rows dead st) + ce_size e"
proof -
  have "distinct dead" using distinct_lru_victims[of "cs_entries st"] assms(1,2) by (simp add: state_ok_def)
  then have "last dead \<notin> set (butlast dead)" using assms(3) by (metis append_butlast_last_id distinct_append disjoint_iff list.set_intros(1))
  then have "row_of (remove_rows (butlast dead) st) (last dead) = Some e" using assms(4) by (simp add: row_of_remove_rows)
  then have "cs_current_size (remove_rows (butlast dead) st) =
      cs_current_size (remove_row (last dead) (remove_rows (butlast dead) st)) + ce_size e"
    using remove_row_size[of "remove_rows (butlast dead) st" "last dead"] assms(1) by simp
  also have "remove_row (last dead) (remove_rows (butlast dead) st) = remove_rows dead st"
    using append_butlast_last_id[OF assms(3)] fold_append[of remove_row "butlast dead" "[last dead]"]
    by (metis comp_apply fold_simps)
  finally show ?thesis .
qed

lemma eviction_order:
  assumes "cache_ok mc" and ins: "mc_insert now k p f mc = (True, mc')"
  shows "\<exists>dead live. lru_victims (cs_entries (remove_row k (mc_state mc))) = dead @ live \<and>
     (\<forall>k'. k' \<noteq> k \<longrightarrow> row_of (mc_state mc') k' = (if k' \<in> set dead then None else row_of (mc_state mc) k')) \<and>
     (\<forall>e. dead \<noteq> [] \<longrightarrow> row_of (mc_state mc) (last dead) = Some e \<longrightarrow> mc_max_entries mc < mc_current_size mc' + ce_size e)"
proof -
  let ?st = "remove_row k (mc_state mc)" and ?r = "room_for k (charge p) mc"
  have st: "state_ok (mc_state mc)" "state_ok ?st" using assms(1) by (auto simp: cache_ok_def)
  have mc': "cs_entries (mc_state mc') = AList.update k (new_row now p f mc) (cs_entries ?r)"
    "mc_current_size mc' = cs_current_size ?r + charge p"
    using ins by (auto simp: mc_insert_eq mc_current_size_def split: if_splits)
  obtain dead live where dl: "lru_victims (cs_entries ?st) = dead @ live" "?r = remove_rows dead ?st"
    "dead \<noteq> [] \<longrightarrow> mc_max_entries mc < cs_current_size (remove_rows (butlast dead) ?st) + charge p"
    using room_for_split[OF st(1)] by blast
  have "row_of (mc_state mc') k' = (if k' \<in> set dead then None else row_of (mc_state mc) k')" if "k' \<noteq> k" for k'
    using that by (simp add: mc'(1) update_conv' dl(2) row_of_remove_rows row_of_remove)
  moreover have "mc_max_entries mc < mc_current_size mc' + ce_size e"
    if d: "dead \<noteq> []" "row_of (mc_state mc) (last dead) = Some e" for e
  proof -
    have "last dead \<in> dom (row_of ?st)" using dl(1) d(1) set_lru_victims[of "cs_entries ?st"]
      by (simp add: dom_map_of_conv_image_fst) (metis UnCI last_in_set)
    then have "row_of ?st (last dead) = Some e" using d(2) by (auto simp: row_of_remove split: if_splits)
    from last_victim_size[OF st(2) dl(1) d(1) this] show ?thesis using dl d(1) mc'(2) by simp
  qed
  ultimately show ?thesis using dl(1) by blast
qed

text \<open>Eviction is by least recent use and no larger than necessary. When an insertion into a
  cache that has served any sequence of operations is retained, every other row is kept as it was or
  evicted; a row that goes was last accessed no later than any row that stays; and if rows go, putting
  back the most recently used of them would exceed the budget.\<close>

theorem eviction_is_lru:
  assumes "mc_insert now k p f (cache_run C config trace) = (True, mc')"
  shows "let rows = row_of (mc_state (cache_run C config trace)); rows' = row_of (mc_state mc');
             evicted = {(j, e). j \<noteq> k \<and> rows j = Some e \<and> rows' j = None};
             kept = {(j, e). j \<noteq> k \<and> rows' j = Some e}
         in (\<forall>(j, e) \<in> kept. rows j = Some e) \<and>
            (\<forall>(j, e) \<in> evicted. \<forall>(j', e') \<in> kept. ce_last_accessed e \<le> ce_last_accessed e') \<and>
            (evicted \<noteq> {} \<longrightarrow> (\<exists>(j, e) \<in> evicted.
               mc_max_entries mc' < mc_current_size mc' + ce_size e \<and>
               (\<forall>(j', e') \<in> evicted. ce_last_accessed e' \<le> ce_last_accessed e)))"
proof -
  let ?mc = "cache_run C config trace"
  let ?st = "remove_row k (mc_state ?mc)"
  have ok: "cache_ok ?mc" by (rule cache_run_ok)
  then have st: "state_ok ?st" by (simp add: cache_ok_def)
  have mx: "mc_max_entries mc' = mc_max_entries ?mc"
    using limits_kept[of C "(now, CO_Put k p f)" ?mc] assms by simp
  obtain dead live where dl: "lru_victims (cs_entries ?st) = dead @ live"
    and rows: "\<And>j. j \<noteq> k \<Longrightarrow> row_of (mc_state mc') j = (if j \<in> set dead then None else row_of (mc_state ?mc) j)"
    and last: "\<And>e. dead \<noteq> [] \<Longrightarrow> row_of (mc_state ?mc) (last dead) = Some e \<Longrightarrow> mc_max_entries ?mc < mc_current_size mc' + ce_size e"
    using eviction_order[OF ok assms] by blast
  have victims: "set dead \<union> set live = {j. j \<noteq> k \<and> row_of (mc_state ?mc) j \<noteq> None}"
    using set_lru_victims[of "cs_entries ?st"] unfolding dl set_append dom_map_of_conv_image_fst[symmetric]
    by (auto simp: row_of_remove split: if_splits)
  let ?at = "accessed_at (cs_entries ?st)"
  have at: "?at j = ce_last_accessed e" if "j \<noteq> k" "row_of (mc_state ?mc) j = Some e" for j e
    using that by (simp add: accessed_at_def row_of_remove)
  have "sorted (map ?at (dead @ live))"
    using lru_victims_sorted[of "cs_entries ?st"] st unfolding dl by (simp add: state_ok_def)
  then have sorted: "sorted (map ?at dead)" "\<And>j j'. j \<in> set dead \<Longrightarrow> j' \<in> set live \<Longrightarrow> ?at j \<le> ?at j'"
    by (auto simp: sorted_append)
  have gone: "j \<in> set dead" if "j \<noteq> k" "row_of (mc_state ?mc) j = Some e" "row_of (mc_state mc') j = None" for j e
    using rows[OF that(1)] that by (auto split: if_splits)
  have stays: "j \<in> set live \<and> row_of (mc_state ?mc) j = Some e" if "j \<noteq> k" "row_of (mc_state mc') j = Some e" for j e
  proof -
    have "j \<notin> set dead \<and> row_of (mc_state ?mc) j = Some e" using rows[OF that(1)] that(2) by (auto split: if_splits)
    with that(1) victims show ?thesis by blast
  qed
  have most_recent: "\<exists>e. last dead \<noteq> k \<and> row_of (mc_state ?mc) (last dead) = Some e \<and>
      row_of (mc_state mc') (last dead) = None \<and> mc_max_entries mc' < mc_current_size mc' + ce_size e \<and>
      (\<forall>j e'. j \<noteq> k \<longrightarrow> row_of (mc_state ?mc) j = Some e' \<longrightarrow> row_of (mc_state mc') j = None \<longrightarrow>
         ce_last_accessed e' \<le> ce_last_accessed e)" if "dead \<noteq> []"
  proof -
    have d: "last dead \<in> set dead" using that by simp
    then obtain e where e: "last dead \<noteq> k" "row_of (mc_state ?mc) (last dead) = Some e" using victims by auto
    have "ce_last_accessed e' \<le> ce_last_accessed e"
      if j: "j \<noteq> k" "row_of (mc_state ?mc) j = Some e'" "row_of (mc_state mc') j = None" for j e'
      using sorted_last_greatest[OF sorted(1) gone[OF j]] at[OF j(1,2)] at[OF e] by simp
    then show ?thesis using e last[OF that e(2)] mx rows[OF e(1)] d by auto
  qed
  have order: "ce_last_accessed e \<le> ce_last_accessed e'"
    if "j \<noteq> k" "row_of (mc_state ?mc) j = Some e" "row_of (mc_state mc') j = None"
      "j' \<noteq> k" "row_of (mc_state mc') j' = Some e'" for j j' e e'
    using sorted(2)[OF gone[OF that(1-3)]] stays[OF that(4,5)] at[OF that(1,2)] at[OF that(4)] by fastforce
  show ?thesis
    unfolding Let_def
  proof (intro conjI impI)
    show "\<forall>(j, e) \<in> {(j, e). j \<noteq> k \<and> row_of (mc_state mc') j = Some e}. row_of (mc_state ?mc) j = Some e"
      using stays by auto
    show "\<forall>(j, e) \<in> {(j, e). j \<noteq> k \<and> row_of (mc_state ?mc) j = Some e \<and> row_of (mc_state mc') j = None}.
        \<forall>(j', e') \<in> {(j, e). j \<noteq> k \<and> row_of (mc_state mc') j = Some e}. ce_last_accessed e \<le> ce_last_accessed e'"
      using order by auto
    assume "{(j, e). j \<noteq> k \<and> row_of (mc_state ?mc) j = Some e \<and> row_of (mc_state mc') j = None} \<noteq> {}"
    then have "dead \<noteq> []" using gone by fastforce
    from most_recent[OF this] show "\<exists>(j, e) \<in> {(j, e). j \<noteq> k \<and> row_of (mc_state ?mc) j = Some e \<and> row_of (mc_state mc') j = None}.
        mc_max_entries mc' < mc_current_size mc' + ce_size e \<and>
        (\<forall>(j', e') \<in> {(j, e). j \<noteq> k \<and> row_of (mc_state ?mc) j = Some e \<and> row_of (mc_state mc') j = None}.
           ce_last_accessed e' \<le> ce_last_accessed e)" by (auto intro!: exI[of _ "last dead"])
  qed
qed

text \<open>The budget of two has no room for a third row.\<close>

theorem eviction_is_lru_witness:
  "let mc = cache_run ref_crate small_config sample_trace;
       (retained, mc') = mc_insert 8 (sample_key ''/z'') (PL_Stat (sample_info ''/z'')) no_flags mc;
       evicted = {(j, e). j \<noteq> sample_key ''/z'' \<and> row_of (mc_state mc) j = Some e \<and> row_of (mc_state mc') j = None};
       kept = {(j, e). j \<noteq> sample_key ''/z'' \<and> row_of (mc_state mc') j = Some e}
   in retained \<and> (\<forall>(j, e) \<in> evicted. \<forall>(j', e') \<in> kept. ce_last_accessed e \<le> ce_last_accessed e')"
proof -
  let ?mc = "cache_run ref_crate small_config sample_trace"
  obtain r mc' where i: "mc_insert 8 (sample_key ''/z'') (PL_Stat (sample_info ''/z'')) no_flags ?mc = (r, mc')" by force
  have "mc_max_entries ?mc = 2"
    using cache_run_limits[of ref_crate small_config sample_trace] by (simp add: metadata_cache_new_def small_config_def)
  then have "r" using i by (auto simp: mc_insert_eq charge_def split: if_splits)
  with i eviction_is_lru[of 8 "sample_key ''/z''" "PL_Stat (sample_info ''/z'')" no_flags ref_crate small_config sample_trace mc']
  show ?thesis by (simp add: Let_def)
qed

text \<open>An insertion is retained exactly when its payload fits the whole budget. If it is, a
  lookup within the time to live under flags the row covers answers with the payload just stored, and
  a lookup under wider flags reports the stored flags; if it is not, nothing is left under the key: a
  refresh that does not fit never leaves the previous value to be served.\<close>

theorem insert_then_lookup:
  assumes "mc_insert t k p f (cache_run C config trace) = (retained, mc)"
  shows "(retained \<longleftrightarrow> max (object_info_count p) 1 \<le> mc_max_entries mc) \<and>
     fst (mc_get now k requested mc) =
       (if \<not> retained \<or> mc_ttl mc \<le> now - t then Lookup_Miss
        else if flags_covers f requested then Lookup_Hit p else Lookup_Narrower f)"
proof -
  have "mc_max_entries mc = mc_max_entries (cache_run C config trace)" "mc_ttl mc = mc_ttl (cache_run C config trace)"
    using limits_kept[of C "(t, CO_Put k p f)" "cache_run C config trace"] assms by auto
  then show ?thesis
    using assms by (auto simp: mc_insert_eq mc_get_def row_of_remove update_conv' charge_def[symmetric]
        split: if_splits simp del: One_nat_def)
qed

theorem insert_then_lookup_witness:
  "let (retained, mc) = mc_insert 8 (sample_key ''/z'') (PL_ListVersions [sample_info ''/z'', sample_info ''/z'', sample_info ''/z''])
         no_flags (cache_run ref_crate small_config sample_trace)
   in \<not> retained \<and> fst (mc_get 9 (sample_key ''/z'') no_flags mc) = Lookup_Miss"
proof -
  let ?p = "PL_ListVersions [sample_info ''/z'', sample_info ''/z'', sample_info ''/z'']"
  let ?mc = "cache_run ref_crate small_config sample_trace"
  obtain r mc where i: "mc_insert 8 (sample_key ''/z'') ?p no_flags ?mc = (r, mc)" by force
  have "mc_max_entries mc = 2"
    using cache_run_limits[of ref_crate small_config sample_trace] i
      limits_kept[of ref_crate "(8, CO_Put (sample_key ''/z'') ?p no_flags)" ?mc]
    by (simp add: metadata_cache_new_def small_config_def)
  with insert_then_lookup[OF i, of 9 no_flags] i show ?thesis by simp
qed

end
