(* ===== verification/Ov_Meta_Layer_Laws.thy ===== *)
theory Ov_Meta_Layer_Laws
  imports Ov_Meta_Layer Ov_Meta_Laws
begin

text \<open>
  What the metadata-cache layer guarantees: every answer was given to a request of the same principal
  and credential, a stat after a mutation asks the layer below, the three-way answer from a parent
  listing; and a directory rename, which leaves the rows below the old name in place.
\<close>

section \<open>Principals\<close>

lemma byte_hex_lower: "n < 16 \<Longrightarrow> byte (hex_lower n) = (if n < 10 then 48 + n else 87 + n)"
  by (simp add: hex_lower_def)

lemma hex_lower_inj: "m < 16 \<Longrightarrow> n < 16 \<Longrightarrow> hex_lower m = hex_lower n \<longleftrightarrow> m = n"
proof
  assume lt: "m < 16" "n < 16" and eq: "hex_lower m = hex_lower n"
  from arg_cong[OF eq, of byte] have "(if m < 10 then 48 + m else 87 + m) = (if n < 10 then 48 + n else 87 + n)"
    unfolding byte_hex_lower[OF lt(1)] byte_hex_lower[OF lt(2)] .
  then show "m = n" using lt by (cases "m < 10"; cases "n < 10") simp_all
qed simp

lemma hex_string_inj: "hex_string xs = hex_string ys \<Longrightarrow> xs = ys"
proof (induction xs arbitrary: ys)
  case Nil
  then show ?case by (cases ys) (auto simp: hex_string_def)
next
  case (Cons x xs)
  then obtain y zs where ys: "ys = y # zs" by (cases ys) (auto simp: hex_string_def)
  have lt: "byte b div 16 < 16" for b :: char
  proof -
    have "byte b < 16 * 16" by simp
    then show ?thesis by (rule less_mult_imp_div_less)
  qed
  have "byte x div 16 = byte y div 16" "byte x mod 16 = byte y mod 16" "hex_string xs = hex_string zs"
    using Cons.prems ys lt by (auto simp: hex_string_def hex_lower_inj)
  then have "byte x = byte y" by (metis div_mult_mod_eq)
  then have "x = y" by simp
  with Cons.IH \<open>hex_string xs = hex_string zs\<close> ys show ?case by simp
qed

lemma tagged_inj: "inj (\<lambda>x. if P x then ''s:'' @ x else ''b:'' @ hex_string x)"
  by (rule injI) (auto split: if_splits dest: hex_string_inj)

lemma principal_of_inj: "principal_of e = principal_of e' \<longleftrightarrow> e PRINCIPAL_ID = e' PRINCIPAL_ID"
  unfolding principal_of_def using tagged_inj[of utf8_valid] by (intro inj_eq option.inj_map)

section \<open>The record of calls\<close>

text \<open>
  The layer below, with a record of the stats and listings it was asked for and what it answered.
\<close>

datatype inner_call =
    Call_Stat extensions url stat_options "object_info result"
  | Call_List extensions url list_options "list_page result"

definition logged :: "'s meta_inner \<Rightarrow> ('s \<times> inner_call list) meta_inner" where
  "logged inner =
     \<lparr>mi_now = (\<lambda>(s, log). mi_now inner s),
      mi_stat = (\<lambda>ext u options (s, log).
        let (r, s') = mi_stat inner ext u options s in (r, s', log @ [Call_Stat ext u options r])),
      mi_list = (\<lambda>ext u options (s, log).
        let (r, s') = mi_list inner ext u options s in (r, s', log @ [Call_List ext u options r])),
      mi_root_info_for = (\<lambda>u ext (s, log).
        let (r, s') = mi_root_info_for inner u ext s in (r, s', log))\<rparr>"

abbreviation call_log :: "('s \<times> inner_call list) meta_state \<Rightarrow> inner_call list" where
  "call_log st \<equiv> snd (ms_inner st)"

text \<open>
  A row is justified by a record of calls: it holds what the layer below answered to a request
  without a resolved OAuth credential, of the principal and credential digest in its key.
\<close>

inductive justified :: "meta_env \<Rightarrow> inner_call list \<Rightarrow> metadata_cache_key \<Rightarrow> metadata_payload \<Rightarrow> bool"
  for E log where
  by_stat: "Call_Stat ext u options (Inr info) \<in> set log \<Longrightarrow> ext RESOLVED_OAUTH_CREDENTIAL = None \<Longrightarrow>
     justified E log (stat_key E (principal_of ext) u u) (PL_Stat info)"
| by_item: "Call_List ext u options (Inr page) \<in> set log \<Longrightarrow> ext RESOLVED_OAUTH_CREDENTIAL = None \<Longrightarrow>
     info \<in> set (page_items page) \<Longrightarrow>
     justified E log (stat_key E (principal_of ext) (oi_address info) u) (PL_Stat info)"
| by_page: "Call_List ext u options (Inr page) \<in> set log \<Longrightarrow> ext RESOLVED_OAUTH_CREDENTIAL = None \<Longrightarrow>
     justified E log (list_key E (principal_of ext) u) (PL_List page)"

inductive_cases justified_stat: "justified E log k (PL_Stat info)"
inductive_cases justified_list: "justified E log k (PL_List page)"

lemma justified_mono: "justified E log k p \<Longrightarrow> justified E (log @ new_calls) k p"
  by (induction rule: justified.induct) (auto intro: justified.intros)

abbreviation all_justified :: "meta_env \<Rightarrow> inner_call list \<Rightarrow> metadata_cache \<Rightarrow> bool" where
  "all_justified E log \<equiv> mcache.rows_from (justified E log)"

lemma rows_put: "mcache.rows_from Q mc \<Longrightarrow> Q k p \<Longrightarrow> mcache.rows_from Q (snd (mc_insert now k p f mc))"
  using mcache.rows_from_exec[of Q mc "CO_Put k p f" ref_crate now] by simp

lemma rows_get: "mcache.rows_from Q mc \<Longrightarrow> mcache.rows_from Q (snd (mc_get now k f mc))"
  using mcache.rows_from_exec[of Q mc "CO_Get k f" ref_crate now] by simp

lemma rows_sweep: "mcache.rows_from Q mc \<Longrightarrow> mcache.rows_from Q (mc_sweep C now w mc)"
  using mcache.rows_from_exec[of Q mc "CO_Sweep w" C now] by simp

lemma rows_hit: "mcache.rows_from Q mc \<Longrightarrow> fst (mc_get now k f mc) = Lookup_Hit p \<Longrightarrow> Q k p"
  using mcache.rows_from_lookup[of Q mc now k f p] by simp

lemma rows_mono: "all_justified E log mc \<Longrightarrow> all_justified E (log @ new_calls) mc"
  by (erule mcache.rows_from_mono) (rule justified_mono)

lemma store_items_rows:
  "mcache.rows_from Q (snd start) \<Longrightarrow>
   (\<And>item. item \<in> set items \<Longrightarrow> oi_kind item = Kind_File \<Longrightarrow> Q (stat_key E who (oi_address item) prefx) (PL_Stat item)) \<Longrightarrow>
   mcache.rows_from Q (snd (store_items E now prefx who flags items start))"
proof (induction items arbitrary: start)
  case (Cons item items)
  obtain b mc where start: "start = (b, mc)" by (cases start)
  show ?case
  proof (cases "oi_kind item = Kind_File")
    case True
    then have "mcache.rows_from Q (snd (mc_insert now (stat_key E who (oi_address item) prefx) (PL_Stat item) flags mc))"
      using Cons.prems start by (intro rows_put) auto
    then show ?thesis using True Cons start by (simp add: case_prod_unfold Let_def)
  qed (use Cons start in simp)
next
  case Nil
  then show ?case by (cases start) simp
qed

lemma store_list_inner [simp]: "ms_inner (store_list E now u options page who st) = ms_inner st"
  by (simp add: store_list_def note_cached_def Let_def case_prod_unfold)

lemma store_list_rows:
  assumes "all_justified E log (ms_cache st)" "Call_List ext u options (Inr page) \<in> set log"
    and "ext RESOLVED_OAUTH_CREDENTIAL = None"
  shows "all_justified E log (ms_cache (store_list E now u options page (principal_of ext) st))"
proof -
  let ?Q = "justified E log"
  have page: "?Q (list_key E (principal_of ext) u) (PL_List page)"
    by (rule by_page[OF assms(2,3)])
  have item: "?Q (stat_key E (principal_of ext) (oi_address item) u) (PL_Stat item)"
    if "item \<in> set (page_items page)" for item
    by (rule by_item[OF assms(2,3) that])
  let ?f = "\<lparr>cf_full_metadata = False, cf_versioned_address = lo_versioned_address options\<rparr>"
  have "mcache.rows_from ?Q (snd (store_items E now u (principal_of ext) ?f (page_items page)
      (mc_insert now (list_key E (principal_of ext) u) (PL_List page) ?f (ms_cache st))))"
    by (rule store_items_rows[OF rows_put[OF assms(1) page]]) (rule item)
  then show ?thesis
    using assms(1) by (simp add: store_list_def note_cached_def Let_def case_prod_unfold)
qed

lemma call_list_logged:
  "call_below (mi_list (logged inner) ext u options) st = (r, st') \<Longrightarrow>
     ms_cache st' = ms_cache st \<and> call_log st' = call_log st @ [Call_List ext u options r]"
  by (auto simp: call_below_def logged_def case_prod_unfold Let_def)

lemma call_stat_logged:
  "call_below (mi_stat (logged inner) ext u options) st = (r, st') \<Longrightarrow>
     ms_cache st' = ms_cache st \<and> call_log st' = call_log st @ [Call_Stat ext u options r]"
  by (auto simp: call_below_def logged_def case_prod_unfold Let_def)

lemma call_root_logged:
  "call_below (mi_root_info_for (logged inner) u ext) st = (r, st') \<Longrightarrow>
     ms_cache st' = ms_cache st \<and> call_log st' = call_log st"
  by (auto simp: call_below_def logged_def case_prod_unfold Let_def)

text \<open>
  How the list-backed stat ends: from a cached page, from a page it fetched, or not at all.
\<close>

lemma parent_list_cases:
  assumes "stat_from_parent_list E (logged inner) ext addr req st = (r, st')"
  obtains (cached) parent name page now where
      "parent_and_name (me_crate E) addr = Some (parent, name)"
      "fst (mc_get now (list_key E (principal_of ext) parent) req (ms_cache st)) = Lookup_Hit (PL_List page)"
      "r = find_in_page (me_crate E) page addr" "call_log st' = call_log st"
      "ms_cache st' = snd (mc_get now (list_key E (principal_of ext) parent) req (ms_cache st))"
  | (fresh) parent name page now now' st3 where
      "parent_and_name (me_crate E) addr = Some (parent, name)" "req = no_flags"
      "r = find_in_page (me_crate E) page addr"
      "ms_cache st3 = snd (mc_get now (list_key E (principal_of ext) parent) req (ms_cache st))"
      "st' = store_list E now' parent list_options_default page (principal_of ext) st3"
      "call_log st' = call_log st @ [Call_List ext parent list_options_default (Inr page)]"
  | (none) k now where "r = LB_Unavailable"
      "ms_cache st' = ms_cache st \<or> ms_cache st' = snd (mc_get now k req (ms_cache st))"
      "\<exists>new. call_log st' = call_log st @ new"
proof -
  let ?C = "me_crate E"
  show thesis
  proof (cases "url_query addr \<noteq> None \<or> url_fragment addr \<noteq> None \<or> is_directory addr \<or> parent_and_name ?C addr = None")
    case True
    then have "r = LB_Unavailable" "st' = st"
      using assms by (auto simp: stat_from_parent_list_def split: if_splits)
    then show thesis by (intro none) auto
  next
    case False
    then obtain parent name where pn: "parent_and_name ?C addr = Some (parent, name)" by auto
    let ?now = "mi_now (logged inner) (ms_inner st)" and ?k = "list_key E (principal_of ext) parent"
    obtain found mc where get: "mc_get ?now ?k req (ms_cache st) = (found, mc)" by force
    show thesis
    proof (cases "\<exists>page. found = Lookup_Hit (PL_List page)")
      case True
      then obtain page where "found = Lookup_Hit (PL_List page)" by blast
      then have "r = find_in_page ?C page addr" "st' = st\<lparr>ms_cache := mc\<rparr>"
        using assms False pn get by (auto simp: stat_from_parent_list_def Let_def)
      with \<open>found = Lookup_Hit (PL_List page)\<close> get show thesis by (intro cached[OF pn, of ?now page]) auto
    next
      case nohit: False
      obtain root st2 where root: "call_below (mi_root_info_for (logged inner) parent Map.empty) (st\<lparr>ms_cache := mc\<rparr>) = (root, st2)" by force
      obtain listed st3 where listed: "call_below (mi_list (logged inner) ext parent list_options_default) st2 = (listed, st3)" by force
      note l = call_root_logged[OF root] call_list_logged[OF listed]
      define tail where "tail = (if \<not> flags_is_empty req then (LB_Unavailable, st\<lparr>ms_cache := mc\<rparr>)
         else if \<not> (case root of Inr info \<Rightarrow> supports_list (ri_capabilities info) \<and>
                       wants_list_backed_stat (ri_capabilities info) | Inl _ \<Rightarrow> False) then (LB_Unavailable, st2)
         else (case listed of Inl _ \<Rightarrow> (LB_Unavailable, st3)
               | Inr page \<Rightarrow> (find_in_page ?C page addr,
                   store_list E (mi_now (logged inner) (ms_inner st3)) parent list_options_default page (principal_of ext) st3)))"
      have "stat_from_parent_list E (logged inner) ext addr req st = tail"
        using False pn get root listed nohit unfolding tail_def
        by (auto simp: stat_from_parent_list_def Let_def split: metadata_lookup.splits metadata_payload.splits)
      then have tail: "tail = (r, st')" using assms by simp
      show thesis
      proof (cases "flags_is_empty req \<and> (\<exists>page. listed = Inr page \<and> tail = (find_in_page ?C page addr,
                   store_list E (mi_now (logged inner) (ms_inner st3)) parent list_options_default page (principal_of ext) st3))")
        case True
        then obtain page where "listed = Inr page" "r = find_in_page ?C page addr"
          "st' = store_list E (mi_now (logged inner) (ms_inner st3)) parent list_options_default page (principal_of ext) st3"
          using tail by auto
        then show thesis using True l get by (intro fresh[OF pn, where now = ?now]) (auto simp: flags_is_empty_def)
      next
        case False
        then have "r = LB_Unavailable" "st' \<in> {st\<lparr>ms_cache := mc\<rparr>, st2, st3}"
          using tail unfolding tail_def by (auto split: if_splits sum.splits)
        then show thesis using l get by (intro none[of ?now ?k]) auto
      qed
    qed
  qed
qed

text \<open>How a stat ends: from the cache, from a listing, or from the layer below.\<close>

lemma meta_stat_cases:
  assumes "meta_stat E (logged inner) ext addr options st = (r, st')" "ext RESOLVED_OAUTH_CREDENTIAL = None"
  obtains (hit) now info where "stat_is_cacheable addr"
      "fst (mc_get now (stat_key E (principal_of ext) addr addr) (flags_of_stat options) (ms_cache st)) = Lookup_Hit (PL_Stat info)"
      "r = Inr (info\<lparr>oi_address := addr\<rparr>)" "call_log st' = call_log st"
      "ms_cache st' = snd (mc_get now (stat_key E (principal_of ext) addr addr) (flags_of_stat options) (ms_cache st))"
  | (listed) now st1 st2 lb where "stat_is_cacheable addr" "call_log st1 = call_log st"
      "ms_cache st1 = snd (mc_get now (stat_key E (principal_of ext) addr addr) (flags_of_stat options) (ms_cache st))"
      "stat_from_parent_list E (logged inner) ext addr (flags_of_stat options) st1 = (lb, st2)"
      "lb = LB_NotFound \<and> r = Inl Err_NotFound \<or> (\<exists>info. lb = LB_Found info \<and> r = Inr info)"
      "call_log st' = call_log st2" "ms_cache st' = ms_cache st2"
  | (asked) now st1 st2 up where
      "ms_cache st1 = ms_cache st \<or> ms_cache st1 = snd (mc_get now (stat_key E (principal_of ext) addr addr) (flags_of_stat options) (ms_cache st))"
      "call_log st1 = call_log st"
      "st2 = st1 \<or> stat_from_parent_list E (logged inner) ext addr (flags_of_stat options) st1 = (LB_Unavailable, st2)"
      "call_log st' = call_log st2 @ [Call_Stat ext addr (widen_stat up options) r]"
      "ms_cache st' = ms_cache st2 \<or> (\<exists>info now. r = Inr info \<and> ms_cache st' =
         snd (mc_insert now (stat_key E (principal_of ext) addr addr) (PL_Stat info) up (ms_cache st2)))"
proof -
  let ?now = "mi_now (logged inner) (ms_inner st)" and ?k = "stat_key E (principal_of ext) addr addr"
    and ?req = "flags_of_stat options"
  obtain found mc where get: "mc_get ?now ?k ?req (ms_cache st) = (found, mc)" by force
  define f1 where "f1 = (if stat_is_cacheable addr then (found, st\<lparr>ms_cache := mc\<rparr>) else (Lookup_Miss, st))"
  obtain found' st1 where f1: "f1 = (found', st1)" by force
  have st1: "call_log st1 = call_log st" "ms_cache st1 = ms_cache st \<or> ms_cache st1 = snd (mc_get ?now ?k ?req (ms_cache st))"
    "stat_is_cacheable addr \<Longrightarrow> found' = found \<and> ms_cache st1 = mc" "\<not> stat_is_cacheable addr \<Longrightarrow> found' = Lookup_Miss"
    using f1 get by (auto simp: f1_def split: if_splits)
  define up where "up = (case found' of Lookup_Narrower stored \<Rightarrow> flags_union stored ?req | _ \<Rightarrow> ?req)"
  obtain lb st2 where lb: "(if stat_is_cacheable addr then stat_from_parent_list E (logged inner) ext addr ?req st1
      else (LB_Unavailable, st1)) = (lb, st2)" by force
  obtain answer st3 where ans: "call_below (mi_stat (logged inner) ext addr (widen_stat up options)) st2 = (answer, st3)" by force
  note l = call_stat_logged[OF ans]
  show thesis
  proof (cases "\<exists>info. found' = Lookup_Hit (PL_Stat info)")
    case True
    then obtain info where info: "found' = Lookup_Hit (PL_Stat info)" by blast
    then have c: "stat_is_cacheable addr" using st1(4) by auto
    then have "r = Inr (info\<lparr>oi_address := addr\<rparr>)" "st' = note_cached addr st1"
      using assms get info f1 by (auto simp: meta_stat_def Let_def f1_def)
    then show thesis using c st1 info get by (intro hit[of ?now info]) (auto simp: note_cached_def)
  next
    case nohit: False
    define tail where "tail = (case lb of
         LB_Found info \<Rightarrow> (Inr info, note_cached addr st2)
       | LB_NotFound \<Rightarrow> (Inl Err_NotFound, note_cached addr st2)
       | LB_Unavailable \<Rightarrow> (case answer of
             Inl e \<Rightarrow> (Inl e, st3)
           | Inr info \<Rightarrow> (Inr info, if stat_is_cacheable addr then note_cached addr
               (st3\<lparr>ms_cache := snd (mc_insert (mi_now (logged inner) (ms_inner st3)) ?k (PL_Stat info) up (ms_cache st3))\<rparr>)
               else st3)))"
    have "meta_stat E (logged inner) ext addr options st = tail"
      using assms(2) get lb ans f1 nohit unfolding tail_def up_def f1_def meta_stat_def Let_def
      by (auto split: metadata_lookup.splits metadata_payload.splits list_backed_stat.splits sum.splits if_splits)
    then have tail: "tail = (r, st')" using assms(1) by simp
    show thesis
    proof (cases "lb = LB_Unavailable")
      case True
      then show thesis using tail st1 lb l unfolding tail_def
        by (intro asked[of st1 ?now st2 up]) (auto simp: note_cached_def split: if_splits sum.splits)
    next
      case False
      then have c: "stat_is_cacheable addr" using lb by (auto split: if_splits)
      then show thesis using False tail st1 lb get unfolding tail_def
        by (intro listed[of st1 ?now lb st2]) (auto simp: note_cached_def split: list_backed_stat.splits)
    qed
  qed
qed

section \<open>Answers stay in their scope\<close>

text \<open>
  The states of a layer with a cache of its own: stats and listings run as modelled; everything else
  the layer does is a change of the state below, a registration, or a sweep.
\<close>

inductive meta_reach :: "meta_env \<Rightarrow> 's meta_inner \<Rightarrow> ('s \<times> inner_call list) meta_state \<Rightarrow> bool"
  for E inner where
  start: "meta_reach E inner \<lparr>ms_cache = metadata_cache_new config, ms_noted = [], ms_inner = (s, [])\<rparr>"
| stat: "meta_reach E inner st \<Longrightarrow> meta_stat E (logged inner) ext addr options st = (r, st') \<Longrightarrow> meta_reach E inner st'"
| list: "meta_reach E inner st \<Longrightarrow> meta_list E (logged inner) ext addr options st = (r, st') \<Longrightarrow> meta_reach E inner st'"
| below: "meta_reach E inner st \<Longrightarrow> meta_reach E inner (st\<lparr>ms_inner := (s, call_log st)\<rparr>)"
| sweep: "meta_reach E inner st \<Longrightarrow> meta_reach E inner (st\<lparr>ms_cache := mc_sweep (me_crate E) now w (ms_cache st)\<rparr>)"

lemma parent_list_rows:
  assumes "all_justified E (call_log st) (ms_cache st)" "ext RESOLVED_OAUTH_CREDENTIAL = None"
    and "stat_from_parent_list E (logged inner) ext addr req st = (r, st')"
  shows "all_justified E (call_log st') (ms_cache st')"
  using assms(3)
proof (cases rule: parent_list_cases)
  case (fresh parent name page now now' st3)
  let ?log = "call_log st @ [Call_List ext parent list_options_default (Inr page)]"
  have "all_justified E ?log (ms_cache st3)" unfolding fresh(4) by (intro rows_get rows_mono assms(1))
  then have "all_justified E ?log (ms_cache st')"
    unfolding fresh(5) by (rule store_list_rows) (simp_all add: assms(2))
  then show ?thesis by (simp add: fresh(6))
next
  case (none k now)
  then obtain new where new: "call_log st' = call_log st @ new" by blast
  show ?thesis unfolding new using none(2) rows_get[OF rows_mono[OF assms(1)]] rows_mono[OF assms(1)] by auto
qed (simp add: rows_get assms(1))

lemma parent_list_origin:
  assumes "all_justified E (call_log st) (ms_cache st)" "ext RESOLVED_OAUTH_CREDENTIAL = None"
    and "stat_from_parent_list E (logged inner) ext addr req st = (r, st')" "r \<noteq> LB_Unavailable"
  shows "\<exists>parent name ext' u options page. parent_and_name (me_crate E) addr = Some (parent, name) \<and>
     Call_List ext' u options (Inr page) \<in> set (call_log st') \<and> ext' RESOLVED_OAUTH_CREDENTIAL = None \<and>
     principal_of ext' = principal_of ext \<and> credential_scope (me_digest E) u = credential_scope (me_digest E) parent \<and>
     r = find_in_page (me_crate E) page addr"
  using assms(3)
proof (cases rule: parent_list_cases)
  case (cached parent name page now)
  have "justified E (call_log st) (list_key E (principal_of ext) parent) (PL_List page)"
    using rows_hit[OF assms(1) cached(2)] .
  then obtain ext' u options where "Call_List ext' u options (Inr page) \<in> set (call_log st)"
    "ext' RESOLVED_OAUTH_CREDENTIAL = None"
    "list_key E (principal_of ext) parent = list_key E (principal_of ext') u" by (elim justified_list) auto
  then show ?thesis using cached by (auto simp: list_key_def)
next
  case (fresh parent name page now now' st3)
  then show ?thesis using assms(2) by auto
qed (use assms(4) in simp)

lemma parent_credential:
  assumes "setters_ok S C" "parent_and_name C addr = Some (parent, name)"
  shows "credential_scope d parent = credential_scope d addr"
proof -
  obtain p where "parent = crate_set_fragment C None (crate_set_query C None (crate_set_path C p addr))"
    using assms(2) by (auto simp: parent_and_name_def split: if_splits option.splits)
  moreover obtain p' where "crate_set_path C p addr = addr\<lparr>url_path := p'\<rparr>"
    using assms(1) unfolding setters_ok_def by blast
  ultimately show ?thesis using assms(1) by (simp add: setters_ok_def credential_scope_def)
qed

lemma meta_stat_rows:
  assumes "all_justified E (call_log st) (ms_cache st)" "meta_stat E (logged inner) ext addr options st = (r, st')"
  shows "all_justified E (call_log st') (ms_cache st')"
proof (cases "ext RESOLVED_OAUTH_CREDENTIAL = None")
  case False
  then have "call_below (mi_stat (logged inner) ext addr options) st = (r, st')"
    using assms(2) by (simp add: meta_stat_def)
  from call_stat_logged[OF this] show ?thesis using rows_mono[OF assms(1)] by simp
next
  case True
  show ?thesis using assms(2) True
  proof (cases rule: meta_stat_cases)
    case (hit now info)
    then show ?thesis using assms(1) by (simp add: rows_get)
  next
    case (listed now st1 st2 lb)
    then have "all_justified E (call_log st1) (ms_cache st1)" using assms(1) by (simp add: rows_get)
    from parent_list_rows[OF this True listed(4)] listed show ?thesis by simp
  next
    case (asked now st1 st2 up)
    have "all_justified E (call_log st1) (ms_cache st1)" using asked(1,2) assms(1) rows_get[OF assms(1)] by auto
    note st1 = this
    from asked(3) have "all_justified E (call_log st2) (ms_cache st2)"
    proof
      assume s: "stat_from_parent_list E (logged inner) ext addr (flags_of_stat options) st1 = (LB_Unavailable, st2)"
      show ?thesis by (rule parent_list_rows[OF st1 True s])
    qed (use st1 in simp)
    then have rows: "all_justified E (call_log st') (ms_cache st2)" unfolding asked(4) by (rule rows_mono)
    have "justified E (call_log st') (stat_key E (principal_of ext) addr addr) (PL_Stat info)" if "r = Inr info" for info
      by (rule by_stat[where options = "widen_stat up options"]) (simp_all add: asked(4) that True)
    then show ?thesis using asked(5) rows rows_put[OF rows] by auto
  qed
qed

lemma meta_list_rows:
  assumes "all_justified E (call_log st) (ms_cache st)" "meta_list E (logged inner) ext addr options st = (r, st')"
  shows "all_justified E (call_log st') (ms_cache st')"
proof -
  obtain listed st1 where l: "call_below (mi_list (logged inner) ext addr options) st = (listed, st1)" by force
  have rows: "all_justified E (call_log st1) (ms_cache st1)"
    using call_list_logged[OF l] rows_mono[OF assms(1)] by simp
  show ?thesis
  proof (cases "st' = st1")
    case False
    with assms(2) l obtain page where p: "listed = Inr page" "ext RESOLVED_OAUTH_CREDENTIAL = None"
      "st' = store_list E (mi_now (logged inner) (ms_inner st1)) addr options page (principal_of ext) st1"
      by (auto simp: meta_list_def split: if_splits sum.splits)
    have "Call_List ext addr options (Inr page) \<in> set (call_log st1)" using call_list_logged[OF l] p(1) by simp
    from store_list_rows[OF rows this p(2)] show ?thesis by (simp add: p(3))
  qed (use rows in simp)
qed

lemma reach_justified: "meta_reach E inner st \<Longrightarrow> all_justified E (call_log st) (ms_cache st)"
proof (induction rule: meta_reach.induct)
  case (start config s)
  then show ?case using new_ok by (simp add: mcache.rows_from_def)
next
  case (stat st ext addr options r st')
  then show ?case using meta_stat_rows by blast
next
  case (list st ext addr options r st')
  then show ?case using meta_list_rows by blast
qed (simp_all add: rows_sweep)

lemma find_in_page_Found:
  assumes "find_in_page C page addr = LB_Found info"
  shows "\<exists>item \<in> set (page_items page). oi_kind item = Kind_File \<and> info = item\<lparr>oi_address := addr\<rparr> \<and>
    node_address C (oi_address item) = node_address C addr"
proof -
  obtain item where f: "find (\<lambda>item. node_address C (oi_address item) = node_address C addr \<and> oi_kind item = Kind_File)
      (page_items page) = Some item" and info: "info = item\<lparr>oi_address := addr\<rparr>"
    using assms by (auto simp: find_in_page_def split: option.splits if_splits)
  from f obtain i where "i < length (page_items page)" "item = page_items page ! i"
    "node_address C (oi_address item) = node_address C addr" "oi_kind item = Kind_File"
    by (auto simp: find_Some_iff)
  with info show ?thesis by auto
qed

lemma scoped_stat_origin:
  assumes "crate_ok (me_crate E)" "meta_reach E inner st"
    and "meta_stat E (logged inner) ext addr options st = (Inr info, st')" "ext RESOLVED_OAUTH_CREDENTIAL = None"
  shows "\<exists>ext' u found. ext' RESOLVED_OAUTH_CREDENTIAL = None \<and> ext' PRINCIPAL_ID = ext PRINCIPAL_ID \<and>
     credential_scope (me_digest E) u = credential_scope (me_digest E) addr \<and>
     (info = found \<or> info = found\<lparr>oi_address := addr\<rparr>) \<and>
     ((\<exists>o'. Call_Stat ext' u o' (Inr found) \<in> set (call_log st') \<and>
         node_address (me_crate E) u = node_address (me_crate E) addr) \<or>
      (\<exists>o' page. Call_List ext' u o' (Inr page) \<in> set (call_log st') \<and> found \<in> set (page_items page) \<and>
         node_address (me_crate E) (oi_address found) = node_address (me_crate E) addr))"
  using assms(3,4)
proof (cases rule: meta_stat_cases)
  case (hit now found)
  have "justified E (call_log st) (stat_key E (principal_of ext) addr addr) (PL_Stat found)"
    using rows_hit[OF reach_justified[OF assms(2)] hit(2)] .
  then show ?thesis
    using hit(3,4) by (elim justified_stat) (auto simp: stat_key_def principal_of_inj; metis)+
next
  case (listed now st1 st2 lb)
  have rows: "all_justified E (call_log st1) (ms_cache st1)"
    using listed(2,3) reach_justified[OF assms(2)] by (simp add: rows_get)
  have lb: "lb = LB_Found info" using listed(5) by auto
  from parent_list_origin[OF rows assms(4) listed(4)] lb obtain parent name ext' u o' page where o:
    "parent_and_name (me_crate E) addr = Some (parent, name)"
    "Call_List ext' u o' (Inr page) \<in> set (call_log st')" "ext' RESOLVED_OAUTH_CREDENTIAL = None"
    "principal_of ext' = principal_of ext" "credential_scope (me_digest E) u = credential_scope (me_digest E) parent"
    "find_in_page (me_crate E) page addr = LB_Found info" unfolding listed(6) by auto
  from o(6) obtain found where f: "found \<in> set (page_items page)" "info = found\<lparr>oi_address := addr\<rparr>"
    "node_address (me_crate E) (oi_address found) = node_address (me_crate E) addr"
    using find_in_page_Found by blast
  have "credential_scope (me_digest E) u = credential_scope (me_digest E) addr"
    using o(5) parent_credential[OF _ o(1), of settable] assms(1) by simp
  with o f show ?thesis unfolding principal_of_inj by metis
next
  case (asked now st1 st2 up)
  then have "Call_Stat ext addr (widen_stat up options) (Inr info) \<in> set (call_log st')" by simp
  then show ?thesis using assms(4) by blast
qed

text \<open>C10. What one caller sees is never another's. In every reachable state: a stat that carries a resolved
  OAuth credential is passed straight through, its answer is that of its own call, and the cache is neither
  read nor changed. Whatever any other stat answers, from the cache, from a cached listing or by asking,
  the layer below gave to a request that carried the same principal bytes and an address with the same
  credential digest, for the same node, and that carried no resolved OAuth credential either; the
  answer differs from it in the address at most, which is the caller's own spelling.\<close>

theorem answers_stay_in_scope:
  assumes "crate_ok (me_crate E)" "meta_reach E inner st"
    and "meta_stat E (logged inner) ext addr options st = (Inr info, st')"
  shows "if ext RESOLVED_OAUTH_CREDENTIAL \<noteq> None
   then call_log st' = call_log st @ [Call_Stat ext addr options (Inr info)] \<and> ms_cache st' = ms_cache st
   else \<exists>ext' u found. ext' RESOLVED_OAUTH_CREDENTIAL = None \<and> ext' PRINCIPAL_ID = ext PRINCIPAL_ID \<and>
     credential_scope (me_digest E) u = credential_scope (me_digest E) addr \<and>
     (info = found \<or> info = found\<lparr>oi_address := addr\<rparr>) \<and>
     ((\<exists>o'. Call_Stat ext' u o' (Inr found) \<in> set (call_log st') \<and>
         node_address (me_crate E) u = node_address (me_crate E) addr) \<or>
      (\<exists>o' page. Call_List ext' u o' (Inr page) \<in> set (call_log st') \<and> found \<in> set (page_items page) \<and>
         node_address (me_crate E) (oi_address found) = node_address (me_crate E) addr))"
proof (cases "ext RESOLVED_OAUTH_CREDENTIAL = None")
  case True
  then show ?thesis using scoped_stat_origin[OF assms True] by simp
next
  case False
  then show ?thesis using assms(3)
    by (auto simp: meta_stat_def call_below_def logged_def split: prod.splits)
qed

text \<open>A store with one object, and the requests of the witnesses.\<close>

definition md_env :: meta_env where
  "md_env = \<lparr>me_crate = ref_crate, me_digest = (\<lambda>name pass. length name)\<rparr>"

definition md_inner :: "bool meta_inner" where
  "md_inner =
     \<lparr>mi_now = (\<lambda>s. 5),
      mi_stat = (\<lambda>ext u options s. (if s then Inr (sample_info ''/d/x'') else Inl Err_NotFound, s)),
      mi_list = (\<lambda>ext u options s. (Inl Err_Unsupported, s)),
      mi_root_info_for = (\<lambda>u ext s. (Inl Err_NoRoute, s))\<rparr>"

definition md_address :: url where "md_address = base_url ''s3'' (Some ''b'') ''/d/x''"

abbreviation plain_stat :: stat_options where
  "plain_stat \<equiv> \<lparr>so_full_metadata = False, so_versioned_address = False\<rparr>"

definition md_start :: "(bool \<times> inner_call list) meta_state" where
  "md_start = \<lparr>ms_cache = metadata_cache_new \<lparr>mcc_max_entries = Some 9, mcc_ttl_seconds = Some 30\<rparr>,
     ms_noted = [], ms_inner = (True, [])\<rparr>"

lemma md_strings:
  "node_address ref_crate md_address = ''s3://b/d/x''" "is_directory md_address = False"
  "parent_and_name ref_crate md_address = Some (base_url ''s3'' (Some ''b'') ''/d/'', ''x'')"
  "node_spellings ref_crate (base_url ''s3'' (Some ''b'') ''/d/'') = (''s3://b/d'', ''s3://b/d/'')"
  "url_query md_address = None" "url_fragment md_address = None"
  "url_username md_address = []" "url_password md_address = None"
  by code_simp+

lemma md_filled:
  "snd (meta_stat md_env (logged md_inner) Map.empty md_address plain_stat md_start) =
     \<lparr>ms_cache = \<lparr>mc_state = \<lparr>cs_entries = [(stat_key md_env None md_address md_address,
          \<lparr>ce_payload = PL_Stat (sample_info ''/d/x''), ce_inserted_at = 5, ce_last_accessed = 5, ce_ttl = 30000000000,
           ce_size = 1, ce_flags = no_flags\<rparr>)], cs_current_size = 1\<rparr>, mc_max_entries = 9, mc_ttl = 30000000000\<rparr>,
      ms_noted = [md_address], ms_inner = (True, [Call_Stat Map.empty md_address plain_stat (Inr (sample_info ''/d/x''))])\<rparr>"
  by (simp add: meta_stat_def md_start_def metadata_cache_new_def empty_cache_state_def md_env_def
      stat_is_cacheable_def md_strings stat_from_parent_list_def list_key_def principal_of_def
      mc_get_def mc_insert_def remove_row_def call_below_def logged_def md_inner_def note_cached_def
      flags_of_stat_def flags_is_empty_def no_flags_def widen_stat_def from_secs_def Let_def)

abbreviation md_cached :: "(bool \<times> inner_call list) meta_state" where
  "md_cached \<equiv> snd (meta_stat md_env (logged md_inner) Map.empty md_address plain_stat md_start)"

lemma md_cached_reach: "meta_reach md_env md_inner md_cached"
proof -
  have "meta_reach md_env md_inner md_start" unfolding md_start_def by (rule start)
  then show ?thesis by (rule stat) (rule prod.collapse[symmetric])
qed

lemma md_hit:
  "fst (meta_stat md_env (logged md_inner) Map.empty md_address plain_stat md_cached) =
     Inr (sample_info ''/d/x'')"
  unfolding md_filled
  by (simp add: meta_stat_def stat_is_cacheable_def md_strings principal_of_def mc_get_def flags_of_stat_def
      flags_covers_def no_flags_def logged_def md_inner_def Let_def) (simp add: sample_info_def md_address_def)

theorem answers_stay_in_scope_witness:
  "\<exists>ext' u found. ext' RESOLVED_OAUTH_CREDENTIAL = None \<and> ext' PRINCIPAL_ID = None \<and>
     credential_scope (me_digest md_env) u = credential_scope (me_digest md_env) md_address \<and>
     (sample_info ''/d/x'' = found \<or> sample_info ''/d/x'' = found\<lparr>oi_address := md_address\<rparr>)"
proof -
  obtain st' where st': "meta_stat md_env (logged md_inner) Map.empty md_address plain_stat md_cached =
      (Inr (sample_info ''/d/x''), st')" using md_hit by (metis prod.collapse)
  have C: "crate_ok (me_crate md_env)" using cache_crate_ref by (simp add: md_env_def)
  have "Map.empty RESOLVED_OAUTH_CREDENTIAL = None" by simp
  with answers_stay_in_scope[OF C md_cached_reach st'] show ?thesis by auto
qed

section \<open>The spellings of a node\<close>

text \<open>The crate's parser gives back what the serializer wrote, without the credential.\<close>

definition reparses :: "url_crate \<Rightarrow> url \<Rightarrow> bool" where
  "reparses C u \<longleftrightarrow> crate_parse C (node_address C u) = Some (u\<lparr>url_username := [], url_password := None\<rparr>)"

lemma encoded_cut:
  assumes "\<not> S (CHR ''/'')" "percent_encoded S s = x @ CHR ''/'' # y"
  shows "\<exists>s1 s2. s = s1 @ CHR ''/'' # s2 \<and> x = percent_encoded S s1"
  using assms(2)
proof (induction s arbitrary: x)
  case (Cons b s)
  show ?case
  proof (cases "b = CHR ''/''")
    case True
    then have e: "percent_encoded S (b # s) = CHR ''/'' # percent_encoded S s"
      using assms(1) by (simp add: percent_encoded_slash)
    show ?thesis
    proof (cases x)
      case Nil
      with True show ?thesis by (intro exI[of _ "[]"] exI[of _ s]) simp
    next
      case (Cons c x')
      with Cons.prems e have "percent_encoded S s = x' @ CHR ''/'' # y" "c = CHR ''/''" by auto
      with Cons.IH obtain s1 s2 where "s = s1 @ CHR ''/'' # s2" "x' = percent_encoded S s1" by blast
      then show ?thesis using True \<open>c = CHR ''/''\<close> Cons assms(1)
        by (intro exI[of _ "b # s1"] exI[of _ s2]) (simp add: percent_encoded_slash)
    qed
  next
    case False
    have "CHR ''/'' \<notin> set (escape_byte S b)" using escape_byte_slashfree[OF False] .
    moreover have "escape_byte S b @ percent_encoded S s = x @ CHR ''/'' # y"
      using Cons.prems by (simp add: percent_encoded_Cons)
    ultimately obtain x' where "x = escape_byte S b @ x'" "percent_encoded S s = x' @ CHR ''/'' # y"
      by (auto simp: append_eq_append_conv2 append_eq_Cons_conv)
    with Cons.IH obtain s1 s2 where "s = s1 @ CHR ''/'' # s2" "x' = percent_encoded S s1" by blast
    then show ?thesis using \<open>x = escape_byte S b @ x'\<close>
      by (intro exI[of _ "b # s1"] exI[of _ s2]) (simp add: percent_encoded_Cons)
  qed
qed simp

lemma settable_parent:
  assumes "canonical_url u" "url_path u = x @ CHR ''/'' # y"
  shows "settable u (x @ ''/'')"
proof -
  from assms(1) obtain p: "url_path u = percent_encoded (canonical_path_set u) (CHR ''/'' # key u)"
    and n: "norm_segs (segs (CHR ''/'' # key u))" by (rule canonical_urlE)
  obtain s1 s2 where s: "CHR ''/'' # key u = s1 @ CHR ''/'' # s2" "x = percent_encoded (canonical_path_set u) s1"
    using encoded_cut[of "canonical_path_set u" "CHR ''/'' # key u" x y] assms(2) p by auto
  have e: "x @ ''/'' = percent_encoded (canonical_path_set u) (s1 @ ''/'')"
    by (simp add: s(2) percent_encoded_append percent_encoded_slash)
  have "norm_segs (segs (s1 @ ''/''))"
    using n unfolding s(1) by (auto simp: norm_segs_def tl_append butlast_append is_dot_def split: list.splits dest: in_set_butlastD)
  then show ?thesis
  proof (cases s1)
    case Nil
    then show ?thesis by (simp add: s(2) settable_def)
  next
    case (Cons c s1')
    with s(1) have "s1 @ ''/'' = CHR ''/'' # (s1' @ ''/'')" by simp
    with e \<open>norm_segs (segs (s1 @ ''/''))\<close> show ?thesis unfolding settable_def by metis
  qed
qed

lemma split_on_snoc: "split_on d (s @ [d]) = split_on d s @ [[]]"
  using split_on_append_delim[of d s "[]"] by simp

lemma last_split_on: "last (split_on d s) = [] \<longleftrightarrow> s = [] \<or> last s = d"
proof (cases s rule: rev_cases)
  case (snoc s' c)
  then show ?thesis
    using split_on_append_nodelim[of d "[c]" s'] by (cases "c = d") (auto simp: split_on_snoc)
qed simp

lemma settable_slashed:
  assumes "canonical_url u" "\<not> is_directory u"
  shows "settable u (url_path u @ ''/'')"
proof -
  from assms(1) obtain p: "url_path u = percent_encoded (canonical_path_set u) (CHR ''/'' # key u)"
    and n: "norm_segs (segs (CHR ''/'' # key u))" by (rule canonical_urlE)
  have e: "url_path u @ ''/'' = percent_encoded (canonical_path_set u) (CHR ''/'' # key u @ ''/'')"
    by (simp add: p percent_encoded_append percent_encoded_slash)
  have k: "key u \<noteq> []" "last (key u) \<noteq> CHR ''/''"
    using assms(2) encoded_ends_slash[of "canonical_path_set u" "CHR ''/'' # key u"]
    unfolding is_directory_def p by (auto split: if_splits)
  then have l: "last (segs (key u)) \<noteq> []" by (simp add: last_split_on)
  have "s \<noteq> []" if "s \<in> set (segs (key u))" for s
  proof -
    have "set (segs (key u)) = insert (last (segs (key u))) (set (butlast (segs (key u))))"
      using append_butlast_last_id[OF split_on_not_Nil[of "CHR ''/''" "key u"]]
      by (metis Un_insert_right list.simps(15) set_append sup_bot.right_neutral list.set(1))
    with that l n show ?thesis by (auto simp: norm_segs_def)
  qed
  then have "norm_segs (segs (CHR ''/'' # key u @ ''/''))"
    using n by (auto simp: norm_segs_def butlast_append is_dot_def split_on_snoc)
  with e show ?thesis unfolding settable_def by blast
qed

lemma canonical_repath:
  assumes "canonical_url u" "settable u p"
  shows "canonical_url (u\<lparr>url_path := p, url_query := q, url_fragment := None\<rparr>)"
proof -
  let ?o = "u\<lparr>url_path := p, url_query := q, url_fragment := None\<rparr>"
  from assms(1) have r: "\<not> url_cannot_be_a_base u" "canonical_of u = u" by (auto simp: canonical_url_def)
  obtain k where k: "p = percent_encoded (canonical_path_set u) (CHR ''/'' # k)" "norm_segs (segs (CHR ''/'' # k))"
  proof -
    have "norm_segs (segs ''/'')" "''/'' = percent_encoded (canonical_path_set u) ''/''"
      by (simp_all add: norm_segs_def is_dot_def percent_encoded_slash)
    then show ?thesis using assms(2) that by (auto simp: settable_def)
  qed
  have nb: "node_bytes ?o = CHR ''/'' # k"
    using k(1) by (simp add: node_bytes_def percent_encoded_slash percent_decode_encoded)
  have "canonical_of ?o = ?o"
    unfolding canonical_of_def nb normalize_fixed[OF k(2)]
    using k(1) arg_cong[OF r(2), of url_host] by (simp add: canonical_of_def)
  moreover have "url_wf ?o" "\<not> url_cannot_be_a_base ?o"
    using k(1) r(1) by (simp_all add: url_wf_def percent_encoded_slash)
  ultimately show ?thesis by (simp add: canonical_url_def)
qed

lemma cacheable_upd:
  assumes "cacheable_url u" "settable u p"
  shows "cacheable_url (u\<lparr>url_path := p, url_query := q, url_fragment := None\<rparr>)"
  using assms canonical_repath[of u p q] by (auto simp: cacheable_url_def split: option.splits)

lemma parent_of:
  assumes "crate_ok C" "cacheable_url u" "parent_and_name C u = Some (parent, name)"
  shows "cacheable_url parent" "is_directory parent" "url_query parent = None"
    "prefix (node_segs parent) (node_segs u)" "origin_str parent = origin_str u"
proof -
  have can: "canonical_url u" using assms(2) by (simp add: cacheable_url_def)
  obtain before nm where r: "url_path u = before @ CHR ''/'' # nm" "CHR ''/'' \<notin> set nm" "nm \<noteq> []"
    and p: "parent = crate_set_fragment C None (crate_set_query C None (crate_set_path C (before @ ''/'') u))"
    using assms(3) by (auto simp: parent_and_name_def rsplit_once_Some split: if_splits option.splits)
  have s: "settable u (before @ ''/'')" using settable_parent[OF can r(1)] .
  then have par: "parent = u\<lparr>url_path := before @ ''/'', url_query := None, url_fragment := None\<rparr>"
    using p assms(1) by (simp add: setters_ok_def)
  show c: "cacheable_url parent" unfolding par by (rule cacheable_upd[OF assms(2) s])
  show "is_directory parent" "url_query parent = None" by (simp_all add: par is_directory_def)
  show "origin_str parent = origin_str u" by (simp add: par origin_str_def host_port_str_def)
  have canp: "canonical_url parent" using c by (simp add: cacheable_url_def)
  obtain xs d ys e where xs: "good_segs xs" "url_path parent = dir_path xs d"
    and ys: "good_segs ys" "url_path u = dir_path ys e"
    using canonical_plain[OF can] canonical_plain[OF canp] by (metis plain_path_def)
  have "node_segs parent = xs" "node_segs u = ys" using dir_path_node xs ys by auto
  moreover have "dir_path ys e = below xs @ (CHR ''/'' # nm)"
  proof -
    have "d \<or> xs = []" using dir_path_node(3)[OF xs] par by simp
    then have "dir_path xs d = below xs @ ''/''" by (auto simp: dir_path_def below_def)
    with xs(2) have "before = below xs" by (simp add: par)
    with r(1) ys(2) show ?thesis by simp
  qed
  then have "prefix xs ys" by (rule below_prefix[OF xs(1) ys(1)]) simp
  ultimately show "prefix (node_segs parent) (node_segs u)" by simp
qed

lemma node_spellings_eq:
  assumes C: "cache_crate C" and u: "cacheable_url u" and re: "reparses C u"
  shows "node_spellings C u =
    (origin_str u @ node_path u @ query_str u,
     origin_str u @ (if node_path u = ''/'' then ''/'' else node_path u @ ''/'') @ query_str u)"
proof -
  let ?b = "u\<lparr>url_username := [], url_password := None\<rparr>"
  have can: "canonical_url u" and auth: "url_has_authority u" using u by (auto simp: cacheable_url_def)
  have frag: "url_fragment u = None" using canonical_fragment[OF can] .
  have set: "crate_set_path C p v = v\<lparr>url_path := p\<rparr>" if "settable u p" "url_scheme v = url_scheme u" "url_host v = url_host u" for p v
    using that C settable_cong[of v u p] by (simp add: setters_ok_def)
  have str: "crate_as_str C (?b\<lparr>url_path := p\<rparr>) = origin_str u @ p @ query_str u" for p
    using C auth frag by (simp add: as_str_ok_def serialized_def authority_str_def userinfo_str_def
        origin_str_def host_port_str_def tail_str_def)
  have s: "settable u (node_path u)" by (rule settable_node_path(2)[OF can])
  have s': "settable u (node_path u @ ''/'')" if "node_path u \<noteq> ''/''"
  proof -
    obtain xs d where x: "good_segs xs" "url_path u = dir_path xs d"
      using canonical_plain[OF can] by (auto simp: plain_path_def)
    have np: "node_path u = CHR ''/'' # path_of xs" using dir_path_node(1)[OF x] .
    from that np have "xs \<noteq> []" by auto
    show ?thesis
    proof (cases d)
      case True
      then have "url_path u = node_path u @ ''/''" using x np \<open>xs \<noteq> []\<close> by (simp add: dir_path_def)
      then show ?thesis using settable_node_path(1)[OF can] by simp
    next
      case False
      then have "url_path u = node_path u" using x np by (simp add: dir_path_def)
      moreover have "\<not> is_directory u"
        using dir_path_node(3)[OF x] False \<open>xs \<noteq> []\<close> by (simp add: is_directory_def)
      ultimately show ?thesis using settable_slashed[OF can] by simp
    qed
  qed
  show ?thesis
  proof (cases "node_path u = ''/''")
    case True
    then show ?thesis using re set[OF s, of ?b] str[of "''/''"]
      by (simp add: node_spellings_def reparses_def Let_def)
  next
    case False
    then show ?thesis
      using re set[OF s, of ?b] set[OF s', of "?b\<lparr>url_path := node_path u\<rparr>"] str
      by (simp add: node_spellings_def reparses_def Let_def)
  qed
qed

section \<open>A stat after a mutation\<close>

text \<open>The rows that speak of a node: its own under either spelling, and the listings that contain it.\<close>

abbreviation speaks_of :: "url_crate \<Rightarrow> url \<Rightarrow> metadata_cache_key \<Rightarrow> bool" where
  "speaks_of C a k \<equiv> sweep_reaches C (Sweep_Address a) k \<or> sweep_reaches C (Sweep_Lists a) k"

lemma free_start: "cache_ok mc \<Longrightarrow> mcache.free_of (\<lambda>k. False) mc"
  by (simp add: mcache.free_of_def)

lemma free_sweep: "mcache.free_of R mc \<Longrightarrow> mcache.free_of R (mc_sweep C now w mc)"
  using mcache.free_of_exec[of R mc "CO_Sweep w" C now] by simp

lemma free_get: "mcache.free_of R mc \<Longrightarrow> mcache.free_of R (snd (mc_get now k f mc))"
  using mcache.free_of_exec[of R mc "CO_Get k f" ref_crate now] by simp

lemma free_no_hit: "mcache.free_of R mc \<Longrightarrow> R k \<Longrightarrow> fst (mc_get now k f mc) \<noteq> Lookup_Hit p"
  using mcache.free_of_lookup[of R mc k now f] by (metis fst_map_prod lookup_hit.simps(1) option.distinct(1))

lemma invalidate_for_sweeps:
  "ms_cache (invalidate_for E a st) =
     mc_sweep (me_crate E) 0 (Sweep_Lists a) (mc_sweep (me_crate E) 0 (Sweep_Address a) (ms_cache st))"
  by (simp add: invalidate_for_def)

lemma invalidate_for_free:
  assumes "cache_ok (ms_cache st)"
  shows "mcache.free_of (speaks_of (me_crate E) a) (ms_cache (invalidate_for E a st))"
proof -
  let ?C = "me_crate E"
  have first: "mcache.free_of (sweep_reaches ?C (Sweep_Address a)) (mc_sweep ?C 0 (Sweep_Address a) (ms_cache st))"
    by (rule mcache.free_of_sweep[OF assms _ free_start[OF assms]]) simp
  show ?thesis unfolding invalidate_for_sweeps
    by (rule mcache.free_of_sweep[OF cache_ok_sweep[OF assms] _ first]) blast
qed

lemma invalidate_for_keeps:
  "mcache.free_of R (ms_cache st) \<Longrightarrow> mcache.free_of R (ms_cache (invalidate_for E a st))"
  unfolding invalidate_for_sweeps by (intro free_sweep)

lemma invalidate_under_keeps:
  "mcache.free_of R (ms_cache st) \<Longrightarrow> mcache.free_of R (ms_cache (invalidate_under E a st))"
  using free_sweep[of R "ms_cache st" "me_crate E" 0 "Sweep_Prefix a"] by (simp add: invalidate_under_def)

lemma invalidate_for_ok: "cache_ok (ms_cache st) \<Longrightarrow> cache_ok (ms_cache (invalidate_for E a st))"
  unfolding invalidate_for_sweeps by (intro cache_ok_sweep)

lemma then_invalidate_ok:
  assumes "then_invalidate after (call_below op) st = (Inr v, st')"
  shows "\<exists>s. st' = after v (st\<lparr>ms_inner := s\<rparr>)"
  using assms by (auto simp: then_invalidate_def call_below_def Let_def split: prod.splits sum.splits)

lemmas mutation_defs = meta_write_def meta_write_stream_def meta_update_metadata_def meta_create_directory_def
  meta_delete_def meta_delete_directory_def meta_copy_def meta_rename_def meta_continue_write_def

text \<open>The outcomes that change the node \<open>a\<close>.\<close>

lemma mutation_free:
  assumes ok: "cache_ok (ms_cache st)"
    and "nr_address req = a \<and>
      (meta_write E op req st = (Inr v, st') \<or> meta_write_stream E op req st = (Inr v, st') \<or>
       meta_update_metadata E op req st = (Inr v, st') \<or> meta_create_directory E op req st = (Inr v, st') \<or>
       meta_delete E unit_op req st = (Inr (), st') \<or> meta_delete_directory E unit_op req st = (Inr (), st') \<or>
       meta_continue_write E step_op req st = (Inr (Step_Done done), st')) \<or>
      pq_destination pair = a \<and> meta_copy E pair_op pair st = (Inr v, st') \<or>
      (pq_source pair = a \<or> pq_destination pair = a) \<and> meta_rename E rename_op pair st = (Inr (), st')"
  shows "mcache.free_of (speaks_of (me_crate E) a) (ms_cache st')"
proof -
  let ?free = "mcache.free_of (speaks_of (me_crate E) a)"
  have one: "?free (ms_cache (invalidate_for E a (st\<lparr>ms_inner := s\<rparr>)))" for s
    using invalidate_for_free[of "st\<lparr>ms_inner := s\<rparr>"] ok by simp
  have dir: "?free (ms_cache (invalidate_under E a (invalidate_for E a (st\<lparr>ms_inner := s\<rparr>))))" for s
    by (rule invalidate_under_keeps[OF one])
  have two: "?free (ms_cache (invalidate_for E d (invalidate_for E src (st\<lparr>ms_inner := s\<rparr>))))"
    if "src = a \<or> d = a" for s src d
  proof (cases "src = a")
    case True
    then show ?thesis using invalidate_for_keeps[OF one] by simp
  next
    case False
    with that show ?thesis
      using invalidate_for_free[OF invalidate_for_ok[of "st\<lparr>ms_inner := s\<rparr>" E src], of E a] ok by simp
  qed
  show ?thesis
    using assms(2) unfolding mutation_defs Let_def
    by (elim disjE conjE) (drule then_invalidate_ok, use one dir two in auto)+
qed

lemma own_key_speaks:
  assumes "cache_crate C" "cacheable_url a" "cacheable_url b" "reparses C a" "same_node a b"
  shows "node_address C b = fst (node_spellings C a) \<or> node_address C b = snd (node_spellings C a)"
proof -
  have can: "canonical_url a" "canonical_url b" using assms(2,3) by (auto simp: cacheable_url_def)
  obtain xs d ys e where xs: "good_segs xs" "url_path a = dir_path xs d" and ys: "good_segs ys" "url_path b = dir_path ys e"
    using canonical_plain can by (metis plain_path_def)
  have n: "node_path a = CHR ''/'' # path_of xs" "node_segs a = xs" "node_segs b = ys"
    using dir_path_node xs ys by auto
  have same: "url_scheme a = url_scheme b" "url_host a = url_host b" "url_port a = url_port b" "xs = ys" "url_query a = url_query b"
    using assms(5) same_node_iff[OF canonical_plain[OF can(1)] canonical_plain[OF can(2)]] n by auto
  then have "origin_str b = origin_str a" by (simp add: origin_str_def host_port_str_def)
  moreover have "url_path b = node_path a \<or> url_path b = (if node_path a = ''/'' then ''/'' else node_path a @ ''/'')"
    using path_of_Nil_iff[OF ys(1)] by (auto simp: ys(2) n(1) same(4) dir_path_def)
  ultimately show ?thesis
    using node_address_eq[OF assms(1,3)] node_spellings_eq[OF assms(1,2,4)] same(5) by auto
qed

lemma parent_key_speaks:
  assumes "cache_crate C" "cacheable_url a" "cacheable_url b" "same_node a b"
    and "parent_and_name C b = Some (parent, name)" "reparses C parent"
  shows "is_under_prefix (node_address C a) (snd (node_spellings C parent))"
proof -
  have C: "crate_ok C" using assms(1) by simp
  note par = parent_of[OF C assms(3,5)]
  have can: "canonical_url a" "canonical_url b" "canonical_url parent"
    using assms(2,3) par(1) by (auto simp: cacheable_url_def)
  obtain xs d where xs: "good_segs xs" "url_path parent = dir_path xs d" using canonical_plain[OF can(3)] by (auto simp: plain_path_def)
  have np: "node_path parent = CHR ''/'' # path_of xs" using dir_path_node[OF xs] by simp
  have "d \<or> xs = []" using dir_path_node(3)[OF xs] par(2) by (simp add: is_directory_def)
  then have "url_path parent = (if node_path parent = ''/'' then ''/'' else node_path parent @ ''/'')"
    using path_of_Nil_iff[OF xs(1)] by (auto simp: xs(2) np dir_path_def)
  then have "snd (node_spellings C parent) = node_address C parent"
    using node_spellings_eq[OF assms(1) par(1) assms(6)] node_address_eq[OF assms(1) par(1)] by simp
  moreover have "is_ancestor_or_self parent a"
  proof -
    have "url_scheme parent = url_scheme b \<and> url_host parent = url_host b \<and> url_port parent = url_port b"
      using origin_inj[OF par(1) assms(3)] par(5) by simp
    then show ?thesis
      using assms(4) same_node_iff[OF canonical_plain[OF can(1)] canonical_plain[OF can(2)]] par(3,4)
      by (simp add: ancestor_iff[OF canonical_plain[OF can(3)] canonical_plain[OF can(1)]])
  qed
  ultimately show ?thesis
    using under_prefix_iff[OF assms(2) par(1)] node_address_eq[OF assms(1)] assms(2) par(1) by metis
qed

text \<open>The result that a listing page gives to a stat.\<close>

definition page_answer :: "url_crate \<Rightarrow> list_page \<Rightarrow> url \<Rightarrow> object_info result" where
  "page_answer C page addr =
     (case find_in_page C page addr of LB_Found info \<Rightarrow> Inr info | _ \<Rightarrow> Inl Err_NotFound)"

lemma stat_on_free_cache:
  assumes C: "cache_crate (me_crate E)" and a: "cacheable_url a" "reparses (me_crate E) a"
    and b: "cacheable_url b" "same_node a b"
    and par: "\<And>parent name. parent_and_name (me_crate E) b = Some (parent, name) \<Longrightarrow> reparses (me_crate E) parent"
    and free: "mcache.free_of (speaks_of (me_crate E) a) (ms_cache st)"
    and stat: "meta_stat E (logged inner) ext b options st = (r, st')" "ext RESOLVED_OAUTH_CREDENTIAL = None"
  shows "\<exists>new. call_log st' = call_log st @ new \<and>
     ((\<exists>o'. Call_Stat ext b o' r \<in> set new) \<or>
      (\<exists>parent name page. parent_and_name (me_crate E) b = Some (parent, name) \<and>
         Call_List ext parent list_options_default (Inr page) \<in> set new \<and> r = page_answer (me_crate E) page b))"
  using stat
proof (cases rule: meta_stat_cases)
  case (hit now info)
  have "speaks_of (me_crate E) a (stat_key E (principal_of ext) b b)"
    using own_key_speaks[OF C a(1) b(1) a(2) b(2)] by (simp add: stat_key_def)
  from free_no_hit[OF free this] hit(2) show ?thesis by simp
next
  case (listed now st1 st2 lb)
  have free1: "mcache.free_of (speaks_of (me_crate E) a) (ms_cache st1)" unfolding listed(3) by (rule free_get[OF free])
  from listed(4) show ?thesis
  proof (cases rule: parent_list_cases)
    case (cached parent name page now')
    have "speaks_of (me_crate E) a (list_key E (principal_of ext) parent)"
      using parent_key_speaks[OF C a(1) b cached(1) par[OF cached(1)]] by (simp add: list_key_def)
    from free_no_hit[OF free1 this] cached(2) show ?thesis by simp
  next
    case (fresh parent name page now' now'' st3)
    have "r = page_answer (me_crate E) page b" using listed(5) fresh(3) by (auto simp: page_answer_def)
    then show ?thesis using fresh(1,6) listed(2,6) by auto
  qed (use listed(5) in auto)
next
  case (asked now st1 st2 up)
  from asked(3) obtain new where "call_log st2 = call_log st1 @ new"
  proof
    assume "stat_from_parent_list E (logged inner) ext b (flags_of_stat options) st1 = (LB_Unavailable, st2)"
    then show thesis using that by (cases rule: parent_list_cases) auto
  qed (use that in auto)
  then show ?thesis using asked(2,4) by auto
qed

text \<open>C11. A stat sees a completed mutation. Once any mutating operation of the layer has succeeded on
  a node (a write, streamed or continued to the end, a delete, a metadata update, a directory created or
  deleted, a copy onto it, a rename from or onto it), a stat of that node, under either spelling, by any
  principal, with any credential and any options, is answered by a call made after the mutation: the
  layer below's own stat, or a fresh listing of the parent. No row stored before is used.\<close>

theorem stat_sees_mutation:
  assumes "cache_crate (me_crate E)" "cacheable_url a" "reparses (me_crate E) a" "cacheable_url b" "same_node a b"
    and "\<forall>parent name. parent_and_name (me_crate E) b = Some (parent, name) \<longrightarrow> reparses (me_crate E) parent"
    and "meta_reach E inner st"
    and "nr_address req = a \<and>
      (meta_write E op req st = (Inr v, st') \<or> meta_write_stream E op req st = (Inr v, st') \<or>
       meta_update_metadata E op req st = (Inr v, st') \<or> meta_create_directory E op req st = (Inr v, st') \<or>
       meta_delete E unit_op req st = (Inr (), st') \<or> meta_delete_directory E unit_op req st = (Inr (), st') \<or>
       meta_continue_write E step_op req st = (Inr (Step_Done done), st')) \<or>
      pq_destination pair = a \<and> meta_copy E pair_op pair st = (Inr v, st') \<or>
      (pq_source pair = a \<or> pq_destination pair = a) \<and> meta_rename E rename_op pair st = (Inr (), st')"
    and "meta_stat E (logged inner) ext b options st' = (r, st'')" "ext RESOLVED_OAUTH_CREDENTIAL = None"
  shows "\<exists>new. call_log st'' = call_log st' @ new \<and>
     ((\<exists>o'. Call_Stat ext b o' r \<in> set new) \<or>
      (\<exists>parent name page. parent_and_name (me_crate E) b = Some (parent, name) \<and>
         Call_List ext parent list_options_default (Inr page) \<in> set new \<and> r = page_answer (me_crate E) page b))"
proof (rule stat_on_free_cache[OF assms(1-5) _ _ assms(9,10)])
  have "cache_ok (ms_cache st)" using reach_justified[OF assms(7)] by (simp add: mcache.rows_from_def)
  then show "mcache.free_of (speaks_of (me_crate E) a) (ms_cache st')" using assms(8) by (rule mutation_free)
qed (use assms(6) in blast)

definition md_delete :: "(unit node_request, bool \<times> inner_call list, unit) inner_op" where
  "md_delete request x = (Inr (), False, snd x)"

definition md_request :: "unit node_request" where
  "md_request = \<lparr>nr_extensions = Map.empty, nr_address = md_address, nr_rest = ()\<rparr>"

lemma md_urls:
  "cacheable_url md_address" "reparses ref_crate md_address"
  "reparses ref_crate (base_url ''s3'' (Some ''b'') ''/d/'')"
  "cacheable_url (base_url ''s3'' (Some ''b'') ''/d'')" "reparses ref_crate (base_url ''s3'' (Some ''b'') ''/d'')"
  "cacheable_url (base_url ''s3'' (Some ''b'') ''/e'')" "reparses ref_crate (base_url ''s3'' (Some ''b'') ''/e'')"
proof -
  have "canonical_of md_address = md_address" "canonical_of (base_url ''s3'' (Some ''b'') ''/d'') = base_url ''s3'' (Some ''b'') ''/d''"
    "canonical_of (base_url ''s3'' (Some ''b'') ''/e'') = base_url ''s3'' (Some ''b'') ''/e''" by code_simp+
  then show "cacheable_url md_address" "cacheable_url (base_url ''s3'' (Some ''b'') ''/d'')"
    "cacheable_url (base_url ''s3'' (Some ''b'') ''/e'')"
    by (simp_all add: cacheable_url_def canonical_url_def url_wf_def host_ok_def is_authority_end_def is_tail_delim_def)
      (simp_all add: md_address_def base_url_def host_ok_def is_authority_end_def is_tail_delim_def)
qed code_simp+

theorem stat_sees_mutation_witness:
  "fst (meta_stat md_env (logged md_inner) Map.empty md_address plain_stat md_cached) = Inr (sample_info ''/d/x'') \<and>
   (let (r, st') = meta_delete md_env md_delete md_request md_cached;
        (r', st'') = meta_stat md_env (logged md_inner) Map.empty md_address plain_stat st'
    in r = Inr () \<and> (\<exists>new. call_log st'' = call_log st' @ new \<and> new \<noteq> []))"
proof -
  obtain st' where d: "meta_delete md_env md_delete md_request md_cached = (Inr (), st')"
    by (simp add: meta_delete_def then_invalidate_def call_below_def md_delete_def Let_def case_prod_unfold)
  obtain r' st'' where s: "meta_stat md_env (logged md_inner) Map.empty md_address plain_stat st' = (r', st'')" by force
  have E: "me_crate md_env = ref_crate" by (simp add: md_env_def)
  have par: "\<forall>parent name. parent_and_name (me_crate md_env) md_address = Some (parent, name) \<longrightarrow> reparses (me_crate md_env) parent"
    using md_urls(3) by (simp add: E md_strings)
  have same: "same_node md_address md_address" by (simp add: same_node_def)
  have addr: "nr_address md_request = md_address" by (simp add: md_request_def)
  have "\<exists>new. call_log st'' = call_log st' @ new \<and>
     ((\<exists>o'. Call_Stat Map.empty md_address o' r' \<in> set new) \<or>
      (\<exists>parent name page. parent_and_name (me_crate md_env) md_address = Some (parent, name) \<and>
         Call_List Map.empty parent list_options_default (Inr page) \<in> set new \<and> r' = page_answer (me_crate md_env) page md_address))"
    by (rule stat_sees_mutation[where a = md_address and unit_op = md_delete and req = md_request])
      (use cache_crate_ref md_urls(1,2) par same md_cached_reach d s addr in \<open>auto simp: E\<close>)
  then have "\<exists>new. call_log st'' = call_log st' @ new \<and> new \<noteq> []" by auto
  then show ?thesis using d s md_hit by simp
qed

section \<open>Gaps in the change events\<close>

text \<open>
  Whenever the events may have missed a change (a lapse, an error, an end that nobody asked for),
  nothing cached below the watched prefix survives, and no listing that contains it.
\<close>

lemma sweep_subtree_free:
  assumes "cache_ok (ms_cache st)"
  shows "mcache.free_of (\<lambda>k. sweep_reaches (me_crate E) (Sweep_Prefix w) k \<or> sweep_reaches (me_crate E) (Sweep_Lists w) k)
    (ms_cache (sweep_subtree E w st))"
proof -
  let ?C = "me_crate E"
  have first: "mcache.free_of (sweep_reaches ?C (Sweep_Prefix w)) (mc_sweep ?C 0 (Sweep_Prefix w) (ms_cache st))"
    by (rule mcache.free_of_sweep[OF assms _ free_start[OF assms]]) simp
  have eq: "ms_cache (sweep_subtree E w st) = mc_sweep ?C 0 (Sweep_Lists w) (mc_sweep ?C 0 (Sweep_Prefix w) (ms_cache st))"
    by (simp add: sweep_subtree_def)
  show ?thesis unfolding eq by (rule mcache.free_of_sweep[OF cache_ok_sweep[OF assms] _ first]) blast
qed

lemma gap_leaves_nothing:
  assumes "cache_ok (ms_cache st)" "\<not> gs_done g" "gs_on_gap g"
    and "gap_sweep_next E w cancelled (g, st) = (item, g', st')"
    and "(\<exists>e. item = Some (Inl e)) \<or> (\<exists>d. item = Some (Inr (Watch_Lapsed d))) \<or>
         item = None \<and> gs_sweep_on_clean_end g \<and> \<not> cancelled"
  shows "mcache.free_of (\<lambda>k. sweep_reaches (me_crate E) (Sweep_Prefix w) k \<or> sweep_reaches (me_crate E) (Sweep_Lists w) k)
    (ms_cache st')"
proof -
  have "st' = sweep_subtree E w st"
    using assms(2-5) by (auto simp: gap_sweep_next_def gap_sweep_def split: list.splits sum.splits if_splits)
  then show ?thesis using sweep_subtree_free[OF assms(1)] by simp
qed

section \<open>A rename of a directory\<close>

lemma sweep_keeps:
  assumes "cache_ok mc" "row_of (mc_state mc) k = Some e" "\<not> sweep_reaches C w k" "w \<noteq> Sweep_Expired"
  shows "row_of (mc_state (mc_sweep C now w mc)) k = Some e"
  using assms
  by (cases w) (auto simp: invalidate_address_def invalidate_prefix_def invalidate_lists_containing_def
      cache_ok_def Let_def case_prod_unfold row_of_retain)

lemma spelled_same_node:
  assumes C: "cache_crate C" and u: "cacheable_url a" "cacheable_url b" "reparses C a"
    and eq: "node_address C b = fst (node_spellings C a) \<or> node_address C b = snd (node_spellings C a)"
  shows "same_node a b"
proof -
  have can: "canonical_url a" "canonical_url b" using u by (auto simp: cacheable_url_def)
  obtain xs d ys e where xs: "good_segs xs" "url_path a = dir_path xs d" and ys: "good_segs ys" "url_path b = dir_path ys e"
    using canonical_plain can by (metis plain_path_def)
  have n: "node_path a = CHR ''/'' # path_of xs" "node_segs a = xs" "node_segs b = ys"
    using dir_path_node xs ys by auto
  have np: "node_path a = dir_path xs False"
    "(if node_path a = ''/'' then ''/'' else node_path a @ ''/'') = dir_path xs True"
    using path_of_Nil_iff[OF xs(1)] by (auto simp: n(1) dir_path_def)
  have clean: "CHR ''?'' \<notin> set (dir_path xs d')" for d'
    using canonical_path_clean(1)[OF can(1)] unfolding xs(2) by (auto simp: dir_path_def split: if_splits)
  have "node_spellings C a = (origin_str a @ dir_path xs False @ query_str a, origin_str a @ dir_path xs True @ query_str a)"
    unfolding node_spellings_eq[OF C u(1,3)] np(2) unfolding np(1) ..
  then obtain d' where d': "origin_str b @ url_path b @ query_str b = origin_str a @ dir_path xs d' @ query_str a"
    "CHR ''?'' \<notin> set (dir_path xs d')"
    using eq node_address_eq[OF C u(2)] clean by auto
  from arg_cong[OF d'(1), of split_query]
  have q: "origin_str b @ dir_path ys e = origin_str a @ dir_path xs d'" "url_query b = url_query a"
    unfolding split_query_node[OF u(2) canonical_path_clean(1)[OF can(2)]] split_query_node[OF u(1) d'(2)]
    by (simp_all add: ys(2))
  obtain y where y: "dir_path ys e = CHR ''/'' # y" by (simp add: dir_path_def)
  have "origin_str b = origin_str a \<and> dir_path ys e = dir_path xs d'"
    using origin_cut[OF u(2,1) q(1)[unfolded y]] unfolding y[symmetric] by (simp add: dir_path_def)
  moreover from this have "ys = xs"
    using dir_path_node(2)[OF ys] dir_path_node(2)[OF xs(1), of "b" d'] ys(2) by simp
  ultimately show ?thesis
    using same_node_iff[OF canonical_plain[OF can(1)] canonical_plain[OF can(2)]] n origin_inj[OF u(2,1)] q(2) by simp
qed

text \<open>C37. A rename does not reach the rows below what it renames. When a rename has succeeded and
  the cache held a live row for an object below the source (a directory, then), the next stat of that
  object is answered from that row, and the layer below, where the object is no longer at this address,
  is not asked. \<open>delete_directory\<close> and the handler of a deletion event sweep the subtree; \<open>rename\<close>
  sweeps the two addresses only.\<close>

theorem rename_serves_old_children:
  assumes "cache_crate (me_crate E)" "cacheable_url (pq_source pair)" "cacheable_url (pq_destination pair)" "cacheable_url u"
    and "reparses (me_crate E) (pq_source pair)" "reparses (me_crate E) (pq_destination pair)"
    and "is_ancestor_or_self (pq_source pair) u" "\<not> same_node (pq_source pair) u" "\<not> same_node (pq_destination pair) u"
    and "\<not> is_directory u" "ext RESOLVED_OAUTH_CREDENTIAL = None" "meta_reach E inner st"
    and "meta_rename E rename_op pair st = (Inr (), st')"
    and "fst (mc_get (mi_now (logged inner) (ms_inner st')) (stat_key E (principal_of ext) u u) (flags_of_stat options)
           (ms_cache st)) = Lookup_Hit (PL_Stat info)"
  shows "\<exists>st''. meta_stat E (logged inner) ext u options st' = (Inr (info\<lparr>oi_address := u\<rparr>), st'') \<and>
     call_log st'' = call_log st'"
proof -
  let ?C = "me_crate E" and ?k = "stat_key E (principal_of ext) u u"
  let ?s = "pq_source pair" and ?d = "pq_destination pair"
  obtain e where e: "row_of (mc_state (ms_cache st)) ?k = Some e" "ce_payload e = PL_Stat info"
    "flags_covers (ce_flags e) (flags_of_stat options)" "mi_now (logged inner) (ms_inner st') - ce_inserted_at e < ce_ttl e"
    using get_hit[OF assms(14)] by blast
  have off: "\<not> sweep_reaches ?C (Sweep_Address a) ?k" if "cacheable_url a" "reparses ?C a" "\<not> same_node a u" for a
    using spelled_same_node[OF assms(1) that(1) assms(4) that(2)] that(3) by (auto simp: stat_key_def)
  have lists: "\<not> sweep_reaches ?C (Sweep_Lists a) ?k" for a by (simp add: stat_key_def)
  have ok: "cache_ok (ms_cache st)" using reach_justified[OF assms(12)] by (simp add: mcache.rows_from_def)
  obtain s where st': "st' = invalidate_for E ?d (invalidate_for E ?s (st\<lparr>ms_inner := s\<rparr>))"
    using then_invalidate_ok[OF assms(13)[unfolded meta_rename_def Let_def]] by blast
  let ?m1 = "mc_sweep ?C 0 (Sweep_Address ?s) (ms_cache st)"
  have "row_of (mc_state ?m1) ?k = Some e" by (rule sweep_keeps[OF ok e(1) off]) (use assms in auto)
  then have "row_of (mc_state (mc_sweep ?C 0 (Sweep_Lists ?s) ?m1)) ?k = Some e"
    by (rule sweep_keeps[OF cache_ok_sweep[OF ok]]) (use lists in auto)
  then have "row_of (mc_state (mc_sweep ?C 0 (Sweep_Address ?d) (mc_sweep ?C 0 (Sweep_Lists ?s) ?m1))) ?k = Some e"
    by (rule sweep_keeps[OF cache_ok_sweep[OF cache_ok_sweep[OF ok]]]) (use off assms in auto)
  then have "row_of (mc_state (mc_sweep ?C 0 (Sweep_Lists ?d)
      (mc_sweep ?C 0 (Sweep_Address ?d) (mc_sweep ?C 0 (Sweep_Lists ?s) ?m1)))) ?k = Some e"
    by (rule sweep_keeps[OF cache_ok_sweep[OF cache_ok_sweep[OF cache_ok_sweep[OF ok]]]]) (use lists in auto)
  then have "row_of (mc_state (ms_cache st')) ?k = Some e" unfolding st' invalidate_for_sweeps by simp
  then show ?thesis
    using e assms(10,11) by (simp add: meta_stat_def stat_is_cacheable_def mc_get_def note_cached_def Let_def)
qed

definition md_rename :: "(unit meta_pair_request, bool \<times> inner_call list, unit) inner_op" where
  "md_rename request x = (Inr (), False, snd x)"

definition md_pair :: "unit meta_pair_request" where
  "md_pair = \<lparr>pq_extensions = Map.empty, pq_source = base_url ''s3'' (Some ''b'') ''/d'',
     pq_destination = base_url ''s3'' (Some ''b'') ''/e'', pq_rest = ()\<rparr>"

text \<open>The object is gone below, and the layer still answers for it.\<close>

theorem rename_serves_old_children_witness:
  "let st' = snd (meta_rename md_env md_rename md_pair md_cached)
   in fst (meta_stat md_env (logged md_inner) Map.empty md_address plain_stat st') = Inr (sample_info ''/d/x'') \<and>
      fst (mi_stat (logged md_inner) Map.empty md_address plain_stat (ms_inner st')) = Inl Err_NotFound"
proof -
  obtain st' where r: "meta_rename md_env md_rename md_pair md_cached = (Inr (), st')"
    and below: "fst (ms_inner st') = False"
    by (simp add: meta_rename_def then_invalidate_def call_below_def md_rename_def invalidate_for_def Let_def case_prod_unfold)
  have E: "me_crate md_env = ref_crate" by (simp add: md_env_def)
  have now: "mi_now (logged md_inner) x = 5" for x by (simp add: logged_def md_inner_def case_prod_unfold)
  have live: "fst (mc_get (mi_now (logged md_inner) (ms_inner st')) (stat_key md_env (principal_of Map.empty) md_address md_address)
      (flags_of_stat plain_stat) (ms_cache md_cached)) = Lookup_Hit (PL_Stat (sample_info ''/d/x''))"
    unfolding md_filled now by (simp add: mc_get_def principal_of_def flags_of_stat_def flags_covers_def no_flags_def)
  have nodes: "is_ancestor_or_self (pq_source md_pair) md_address" "\<not> same_node (pq_source md_pair) md_address"
    "\<not> same_node (pq_destination md_pair) md_address" by code_simp+
  have "\<exists>st''. meta_stat md_env (logged md_inner) Map.empty md_address plain_stat st' =
      (Inr ((sample_info ''/d/x'')\<lparr>oi_address := md_address\<rparr>), st'') \<and> call_log st'' = call_log st'"
    by (rule rename_serves_old_children[OF _ _ _ _ _ _ nodes _ _ md_cached_reach r live])
      (use cache_crate_ref md_urls md_strings in \<open>auto simp: E md_pair_def\<close>)
  moreover have "(sample_info ''/d/x'')\<lparr>oi_address := md_address\<rparr> = sample_info ''/d/x''"
    by (simp add: sample_info_def md_address_def)
  ultimately show ?thesis
    using r below by (auto simp: logged_def md_inner_def case_prod_unfold)
qed

end
