(* ===== verification/Ov_Watch_Scopes.thy ===== *)
theory Ov_Watch_Scopes
  imports Ov_Meta_Cache "HOL-Library.Char_ord" "HOL-Library.List_Lexorder" "HOL-Library.Option_ord"
begin

text \<open>
  The registry of directories that a cache layer may watch and the table of advertised roots
  (\<open>ovstorage-plugin-cache/src/notification_drain.rs\<close>, \<open>WatchScopes\<close> and \<open>ScopedWatchState\<close>).

  Every operation runs under one mutex, so it is a function from state to state. Its argument
  \<open>now\<close> is the reading of \<open>Instant::now()\<close> in nanoseconds; subtraction of natural numbers
  saturates at zero as \<open>duration_since\<close> does. A \<open>HashMap\<close> is an association list with distinct
  keys in arbitrary order. A \<open>Notify\<close> is the one permit that \<open>notify_one\<close> stores
  (\<open>ws_wake\<close>). The touch counter and the generation counter are natural numbers: a \<open>u64\<close>
  that is incremented once per read or advertisement does not wrap in the life of a process, nor
  does a \<open>u32\<close> that counts failed opens. A poisoned mutex is not modelled: nothing panics
  while holding one. Log lines are left out.
\<close>

section \<open>Limits\<close>

definition from_millis :: "nat \<Rightarrow> nat" where "from_millis n = n * 1000000"

definition INITIAL_DRAIN_BACKOFF :: nat where "INITIAL_DRAIN_BACKOFF = from_millis 500"
definition MAX_DRAIN_BACKOFF :: nat where "MAX_DRAIN_BACKOFF = from_secs 60"
definition MIN_STABLE_WATCH_UPTIME :: nat where "MIN_STABLE_WATCH_UPTIME = from_secs 5"
definition INITIAL_ROOT_UPDATE_BACKOFF :: nat where "INITIAL_ROOT_UPDATE_BACKOFF = from_millis 50"
definition MAX_ROOT_UPDATE_BACKOFF :: nat where "MAX_ROOT_UPDATE_BACKOFF = from_secs 5"
definition MAX_WATCH_SCOPES :: nat where "MAX_WATCH_SCOPES = 4"
definition STUCK_RETIREMENT_LIMIT :: nat where "STUCK_RETIREMENT_LIMIT = MAX_WATCH_SCOPES * 4"
definition BARREN_ENDS_BEFORE_DISTRUST :: nat where "BARREN_ENDS_BEFORE_DISTRUST = 2"
definition MAX_CANDIDATE_SCOPES :: nat where "MAX_CANDIDATE_SCOPES = 32"
definition MAX_DENIED_SCOPES :: nat where "MAX_DENIED_SCOPES = 256"
definition DENIED_SCOPE_RETRY :: nat where "DENIED_SCOPE_RETRY = from_secs 300"
definition MAX_CONSECUTIVE_SCOPE_FAILURES :: nat where "MAX_CONSECUTIVE_SCOPE_FAILURES = 8"
definition MIN_WATCH_RESIDENCY :: nat where "MIN_WATCH_RESIDENCY = from_secs 60"

section \<open>The directory of an address\<close>

definition scope_of :: "url_crate \<Rightarrow> url \<Rightarrow> url option" where
  "scope_of C addr =
     (if url_username addr \<noteq> [] \<or> url_password addr \<noteq> None then None
      else if is_directory addr then Some (crate_set_fragment C None (crate_set_query C None addr))
      else map_option fst (parent_and_name C addr))"

datatype scope_outcome = Outcome_Opened | Outcome_Worked | Outcome_Barren | Outcome_Failed | Outcome_OpenUnavailable

datatype watch_mode = Mode_Recursive | Mode_NonRecursive

definition recursive :: "watch_mode \<Rightarrow> bool" where
  "recursive mode \<longleftrightarrow> mode = Mode_Recursive"

section \<open>The registry\<close>

record denied_scope =
  dn_at :: nat
  dn_fully :: bool
  dn_root :: url
  dn_generation :: nat

record scope_entry =
  se_url :: url
  se_touched :: nat
  se_direct_touch :: nat
  se_watched :: bool

record scope_table =
  st_scopes :: "(string \<times> scope_entry) list"
  st_denied :: "(string \<times> denied_scope) list"
  st_clock :: nat

record watch_scopes =
  ws_enabled :: bool
  ws_table :: scope_table
  ws_wake :: bool

definition watch_scopes_new :: "bool \<Rightarrow> watch_scopes" where
  "watch_scopes_new enabled =
     \<lparr>ws_enabled = enabled, ws_table = \<lparr>st_scopes = [], st_denied = [], st_clock = 0\<rparr>, ws_wake = False\<rparr>"

definition notify_one :: "watch_scopes \<Rightarrow> watch_scopes" where
  "notify_one ws = ws\<lparr>ws_wake := True\<rparr>"

text \<open>\<open>Iterator::min_by_key\<close>: the first of the elements with the smallest key.\<close>

fun min_by_key :: "('a \<Rightarrow> 'k::linorder) \<Rightarrow> 'a list \<Rightarrow> 'a option" where
  "min_by_key f [] = None"
| "min_by_key f (x # xs) =
     (case min_by_key f xs of None \<Rightarrow> Some x | Some y \<Rightarrow> if f x \<le> f y then Some x else Some y)"

text \<open>The eviction shared by the two tables: at the limit the row with the smallest key leaves.\<close>

definition evict_row :: "nat \<Rightarrow> ('v \<Rightarrow> 'k::linorder) \<Rightarrow> (string \<times> 'v) list \<Rightarrow> (string \<times> 'v) list" where
  "evict_row limit rank rows =
     (if limit \<le> length rows
      then (case min_by_key (\<lambda>(_, row). rank row) rows of Some (k, _) \<Rightarrow> AList.delete k rows | None \<Rightarrow> rows)
      else rows)"

definition touch_ancestors :: "url \<Rightarrow> nat \<Rightarrow> (string \<times> scope_entry) list \<Rightarrow> (string \<times> scope_entry) list" where
  "touch_ancestors scope clock =
     map (\<lambda>(k, entry). (k, if is_ancestor_or_self (se_url entry) scope then entry\<lparr>se_touched := clock\<rparr> else entry))"

definition registry_note_cached :: "url_crate \<Rightarrow> nat \<Rightarrow> url \<Rightarrow> watch_scopes \<Rightarrow> watch_scopes" where
  "registry_note_cached C now addr ws =
     (if \<not> ws_enabled ws then ws
      else
        (case scope_of C addr of
           None \<Rightarrow> ws
         | Some scope \<Rightarrow>
             (let table = ws_table ws;
                  clock = st_clock table + 1;
                  k = crate_as_str C scope;
                  touched = touch_ancestors scope clock (st_scopes table)
              in (case map_of touched k of
                    Some entry \<Rightarrow>
                      ws\<lparr>ws_table := table\<lparr>st_clock := clock,
                         st_scopes := AList.update k (entry\<lparr>se_direct_touch := now\<rparr>) touched\<rparr>\<rparr>
                  | None \<Rightarrow>
                      notify_one
                        (ws\<lparr>ws_table := table\<lparr>st_clock := clock,
                            st_scopes :=
                              AList.update k
                                \<lparr>se_url = scope, se_touched = clock, se_direct_touch = now, se_watched = False\<rparr>
                                (evict_row MAX_CANDIDATE_SCOPES (\<lambda>entry. (se_watched entry, se_touched entry)) touched)\<rparr>\<rparr>)))))"

definition deny :: "url_crate \<Rightarrow> nat \<Rightarrow> url \<Rightarrow> watch_mode \<Rightarrow> url \<Rightarrow> nat \<Rightarrow> watch_scopes \<Rightarrow> watch_scopes" where
  "deny C now scope mode root generation ws =
     (let table = ws_table ws;
          k = crate_as_str C scope;
          kept = (if map_of (st_denied table) k = None then evict_row MAX_DENIED_SCOPES dn_at (st_denied table)
                  else st_denied table)
      in ws\<lparr>ws_table := table\<lparr>st_denied :=
           AList.update k
             \<lparr>dn_at = now, dn_fully = \<not> recursive mode, dn_root = root, dn_generation = generation\<rparr> kept\<rparr>\<rparr>)"

type_synonym memo_owner = "url \<Rightarrow> nat \<Rightarrow> url \<Rightarrow> bool"

definition starting_mode :: "url_crate \<Rightarrow> nat \<Rightarrow> memo_owner \<Rightarrow> url \<Rightarrow> watch_scopes \<Rightarrow> watch_mode" where
  "starting_mode C now owned_by scope ws =
     (case map_of (st_denied (ws_table ws)) (crate_as_str C scope) of
        Some denied \<Rightarrow>
          (if now - dn_at denied < DENIED_SCOPE_RETRY \<and> owned_by (dn_root denied) (dn_generation denied) scope
           then Mode_NonRecursive else Mode_Recursive)
      | None \<Rightarrow> Mode_Recursive)"

text \<open>
  The order of \<open>candidates\<close>: latest touch first, then the deepest node, then the node's spelling.
  Both sorts are stable, so the inner one decides between rows that the outer one holds equal.
\<close>

definition withheld :: "url_crate \<Rightarrow> nat \<Rightarrow> memo_owner \<Rightarrow> watch_scopes \<Rightarrow> url \<Rightarrow> bool" where
  "withheld C now owned_by ws scope =
     (case map_of (st_denied (ws_table ws)) (crate_as_str C scope) of
        Some denied \<Rightarrow>
          dn_fully denied \<and> now - dn_at denied < DENIED_SCOPE_RETRY \<and>
          owned_by (dn_root denied) (dn_generation denied) scope
      | None \<Rightarrow> False)"

definition candidates :: "url_crate \<Rightarrow> nat \<Rightarrow> memo_owner \<Rightarrow> watch_scopes \<Rightarrow> url list" where
  "candidates C now owned_by ws =
     (let live = filter (\<lambda>entry. \<not> withheld C now owned_by ws (se_url entry)) (map snd (st_scopes (ws_table ws)))
      in map se_url
           (sort_desc (\<lambda>entry. (se_touched entry, node_rank (se_url entry)))
             (sort_key (\<lambda>entry. node_key (se_url entry)) live)))"

definition mark_watched :: "string list \<Rightarrow> watch_scopes \<Rightarrow> watch_scopes" where
  "mark_watched watched ws =
     ws\<lparr>ws_table := (ws_table ws)\<lparr>st_scopes :=
       map (\<lambda>(k, entry). (k, entry\<lparr>se_watched := list_ex (\<lambda>held. held = k) watched\<rparr>)) (st_scopes (ws_table ws))\<rparr>\<rparr>"

definition touched_within :: "nat \<Rightarrow> string \<Rightarrow> nat \<Rightarrow> watch_scopes \<Rightarrow> bool" where
  "touched_within now scope window ws =
     (case map_of (st_scopes (ws_table ws)) scope of
        Some entry \<Rightarrow> now - se_direct_touch entry < window
      | None \<Rightarrow> False)"

definition subtree_touched_within :: "nat \<Rightarrow> url \<Rightarrow> nat \<Rightarrow> (url \<Rightarrow> bool) \<Rightarrow> watch_scopes \<Rightarrow> bool" where
  "subtree_touched_within now prefx window same_route ws =
     list_ex (\<lambda>(_, entry). se_url entry \<noteq> prefx \<and> is_ancestor_or_self prefx (se_url entry) \<and>
                now - se_direct_touch entry < window \<and> same_route (se_url entry)) (st_scopes (ws_table ws))"

definition scopes_pending_deadline :: "nat \<Rightarrow> watch_scopes \<Rightarrow> bool" where
  "scopes_pending_deadline now ws =
     list_ex (\<lambda>(_, denied). now - dn_at denied < DENIED_SCOPE_RETRY) (st_denied (ws_table ws))"

section \<open>The advertised roots\<close>

text \<open>
  \<open>Watch_Refused f b p\<close> is \<open>RootWatch::Refused\<close> with its consecutive failures \<open>f\<close>, its consecutive
  barren ends \<open>b\<close> and the end of its pause \<open>p\<close>.
\<close>

datatype root_watch = Watch_Pending | Watch_Live | Watch_Refused nat nat "nat option" | Watch_Unwatchable

record scoped_root =
  sr_root :: url
  sr_watch :: root_watch
  sr_generation :: nat

record scoped_watch_state =
  sw_scopes :: watch_scopes
  sw_roots :: "(string \<times> scoped_root) list"
  sw_next_generation :: nat

record root_view =
  rv_root :: url
  rv_generation :: nat
  rv_covers :: bool
  rv_admits_probes :: bool

definition root_key :: "url_crate \<Rightarrow> url \<Rightarrow> string" where
  "root_key C root = node_address C (crate_set_path C (node_path root) root)"

definition scoped_new :: "watch_scopes \<Rightarrow> scoped_watch_state" where
  "scoped_new scopes = \<lparr>sw_scopes = scopes, sw_roots = [], sw_next_generation = 0\<rparr>"

definition wake_supervisor :: "scoped_watch_state \<Rightarrow> scoped_watch_state" where
  "wake_supervisor sw = sw\<lparr>sw_scopes := notify_one (sw_scopes sw)\<rparr>"

definition advertise :: "url_crate \<Rightarrow> url \<Rightarrow> scoped_watch_state \<Rightarrow> nat \<times> scoped_watch_state" where
  "advertise C root sw =
     (case map_of (sw_roots sw) (root_key C root) of
        None \<Rightarrow>
          (let generation = sw_next_generation sw in
           (generation,
            wake_supervisor
              (sw\<lparr>sw_next_generation := generation + 1,
                  sw_roots := AList.update (root_key C root)
                    \<lparr>sr_root = root, sr_watch = Watch_Pending, sr_generation = generation\<rparr> (sw_roots sw)\<rparr>)))
      | Some slot \<Rightarrow> (sr_generation slot, sw))"

definition retain_advertised :: "url_crate \<Rightarrow> url list \<Rightarrow> scoped_watch_state \<Rightarrow> scoped_watch_state" where
  "retain_advertised C advertised sw =
     (let kept = filter (\<lambda>(k, _). list_ex (\<lambda>root. root_key C root = k) advertised) (sw_roots sw);
          sw' = sw\<lparr>sw_roots := kept\<rparr>
      in if length kept \<noteq> length (sw_roots sw) then wake_supervisor sw' else sw')"

definition withdraw :: "url_crate \<Rightarrow> url \<Rightarrow> scoped_watch_state \<Rightarrow> scoped_watch_state" where
  "withdraw C root sw =
     (if map_of (sw_roots sw) (root_key C root) \<noteq> None
      then wake_supervisor (sw\<lparr>sw_roots := AList.delete (root_key C root) (sw_roots sw)\<rparr>)
      else sw)"

text \<open>
  Every transition that a root's drain reports looks its root up by key and gives up unless the
  record still carries the drain's generation.
\<close>

definition with_current :: "url_crate \<Rightarrow> url \<Rightarrow> nat \<Rightarrow>
    (scoped_root \<Rightarrow> scoped_watch_state \<Rightarrow> scoped_watch_state) \<Rightarrow> scoped_watch_state \<Rightarrow> scoped_watch_state" where
  "with_current C root generation f sw =
     (case map_of (sw_roots sw) (root_key C root) of
        None \<Rightarrow> sw
      | Some entry \<Rightarrow> if sr_generation entry \<noteq> generation then sw else f entry sw)"

definition set_root_watch :: "url_crate \<Rightarrow> url \<Rightarrow> root_watch \<Rightarrow> scoped_root \<Rightarrow> scoped_watch_state \<Rightarrow> scoped_watch_state" where
  "set_root_watch C root watch entry sw =
     sw\<lparr>sw_roots := AList.update (root_key C root) (entry\<lparr>sr_watch := watch\<rparr>) (sw_roots sw)\<rparr>"

fun is_refused :: "root_watch \<Rightarrow> bool" where
  "is_refused (Watch_Refused f b p) = True"
| "is_refused _ = False"

definition enter_scoped_mode :: "url_crate \<Rightarrow> url \<Rightarrow> nat \<Rightarrow> scoped_watch_state \<Rightarrow> scoped_watch_state" where
  "enter_scoped_mode C root generation =
     with_current C root generation
       (\<lambda>entry sw. if is_refused (sr_watch entry) then sw
                   else wake_supervisor (set_root_watch C root (Watch_Refused 0 0 None) entry sw))"

definition leave_scoped_mode :: "url_crate \<Rightarrow> url \<Rightarrow> nat \<Rightarrow> scoped_watch_state \<Rightarrow> scoped_watch_state" where
  "leave_scoped_mode C root generation =
     with_current C root generation
       (\<lambda>entry sw. let sw' = set_root_watch C root Watch_Live entry sw
                   in if sr_watch entry \<noteq> Watch_Live then wake_supervisor sw' else sw')"

definition root_unwatchable :: "url_crate \<Rightarrow> url \<Rightarrow> nat \<Rightarrow> scoped_watch_state \<Rightarrow> scoped_watch_state" where
  "root_unwatchable C root generation =
     with_current C root generation
       (\<lambda>entry sw. wake_supervisor (set_root_watch C root Watch_Unwatchable entry sw))"

definition root_watch_ended :: "url_crate \<Rightarrow> url \<Rightarrow> nat \<Rightarrow> scoped_watch_state \<Rightarrow> scoped_watch_state" where
  "root_watch_ended C root generation =
     with_current C root generation
       (\<lambda>entry sw. if sr_watch entry = Watch_Live
                   then wake_supervisor (set_root_watch C root Watch_Pending entry sw) else sw)"

fun expire_pause :: "nat \<Rightarrow> root_watch \<Rightarrow> root_watch" where
  "expire_pause now (Watch_Refused f b (Some until)) =
     (if until \<le> now then Watch_Refused 0 0 None else Watch_Refused f b (Some until))"
| "expire_pause now watch = watch"

fun admits_probes :: "root_watch \<Rightarrow> bool" where
  "admits_probes (Watch_Refused f b None) = True"
| "admits_probes _ = False"

definition root_view_of :: "scoped_root \<Rightarrow> root_view" where
  "root_view_of entry =
     \<lparr>rv_root = sr_root entry, rv_generation = sr_generation entry,
      rv_covers = (sr_watch entry = Watch_Live), rv_admits_probes = admits_probes (sr_watch entry)\<rparr>"

definition root_views :: "nat \<Rightarrow> scoped_watch_state \<Rightarrow> root_view list \<times> scoped_watch_state" where
  "root_views now sw =
     (let roots = map (\<lambda>(k, entry). (k, entry\<lparr>sr_watch := expire_pause now (sr_watch entry)\<rparr>)) (sw_roots sw);
          views = map (\<lambda>(_, entry). root_view_of entry) roots
      in (sort_desc (\<lambda>view. node_rank (rv_root view)) (sort_key (\<lambda>view. node_key (rv_root view)) views),
          sw\<lparr>sw_roots := roots\<rparr>))"

definition still_owns_scope :: "url_crate \<Rightarrow> scoped_watch_state \<Rightarrow> url \<Rightarrow> nat \<Rightarrow> url \<Rightarrow> bool" where
  "still_owns_scope C sw root generation scope =
     (case map_of (sw_roots sw) (root_key C root) of
        None \<Rightarrow> False
      | Some record \<Rightarrow>
          (if sr_generation record \<noteq> generation then False
           else \<not> list_ex (\<lambda>(_, other). \<not> same_node (sr_root other) root \<and>
                     is_ancestor_or_self (sr_root other) scope \<and>
                     node_rank root < node_rank (sr_root other)) (sw_roots sw)))"

definition memo_owner_still_owns :: "url_crate \<Rightarrow> scoped_watch_state \<Rightarrow> memo_owner" where
  "memo_owner_still_owns C sw = (\<lambda>root generation scope. still_owns_scope C sw root generation scope)"

text \<open>The budget of a probing root after one more outcome: \<open>charge_outcome\<close> is the \<open>match\<close> of
  \<open>note_scope_outcome\<close> on the three counters.\<close>

definition charge_probe :: "nat \<Rightarrow> nat \<Rightarrow> nat \<Rightarrow> nat option \<Rightarrow> root_watch" where
  "charge_probe now failures barren paused =
     (let failures = failures + 1 in
      Watch_Refused failures barren
        (if MAX_CONSECUTIVE_SCOPE_FAILURES \<le> failures \<and> paused = None
         then Some (now + DENIED_SCOPE_RETRY) else paused))"

fun charge_outcome :: "nat \<Rightarrow> scope_outcome \<Rightarrow> root_watch \<Rightarrow> root_watch" where
  "charge_outcome now Outcome_Opened (Watch_Refused failures barren paused) =
     Watch_Refused (if barren < BARREN_ENDS_BEFORE_DISTRUST then 0 else failures) barren paused"
| "charge_outcome now Outcome_Worked (Watch_Refused failures barren paused) = Watch_Refused 0 0 paused"
| "charge_outcome now Outcome_Barren (Watch_Refused failures barren paused) =
     (if barren + 1 < BARREN_ENDS_BEFORE_DISTRUST then Watch_Refused failures (barren + 1) paused
      else charge_probe now failures (barren + 1) paused)"
| "charge_outcome now Outcome_Failed (Watch_Refused failures barren paused) = charge_probe now failures barren paused"
| "charge_outcome now Outcome_OpenUnavailable (Watch_Refused failures barren paused) =
     charge_probe now failures barren paused"
| "charge_outcome now outcome watch = watch"

definition note_scope_outcome :: "url_crate \<Rightarrow> nat \<Rightarrow> url \<Rightarrow> nat \<Rightarrow> scope_outcome \<Rightarrow> scoped_watch_state \<Rightarrow> scoped_watch_state" where
  "note_scope_outcome C now root generation outcome =
     with_current C root generation
       (\<lambda>entry sw. if is_refused (sr_watch entry)
                   then set_root_watch C root (charge_outcome now outcome (sr_watch entry)) entry sw else sw)"

fun waits_out_pause :: "root_watch \<Rightarrow> bool" where
  "waits_out_pause (Watch_Refused f b (Some until)) = True"
| "waits_out_pause _ = False"

definition roots_pending_deadline :: "scoped_watch_state \<Rightarrow> bool" where
  "roots_pending_deadline sw = list_ex (\<lambda>(_, entry). waits_out_pause (sr_watch entry)) (sw_roots sw)"

definition scoped_note_cached :: "url_crate \<Rightarrow> nat \<Rightarrow> url \<Rightarrow> scoped_watch_state \<Rightarrow> scoped_watch_state" where
  "scoped_note_cached C now addr sw = sw\<lparr>sw_scopes := registry_note_cached C now addr (sw_scopes sw)\<rparr>"

definition scoped_deny :: "url_crate \<Rightarrow> nat \<Rightarrow> url \<Rightarrow> watch_mode \<Rightarrow> url \<Rightarrow> nat \<Rightarrow> scoped_watch_state \<Rightarrow> scoped_watch_state" where
  "scoped_deny C now scope mode root generation sw =
     sw\<lparr>sw_scopes := deny C now scope mode root generation (sw_scopes sw)\<rparr>"

definition scoped_mark_watched :: "string list \<Rightarrow> scoped_watch_state \<Rightarrow> scoped_watch_state" where
  "scoped_mark_watched watched sw = sw\<lparr>sw_scopes := mark_watched watched (sw_scopes sw)\<rparr>"

end
