(* ===== verification/Ov_Watch_Laws.thy ===== *)
theory Ov_Watch_Laws
  imports Ov_Watch_Scopes
begin

text \<open>
  What the registry of directories and the table of roots promise, whatever the order in which the
  cache reads, the root drains, the scope drains, the manager and the supervisor take their locks.
  The step relation \<open>scoped_step\<close> has one rule per locked region; a run of the layer is a path in
  it, so an invariant of the relation holds in every interleaving.
\<close>

named_theorems watch_defs \<open>definitions of the operations on the registry and the root table\<close>

declare enter_scoped_mode_def [watch_defs] leave_scoped_mode_def [watch_defs] root_unwatchable_def [watch_defs]
  root_watch_ended_def [watch_defs] note_scope_outcome_def [watch_defs] with_current_def [watch_defs]
  set_root_watch_def [watch_defs] wake_supervisor_def [watch_defs] notify_one_def [watch_defs]

section \<open>Association lists\<close>

lemma min_by_key_None [simp]: "min_by_key f xs = None \<longleftrightarrow> xs = []"
  by (cases xs) (auto split: option.splits)

lemma min_by_key_in: "min_by_key f xs = Some m \<Longrightarrow> m \<in> set xs"
  by (induction xs arbitrary: m) (auto split: option.splits if_splits)

lemma min_by_key_min: "min_by_key f xs = Some m \<Longrightarrow> x \<in> set xs \<Longrightarrow> f m \<le> f x"
proof (induction xs arbitrary: m)
  case (Cons y ys)
  then show ?case
    by (cases "min_by_key f ys") (fastforce split: if_splits simp: not_le)+
qed simp

lemma delete_length:
  "distinct (map fst xs) \<Longrightarrow> k \<in> fst ` set xs \<Longrightarrow> Suc (length (AList.delete k xs)) = length xs"
proof (induction xs)
  case (Cons x xs)
  show ?case
  proof (cases "fst x = k")
    case True
    then have "k \<notin> fst ` set xs" using Cons.prems(1) by auto
    then have "AList.delete k xs = xs" by (simp add: AList.delete_eq filter_id_conv image_iff split_beta)
    then show ?thesis using True by (simp add: AList.delete_eq split_beta)
  next
    case False
    then show ?thesis using Cons by (auto simp: AList.delete_eq split_beta)
  qed
qed simp

lemma update_length: "length (AList.update k v xs) = (if k \<in> fst ` set xs then length xs else Suc (length xs))"
  by (induction xs) auto

lemma update_values: "p \<in> set (AList.update k v xs) \<Longrightarrow> p = (k, v) \<or> p \<in> set xs"
  by (induction xs) (auto split: if_splits)

lemma update_other:
  "distinct (map fst xs) \<Longrightarrow> p \<in> set (AList.update k v xs) \<Longrightarrow> p = (k, v) \<or> p \<in> set xs \<and> fst p \<noteq> k"
proof (induction xs)
  case (Cons x xs)
  show ?case
  proof (cases "fst x = k")
    case True
    then have "AList.update k v (x # xs) = (k, v) # xs" by (cases x) simp
    then show ?thesis using Cons.prems True by (auto simp: image_iff)
  next
    case False
    then show ?thesis using Cons by (cases x) auto
  qed
qed simp

lemma delete_keys: "distinct (map fst xs) \<Longrightarrow> distinct (map fst (AList.delete k xs))"
  by (simp add: AList.distinct_delete)

lemma distinct_subset_length: "distinct xs \<Longrightarrow> set xs \<subseteq> set ys \<Longrightarrow> length xs \<le> length ys"
  by (metis card_length card_mono distinct_card finite_set le_trans)

section \<open>Bounded tables\<close>

text \<open>
  The interface that both tables of the registry use: a row is added under a limit, and the row of
  smallest rank leaves first.
\<close>

locale bounded_rows =
  fixes limit :: nat and rank :: "'v \<Rightarrow> 'k::linorder"
  assumes positive: "0 < limit"
begin

lemma evict_subset: "set (evict_row limit rank rows) \<subseteq> set rows"
  by (auto simp: evict_row_def AList.delete_eq split: option.splits)

lemma evict_distinct: "distinct (map fst rows) \<Longrightarrow> distinct (map fst (evict_row limit rank rows))"
  by (auto simp: evict_row_def intro: delete_keys split: option.splits)

lemma evict_length:
  assumes "distinct (map fst rows)" "length rows \<le> limit"
  shows "length (evict_row limit rank rows) < limit"
proof (cases "limit \<le> length rows")
  case False
  then show ?thesis by (simp add: evict_row_def)
next
  case True
  then have "rows \<noteq> []" using positive by auto
  then obtain k row where m: "min_by_key (\<lambda>(_, row). rank row) rows = Some (k, row)"
    by (cases "min_by_key (\<lambda>(_, row). rank row) rows") auto
  then have "k \<in> fst ` set rows" using min_by_key_in[OF m] by force
  then have "Suc (length (AList.delete k rows)) = length rows" using assms(1) by (intro delete_length)
  then show ?thesis using True assms(2) m by (simp add: evict_row_def)
qed

lemma insert_bounded:
  assumes "distinct (map fst rows)" "length rows \<le> limit"
  shows "length (AList.update k v (evict_row limit rank rows)) \<le> limit"
    and "distinct (map fst (AList.update k v (evict_row limit rank rows)))"
  using evict_length[OF assms] evict_distinct[OF assms(1)] by (auto simp: update_length AList.distinct_update)

text \<open>The row that leaves is of smallest rank; every other row stays.\<close>

lemma evicted_least:
  assumes "(k, row) \<in> set rows" "(k, row) \<notin> set (evict_row limit rank rows)" "(k', row') \<in> set rows"
    "distinct (map fst rows)"
  shows "rank row \<le> rank row' \<and> ((k', row') \<in> set (evict_row limit rank rows) \<or> k' = k)"
proof -
  from assms(1,2) obtain v r where m: "min_by_key (\<lambda>(_, row). rank row) rows = Some (v, r)"
    "evict_row limit rank rows = AList.delete v rows"
    by (auto simp: evict_row_def split: if_splits option.splits)
  then have kv: "k = v" using assms(1,2) by (simp add: AList.delete_eq)
  have "(v, r) \<in> set rows" using min_by_key_in[OF m(1)] .
  then have r: "r = row" using kv assms(1,4) by (metis map_of_is_SomeI option.inject)
  have "rank row \<le> rank row'" using min_by_key_min[OF m(1) assms(3)] r by simp
  then show ?thesis using assms(3) m(2) kv by (auto simp: AList.delete_eq)
qed

end

interpretation candidate_rows: bounded_rows MAX_CANDIDATE_SCOPES "\<lambda>entry :: scope_entry. (se_watched entry, se_touched entry)"
  by unfold_locales (simp add: MAX_CANDIDATE_SCOPES_def)

interpretation denied_rows: bounded_rows MAX_DENIED_SCOPES "\<lambda>denied :: denied_scope. dn_at denied"
  by unfold_locales (simp add: MAX_DENIED_SCOPES_def)

section \<open>The invariant of the registry\<close>

text \<open>A directory address without credential, query and fragment.\<close>

definition bare_scope :: "url \<Rightarrow> bool" where
  "bare_scope u \<longleftrightarrow> url_username u = [] \<and> url_password u = None \<and> url_query u = None \<and> url_fragment u = None"

definition entry_ok :: "url_crate \<Rightarrow> nat \<Rightarrow> string \<times> scope_entry \<Rightarrow> bool" where
  "entry_ok C clock = (\<lambda>(k, entry). k = crate_as_str C (se_url entry) \<and> se_touched entry \<le> clock \<and> bare_scope (se_url entry))"

definition watched_rows :: "(string \<times> scope_entry) list \<Rightarrow> (string \<times> scope_entry) list" where
  "watched_rows rows = filter (\<lambda>(_, entry). se_watched entry) rows"

definition registry_ok :: "url_crate \<Rightarrow> watch_scopes \<Rightarrow> bool" where
  "registry_ok C ws \<longleftrightarrow>
     (let table = ws_table ws in
      distinct (map fst (st_scopes table)) \<and> length (st_scopes table) \<le> MAX_CANDIDATE_SCOPES \<and>
      distinct (map fst (st_denied table)) \<and> length (st_denied table) \<le> MAX_DENIED_SCOPES \<and>
      list_all (entry_ok C (st_clock table)) (st_scopes table) \<and>
      length (watched_rows (st_scopes table)) \<le> MAX_WATCH_SCOPES + 1)"

lemma scope_of_bare:
  assumes "crate_ok C" "scope_of C addr = Some scope"
  shows "bare_scope scope"
proof -
  have c: "url_username addr = []" "url_password addr = None"
    using assms(2) by (auto simp: scope_of_def split: if_splits)
  have sq: "\<And>u q. crate_set_query C q u = u\<lparr>url_query := q\<rparr>" "\<And>u q. crate_set_fragment C q u = u\<lparr>url_fragment := q\<rparr>"
    using assms(1) by (auto simp: setters_ok_def)
  have sp: "\<exists>p'. crate_set_path C p u = u\<lparr>url_path := p'\<rparr>" for p u
    using assms(1) by (simp add: setters_ok_def)
  show ?thesis
  proof (cases "is_directory addr")
    case True
    then show ?thesis using assms(2) c sq by (auto simp: scope_of_def bare_scope_def)
  next
    case False
    then obtain name where "parent_and_name C addr = Some (scope, name)"
      using assms(2) c by (auto simp: scope_of_def)
    then obtain p where "scope = crate_set_fragment C None (crate_set_query C None (crate_set_path C p addr))"
      by (auto simp: parent_and_name_def split: if_splits option.splits)
    then show ?thesis using sq sp[of p addr] c by (auto simp: bare_scope_def)
  qed
qed

lemma touch_ancestors_fst [simp]: "map fst (touch_ancestors scope clock rows) = map fst rows"
  by (induction rows) (auto simp: touch_ancestors_def)

lemma touch_ancestors_keys: "fst ` set (touch_ancestors scope clock rows) = fst ` set rows"
  by (metis touch_ancestors_fst set_map)

lemma touch_ancestors_length [simp]: "length (touch_ancestors scope clock rows) = length rows"
  by (simp add: touch_ancestors_def)

lemma touch_ancestors_watched [simp]:
  "length (watched_rows (touch_ancestors scope clock rows)) = length (watched_rows rows)"
  by (induction rows) (auto simp: touch_ancestors_def watched_rows_def split_beta)

lemma touch_ancestors_ok:
  "list_all (entry_ok C clock) rows \<Longrightarrow> list_all (entry_ok C (Suc clock)) (touch_ancestors scope (Suc clock) rows)"
  by (induction rows) (auto simp: touch_ancestors_def entry_ok_def)

lemma watched_rows_update_new:
  "k \<notin> fst ` set rows \<Longrightarrow> \<not> se_watched v \<Longrightarrow> watched_rows (AList.update k v rows) = watched_rows rows"
  by (induction rows) (auto simp: watched_rows_def)

lemma watched_rows_update_same:
  "map_of rows k = Some entry \<Longrightarrow> se_watched v = se_watched entry \<Longrightarrow>
     length (watched_rows (AList.update k v rows)) = length (watched_rows rows)"
  by (induction rows) (auto simp: watched_rows_def split: if_splits)

lemma watched_rows_delete: "length (watched_rows (AList.delete k rows)) \<le> length (watched_rows rows)"
  by (induction rows) (auto simp: watched_rows_def AList.delete_eq)

lemma watched_rows_evict: "length (watched_rows (evict_row limit rank rows)) \<le> length (watched_rows rows)"
  using watched_rows_delete by (auto simp: evict_row_def split: option.splits)

lemma registry_new_ok: "registry_ok C (watch_scopes_new enabled)"
  by (simp add: registry_ok_def watch_scopes_new_def watched_rows_def)

lemma update_ok: "list_all (entry_ok C clock) rows \<Longrightarrow> entry_ok C clock (k, v) \<Longrightarrow> list_all (entry_ok C clock) (AList.update k v rows)"
  by (auto simp: list_all_iff dest: update_values)

lemma evict_row_ok: "list_all (entry_ok C clock) rows \<Longrightarrow> list_all (entry_ok C clock) (evict_row limit rank rows)"
  by (auto simp: list_all_iff evict_row_def AList.delete_eq split: option.splits)

lemma note_cached_ok:
  assumes "crate_ok C" "registry_ok C ws"
  shows "registry_ok C (registry_note_cached C now addr ws)"
proof (cases "ws_enabled ws \<and> scope_of C addr \<noteq> None")
  case False
  then show ?thesis using assms(2) by (auto simp: registry_note_cached_def split: option.splits)
next
  case True
  then obtain scope where sc: "ws_enabled ws" "scope_of C addr = Some scope" by auto
  have bare: "bare_scope scope" using scope_of_bare[OF assms(1) sc(2)] .
  let ?rows = "st_scopes (ws_table ws)" and ?clock = "st_clock (ws_table ws)"
  let ?k = "crate_as_str C scope" and ?t = "touch_ancestors scope (Suc ?clock) ?rows"
  have d: "distinct (map fst ?rows)" "length ?rows \<le> MAX_CANDIDATE_SCOPES" "list_all (entry_ok C ?clock) ?rows"
    "length (watched_rows ?rows) \<le> MAX_WATCH_SCOPES + 1"
    using assms(2) by (simp_all add: registry_ok_def Let_def)
  have t: "list_all (entry_ok C (Suc ?clock)) ?t" using touch_ancestors_ok[OF d(3)] .
  show ?thesis
  proof (cases "map_of ?t ?k")
    case (Some entry)
    then have m: "(?k, entry) \<in> set ?t" by (rule map_of_SomeD)
    then have e: "entry_ok C (Suc ?clock) (?k, entry\<lparr>se_direct_touch := now\<rparr>)"
      using t by (auto simp: list_all_iff entry_ok_def)
    have "?k \<in> fst ` set ?t" using m by force
    then show ?thesis
      using assms(2) sc Some d update_ok[OF t e] watched_rows_update_same[OF Some, of "entry\<lparr>se_direct_touch := now\<rparr>"]
      by (simp add: registry_note_cached_def registry_ok_def Let_def update_length AList.distinct_update)
  next
    case None
    let ?v = "\<lparr>se_url = scope, se_touched = Suc ?clock, se_direct_touch = now, se_watched = False\<rparr>"
    let ?e = "evict_row MAX_CANDIDATE_SCOPES (\<lambda>entry. (se_watched entry, se_touched entry)) ?t"
    have "?k \<notin> fst ` set ?e"
      using None candidate_rows.evict_subset[of ?t] by (auto simp: map_of_eq_None_iff)
    then have "watched_rows (AList.update ?k ?v ?e) = watched_rows ?e" by (intro watched_rows_update_new) auto
    then have w: "length (watched_rows (AList.update ?k ?v ?e)) \<le> MAX_WATCH_SCOPES + 1"
      using watched_rows_evict[of MAX_CANDIDATE_SCOPES "\<lambda>entry. (se_watched entry, se_touched entry)" ?t] d(4) by simp
    have v: "entry_ok C (Suc ?clock) (?k, ?v)" using bare by (simp add: entry_ok_def)
    note b = candidate_rows.insert_bounded[of ?t ?k ?v]
    show ?thesis
      using assms(2) sc None d w b update_ok[OF evict_row_ok[OF t] v]
      by (simp add: registry_note_cached_def registry_ok_def Let_def notify_one_def)
  qed
qed

lemma deny_ok:
  assumes "registry_ok C ws"
  shows "registry_ok C (deny C now scope mode root generation ws)"
proof -
  have d: "distinct (map fst (st_denied (ws_table ws)))" "length (st_denied (ws_table ws)) \<le> MAX_DENIED_SCOPES"
    using assms by (simp_all add: registry_ok_def Let_def)
  let ?k = "crate_as_str C scope"
  show ?thesis
  proof (cases "map_of (st_denied (ws_table ws)) ?k")
    case None
    then show ?thesis using assms denied_rows.insert_bounded[OF d] by (simp add: deny_def registry_ok_def Let_def)
  next
    case (Some memo)
    then have "?k \<in> fst ` set (st_denied (ws_table ws))" by (metis map_of_eq_None_iff option.distinct(1))
    then show ?thesis using assms Some d by (simp add: deny_def registry_ok_def Let_def update_length AList.distinct_update)
  qed
qed

lemma mark_watched_count:
  assumes "distinct (map fst rows)"
  shows "length (watched_rows (map (\<lambda>(k, entry). (k, entry\<lparr>se_watched := list_ex (\<lambda>held. held = k) watched\<rparr>)) rows)) \<le> length watched"
    (is "length (watched_rows ?r) \<le> _")
proof -
  have "map fst ?r = map fst rows" by (simp add: comp_def split_beta)
  then have "distinct (map fst ?r)" using assms by (simp only:)
  then have "distinct (map fst (watched_rows ?r))" unfolding watched_rows_def by (rule distinct_map_filter)
  moreover have "set (map fst (watched_rows ?r)) \<subseteq> set watched"
    by (auto simp: watched_rows_def list_ex_iff)
  ultimately have "length (map fst (watched_rows ?r)) \<le> length watched" by (rule distinct_subset_length)
  then show ?thesis by simp
qed

lemma mark_watched_ok:
  assumes "registry_ok C ws" "length watched \<le> MAX_WATCH_SCOPES + 1"
  shows "registry_ok C (mark_watched watched ws)"
proof -
  let ?r = "map (\<lambda>(k, entry). (k, entry\<lparr>se_watched := list_ex (\<lambda>held. held = k) watched\<rparr>)) (st_scopes (ws_table ws))"
  have "distinct (map fst (st_scopes (ws_table ws)))" using assms(1) by (simp add: registry_ok_def Let_def)
  note c = mark_watched_count[OF this, of watched]
  have "map (fst \<circ> (\<lambda>(k, entry). (k, entry\<lparr>se_watched := list_ex (\<lambda>held. held = k) watched\<rparr>))) (st_scopes (ws_table ws)) =
      map fst (st_scopes (ws_table ws))" by (simp add: comp_def split_beta)
  then have "distinct (map fst ?r)" using \<open>distinct (map fst (st_scopes (ws_table ws)))\<close> by (simp only: map_map)
  moreover have "list_all (entry_ok C clock) ?r \<longleftrightarrow> list_all (entry_ok C clock) (st_scopes (ws_table ws))" for clock
    by (simp add: list_all_iff entry_ok_def split_beta)
  ultimately show ?thesis using assms c by (simp add: registry_ok_def mark_watched_def Let_def del: map_map)
qed

section \<open>The root table\<close>

definition roots_ok :: "url_crate \<Rightarrow> scoped_watch_state \<Rightarrow> bool" where
  "roots_ok C sw \<longleftrightarrow>
     distinct (map fst (sw_roots sw)) \<and> distinct (map (\<lambda>(_, entry). sr_generation entry) (sw_roots sw)) \<and>
     list_all (\<lambda>(k, entry). k = root_key C (sr_root entry) \<and> sr_generation entry < sw_next_generation sw) (sw_roots sw)"

definition scoped_ok :: "url_crate \<Rightarrow> scoped_watch_state \<Rightarrow> bool" where
  "scoped_ok C sw \<longleftrightarrow> registry_ok C (sw_scopes sw) \<and> roots_ok C sw"

text \<open>The generation under which a root is advertised.\<close>

definition generation_at :: "scoped_watch_state \<Rightarrow> string \<Rightarrow> nat option" where
  "generation_at sw k = map_option sr_generation (map_of (sw_roots sw) k)"

text \<open>
  The interface between the root table and a drain that reports to it: a report names a key and the
  generation the drain was started for. It does nothing unless that generation is current, and it
  never changes which generation is current.
\<close>

locale guarded_report =
  fixes keyof :: "url \<Rightarrow> string" and report :: "url \<Rightarrow> nat \<Rightarrow> scoped_watch_state \<Rightarrow> scoped_watch_state"
  assumes stale: "generation_at sw (keyof root) \<noteq> Some generation \<Longrightarrow> report root generation sw = sw"
    and keeps: "generation_at (report root generation sw) k = generation_at sw k"
begin

lemma stragglers_silent:
  assumes "\<forall>(root, generation) \<in> set reports. generation_at sw (keyof root) \<noteq> Some generation"
  shows "fold (\<lambda>(root, generation). report root generation) reports sw = sw"
  using assms by (induction reports) (auto simp: stale)

lemma reports_keep_generations:
  "generation_at (fold (\<lambda>(root, generation). report root generation) reports sw) k = generation_at sw k"
  by (induction reports arbitrary: sw) (auto simp: keeps)

end

lemma with_current_stale:
  "generation_at sw (root_key C root) \<noteq> Some generation \<Longrightarrow> with_current C root generation f sw = sw"
  by (auto simp: with_current_def generation_at_def split: option.splits)

lemma with_current_keeps:
  assumes "\<And>entry. map_of (sw_roots sw) (root_key C root) = Some entry \<Longrightarrow> generation_at (f entry sw) k = generation_at sw k"
  shows "generation_at (with_current C root generation f sw) k = generation_at sw k"
  using assms by (auto simp: with_current_def split: option.splits)

lemma set_root_watch_keeps:
  "map_of (sw_roots sw) (root_key C root) = Some entry \<Longrightarrow>
     generation_at (set_root_watch C root watch entry sw) k = generation_at sw k"
  by (simp add: set_root_watch_def generation_at_def AList.update_conv' fun_upd_apply)

lemma wake_keeps [simp]: "generation_at (wake_supervisor sw) k = generation_at sw k"
  by (simp add: wake_supervisor_def generation_at_def)

interpretation enters: guarded_report "root_key C" "enter_scoped_mode C" for C
  by unfold_locales (auto simp: enter_scoped_mode_def with_current_stale set_root_watch_keeps intro!: with_current_keeps)

interpretation leaves: guarded_report "root_key C" "leave_scoped_mode C" for C
  by unfold_locales (auto simp: leave_scoped_mode_def with_current_stale set_root_watch_keeps Let_def intro!: with_current_keeps)

interpretation unwatchables: guarded_report "root_key C" "root_unwatchable C" for C
  by unfold_locales (auto simp: root_unwatchable_def with_current_stale set_root_watch_keeps intro!: with_current_keeps)

interpretation ends: guarded_report "root_key C" "root_watch_ended C" for C
  by unfold_locales (auto simp: root_watch_ended_def with_current_stale set_root_watch_keeps intro!: with_current_keeps)

interpretation outcomes: guarded_report "root_key C" "\<lambda>root generation. note_scope_outcome C now root generation outcome" for C now outcome
  by unfold_locales (auto simp: note_scope_outcome_def with_current_stale set_root_watch_keeps intro!: with_current_keeps)

section \<open>Interleavings\<close>

text \<open>
  One rule per locked region. The arguments of a region are arbitrary, except that the supervisor
  marks at most \<open>MAX_WATCH_SCOPES + 1\<close> drains (that it never holds more is
  \<open>reconcile_bounds\<close> of \<open>Ov_Watch_Select\<close>).
\<close>

inductive scoped_step :: "url_crate \<Rightarrow> scoped_watch_state \<Rightarrow> scoped_watch_state \<Rightarrow> bool" for C where
  step_read: "scoped_step C sw (scoped_note_cached C now addr sw)"
| step_deny: "scoped_step C sw (scoped_deny C now scope mode root generation sw)"
| step_mark: "length watched \<le> MAX_WATCH_SCOPES + 1 \<Longrightarrow> scoped_step C sw (scoped_mark_watched watched sw)"
| step_advertise: "scoped_step C sw (snd (advertise C root sw))"
| step_retain: "scoped_step C sw (retain_advertised C advertised sw)"
| step_withdraw: "scoped_step C sw (withdraw C root sw)"
| step_enter: "scoped_step C sw (enter_scoped_mode C root generation sw)"
| step_leave: "scoped_step C sw (leave_scoped_mode C root generation sw)"
| step_unwatchable: "scoped_step C sw (root_unwatchable C root generation sw)"
| step_ended: "scoped_step C sw (root_watch_ended C root generation sw)"
| step_outcome: "scoped_step C sw (note_scope_outcome C now root generation outcome sw)"
| step_views: "scoped_step C sw (snd (root_views now sw))"
| step_wake: "scoped_step C sw (wake_supervisor sw)"
| step_slept: "scoped_step C sw (sw\<lparr>sw_scopes := (sw_scopes sw)\<lparr>ws_wake := False\<rparr>\<rparr>)"

abbreviation scoped_runs :: "url_crate \<Rightarrow> scoped_watch_state \<Rightarrow> scoped_watch_state \<Rightarrow> bool" where
  "scoped_runs C \<equiv> (scoped_step C)\<^sup>*\<^sup>*"

inductive_cases scoped_stepE: "scoped_step C sw sw'"

lemma wake_ok [simp]: "registry_ok C (ws\<lparr>ws_wake := w\<rparr>) = registry_ok C ws" "roots_ok C (wake_supervisor sw) = roots_ok C sw"
  "sw_roots (wake_supervisor sw) = sw_roots sw" "sw_next_generation (wake_supervisor sw) = sw_next_generation sw"
  by (simp_all add: registry_ok_def roots_ok_def wake_supervisor_def)

lemma roots_ok_scopes [simp]: "roots_ok C (sw\<lparr>sw_scopes := ws\<rparr>) = roots_ok C sw"
  by (simp add: roots_ok_def)

lemma scoped_ok_wake [simp]: "scoped_ok C (wake_supervisor sw) = scoped_ok C sw"
  by (simp add: scoped_ok_def) (simp add: wake_supervisor_def notify_one_def)

lemma subseq_roots_ok:
  assumes "roots_ok C sw"
  shows "roots_ok C (sw\<lparr>sw_roots := filter P (sw_roots sw)\<rparr>)"
  using assms by (auto simp: roots_ok_def list_all_iff distinct_map_filter)

lemma map_roots_ok:
  assumes "roots_ok C sw" "\<And>k entry. fst (f (k, entry)) = k" "\<And>k entry. sr_root (snd (f (k, entry))) = sr_root entry"
    "\<And>k entry. sr_generation (snd (f (k, entry))) = sr_generation entry"
  shows "roots_ok C (sw\<lparr>sw_roots := map f (sw_roots sw)\<rparr>)"
proof -
  have "map fst (map f (sw_roots sw)) = map fst (sw_roots sw)"
    "map (\<lambda>(_, entry). sr_generation entry) (map f (sw_roots sw)) = map (\<lambda>(_, entry). sr_generation entry) (sw_roots sw)"
    using assms(2,4) by (auto simp: split_beta)
  then show ?thesis using assms by (auto simp: roots_ok_def list_all_iff split_beta simp del: map_map)
qed

lemma update_append: "k \<notin> fst ` set xs \<Longrightarrow> AList.update k v xs = xs @ [(k, v)]"
  by (induction xs) auto

lemma update_map:
  "distinct (map fst xs) \<Longrightarrow> map_of xs k = Some e \<Longrightarrow> AList.update k v xs = map (\<lambda>(k', e'). (k', if k' = k then v else e')) xs"
proof (induction xs)
  case (Cons x xs)
  show ?case
  proof (cases "fst x = k")
    case True
    then have "\<forall>y \<in> set xs. fst y \<noteq> k" using Cons.prems(1) by (auto simp: image_iff)
    then have "map (\<lambda>(k', e'). (k', if k' = k then v else e')) xs = xs" by (simp add: map_idI split_beta)
    then show ?thesis using True by (cases x) simp
  next
    case False
    then show ?thesis using Cons by (cases x) auto
  qed
qed simp

lemma with_current_ok:
  assumes "scoped_ok C sw" "\<And>entry. map_of (sw_roots sw) (root_key C root) = Some entry \<Longrightarrow> scoped_ok C (f entry sw)"
  shows "scoped_ok C (with_current C root generation f sw)"
  using assms by (auto simp: with_current_def split: option.splits)

lemma set_root_watch_ok:
  assumes "scoped_ok C sw" "map_of (sw_roots sw) (root_key C root) = Some entry"
  shows "scoped_ok C (set_root_watch C root watch entry sw)"
proof -
  let ?f = "\<lambda>(k', e'). (k', if k' = root_key C root then e'\<lparr>sr_watch := watch\<rparr> else e')"
  have d: "distinct (map fst (sw_roots sw))" using assms(1) by (simp add: scoped_ok_def roots_ok_def)
  have "(k', e') \<in> set (sw_roots sw) \<Longrightarrow> k' = root_key C root \<Longrightarrow> e' = entry" for k' e'
    using assms(2) d by (metis map_of_is_SomeI option.inject)
  then have "AList.update (root_key C root) (entry\<lparr>sr_watch := watch\<rparr>) (sw_roots sw) = map ?f (sw_roots sw)"
    unfolding update_map[OF d assms(2)] by (intro map_cong) auto
  moreover have "roots_ok C (sw\<lparr>sw_roots := map ?f (sw_roots sw)\<rparr>)"
    using assms(1) by (intro map_roots_ok) (auto simp: scoped_ok_def)
  ultimately show ?thesis using assms(1) by (simp add: scoped_ok_def set_root_watch_def)
qed

lemma advertise_ok:
  assumes "scoped_ok C sw"
  shows "scoped_ok C (snd (advertise C root sw))"
proof (cases "map_of (sw_roots sw) (root_key C root)")
  case (Some slot)
  then show ?thesis using assms by (simp add: advertise_def)
next
  case None
  let ?g = "sw_next_generation sw"
  let ?e = "\<lparr>sr_root = root, sr_watch = Watch_Pending, sr_generation = ?g\<rparr>"
  have k: "root_key C root \<notin> fst ` set (sw_roots sw)" using None by (simp add: map_of_eq_None_iff)
  then have u: "AList.update (root_key C root) ?e (sw_roots sw) = sw_roots sw @ [(root_key C root, ?e)]"
    by (rule update_append)
  have "sr_generation entry < ?g" if "(k', entry) \<in> set (sw_roots sw)" for k' entry
    using assms that by (auto simp: scoped_ok_def roots_ok_def list_all_iff)
  then have "roots_ok C (sw\<lparr>sw_next_generation := ?g + 1, sw_roots := sw_roots sw @ [(root_key C root, ?e)]\<rparr>)"
    using assms k by (auto simp: scoped_ok_def roots_ok_def list_all_iff less_Suc_eq)
  then have "scoped_ok C (sw\<lparr>sw_next_generation := ?g + 1, sw_roots := sw_roots sw @ [(root_key C root, ?e)]\<rparr>)"
    using assms by (simp add: scoped_ok_def)
  then show ?thesis using None u by (simp add: advertise_def Let_def)
qed

lemma step_ok:
  assumes "crate_ok C" "scoped_step C sw sw'" "scoped_ok C sw"
  shows "scoped_ok C sw'"
  using assms(2)
proof cases
  case step_read
  then show ?thesis using assms note_cached_ok by (simp add: scoped_ok_def scoped_note_cached_def)
next
  case step_deny
  then show ?thesis using assms deny_ok by (simp add: scoped_ok_def scoped_deny_def)
next
  case step_mark
  then show ?thesis using assms mark_watched_ok by (simp add: scoped_ok_def scoped_mark_watched_def)
next
  case (step_advertise root)
  then show ?thesis using advertise_ok[OF assms(3)] by simp
next
  case step_retain
  then show ?thesis using assms(3) subseq_roots_ok
    by (auto simp: retain_advertised_def Let_def) (auto simp: scoped_ok_def)
next
  case step_withdraw
  then show ?thesis using assms(3) subseq_roots_ok
    by (auto simp: withdraw_def AList.delete_eq) (auto simp: scoped_ok_def)
next
  case step_enter
  then show ?thesis using assms(3) by (auto simp: enter_scoped_mode_def intro!: with_current_ok set_root_watch_ok)
next
  case step_leave
  then show ?thesis using assms(3) by (auto simp: leave_scoped_mode_def Let_def intro!: with_current_ok set_root_watch_ok)
next
  case step_unwatchable
  then show ?thesis using assms(3) by (auto simp: root_unwatchable_def intro!: with_current_ok set_root_watch_ok)
next
  case step_ended
  then show ?thesis using assms(3) by (auto simp: root_watch_ended_def intro!: with_current_ok set_root_watch_ok)
next
  case step_outcome
  then show ?thesis using assms(3) by (auto simp: note_scope_outcome_def intro!: with_current_ok set_root_watch_ok)
next
  case step_views
  then show ?thesis using assms(3) by (auto simp: root_views_def Let_def scoped_ok_def intro!: map_roots_ok)
next
  case step_wake
  then show ?thesis using assms(3) by simp
next
  case step_slept
  then show ?thesis using assms(3) by (simp add: scoped_ok_def)
qed

lemma runs_ok:
  assumes "crate_ok C" "scoped_runs C sw sw'" "scoped_ok C sw"
  shows "scoped_ok C sw'"
  using assms(2,3) by (induction rule: rtranclp_induct) (auto intro: step_ok[OF assms(1)])

lemma scoped_new_ok: "scoped_ok C (scoped_new (watch_scopes_new enabled))"
  by (simp add: scoped_ok_def scoped_new_def registry_new_ok roots_ok_def)

text \<open>Which generations are current: only an advertisement adds one, and it adds a number never used.\<close>

definition current_generations :: "scoped_watch_state \<Rightarrow> nat set" where
  "current_generations sw = (\<lambda>(_, entry). sr_generation entry) ` set (sw_roots sw)"

lemma generation_at_current: "generation_at sw k = Some g \<Longrightarrow> g \<in> current_generations sw"
  by (force simp: generation_at_def current_generations_def dest: map_of_SomeD)

definition generations_kept :: "scoped_watch_state \<Rightarrow> scoped_watch_state \<Rightarrow> bool" where
  "generations_kept sw sw' \<longleftrightarrow>
     current_generations sw' \<subseteq> current_generations sw \<and> sw_next_generation sw' = sw_next_generation sw"

lemma generations_kept_refl [simp]: "generations_kept sw sw"
  by (simp add: generations_kept_def)

lemma generations_kept_wake [simp]: "generations_kept sw (wake_supervisor sw') = generations_kept sw sw'"
  by (simp add: generations_kept_def current_generations_def)

lemma with_current_generations:
  assumes "\<And>entry. map_of (sw_roots sw) (root_key C root) = Some entry \<Longrightarrow> generations_kept sw (f entry sw)"
  shows "generations_kept sw (with_current C root generation f sw)"
  using assms by (auto simp: with_current_def split: option.splits)

lemma set_root_watch_generations:
  assumes "map_of (sw_roots sw) (root_key C root) = Some entry"
  shows "generations_kept sw (set_root_watch C root watch entry sw)"
  using map_of_SomeD[OF assms]
  by (force simp: generations_kept_def set_root_watch_def current_generations_def dest: update_values)

lemmas generation_intros = with_current_generations set_root_watch_generations

lemma report_generations:
  "generations_kept sw (enter_scoped_mode C root generation sw)"
  "generations_kept sw (leave_scoped_mode C root generation sw)"
  "generations_kept sw (root_unwatchable C root generation sw)"
  "generations_kept sw (root_watch_ended C root generation sw)"
  "generations_kept sw (note_scope_outcome C now root generation outcome sw)"
  by (auto simp: enter_scoped_mode_def leave_scoped_mode_def root_unwatchable_def root_watch_ended_def
      note_scope_outcome_def Let_def intro!: generation_intros)

lemma step_generations:
  assumes "scoped_step C sw sw'"
  shows "generations_kept sw sw' \<or>
    (current_generations sw' \<subseteq> insert (sw_next_generation sw) (current_generations sw) \<and>
     sw_next_generation sw' = Suc (sw_next_generation sw))"
  using assms
proof cases
  case (step_advertise root)
  then show ?thesis
    by (auto simp: advertise_def Let_def current_generations_def split: option.splits dest!: update_values)
qed (auto simp: report_generations scoped_note_cached_def scoped_deny_def scoped_mark_watched_def retain_advertised_def
    withdraw_def root_views_def Let_def AList.delete_eq, auto simp: generations_kept_def current_generations_def)

lemma gone_generation_stays_gone:
  assumes "scoped_runs C sw sw'" "g < sw_next_generation sw" "g \<notin> current_generations sw"
  shows "g \<notin> current_generations sw' \<and> g < sw_next_generation sw'"
  using assms(1)
proof (induction rule: rtranclp_induct)
  case base
  then show ?case using assms(2,3) by simp
next
  case (step y z)
  then show ?case using step_generations[OF step(2)] by (auto simp: generations_kept_def)
qed

section \<open>Eviction\<close>

lemma unwatched_exists:
  assumes "length (watched_rows rows) < length rows"
  obtains k entry where "(k, entry) \<in> set rows" "\<not> se_watched entry"
proof -
  have "filter (\<lambda>(_, entry). se_watched entry) rows \<noteq> rows" using assms by (auto simp: watched_rows_def)
  then obtain x where "x \<in> set rows" "\<not> (case x of (_, entry) \<Rightarrow> se_watched entry)" by (auto simp: filter_id_conv)
  then show thesis using that by (cases x) auto
qed

lemma touch_ancestors_row:
  "(k, entry) \<in> set rows \<Longrightarrow>
     (k, if is_ancestor_or_self (se_url entry) scope then entry\<lparr>se_touched := clock\<rparr> else entry) \<in> set (touch_ancestors scope clock rows)"
  unfolding touch_ancestors_def set_map by (rule image_eqI[of _ _ "(k, entry)"]) simp_all

text \<open>The rows after a read that admits a new directory.\<close>

lemma note_cached_new:
  assumes "ws_enabled ws" "scope_of C addr = Some scope" "crate_as_str C scope \<notin> fst ` set (st_scopes (ws_table ws))"
  shows "st_scopes (ws_table (registry_note_cached C now addr ws)) =
     evict_row MAX_CANDIDATE_SCOPES (\<lambda>entry. (se_watched entry, se_touched entry))
       (touch_ancestors scope (Suc (st_clock (ws_table ws))) (st_scopes (ws_table ws))) @
     [(crate_as_str C scope, \<lparr>se_url = scope, se_touched = Suc (st_clock (ws_table ws)), se_direct_touch = now, se_watched = False\<rparr>)]"
proof -
  let ?t = "touch_ancestors scope (Suc (st_clock (ws_table ws))) (st_scopes (ws_table ws))"
  have n: "crate_as_str C scope \<notin> fst ` set ?t" using assms(3) by (simp add: touch_ancestors_keys)
  then have "crate_as_str C scope \<notin> fst ` set (evict_row MAX_CANDIDATE_SCOPES (\<lambda>entry. (se_watched entry, se_touched entry)) ?t)"
    using candidate_rows.evict_subset[of ?t] by auto
  then show ?thesis using assms(1,2) n
    by (simp add: registry_note_cached_def Let_def notify_one_def update_append map_of_eq_None_iff[THEN iffD2])
qed

section \<open>The probe budget\<close>

lemma charge_keeps_pause:
  "\<exists>f' b'. charge_outcome now outcome (Watch_Refused f b (Some until)) = Watch_Refused f' b' (Some until)"
  by (cases outcome) (simp_all add: charge_probe_def Let_def)

lemma charges_keep_pause:
  "\<exists>f' b'. fold (\<lambda>(now, outcome). charge_outcome now outcome) outs (Watch_Refused f b (Some until)) = Watch_Refused f' b' (Some until)"
proof (induction outs arbitrary: f b)
  case (Cons x xs)
  obtain now outcome where x: "x = (now, outcome)" by force
  from charge_keeps_pause[of now outcome f b until]
  obtain f' b' where "charge_outcome now outcome (Watch_Refused f b (Some until)) = Watch_Refused f' b' (Some until)" by blast
  then show ?case using Cons.IH[of f' b'] x by simp
qed simp

text \<open>The outcomes that cost budget: an open that failed, and a barren end under a distrusted root.\<close>

definition costs_budget :: "bool \<Rightarrow> scope_outcome \<Rightarrow> bool" where
  "costs_budget distrusted outcome \<longleftrightarrow>
     outcome = Outcome_Failed \<or> outcome = Outcome_OpenUnavailable \<or> outcome = Outcome_Barren \<and> distrusted"

lemma charge_run:
  assumes "\<forall>(now, outcome) \<in> set outs. outcome \<noteq> Outcome_Worked \<and> t0 \<le> now \<and> now \<le> t"
    "2 \<le> b \<or> (\<forall>(now, outcome) \<in> set outs. outcome \<noteq> Outcome_Opened)"
    "0 < n" "n \<le> length (filter (\<lambda>(_, outcome). costs_budget (2 \<le> b) outcome) outs)" "8 \<le> f + n"
  shows "\<exists>f' b' until. fold (\<lambda>(now, outcome). charge_outcome now outcome) outs (Watch_Refused f b None) = Watch_Refused f' b' (Some until) \<and>
    t0 + DENIED_SCOPE_RETRY \<le> until \<and> until \<le> t + DENIED_SCOPE_RETRY"
  using assms
proof (induction outs arbitrary: f b n)
  case (Cons x xs)
  obtain now outcome where x: "x = (now, outcome)" by force
  have tail: "\<exists>f' b' until. fold (\<lambda>(now, outcome). charge_outcome now outcome) xs (Watch_Refused f1 b1 None) = Watch_Refused f' b' (Some until) \<and>
      t0 + DENIED_SCOPE_RETRY \<le> until \<and> until \<le> t + DENIED_SCOPE_RETRY"
    if "b \<le> b1" "0 < m" "m \<le> length (filter (\<lambda>(_, outcome). costs_budget (2 \<le> b) outcome) xs)" "8 \<le> f1 + m" for f1 b1 m
  proof (rule Cons.IH)
    have "costs_budget (2 \<le> b) outcome \<Longrightarrow> costs_budget (2 \<le> b1) outcome" for outcome
      using that(1) by (auto simp: costs_budget_def)
    then have "length (filter (\<lambda>(_, outcome). costs_budget (2 \<le> b) outcome) xs) \<le> length (filter (\<lambda>(_, outcome). costs_budget (2 \<le> b1) outcome) xs)"
      by (induction xs) auto
    then show "m \<le> length (filter (\<lambda>(_, outcome). costs_budget (2 \<le> b1) outcome) xs)" using that(3) by simp
  qed (use Cons.prems(1,2) that in auto)
  have charged: ?case
    if c: "charge_outcome now outcome (Watch_Refused f b None) = charge_probe now f b1 None" "b \<le> b1" for b1
  proof (cases "8 \<le> f + 1")
    case True
    then have "charge_probe now f b1 None = Watch_Refused (f + 1) b1 (Some (now + DENIED_SCOPE_RETRY))"
      by (simp add: charge_probe_def MAX_CONSECUTIVE_SCOPE_FAILURES_def)
    then show ?thesis using charges_keep_pause[of xs "f + 1" b1 "now + DENIED_SCOPE_RETRY"] c(1) x Cons.prems(1) by auto
  next
    case False
    then have "charge_probe now f b1 None = Watch_Refused (f + 1) b1 None"
      by (simp add: charge_probe_def MAX_CONSECUTIVE_SCOPE_FAILURES_def)
    then show ?thesis using tail[of b1 "n - 1" "f + 1"] c x Cons.prems(4,5) False by (auto split: if_splits)
  qed
  show ?case
  proof (cases outcome)
    case Outcome_Opened
    then have "2 \<le> b" using Cons.prems(2) x by auto
    then show ?thesis using tail[of b n f] Outcome_Opened x Cons.prems
      by (simp add: BARREN_ENDS_BEFORE_DISTRUST_def costs_budget_def)
  next
    case Outcome_Worked
    then show ?thesis using Cons.prems(1) x by auto
  next
    case Outcome_Barren
    then show ?thesis
      using charged[of "b + 1"] tail[of "b + 1" n f] x Cons.prems(3-5)
      by (cases "b + 1 < 2") (simp_all add: BARREN_ENDS_BEFORE_DISTRUST_def costs_budget_def)
  next
    case Outcome_Failed
    then show ?thesis using charged[of b] by simp
  next
    case Outcome_OpenUnavailable
    then show ?thesis using charged[of b] by simp
  qed
qed simp

text \<open>The watch of a root after a sequence of reports under its generation.\<close>

lemma charge_refused: "is_refused w \<Longrightarrow> is_refused (charge_outcome now outcome w)"
  by (cases w; cases outcome) (simp_all add: charge_probe_def Let_def)

lemma outcome_lookup1:
  assumes "map_of (sw_roots sw) (root_key C root) = Some entry" "is_refused (sr_watch entry)"
  shows "map_of (sw_roots (note_scope_outcome C now root (sr_generation entry) outcome sw)) (root_key C root) =
    Some (entry\<lparr>sr_watch := charge_outcome now outcome (sr_watch entry)\<rparr>)"
  using assms by (simp add: note_scope_outcome_def with_current_def set_root_watch_def AList.update_conv')

lemma outcome_lookups:
  assumes "map_of (sw_roots sw) (root_key C root) = Some entry" "is_refused (sr_watch entry)"
  shows "map_of (sw_roots (fold (\<lambda>(now, outcome). note_scope_outcome C now root (sr_generation entry) outcome) outs sw)) (root_key C root) =
    Some (entry\<lparr>sr_watch := fold (\<lambda>(now, outcome). charge_outcome now outcome) outs (sr_watch entry)\<rparr>)"
  using assms
proof (induction outs arbitrary: sw entry)
  case (Cons x xs)
  obtain now outcome where x: "x = (now, outcome)" by force
  let ?e = "entry\<lparr>sr_watch := charge_outcome now outcome (sr_watch entry)\<rparr>"
  have "is_refused (sr_watch ?e)" using charge_refused[OF Cons.prems(2)] by simp
  from Cons.IH[OF outcome_lookup1[OF Cons.prems] this] show ?case using x by simp
qed simp

lemma outcome_lookup:
  assumes "map_of (sw_roots sw) (root_key C root) = Some entry" "sr_watch entry = Watch_Refused f b p"
  shows "map_of (sw_roots (fold (\<lambda>(now, outcome). note_scope_outcome C now root (sr_generation entry) outcome) outs sw)) (root_key C root) =
    Some (entry\<lparr>sr_watch := fold (\<lambda>(now, outcome). charge_outcome now outcome) outs (Watch_Refused f b p)\<rparr>)"
  using outcome_lookups[OF assms(1)] assms(2) by simp

lemma outcomes_ok:
  assumes "crate_ok C" "scoped_ok C sw"
  shows "scoped_ok C (fold (\<lambda>(now, outcome). note_scope_outcome C now root generation outcome) outs sw)"
  using assms(2) by (induction outs arbitrary: sw) (auto intro: step_ok[OF assms(1) step_outcome])

lemma view_of_generation:
  assumes "scoped_ok C sw" "map_of (sw_roots sw) k = Some entry" "view \<in> set (fst (root_views now sw))"
    "rv_generation view = sr_generation entry"
  shows "view = root_view_of (entry\<lparr>sr_watch := expire_pause now (sr_watch entry)\<rparr>)"
proof -
  obtain k' entry' where e: "(k', entry') \<in> set (sw_roots sw)" "view = root_view_of (entry'\<lparr>sr_watch := expire_pause now (sr_watch entry')\<rparr>)"
    using assms(3) by (auto simp: root_views_def Let_def)
  have "inj_on (\<lambda>(_, entry). sr_generation entry) (set (sw_roots sw))"
    using assms(1) by (simp add: scoped_ok_def roots_ok_def distinct_map)
  from inj_onD[OF this, of "(k', entry')" "(k, entry)"] e assms(4) map_of_SomeD[OF assms(2)]
  have "entry' = entry" by (simp add: root_view_of_def)
  then show ?thesis using e(2) by simp
qed

section \<open>A refused root\<close>

text \<open>A root advertised as \<open>s3://b/team\<close> whose own watch was refused, and an object read below it; used
  where a statement is applied to a concrete state.\<close>

definition team_root :: url where "team_root = base_url ''s3'' (Some ''b'') ''/team''"

definition team_dir :: url where "team_dir = base_url ''s3'' (Some ''b'') ''/team/''"

definition team_object :: url where "team_object = base_url ''s3'' (Some ''b'') ''/team/x''"

abbreviation fresh_state :: scoped_watch_state where
  "fresh_state \<equiv> scoped_new (watch_scopes_new True)"

definition team_advertised :: scoped_watch_state where
  "team_advertised = snd (advertise ref_crate team_root fresh_state)"

definition team_probing :: scoped_watch_state where
  "team_probing = enter_scoped_mode ref_crate team_root 0 team_advertised"

definition team_refused :: scoped_watch_state where
  "team_refused = scoped_note_cached ref_crate 0 team_object team_probing"

definition team_entry :: scoped_root where
  "team_entry = \<lparr>sr_root = team_root, sr_watch = Watch_Refused 0 0 None, sr_generation = 0\<rparr>"

lemma team_runs:
  "scoped_runs ref_crate fresh_state team_advertised" "scoped_runs ref_crate fresh_state team_probing"
  "scoped_runs ref_crate fresh_state team_refused"
proof -
  show a: "scoped_runs ref_crate fresh_state team_advertised"
    unfolding team_advertised_def by (rule r_into_rtranclp) (rule step_advertise)
  show p: "scoped_runs ref_crate fresh_state team_probing"
    unfolding team_probing_def using a by (rule rtranclp.rtrancl_into_rtrancl) (rule step_enter)
  show "scoped_runs ref_crate fresh_state team_refused"
    unfolding team_refused_def using p by (rule rtranclp.rtrancl_into_rtrancl) (rule step_read)
qed

lemma team_facts:
  "generation_at team_advertised (root_key ref_crate team_root) = Some 0"
  "map_of (sw_roots team_probing) (root_key ref_crate team_root) = Some team_entry"
  "map fst (st_scopes (ws_table (sw_scopes team_refused))) = [''s3://b/team/'']"
  by code_simp+

section \<open>Properties\<close>

text \<open>C27. Whatever the interleaving of reads, drains, manager and supervisor, the registry stays within
  its limits (32 directories, 256 refusals), each directory is recorded once, under its own spelling,
  without a credential, query or fragment of the address that was read, and the generations of the
  advertised roots are pairwise different and below the next one to be given out.\<close>

theorem registry_bounds:
  assumes "crate_ok C" "scoped_runs C (scoped_new (watch_scopes_new enabled)) sw"
  defines "table \<equiv> ws_table (sw_scopes sw)"
  shows "length (st_scopes table) \<le> 32 \<and> length (st_denied table) \<le> 256 \<and>
    distinct (map fst (st_scopes table)) \<and> distinct (map fst (st_denied table)) \<and>
    (\<forall>(k, entry) \<in> set (st_scopes table).
       k = crate_as_str C (se_url entry) \<and> se_touched entry \<le> st_clock table \<and>
       url_username (se_url entry) = [] \<and> url_password (se_url entry) = None \<and>
       url_query (se_url entry) = None \<and> url_fragment (se_url entry) = None) \<and>
    distinct (map fst (sw_roots sw)) \<and> distinct (map (\<lambda>(_, entry). sr_generation entry) (sw_roots sw)) \<and>
    (\<forall>(k, entry) \<in> set (sw_roots sw). k = root_key C (sr_root entry) \<and> sr_generation entry < sw_next_generation sw)"
proof -
  have ok: "registry_ok C (sw_scopes sw)" "roots_ok C sw"
    using runs_ok[OF assms(1,2) scoped_new_ok] by (simp_all add: scoped_ok_def)
  show ?thesis
    using ok unfolding registry_ok_def roots_ok_def Let_def table_def[symmetric]
    by (auto simp: list_all_iff entry_ok_def bare_scope_def MAX_CANDIDATE_SCOPES_def MAX_DENIED_SCOPES_def)
qed

theorem registry_bounds_witness:
  "scoped_runs ref_crate (scoped_new (watch_scopes_new True)) team_refused \<and>
   (\<exists>entry. st_scopes (ws_table (sw_scopes team_refused)) = [(''s3://b/team/'', entry)] \<and>
      crate_as_str ref_crate (se_url entry) = ''s3://b/team/'' \<and> url_query (se_url entry) = None \<and> url_fragment (se_url entry) = None)"
proof -
  obtain entry where e: "st_scopes (ws_table (sw_scopes team_refused)) = [(''s3://b/team/'', entry)]" using team_facts(3) by auto
  have "crate_as_str ref_crate (se_url entry) = ''s3://b/team/'' \<and> url_query (se_url entry) = None \<and> url_fragment (se_url entry) = None"
    using registry_bounds[of ref_crate True team_refused] team_runs(3) by (simp add: e)
  then show ?thesis using e team_runs(3) by blast
qed

text \<open>C16. A root's advertisement that was withdrawn never speaks again: however the layer runs on, and
  even if the same address is advertised anew, no report of a drain that was started for the old
  advertisement changes the state, and its refusals apply to no directory.\<close>

theorem stragglers_never_speak:
  assumes "crate_ok C" "scoped_runs C (scoped_new (watch_scopes_new enabled)) sw"
    "generation_at sw (root_key C root) = Some g" "scoped_runs C (withdraw C root sw) sw'"
  shows "enter_scoped_mode C root' g sw' = sw' \<and> leave_scoped_mode C root' g sw' = sw' \<and>
    root_unwatchable C root' g sw' = sw' \<and> root_watch_ended C root' g sw' = sw' \<and>
    note_scope_outcome C now root' g outcome sw' = sw' \<and> \<not> still_owns_scope C sw' root' g scope"
proof -
  have ok: "roots_ok C sw" using runs_ok[OF assms(1,2) scoped_new_ok] by (simp add: scoped_ok_def)
  obtain entry where e: "map_of (sw_roots sw) (root_key C root) = Some entry" "sr_generation entry = g"
    using assms(3) by (auto simp: generation_at_def)
  have m: "(root_key C root, entry) \<in> set (sw_roots sw)" using map_of_SomeD[OF e(1)] .
  have d: "inj_on (\<lambda>(_, entry). sr_generation entry) (set (sw_roots sw))"
    using ok by (simp add: roots_ok_def distinct_map)
  have "g \<notin> current_generations (withdraw C root sw)"
  proof
    assume "g \<in> current_generations (withdraw C root sw)"
    then obtain k' entry' where "(k', entry') \<in> set (sw_roots sw)" "k' \<noteq> root_key C root" "sr_generation entry' = g"
      using e(1) by (auto simp: current_generations_def withdraw_def AList.delete_eq)
    then show False using inj_onD[OF d, of "(k', entry')" "(root_key C root, entry)"] m e(2) by auto
  qed
  moreover have "g < sw_next_generation (withdraw C root sw)"
    using ok m e by (auto simp: roots_ok_def list_all_iff withdraw_def)
  ultimately have "g \<notin> current_generations sw'"
    using gone_generation_stays_gone[OF assms(4)] by simp
  then have n: "generation_at sw' k \<noteq> Some g" for k using generation_at_current by blast
  moreover have "\<not> still_owns_scope C sw' root' g scope"
    using n[of "root_key C root'"] by (auto simp: still_owns_scope_def generation_at_def split: option.splits)
  ultimately show ?thesis
    by (simp add: enters.stale leaves.stale unwatchables.stale ends.stale outcomes.stale)
qed

theorem stragglers_never_speak_witness:
  "scoped_runs ref_crate fresh_state team_advertised \<and>
   generation_at team_advertised (root_key ref_crate team_root) = Some 0 \<and>
   (let sw' = snd (advertise ref_crate team_root (withdraw ref_crate team_root team_advertised)) in
    generation_at sw' (root_key ref_crate team_root) = Some 1 \<and>
    leave_scoped_mode ref_crate team_root 0 sw' = sw' \<and> note_scope_outcome ref_crate 5 team_root 0 Outcome_Failed sw' = sw')"
proof -
  let ?sw = "snd (advertise ref_crate team_root (withdraw ref_crate team_root team_advertised))"
  have g: "generation_at ?sw (root_key ref_crate team_root) = Some 1" by code_simp
  have r: "scoped_runs ref_crate (withdraw ref_crate team_root team_advertised) ?sw" by (rule r_into_rtranclp) (rule step_advertise)
  have "leave_scoped_mode ref_crate team_root 0 ?sw = ?sw \<and> note_scope_outcome ref_crate 5 team_root 0 Outcome_Failed ?sw = ?sw"
    using stragglers_never_speak[of ref_crate True team_advertised team_root 0 ?sw team_root 5 Outcome_Failed team_dir]
      team_runs(1) team_facts(1) r by simp
  then show ?thesis using team_runs(1) team_facts(1) g by (simp add: Let_def)
qed

text \<open>A read never costs a watched directory its place: a directory that a drain holds stays in the
  registry, and when the registry is full the one directory that leaves was touched no later than any
  other unwatched one (the touch of this read included).\<close>

lemma eviction_spares_watched:
  assumes "crate_ok C" "scoped_runs C (scoped_new (watch_scopes_new enabled)) sw" "ws_enabled (sw_scopes sw)"
    "scope_of C addr = Some scope" "(k, entry) \<in> set (st_scopes (ws_table (sw_scopes sw)))"
    "k \<notin> fst ` set (st_scopes (ws_table (sw_scopes (scoped_note_cached C now addr sw))))"
  shows "\<not> se_watched entry \<and>
    (\<forall>(k', entry') \<in> set (touch_ancestors scope (Suc (st_clock (ws_table (sw_scopes sw)))) (st_scopes (ws_table (sw_scopes sw)))).
       k' = k \<or> k' \<in> fst ` set (st_scopes (ws_table (sw_scopes (scoped_note_cached C now addr sw)))) \<and>
         (\<not> se_watched entry' \<longrightarrow> se_touched entry \<le> se_touched entry'))"
proof -
  let ?ws = "sw_scopes sw" and ?ws' = "registry_note_cached C now addr (sw_scopes sw)"
  let ?rows = "st_scopes (ws_table ?ws)"
  let ?t = "touch_ancestors scope (Suc (st_clock (ws_table ?ws))) ?rows"
  let ?e = "evict_row MAX_CANDIDATE_SCOPES (\<lambda>entry. (se_watched entry, se_touched entry)) ?t"
  have ok: "registry_ok C ?ws" using runs_ok[OF assms(1,2) scoped_new_ok] by (simp add: scoped_ok_def)
  have d: "distinct (map fst ?rows)" "length (watched_rows ?rows) \<le> 5" "list_all (entry_ok C (st_clock (ws_table ?ws))) ?rows"
    using ok by (simp_all add: registry_ok_def Let_def MAX_WATCH_SCOPES_def)
  have dt: "distinct (map fst ?t)" using d(1) by simp
  have key: "k \<in> fst ` set ?rows" "k \<notin> fst ` set (st_scopes (ws_table ?ws'))"
    using assms(5,6) image_eqI[of k fst "(k, entry)" "set ?rows"] by (simp_all add: scoped_note_cached_def)
  have new: "crate_as_str C scope \<notin> fst ` set ?rows"
  proof
    assume "crate_as_str C scope \<in> fst ` set ?rows"
    then have c: "crate_as_str C scope \<in> fst ` set ?t" by (simp add: touch_ancestors_keys)
    then obtain v where "map_of ?t (crate_as_str C scope) = Some v" by (metis map_of_eq_None_iff not_Some_eq)
    then have "fst ` set (st_scopes (ws_table ?ws')) = fst ` set ?rows"
      using assms(3,4) c by (simp add: registry_note_cached_def Let_def AList.dom_update insert_absorb touch_ancestors_keys)
    then show False using key by simp
  qed
  have rows': "st_scopes (ws_table ?ws') = ?e @ [(crate_as_str C scope, \<lparr>se_url = scope, se_touched = Suc (st_clock (ws_table ?ws)), se_direct_touch = now, se_watched = False\<rparr>)]"
    using note_cached_new[OF assms(3,4) new] .
  obtain entry1 where e1: "(k, entry1) \<in> set ?t" "se_watched entry1 = se_watched entry" "se_touched entry \<le> se_touched entry1"
  proof (rule that)
    show "(k, if is_ancestor_or_self (se_url entry) scope then entry\<lparr>se_touched := Suc (st_clock (ws_table ?ws))\<rparr> else entry) \<in> set ?t"
      using assms(5) by (rule touch_ancestors_row)
    have "se_touched entry \<le> st_clock (ws_table ?ws)" using assms(5) d(3) by (auto simp: list_all_iff entry_ok_def)
    then show "se_touched entry \<le> se_touched (if is_ancestor_or_self (se_url entry) scope then entry\<lparr>se_touched := Suc (st_clock (ws_table ?ws))\<rparr> else entry)"
      by simp
  qed simp
  have gone: "(k, entry1) \<notin> set ?e" using key(2) rows' image_eqI[of k fst "(k, entry1)" "set ?e"] by auto
  then have full: "MAX_CANDIDATE_SCOPES \<le> length ?t" using e1(1) by (auto simp: evict_row_def split: if_splits)
  then have "length (watched_rows ?t) < length ?t" using d(2) by (simp add: MAX_CANDIDATE_SCOPES_def)
  then obtain k2 entry2 where e2: "(k2, entry2) \<in> set ?t" "\<not> se_watched entry2" by (rule unwatched_exists)
  have unw: "\<not> se_watched entry1"
    using candidate_rows.evicted_least[OF e1(1) gone e2(1) dt] e2(2) by (auto simp: less_eq_prod_def)
  have "k' = k \<or> k' \<in> fst ` set ?e \<and> (\<not> se_watched entry' \<longrightarrow> se_touched entry1 \<le> se_touched entry')"
    if "(k', entry') \<in> set ?t" for k' entry'
    using candidate_rows.evicted_least[OF e1(1) gone that dt] unw image_eqI[of k' fst "(k', entry')" "set ?e"]
    by (auto simp: less_eq_prod_def)
  then show ?thesis using unw e1(2,3) rows' unfolding scoped_note_cached_def by (auto intro: le_trans)
qed

text \<open>The probe budget. Under a refused root, eight outcomes that cost budget with no working
  stream in between (and no grant either, unless the root is already distrusted for barren ends, so a
  backend that accepts every watch and drops it cannot refill its budget) end probing: from then on,
  whatever outcomes are still reported, no new probe is admitted before the pause of 300 seconds is
  over, and probing is admitted again after it.\<close>

theorem probe_budget:
  assumes "crate_ok C" "scoped_runs C (scoped_new (watch_scopes_new enabled)) sw"
    "map_of (sw_roots sw) (root_key C root) = Some entry" "sr_watch entry = Watch_Refused f b None"
    "\<forall>(now, outcome) \<in> set outs. outcome \<noteq> Outcome_Worked \<and> t0 \<le> now \<and> now \<le> t"
    "2 \<le> b \<or> (\<forall>(now, outcome) \<in> set outs. outcome \<noteq> Outcome_Opened)"
    "8 \<le> length (filter (\<lambda>(_, outcome). costs_budget (2 \<le> b) outcome) outs)"
  shows "\<exists>until. t0 + DENIED_SCOPE_RETRY \<le> until \<and> until \<le> t + DENIED_SCOPE_RETRY \<and>
    (\<forall>later now view.
       view \<in> set (fst (root_views now (fold (\<lambda>(now, outcome). note_scope_outcome C now root (sr_generation entry) outcome) (outs @ later) sw))) \<and>
       rv_generation view = sr_generation entry \<longrightarrow> (rv_admits_probes view \<longleftrightarrow> until \<le> now))"
proof -
  let ?report = "\<lambda>(now, outcome). note_scope_outcome C now root (sr_generation entry) outcome"
  from charge_run[where n = 8 and f = f and b = b, OF assms(5,6) _ assms(7)]
  obtain f' b' until where u: "fold (\<lambda>(now, outcome). charge_outcome now outcome) outs (Watch_Refused f b None) = Watch_Refused f' b' (Some until)"
    "t0 + DENIED_SCOPE_RETRY \<le> until" "until \<le> t + DENIED_SCOPE_RETRY" by auto
  have ok: "scoped_ok C sw" by (rule runs_ok[OF assms(1,2) scoped_new_ok])
  have "rv_admits_probes view \<longleftrightarrow> until \<le> now"
    if v: "view \<in> set (fst (root_views now (fold ?report (outs @ later) sw)))" "rv_generation view = sr_generation entry" for later now view
  proof -
    let ?sw = "fold ?report (outs @ later) sw"
    have r: "is_refused (Watch_Refused f b None)" by simp
    have look: "map_of (sw_roots ?sw) (root_key C root) = Some (entry\<lparr>sr_watch := fold (\<lambda>(now, outcome). charge_outcome now outcome) (outs @ later) (Watch_Refused f b None)\<rparr>)"
      using outcome_lookup[OF assms(3,4)] .
    have ok': "scoped_ok C ?sw" using outcomes_ok[OF assms(1) ok] .
    obtain f'' b'' where "fold (\<lambda>(now, outcome). charge_outcome now outcome) (outs @ later) (Watch_Refused f b None) = Watch_Refused f'' b'' (Some until)"
      using u(1) charges_keep_pause[of later f' b' until] by auto
    then have "map_of (sw_roots ?sw) (root_key C root) = Some (entry\<lparr>sr_watch := Watch_Refused f'' b'' (Some until)\<rparr>)"
      using look by simp
    then have "view = root_view_of (entry\<lparr>sr_watch := expire_pause now (Watch_Refused f'' b'' (Some until))\<rparr>)"
      using view_of_generation[OF ok' _ v(1)] v(2) by fastforce
    then show ?thesis by (simp add: root_view_of_def)
  qed
  then show ?thesis using u(2,3) by blast
qed

definition eight_refusals :: "(nat \<times> scope_outcome) list" where
  "eight_refusals = replicate 8 (5, Outcome_Failed)"

theorem probe_budget_witness:
  "map_of (sw_roots team_probing) (root_key ref_crate team_root) = Some team_entry \<and>
   (\<exists>until. 5 + DENIED_SCOPE_RETRY \<le> until \<and> until \<le> 5 + DENIED_SCOPE_RETRY \<and>
    (\<forall>later now view.
       view \<in> set (fst (root_views now (fold (\<lambda>(now, outcome). note_scope_outcome ref_crate now team_root (sr_generation team_entry) outcome)
          (eight_refusals @ later) team_probing))) \<and>
       rv_generation view = sr_generation team_entry \<longrightarrow> (rv_admits_probes view \<longleftrightarrow> until \<le> now)))"
proof
  show "map_of (sw_roots team_probing) (root_key ref_crate team_root) = Some team_entry" by (rule team_facts(2))
  show "\<exists>until. 5 + DENIED_SCOPE_RETRY \<le> until \<and> until \<le> 5 + DENIED_SCOPE_RETRY \<and>
    (\<forall>later now view.
       view \<in> set (fst (root_views now (fold (\<lambda>(now, outcome). note_scope_outcome ref_crate now team_root (sr_generation team_entry) outcome)
          (eight_refusals @ later) team_probing))) \<and>
       rv_generation view = sr_generation team_entry \<longrightarrow> (rv_admits_probes view \<longleftrightarrow> until \<le> now))"
    by (rule probe_budget[where b = 0 and f = 0, OF _ team_runs(2) team_facts(2)])
      (simp_all add: team_entry_def eight_refusals_def costs_budget_def)
qed

end
