(* ===== verification/Ov_Watch_Select.thy ===== *)
theory Ov_Watch_Select
  imports Ov_Watch_Laws
begin

text \<open>
  The choice of the directories to watch and the pass that brings the running drains in line with it
  (\<open>select_scopes\<close>, \<open>scope_views\<close>, \<open>reconcile_scopes\<close>), and the pass over the address roots
  (\<open>reconcile_roots\<close>), of \<open>ovstorage-plugin-cache/src/notification_drain.rs\<close>.

  A spawned task is named by a number from the counter \<open>sp_next_task\<close>; a \<open>JoinHandle\<close> is that
  number, and the argument \<open>finished\<close> says which tasks have completed. The sweep closure of the
  cache is the argument \<open>sweep\<close>, a function on the state of the cache. The second reading of
  \<open>ever_opened\<close> when a drain is retired may be newer than the snapshot that selection used: the
  argument \<open>late\<close> says which drains opened in between.
\<close>

section \<open>What a drain publishes\<close>

record scope_signals =
  sg_ever_opened :: bool
  sg_live :: bool
  sg_recursive :: bool
  sg_started :: nat
  sg_stopped_at_millis :: nat

definition NEVER_STOPPED :: nat where "NEVER_STOPPED = 18446744073709551615"

definition as_millis :: "nat \<Rightarrow> nat" where "as_millis d = d div 1000000"

definition elapsed_millis :: "nat \<Rightarrow> scope_signals \<Rightarrow> nat" where
  "elapsed_millis now self = as_millis (now - sg_started self)"

definition working_recently :: "nat \<Rightarrow> scope_signals \<Rightarrow> bool" where
  "working_recently now self =
     (if \<not> sg_ever_opened self then False
      else if sg_live self then True
      else if sg_stopped_at_millis self = NEVER_STOPPED then False
      else elapsed_millis now self - sg_stopped_at_millis self \<le> as_millis MAX_DRAIN_BACKOFF * 2)"

definition note_stream_ended :: "nat \<Rightarrow> scope_signals \<Rightarrow> scope_signals" where
  "note_stream_ended now self = self\<lparr>sg_stopped_at_millis := elapsed_millis now self, sg_live := False\<rparr>"

record scope_drain =
  sd_task :: nat
  sd_signals :: scope_signals
  sd_root :: url
  sd_generation :: nat

record scope_view =
  sv_key :: string
  sv_root :: url
  sv_generation :: nat
  sv_covers_below :: bool
  sv_worth_defending :: bool
  sv_has_opened :: bool

definition longest_root :: "root_view list \<Rightarrow> url \<Rightarrow> url option" where
  "longest_root roots addr =
     map_option rv_root
       (max_by_key (\<lambda>view. node_rank (rv_root view)) (filter (\<lambda>view. is_ancestor_or_self (rv_root view) addr) roots))"

definition scope_view_of :: "url_crate \<Rightarrow> nat \<Rightarrow> watch_scopes \<Rightarrow> root_view list \<Rightarrow> string \<times> scope_drain \<Rightarrow> scope_view" where
  "scope_view_of C now scopes roots = (\<lambda>(k, drain).
     (let signals = sd_signals drain;
          still_read = touched_within now k MIN_WATCH_RESIDENCY scopes \<or>
            (sg_recursive signals \<and>
             (case crate_parse C k of
                Some scope \<Rightarrow>
                  subtree_touched_within now scope MIN_WATCH_RESIDENCY
                    (\<lambda>descendant. longest_root roots descendant = Some (sd_root drain)) scopes
              | None \<Rightarrow> False))
      in \<lparr>sv_key = k, sv_root = sd_root drain, sv_generation = sd_generation drain,
          sv_covers_below = sg_live signals \<and> sg_recursive signals,
          sv_worth_defending = working_recently now signals \<and> still_read,
          sv_has_opened = sg_ever_opened signals\<rparr>))"

definition scope_views :: "url_crate \<Rightarrow> nat \<Rightarrow> (string \<times> scope_drain) list \<Rightarrow> watch_scopes \<Rightarrow> root_view list \<Rightarrow> scope_view list" where
  "scope_views C now drains scopes roots = map (scope_view_of C now scopes roots) drains"

section \<open>Selection\<close>

record selected_scope =
  sc_root :: url
  sc_generation :: nat
  sc_scope :: url

type_synonym assignment = "selected_scope list"

type_synonym held_scope = "string \<times> url \<times> nat"

definition assign_scope :: "url_crate \<Rightarrow> root_view list \<Rightarrow> held_scope list \<Rightarrow> url \<Rightarrow> selected_scope option" where
  "assign_scope C roots running scope =
     (case find (\<lambda>view. is_ancestor_or_self (rv_root view) scope) roots of
        None \<Rightarrow> None
      | Some view \<Rightarrow>
          (if rv_covers view then None
           else if crate_as_str C (rv_root view) = crate_as_str C scope then None
           else if \<not> rv_admits_probes view \<and>
             \<not> list_ex (\<lambda>(k, _, generation). k = crate_as_str C scope \<and> generation = rv_generation view) running then None
           else Some \<lparr>sc_root = rv_root view, sc_generation = rv_generation view, sc_scope = scope\<rparr>))"

definition collapsed :: "assignment \<Rightarrow> (selected_scope \<Rightarrow> bool) \<Rightarrow> selected_scope \<Rightarrow> bool" where
  "collapsed assigned can_cover entry \<longleftrightarrow>
     list_ex (\<lambda>other. sc_scope other \<noteq> sc_scope entry \<and> sc_root other = sc_root entry \<and>
       is_ancestor_or_self (sc_scope other) (sc_scope entry) \<and> can_cover other) assigned"

definition is_protected :: "url_crate \<Rightarrow> held_scope list \<Rightarrow> selected_scope \<Rightarrow> bool" where
  "is_protected C prot entry \<longleftrightarrow>
     list_ex (\<lambda>(k, root, generation). k = crate_as_str C (sc_scope entry) \<and> root = sc_root entry \<and>
       generation = sc_generation entry) prot"

definition subsumed :: "assignment \<Rightarrow> selected_scope \<Rightarrow> nat" where
  "subsumed selected entry =
     length (filter (\<lambda>held. sc_root held = sc_root entry \<and> is_ancestor_or_self (sc_scope entry) (sc_scope held)) selected)"

text \<open>\<open>Iterator::max_by\<close>: the last of the greatest elements; \<open>gt a b\<close> says that \<open>a\<close> compares greater.\<close>

fun max_by :: "('a \<Rightarrow> 'a \<Rightarrow> bool) \<Rightarrow> 'a list \<Rightarrow> 'a option" where
  "max_by gt [] = None"
| "max_by gt (x # xs) = Some (foldl (\<lambda>best y. if gt best y then best else y) x xs)"

definition eligible_cover :: "url_crate \<Rightarrow> root_view list \<Rightarrow> (url \<Rightarrow> bool) \<Rightarrow> assignment \<Rightarrow> selected_scope \<Rightarrow> bool" where
  "eligible_cover C roots may_open_recursive selected entry \<longleftrightarrow>
     0 < subsumed selected entry \<and>
     \<not> list_ex (\<lambda>view. crate_as_str C (rv_root view) = crate_as_str C (sc_scope entry)) roots \<and>
     may_open_recursive (sc_scope entry)"

definition cover_winner :: "url_crate \<Rightarrow> root_view list \<Rightarrow> (url \<Rightarrow> bool) \<Rightarrow> assignment \<Rightarrow> assignment \<Rightarrow> url option" where
  "cover_winner C roots may_open_recursive selected rest =
     map_option sc_scope
       (max_by
          (\<lambda>a b. subsumed selected b < subsumed selected a \<or>
             subsumed selected a = subsumed selected b \<and> crate_as_str C (sc_scope a) < crate_as_str C (sc_scope b))
          (filter (eligible_cover C roots may_open_recursive selected) rest))"

text \<open>
  The stages of \<open>select_scopes\<close>: the candidates assigned to their roots, those of them that no open
  recursive watch above collapses, and the protected and the other ones of these. The cover that wins
  leaves the rest, the budget cuts what is left, and the cover is added on top.
\<close>

definition sel_assigned :: "url_crate \<Rightarrow> root_view list \<Rightarrow> held_scope list \<Rightarrow> url list \<Rightarrow> assignment" where
  "sel_assigned C roots running cands = List.map_filter (assign_scope C roots running) cands"

definition sel_antichain :: "url_crate \<Rightarrow> root_view list \<Rightarrow> held_scope list \<Rightarrow> (selected_scope \<Rightarrow> bool) \<Rightarrow> url list \<Rightarrow> assignment" where
  "sel_antichain C roots running can_cover cands =
     filter (\<lambda>entry. \<not> collapsed (sel_assigned C roots running cands) can_cover entry) (sel_assigned C roots running cands)"

definition sel_held :: "url_crate \<Rightarrow> root_view list \<Rightarrow> held_scope list \<Rightarrow> (selected_scope \<Rightarrow> bool) \<Rightarrow> held_scope list \<Rightarrow> url list \<Rightarrow> assignment" where
  "sel_held C roots running can_cover prot cands = filter (is_protected C prot) (sel_antichain C roots running can_cover cands)"

definition sel_rest :: "url_crate \<Rightarrow> root_view list \<Rightarrow> held_scope list \<Rightarrow> (selected_scope \<Rightarrow> bool) \<Rightarrow> held_scope list \<Rightarrow> url list \<Rightarrow> assignment" where
  "sel_rest C roots running can_cover prot cands =
     filter (\<lambda>entry. \<not> is_protected C prot entry) (sel_antichain C roots running can_cover cands)"

definition select_scopes ::
    "url_crate \<Rightarrow> root_view list \<Rightarrow> url list \<Rightarrow> nat \<Rightarrow> (selected_scope \<Rightarrow> bool) \<Rightarrow> (url \<Rightarrow> bool) \<Rightarrow>
     held_scope list \<Rightarrow> held_scope list \<Rightarrow> assignment" where
  "select_scopes C roots cands budget can_cover may_open_recursive running prot =
     (let held = sel_held C roots running can_cover prot cands;
          rest = sel_rest C roots running can_cover prot cands;
          winner = cover_winner C roots may_open_recursive held rest;
          covers = filter (\<lambda>entry. Some (sc_scope entry) = winner) rest;
          others = filter (\<lambda>entry. Some (sc_scope entry) \<noteq> winner) rest;
          selected = take budget (held @ others)
      in (case covers of
            [] \<Rightarrow> selected
          | cover # _ \<Rightarrow>
              (if list_ex (\<lambda>held. sc_scope held = sc_scope cover) selected then selected else selected @ [cover])))"

section \<open>The supervisor's pass\<close>

record 'c supervisor =
  sp_drains :: "(string \<times> scope_drain) list"
  sp_retiring :: "nat list"
  sp_next_task :: nat
  sp_scoped :: scoped_watch_state
  sp_cache :: 'c

definition supervisor_new :: "scoped_watch_state \<Rightarrow> 'c \<Rightarrow> 'c supervisor" where
  "supervisor_new sw cache =
     \<lparr>sp_drains = [], sp_retiring = [], sp_next_task = 0, sp_scoped = sw, sp_cache = cache\<rparr>"

definition matches_selected :: "url_crate \<Rightarrow> assignment \<Rightarrow> string \<times> scope_drain \<Rightarrow> bool" where
  "matches_selected C selected = (\<lambda>(k, drain).
     list_ex (\<lambda>entry. crate_as_str C (sc_scope entry) = k \<and> sc_generation entry = sd_generation drain \<and>
       sc_root entry = sd_root drain) selected)"

definition retire_drain :: "url_crate \<Rightarrow> (string \<Rightarrow> bool) \<Rightarrow> (url \<Rightarrow> 'c \<Rightarrow> 'c) \<Rightarrow> string \<Rightarrow> 'c supervisor \<Rightarrow> 'c supervisor" where
  "retire_drain C late sweep k sp =
     (case map_of (sp_drains sp) k of
        None \<Rightarrow> sp
      | Some drain \<Rightarrow>
          sp\<lparr>sp_drains := AList.delete k (sp_drains sp),
             sp_cache :=
               (if sg_ever_opened (sd_signals drain) \<or> late k
                then (case crate_parse C k of Some prefx \<Rightarrow> sweep prefx (sp_cache sp) | None \<Rightarrow> sp_cache sp)
                else sp_cache sp),
             sp_retiring := sp_retiring sp @ [sd_task drain]\<rparr>)"

definition spawn_drain :: "url_crate \<Rightarrow> nat \<Rightarrow> selected_scope \<Rightarrow> 'c supervisor \<Rightarrow> 'c supervisor" where
  "spawn_drain C now entry sp =
     (let k = crate_as_str C (sc_scope entry) in
      if map_of (sp_drains sp) k \<noteq> None then sp
      else
        (let mode = (if crate_as_str C (sc_root entry) = k then Mode_NonRecursive
                     else starting_mode C now (memo_owner_still_owns C (sp_scoped sp)) (sc_scope entry) (sw_scopes (sp_scoped sp)));
             signals = \<lparr>sg_ever_opened = False, sg_live = False, sg_recursive = recursive mode,
                        sg_started = now, sg_stopped_at_millis = NEVER_STOPPED\<rparr>
         in sp\<lparr>sp_next_task := sp_next_task sp + 1,
               sp_drains := AList.update k
                 \<lparr>sd_task = sp_next_task sp, sd_signals = signals, sd_root = sc_root entry, sd_generation = sc_generation entry\<rparr>
                 (sp_drains sp)\<rparr>))"

definition held_by :: "(scope_view \<Rightarrow> bool) \<Rightarrow> scope_view list \<Rightarrow> held_scope list" where
  "held_by P views = map (\<lambda>view. (sv_key view, sv_root view, sv_generation view)) (filter P views)"

definition scope_covering :: "url_crate \<Rightarrow> scope_view list \<Rightarrow> selected_scope \<Rightarrow> bool" where
  "scope_covering C views entry \<longleftrightarrow>
     list_ex (\<lambda>view. sv_covers_below view \<and> sv_key view = crate_as_str C (sc_scope entry) \<and>
       sv_root view = sc_root entry \<and> sv_generation view = sc_generation entry) views"

definition pass_selection :: "url_crate \<Rightarrow> nat \<Rightarrow> root_view list \<Rightarrow> url list \<Rightarrow> 'c supervisor \<Rightarrow> assignment" where
  "pass_selection C now roots cands sp =
     (let scoped = sp_scoped sp;
          views = scope_views C now (sp_drains sp) (sw_scopes scoped) roots
      in select_scopes C roots cands MAX_WATCH_SCOPES (scope_covering C views)
           (\<lambda>scope. starting_mode C now (memo_owner_still_owns C scoped) scope (sw_scopes scoped) = Mode_Recursive)
           (held_by sv_has_opened views) (held_by sv_worth_defending views))"

definition reconcile_scopes ::
    "url_crate \<Rightarrow> nat \<Rightarrow> (nat \<Rightarrow> bool) \<Rightarrow> (string \<Rightarrow> bool) \<Rightarrow> (url \<Rightarrow> 'c \<Rightarrow> 'c) \<Rightarrow> 'c supervisor \<Rightarrow> bool \<times> 'c supervisor" where
  "reconcile_scopes C now finished late sweep sp0 =
     (let roots = fst (root_views now (sp_scoped sp0));
          sp = sp0\<lparr>sp_retiring := filter (\<lambda>handle. \<not> finished handle) (sp_retiring sp0),
                   sp_scoped := snd (root_views now (sp_scoped sp0))\<rparr>;
          cands = candidates C now (memo_owner_still_owns C (sp_scoped sp)) (sw_scopes (sp_scoped sp));
          selected = pass_selection C now roots cands sp
      in (if STUCK_RETIREMENT_LIMIT \<le> length (sp_retiring sp) \<and> sp_drains sp \<noteq> []
          then (True, sp\<lparr>sp_scoped := scoped_mark_watched (map fst (sp_drains sp)) (sp_scoped sp)\<rparr>)
          else
            (let stale = map fst (filter (\<lambda>drain. \<not> matches_selected C selected drain) (sp_drains sp));
                 retired = fold (retire_drain C late sweep) stale sp;
                 spawned = fold (spawn_drain C now) selected retired;
                 marked = spawned\<lparr>sp_scoped := scoped_mark_watched (map fst (sp_drains spawned)) (sp_scoped spawned)\<rparr>
             in (sp_drains marked \<noteq> [] \<and> length selected < length cands, marked))))"

definition supervisor_needs_timer :: "nat \<Rightarrow> nat \<Rightarrow> bool \<Rightarrow> scoped_watch_state \<Rightarrow> bool" where
  "supervisor_needs_timer now retiring deferred_candidate scoped \<longleftrightarrow>
     0 < retiring \<or> deferred_candidate \<or> scopes_pending_deadline now (sw_scopes scoped) \<or> roots_pending_deadline scoped"

text \<open>
  The supervisor's loop over the inputs of its turns: the shutdown token and the layer as read before the
  pass, the inputs of the pass, how the wait ends and what the other tasks do to the shared state while
  the supervisor waits. A stored notification or, where one is set, the timer ends the wait; \<open>tn_woken\<close>
  chooses when both are ready. The first component tells whether the loop has ended; a loop that is
  blocked, or out of inputs, has not.
\<close>

record 'c supervise_turn =
  tn_cancelled :: bool
  tn_layer :: bool
  tn_now :: nat
  tn_finished :: "nat \<Rightarrow> bool"
  tn_late :: "string \<Rightarrow> bool"
  tn_wait_cancelled :: bool
  tn_waiting :: "'c supervisor \<Rightarrow> 'c supervisor"
  tn_woken :: bool

definition stop_drains :: "'c supervisor \<Rightarrow> 'c supervisor" where
  "stop_drains sp = sp\<lparr>sp_drains := []\<rparr>"

definition consume_wake :: "'c supervisor \<Rightarrow> 'c supervisor" where
  "consume_wake sp = sp\<lparr>sp_scoped := (sp_scoped sp)\<lparr>sw_scopes := (sw_scopes (sp_scoped sp))\<lparr>ws_wake := False\<rparr>\<rparr>\<rparr>"

fun supervise_scoped_drains :: "url_crate \<Rightarrow> (url \<Rightarrow> 'c \<Rightarrow> 'c) \<Rightarrow> 'c supervise_turn list \<Rightarrow> 'c supervisor \<Rightarrow> bool \<times> 'c supervisor" where
  "supervise_scoped_drains C sweep [] sp = (False, sp)"
| "supervise_scoped_drains C sweep (t # ts) sp =
     (if tn_cancelled t \<or> \<not> tn_layer t then (True, stop_drains sp)
      else
        (let (deferred_candidate, sp) = reconcile_scopes C (tn_now t) (tn_finished t) (tn_late t) sweep sp;
             timer = supervisor_needs_timer (tn_now t) (length (sp_retiring sp)) deferred_candidate (sp_scoped sp);
             sp = tn_waiting t sp
         in if tn_wait_cancelled t then (True, stop_drains sp)
            else if ws_wake (sw_scopes (sp_scoped sp)) \<and> (tn_woken t \<or> \<not> timer)
                 then supervise_scoped_drains C sweep ts (consume_wake sp)
            else if timer then supervise_scoped_drains C sweep ts sp
            else (False, sp)))"

section \<open>The pass over the roots\<close>

record root_identity =
  id_connection_id :: "string option"
  id_source :: route_source

definition root_identity_of :: "root_info \<Rightarrow> root_identity" where
  "root_identity_of root = \<lparr>id_connection_id = ri_connection_id root, id_source = ri_source root\<rparr>"

text \<open>\<open>rd_generation\<close> is the generation that the spawned \<open>root_drain_task\<close> was given.\<close>

record root_drain =
  rd_generation :: nat
  rd_identity :: root_identity
  rd_prefix :: url

definition roots_by_key :: "url_crate \<Rightarrow> root_info list \<Rightarrow> (string \<times> root_info) list" where
  "roots_by_key C roots = fold (\<lambda>root. AList.update (root_key C (ri_root root)) root) roots []"

definition stale_root :: "(string \<times> root_info) list \<Rightarrow> string \<times> root_drain \<Rightarrow> bool" where
  "stale_root eligible = (\<lambda>(k, drain).
     (case map_of eligible k of None \<Rightarrow> True | Some root \<Rightarrow> rd_identity drain \<noteq> root_identity_of root))"

type_synonym 'c root_manager = "(string \<times> root_drain) list \<times> scoped_watch_state \<times> 'c"

definition drop_root :: "url_crate \<Rightarrow> (url \<Rightarrow> 'c \<Rightarrow> 'c) \<Rightarrow> string \<Rightarrow> 'c root_manager \<Rightarrow> 'c root_manager" where
  "drop_root C sweep k = (\<lambda>(drains, scoped, cache).
     (case map_of drains k of
        None \<Rightarrow> (drains, scoped, cache)
      | Some drain \<Rightarrow> (AList.delete k drains, withdraw C (rd_prefix drain) scoped, sweep (rd_prefix drain) cache)))"

definition advertise_all :: "url_crate \<Rightarrow> url list \<Rightarrow> scoped_watch_state \<Rightarrow> (string \<times> nat) list \<times> scoped_watch_state" where
  "advertise_all C advertised scoped =
     fold (\<lambda>root (generations, sw).
             let (generation, sw') = advertise C root sw in (AList.update (root_key C root) generation generations, sw'))
       advertised ([], scoped)"

definition spawn_root :: "(string \<times> nat) list \<Rightarrow> string \<times> root_info \<Rightarrow> (string \<times> root_drain) list \<Rightarrow> (string \<times> root_drain) list" where
  "spawn_root generations = (\<lambda>(k, root) drains.
     (if map_of drains k \<noteq> None then drains
      else
        (case map_of generations k of
           Some generation \<Rightarrow>
             AList.update k \<lparr>rd_generation = generation, rd_identity = root_identity_of root, rd_prefix = ri_root root\<rparr> drains
         | None \<Rightarrow> drains)))"

definition reconcile_roots :: "url_crate \<Rightarrow> (url \<Rightarrow> 'c \<Rightarrow> 'c) \<Rightarrow> root_info list \<Rightarrow> 'c root_manager \<Rightarrow> 'c root_manager" where
  "reconcile_roots C sweep roots = (\<lambda>(drains, scoped, cache).
     (let advertised = map ri_root roots;
          eligible = roots_by_key C (filter (\<lambda>root. supports_watch_directory (ri_capabilities root)) roots);
          stale = map fst (filter (stale_root eligible) drains);
          (drains1, scoped1, cache1) = fold (drop_root C sweep) stale (drains, scoped, cache);
          (generations, scoped2) = advertise_all C advertised (retain_advertised C advertised scoped1)
      in (fold (spawn_root generations) eligible drains1, scoped2, cache1)))"

section \<open>Changes of the root set\<close>

definition is_resync_nudge :: "root_info_change \<Rightarrow> bool" where
  "is_resync_nudge change \<longleftrightarrow> change = Change_Updated []"

fun apply_keyed_change :: "url_crate \<Rightarrow> root_info_change \<Rightarrow> (string \<times> root_info) list \<Rightarrow> (string \<times> root_info) list" where
  "apply_keyed_change C (Change_Snapshot snapshot) roots = roots_by_key C snapshot"
| "apply_keyed_change C (Change_Added added) roots = fold (\<lambda>root. AList.update (root_key C (ri_root root)) root) added roots"
| "apply_keyed_change C (Change_Updated added) roots = fold (\<lambda>root. AList.update (root_key C (ri_root root)) root) added roots"
| "apply_keyed_change C (Change_Removed removed) roots = fold (\<lambda>root. AList.delete (root_key C (ri_root root))) removed roots"

end
