(* ===== verification/Ov_Watch_Select_Laws.thy ===== *)
theory Ov_Watch_Select_Laws
  imports Ov_Watch_Select
begin

text \<open>
  What selection and the two passes guarantee: which directories are watched and under which
  advertisement, the bounds on watches and on cancelled drains that have not let go, and that every
  watch that is given up has its subtree swept.
\<close>

section \<open>Selection\<close>

lemma map_filter_in: "y \<in> set (List.map_filter f xs) \<longleftrightarrow> (\<exists>x \<in> set xs. f x = Some y)"
  by (force simp: List.map_filter_def)

lemma map_filter_distinct:
  assumes "distinct xs" "\<And>x y. f x = Some y \<Longrightarrow> g y = x"
  shows "distinct (map g (List.map_filter f xs))"
  using assms(1)
proof (induction xs)
  case (Cons x xs)
  have "g y \<noteq> x" if "y \<in> set (List.map_filter f xs)" for y
    using that assms(2) Cons.prems by (auto simp: map_filter_in)
  then show ?case using Cons assms(2) by (auto simp: List.map_filter_simps split: option.splits)
qed (simp add: List.map_filter_simps)

lemma assign_scope_Some:
  assumes "assign_scope C roots running scope = Some entry"
  obtains view where "find (\<lambda>view. is_ancestor_or_self (rv_root view) scope) roots = Some view"
    "entry = \<lparr>sc_root = rv_root view, sc_generation = rv_generation view, sc_scope = scope\<rparr>" "\<not> rv_covers view"
    "crate_as_str C (rv_root view) \<noteq> crate_as_str C scope"
    "rv_admits_probes view \<or> list_ex (\<lambda>(k, _, generation). k = crate_as_str C scope \<and> generation = rv_generation view) running"
  using assms by (auto simp: assign_scope_def split: option.splits if_splits)

lemma assign_scope_scope: "assign_scope C roots running scope = Some entry \<Longrightarrow> sc_scope entry = scope"
  by (auto elim: assign_scope_Some)

lemma assign_scope_contains:
  assumes "assign_scope C roots running scope = Some entry"
  shows "is_ancestor_or_self (sc_root entry) scope"
  using assms by (elim assign_scope_Some) (auto simp: find_Some_iff)

lemma max_by_in: "max_by gt xs = Some m \<Longrightarrow> m \<in> set xs"
proof (cases xs)
  case (Cons x ys)
  have "foldl (\<lambda>best y. if gt best y then best else y) x ys \<in> insert x (set ys)"
    by (induction ys arbitrary: x) auto
  then show "max_by gt xs = Some m \<Longrightarrow> m \<in> set xs" using Cons by auto
qed simp

lemma max_by_None [simp]: "max_by gt xs = None \<longleftrightarrow> xs = []"
  by (cases xs) auto

lemma cover_winner_exists:
  assumes "filter (eligible_cover C roots may_open held) rest \<noteq> []"
  shows "\<exists>best \<in> set (filter (eligible_cover C roots may_open held) rest). cover_winner C roots may_open held rest = Some (sc_scope best)"
proof -
  let ?gt = "\<lambda>a b. subsumed held b < subsumed held a \<or>
    subsumed held a = subsumed held b \<and> crate_as_str C (sc_scope a) < crate_as_str C (sc_scope b)"
  obtain best where m: "max_by ?gt (filter (eligible_cover C roots may_open held) rest) = Some best"
    using assms by (cases "max_by ?gt (filter (eligible_cover C roots may_open held) rest)") auto
  then show ?thesis using max_by_in[OF m] by (intro bexI[of _ best]) (simp_all add: cover_winner_def)
qed

text \<open>The parts of the selection, named once for the proofs about it.\<close>

locale selection =
  fixes C :: url_crate and roots :: "root_view list" and cands :: "url list" and budget :: nat
    and can_cover :: "selected_scope \<Rightarrow> bool" and may_open :: "url \<Rightarrow> bool" and running prot :: "held_scope list"
    and assigned antichain held rest covers others :: assignment and winner :: "url option" and result :: assignment
  assumes assigned: "assigned = List.map_filter (assign_scope C roots running) cands"
    and antichain: "antichain = filter (\<lambda>entry. \<not> collapsed assigned can_cover entry) assigned"
    and held: "held = filter (is_protected C prot) antichain"
    and rest: "rest = filter (\<lambda>entry. \<not> is_protected C prot entry) antichain"
    and winner: "winner = cover_winner C roots may_open held rest"
    and covers: "covers = filter (\<lambda>entry. Some (sc_scope entry) = winner) rest"
    and others: "others = filter (\<lambda>entry. Some (sc_scope entry) \<noteq> winner) rest"
    and result: "result = (case covers of [] \<Rightarrow> take budget (held @ others)
      | cover # _ \<Rightarrow> (if list_ex (\<lambda>held. sc_scope held = sc_scope cover) (take budget (held @ others))
                      then take budget (held @ others) else take budget (held @ others) @ [cover]))"
begin

lemma result_antichain: "set result \<subseteq> set antichain"
proof -
  have t: "set (take budget (held @ others)) \<subseteq> set antichain" unfolding held others rest by (auto dest!: in_set_takeD)
  have "set covers \<subseteq> set antichain" unfolding covers rest by auto
  then show ?thesis using t unfolding result by (auto split: list.splits)
qed

lemma result_length: "length result \<le> budget + 1"
  unfolding result by (auto split: list.splits)

lemma assigned_scope:
  assumes "entry \<in> set assigned"
  shows "sc_scope entry \<in> set cands" "assign_scope C roots running (sc_scope entry) = Some entry"
  using assms assign_scope_scope unfolding assigned by (auto simp: map_filter_in)

lemma result_distinct:
  assumes "distinct cands"
  shows "distinct (map sc_scope result)"
proof -
  have a: "distinct (map sc_scope assigned)"
    unfolding assigned using assms assign_scope_scope by (rule map_filter_distinct)
  then have an: "distinct (map sc_scope antichain)" unfolding antichain by (rule distinct_map_filter)
  have "distinct (map sc_scope (held @ others))"
  proof -
    have "distinct (map sc_scope held)" "distinct (map sc_scope others)"
      unfolding held others rest using an by (auto intro!: distinct_map_filter)
    moreover have "set held \<inter> set others = {}" unfolding held others rest by auto
    moreover have "inj_on sc_scope (set antichain)" using an by (simp add: distinct_map)
    then have "sc_scope ` set held \<inter> sc_scope ` set others = sc_scope ` (set held \<inter> set others)"
      by (intro inj_on_image_Int[symmetric]) (auto simp: held others rest)
    ultimately show ?thesis by simp
  qed
  then have "distinct (map sc_scope (take budget (held @ others)))" by (metis distinct_take take_map)
  then show ?thesis unfolding result by (auto split: list.splits simp: list_ex_iff)
qed

text \<open>Protected scopes that fit the budget are kept, and the winning cover always gets a slot.\<close>

lemma held_kept: "length held \<le> budget \<Longrightarrow> set held \<subseteq> set result"
  unfolding result by (auto split: list.splits)

lemma assigned_eq: "a \<in> set assigned \<Longrightarrow> b \<in> set assigned \<Longrightarrow> sc_scope a = sc_scope b \<Longrightarrow> a = b"
  using assigned_scope(2) by (metis option.inject)

lemma winner_selected:
  assumes "entry \<in> set rest" "eligible_cover C roots may_open held entry"
  shows "\<exists>cover \<in> set result. cover \<in> set rest \<and> eligible_cover C roots may_open held cover"
proof -
  let ?es = "filter (eligible_cover C roots may_open held) rest"
  have "?es \<noteq> []" using assms by (auto simp: filter_empty_conv)
  then obtain best where b: "winner = Some (sc_scope best)" "best \<in> set ?es"
    using cover_winner_exists unfolding winner by blast
  then have "best \<in> set covers" unfolding covers by auto
  then obtain cover cs where c: "covers = cover # cs" by (cases covers) auto
  then have "cover \<in> set covers" by simp
  then have "cover \<in> set rest" "sc_scope cover = sc_scope best" using b(1) unfolding covers by auto
  then have "cover = best" using b(2) assigned_eq[of cover best] unfolding rest antichain by auto
  moreover have "\<exists>x \<in> set result. sc_scope x = sc_scope cover"
    unfolding result c by (auto simp: list_ex_iff)
  then obtain x where "x \<in> set result" "sc_scope x = sc_scope cover" by blast
  moreover have "x = cover" if "x \<in> set result" "sc_scope x = sc_scope cover" for x
    using that result_antichain \<open>cover \<in> set rest\<close> by (intro assigned_eq) (auto simp: rest antichain)
  ultimately show ?thesis using b(2) by auto
qed

end

lemma select_scopes_parts:
  "select_scopes C roots cands budget can_cover may_open running prot =
     (let held = sel_held C roots running can_cover prot cands; rest = sel_rest C roots running can_cover prot cands;
          winner = cover_winner C roots may_open held rest;
          selected = take budget (held @ filter (\<lambda>entry. Some (sc_scope entry) \<noteq> winner) rest)
      in (case filter (\<lambda>entry. Some (sc_scope entry) = winner) rest of [] \<Rightarrow> selected
          | cover # _ \<Rightarrow> (if list_ex (\<lambda>held. sc_scope held = sc_scope cover) selected then selected else selected @ [cover])))"
  by (simp only: select_scopes_def Let_def)

interpretation chosen_scopes: selection C roots cands budget can_cover may_open running prot
    "sel_assigned C roots running cands" "sel_antichain C roots running can_cover cands"
    "sel_held C roots running can_cover prot cands" "sel_rest C roots running can_cover prot cands"
    "filter (\<lambda>entry. Some (sc_scope entry) = cover_winner C roots may_open (sel_held C roots running can_cover prot cands)
       (sel_rest C roots running can_cover prot cands)) (sel_rest C roots running can_cover prot cands)"
    "filter (\<lambda>entry. Some (sc_scope entry) \<noteq> cover_winner C roots may_open (sel_held C roots running can_cover prot cands)
       (sel_rest C roots running can_cover prot cands)) (sel_rest C roots running can_cover prot cands)"
    "cover_winner C roots may_open (sel_held C roots running can_cover prot cands) (sel_rest C roots running can_cover prot cands)"
    "select_scopes C roots cands budget can_cover may_open running prot"
  for C roots cands budget can_cover may_open running prot
  by unfold_locales (rule sel_assigned_def sel_antichain_def sel_held_def sel_rest_def refl select_scopes_parts[unfolded Let_def])+

section \<open>The supervisor's pass\<close>

definition swept_if_opened :: "url_crate \<Rightarrow> (string \<Rightarrow> bool) \<Rightarrow> (url \<Rightarrow> 'c \<Rightarrow> 'c) \<Rightarrow> (string \<times> scope_drain) list \<Rightarrow> string \<Rightarrow> 'c \<Rightarrow> 'c" where
  "swept_if_opened C late sweep drains k cache =
     (case map_of drains k of
        Some drain \<Rightarrow>
          (if sg_ever_opened (sd_signals drain) \<or> late k
           then (case crate_parse C k of Some prefx \<Rightarrow> sweep prefx cache | None \<Rightarrow> cache) else cache)
      | None \<Rightarrow> cache)"

lemma retire_fold:
  assumes "distinct ks" "set ks \<subseteq> fst ` set (sp_drains sp)"
  shows "sp_drains (fold (retire_drain C late sweep) ks sp) = filter (\<lambda>(k, _). k \<notin> set ks) (sp_drains sp) \<and>
    length (sp_retiring (fold (retire_drain C late sweep) ks sp)) = length (sp_retiring sp) + length ks \<and>
    sp_scoped (fold (retire_drain C late sweep) ks sp) = sp_scoped sp \<and>
    sp_cache (fold (retire_drain C late sweep) ks sp) = fold (swept_if_opened C late sweep (sp_drains sp)) ks (sp_cache sp)"
  using assms
proof (induction ks arbitrary: sp)
  case (Cons k ks)
  obtain drain where d: "map_of (sp_drains sp) k = Some drain"
    using Cons.prems(2) by (metis insert_subset list.set(2) map_of_eq_None_iff not_None_eq)
  let ?sp = "retire_drain C late sweep k sp"
  have dr: "sp_drains ?sp = AList.delete k (sp_drains sp)" "length (sp_retiring ?sp) = Suc (length (sp_retiring sp))"
    "sp_scoped ?sp = sp_scoped sp" "sp_cache ?sp = swept_if_opened C late sweep (sp_drains sp) k (sp_cache sp)"
    using d by (simp_all add: retire_drain_def swept_if_opened_def)
  have "set ks \<subseteq> fst ` set (sp_drains ?sp)" using Cons.prems unfolding dr(1) by (fastforce simp: AList.delete_eq)
  note ih = Cons.IH[OF _ this]
  have "map_of (sp_drains ?sp) k' = map_of (sp_drains sp) k'" if "k' \<in> set ks" for k'
    using that Cons.prems(1) unfolding dr(1) by (auto simp: AList.delete_conv')
  then have "swept_if_opened C late sweep (sp_drains ?sp) k' = swept_if_opened C late sweep (sp_drains sp) k'" if "k' \<in> set ks" for k'
    using that by (auto simp: swept_if_opened_def fun_eq_iff)
  then have f: "fold (swept_if_opened C late sweep (sp_drains ?sp)) ks c = fold (swept_if_opened C late sweep (sp_drains sp)) ks c" for c
    by (intro fold_cong) auto
  have g: "filter (\<lambda>(k, _). k \<notin> set ks) (AList.delete k (sp_drains sp)) = filter (\<lambda>(k', _). k' \<notin> set (k # ks)) (sp_drains sp)"
    by (auto simp: AList.delete_eq intro: filter_cong)
  show ?case using ih Cons.prems(1) f dr g by simp
qed simp

lemma spawn_drain_cases:
  "spawn_drain C now entry sp =
     (if crate_as_str C (sc_scope entry) \<in> fst ` set (sp_drains sp) then sp
      else sp\<lparr>sp_next_task := sp_next_task sp + 1,
        sp_drains := sp_drains sp @ [(crate_as_str C (sc_scope entry),
          \<lparr>sd_task = sp_next_task sp,
           sd_signals = \<lparr>sg_ever_opened = False, sg_live = False,
             sg_recursive = recursive (if crate_as_str C (sc_root entry) = crate_as_str C (sc_scope entry) then Mode_NonRecursive
               else starting_mode C now (memo_owner_still_owns C (sp_scoped sp)) (sc_scope entry) (sw_scopes (sp_scoped sp))),
             sg_started = now, sg_stopped_at_millis = NEVER_STOPPED\<rparr>,
           sd_root = sc_root entry, sd_generation = sc_generation entry\<rparr>)]\<rparr>)"
  by (simp add: spawn_drain_def Let_def map_of_eq_None_iff update_append)

lemma spawn_fold:
  shows "set (sp_drains sp) \<subseteq> set (sp_drains (fold (spawn_drain C now) sel sp)) \<and>
    (\<forall>drain \<in> set (sp_drains (fold (spawn_drain C now) sel sp)). drain \<in> set (sp_drains sp) \<or> matches_selected C sel drain) \<and>
    fst ` set (sp_drains (fold (spawn_drain C now) sel sp)) = fst ` set (sp_drains sp) \<union> (\<lambda>entry. crate_as_str C (sc_scope entry)) ` set sel \<and>
    (distinct (map fst (sp_drains sp)) \<longrightarrow> distinct (map fst (sp_drains (fold (spawn_drain C now) sel sp)))) \<and>
    sp_retiring (fold (spawn_drain C now) sel sp) = sp_retiring sp \<and> sp_scoped (fold (spawn_drain C now) sel sp) = sp_scoped sp \<and>
    sp_cache (fold (spawn_drain C now) sel sp) = sp_cache sp"
proof (induction sel arbitrary: sp)
  case (Cons entry sel)
  let ?sp = "spawn_drain C now entry sp"
  have one: "set (sp_drains sp) \<subseteq> set (sp_drains ?sp)" "\<forall>drain \<in> set (sp_drains ?sp). drain \<in> set (sp_drains sp) \<or> matches_selected C (entry # sel) drain"
    "fst ` set (sp_drains ?sp) = insert (crate_as_str C (sc_scope entry)) (fst ` set (sp_drains sp))"
    "distinct (map fst (sp_drains sp)) \<longrightarrow> distinct (map fst (sp_drains ?sp))"
    "sp_retiring ?sp = sp_retiring sp" "sp_scoped ?sp = sp_scoped sp" "sp_cache ?sp = sp_cache sp"
    by (auto simp: spawn_drain_cases matches_selected_def list_ex_iff)
  have "matches_selected C sel drain \<Longrightarrow> matches_selected C (entry # sel) drain" for drain by (auto simp: matches_selected_def list_ex_iff)
  then show ?case using Cons.IH[of ?sp] one by auto
qed simp

text \<open>The state that a pass starts from, and what it selects.\<close>

definition pass_start :: "nat \<Rightarrow> (nat \<Rightarrow> bool) \<Rightarrow> 'c supervisor \<Rightarrow> 'c supervisor" where
  "pass_start now finished sp =
     sp\<lparr>sp_retiring := filter (\<lambda>handle. \<not> finished handle) (sp_retiring sp), sp_scoped := snd (root_views now (sp_scoped sp))\<rparr>"

definition pass_candidates :: "url_crate \<Rightarrow> nat \<Rightarrow> 'c supervisor \<Rightarrow> url list" where
  "pass_candidates C now sp = candidates C now (memo_owner_still_owns C (sp_scoped sp)) (sw_scopes (sp_scoped sp))"

definition pass_selected :: "url_crate \<Rightarrow> nat \<Rightarrow> (nat \<Rightarrow> bool) \<Rightarrow> 'c supervisor \<Rightarrow> assignment" where
  "pass_selected C now finished sp =
     pass_selection C now (fst (root_views now (sp_scoped sp))) (pass_candidates C now (pass_start now finished sp))
       (pass_start now finished sp)"

definition frozen :: "(nat \<Rightarrow> bool) \<Rightarrow> 'c supervisor \<Rightarrow> bool" where
  "frozen finished sp \<longleftrightarrow> 16 \<le> length (filter (\<lambda>handle. \<not> finished handle) (sp_retiring sp)) \<and> sp_drains sp \<noteq> []"

lemma reconcile_frozen:
  assumes "frozen finished sp"
  shows "reconcile_scopes C now finished late sweep sp =
    (True, (pass_start now finished sp)\<lparr>sp_scoped := scoped_mark_watched (map fst (sp_drains sp)) (snd (root_views now (sp_scoped sp)))\<rparr>)"
  using assms by (simp add: reconcile_scopes_def frozen_def pass_start_def Let_def STUCK_RETIREMENT_LIMIT_def MAX_WATCH_SCOPES_def)

lemma reconcile_moves:
  fixes sp :: "'c supervisor" and C now finished late sweep
  assumes "\<not> frozen finished sp" "distinct (map fst (sp_drains sp))"
  defines "sel \<equiv> pass_selected C now finished sp" and "sp' \<equiv> snd (reconcile_scopes C now finished late sweep sp)"
    and "stale \<equiv> map fst (filter (\<lambda>drain. \<not> matches_selected C (pass_selected C now finished sp) drain) (sp_drains sp))"
  shows "set (filter (matches_selected C sel) (sp_drains sp)) \<subseteq> set (sp_drains sp')"
    "\<forall>drain \<in> set (sp_drains sp'). matches_selected C sel drain"
    "fst ` set (sp_drains sp') = (\<lambda>entry. crate_as_str C (sc_scope entry)) ` set sel"
    "distinct (map fst (sp_drains sp'))"
    "length (sp_retiring sp') = length (filter (\<lambda>handle. \<not> finished handle) (sp_retiring sp)) + length stale"
    "sp_scoped sp' = scoped_mark_watched (map fst (sp_drains sp')) (snd (root_views now (sp_scoped sp)))"
    "sp_cache sp' = fold (swept_if_opened C late sweep (sp_drains sp)) stale (sp_cache sp)"
proof -
  let ?s = "pass_start now finished sp"
  let ?r = "fold (retire_drain C late sweep) stale ?s"
  let ?w = "fold (spawn_drain C now) sel ?r"
  have start: "sp_drains ?s = sp_drains sp" "sp_cache ?s = sp_cache sp" "sp_scoped ?s = snd (root_views now (sp_scoped sp))"
    "sp_retiring ?s = filter (\<lambda>handle. \<not> finished handle) (sp_retiring sp)"
    by (simp_all add: pass_start_def)
  have e: "sp' = ?w\<lparr>sp_scoped := scoped_mark_watched (map fst (sp_drains ?w)) (sp_scoped ?w)\<rparr>"
    using assms(1)
    by (cases "16 \<le> length (filter (\<lambda>handle. \<not> finished handle) (sp_retiring sp))")
       (simp_all add: sp'_def reconcile_scopes_def frozen_def stale_def sel_def pass_selected_def pass_candidates_def
        pass_start_def[symmetric] Let_def STUCK_RETIREMENT_LIMIT_def MAX_WATCH_SCOPES_def start)
  have st: "distinct stale" "set stale \<subseteq> fst ` set (sp_drains ?s)"
    unfolding stale_def start using assms(2) by (auto intro: distinct_map_filter)
  note r = retire_fold[OF st, of C late sweep]
  have kept: "sp_drains ?r = filter (matches_selected C sel) (sp_drains sp)"
  proof -
    have "k \<notin> set stale \<longleftrightarrow> matches_selected C sel (k, d)" if "(k, d) \<in> set (sp_drains sp)" for k d
      using that assms(2) unfolding stale_def sel_def by (auto simp: image_iff dest: eq_key_imp_eq_value)
    then show ?thesis using r start(1) by (auto intro: filter_cong)
  qed
  note w = spawn_fold[of ?r C now sel]
  show "set (filter (matches_selected C sel) (sp_drains sp)) \<subseteq> set (sp_drains sp')"
    using w kept e by simp
  show "\<forall>drain \<in> set (sp_drains sp'). matches_selected C sel drain" using w kept e by auto
  have "fst ` set (sp_drains ?r) \<subseteq> (\<lambda>entry. crate_as_str C (sc_scope entry)) ` set sel"
    unfolding kept by (auto simp: matches_selected_def list_ex_iff)
  then show "fst ` set (sp_drains sp') = (\<lambda>entry. crate_as_str C (sc_scope entry)) ` set sel" using w e by auto
  show "distinct (map fst (sp_drains sp'))" using w e kept assms(2) by (simp add: distinct_map_filter)
  show "length (sp_retiring sp') = length (filter (\<lambda>handle. \<not> finished handle) (sp_retiring sp)) + length stale"
    using w e r by (simp add: pass_start_def)
  show "sp_scoped sp' = scoped_mark_watched (map fst (sp_drains sp')) (snd (root_views now (sp_scoped sp)))"
    using w e r start by simp
  show "sp_cache sp' = fold (swept_if_opened C late sweep (sp_drains sp)) stale (sp_cache sp)"
    using w e r start by simp
qed

lemma pass_selected_length: "length (pass_selected C now finished sp) \<le> 5"
  using chosen_scopes.result_length[where budget = MAX_WATCH_SCOPES]
  by (simp add: pass_selected_def pass_selection_def Let_def MAX_WATCH_SCOPES_def)

text \<open>
  The runs of the supervisor: its own passes, and between them whatever the other tasks do (the locked
  regions of \<open>scoped_step\<close>, the signals that the drains publish, the contents of the cache).
\<close>

inductive supervisor_step :: "url_crate \<Rightarrow> (url \<Rightarrow> 'c \<Rightarrow> 'c) \<Rightarrow> 'c supervisor \<Rightarrow> 'c supervisor \<Rightarrow> bool" for C sweep where
  sup_pass: "supervisor_step C sweep sp (snd (reconcile_scopes C now finished late sweep sp))"
| sup_other: "scoped_step C (sp_scoped sp) sw \<Longrightarrow> supervisor_step C sweep sp (sp\<lparr>sp_scoped := sw\<rparr>)"
| sup_signals: "supervisor_step C sweep sp
    (sp\<lparr>sp_drains := map (\<lambda>(k, drain). (k, drain\<lparr>sd_signals := publish k (sd_signals drain)\<rparr>)) (sp_drains sp)\<rparr>)"
| sup_cache: "supervisor_step C sweep sp (sp\<lparr>sp_cache := cache\<rparr>)"

abbreviation supervisor_runs :: "url_crate \<Rightarrow> (url \<Rightarrow> 'c \<Rightarrow> 'c) \<Rightarrow> 'c supervisor \<Rightarrow> 'c supervisor \<Rightarrow> bool" where
  "supervisor_runs C sweep \<equiv> (supervisor_step C sweep)\<^sup>*\<^sup>*"

definition supervisor_ok :: "url_crate \<Rightarrow> 'c supervisor \<Rightarrow> bool" where
  "supervisor_ok C sp \<longleftrightarrow> distinct (map fst (sp_drains sp)) \<and> length (sp_drains sp) \<le> 5 \<and> length (sp_retiring sp) \<le> 20 \<and>
     scoped_ok C (sp_scoped sp)"

lemma marked_ok:
  assumes "crate_ok C" "scoped_ok C sw" "length ks \<le> 5"
  shows "scoped_ok C (scoped_mark_watched ks (snd (root_views now sw)))"
  using assms step_mark[of ks C] step_views[of C sw now] by (auto intro: step_ok simp: MAX_WATCH_SCOPES_def)

lemma pass_ok:
  assumes "crate_ok C" "supervisor_ok C sp"
  shows "supervisor_ok C (snd (reconcile_scopes C now finished late sweep sp))"
proof (cases "frozen finished sp")
  case True
  have "length (filter (\<lambda>handle. \<not> finished handle) (sp_retiring sp)) \<le> 20"
    using assms(2) length_filter_le[of "\<lambda>handle. \<not> finished handle" "sp_retiring sp"] unfolding supervisor_ok_def by linarith
  moreover have "length (map fst (sp_drains sp)) \<le> 5" using assms(2) by (simp add: supervisor_ok_def)
  ultimately show ?thesis
    using marked_ok[OF assms(1)] assms(2) by (simp add: reconcile_frozen[OF True] supervisor_ok_def pass_start_def)
next
  case False
  have d: "distinct (map fst (sp_drains sp))" using assms(2) by (simp add: supervisor_ok_def)
  let ?sp = "snd (reconcile_scopes C now finished late sweep sp)" and ?sel = "pass_selected C now finished sp"
  let ?stale = "map fst (filter (\<lambda>drain. \<not> matches_selected C (pass_selected C now finished sp) drain) (sp_drains sp))"
  note m = reconcile_moves[OF False d, of C now late sweep]
  have "length (map fst (sp_drains ?sp)) \<le> length (map (\<lambda>entry. crate_as_str C (sc_scope entry)) ?sel)"
    using m(3,4) by (intro distinct_subset_length) auto
  then have len: "length (map fst (sp_drains ?sp)) \<le> 5" using pass_selected_length[of C now finished sp] by simp
  have f: "length (filter (\<lambda>handle. \<not> finished handle) (sp_retiring sp)) \<le> length (sp_retiring sp)" by simp
  have ok: "length (sp_drains sp) \<le> 5" "length (sp_retiring sp) \<le> 20" using assms(2) by (simp_all add: supervisor_ok_def)
  have "length (sp_retiring ?sp) \<le> 20"
  proof (cases "sp_drains sp = []")
    case True
    then have "length ?stale = 0" by simp
    then show ?thesis using m(5) f ok by linarith
  next
    case nonempty: False
    have "length ?stale \<le> length (sp_drains sp)" by simp
    moreover have "length (filter (\<lambda>handle. \<not> finished handle) (sp_retiring sp)) < 16"
      using False nonempty by (simp add: frozen_def)
    ultimately show ?thesis using m(5) ok by linarith
  qed
  moreover have "scoped_ok C (sp_scoped ?sp)"
    unfolding m(6) using marked_ok[OF assms(1) _ len] assms(2) by (simp add: supervisor_ok_def)
  ultimately show ?thesis using m(4) len by (simp add: supervisor_ok_def)
qed

lemma supervisor_runs_ok:
  assumes "crate_ok C" "supervisor_runs C sweep sp sp'" "supervisor_ok C sp"
  shows "supervisor_ok C sp'"
  using assms(2,3)
proof (induction rule: rtranclp_induct)
  case (step y z)
  from step(2) show ?case
  proof cases
    case sup_pass
    then show ?thesis using pass_ok[OF assms(1)] step by simp
  next
    case sup_other
    then show ?thesis using step_ok[OF assms(1)] step by (simp add: supervisor_ok_def)
  next
    case sup_signals
    then show ?thesis using step by (simp add: supervisor_ok_def comp_def split_beta)
  next
    case sup_cache
    then show ?thesis using step by (simp add: supervisor_ok_def)
  qed
qed

lemma supervisor_new_ok: "supervisor_ok C (supervisor_new (scoped_new (watch_scopes_new enabled)) cache)"
  by (simp add: supervisor_ok_def supervisor_new_def scoped_new_ok)

section \<open>Which route a drain serves\<close>

lemma root_views_sorted: "\<exists>views. fst (root_views now sw) = sort_desc (\<lambda>view. node_rank (rv_root view)) views"
  by (auto simp: root_views_def Let_def)

lemma find_longest:
  assumes "find (\<lambda>view. is_ancestor_or_self (rv_root view) scope) (fst (root_views now sw)) = Some view"
    "v \<in> set (fst (root_views now sw))" "is_ancestor_or_self (rv_root v) scope"
  shows "node_rank (rv_root v) \<le> node_rank (rv_root view)"
proof -
  obtain views where "fst (root_views now sw) = sort_desc (\<lambda>view. node_rank (rv_root view)) views"
    using root_views_sorted by blast
  then show ?thesis
    using assms find_sort_desc_max[of "\<lambda>view. is_ancestor_or_self (rv_root view) scope" "\<lambda>view. node_rank (rv_root view)" views view v]
    by simp
qed

lemma root_view_entry:
  assumes "scoped_ok C sw" "view \<in> set (fst (root_views now sw))"
  shows "\<exists>entry. map_of (sw_roots (snd (root_views now sw))) (root_key C (rv_root view)) = Some entry \<and> view = root_view_of entry"
proof -
  obtain k entry where e: "(k, entry) \<in> set (sw_roots sw)" "view = root_view_of (entry\<lparr>sr_watch := expire_pause now (sr_watch entry)\<rparr>)"
    using assms(2) by (auto simp: root_views_def Let_def)
  have ok: "scoped_ok C (snd (root_views now sw))"
    using assms(1) by (auto simp: root_views_def Let_def scoped_ok_def intro!: map_roots_ok)
  have k: "k = root_key C (rv_root view)" using assms(1) e by (auto simp: scoped_ok_def roots_ok_def list_all_iff root_view_of_def)
  have "(k, entry\<lparr>sr_watch := expire_pause now (sr_watch entry)\<rparr>) \<in> set (sw_roots (snd (root_views now sw)))"
    using e(1) by (force simp: root_views_def Let_def)
  then show ?thesis using ok k e(2) by (auto simp: scoped_ok_def roots_ok_def intro: map_of_is_SomeI)
qed

lemma entry_root_view:
  "(k, entry) \<in> set (sw_roots (snd (root_views now sw))) \<Longrightarrow> root_view_of entry \<in> set (fst (root_views now sw))"
  by (force simp: root_views_def Let_def)

lemma assigned_owns:
  assumes "scoped_ok C sw" "assign_scope C (fst (root_views now sw)) running scope = Some entry"
  shows "still_owns_scope C (snd (root_views now sw)) (sc_root entry) (sc_generation entry) scope"
proof -
  obtain view where v: "find (\<lambda>view. is_ancestor_or_self (rv_root view) scope) (fst (root_views now sw)) = Some view"
    "entry = \<lparr>sc_root = rv_root view, sc_generation = rv_generation view, sc_scope = scope\<rparr>"
    using assms(2) by (elim assign_scope_Some)
  then have vin: "view \<in> set (fst (root_views now sw))" by (auto simp: find_Some_iff)
  obtain e where e: "map_of (sw_roots (snd (root_views now sw))) (root_key C (rv_root view)) = Some e" "view = root_view_of e"
    using root_view_entry[OF assms(1) vin] by blast
  have "\<not> (is_ancestor_or_self (sr_root other) scope \<and> node_rank (rv_root view) < node_rank (sr_root other))"
    if "(k, other) \<in> set (sw_roots (snd (root_views now sw)))" for k other
    using find_longest[OF v(1) entry_root_view[OF that]] by (auto simp: root_view_of_def)
  moreover have "rv_generation view = sr_generation e" using e(2) by (simp add: root_view_of_def)
  ultimately show ?thesis using e(1) v(2) by (auto simp: still_owns_scope_def list_ex_iff)
qed

lemma select_assigned:
  assumes "entry \<in> set (select_scopes C roots cands budget can_cover may_open running prot)"
  shows "entry \<in> set (sel_assigned C roots running cands)" "\<not> collapsed (sel_assigned C roots running cands) can_cover entry"
  using chosen_scopes.result_antichain[of C roots cands budget can_cover may_open running prot] assms
  by (auto simp: sel_antichain_def)

lemma selected_assigned:
  assumes "entry \<in> set (pass_selected C now finished sp)"
  shows "\<exists>running. sc_scope entry \<in> set (pass_candidates C now (pass_start now finished sp)) \<and>
    assign_scope C (fst (root_views now (sp_scoped sp))) running (sc_scope entry) = Some entry"
  using chosen_scopes.assigned_scope[OF select_assigned(1)[OF assms[unfolded pass_selected_def pass_selection_def Let_def]]]
  by blast

section \<open>A pass under a refused root\<close>

lemma other_runs:
  assumes "scoped_runs C (sp_scoped sp) sw"
  shows "supervisor_runs C sweep sp (sp\<lparr>sp_scoped := sw\<rparr>)"
  using assms
proof (induction rule: rtranclp_induct)
  case base
  then show ?case by simp
next
  case (step y z)
  have "supervisor_step C sweep (sp\<lparr>sp_scoped := y\<rparr>) (sp\<lparr>sp_scoped := y, sp_scoped := z\<rparr>)"
    by (rule sup_other) (simp add: step(2))
  then show ?case using step(3) by simp
qed

lemma team_urls:
  "crate_as_str ref_crate team_root = ''s3://b/team''" "crate_as_str ref_crate team_dir = ''s3://b/team/''"
  "is_ancestor_or_self team_root team_dir" "same_node team_root team_dir" "crate_parse ref_crate ''s3://b/team/'' = Some team_dir"
  by code_simp+

lemma team_views:
  "fst (root_views 0 team_refused) = [\<lparr>rv_root = team_root, rv_generation = 0, rv_covers = False, rv_admits_probes = True\<rparr>]"
  "sw_scopes (snd (root_views 0 team_refused)) = sw_scopes team_refused"
  "candidates ref_crate 0 (memo_owner_still_owns ref_crate (snd (root_views 0 team_refused))) (sw_scopes team_refused) = [team_dir]"
  "st_denied (ws_table (sw_scopes team_refused)) = []"
  by code_simp+

text \<open>The supervisor after its first pass over that state.\<close>

definition team_supervisor :: "'c \<Rightarrow> 'c supervisor" where
  "team_supervisor cache = (supervisor_new fresh_state cache)\<lparr>sp_scoped := team_refused\<rparr>"

definition team_pass :: "(url \<Rightarrow> 'c \<Rightarrow> 'c) \<Rightarrow> 'c \<Rightarrow> 'c supervisor" where
  "team_pass sweep cache = snd (reconcile_scopes ref_crate 0 (\<lambda>_. False) (\<lambda>_. False) sweep (team_supervisor cache))"

lemma team_supervisor_runs:
  "supervisor_runs ref_crate sweep (supervisor_new fresh_state cache) (team_supervisor cache)"
  "supervisor_runs ref_crate sweep (supervisor_new fresh_state cache) (team_pass sweep cache)"
proof -
  show a: "supervisor_runs ref_crate sweep (supervisor_new fresh_state cache) (team_supervisor cache)"
    unfolding team_supervisor_def by (rule other_runs) (simp add: supervisor_new_def team_runs(3))
  show "supervisor_runs ref_crate sweep (supervisor_new fresh_state cache) (team_pass sweep cache)"
    unfolding team_pass_def using a by (rule rtranclp.rtrancl_into_rtrancl) (rule sup_pass)
qed

lemma team_selected:
  "pass_selected ref_crate 0 (\<lambda>_. False) (team_supervisor cache) = [\<lparr>sc_root = team_root, sc_generation = 0, sc_scope = team_dir\<rparr>]"
  by (simp add: team_supervisor_def team_urls pass_selected_def pass_start_def pass_candidates_def pass_selection_def supervisor_new_def
      team_views scope_views_def held_by_def select_scopes_def sel_held_def sel_rest_def sel_antichain_def sel_assigned_def
      List.map_filter_simps assign_scope_def collapsed_def is_protected_def cover_winner_def eligible_cover_def subsumed_def
      MAX_WATCH_SCOPES_def)

lemma team_drains: "fst ` set (sp_drains (team_pass sweep cache)) = {''s3://b/team/''}"
proof -
  have "\<not> frozen (\<lambda>_. False) (team_supervisor cache)" "distinct (map fst (sp_drains (team_supervisor cache)))"
    by (simp_all add: frozen_def team_supervisor_def supervisor_new_def)
  from reconcile_moves(3)[OF this, of ref_crate 0 "\<lambda>_. False" sweep] show ?thesis
    by (simp add: team_pass_def team_selected team_urls)
qed

section \<open>Properties\<close>

text \<open>C14. Every directory that a pass selects is a candidate, and it is assigned to the longest of the
  advertised roots that contain it; that root's own watch does not cover it, the directory is not spelled
  like the root, and either the root admits probes or a watch opened under the same advertisement already
  runs there. No open recursive watch above it on the same root covers it. The selection holds each
  directory once and at most one directory more than the budget.\<close>

theorem selection_sound:
  fixes C now sw cands budget can_cover may_open running prot
  assumes "distinct cands"
  defines "roots \<equiv> fst (root_views now sw)"
  defines "selected \<equiv> select_scopes C roots cands budget can_cover may_open running prot"
  shows "length selected \<le> budget + 1 \<and> distinct (map sc_scope selected) \<and>
    (\<forall>entry \<in> set selected. sc_scope entry \<in> set cands \<and>
       (\<exists>view \<in> set roots. is_ancestor_or_self (rv_root view) (sc_scope entry) \<and>
          (\<forall>other \<in> set roots. is_ancestor_or_self (rv_root other) (sc_scope entry) \<longrightarrow>
             node_rank (rv_root other) \<le> node_rank (rv_root view)) \<and>
          sc_root entry = rv_root view \<and> sc_generation entry = rv_generation view \<and> \<not> rv_covers view \<and>
          crate_as_str C (rv_root view) \<noteq> crate_as_str C (sc_scope entry) \<and>
          (rv_admits_probes view \<or>
           (\<exists>root. (crate_as_str C (sc_scope entry), root, rv_generation view) \<in> set running))) \<and>
       (\<forall>other \<in> set selected. sc_scope other \<noteq> sc_scope entry \<and> sc_root other = sc_root entry \<and>
          is_ancestor_or_self (sc_scope other) (sc_scope entry) \<longrightarrow> \<not> can_cover other))"
proof (intro conjI ballI)
  show "length selected \<le> budget + 1" unfolding selected_def by (rule chosen_scopes.result_length)
  show "distinct (map sc_scope selected)" unfolding selected_def by (rule chosen_scopes.result_distinct[OF assms(1)])
next
  fix entry assume e: "entry \<in> set selected"
  note as = select_assigned[OF e[unfolded selected_def]]
  show "sc_scope entry \<in> set cands" by (rule chosen_scopes.assigned_scope(1)[OF as(1)])
  from chosen_scopes.assigned_scope(2)[OF as(1)]
  obtain view where v: "find (\<lambda>view. is_ancestor_or_self (rv_root view) (sc_scope entry)) roots = Some view"
    "entry = \<lparr>sc_root = rv_root view, sc_generation = rv_generation view, sc_scope = sc_scope entry\<rparr>" "\<not> rv_covers view"
    "crate_as_str C (rv_root view) \<noteq> crate_as_str C (sc_scope entry)"
    "rv_admits_probes view \<or> list_ex (\<lambda>(k, _, generation). k = crate_as_str C (sc_scope entry) \<and> generation = rv_generation view) running"
    by (rule assign_scope_Some)
  have se: "sc_root entry = rv_root view" "sc_generation entry = rv_generation view" using v(2) by (metis selected_scope.select_convs)+
  have in_roots: "view \<in> set roots" "is_ancestor_or_self (rv_root view) (sc_scope entry)"
    using v(1) by (auto simp: find_Some_iff)
  have longest: "\<forall>other \<in> set roots. is_ancestor_or_self (rv_root other) (sc_scope entry) \<longrightarrow>
      node_rank (rv_root other) \<le> node_rank (rv_root view)"
    using find_longest[OF v(1)[unfolded roots_def]] unfolding roots_def by blast
  have admitted: "rv_admits_probes view \<or> (\<exists>root. (crate_as_str C (sc_scope entry), root, rv_generation view) \<in> set running)"
    using v(5) by (auto simp: list_ex_iff)
  show "\<exists>view \<in> set roots. is_ancestor_or_self (rv_root view) (sc_scope entry) \<and>
          (\<forall>other \<in> set roots. is_ancestor_or_self (rv_root other) (sc_scope entry) \<longrightarrow>
             node_rank (rv_root other) \<le> node_rank (rv_root view)) \<and>
          sc_root entry = rv_root view \<and> sc_generation entry = rv_generation view \<and> \<not> rv_covers view \<and>
          crate_as_str C (rv_root view) \<noteq> crate_as_str C (sc_scope entry) \<and>
          (rv_admits_probes view \<or>
           (\<exists>root. (crate_as_str C (sc_scope entry), root, rv_generation view) \<in> set running))"
    by (rule bexI[OF _ in_roots(1)]) (intro conjI in_roots(2) longest se v(3,4) admitted)
  fix other assume "other \<in> set selected"
  then have "other \<in> set (sel_assigned C roots running cands)" unfolding selected_def by (rule select_assigned(1))
  then show "sc_scope other \<noteq> sc_scope entry \<and> sc_root other = sc_root entry \<and>
      is_ancestor_or_self (sc_scope other) (sc_scope entry) \<longrightarrow> \<not> can_cover other"
    using as(2) by (auto simp: collapsed_def list_ex_iff)
qed

theorem selection_sound_witness:
  "let selected = select_scopes ref_crate (fst (root_views 0 team_refused)) [team_dir] 4 (\<lambda>_. False) (\<lambda>_. True) [] [] in
   distinct [team_dir] \<and> map sc_scope selected = [team_dir] \<and> length selected \<le> 4 + 1 \<and>
   (\<forall>entry \<in> set selected. sc_root entry = team_root \<and> is_ancestor_or_self team_root (sc_scope entry))"
proof -
  let ?selected = "select_scopes ref_crate (fst (root_views 0 team_refused)) [team_dir] 4 (\<lambda>_. False) (\<lambda>_. True) [] []"
  have d: "distinct [team_dir]" by simp
  have l: "map sc_scope ?selected = [team_dir]"
    by (simp add: team_views team_urls select_scopes_def sel_held_def sel_rest_def sel_antichain_def sel_assigned_def
        List.map_filter_simps assign_scope_def collapsed_def is_protected_def cover_winner_def eligible_cover_def subsumed_def)
  note p = selection_sound[OF d, of ref_crate 0 team_refused 4 "\<lambda>_. False" "\<lambda>_. True" "[]" "[]"]
  have "sc_root entry = team_root \<and> is_ancestor_or_self team_root (sc_scope entry)" if e: "entry \<in> set ?selected" for entry
  proof -
    from p e obtain view where "view \<in> set (fst (root_views 0 team_refused))" "is_ancestor_or_self (rv_root view) (sc_scope entry)"
      "sc_root entry = rv_root view" by blast
    then show ?thesis by (simp add: team_views)
  qed
  then show ?thesis using l d conjunct1[OF p] by (simp only: Let_def) blast
qed

text \<open>Selection does not thrash and does not starve: the protected directories all stay while they fit
  the budget, however many hotter candidates there are, and whenever some candidate could consolidate
  protected directories under one recursive watch, such a candidate is selected.\<close>

lemma selection_keeps:
  fixes C roots cands budget can_cover may_open running prot
  defines "held \<equiv> sel_held C roots running can_cover prot cands" and "rest \<equiv> sel_rest C roots running can_cover prot cands"
    and "selected \<equiv> select_scopes C roots cands budget can_cover may_open running prot"
  shows "(length held \<le> budget \<longrightarrow> set held \<subseteq> set selected) \<and>
    ((\<exists>entry \<in> set rest. eligible_cover C roots may_open held entry) \<longrightarrow>
     (\<exists>cover \<in> set selected. cover \<in> set rest \<and> eligible_cover C roots may_open held cover))"
  unfolding held_def rest_def selected_def using chosen_scopes.held_kept chosen_scopes.winner_selected by blast

text \<open>C28. However long the layer runs and however many backends never let go of a cancelled stream, the
  supervisor holds at most five scoped watches and at most twenty cancelled drains that still occupy
  a thread.\<close>

theorem watch_threads_bounded:
  assumes "crate_ok C" "supervisor_runs C sweep (supervisor_new (scoped_new (watch_scopes_new enabled)) cache) sp"
  shows "length (sp_drains sp) \<le> MAX_WATCH_SCOPES + 1 \<and>
    length (sp_retiring sp) < STUCK_RETIREMENT_LIMIT + MAX_WATCH_SCOPES + 1 \<and> distinct (map fst (sp_drains sp))"
  using supervisor_runs_ok[OF assms supervisor_new_ok]
  by (simp add: supervisor_ok_def MAX_WATCH_SCOPES_def STUCK_RETIREMENT_LIMIT_def)

theorem watch_threads_bounded_witness:
  "supervisor_runs ref_crate (\<lambda>_ c. c) (supervisor_new (scoped_new (watch_scopes_new True)) ()) (team_pass (\<lambda>_ c. c) ()) \<and>
   fst ` set (sp_drains (team_pass (\<lambda>_ c. c) ())) = {''s3://b/team/''} \<and>
   length (sp_drains (team_pass (\<lambda>_ c. c) ())) \<le> MAX_WATCH_SCOPES + 1 \<and>
   length (sp_retiring (team_pass (\<lambda>_ c. c) ())) < STUCK_RETIREMENT_LIMIT + MAX_WATCH_SCOPES + 1"
  using watch_threads_bounded[of ref_crate "\<lambda>_ c. c" True "()" "team_pass (\<lambda>_ c. c) ()"]
    team_supervisor_runs(2)[of "\<lambda>_ c. c" "()"] team_drains by simp

text \<open>C15. After a pass that is not held back by stuck drains, every running drain serves the route that owns
  its directory, one of the candidates of the pass: its root contains the directory, is still advertised
  under the drain's generation, and no longer root has taken the directory over. A drain that was already serving the selected route is left untouched.\<close>

theorem pass_follows_routes:
  fixes C sweep enabled cache sp finished now late
  assumes "crate_ok C" "supervisor_runs C sweep (supervisor_new (scoped_new (watch_scopes_new enabled)) cache) sp"
    "length (filter (\<lambda>handle. \<not> finished handle) (sp_retiring sp)) < STUCK_RETIREMENT_LIMIT \<or> sp_drains sp = []"
  defines "sp' \<equiv> snd (reconcile_scopes C now finished late sweep sp)"
  shows "(\<forall>(k, drain) \<in> set (sp_drains sp'). \<exists>scope \<in> set (pass_candidates C now (pass_start now finished sp)).
       k = crate_as_str C scope \<and> is_ancestor_or_self (sd_root drain) scope \<and>
       still_owns_scope C (sp_scoped sp') (sd_root drain) (sd_generation drain) scope) \<and>
    (\<forall>drain \<in> set (sp_drains sp). matches_selected C (pass_selected C now finished sp) drain \<longrightarrow> drain \<in> set (sp_drains sp'))"
proof -
  have ok: "supervisor_ok C sp" using supervisor_runs_ok[OF assms(1,2) supervisor_new_ok] .
  have nf: "\<not> frozen finished sp" using assms(3) by (auto simp: frozen_def STUCK_RETIREMENT_LIMIT_def MAX_WATCH_SCOPES_def)
  have d: "distinct (map fst (sp_drains sp))" using ok by (simp add: supervisor_ok_def)
  note m = reconcile_moves[OF nf d, of C now late sweep, folded sp'_def]
  have roots: "sw_roots (sp_scoped sp') = sw_roots (snd (root_views now (sp_scoped sp)))"
    unfolding m(6) by (simp add: scoped_mark_watched_def)
  have "\<exists>scope \<in> set (pass_candidates C now (pass_start now finished sp)). k = crate_as_str C scope \<and>
      is_ancestor_or_self (sd_root drain) scope \<and> still_owns_scope C (sp_scoped sp') (sd_root drain) (sd_generation drain) scope"
    if kd: "(k, drain) \<in> set (sp_drains sp')" for k drain
  proof -
    have "matches_selected C (pass_selected C now finished sp) (k, drain)" using m(2) kd by blast
    then obtain entry where e: "entry \<in> set (pass_selected C now finished sp)" "crate_as_str C (sc_scope entry) = k"
      "sc_generation entry = sd_generation drain" "sc_root entry = sd_root drain"
      by (auto simp: matches_selected_def list_ex_iff)
    obtain running where as: "sc_scope entry \<in> set (pass_candidates C now (pass_start now finished sp))"
      "assign_scope C (fst (root_views now (sp_scoped sp))) running (sc_scope entry) = Some entry"
      using selected_assigned[OF e(1)] by blast
    then have "is_ancestor_or_self (sd_root drain) (sc_scope entry)"
      using assign_scope_contains[OF as(2)] e(4) by simp
    moreover from as(2) have "still_owns_scope C (snd (root_views now (sp_scoped sp))) (sc_root entry) (sc_generation entry) (sc_scope entry)"
      using ok assigned_owns by (auto simp: supervisor_ok_def)
    from this have "still_owns_scope C (sp_scoped sp') (sd_root drain) (sd_generation drain) (sc_scope entry)"
      using e(3,4) by (simp only: still_owns_scope_def roots)
    ultimately show ?thesis using e(2) as(1) by blast
  qed
  then show ?thesis using m(1) by auto
qed

theorem pass_follows_routes_witness:
  "supervisor_runs ref_crate (\<lambda>_ c. c) (supervisor_new (scoped_new (watch_scopes_new True)) ()) (team_supervisor ()) \<and>
   (\<exists>drain scope. (''s3://b/team/'', drain) \<in> set (sp_drains (team_pass (\<lambda>_ c. c) ())) \<and> ''s3://b/team/'' = crate_as_str ref_crate scope \<and>
      is_ancestor_or_self (sd_root drain) scope \<and>
      still_owns_scope ref_crate (sp_scoped (team_pass (\<lambda>_ c. c) ())) (sd_root drain) (sd_generation drain) scope)"
proof -
  have e: "sp_drains (team_supervisor ()) = []" by (simp add: team_supervisor_def supervisor_new_def)
  have c: "crate_ok ref_crate" by simp
  note p = pass_follows_routes[OF c team_supervisor_runs(1), where finished = "\<lambda>_. False" and now = 0 and late = "\<lambda>_. False",
      unfolded team_pass_def[symmetric]]
  have "length (filter (\<lambda>handle. \<not> False) (sp_retiring (team_supervisor ()))) < STUCK_RETIREMENT_LIMIT \<or> sp_drains (team_supervisor ()) = []"
    using e by (rule disjI2)
  note q = p[OF this, where sweep = "\<lambda>_ c. c"]
  have "''s3://b/team/'' \<in> fst ` set (sp_drains (team_pass (\<lambda>_ c. c) ()))" by (simp only: team_drains singletonI)
  then obtain drain where d: "(''s3://b/team/'', drain) \<in> set (sp_drains (team_pass (\<lambda>_ c. c) ()))" by (elim imageE) (metis prod.collapse)
  from bspec[OF conjunct1[OF q] d] obtain scope where "''s3://b/team/'' = crate_as_str ref_crate scope"
    "is_ancestor_or_self (sd_root drain) scope"
    "still_owns_scope ref_crate (sp_scoped (team_pass (\<lambda>_ c. c) ())) (sd_root drain) (sd_generation drain) scope"
    by (simp only: prod.case) (elim bexE conjE)
  with d have "\<exists>drain scope. (''s3://b/team/'', drain) \<in> set (sp_drains (team_pass (\<lambda>_ c. c) ())) \<and> ''s3://b/team/'' = crate_as_str ref_crate scope \<and>
      is_ancestor_or_self (sd_root drain) scope \<and>
      still_owns_scope ref_crate (sp_scoped (team_pass (\<lambda>_ c. c) ())) (sd_root drain) (sd_generation drain) scope"
    by (intro exI conjI)
  with team_supervisor_runs(1) show ?thesis by (rule conjI)
qed

text \<open>
  A watch is never given up silently: when a pass ends a drain whose watch had opened, whatever a sweep of
  its directory establishes about the cache, and no other sweep undoes, holds after the pass. The
  predicate \<open>I\<close> is the cache's own invariant.
\<close>

lemma given_up_watch_is_swept:
  assumes "distinct (map fst (sp_drains sp))"
    "(k, drain) \<in> set (sp_drains sp)" "sg_ever_opened (sd_signals drain)" "crate_parse C k = Some prefx"
    "(k, drain) \<notin> set (sp_drains (snd (reconcile_scopes C now finished late sweep sp)))"
    "I (sp_cache sp)" "\<And>p c. I c \<Longrightarrow> I (sweep p c)" "\<And>c. I c \<Longrightarrow> Q (sweep prefx c)" "\<And>p c. I c \<Longrightarrow> Q c \<Longrightarrow> Q (sweep p c)"
  shows "Q (sp_cache (snd (reconcile_scopes C now finished late sweep sp)))"
proof -
  have nf: "\<not> frozen finished sp" using assms(2,5) by (auto simp: reconcile_frozen pass_start_def)
  note m = reconcile_moves[OF nf assms(1), of C now late sweep]
  let ?sw = "swept_if_opened C late sweep (sp_drains sp)"
  let ?stale = "map fst (filter (\<lambda>drain. \<not> matches_selected C (pass_selected C now finished sp) drain) (sp_drains sp))"
  have k: "k \<in> set ?stale" using m(1) assms(2,5) by force
  have inv: "I c \<Longrightarrow> I (?sw k' c)" for k' c
    using assms(7) by (auto simp: swept_if_opened_def split: option.splits)
  have keep: "I c \<Longrightarrow> Q c \<Longrightarrow> Q (?sw k' c)" for k' c
    using assms(9) by (auto simp: swept_if_opened_def split: option.splits)
  have folds: "I c \<Longrightarrow> Q c \<Longrightarrow> Q (fold ?sw ks c)" for ks c
    by (induction ks arbitrary: c) (auto intro: keep inv)
  have one: "I c \<Longrightarrow> Q (?sw k c)" for c
    using assms(1-4,8) by (simp add: swept_if_opened_def)
  have "k \<in> set ks \<Longrightarrow> I c \<Longrightarrow> Q (fold ?sw ks c)" for ks c
    by (induction ks arbitrary: c) (auto intro: folds one inv)
  then show ?thesis using k m(7) assms(6) by simp
qed

section \<open>The supervisor's loop\<close>

text \<open>The loop is a run of the supervisor, whose drains are stopped when it ends.\<close>

definition run_result :: "url_crate \<Rightarrow> (url \<Rightarrow> 'c \<Rightarrow> 'c) \<Rightarrow> 'c supervisor \<Rightarrow> bool \<times> 'c supervisor \<Rightarrow> bool" where
  "run_result C sweep sp = (\<lambda>(ended, sp'). \<exists>sp1. supervisor_runs C sweep sp sp1 \<and> sp' = (if ended then stop_drains sp1 else sp1))"

lemma run_resultI:
  "supervisor_runs C sweep sp sp1 \<Longrightarrow> run_result C sweep sp (True, stop_drains sp1)"
  "supervisor_runs C sweep sp sp1 \<Longrightarrow> run_result C sweep sp (False, sp1)"
  "supervisor_runs C sweep sp sp1 \<Longrightarrow> run_result C sweep sp1 r \<Longrightarrow> run_result C sweep sp r"
  by (auto simp: run_result_def intro: rtranclp_trans)

lemma loop_is_run:
  assumes "\<forall>t \<in> set ts. \<forall>sp. supervisor_runs C sweep sp (tn_waiting t sp)"
  shows "run_result C sweep sp (supervise_scoped_drains C sweep ts sp)"
  using assms
proof (induction ts arbitrary: sp)
  case (Cons t ts)
  obtain deferred sp1 where r: "reconcile_scopes C (tn_now t) (tn_finished t) (tn_late t) sweep sp = (deferred, sp1)" by force
  let ?w = "tn_waiting t sp1"
  have "supervisor_step C sweep sp sp1" using sup_pass[of C sweep sp "tn_now t" "tn_finished t" "tn_late t"] r by simp
  moreover have "supervisor_runs C sweep sp1 ?w" using Cons.prems by simp
  ultimately have run: "supervisor_runs C sweep sp ?w" by (rule converse_rtranclp_into_rtranclp)
  have "supervisor_step C sweep ?w (consume_wake ?w)" unfolding consume_wake_def by (intro sup_other step_slept)
  with run have woken: "supervisor_runs C sweep sp (consume_wake ?w)" by (rule rtranclp.rtrancl_into_rtrancl)
  have ih: "run_result C sweep sp (supervise_scoped_drains C sweep ts q)" if "supervisor_runs C sweep sp q" for q
    using that Cons.IH[of q] Cons.prems by (auto intro: run_resultI(3))
  show ?case using r run_resultI(1,2)[OF run] run_resultI(1)[OF rtranclp.rtrancl_refl, of C sweep sp] ih[OF run] ih[OF woken]
    by (simp add: Let_def)
qed (simp add: run_resultI(2))

lemma loop_bounded:
  assumes "crate_ok C" "\<forall>t \<in> set ts. \<forall>sp. supervisor_runs C sweep sp (tn_waiting t sp)"
    "supervise_scoped_drains C sweep ts (supervisor_new (scoped_new (watch_scopes_new enabled)) cache) = (ended, sp')"
  shows "supervisor_ok C sp' \<and> (ended \<longrightarrow> sp_drains sp' = [])"
proof -
  obtain sp1 where sp1: "supervisor_runs C sweep (supervisor_new (scoped_new (watch_scopes_new enabled)) cache) sp1"
    "sp' = (if ended then stop_drains sp1 else sp1)"
    using loop_is_run[OF assms(2), of "supervisor_new (scoped_new (watch_scopes_new enabled)) cache"] assms(3)
    by (auto simp: run_result_def)
  have "supervisor_ok C sp1" using supervisor_runs_ok[OF assms(1) sp1(1) supervisor_new_ok] .
  then show ?thesis using sp1(2) by (auto simp: stop_drains_def supervisor_ok_def)
qed

text \<open>The supervisor sleeps without a timer only when nothing is due: no notification is stored, no
  cancelled drain is awaited, no candidate was left out while drains run, and no refusal and no pause of
  a root is running out. A turn that is not cancelled otherwise leads to the next pass.\<close>

lemma sleeps_only_when_settled:
  assumes "\<not> tn_cancelled t" "tn_layer t" "\<not> tn_wait_cancelled t"
    "reconcile_scopes C (tn_now t) (tn_finished t) (tn_late t) sweep sp = (deferred, sp1)"
  shows "(ws_wake (sw_scopes (sp_scoped (tn_waiting t sp1))) \<or> sp_retiring sp1 \<noteq> [] \<or> deferred \<or>
      scopes_pending_deadline (tn_now t) (sw_scopes (sp_scoped sp1)) \<or> roots_pending_deadline (sp_scoped sp1) \<longrightarrow>
      (\<exists>q. q \<in> {tn_waiting t sp1, consume_wake (tn_waiting t sp1)} \<and>
        supervise_scoped_drains C sweep (t # ts) sp = supervise_scoped_drains C sweep ts q))"
  using assms by (auto simp: Let_def supervisor_needs_timer_def)

section \<open>The pass over the roots\<close>

lemma map_of_filter_keys: "map_of (filter (\<lambda>(k, _). P k) xs) k = (if P k then map_of xs k else None)"
  by (induction xs) auto

text \<open>A root drain speaks for the advertisement that is current under its key.\<close>

definition drains_speak :: "url_crate \<Rightarrow> (string \<times> root_drain) list \<Rightarrow> scoped_watch_state \<Rightarrow> bool" where
  "drains_speak C drains sw \<longleftrightarrow> distinct (map fst drains) \<and>
     (\<forall>(k, drain) \<in> set drains. k = root_key C (rd_prefix drain) \<and> generation_at sw k = Some (rd_generation drain))"

lemma drop_fold:
  assumes "drains_speak C drains sw" "distinct ks" "set ks \<subseteq> fst ` set drains"
  shows "\<exists>sw' cache'. fold (drop_root C sweep) ks (drains, sw, cache) = (filter (\<lambda>(k, _). k \<notin> set ks) drains, sw', cache') \<and>
    (\<forall>k. generation_at sw' k = (if k \<in> set ks then None else generation_at sw k))"
  using assms
proof (induction ks arbitrary: drains sw cache)
  case (Cons k ks)
  have d: "distinct (map fst drains)" using Cons.prems(1) by (simp add: drains_speak_def)
  obtain drain where dr: "map_of drains k = Some drain"
    using Cons.prems(3) by (metis insert_subset list.set(2) map_of_eq_None_iff not_None_eq)
  then have kd: "root_key C (rd_prefix drain) = k" "generation_at sw k = Some (rd_generation drain)"
    using Cons.prems(1) map_of_SomeD[OF dr] by (auto simp: drains_speak_def)
  let ?sw = "withdraw C (rd_prefix drain) sw" and ?drains = "AList.delete k drains"
  have g: "generation_at ?sw k' = (if k' = k then None else generation_at sw k')" for k'
    using kd by (auto simp: generation_at_def withdraw_def AList.delete_conv' wake_supervisor_def)
  have "drains_speak C ?drains ?sw"
    using Cons.prems(1) g by (auto simp: drains_speak_def AList.delete_eq distinct_map_filter)
  moreover have "set ks \<subseteq> fst ` set ?drains" using Cons.prems by (fastforce simp: AList.delete_eq)
  ultimately obtain sw' cache' where ih:
    "fold (drop_root C sweep) ks (?drains, ?sw, sweep (rd_prefix drain) cache) = (filter (\<lambda>(k, _). k \<notin> set ks) ?drains, sw', cache')"
    "\<forall>k. generation_at sw' k = (if k \<in> set ks then None else generation_at ?sw k)"
    using Cons.IH Cons.prems(2) by (metis distinct.simps(2))
  have "filter (\<lambda>(k, _). k \<notin> set ks) ?drains = filter (\<lambda>(k', _). k' \<notin> set (k # ks)) drains"
    by (auto simp: AList.delete_eq intro: filter_cong)
  moreover have "drop_root C sweep k (drains, sw, cache) = (?drains, ?sw, sweep (rd_prefix drain) cache)"
    using dr by (simp add: drop_root_def)
  ultimately show ?case using ih g by (intro exI[of _ sw'] exI[of _ cache']) auto
qed simp

lemma advertise_generation:
  "advertise C root sw = (g, sw') \<Longrightarrow>
     generation_at sw' (root_key C root) = Some g \<and>
     (\<forall>k. k \<noteq> root_key C root \<or> generation_at sw k \<noteq> None \<longrightarrow> generation_at sw' k = generation_at sw k)"
  by (auto simp: advertise_def generation_at_def Let_def wake_supervisor_def AList.update_conv' split: option.splits)

lemma advertise_all_fold:
  assumes "\<forall>k g. map_of gens k = Some g \<longrightarrow> generation_at sw k = Some g"
    "fold (\<lambda>root (generations, sw). let (generation, sw') = advertise C root sw
       in (AList.update (root_key C root) generation generations, sw')) roots (gens, sw) = (gens', sw')"
  shows "(\<forall>k g. map_of gens' k = Some g \<longrightarrow> generation_at sw' k = Some g) \<and>
    (\<forall>k. map_of gens' k \<noteq> None \<longleftrightarrow> map_of gens k \<noteq> None \<or> k \<in> root_key C ` set roots) \<and>
    (\<forall>k. generation_at sw k \<noteq> None \<longrightarrow> generation_at sw' k = generation_at sw k) \<and>
    (\<forall>k. generation_at sw' k \<noteq> None \<longleftrightarrow> generation_at sw k \<noteq> None \<or> k \<in> root_key C ` set roots)"
  using assms
proof (induction roots arbitrary: gens sw)
  case (Cons root roots)
  obtain g sw1 where a: "advertise C root sw = (g, sw1)" by force
  note ag = advertise_generation[OF a]
  let ?gens = "AList.update (root_key C root) g gens"
  have "\<forall>k g'. map_of ?gens k = Some g' \<longrightarrow> generation_at sw1 k = Some g'"
  proof (intro allI impI)
    fix k g' assume m: "map_of ?gens k = Some g'"
    show "generation_at sw1 k = Some g'"
    proof (cases "k = root_key C root")
      case True
      then show ?thesis using m ag by (simp add: AList.update_conv')
    next
      case False
      then have "generation_at sw k = Some g'" using m Cons.prems(1) by (simp add: AList.update_conv')
      then show ?thesis using ag False by simp
    qed
  qed
  from Cons.IH[OF this] Cons.prems(2) a
  have ih: "(\<forall>k g. map_of gens' k = Some g \<longrightarrow> generation_at sw' k = Some g)"
    "\<forall>k. map_of gens' k \<noteq> None \<longleftrightarrow> map_of ?gens k \<noteq> None \<or> k \<in> root_key C ` set roots"
    "\<forall>k. generation_at sw1 k \<noteq> None \<longrightarrow> generation_at sw' k = generation_at sw1 k"
    "\<forall>k. generation_at sw' k \<noteq> None \<longleftrightarrow> generation_at sw1 k \<noteq> None \<or> k \<in> root_key C ` set roots"
    by simp_all
  have s1: "generation_at sw1 k \<noteq> None \<longleftrightarrow> generation_at sw k \<noteq> None \<or> k = root_key C root" for k
    using ag by (cases "k = root_key C root") auto
  show ?case
  proof (intro conjI allI impI)
    show "map_of gens' k = Some g' \<Longrightarrow> generation_at sw' k = Some g'" for k g' using ih(1) by blast
    show "(map_of gens' k \<noteq> None) = (map_of gens k \<noteq> None \<or> k \<in> root_key C ` set (root # roots))" for k
      using ih(2) by (auto simp: AList.update_conv')
    show "generation_at sw k \<noteq> None \<Longrightarrow> generation_at sw' k = generation_at sw k" for k
      using ih(3) s1 ag by metis
    show "(generation_at sw' k \<noteq> None) = (generation_at sw k \<noteq> None \<or> k \<in> root_key C ` set (root # roots))" for k
      using ih(4) s1 by auto
  qed
qed auto

lemma find_snoc: "find P (xs @ [y]) = (case find P xs of Some z \<Rightarrow> Some z | None \<Rightarrow> if P y then Some y else None)"
  by (induction xs) auto

lemma roots_by_key_lookup:
  "map_of (fold (\<lambda>root. AList.update (root_key C (ri_root root)) root) roots rows) k =
     (case find (\<lambda>root. root_key C (ri_root root) = k) (rev roots) of Some root \<Rightarrow> Some root | None \<Rightarrow> map_of rows k)"
  by (induction roots arbitrary: rows) (auto simp: find_snoc AList.update_conv' split: option.splits)

lemma roots_by_key_Some:
  assumes "map_of (roots_by_key C roots) k = Some root"
  shows "root \<in> set roots \<and> root_key C (ri_root root) = k"
  using assms by (auto simp: roots_by_key_def roots_by_key_lookup find_Some_iff split: option.splits) (metis nth_mem set_rev length_rev)

lemma roots_by_key_distinct: "distinct (map fst (roots_by_key C roots))"
proof -
  have "distinct (map fst rows) \<Longrightarrow> distinct (map fst (fold (\<lambda>root. AList.update (root_key C (ri_root root)) root) roots rows))" for rows
    by (induction roots arbitrary: rows) (auto simp: AList.distinct_update)
  then show ?thesis by (simp add: roots_by_key_def)
qed

lemma spawn_root_distinct:
  "distinct (map fst drains) \<Longrightarrow> distinct (map fst (fold (spawn_root gens) eligible drains))"
proof (induction eligible arbitrary: drains)
  case (Cons x xs)
  have "distinct (map fst (spawn_root gens x drains))"
    using Cons.prems by (cases x) (auto simp: spawn_root_def AList.distinct_update split: option.splits)
  then show ?case using Cons.IH by simp
qed simp

lemma spawn_root_fold:
  assumes "distinct (map fst eligible)" "\<forall>(k, root) \<in> set eligible. map_of gens k \<noteq> None"
  shows "map_of (fold (spawn_root gens) eligible drains) k =
    (case map_of drains k of Some drain \<Rightarrow> Some drain
     | None \<Rightarrow> map_option (\<lambda>root. \<lparr>rd_generation = the (map_of gens k), rd_identity = root_identity_of root, rd_prefix = ri_root root\<rparr>) (map_of eligible k))"
  using assms
proof (induction eligible arbitrary: drains)
  case (Cons x xs)
  obtain k' root where x: "x = (k', root)" by force
  obtain g where g: "map_of gens k' = Some g" using Cons.prems(2) x by auto
  have n: "map_of xs k' = None" using Cons.prems(1) x by (auto simp: map_of_eq_None_iff)
  show ?case using Cons.IH[of "spawn_root gens x drains"] Cons.prems x g n
    by (cases "map_of drains k'") (auto simp: spawn_root_def AList.update_conv' split: option.splits)
qed (auto split: option.splits)

text \<open>The pass over the address roots leaves exactly the advertised roots in the table and exactly one
  drain per watch-capable root; every drain speaks for the current advertisement and was started for the
  connection and route that now back its root. A drain whose root kept its connection and route is not
  restarted and keeps its generation.\<close>

lemma roots_pass_exact:
  assumes "drains_speak C drains sw" "reconcile_roots C sweep roots (drains, sw, cache) = (drains', sw', cache')"
  defines "eligible \<equiv> roots_by_key C (filter (\<lambda>root. supports_watch_directory (ri_capabilities root)) roots)"
  shows "drains_speak C drains' sw' \<and>
    (\<forall>k. generation_at sw' k \<noteq> None \<longleftrightarrow> k \<in> (\<lambda>root. root_key C (ri_root root)) ` set roots) \<and>
    (\<forall>k. map_of drains' k \<noteq> None \<longleftrightarrow> map_of eligible k \<noteq> None) \<and>
    (\<forall>k drain root. map_of drains' k = Some drain \<and> map_of eligible k = Some root \<longrightarrow> rd_identity drain = root_identity_of root) \<and>
    (\<forall>k drain root. map_of drains k = Some drain \<and> map_of eligible k = Some root \<and> rd_identity drain = root_identity_of root \<longrightarrow>
       map_of drains' k = Some drain \<and> generation_at sw' k = generation_at sw k)"
proof -
  let ?stale = "map fst (filter (stale_root eligible) drains)" and ?adv = "map ri_root roots"
  have d: "distinct (map fst drains)" using assms(1) by (simp add: drains_speak_def)
  have st: "distinct ?stale" "set ?stale \<subseteq> fst ` set drains" using d by (auto intro: distinct_map_filter)
  obtain sw1 cache1 where f1: "fold (drop_root C sweep) ?stale (drains, sw, cache) = (filter (\<lambda>(k, _). k \<notin> set ?stale) drains, sw1, cache1)"
    "\<forall>k. generation_at sw1 k = (if k \<in> set ?stale then None else generation_at sw k)"
    using drop_fold[OF assms(1) st, of sweep cache] by blast
  let ?d1 = "filter (\<lambda>(k, _). k \<notin> set ?stale) drains"
  have stale_iff: "k \<in> set ?stale \<longleftrightarrow> stale_root eligible (k, drain)" if "map_of drains k = Some drain" for k drain
    using map_of_SomeD[OF that] d by (auto simp: image_iff dest: eq_key_imp_eq_value)
  have d1: "map_of ?d1 k = (if k \<in> set ?stale then None else map_of drains k)" for k
    using map_of_filter_keys[of "\<lambda>k. k \<notin> set ?stale" drains k] by simp
  let ?ret = "retain_advertised C ?adv sw1"
  have keys: "list_ex (\<lambda>root. root_key C root = k) ?adv \<longleftrightarrow> k \<in> root_key C ` set ?adv" for k by (auto simp: list_ex_iff)
  have ret: "generation_at ?ret k = (if k \<in> root_key C ` set ?adv then generation_at sw1 k else None)" for k
    using map_of_filter_keys[of "\<lambda>k. k \<in> root_key C ` set ?adv" "sw_roots sw1" k]
    by (simp add: retain_advertised_def Let_def generation_at_def keys wake_supervisor_def)
  obtain gens sw2 where f2: "advertise_all C ?adv ?ret = (gens, sw2)" by force
  from advertise_all_fold[of "[]" ?ret C ?adv gens sw2] f2
  have al: "\<forall>k g. map_of gens k = Some g \<longrightarrow> generation_at sw2 k = Some g" "\<forall>k. map_of gens k \<noteq> None \<longleftrightarrow> k \<in> root_key C ` set ?adv"
    "\<forall>k. generation_at ?ret k \<noteq> None \<longrightarrow> generation_at sw2 k = generation_at ?ret k"
    "\<forall>k. generation_at sw2 k \<noteq> None \<longleftrightarrow> generation_at ?ret k \<noteq> None \<or> k \<in> root_key C ` set ?adv"
    by (simp_all add: advertise_all_def)
  have res: "drains' = fold (spawn_root gens) eligible ?d1" "sw' = sw2"
    using assms(2) f1(1) f2 by (simp_all add: reconcile_roots_def Let_def eligible_def)
  have el: "root \<in> set roots \<and> root_key C (ri_root root) = k" if "map_of eligible k = Some root" for k root
    using roots_by_key_Some[OF that[unfolded eligible_def]] by auto
  have ed: "distinct (map fst eligible)" unfolding eligible_def by (rule roots_by_key_distinct)
  have "map_of gens k \<noteq> None" if "(k, root) \<in> set eligible" for k root
  proof -
    have "k \<in> root_key C ` set ?adv" using el[OF map_of_is_SomeI[OF ed that]] by force
    then show ?thesis using al(2) by blast
  qed
  then have eg: "\<forall>(k, root) \<in> set eligible. map_of gens k \<noteq> None" by blast
  note sp = spawn_root_fold[OF ed eg, of ?d1]
  have same: "map_of drains' k = Some drain \<and> generation_at sw' k = generation_at sw k \<and> rd_identity drain = root_identity_of root"
    if h: "map_of drains k = Some drain" "k \<notin> set ?stale" "map_of eligible k = Some root" for k drain root
  proof -
    have "k \<in> root_key C ` set ?adv" using el[OF h(3)] by auto
    then have "generation_at ?ret k = generation_at sw k" using ret f1(2) h(2) by simp
    moreover have "generation_at sw k \<noteq> None" using assms(1) map_of_SomeD[OF h(1)] by (auto simp: drains_speak_def)
    ultimately have "generation_at sw' k = generation_at sw k" using al(3) res(2) by metis
    moreover have "rd_identity drain = root_identity_of root" using stale_iff[OF h(1)] h(2,3) by (simp add: stale_root_def)
    ultimately show ?thesis using res(1) sp[of k] d1 h by simp
  qed
  have kept: "k \<in> set ?stale" if "map_of drains k = Some drain" "map_of eligible k = None" for k drain
    using stale_iff[OF that(1)] that(2) by (simp add: stale_root_def)
  have cases: "(\<exists>root. map_of eligible k = Some root \<and> rd_identity drain = root_identity_of root \<and> k = root_key C (rd_prefix drain) \<and>
      generation_at sw' k = Some (rd_generation drain))"
    if h: "map_of drains' k = Some drain" for k drain
  proof (cases "map_of ?d1 k")
    case (Some drain0)
    then have o: "map_of drains k = Some drain0" "k \<notin> set ?stale" using d1 by (auto split: if_splits)
    moreover from this kept obtain root where r: "map_of eligible k = Some root" by (cases "map_of eligible k") auto
    moreover have "drain = drain0" using h res(1) sp[of k] Some by simp
    ultimately show ?thesis using same[OF o r] map_of_SomeD[OF o(1)] assms(1) by (auto simp: drains_speak_def)
  next
    case None
    then obtain root where r: "map_of eligible k = Some root"
      "drain = \<lparr>rd_generation = the (map_of gens k), rd_identity = root_identity_of root, rd_prefix = ri_root root\<rparr>"
      using h res(1) sp[of k] by (cases "map_of eligible k") simp_all
    then obtain g where "map_of gens k = Some g" using eg map_of_SomeD[OF r(1)] by fastforce
    then show ?thesis using r el[OF r(1)] al(1) res(2) by auto
  qed
  have dd: "distinct (map fst drains')"
    unfolding res(1) using d by (intro spawn_root_distinct distinct_map_filter)
  have "k = root_key C (rd_prefix drain) \<and> generation_at sw' k = Some (rd_generation drain)" if "(k, drain) \<in> set drains'" for k drain
    using cases[OF map_of_is_SomeI[OF dd that]] by blast
  then have speak: "drains_speak C drains' sw'" unfolding drains_speak_def using dd by blast
  have table: "generation_at sw' k \<noteq> None \<longleftrightarrow> k \<in> (\<lambda>root. root_key C (ri_root root)) ` set roots" for k
    using al(4) ret res(2) by (auto simp: image_image)
  have there: "map_of drains' k \<noteq> None" if "map_of eligible k \<noteq> None" for k
    using res(1) sp[of k] that by (cases "map_of ?d1 k") auto
  have keep: "k \<notin> set ?stale" if "map_of drains k = Some drain" "map_of eligible k = Some root" "rd_identity drain = root_identity_of root" for k drain root
    using stale_iff[OF that(1)] that by (simp add: stale_root_def)
  have here: "map_of eligible k \<noteq> None" if "map_of drains' k \<noteq> None" for k
    using that cases[of k] by (cases "map_of drains' k") auto
  have ident: "rd_identity drain = root_identity_of root" if "map_of drains' k = Some drain" "map_of eligible k = Some root" for k drain root
    using cases[OF that(1)] that(2) by auto
  have stay: "map_of drains' k = Some drain \<and> generation_at sw' k = generation_at sw k"
    if "map_of drains k = Some drain" "map_of eligible k = Some root" "rd_identity drain = root_identity_of root" for k drain root
    using same[OF that(1) keep[OF that] that(2)] by blast
  show ?thesis
  proof (intro conjI allI impI)
    show "drains_speak C drains' sw'" by (rule speak)
    show "(generation_at sw' k \<noteq> None) = (k \<in> (\<lambda>root. root_key C (ri_root root)) ` set roots)" for k by (rule table)
    show "(map_of drains' k \<noteq> None) = (map_of eligible k \<noteq> None)" for k using there[of k] here[of k] by blast
    show "map_of drains' k = Some drain \<and> map_of eligible k = Some root \<Longrightarrow> rd_identity drain = root_identity_of root" for k drain root
      using ident by blast
    fix k drain root
    assume "map_of drains k = Some drain \<and> map_of eligible k = Some root \<and> rd_identity drain = root_identity_of root"
    then have "map_of drains' k = Some drain \<and> generation_at sw' k = generation_at sw k" using stay by blast
    then show "map_of drains' k = Some drain" "generation_at sw' k = generation_at sw k" by simp_all
  qed
qed

end
