(* ===== verification/Ov_Watch_Drain.thy ===== *)
theory Ov_Watch_Drain
  imports Ov_Watch_Select_Laws
begin

text \<open>
  The drain of one watch (\<open>cache_watch_drain_loop\<close>, \<open>drain_stream\<close>, \<open>scope_drain_task\<close>,
  \<open>root_drain_task\<close>) and the manager of the address roots (\<open>manage_cache_watch_drains\<close>), of
  \<open>ovstorage-plugin-cache/src/notification_drain.rs\<close>.

  An iteration of the loop is cut at its awaits: \<open>drain_ask\<close> runs up to the call of
  \<open>watch_directory\<close>, \<open>drain_opened\<close> and \<open>drain_open_failed\<close> from its answer to the next await,
  \<open>drain_ended\<close> from the end of the stream to the sleep. Between the segments other tasks may
  change the shared state; the fields \<open>it_during_open\<close> and \<open>it_during_stream\<close> of an iteration's
  inputs are what they did. The other inputs are the readings of the clock and of the cancellation
  token, whether the layer still exists, and the answer of the backend. The flags that only debounce
  log lines are left out.
\<close>

section \<open>Backoff and the ends of streams\<close>

definition backoff_after_open_failure :: "bool \<Rightarrow> nat \<Rightarrow> nat" where
  "backoff_after_open_failure refused_root current =
     (if refused_root then DENIED_SCOPE_RETRY else min (current * 2) MAX_DRAIN_BACKOFF)"

datatype drain_end = End_Clean | End_Error | End_Cancelled

record drain_outcome =
  do_events :: nat
  do_end :: drain_end

datatype stream_end = Stream_Cancelled | Stream_Barren | Stream_Faulted | Stream_Productive

definition stream_end_of :: "drain_outcome \<Rightarrow> nat \<Rightarrow> stream_end" where
  "stream_end_of outcome uptime =
     (let barren = do_events outcome = 0 \<and> uptime < MIN_STABLE_WATCH_UPTIME in
      case do_end outcome of
        End_Cancelled \<Rightarrow> Stream_Cancelled
      | End_Clean \<Rightarrow> (if barren then Stream_Barren else Stream_Productive)
      | End_Error \<Rightarrow> (if barren then Stream_Barren else Stream_Faulted))"

fun stream_worked :: "stream_end \<Rightarrow> bool" where
  "stream_worked Stream_Faulted = True"
| "stream_worked Stream_Productive = True"
| "stream_worked Stream_Barren = False"
| "stream_worked Stream_Cancelled = False"

fun drain_backoff_after :: "nat \<Rightarrow> stream_end \<Rightarrow> nat" where
  "drain_backoff_after current Stream_Barren = min (current * 2) MAX_DRAIN_BACKOFF"
| "drain_backoff_after current Stream_Faulted = min (current * 2) MAX_DRAIN_BACKOFF"
| "drain_backoff_after current Stream_Productive = INITIAL_DRAIN_BACKOFF"
| "drain_backoff_after current Stream_Cancelled = INITIAL_DRAIN_BACKOFF"

text \<open>
  The stream is the list of items it yields. \<open>token events\<close> is the cancellation token as read before
  the item after \<open>events\<close> items, and \<open>at_end\<close> as read once the stream is over.
\<close>

fun drain_stream :: "(nat \<Rightarrow> bool) \<Rightarrow> bool \<Rightarrow> nat \<Rightarrow> 'e result list \<Rightarrow> drain_outcome" where
  "drain_stream token at_end events [] =
     (if token events \<or> at_end then \<lparr>do_events = events, do_end = End_Cancelled\<rparr>
      else \<lparr>do_events = events, do_end = End_Clean\<rparr>)"
| "drain_stream token at_end events (item # items) =
     (if token events then \<lparr>do_events = events, do_end = End_Cancelled\<rparr>
      else (case item of
              Inr _ \<Rightarrow> drain_stream token at_end (events + 1) items
            | Inl _ \<Rightarrow> \<lparr>do_events = events, do_end = End_Error\<rparr>))"

section \<open>One drain\<close>

text \<open>\<open>Role_Root generation\<close> and \<open>Role_Scope root generation\<close>; the shared state is passed along.\<close>

datatype drain_role = Role_Root nat | Role_Scope url nat

datatype drain_exit_kind = Exit_Cancelled | Exit_Refused | Exit_Unsupported | Exit_Terminal

record drain_exit =
  dx_kind :: drain_exit_kind
  dx_ever_opened :: bool

record drain_state =
  ds_backoff :: nat
  ds_charged_unavailable :: bool
  ds_ever_opened :: bool
  ds_mode :: watch_mode
  ds_signals :: scope_signals

definition drain_start :: "drain_role \<Rightarrow> scope_signals \<Rightarrow> drain_state" where
  "drain_start role signals =
     \<lparr>ds_backoff = INITIAL_DRAIN_BACKOFF, ds_charged_unavailable = False, ds_ever_opened = False,
      ds_mode = (case role of
                   Role_Root _ \<Rightarrow> Mode_Recursive
                 | Role_Scope _ _ \<Rightarrow> if sg_recursive signals then Mode_Recursive else Mode_NonRecursive),
      ds_signals = signals\<rparr>"

definition state_deny_recursive :: "url_crate \<Rightarrow> nat \<Rightarrow> drain_role \<Rightarrow> url \<Rightarrow> scoped_watch_state \<Rightarrow> bool \<times> scoped_watch_state" where
  "state_deny_recursive C now role prefx sw =
     (case role of
        Role_Root _ \<Rightarrow> (False, sw)
      | Role_Scope root generation \<Rightarrow>
          (if \<not> still_owns_scope C sw root generation prefx then (False, sw)
           else (True, scoped_deny C now prefx Mode_Recursive root generation sw)))"

definition notify_supervisor :: "drain_role \<Rightarrow> scoped_watch_state \<Rightarrow> scoped_watch_state" where
  "notify_supervisor role sw = (case role of Role_Root _ \<Rightarrow> sw | Role_Scope _ _ \<Rightarrow> wake_supervisor sw)"

definition drain_ask :: "url_crate \<Rightarrow> nat \<Rightarrow> drain_role \<Rightarrow> url \<Rightarrow> scoped_watch_state \<Rightarrow> drain_state \<Rightarrow> drain_state" where
  "drain_ask C now role prefx sw d =
     (case role of
        Role_Root _ \<Rightarrow> d
      | Role_Scope root _ \<Rightarrow>
          (if crate_as_str C root \<noteq> crate_as_str C prefx
           then d\<lparr>ds_mode := starting_mode C now (memo_owner_still_owns C sw) prefx (sw_scopes sw)\<rparr> else d))"

text \<open>The open succeeded and the drain is not cancelled: what is published before the sweep.\<close>

definition drain_opened :: "url_crate \<Rightarrow> nat \<Rightarrow> drain_role \<Rightarrow> url \<Rightarrow> drain_state \<Rightarrow> scoped_watch_state \<Rightarrow> drain_state \<times> scoped_watch_state" where
  "drain_opened C now role prefx d sw =
     (let d = d\<lparr>ds_ever_opened := True\<rparr> in
      case role of
        Role_Root generation \<Rightarrow> (d, leave_scoped_mode C prefx generation sw)
      | Role_Scope root generation \<Rightarrow>
          (d\<lparr>ds_signals := (ds_signals d)\<lparr>sg_ever_opened := True, sg_recursive := recursive (ds_mode d), sg_live := True\<rparr>\<rparr>,
           notify_supervisor role (note_scope_outcome C now root generation Outcome_Opened sw)))"

text \<open>The stream ended and the drain is not cancelled.\<close>

definition drain_ended :: "url_crate \<Rightarrow> nat \<Rightarrow> drain_role \<Rightarrow> url \<Rightarrow> drain_outcome \<Rightarrow> nat \<Rightarrow> drain_state \<Rightarrow> scoped_watch_state \<Rightarrow>
    drain_state \<times> scoped_watch_state" where
  "drain_ended C now role prefx outcome uptime d sw =
     (let stream_end = stream_end_of outcome uptime;
          d1 = d\<lparr>ds_backoff := drain_backoff_after (ds_backoff d) stream_end\<rparr>
      in case role of
           Role_Root generation \<Rightarrow> (d1, root_watch_ended C prefx generation sw)
         | Role_Scope root generation \<Rightarrow>
             (let sw1 = (if stream_end = Stream_Barren then note_scope_outcome C now root generation Outcome_Barren sw else sw)
              in if stream_worked stream_end
                 then (d1\<lparr>ds_signals := note_stream_ended now (ds_signals d)\<rparr>,
                       note_scope_outcome C now root generation Outcome_Worked sw1)
                 else (d1\<lparr>ds_signals := (ds_signals d)\<lparr>sg_live := False\<rparr>\<rparr>, sw1)))"

datatype drain_next = Next_Exit drain_exit_kind | Next_Sleep | Next_Retry

text \<open>The open failed and the drain is not cancelled.\<close>

definition drain_open_failed :: "url_crate \<Rightarrow> nat \<Rightarrow> drain_role \<Rightarrow> url \<Rightarrow> error_code \<Rightarrow> drain_state \<Rightarrow> scoped_watch_state \<Rightarrow>
    drain_next \<times> drain_state \<times> scoped_watch_state" where
  "drain_open_failed C now role prefx error d sw =
     (if error = Err_Unsupported then (Next_Exit Exit_Unsupported, d, sw)
      else if error = Err_PermissionDenied then
        (case role of
           Role_Root generation \<Rightarrow>
             (Next_Sleep, d\<lparr>ds_backoff := backoff_after_open_failure True (ds_backoff d)\<rparr>,
              enter_scoped_mode C prefx generation sw)
         | Role_Scope _ _ \<Rightarrow>
             (if ds_mode d = Mode_Recursive then
                (case state_deny_recursive C now role prefx sw of
                   (False, sw1) \<Rightarrow> (Next_Sleep, d\<lparr>ds_backoff := backoff_after_open_failure False (ds_backoff d)\<rparr>, sw1)
                 | (True, sw1) \<Rightarrow>
                     (Next_Retry, d\<lparr>ds_mode := Mode_NonRecursive, ds_signals := (ds_signals d)\<lparr>sg_recursive := False\<rparr>\<rparr>,
                      notify_supervisor role sw1))
              else (Next_Exit Exit_Refused, d, sw)))
      else if \<not> retryable error \<and> error \<noteq> Err_Cancelled then (Next_Exit Exit_Terminal, d, sw)
      else
        (let d1 = d\<lparr>ds_backoff := backoff_after_open_failure False (ds_backoff d)\<rparr> in
         if \<not> ds_charged_unavailable d \<and> \<not> ds_ever_opened d \<and> error \<noteq> Err_Cancelled then
           (case role of
              Role_Scope root generation \<Rightarrow>
                (Next_Sleep, d1\<lparr>ds_charged_unavailable := True\<rparr>,
                 note_scope_outcome C now root generation Outcome_OpenUnavailable sw)
            | Role_Root _ \<Rightarrow> (Next_Sleep, d1, sw))
         else (Next_Sleep, d1, sw)))"

section \<open>The loop\<close>

record 'e iteration =
  it_cancelled :: bool
  it_layer :: bool
  it_now :: nat
  it_open :: "'e result list result"
  it_open_cancelled :: bool
  it_during_open :: "scoped_watch_state \<Rightarrow> scoped_watch_state"
  it_opened_at :: nat
  it_during_stream :: "scoped_watch_state \<Rightarrow> scoped_watch_state"
  it_token :: "nat \<Rightarrow> bool"
  it_end_cancelled :: bool
  it_uptime :: nat
  it_ended_at :: nat
  it_sleep_cancelled :: bool

type_synonym 'c drain_world = "drain_state \<times> scoped_watch_state \<times> 'c"

definition drain_iteration :: "url_crate \<Rightarrow> (url \<Rightarrow> 'c \<Rightarrow> 'c) \<Rightarrow> drain_role \<Rightarrow> url \<Rightarrow> 'e iteration \<Rightarrow> 'c drain_world \<Rightarrow>
    drain_next \<times> 'c drain_world" where
  "drain_iteration C sweep role prefx it = (\<lambda>(d, sw, cache).
     (if it_cancelled it then (Next_Exit Exit_Cancelled, d, sw, cache)
      else
        (let d = drain_ask C (it_now it) role prefx sw d in
         if \<not> it_layer it then (Next_Exit Exit_Cancelled, d, sw, cache)
         else
           (let sw = it_during_open it sw in
            if it_open_cancelled it then (Next_Exit Exit_Cancelled, d, sw, cache)
            else
              (case it_open it of
                 Inr stream \<Rightarrow>
                   (let (d, sw) = drain_opened C (it_opened_at it) role prefx d sw;
                        cache = sweep prefx cache;
                        outcome = drain_stream (it_token it) (it_end_cancelled it) 0 stream;
                        sw = it_during_stream it sw
                    in if do_end outcome = End_Cancelled \<or> it_end_cancelled it then (Next_Exit Exit_Cancelled, d, sw, cache)
                       else
                         (let (d, sw) = drain_ended C (it_ended_at it) role prefx outcome (it_uptime it) d sw in
                          if it_sleep_cancelled it then (Next_Exit Exit_Cancelled, d, sw, cache)
                          else (Next_Sleep, d, sw, cache)))
               | Inl error \<Rightarrow>
                   (let (next, d, sw) = drain_open_failed C (it_opened_at it) role prefx error d sw in
                    if next = Next_Sleep \<and> it_sleep_cancelled it then (Next_Exit Exit_Cancelled, d, sw, cache)
                    else (next, d, sw, cache)))))))"

text \<open>The loop over the inputs of its iterations; \<open>None\<close> when it is still running after the last one.\<close>

fun cache_watch_drain_loop :: "url_crate \<Rightarrow> (url \<Rightarrow> 'c \<Rightarrow> 'c) \<Rightarrow> drain_role \<Rightarrow> url \<Rightarrow> 'e iteration list \<Rightarrow> 'c drain_world \<Rightarrow>
    drain_exit option \<times> 'c drain_world" where
  "cache_watch_drain_loop C sweep role prefx [] w = (None, w)"
| "cache_watch_drain_loop C sweep role prefx (it # its) w =
     (case drain_iteration C sweep role prefx it w of
        (Next_Exit kind, w') \<Rightarrow> (Some \<lparr>dx_kind = kind, dx_ever_opened = ds_ever_opened (fst w')\<rparr>, w')
      | (Next_Sleep, w') \<Rightarrow> cache_watch_drain_loop C sweep role prefx its w'
      | (Next_Retry, w') \<Rightarrow> cache_watch_drain_loop C sweep role prefx its w')"

text \<open>What the task of a scope does when its loop has ended, and that of a root.\<close>

definition scope_drain_finish :: "url_crate \<Rightarrow> (url \<Rightarrow> 'c \<Rightarrow> 'c) \<Rightarrow> nat \<Rightarrow> url \<Rightarrow> nat \<Rightarrow> url \<Rightarrow> drain_exit \<Rightarrow>
    scoped_watch_state \<times> 'c \<Rightarrow> scoped_watch_state \<times> 'c" where
  "scope_drain_finish C sweep now root generation scope exit = (\<lambda>(sw, cache).
     (if dx_kind exit = Exit_Cancelled then (sw, cache)
      else
        (let sw1 = (if still_owns_scope C sw root generation scope
                    then note_scope_outcome C now root generation Outcome_Failed
                           (scoped_deny C now scope Mode_NonRecursive root generation sw)
                    else sw);
             cache1 = (if dx_ever_opened exit then sweep scope cache else cache)
         in (wake_supervisor sw1, cache1))))"

definition root_drain_finish :: "url_crate \<Rightarrow> url \<Rightarrow> nat \<Rightarrow> drain_exit \<Rightarrow> scoped_watch_state \<Rightarrow> scoped_watch_state" where
  "root_drain_finish C prefx generation exit sw =
     (if dx_kind exit = Exit_Unsupported then root_unwatchable C prefx generation sw else sw)"

section \<open>The manager of the roots\<close>

datatype update_source = Source_Live | Source_Resubscribe | Source_Frozen

record 'c drain_manager =
  mg_roots :: "(string \<times> root_info) list"
  mg_drains :: "(string \<times> root_drain) list"
  mg_scoped :: scoped_watch_state
  mg_cache :: 'c
  mg_backoff :: nat
  mg_discovered_once :: bool
  mg_source :: "update_source option"

text \<open>
  \<open>mg_source = None\<close> when the task has returned. An answer of \<open>list_address_roots\<close> is a snapshot and
  whether an update stream comes with it.
\<close>

datatype manager_event =
    Ev_Shutdown
  | Ev_Snapshot "root_info list" bool
  | Ev_Discovery_Failed error_code
  | Ev_Change root_info_change
  | Ev_Stream_Over

definition manager_stop :: "'c drain_manager \<Rightarrow> 'c drain_manager" where
  "manager_stop m = m\<lparr>mg_drains := [], mg_source := None\<rparr>"

definition manager_reconcile :: "url_crate \<Rightarrow> (url \<Rightarrow> 'c \<Rightarrow> 'c) \<Rightarrow> 'c drain_manager \<Rightarrow> 'c drain_manager" where
  "manager_reconcile C sweep m =
     (let (drains, scoped, cache) = reconcile_roots C sweep (map snd (mg_roots m)) (mg_drains m, mg_scoped m, mg_cache m)
      in m\<lparr>mg_drains := drains, mg_scoped := scoped, mg_cache := cache\<rparr>)"

definition manager_snapshot :: "url_crate \<Rightarrow> (url \<Rightarrow> 'c \<Rightarrow> 'c) \<Rightarrow> root_info list \<Rightarrow> bool \<Rightarrow> 'c drain_manager \<Rightarrow> 'c drain_manager" where
  "manager_snapshot C sweep snapshot updates m =
     (manager_reconcile C sweep (m\<lparr>mg_discovered_once := True, mg_roots := roots_by_key C snapshot\<rparr>))
       \<lparr>mg_source := Some (if updates then Source_Live else Source_Frozen)\<rparr>"

text \<open>The first call of \<open>list_address_roots\<close>.\<close>

fun manager_start :: "url_crate \<Rightarrow> (url \<Rightarrow> 'c \<Rightarrow> 'c) \<Rightarrow> scoped_watch_state \<Rightarrow> 'c \<Rightarrow> manager_event \<Rightarrow> 'c drain_manager" where
  "manager_start C sweep sw cache event =
     (let m = \<lparr>mg_roots = [], mg_drains = [], mg_scoped = sw, mg_cache = cache, mg_backoff = INITIAL_ROOT_UPDATE_BACKOFF,
               mg_discovered_once = False, mg_source = None\<rparr>
      in case event of
           Ev_Snapshot snapshot updates \<Rightarrow> manager_snapshot C sweep snapshot updates m
         | Ev_Discovery_Failed error \<Rightarrow>
             (if error = Err_Cancelled then m
              else if \<not> retryable error then m
              else m\<lparr>mg_source := Some Source_Resubscribe\<rparr>)
         | _ \<Rightarrow> m)"

text \<open>One turn of the loop; an event that the current source does not wait for changes nothing.\<close>

definition manager_turn :: "url_crate \<Rightarrow> (url \<Rightarrow> 'c \<Rightarrow> 'c) \<Rightarrow> manager_event \<Rightarrow> 'c drain_manager \<Rightarrow> 'c drain_manager" where
  "manager_turn C sweep event m =
     (case mg_source m of
        None \<Rightarrow> m
      | Some Source_Frozen \<Rightarrow> (if event = Ev_Shutdown then manager_stop m else m)
      | Some Source_Resubscribe \<Rightarrow>
          (let m1 = m\<lparr>mg_backoff := min (mg_backoff m * 2) MAX_ROOT_UPDATE_BACKOFF\<rparr> in
           case event of
             Ev_Shutdown \<Rightarrow> manager_stop m1
           | Ev_Snapshot snapshot updates \<Rightarrow> manager_snapshot C sweep snapshot updates m1
           | Ev_Discovery_Failed error \<Rightarrow>
               (if error = Err_Cancelled then m1
                else if \<not> mg_discovered_once m1 \<and> \<not> retryable error then manager_stop m1
                else m1)
           | _ \<Rightarrow> m)
      | Some Source_Live \<Rightarrow>
          (case event of
             Ev_Shutdown \<Rightarrow> manager_stop m
           | Ev_Change update \<Rightarrow>
               (let m1 = m\<lparr>mg_backoff := INITIAL_ROOT_UPDATE_BACKOFF\<rparr> in
                if is_resync_nudge update then m1\<lparr>mg_source := Some Source_Resubscribe\<rparr>
                else manager_reconcile C sweep (m1\<lparr>mg_roots := apply_keyed_change C update (mg_roots m1)\<rparr>))
           | Ev_Stream_Over \<Rightarrow> m\<lparr>mg_source := Some Source_Resubscribe\<rparr>
           | _ \<Rightarrow> m))"

section \<open>The state a cache layer embeds\<close>

text \<open>\<open>CacheWatchState\<close>: its shutdown token, the tasks it has started and the shared state. \<open>start\<close> finds a
  runtime or not; dropping the state cancels before it aborts.\<close>

datatype watch_task = Task_Manager | Task_Supervisor

record cache_watch_state =
  cw_shutdown :: bool
  cw_handles :: "watch_task list"
  cw_scoped :: scoped_watch_state

definition cache_watch_new :: "bool \<Rightarrow> cache_watch_state" where
  "cache_watch_new enabled = \<lparr>cw_shutdown = False, cw_handles = [], cw_scoped = scoped_new (watch_scopes_new enabled)\<rparr>"

definition cache_watch_note_cached :: "url_crate \<Rightarrow> nat \<Rightarrow> url \<Rightarrow> cache_watch_state \<Rightarrow> cache_watch_state" where
  "cache_watch_note_cached C now addr cw = cw\<lparr>cw_scoped := scoped_note_cached C now addr (cw_scoped cw)\<rparr>"

definition watches :: "cache_watch_state \<Rightarrow> bool" where
  "watches cw = ws_enabled (sw_scopes (cw_scoped cw))"

definition cache_watch_start :: "bool \<Rightarrow> bool \<Rightarrow> cache_watch_state \<Rightarrow> cache_watch_state" where
  "cache_watch_start enabled runtime cw =
     (if \<not> enabled then cw
      else if \<not> runtime then cw
      else cw\<lparr>cw_handles := [Task_Manager, Task_Supervisor]\<rparr>)"

definition cache_watch_drop :: "cache_watch_state \<Rightarrow> cache_watch_state" where
  "cache_watch_drop cw = cw\<lparr>cw_shutdown := True, cw_handles := []\<rparr>"

end
