(* ===== verification/Ov_Watch_Drain_Laws.thy ===== *)
theory Ov_Watch_Drain_Laws
  imports Ov_Watch_Drain Ov_Meta_Layer_Laws
begin

text \<open>
  What one drain and the manager of the roots guarantee: bounded waits, one charge per outage, the
  narrowing of a refused watch, the silence of a drain whose advertisement is gone, and the agreement
  of the root table and the root drains with the discovered roots. The last section composes the
  supervisor with the metadata cache.
\<close>

lemma limits [simp]: "INITIAL_DRAIN_BACKOFF = 500000000" "MAX_DRAIN_BACKOFF = 60000000000"
  "INITIAL_ROOT_UPDATE_BACKOFF = 50000000" "MAX_ROOT_UPDATE_BACKOFF = 5000000000"
  by (simp_all add: INITIAL_DRAIN_BACKOFF_def MAX_DRAIN_BACKOFF_def INITIAL_ROOT_UPDATE_BACKOFF_def
      MAX_ROOT_UPDATE_BACKOFF_def from_millis_def from_secs_def)

lemma retry_interval: "DENIED_SCOPE_RETRY = 300000000000"
  by (simp add: DENIED_SCOPE_RETRY_def from_secs_def)

section \<open>What every iteration keeps\<close>

text \<open>A relation between a drain and the shared state that every segment keeps is kept by the loop.\<close>

definition segments_keep :: "url_crate \<Rightarrow> drain_role \<Rightarrow> url \<Rightarrow> (drain_state \<Rightarrow> scoped_watch_state \<Rightarrow> bool) \<Rightarrow> bool" where
  "segments_keep C role prefx R \<longleftrightarrow>
     (\<forall>now d sw. R d sw \<longrightarrow> R (drain_ask C now role prefx sw d) sw) \<and>
     (\<forall>now d sw d' sw'. R d sw \<and> drain_opened C now role prefx d sw = (d', sw') \<longrightarrow> R d' sw') \<and>
     (\<forall>now outcome uptime d sw d' sw'. R d sw \<and> drain_ended C now role prefx outcome uptime d sw = (d', sw') \<longrightarrow> R d' sw') \<and>
     (\<forall>now error next d sw d' sw'. R d sw \<and> drain_open_failed C now role prefx error d sw = (next, d', sw') \<longrightarrow> R d' sw')"

definition others_keep :: "(drain_state \<Rightarrow> scoped_watch_state \<Rightarrow> bool) \<Rightarrow> 'e iteration \<Rightarrow> bool" where
  "others_keep R it \<longleftrightarrow> (\<forall>d sw. R d sw \<longrightarrow> R d (it_during_open it sw) \<and> R d (it_during_stream it sw))"

lemma segments_ask:
  assumes "segments_keep C role prefx R" "R d sw"
  shows "R (drain_ask C now role prefx sw d) sw"
proof -
  have "\<forall>now d sw. R d sw \<longrightarrow> R (drain_ask C now role prefx sw d) sw" using assms(1) unfolding segments_keep_def by (rule conjunct1)
  then show ?thesis using assms(2) by iprover
qed

lemma iteration_keeps:
  assumes "segments_keep C role prefx R" "others_keep R it" "R d sw"
    "drain_iteration C sweep role prefx it (d, sw, cache) = (next, d', sw', cache')"
  shows "R d' sw'"
proof -
  let ?d = "drain_ask C (it_now it) role prefx sw d" and ?sw = "it_during_open it sw"
  have r0: "R ?d sw" by (rule segments_ask[OF assms(1,3)])
  have r1: "R ?d ?sw" using r0 assms(2) unfolding others_keep_def by blast
  show ?thesis
  proof (cases "it_open it")
    case (Inr stream)
    obtain d2 sw2 where o: "drain_opened C (it_opened_at it) role prefx ?d ?sw = (d2, sw2)" by force
    have "R d2 sw2" using assms(1) r1 o unfolding segments_keep_def by blast
    then have r2: "R d2 (it_during_stream it sw2)" using assms(2) unfolding others_keep_def by blast
    obtain d3 sw3 where e: "drain_ended C (it_ended_at it) role prefx (drain_stream (it_token it) (it_end_cancelled it) 0 stream)
        (it_uptime it) d2 (it_during_stream it sw2) = (d3, sw3)" by force
    have "R d3 sw3" using assms(1) r2 e unfolding segments_keep_def by blast
    then show ?thesis using assms(3,4) r0 r1 r2 Inr o e by (auto simp: drain_iteration_def Let_def split: if_splits)
  next
    case (Inl error)
    obtain n d3 sw3 where f: "drain_open_failed C (it_opened_at it) role prefx error ?d ?sw = (n, d3, sw3)" by (metis prod_cases3)
    have "R d3 sw3" using assms(1) r1 f unfolding segments_keep_def by blast
    then show ?thesis using assms(3,4) r0 r1 f Inl by (auto simp: drain_iteration_def Let_def split: if_splits)
  qed
qed

lemma loop_keeps:
  assumes "segments_keep C role prefx R" "\<forall>it \<in> set its. others_keep R it" "R d sw"
    "cache_watch_drain_loop C sweep role prefx its (d, sw, cache) = (exit, d', sw', cache')"
  shows "R d' sw'"
  using assms(2-)
proof (induction its arbitrary: d sw cache)
  case (Cons it its)
  obtain next1 d1 sw1 cache1 where i: "drain_iteration C sweep role prefx it (d, sw, cache) = (next1, d1, sw1, cache1)"
    by (metis prod_cases4)
  have "R d1 sw1" using iteration_keeps[OF assms(1) _ Cons.prems(2) i] Cons.prems(1) by simp
  then show ?case using Cons.IH[of d1 sw1 cache1] Cons.prems(1,3) i by (auto split: drain_next.splits)
qed simp

section \<open>Waits\<close>

definition longest_wait :: "drain_role \<Rightarrow> nat" where
  "longest_wait role = (case role of Role_Root _ \<Rightarrow> DENIED_SCOPE_RETRY | Role_Scope _ _ \<Rightarrow> MAX_DRAIN_BACKOFF)"

definition wait_ok :: "drain_role \<Rightarrow> drain_state \<Rightarrow> bool" where
  "wait_ok role d \<longleftrightarrow> INITIAL_DRAIN_BACKOFF \<le> ds_backoff d \<and> ds_backoff d \<le> longest_wait role"

lemma ask_wait: "wait_ok role (drain_ask C now role prefx sw d) = wait_ok role d"
  by (simp add: drain_ask_def wait_ok_def split: drain_role.splits)

lemma opened_wait: "drain_opened C now role prefx d sw = (d', sw') \<Longrightarrow> wait_ok role d' = wait_ok role d"
  by (auto simp: drain_opened_def Let_def wait_ok_def split: drain_role.splits)

lemma ended_wait:
  assumes "drain_ended C now role prefx outcome uptime d sw = (d', sw')" "wait_ok role d"
  shows "wait_ok role d'"
proof -
  have "ds_backoff d' = drain_backoff_after (ds_backoff d) (stream_end_of outcome uptime)"
    using assms(1) by (auto simp: drain_ended_def Let_def split: drain_role.splits if_splits)
  then show ?thesis using assms(2)
    by (cases "stream_end_of outcome uptime") (auto simp: wait_ok_def longest_wait_def retry_interval split: drain_role.splits)
qed

lemma failed_wait:
  assumes "drain_open_failed C now role prefx error d sw = (next, d', sw')" "wait_ok role d"
  shows "wait_ok role d'"
  using assms
  by (auto simp: drain_open_failed_def Let_def wait_ok_def longest_wait_def retry_interval backoff_after_open_failure_def
      split: drain_role.splits if_splits prod.splits bool.splits)

lemma wait_segments: "segments_keep C role prefx (\<lambda>d sw. wait_ok role d)"
  unfolding segments_keep_def using ask_wait opened_wait ended_wait failed_wait by metis

section \<open>A drain whose advertisement is gone\<close>

definition role_key :: "url_crate \<Rightarrow> drain_role \<Rightarrow> url \<Rightarrow> string" where
  "role_key C role prefx = (case role of Role_Root _ \<Rightarrow> root_key C prefx | Role_Scope root _ \<Rightarrow> root_key C root)"

definition role_generation :: "drain_role \<Rightarrow> nat" where
  "role_generation role = (case role of Role_Root generation \<Rightarrow> generation | Role_Scope _ generation \<Rightarrow> generation)"

definition quiet :: "scoped_watch_state \<Rightarrow> scoped_watch_state \<Rightarrow> bool" where
  "quiet sw sw' \<longleftrightarrow> sw' = sw \<or> sw' = wake_supervisor sw"

lemma stale_no_owner: "generation_at sw (root_key C root) \<noteq> Some g \<Longrightarrow> \<not> still_owns_scope C sw root g scope"
  by (auto simp: still_owns_scope_def generation_at_def split: option.splits)

lemma stale_opened:
  assumes "generation_at sw (role_key C role prefx) \<noteq> Some (role_generation role)" "drain_opened C now role prefx d sw = (d', sw')"
  shows "quiet sw sw'"
  using assms by (auto simp: drain_opened_def Let_def quiet_def role_key_def role_generation_def notify_supervisor_def leaves.stale outcomes.stale
      split: drain_role.splits)

lemma stale_ended:
  assumes "generation_at sw (role_key C role prefx) \<noteq> Some (role_generation role)"
    "drain_ended C now role prefx outcome uptime d sw = (d', sw')"
  shows "sw' = sw"
  using assms by (auto simp: drain_ended_def Let_def role_key_def role_generation_def ends.stale outcomes.stale
      split: drain_role.splits if_splits)

lemma stale_failed:
  assumes "generation_at sw (role_key C role prefx) \<noteq> Some (role_generation role)"
    "drain_open_failed C now role prefx error d sw = (next, d', sw')"
  shows "sw' = sw"
  using assms stale_no_owner
  by (auto simp: drain_open_failed_def Let_def role_key_def role_generation_def enters.stale outcomes.stale state_deny_recursive_def
      split: drain_role.splits if_splits)

lemma stale_segments:
  assumes "\<And>sw. P sw \<Longrightarrow> P (wake_supervisor sw)"
    "\<And>sw. P sw \<Longrightarrow> generation_at sw (role_key C role prefx) \<noteq> Some (role_generation role)"
  shows "segments_keep C role prefx (\<lambda>d sw. P sw)"
  unfolding segments_keep_def
proof (intro conjI allI impI; (elim conjE)?)
  show "P sw'" if "P sw" "drain_opened C now role prefx d sw = (d', sw')" for now d sw d' sw'
    using stale_opened[OF assms(2)[OF that(1)] that(2)] assms(1) that(1) by (auto simp: quiet_def)
  show "P sw'" if "P sw" "drain_ended C now role prefx outcome uptime d sw = (d', sw')" for now outcome uptime d sw d' sw'
    using stale_ended[OF assms(2)[OF that(1)] that(2)] that(1) by simp
  show "P sw'" if "P sw" "drain_open_failed C now role prefx error d sw = (next, d', sw')" for now error "next" d sw d' sw'
    using stale_failed[OF assms(2)[OF that(1)] that(2)] that(1) by simp
qed

section \<open>Properties of a drain\<close>

text \<open>Whatever the backend answers, a drain waits at least half a second and never longer than a minute
  between two attempts on a directory, and never longer than five minutes on a root.\<close>

lemma drain_waits_bounded:
  assumes "cache_watch_drain_loop C sweep role prefx its (drain_start role signals, sw, cache) = (exit, d, sw', cache')"
  shows "from_millis 500 \<le> ds_backoff d \<and>
    ds_backoff d \<le> (case role of Role_Root _ \<Rightarrow> from_secs 300 | Role_Scope _ _ \<Rightarrow> from_secs 60)"
proof -
  have "wait_ok role (drain_start role signals)"
    by (auto simp: wait_ok_def drain_start_def longest_wait_def retry_interval split: drain_role.splits)
  from loop_keeps[OF wait_segments _ this assms] show ?thesis
    by (auto simp: others_keep_def wait_ok_def longest_wait_def retry_interval from_millis_def from_secs_def split: drain_role.splits)
qed

text \<open>A drain whose root advertisement is gone changes nothing but the wake-up flag: every property of
  the shared state that the other tasks keep, that does not depend on that flag and that implies that
  the drain's generation is not current is kept through the whole loop, whatever the backend answers,
  and through the end of the task.\<close>

lemma retired_drain_changes_nothing:
  assumes "\<And>sw. P sw \<Longrightarrow> P (wake_supervisor sw)" "\<And>sw. P sw \<Longrightarrow> generation_at sw (root_key C root) \<noteq> Some generation"
    "\<forall>it \<in> set its. \<forall>sw. P sw \<longrightarrow> P (it_during_open it sw) \<and> P (it_during_stream it sw)" "P sw"
    "cache_watch_drain_loop C sweep (Role_Scope root generation) scope its (d, sw, cache) = (Some exit, d', sw', cache')"
  shows "P sw' \<and> P (fst (scope_drain_finish C sweep now root generation scope exit (sw', cache')))"
proof -
  have "segments_keep C (Role_Scope root generation) scope (\<lambda>d sw. P sw)"
    using assms(1,2) by (intro stale_segments) (simp_all add: role_key_def role_generation_def)
  from loop_keeps[OF this _ assms(4,5)] assms(3) have p: "P sw'" by (simp add: others_keep_def)
  moreover have "\<not> still_owns_scope C sw' root generation scope" using assms(2)[OF p] by (rule stale_no_owner)
  ultimately show ?thesis using assms(1) by (simp add: scope_drain_finish_def Let_def)
qed

text \<open>An iteration that nobody interrupts and in which no other task runs.\<close>

definition undisturbed_iteration :: "'e iteration \<Rightarrow> bool" where
  "undisturbed_iteration it \<longleftrightarrow> \<not> it_cancelled it \<and> it_layer it \<and> \<not> it_open_cancelled it \<and> \<not> it_sleep_cancelled it \<and>
     it_during_open it = id \<and> it_during_stream it = id"

lemma failed_iteration:
  assumes "undisturbed_iteration it" "it_open it = Inl error"
  shows "drain_iteration C sweep role prefx it (d, sw, cache) =
    (case drain_open_failed C (it_opened_at it) role prefx error (drain_ask C (it_now it) role prefx sw d) sw of
       (next, d', sw') \<Rightarrow> (next, d', sw', cache))"
  using assms by (simp add: drain_iteration_def undisturbed_iteration_def Let_def split: prod.splits)

text \<open>An outage costs one probe per drain, however often the open is retried: while every open of a scope
  that never opened fails with retryable errors, the drain keeps retrying and the root's budget is
  charged once, at the first failure.\<close>

lemma outage_charged_once:
  assumes "\<forall>it \<in> set (it # its). undisturbed_iteration it \<and> (\<exists>error. it_open it = Inl error \<and> retryable error)"
    "\<not> ds_ever_opened d" "\<not> ds_charged_unavailable d"
  shows "\<exists>d'. cache_watch_drain_loop C sweep (Role_Scope root generation) scope (it # its) (d, sw, cache) =
    (None, d', note_scope_outcome C (it_opened_at it) root generation Outcome_OpenUnavailable sw, cache)"
proof -
  let ?role = "Role_Scope root generation"
  have ask: "ds_ever_opened (drain_ask C now ?role scope sw d) = ds_ever_opened d"
    "ds_charged_unavailable (drain_ask C now ?role scope sw d) = ds_charged_unavailable d" for now sw d
    by (simp_all add: drain_ask_def)
  have codes: "retryable error \<Longrightarrow> error \<noteq> Err_Unsupported \<and> error \<noteq> Err_PermissionDenied \<and> error \<noteq> Err_Cancelled" for error
    by (auto simp: retryable_iff)
  have again: "\<exists>d'. cache_watch_drain_loop C sweep ?role scope its (d, sw, cache) = (None, d', sw, cache)"
    if "\<forall>it \<in> set its. undisturbed_iteration it \<and> (\<exists>error. it_open it = Inl error \<and> retryable error)" "ds_charged_unavailable d" for its d sw
    using that
  proof (induction its arbitrary: d)
    case (Cons it its)
    obtain error where e: "undisturbed_iteration it" "it_open it = Inl error" "retryable error" using Cons.prems(1) by auto
    let ?d = "(drain_ask C (it_now it) ?role scope sw d)"
    let ?d1 = "?d\<lparr>ds_backoff := backoff_after_open_failure False (ds_backoff ?d)\<rparr>"
    have "drain_iteration C sweep ?role scope it (d, sw, cache) = (Next_Sleep, ?d1, sw, cache)"
      using codes[OF e(3)] Cons.prems(2) e(3) by (simp add: failed_iteration[OF e(1,2)] drain_open_failed_def ask Let_def)
    moreover have "ds_charged_unavailable ?d1" using Cons.prems(2) by (simp add: ask)
    ultimately show ?case using Cons.IH[of ?d1] Cons.prems(1) by simp
  qed simp
  obtain error where e: "undisturbed_iteration it" "it_open it = Inl error" "retryable error" using assms(1) by auto
  let ?d = "(drain_ask C (it_now it) ?role scope sw d)"
  let ?d1 = "?d\<lparr>ds_backoff := backoff_after_open_failure False (ds_backoff ?d), ds_charged_unavailable := True\<rparr>"
  have "drain_iteration C sweep ?role scope it (d, sw, cache) =
      (Next_Sleep, ?d1, note_scope_outcome C (it_opened_at it) root generation Outcome_OpenUnavailable sw, cache)"
    using codes[OF e(3)] assms(2,3) e(3) by (simp add: failed_iteration[OF e(1,2)] drain_open_failed_def ask Let_def)
  then show ?thesis using again[of its ?d1] assms(1) by simp
qed

lemma deny_lookup:
  "map_of (st_denied (ws_table (deny C now scope mode root generation ws))) (crate_as_str C scope) =
     Some \<lparr>dn_at = now, dn_fully = \<not> recursive mode, dn_root = root, dn_generation = generation\<rparr>"
  by (simp add: deny_def Let_def AList.update_conv')

lemma owns_scopes [simp]: "still_owns_scope C (sw\<lparr>sw_scopes := ws\<rparr>) root generation scope = still_owns_scope C sw root generation scope"
  by (simp add: still_owns_scope_def split: option.splits)

lemma owns_wake [simp]: "still_owns_scope C (wake_supervisor sw) root generation scope = still_owns_scope C sw root generation scope"
  by (simp add: still_owns_scope_def split: option.splits)

text \<open>An outcome leaves the owner of a scope and the registry alone.\<close>

lemma outcome_scopes: "sw_scopes (note_scope_outcome C now root generation outcome sw) = sw_scopes sw"
  by (auto simp: note_scope_outcome_def with_current_def set_root_watch_def split: option.splits)

lemma update_same_view:
  assumes "map_of xs k = Some e" "f e' = f e"
  shows "map (\<lambda>(k, v). (k, f v)) (AList.update k e' xs) = map (\<lambda>(k, v). (k, f v)) xs"
  using assms by (induction xs) auto

lemma outcome_owner:
  "still_owns_scope C (note_scope_outcome C now root generation outcome sw) root' generation' scope =
   still_owns_scope C sw root' generation' scope"
proof -
  let ?sw = "note_scope_outcome C now root generation outcome sw"
  let ?f = "\<lambda>entry. (sr_root entry, sr_generation entry)"
  have "map (\<lambda>(k, v). (k, ?f v)) (sw_roots ?sw) = map (\<lambda>(k, v). (k, ?f v)) (sw_roots sw)"
    using update_same_view[of "sw_roots sw" "root_key C root" _ ?f]
    by (auto simp: note_scope_outcome_def with_current_def set_root_watch_def split: option.splits)
  moreover have "still_owns_scope C s root' generation' scope =
     (case map_of (map (\<lambda>(k, v). (k, ?f v)) (sw_roots s)) (root_key C root') of None \<Rightarrow> False
      | Some (r, g) \<Rightarrow> g = generation' \<and> \<not> list_ex (\<lambda>(_, r, g). \<not> same_node r root' \<and> is_ancestor_or_self r scope \<and> node_rank root' < node_rank r)
          (map (\<lambda>(k, v). (k, ?f v)) (sw_roots s)))" for s
    by (auto simp: still_owns_scope_def map_of_map list_ex_iff split: option.splits)
  ultimately show ?thesis by (simp only:)
qed

text \<open>A directory whose watch is refused: the drain narrows to the immediate children once, without
  waiting, and gives up when that is refused too within the retry interval. Its root is charged one
  failure, and the directory is no candidate until the interval is over.\<close>

lemma refused_directory_is_withheld:
  assumes "undisturbed_iteration it1" "undisturbed_iteration it2" "it_open it1 = Inl Err_PermissionDenied" "it_open it2 = Inl Err_PermissionDenied"
    "crate_as_str C root \<noteq> crate_as_str C scope" "still_owns_scope C sw root generation scope"
    "starting_mode C (it_now it1) (memo_owner_still_owns C sw) scope (sw_scopes sw) = Mode_Recursive"
    "it_now it2 < it_opened_at it1 + DENIED_SCOPE_RETRY" "done \<le> now" "now < done + DENIED_SCOPE_RETRY"
  shows "\<exists>exit d' sw1. cache_watch_drain_loop C sweep (Role_Scope root generation) scope [it1, it2] (d, sw, cache) = (Some exit, d', sw1, cache) \<and>
    dx_kind exit = Exit_Refused \<and>
    (let sw2 = fst (scope_drain_finish C sweep done root generation scope exit (sw1, cache)) in
     scope \<notin> set (candidates C now (memo_owner_still_owns C sw2) (sw_scopes sw2)) \<and>
     sw_roots sw2 = sw_roots (note_scope_outcome C done root generation Outcome_Failed sw))"
proof -
  let ?role = "Role_Scope root generation"
  let ?d = "drain_ask C (it_now it1) ?role scope sw d"
  let ?d1 = "?d\<lparr>ds_mode := Mode_NonRecursive, ds_signals := (ds_signals ?d)\<lparr>sg_recursive := False\<rparr>\<rparr>"
  let ?sw1 = "wake_supervisor (scoped_deny C (it_opened_at it1) scope Mode_Recursive root generation sw)"
  have m: "ds_mode ?d = Mode_Recursive" using assms(5,7) by (simp add: drain_ask_def)
  have i1: "drain_iteration C sweep ?role scope it1 (d, sw, cache) = (Next_Retry, ?d1, ?sw1, cache)"
    using m assms(6) by (simp add: failed_iteration[OF assms(1,3)] drain_open_failed_def state_deny_recursive_def notify_supervisor_def)
  have owns1: "still_owns_scope C ?sw1 root generation scope" using assms(6) by (simp add: scoped_deny_def)
  have early: "it_now it2 - it_opened_at it1 < DENIED_SCOPE_RETRY" using assms(8) by (simp add: retry_interval)
  have "starting_mode C (it_now it2) (memo_owner_still_owns C ?sw1) scope (sw_scopes ?sw1) = Mode_NonRecursive"
    using owns1 early
    by (simp add: starting_mode_def memo_owner_still_owns_def) (simp add: scoped_deny_def wake_supervisor_def notify_one_def deny_lookup)
  then have m2: "ds_mode (drain_ask C (it_now it2) ?role scope ?sw1 ?d1) = Mode_NonRecursive" using assms(5) by (simp add: drain_ask_def)
  let ?d2 = "drain_ask C (it_now it2) ?role scope ?sw1 ?d1"
  have i2: "drain_iteration C sweep ?role scope it2 (?d1, ?sw1, cache) = (Next_Exit Exit_Refused, ?d2, ?sw1, cache)"
    using m2 by (simp add: failed_iteration[OF assms(2,4)] drain_open_failed_def)
  let ?exit = "\<lparr>dx_kind = Exit_Refused, dx_ever_opened = ds_ever_opened ?d2\<rparr>"
  let ?sw2 = "wake_supervisor (note_scope_outcome C done root generation Outcome_Failed
      (scoped_deny C done scope Mode_NonRecursive root generation ?sw1))"
  have fin: "fst (scope_drain_finish C sweep done root generation scope ?exit (sw1, cache)) =
      wake_supervisor (note_scope_outcome C done root generation Outcome_Failed (scoped_deny C done scope Mode_NonRecursive root generation sw1))"
    if "still_owns_scope C sw1 root generation scope" for sw1
    using that by (simp add: scope_drain_finish_def Let_def)
  have reg: "sw_scopes ?sw2 = notify_one (deny C done scope Mode_NonRecursive root generation (sw_scopes ?sw1))"
    by (simp add: wake_supervisor_def outcome_scopes scoped_deny_def)
  have owns2: "still_owns_scope C ?sw2 root generation scope"
    using owns1 by (simp add: outcome_owner scoped_deny_def)
  have "withheld C now (memo_owner_still_owns C ?sw2) (sw_scopes ?sw2) scope"
    using owns2 assms(9,10) unfolding withheld_def memo_owner_still_owns_def reg
    by (simp add: notify_one_def deny_lookup recursive_def)
  then have "scope \<notin> set (candidates C now (memo_owner_still_owns C ?sw2) (sw_scopes ?sw2))"
    by (auto simp: candidates_def Let_def)
  moreover have "sw_roots ?sw2 = sw_roots (note_scope_outcome C done root generation Outcome_Failed sw)"
    by (auto simp: note_scope_outcome_def with_current_def set_root_watch_def scoped_deny_def wake_supervisor_def split: option.splits)
  ultimately show ?thesis using i1 i2 fin[OF owns1] by (intro exI[of _ ?exit] exI[of _ ?d2] exI[of _ ?sw1]) (simp add: Let_def)
qed

section \<open>The manager of the roots\<close>

text \<open>The turns of the manager, and between them what other tasks do to the shared state: they never
  advertise or withdraw a root.\<close>

inductive manager_step :: "url_crate \<Rightarrow> (url \<Rightarrow> 'c \<Rightarrow> 'c) \<Rightarrow> 'c drain_manager \<Rightarrow> 'c drain_manager \<Rightarrow> bool" for C sweep where
  man_turn: "event \<noteq> Ev_Shutdown \<Longrightarrow> manager_step C sweep m (manager_turn C sweep event m)"
| man_other: "\<forall>k. generation_at sw k = generation_at (mg_scoped m) k \<Longrightarrow> manager_step C sweep m (m\<lparr>mg_scoped := sw, mg_cache := cache\<rparr>)"

abbreviation manager_runs :: "url_crate \<Rightarrow> (url \<Rightarrow> 'c \<Rightarrow> 'c) \<Rightarrow> 'c drain_manager \<Rightarrow> 'c drain_manager \<Rightarrow> bool" where
  "manager_runs C sweep \<equiv> (manager_step C sweep)\<^sup>*\<^sup>*"

definition keyed_ok :: "url_crate \<Rightarrow> (string \<times> root_info) list \<Rightarrow> bool" where
  "keyed_ok C rows \<longleftrightarrow> distinct (map fst rows) \<and> (\<forall>(k, root) \<in> set rows. k = root_key C (ri_root root))"

lemma keyed_update:
  "keyed_ok C rows \<Longrightarrow> keyed_ok C (AList.update (root_key C (ri_root root)) root rows)"
  by (auto simp: keyed_ok_def AList.distinct_update dest!: update_values)

lemma keyed_updates:
  "keyed_ok C rows \<Longrightarrow> keyed_ok C (fold (\<lambda>root. AList.update (root_key C (ri_root root)) root) roots rows)"
  by (induction roots arbitrary: rows) (auto intro: keyed_update)

lemma keyed_delete: "keyed_ok C rows \<Longrightarrow> keyed_ok C (AList.delete k rows)"
  by (auto simp: keyed_ok_def AList.delete_eq distinct_map_filter)

lemma keyed_deletes:
  "keyed_ok C rows \<Longrightarrow> keyed_ok C (fold (\<lambda>root. AList.delete (root_key C (ri_root root))) roots rows)"
  by (induction roots arbitrary: rows) (auto intro: keyed_delete)

lemma keyed_by_key: "keyed_ok C (roots_by_key C roots)"
  unfolding roots_by_key_def by (rule keyed_updates) (simp add: keyed_ok_def)

lemma keyed_change: "keyed_ok C rows \<Longrightarrow> keyed_ok C (apply_keyed_change C change rows)"
  by (cases change) (auto intro: keyed_updates keyed_deletes keyed_by_key)

text \<open>Of rows that are already keyed, keying again finds the same row under each key.\<close>

lemma roots_by_key_of_keyed:
  assumes "keyed_ok C rows"
  shows "map_of (roots_by_key C (filter P (map snd rows))) k =
    (case map_of rows k of Some root \<Rightarrow> if P root then Some root else None | None \<Rightarrow> None)"
  using assms
proof (induction rows rule: rev_induct)
  case (snoc x rows)
  obtain k' root where x: "x = (k', root)" by force
  have ok: "keyed_ok C rows" "k' \<notin> fst ` set rows" "root_key C (ri_root root) = k'"
    using snoc.prems x by (auto simp: keyed_ok_def)
  have n: "map_of rows k' = None" using ok(2) by (simp add: map_of_eq_None_iff)
  have "map_of (rows @ [x]) k = (if k = k' then Some root else map_of rows k)"
    using x n by (auto simp: map_add_def split: option.splits)
  then show ?case using snoc.IH[OF ok(1)] x ok(3) n
    by (auto simp: roots_by_key_def AList.update_conv' split: option.splits)
qed (simp add: roots_by_key_def)

definition manager_ok :: "url_crate \<Rightarrow> 'c drain_manager \<Rightarrow> bool" where
  "manager_ok C m \<longleftrightarrow> mg_source m \<noteq> None \<longrightarrow>
     keyed_ok C (mg_roots m) \<and> drains_speak C (mg_drains m) (mg_scoped m) \<and>
     (\<forall>k. generation_at (mg_scoped m) k \<noteq> None \<longleftrightarrow> map_of (mg_roots m) k \<noteq> None) \<and>
     (\<forall>k. map_of (mg_drains m) k \<noteq> None \<longleftrightarrow>
        (\<exists>root. map_of (mg_roots m) k = Some root \<and> supports_watch_directory (ri_capabilities root))) \<and>
     (\<forall>k drain root. map_of (mg_drains m) k = Some drain \<and> map_of (mg_roots m) k = Some root \<longrightarrow> rd_identity drain = root_identity_of root) \<and>
     INITIAL_ROOT_UPDATE_BACKOFF \<le> mg_backoff m \<and> mg_backoff m \<le> MAX_ROOT_UPDATE_BACKOFF"

lemma reconcile_manager_ok:
  assumes "keyed_ok C (mg_roots m)" "drains_speak C (mg_drains m) (mg_scoped m)"
    "INITIAL_ROOT_UPDATE_BACKOFF \<le> mg_backoff m" "mg_backoff m \<le> MAX_ROOT_UPDATE_BACKOFF"
  shows "manager_ok C ((manager_reconcile C sweep m)\<lparr>mg_source := src\<rparr>)" "manager_ok C (manager_reconcile C sweep m)"
proof -
  obtain drains sw cache where r: "reconcile_roots C sweep (map snd (mg_roots m)) (mg_drains m, mg_scoped m, mg_cache m) = (drains, sw, cache)"
    by (metis prod_cases3)
  let ?el = "roots_by_key C (filter (\<lambda>root. supports_watch_directory (ri_capabilities root)) (map snd (mg_roots m)))"
  note x = roots_pass_exact[OF assms(2) r]
  note speak = x[THEN conjunct1] and table = x[THEN conjunct2, THEN conjunct1, THEN spec]
    and drained = x[THEN conjunct2, THEN conjunct2, THEN conjunct1, THEN spec]
    and ident = x[THEN conjunct2, THEN conjunct2, THEN conjunct2, THEN conjunct1, THEN spec, THEN spec, THEN spec]
  have el: "map_of ?el k = (case map_of (mg_roots m) k of Some root \<Rightarrow> if supports_watch_directory (ri_capabilities root) then Some root else None | None \<Rightarrow> None)" for k
    by (rule roots_by_key_of_keyed[OF assms(1)])
  have keys: "(\<lambda>root. root_key C (ri_root root)) ` set (map snd (mg_roots m)) = fst ` set (mg_roots m)"
    using assms(1) by (force simp: keyed_ok_def image_iff)
  have t: "generation_at sw k \<noteq> None \<longleftrightarrow> map_of (mg_roots m) k \<noteq> None" for k
    using table[of k] keys by (simp add: map_of_eq_None_iff)
  have d: "map_of drains k \<noteq> None \<longleftrightarrow> (\<exists>root. map_of (mg_roots m) k = Some root \<and> supports_watch_directory (ri_capabilities root))" for k
    using drained[of k] el[of k] by (auto split: option.splits if_splits)
  have i: "rd_identity drain = root_identity_of root" if "map_of drains k = Some drain" "map_of (mg_roots m) k = Some root" for k drain root
  proof -
    have "map_of ?el k = Some root" using d[of k] el[of k] that by auto
    then show ?thesis using ident[of k drain root] that(1) by blast
  qed
  have "manager_ok C (m\<lparr>mg_drains := drains, mg_scoped := sw, mg_cache := cache, mg_source := src\<rparr>)" for src
    unfolding manager_ok_def using assms(1,3,4) speak t d by simp (blast dest: i)
  moreover from this[of "mg_source m"] have "manager_ok C (m\<lparr>mg_drains := drains, mg_scoped := sw, mg_cache := cache\<rparr>)"
    by (simp add: manager_ok_def)
  ultimately show "manager_ok C ((manager_reconcile C sweep m)\<lparr>mg_source := src\<rparr>)" "manager_ok C (manager_reconcile C sweep m)"
    by (simp_all add: manager_reconcile_def r)
qed

lemma speak_cong:
  "\<forall>k. generation_at sw' k = generation_at sw k \<Longrightarrow> drains_speak C drains sw' = drains_speak C drains sw"
  by (simp add: drains_speak_def)

lemma other_manager_ok:
  "manager_ok C m \<Longrightarrow> \<forall>k. generation_at sw k = generation_at (mg_scoped m) k \<Longrightarrow> manager_ok C (m\<lparr>mg_scoped := sw, mg_cache := cache\<rparr>)"
  using speak_cong[of sw "mg_scoped m" C "mg_drains m"] by (simp add: manager_ok_def)

lemma snapshot_ok:
  assumes "drains_speak C (mg_drains m) (mg_scoped m)" "INITIAL_ROOT_UPDATE_BACKOFF \<le> mg_backoff m" "mg_backoff m \<le> MAX_ROOT_UPDATE_BACKOFF"
  shows "manager_ok C (manager_snapshot C sweep snapshot updates m)"
  unfolding manager_snapshot_def using assms keyed_by_key by (intro reconcile_manager_ok) simp_all

lemma stop_ok [simp]: "manager_ok C (manager_stop m)"
  by (simp add: manager_ok_def manager_stop_def)

lemma turn_ok:
  assumes "manager_ok C m"
  shows "manager_ok C (manager_turn C sweep event m)"
proof (cases "mg_source m")
  case None
  then show ?thesis using assms by (simp add: manager_turn_def)
next
  case (Some src)
  then have ok: "keyed_ok C (mg_roots m)" "drains_speak C (mg_drains m) (mg_scoped m)"
    "INITIAL_ROOT_UPDATE_BACKOFF \<le> mg_backoff m" "mg_backoff m \<le> MAX_ROOT_UPDATE_BACKOFF"
    using assms by (simp_all add: manager_ok_def)
  have up: "manager_ok C (m\<lparr>mg_source := s\<rparr>)" "manager_ok C (m\<lparr>mg_backoff := INITIAL_ROOT_UPDATE_BACKOFF, mg_source := s\<rparr>)"
    "manager_ok C (m\<lparr>mg_backoff := min (mg_backoff m * 2) MAX_ROOT_UPDATE_BACKOFF\<rparr>)" for s
    using assms Some by (auto simp: manager_ok_def)
  show ?thesis
  proof (cases src)
    case Source_Live
    show ?thesis
    proof (cases event)
      case (Ev_Change update)
      then show ?thesis using Some Source_Live up keyed_change ok
        by (auto simp: manager_turn_def Let_def intro!: reconcile_manager_ok)
    qed (use Some Source_Live up assms in \<open>simp_all add: manager_turn_def\<close>)
  next
    case Source_Resubscribe
    show ?thesis
    proof (cases event)
      case (Ev_Snapshot snapshot updates)
      then show ?thesis using Some Source_Resubscribe ok by (auto simp: manager_turn_def Let_def intro!: snapshot_ok)
    qed (use Some Source_Resubscribe up assms in \<open>simp_all add: manager_turn_def Let_def\<close>)
  next
    case Source_Frozen
    then show ?thesis using Some assms by (simp add: manager_turn_def)
  qed
qed

lemma start_ok:
  assumes "sw_roots sw = []"
  shows "manager_ok C (manager_start C sweep sw cache event)"
proof -
  have n: "generation_at sw k = None" for k using assms by (simp add: generation_at_def)
  show ?thesis
  proof (cases event)
    case (Ev_Snapshot snapshot updates)
    then show ?thesis by (simp add: snapshot_ok drains_speak_def)
  qed (simp_all add: manager_ok_def keyed_ok_def drains_speak_def n Let_def)
qed

lemma manager_runs_ok: "manager_runs C sweep m m' \<Longrightarrow> manager_ok C m \<Longrightarrow> manager_ok C m'"
proof (induction rule: rtranclp_induct)
  case (step y z)
  from step(2) show ?case by cases (use step turn_ok other_manager_ok in auto)
qed

text \<open>A root that can be watched and one that cannot.\<close>

definition team_row :: root_info where
  "team_row =
     \<lparr>ri_root = team_root, ri_display_name = None, ri_layer_kind = ''s3'', ri_connection_id = Some ''c'', ri_owning_target = None,
      ri_capabilities = capabilities_empty\<lparr>supports_watch_directory := True\<rparr>, ri_range_read_strategy = Range_Native,
      ri_source = Source_Static Layer_User, ri_visible = True, ri_visibility = Vis_Visible, ri_alias_state = None, ri_icon = None,
      ri_user_metadata = Map.empty\<rparr>"

definition team_static_row :: root_info where
  "team_static_row = team_row\<lparr>ri_root := base_url ''s3'' (Some ''b'') ''/static/'', ri_capabilities := capabilities_empty\<rparr>"

lemma team_row_keys:
  "root_key ref_crate (ri_root team_row) = ''s3://b/team''" "root_key ref_crate (ri_root team_static_row) = ''s3://b/static''"
  "supports_watch_directory (ri_capabilities team_row)" "\<not> supports_watch_directory (ri_capabilities team_static_row)"
  by code_simp+

definition team_manager :: "unit drain_manager" where
  "team_manager = manager_start ref_crate (\<lambda>_ c. c) (scoped_new (watch_scopes_new True)) () (Ev_Snapshot [team_row, team_static_row] True)"

lemma team_manager_facts:
  "mg_roots team_manager = [(''s3://b/team'', team_row), (''s3://b/static'', team_static_row)]"
  "mg_source team_manager = Some Source_Live"
  by (simp_all add: team_manager_def manager_snapshot_def manager_reconcile_def roots_by_key_def team_row_keys split: prod.splits)

section \<open>Properties of the manager\<close>

text \<open>C26. As long as the manager runs, and whatever the discovery calls and the update stream deliver, the
  table of roots holds exactly the roots it knows, there is exactly one root drain per known root that
  can be watched, started for that root's present connection and route and speaking for its present
  advertisement, and the wait before the next discovery is between 50 milliseconds and five seconds.\<close>

theorem manager_tracks_roots:
  assumes "manager_runs C sweep (manager_start C sweep (scoped_new ws) cache event) m" "mg_source m \<noteq> None"
  shows "(\<forall>k. generation_at (mg_scoped m) k \<noteq> None \<longleftrightarrow> map_of (mg_roots m) k \<noteq> None) \<and>
    (\<forall>k. map_of (mg_drains m) k \<noteq> None \<longleftrightarrow>
       (\<exists>root. map_of (mg_roots m) k = Some root \<and> supports_watch_directory (ri_capabilities root))) \<and>
    (\<forall>k drain root. map_of (mg_drains m) k = Some drain \<and> map_of (mg_roots m) k = Some root \<longrightarrow>
       rd_identity drain = root_identity_of root \<and> generation_at (mg_scoped m) k = Some (rd_generation drain)) \<and>
    from_millis 50 \<le> mg_backoff m \<and> mg_backoff m \<le> from_secs 5"
proof -
  have ok: "manager_ok C m" using manager_runs_ok[OF assms(1) start_ok] by (simp add: scoped_new_def)
  have "generation_at (mg_scoped m) k = Some (rd_generation drain)" if "map_of (mg_drains m) k = Some drain" for k drain
    using ok assms(2) map_of_SomeD[OF that] by (auto simp: manager_ok_def drains_speak_def)
  then show ?thesis using ok assms(2) by (simp add: manager_ok_def from_millis_def from_secs_def)
qed

theorem manager_tracks_roots_witness:
  "map_of (mg_roots team_manager) ''s3://b/team'' = Some team_row \<and> map_of (mg_roots team_manager) ''s3://b/static'' = Some team_static_row \<and>
   map_of (mg_drains team_manager) ''s3://b/static'' = None \<and>
   (\<exists>drain. map_of (mg_drains team_manager) ''s3://b/team'' = Some drain \<and> rd_identity drain = root_identity_of team_row \<and>
      generation_at (mg_scoped team_manager) ''s3://b/team'' = Some (rd_generation drain))"
proof -
  have "manager_runs ref_crate (\<lambda>_ c. c) (manager_start ref_crate (\<lambda>_ c. c) (scoped_new (watch_scopes_new True)) ()
      (Ev_Snapshot [team_row, team_static_row] True)) team_manager"
    unfolding team_manager_def by (rule rtranclp.rtrancl_refl)
  note p = manager_tracks_roots[OF this]
  have "mg_source team_manager \<noteq> None" by (simp add: team_manager_facts)
  note p = p[OF this]
  have one: "map_of (mg_roots team_manager) ''s3://b/team'' = Some team_row" "map_of (mg_roots team_manager) ''s3://b/static'' = Some team_static_row"
    by (simp_all add: team_manager_facts)
  have d: "map_of (mg_drains team_manager) k \<noteq> None \<longleftrightarrow>
       (\<exists>root. map_of (mg_roots team_manager) k = Some root \<and> supports_watch_directory (ri_capabilities root))" for k
    using p by iprover
  obtain drain where drain: "map_of (mg_drains team_manager) ''s3://b/team'' = Some drain"
    using d[of "''s3://b/team''"] one team_row_keys by auto
  have "rd_identity drain = root_identity_of team_row \<and> generation_at (mg_scoped team_manager) ''s3://b/team'' = Some (rd_generation drain)"
    using p drain one(1) by iprover
  moreover have "map_of (mg_drains team_manager) ''s3://b/static'' = None"
    using d[of "''s3://b/static''"] one team_row_keys by auto
  ultimately show ?thesis using one drain by simp
qed

text \<open>Once the roots have been discovered, no error ends the manager: short of a shutdown it goes on,
  and whenever it is waiting to discover again, a successful answer installs the new root set.\<close>

lemma manager_survives_errors:
  assumes "manager_runs C sweep m m'" "mg_source m \<noteq> None" "mg_discovered_once m"
  shows "mg_source m' \<noteq> None \<and> mg_discovered_once m' \<and>
    (mg_source m' = Some Source_Resubscribe \<longrightarrow>
       mg_roots (manager_turn C sweep (Ev_Snapshot roots updates) m') = roots_by_key C roots \<and>
       mg_source (manager_turn C sweep (Ev_Snapshot roots updates) m') = Some (if updates then Source_Live else Source_Frozen))"
proof -
  have rec: "mg_source (manager_reconcile C sweep m) = mg_source m" "mg_discovered_once (manager_reconcile C sweep m) = mg_discovered_once m"
    "mg_roots (manager_reconcile C sweep m) = mg_roots m" for m :: "'a drain_manager"
    by (simp_all add: manager_reconcile_def split: prod.splits)
  have one: "mg_source (manager_turn C sweep event m) \<noteq> None \<and> mg_discovered_once (manager_turn C sweep event m)"
    if "event \<noteq> Ev_Shutdown" "mg_source m \<noteq> None" "mg_discovered_once m" for event and m :: "'a drain_manager"
    using that by (auto simp: manager_turn_def manager_snapshot_def Let_def rec split: option.splits update_source.splits manager_event.splits)
  have "mg_source m' \<noteq> None \<and> mg_discovered_once m'"
    using assms
  proof (induction rule: rtranclp_induct)
    case (step y z)
    from step(2) show ?case by cases (use step one in auto)
  qed simp
  then show ?thesis by (simp add: manager_turn_def manager_snapshot_def Let_def rec)
qed

text \<open>A layer whose configuration does not switch watching on starts no task, and however much it caches, its
  registry records nothing and wakes nobody.\<close>

lemma switched_off_is_inert:
  "fold (\<lambda>(now, addr). cache_watch_note_cached C now addr) reads (cache_watch_start False runtime (cache_watch_new False)) =
     cache_watch_new False \<and> \<not> watches (cache_watch_new False)"
proof -
  have "cache_watch_note_cached C now addr (cache_watch_new False) = cache_watch_new False" for now addr
    by (simp add: cache_watch_note_cached_def cache_watch_new_def scoped_note_cached_def registry_note_cached_def
        watch_scopes_new_def scoped_new_def)
  then have "fold (\<lambda>(now, addr). cache_watch_note_cached C now addr) reads (cache_watch_new False) = cache_watch_new False"
    by (induction reads) auto
  then show ?thesis by (simp add: cache_watch_start_def watches_def cache_watch_new_def watch_scopes_new_def scoped_new_def)
qed

section \<open>The supervisor above the metadata cache\<close>

lemma sweep_as_sweeps:
  "ms_cache (sweep_subtree E p st) = mc_sweep (me_crate E) 0 (Sweep_Lists p) (mc_sweep (me_crate E) 0 (Sweep_Prefix p) (ms_cache st))"
  by (simp add: sweep_subtree_def)

text \<open>A supervisor whose directory's watch had opened when its root was withdrawn, above a cache with a row
  of that directory.\<close>

definition team_key :: metadata_cache_key where "team_key = stat_key md_env None team_object team_object"

definition team_cached :: "(bool \<times> inner_call list) meta_state" where
  "team_cached = md_start\<lparr>ms_cache := snd (mc_insert 5 team_key (PL_Stat (sample_info ''/team/x'')) no_flags (ms_cache md_start))\<rparr>"

definition team_opened :: "(bool \<times> inner_call list) meta_state supervisor" where
  "team_opened = (let sp = team_pass (sweep_subtree md_env) team_cached in
     sp\<lparr>sp_drains := map (\<lambda>(k, drain). (k, drain\<lparr>sd_signals := (sd_signals drain)\<lparr>sg_ever_opened := True\<rparr>\<rparr>)) (sp_drains sp)\<rparr>)"

definition team_withdrawn :: "(bool \<times> inner_call list) meta_state supervisor" where
  "team_withdrawn = team_opened\<lparr>sp_scoped := withdraw ref_crate team_root (sp_scoped team_opened)\<rparr>"

lemma team_withdrawn_runs:
  "supervisor_runs ref_crate (sweep_subtree md_env) (supervisor_new (scoped_new (watch_scopes_new True)) team_cached) team_withdrawn"
proof -
  let ?start = "supervisor_new (scoped_new (watch_scopes_new True)) team_cached"
  have "supervisor_runs ref_crate (sweep_subtree md_env) ?start (team_pass (sweep_subtree md_env) team_cached)"
    by (rule team_supervisor_runs(2))
  then have "supervisor_runs ref_crate (sweep_subtree md_env) ?start team_opened"
    unfolding team_opened_def Let_def by (rule rtranclp.rtrancl_into_rtrancl) (rule sup_signals)
  then show ?thesis
    unfolding team_withdrawn_def by (rule rtranclp.rtrancl_into_rtrancl) (intro sup_other step_withdraw)
qed

lemma no_roots_no_selection:
  assumes "sw_roots (sp_scoped sp) = []"
  shows "pass_selected C now finished sp = []"
proof -
  have "entry \<notin> set (pass_selected C now finished sp)" for entry
    using selected_assigned[of entry C now finished sp] assms by (auto simp: root_views_def sort_desc_def assign_scope_def Let_def)
  then show ?thesis by (metis list.set_intros(1) neq_Nil_conv)
qed

lemma team_not_frozen: "\<not> frozen (\<lambda>_. False) (team_supervisor cache)" "distinct (map fst (sp_drains (team_supervisor cache)))"
  by (simp_all add: frozen_def team_supervisor_def supervisor_new_def)

lemma team_pass_state:
  "sp_cache (team_pass sweep cache) = cache" "sp_retiring (team_pass sweep cache) = []"
  "sw_roots (sp_scoped (team_pass sweep cache)) = sw_roots (snd (root_views 0 team_refused))"
proof -
  note m = reconcile_moves[OF team_not_frozen[of cache], of ref_crate 0 "\<lambda>_. False" sweep, folded team_pass_def]
  have new: "sp_drains (team_supervisor cache) = []" "sp_cache (team_supervisor cache) = cache" "sp_retiring (team_supervisor cache) = []"
    "sp_scoped (team_supervisor cache) = team_refused"
    by (simp_all add: team_supervisor_def supervisor_new_def)
  show "sp_cache (team_pass sweep cache) = cache" using m(7) by (simp add: new)
  show "sp_retiring (team_pass sweep cache) = []" using m(5) by (simp add: new)
  show "sw_roots (sp_scoped (team_pass sweep cache)) = sw_roots (snd (root_views 0 team_refused))"
    unfolding m(6) by (simp add: new scoped_mark_watched_def)
qed

lemma team_withdrawn_state:
  "sp_cache team_withdrawn = team_cached" "sp_retiring team_withdrawn = []" "sw_roots (sp_scoped team_withdrawn) = []"
  "\<exists>drain. (''s3://b/team/'', drain) \<in> set (sp_drains team_withdrawn) \<and> sg_ever_opened (sd_signals drain)"
proof -
  show "sp_cache team_withdrawn = team_cached" "sp_retiring team_withdrawn = []"
    by (simp_all add: team_withdrawn_def team_opened_def team_pass_state Let_def)
  have "map fst (sw_roots (snd (root_views 0 team_refused))) = [root_key ref_crate team_root]" by code_simp
  then obtain entry where "sw_roots (snd (root_views 0 team_refused)) = [(root_key ref_crate team_root, entry)]" by auto
  then show "sw_roots (sp_scoped team_withdrawn) = []"
    by (simp add: team_withdrawn_def team_opened_def team_pass_state Let_def withdraw_def wake_supervisor_def)
  have "''s3://b/team/'' \<in> fst ` set (sp_drains (team_pass (sweep_subtree md_env) team_cached))"
    by (simp add: team_drains)
  then show "\<exists>drain. (''s3://b/team/'', drain) \<in> set (sp_drains team_withdrawn) \<and> sg_ever_opened (sd_signals drain)"
    by (force simp: team_withdrawn_def team_opened_def Let_def)
qed

lemma team_withdrawn_pass:
  "sp_drains (snd (reconcile_scopes ref_crate 9 (\<lambda>_. False) (\<lambda>_. False) (sweep_subtree md_env) team_withdrawn)) = []"
proof -
  have "\<not> frozen (\<lambda>_. False) team_withdrawn" by (simp add: frozen_def team_withdrawn_state)
  moreover have "distinct (map fst (sp_drains team_withdrawn))"
    using supervisor_runs_ok[OF _ team_withdrawn_runs supervisor_new_ok] by (simp add: supervisor_ok_def)
  ultimately show ?thesis
    using reconcile_moves(3)[of "\<lambda>_. False" team_withdrawn ref_crate 9 "\<lambda>_. False" "sweep_subtree md_env"]
      no_roots_no_selection[OF team_withdrawn_state(3)] by simp
qed

lemma team_cached_facts:
  "cache_ok (ms_cache team_cached)" "sweep_reaches ref_crate (Sweep_Prefix team_dir) team_key"
  "fst (mc_lookup 6 team_key no_flags (ms_cache team_cached)) = Some (PL_Stat (sample_info ''/team/x''))" "me_crate md_env = ref_crate"
proof -
  show "cache_ok (ms_cache team_cached)" by (simp add: team_cached_def md_start_def cache_ok_insert new_ok)
  show "sweep_reaches ref_crate (Sweep_Prefix team_dir) team_key" by code_simp
  show "fst (mc_lookup 6 team_key no_flags (ms_cache team_cached)) = Some (PL_Stat (sample_info ''/team/x''))"
    by (simp add: team_cached_def md_start_def metadata_cache_new_def empty_cache_state_def mc_get_def mc_insert_def remove_row_def
        no_flags_def flags_is_empty_def flags_covers_def from_secs_def Let_def)
  show "me_crate md_env = ref_crate" by (simp add: md_env_def)
qed

text \<open>C13. Over the metadata cache: when a pass of the supervisor gives up a directory's watch that had been
  open, the cache answers no lookup of a row in that directory's subtree and none of a listing that
  contains the directory: it has nothing left that the watch was keeping fresh.\<close>

theorem given_up_directory_not_served:
  assumes "crate_ok C" "me_crate E = C"
    "supervisor_runs C (sweep_subtree E) (supervisor_new (scoped_new (watch_scopes_new enabled)) cache) sp"
    "cache_ok (ms_cache (sp_cache sp))"
    "(k, drain) \<in> set (sp_drains sp)" "sg_ever_opened (sd_signals drain)" "crate_parse C k = Some prefx"
    "(k, drain) \<notin> set (sp_drains (snd (reconcile_scopes C now finished late (sweep_subtree E) sp)))"
  shows "sweep_reaches C (Sweep_Prefix prefx) row \<or> sweep_reaches C (Sweep_Lists prefx) row \<Longrightarrow>
    fst (mc_lookup t row flags (ms_cache (sp_cache (snd (reconcile_scopes C now finished late (sweep_subtree E) sp))))) = None"
proof -
  have d: "distinct (map fst (sp_drains sp))"
    using supervisor_runs_ok[OF assms(1,3) supervisor_new_ok] by (simp add: supervisor_ok_def)
  let ?bad = "\<lambda>row. sweep_reaches C (Sweep_Prefix prefx) row \<or> sweep_reaches C (Sweep_Lists prefx) row"
  have "mcache.free_of ?bad (ms_cache (sp_cache (snd (reconcile_scopes C now finished late (sweep_subtree E) sp))))"
  proof (rule given_up_watch_is_swept[where I = "\<lambda>st. cache_ok (ms_cache st)" and Q = "\<lambda>st. mcache.free_of ?bad (ms_cache st)",
        OF d assms(5-8,4)])
    show "cache_ok (ms_cache (sweep_subtree E p c))" if "cache_ok (ms_cache c)" for p c
      unfolding sweep_as_sweeps using that by (intro cache_ok_sweep)
    show "mcache.free_of ?bad (ms_cache (sweep_subtree E prefx c))" if "cache_ok (ms_cache c)" for c
      using sweep_subtree_free[OF that, of E prefx] assms(2) by simp
    show "mcache.free_of ?bad (ms_cache (sweep_subtree E p c))" if "cache_ok (ms_cache c)" "mcache.free_of ?bad (ms_cache c)" for p c
      unfolding sweep_as_sweeps using that(2) by (intro free_sweep)
  qed
  then show "sweep_reaches C (Sweep_Prefix prefx) row \<or> sweep_reaches C (Sweep_Lists prefx) row \<Longrightarrow>
    fst (mc_lookup t row flags (ms_cache (sp_cache (snd (reconcile_scopes C now finished late (sweep_subtree E) sp))))) = None"
    by (rule mcache.free_of_lookup)
qed

theorem given_up_directory_not_served_witness:
  "let sp = team_withdrawn; sp' = snd (reconcile_scopes ref_crate 9 (\<lambda>_. False) (\<lambda>_. False) (sweep_subtree md_env) sp) in
   fst (mc_lookup 6 team_key no_flags (ms_cache (sp_cache sp))) = Some (PL_Stat (sample_info ''/team/x'')) \<and>
   fst (mc_lookup 6 team_key no_flags (ms_cache (sp_cache sp'))) = None"
proof -
  obtain drain where d: "(''s3://b/team/'', drain) \<in> set (sp_drains team_withdrawn)" "sg_ever_opened (sd_signals drain)"
    using team_withdrawn_state(4) by blast
  have "fst (mc_lookup 6 team_key no_flags (ms_cache (sp_cache
      (snd (reconcile_scopes ref_crate 9 (\<lambda>_. False) (\<lambda>_. False) (sweep_subtree md_env) team_withdrawn))))) = None"
    by (rule given_up_directory_not_served[OF _ _ team_withdrawn_runs _ d team_urls(5)])
      (simp_all only: team_withdrawn_pass team_withdrawn_state team_cached_facts cache_crate_ref list.set empty_iff not_False_eq_True simp_thms)
  then show ?thesis by (simp only: Let_def team_withdrawn_state team_cached_facts simp_thms)
qed

section \<open>A root without its slash\<close>

lemma take_map_filter:
  "x \<in> set (take n xs) \<Longrightarrow> f x = Some y \<Longrightarrow> y \<in> set (take n (List.map_filter f xs))"
proof (induction xs arbitrary: n)
  case (Cons a xs)
  then obtain m where n: "n = Suc m" by (cases n) auto
  show ?case
  proof (cases "x = a")
    case True
    then show ?thesis using Cons.prems(2) n by (simp add: List.map_filter_simps)
  next
    case False
    then have "y \<in> set (take m (List.map_filter f xs))" using Cons n by auto
    then show ?thesis using n set_take_subset_set_take[of m "Suc m" "List.map_filter f xs"]
      by (auto simp: List.map_filter_simps split: option.splits)
  qed
qed (simp add: List.map_filter_simps)

text \<open>A pass that finds nothing running takes the first candidates that have a root to serve.\<close>

lemma first_pass_selected:
  assumes "sp_drains sp = []"
  shows "pass_selected C now finished sp = take MAX_WATCH_SCOPES
    (sel_assigned C (fst (root_views now (sp_scoped sp))) [] (pass_candidates C now (pass_start now finished sp)))"
proof -
  let ?as = "sel_assigned C (fst (root_views now (sp_scoped sp))) [] (pass_candidates C now (pass_start now finished sp))"
  let ?roots = "fst (root_views now (sp_scoped sp))"
  have "scope_views C now (sp_drains (pass_start now finished sp)) ws ?roots = []" for ws
    using assms by (simp add: scope_views_def pass_start_def)
  moreover have no_cover: "\<not> scope_covering C [] entry" for entry by (simp add: scope_covering_def)
  then have "sel_antichain C ?roots [] (scope_covering C []) cands = sel_assigned C ?roots [] cands" for cands
    by (simp add: sel_antichain_def collapsed_def list_ex_iff)
  moreover have "\<not> is_protected C [] entry" for entry by (simp add: is_protected_def)
  moreover have "cover_winner C ?roots may [] rest = None" for may rest
    by (simp add: cover_winner_def eligible_cover_def subsumed_def)
  ultimately show ?thesis
    by (simp add: pass_selected_def pass_selection_def held_by_def select_scopes_def sel_held_def sel_rest_def Let_def)
qed

lemma spawned_drain:
  assumes "(k, drain) \<in> set (sp_drains (fold (spawn_drain C now) sel sp))" "sp_drains sp = []"
  shows "\<exists>entry \<in> set sel. k = crate_as_str C (sc_scope entry) \<and> sd_root drain = sc_root entry \<and>
    sd_generation drain = sc_generation entry \<and>
    sg_recursive (sd_signals drain) = (crate_as_str C (sc_root entry) \<noteq> k \<and>
      starting_mode C now (memo_owner_still_owns C (sp_scoped sp)) (sc_scope entry) (sw_scopes (sp_scoped sp)) = Mode_Recursive)"
  using assms
proof (induction sel arbitrary: k drain rule: rev_induct)
  case (snoc entry sel)
  let ?sp = "fold (spawn_drain C now) sel sp"
  have same: "sp_scoped ?sp = sp_scoped sp" using spawn_fold[of sp C now sel] by blast
  show ?case
  proof (cases "(k, drain) \<in> set (sp_drains ?sp)")
    case True
    then show ?thesis using snoc.IH[OF True snoc.prems(2)] by auto
  next
    case False
    then show ?thesis using snoc.prems(1) unfolding fold_append comp_def
      by (auto simp: spawn_drain_cases same recursive_def split: if_splits)
  qed
qed simp

lemma candidates_by_spelling:
  assumes "registry_ok C ws" "a \<in> set (candidates C now owned ws)" "b \<in> set (candidates C now owned ws)"
    "crate_as_str C a = crate_as_str C b"
  shows "a = b"
proof -
  have row: "\<exists>e. (crate_as_str C u, e) \<in> set (st_scopes (ws_table ws)) \<and> u = se_url e"
    if "u \<in> set (candidates C now owned ws)" for u
    using that assms(1) by (force simp: candidates_def registry_ok_def Let_def list_all_iff entry_ok_def)
  obtain e where "(crate_as_str C a, e) \<in> set (st_scopes (ws_table ws))" "a = se_url e" using row[OF assms(2)] by blast
  moreover obtain f where "(crate_as_str C b, f) \<in> set (st_scopes (ws_table ws))" "b = se_url f" using row[OF assms(3)] by blast
  moreover have "distinct (map fst (st_scopes (ws_table ws)))" using assms(1) by (simp add: registry_ok_def Let_def)
  ultimately show ?thesis using assms(4) by (metis eq_key_imp_eq_value)
qed

lemma slashed_node:
  assumes "1 < length (url_path root)" "\<not> ends_with ''/'' (url_path root)"
  shows "same_node root (root\<lparr>url_path := url_path root @ ''/''\<rparr>)"
    "is_ancestor_or_self root (root\<lparr>url_path := url_path root @ ''/''\<rparr>)"
    "serialized root \<noteq> serialized (root\<lparr>url_path := url_path root @ ''/''\<rparr>)"
proof -
  have "node_path root = url_path root"
    using assms by (auto simp: node_path_def Let_def strip_suffix_def ends_with_def split: option.splits)
  moreover have "node_path (root\<lparr>url_path := url_path root @ ''/''\<rparr>) = url_path root"
    using assms(1) by (cases "url_path root = []") (simp_all add: node_path_def Let_def strip_suffix_def ends_with_def)
  ultimately show "same_node root (root\<lparr>url_path := url_path root @ ''/''\<rparr>)"
    by (simp add: same_node_def node_key_def)
  then show "is_ancestor_or_self root (root\<lparr>url_path := url_path root @ ''/''\<rparr>)"
    by (auto simp: same_node_def node_key_def is_ancestor_or_self_def path_contains_def split: option.splits)
  have "length (serialized root) < length (serialized (root\<lparr>url_path := url_path root @ ''/''\<rparr>))"
    by (simp add: serialized_def authority_str_def userinfo_str_def tail_str_def)
  then show "serialized root \<noteq> serialized (root\<lparr>url_path := url_path root @ ''/''\<rparr>)" by auto
qed

text \<open>C38. A root that refused its recursive watch and is advertised without a trailing slash is watched
  itself, and recursively. Let the directory be the root's own node, spelled with the slash that every
  cached directory has, among the first candidates of a pass that finds no drain running, below no longer
  root and without a remembered refusal. The pass starts a drain for the directory under that root, and the
  drain's first call asks for the recursive watch of the root's node, the one that was refused.\<close>

theorem slashless_root_is_watched:
  fixes C sweep enabled cache now finished late and sp :: "'c supervisor"
  assumes "crate_ok C" "as_str_ok C"
    "supervisor_runs C sweep (supervisor_new (scoped_new (watch_scopes_new enabled)) cache) sp" "sp_drains sp = []"
    and view: "view \<in> set (fst (root_views now (sp_scoped sp)))" "rv_admits_probes view"
    and slashless: "1 < length (url_path (rv_root view))" "\<not> ends_with ''/'' (url_path (rv_root view))"
    and dir: "dir = (rv_root view)\<lparr>url_path := url_path (rv_root view) @ ''/''\<rparr>"
      "dir \<in> set (take MAX_WATCH_SCOPES (pass_candidates C now (pass_start now finished sp)))"
      "map_of (st_denied (ws_table (sw_scopes (sp_scoped sp)))) (crate_as_str C dir) = None"
    and longest: "\<forall>v \<in> set (fst (root_views now (sp_scoped sp))). is_ancestor_or_self (rv_root v) dir \<longrightarrow>
      v = view \<or> node_rank (rv_root v) < node_rank (rv_root view)"
  defines "sp' \<equiv> snd (reconcile_scopes C now finished late sweep sp)"
  shows "same_node (rv_root view) dir \<and>
    (\<exists>drain. (crate_as_str C dir, drain) \<in> set (sp_drains sp') \<and>
       sd_root drain = rv_root view \<and> sd_generation drain = rv_generation view \<and>
       sg_recursive (sd_signals drain) \<and>
       (let role = Role_Scope (sd_root drain) (sd_generation drain) in
        ds_mode (drain_ask C t role dir (sp_scoped sp') (drain_start role (sd_signals drain))) = Mode_Recursive))"
proof -
  let ?roots = "fst (root_views now (sp_scoped sp))" and ?cands = "pass_candidates C now (pass_start now finished sp)"
  let ?entry = "\<lparr>sc_root = rv_root view, sc_generation = rv_generation view, sc_scope = dir\<rparr>"
  note node = slashed_node[OF slashless, folded dir(1)]
  have spelled: "crate_as_str C (rv_root view) \<noteq> crate_as_str C dir" using node(3) assms(2) by (simp add: as_str_ok_def)
  have ok: "supervisor_ok C sp" using supervisor_runs_ok[OF assms(1,3) supervisor_new_ok] .
  obtain first where first: "find (\<lambda>v. is_ancestor_or_self (rv_root v) dir) ?roots = Some first"
    using view(1) node(2) by (cases "find (\<lambda>v. is_ancestor_or_self (rv_root v) dir) ?roots") (auto simp: find_None_iff)
  have "node_rank (rv_root view) \<le> node_rank (rv_root first)" by (rule find_longest[OF first view(1) node(2)])
  moreover have "first \<in> set ?roots" "is_ancestor_or_self (rv_root first) dir" using first by (auto simp: find_Some_iff)
  ultimately have "first = view" using longest by (metis not_less)
  moreover have "\<not> rv_covers view" using view by (auto simp: root_views_def Let_def root_view_of_def)
  ultimately have assigned: "assign_scope C ?roots [] dir = Some ?entry"
    using first view(2) spelled by (simp add: assign_scope_def)
  have sel: "?entry \<in> set (pass_selected C now finished sp)"
    unfolding first_pass_selected[OF assms(4)] sel_assigned_def using dir(2) assigned by (rule take_map_filter)
  have nf: "\<not> frozen finished sp" using assms(4) by (simp add: frozen_def)
  have d: "distinct (map fst (sp_drains sp))" using assms(4) by simp
  note m = reconcile_moves[OF nf d, of C now late sweep, folded sp'_def]
  have scoped: "sw_scopes (sp_scoped (pass_start now finished sp)) = sw_scopes (sp_scoped sp)"
    by (simp add: pass_start_def root_views_def Let_def)
  have "crate_as_str C dir \<in> fst ` set (sp_drains sp')" unfolding m(3) using sel by force
  then obtain drain where drain: "(crate_as_str C dir, drain) \<in> set (sp_drains sp')" by (metis imageE prod.collapse)
  have drains: "sp_drains sp' = sp_drains (fold (spawn_drain C now) (pass_selected C now finished sp) (pass_start now finished sp))"
    using assms(4) by (simp add: sp'_def reconcile_scopes_def pass_selected_def pass_candidates_def pass_start_def Let_def)
  have empty: "sp_drains (pass_start now finished sp) = []" using assms(4) by (simp add: pass_start_def)
  obtain entry where e: "entry \<in> set (pass_selected C now finished sp)" "crate_as_str C dir = crate_as_str C (sc_scope entry)"
    "sd_root drain = sc_root entry" "sd_generation drain = sc_generation entry"
    "sg_recursive (sd_signals drain) = (crate_as_str C (sc_root entry) \<noteq> crate_as_str C dir \<and>
      starting_mode C now (memo_owner_still_owns C (sp_scoped (pass_start now finished sp))) (sc_scope entry)
        (sw_scopes (sp_scoped (pass_start now finished sp))) = Mode_Recursive)"
    using spawned_drain[OF drain[unfolded drains] empty] by blast
  obtain running where as: "sc_scope entry \<in> set ?cands" "assign_scope C ?roots running (sc_scope entry) = Some entry"
    using selected_assigned[OF e(1)] by blast
  have "registry_ok C (sw_scopes (sp_scoped (pass_start now finished sp)))"
    unfolding scoped using ok by (simp add: supervisor_ok_def scoped_ok_def)
  then have same: "sc_scope entry = dir"
    using candidates_by_spelling as(1) dir(2) e(2) unfolding pass_candidates_def by (metis in_set_takeD)
  have owner: "sc_root entry = rv_root view" "sc_generation entry = rv_generation view"
    using as(2) first \<open>first = view\<close> unfolding same by (auto elim!: assign_scope_Some)
  have mode: "starting_mode C n owned dir (sw_scopes (sp_scoped sp)) = Mode_Recursive" for n owned
    using dir(3) by (simp add: starting_mode_def)
  have "starting_mode C n owned dir (sw_scopes (sp_scoped sp')) = Mode_Recursive" for n owned
    unfolding m(6) using dir(3) by (simp add: starting_mode_def scoped_mark_watched_def mark_watched_def root_views_def Let_def)
  then have "ds_mode (drain_ask C t (Role_Scope (rv_root view) (rv_generation view)) dir (sp_scoped sp')
      (drain_start (Role_Scope (rv_root view) (rv_generation view)) (sd_signals drain))) = Mode_Recursive"
    using spelled by (simp add: drain_ask_def)
  moreover have "sg_recursive (sd_signals drain)" using e(5) spelled mode unfolding same owner scoped by simp
  ultimately show ?thesis using node(1) drain e(3,4) owner by (auto simp: Let_def)
qed

theorem slashless_root_is_watched_witness:
  "same_node team_root team_dir \<and>
   (\<exists>drain. (''s3://b/team/'', drain) \<in> set (sp_drains (team_pass (\<lambda>_ c. c) ())) \<and> sd_root drain = team_root \<and>
      ds_mode (drain_ask ref_crate 1 (Role_Scope team_root 0) team_dir (sp_scoped (team_pass (\<lambda>_ c. c) ()))
        (drain_start (Role_Scope team_root 0) (sd_signals drain))) = Mode_Recursive)"
proof -
  let ?view = "\<lparr>rv_root = team_root, rv_generation = 0, rv_covers = False, rv_admits_probes = True\<rparr>"
  have scoped: "sp_scoped (team_supervisor ()) = team_refused" "sp_drains (team_supervisor ()) = []"
    by (simp_all add: team_supervisor_def supervisor_new_def)
  have dir: "team_dir = team_root\<lparr>url_path := url_path team_root @ ''/''\<rparr>" "url_path team_root = ''/team''"
    by (simp_all add: team_dir_def team_root_def base_url_def)
  have cands: "pass_candidates ref_crate 0 (pass_start 0 (\<lambda>_. False) (team_supervisor ())) = [team_dir]"
    by (simp add: pass_candidates_def pass_start_def scoped team_views)
  have crate: "crate_ok ref_crate" by simp
  have str: "as_str_ok ref_crate" by (simp add: as_str_ok_def ref_crate_def)
  note w = slashless_root_is_watched[where view = ?view and dir = team_dir and t = 1 and now = 0 and finished = "\<lambda>_. False"
      and late = "\<lambda>_. False", OF crate _ team_supervisor_runs(1) scoped(2), where sweep = "\<lambda>_ c. c",
      unfolded team_pass_def[symmetric]]
  have "same_node team_root team_dir \<and>
    (\<exists>drain. (crate_as_str ref_crate team_dir, drain) \<in> set (sp_drains (team_pass (\<lambda>_ c. c) ())) \<and>
       sd_root drain = team_root \<and> sd_generation drain = 0 \<and> sg_recursive (sd_signals drain) \<and>
       (let role = Role_Scope (sd_root drain) (sd_generation drain) in
        ds_mode (drain_ask ref_crate 1 role team_dir (sp_scoped (team_pass (\<lambda>_ c. c) ()))
          (drain_start role (sd_signals drain))) = Mode_Recursive))"
    by (rule w[unfolded root_view.select_convs]) (simp_all add: str scoped team_views cands MAX_WATCH_SCOPES_def, simp_all add: dir)
  then show ?thesis by (auto simp: team_urls Let_def)
qed

end
