(* ===== verification/Ov_Byte_Index.thy ===== *)
theory Ov_Byte_Index
  imports Ov_Transfer "HOL-Library.AList"
begin

text \<open>
  The availability index of the byte cache (\<open>ovstorage-plugin-cache/src/byte_cache.rs\<close>). For an address
  whose backend cannot answer, the byte cache serves the body it stored under the last validator it saw.
  A row of the index names that validator; rows and bodies live in one key-value cache
  (\<open>ovstorage-cache/src/byte.rs\<close>), which several tasks change at once.

  A task is a program, a tree of the calls it makes: every constructor below is one call that takes effect
  at one instant, and the function in it is the rest of the program after the answer. Each function of the
  source that awaits is a definition that takes its continuation. An address is its serialization. A row
  carries a random nonce, which is drawn when the row is written: nobody sees it earlier. Log lines and
  panics are left out, and so is the cancellation of a caller between two calls.
\<close>

section \<open>The rows of the cache\<close>

type_synonym cache_index = "string \<Rightarrow> string option"

definition compare_and_put :: "string \<Rightarrow> string option \<Rightarrow> string option \<Rightarrow> cache_index \<Rightarrow> bool \<times> cache_index" where
  "compare_and_put k expected new idx = (if idx k = expected then (True, idx(k := new)) else (False, idx))"

definition remove_index :: "string \<Rightarrow> cache_index \<Rightarrow> cache_index" where
  "remove_index k idx = idx(k := None)"

definition remove_index_returning :: "string \<Rightarrow> cache_index \<Rightarrow> string option \<times> cache_index" where
  "remove_index_returning k idx = (idx k, idx(k := None))"

definition remove_prefix :: "string \<Rightarrow> cache_index \<Rightarrow> cache_index" where
  "remove_prefix p idx = (\<lambda>k. if starts_with p k then None else idx k)"

section \<open>Keys\<close>

definition content_prefix :: "string \<Rightarrow> string" where "content_prefix part = part @ [CHR 0x03]"

definition content_cache_key :: "string \<Rightarrow> string \<Rightarrow> string \<Rightarrow> string" where
  "content_cache_key part addr etag = content_prefix part @ addr @ [CHR 0x00] @ etag"

definition availability_prefix :: "string \<Rightarrow> string" where "availability_prefix part = part @ [CHR 0x04]"

definition availability_index_key :: "string \<Rightarrow> string \<Rightarrow> string" where
  "availability_index_key part addr = availability_prefix part @ addr"

definition legacy_availability_prefixes :: "string \<Rightarrow> string list" where
  "legacy_availability_prefixes part = [part @ [CHR 0x01], part @ [CHR 0x02]]"

definition legacy_content_prefix :: "string \<Rightarrow> string" where "legacy_content_prefix part = part @ [CHR 0x00]"

section \<open>Availability rows\<close>

definition AVAIL_VERSION :: char where "AVAIL_VERSION = CHR 0x02"
definition AVAIL_NONCE_LEN :: nat where "AVAIL_NONCE_LEN = 16"
definition AVAIL_HEADER_LEN :: nat where "AVAIL_HEADER_LEN = 1 + AVAIL_NONCE_LEN"
definition AVAIL_CAS_ATTEMPTS :: nat where "AVAIL_CAS_ATTEMPTS = 8"

definition fits_alongside_its_row :: "nat \<Rightarrow> string \<Rightarrow> nat option \<Rightarrow> bool" where
  "fits_alongside_its_row len etag budget =
     (case budget of None \<Rightarrow> True | Some budget \<Rightarrow> len + (AVAIL_HEADER_LEN + length etag) \<le> budget)"

definition encode_avail :: "string \<Rightarrow> string \<Rightarrow> string" where
  "encode_avail nonce etag = [AVAIL_VERSION] @ nonce @ etag"

definition parse_avail :: "string \<Rightarrow> string option" where
  "parse_avail bytes =
     (if length bytes < AVAIL_HEADER_LEN \<or> hd bytes \<noteq> AVAIL_VERSION then None
      else
        (let etag = drop AVAIL_HEADER_LEN bytes in
         if etag = [] then None else if utf8_valid etag then Some etag else None))"

section \<open>Programs\<close>

text \<open>
  \<open>Write_Row k expected etag\<close> is \<open>compare_and_put\<close> of a freshly encoded row; its answer comes with the
  bytes of that row. \<open>Swap\<close> is \<open>compare_and_put\<close> of given bytes or, with \<open>None\<close>, a compare-and-remove.
  \<open>Take\<close> is \<open>remove_index_returning\<close>; \<open>Put_Path\<close> spools a file and answers with the path of the copy and
  whether a lease was minted. \<open>Stat\<close>, \<open>List_Below\<close>, \<open>Fetch\<close> (a read), \<open>Materialize\<close>, \<open>Write_Below\<close>
  (through \<open>write\<close> or \<open>write_stream\<close>) and \<open>Mutate\<close> are the verbs of the layer below. \<open>Outside\<close> asks what
  else lies outside the program: how many items of a stream are pulled, and which of the numbered staging
  operations succeed.
\<close>

datatype mutation =
    Mut_Continue string | Mut_Delete string | Mut_Copy string | Mut_Rename string string
  | Mut_Update_Metadata string | Mut_Create_Directory string | Mut_Delete_Directory string

datatype answer =
    Ans_Done | Ans_Step write_step | Ans_Item object_info | Ans_Write write_result | Ans_Read read_result
  | Ans_Local local_delegate | Ans_Info object_info | Ans_Page list_page

type_synonym outside = "nat \<times> (nat \<Rightarrow> bool)"

datatype 'a prog =
    Ret 'a
  | Get string "string option result \<Rightarrow> 'a prog"
  | Write_Row string "string option" string "bool result \<times> string \<Rightarrow> 'a prog"
  | Swap string "string option" "string option" "bool result \<Rightarrow> 'a prog"
  | Remove string "unit result \<Rightarrow> 'a prog"
  | Take string "string option result \<Rightarrow> 'a prog"
  | Remove_Prefix string "unit result \<Rightarrow> 'a prog"
  | Has_Prefix string "bool result \<Rightarrow> 'a prog"
  | Put string string "unit result \<Rightarrow> 'a prog"
  | Put_Path string string "(string \<times> bool) result \<Rightarrow> 'a prog"
  | Lookup string "(string \<times> nat) option result \<Rightarrow> 'a prog"
  | Bump string "'a prog"
  | Bump_Under string "'a prog"
  | Register string "nat \<Rightarrow> 'a prog"
  | Current string "nat \<Rightarrow> 'a prog"
  | Release string "'a prog"
  | Note url "'a prog"
  | Stat string "object_info result \<Rightarrow> 'a prog"
  | List_Below string "list_page result \<Rightarrow> 'a prog"
  | Fetch string "read_result result \<Rightarrow> 'a prog"
  | Materialize string "local_delegate result \<Rightarrow> 'a prog"
  | Write_Below string bool "write_result result \<Rightarrow> 'a prog"
  | Mutate mutation "answer result \<Rightarrow> 'a prog"
  | File_Len string "nat option \<Rightarrow> 'a prog"
  | File_Read string "string option \<Rightarrow> 'a prog"
  | Outside "outside \<Rightarrow> 'a prog"

section \<open>Reading and removing rows\<close>

definition read_avail :: "string \<Rightarrow> string \<Rightarrow> ((string option \<times> string option) result \<Rightarrow> 'a prog) \<Rightarrow> 'a prog" where
  "read_avail part addr k =
     Get (availability_index_key part addr)
       (\<lambda>r. case r of Inl e \<Rightarrow> k (Inl e) | Inr raw \<Rightarrow> k (Inr (raw, Option.bind raw parse_avail)))"

definition last_known_validator_impl :: "string \<Rightarrow> string \<Rightarrow> (string option \<Rightarrow> 'a prog) \<Rightarrow> 'a prog" where
  "last_known_validator_impl part addr k =
     read_avail part addr (\<lambda>r. case r of Inl _ \<Rightarrow> k None | Inr (_, etag) \<Rightarrow> k etag)"

definition reclaim :: "string option \<Rightarrow> 'a prog \<Rightarrow> 'a prog" where
  "reclaim content p = (case content of Some k \<Rightarrow> Remove k (\<lambda>_. p) | None \<Rightarrow> p)"

definition retry_transient_once :: "(('b result \<Rightarrow> 'a prog) \<Rightarrow> 'a prog) \<Rightarrow> ('b result \<Rightarrow> 'a prog) \<Rightarrow> 'a prog" where
  "retry_transient_once operation k = operation (\<lambda>first. if first = Inl Err_Transient then operation k else k first)"

definition remove_availability_and_reclaim :: "string \<Rightarrow> string \<Rightarrow> string \<Rightarrow> (unit result \<Rightarrow> 'a prog) \<Rightarrow> 'a prog" where
  "remove_availability_and_reclaim k part addr cont =
     retry_transient_once (Take k)
       (\<lambda>r. case r of
              Inl _ \<Rightarrow> Remove k cont
            | Inr removed \<Rightarrow>
                reclaim (map_option (content_cache_key part addr) (Option.bind removed parse_avail)) (cont (Inr ())))"

definition clear_compare_off_runtime :: "string \<Rightarrow> string option \<Rightarrow> string \<Rightarrow> string \<Rightarrow> string option \<Rightarrow> (bool result \<Rightarrow> 'a prog) \<Rightarrow> 'a prog" where
  "clear_compare_off_runtime k expected part addr previous_content cont =
     Write_Row k expected []
       (\<lambda>(r, _). case r of
          Inr True \<Rightarrow> reclaim previous_content (cont (Inr True))
        | Inr False \<Rightarrow> cont (Inr False)
        | Inl _ \<Rightarrow>
            remove_availability_and_reclaim k part addr
              (\<lambda>cleanup. reclaim previous_content
                 (case cleanup of Inl e \<Rightarrow> cont (Inl e) | Inr _ \<Rightarrow> cont (Inr True))))"

fun snapshot_loop :: "nat \<Rightarrow> string \<Rightarrow> string \<Rightarrow> (string option \<Rightarrow> 'a prog) \<Rightarrow> 'a prog" where
  "snapshot_loop 0 part addr k = k None"
| "snapshot_loop (Suc n) part addr k =
     read_avail part addr
       (\<lambda>r. case r of
          Inl _ \<Rightarrow> k None
        | Inr (Some raw, _) \<Rightarrow> k (Some raw)
        | Inr (None, _) \<Rightarrow>
            Write_Row (availability_index_key part addr) None []
              (\<lambda>(r, seed). case r of
                 Inl _ \<Rightarrow> k None
               | Inr True \<Rightarrow> k (Some seed)
               | Inr False \<Rightarrow> snapshot_loop n part addr k))"

definition snapshot_avail :: "string \<Rightarrow> string \<Rightarrow> (string option \<Rightarrow> 'a prog) \<Rightarrow> 'a prog" where
  "snapshot_avail = snapshot_loop AVAIL_CAS_ATTEMPTS"

section \<open>Guards\<close>

text \<open>An armed guard clears its row when it is dropped, and reclaims the body the row was the only pointer to.\<close>

record availability_clear =
  ac_key :: string
  ac_superseded_content_key :: "string option"
  ac_armed :: bool

definition availability_clear_new :: "string \<Rightarrow> string \<Rightarrow> availability_clear" where
  "availability_clear_new part addr =
     \<lparr>ac_key = availability_index_key part addr, ac_superseded_content_key = None, ac_armed = True\<rparr>"

definition drop_clear :: "availability_clear \<Rightarrow> 'a prog \<Rightarrow> 'a prog" where
  "drop_clear g p =
     (if \<not> ac_armed g then p else Remove (ac_key g) (\<lambda>_. reclaim (ac_superseded_content_key g) p))"

definition drop_guard :: "availability_clear option \<Rightarrow> 'a prog \<Rightarrow> 'a prog" where
  "drop_guard guard p = (case guard of Some g \<Rightarrow> drop_clear g p | None \<Rightarrow> p)"

record mutation_guard =
  mg_clear :: availability_clear
  mg_superseded :: "(string \<times> string) option"
  mg_preserved :: "string option"

definition mutation_guard_arm :: "string \<Rightarrow> string \<Rightarrow> (mutation_guard \<Rightarrow> 'a prog) \<Rightarrow> 'a prog" where
  "mutation_guard_arm part addr k =
     read_avail part addr
       (\<lambda>r. let (preserved, superseded) =
              (case r of
                 Inr (raw, etag) \<Rightarrow> (raw, map_option (\<lambda>etag. (etag, content_cache_key part addr etag)) etag)
               | Inl _ \<Rightarrow> (None, None));
              cleared = (availability_clear_new part addr)\<lparr>ac_superseded_content_key := map_option snd superseded\<rparr>
            in Remove (ac_key cleared)
                 (\<lambda>_. k \<lparr>mg_clear = cleared, mg_superseded = superseded, mg_preserved = preserved\<rparr>))"

definition mutation_guard_disarm :: "mutation_guard \<Rightarrow> string option \<Rightarrow> 'a prog \<Rightarrow> 'a prog" where
  "mutation_guard_disarm g now_published p =
     (case mg_superseded g of
        Some (etag, content_key) \<Rightarrow> if Some etag \<noteq> now_published then Remove content_key (\<lambda>_. p) else p
      | None \<Rightarrow> p)"

definition mutation_guard_disarm_unchanged :: "mutation_guard \<Rightarrow> 'a prog \<Rightarrow> 'a prog" where
  "mutation_guard_disarm_unchanged g p =
     (case mg_preserved g of
        None \<Rightarrow> p
      | Some preserved \<Rightarrow> Swap (ac_key (mg_clear g)) None (Some preserved) (\<lambda>_. p))"

definition proved :: "object_info \<Rightarrow> string option" where
  "proved info =
     (if oi_etag_strength info = Etag_Strong
      then (case oi_etag info of Some etag \<Rightarrow> if etag = [] then None else Some etag | None \<Rightarrow> None)
      else None)"

definition read_guard_arm :: "string \<Rightarrow> string \<Rightarrow> string \<Rightarrow> string option \<Rightarrow> availability_clear" where
  "read_guard_arm part addr proof snapshot =
     (availability_clear_new part addr)\<lparr>ac_superseded_content_key :=
        (case Option.bind snapshot parse_avail of
           Some previous \<Rightarrow> if previous \<noteq> proof then Some (content_cache_key part addr previous) else None
         | None \<Rightarrow> None)\<rparr>"

section \<open>Publication\<close>

datatype publish_outcome = Settled | Unsettled

definition settled_by_removal :: "string \<Rightarrow> (publish_outcome \<Rightarrow> 'a prog) \<Rightarrow> 'a prog" where
  "settled_by_removal k cont = Remove k (\<lambda>r. case r of Inr _ \<Rightarrow> cont Settled | Inl _ \<Rightarrow> cont Unsettled)"

text \<open>The guard is the caller's; it is dropped when the function returns, unless the publication settled the row.\<close>

definition record_latest_guarded_impl ::
    "string \<Rightarrow> string \<Rightarrow> string option \<Rightarrow> string \<Rightarrow> availability_clear option \<Rightarrow> (publish_outcome \<Rightarrow> 'a prog) \<Rightarrow> 'a prog" where
  "record_latest_guarded_impl part addr snapshot etag guard k =
     (case snapshot of
        None \<Rightarrow> drop_guard guard (k Unsettled)
      | Some snapshot \<Rightarrow>
          (let key = availability_index_key part addr;
               finish = (\<lambda>outcome. if outcome = Settled then k Settled else drop_guard guard (k Unsettled))
           in Write_Row key (Some snapshot) etag
                (\<lambda>(swapped, _). case swapped of
                   Inr True \<Rightarrow>
                     (case parse_avail snapshot of
                        Some previous \<Rightarrow>
                          if previous \<noteq> etag then Remove (content_cache_key part addr previous) (\<lambda>_. k Settled) else k Settled
                      | None \<Rightarrow> k Settled)
                 | Inr False \<Rightarrow>
                     read_avail part addr
                       (\<lambda>r. case r of
                          Inr (_, current) \<Rightarrow> if current = Some etag then finish Settled else settled_by_removal key finish
                        | Inl _ \<Rightarrow> settled_by_removal key finish)
                 | Inl _ \<Rightarrow> settled_by_removal key finish)))"

definition publish_mutation_impl :: "string \<Rightarrow> string \<Rightarrow> string option \<Rightarrow> string \<Rightarrow> (unit result \<Rightarrow> 'a prog) \<Rightarrow> 'a prog" where
  "publish_mutation_impl part addr snapshot etag k =
     (let key = availability_index_key part addr in
      case snapshot of
        None \<Rightarrow> Remove key k
      | Some snapshot \<Rightarrow>
          Write_Row key (Some snapshot) etag (\<lambda>(r, _). if r = Inr True then k (Inr ()) else Remove key k))"

section \<open>Invalidation\<close>

fun clear_latest_loop :: "nat \<Rightarrow> string \<Rightarrow> string \<Rightarrow> (unit result \<Rightarrow> 'a prog) \<Rightarrow> 'a prog" where
  "clear_latest_loop 0 part addr k = remove_availability_and_reclaim (availability_index_key part addr) part addr k"
| "clear_latest_loop (Suc n) part addr k =
     read_avail part addr
       (\<lambda>r. case r of
          Inl _ \<Rightarrow> remove_availability_and_reclaim (availability_index_key part addr) part addr k
        | Inr (current, cur_etag) \<Rightarrow>
            clear_compare_off_runtime (availability_index_key part addr) current part addr
              (map_option (content_cache_key part addr) cur_etag)
              (\<lambda>r. case r of
                 Inr True \<Rightarrow> k (Inr ())
               | Inr False \<Rightarrow> clear_latest_loop n part addr k
               | Inl _ \<Rightarrow> remove_availability_and_reclaim (availability_index_key part addr) part addr k))"

definition clear_latest_impl :: "string \<Rightarrow> string \<Rightarrow> (unit result \<Rightarrow> 'a prog) \<Rightarrow> 'a prog" where
  "clear_latest_impl part addr k = Bump addr (clear_latest_loop AVAIL_CAS_ATTEMPTS part addr k)"

definition clear_live_fallback_impl :: "string \<Rightarrow> string \<Rightarrow> (unit result \<Rightarrow> 'a prog) \<Rightarrow> 'a prog" where
  "clear_live_fallback_impl part addr k =
     read_avail part addr
       (\<lambda>r. case r of
          Inr (Some current, Some previous) \<Rightarrow>
            Bump addr
              (clear_compare_off_runtime (availability_index_key part addr) (Some current) part addr
                 (Some (content_cache_key part addr previous))
                 (\<lambda>r. case r of Inl e \<Rightarrow> k (Inl e) | Inr _ \<Rightarrow> k (Inr ())))
        | _ \<Rightarrow> k (Inr ()))"

definition clear_watched_object :: "string \<Rightarrow> string \<Rightarrow> (unit result \<Rightarrow> 'a prog) \<Rightarrow> 'a prog" where
  "clear_watched_object part addr k =
     Bump addr (remove_availability_and_reclaim (availability_index_key part addr) part addr k)"

definition and_result :: "unit result \<Rightarrow> unit result \<Rightarrow> unit result" where
  "and_result a b = (case a of Inl e \<Rightarrow> Inl e | Inr _ \<Rightarrow> b)"

definition subtree_dir :: "string \<Rightarrow> string" where
  "subtree_dir addr = (if ends_with ''/'' addr then addr else addr @ ''/'')"

definition clear_subtree_impl :: "string \<Rightarrow> string \<Rightarrow> (unit result \<Rightarrow> 'a prog) \<Rightarrow> 'a prog" where
  "clear_subtree_impl part addr k =
     (let dir = subtree_dir addr in
      Bump_Under dir
        (Remove_Prefix (availability_prefix part @ dir)
           (\<lambda>availability. Remove_Prefix (content_prefix part @ dir)
              (\<lambda>content. k (and_result availability content)))))"

text \<open>At construction the namespaces of earlier encodings are swept, contents first.\<close>

fun any_with_prefix :: "string list \<Rightarrow> (bool \<Rightarrow> 'a prog) \<Rightarrow> 'a prog" where
  "any_with_prefix [] k = k False"
| "any_with_prefix (p # ps) k = Has_Prefix p (\<lambda>r. if r = Inr True then k True else any_with_prefix ps k)"

fun remove_prefixes :: "string list \<Rightarrow> 'a prog \<Rightarrow> 'a prog" where
  "remove_prefixes [] p = p"
| "remove_prefixes (q # qs) p = Remove_Prefix q (\<lambda>_. remove_prefixes qs p)"

definition sweep_legacy_cache_rows :: "string \<Rightarrow> 'a prog \<Rightarrow> 'a prog" where
  "sweep_legacy_cache_rows part p =
     any_with_prefix (legacy_availability_prefixes part)
       (\<lambda>has_legacy_availability. any_with_prefix [legacy_content_prefix part]
          (\<lambda>has_legacy_content.
             if \<not> has_legacy_availability \<and> \<not> has_legacy_content then p
             else remove_prefixes (legacy_content_prefix part # legacy_availability_prefixes part) p))"

definition finalize_committed_tee_impl :: "string \<Rightarrow> string \<Rightarrow> string option \<Rightarrow> string \<Rightarrow> nat \<Rightarrow> nat \<Rightarrow> (unit result \<Rightarrow> 'a prog) \<Rightarrow> 'a prog" where
  "finalize_committed_tee_impl part addr snapshot etag current_generation start_generation k =
     (if current_generation \<noteq> start_generation
      then Remove (content_cache_key part addr etag) (\<lambda>_. clear_latest_impl part addr k)
      else Bump addr (publish_mutation_impl part addr snapshot etag k))"

section \<open>Generations\<close>

text \<open>An entry is the number of tees registered for the address and its generation.\<close>

type_synonym generation_map = "(string \<times> nat \<times> nat) list"

definition tee_register :: "string \<Rightarrow> generation_map \<Rightarrow> nat \<times> generation_map" where
  "tee_register addr gens =
     (case map_of gens addr of
        None \<Rightarrow> (0, AList.update addr (1, 0) gens)
      | Some (refcount, generation) \<Rightarrow> (generation, AList.update addr (refcount + 1, generation) gens))"

definition tee_current :: "string \<Rightarrow> generation_map \<Rightarrow> nat" where
  "tee_current addr gens = (case map_of gens addr of Some (_, generation) \<Rightarrow> generation | None \<Rightarrow> 0)"

definition tee_release :: "string \<Rightarrow> generation_map \<Rightarrow> generation_map" where
  "tee_release addr gens =
     (case map_of gens addr of
        None \<Rightarrow> gens
      | Some (refcount, generation) \<Rightarrow>
          (if refcount - 1 = 0 then AList.delete addr gens else AList.update addr (refcount - 1, generation) gens))"

definition bump_generation_key :: "string \<Rightarrow> generation_map \<Rightarrow> generation_map" where
  "bump_generation_key addr gens =
     (case map_of gens addr of None \<Rightarrow> gens | Some (refcount, generation) \<Rightarrow> AList.update addr (refcount, generation + 1) gens)"

definition bump_generations_under_prefix :: "string \<Rightarrow> generation_map \<Rightarrow> generation_map" where
  "bump_generations_under_prefix dir =
     map (\<lambda>(addr, refcount, generation). (addr, refcount, if starts_with dir addr then generation + 1 else generation))"

end
