(* ===== verification/Ov_Byte_Layer.thy ===== *)
theory Ov_Byte_Layer
  imports Ov_Byte_Index Ov_Meta_Layer
begin

text \<open>
  The verbs of the byte cache layer (\<open>ByteCacheWrapper\<close> of \<open>ovstorage-plugin-cache/src/byte_cache.rs\<close>) as
  programs of calls. Streams are the lists of the items they deliver. A read that answers with a teed stream
  is one program until that stream has been drained or dropped, and so is a watch until its stream ends.
  Guards of delegates and log lines are left out, and the calls of the layer below carry the serialized
  address in place of the request, which the layer forwards unchanged.
\<close>

section \<open>The wrapper\<close>

record byte_cache =
  bc_partition :: string
  bc_lost_backing_fallback :: bool
  bc_max_object_bytes :: "nat option"
  bc_max_cache_bytes :: "nat option"
  bc_warm_delegates :: bool
  bc_watches :: bool
  bc_as_str :: "url \<Rightarrow> string"

definition cache_key :: "byte_cache \<Rightarrow> url \<Rightarrow> string \<Rightarrow> string" where
  "cache_key E addr etag = content_cache_key (bc_partition E) (bc_as_str E addr) etag"

definition cached_object_info :: "url \<Rightarrow> nat \<Rightarrow> string option \<Rightarrow> object_info" where
  "cached_object_info addr len etag =
     \<lparr>oi_address = addr, oi_kind = Kind_File, oi_etag = etag,
      oi_etag_strength = (case etag of Some e \<Rightarrow> if e \<noteq> [] then Etag_Strong else Etag_Unspecified | None \<Rightarrow> Etag_Unspecified),
      oi_version = None, oi_size = Some len, oi_mtime = None, oi_checksums = [], oi_effective_permissions = None,
      oi_system_metadata = None, oi_user_metadata = None, oi_modified_by = None, oi_versioned_address = None\<rparr>"

definition without_backing_mtime :: "object_info \<Rightarrow> object_info" where
  "without_backing_mtime info = info\<lparr>oi_mtime := None\<rparr>"

definition disproves_cached_validator :: "object_info \<Rightarrow> bool" where
  "disproves_cached_validator info =
     (case oi_etag info of None \<Rightarrow> False | Some etag \<Rightarrow> etag = [] \<or> oi_etag_strength info \<noteq> Etag_Strong)"

definition result_info :: "read_result \<Rightarrow> object_info option" where
  "result_info r =
     (case r of
        Read_Bytes _ info \<Rightarrow> Some info
      | Read_Stream _ info \<Rightarrow> Some info
      | Read_LocalDelegate local \<Rightarrow> Some (ld_info local)
      | Read_Redirect _ \<Rightarrow> None)"

definition within_object_cap :: "byte_cache \<Rightarrow> nat \<Rightarrow> string \<Rightarrow> bool" where
  "within_object_cap E len etag =
     (if (case bc_max_object_bytes E of Some cap \<Rightarrow> cap < len | None \<Rightarrow> False) then False
      else fits_alongside_its_row len etag (bc_max_cache_bytes E))"

section \<open>Settling without a validator\<close>

definition discard_unused_seed :: "byte_cache \<Rightarrow> url \<Rightarrow> string option \<Rightarrow> 'a prog \<Rightarrow> 'a prog" where
  "discard_unused_seed E addr snapshot p =
     (case snapshot of
        None \<Rightarrow> p
      | Some snapshot \<Rightarrow>
          if parse_avail snapshot \<noteq> None then p
          else Swap (availability_index_key (bc_partition E) (bc_as_str E addr)) (Some snapshot) None (\<lambda>_. p))"

definition settle_without_validator :: "byte_cache \<Rightarrow> url \<Rightarrow> object_info option \<Rightarrow> string option \<Rightarrow> 'a prog \<Rightarrow> 'a prog" where
  "settle_without_validator E addr reported_info snapshot p =
     (if (case reported_info of Some info \<Rightarrow> disproves_cached_validator info | None \<Rightarrow> False)
      then clear_live_fallback_impl (bc_partition E) (bc_as_str E addr) (\<lambda>_. discard_unused_seed E addr snapshot p)
      else discard_unused_seed E addr snapshot p)"

section \<open>The validator probe\<close>

record validator_probe =
  vp_validator :: "string option"
  vp_registers :: bool
  vp_snapshot_fence :: bool
  vp_untrusted_stat_settled :: bool

definition probe_silent :: validator_probe where
  "probe_silent = \<lparr>vp_validator = None, vp_registers = False, vp_snapshot_fence = False, vp_untrusted_stat_settled = False\<rparr>"

definition probe_answered :: "string option \<Rightarrow> validator_probe" where
  "probe_answered validator =
     \<lparr>vp_validator = validator, vp_registers = True, vp_snapshot_fence = True, vp_untrusted_stat_settled = False\<rparr>"

definition stat_outage :: "error_code \<Rightarrow> bool" where
  "stat_outage e =
     (e \<in> {Err_Transient, Err_DeadlineExceeded, Err_ResourceExhausted, Err_Internal, Err_BrokerUnavailable,
           Err_NetworkFilesystemRefused, Err_StateRootUnavailable, Err_RedirectExpired})"

definition lookup_etag :: "byte_cache \<Rightarrow> url \<Rightarrow> (validator_probe result \<Rightarrow> 'a prog) \<Rightarrow> 'a prog" where
  "lookup_etag E addr k =
     Stat (bc_as_str E addr)
       (\<lambda>r. case r of
          Inr info \<Rightarrow>
            (let disproves_fallback = disproves_cached_validator info in
             settle_without_validator E addr (Some info) None
               (k (Inr \<lparr>vp_validator = proved info, vp_registers = True, vp_snapshot_fence = \<not> disproves_fallback,
                        vp_untrusted_stat_settled = disproves_fallback\<rparr>)))
        | Inl e \<Rightarrow>
            (if e = Err_Cancelled then k (Inl e)
             else if stat_outage e \<or> e = Err_NotFound \<and> bc_lost_backing_fallback E
             then last_known_validator_impl (bc_partition E) (bc_as_str E addr) (\<lambda>v. k (Inr (probe_answered v)))
             else if e = Err_NotFound \<or> e = Err_Unsupported then k (Inr (probe_answered None))
             else k (Inr probe_silent)))"

section \<open>Fills\<close>

text \<open>The continuation of a fill receives the guard that is still armed, if any.\<close>

definition fill_and_publish ::
    "byte_cache \<Rightarrow> url \<Rightarrow> string \<Rightarrow> string \<Rightarrow> string option \<Rightarrow> availability_clear option \<Rightarrow>
     (availability_clear option \<Rightarrow> 'a prog) \<Rightarrow> 'a prog" where
  "fill_and_publish E addr etag bytes snapshot guard k =
     (if \<not> within_object_cap E (length bytes) etag then k guard
      else
        Put (cache_key E addr etag) bytes
          (\<lambda>r. case r of
             Inl _ \<Rightarrow> k guard
           | Inr _ \<Rightarrow>
               Note addr
                 (record_latest_guarded_impl (bc_partition E) (bc_as_str E addr) snapshot etag guard (\<lambda>_. k None))))"

definition byte_delegate_size :: "local_delegate \<Rightarrow> (nat \<Rightarrow> 'a prog) \<Rightarrow> 'a prog" where
  "byte_delegate_size local k =
     File_Len (ld_path local)
       (\<lambda>r. case r of Some len \<Rightarrow> k len | None \<Rightarrow> k (case oi_size (ld_info local) of Some n \<Rightarrow> n | None \<Rightarrow> 0))"

definition leased_copy :: "local_delegate \<Rightarrow> string \<Rightarrow> local_delegate" where
  "leased_copy local path = local\<lparr>ld_path := path, ld_info := without_backing_mtime (ld_info local)\<rparr>"

definition warm_delegate ::
    "byte_cache \<Rightarrow> url \<Rightarrow> local_delegate \<Rightarrow> string option \<Rightarrow> availability_clear \<Rightarrow> (read_result \<Rightarrow> 'a prog) \<Rightarrow> 'a prog" where
  "warm_delegate E addr local snapshot guard k =
     (let unwarmed = drop_clear guard (k (Read_LocalDelegate local)) in
      case proved (ld_info local) of
        None \<Rightarrow> unwarmed
      | Some etag \<Rightarrow>
          (let spool =
             Put_Path (cache_key E addr etag) (ld_path local)
               (\<lambda>r. case r of
                  Inr (path, True) \<Rightarrow>
                    record_latest_guarded_impl (bc_partition E) (bc_as_str E addr) snapshot etag (Some guard)
                      (\<lambda>_. Note addr (k (Read_LocalDelegate (leased_copy local path))))
                | _ \<Rightarrow> unwarmed)
           in case bc_max_object_bytes E of
                Some cap \<Rightarrow> byte_delegate_size local (\<lambda>size. if cap < size then unwarmed else spool)
              | None \<Rightarrow> spool))"

section \<open>The read tee\<close>

text \<open>
  \<open>pulls\<close> is how often the caller asks the stream for an item before dropping it; \<open>ok\<close> says which staging
  operations succeed, number 0 being the opening of the staging file and the others the chunks, numbered by
  the pulls left. A chunk past the cap is refused.
\<close>

definition staging_takes :: "nat option \<Rightarrow> bool \<Rightarrow> string \<Rightarrow> string \<Rightarrow> bool" where
  "staging_takes cap ok staged chunk =
     (ok \<and> (case cap of Some c \<Rightarrow> length staged + length chunk \<le> c | None \<Rightarrow> True))"

fun tee_into_cache ::
    "byte_cache \<Rightarrow> url \<Rightarrow> string \<Rightarrow> string option \<Rightarrow> availability_clear \<Rightarrow> nat option \<Rightarrow> nat \<Rightarrow> nat \<Rightarrow> (nat \<Rightarrow> bool) \<Rightarrow>
     string stream \<Rightarrow> string \<Rightarrow> 'a prog \<Rightarrow> 'a prog" where
  "tee_into_cache E addr etag snapshot guard expected_size start_generation 0 ok items staged p =
     drop_clear guard (Release (bc_as_str E addr) p)"
| "tee_into_cache E addr etag snapshot guard expected_size start_generation (Suc pulls) ok (Inr chunk # items) staged p =
     (if staging_takes (bc_max_object_bytes E) (ok (Suc pulls)) staged chunk
      then tee_into_cache E addr etag snapshot guard expected_size start_generation pulls ok items (staged @ chunk) p
      else drop_clear guard (Release (bc_as_str E addr) p))"
| "tee_into_cache E addr etag snapshot guard expected_size start_generation (Suc pulls) ok (Inl e # items) staged p =
     drop_clear guard (Release (bc_as_str E addr) p)"
| "tee_into_cache E addr etag snapshot guard expected_size start_generation (Suc pulls) ok [] staged p =
     (let abandon = Release (bc_as_str E addr) (drop_clear guard p);
          size_ok = (case expected_size of Some expected \<Rightarrow> length staged = expected | None \<Rightarrow> True)
      in Current (bc_as_str E addr)
           (\<lambda>current. if size_ok \<and> current = start_generation
             then Put (cache_key E addr etag) staged
                    (\<lambda>r. case r of
                       Inl _ \<Rightarrow> abandon
                     | Inr _ \<Rightarrow>
                         Note addr
                           (record_latest_guarded_impl (bc_partition E) (bc_as_str E addr) snapshot etag (Some guard)
                              (\<lambda>_. Release (bc_as_str E addr) p)))
             else abandon))"

section \<open>Read verbs\<close>

definition READ_TO_BYTES_EXTENSION :: string where "READ_TO_BYTES_EXTENSION = ''ovstorage.read_to_bytes''"

fun buffer_read_stream :: "nat option \<Rightarrow> string stream \<Rightarrow> string \<Rightarrow> string result" where
  "buffer_read_stream max_bytes [] bytes = Inr bytes"
| "buffer_read_stream max_bytes (Inl e # items) bytes = Inl e"
| "buffer_read_stream max_bytes (Inr chunk # items) bytes =
     (if (case max_bytes of Some cap \<Rightarrow> cap < length bytes + length chunk | None \<Rightarrow> False) then Inl Err_ResourceExhausted
      else buffer_read_stream max_bytes items (bytes @ chunk))"

definition byte_stat :: "byte_cache \<Rightarrow> url \<Rightarrow> answer result prog" where
  "byte_stat E addr =
     Stat (bc_as_str E addr)
       (\<lambda>info. let registers = (case info of Inr _ \<Rightarrow> True | Inl e \<Rightarrow> e = Err_NotFound);
                   done = Ret (map_sum id Ans_Info info)
               in if bc_watches E \<and> stat_is_cacheable addr \<and> registers then Note addr done else done)"

definition byte_list :: "byte_cache \<Rightarrow> url \<Rightarrow> list_options \<Rightarrow> answer result prog" where
  "byte_list E prefx options =
     List_Below (bc_as_str E prefx)
       (\<lambda>page. case page of
          Inl e \<Rightarrow> Ret (Inl e)
        | Inr page \<Rightarrow>
            if bc_watches E \<and> list_is_cacheable prefx options then Note prefx (Ret (Inr (Ans_Page page)))
            else Ret (Inr (Ans_Page page)))"

definition maybe_snapshot :: "byte_cache \<Rightarrow> url \<Rightarrow> bool \<Rightarrow> (string option \<Rightarrow> 'a prog) \<Rightarrow> 'a prog" where
  "maybe_snapshot E addr wanted k =
     (if wanted then snapshot_avail (bc_partition E) (bc_as_str E addr) k else k None)"

definition maybe_probe :: "byte_cache \<Rightarrow> url \<Rightarrow> bool \<Rightarrow> (validator_probe result \<Rightarrow> 'a prog) \<Rightarrow> 'a prog" where
  "maybe_probe E addr cacheable k = (if cacheable then lookup_etag E addr k else k (Inr probe_silent))"

definition maybe_note :: "url \<Rightarrow> bool \<Rightarrow> 'a prog \<Rightarrow> 'a prog" where
  "maybe_note addr wanted p = (if wanted then Note addr p else p)"

definition hit_delegate :: "url \<Rightarrow> string \<Rightarrow> string \<times> nat \<Rightarrow> local_delegate" where
  "hit_delegate addr etag found = \<lparr>ld_path = fst found, ld_info = cached_object_info addr (snd found) (Some etag)\<rparr>"

text \<open>The lookup under a validator: an answer, or a miss.\<close>

definition read_hit :: "byte_cache \<Rightarrow> url \<Rightarrow> bool \<Rightarrow> string option \<Rightarrow> answer result prog \<Rightarrow> answer result prog" where
  "read_hit E addr to_bytes validator miss =
     (case validator of
        None \<Rightarrow> miss
      | Some etag \<Rightarrow>
          if to_bytes
          then Get (cache_key E addr etag)
                 (\<lambda>r. case r of
                    Inl e \<Rightarrow> Ret (Inl e)
                  | Inr (Some bytes) \<Rightarrow>
                      Ret (Inr (Ans_Read (Read_Bytes bytes (cached_object_info addr (length bytes) (Some etag)))))
                  | Inr None \<Rightarrow> miss)
          else Lookup (cache_key E addr etag)
                 (\<lambda>r. case r of
                    Inl e \<Rightarrow> Ret (Inl e)
                  | Inr (Some found) \<Rightarrow> Ret (Inr (Ans_Read (Read_LocalDelegate (hit_delegate addr etag found))))
                  | Inr None \<Rightarrow> miss))"

definition read_fill ::
    "byte_cache \<Rightarrow> url \<Rightarrow> string option \<Rightarrow> string \<Rightarrow> object_info \<Rightarrow> string option \<Rightarrow> availability_clear option \<Rightarrow> answer result prog" where
  "read_fill E addr proof bytes info snapshot guard =
     (let answered = Ret (Inr (Ans_Read (Read_Bytes bytes info))) in
      case proof of
        None \<Rightarrow> drop_guard guard answered
      | Some etag \<Rightarrow> fill_and_publish E addr etag bytes snapshot guard (\<lambda>guard. drop_guard guard answered))"

definition read_delegate_bytes ::
    "byte_cache \<Rightarrow> url \<Rightarrow> nat option \<Rightarrow> string option \<Rightarrow> local_delegate \<Rightarrow> string option \<Rightarrow> availability_clear option \<Rightarrow> answer result prog" where
  "read_delegate_bytes E addr max_bytes proof local snapshot guard =
     (let failed = (\<lambda>e. drop_guard guard (Ret (Inl e)));
          load = File_Read (ld_path local)
            (\<lambda>r. case r of
               None \<Rightarrow> failed Err_Internal
             | Some bytes \<Rightarrow>
                 if (case max_bytes of Some cap \<Rightarrow> cap < length bytes | None \<Rightarrow> False) then failed Err_ResourceExhausted
                 else read_fill E addr proof bytes (ld_info local) snapshot guard)
      in case max_bytes of
           Some cap \<Rightarrow> byte_delegate_size local (\<lambda>n. if cap < n then failed Err_ResourceExhausted else load)
         | None \<Rightarrow> load)"

definition read_teed ::
    "byte_cache \<Rightarrow> url \<Rightarrow> string option \<Rightarrow> string stream \<Rightarrow> object_info \<Rightarrow> string option \<Rightarrow> availability_clear option \<Rightarrow> answer result prog" where
  "read_teed E addr proof items info snapshot guard =
     (let answered = Ret (Inr (Ans_Read (Read_Stream items info))) in
      case (proof, guard) of
        (Some etag, Some g) \<Rightarrow>
          Outside
            (\<lambda>(pulls, ok).
               if ok 0
               then Register (bc_as_str E addr)
                      (\<lambda>start. tee_into_cache E addr etag snapshot g (oi_size info) start pulls ok items [] answered)
               else clear_latest_impl (bc_partition E) (bc_as_str E addr) (\<lambda>_. drop_clear g answered))
      | _ \<Rightarrow> answered)"

definition read_arms ::
    "byte_cache \<Rightarrow> url \<Rightarrow> bool \<Rightarrow> bool \<Rightarrow> nat option \<Rightarrow> string option \<Rightarrow> string option \<Rightarrow> availability_clear option \<Rightarrow>
     read_result \<Rightarrow> answer result prog" where
  "read_arms E addr cacheable to_bytes max_bytes proof snapshot guard result =
     (case result of
        Read_Bytes bytes info \<Rightarrow> read_fill E addr proof bytes info snapshot guard
      | Read_Stream items info \<Rightarrow>
          (if cacheable \<and> to_bytes
           then (case buffer_read_stream max_bytes items [] of
                   Inl e \<Rightarrow> drop_guard guard (Ret (Inl e))
                 | Inr bytes \<Rightarrow> read_fill E addr proof bytes info snapshot guard)
           else if cacheable then read_teed E addr proof items info snapshot guard
           else drop_guard guard (Ret (Inr (Ans_Read result))))
      | Read_LocalDelegate local \<Rightarrow>
          (if cacheable \<and> bc_warm_delegates E
           then (case guard of
                   Some g \<Rightarrow> warm_delegate E addr local snapshot g (\<lambda>r. Ret (Inr (Ans_Read r)))
                 | None \<Rightarrow> Ret (Inr (Ans_Read result)))
           else if cacheable \<and> to_bytes then read_delegate_bytes E addr max_bytes proof local snapshot guard
           else drop_guard guard (Ret (Inr (Ans_Read result))))
      | Read_Redirect _ \<Rightarrow> drop_guard guard (Ret (Inr (Ans_Read result))))"

definition read_completed ::
    "byte_cache \<Rightarrow> url \<Rightarrow> bool \<Rightarrow> bool \<Rightarrow> nat option \<Rightarrow> bool \<Rightarrow> string option \<Rightarrow> read_result \<Rightarrow> answer result prog" where
  "read_completed E addr cacheable to_bytes max_bytes untrusted_stat_settled snapshot result =
     (let proof = (if cacheable then Option.bind (result_info result) proved else None);
          reported = (if cacheable then result_info result else None);
          guard = map_option (\<lambda>etag. read_guard_arm (bc_partition E) (bc_as_str E addr) etag snapshot) proof;
          arms = read_arms E addr cacheable to_bytes max_bytes proof snapshot guard result
      in if proof = None \<and> \<not> untrusted_stat_settled
         then settle_without_validator E addr reported snapshot arms
         else arms)"

definition read_cacheable :: "read_request \<Rightarrow> bool" where
  "read_cacheable q = (ro_if_match (rd_options q) = None \<and> ro_range (rd_options q) = None)"

definition byte_read :: "byte_cache \<Rightarrow> read_request \<Rightarrow> answer result prog" where
  "byte_read E q =
     (let addr = rd_address q; cacheable = read_cacheable q;
          to_bytes = (rd_extensions q READ_TO_BYTES_EXTENSION \<noteq> None)
      in if rd_extensions q RESOLVED_OAUTH_CREDENTIAL \<noteq> None
         then Fetch (bc_as_str E addr) (\<lambda>r. Ret (map_sum id Ans_Read r))
         else maybe_probe E addr cacheable
           (\<lambda>r. case r of
              Inl e \<Rightarrow> Ret (Inl e)
            | Inr answered \<Rightarrow>
                maybe_note addr (cacheable \<and> vp_registers answered)
                  (read_hit E addr to_bytes (vp_validator answered)
                     (maybe_snapshot E addr (cacheable \<and> vp_snapshot_fence answered)
                        (\<lambda>snapshot. Fetch (bc_as_str E addr)
                           (\<lambda>r. case r of
                              Inl e \<Rightarrow> discard_unused_seed E addr snapshot (Ret (Inl e))
                            | Inr result \<Rightarrow>
                                read_completed E addr cacheable to_bytes (ro_max_bytes (rd_options q))
                                  (vp_untrusted_stat_settled answered) snapshot result))))))"

definition materialize_hit :: "byte_cache \<Rightarrow> url \<Rightarrow> string option \<Rightarrow> answer result prog \<Rightarrow> answer result prog" where
  "materialize_hit E addr validator miss =
     (case validator of
        None \<Rightarrow> miss
      | Some etag \<Rightarrow>
          Lookup (cache_key E addr etag)
            (\<lambda>r. case r of
               Inl e \<Rightarrow> Ret (Inl e)
             | Inr (Some found) \<Rightarrow> Ret (Inr (Ans_Local (hit_delegate addr etag found)))
             | Inr None \<Rightarrow> miss))"

definition materialize_fill :: "byte_cache \<Rightarrow> url \<Rightarrow> string \<Rightarrow> local_delegate \<Rightarrow> string option \<Rightarrow> answer result prog" where
  "materialize_fill E addr etag local snapshot =
     (let fence = read_guard_arm (bc_partition E) (bc_as_str E addr) etag snapshot;
          staged = drop_clear fence (Ret (Inr (Ans_Local local)))
      in Put_Path (cache_key E addr etag) (ld_path local)
           (\<lambda>r. case r of
              Inr (path, True) \<Rightarrow>
                record_latest_guarded_impl (bc_partition E) (bc_as_str E addr) snapshot etag (Some fence)
                  (\<lambda>_. Note addr (Ret (Inr (Ans_Local (leased_copy local path)))))
            | _ \<Rightarrow> staged))"

definition byte_materialize :: "byte_cache \<Rightarrow> read_request \<Rightarrow> answer result prog" where
  "byte_materialize E q =
     (let addr = rd_address q; cacheable = read_cacheable q
      in if rd_extensions q RESOLVED_OAUTH_CREDENTIAL \<noteq> None
         then Materialize (bc_as_str E addr) (\<lambda>r. Ret (map_sum id Ans_Local r))
         else maybe_probe E addr cacheable
           (\<lambda>r. case r of
              Inl e \<Rightarrow> Ret (Inl e)
            | Inr answered \<Rightarrow>
                maybe_note addr (cacheable \<and> vp_registers answered)
                  (materialize_hit E addr (vp_validator answered)
                     (maybe_snapshot E addr (cacheable \<and> vp_snapshot_fence answered)
                        (\<lambda>snapshot. Materialize (bc_as_str E addr)
                           (\<lambda>r. case r of
                              Inl e \<Rightarrow> discard_unused_seed E addr snapshot (Ret (Inl e))
                            | Inr local \<Rightarrow>
                                (case (if cacheable then proved (ld_info local) else None) of
                                   None \<Rightarrow>
                                     if \<not> vp_untrusted_stat_settled answered
                                     then settle_without_validator E addr (if cacheable then Some (ld_info local) else None)
                                            snapshot (Ret (Inr (Ans_Local local)))
                                     else Ret (Inr (Ans_Local local))
                                 | Some etag \<Rightarrow> materialize_fill E addr etag local snapshot)))))))"

section \<open>Write-through\<close>

record write_tee_state =
  wt_put :: "string option"
  wt_reached_eof :: bool
  wt_aborted :: bool

definition write_tee_new :: write_tee_state where
  "write_tee_new = \<lparr>wt_put = Some [], wt_reached_eof = False, wt_aborted = False\<rparr>"

definition abort_fill :: "write_tee_state \<Rightarrow> write_tee_state" where
  "abort_fill st = st\<lparr>wt_put := None, wt_aborted := True\<rparr>"

text \<open>What the tee of a written body holds once the layer below has pulled the given number of items.\<close>

fun write_tee_body :: "nat option \<Rightarrow> (nat \<Rightarrow> bool) \<Rightarrow> nat \<Rightarrow> string stream \<Rightarrow> write_tee_state \<Rightarrow> write_tee_state" where
  "write_tee_body cap ok 0 items st = st"
| "write_tee_body cap ok (Suc pulls) [] st = st\<lparr>wt_reached_eof := True\<rparr>"
| "write_tee_body cap ok (Suc pulls) (Inl e # items) st = write_tee_body cap ok pulls items (abort_fill st)"
| "write_tee_body cap ok (Suc pulls) (Inr chunk # items) st =
     write_tee_body cap ok pulls items
       (case wt_put st of
          None \<Rightarrow> st
        | Some staged \<Rightarrow>
            if staging_takes cap (ok (Suc pulls)) staged chunk then st\<lparr>wt_put := Some (staged @ chunk)\<rparr> else abort_fill st)"

text \<open>The shared end of a mutation that publishes nothing: clear the row, or leave that to the guard.\<close>

definition clear_and_disarm :: "byte_cache \<Rightarrow> url \<Rightarrow> mutation_guard \<Rightarrow> answer \<Rightarrow> answer result prog" where
  "clear_and_disarm E addr g a =
     clear_latest_impl (bc_partition E) (bc_as_str E addr)
       (\<lambda>r. case r of
          Inl e \<Rightarrow> drop_clear (mg_clear g) (Ret (Inl e))
        | Inr _ \<Rightarrow> mutation_guard_disarm g None (Ret (Inr a)))"

definition write_uncached :: "byte_cache \<Rightarrow> url \<Rightarrow> bool \<Rightarrow> mutation_guard \<Rightarrow> answer result prog" where
  "write_uncached E addr use_write_stream g =
     Write_Below (bc_as_str E addr) use_write_stream
       (\<lambda>r. case r of
          Inl e \<Rightarrow> drop_clear (mg_clear g) (Ret (Inl e))
        | Inr w \<Rightarrow> clear_and_disarm E addr g (Ans_Write w))"

definition finalize_committed_tee :: "byte_cache \<Rightarrow> url \<Rightarrow> string option \<Rightarrow> string \<Rightarrow> nat \<Rightarrow> (unit result \<Rightarrow> 'a prog) \<Rightarrow> 'a prog" where
  "finalize_committed_tee E addr snapshot etag start_generation k =
     Current (bc_as_str E addr)
       (\<lambda>current. finalize_committed_tee_impl (bc_partition E) (bc_as_str E addr) snapshot etag current start_generation
          (\<lambda>outcome. maybe_note addr (current = start_generation) (k outcome)))"

text \<open>After the layer below accepted the write: commit the staged body and publish, or clear.\<close>

definition write_settle ::
    "byte_cache \<Rightarrow> url \<Rightarrow> mutation_guard \<Rightarrow> string option \<Rightarrow> nat \<Rightarrow> string option \<Rightarrow> write_result \<Rightarrow> answer result prog" where
  "write_settle E addr g snapshot start_generation staged w =
     (let finish = (\<lambda>published r. case r of
              Inl e \<Rightarrow> Release (bc_as_str E addr) (drop_clear (mg_clear g) (Ret (Inl e)))
            | Inr _ \<Rightarrow> mutation_guard_disarm g published (Release (bc_as_str E addr) (Ret (Inr (Ans_Write w)))));
          invalidate = clear_latest_impl (bc_partition E) (bc_as_str E addr) (finish None)
      in case (staged, proved (res_info w)) of
           (Some bytes, Some etag) \<Rightarrow>
             Current (bc_as_str E addr)
               (\<lambda>current. if current = start_generation
                 then Put (cache_key E addr etag) bytes
                        (\<lambda>r. case r of
                           Inl _ \<Rightarrow> invalidate
                         | Inr _ \<Rightarrow> finalize_committed_tee E addr snapshot etag start_generation (finish (Some etag)))
                 else invalidate)
         | _ \<Rightarrow> invalidate)"

definition write_failed :: "byte_cache \<Rightarrow> url \<Rightarrow> mutation_guard \<Rightarrow> error_code \<Rightarrow> answer result prog" where
  "write_failed E addr g e = Release (bc_as_str E addr) (drop_clear (mg_clear g) (Ret (Inl e)))"

definition streamed_write_through :: "byte_cache \<Rightarrow> url \<Rightarrow> string stream \<Rightarrow> bool \<Rightarrow> answer result prog" where
  "streamed_write_through E addr items use_write_stream =
     mutation_guard_arm (bc_partition E) (bc_as_str E addr)
       (\<lambda>g. Outside
          (\<lambda>(pulls, ok).
             if \<not> ok 0 then write_uncached E addr use_write_stream g
             else snapshot_avail (bc_partition E) (bc_as_str E addr)
               (\<lambda>snapshot. Register (bc_as_str E addr)
                  (\<lambda>start. Write_Below (bc_as_str E addr) use_write_stream
                     (\<lambda>r. case r of
                        Inl e \<Rightarrow> write_failed E addr g e
                      | Inr w \<Rightarrow>
                          (let st = write_tee_body (bc_max_object_bytes E) ok pulls items write_tee_new;
                               whole = (case wt_put st of
                                   Some staged \<Rightarrow>
                                     if wt_reached_eof st \<and> \<not> wt_aborted st \<and>
                                        (case oi_size (res_info w) of Some n \<Rightarrow> length staged = n | None \<Rightarrow> True)
                                     then Some staged else None
                                 | None \<Rightarrow> None)
                           in write_settle E addr g snapshot start whole w))))))"

definition buffered_write_through :: "byte_cache \<Rightarrow> url \<Rightarrow> string \<Rightarrow> answer result prog" where
  "buffered_write_through E addr bytes =
     mutation_guard_arm (bc_partition E) (bc_as_str E addr)
       (\<lambda>g. Outside
          (\<lambda>(_, ok).
             if \<not> ok 0 then write_uncached E addr False g
             else snapshot_avail (bc_partition E) (bc_as_str E addr)
               (\<lambda>snapshot. Register (bc_as_str E addr)
                  (\<lambda>start.
                     if \<not> staging_takes (bc_max_object_bytes E) (ok 1) [] bytes
                     then Release (bc_as_str E addr) (write_uncached E addr False g)
                     else Write_Below (bc_as_str E addr) False
                       (\<lambda>r. case r of
                          Inl e \<Rightarrow> write_failed E addr g e
                        | Inr w \<Rightarrow> write_settle E addr g snapshot start (Some bytes) w)))))"

section \<open>Mutating verbs\<close>

definition byte_write :: "byte_cache \<Rightarrow> put_request \<Rightarrow> answer result prog" where
  "byte_write E q =
     (case put_body q of
        Body_Bytes bytes \<Rightarrow> buffered_write_through E (put_address q) bytes
      | Body_Stream items \<Rightarrow> streamed_write_through E (put_address q) items False
      | Body_LocalFile _ \<Rightarrow>
          mutation_guard_arm (bc_partition E) (bc_as_str E (put_address q)) (write_uncached E (put_address q) False))"

definition byte_write_stream :: "byte_cache \<Rightarrow> put_request \<Rightarrow> answer result prog" where
  "byte_write_stream E q =
     (case put_body q of
        Body_Stream items \<Rightarrow> streamed_write_through E (put_address q) items True
      | _ \<Rightarrow>
          mutation_guard_arm (bc_partition E) (bc_as_str E (put_address q)) (write_uncached E (put_address q) True))"

definition mutate_and_clear :: "byte_cache \<Rightarrow> url \<Rightarrow> mutation \<Rightarrow> answer result prog" where
  "mutate_and_clear E addr m =
     mutation_guard_arm (bc_partition E) (bc_as_str E addr)
       (\<lambda>g. Mutate m
          (\<lambda>r. case r of
             Inl e \<Rightarrow> drop_clear (mg_clear g) (Ret (Inl e))
           | Inr a \<Rightarrow> clear_and_disarm E addr g a))"

definition byte_delete :: "byte_cache \<Rightarrow> url \<Rightarrow> answer result prog" where
  "byte_delete E addr = mutate_and_clear E addr (Mut_Delete (bc_as_str E addr))"

definition byte_update_metadata :: "byte_cache \<Rightarrow> url \<Rightarrow> answer result prog" where
  "byte_update_metadata E addr = mutate_and_clear E addr (Mut_Update_Metadata (bc_as_str E addr))"

definition byte_create_directory :: "byte_cache \<Rightarrow> url \<Rightarrow> answer result prog" where
  "byte_create_directory E addr = mutate_and_clear E addr (Mut_Create_Directory (bc_as_str E addr))"

definition byte_continue_write :: "byte_cache \<Rightarrow> url \<Rightarrow> answer result prog" where
  "byte_continue_write E addr =
     mutation_guard_arm (bc_partition E) (bc_as_str E addr)
       (\<lambda>g. Mutate (Mut_Continue (bc_as_str E addr))
          (\<lambda>r. case r of
             Inl e \<Rightarrow> drop_clear (mg_clear g) (Ret (Inl e))
           | Inr (Ans_Step (Write_Redirects batch)) \<Rightarrow>
               mutation_guard_disarm_unchanged g (Ret (Inr (Ans_Step (Write_Redirects batch))))
           | Inr a \<Rightarrow> clear_and_disarm E addr g a))"

text \<open>A directory-shaped mutation clears its own row and its subtree; the first error is reported after both.\<close>

definition mutate_subtree :: "byte_cache \<Rightarrow> url \<Rightarrow> mutation \<Rightarrow> answer result prog" where
  "mutate_subtree E addr m =
     (let part = bc_partition E; a = bc_as_str E addr in
      mutation_guard_arm part a
        (\<lambda>g. Mutate m
           (\<lambda>r. case r of
              Inl e \<Rightarrow> drop_clear (mg_clear g) (Ret (Inl e))
            | Inr done \<Rightarrow>
                clear_latest_impl part a
                  (\<lambda>cleared. clear_subtree_impl part a
                     (\<lambda>subtree. case and_result cleared subtree of
                        Inl e \<Rightarrow> drop_clear (mg_clear g) (Ret (Inl e))
                      | Inr _ \<Rightarrow> mutation_guard_disarm g None (Ret (Inr done)))))))"

definition byte_copy :: "byte_cache \<Rightarrow> url \<Rightarrow> answer result prog" where
  "byte_copy E destination = mutate_subtree E destination (Mut_Copy (bc_as_str E destination))"

definition byte_delete_directory :: "byte_cache \<Rightarrow> url \<Rightarrow> answer result prog" where
  "byte_delete_directory E addr = mutate_subtree E addr (Mut_Delete_Directory (bc_as_str E addr))"

definition byte_rename :: "byte_cache \<Rightarrow> url \<Rightarrow> url \<Rightarrow> answer result prog" where
  "byte_rename E source destination =
     (let part = bc_partition E; s = bc_as_str E source; d = bc_as_str E destination in
      mutation_guard_arm part s
        (\<lambda>sg. mutation_guard_arm part d
           (\<lambda>dg. let failed = (\<lambda>e. drop_clear (mg_clear dg) (drop_clear (mg_clear sg) (Ret (Inl e)))) in
              Mutate (Mut_Rename s d)
                (\<lambda>r. case r of
                   Inl e \<Rightarrow> failed e
                 | Inr done \<Rightarrow>
                     clear_latest_impl part s
                       (\<lambda>source_cleared. clear_latest_impl part d
                          (\<lambda>destination_cleared. clear_subtree_impl part s
                             (\<lambda>source_subtree. clear_subtree_impl part d
                                (\<lambda>destination_subtree.
                                   case and_result (and_result (and_result source_cleared destination_cleared) source_subtree)
                                          destination_subtree of
                                     Inl e \<Rightarrow> failed e
                                   | Inr _ \<Rightarrow>
                                       mutation_guard_disarm sg None (mutation_guard_disarm dg None (Ret (Inr done)))))))))))"

section \<open>Watching\<close>

definition byte_invalidate_subtree :: "byte_cache \<Rightarrow> url \<Rightarrow> answer result prog" where
  "byte_invalidate_subtree E prefx =
     clear_subtree_impl (bc_partition E) (bc_as_str E prefx) (\<lambda>_. Ret (Inr Ans_Done))"

fun byte_on_event :: "byte_cache \<Rightarrow> url \<Rightarrow> 'd watch_event \<Rightarrow> 'a prog \<Rightarrow> 'a prog" where
  "byte_on_event E watched (Watch_Object addr kind rest) p =
     clear_watched_object (bc_partition E) (bc_as_str E addr)
       (\<lambda>_. if kind = CK_Deleted then clear_subtree_impl (bc_partition E) (bc_as_str E addr) (\<lambda>_. p) else p)"
| "byte_on_event E watched (Watch_Lapsed rest) p = clear_subtree_impl (bc_partition E) (bc_as_str E watched) (\<lambda>_. p)"

text \<open>
  The items of the stream as they are pulled: an error ends the stream after one sweep of the watched
  subtree, and so does a clean end, unless the stream is a managed drain's or was torn down.
\<close>

fun byte_watch_items :: "byte_cache \<Rightarrow> url \<Rightarrow> bool \<Rightarrow> bool \<Rightarrow> 'd watch_event result list \<Rightarrow> answer result prog" where
  "byte_watch_items E watched sweep_on_clean_end cancelled [] =
     (if sweep_on_clean_end \<and> \<not> cancelled then byte_invalidate_subtree E watched else Ret (Inr Ans_Done))"
| "byte_watch_items E watched sweep_on_clean_end cancelled (Inl e # items) = byte_invalidate_subtree E watched"
| "byte_watch_items E watched sweep_on_clean_end cancelled (Inr event # items) =
     byte_on_event E watched event (byte_watch_items E watched sweep_on_clean_end cancelled items)"

definition byte_watch_directory ::
    "byte_cache \<Rightarrow> url \<Rightarrow> extensions \<Rightarrow> bool \<Rightarrow> 'd watch_event result list result \<Rightarrow> answer result prog" where
  "byte_watch_directory E watched ext cancelled stream =
     (case stream of
        Inl e \<Rightarrow> Ret (Inl e)
      | Inr items \<Rightarrow>
          byte_watch_items E watched (ext MANAGED_NOTIFICATION_DRAIN_EXTENSION = None) cancelled items)"

end
