(* ===== verification/Ov_Byte_Run.thy ===== *)
theory Ov_Byte_Run
  imports Ov_Byte_Layer
begin

text \<open>
  Interleavings of byte cache programs. A world holds the rows of the cache, the generations of the running
  tees, the validator the backend currently has for every address and the rows drawn so far: a row carries
  128 random bits, so a row that is written is new. One step answers one call of one task, or evicts a row.

  Calls may fail, and a call that failed may have landed: a swap, a removal, a write, and a mutation with any
  part of what it changes when it succeeds. Two kinds of failure leave a trace, because a guard cannot make up
  for them: \<open>w_stuck\<close> collects the rows whose removal was answered with an error, the degraded state the source
  names as out of scope when it arms a guard, and \<open>w_torn\<close> the addresses changed by a mutation that was answered
  with an error and does not guard them.
\<close>

section \<open>Mutations\<close>

fun guarded :: "mutation \<Rightarrow> string \<Rightarrow> bool" where
  "guarded (Mut_Continue a) x = (x = a)"
| "guarded (Mut_Delete a) x = (x = a)"
| "guarded (Mut_Copy d) x = (x = d)"
| "guarded (Mut_Rename s d) x = (x = s \<or> x = d)"
| "guarded (Mut_Update_Metadata a) x = (x = a)"
| "guarded (Mut_Create_Directory a) x = (x = a)"
| "guarded (Mut_Delete_Directory a) x = (x = a)"

definition below_dir :: "string \<Rightarrow> string \<Rightarrow> bool" where
  "below_dir a x = starts_with (subtree_dir a) x"

fun touched :: "mutation \<Rightarrow> string \<Rightarrow> bool" where
  "touched (Mut_Continue a) x = (x = a)"
| "touched (Mut_Delete a) x = (x = a)"
| "touched (Mut_Copy d) x = (x = d \<or> below_dir d x)"
| "touched (Mut_Rename s d) x = (x = s \<or> x = d \<or> below_dir s x \<or> below_dir d x)"
| "touched (Mut_Update_Metadata a) x = (x = a)"
| "touched (Mut_Create_Directory a) x = (x = a)"
| "touched (Mut_Delete_Directory a) x = (x = a \<or> below_dir a x)"

text \<open>A continued write that answers with another batch of redirects has changed nothing yet.\<close>

fun changes :: "(mutation \<Rightarrow> string \<Rightarrow> bool) \<Rightarrow> mutation \<Rightarrow> answer result \<Rightarrow> string \<Rightarrow> bool" where
  "changes lands m (Inl e) x = lands m x"
| "changes lands (Mut_Continue a) (Inr (Ans_Step (Write_Redirects batch))) x = False"
| "changes lands m (Inr ans) x = touched m x"

fun fetched_etag :: "read_result result \<Rightarrow> string option" where
  "fetched_etag (Inl e) = None"
| "fetched_etag (Inr r) = Option.bind (result_info r) proved"

fun materialized_etag :: "local_delegate result \<Rightarrow> string option" where
  "materialized_etag (Inl e) = None"
| "materialized_etag (Inr local) = proved (ld_info local)"

fun written_etag :: "write_result result \<Rightarrow> string option" where
  "written_etag (Inl e) = None"
| "written_etag (Inr w) = proved (res_info w)"

section \<open>Steps\<close>

record cache_world =
  w_index :: cache_index
  w_gens :: generation_map
  w_current :: "string \<Rightarrow> string option"
  w_drawn :: "string set"
  w_stuck :: "string set"
  w_torn :: "string set"

definition fresh_row :: "cache_world \<Rightarrow> string \<Rightarrow> string \<Rightarrow> bool" where
  "fresh_row w etag row \<longleftrightarrow> row \<notin> w_drawn w \<and> (\<exists>nonce. length nonce = AVAIL_NONCE_LEN \<and> row = encode_avail nonce etag)"

definition swapped :: "string \<Rightarrow> string option \<Rightarrow> string option \<Rightarrow> cache_world \<Rightarrow> cache_world" where
  "swapped k expected new w = w\<lparr>w_index := snd (compare_and_put k expected new (w_index w))\<rparr>"

definition draw :: "string \<Rightarrow> cache_world \<Rightarrow> cache_world" where
  "draw row w = w\<lparr>w_drawn := insert row (w_drawn w)\<rparr>"

definition without_row :: "string \<Rightarrow> cache_world \<Rightarrow> cache_world" where
  "without_row k w = w\<lparr>w_index := remove_index k (w_index w)\<rparr>"

definition stuck :: "string set \<Rightarrow> cache_world \<Rightarrow> cache_world" where
  "stuck ks w = w\<lparr>w_stuck := w_stuck w \<union> ks\<rparr>"

definition agrees_but :: "(string \<Rightarrow> bool) \<Rightarrow> cache_world \<Rightarrow> (string \<Rightarrow> string option) \<Rightarrow> bool" where
  "agrees_but P w current \<longleftrightarrow> (\<forall>x. \<not> P x \<longrightarrow> current x = w_current w x)"

inductive reply :: "cache_world \<Rightarrow> 'a prog \<Rightarrow> cache_world \<Rightarrow> 'a prog \<Rightarrow> bool" where
  get: "reply w (Get k f) w (f (Inr (w_index w k)))"
| get_err: "reply w (Get k f) w (f (Inl e))"
| write_row: "fresh_row w etag row \<Longrightarrow>
    reply w (Write_Row k expected etag f)
      (draw row (swapped k expected (Some row) w))
      (f (Inr (fst (compare_and_put k expected (Some row) (w_index w))), row))"
| write_row_err: "fresh_row w etag row \<Longrightarrow> w' \<in> {w, swapped k expected (Some row) w} \<Longrightarrow>
    reply w (Write_Row k expected etag f) (draw row w') (f (Inl e, row))"
| swap: "reply w (Swap k expected new f) (swapped k expected new w)
      (f (Inr (fst (compare_and_put k expected new (w_index w)))))"
| swap_err: "w' \<in> {w, swapped k expected new w} \<Longrightarrow> reply w (Swap k expected new f) w' (f (Inl e))"
| remove: "reply w (Remove k f) (without_row k w) (f (Inr ()))"
| remove_err: "w' \<in> {w, without_row k w} \<Longrightarrow> reply w (Remove k f) (stuck {k} w') (f (Inl e))"
| take: "reply w (Take k f) (without_row k w) (f (Inr (w_index w k)))"
| take_err: "w' \<in> {w, without_row k w} \<Longrightarrow> reply w (Take k f) w' (f (Inl e))"
| remove_prefix: "reply w (Remove_Prefix p f) (w\<lparr>w_index := remove_prefix p (w_index w)\<rparr>) (f (Inr ()))"
| remove_prefix_err: "(\<forall>k. idx k = w_index w k \<or> starts_with p k \<and> idx k = None) \<Longrightarrow>
    reply w (Remove_Prefix p f) (stuck {k. starts_with p k} (w\<lparr>w_index := idx\<rparr>)) (f (Inl e))"
| has_prefix: "b = (\<exists>k. starts_with p k \<and> w_index w k \<noteq> None) \<Longrightarrow> reply w (Has_Prefix p f) w (f (Inr b))"
| has_prefix_err: "reply w (Has_Prefix p f) w (f (Inl e))"
| put: "reply w (Put k bytes f) (w\<lparr>w_index := (w_index w)(k := Some bytes)\<rparr>) (f (Inr ()))"
| put_err: "w' \<in> {w, w\<lparr>w_index := (w_index w)(k := Some bytes)\<rparr>} \<Longrightarrow> reply w (Put k bytes f) w' (f (Inl e))"
| put_path: "reply w (Put_Path k path f) (w\<lparr>w_index := (w_index w)(k := Some bytes)\<rparr>) (f (Inr (copy, leased)))"
| put_path_err: "w' \<in> {w, w\<lparr>w_index := (w_index w)(k := Some bytes)\<rparr>} \<Longrightarrow>
    reply w (Put_Path k path f) w' (f (Inl e))"
| lookup: "reply w (Lookup k f) w (f (Inr (map_option (\<lambda>bytes. (path, length bytes)) (w_index w k))))"
| lookup_err: "reply w (Lookup k f) w (f (Inl e))"
| bump: "reply w (Bump a p) (w\<lparr>w_gens := bump_generation_key a (w_gens w)\<rparr>) p"
| bump_under: "reply w (Bump_Under d p) (w\<lparr>w_gens := bump_generations_under_prefix d (w_gens w)\<rparr>) p"
| register: "reply w (Register a f) (w\<lparr>w_gens := snd (tee_register a (w_gens w))\<rparr>)
      (f (fst (tee_register a (w_gens w))))"
| current: "reply w (Current a f) w (f (tee_current a (w_gens w)))"
| release: "reply w (Release a p) (w\<lparr>w_gens := tee_release a (w_gens w)\<rparr>) p"
| note_root: "reply w (Note u p) w p"
| stat: "reply w (Stat a f) w (f r)"
| list_below: "reply w (List_Below a f) w (f r)"
| fetch: "fetched_etag r \<in> {None, w_current w a} \<Longrightarrow> reply w (Fetch a f) w (f r)"
| materialize: "materialized_etag r \<in> {None, w_current w a} \<Longrightarrow> reply w (Materialize a f) w (f r)"
| write_below: "agrees_but (\<lambda>x. x = a) w now \<Longrightarrow> written_etag r \<in> {None, now a} \<Longrightarrow>
    reply w (Write_Below a streams f) (w\<lparr>w_current := now\<rparr>) (f r)"
| mutate: "agrees_but (changes touched m r) w now \<Longrightarrow>
    reply w (Mutate m f) (w\<lparr>w_current := now, w_torn := w_torn w \<union> {x. now x \<noteq> w_current w x \<and> \<not> changes guarded m r x}\<rparr>) (f r)"
| file_len: "reply w (File_Len path f) w (f len)"
| file_read: "reply w (File_Read path f) w (f bytes)"
| outside: "reply w (Outside f) w (f outcome)"

inductive pool_step :: "cache_world \<times> 'a prog list \<Rightarrow> cache_world \<times> 'a prog list \<Rightarrow> bool" where
  task: "i < length ps \<Longrightarrow> reply w (ps ! i) w' p \<Longrightarrow> pool_step (w, ps) (w', ps[i := p])"
| evict: "pool_step (w, ps) (without_row k w, ps)"

text \<open>The traces of failures only grow.\<close>

lemma reply_traces: "reply w p w' p' \<Longrightarrow> w_stuck w \<subseteq> w_stuck w' \<and> w_torn w \<subseteq> w_torn w'"
  by (induction rule: reply.induct) (auto simp: draw_def swapped_def without_row_def stuck_def)

lemma pool_step_traces: "pool_step x y \<Longrightarrow> w_stuck (fst x) \<subseteq> w_stuck (fst y) \<and> w_torn (fst x) \<subseteq> w_torn (fst y)"
  by (induction rule: pool_step.induct) (auto simp: without_row_def dest!: reply_traces)

section \<open>The protocol of the row\<close>

text \<open>
  What a task does to the row of one address: its snapshots of the row, the pairs of a snapshot and a
  validator it may publish, and whether it owes an invalidation. A task leaves the row alone or removes it;
  it writes a new row, a tombstone or a validator it may publish over the snapshot that the row still is; or
  it changes the object.
\<close>

type_synonym row_view = "string option \<times> string option \<times> string set"
type_synonym claim = "string set \<times> (string \<times> string) set \<times> bool"

definition names :: "string option \<Rightarrow> string \<Rightarrow> bool" where
  "names row etag \<longleftrightarrow> Option.bind row parse_avail = Some etag"

inductive row_effect :: "bool \<Rightarrow> row_view \<Rightarrow> claim \<Rightarrow> row_view \<Rightarrow> claim \<Rightarrow> bool" for mutates :: bool where
  keeps: "row' \<in> {row, None} \<Longrightarrow> drawn \<subseteq> drawn' \<Longrightarrow> S \<subseteq> S' \<Longrightarrow> S' \<subseteq> S \<union> set_option row \<union> (drawn' - drawn) \<Longrightarrow>
    J' \<subseteq> J \<union> S \<times> set_option cur \<Longrightarrow> owes' \<longrightarrow> owes \<Longrightarrow> owes \<and> \<not> owes' \<longrightarrow> row' = None \<Longrightarrow>
    row_effect mutates (row, cur, drawn) (S, J, owes) (row', cur, drawn') (S', J', owes')"
| writes: "new \<notin> drawn \<Longrightarrow> (\<forall>e. names (Some new) e \<longrightarrow> (\<exists>b. row = Some b \<and> (b, e) \<in> J)) \<Longrightarrow> owes' \<longrightarrow> owes \<Longrightarrow>
    row_effect mutates (row, cur, drawn) (S, J, owes) (Some new, cur, insert new drawn) (insert new S, J, owes')"
| changes_object: "mutates \<Longrightarrow> J' \<subseteq> S \<times> set_option cur' \<Longrightarrow>
    row_effect mutates (row, cur, drawn) (S, J, owes) (row, cur', drawn) (S, J', True)"

definition other_owes :: "claim list \<Rightarrow> nat \<Rightarrow> bool" where
  "other_owes G i \<longleftrightarrow> (\<exists>j<length G. j \<noteq> i \<and> snd (snd (G ! j)))"

definition some_owes :: "claim list \<Rightarrow> bool" where
  "some_owes G \<longleftrightarrow> (\<exists>j<length G. snd (snd (G ! j)))"

fun claim_ok :: "bool \<Rightarrow> row_view \<Rightarrow> bool \<Rightarrow> claim \<Rightarrow> bool" where
  "claim_ok mutates (row, cur, drawn) others (S, J, owes) \<longleftrightarrow>
     S \<subseteq> drawn \<and> fst ` J \<subseteq> S \<and> (owes \<longrightarrow> mutates) \<and>
     (\<forall>b e. (b, e) \<in> J \<and> row = Some b \<longrightarrow> cur = Some e \<or> others)"

fun row_honest :: "row_view \<Rightarrow> bool \<Rightarrow> bool" where
  "row_honest (row, cur, drawn) owing \<longleftrightarrow> set_option row \<subseteq> drawn \<and> (\<forall>e. names row e \<longrightarrow> cur = Some e \<or> owing)"

definition protocol_inv :: "bool list \<Rightarrow> row_view \<Rightarrow> claim list \<Rightarrow> bool" where
  "protocol_inv mus v G \<longleftrightarrow> length G = length mus \<and> row_honest v (some_owes G) \<and>
     (\<forall>i<length G. claim_ok (mus ! i) v (other_owes G i) (G ! i))"

lemma some_owes_iff: "i < length G \<Longrightarrow> some_owes G \<longleftrightarrow> snd (snd (G ! i)) \<or> other_owes G i"
  by (auto simp: some_owes_def other_owes_def)

lemma other_owes_update_self [simp]: "other_owes (G[i := c]) i = other_owes G i"
  by (auto simp: other_owes_def)

lemma other_owes_update:
  assumes "i < length G" and "j \<noteq> i"
  shows "other_owes (G[i := c]) j \<longleftrightarrow> snd (snd c) \<or> (\<exists>k<length G. k \<noteq> i \<and> k \<noteq> j \<and> snd (snd (G ! k)))"
  using assms by (auto simp: other_owes_def nth_list_update split: if_splits)

lemma other_owes_split:
  assumes "i < length G" and "j \<noteq> i"
  shows "other_owes G j \<longleftrightarrow> snd (snd (G ! i)) \<or> (\<exists>k<length G. k \<noteq> i \<and> k \<noteq> j \<and> snd (snd (G ! k)))"
  using assms by (auto simp: other_owes_def)

lemma some_owes_update:
  "i < length G \<Longrightarrow> some_owes (G[i := c]) \<longleftrightarrow> snd (snd c) \<or> other_owes G i"
  by (subst some_owes_iff[of i]) auto

text \<open>What one effect means for the task itself, for the row and for every other task.\<close>

lemma effect_own_claim:
  assumes "row_effect m v c v' c'" and ok: "claim_ok m v others c" and row: "row_honest v owing"
  shows "claim_ok m v' others c'"
  using assms(1)
proof cases
  case (keeps row' rw drawn drawn' S S' J' J cur owes' ow)
  have "cur = Some e \<or> others" if "(b, e) \<in> J'" "row' = Some b" for b e
    using that keeps ok by fastforce
  moreover have base: "S \<subseteq> drawn" "fst ` J \<subseteq> S" "set_option rw \<subseteq> drawn" using keeps ok row by simp_all
  have "S' \<subseteq> drawn'" using base(1,3) keeps(6,8) by blast
  moreover have "fst p \<in> S'" if "p \<in> J'" for p
  proof -
    have "p \<in> J \<or> p \<in> S \<times> set_option cur" using that keeps(9) by blast
    then have "fst p \<in> S" using base(2) by auto
    then show ?thesis using keeps(7) by blast
  qed
  ultimately show ?thesis using keeps(1-4,10) ok by (simp add: image_subset_iff, blast)
next
  case (writes new drawn rw J owes' ow cur S)
  have base: "S \<subseteq> drawn" "fst ` J \<subseteq> S" using writes ok by simp_all
  then have "(new, e) \<notin> J" for e using writes(5) by force
  then show ?thesis using base writes ok by (simp add: subset_insertI2)
next
  case (changes_object J' S cur' rw cur drawn J ow)
  have "p \<in> S \<times> set_option cur'" if "p \<in> J'" for p using that changes_object(6) by blast
  then have "fst p \<in> S" "cur' = Some (snd p)" if "p \<in> J'" for p using that by (fastforce simp: mem_Times_iff)+
  then show ?thesis using changes_object(1-5) ok by (simp add: image_subset_iff) force
qed

lemma effect_row:
  assumes "row_effect m v c v' c'" and ok: "claim_ok m v others c" and row: "row_honest v (snd (snd c) \<or> others)"
  shows "row_honest v' (snd (snd c') \<or> others)"
  using assms(1)
proof cases
  case (keeps row' rw drawn drawn' S S' J' J cur owes' ow)
  then show ?thesis using row by (auto simp: names_def)
next
  case (writes new drawn rw J owes' ow cur S)
  then show ?thesis using ok by auto
next
  case (changes_object J' S cur' rw cur drawn J ow)
  then show ?thesis using row by auto
qed

lemma effect_other_claim:
  assumes "row_effect m v c v' c'" and ok: "claim_ok m' v (snd (snd c) \<or> rest) d"
  shows "claim_ok m' v' (snd (snd c') \<or> rest) d"
  using assms(1)
proof cases
  case (keeps row' rw drawn drawn' S S' J' J cur owes' ow)
  obtain S0 J0 o0 where d: "d = (S0, J0, o0)" by (cases d)
  have "cur = Some e \<or> owes' \<or> rest" if "(b, e) \<in> J0" "row' = Some b" for b e
    using that keeps ok d by auto
  then show ?thesis using keeps ok d by auto
next
  case (writes new drawn rw J owes' ow cur S)
  obtain S0 J0 o0 where d: "d = (S0, J0, o0)" by (cases d)
  have "new \<notin> fst ` J0" using writes ok d by auto
  then have "(new, e) \<notin> J0" for e by force
  then show ?thesis using writes ok d by auto
next
  case (changes_object J' S cur' rw cur drawn J ow)
  then show ?thesis using ok by (cases d) auto
qed

lemma protocol_step:
  assumes inv: "protocol_inv mus v G" and i: "i < length G" and eff: "row_effect (mus ! i) v (G ! i) v' c"
  shows "protocol_inv mus v' (G[i := c])"
proof -
  have own: "claim_ok (mus ! i) v (other_owes G i) (G ! i)"
    and row: "row_honest v (snd (snd (G ! i)) \<or> other_owes G i)"
    using inv i by (auto simp: protocol_inv_def some_owes_iff)
  have "claim_ok (mus ! j) v' (other_owes (G[i := c]) j) (G[i := c] ! j)" if "j < length G" for j
  proof (cases "j = i")
    case True
    then show ?thesis using effect_own_claim[OF eff own row] i by simp
  next
    case False
    have "claim_ok (mus ! j) v (other_owes G j) (G ! j)" using inv that by (simp add: protocol_inv_def)
    then show ?thesis
      using effect_other_claim[OF eff] False
      unfolding other_owes_update[OF i False] other_owes_split[OF i False] by simp
  qed
  then show ?thesis
    using inv effect_row[OF eff own row] i by (simp add: protocol_inv_def some_owes_update)
qed

lemma protocol_evict:
  assumes "protocol_inv mus (row, cur, drawn) G"
  shows "protocol_inv mus (None, cur, drawn) G"
proof -
  have "claim_ok m (None, cur, drawn) others c" if "claim_ok m (row, cur, drawn) others c" for m others c
    using that by (cases c) auto
  then show ?thesis using assms by (auto simp: protocol_inv_def names_def)
qed

section \<open>Lawful programs\<close>

text \<open>
  A program is lawful for the row \<open>K\<close> of the address \<open>A\<close> when, whatever it is answered, it writes validators
  into the row only over a snapshot taken before the read or the write that proved them, and returns only
  when it owes no invalidation.
\<close>

definition seen :: "string option result \<Rightarrow> string set" where
  "seen r = (case r of Inr raw \<Rightarrow> set_option raw | Inl _ \<Rightarrow> {})"

primrec lawful ::
    "(mutation \<Rightarrow> string \<Rightarrow> bool) \<Rightarrow> string \<Rightarrow> string \<Rightarrow> bool \<Rightarrow> 'a prog \<Rightarrow> string set \<Rightarrow> (string \<times> string) set \<Rightarrow> bool \<Rightarrow> bool" where
  "lawful L A K m (Ret x) S J ow \<longleftrightarrow> \<not> ow"
| "lawful L A K m (Get k f) S J ow \<longleftrightarrow> (\<forall>r. lawful L A K m (f r) (if k = K then S \<union> seen r else S) J ow)"
| "lawful L A K m (Write_Row k expected etag f) S J ow \<longleftrightarrow>
     (if k = K
      then (etag = [] \<or> (\<exists>b. expected = Some b \<and> (b, etag) \<in> J)) \<and>
           (\<forall>r row. lawful L A K m (f (r, row)) (insert row S) J (ow \<and> r \<noteq> Inr True))
      else \<forall>r row. lawful L A K m (f (r, row)) S J ow)"
| "lawful L A K m (Swap k expected new f) S J ow \<longleftrightarrow>
     (k = K \<longrightarrow> new = None) \<and> (\<forall>r. lawful L A K m (f r) S J ow)"
| "lawful L A K m (Remove k f) S J ow \<longleftrightarrow>
     (if k = K then lawful L A K m (f (Inr ())) S J False else \<forall>r. lawful L A K m (f r) S J ow)"
| "lawful L A K m (Take k f) S J ow \<longleftrightarrow> (\<forall>r. lawful L A K m (f r) S J (ow \<and> (k = K \<longrightarrow> (\<exists>e. r = Inl e))))"
| "lawful L A K m (Remove_Prefix p f) S J ow \<longleftrightarrow>
     (if starts_with p K then lawful L A K m (f (Inr ())) S J False else \<forall>r. lawful L A K m (f r) S J ow)"
| "lawful L A K m (Has_Prefix p f) S J ow \<longleftrightarrow> (\<forall>r. lawful L A K m (f r) S J ow)"
| "lawful L A K m (Put k bytes f) S J ow \<longleftrightarrow> k \<noteq> K \<and> (\<forall>r. lawful L A K m (f r) S J ow)"
| "lawful L A K m (Put_Path k path f) S J ow \<longleftrightarrow> k \<noteq> K \<and> (\<forall>r. lawful L A K m (f r) S J ow)"
| "lawful L A K m (Lookup k f) S J ow \<longleftrightarrow> (\<forall>r. lawful L A K m (f r) S J ow)"
| "lawful L A K m (Bump a p) S J ow \<longleftrightarrow> lawful L A K m p S J ow"
| "lawful L A K m (Bump_Under d p) S J ow \<longleftrightarrow> lawful L A K m p S J ow"
| "lawful L A K m (Register a f) S J ow \<longleftrightarrow> (\<forall>n. lawful L A K m (f n) S J ow)"
| "lawful L A K m (Current a f) S J ow \<longleftrightarrow> (\<forall>n. lawful L A K m (f n) S J ow)"
| "lawful L A K m (Release a p) S J ow \<longleftrightarrow> lawful L A K m p S J ow"
| "lawful L A K m (Note u p) S J ow \<longleftrightarrow> lawful L A K m p S J ow"
| "lawful L A K m (Stat a f) S J ow \<longleftrightarrow> (\<forall>r. lawful L A K m (f r) S J ow)"
| "lawful L A K m (List_Below a f) S J ow \<longleftrightarrow> (\<forall>r. lawful L A K m (f r) S J ow)"
| "lawful L A K m (Fetch a f) S J ow \<longleftrightarrow>
     (\<forall>r. lawful L A K m (f r) S (if a = A then J \<union> S \<times> set_option (fetched_etag r) else J) ow)"
| "lawful L A K m (Materialize a f) S J ow \<longleftrightarrow>
     (\<forall>r. lawful L A K m (f r) S (if a = A then J \<union> S \<times> set_option (materialized_etag r) else J) ow)"
| "lawful L A K m (Write_Below a streams f) S J ow \<longleftrightarrow>
     (if a = A then m \<and> (\<forall>r. lawful L A K m (f r) S (S \<times> set_option (written_etag r)) True)
      else \<forall>r. lawful L A K m (f r) S J ow)"
| "lawful L A K m (Mutate mu f) S J ow \<longleftrightarrow>
     (\<forall>r. if changes L mu r A then m \<and> lawful L A K m (f r) S {} True else lawful L A K m (f r) S J ow)"
| "lawful L A K m (File_Len path f) S J ow \<longleftrightarrow> (\<forall>r. lawful L A K m (f r) S J ow)"
| "lawful L A K m (File_Read path f) S J ow \<longleftrightarrow> (\<forall>r. lawful L A K m (f r) S J ow)"
| "lawful L A K m (Outside f) S J ow \<longleftrightarrow> (\<forall>r. lawful L A K m (f r) S J ow)"

text \<open>Knowing more snapshots and owing nothing more never hurts.\<close>

lemma lawful_mono:
  assumes "lawful L A K m p S J ow" and "S \<subseteq> S'" and "J \<subseteq> J'" and "ow' \<longrightarrow> ow"
  shows "lawful L A K m p S' J' ow'"
  using assms
proof (induction p arbitrary: S J S' J' ow ow')
  case (Ret x)
  then show ?case by auto
next
  case (Get k f)
  show ?case unfolding lawful.simps
  proof
    fix r
    have "(if k = K then S \<union> seen r else S) \<subseteq> (if k = K then S' \<union> seen r else S')" using Get.prems(2) by auto
    then show "lawful L A K m (f r) (if k = K then S' \<union> seen r else S') J' ow'"
      by (rule Get.IH[OF rangeI Get.prems(1)[unfolded lawful.simps, rule_format, of r] _ Get.prems(3,4)])
  qed
next
  case (Write_Row k expected etag f)
  show ?case
  proof (cases "k = K")
    case True
    have now: "lawful L A K m (f (r, row)) (insert row S) J (ow \<and> r \<noteq> Inr True)" for r row
      using Write_Row.prems(1) True by simp
    have "lawful L A K m (f (r, row)) (insert row S') J' (ow' \<and> r \<noteq> Inr True)" for r row
      using Write_Row.prems(2-4) by (intro Write_Row.IH[OF rangeI now]) auto
    moreover have "etag = [] \<or> (\<exists>b. expected = Some b \<and> (b, etag) \<in> J')"
      using Write_Row.prems(1,3) True by auto
    ultimately show ?thesis using True by simp
  next
    case False
    have now: "lawful L A K m (f (r, row)) S J ow" for r row
      using Write_Row.prems(1) False by simp
    have "lawful L A K m (f (r, row)) S' J' ow'" for r row
      using Write_Row.prems(2-4) by (rule Write_Row.IH[OF rangeI now])
    then show ?thesis using False by simp
  qed
next
  case (Remove k f)
  have "lawful L A K m (f (Inr ())) S' J' False" if "k = K"
    using Remove.IH[OF rangeI, of "Inr ()" S J False S' J' False] Remove.prems that by simp
  moreover have "lawful L A K m (f r) S' J' ow'" if "k \<noteq> K" for r
    using Remove.IH[OF rangeI, of r S J ow S' J' ow'] Remove.prems that by simp
  ultimately show ?case by simp
next
  case (Take k f)
  have "lawful L A K m (f r) S' J' (ow' \<and> (k = K \<longrightarrow> (\<exists>e. r = Inl e)))" for r
    by (rule Take.IH[OF rangeI Take.prems(1)[unfolded lawful.simps, rule_format, of r] Take.prems(2,3)])
      (use Take.prems(4) in simp)
  then show ?case by simp
next
  case (Remove_Prefix q f)
  have "lawful L A K m (f (Inr ())) S' J' False" if "starts_with q K"
    using Remove_Prefix.IH[OF rangeI, of "Inr ()" S J False S' J' False] Remove_Prefix.prems that by simp
  moreover have "lawful L A K m (f r) S' J' ow'" if "\<not> starts_with q K" for r
    using Remove_Prefix.IH[OF rangeI, of r S J ow S' J' ow'] Remove_Prefix.prems that by simp
  ultimately show ?case by simp
next
  case (Fetch a f)
  have "lawful L A K m (f r) S' (if a = A then J' \<union> S' \<times> set_option (fetched_etag r) else J') ow'" for r
    using Fetch.prems(2-4)
    by (intro Fetch.IH[OF rangeI Fetch.prems(1)[unfolded lawful.simps, rule_format, of r]]) auto
  then show ?case by simp
next
  case (Materialize a f)
  have "lawful L A K m (f r) S' (if a = A then J' \<union> S' \<times> set_option (materialized_etag r) else J') ow'" for r
    using Materialize.prems(2-4)
    by (intro Materialize.IH[OF rangeI Materialize.prems(1)[unfolded lawful.simps, rule_format, of r]]) auto
  then show ?case by simp
next
  case (Write_Below a streams f)
  have now: "lawful L A K m (f r) S (S \<times> set_option (written_etag r)) True" if "a = A" for r
    using Write_Below.prems(1) unfolding lawful.simps if_P[OF that] by blast
  have "lawful L A K m (f r) S' (S' \<times> set_option (written_etag r)) True" if "a = A" for r
    by (rule Write_Below.IH[OF rangeI now[OF that] Write_Below.prems(2)]) (use Write_Below.prems(2) in auto)
  moreover have "lawful L A K m (f r) S' J' ow'" if "a \<noteq> A" for r
    using Write_Below.IH[OF rangeI, of r S J ow S' J' ow'] Write_Below.prems that by simp
  ultimately show ?case using Write_Below.prems(1) by (simp split: if_splits)
next
  case (Mutate mu f)
  have "if changes L mu r A then m \<and> lawful L A K m (f r) S' {} True else lawful L A K m (f r) S' J' ow'" for r
  proof (cases "changes L mu r A")
    case True
    have now: "m" "lawful L A K m (f r) S {} True"
      using Mutate.prems(1)[unfolded lawful.simps, rule_format, of r] unfolding if_P[OF True] by blast+
    have "lawful L A K m (f r) S' {} True" by (rule Mutate.IH[OF rangeI now(2) Mutate.prems(2)]) simp_all
    then show ?thesis using now(1) unfolding if_P[OF True] by blast
  next
    case False
    then show ?thesis
      using Mutate.prems(1)[unfolded lawful.simps, rule_format, of r] Mutate.prems(2-4)
        Mutate.IH[OF rangeI, of r S J ow S' J' ow'] by simp
  qed
  then show ?case unfolding lawful.simps by (rule allI)
next
  case (Has_Prefix p f)
  show ?case using Has_Prefix.prems(1) Has_Prefix.IH[OF rangeI _ Has_Prefix.prems(2-4)] by simp
next
  case (Put k bytes f)
  show ?case using Put.prems(1) Put.IH[OF rangeI _ Put.prems(2-4)] by simp
next
  case (Put_Path k path f)
  show ?case using Put_Path.prems(1) Put_Path.IH[OF rangeI _ Put_Path.prems(2-4)] by simp
next
  case (Lookup k f)
  show ?case using Lookup.prems(1) Lookup.IH[OF rangeI _ Lookup.prems(2-4)] by simp
next
  case (Register a f)
  show ?case using Register.prems(1) Register.IH[OF rangeI _ Register.prems(2-4)] by simp
next
  case (Current a f)
  show ?case using Current.prems(1) Current.IH[OF rangeI _ Current.prems(2-4)] by simp
next
  case (Stat a f)
  show ?case using Stat.prems(1) Stat.IH[OF rangeI _ Stat.prems(2-4)] by simp
next
  case (List_Below a f)
  show ?case using List_Below.prems(1) List_Below.IH[OF rangeI _ List_Below.prems(2-4)] by simp
next
  case (File_Len path f)
  show ?case using File_Len.prems(1) File_Len.IH[OF rangeI _ File_Len.prems(2-4)] by simp
next
  case (File_Read path f)
  show ?case using File_Read.prems(1) File_Read.IH[OF rangeI _ File_Read.prems(2-4)] by simp
next
  case (Outside f)
  show ?case using Outside.prems(1) Outside.IH[OF rangeI _ Outside.prems(2-4)] by simp
next
  case (Swap k expected new f)
  show ?case using Swap.prems(1) Swap.IH[OF rangeI _ Swap.prems(2-4)] by simp
qed simp_all

section \<open>Lawful programs follow the protocol\<close>

definition view :: "string \<Rightarrow> string \<Rightarrow> cache_world \<Rightarrow> row_view" where
  "view A K w = (w_index w K, w_current w A, w_drawn w)"

definition follows ::
    "(mutation \<Rightarrow> string \<Rightarrow> bool) \<Rightarrow> string \<Rightarrow> string \<Rightarrow> bool \<Rightarrow> cache_world \<Rightarrow> claim \<Rightarrow> cache_world \<Rightarrow> 'a prog \<Rightarrow> bool" where
  "follows L A K m w c w' p \<longleftrightarrow>
     (\<exists>S J ow. row_effect m (view A K w) c (view A K w') (S, J, ow) \<and> lawful L A K m p S J ow)"

lemma follows_quietly:
  assumes "lawful L A K m p S J ow" and "w_index w' K \<in> {w_index w K, None}"
    and "w_current w' A = w_current w A" and "w_drawn w \<subseteq> w_drawn w'"
  shows "follows L A K m w (S, J, ow) w' p"
  unfolding follows_def view_def assms(3)
  by (intro exI conjI) (rule row_effect.keeps[where S' = S and J' = J and owes' = ow], use assms in auto)

lemma follows_removing:
  assumes "lawful L A K m p S J ow'" and "w_index w' K = None"
    and "w_current w' A = w_current w A" and "w_drawn w' = w_drawn w" and "ow' \<longrightarrow> ow"
  shows "follows L A K m w (S, J, ow) w' p"
  unfolding follows_def view_def assms(2-4)
  by (intro exI conjI) (rule row_effect.keeps[where S' = S and J' = J and owes' = ow'], use assms in auto)

lemma follows_seeing:
  assumes "lawful L A K m p S' J ow" and "S \<subseteq> S'" and "S' \<subseteq> S \<union> set_option (w_index w K)"
  shows "follows L A K m w (S, J, ow) w p"
  unfolding follows_def view_def
  by (intro exI conjI) (rule row_effect.keeps[where S' = S' and J' = J and owes' = ow], use assms in auto)

lemma follows_fetching:
  assumes "lawful L A K m p S (if a = A then J \<union> S \<times> set_option e else J) ow" and "e \<in> {None, w_current w a}"
  shows "follows L A K m w (S, J, ow) w p"
  unfolding follows_def view_def
  by (intro exI conjI)
    (rule row_effect.keeps[where S' = S and J' = "if a = A then J \<union> S \<times> set_option e else J" and owes' = ow],
     use assms in auto)

lemma follows_writing:
  assumes new: "fresh_row w etag row" and "lawful L A K m p (insert row S) J ow'" and "ow' \<longrightarrow> ow"
    and "etag = [] \<or> (\<exists>b. w_index w K = Some b \<and> (b, etag) \<in> J)"
    and "w_index w' K = Some row" and "w_current w' A = w_current w A" and "w_drawn w' = insert row (w_drawn w)"
  shows "follows L A K m w (S, J, ow) w' p"
proof -
  have "names (Some row) e \<longrightarrow> (\<exists>b. w_index w K = Some b \<and> (b, e) \<in> J)" for e
    using new assms(4) by (auto simp: fresh_row_def names_def parse_avail_def encode_avail_def AVAIL_HEADER_LEN_def Let_def split: if_splits)
  then have "row_effect m (view A K w) (S, J, ow) (view A K w') (insert row S, J, ow')"
    unfolding view_def assms(5-7) using new assms(3) by (intro row_effect.writes) (auto simp: fresh_row_def)
  then show ?thesis unfolding follows_def using assms(2) by blast
qed

lemma follows_drawing:
  assumes "lawful L A K m p (insert row S) J ow" and "fresh_row w etag row" and "w_index w' K = w_index w K"
    and "w_current w' A = w_current w A" and "w_drawn w' = insert row (w_drawn w)"
  shows "follows L A K m w (S, J, ow) w' p"
  unfolding follows_def view_def assms(3-5)
  by (intro exI conjI) (rule row_effect.keeps[where S' = "insert row S" and J' = J and owes' = ow],
    use assms in \<open>auto simp: fresh_row_def\<close>)

lemma follows_changing:
  assumes "lawful L A K m p S J' True" and "m" and "J' \<subseteq> S \<times> set_option (w_current w' A)"
    and "w_index w' = w_index w" and "w_drawn w' = w_drawn w"
  shows "follows L A K m w (S, J, ow) w' p"
  unfolding follows_def view_def assms(4,5)
  by (intro exI conjI) (rule row_effect.changes_object[where J' = J'], use assms in auto)

lemmas world_simps = draw_def swapped_def without_row_def stuck_def compare_and_put_def remove_index_def remove_prefix_def

lemma follows_write_row:
  assumes "lawful L A K m (Write_Row k expected etag f) S J ow" and "fresh_row w etag row"
  shows "follows L A K m w (S, J, ow) (draw row (swapped k expected (Some row) w))
     (f (Inr (fst (compare_and_put k expected (Some row) (w_index w))), row))"
proof (cases "k = K")
  case True
  have may: "etag = [] \<or> (\<exists>b. expected = Some b \<and> (b, etag) \<in> J)"
    and after: "lawful L A K m (f (r, row)) (insert row S) J (ow \<and> r \<noteq> Inr True)" for r
    using assms(1) True by simp_all
  show ?thesis
  proof (cases "w_index w K = expected")
    case hit: True
    then show ?thesis using after[of "Inr True"] may True assms(2)
      by (intro follows_writing[where row = row and etag = etag and ow' = False]) (auto simp: world_simps)
  next
    case False
    then show ?thesis using after[of "Inr False"] True assms(2)
      by (intro follows_drawing[where row = row and etag = etag]) (auto simp: world_simps)
  qed
next
  case False
  then show ?thesis using assms by (intro follows_quietly) (auto simp: world_simps)
qed

lemma follows_write_row_err:
  assumes "lawful L A K m (Write_Row k expected etag f) S J ow" and "fresh_row w etag row"
    and "w' \<in> {w, swapped k expected (Some row) w}"
  shows "follows L A K m w (S, J, ow) (draw row w') (f (Inl e, row))"
proof (cases "k = K")
  case True
  have may: "etag = [] \<or> (\<exists>b. expected = Some b \<and> (b, etag) \<in> J)"
    and after: "lawful L A K m (f (Inl e, row)) (insert row S) J ow"
    using assms(1) True by (auto dest: spec[of _ "Inl e"])
  show ?thesis
  proof (cases "w' = swapped k expected (Some row) w \<and> w_index w K = expected")
    case hit: True
    then show ?thesis using after may True assms(2)
      by (intro follows_writing[where row = row and etag = etag and ow' = ow]) (auto simp: world_simps)
  next
    case False
    then show ?thesis using after True assms(2,3)
      by (intro follows_drawing[where row = row and etag = etag]) (auto simp: world_simps)
  qed
next
  case False
  then show ?thesis using assms by (intro follows_quietly) (auto simp: world_simps split: if_splits)
qed

lemma follows_write_below:
  assumes "lawful L A K m (Write_Below a streams f) S J ow" and "agrees_but (\<lambda>x. x = a) w now"
    and "written_etag r \<in> {None, now a}"
  shows "follows L A K m w (S, J, ow) (w\<lparr>w_current := now\<rparr>) (f r)"
proof (cases "a = A")
  case True
  have "m" "lawful L A K m (f r) S (S \<times> set_option (written_etag r)) True"
    using assms(1) unfolding lawful.simps if_P[OF True] by blast+
  then show ?thesis using assms(3) True
    by (intro follows_changing[where J' = "S \<times> set_option (written_etag r)"]) auto
next
  case False
  then show ?thesis using assms by (intro follows_quietly) (auto simp: agrees_but_def)
qed

lemma follows_mutate:
  assumes "lawful L A K m (Mutate mu f) S J ow" and "now A \<noteq> w_current w A \<longrightarrow> changes L mu r A"
  shows "follows L A K m w (S, J, ow) (w\<lparr>w_current := now, w_torn := torn\<rparr>) (f r)"
proof (cases "changes L mu r A")
  case True
  then have "m" "lawful L A K m (f r) S {} True"
    using assms(1)[unfolded lawful.simps, rule_format, of r] unfolding if_P[OF True] by blast+
  then show ?thesis by (intro follows_changing[where J' = "{}"]) auto
next
  case False
  then have "lawful L A K m (f r) S J ow"
    using assms(1)[unfolded lawful.simps, rule_format, of r] by simp
  then show ?thesis using assms(2) False by (intro follows_quietly) auto
qed

lemma reply_follows:
  assumes "reply w p w' p'" and "lawful guarded A K m p S J ow" and "K \<notin> w_stuck w'" and "A \<notin> w_torn w'"
  shows "follows guarded A K m w (S, J, ow) w' p'"
  using assms
proof (induction rule: reply.induct)
  case (get w k f)
  then show ?case by (intro follows_seeing[where S' = "if k = K then S \<union> seen (Inr (w_index w k)) else S"]) (auto simp: seen_def)
next
  case (get_err w k f e)
  have "S \<union> seen (Inl e) = S" by (simp add: seen_def)
  then show ?case using get_err(1)[unfolded lawful.simps, rule_format, of "Inl e"] by (intro follows_quietly) (auto split: if_splits)
next
  case (write_row w etag row k expected f)
  then show ?case by (intro follows_write_row) auto
next
  case (write_row_err w etag row w' k expected f e)
  then show ?case by (intro follows_write_row_err) auto
next
  case (swap w k expected new f)
  then show ?case by (intro follows_quietly) (auto simp: world_simps)
next
  case (swap_err w' w k expected new f e)
  then show ?case by (intro follows_quietly) (auto simp: world_simps split: if_splits)
next
  case (remove w k f)
  then show ?case
    by (cases "k = K") (auto simp: world_simps intro: follows_removing[where ow' = False] follows_quietly)
next
  case (remove_err w' w k f e)
  then show ?case by (intro follows_quietly) (auto simp: world_simps)
next
  case (take w k f)
  then have "lawful guarded A K m (f (Inr (w_index w k))) S J (ow \<and> k \<noteq> K)"
    by (auto dest: spec[of _ "Inr (w_index w k)"])
  then show ?case
    by (cases "k = K") (auto simp: world_simps intro: follows_removing[where ow' = False] follows_quietly)
next
  case (take_err w' w k f e)
  then have "lawful guarded A K m (f (Inl e)) S J ow" by (auto dest: spec[of _ "Inl e"])
  then show ?case using take_err(1) by (intro follows_quietly) (auto simp: world_simps split: if_splits)
next
  case (remove_prefix w p f)
  then show ?case
    by (cases "starts_with p K") (auto simp: world_simps intro: follows_removing[where ow' = False] follows_quietly)
next
  case (remove_prefix_err p idx w f e)
  then show ?case by (intro follows_quietly) (auto simp: world_simps)
next
  case (fetch r w a f)
  then show ?case by (intro follows_fetching[where e = "fetched_etag r" and a = a]) auto
next
  case (materialize r w a f)
  then show ?case by (intro follows_fetching[where e = "materialized_etag r" and a = a]) auto
next
  case (write_below a w now r streams f)
  then show ?case by (intro follows_write_below) auto
next
  case (mutate m r w now f)
  then show ?case by (intro follows_mutate) auto
qed (auto intro!: follows_quietly)

section \<open>Pools of lawful programs\<close>

definition pool_inv ::
    "(mutation \<Rightarrow> string \<Rightarrow> bool) \<Rightarrow> string \<Rightarrow> string \<Rightarrow> bool list \<Rightarrow> cache_world \<times> 'a prog list \<Rightarrow> claim list \<Rightarrow> bool" where
  "pool_inv L A K mus x G \<longleftrightarrow> protocol_inv mus (view A K (fst x)) G \<and> length (snd x) = length G \<and>
     (\<forall>i<length G. case G ! i of (S, J, ow) \<Rightarrow> lawful L A K (mus ! i) (snd x ! i) S J ow)"

lemma pool_step_inv:
  assumes "pool_step x y" and "pool_inv guarded A K mus x G" and "K \<notin> w_stuck (fst y)" and "A \<notin> w_torn (fst y)"
  shows "\<exists>G. pool_inv guarded A K mus y G"
  using assms
proof (induction rule: pool_step.induct)
  case (task i ps w w' p)
  then have inv: "protocol_inv mus (view A K w) G" "length ps = length G"
    and law: "\<And>j. j < length G \<Longrightarrow> (case G ! j of (S, J, ow) \<Rightarrow> lawful guarded A K (mus ! j) (ps ! j) S J ow)"
    by (auto simp: pool_inv_def)
  have i: "i < length G" using task(1) inv(2) by simp
  obtain S J ow where G: "G ! i = (S, J, ow)" by (cases "G ! i")
  have "follows guarded A K (mus ! i) w (S, J, ow) w' p"
    using reply_follows[OF task(2)] law[OF i] G task(4,5) by simp
  then obtain S' J' ow' where eff: "row_effect (mus ! i) (view A K w) (G ! i) (view A K w') (S', J', ow')"
    and p: "lawful guarded A K (mus ! i) p S' J' ow'" unfolding follows_def G by blast
  have "protocol_inv mus (view A K w') (G[i := (S', J', ow')])" by (rule protocol_step[OF inv(1) i eff])
  moreover have "case G[i := (S', J', ow')] ! j of (S, J, ow) \<Rightarrow> lawful guarded A K (mus ! j) (ps[i := p] ! j) S J ow"
    if "j < length G" for j
    using law[OF that] p i that inv(2) by (cases "j = i") simp_all
  ultimately have "pool_inv guarded A K mus (w', ps[i := p]) (G[i := (S', J', ow')])"
    using inv(2) unfolding pool_inv_def by simp
  then show ?case by blast
next
  case (evict w ps k)
  have "protocol_inv mus (view A K (without_row k w)) G"
  proof (cases "k = K")
    case True
    then show ?thesis using evict protocol_evict by (auto simp: pool_inv_def view_def world_simps)
  next
    case False
    then show ?thesis using evict by (simp add: pool_inv_def view_def world_simps)
  qed
  then show ?case using evict by (auto simp: pool_inv_def)
qed

lemma pool_run_inv:
  assumes "pool_step\<^sup>*\<^sup>* x y" and "pool_inv guarded A K mus x G" and "K \<notin> w_stuck (fst y)" and "A \<notin> w_torn (fst y)"
  shows "\<exists>G. pool_inv guarded A K mus y G"
  using assms
proof (induction)
  case (step y z)
  then have "K \<notin> w_stuck (fst y)" "A \<notin> w_torn (fst y)" using pool_step_traces[OF step.hyps(2)] by auto
  then show ?case using step pool_step_inv[OF step.hyps(2)] by blast
qed blast

definition returned :: "'a prog \<Rightarrow> bool" where
  "returned p = (case p of Ret _ \<Rightarrow> True | _ \<Rightarrow> False)"

lemma lawful_owing_runs: "lawful L A K m p S J True \<Longrightarrow> \<not> returned p"
  by (cases p) (simp_all add: returned_def)

text \<open>
  Programs that are lawful with no snapshots and no debts keep the row honest: whenever it names a
  validator, that is the one the backend has, or a task that mutates the address is still running, as long
  as no removal of the row failed and no failed mutation changed the address without guarding it.
\<close>

lemma lawful_pool_honest:
  assumes "length ps = length mus" and "\<forall>i<length mus. lawful guarded A K (mus ! i) (ps ! i) {} {} False"
    and "\<forall>b. w_index w K = Some b \<longrightarrow> b \<in> w_drawn w"
    and "\<forall>e. names (w_index w K) e \<longrightarrow> w_current w A = Some e"
    and run: "pool_step\<^sup>*\<^sup>* (w, ps) (w', ps')" and "names (w_index w' K) e"
    and "K \<notin> w_stuck w'" and "A \<notin> w_torn w'"
  shows "w_current w' A = Some e \<or> (\<exists>i<length mus. mus ! i \<and> \<not> returned (ps' ! i))"
proof -
  have "pool_inv guarded A K mus (w, ps) (replicate (length mus) ({}, {}, False))"
    using assms(1-4) by (auto simp: pool_inv_def protocol_inv_def view_def)
  then obtain G where inv: "pool_inv guarded A K mus (w', ps') G" using pool_run_inv[OF run, of A K mus] assms(7,8) by (metis fst_conv)
  have "w_current w' A = Some e \<or> some_owes G"
    using inv assms(6) by (auto simp: pool_inv_def protocol_inv_def view_def)
  moreover have "\<exists>i<length mus. mus ! i \<and> \<not> returned (ps' ! i)" if owing: "some_owes G"
  proof -
    obtain j where j: "j < length G" "snd (snd (G ! j))" using owing by (auto simp: some_owes_def)
    obtain S J where G: "G ! j = (S, J, True)" using j(2) by (cases "G ! j") auto
    have "mus ! j" "\<not> returned (ps' ! j)" "length G = length mus"
      using inv j(1) G lawful_owing_runs[of guarded A K "mus ! j" "ps' ! j" S J]
      by (auto simp: pool_inv_def protocol_inv_def view_def dest!: spec[of _ j])
    then show ?thesis using j(1) by auto
  qed
  ultimately show ?thesis by blast
qed

end
