(* ===== verification/Ov_Byte_Laws.thy ===== *)
theory Ov_Byte_Laws
  imports Ov_Byte_Run
begin

text \<open>
  The verbs of the byte cache layer are lawful, so the row of an address is honest in every interleaving of
  them. One rule per function: what its continuation may assume after it. A continued write is the
  exception: the row it restores may be stale.
\<close>

section \<open>Keys\<close>

abbreviation law ::
    "(mutation \<Rightarrow> string \<Rightarrow> bool) \<Rightarrow> string \<Rightarrow> string \<Rightarrow> bool \<Rightarrow> 'a prog \<Rightarrow> string set \<Rightarrow> (string \<times> string) set \<Rightarrow> bool \<Rightarrow> bool" where
  "law L part A m \<equiv> lawful L A (availability_index_key part A) m"

lemmas key_defs = availability_index_key_def availability_prefix_def content_cache_key_def content_prefix_def

lemma availability_key_inj [simp]: "availability_index_key part a = availability_index_key part b \<longleftrightarrow> a = b"
  by (simp add: key_defs)

lemma content_key_apart [simp]:
  "content_cache_key part a e \<noteq> availability_index_key part b" "availability_index_key part b \<noteq> content_cache_key part a e"
  by (simp_all add: key_defs)

lemma content_key_inj [simp]: "content_cache_key part a e = content_cache_key part a e' \<longleftrightarrow> e = e'"
  by (simp add: key_defs)

lemma availability_key_under [simp]:
  "starts_with (availability_prefix part @ d) (availability_index_key part A) \<longleftrightarrow> starts_with d A"
  by (simp add: key_defs starts_with_iff)

lemma availability_key_not_content [simp]: "\<not> starts_with (content_prefix part @ d) (availability_index_key part A)"
  by (simp add: key_defs starts_with_iff)

section \<open>Rows\<close>

text \<open>Calls that leave the row alone are computed; the others have a rule each.\<close>

declare lawful.simps [simp del]

lemmas lawful_quiet [simp] = lawful.simps(1,8-19,24-26)

lemma law_reclaim:
  assumes "law L part A m p S J ow" and "\<forall>k. content = Some k \<longrightarrow> k \<noteq> availability_index_key part A"
  shows "law L part A m (reclaim content p) S J ow"
  using assms by (simp add: reclaim_def lawful.simps split: option.splits)

lemma law_get:
  assumes "\<And>r. law L part A m (f r) S J ow"
  shows "law L part A m (Get k f) S J ow"
  unfolding lawful.simps using assms by (auto intro: lawful_mono)

lemma law_read_avail:
  assumes "\<And>r. law L part A m (k r) S J ow"
  shows "law L part A m (read_avail part addr k) S J ow"
  unfolding read_avail_def by (rule law_get) (simp add: assms split: sum.splits)

lemma law_remove:
  assumes "\<And>r. law L part A m (f r) S J (ow \<and> k \<noteq> availability_index_key part A)"
  shows "law L part A m (Remove k f) S J ow"
proof (cases "k = availability_index_key part A")
  case True
  then show ?thesis using assms[of "Inr ()"] by (simp add: lawful.simps)
next
  case False
  then show ?thesis using assms by (simp add: lawful.simps)
qed

lemma law_take:
  assumes "\<And>r. law L part A m (f (Inr r)) S J (ow \<and> k \<noteq> availability_index_key part A)"
    and "\<And>e. law L part A m (f (Inl e)) S J ow"
  shows "law L part A m (Take k f) S J ow"
  unfolding lawful.simps
proof
  fix r
  show "law L part A m (f r) S J (ow \<and> (k = availability_index_key part A \<longrightarrow> (\<exists>e. r = Inl e)))"
    using assms by (cases r) simp_all
qed

lemma law_write_row:
  assumes "k = availability_index_key part A \<Longrightarrow> etag = [] \<or> (\<exists>b. expected = Some b \<and> (b, etag) \<in> J)"
    and "\<And>r row S'. S \<subseteq> S' \<Longrightarrow> (k = availability_index_key part A \<longrightarrow> row \<in> S') \<Longrightarrow>
      law L part A m (f (r, row)) S' J (ow \<and> (k = availability_index_key part A \<longrightarrow> r \<noteq> Inr True))"
  shows "law L part A m (Write_Row k expected etag f) S J ow"
proof (cases "k = availability_index_key part A")
  case True
  then show ?thesis using assms(1) assms(2)[OF subset_insertI] by (simp add: lawful.simps)
next
  case False
  then show ?thesis using assms(2)[OF order_refl] by (simp add: lawful.simps)
qed

lemma law_remove_availability:
  assumes k: "\<And>r. law L part A m (cont r) S J (ow \<and> addr \<noteq> A)"
  shows "law L part A m (remove_availability_and_reclaim (availability_index_key part addr) part addr cont) S J ow"
proof -
  let ?after = "\<lambda>r. case r of Inl _ \<Rightarrow> Remove (availability_index_key part addr) cont
     | Inr removed \<Rightarrow> reclaim (map_option (content_cache_key part addr) (Option.bind removed parse_avail)) (cont (Inr ()))"
  have taken: "law L part A m (?after (Inr r)) S J (ow \<and> availability_index_key part addr \<noteq> availability_index_key part A)" for r
    using k by (auto intro!: law_reclaim)
  have failed: "law L part A m (?after (Inl e)) S J ow" for e
    using k by (auto intro!: law_remove)
  show ?thesis
    unfolding remove_availability_and_reclaim_def retry_transient_once_def
    by (rule law_take) (use taken failed law_take[OF taken failed] in simp_all)
qed

lemma law_clear_compare:
  assumes k: "\<And>r. law L part A m (cont r) S J (ow \<and> (addr \<noteq> A \<or> r = Inr False))"
    and content: "\<forall>c. previous = Some c \<longrightarrow> c \<noteq> availability_index_key part A"
  shows "law L part A m (clear_compare_off_runtime (availability_index_key part addr) expected part addr previous cont) S J ow"
proof -
  let ?K = "availability_index_key part A"
  let ?f = "\<lambda>(r :: bool result, _). case r of
          Inr True \<Rightarrow> reclaim previous (cont (Inr True))
        | Inr False \<Rightarrow> cont (Inr False)
        | Inl _ \<Rightarrow>
            remove_availability_and_reclaim (availability_index_key part addr) part addr
              (\<lambda>cleanup. reclaim previous (case cleanup of Inl e \<Rightarrow> cont (Inl e) | Inr _ \<Rightarrow> cont (Inr True)))"
  have cleanup: "law L part A m (reclaim previous (case c of Inl e \<Rightarrow> cont (Inl e) | Inr _ \<Rightarrow> cont (Inr True))) S J
      (ow \<and> addr \<noteq> A)" for c
    using k[of "Inr True"] k[of "Inl _"] content by (auto intro!: law_reclaim split: sum.splits)
  have step: "law L part A m (?f (r, row)) S J (ow \<and> (addr = A \<longrightarrow> r \<noteq> Inr True))" for r :: "bool result" and row :: string
  proof (cases r)
    case (Inl e)
    then show ?thesis using cleanup by (auto intro!: law_remove_availability)
  next
    case (Inr b)
    then show ?thesis using k[of "Inr b"] content by (cases b) (auto intro!: law_reclaim intro: lawful_mono)
  qed
  show ?thesis
    unfolding clear_compare_off_runtime_def
    by (rule law_write_row) (use step in \<open>auto intro: lawful_mono\<close>)
qed

lemma law_clear_latest_loop:
  assumes "\<And>r. law L part A m (k r) S J (ow \<and> addr \<noteq> A)"
  shows "law L part A m (clear_latest_loop n part addr k) S J ow"
proof (induction n)
  case 0
  then show ?case using assms by (simp add: law_remove_availability)
next
  case (Suc n)
  show ?case unfolding clear_latest_loop.simps
    using assms Suc
    by (auto intro!: law_read_avail law_remove_availability law_clear_compare split: sum.splits bool.splits intro: lawful_mono)
qed

lemma law_clear_latest:
  assumes "\<And>r. law L part A m (k r) S J (ow \<and> addr \<noteq> A)"
  shows "law L part A m (clear_latest_impl part addr k) S J ow"
  unfolding clear_latest_impl_def using law_clear_latest_loop[OF assms] by simp

lemma law_clear_subtree:
  assumes "\<And>r. law L part A m (k r) S J (ow \<and> \<not> below_dir addr A)"
  shows "law L part A m (clear_subtree_impl part addr k) S J ow"
proof (cases "below_dir addr A")
  case True
  then show ?thesis using assms by (simp add: clear_subtree_impl_def below_dir_def lawful.simps Let_def)
next
  case False
  then show ?thesis using assms by (simp add: clear_subtree_impl_def below_dir_def lawful.simps Let_def)
qed

lemma law_clear_live_fallback:
  assumes "\<And>r. law L part A m (k r) S J ow"
  shows "law L part A m (clear_live_fallback_impl part addr k) S J ow"
  unfolding clear_live_fallback_impl_def
  by (rule law_read_avail)
    (auto intro!: law_clear_compare split: sum.splits option.splits intro: lawful_mono[OF assms])

lemma law_clear_watched_object:
  assumes "\<And>r. law L part A m (k r) S J ow"
  shows "law L part A m (clear_watched_object part addr k) S J ow"
  unfolding clear_watched_object_def
  by (auto intro!: law_remove_availability intro: lawful_mono[OF assms])

lemma law_last_known:
  assumes "\<And>v. law L part A m (k v) S J ow"
  shows "law L part A m (last_known_validator_impl part addr k) S J ow"
  unfolding last_known_validator_impl_def by (rule law_read_avail) (simp add: assms split: sum.splits prod.splits)

text \<open>A snapshot of the row is among those the continuation knows.\<close>

lemma law_snapshot:
  assumes "\<And>s S'. S \<subseteq> S' \<Longrightarrow> (addr = A \<longrightarrow> set_option s \<subseteq> S') \<Longrightarrow> law L part A m (k s) S' J ow"
  shows "law L part A m (snapshot_avail part addr k) S J ow"
proof -
  have "law L part A m (snapshot_loop n part addr k) S' J ow" if "S \<subseteq> S'" for n S'
    using that
  proof (induction n arbitrary: S')
    case 0
    then show ?case using assms by simp
  next
    case (Suc n)
    let ?K = "availability_index_key part addr"
    have seed: "law L part A m (case r of Inl _ \<Rightarrow> k None | Inr True \<Rightarrow> k (Some row)
        | Inr False \<Rightarrow> snapshot_loop n part addr k) S'' J ow'"
      if "S' \<subseteq> S''" "addr = A \<longrightarrow> row \<in> S''" "ow' \<longrightarrow> ow" for r :: "bool result" and row S'' ow'
      using Suc.prems Suc.IH[of S''] that assms[of S'' None] assms[of S'' "Some row"]
      by (auto split: sum.splits bool.splits intro: lawful_mono[OF _ order_refl order_refl that(3)])
    have seeding: "law L part A m (Write_Row ?K None [] (\<lambda>(r, seed). case r of Inl _ \<Rightarrow> k None
        | Inr True \<Rightarrow> k (Some seed) | Inr False \<Rightarrow> snapshot_loop n part addr k)) S' J ow"
      by (rule law_write_row, simp, unfold prod.case, rule seed) auto
    have raw: "law L part A m (k (Some raw)) (if ?K = availability_index_key part A then S' \<union> {raw} else S') J ow" for raw
      using Suc.prems by (intro assms) auto
    have none: "law L part A m (k None) S'' J ow" if "S' \<subseteq> S''" for S''
      using Suc.prems that by (intro assms) auto
    show ?case
      unfolding snapshot_loop.simps read_avail_def lawful.simps
    proof
      fix r
      show "law L part A m
         (case r of Inl e \<Rightarrow> (case Inl e of Inl _ \<Rightarrow> k None | Inr (Some raw, _) \<Rightarrow> k (Some raw)
             | Inr (None, _) \<Rightarrow> Write_Row ?K None [] (\<lambda>(r, seed). case r of Inl _ \<Rightarrow> k None
        | Inr True \<Rightarrow> k (Some seed) | Inr False \<Rightarrow> snapshot_loop n part addr k))
          | Inr raw \<Rightarrow> (case Inr (raw, Option.bind raw parse_avail) of Inl _ \<Rightarrow> k None | Inr (Some raw, _) \<Rightarrow> k (Some raw)
             | Inr (None, _) \<Rightarrow> Write_Row ?K None [] (\<lambda>(r, seed). case r of Inl _ \<Rightarrow> k None
        | Inr True \<Rightarrow> k (Some seed) | Inr False \<Rightarrow> snapshot_loop n part addr k)))
         (if ?K = availability_index_key part A then S' \<union> seen r else S') J ow"
        using raw seeding none by (auto simp: seen_def split: sum.splits option.splits)
    qed
  qed
  then show ?thesis unfolding snapshot_avail_def by simp
qed

section \<open>Guards\<close>

definition guards :: "string \<Rightarrow> string \<Rightarrow> availability_clear \<Rightarrow> bool" where
  "guards part addr g \<longleftrightarrow> ac_armed g \<and> ac_key g = availability_index_key part addr \<and>
     (\<forall>k. ac_superseded_content_key g = Some k \<longrightarrow> (\<exists>e. k = content_cache_key part addr e))"

definition guards_mutation :: "string \<Rightarrow> string \<Rightarrow> mutation_guard \<Rightarrow> bool" where
  "guards_mutation part addr g \<longleftrightarrow> guards part addr (mg_clear g) \<and>
     (\<forall>e k. mg_superseded g = Some (e, k) \<longrightarrow> k = content_cache_key part addr e)"

lemma law_drop_clear:
  assumes "guards part addr g" and "law L part A m p S J (ow \<and> addr \<noteq> A)"
  shows "law L part A m (drop_clear g p) S J ow"
  using assms unfolding drop_clear_def guards_def by (auto intro!: law_remove law_reclaim)

lemma law_drop_guard:
  assumes "\<forall>g. guard = Some g \<longrightarrow> guards part addr g" and "law L part A m p S J ow"
  shows "law L part A m (drop_guard guard p) S J ow"
  using assms unfolding drop_guard_def by (auto intro!: law_drop_clear split: option.splits intro: lawful_mono)

lemma law_arm:
  assumes "\<And>g. guards_mutation part addr g \<Longrightarrow> law L part A m (k g) S J (ow \<and> addr \<noteq> A)"
  shows "law L part A m (mutation_guard_arm part addr k) S J ow"
  unfolding mutation_guard_arm_def Let_def
  by (intro law_read_avail)
    (auto intro!: law_remove assms
      simp: guards_mutation_def guards_def availability_clear_new_def split: sum.splits prod.splits option.splits)

lemma law_disarm:
  assumes "guards_mutation part addr g" and "law L part A m p S J ow"
  shows "law L part A m (mutation_guard_disarm g published p) S J ow"
  using assms unfolding mutation_guard_disarm_def guards_mutation_def
  by (auto intro!: law_remove split: option.splits)

lemma guards_read_guard [simp]: "guards part addr (read_guard_arm part addr proof snapshot)"
  by (auto simp: guards_def read_guard_arm_def availability_clear_new_def split: option.splits)

section \<open>Publication\<close>

lemma law_publish_mutation:
  assumes "addr = A \<longrightarrow> set_option snapshot \<times> {etag} \<subseteq> J" and k: "\<And>r. law L part A m (k r) S J (ow \<and> addr \<noteq> A)"
  shows "law L part A m (publish_mutation_impl part addr snapshot etag k) S J ow"
proof -
  have removed: "law L part A m (Remove (availability_index_key part addr) k) S' J ow" if "S \<subseteq> S'" for S'
    using k that by (auto intro!: law_remove intro: lawful_mono)
  have fin: "law L part A m (k (Inr ())) S' J (ow \<and> addr \<noteq> A)" if "S \<subseteq> S'" for S'
    using k that by (auto intro: lawful_mono)
  show ?thesis
    unfolding publish_mutation_impl_def Let_def using assms(1) removed fin
    by (auto split: option.splits intro!: law_write_row intro: lawful_mono[where ow = ow])
qed

lemma law_record_latest:
  assumes "addr = A \<longrightarrow> set_option snapshot \<times> {etag} \<subseteq> J" and "\<forall>g. guard = Some g \<longrightarrow> guards part addr g"
    and k: "\<And>r. law L part A m (k r) S J ow"
  shows "law L part A m (record_latest_guarded_impl part addr snapshot etag guard k) S J ow"
proof -
  have all: "law L part A m (k r) S' J ow'" if "S \<subseteq> S'" "ow' \<longrightarrow> ow" for r S' ow'
    using k that by (auto intro: lawful_mono)
  have dropped: "law L part A m (drop_guard guard (k r)) S' J ow'" if "S \<subseteq> S'" "ow' \<longrightarrow> ow" for r S' ow'
    using assms(2) all[OF that] by (rule law_drop_guard)
  let ?finish = "\<lambda>outcome. if outcome = Settled then k Settled else drop_guard guard (k Unsettled)"
  have removal: "law L part A m (settled_by_removal (availability_index_key part addr) ?finish) S' J ow'"
    if "S \<subseteq> S'" "ow' \<longrightarrow> ow" for S' ow'
    unfolding settled_by_removal_def using all dropped that by (auto intro!: law_remove split: sum.splits)
  have after: "law L part A m
      (case r of
         Inr True \<Rightarrow> (case parse_avail b of Some previous \<Rightarrow>
              if previous \<noteq> etag then Remove (content_cache_key part addr previous) (\<lambda>_. k Settled) else k Settled
            | None \<Rightarrow> k Settled)
       | Inr False \<Rightarrow> read_avail part addr (\<lambda>r. case r of
              Inr (_, current) \<Rightarrow> if current = Some etag then ?finish Settled
                else settled_by_removal (availability_index_key part addr) ?finish
            | Inl _ \<Rightarrow> settled_by_removal (availability_index_key part addr) ?finish)
       | Inl _ \<Rightarrow> settled_by_removal (availability_index_key part addr) ?finish) S' J ow'"
    if "S \<subseteq> S'" "ow' \<longrightarrow> ow" for r :: "bool result" and b S' ow'
    using all removal that
    by (auto intro!: law_read_avail law_remove split: sum.splits bool.splits option.splits)
  show ?thesis
  proof (cases snapshot)
    case None
    then show ?thesis using dropped by (simp add: record_latest_guarded_impl_def)
  next
    case (Some b)
    show ?thesis
      unfolding record_latest_guarded_impl_def Let_def Some option.case
      by (rule law_write_row, use assms(1) Some in simp, unfold prod.case, rule after) auto
  qed
qed

section \<open>Reads\<close>

abbreviation blaw ::
    "(mutation \<Rightarrow> string \<Rightarrow> bool) \<Rightarrow> byte_cache \<Rightarrow> string \<Rightarrow> bool \<Rightarrow> 'a prog \<Rightarrow> string set \<Rightarrow> (string \<times> string) set \<Rightarrow> bool \<Rightarrow> bool" where
  "blaw L E A m \<equiv> law L (bc_partition E) A m"

abbreviation bguards :: "byte_cache \<Rightarrow> url \<Rightarrow> availability_clear \<Rightarrow> bool" where
  "bguards E addr g \<equiv> guards (bc_partition E) (bc_as_str E addr) g"

text \<open>The snapshot justifies the publication of the validator, where the address is the one of the row.\<close>

definition publishable :: "byte_cache \<Rightarrow> string \<Rightarrow> url \<Rightarrow> string option \<Rightarrow> string option \<Rightarrow> (string \<times> string) set \<Rightarrow> bool" where
  "publishable E A addr snapshot proof J \<longleftrightarrow> (bc_as_str E addr = A \<longrightarrow> set_option snapshot \<times> set_option proof \<subseteq> J)"

lemma law_discard_seed:
  assumes "blaw L E A m p S J ow"
  shows "blaw L E A m (discard_unused_seed E addr snapshot p) S J ow"
  using assms by (auto simp: discard_unused_seed_def lawful.simps(4) split: option.splits)

lemma law_settle_without:
  assumes "blaw L E A m p S J ow"
  shows "blaw L E A m (settle_without_validator E addr reported snapshot p) S J ow"
  using assms
  by (auto simp: settle_without_validator_def intro!: law_clear_live_fallback law_discard_seed split: option.splits)

lemma law_lookup_etag:
  assumes "\<And>r. blaw L E A m (k r) S J ow"
  shows "blaw L E A m (lookup_etag E addr k) S J ow"
  using assms by (auto simp: lookup_etag_def Let_def intro!: law_settle_without law_last_known split: sum.splits)

lemma law_maybe_probe:
  "(\<And>r. blaw L E A m (k r) S J ow) \<Longrightarrow> blaw L E A m (maybe_probe E addr cacheable k) S J ow"
  by (simp add: maybe_probe_def law_lookup_etag)

lemma law_maybe_note [simp]: "blaw L E A m (maybe_note addr b p) S J ow = blaw L E A m p S J ow"
  by (simp add: maybe_note_def)

lemma law_maybe_snapshot:
  assumes "\<And>s S'. S \<subseteq> S' \<Longrightarrow> (bc_as_str E addr = A \<longrightarrow> set_option s \<subseteq> S') \<Longrightarrow> blaw L E A m (k s) S' J ow"
  shows "blaw L E A m (maybe_snapshot E addr b k) S J ow"
  using assms[OF order_refl, of None] by (auto simp: maybe_snapshot_def intro!: law_snapshot assms)

lemma law_record_latest_byte:
  assumes "publishable E A addr snapshot (Some etag) J" and "\<forall>g. guard = Some g \<longrightarrow> bguards E addr g"
    and "\<And>r. blaw L E A m (k r) S J ow"
  shows "blaw L E A m (record_latest_guarded_impl (bc_partition E) (bc_as_str E addr) snapshot etag guard k) S J ow"
  using assms by (intro law_record_latest) (auto simp: publishable_def)

lemma law_fill:
  assumes "publishable E A addr snapshot (Some etag) J" and "\<forall>g. guard = Some g \<longrightarrow> bguards E addr g"
    and "\<And>guard. \<forall>g. guard = Some g \<longrightarrow> bguards E addr g \<Longrightarrow> blaw L E A m (k guard) S J ow"
  shows "blaw L E A m (fill_and_publish E addr etag bytes snapshot guard k) S J ow"
  using assms
  by (auto simp: fill_and_publish_def cache_key_def intro!: law_record_latest_byte split: sum.splits)

lemma law_byte_delegate_size: "(\<And>n. blaw L E A m (k n) S J ow) \<Longrightarrow> blaw L E A m (byte_delegate_size local k) S J ow"
  by (auto simp: byte_delegate_size_def split: option.splits)

lemma law_drop_clear_byte:
  assumes "bguards E addr g" and "blaw L E A m p S J ow"
  shows "blaw L E A m (drop_clear g p) S J ow"
  using assms by (intro law_drop_clear) (auto intro: lawful_mono)

lemma law_warm_delegate:
  assumes "publishable E A addr snapshot (proved (ld_info local)) J" and "bguards E addr g"
    and "\<And>r. blaw L E A m (k r) S J ow"
  shows "blaw L E A m (warm_delegate E addr local snapshot g k) S J ow"
proof -
  have out: "blaw L E A m (drop_clear g (k r)) S J ow" for r
    using assms(2,3) by (rule law_drop_clear_byte)
  show ?thesis
  proof (cases "proved (ld_info local)")
    case None
    then show ?thesis using out by (simp add: warm_delegate_def)
  next
    case (Some etag)
    then have "publishable E A addr snapshot (Some etag) J" using assms(1) by simp
    then have "blaw L E A m (Put_Path (cache_key E addr etag) (ld_path local)
        (\<lambda>r. case r of
           Inr (path, True) \<Rightarrow>
             record_latest_guarded_impl (bc_partition E) (bc_as_str E addr) snapshot etag (Some g)
               (\<lambda>_. Note addr (k (Read_LocalDelegate (leased_copy local path))))
         | _ \<Rightarrow> drop_clear g (k (Read_LocalDelegate local)))) S J ow"
      using assms out
      by (auto simp: cache_key_def intro!: law_record_latest_byte split: sum.splits bool.splits)
    then show ?thesis using out
      unfolding warm_delegate_def Let_def Some option.case
      by (auto intro!: law_byte_delegate_size split: option.splits)
  qed
qed

lemma law_tee:
  assumes "publishable E A addr snapshot (Some etag) J" and "bguards E addr g" and "blaw L E A m p S J ow"
  shows "blaw L E A m (tee_into_cache E addr etag snapshot g len start pulls ok items staged p) S J ow"
  using assms
  by (induction E addr etag snapshot g len start pulls ok items staged p rule: tee_into_cache.induct)
    (auto simp: cache_key_def Let_def intro!: law_drop_clear_byte law_record_latest_byte split: sum.splits)

lemma law_read_fill:
  assumes "publishable E A addr snapshot proof J" and "\<forall>g. guard = Some g \<longrightarrow> bguards E addr g"
  shows "blaw L E A m (read_fill E addr proof bytes info snapshot guard) S J False"
  using assms by (auto simp: read_fill_def Let_def intro!: law_drop_guard law_fill split: option.splits)

lemma law_read_delegate_bytes:
  assumes "publishable E A addr snapshot proof J" and "\<forall>g. guard = Some g \<longrightarrow> bguards E addr g"
  shows "blaw L E A m (read_delegate_bytes E addr max_bytes proof local snapshot guard) S J False"
  using assms
  by (auto simp: read_delegate_bytes_def Let_def intro!: law_drop_guard law_read_fill law_byte_delegate_size split: option.splits)

lemma law_read_teed:
  assumes "publishable E A addr snapshot proof J" and "\<forall>g. guard = Some g \<longrightarrow> bguards E addr g"
  shows "blaw L E A m (read_teed E addr proof items info snapshot guard) S J False"
  using assms
  by (auto simp: read_teed_def Let_def intro!: law_tee law_clear_latest law_drop_clear_byte split: option.splits)

lemma law_read_arms:
  assumes "publishable E A addr snapshot proof J" and "\<forall>g. guard = Some g \<longrightarrow> bguards E addr g"
    and "\<And>local. result = Read_LocalDelegate local \<Longrightarrow> cacheable \<Longrightarrow> publishable E A addr snapshot (proved (ld_info local)) J"
  shows "blaw L E A m (read_arms E addr cacheable to_bytes max_bytes proof snapshot guard result) S J False"
  using assms unfolding read_arms_def
  by (cases result)
    (auto intro!: law_read_fill law_read_teed law_read_delegate_bytes law_warm_delegate law_drop_guard
      split: sum.splits option.splits)

text \<open>What the layer below proved by answering a read is publishable by every snapshot taken before.\<close>

lemma publishable_fetch:
  assumes "bc_as_str E addr = A \<longrightarrow> set_option snapshot \<subseteq> S" and "set_option proof \<subseteq> set_option e"
  shows "publishable E A addr snapshot proof (if bc_as_str E addr = A then J \<union> S \<times> set_option e else J)"
  using assms by (auto simp: publishable_def)

lemma law_read_hit: "blaw L E A m miss S J False \<Longrightarrow> blaw L E A m (read_hit E addr to_bytes validator miss) S J False"
  by (auto simp: read_hit_def intro!: law_get split: option.splits sum.splits)

lemma law_materialize_hit: "blaw L E A m miss S J False \<Longrightarrow> blaw L E A m (materialize_hit E addr validator miss) S J False"
  by (auto simp: materialize_hit_def split: option.splits sum.splits)

lemma law_read_completed:
  assumes "bc_as_str E addr = A \<longrightarrow> set_option snapshot \<times> set_option (fetched_etag (Inr result)) \<subseteq> J"
  shows "blaw L E A m (read_completed E addr cacheable to_bytes max_bytes settled snapshot result) S J False"
proof -
  let ?proof = "if cacheable then Option.bind (result_info result) proved else None"
  have arms: "blaw L E A m (read_arms E addr cacheable to_bytes max_bytes ?proof snapshot
      (map_option (\<lambda>etag. read_guard_arm (bc_partition E) (bc_as_str E addr) etag snapshot) ?proof) result) S J False"
    using assms by (intro law_read_arms) (auto simp: publishable_def result_info_def)
  show ?thesis
  proof (cases "?proof = None \<and> \<not> settled")
    case True
    show ?thesis unfolding read_completed_def Let_def if_P[OF True] by (rule law_settle_without[OF arms])
  next
    case False
    show ?thesis unfolding read_completed_def Let_def if_not_P[OF False] by (rule arms)
  qed
qed

lemma law_fetched:
  assumes "bc_as_str E addr = A \<longrightarrow> set_option snapshot \<subseteq> S"
  shows "blaw L E A m (Fetch (bc_as_str E addr)
     (\<lambda>r. case r of
        Inl e \<Rightarrow> discard_unused_seed E addr snapshot (Ret (Inl e))
      | Inr result \<Rightarrow> read_completed E addr cacheable to_bytes max_bytes settled snapshot result)) S {} False"
  unfolding lawful.simps using assms
  by (auto simp: bind_eq_Some_conv intro!: law_discard_seed law_read_completed split: sum.splits)

lemma law_byte_read: "blaw L E A m (byte_read E q) {} {} False"
proof (cases "rd_extensions q RESOLVED_OAUTH_CREDENTIAL = None")
  case True
  then show ?thesis
    unfolding byte_read_def Let_def
    by (auto intro!: law_maybe_probe law_read_hit law_maybe_snapshot law_fetched split: sum.splits)
next
  case False
  then show ?thesis by (simp add: byte_read_def lawful.simps(20) Let_def)
qed

lemma law_materialize_fill:
  assumes "publishable E A addr snapshot (Some etag) J"
  shows "blaw L E A m (materialize_fill E addr etag local snapshot) S J False"
  using assms
  by (auto simp: materialize_fill_def cache_key_def Let_def intro!: law_record_latest_byte
      law_drop_clear_byte[where addr = addr] split: sum.splits bool.splits)

lemma law_materialized:
  assumes "bc_as_str E addr = A \<longrightarrow> set_option snapshot \<subseteq> S"
  shows "blaw L E A m (Materialize (bc_as_str E addr)
     (\<lambda>r. case r of
        Inl e \<Rightarrow> discard_unused_seed E addr snapshot (Ret (Inl e))
      | Inr local \<Rightarrow>
          (case (if cacheable then proved (ld_info local) else None) of
             None \<Rightarrow>
               if \<not> settled
               then settle_without_validator E addr (if cacheable then Some (ld_info local) else None)
                      snapshot (Ret (Inr (Ans_Local local)))
               else Ret (Inr (Ans_Local local))
           | Some etag \<Rightarrow> materialize_fill E addr etag local snapshot))) S {} False"
  unfolding lawful.simps using assms
  by (auto simp: publishable_def intro!: law_discard_seed law_settle_without law_materialize_fill
      split: sum.splits option.splits if_splits)

lemma law_byte_materialize: "blaw L E A m (byte_materialize E q) {} {} False"
proof (cases "rd_extensions q RESOLVED_OAUTH_CREDENTIAL = None")
  case True
  then show ?thesis
    unfolding byte_materialize_def Let_def
    by (auto intro!: law_maybe_probe law_materialize_hit law_maybe_snapshot law_materialized split: sum.splits)
next
  case False
  then show ?thesis by (simp add: byte_materialize_def lawful.simps(21) Let_def)
qed

section \<open>Writes\<close>

lemma law_write_below:
  assumes "a = A \<Longrightarrow> m"
    and "\<And>r. law L part A m (f r) S (if a = A then S \<times> set_option (written_etag r) else J) (ow \<or> a = A)"
  shows "law L part A m (Write_Below a streams f) S J ow"
  using assms(2) assms(1) by (cases "a = A") (simp_all add: lawful.simps)

lemma law_mutate:
  assumes "\<And>r. changes L mu r A \<Longrightarrow> m"
    and "\<And>r. law L part A m (f r) S {} (ow \<or> changes L mu r A)"
  shows "law L part A m (Mutate mu f) S J ow"
  unfolding lawful.simps
proof
  fix r
  show "if changes L mu r A then m \<and> law L part A m (f r) S {} True else law L part A m (f r) S J ow"
    using assms(1)[of r] lawful_mono[OF assms(2)[of r] order_refl empty_subsetI, of ow] assms(2)[of r]
    by (cases "changes L mu r A") simp_all
qed

lemma law_drop_mutation:
  assumes "guards_mutation part addr g" and "law L part A m p S J (ow \<and> addr \<noteq> A)"
  shows "law L part A m (drop_clear (mg_clear g) p) S J ow"
  using assms by (auto simp: guards_mutation_def intro: law_drop_clear)

lemma law_drop_last:
  assumes "guards_mutation part addr g" and "ow \<longrightarrow> addr = A" and "law L part A m p S J False"
  shows "law L part A m (drop_clear (mg_clear g) p) S J ow"
  using assms by (intro law_drop_mutation) (auto intro: lawful_mono)

lemma law_clear_and_disarm:
  assumes "guards_mutation (bc_partition E) (bc_as_str E addr) g" and "ow \<longrightarrow> bc_as_str E addr = A"
  shows "blaw L E A m (clear_and_disarm E addr g a) S J ow"
proof -
  have "ow \<and> bc_as_str E addr \<noteq> A \<longleftrightarrow> False" using assms(2) by blast
  then show ?thesis
    unfolding clear_and_disarm_def
    by (auto intro!: law_clear_latest law_drop_mutation[OF assms(1)] law_disarm[OF assms(1)] split: sum.splits)
qed

lemma law_write_uncached:
  assumes "guards_mutation (bc_partition E) (bc_as_str E addr) g" and "bc_as_str E addr = A \<Longrightarrow> m"
  shows "blaw L E A m (write_uncached E addr streams g) S J False"
  unfolding write_uncached_def using assms(2)
  by (auto intro!: law_write_below law_drop_last[OF assms(1)] law_clear_and_disarm[OF assms(1)] split: sum.splits)

lemma law_finalize:
  assumes "publishable E A addr snapshot (Some etag) J"
    and "\<And>r. blaw L E A m (k r) S J (ow \<and> bc_as_str E addr \<noteq> A)"
  shows "blaw L E A m (finalize_committed_tee E addr snapshot etag start k) S J ow"
  using assms
  by (auto simp: finalize_committed_tee_def finalize_committed_tee_impl_def publishable_def
      intro!: law_remove law_clear_latest law_publish_mutation)

lemma law_write_settle:
  assumes g: "guards_mutation (bc_partition E) (bc_as_str E addr) g"
    and "publishable E A addr snapshot (proved (res_info w)) J"
  shows "blaw L E A m (write_settle E addr g snapshot start staged w) S J (bc_as_str E addr = A)"
proof -
  let ?finish = "\<lambda>published r. case r of
              Inl e \<Rightarrow> Release (bc_as_str E addr) (drop_clear (mg_clear g) (Ret (Inl e)))
            | Inr _ \<Rightarrow> mutation_guard_disarm g published (Release (bc_as_str E addr) (Ret (Inr (Ans_Write w))))"
  have finish: "blaw L E A m (?finish published r) S J False" for published and r :: "unit result"
    by (auto intro!: law_drop_mutation[OF g] law_disarm[OF g] split: sum.splits)
  have invalidate: "blaw L E A m (clear_latest_impl (bc_partition E) (bc_as_str E addr) (?finish None)) S J (bc_as_str E addr = A)"
    using finish by (auto intro!: law_clear_latest)
  have publish: "blaw L E A m (finalize_committed_tee E addr snapshot etag start (?finish (Some etag))) S J (bc_as_str E addr = A)"
    if "proved (res_info w) = Some etag" for etag
    using finish assms(2) that by (auto intro!: law_finalize)
  show ?thesis
    unfolding write_settle_def Let_def
    using invalidate publish by (auto simp: cache_key_def split: option.splits sum.splits)
qed

lemma law_write_failed:
  assumes "guards_mutation (bc_partition E) (bc_as_str E addr) g"
  shows "blaw L E A m (write_failed E addr g e) S J (bc_as_str E addr = A)"
  by (auto simp: write_failed_def intro!: law_drop_mutation[OF assms])

text \<open>The write of a write-through: its own validator is publishable by the snapshot taken before it.\<close>

lemma law_written:
  assumes g: "guards_mutation (bc_partition E) (bc_as_str E addr) g" and m: "bc_as_str E addr = A \<Longrightarrow> m"
    and "bc_as_str E addr = A \<longrightarrow> set_option snapshot \<subseteq> S"
  shows "blaw L E A m (Write_Below (bc_as_str E addr) streams
     (\<lambda>r. case r of Inl e \<Rightarrow> write_failed E addr g e | Inr w \<Rightarrow> write_settle E addr g snapshot start (staged w) w)) S J False"
proof (rule law_write_below)
  fix r
  let ?J = "if bc_as_str E addr = A then S \<times> set_option (written_etag r) else J"
  have "blaw L E A m (write_settle E addr g snapshot start (staged w) w) S ?J (bc_as_str E addr = A)" if "r = Inr w" for w
    using assms(3) that by (intro law_write_settle[OF g]) (auto simp: publishable_def)
  then show "blaw L E A m
      (case r of Inl e \<Rightarrow> write_failed E addr g e | Inr w \<Rightarrow> write_settle E addr g snapshot start (staged w) w)
      S ?J (False \<or> bc_as_str E addr = A)"
    using law_write_failed[OF g] by (cases r) simp_all
qed (rule m)

lemma law_streamed_write:
  assumes "bc_as_str E addr = A \<Longrightarrow> m"
  shows "blaw L E A m (streamed_write_through E addr items streams) S J False"
  unfolding streamed_write_through_def Let_def using assms
  by (auto intro!: law_arm law_write_uncached law_snapshot law_written)

lemma law_buffered_write:
  assumes "bc_as_str E addr = A \<Longrightarrow> m"
  shows "blaw L E A m (buffered_write_through E addr bytes) S J False"
  unfolding buffered_write_through_def using assms
  by (auto intro!: law_arm law_write_uncached law_snapshot law_written)

section \<open>Other mutations\<close>

lemma changes_guarded: "changes guarded mu r A \<Longrightarrow> touched mu A"
  by (cases "(guarded, mu, r, A)" rule: changes.cases; cases mu) auto

lemma law_mutate_and_clear:
  assumes t: "\<And>x. touched mu x \<Longrightarrow> x = bc_as_str E addr" and m: "bc_as_str E addr = A \<Longrightarrow> m"
  shows "blaw guarded E A m (mutate_and_clear E addr mu) S J False"
  unfolding mutate_and_clear_def
proof (rule law_arm, rule law_mutate)
  fix g and r :: "answer result"
  assume g: "guards_mutation (bc_partition E) (bc_as_str E addr) g"
  have c: "changes guarded mu r A \<longrightarrow> bc_as_str E addr = A" using changes_guarded[of mu r A] t[of A] by auto
  show "blaw guarded E A m (case r of Inl e \<Rightarrow> drop_clear (mg_clear g) (Ret (Inl e)) | Inr a \<Rightarrow> clear_and_disarm E addr g a)
      S {} (False \<and> bc_as_str E addr \<noteq> A \<or> changes guarded mu r A)"
    using c by (cases r) (auto intro!: law_drop_last[OF g] law_clear_and_disarm[OF g])
qed (use changes_guarded[of mu _ A] t[of A] m in auto)

lemma law_mutate_subtree:
  assumes gu: "\<And>x. guarded mu x \<Longrightarrow> x = bc_as_str E addr"
    and t: "\<And>x. touched mu x \<Longrightarrow> x = bc_as_str E addr \<or> below_dir (bc_as_str E addr) x"
    and m: "bc_as_str E addr = A \<or> below_dir (bc_as_str E addr) A \<Longrightarrow> m"
  shows "blaw guarded E A m (mutate_subtree E addr mu) S J False"
  unfolding mutate_subtree_def Let_def
proof (rule law_arm, rule law_mutate)
  fix g and r :: "answer result"
  let ?a = "bc_as_str E addr"
  assume g: "guards_mutation (bc_partition E) ?a g"
  have c: "changes guarded mu r A \<longrightarrow> ?a = A \<or> below_dir ?a A" using changes_guarded[of mu r A] t[of A] by auto
  have ended: "blaw guarded E A m (case and_result x y of
        Inl e \<Rightarrow> drop_clear (mg_clear g) (Ret (Inl e)) | Inr _ \<Rightarrow> mutation_guard_disarm g None (Ret (Inr d))) S {} False" for x y d
    by (auto intro!: law_drop_last[OF g] law_disarm[OF g] split: sum.splits)
  have cleared: "blaw guarded E A m (clear_latest_impl (bc_partition E) ?a
        (\<lambda>cleared. clear_subtree_impl (bc_partition E) ?a
           (\<lambda>subtree. case and_result cleared subtree of
              Inl e \<Rightarrow> drop_clear (mg_clear g) (Ret (Inl e)) | Inr _ \<Rightarrow> mutation_guard_disarm g None (Ret (Inr d)))))
      S {} (changes guarded mu r A)" for d
    using c by (intro law_clear_latest law_clear_subtree lawful_mono[OF ended]) auto
  show "blaw guarded E A m
      (case r of Inl e \<Rightarrow> drop_clear (mg_clear g) (Ret (Inl e))
       | Inr d \<Rightarrow> clear_latest_impl (bc_partition E) ?a
           (\<lambda>cleared. clear_subtree_impl (bc_partition E) ?a
              (\<lambda>subtree. case and_result cleared subtree of
                 Inl e \<Rightarrow> drop_clear (mg_clear g) (Ret (Inl e)) | Inr _ \<Rightarrow> mutation_guard_disarm g None (Ret (Inr d)))))
      S {} (False \<and> ?a \<noteq> A \<or> changes guarded mu r A)"
  proof (cases r)
    case (Inl e)
    then show ?thesis using gu[of A] by (auto intro!: law_drop_last[OF g])
  next
    case (Inr d)
    then show ?thesis using cleared[of d] by simp
  qed
qed (use changes_guarded[of mu _ A] t[of A] m in auto)

lemma law_rename:
  assumes m: "touched (Mut_Rename (bc_as_str E source) (bc_as_str E destination)) A \<Longrightarrow> m"
  shows "blaw guarded E A m (byte_rename E source destination) S J False"
proof -
  let ?s = "bc_as_str E source" and ?d = "bc_as_str E destination"
  let ?mu = "Mut_Rename ?s ?d"
  have failed: "blaw guarded E A m (drop_clear (mg_clear dg) (drop_clear (mg_clear sg) (Ret (Inl e)))) S {} ow"
    if "guards_mutation (bc_partition E) ?s sg" "guards_mutation (bc_partition E) ?d dg" "ow \<longrightarrow> A = ?s \<or> A = ?d" for sg dg e ow
    using that by (auto intro!: law_drop_mutation[OF that(2)] law_drop_last[OF that(1)])
  have ended: "blaw guarded E A m (case x of
        Inl e \<Rightarrow> drop_clear (mg_clear dg) (drop_clear (mg_clear sg) (Ret (Inl e)))
      | Inr _ \<Rightarrow> mutation_guard_disarm sg None (mutation_guard_disarm dg None (Ret (Inr d)))) S {} False"
    if "guards_mutation (bc_partition E) ?s sg" "guards_mutation (bc_partition E) ?d dg" for sg dg d and x :: "unit result"
    by (cases x) (simp_all add: failed[OF that] law_disarm[OF that(1)] law_disarm[OF that(2)])
  have "changes guarded ?mu r A \<Longrightarrow> m" for r using changes_guarded[of ?mu r A] m by simp
  moreover have "blaw guarded E A m
      (case r of
         Inl e \<Rightarrow> drop_clear (mg_clear dg) (drop_clear (mg_clear sg) (Ret (Inl e)))
       | Inr d \<Rightarrow>
           clear_latest_impl (bc_partition E) ?s (\<lambda>c1. clear_latest_impl (bc_partition E) ?d
             (\<lambda>c2. clear_subtree_impl (bc_partition E) ?s (\<lambda>c3. clear_subtree_impl (bc_partition E) ?d
                (\<lambda>c4. case and_result (and_result (and_result c1 c2) c3) c4 of
                   Inl e \<Rightarrow> drop_clear (mg_clear dg) (drop_clear (mg_clear sg) (Ret (Inl e)))
                 | Inr _ \<Rightarrow> mutation_guard_disarm sg None (mutation_guard_disarm dg None (Ret (Inr d))))))))
      S {} (changes guarded ?mu r A)"
    if "guards_mutation (bc_partition E) ?s sg" "guards_mutation (bc_partition E) ?d dg" for sg dg r
  proof (cases r)
    case (Inl e)
    then show ?thesis by (simp add: failed[OF that])
  next
    case (Inr d)
    have "changes guarded ?mu r A \<longrightarrow> A = ?s \<or> A = ?d \<or> below_dir ?s A \<or> below_dir ?d A"
      using changes_guarded[of ?mu r A] by simp
    then show ?thesis
      unfolding Inr sum.case by (intro law_clear_latest law_clear_subtree lawful_mono[OF ended[OF that]]) auto
  qed
  ultimately show ?thesis
    unfolding byte_rename_def Let_def by (intro law_arm law_mutate) simp_all
qed

section \<open>Watches\<close>

lemma law_byte_on_event:
  "blaw L E A m p S J False \<Longrightarrow> blaw L E A m (byte_on_event E watched event p) S J False"
  by (cases event) (auto intro!: law_clear_watched_object law_clear_subtree)

lemma law_byte_watch_items: "blaw L E A m (byte_watch_items E watched sweeps cancelled items) S J False"
  by (induction E watched sweeps cancelled items rule: byte_watch_items.induct)
    (auto simp: byte_invalidate_subtree_def intro!: law_clear_subtree law_byte_on_event)

section \<open>Every interleaving of the verbs\<close>

datatype byte_verb =
    V_Stat url | V_List url list_options | V_Read read_request | V_Materialize read_request
  | V_Write put_request | V_Write_Stream put_request | V_Continue url | V_Delete url | V_Copy url | V_Rename url url
  | V_Update_Metadata url | V_Create_Directory url | V_Delete_Directory url | V_Invalidate url
  | V_Watch url extensions bool "unit watch_event result list result"

fun verb_prog :: "byte_cache \<Rightarrow> byte_verb \<Rightarrow> answer result prog" where
  "verb_prog E (V_Stat addr) = byte_stat E addr"
| "verb_prog E (V_List prefx options) = byte_list E prefx options"
| "verb_prog E (V_Read q) = byte_read E q"
| "verb_prog E (V_Materialize q) = byte_materialize E q"
| "verb_prog E (V_Write q) = byte_write E q"
| "verb_prog E (V_Write_Stream q) = byte_write_stream E q"
| "verb_prog E (V_Continue addr) = byte_continue_write E addr"
| "verb_prog E (V_Delete addr) = byte_delete E addr"
| "verb_prog E (V_Copy destination) = byte_copy E destination"
| "verb_prog E (V_Rename source destination) = byte_rename E source destination"
| "verb_prog E (V_Update_Metadata addr) = byte_update_metadata E addr"
| "verb_prog E (V_Create_Directory addr) = byte_create_directory E addr"
| "verb_prog E (V_Delete_Directory addr) = byte_delete_directory E addr"
| "verb_prog E (V_Invalidate prefx) = byte_invalidate_subtree E prefx"
| "verb_prog E (V_Watch watched ext cancelled stream) = byte_watch_directory E watched ext cancelled stream"

text \<open>The addresses a verb may change at the backend.\<close>

fun verb_touches :: "byte_cache \<Rightarrow> byte_verb \<Rightarrow> string \<Rightarrow> bool" where
  "verb_touches E (V_Write q) x = (x = bc_as_str E (put_address q))"
| "verb_touches E (V_Write_Stream q) x = (x = bc_as_str E (put_address q))"
| "verb_touches E (V_Continue addr) x = (x = bc_as_str E addr)"
| "verb_touches E (V_Delete addr) x = (x = bc_as_str E addr)"
| "verb_touches E (V_Copy destination) x = touched (Mut_Copy (bc_as_str E destination)) x"
| "verb_touches E (V_Rename source destination) x = touched (Mut_Rename (bc_as_str E source) (bc_as_str E destination)) x"
| "verb_touches E (V_Update_Metadata addr) x = (x = bc_as_str E addr)"
| "verb_touches E (V_Create_Directory addr) x = (x = bc_as_str E addr)"
| "verb_touches E (V_Delete_Directory addr) x = touched (Mut_Delete_Directory (bc_as_str E addr)) x"
| "verb_touches E v x = False"

lemma verb_lawful:
  assumes "\<forall>a. v \<noteq> V_Continue a"
  shows "blaw guarded E A (verb_touches E v A) (verb_prog E v) {} {} False"
proof (cases v)
  case (V_Stat addr)
  then show ?thesis by (auto simp: byte_stat_def Let_def)
next
  case (V_List prefx options)
  then show ?thesis by (auto simp: byte_list_def split: sum.splits)
next
  case (V_Write q)
  then show ?thesis
    by (auto simp: byte_write_def intro!: law_buffered_write law_streamed_write law_arm law_write_uncached split: body.splits)
next
  case (V_Write_Stream q)
  then show ?thesis
    by (auto simp: byte_write_stream_def intro!: law_streamed_write law_arm law_write_uncached split: body.splits)
next
  case (V_Delete addr)
  then show ?thesis by (auto simp: byte_delete_def intro!: law_mutate_and_clear)
next
  case (V_Copy destination)
  then show ?thesis by (auto simp: byte_copy_def intro!: law_mutate_subtree)
next
  case (V_Update_Metadata addr)
  then show ?thesis by (auto simp: byte_update_metadata_def intro!: law_mutate_and_clear)
next
  case (V_Create_Directory addr)
  then show ?thesis by (auto simp: byte_create_directory_def intro!: law_mutate_and_clear)
next
  case (V_Delete_Directory addr)
  then show ?thesis by (auto simp: byte_delete_directory_def intro!: law_mutate_subtree)
next
  case (V_Watch watched ext cancelled stream)
  then show ?thesis by (auto simp: byte_watch_directory_def law_byte_watch_items split: sum.splits)
next
  case (V_Invalidate prefx)
  then show ?thesis by (auto simp: byte_invalidate_subtree_def intro!: law_clear_subtree)
qed (use assms in \<open>auto simp: law_byte_read law_byte_materialize intro!: law_rename\<close>)

end
