(* ===== verification/Ov_Byte_Play.thy ===== *)
theory Ov_Byte_Play
  imports Ov_Byte_Laws
begin

text \<open>
  Scripted interleavings of byte cache verbs: a script says which task moves and how its call is answered.
  A script that plays is a run of the pool, so scripts give concrete runs by evaluation: a read that fills
  the cache, and the two ways a row comes to name a validator the backend no longer has.
\<close>

section \<open>Scripts\<close>

datatype move =
    Go
  | Draw string
  | Inform "object_info result"
  | Fetched "read_result result"
  | Written "write_result result" "string option"
  | Mutated "answer result" "(string \<times> string option) list"
  | Told outside

fun perform :: "move \<Rightarrow> cache_world \<Rightarrow> 'a prog \<Rightarrow> (cache_world \<times> 'a prog) option" where
  "perform Go w p =
     (case p of
        Get k f \<Rightarrow> Some (w, f (Inr (w_index w k)))
      | Swap k expected new f \<Rightarrow>
          Some (swapped k expected new w, f (Inr (fst (compare_and_put k expected new (w_index w)))))
      | Remove k f \<Rightarrow> Some (without_row k w, f (Inr ()))
      | Take k f \<Rightarrow> Some (without_row k w, f (Inr (w_index w k)))
      | Remove_Prefix q f \<Rightarrow> Some (w\<lparr>w_index := remove_prefix q (w_index w)\<rparr>, f (Inr ()))
      | Put k bytes f \<Rightarrow> Some (w\<lparr>w_index := (w_index w)(k := Some bytes)\<rparr>, f (Inr ()))
      | Bump a q \<Rightarrow> Some (w\<lparr>w_gens := bump_generation_key a (w_gens w)\<rparr>, q)
      | Bump_Under d q \<Rightarrow> Some (w\<lparr>w_gens := bump_generations_under_prefix d (w_gens w)\<rparr>, q)
      | Register a f \<Rightarrow>
          Some (w\<lparr>w_gens := snd (tee_register a (w_gens w))\<rparr>, f (fst (tee_register a (w_gens w))))
      | Current a f \<Rightarrow> Some (w, f (tee_current a (w_gens w)))
      | Release a q \<Rightarrow> Some (w\<lparr>w_gens := tee_release a (w_gens w)\<rparr>, q)
      | Note u q \<Rightarrow> Some (w, q)
      | _ \<Rightarrow> None)"
| "perform (Draw nonce) w p =
     (case p of
        Write_Row k expected etag f \<Rightarrow>
          (let row = encode_avail nonce etag in
           if length nonce = AVAIL_NONCE_LEN \<and> row \<notin> w_drawn w
           then Some (draw row (swapped k expected (Some row) w),
                      f (Inr (fst (compare_and_put k expected (Some row) (w_index w))), row))
           else None)
      | _ \<Rightarrow> None)"
| "perform (Inform r) w p = (case p of Stat a f \<Rightarrow> Some (w, f r) | _ \<Rightarrow> None)"
| "perform (Fetched r) w p =
     (case p of Fetch a f \<Rightarrow> if fetched_etag r \<in> {None, w_current w a} then Some (w, f r) else None | _ \<Rightarrow> None)"
| "perform (Written r etag) w p =
     (case p of
        Write_Below a streams f \<Rightarrow>
          if written_etag r \<in> {None, etag} then Some (w\<lparr>w_current := (w_current w)(a := etag)\<rparr>, f r) else None
      | _ \<Rightarrow> None)"
| "perform (Mutated r etags) w p =
     (case p of
        Mutate m f \<Rightarrow>
          if \<forall>x\<in>set etags. changes touched m r (fst x)
          then (let now = foldr (\<lambda>x c. c(fst x := snd x)) etags (w_current w);
                    torn = filter (\<lambda>x. now x \<noteq> w_current w x \<and> \<not> changes guarded m r x) (map fst etags)
                in Some (w\<lparr>w_current := now, w_torn := w_torn w \<union> set torn\<rparr>, f r))
          else None
      | _ \<Rightarrow> None)"
| "perform (Told outcome) w p = (case p of Outside f \<Rightarrow> Some (w, f outcome) | _ \<Rightarrow> None)"

fun play :: "(nat \<times> move) list \<Rightarrow> cache_world \<times> 'a prog list \<Rightarrow> (cache_world \<times> 'a prog list) option" where
  "play [] x = Some x"
| "play ((i, mv) # script) (w, ps) =
     (if i < length ps
      then (case perform mv w (ps ! i) of None \<Rightarrow> None | Some (w', p) \<Rightarrow> play script (w', ps[i := p]))
      else None)"

lemma foldr_untouched: "x \<notin> fst ` set etags \<Longrightarrow> foldr (\<lambda>y c. c(fst y := snd y)) etags c x = c x"
  by (induction etags) auto

lemma perform_reply:
  assumes "perform mv w p = Some (w', p')"
  shows "reply w p w' p'"
proof (cases mv)
  case Go
  then show ?thesis using assms by (cases p) (auto intro: reply.intros)
next
  case (Draw nonce)
  then show ?thesis using assms
    by (cases p) (auto simp: Let_def fresh_row_def split: if_splits intro!: reply.write_row)
next
  case (Mutated r etags)
  let ?now = "foldr (\<lambda>x c. c(fst x := snd x)) etags (w_current w)"
  have torn: "set (filter (\<lambda>x. ?now x \<noteq> w_current w x \<and> \<not> changes guarded m r x) (map fst etags)) =
      {x. ?now x \<noteq> w_current w x \<and> \<not> changes guarded m r x}" for m
    using foldr_untouched[of _ etags "w_current w"] by auto
  have "agrees_but (changes touched m r) w ?now" if "\<forall>x\<in>set etags. changes touched m r (fst x)" for m
    using that by (auto simp: agrees_but_def intro!: foldr_untouched)
  then show ?thesis using assms Mutated
    by (cases p) (auto simp: Let_def torn simp del: set_filter intro!: reply.mutate split: if_splits)
next
  case (Written r etag)
  then show ?thesis using assms
    by (cases p) (auto simp: agrees_but_def intro!: reply.write_below split: if_splits)
qed (use assms in \<open>cases p; auto intro: reply.intros split: if_splits\<close>)+

lemma play_run:
  "play script x = Some y \<Longrightarrow> pool_step\<^sup>*\<^sup>* x y"
proof (induction script x rule: play.induct)
  case (2 i mv script w ps)
  then obtain w' p where step: "i < length ps" "perform mv w (ps ! i) = Some (w', p)"
    and rest: "play script (w', ps[i := p]) = Some y"
    by (auto split: if_splits option.splits)
  have "pool_step (w, ps) (w', ps[i := p])"
    using step by (intro pool_step.task perform_reply)
  moreover have "pool_step\<^sup>*\<^sup>* (w', ps[i := p]) y" using "2.IH"[OF step(1) step(2)] rest by simp
  ultimately show ?case by (rule converse_rtranclp_into_rtranclp)
qed simp

lemma played_run:
  assumes "case play script x of Some (w, ps) \<Rightarrow> P w ps | None \<Rightarrow> False"
  shows "\<exists>w ps. pool_step\<^sup>*\<^sup>* x (w, ps) \<and> P w ps"
proof (cases "play script x")
  case (Some y)
  then show ?thesis using assms play_run[of script x y] by (cases y) auto
qed (use assms in simp)

section \<open>Sample worlds\<close>

definition sample_cache :: byte_cache where
  "sample_cache = \<lparr>bc_partition = ''p'', bc_lost_backing_fallback = False, bc_max_object_bytes = None,
     bc_max_cache_bytes = None, bc_warm_delegates = False, bc_watches = False, bc_as_str = serialized\<rparr>"

definition sample_dir :: url where "sample_dir = base_url ''s3'' (Some ''b'') ''/d''"
definition sample_object :: url where "sample_object = base_url ''s3'' (Some ''b'') ''/d/a''"
definition play_address :: string where "play_address = serialized sample_object"
definition play_key :: string where "play_key = availability_index_key ''p'' play_address"

definition sample_read :: read_request where
  "sample_read = \<lparr>rd_address = sample_object, rd_options = \<lparr>ro_if_match = None, ro_range = None, ro_max_bytes = None\<rparr>,
     rd_extensions = [READ_TO_BYTES_EXTENSION \<mapsto> []]\<rparr>"

definition sample_row :: string where "sample_row = encode_avail (replicate 16 (CHR ''0'')) ''v1''"

definition cold_world :: cache_world where
  "cold_world = \<lparr>w_index = (\<lambda>_. None), w_gens = [], w_current = (\<lambda>_. Some ''v1''), w_drawn = {},
     w_stuck = {}, w_torn = {}\<rparr>"

definition warm_world :: cache_world where
  "warm_world = cold_world\<lparr>w_index := (\<lambda>_. None)(play_key := Some sample_row), w_drawn := {sample_row}\<rparr>"

text \<open>Mutations are played by rewriting with the verbs alone: the loops that clear a row stay folded.\<close>

lemma sample_row_names: "parse_avail sample_row = Some ''v1''"
  by code_simp

lemma play_keys:
  "availability_index_key ''p'' play_address = play_key"
  "availability_index_key ''p'' (serialized sample_dir) \<noteq> play_key"
  "below_dir (serialized sample_dir) play_address"
  "play_address \<noteq> serialized sample_dir"
  "serialized sample_object = play_address"
  by (simp add: play_key_def play_address_def) code_simp+

lemma sample_cache_simps:
  "bc_partition sample_cache = ''p''" "bc_as_str sample_cache = serialized"
  by (simp_all add: sample_cache_def)

lemmas mutation_run_simps =
  sample_row_names play_keys sample_cache_simps warm_world_def cold_world_def byte_continue_write_def byte_delete_def
  byte_delete_directory_def mutate_and_clear_def mutate_subtree_def mutation_guard_arm_def read_avail_def
  mutation_guard_disarm_unchanged_def drop_clear_def reclaim_def availability_clear_new_def Let_def world_simps
  returned_def names_def

section \<open>The fence\<close>

text \<open>C12. The availability row never outlives its validator. In every interleaving of any number of byte
  cache verbs except continued writes, a row that names a validator names the one the backend has, with three
  exceptions: a verb that changes the address is still running; a removal of the row was answered with an
  error; or a mutation answered with an error had changed the address without guarding it, as a directory
  deletion may its children. Every other failure is covered: lookups, swaps and writes may fail or land after
  failing, rows may be evicted at any time, and a mutation answered with an error may have changed the
  addresses it guards. No verb is cancelled between two calls.\<close>

theorem fence_keeps_row_honest:
  assumes "\<forall>v\<in>set vs. \<forall>a. v \<noteq> V_Continue a"
    and "\<forall>b. w_index w (availability_index_key (bc_partition E) A) = Some b \<longrightarrow> b \<in> w_drawn w"
    and "\<forall>e. names (w_index w (availability_index_key (bc_partition E) A)) e \<longrightarrow> w_current w A = Some e"
    and "pool_step\<^sup>*\<^sup>* (w, map (verb_prog E) vs) (w', ps)"
    and "names (w_index w' (availability_index_key (bc_partition E) A)) e"
  shows "w_current w' A = Some e \<or> (\<exists>i<length vs. verb_touches E (vs ! i) A \<and> \<not> returned (ps ! i)) \<or>
    availability_index_key (bc_partition E) A \<in> w_stuck w' \<or> A \<in> w_torn w'"
proof -
  let ?K = "availability_index_key (bc_partition E) A"
  have "lawful guarded A ?K (map (\<lambda>v. verb_touches E v A) vs ! i) (map (verb_prog E) vs ! i) {} {} False"
    if "i < length vs" for i
    using verb_lawful[where v = "vs ! i" and E = E and A = A] assms(1) that by simp
  then have "w_current w' A = Some e \<or>
      (\<exists>i<length (map (\<lambda>v. verb_touches E v A) vs). map (\<lambda>v. verb_touches E v A) vs ! i \<and> \<not> returned (ps ! i))"
    if "?K \<notin> w_stuck w'" "A \<notin> w_torn w'"
    using assms(2-5) that by (intro lawful_pool_honest[where ps = "map (verb_prog E) vs" and w = w]) simp_all
  then show ?thesis by fastforce
qed

definition fill_script :: "(nat \<times> move) list" where
  "fill_script = [(0, Inform (Inl Err_NotFound)), (0, Go), (0, Go), (0, Draw (replicate 16 (CHR ''1''))),
     (0, Fetched (Inr (Read_Bytes ''hi'' (cached_object_info sample_object 2 (Some ''v1''))))), (0, Go), (0, Go),
     (0, Draw (replicate 16 (CHR ''2'')))]"

lemma fill_plays:
  "case play fill_script (cold_world, map (verb_prog sample_cache) [V_Read sample_read]) of
     Some (w, ps) \<Rightarrow> names (w_index w play_key) ''v1'' \<and> list_all returned ps \<and> w_stuck w = {} \<and> w_torn w = {}
   | None \<Rightarrow> False"
  by code_simp

theorem fence_keeps_row_honest_witness:
  "\<exists>w ps. pool_step\<^sup>*\<^sup>* (cold_world, map (verb_prog sample_cache) [V_Read sample_read]) (w, ps) \<and>
     names (w_index w play_key) ''v1'' \<and> list_all returned ps \<and> w_stuck w = {} \<and> w_torn w = {} \<and>
     w_current w play_address = Some ''v1''"
proof -
  obtain w ps where run: "pool_step\<^sup>*\<^sup>*
      (cold_world, map (verb_prog sample_cache) [V_Read sample_read]) (w, ps)"
    and row: "names (w_index w play_key) ''v1''" and ret: "list_all returned ps"
    and clean: "w_stuck w = {}" "w_torn w = {}"
    using played_run[OF fill_plays] by blast
  have key: "availability_index_key (bc_partition sample_cache) play_address = play_key"
    by (simp add: sample_cache_def play_key_def)
  have "w_current w play_address = Some ''v1''"
    using fence_keeps_row_honest[where vs = "[V_Read sample_read]" and E = sample_cache and A = play_address and w = cold_world
        and w' = w and ps = ps and e = "''v1''"] run row clean
    by (simp add: key cold_world_def names_def)
  then show ?thesis using run row ret clean by blast
qed

text \<open>C39. A continued write that restores the row can undo an invalidation. It removes the row before it asks
  the layer below and, told that the transfer is still under way, puts the row back if it is absent. A delete
  that took effect but was answered with an error has settled the row by removing it, so the row comes back
  naming the deleted object, and both verbs have returned.\<close>

theorem continued_write_restores_stale_row:
  "\<exists>w ps. pool_step\<^sup>*\<^sup>*
       (warm_world, map (verb_prog sample_cache) [V_Continue sample_object, V_Delete sample_object]) (w, ps) \<and>
     list_all returned ps \<and> names (w_index w play_key) ''v1'' \<and> w_current w play_address = None \<and>
     w_stuck w = {} \<and> w_torn w = {} \<and> names (w_index warm_world play_key) ''v1'' \<and> w_current warm_world play_address = Some ''v1''"
proof -
  have played: "case play [(0, Go), (0, Go), (0, Mutated (Inr (Ans_Step (Write_Redirects []))) []),
        (1, Go), (1, Go), (1, Mutated (Inl Err_DeadlineExceeded) [(play_address, None)]), (1, Go), (0, Go)]
      (warm_world, map (verb_prog sample_cache) [V_Continue sample_object, V_Delete sample_object]) of
     Some (w, ps) \<Rightarrow> list_all returned ps \<and> names (w_index w play_key) ''v1'' \<and> w_current w play_address = None \<and>
     w_stuck w = {} \<and> w_torn w = {} \<and> names (w_index warm_world play_key) ''v1'' \<and> w_current warm_world play_address = Some ''v1''
   | None \<Rightarrow> False"
    by (simp add: mutation_run_simps)
  show ?thesis by (rule played_run[OF played])
qed

text \<open>C40. A directory deletion that took effect but was answered with an error leaves the rows of the children.
  The guard of the verb covers the row of the directory alone and the sweep of the subtree runs only after a
  success, so the row of a child goes on naming the validator it had.\<close>

theorem failed_directory_delete_keeps_child_rows:
  "\<exists>w ps. pool_step\<^sup>*\<^sup>*
       (warm_world, map (verb_prog sample_cache) [V_Delete_Directory sample_dir]) (w, ps) \<and>
     list_all returned ps \<and> names (w_index w play_key) ''v1'' \<and> w_current w play_address = None \<and>
     w_stuck w = {} \<and> w_torn w = {play_address}"
proof -
  have played: "case play [(0, Go), (0, Go),
        (0, Mutated (Inl Err_DeadlineExceeded) [(serialized sample_dir, None), (play_address, None)]), (0, Go)]
      (warm_world, map (verb_prog sample_cache) [V_Delete_Directory sample_dir]) of
     Some (w, ps) \<Rightarrow> list_all returned ps \<and> names (w_index w play_key) ''v1'' \<and> w_current w play_address = None \<and>
     w_stuck w = {} \<and> w_torn w = {play_address}
   | None \<Rightarrow> False"
    by (simp add: mutation_run_simps)
  show ?thesis by (rule played_run[OF played])
qed

lemma parse_encode_avail:
  assumes "length nonce = AVAIL_NONCE_LEN" and "etag \<noteq> []" and "utf8_valid etag"
  shows "parse_avail (encode_avail nonce etag) = Some etag"
  using assms by (simp add: parse_avail_def encode_avail_def AVAIL_HEADER_LEN_def Let_def)

end
