(* ===== verification/Spec2Isabelle.thy ===== *)
theory Spec2Isabelle
  imports Ov_Auth_Layer Ov_Policy_Laws Ov_Routing Ov_Retry Ov_Glob Ov_Ordered Ov_Transfer Ov_Alias_Laws
    Ov_Alias_Notify Ov_Exclusive Ov_Meta_Layer_Laws Ov_Watch_Drain_Laws Ov_Byte_Play
begin

text \<open>
  Verification of \<open>ovstorage\<close>, a storage library that puts one address space and one set of
  verbs in front of many backends. A host builds a stack of layers: an auth layer that decides
  whether a request may go on, wrappers that rewrite addresses, retry, or emulate missing verbs,
  a router that picks the child serving an address, and backends. All of them speak in addresses
  (URLs), so the development starts there and works outwards.

  \<^bold>\<open>Foundations.\<close>
  \<^item> \<open>Ov_Prelude\<close>: the string and slice operations of the Rust standard library that the sources
    use, \<open>max_by_key\<close> and the stable descending sort with what they select.
  \<^item> \<open>Ov_Errors\<close> (\<open>ovstorage-layer/src/errors.rs\<close>): error codes and buckets. An error is its code;
    messages and context are opaque. Fallible code returns \<open>error_code + 'a\<close>.
  \<^item> \<open>Ov_Url\<close>: the parsed URL as a record and the crates \<open>url\<close> and \<open>percent-encoding\<close> as the
    parameter \<open>url_crate\<close>. What the code relies on is named: \<open>percent_ok\<close> (encoding and decoding),
    \<open>setters_ok\<close>, \<open>as_str_ok\<close>, \<open>crate_ok\<close> and \<open>fallback_parse_ok\<close>; \<open>ref_crate\<close> is a concrete
    instance that satisfies them and on which the witnesses compute.
  \<^item> \<open>Ov_Types\<close> (\<open>types.rs\<close>): the records and enumerations the layers exchange.

  \<^bold>\<open>Addresses.\<close>
  \<^item> \<open>Ov_Path\<close> and \<open>Ov_Address\<close> (\<open>ovstorage-layer/src/address.rs\<close>): path normalization,
    canonicalization, the predicates on raw spellings. The byte loop equals segment-wise
    resolution; canonicalization is idempotent, total on accepted spellings, keeps the node and
    separates different nodes.
  \<^item> \<open>Ov_Plugin_Address\<close> and \<open>Ov_Projection\<close> (\<open>ovstorage-plugin/src/address.rs\<close>): containment,
    keys, joining and prefix replacement. Containment is a partial order on nodes; replacing a
    prefix exchanges exactly the segments of the prefix; joining a relative name and taking the
    key are inverse.
  \<^item> \<open>Ov_Scopes\<close> states, as the locale \<open>nested_scopes\<close>, what every scope selection needs: scopes
    that cover one address and have the same rank are the same scope. It is interpreted by the
    route table's scopes (\<open>route_scopes\<close>) and by the policy's scopes (\<open>policy_scopes\<close>).
  \<^item> \<open>Ov_Fallback\<close> (\<open>fallback.rs\<close>, \<open>spellings.rs\<close>): anonymous scheme fallback roots, which
    contain only their scheme and grant no mutation, and the spellings codec.
  \<^item> \<open>Ov_Routing\<close> (\<open>ovstorage-plugin/src/routing.rs\<close>): the route table answers with the most
    specific root, then with the fallback tier; pagination returns every item once; listings of
    flat stores have their markers folded.

  \<^bold>\<open>Authorization.\<close>
  \<^item> \<open>Ov_Glob\<close>, \<open>Ov_Policy\<close>, \<open>Ov_Policy_Laws\<close> (\<open>ovstorage-authz-policy\<close>): the decision is that of
    the unique most specific matching rule, and a policy that loads never leaves a decision to
    the order of two differently spelled rules.
  \<^item> \<open>Ov_Credential\<close>, \<open>Ov_Ext\<close>, \<open>Ov_Authn\<close>: the credential codec, the request extensions and the
    authentication modes, among them the trusted-proxy gate. JWT verification and SHA-256 are
    parameters.
  \<^item> \<open>Ov_Auth_Layer\<close> (\<open>ovstorage-authz-layer/src/lib.rs\<close>): every verb behind its check. The layer
    below sees only requests the policy granted, on canonical addresses, stamped with the
    authenticated principal; listings, root streams and change events are filtered exactly. The
    state machine \<open>gate_step\<close> interleaves requests with policy reloads, and \<open>gate_trace\<close> records them, so
    that each call is measured against the policy installed when it was made (\<open>in_force\<close>).

  \<^bold>\<open>Wrappers.\<close>
  \<^item> \<open>Ov_Retry\<close> (\<open>ovstorage-retry\<close>, \<open>retry.rs\<close>): the attempt loops as one locale, \<open>attempt_loop\<close>,
    interpreted for the plain and the HTTP loop. Attempt counters are 32-bit words with saturating
    increment; delays are bounded.
  \<^item> \<open>Ov_Transfer\<close> (\<open>copy_rename_fallback.rs\<close>, \<open>convert.rs\<close>): copy and rename built from read,
    write and delete. The layer below is a parameter; \<open>store_contract\<close> says what a store promises
    of its own verbs, and \<open>mem_layer\<close> satisfies it. A rename never loses the object, a copy is
    whole or fails, buffering obeys its cap.
  \<^item> \<open>Ov_Alias\<close>, \<open>Ov_Alias_Laws\<close> (\<open>alias.rs\<close>): chains of prefix rules. Chains are bounded by
    \<open>MAX_ALIAS_HOPS\<close> (the counter \<open>left\<close> of \<open>walk_loop\<close> is the number of hops that remain, so the
    recursion is structural), results project back to the caller's spelling, suppressed addresses
    are neither dispatched nor advertised.
  \<^item> \<open>Ov_Alias_Rules\<close> (\<open>alias.rs\<close>): the rules at run time, added, removed and updated as connections,
    derived from the spellings a backend connection accepts, and authentication through an alias.
    The layer below is the parameter record \<open>inner_layer\<close>, whose calls map the whole graph like the
    router's children. \<open>Ov_Alias_Run\<close> states the contract of a commit as the locale \<open>rule_commit\<close> and
    interprets it for all five commits; the step relation \<open>al_step\<close> interleaves them with
    derivations and removals. Every rule set in force is valid (the locale \<open>valid_commit\<close>), the changes sent replay to the rows
    listed, derived rules follow their connection as long as no removal overtakes the add that
    derives (\<open>apart\<close>), and an example shows what happens otherwise. The code does not check
    that the id of a derived rule is unused, and a caller can choose an id of the generated form: a run
    records that it happened (\<open>ru_collided\<close>), and only what is said of ids and rows depends on it.
    \<open>Ov_Alias_Notify\<close>: root notifications, each after a new query of the roots below (\<open>broadcasts\<close>), replay to
    the advertised roots while those below stay the same, an explicit add takes effect whole
    or not at all (\<open>rules_held\<close> is what the \<open>mutations\<close> lock gives), a sign-in shows only the alias.
  \<^item> \<open>Ov_Ordered\<close> (\<open>ordered.rs\<close>): tickets that keep notifications in commit order. \<open>seq_step\<close> has
    one rule per atomic access of a handle or of the owner; order and progress hold on every
    reachable state. Tickets are 64-bit and the panic at the end of the range is a value.

  \<^bold>\<open>Router.\<close>
  \<^item> \<open>Ov_Router\<close> (\<open>ovstorage-plugin-core/src/router.rs\<close>): the router's state (route table, targets,
    claimed roots, quarantine, generations), the rebuild of its table from the roots its children
    publish, every verb, and the connection operations with their add gate, conflict check,
    rollback and catch-up. The children are the parameter record \<open>children\<close>: each of its calls maps
    the whole graph, the router's own state included, so that a call stands for everything that
    happens while the router awaits it.
  \<^item> \<open>Ov_Router_Laws\<close>: rebuilds that finish out of order converge, an incumbent keeps its route, a
    refused connection never routes, an add reports what happened. \<open>forward_only\<close>
    says that generations only grow while the router waits; the witness instantiates it.
  \<^item> \<open>Ov_Exclusive\<close>: adds, removals and rebuilds interleaved at every await, as the step relation
    \<open>ex_step\<close>. Two accepted connections never serve one node from different children while what is
    published is free of collisions (the parameter \<open>fine\<close>); without that condition a detached
    catch-up defeats it.

  \<^bold>\<open>Metadata cache.\<close>
  \<^item> \<open>Ov_Meta_Cache\<close> (\<open>ovstorage-cache/src/metadata.rs\<close>): rows, lookup, insertion with eviction, and
    the sweeps. The locale \<open>row_cache\<close> is what a client may rely on; it is interpreted on the cache
    (\<open>mcache\<close>), and both the history of a row and the proofs about the layer rest on it.
    \<open>Ov_Meta_Laws\<close>: on every sequence of operations the budget is kept and a hit is the last thing
    stored under its key; eviction is by least recent use; the string rule of the sweeps is containment
    of addresses. \<open>cacheable_url\<close> describes the addresses that reach the cache, \<open>hostless_ok\<close> what
    the crate does to an address without a host.
  \<^item> \<open>Ov_Meta_Layer\<close> (\<open>ovstorage-plugin-cache/src/metadata_cache.rs\<close>): stat, list, the list-backed
    stat, mutations and change events. The layer below is the parameter record \<open>meta_inner\<close>; the
    credential digest is a parameter. \<open>Ov_Meta_Layer_Laws\<close> runs the layer over \<open>logged\<close>, the layer below
    with a record of its calls: every answer was given to a request of the same principal and credential,
    a stat after a mutation asks again, and a rename leaves the rows below a renamed directory. Calls are
    taken one after the other: a request that is under way while another invalidates can store what it
    read before, until the time to live ends, as the comments in \<open>notification_drain.rs\<close> say.

  \<^bold>\<open>Watch invalidation\<close> (\<open>ovstorage-plugin-cache/src/notification_drain.rs\<close>). A cache layer watches what it
  holds: a manager keeps one root drain per address root that can be watched, a root whose watch is refused
  has its cached directories watched instead, and a supervisor chooses which.
  \<^item> \<open>Ov_Watch_Scopes\<close>: the registry of cached directories (\<open>watch_scopes\<close>), the refusals it remembers, and
    the advertised roots with their generations and probe budgets (\<open>scoped_watch_state\<close>). Times are
    nanoseconds, generations natural numbers; a notification is the flag \<open>ws_wake\<close>.
    \<open>Ov_Watch_Laws\<close>: the locale \<open>bounded_rows\<close> is what eviction owes a table and is interpreted for both
    tables, \<open>guarded_report\<close> is what a generation check owes a transition and is interpreted for all five;
    \<open>scoped_step\<close> interleaves every operation. The registry stays bounded, an advertisement that is gone
    never speaks again, and the probe budget pauses a root that grants nothing.
  \<^item> \<open>Ov_Watch_Select\<close>: the selection of the directories to watch, the supervisor's pass and its loop, and
    the pass over the roots. \<open>finished\<close> says which cancelled drains have let go of their thread, \<open>late\<close> for
    which a stale drain is found to have opened after all, \<open>sweep\<close> is the layer's handler for a prefix.
    \<open>Ov_Watch_Select_Laws\<close>: the locale \<open>selection\<close> is interpreted on the stages of \<open>select_scopes\<close>;
    \<open>supervisor_step\<close> interleaves passes with what the drains and the manager do. Watches and stuck threads
    are bounded, drains follow their routes, and the loop sleeps without a timer only when nothing is due.
  \<^item> \<open>Ov_Watch_Drain\<close>: one drain (\<open>cache_watch_drain_loop\<close>, a recursion over the inputs of its iterations),
    the end of its task, the manager's loop and the embedded state. \<open>Ov_Watch_Drain_Laws\<close>: waits are bounded,
    an outage is charged once, a refused directory is withheld, the manager's drains are exactly the
    watchable roots it knows, and a directory whose watch is given up has nothing left in the metadata cache.
    A refused root that is advertised without a trailing slash is watched itself, against the intent of the code.

  \<^bold>\<open>Byte cache\<close> (\<open>ovstorage-plugin-cache/src/byte_cache.rs\<close>, over \<open>ovstorage-cache/src/byte.rs\<close>). Bodies are
  stored under the address and a strong validator. While the backend cannot answer, the availability row of
  an address says under which validator to look, so that row must never name one the backend has replaced.
  \<^item> \<open>Ov_Byte_Index\<close>: rows and keys, the guards, the publications fenced on a snapshot of the row, the
    invalidations and the generations of running tees. A task is a tree of calls (\<open>prog\<close>), each of which
    takes effect at one instant; an awaiting function takes its continuation. \<open>Ov_Byte_Layer\<close>: every verb of
    the wrapper as such a program, with the read tee, the write-through and the watch handlers.
  \<^item> \<open>Ov_Byte_Run\<close>: \<open>reply\<close> answers one call in a world of rows, generations and current validators, with
    failures that may have landed, and \<open>pool_step\<close> interleaves any number of tasks with evictions. The
    protocol of one row (\<open>row_effect\<close>) is stated without programs and its invariant proved; \<open>lawful\<close> is what a
    program must do to follow it. \<open>Ov_Byte_Laws\<close>: one rule per function, and every verb except a continued
    write is lawful. \<open>Ov_Byte_Play\<close> plays scripts of answers, which gives concrete runs: the row stays honest in
    every interleaving apart from two kinds of failure, a continued write can put back a row that a removal had settled, and a directory
    deletion that fails after taking effect leaves the rows of the children.
    The two kinds are recorded in the world: a removal of the row that was answered with an
    error, which is the degraded state the source accepts when it arms a guard, and a failed mutation that
    changed an address it does not guard. A task is never cancelled between two calls.

  \<^bold>\<open>Bounds.\<close> \<open>fetch_all\<close>, the client of pagination, has the length of the listing plus one as fuel,
  and the theorem says that this is enough. \<open>run_handle\<close> runs a handle for \<open>moves_left\<close> moves, and
  the theorem says that it is done then. Every other loop terminates by a measure.

  \<^bold>\<open>Not modelled.\<close> Network and file access of the backends, the plugin ABI, command line, Python
  and MCP front ends, and log records have no logic of their own that a definition could capture
  without the outside world. Left out although they have logic of
  their own: the store below the byte cache (staging, leases, eviction) and its configuration, the envelope format, the listener configuration of the auth layer,
  the cloud backends' translation of errors and listings.
\<close>

end
